(* ===== verification/Deck_Prelude.thy ===== *)
theory Deck_Prelude
  imports Main "HOL-Library.Word" "HOL-Library.Signed_Division"
begin

section \<open>Shared vocabulary of the Retro Deck development\<close>

text \<open>
  Types, character classes, buffer operations and arithmetic facts that the component
  theories share.  A C++ \<open>std::string\<close> is a \<open>string\<close> (a list of byte-sized characters),
  a byte buffer is a list of \<open>8 word\<close>, a C \<open>int\<close> whose values provably stay far inside
  its range is an \<open>int\<close>, and truncating division is \<open>sdiv\<close> of \<open>Signed_Division\<close>.
\<close>

unbundle bit_operations_syntax

type_synonym byte = "8 word"
type_synonym u16 = "16 word"
type_synonym u32 = "32 word"

named_theorems buffer_lengths \<open>operations on buffers that keep their length\<close>
named_theorems frame_rules \<open>state fields that an operation leaves alone\<close>

subsection \<open>Characters as bytes, and the C locale's character classes\<close>

definition byte_of :: "char \<Rightarrow> nat" where
  "byte_of c = of_char c"

definition is_space :: "char \<Rightarrow> bool" where
  "is_space c = (byte_of c = 32 \<or> (9 \<le> byte_of c \<and> byte_of c \<le> 13))"

definition is_digit :: "char \<Rightarrow> bool" where
  "is_digit c = (48 \<le> byte_of c \<and> byte_of c \<le> 57)"

definition is_lower :: "char \<Rightarrow> bool" where
  "is_lower c = (97 \<le> byte_of c \<and> byte_of c \<le> 122)"

definition is_upper :: "char \<Rightarrow> bool" where
  "is_upper c = (65 \<le> byte_of c \<and> byte_of c \<le> 90)"

definition digit_value :: "char \<Rightarrow> nat" where
  "digit_value c = byte_of c - 48"

definition digit_char :: "nat \<Rightarrow> char" where
  "digit_char d = char_of (48 + d)"

lemma byte_of_less_256 [simp]: "byte_of c < 256"
  by (simp add: byte_of_def)

lemma byte_of_inject [simp]: "byte_of c = byte_of d \<longleftrightarrow> c = d"
  by (simp add: byte_of_def)

lemma byte_of_char_of [simp]: "byte_of (char_of n) = n mod 256"
  by (simp add: byte_of_def)

lemma char_of_byte_of [simp]: "char_of (byte_of c) = c"
  by (simp add: byte_of_def)

lemma byte_of_digit_char [simp]: "d < 10 \<Longrightarrow> byte_of (digit_char d) = 48 + d"
  by (simp add: digit_char_def)

lemma is_digit_digit_char [simp]: "d < 10 \<Longrightarrow> is_digit (digit_char d)"
  by (simp add: is_digit_def)

lemma digit_value_digit_char [simp]: "d < 10 \<Longrightarrow> digit_value (digit_char d) = d"
  by (simp add: digit_value_def)

lemma digit_char_digit_value [simp]: "is_digit c \<Longrightarrow> digit_char (digit_value c) = c"
  by (simp add: digit_char_def digit_value_def is_digit_def byte_of_def)

lemma digit_value_less [simp]: "is_digit c \<Longrightarrow> digit_value c < 10"
  by (auto simp: digit_value_def is_digit_def)

subsection \<open>Decimal numerals: \<open>std::to_string\<close> of an unsigned value\<close>

fun decimal :: "nat \<Rightarrow> string" where
  "decimal n = (if n < 10 then [digit_char n]
                else decimal (n div 10) @ [digit_char (n mod 10)])"

declare decimal.simps [simp del]

definition decimal_value :: "string \<Rightarrow> nat" where
  "decimal_value s = foldl (\<lambda>v c. v * 10 + digit_value c) 0 s"

lemma decimal_nonempty [simp]: "decimal n \<noteq> []"
  by (subst decimal.simps) simp

lemma decimal_digits: "list_all is_digit (decimal n)"
proof (induction n rule: decimal.induct)
  case (1 n)
  then show ?case by (subst decimal.simps) simp
qed

lemma decimal_value_decimal [simp]: "decimal_value (decimal n) = n"
proof (induction n rule: decimal.induct)
  case (1 n)
  then show ?case by (subst decimal.simps) (simp add: decimal_value_def)
qed

lemma decimal_small: "n < 10 \<Longrightarrow> decimal n = [digit_char n]"
  by (subst decimal.simps) simp

lemma length_decimal: "n < 10 ^ k \<Longrightarrow> 0 < k \<Longrightarrow> length (decimal n) \<le> k"
proof (induction k arbitrary: n)
  case (Suc k)
  show ?case
  proof (cases "n < 10")
    case True
    then show ?thesis by (simp add: decimal_small)
  next
    case False
    then have "0 < k" "n div 10 < 10 ^ k" using Suc.prems by (cases k; simp add: less_mult_imp_div_less)+
    then show ?thesis using Suc.IH [of "n div 10"] False by (subst decimal.simps) simp
  qed
qed simp

lemma decimal_inject [simp]: "decimal m = decimal n \<longleftrightarrow> m = n"
  by (metis decimal_value_decimal)

lemma decimal_value_snoc [simp]:
  "decimal_value (s @ [c]) = decimal_value s * 10 + digit_value c"
  by (simp add: decimal_value_def)

lemma decimal_value_Nil [simp]: "decimal_value [] = 0"
  by (simp add: decimal_value_def)

lemma foldl_digits_mono: "(v :: nat) \<le> foldl (\<lambda>v c. v * 10 + digit_value c) v s"
proof (induction s arbitrary: v)
  case (Cons c s)
  have "v \<le> v * 10 + digit_value c" by simp
  then show ?case using Cons [of "v * 10 + digit_value c"] by simp
qed simp

subsection \<open>\<open>std::string\<close> searches\<close>

definition substr :: "string \<Rightarrow> nat \<Rightarrow> nat \<Rightarrow> string" where
  "substr s pos len = take len (drop pos s)"

text \<open>\<open>s.find(c, start)\<close> and \<open>s.rfind(c, last)\<close>; \<open>None\<close> is \<open>npos\<close>.\<close>

definition find_char :: "char \<Rightarrow> string \<Rightarrow> nat \<Rightarrow> nat option" where
  "find_char c s start = List.find (\<lambda>i. s ! i = c) [start..<length s]"

definition rfind_char :: "char \<Rightarrow> string \<Rightarrow> nat \<Rightarrow> nat option" where
  "rfind_char c s pos = List.find (\<lambda>i. s ! i = c) (rev [0..<min (pos + 1) (length s)])"

lemma find_char_Some:
  assumes "find_char c s start = Some i"
  shows "start \<le> i" "i < length s" "s ! i = c"
  using assms by (auto simp: find_char_def find_Some_iff)

lemma find_char_first:
  assumes "find_char c s start = Some i" "start \<le> k" "k < i"
  shows "s ! k \<noteq> c"
proof -
  from assms(1) obtain j where j: "j < length [start..<length s]" "i = [start..<length s] ! j"
    and first: "\<forall>l<j. s ! ([start..<length s] ! l) \<noteq> c"
    by (auto simp: find_char_def find_Some_iff)
  then have "i = start + j" by simp
  then show ?thesis using first [rule_format, of "k - start"] assms(2,3) j by simp
qed

lemma find_char_None:
  "find_char c s start = None \<longleftrightarrow> (\<forall>k. start \<le> k \<and> k < length s \<longrightarrow> s ! k \<noteq> c)"
  by (auto simp: find_char_def find_None_iff)

lemma rfind_char_Some:
  assumes "rfind_char c s pos = Some i"
  shows "i \<le> pos" "i < length s" "s ! i = c"
proof -
  let ?is = "rev [0..<min (pos + 1) (length s)]"
  from assms obtain k where "k < length ?is" "i = ?is ! k" "s ! i = c"
    unfolding rfind_char_def by (auto simp: find_Some_iff)
  then have "i \<in> set ?is" "s ! i = c" using nth_mem by blast+
  then show "i \<le> pos" "i < length s" "s ! i = c" by auto
qed

lemma find_char_progress:
  "find_char c s start = Some i \<Longrightarrow> length s - Suc i < length s - start"
  using find_char_Some [of c s start i] by linarith

subsection \<open>Buffers: \<open>memcpy\<close> and \<open>std::fill\<close> on index ranges\<close>

definition blit :: "'a list \<Rightarrow> nat \<Rightarrow> 'a list \<Rightarrow> 'a list" where
  "blit dst off src = take off dst @ src @ drop (off + length src) dst"

definition fill_range :: "'a list \<Rightarrow> nat \<Rightarrow> nat \<Rightarrow> 'a \<Rightarrow> 'a list" where
  "fill_range xs lo hi v = take lo xs @ replicate (hi - lo) v @ drop hi xs"

lemma length_blit [simp, buffer_lengths]:
  "off + length src \<le> length dst \<Longrightarrow> length (blit dst off src) = length dst"
  by (simp add: blit_def)

lemma nth_blit:
  assumes "off + length src \<le> length dst" "i < length dst"
  shows "blit dst off src ! i =
    (if off \<le> i \<and> i < off + length src then src ! (i - off) else dst ! i)"
  using assms by (auto simp: blit_def nth_append min_def)

lemma blit_Nil [simp]: "blit dst off [] = dst"
  by (simp add: blit_def)

lemma blit_append:
  assumes "off + length xs + length ys \<le> length dst"
  shows "blit (blit dst off xs) (off + length xs) ys = blit dst off (xs @ ys)"
proof (rule nth_equalityI)
  show "length (blit (blit dst off xs) (off + length xs) ys) = length (blit dst off (xs @ ys))"
    using assms by simp
next
  fix i assume "i < length (blit (blit dst off xs) (off + length xs) ys)"
  then have "i < length dst" using assms by simp
  then show "blit (blit dst off xs) (off + length xs) ys ! i = blit dst off (xs @ ys) ! i"
    using assms by (auto simp: nth_blit nth_append)
qed

lemma blit_single: "off < length dst \<Longrightarrow> blit dst off [x] = dst[off := x]"
  by (simp add: blit_def upd_conv_take_nth_drop)

lemma take_blit_prefix [simp]:
  "off \<le> length dst \<Longrightarrow> take (off + length src) (blit dst off src) = take off dst @ src"
  by (simp add: blit_def)

lemma blit_all: "length src = length dst \<Longrightarrow> blit dst 0 src = src"
  by (simp add: blit_def)

lemma length_fill_range [simp, buffer_lengths]:
  "lo \<le> hi \<Longrightarrow> hi \<le> length xs \<Longrightarrow> length (fill_range xs lo hi v) = length xs"
  by (simp add: fill_range_def)

lemma nth_fill_range:
  assumes "lo \<le> hi" "hi \<le> length xs" "i < length xs"
  shows "fill_range xs lo hi v ! i = (if lo \<le> i \<and> i < hi then v else xs ! i)"
  using assms by (auto simp: fill_range_def nth_append min_def)

lemma drop_eq_nth_Cons: "i < length xs \<Longrightarrow> drop i xs = xs ! i # drop (Suc i) xs"
  by (rule Cons_nth_drop_Suc [symmetric])

lemma unat_byte_of_nat: "n < 256 \<Longrightarrow> unat (word_of_nat n :: byte) = n"
  by (simp add: unat_of_nat take_bit_eq_mod)

lemma drop_eq_append_length:
  assumes "drop i s = xs @ ys" "xs \<noteq> []"
  shows "i + length xs \<le> length s" "drop (i + length xs) s = ys"
proof -
  have "length s - i = length xs + length ys" "0 < length xs"
    using assms by (auto dest: arg_cong [of _ _ length])
  then show "i + length xs \<le> length s" by arith
  show "drop (i + length xs) s = ys"
    using assms(1) by (metis add.commute append_eq_conv_conj drop_drop)
qed

lemma numeral_4_eq_4: "4 = Suc (Suc (Suc (Suc 0)))"
  by simp

subsection \<open>Truncating division and clamping\<close>

definition clamp :: "int \<Rightarrow> int \<Rightarrow> int \<Rightarrow> int" where
  "clamp lo hi x = max lo (min hi x)"

lemma clamp_bounds: "lo \<le> hi \<Longrightarrow> lo \<le> clamp lo hi x \<and> clamp lo hi x \<le> hi"
  by (auto simp: clamp_def)

lemma clamp_id: "lo \<le> x \<Longrightarrow> x \<le> hi \<Longrightarrow> clamp lo hi x = x"
  by (auto simp: clamp_def)

lemma sdiv_nonneg: "0 \<le> (a::int) \<Longrightarrow> 0 < b \<Longrightarrow> a sdiv b = a div b"
  by (cases "a = 0") (auto simp: signed_divide_int_def)

lemma sdiv_minus_left: "(- a :: int) sdiv b = - (a sdiv b)"
  by (simp add: signed_divide_int_def)

lemma abs_sdiv_le: "\<bar>(a::int) sdiv b\<bar> \<le> \<bar>a\<bar>"
  using sdiv_int_range [of a b] by auto

end
