(* ===== verification/Nes_Sram.thy ===== *)
theory Nes_Sram
  imports Deck_Prelude
begin

section \<open>The encoded NES battery save (\<open>src/nes_sram.h\<close>)\<close>

text \<open>
  The InfoNES save format: one tag byte, then literal bytes and runs \<open>tag, value, length-1\<close>.
  Buffers are byte lists; an output buffer keeps its length and is returned with the
  writes made so far, whether the call succeeded or not.  A null pointer is \<open>None\<close>.
\<close>

subsection \<open>The encoder\<close>

definition NesSramMaximumEncodedSize :: "nat \<Rightarrow> nat" where
  "NesSramMaximumEncodedSize input_size = input_size * 3 + 1"

definition byte_frequency :: "byte list \<Rightarrow> nat list" where
  "byte_frequency input =
     foldl (\<lambda>freq b. freq[unat b := freq ! unat b + 1]) (replicate 256 0) input"

definition least_frequent :: "nat list \<Rightarrow> byte" where
  "least_frequent freq =
     foldl (\<lambda>tag v. if freq ! v < freq ! unat tag then word_of_nat v else tag) 0 [1..<256]"

function run_length :: "byte list \<Rightarrow> nat \<Rightarrow> nat \<Rightarrow> nat" where
  "run_length input i r =
     (if i + r < length input \<and> r < 256 \<and> input ! (i + r) = input ! i
      then run_length input i (Suc r) else r)"
  by pat_completeness auto
termination
  by (relation "measure (\<lambda>(input, i, r). 256 - r)") auto

declare run_length.simps [simp del]

lemma run_length_ge: "r \<le> run_length input i r"
proof (induction input i r rule: run_length.induct)
  case (1 input i r)
  then show ?case by (subst run_length.simps) auto
qed

function encode_loop ::
  "byte list \<Rightarrow> byte \<Rightarrow> byte list \<Rightarrow> nat \<Rightarrow> nat \<Rightarrow> nat option \<times> byte list" where
  "encode_loop input tag out written i =
     (if i < length input then
        (let v = input ! i; r = run_length input i 1 in
         if 4 \<le> r \<or> v = tag then
           (if length out - written < 3 then (None, out)
            else encode_loop input tag
                   (out[written := tag, written + 1 := v, written + 2 := word_of_nat (r - 1)])
                   (written + 3) (i + r))
         else
           (if length out - written < r then (None, out)
            else encode_loop input tag (fill_range out written (written + r) v)
                   (written + r) (i + r)))
      else (Some written, out))"
  by pat_completeness auto
termination
proof (relation "measure (\<lambda>(input, tag, out, written, i). length input - i)", goal_cases)
  case 1
  then show ?case by simp
next
  case (2 input tag out written i v r)
  then show ?case using run_length_ge [of 1 input i] by simp
next
  case (3 input tag out written i v r)
  then show ?case using run_length_ge [of 1 input i] by simp
qed

declare encode_loop.simps [simp del]

definition NesSramEncode ::
  "byte list option \<Rightarrow> byte list option \<Rightarrow> nat option \<times> byte list option" where
  "NesSramEncode input output =
     (case (input, output) of
        (Some xs, Some out) \<Rightarrow>
          if xs = [] \<or> out = [] then (None, output)
          else (let tag = least_frequent (byte_frequency xs);
                    (result, out') = encode_loop xs tag (out[0 := tag]) 1 0
                in (result, Some out'))
      | _ \<Rightarrow> (None, output))"

subsection \<open>The decoder\<close>

function decode_loop ::
  "byte list \<Rightarrow> byte \<Rightarrow> byte list \<Rightarrow> nat \<Rightarrow> nat \<Rightarrow> bool \<times> byte list" where
  "decode_loop input tag out i oi =
     (if oi < length out then
        (if length input \<le> i then (False, out)
         else (let v = input ! i in
               if v \<noteq> tag then decode_loop input tag (out[oi := v]) (i + 1) (oi + 1)
               else if length input - (i + 1) < 2 then (False, out)
               else (let repeated = input ! (i + 1); r = unat (input ! (i + 2)) + 1 in
                     if length out - oi < r then (False, out)
                     else decode_loop input tag (fill_range out oi (oi + r) repeated)
                            (i + 3) (oi + r))))
      else (True, out))"
  by pat_completeness auto
termination
  by (relation "measure (\<lambda>(input, tag, out, i, oi). length input - i)") auto

declare decode_loop.simps [simp del]

definition NesSramDecode :: "byte list option \<Rightarrow> byte list option \<Rightarrow> bool \<times> byte list option" where
  "NesSramDecode input output =
     (case (input, output) of
        (Some xs, Some out) \<Rightarrow>
          if xs = [] \<or> out = [] then (False, output)
          else (let (ok, out') = decode_loop xs (xs ! 0) out 1 0 in (ok, Some out'))
      | _ \<Rightarrow> (False, output))"

subsection \<open>The format: what the encoder writes, without buffers\<close>

definition encode_run :: "byte \<Rightarrow> byte \<Rightarrow> nat \<Rightarrow> byte list" where
  "encode_run tag v r =
     (if 4 \<le> r \<or> v = tag then [tag, v, word_of_nat (r - 1)] else replicate r v)"

function encode_from :: "byte list \<Rightarrow> byte \<Rightarrow> nat \<Rightarrow> byte list" where
  "encode_from input tag i =
     (if i < length input
      then encode_run tag (input ! i) (run_length input i 1) @
           encode_from input tag (i + run_length input i 1)
      else [])"
  by pat_completeness auto
termination
proof (relation "measure (\<lambda>(input, tag, i). length input - i)", goal_cases)
  case 1
  then show ?case by simp
next
  case (2 input tag i)
  then show ?case using run_length_ge [of 1 input i] by simp
qed

declare encode_from.simps [simp del]

lemma run_length_bounds:
  assumes "i < length input" "i + r \<le> length input" "r \<le> 256"
  shows "i + run_length input i r \<le> length input \<and> run_length input i r \<le> 256"
  using assms
proof (induction input i r rule: run_length.induct)
  case (1 input i r)
  then show ?case by (subst (1 2) run_length.simps) auto
qed

lemma run_length_same:
  assumes "\<forall>k<r. input ! (i + k) = input ! i" "k < run_length input i r"
  shows "input ! (i + k) = input ! i"
  using assms
proof (induction input i r rule: run_length.induct)
  case (1 input i r)
  show ?case
  proof (cases "i + r < length input \<and> r < 256 \<and> input ! (i + r) = input ! i")
    case True
    then have "\<forall>k<Suc r. input ! (i + k) = input ! i"
      using "1.prems"(1) less_Suc_eq by auto
    moreover have "k < run_length input i (Suc r)"
      using "1.prems"(2) True by (simp add: run_length.simps [of input i r])
    ultimately show ?thesis using "1.IH" True by blast
  next
    case False
    then have "k < r" using "1.prems"(2) by (subst (asm) run_length.simps) auto
    then show ?thesis using "1.prems"(1) by simp
  qed
qed

lemma run_take:
  assumes "i < length input" and r: "r = run_length input i 1"
  shows "take r (drop i input) = replicate r (input ! i)"
proof (rule nth_equalityI)
  have b: "i + r \<le> length input"
    using run_length_bounds [of i input 1] assms by simp
  then show "length (take r (drop i input)) = length (replicate r (input ! i))"
    by simp
  fix k assume "k < length (take r (drop i input))"
  then have "k < r" by simp
  then show "take r (drop i input) ! k = replicate r (input ! i) ! k"
    using run_length_same [of 1 input i k] b r by simp
qed

lemma length_encode_run:
  "1 \<le> r \<Longrightarrow> length (encode_run tag v r) \<le> 3 * r"
  by (auto simp: encode_run_def)

lemma length_encode_from: "length (encode_from input tag i) \<le> 3 * (length input - i)"
proof (induction input tag i rule: encode_from.induct)
  case (1 input tag i)
  show ?case
  proof (cases "i < length input")
    case True
    let ?r = "run_length input i 1"
    have "length (encode_run tag (input ! i) ?r) \<le> 3 * ?r"
      using length_encode_run run_length_ge by blast
    moreover have "length (encode_from input tag (i + ?r)) \<le> 3 * (length input - (i + ?r))"
      using "1.IH" True by blast
    moreover have "i + ?r \<le> length input"
      using run_length_bounds [of i input 1] True by simp
    ultimately show ?thesis using True by (subst encode_from.simps) simp
  next
    case False
    then show ?thesis by (subst encode_from.simps) simp
  qed
qed

lemma fill_range_blit: "fill_range xs lo (lo + n) v = blit xs lo (replicate n v)"
  by (simp add: fill_range_def blit_def)

lemma update3_blit:
  "w + 2 < length out \<Longrightarrow> out[w := a, w + 1 := b, w + 2 := c] = blit out w [a, b, c]"
  by (rule nth_equalityI) (auto simp: nth_blit nth_list_update nth_Cons split: nat.splits)

text \<open>One round of the loop writes one run if it fits, and fails otherwise.\<close>

lemma encode_loop_step:
  assumes "i < length input" "w \<le> length out"
    and "r = run_length input i 1" and "c = encode_run tag (input ! i) r"
  shows "encode_loop input tag out w i =
    (if length c \<le> length out - w
     then encode_loop input tag (blit out w c) (w + length c) (i + r)
     else (None, out))"
proof (cases "4 \<le> r \<or> input ! i = tag")
  case True
  then have c: "c = [tag, input ! i, word_of_nat (r - 1)]"
    using assms(4) by (simp add: encode_run_def)
  show ?thesis
    using True assms(1,3) unfolding c
    by (subst encode_loop.simps) (auto simp: Let_def update3_blit [symmetric] numeral_3_eq_3)
next
  case False
  then have c: "c = replicate r (input ! i)"
    using assms(4) by (simp add: encode_run_def)
  show ?thesis
    using False assms(1,3) unfolding c
    by (subst encode_loop.simps) (auto simp: Let_def fill_range_blit)
qed

lemma encode_loop_done: "\<not> i < length input \<Longrightarrow> encode_loop input tag out w i = (Some w, out)"
  by (subst encode_loop.simps) simp

lemma encode_from_step:
  "i < length input \<Longrightarrow> r = run_length input i 1 \<Longrightarrow>
   encode_from input tag i = encode_run tag (input ! i) r @ encode_from input tag (i + r)"
  by (subst encode_from.simps) simp

lemma encode_from_done [simp]: "\<not> i < length input \<Longrightarrow> encode_from input tag i = []"
  by (subst encode_from.simps) simp

text \<open>The encoder loop writes exactly \<open>encode_from\<close> when it fits, and fails otherwise.\<close>

lemma encode_loop_fits:
  assumes "w + length (encode_from input tag i) \<le> length out"
  shows "encode_loop input tag out w i =
    (Some (w + length (encode_from input tag i)), blit out w (encode_from input tag i))"
  using assms
proof (induction input tag i arbitrary: out w rule: encode_from.induct)
  case (1 input tag i)
  show ?case
  proof (cases "i < length input")
    case False
    then show ?thesis by (simp add: encode_loop_done)
  next
    case True
    define r c e where "r = run_length input i 1" and "c = encode_run tag (input ! i) r"
      and "e = encode_from input tag (i + r)"
    have ef: "encode_from input tag i = c @ e"
      using encode_from_step [OF True r_def] by (simp add: c_def e_def)
    have room: "w + length c + length e \<le> length out"
      using "1.prems" ef by simp
    have fit: "length c \<le> length out - w" using room by linarith
    have "encode_loop input tag out w i =
        encode_loop input tag (blit out w c) (w + length c) (i + r)"
      using encode_loop_step [OF True _ r_def c_def, of w out] room by (simp add: fit)
    also have "\<dots> = (Some (w + length c + length e), blit (blit out w c) (w + length c) e)"
      using "1.IH" [OF True, of "w + length c" "blit out w c"] room
      by (simp add: r_def e_def)
    also have "\<dots> = (Some (w + length (c @ e)), blit out w (c @ e))"
      using room by (simp add: blit_append)
    finally show ?thesis by (simp add: ef)
  qed
qed

lemma encode_loop_overflow:
  assumes "w \<le> length out" "length out < w + length (encode_from input tag i)"
  shows "fst (encode_loop input tag out w i) = None"
  using assms
proof (induction input tag i arbitrary: out w rule: encode_from.induct)
  case (1 input tag i)
  then have i: "i < length input" by (cases "i < length input") auto
  define r c where "r = run_length input i 1" and "c = encode_run tag (input ! i) r"
  have ef: "encode_from input tag i = c @ encode_from input tag (i + r)"
    using encode_from_step [OF i r_def] by (simp add: c_def)
  show ?case
    using encode_loop_step [OF i "1.prems"(1) r_def c_def]
      "1.IH" [OF i, of "w + length c" "blit out w c"] "1.prems" ef
    by (auto simp: r_def)
qed

subsection \<open>The decoder reads back what the format says\<close>

lemma decode_loop_done: "\<not> oi < length out \<Longrightarrow> decode_loop input tag out i oi = (True, out)"
  by (subst decode_loop.simps) simp

lemma length_decode_loop [simp, buffer_lengths]:
  "length (snd (decode_loop input tag out i oi)) = length out"
proof (induction input tag out i oi rule: decode_loop.induct)
  case (1 input tag out i oi)
  then show ?case by (subst decode_loop.simps) (auto simp: Let_def)
qed

lemma decode_loop_literal:
  assumes "oi < length out" "i < length input" "input ! i \<noteq> tag"
  shows "decode_loop input tag out i oi = decode_loop input tag (out[oi := input ! i]) (i + 1) (oi + 1)"
  using assms by (subst decode_loop.simps) (simp add: Let_def)

lemma decode_loop_run:
  assumes "i + 2 < length input" "input ! i = tag"
    and "r = unat (input ! (i + 2)) + 1" "oi + r \<le> length out"
  shows "decode_loop input tag out i oi =
    decode_loop input tag (blit out oi (replicate r (input ! (i + 1)))) (i + 3) (oi + r)"
proof -
  have r: "Suc (unat (input ! Suc (Suc i))) = r" using assms(3) by simp
  then have "oi < length out" using assms(4) by linarith
  then show ?thesis
    using assms(1,2,4) by (subst decode_loop.simps) (auto simp: Let_def r fill_range_blit)
qed

lemma decode_loop_literals:
  assumes "oi + n \<le> length out" "take n (drop i input) = replicate n v" "i + n \<le> length input"
    and "v \<noteq> tag"
  shows "decode_loop input tag out i oi =
    decode_loop input tag (blit out oi (replicate n v)) (i + n) (oi + n)"
  using assms
proof (induction n arbitrary: out i oi)
  case 0
  then show ?case by simp
next
  case (Suc n)
  have i: "i < length input" using Suc.prems(3) by simp
  then have v: "input ! i = v" and rest: "take n (drop (Suc i) input) = replicate n v"
    using Suc.prems(2) by (auto simp: drop_eq_nth_Cons)
  have "decode_loop input tag out i oi = decode_loop input tag (blit out oi [v]) (i + 1) (oi + 1)"
    using decode_loop_literal [of oi out i input tag] Suc.prems i v by (simp add: blit_single)
  also have "\<dots> = decode_loop input tag (blit (blit out oi [v]) (oi + 1) (replicate n v))
      (i + 1 + n) (oi + 1 + n)"
    using Suc.IH [of "oi + 1" "blit out oi [v]" "i + 1"] Suc.prems rest by simp
  also have "blit (blit out oi [v]) (oi + 1) (replicate n v) = blit out oi (replicate (Suc n) v)"
    using blit_append [of oi "[v]" "replicate n v" out] Suc.prems(1) by simp
  finally show ?case by simp
qed

lemma decode_loop_encode_run:
  assumes j: "take (length c) (drop j input) = c" "j + length c \<le> length input"
    and c: "c = encode_run tag v r" and r: "1 \<le> r" "r \<le> 256" and out: "oi + r \<le> length out"
  shows "decode_loop input tag out j oi =
    decode_loop input tag (blit out oi (replicate r v)) (j + length c) (oi + r)"
proof (cases "4 \<le> r \<or> v = tag")
  case True
  obtain q where q: "r = Suc q" "q < 256" using r by (cases r) auto
  with True have cs: "c = [tag, v, word_of_nat q]" using c by (auto simp: encode_run_def)
  have "\<And>k. k < length c \<Longrightarrow> input ! (j + k) = c ! k"
    using j by (metis nth_drop nth_take add_leD1)
  from this [of 0] this [of 1] this [of 2]
  have n: "input ! j = tag" "input ! (j + 1) = v" "input ! (j + 2) = word_of_nat q"
    using cs by auto
  show ?thesis
    using decode_loop_run [of j input tag r oi out] n q out j(2) cs
    by (simp add: unat_byte_of_nat numeral_3_eq_3)
next
  case False
  then show ?thesis
    using decode_loop_literals [of oi r out j input v tag] j c out by (simp add: encode_run_def)
qed

lemma decode_encode_from:
  assumes "drop j code = encode_from input tag i @ rest"
    and "i \<le> length input" "length out = length input"
  shows "decode_loop code tag out j i = (True, take i out @ drop i input)"
  using assms
proof (induction input tag i arbitrary: out j rule: encode_from.induct)
  case (1 input tag i)
  show ?case
  proof (cases "i < length input")
    case False
    then show ?thesis using "1.prems" by (simp add: decode_loop_done)
  next
    case True
    define r c e where "r = run_length input i 1" and "c = encode_run tag (input ! i) r"
      and "e = encode_from input tag (i + r)"
    have ef: "drop j code = c @ e @ rest"
      using encode_from_step [OF True r_def, of tag] "1.prems"(1) by (simp add: c_def e_def)
    have r: "1 \<le> r" "r \<le> 256" "i + r \<le> length input"
      using run_length_ge [of 1 input i] run_length_bounds [OF True, of 1] True
      by (auto simp: r_def)
    have "c \<noteq> []" using r(1) by (auto simp: c_def encode_run_def)
    then have "0 < length c" by simp
    moreover have "length code - j = length c + length (e @ rest)"
      using ef by (metis length_append length_drop)
    ultimately have "j + length c \<le> length code" by arith
    then have lc: "take (length c) (drop j code) = c" "j + length c \<le> length code"
      using ef by simp_all
    have "decode_loop code tag out j i =
        decode_loop code tag (blit out i (replicate r (input ! i))) (j + length c) (i + r)"
      using decode_loop_encode_run [OF lc c_def r(1,2), of i out] r "1.prems"(3) by simp
    also have "\<dots> = (True, take (i + r) (blit out i (replicate r (input ! i))) @ drop (i + r) input)"
    proof -
      have "drop (j + length c) code = e @ rest"
        using ef by (metis add.commute append_eq_conv_conj drop_drop)
      then show ?thesis
        using "1.IH" [OF True] r "1.prems"(3) by (simp add: r_def e_def)
    qed
    also have "take (i + r) (blit out i (replicate r (input ! i))) = take i out @ replicate r (input ! i)"
      using take_blit_prefix [of i out "replicate r (input ! i)"] "1.prems" by simp
    also have "replicate r (input ! i) = take r (drop i input)"
      using run_take [OF True r_def] by simp
    also have "(take i out @ take r (drop i input)) @ drop (i + r) input = take i out @ drop i input"
      by (metis append.assoc append_take_drop_id drop_drop add.commute)
    finally show ?thesis .
  qed
qed

subsection \<open>Properties of the two entry points\<close>

lemma NesSramEncode_eq:
  assumes "xs \<noteq> []" "out \<noteq> []" and "tag = least_frequent (byte_frequency xs)"
  shows "fst (NesSramEncode (Some xs) (Some out)) =
    (if 1 + length (encode_from xs tag 0) \<le> length out
     then Some (1 + length (encode_from xs tag 0)) else None)"
    and "1 + length (encode_from xs tag 0) \<le> length out \<Longrightarrow>
      snd (NesSramEncode (Some xs) (Some out)) = Some (blit out 0 (tag # encode_from xs tag 0))"
proof -
  have ne: "0 < length out" using assms by simp
  have b: "out[0 := tag] = blit out 0 [tag]" using ne by (simp add: blit_single)
  show "fst (NesSramEncode (Some xs) (Some out)) =
    (if 1 + length (encode_from xs tag 0) \<le> length out
     then Some (1 + length (encode_from xs tag 0)) else None)"
    using assms(1,2) encode_loop_fits [of 1 xs tag 0 "out[0 := tag]"]
      encode_loop_overflow [of 1 "out[0 := tag]" xs tag 0] ne
    by (auto simp: NesSramEncode_def Let_def assms(3) [symmetric] split: prod.splits)
  show "snd (NesSramEncode (Some xs) (Some out)) = Some (blit out 0 (tag # encode_from xs tag 0))"
    if "1 + length (encode_from xs tag 0) \<le> length out"
    using assms(1,2) encode_loop_fits [of 1 xs tag 0 "out[0 := tag]"] that
      blit_append [of 0 "[tag]" "encode_from xs tag 0" out]
    by (auto simp: NesSramEncode_def Let_def b assms(3) [symmetric] split: prod.splits)
qed


lemma snd_encode_loop_length [simp, buffer_lengths]:
  "w \<le> length out \<Longrightarrow> length (snd (encode_loop input tag out w i)) = length out"
proof (induction input tag i arbitrary: out w rule: encode_from.induct)
  case (1 input tag i)
  show ?case
  proof (cases "i < length input")
    case False
    then show ?thesis by (simp add: encode_loop_done)
  next
    case True
    define r c where "r = run_length input i 1" and "c = encode_run tag (input ! i) r"
    show ?thesis
      using encode_loop_step [OF True "1.prems" r_def c_def]
        "1.IH" [OF True, of "w + length c" "blit out w c"] "1.prems"
      by (auto simp: r_def)
  qed
qed

text \<open>
  C1. Round trip: whatever buffer the save was encoded into, decoding the bytes the encoder
  reports gives back the original save memory and reports success.
\<close>

theorem sram_roundtrip:
  assumes "NesSramEncode (Some xs) (Some buf) = (Some n, Some out)"
    and "length dst = length xs"
  shows "NesSramDecode (Some (take n out)) (Some dst) = (True, Some xs)"
proof -
  have ne: "xs \<noteq> []" "buf \<noteq> []"
    using assms(1) by (auto simp: NesSramEncode_def split: if_splits)
  define tag e where "tag = least_frequent (byte_frequency xs)" and "e = encode_from xs tag 0"
  have fits: "1 + length e \<le> length buf" and n: "n = 1 + length e"
    using NesSramEncode_eq(1) [OF ne tag_def] assms(1) by (auto simp: e_def split: if_splits)
  have "out = blit buf 0 (tag # e)"
    using NesSramEncode_eq(2) [OF ne tag_def] fits assms(1) by (simp add: e_def)
  then have code: "take n out = tag # e"
    using n fits take_blit_prefix [of 0 buf "tag # e"] by simp
  have "decode_loop (tag # e) tag dst 1 0 = (True, xs)"
    using decode_encode_from [of 1 "tag # e" xs tag 0 "[]" dst] assms(2) by (simp add: e_def)
  then show ?thesis
    using ne(1) assms(2) by (auto simp: NesSramDecode_def code)
qed

text \<open>
  Capacity: an output buffer of \<open>NesSramMaximumEncodedSize\<close> bytes is always enough, and
  the encoder never reports more than that many bytes.
\<close>

theorem sram_capacity_suffices:
  assumes "xs \<noteq> []" and "NesSramMaximumEncodedSize (length xs) \<le> length buf"
  shows "\<exists>n out. NesSramEncode (Some xs) (Some buf) = (Some n, Some out) \<and>
    n \<le> NesSramMaximumEncodedSize (length xs) \<and> length out = length buf"
proof -
  define tag where "tag = least_frequent (byte_frequency xs)"
  have buf: "buf \<noteq> []" using assms(2) by (auto simp: NesSramMaximumEncodedSize_def)
  have len: "1 + length (encode_from xs tag 0) \<le> NesSramMaximumEncodedSize (length xs)"
    using length_encode_from [of xs tag 0] by (simp add: NesSramMaximumEncodedSize_def)
  then have fits: "1 + length (encode_from xs tag 0) \<le> length buf" using assms(2) by simp
  then have "NesSramEncode (Some xs) (Some buf) =
      (Some (1 + length (encode_from xs tag 0)), Some (blit buf 0 (tag # encode_from xs tag 0)))"
    using NesSramEncode_eq [OF assms(1) buf tag_def] by (metis prod.collapse)
  then show ?thesis using len fits by (intro exI conjI) (assumption | simp)+
qed

theorem sram_roundtrip_witness:
  "NesSramEncode (Some [5, 5, 5, 5, 5, 9]) (Some (replicate 6 0)) =
     (Some 5, Some [0, 0, 5, 4, 9, 0]) \<and>
   NesSramDecode (Some (take 5 [0, 0, 5, 4, 9, 0])) (Some (replicate 6 0)) =
     (True, Some [5, 5, 5, 5, 5, 9])"
proof -
  have h: "NesSramEncode (Some [5, 5, 5, 5, 5, 9]) (Some (replicate 6 0)) =
     (Some 5, Some [0, 0, 5, 4, 9, 0])"
    by code_simp
  show ?thesis using h sram_roundtrip [OF h, of "replicate 6 0"] by simp
qed

theorem sram_capacity_suffices_witness:
  "\<exists>n out. NesSramEncode (Some [7, 7]) (Some (replicate 7 0)) = (Some n, Some out) \<and>
    n \<le> NesSramMaximumEncodedSize (length [7 :: byte, 7]) \<and> length out = length (replicate 7 (0 :: byte))"
  by (rule sram_capacity_suffices) (simp_all add: NesSramMaximumEncodedSize_def)

end
