(* ===== verification/Menu_Text.thy ===== *)
theory Menu_Text
  imports Deck_Prelude
begin

section \<open>Text helpers of the dashboard (\<open>src/menu_text.cpp\<close>)\<close>

text \<open>
  Path checks, trimming, UTF-8 validation, the ASCII fallback rendering and tab splitting.
  A loop over a string index is a recursive function on that index; code points are \<open>nat\<close>,
  since four bytes give at most 21 bits and the 32-bit shifts of the source cannot overflow.
\<close>

definition PATH_MAX :: nat where
  "PATH_MAX = 4096"

definition is_absolute_path :: "string \<Rightarrow> bool" where
  "is_absolute_path path = (path \<noteq> [] \<and> path ! 0 = CHR ''/'' \<and> length path < PATH_MAX)"

subsection \<open>Trimming\<close>

function trim_begin :: "string \<Rightarrow> nat \<Rightarrow> nat" where
  "trim_begin s b =
     (if b < length s \<and> is_space (s ! b) then trim_begin s (b + 1) else b)"
  by pat_completeness auto
termination
  by (relation "measure (\<lambda>(s, b). length s - b)") auto

fun trim_end :: "string \<Rightarrow> nat \<Rightarrow> nat \<Rightarrow> nat" where
  "trim_end s b e =
     (if b < e \<and> is_space (s ! (e - 1)) then trim_end s b (e - 1) else e)"

declare trim_begin.simps [simp del] trim_end.simps [simp del]

definition trim_ascii_space :: "string \<Rightarrow> string" where
  "trim_ascii_space s =
     (let b = trim_begin s 0; e = trim_end s b (length s)
      in substr s b (e - b))"

lemma trim_begin_drop:
  "b \<le> length s \<Longrightarrow> drop (trim_begin s b) s = dropWhile is_space (drop b s) \<and>
     b \<le> trim_begin s b \<and> trim_begin s b \<le> length s"
proof (induction s b rule: trim_begin.induct)
  case (1 s b)
  show ?case
  proof (cases "b < length s \<and> is_space (s ! b)")
    case True
    then show ?thesis
      using "1.IH" by (subst (1 2 3) trim_begin.simps) (auto simp: drop_eq_nth_Cons)
  next
    case False
    then show ?thesis
      using "1.prems"
      by (subst (1 2 3) trim_begin.simps) (cases "b < length s"; auto simp: drop_eq_nth_Cons)
  qed
qed

lemma trim_end_take:
  "b \<le> e \<Longrightarrow> e \<le> length s \<Longrightarrow>
     take (trim_end s b e - b) (drop b s) =
       rev (dropWhile is_space (rev (take (e - b) (drop b s)))) \<and>
     b \<le> trim_end s b e \<and> trim_end s b e \<le> e"
proof (induction s b e rule: trim_end.induct)
  case (1 s b e)
  show ?case
  proof (cases "b < e")
    case False
    then show ?thesis using "1.prems" by (subst (1 2 3) trim_end.simps) simp
  next
    case True
    then have snoc: "take (e - b) (drop b s) = take (e - 1 - b) (drop b s) @ [s ! (e - 1)]"
      using "1.prems" take_Suc_conv_app_nth [of "e - 1 - b" "drop b s"]
      by (simp add: Suc_diff_Suc)
    show ?thesis
    proof (cases "is_space (s ! (e - 1))")
      case space: True
      then have "trim_end s b e = trim_end s b (e - 1)"
        using True by (subst trim_end.simps) simp
      then show ?thesis
        using "1.IH" "1.prems" True space by (simp add: snoc) linarith
    next
      case False
      then have "trim_end s b e = e"
        using True by (subst trim_end.simps) simp
      then show ?thesis using "1.prems" False by (simp add: snoc)
    qed
  qed
qed

lemma trim_ascii_space_eq:
  "trim_ascii_space s = rev (dropWhile is_space (rev (dropWhile is_space s)))"
proof -
  let ?b = "trim_begin s 0"
  have "take (length s - ?b) (drop ?b s) = drop ?b s" by simp
  then show ?thesis
    using trim_begin_drop [of 0 s] trim_end_take [of ?b "length s" s]
    by (simp add: trim_ascii_space_def substr_def Let_def)
qed

lemma trim_keeps_ends:
  "trim_ascii_space s = s \<longleftrightarrow> s = [] \<or> (\<not> is_space (hd s) \<and> \<not> is_space (last s))"
proof (cases s)
  case Nil
  then show ?thesis by (simp add: trim_ascii_space_eq)
next
  case (Cons c cs)
  have len: "length (dropWhile is_space s) \<le> length s"
    "length (dropWhile is_space (rev (dropWhile is_space s))) \<le> length (dropWhile is_space s)"
    using length_dropWhile_le [of is_space s]
      length_dropWhile_le [of is_space "rev (dropWhile is_space s)"] by simp_all
  show ?thesis
  proof
    assume t: "trim_ascii_space s = s"
    have "length (dropWhile is_space (rev (dropWhile is_space s))) = length s"
      using arg_cong [OF t, of length] unfolding trim_ascii_space_eq length_rev .
    then have "length (dropWhile is_space s) = length s"
      using len by linarith
    then have 1: "dropWhile is_space s = s"
      by (metis append_same_eq length_0_conv length_append self_append_conv2
          add_cancel_left_left takeWhile_dropWhile_id)
    then have "dropWhile is_space (rev s) = rev s"
      using t by (metis rev_rev_ident trim_ascii_space_eq)
    then show "s = [] \<or> (\<not> is_space (hd s) \<and> \<not> is_space (last s))"
      using 1 Cons by (metis dropWhile_eq_self_iff hd_rev rev_is_Nil_conv)
  next
    assume "s = [] \<or> (\<not> is_space (hd s) \<and> \<not> is_space (last s))"
    then have "dropWhile is_space s = s" "dropWhile is_space (rev s) = rev s"
      by (auto simp: dropWhile_eq_self_iff hd_rev)
    then show "trim_ascii_space s = s" by (simp add: trim_ascii_space_eq)
  qed
qed

subsection \<open>UTF-8 validation\<close>

text \<open>The lead byte gives the payload bits and the length of the sequence.\<close>

definition utf8_lead :: "nat \<Rightarrow> (nat \<times> nat) option" where
  "utf8_lead first =
     (if first < 0x80 then Some (first, 1)
      else if first AND 0xe0 = 0xc0 then Some (first AND 0x1f, 2)
      else if first AND 0xf0 = 0xe0 then Some (first AND 0x0f, 3)
      else if first AND 0xf8 = 0xf0 then Some (first AND 0x07, 4)
      else None)"

fun utf8_continuation :: "string \<Rightarrow> nat \<Rightarrow> nat option" where
  "utf8_continuation [] codepoint = Some codepoint"
| "utf8_continuation (c # cs) codepoint =
     (if byte_of c AND 0xc0 \<noteq> 0x80 then None
      else utf8_continuation cs (push_bit 6 codepoint OR (byte_of c AND 0x3f)))"

definition utf8_rejected :: "nat \<Rightarrow> nat \<Rightarrow> bool" where
  "utf8_rejected len codepoint =
     ((len = 2 \<and> codepoint < 0x80) \<or> (len = 3 \<and> codepoint < 0x800) \<or>
      (len = 4 \<and> codepoint < 0x10000) \<or> codepoint > 0x10ffff \<or>
      (codepoint \<ge> 0xd800 \<and> codepoint \<le> 0xdfff))"

definition control_codepoint :: "nat \<Rightarrow> bool" where
  "control_codepoint codepoint = (codepoint < 0x20 \<or> codepoint = 0x7f)"

lemma utf8_lead_length: "utf8_lead first = Some (cp, len) \<Longrightarrow> 1 \<le> len \<and> len \<le> 4"
  by (auto simp: utf8_lead_def split: if_splits)

function utf8_loop :: "string \<Rightarrow> nat \<Rightarrow> nat \<Rightarrow> nat \<Rightarrow> bool" where
  "utf8_loop s max_codepoints i count =
     (if i < length s then
        (case utf8_lead (byte_of (s ! i)) of
           None \<Rightarrow> False
         | Some (lead, len) \<Rightarrow>
             if length s < i + len then False
             else (case utf8_continuation (substr s (i + 1) (len - 1)) lead of
                     None \<Rightarrow> False
                   | Some codepoint \<Rightarrow>
                       if utf8_rejected len codepoint then False
                       else if control_codepoint codepoint then False
                       else if max_codepoints < count + 1 then False
                       else utf8_loop s max_codepoints (i + len) (count + 1)))
      else True)"
  by pat_completeness auto
termination
  by (relation "measure (\<lambda>(s, m, i, count). length s - i)")
    (auto dest: utf8_lead_length)

declare utf8_loop.simps [simp del]

definition valid_utf8_text :: "string \<Rightarrow> nat \<Rightarrow> bool \<Rightarrow> bool" where
  "valid_utf8_text s max_codepoints allow_empty =
     (if s = [] then allow_empty else utf8_loop s max_codepoints 0 0)"

subsection \<open>ASCII rendering and tab splitting\<close>

definition display_length :: "nat \<Rightarrow> nat" where
  "display_length first =
     (if first AND 0xe0 = 0xc0 then 2
      else if first AND 0xf0 = 0xe0 then 3
      else if first AND 0xf8 = 0xf0 then 4
      else 1)"

lemma display_length_pos [simp]: "0 < display_length first"
  by (simp add: display_length_def)

function display_ascii_from :: "string \<Rightarrow> nat \<Rightarrow> string" where
  "display_ascii_from s i =
     (if i < length s then
        (let first = byte_of (s ! i) in
         if first < 0x80 then s ! i # display_ascii_from s (i + 1)
         else CHR ''?'' # display_ascii_from s
                (i + min (display_length first) (length s - i)))
      else [])"
  by pat_completeness auto
termination
  by (relation "measure (\<lambda>(s, i). length s - i)") (auto simp: min_def intro!: diff_less_mono2)

declare display_ascii_from.simps [simp del]

definition display_ascii :: "string \<Rightarrow> string" where
  "display_ascii s = display_ascii_from s 0"

definition TAB :: char where
  "TAB = char_of (9 :: nat)"

function split_tabs_from :: "string \<Rightarrow> nat \<Rightarrow> string list" where
  "split_tabs_from line start =
     (case find_char TAB line start of
        None \<Rightarrow> [drop start line]
      | Some tab \<Rightarrow> substr line start (tab - start) # split_tabs_from line (tab + 1))"
  by pat_completeness auto
termination
  by (relation "measure (\<lambda>(line, start). length line - start)")
    (auto dest: find_char_progress)

declare split_tabs_from.simps [simp del]

definition split_tabs :: "string \<Rightarrow> string list" where
  "split_tabs line = split_tabs_from line 0"

subsection \<open>What UTF-8 validation accepts\<close>

definition utf8_encode :: "nat \<Rightarrow> string" where
  "utf8_encode cp =
     (if cp < 0x80 then [char_of cp]
      else if cp < 0x800 then [char_of (0xc0 + cp div 64), char_of (0x80 + cp mod 64)]
      else if cp < 0x10000 then
        [char_of (0xe0 + cp div 4096), char_of (0x80 + (cp div 64) mod 64),
         char_of (0x80 + cp mod 64)]
      else [char_of (0xf0 + cp div 262144), char_of (0x80 + (cp div 4096) mod 64),
            char_of (0x80 + (cp div 64) mod 64), char_of (0x80 + cp mod 64)])"

definition text_scalar :: "nat \<Rightarrow> bool" where
  "text_scalar cp = (cp \<le> 0x10ffff \<and> \<not> (0xd800 \<le> cp \<and> cp \<le> 0xdfff) \<and> \<not> control_codepoint cp)"

text \<open>The bit tests of the source as ranges and remainders of a byte.\<close>

lemma low_bits:
  "(n::nat) AND 0x3f = n mod 64" "n AND 0x1f = n mod 32" "n AND 0x0f = n mod 16"
  "n AND 0x07 = n mod 8"
  using take_bit_eq_mask [of 6 n] take_bit_eq_mask [of 5 n] take_bit_eq_mask [of 4 n]
    take_bit_eq_mask [of 3 n]
  by (simp_all add: take_bit_eq_mod mask_eq_exp_minus_1)

lemma high_bits: "(b::nat) AND push_bit k (mask n) = (b div 2 ^ k mod 2 ^ n) * 2 ^ k"
proof -
  have "b AND push_bit k (mask n) = push_bit k (take_bit n (drop_bit k b))"
    by (auto simp: bit_eq_iff bit_simps)
  then show ?thesis by (simp add: push_bit_eq_mult take_bit_eq_mod drop_bit_eq_div)
qed

lemma div_block:
  assumes "0 < k" "v = q * k" "w = v + k"
  shows "((b::nat) div k * k = v) = (v \<le> b \<and> b < w)"
proof -
  have "(b div k * k = v) = (b div k = q)" using assms by auto
  also have "\<dots> = (v \<le> b \<and> b < w)"
  proof
    assume "b div k = q"
    then show "v \<le> b \<and> b < w"
      using assms dividend_less_div_times [of k b] by (auto simp: add.commute)
  next
    assume "v \<le> b \<and> b < w"
    then show "b div k = q" using assms by (intro div_nat_eqI) (auto simp: algebra_simps)
  qed
  finally show ?thesis .
qed

lemma lead_ranges:
  assumes "b < (256::nat)"
  shows "(b AND 0xe0 = 0xc0) = (192 \<le> b \<and> b < 224)"
    "(b AND 0xf0 = 0xe0) = (224 \<le> b \<and> b < 240)"
    "(b AND 0xf8 = 0xf0) = (240 \<le> b \<and> b < 248)"
    "(b AND 0xc0 = 0x80) = (128 \<le> b \<and> b < 192)"
proof -
  have "b div 32 < 8" "b div 16 < 16" "b div 8 < 32" "b div 64 < 4" using assms by simp_all
  then have "b AND 0xe0 = b div 32 * 32" "b AND 0xf0 = b div 16 * 16"
    "b AND 0xf8 = b div 8 * 8" "b AND 0xc0 = b div 64 * 64"
    using high_bits [of b 5 3] high_bits [of b 4 4] high_bits [of b 3 5] high_bits [of b 6 2]
    by (simp_all add: mask_eq_exp_minus_1 push_bit_eq_mult)
  moreover have "(b div 32 * 32 = 192) = (192 \<le> b \<and> b < 224)"
    "(b div 16 * 16 = 224) = (224 \<le> b \<and> b < 240)"
    "(b div 8 * 8 = 240) = (240 \<le> b \<and> b < 248)"
    "(b div 64 * 64 = 128) = (128 \<le> b \<and> b < 192)"
    using div_block [of 32 192 6 224 b] div_block [of 16 224 14 240 b]
      div_block [of 8 240 30 248 b] div_block [of 64 128 2 192 b] by simp_all
  ultimately show "(b AND 0xe0 = 0xc0) = (192 \<le> b \<and> b < 224)"
    "(b AND 0xf0 = 0xe0) = (224 \<le> b \<and> b < 240)"
    "(b AND 0xf8 = 0xf0) = (240 \<le> b \<and> b < 248)"
    "(b AND 0xc0 = 0x80) = (128 \<le> b \<and> b < 192)"
    by simp_all
qed

lemma shift_or: "push_bit 6 (a::nat) OR (b mod 64) = a * 64 + b mod 64"
proof -
  have "push_bit 6 a + take_bit 6 b = push_bit 6 a OR take_bit 6 b"
    by (rule disjunctive_add_eq_or) (auto simp: bit_eq_iff bit_simps)
  then show ?thesis by (simp add: take_bit_eq_mod push_bit_eq_mult)
qed

lemma utf8_continuation_Cons:
  "utf8_continuation (c # cs) cp =
    (if 128 \<le> byte_of c \<and> byte_of c < 192
     then utf8_continuation cs (cp * 64 + byte_of c mod 64) else None)"
  using lead_ranges(4) [of "byte_of c"] by (simp add: low_bits shift_or)

declare utf8_continuation.simps(2) [simp del]

lemma utf8_lead_ranges:
  "b < 256 \<Longrightarrow> utf8_lead b =
     (if b < 128 then Some (b, 1)
      else if 192 \<le> b \<and> b < 224 then Some (b mod 32, 2)
      else if 224 \<le> b \<and> b < 240 then Some (b mod 16, 3)
      else if 240 \<le> b \<and> b < 248 then Some (b mod 8, 4)
      else None)"
  by (simp add: utf8_lead_def lead_ranges low_bits)

text \<open>One step of the loop on the unread suffix.\<close>

definition utf8_step :: "string \<Rightarrow> (nat \<times> nat) option" where
  "utf8_step t =
     (case utf8_lead (byte_of (hd t)) of
        None \<Rightarrow> None
      | Some (lead, len) \<Rightarrow>
          if length t < len then None
          else (case utf8_continuation (take (len - 1) (tl t)) lead of
                  None \<Rightarrow> None
                | Some cp \<Rightarrow> if utf8_rejected len cp \<or> control_codepoint cp then None
                             else Some (cp, len)))"

lemma utf8_loop_step:
  assumes "i < length s"
  shows "utf8_loop s m i count =
    (case utf8_step (drop i s) of None \<Rightarrow> False
     | Some (cp, len) \<Rightarrow> count < m \<and> utf8_loop s m (i + len) (count + 1))"
proof -
  have suffix: "tl (drop i s) = drop (i + 1) s" by (simp add: drop_Suc tl_drop)
  have room: "length (drop i s) < len \<longleftrightarrow> length s < i + len" for len using assms by auto
  show ?thesis
    using assms unfolding utf8_step_def suffix room hd_drop_conv_nth [OF assms] substr_def
    by (subst utf8_loop.simps) (auto simp: substr_def split: option.split)
qed

text \<open>The payload bits that a lead or continuation byte carries.\<close>

lemma payload_bits:
  "a < 32 \<Longrightarrow> (192 + a) mod 32 = (a::nat)" "a < 16 \<Longrightarrow> (224 + a) mod 16 = (a::nat)"
  "a < 8 \<Longrightarrow> (240 + a) mod 8 = (a::nat)" "a < 64 \<Longrightarrow> (128 + a) mod 64 = (a::nat)"
  using mod_mult_self1 [of a 6 32] mod_mult_self1 [of a 14 16] mod_mult_self1 [of a 30 8]
    mod_mult_self1 [of a 2 64]
  by (simp_all add: add.commute)

lemmas utf8_eval = utf8_step_def utf8_lead_ranges utf8_rejected_def utf8_continuation_Cons
  payload_bits text_scalar_def numeral_2_eq_2 numeral_3_eq_3

lemma utf8_step_one:
  "a < 128 \<Longrightarrow> text_scalar a \<Longrightarrow> utf8_step (char_of a # rest) = Some (a, 1)"
  by (simp add: utf8_eval)

lemma utf8_step_two:
  assumes "2 \<le> a" "a < 32" "b < 64" and "text_scalar (a * 64 + b)"
  shows "utf8_step (char_of (192 + a) # char_of (128 + b) # rest) = Some (a * 64 + b, 2)"
  using assms by (simp add: utf8_eval)

lemma utf8_step_three:
  assumes "a < 16" "b < 64" "c < 64" "0x800 \<le> (a * 64 + b) * 64 + c"
    and "text_scalar ((a * 64 + b) * 64 + c)"
  shows "utf8_step (char_of (224 + a) # char_of (128 + b) # char_of (128 + c) # rest) =
    Some ((a * 64 + b) * 64 + c, 3)"
  using assms by (simp add: utf8_eval)

lemma utf8_step_four:
  assumes "a < 8" "b < 64" "c < 64" "d < 64" "0x10000 \<le> ((a * 64 + b) * 64 + c) * 64 + d"
    and "text_scalar (((a * 64 + b) * 64 + c) * 64 + d)"
  shows "utf8_step (char_of (240 + a) # char_of (128 + b) # char_of (128 + c) #
      char_of (128 + d) # rest) = Some (((a * 64 + b) * 64 + c) * 64 + d, 4)"
  using assms by (simp add: utf8_eval)

lemma div_mod64: "(n::nat) = n div 64 * 64 + n mod 64"
  by simp

lemma utf8_encode_step:
  assumes "text_scalar cp"
  shows "utf8_step (utf8_encode cp @ rest) = Some (cp, length (utf8_encode cp))"
proof -
  have le: "cp \<le> 0x10ffff" using assms by (simp add: text_scalar_def)
  have two: "cp = cp div 64 * 64 + cp mod 64"
    and three: "cp = (cp div 4096 * 64 + cp div 64 mod 64) * 64 + cp mod 64"
    and four: "cp = ((cp div 262144 * 64 + cp div 4096 mod 64) * 64 + cp div 64 mod 64) * 64 + cp mod 64"
    using div_mod64 [of cp] div_mod64 [of "cp div 64"] div_mod64 [of "cp div 4096"]
      div_mult2_eq [of cp 64 64] div_mult2_eq [of cp 4096 64] by simp_all
  consider "cp < 0x80" | "0x80 \<le> cp" "cp < 0x800" | "0x800 \<le> cp" "cp < 0x10000"
    | "0x10000 \<le> cp" by fastforce
  then show ?thesis
  proof cases
    case 1
    then show ?thesis using assms utf8_step_one by (simp add: utf8_encode_def)
  next
    case 2
    then have "2 \<le> cp div 64" "cp div 64 < 32" by simp_all
    moreover have "utf8_encode cp = [char_of (192 + cp div 64), char_of (128 + cp mod 64)]"
      using 2 by (simp add: utf8_encode_def)
    ultimately show ?thesis
      using assms utf8_step_two [of "cp div 64" "cp mod 64" rest] two by simp
  next
    case 3
    then have "cp div 4096 < 16" by simp
    then show ?thesis
      using 3 assms utf8_step_three [of "cp div 4096" "cp div 64 mod 64" "cp mod 64" rest]
      unfolding three [symmetric] by (simp add: utf8_encode_def)
  next
    case 4
    then have "cp div 262144 < 8" using le by simp
    then show ?thesis
      using 4 assms utf8_step_four
        [of "cp div 262144" "cp div 4096 mod 64" "cp div 64 mod 64" "cp mod 64" rest]
      unfolding four [symmetric] by (simp add: utf8_encode_def)
  qed
qed

text \<open>Conversely, what a step accepts is the encoding of the code point it returns.\<close>

lemma pack64: "b < 64 \<Longrightarrow> (n * 64 + b) div 64 = n \<and> (n * 64 + b) mod 64 = (b::nat)"
  by simp

lemma utf8_encode_two:
  "0x80 \<le> a * 64 + b \<Longrightarrow> a < 32 \<Longrightarrow> b < 64 \<Longrightarrow>
   utf8_encode (a * 64 + b) = [char_of (192 + a), char_of (128 + b)]"
  by (simp add: utf8_encode_def)

lemma utf8_encode_three:
  assumes "0x800 \<le> (a * 64 + b) * 64 + c" "a < 16" "b < 64" "c < 64"
  shows "utf8_encode ((a * 64 + b) * 64 + c) =
    [char_of (224 + a), char_of (128 + b), char_of (128 + c)]"
proof -
  let ?cp = "(a * 64 + b) * 64 + c"
  have "?cp div 64 = a * 64 + b" "?cp mod 64 = c"
    using pack64 [of c "a * 64 + b"] assms by blast+
  moreover have "?cp div 4096 = a"
    using calculation(1) pack64 [of b a] assms(3) div_mult2_eq [of ?cp 64 64] by simp
  moreover have "\<not> ?cp < 0x800" "\<not> ?cp < 0x80" "?cp < 0x10000" using assms by simp_all
  ultimately show ?thesis
    using pack64 [of b a] assms(3) unfolding utf8_encode_def by (simp only: if_False if_True)
qed

lemma utf8_encode_four:
  assumes "0x10000 \<le> ((a * 64 + b) * 64 + c) * 64 + d" "a < 8" "b < 64" "c < 64" "d < 64"
  shows "utf8_encode (((a * 64 + b) * 64 + c) * 64 + d) =
    [char_of (240 + a), char_of (128 + b), char_of (128 + c), char_of (128 + d)]"
proof -
  let ?cp = "((a * 64 + b) * 64 + c) * 64 + d"
  have "?cp div 64 = (a * 64 + b) * 64 + c" "?cp mod 64 = d"
    using pack64 [of d "(a * 64 + b) * 64 + c"] assms by blast+
  moreover from this(1) have "?cp div 4096 = a * 64 + b"
    using pack64 [of c "a * 64 + b"] assms(4) div_mult2_eq [of ?cp 64 64] by simp
  moreover from this have "?cp div 262144 = a"
    using pack64 [of b a] assms(3) div_mult2_eq [of ?cp 4096 64] by simp
  moreover have "\<not> ?cp < 0x10000" "\<not> ?cp < 0x800" "\<not> ?cp < 0x80" using assms by simp_all
  ultimately show ?thesis
    using pack64 [of c "a * 64 + b"] pack64 [of b a] assms(3,4) unfolding utf8_encode_def
    by (simp only: if_False if_True)
qed

lemma byte_cases:
  "k \<le> byte_of c \<Longrightarrow> byte_of c < k + n \<Longrightarrow> \<exists>a<n. c = char_of (k + a) \<and> byte_of c = k + a"
  by (rule exI [of _ "byte_of c - k"]) auto

lemma utf8_continuation_Some:
  assumes "utf8_continuation (c # cs) cp = Some r"
  shows "\<exists>b<64. c = char_of (128 + b) \<and> utf8_continuation cs (cp * 64 + b) = Some r"
  using assms byte_cases [of 128 c 64]
  by (auto simp: utf8_continuation_Cons payload_bits split: if_splits)

lemma utf8_step_lead:
  assumes "utf8_step (c # t) = Some (cp, len)"
  obtains lead where "utf8_lead (byte_of c) = Some (lead, len)" "len \<le> Suc (length t)"
    "utf8_continuation (take (len - 1) t) lead = Some cp"
    "\<not> utf8_rejected len cp" "\<not> control_codepoint cp"
  using assms by (auto simp: utf8_step_def split: option.splits prod.splits if_splits)

lemma utf8_step_Some:
  assumes "t \<noteq> []" "utf8_step t = Some (cp, len)"
  shows "text_scalar cp \<and> len = length (utf8_encode cp) \<and> t = utf8_encode cp @ drop len t"
proof -
  obtain c t' where t: "t = c # t'" using assms(1) by (cases t) auto
  obtain lead where lead: "utf8_lead (byte_of c) = Some (lead, len)" and len: "len \<le> Suc (length t')"
    and cont: "utf8_continuation (take (len - 1) t') lead = Some cp"
    and ok: "\<not> utf8_rejected len cp" "\<not> control_codepoint cp"
    using utf8_step_lead assms(2) unfolding t by metis
  have scalar: "text_scalar cp" using ok by (auto simp: text_scalar_def utf8_rejected_def)
  consider "byte_of c < 128" "lead = byte_of c" "len = 1"
    | a where "a < 32" "c = char_of (192 + a)" "lead = a" "len = 2"
    | a where "a < 16" "c = char_of (224 + a)" "lead = a" "len = 3"
    | a where "a < 8" "c = char_of (240 + a)" "lead = a" "len = 4"
    using lead byte_cases [of 192 c 32] byte_cases [of 224 c 16] byte_cases [of 240 c 8]
    by (auto simp: utf8_lead_ranges payload_bits split: if_splits)
  then have "len = length (utf8_encode cp) \<and> t = utf8_encode cp @ drop len t"
  proof cases
    case 1
    then show ?thesis using cont char_of_byte_of [of c] by (auto simp: utf8_encode_def t)
  next
    case 2
    then obtain c1 r where "t' = c1 # r" using len by (cases t') auto
    with 2 obtain b where b: "b < 64" "t' = char_of (128 + b) # r" "cp = a * 64 + b"
      using cont utf8_continuation_Some [of c1 "[]" a] by auto
    then show ?thesis
      using 2 ok utf8_encode_two [of a b] by (simp add: t utf8_rejected_def)
  next
    case 3
    then obtain c1 c2 r where "t' = c1 # c2 # r" using len by (cases t' rule: remdups_adj.cases) auto
    with 3 have c1: "utf8_continuation [c1, c2] a = Some cp" using cont by (simp add: numeral_2_eq_2)
    obtain b where b: "b < 64" "c1 = char_of (128 + b)"
      and c2: "utf8_continuation [c2] (a * 64 + b) = Some cp"
      using utf8_continuation_Some [OF c1] by blast
    obtain d where "d < 64" "c2 = char_of (128 + d)" "cp = (a * 64 + b) * 64 + d"
      using utf8_continuation_Some [OF c2] by auto
    note b = b(1) this(1) this(3) \<open>t' = c1 # c2 # r\<close> b(2) this(2)
    then show ?thesis
      using 3 ok utf8_encode_three [of a b d] by (simp add: t b(3) utf8_rejected_def numeral_3_eq_3)
  next
    case 4
    then obtain c1 c2 c3 r where "t' = c1 # c2 # c3 # r"
      using len by (auto simp: Suc_le_length_iff numeral_4_eq_4)
    with 4 have c1: "utf8_continuation [c1, c2, c3] a = Some cp" using cont by (simp add: numeral_3_eq_3)
    obtain b where b: "b < 64" "c1 = char_of (128 + b)"
      and c2: "utf8_continuation [c2, c3] (a * 64 + b) = Some cp"
      using utf8_continuation_Some [OF c1] by blast
    obtain d where d: "d < 64" "c2 = char_of (128 + d)"
      and c3: "utf8_continuation [c3] ((a * 64 + b) * 64 + d) = Some cp"
      using utf8_continuation_Some [OF c2] by blast
    obtain e where "e < 64" "c3 = char_of (128 + e)" "cp = ((a * 64 + b) * 64 + d) * 64 + e"
      using utf8_continuation_Some [OF c3] by auto
    note b = b(1) d(1) this(1) this(3) \<open>t' = c1 # c2 # c3 # r\<close> b(2) d(2) this(2)
    then show ?thesis
      using 4 ok utf8_encode_four [of a b d e] by (simp add: t b(4) utf8_rejected_def numeral_4_eq_4)
  qed
  with scalar show ?thesis by blast
qed

lemma utf8_encode_nonempty [simp]: "utf8_encode cp \<noteq> []"
  by (simp add: utf8_encode_def)

lemma utf8_loop_iff:
  assumes "i \<le> length s" "count \<le> m"
  shows "utf8_loop s m i count \<longleftrightarrow>
    (\<exists>cps. drop i s = concat (map utf8_encode cps) \<and> count + length cps \<le> m \<and>
           list_all text_scalar cps)"
  using assms
proof (induction "length s - i" arbitrary: i count rule: less_induct)
  case less
  show ?case
  proof (cases "i < length s")
    case False
    then have "utf8_loop s m i count" by (simp add: utf8_loop.simps)
    moreover have "drop i s = concat (map utf8_encode [])" using False by simp
    ultimately show ?thesis using less.prems(2) by (intro iffI exI [of _ "[]"]) auto
  next
    case True
    then have ne: "drop i s \<noteq> []" by simp
    note step = utf8_loop_step [OF True, of m count]
    show ?thesis
    proof
      assume loop: "utf8_loop s m i count"
      then obtain cp len where st: "utf8_step (drop i s) = Some (cp, len)"
        and m: "count < m" and rest: "utf8_loop s m (i + len) (count + 1)"
        unfolding step by (auto split: option.splits)
      note enc = utf8_step_Some [OF ne st]
      have "utf8_encode cp \<noteq> []" by (simp add: utf8_encode_def)
      then have len: "0 < len" "i + len \<le> length s"
        using drop_eq_append_length(1) [of i s "utf8_encode cp"] enc by auto
      then obtain cps where "drop (i + len) s = concat (map utf8_encode cps)"
        "count + 1 + length cps \<le> m" "list_all text_scalar cps"
        using less.hyps [of "i + len" "count + 1"] rest m True by auto
      then show "\<exists>cps. drop i s = concat (map utf8_encode cps) \<and> count + length cps \<le> m \<and>
          list_all text_scalar cps"
        using enc by (intro exI [of _ "cp # cps"]) (auto simp: add.commute)
    next
      assume "\<exists>cps. drop i s = concat (map utf8_encode cps) \<and> count + length cps \<le> m \<and>
          list_all text_scalar cps"
      then obtain cps where cps: "drop i s = concat (map utf8_encode cps)"
        "count + length cps \<le> m" "list_all text_scalar cps" by blast
      with ne obtain cp cps' where c: "cps = cp # cps'" by (cases cps) auto
      let ?len = "length (utf8_encode cp)"
      have len: "0 < ?len" by simp
      have split: "drop i s = utf8_encode cp @ concat (map utf8_encode cps')"
        using cps(1) c by simp
      note rest = drop_eq_append_length(2) [OF split]
      have "i + ?len \<le> length s"
        using drop_eq_append_length(1) [OF split] len by simp
      moreover have "length s - (i + ?len) < length s - i"
        using len True by (intro diff_less_mono2) auto
      ultimately have "utf8_loop s m (i + ?len) (count + 1) \<longleftrightarrow>
          (\<exists>cps. drop (i + ?len) s = concat (map utf8_encode cps) \<and>
            count + 1 + length cps \<le> m \<and> list_all text_scalar cps)"
        using less.hyps [of "i + ?len" "count + 1"] cps(2) c len True by simp
      then have "utf8_loop s m (i + ?len) (count + 1)"
        using rest cps c by (auto intro!: exI [of _ cps'])
      then show "utf8_loop s m i count"
        using step utf8_encode_step [of cp "concat (map utf8_encode cps')"] cps c split by auto
    qed
  qed
qed

lemma valid_utf8_text_nonempty:
  "s \<noteq> [] \<Longrightarrow> valid_utf8_text s m allow_empty \<longleftrightarrow>
    (\<exists>cps. s = concat (map utf8_encode cps) \<and> length cps \<le> m \<and> list_all text_scalar cps)"
  using utf8_loop_iff [of 0 s 0 m] by (simp add: valid_utf8_text_def)

text \<open>
  UTF-8 validation is exact: a non-empty text is accepted if and only if it is the UTF-8
  encoding of at most \<open>max_codepoints\<close> Unicode scalar values, none of them an ASCII
  control character; the empty text is accepted exactly when the caller allows it.
\<close>

theorem valid_utf8_text_iff:
  "valid_utf8_text s m allow_empty \<longleftrightarrow>
    (if s = [] then allow_empty
     else (\<exists>cps. s = concat (map utf8_encode cps) \<and> length cps \<le> m \<and> list_all text_scalar cps))"
  using valid_utf8_text_nonempty by (simp add: valid_utf8_text_def)

subsection \<open>What the ASCII rendering shows\<close>

definition shown_char :: "nat \<Rightarrow> char" where
  "shown_char cp = (if cp < 128 then char_of cp else CHR ''?'')"

lemma display_ascii_encode:
  assumes "drop i s = utf8_encode cp @ rest" "text_scalar cp"
  shows "display_ascii_from s i = shown_char cp # display_ascii_from s (i + length (utf8_encode cp))"
proof -
  have ne: "utf8_encode cp \<noteq> []" by (simp add: utf8_encode_def)
  have i: "i < length s"
    using assms(1) ne by (metis append_is_Nil_conv drop_all not_le)
  have room: "length (utf8_encode cp) \<le> length s - i"
    using arg_cong [OF assms(1), of length] by simp
  have first: "s ! i = hd (utf8_encode cp)"
    using assms(1) ne i by (metis hd_append2 hd_drop_conv_nth)
  have cp: "cp \<le> 0x10ffff" using assms(2) by (simp add: text_scalar_def)
  show ?thesis
  proof (cases "cp < 128")
    case True
    then show ?thesis
      using i first
      by (subst display_ascii_from.simps) (simp add: utf8_encode_def shown_char_def)
  next
    case False
    then have b: "\<not> byte_of (s ! i) < 128"
      and len: "display_length (byte_of (s ! i)) = length (utf8_encode cp)"
      using first cp
      by (auto simp: utf8_encode_def display_length_def lead_ranges div_less_iff_less_mult)
    show ?thesis
      using i b len room False
      by (subst display_ascii_from.simps) (simp add: Let_def shown_char_def min_def)
  qed
qed

lemma display_ascii_concat:
  assumes "drop i s = concat (map utf8_encode cps)" "list_all text_scalar cps"
  shows "display_ascii_from s i = map shown_char cps"
  using assms
proof (induction cps arbitrary: i)
  case Nil
  then show ?case by (subst display_ascii_from.simps) simp
next
  case (Cons cp cps)
  then have "drop (i + length (utf8_encode cp)) s = concat (map utf8_encode cps)"
    using drop_eq_append_length(2) [of i s "utf8_encode cp"] by simp
  then show ?case using Cons display_ascii_encode [of i s cp] by simp
qed

text \<open>
  A validated text is rendered with exactly one ASCII character per code point, the code
  point itself when it is ASCII and a question mark otherwise, so the rendering never exceeds
  the code point limit the text was validated against.
\<close>

theorem display_ascii_per_codepoint:
  assumes "valid_utf8_text s m allow_empty"
  shows "\<exists>cps. s = concat (map utf8_encode cps) \<and> display_ascii s = map shown_char cps \<and>
    length (display_ascii s) \<le> m"
proof (cases "s = []")
  case True
  then show ?thesis
    by (intro exI [of _ "[]"]) (simp add: display_ascii_def display_ascii_from.simps)
next
  case False
  then obtain cps where "s = concat (map utf8_encode cps)" "length cps \<le> m" "list_all text_scalar cps"
    using assms valid_utf8_text_nonempty by blast
  then show ?thesis
    using display_ascii_concat [of 0 s cps] by (auto simp: display_ascii_def)
qed

lemma display_ascii_from_ascii: "list_all (\<lambda>c. byte_of c < 128) (display_ascii_from s i)"
proof (induction s i rule: display_ascii_from.induct)
  case (1 s i)
  then show ?case by (subst display_ascii_from.simps) (auto simp: Let_def byte_of_def)
qed

lemma display_ascii_from_id:
  "list_all (\<lambda>c. byte_of c < 128) (drop i s) \<Longrightarrow> display_ascii_from s i = drop i s"
proof (induction s i rule: display_ascii_from.induct)
  case (1 s i)
  then show ?case by (subst display_ascii_from.simps) (auto simp: Let_def drop_eq_nth_Cons)
qed

lemma display_ascii_ascii: "list_all (\<lambda>c. byte_of c < 128) (display_ascii s)"
  by (simp add: display_ascii_def display_ascii_from_ascii)

lemma display_ascii_id: "list_all (\<lambda>c. byte_of c < 128) s \<Longrightarrow> display_ascii s = s"
  using display_ascii_from_id [of 0 s] by (simp add: display_ascii_def)

lemma display_ascii_idem [simp]: "display_ascii (display_ascii s) = display_ascii s"
  by (rule display_ascii_id) (rule display_ascii_ascii)

lemma length_display_ascii_from: "length (display_ascii_from s i) \<le> length s - i"
proof (induction s i rule: display_ascii_from.induct)
  case (1 s i)
  show ?case
  proof (cases "i < length s")
    case False
    then show ?thesis by (subst display_ascii_from.simps) simp
  next
    case True
    define k where "k = min (display_length (byte_of (s ! i))) (length s - i)"
    have "1 \<le> k" using True by (simp add: k_def Suc_le_eq)
    then show ?thesis
      using 1 [OF True refl] True
      by (subst display_ascii_from.simps) (auto simp: Let_def k_def [symmetric])
  qed
qed

subsection \<open>Tab splitting is the inverse of joining with tabs\<close>

fun join_tabs :: "string list \<Rightarrow> string" where
  "join_tabs [] = []"
| "join_tabs [f] = f"
| "join_tabs (f # g # fs) = f @ TAB # join_tabs (g # fs)"

lemma split_tabs_from_nonempty [simp]: "split_tabs_from line i \<noteq> []"
  by (subst split_tabs_from.simps) (simp split: option.split)

lemma join_tabs_Cons: "fs \<noteq> [] \<Longrightarrow> join_tabs (f # fs) = f @ TAB # join_tabs fs"
  by (cases fs) auto

lemma split_tabs_from_append:
  assumes "drop i line = f @ TAB # rest" "TAB \<notin> set f"
  shows "split_tabs_from line i = f # split_tabs_from line (i + length f + 1)"
proof -
  have len: "i + length f < length line"
    using arg_cong [OF assms(1), of length] by (cases "i < length line") auto
  have nth: "line ! (i + k) = (f @ TAB # rest) ! k" if "i + k < length line" for k
    using assms(1) that by (metis less_or_eq_imp_le nth_drop add_leD1)
  obtain t where t: "find_char TAB line i = Some t"
    using nth [of "length f"] len find_char_None [of TAB line i] by (cases "find_char TAB line i") auto
  have "t = i + length f"
  proof (rule antisym)
    show "t \<le> i + length f"
      using find_char_first [OF t, of "i + length f"] nth [of "length f"] len by fastforce
    show "i + length f \<le> t"
    proof (rule ccontr)
      assume "\<not> i + length f \<le> t"
      moreover have "i \<le> t" "t < length line" "line ! t = TAB" using find_char_Some [OF t] by auto
      ultimately have "f ! (t - i) = TAB" "t - i < length f"
        using nth [of "t - i"] by (auto simp: nth_append split: if_splits)
      then show False using assms(2) nth_mem by metis
    qed
  qed
  then show ?thesis
    using t assms(1) by (subst split_tabs_from.simps) (simp add: substr_def)
qed

lemma split_tabs_from_last:
  assumes "TAB \<notin> set (drop i line)"
  shows "split_tabs_from line i = [drop i line]"
proof -
  have "find_char TAB line i = None"
    using assms by (auto simp: find_char_None in_set_conv_nth)
      (metis add_diff_inverse_nat diff_less_mono leD less_or_eq_imp_le nth_drop length_drop)
  then show ?thesis by (subst split_tabs_from.simps) simp
qed

lemma split_tabs_from_join:
  assumes "fs \<noteq> []" "\<forall>f\<in>set fs. TAB \<notin> set f" "drop i line = join_tabs fs"
  shows "split_tabs_from line i = fs"
  using assms
proof (induction fs arbitrary: i rule: join_tabs.induct)
  case (3 f g fs)
  have "split_tabs_from line i = f # split_tabs_from line (i + length f + 1)"
    using split_tabs_from_append [of i line f] 3 by simp
  moreover have "drop (i + length f + 1) line = join_tabs (g # fs)"
    using "3.prems"(3) by (metis add.commute append_eq_conv_conj drop_drop drop_Suc_Cons
        drop0 join_tabs.simps(3) plus_1_eq_Suc Suc_eq_plus1 add.assoc)
  ultimately show ?case using 3 by simp
qed (auto simp: split_tabs_from_last)

lemma join_split_tabs_from:
  "i \<le> length line \<Longrightarrow> join_tabs (split_tabs_from line i) = drop i line \<and>
    (\<forall>f\<in>set (split_tabs_from line i). TAB \<notin> set f)"
proof (induction line i rule: split_tabs_from.induct)
  case (1 line i)
  show ?case
  proof (cases "find_char TAB line i")
    case None
    then have "TAB \<notin> set (drop i line)"
      by (auto simp: find_char_None in_set_conv_nth)
    then show ?thesis by (simp add: split_tabs_from_last)
  next
    case (Some t)
    note t = find_char_Some [OF Some]
    let ?f = "substr line i (t - i)"
    have step: "split_tabs_from line i = ?f # split_tabs_from line (t + 1)"
      using Some by (subst split_tabs_from.simps) simp
    have "TAB \<notin> set ?f"
      using find_char_first [OF Some] t by (force simp: substr_def in_set_conv_nth)
    moreover have "drop i line = ?f @ TAB # drop (t + 1) line"
      using t by (metis Suc_eq_plus1 Cons_nth_drop_Suc append_take_drop_id drop_drop
          le_add_diff_inverse2 substr_def)
    ultimately show ?thesis using "1.IH" [OF Some] t by (simp add: step join_tabs_Cons)
  qed
qed

text \<open>
  Tab splitting is exact: the fields of a line are the one non-empty list of tab-free
  strings that joined with single tabs gives the line back, so a field count is a tab count
  plus one and no byte is lost.
\<close>

theorem split_tabs_exact:
  "split_tabs line = fs \<longleftrightarrow>
    fs \<noteq> [] \<and> list_all (\<lambda>f. TAB \<notin> set f) fs \<and> join_tabs fs = line"
  using join_split_tabs_from [of 0 line] split_tabs_from_join [of fs 0 line]
  by (auto simp: split_tabs_def list_all_iff)

theorem display_ascii_per_codepoint_witness:
  "\<exists>cps. utf8_encode 0x20ac @ utf8_encode 53 = concat (map utf8_encode cps) \<and>
    display_ascii (utf8_encode 0x20ac @ utf8_encode 53) = map shown_char cps \<and>
    length (display_ascii (utf8_encode 0x20ac @ utf8_encode 53)) \<le> 4"
proof (rule display_ascii_per_codepoint)
  show "valid_utf8_text (utf8_encode 0x20ac @ utf8_encode 53) 4 False"
    by (subst valid_utf8_text_nonempty)
      (auto intro!: exI [of _ "[0x20ac, 53]"] simp: text_scalar_def control_codepoint_def utf8_encode_def)
qed

end
