(* ===== verification/Posix_World.thy ===== *)
theory Posix_World
  imports Deck_Prelude
begin

section \<open>The operating system as the programs see it\<close>

text \<open>
  The sources reach their files only through POSIX calls.  The model of those calls is an
  explicit world: a name space, inodes, open file descriptions, and the \<open>errno\<close> variable.
  The kernel's choices (interrupted calls, short writes, failures) come from a schedule that
  every call consumes; a theorem that quantifies over worlds therefore quantifies over all of
  them.  An exhausted schedule means that every further call succeeds in full.
  No other process changes the files while a call runs; that is the one simplification.
\<close>

datatype errno = EINTR | ENOENT | EEXIST | EINVAL | EPERM | EBADF | EAGAIN | ECHILD | EIO | Eother nat

datatype outcome = Success | Partial nat | Fault errno

record inode =
  regular :: bool
  content :: string

record world =
  names :: "string \<Rightarrow> nat option"
  inodes :: "nat \<Rightarrow> inode"
  next_inode :: nat
  fds :: "nat \<Rightarrow> (nat \<times> nat) option"
  next_fd :: nat
  schedule :: "outcome list"
  last_errno :: errno
  pid :: nat

text \<open>
  A message is the text the source stores in \<open>*error\<close>; \<open>errno_message\<close> (in
  \<open>src/menu_io.cpp\<close>) appends \<open>strerror\<close> of the current \<open>errno\<close>, which is kept as a value.
\<close>

datatype message = Msg string | Errno_msg string errno

definition errno_message :: "string \<Rightarrow> world \<Rightarrow> message" where
  "errno_message what w = Errno_msg what (last_errno w)"

subsection \<open>The calls\<close>

definition next_outcome :: "world \<Rightarrow> outcome \<times> world" where
  "next_outcome w =
     (case schedule w of [] \<Rightarrow> (Success, w) | x # xs \<Rightarrow> (x, w\<lparr>schedule := xs\<rparr>))"

definition fail :: "errno \<Rightarrow> world \<Rightarrow> 'a option \<times> world" where
  "fail e w = (None, w\<lparr>last_errno := e\<rparr>)"

definition open_inode :: "nat \<Rightarrow> world \<Rightarrow> nat option \<times> world" where
  "open_inode i w = (Some (next_fd w),
     w\<lparr>fds := (fds w)(next_fd w \<mapsto> (i, 0)), next_fd := next_fd w + 1\<rparr>)"

text \<open>\<open>open\<close> without \<open>O_CREAT\<close>, and with \<open>O_CREAT | O_EXCL\<close>.\<close>

definition sys_open :: "string \<Rightarrow> world \<Rightarrow> nat option \<times> world" where
  "sys_open path w =
     (case next_outcome w of
        (Fault e, w1) \<Rightarrow> fail e w1
      | (_, w1) \<Rightarrow> (case names w1 path of None \<Rightarrow> fail ENOENT w1 | Some i \<Rightarrow> open_inode i w1))"

definition sys_create :: "string \<Rightarrow> world \<Rightarrow> nat option \<times> world" where
  "sys_create path w =
     (case next_outcome w of
        (Fault e, w1) \<Rightarrow> fail e w1
      | (_, w1) \<Rightarrow>
          (case names w1 path of
             Some i \<Rightarrow> fail EEXIST w1
           | None \<Rightarrow> open_inode (next_inode w1)
               (w1\<lparr>names := (names w1)(path \<mapsto> next_inode w1),
                   inodes := (inodes w1)(next_inode w1 := \<lparr>regular = True, content = []\<rparr>),
                   next_inode := next_inode w1 + 1\<rparr>)))"

definition write_at :: "nat \<Rightarrow> nat \<Rightarrow> nat \<Rightarrow> string \<Rightarrow> world \<Rightarrow> world" where
  "write_at fd i off data w =
     w\<lparr>inodes := (inodes w)(i := (inodes w i)\<lparr>content :=
          take off (content (inodes w i)) @ data @ drop (off + length data) (content (inodes w i))\<rparr>),
       fds := (fds w)(fd \<mapsto> (i, off + length data))\<rparr>"

definition sys_write :: "nat \<Rightarrow> string \<Rightarrow> world \<Rightarrow> nat option \<times> world" where
  "sys_write fd data w =
     (case next_outcome w of
        (Fault e, w1) \<Rightarrow> fail e w1
      | (x, w1) \<Rightarrow>
          (case fds w1 fd of
             None \<Rightarrow> fail EBADF w1
           | Some (i, off) \<Rightarrow>
               (let n = (case x of Partial k \<Rightarrow> min k (length data) | _ \<Rightarrow> length data)
                in (Some n, write_at fd i off (take n data) w1))))"

text \<open>\<open>read\<close> returns no bytes only at the end of the file; \<open>pread\<close> leaves the offset alone.\<close>

definition sys_read :: "nat \<Rightarrow> nat \<Rightarrow> world \<Rightarrow> string option \<times> world" where
  "sys_read fd len w =
     (case next_outcome w of
        (Fault e, w1) \<Rightarrow> fail e w1
      | (x, w1) \<Rightarrow>
          (case fds w1 fd of
             None \<Rightarrow> fail EBADF w1
           | Some (i, off) \<Rightarrow>
               (let n = (case x of Partial k \<Rightarrow> min (max 1 k) len | _ \<Rightarrow> len);
                    data = take n (drop off (content (inodes w1 i)))
                in (Some data, w1\<lparr>fds := (fds w1)(fd \<mapsto> (i, off + length data))\<rparr>))))"

definition sys_pread :: "nat \<Rightarrow> nat \<Rightarrow> nat \<Rightarrow> world \<Rightarrow> string option \<times> world" where
  "sys_pread fd len off w =
     (case next_outcome w of
        (Fault e, w1) \<Rightarrow> fail e w1
      | (x, w1) \<Rightarrow>
          (case fds w1 fd of
             None \<Rightarrow> fail EBADF w1
           | Some (i, _) \<Rightarrow>
               (let n = (case x of Partial k \<Rightarrow> min (max 1 k) len | _ \<Rightarrow> len)
                in (Some (take n (drop off (content (inodes w1 i)))), w1))))"

definition sys_fsync :: "nat \<Rightarrow> world \<Rightarrow> unit option \<times> world" where
  "sys_fsync fd w =
     (case next_outcome w of
        (Fault e, w1) \<Rightarrow> fail e w1
      | (_, w1) \<Rightarrow> (if fds w1 fd = None then fail EBADF w1 else (Some (), w1)))"

text \<open>The descriptor is gone after \<open>close\<close> whether or not it reports an error.\<close>

definition sys_close :: "nat \<Rightarrow> world \<Rightarrow> unit option \<times> world" where
  "sys_close fd w =
     (case next_outcome w of
        (Fault e, w1) \<Rightarrow> fail e (w1\<lparr>fds := (fds w1)(fd := None)\<rparr>)
      | (_, w1) \<Rightarrow> (if fds w1 fd = None then fail EBADF w1
                   else (Some (), w1\<lparr>fds := (fds w1)(fd := None)\<rparr>)))"

definition sys_ftruncate :: "nat \<Rightarrow> world \<Rightarrow> unit option \<times> world" where
  "sys_ftruncate fd w =
     (case next_outcome w of
        (Fault e, w1) \<Rightarrow> fail e w1
      | (_, w1) \<Rightarrow>
          (case fds w1 fd of
             None \<Rightarrow> fail EBADF w1
           | Some (i, off) \<Rightarrow>
               (Some (), w1\<lparr>inodes := (inodes w1)(i := (inodes w1 i)\<lparr>content := []\<rparr>)\<rparr>)))"

definition sys_fstat :: "nat \<Rightarrow> world \<Rightarrow> (bool \<times> nat) option \<times> world" where
  "sys_fstat fd w =
     (case next_outcome w of
        (Fault e, w1) \<Rightarrow> fail e w1
      | (_, w1) \<Rightarrow>
          (case fds w1 fd of
             None \<Rightarrow> fail EBADF w1
           | Some (i, _) \<Rightarrow> (Some (regular (inodes w1 i), length (content (inodes w1 i))), w1)))"

definition sys_stat :: "string \<Rightarrow> world \<Rightarrow> (bool \<times> nat) option \<times> world" where
  "sys_stat path w =
     (case next_outcome w of
        (Fault e, w1) \<Rightarrow> fail e w1
      | (_, w1) \<Rightarrow>
          (case names w1 path of
             None \<Rightarrow> fail ENOENT w1
           | Some i \<Rightarrow> (Some (regular (inodes w1 i), length (content (inodes w1 i))), w1)))"

definition sys_rename :: "string \<Rightarrow> string \<Rightarrow> world \<Rightarrow> unit option \<times> world" where
  "sys_rename old new w =
     (case next_outcome w of
        (Fault e, w1) \<Rightarrow> fail e w1
      | (_, w1) \<Rightarrow>
          (case names w1 old of
             None \<Rightarrow> fail ENOENT w1
           | Some i \<Rightarrow> (Some (), w1\<lparr>names := (names w1)(old := None, new \<mapsto> i)\<rparr>)))"

definition sys_unlink :: "string \<Rightarrow> world \<Rightarrow> unit option \<times> world" where
  "sys_unlink path w =
     (case next_outcome w of
        (Fault e, w1) \<Rightarrow> fail e w1
      | (_, w1) \<Rightarrow>
          (case names w1 path of
             None \<Rightarrow> fail ENOENT w1
           | Some i \<Rightarrow> (Some (), w1\<lparr>names := (names w1)(path := None)\<rparr>)))"

text \<open>
  \<open>std::ifstream\<close>: the stream either fails to open, or delivers the file up to the point
  where a read error sets \<open>badbit\<close>.  The result is the delivered bytes and that bit.
\<close>

definition stream_read :: "string \<Rightarrow> world \<Rightarrow> (string \<times> bool) option \<times> world" where
  "stream_read path w =
     (case next_outcome w of
        (Fault e, w1) \<Rightarrow> fail e w1
      | (x, w1) \<Rightarrow>
          (case names w1 path of
             None \<Rightarrow> fail ENOENT w1
           | Some i \<Rightarrow>
               (case x of
                  Partial k \<Rightarrow> (Some (take k (content (inodes w1 i)), True), w1)
                | _ \<Rightarrow> (Some (content (inodes w1 i), False), w1))))"

text \<open>
  \<open>std::getline\<close> over the delivered bytes: the complete lines, then the unterminated rest
  unless it is empty or the stream went bad in the middle of it.
\<close>

definition NL :: char where
  "NL = char_of (10 :: nat)"

fun getlines :: "bool \<Rightarrow> string \<Rightarrow> string \<Rightarrow> string list" where
  "getlines bad line [] = (if line = [] \<or> bad then [] else [rev line])"
| "getlines bad line (c # cs) =
     (if c = NL then rev line # getlines bad [] cs else getlines bad (c # line) cs)"

definition stream_lines :: "string \<times> bool \<Rightarrow> string list" where
  "stream_lines s = getlines (snd s) [] (fst s)"

subsection \<open>What a path holds, and well-formed worlds\<close>

definition file_content :: "world \<Rightarrow> string \<Rightarrow> string option" where
  "file_content w path =
     (case names w path of
        None \<Rightarrow> None
      | Some i \<Rightarrow> if regular (inodes w i) then Some (content (inodes w i)) else None)"

text \<open>
  Names and descriptors refer to allocated inodes, and the kernel reports \<open>ENOENT\<close> and
  \<open>EEXIST\<close> only for the reason they document, so neither is ever injected.
\<close>

definition honest :: "outcome list \<Rightarrow> bool" where
  "honest xs = (Fault ENOENT \<notin> set xs \<and> Fault EEXIST \<notin> set xs)"

definition wf_world :: "world \<Rightarrow> bool" where
  "wf_world w =
     ((\<forall>p i. names w p = Some i \<longrightarrow> i < next_inode w) \<and>
      (\<forall>f i off. fds w f = Some (i, off) \<longrightarrow> i < next_inode w) \<and>
      (\<forall>f. next_fd w \<le> f \<longrightarrow> fds w f = None) \<and>
      honest (schedule w))"

lemma wf_worldI:
  "\<lbrakk>\<And>p i. names w p = Some i \<Longrightarrow> i < next_inode w;
    \<And>f i off. fds w f = Some (i, off) \<Longrightarrow> i < next_inode w;
    \<And>f. next_fd w \<le> f \<Longrightarrow> fds w f = None; honest (schedule w)\<rbrakk> \<Longrightarrow> wf_world w"
  by (simp add: wf_world_def)

lemma wf_worldD:
  assumes "wf_world w"
  shows "names w p = Some i \<Longrightarrow> i < next_inode w" "fds w f = Some (i, off) \<Longrightarrow> i < next_inode w"
    "next_fd w \<le> f \<Longrightarrow> fds w f = None" "honest (schedule w)"
  using assms unfolding wf_world_def by blast+

lemmas syscall_defs = sys_open_def sys_create_def sys_write_def sys_read_def sys_pread_def
  sys_fsync_def sys_close_def sys_ftruncate_def sys_fstat_def sys_stat_def sys_rename_def
  sys_unlink_def stream_read_def fail_def open_inode_def write_at_def

text \<open>Taking an outcome changes the schedule and nothing else.\<close>

lemma next_outcome_frame:
  assumes "next_outcome w = (x, w1)"
  shows "names w1 = names w" "inodes w1 = inodes w" "next_inode w1 = next_inode w"
    "fds w1 = fds w" "next_fd w1 = next_fd w" "pid w1 = pid w"
    "length (schedule w1) \<le> length (schedule w)"
    "x \<noteq> Success \<Longrightarrow> length (schedule w1) < length (schedule w)"
    "honest (schedule w) \<Longrightarrow> honest (schedule w1) \<and> x \<noteq> Fault ENOENT \<and> x \<noteq> Fault EEXIST"
  using assms by (auto simp: next_outcome_def honest_def split: list.splits)

lemma next_outcome_idle [simp]: "schedule w = [] \<Longrightarrow> next_outcome w = (Success, w)"
  by (simp add: next_outcome_def)

text \<open>A call leaves the schedule no longer than it found it, and an interrupted call shorter.\<close>

lemma write_schedule:
  assumes "sys_write fd data w = (r, w')"
  shows "length (schedule w') \<le> length (schedule w)"
    "r = None \<Longrightarrow> last_errno w' = EINTR \<Longrightarrow> length (schedule w') < length (schedule w)"
proof -
  obtain x w1 where x: "next_outcome w = (x, w1)" by fastforce
  note f = next_outcome_frame [OF x]
  show "length (schedule w') \<le> length (schedule w)"
    using assms f(7) by (cases x) (auto simp: sys_write_def x fail_def write_at_def Let_def split: option.splits)
  show "r = None \<Longrightarrow> last_errno w' = EINTR \<Longrightarrow> length (schedule w') < length (schedule w)"
    using assms f(8) by (cases x) (auto simp: sys_write_def x fail_def Let_def split: option.splits)
qed

lemma read_schedule:
  assumes "sys_read fd n w = (r, w')"
  shows "length (schedule w') \<le> length (schedule w)"
    "r = None \<Longrightarrow> last_errno w' = EINTR \<Longrightarrow> length (schedule w') < length (schedule w)"
proof -
  obtain x w1 where x: "next_outcome w = (x, w1)" by fastforce
  note f = next_outcome_frame [OF x]
  show "length (schedule w') \<le> length (schedule w)"
    using assms f(7) by (cases x) (auto simp: sys_read_def x fail_def Let_def split: option.splits)
  show "r = None \<Longrightarrow> last_errno w' = EINTR \<Longrightarrow> length (schedule w') < length (schedule w)"
    using assms f(8) by (cases x) (auto simp: sys_read_def x fail_def Let_def split: option.splits)
qed

lemma pread_schedule:
  assumes "sys_pread fd n off w = (r, w')"
  shows "length (schedule w') \<le> length (schedule w)"
    "r = None \<Longrightarrow> last_errno w' = EINTR \<Longrightarrow> length (schedule w') < length (schedule w)"
proof -
  obtain x w1 where x: "next_outcome w = (x, w1)" by fastforce
  note f = next_outcome_frame [OF x]
  show "length (schedule w') \<le> length (schedule w)"
    using assms f(7) by (cases x) (auto simp: sys_pread_def x fail_def Let_def split: option.splits)
  show "r = None \<Longrightarrow> last_errno w' = EINTR \<Longrightarrow> length (schedule w') < length (schedule w)"
    using assms f(8) by (cases x) (auto simp: sys_pread_def x fail_def Let_def split: option.splits)
qed

text \<open>The progress fact that the retry loops terminate by.\<close>

lemma interrupted_schedule:
  "sys_write fd data w = (None, w') \<Longrightarrow> last_errno w' = EINTR \<Longrightarrow>
     length (schedule w') < length (schedule w)"
  "sys_read fd n w = (None, w') \<Longrightarrow> last_errno w' = EINTR \<Longrightarrow>
     length (schedule w') < length (schedule w)"
  "sys_pread fd n off w = (None, w') \<Longrightarrow> last_errno w' = EINTR \<Longrightarrow>
     length (schedule w') < length (schedule w)"
  by (simp_all add: write_schedule(2) read_schedule(2) pread_schedule(2))

subsection \<open>What a call on one descriptor may change\<close>

text \<open>
  \<open>confined fd I w w'\<close>: between \<open>w\<close> and \<open>w'\<close> no name changed, no inode outside \<open>I\<close> changed and
  no descriptor other than \<open>fd\<close> changed.
\<close>

definition confined :: "nat \<Rightarrow> nat set \<Rightarrow> world \<Rightarrow> world \<Rightarrow> bool" where
  "confined fd I w w' =
     (names w' = names w \<and> next_inode w' = next_inode w \<and> next_fd w' = next_fd w \<and> pid w' = pid w \<and>
      (\<forall>j. j \<notin> I \<longrightarrow> inodes w' j = inodes w j) \<and>
      (\<forall>j. regular (inodes w' j) = regular (inodes w j)) \<and>
      (\<forall>f. f \<noteq> fd \<longrightarrow> fds w' f = fds w f) \<and>
      (honest (schedule w) \<longrightarrow> honest (schedule w')))"

lemma confined_refl [simp]: "confined fd I w w"
  by (simp add: confined_def)

lemma confined_trans [trans]: "confined fd I w w1 \<Longrightarrow> confined fd I w1 w2 \<Longrightarrow> confined fd I w w2"
  by (auto simp: confined_def)

lemma confined_mono: "confined fd I w w' \<Longrightarrow> I \<subseteq> J \<Longrightarrow> confined fd J w w'"
  by (auto simp: confined_def)

lemma confined_errno [simp]: "confined fd I w (w'\<lparr>last_errno := e\<rparr>) = confined fd I w w'"
  by (simp add: confined_def)

lemma confined_same_inodes: "confined fd {} w w' \<Longrightarrow> inodes w' = inodes w"
  by (auto simp: confined_def)

lemma confined_file_content:
  assumes "confined fd I w w'" "\<And>i. names w p = Some i \<Longrightarrow> i \<notin> I"
  shows "file_content w' p = file_content w p"
  using assms by (auto simp: confined_def file_content_def split: option.splits)

lemma confined_next_outcome: "next_outcome w = (x, w1) \<Longrightarrow> confined fd I w w1"
  using next_outcome_frame [of w x w1] by (auto simp: confined_def)

lemma read_confined:
  assumes "sys_read fd n w = (r, w')"
  shows "confined fd I w w'"
proof -
  obtain x w1 where x: "next_outcome w = (x, w1)" by fastforce
  have "confined fd I w1 w'"
    using assms by (cases x) (auto simp: sys_read_def x fail_def Let_def confined_def split: option.splits)
  with confined_next_outcome [OF x] show ?thesis by (rule confined_trans)
qed

lemma pread_confined:
  assumes "sys_pread fd n off w = (r, w')"
  shows "confined fd I w w'"
proof -
  obtain x w1 where x: "next_outcome w = (x, w1)" by fastforce
  have "confined fd I w1 w'"
    using assms by (cases x) (auto simp: sys_pread_def x fail_def Let_def confined_def split: option.splits)
  with confined_next_outcome [OF x] show ?thesis by (rule confined_trans)
qed

lemma fsync_confined:
  assumes "sys_fsync fd' w = (r, w')"
  shows "confined fd I w w'" "fds w' = fds w"
proof -
  obtain x w1 where x: "next_outcome w = (x, w1)" by fastforce
  have "confined fd I w1 w' \<and> fds w' = fds w1"
    using assms by (cases x) (auto simp: sys_fsync_def x fail_def confined_def split: if_splits)
  with confined_next_outcome [OF x, of fd I] next_outcome_frame(4) [OF x]
  show "confined fd I w w'" "fds w' = fds w" by (auto intro: confined_trans)
qed

lemma fstat_confined:
  assumes "sys_fstat fd' w = (r, w')"
  shows "confined fd I w w'" "fds w' = fds w"
    "r = Some (reg, len) \<Longrightarrow> fds w fd' = Some (i, off) \<Longrightarrow>
       reg = regular (inodes w i) \<and> len = length (content (inodes w i))"
proof -
  obtain x w1 where x: "next_outcome w = (x, w1)" by fastforce
  note f = next_outcome_frame [OF x]
  have "confined fd I w1 w' \<and> fds w' = fds w1"
    using assms by (cases x) (auto simp: sys_fstat_def x fail_def confined_def split: option.splits)
  with confined_next_outcome [OF x, of fd I] f
  show "confined fd I w w'" "fds w' = fds w" by (auto intro: confined_trans)
  show "r = Some (reg, len) \<Longrightarrow> fds w fd' = Some (i, off) \<Longrightarrow>
       reg = regular (inodes w i) \<and> len = length (content (inodes w i))"
    using assms f by (cases x) (auto simp: sys_fstat_def x fail_def split: option.splits)
qed

lemma close_confined:
  assumes "sys_close fd w = (r, w')"
  shows "confined fd I w w'" "fds w' = (fds w)(fd := None)"
proof -
  obtain x w1 where x: "next_outcome w = (x, w1)" by fastforce
  have "confined fd I w1 w' \<and> fds w' = (fds w1)(fd := None)"
    using assms by (cases x) (auto simp: sys_close_def x fail_def confined_def split: if_splits)
  with confined_next_outcome [OF x, of fd I] next_outcome_frame(4) [OF x]
  show "confined fd I w w'" "fds w' = (fds w)(fd := None)" by (auto intro: confined_trans)
qed

lemma write_confined:
  assumes "sys_write fd data w = (r, w')" "fds w fd = Some (i, off)"
  shows "confined fd {i} w w'"
    "r = None \<Longrightarrow> fds w' = fds w \<and> inodes w' = inodes w"
    "r = Some n \<Longrightarrow> n \<le> length data \<and> fds w' fd = Some (i, off + n) \<and>
       content (inodes w' i) = take off (content (inodes w i)) @ take n data @
         drop (off + n) (content (inodes w i))"
proof -
  obtain x w1 where x: "next_outcome w = (x, w1)" by fastforce
  note f = next_outcome_frame [OF x]
  have "confined fd {i} w1 w'"
    using assms f(4) by (cases x)
      (auto simp: sys_write_def x fail_def write_at_def Let_def confined_def split: option.splits if_splits)
  with confined_next_outcome [OF x] show "confined fd {i} w w'" by (rule confined_trans)
  show "r = None \<Longrightarrow> fds w' = fds w \<and> inodes w' = inodes w"
    using assms f by (cases x) (auto simp: sys_write_def x fail_def Let_def split: option.splits)
  show "r = Some n \<Longrightarrow> n \<le> length data \<and> fds w' fd = Some (i, off + n) \<and>
       content (inodes w' i) = take off (content (inodes w i)) @ take n data @
         drop (off + n) (content (inodes w i))"
    using assms f
    by (cases x) (auto simp: sys_write_def x fail_def write_at_def Let_def min_def split: option.splits)
qed

lemma read_data:
  assumes "sys_read fd n w = (Some data, w')" "fds w fd = Some (i, off)"
  shows "fds w' fd = Some (i, off + length data)" "length data \<le> n"
    "data = take (length data) (drop off (content (inodes w i)))"
    "data = [] \<Longrightarrow> 0 < n \<Longrightarrow> drop off (content (inodes w i)) = []"
proof -
  obtain x w1 where x: "next_outcome w = (x, w1)" by fastforce
  note f = next_outcome_frame [OF x]
  show "fds w' fd = Some (i, off + length data)"
    using assms f by (cases x) (auto simp: sys_read_def x fail_def Let_def split: option.splits)
  show "length data \<le> n"
    using assms f by (cases x) (auto simp: sys_read_def x fail_def Let_def split: option.splits)
  show "data = take (length data) (drop off (content (inodes w i)))"
    using assms f by (cases x) (auto simp: sys_read_def x fail_def Let_def min_def split: option.splits)
  show "data = [] \<Longrightarrow> 0 < n \<Longrightarrow> drop off (content (inodes w i)) = []"
    using assms f by (cases x) (auto simp: sys_read_def x fail_def Let_def split: option.splits)
qed

lemma read_fault:
  assumes "sys_read fd n w = (None, w')" "fds w fd = Some (i, off)"
  shows "fds w' = fds w"
proof -
  obtain x w1 where x: "next_outcome w = (x, w1)" by fastforce
  show ?thesis using assms next_outcome_frame [OF x]
    by (cases x) (auto simp: sys_read_def x fail_def Let_def split: option.splits)
qed

text \<open>A failed \<open>open\<close> changes no file; a successful one returns the fresh descriptor.\<close>

lemma open_cases:
  assumes "sys_open path w = (r, w')"
  obtains (fault) "r = None" "confined fd {} w w'" "fds w' = fds w"
      "honest (schedule w) \<Longrightarrow> last_errno w' = ENOENT \<Longrightarrow> names w path = None"
  | (opened) i w1 where "r = Some (next_fd w)" "names w path = Some i"
      "confined fd {} w w1" "fds w1 = fds w" "last_errno w1 = last_errno w"
      "w' = w1\<lparr>fds := (fds w)(next_fd w \<mapsto> (i, 0)), next_fd := next_fd w + 1\<rparr>"
proof -
  obtain x w1 where x: "next_outcome w = (x, w1)" by fastforce
  note f = next_outcome_frame [OF x] and c = confined_next_outcome [OF x, of fd "{}"]
  have e: "last_errno w1 = last_errno w"
    using x by (auto simp: next_outcome_def split: list.splits)
  show thesis
  proof (cases r)
    case None
    then have "confined fd {} w1 w'" "fds w' = fds w1"
      "honest (schedule w) \<Longrightarrow> last_errno w' = ENOENT \<Longrightarrow> names w path = None"
      using assms f by (cases x; auto simp: sys_open_def x fail_def open_inode_def confined_def split: option.splits)+
    then show thesis using None c f by (intro fault) (auto intro: confined_trans)
  next
    case (Some d)
    with assms f obtain i where "d = next_fd w" "names w path = Some i"
      "w' = w1\<lparr>fds := (fds w)(next_fd w \<mapsto> (i, 0)), next_fd := next_fd w + 1\<rparr>"
      by (cases x) (auto simp: sys_open_def x fail_def open_inode_def split: option.splits)
    then show thesis using Some c f e by (intro opened) auto
  qed
qed

lemma create_cases:
  assumes "sys_create path w = (r, w')"
  obtains (fault) "r = None" "confined fd {} w w'" "fds w' = fds w"
  | (created) w1 where "r = Some (next_fd w)" "names w path = None"
      "confined fd {} w w1" "fds w1 = fds w"
      "w' = w1\<lparr>names := (names w)(path \<mapsto> next_inode w),
              inodes := (inodes w)(next_inode w := \<lparr>regular = True, content = []\<rparr>),
              next_inode := next_inode w + 1,
              fds := (fds w)(next_fd w \<mapsto> (next_inode w, 0)), next_fd := next_fd w + 1\<rparr>"
proof -
  obtain x w1 where x: "next_outcome w = (x, w1)" by fastforce
  note f = next_outcome_frame [OF x] and c = confined_next_outcome [OF x, of fd "{}"]
  show thesis
  proof (cases r)
    case None
    then have "confined fd {} w1 w'" "fds w' = fds w1"
      using assms f by (cases x; auto simp: sys_create_def x fail_def open_inode_def confined_def split: option.splits)+
    then show thesis using None c f by (intro fault) (auto intro: confined_trans)
  next
    case (Some d)
    with assms f have "d = next_fd w" "names w path = None"
      "w' = w1\<lparr>names := (names w)(path \<mapsto> next_inode w),
              inodes := (inodes w)(next_inode w := \<lparr>regular = True, content = []\<rparr>),
              next_inode := next_inode w + 1,
              fds := (fds w)(next_fd w \<mapsto> (next_inode w, 0)), next_fd := next_fd w + 1\<rparr>"
      by (cases x; auto simp: sys_create_def x fail_def open_inode_def split: option.splits)+
    then show thesis using Some c f by (intro created) auto
  qed
qed

lemma rename_cases:
  assumes "sys_rename old new w = (r, w')"
  obtains (fault) "r = None" "confined fd {} w w'" "fds w' = fds w"
  | (renamed) i w1 where "r = Some ()" "names w old = Some i" "confined fd {} w w1" "fds w1 = fds w"
      "w' = w1\<lparr>names := (names w)(old := None, new \<mapsto> i)\<rparr>"
proof -
  obtain x w1 where x: "next_outcome w = (x, w1)" by fastforce
  note f = next_outcome_frame [OF x] and c = confined_next_outcome [OF x, of fd "{}"]
  show thesis
  proof (cases r)
    case None
    then have "confined fd {} w1 w'" "fds w' = fds w1"
      using assms f by (cases x; auto simp: sys_rename_def x fail_def confined_def split: option.splits)+
    then show thesis using None c f by (intro fault) (auto intro: confined_trans)
  next
    case (Some d)
    with assms f obtain i where "names w old = Some i"
      "w' = w1\<lparr>names := (names w)(old := None, new \<mapsto> i)\<rparr>"
      by (cases x) (auto simp: sys_rename_def x fail_def split: option.splits)
    then show thesis using Some c f by (intro renamed) auto
  qed
qed

lemma unlink_frame:
  assumes "sys_unlink path w = (r, w')"
  shows "inodes w' = inodes w" "fds w' = fds w" "p \<noteq> path \<Longrightarrow> names w' p = names w p"
    "next_fd w' = next_fd w" "names w path = None \<Longrightarrow> names w' path = None"
proof -
  obtain x w1 where x: "next_outcome w = (x, w1)" by fastforce
  show "inodes w' = inodes w" "fds w' = fds w" "p \<noteq> path \<Longrightarrow> names w' p = names w p"
    "next_fd w' = next_fd w" "names w path = None \<Longrightarrow> names w' path = None"
    using assms next_outcome_frame [OF x]
    by (cases x; auto simp: sys_unlink_def x fail_def split: option.splits)+
qed

subsection \<open>Every call preserves well-formedness\<close>

lemma confined_wf:
  assumes "confined fd I w w'" "wf_world w" "fds w' fd = None \<or> (\<exists>off. fds w fd \<noteq> None \<and>
    fds w' fd = Some (fst (the (fds w fd)), off))"
  shows "wf_world w'"
proof (rule wf_worldI)
  note wf = wf_worldD [OF assms(2)] and c = assms(1) [unfolded confined_def]
  show "names w' p = Some i \<Longrightarrow> i < next_inode w'" for p i
    using c wf(1) by simp
  show "fds w' f = Some (i, off) \<Longrightarrow> i < next_inode w'" for f i off
    using c wf(2) assms(3) by (cases "f = fd") fastforce+
  show "fds w' f = None" if "next_fd w' \<le> f" for f
    using c wf(3) [of f] assms(3) that by (cases "f = fd") auto
  show "honest (schedule w')" using c wf(4) by simp
qed

lemma confined_wf_same: "confined fd I w w' \<Longrightarrow> fds w' = fds w \<Longrightarrow> wf_world w \<Longrightarrow> wf_world w'"
  by (rule confined_wf) (assumption+, cases "fds w fd", auto)

lemma wf_open: "sys_open path w = (r, w') \<Longrightarrow> wf_world w \<Longrightarrow> wf_world w'"
proof (erule open_cases [where fd = 0])
  assume "wf_world w" "confined 0 {} w w'" "fds w' = fds w"
  then show "wf_world w'" by (auto intro: confined_wf_same)
next
  fix i w1
  assume wf: "wf_world w" and o: "names w path = Some i" "confined 0 {} w w1" "fds w1 = fds w"
    "w' = w1\<lparr>fds := (fds w)(next_fd w \<mapsto> (i, 0)), next_fd := next_fd w + 1\<rparr>"
  note w = wf_worldD [OF wf]
  show "wf_world w'"
    using o w(1) [OF o(1)] w by (intro wf_worldI) (auto simp: confined_def split: if_splits)
qed

lemma wf_create: "sys_create path w = (r, w') \<Longrightarrow> wf_world w \<Longrightarrow> wf_world w'"
proof (erule create_cases [where fd = 0])
  assume "wf_world w" "confined 0 {} w w'" "fds w' = fds w"
  then show "wf_world w'" by (auto intro: confined_wf_same)
next
  fix w1
  assume wf: "wf_world w" and o: "names w path = None" "confined 0 {} w w1" "fds w1 = fds w"
    "w' = w1\<lparr>names := (names w)(path \<mapsto> next_inode w),
              inodes := (inodes w)(next_inode w := \<lparr>regular = True, content = []\<rparr>),
              next_inode := next_inode w + 1,
              fds := (fds w)(next_fd w \<mapsto> (next_inode w, 0)), next_fd := next_fd w + 1\<rparr>"
  note w = wf_worldD [OF wf]
  show "wf_world w'"
  proof (rule wf_worldI)
    show "names w' p = Some i \<Longrightarrow> i < next_inode w'" for p i
      using o(4) w(1) [of p i] by (auto split: if_splits)
    show "fds w' f = Some (i, off) \<Longrightarrow> i < next_inode w'" for f i off
      using o(4) w(2) [of f i off] by (auto split: if_splits)
    show "fds w' f = None" if "next_fd w' \<le> f" for f
      using that o(4) w(3) [of f] by auto
    show "honest (schedule w')" using o w(4) by (simp add: confined_def)
  qed
qed

lemma wf_rename: "sys_rename old new w = (r, w') \<Longrightarrow> wf_world w \<Longrightarrow> wf_world w'"
proof (erule rename_cases [where fd = 0])
  assume "wf_world w" "confined 0 {} w w'" "fds w' = fds w"
  then show "wf_world w'" by (auto intro: confined_wf_same)
next
  fix i w1
  assume wf: "wf_world w" and o: "names w old = Some i" "confined 0 {} w w1" "fds w1 = fds w"
    "w' = w1\<lparr>names := (names w)(old := None, new \<mapsto> i)\<rparr>"
  note w = wf_worldD [OF wf]
  have "wf_world w1" using o(2,3) wf by (rule confined_wf_same)
  note w1 = wf_worldD [OF this]
  show "wf_world w'"
  proof (rule wf_worldI)
    show "names w' p = Some j \<Longrightarrow> j < next_inode w'" for p j
      using o w(1) [of p j] w(1) [of old i] by (auto simp: confined_def split: if_splits)
    show "fds w' f = Some (j, off) \<Longrightarrow> j < next_inode w'" for f j off
      using o(4) w1(2) by simp
    show "fds w' f = None" if "next_fd w' \<le> f" for f
      using that o(4) w1(3) by simp
    show "honest (schedule w')" using o(4) w1(4) by simp
  qed
qed

lemma wf_unlink: "sys_unlink path w = (r, w') \<Longrightarrow> wf_world w \<Longrightarrow> wf_world w'"
proof -
  assume u: "sys_unlink path w = (r, w')" and wf: "wf_world w"
  obtain x w1 where x: "next_outcome w = (x, w1)" by fastforce
  note f = next_outcome_frame [OF x]
  have w1: "wf_world w1"
    using confined_next_outcome [OF x, of 0 "{}"] f(4) wf by (rule confined_wf_same)
  have "names w' = (names w1)(path := None) \<or> names w' = names w1"
    "fds w' = fds w1" "next_inode w' = next_inode w1" "next_fd w' = next_fd w1" "schedule w' = schedule w1"
    using u by (cases x; auto simp: sys_unlink_def x fail_def split: option.splits)+
  then show "wf_world w'" using wf_worldD [OF w1] by (intro wf_worldI) (auto split: if_splits)
qed

lemma wf_close: "sys_close fd w = (r, w') \<Longrightarrow> wf_world w \<Longrightarrow> wf_world w'"
  using close_confined(1) [of fd w r w' "{}"] close_confined(2) [of fd w r w']
  by (auto intro: confined_wf)

lemma wf_fsync: "sys_fsync fd w = (r, w') \<Longrightarrow> wf_world w \<Longrightarrow> wf_world w'"
  using fsync_confined(1) [of fd w r w' fd "{}"] fsync_confined(2) [of fd w r w']
  by (auto intro: confined_wf_same)

lemma wf_fstat: "sys_fstat fd w = (r, w') \<Longrightarrow> wf_world w \<Longrightarrow> wf_world w'"
  using fstat_confined(1) [of fd w r w' fd "{}"] fstat_confined(2) [of fd w r w']
  by (auto intro: confined_wf_same)

lemma wf_errno [simp]: "wf_world (w\<lparr>last_errno := e\<rparr>) = wf_world w"
  by (simp add: wf_world_def)

text \<open>
  A call that opens and closes its own descriptors: the files may change, the descriptors do not.
\<close>

definition reads_only :: "world \<Rightarrow> world \<Rightarrow> bool" where
  "reads_only w w' =
     (names w' = names w \<and> inodes w' = inodes w \<and> fds w' = fds w \<and> pid w' = pid w \<and>
      next_inode w' = next_inode w \<and> next_fd w \<le> next_fd w' \<and>
      (honest (schedule w) \<longrightarrow> honest (schedule w')))"

lemma reads_only_wf: "reads_only w w' \<Longrightarrow> wf_world w \<Longrightarrow> wf_world w'"
  using wf_worldD [of w] by (intro wf_worldI) (auto simp: reads_only_def)

lemma reads_only_file_content: "reads_only w w' \<Longrightarrow> file_content w' p = file_content w p"
  by (auto simp: reads_only_def file_content_def split: option.split)

lemma reads_only_trans [trans]: "reads_only w w1 \<Longrightarrow> reads_only w1 w2 \<Longrightarrow> reads_only w w2"
  by (auto simp: reads_only_def)

lemma reads_only_errno [simp]: "reads_only w (w'\<lparr>last_errno := e\<rparr>) = reads_only w w'"
  by (simp add: reads_only_def)

lemma reads_only_refl [simp]: "reads_only w w"
  by (simp add: reads_only_def)

text \<open>
  Opening, then any calls confined to the new descriptor that change no inode, then closing it.
\<close>

lemma open_close_reads_only:
  assumes "sys_open path w = (Some fd, w1)" "confined fd {} w1 w2" "sys_close fd w2 = (r, w3)"
    "wf_world w"
  shows "reads_only w w3"
  using assms(1)
proof (cases rule: open_cases [where fd = fd])
  case (opened i v)
  note c = close_confined(1) [OF assms(3), of "{}"] close_confined(2) [OF assms(3)]
  have fd: "fd = next_fd w" using opened(1) by simp
  have "fds w3 g = fds w g" for g
    using assms(2) c(2) opened(6) wf_worldD(3) [OF assms(4), of fd] fd
    by (cases "g = fd") (auto simp: confined_def)
  moreover have "inodes w3 = inodes w"
    using confined_same_inodes [OF assms(2)] confined_same_inodes [OF c(1)] opened(6)
      confined_same_inodes [OF opened(3)] by simp
  ultimately show ?thesis
    using assms(2) c(1) opened(3,6) by (auto simp: reads_only_def confined_def)
qed auto

end
