(* ===== verification/Menu_State.thy ===== *)
theory Menu_State
  imports Menu_Text Posix_World
begin

section \<open>Persistent dashboard settings (\<open>src/menu_state.cpp\<close>, \<open>src/menu_io.cpp\<close>)\<close>

text \<open>
  Volume, brightness and the terminal keymap each live in a one-line state file.  A function
  of the source that returns \<open>bool\<close> and fills \<open>*error\<close> returns \<open>message + value\<close> here,
  with the output parameters as the value; output pointers are never null.
\<close>

subsection \<open>\<open>write_all\<close> and the read loops\<close>

function write_all :: "nat \<Rightarrow> string \<Rightarrow> world \<Rightarrow> bool \<times> world" where
  "write_all fd data w =
     (if data = [] then (True, w)
      else (case sys_write fd data w of
              (Some n, w1) \<Rightarrow> if 0 < n then write_all fd (drop n data) w1 else (False, w1)
            | (None, w1) \<Rightarrow>
                if last_errno w1 = EINTR then write_all fd data w1 else (False, w1)))"
  by pat_completeness auto
termination
  by (relation "measures [\<lambda>(fd, data, w). length data, \<lambda>(fd, data, w). length (schedule w)]")
    (auto dest!: sym [of "(_, _)"] intro: interrupted_schedule)

declare write_all.simps [simp del]

text \<open>
  The read loops stop when the buffer is full, at the end of the file, or at an error.
\<close>

datatype read_stop = Buffer_full | End_of_file | Read_error

function read_loop :: "nat \<Rightarrow> nat \<Rightarrow> string \<Rightarrow> world \<Rightarrow> (read_stop \<times> string) \<times> world" where
  "read_loop fd limit buffer w =
     (if length buffer < limit then
        (case sys_read fd (limit - length buffer) w of
           (Some amount, w1) \<Rightarrow>
             if amount \<noteq> [] then read_loop fd limit (buffer @ amount) w1
             else ((End_of_file, buffer), w1)
         | (None, w1) \<Rightarrow>
             if last_errno w1 = EINTR then read_loop fd limit buffer w1
             else ((Read_error, buffer), w1))
      else ((Buffer_full, buffer), w))"
  by pat_completeness auto
termination
  by (relation "measures [\<lambda>(fd, limit, buffer, w). limit - length buffer,
      \<lambda>(fd, limit, buffer, w). length (schedule w)]")
    (auto dest!: sym [of "(_, _)"] intro: interrupted_schedule intro!: diff_less_mono2)

declare read_loop.simps [simp del]

subsection \<open>Saving and loading one state file\<close>

definition parent_directory :: "string \<Rightarrow> string" where
  "parent_directory path =
     (case rfind_char CHR ''/'' path (length path) of
        None \<Rightarrow> ''.''
      | Some slash \<Rightarrow> if slash = 0 then ''/'' else substr path 0 slash)"

definition temporary_name :: "string \<Rightarrow> nat \<Rightarrow> nat \<Rightarrow> string" where
  "temporary_name path process attempt =
     path @ ''.tmp.'' @ decimal process @ ''.'' @ decimal attempt"

text \<open>The sixteen attempts at a fresh temporary name: the descriptor and name, if any.\<close>

fun create_temporary ::
  "string \<Rightarrow> string \<Rightarrow> nat list \<Rightarrow> world \<Rightarrow> (message + (nat \<times> string) option) \<times> world" where
  "create_temporary path role [] w = (Inr None, w)"
| "create_temporary path role (attempt # attempts) w =
     (let temporary = temporary_name path (pid w) attempt in
      (case sys_create temporary w of
         (Some fd, w1) \<Rightarrow> (Inr (Some (fd, temporary)), w1)
       | (None, w1) \<Rightarrow>
           if last_errno w1 \<noteq> EEXIST
           then (Inl (errno_message (''cannot create '' @ role @ '' state temporary file'') w1), w1)
           else create_temporary path role attempts w1))"

definition sync_directory :: "string \<Rightarrow> world \<Rightarrow> world" where
  "sync_directory directory w =
     (case sys_open directory w of
        (None, w1) \<Rightarrow> w1
      | (Some fd, w1) \<Rightarrow> snd (sys_close fd (snd (sys_fsync fd w1))))"

text \<open>
  The write, sync and close of the temporary file; the first failure is the message.
\<close>

definition fill_temporary :: "nat \<Rightarrow> string \<Rightarrow> string \<Rightarrow> world \<Rightarrow> message option \<times> world" where
  "fill_temporary fd bytes role w =
     (let (ok, w1) = write_all fd bytes w;
          (e2, w2) = (if \<not> ok then (Some (errno_message (''cannot write '' @ role @ '' state'') w1), w1)
                      else (case sys_fsync fd w1 of
                              (Some _, w') \<Rightarrow> (None, w')
                            | (None, w') \<Rightarrow>
                                (Some (errno_message (''cannot sync '' @ role @ '' state'') w'), w')))
      in (case sys_close fd w2 of
            (Some _, w3) \<Rightarrow> (e2, w3)
          | (None, w3) \<Rightarrow>
              (if e2 = None then Some (errno_message (''cannot close '' @ role @ '' state'') w3) else e2,
               w3)))"

definition save_state_value ::
  "string \<Rightarrow> string \<Rightarrow> string \<Rightarrow> world \<Rightarrow> (message + unit) \<times> world" where
  "save_state_value path value role w =
     (if \<not> is_absolute_path path then (Inl (Msg (role @ '' state path must be absolute'')), w)
      else
        (case create_temporary path role [0..<16] w of
           (Inl e, w1) \<Rightarrow> (Inl e, w1)
         | (Inr None, w1) \<Rightarrow>
             (Inl (Msg (''cannot allocate a '' @ role @ '' state temporary file'')), w1)
         | (Inr (Some (fd, temporary)), w1) \<Rightarrow>
             (let (e, w2) = fill_temporary fd (value @ [NL]) role w1;
                  (e', w3) = (if e \<noteq> None then (e, w2)
                     else (case sys_rename temporary path w2 of
                             (Some _, w') \<Rightarrow> (None, w')
                           | (None, w') \<Rightarrow>
                               (Some (errno_message (''cannot replace '' @ role @ '' state'') w'), w')))
              in (case e' of
                    Some m \<Rightarrow> (Inl m, snd (sys_unlink temporary w3))
                  | None \<Rightarrow> (Inr (), sync_directory (parent_directory path) w3)))))"

text \<open>The value is \<open>None\<close> when the file is missing.\<close>

definition load_state_value ::
  "string \<Rightarrow> string \<Rightarrow> world \<Rightarrow> (message + string option) \<times> world" where
  "load_state_value path role w =
     (if \<not> is_absolute_path path then (Inl (Msg (role @ '' state path must be absolute'')), w)
      else
        (case sys_open path w of
           (None, w1) \<Rightarrow>
             if last_errno w1 \<noteq> ENOENT
             then (Inl (errno_message (''cannot open '' @ role @ '' state '' @ path) w1), w1)
             else (Inr None, w1)
         | (Some fd, w1) \<Rightarrow>
             (case sys_fstat fd w1 of
                (None, w2) \<Rightarrow>
                  (Inl (errno_message (''cannot stat '' @ role @ '' state '' @ path) w2),
                   (snd (sys_close fd w2))\<lparr>last_errno := last_errno w2\<rparr>)
              | (Some (is_regular, file_size), w2) \<Rightarrow>
                  if \<not> is_regular \<or> 64 < file_size
                  then (Inl (Msg (role @ '' state must be a regular file no larger than 64 bytes'')),
                        snd (sys_close fd w2))
                  else
                    (case read_loop fd 65 [] w2 of
                       ((stop, bytes), w3) \<Rightarrow>
                         (let w4 = snd (sys_close fd w3) in
                          if stop = Read_error
                          then (Inl (errno_message (''cannot read '' @ role @ '' state '' @ path) w3),
                                w4\<lparr>last_errno := last_errno w3\<rparr>)
                          else if length bytes = 65 then (Inl (Msg (role @ '' state is too large'')), w4)
                          else (Inr (Some bytes), w4))))))"

subsection \<open>Volume\<close>

fun parse_volume_loop :: "string \<Rightarrow> nat \<Rightarrow> nat option" where
  "parse_volume_loop [] v = Some v"
| "parse_volume_loop (c # cs) v =
     (if \<not> is_digit c then None
      else (let v' = v * 10 + digit_value c in
            if 100 < v' then None else parse_volume_loop cs v'))"

definition parse_volume_percent :: "string \<Rightarrow> nat option" where
  "parse_volume_percent s =
     (if s = [] then None
      else (case parse_volume_loop s 0 of
              None \<Rightarrow> None
            | Some v \<Rightarrow> if decimal v \<noteq> s then None else Some v))"

definition save_volume_state :: "string \<Rightarrow> nat \<Rightarrow> world \<Rightarrow> (message + unit) \<times> world" where
  "save_volume_state path volume w =
     (if 100 < volume then (Inl (Msg ''volume must be between 0 and 100''), w)
      else save_state_value path (decimal volume) ''volume'' w)"

text \<open>Storing a default: the value is returned together with the outcome of saving it.\<close>

definition store_default :: "'v \<Rightarrow> (message + unit) \<times> world \<Rightarrow> (message + 'v) \<times> world" where
  "store_default v saved = (case saved of (Inl e, w) \<Rightarrow> (Inl e, w) | (Inr _, w) \<Rightarrow> (Inr v, w))"

text \<open>A line is \<open>bytes\<close> without its only newline, which must come last.\<close>

definition single_line :: "string \<Rightarrow> string option" where
  "single_line bytes =
     (if bytes = [] \<or> bytes ! (length bytes - 1) \<noteq> NL \<or>
         find_char NL bytes 0 \<noteq> Some (length bytes - 1)
      then None else Some (substr bytes 0 (length bytes - 1)))"

definition load_volume_state :: "string \<Rightarrow> nat \<Rightarrow> world \<Rightarrow> (message + nat) \<times> world" where
  "load_volume_state path default_volume w =
     (if 100 < default_volume then (Inl (Msg ''default volume must be between 0 and 100''), w)
      else
        (case load_state_value path ''volume'' w of
           (Inl e, w1) \<Rightarrow> (Inl e, w1)
         | (Inr None, w1) \<Rightarrow> store_default default_volume (save_volume_state path default_volume w1)
         | (Inr (Some bytes), w1) \<Rightarrow>
             if bytes = ''on'' @ [NL]
             then store_default default_volume (save_volume_state path default_volume w1)
             else if bytes = ''off'' @ [NL] then store_default 0 (save_volume_state path 0 w1)
             else
               (case Option.bind (single_line bytes) parse_volume_percent of
                  None \<Rightarrow> (Inl (Msg (''volume state must contain a canonical integer from 0 through '' @
                                  ''100 followed by a newline'')), w1)
                | Some v \<Rightarrow> (Inr v, w1))))"

subsection \<open>Backlight devices and brightness\<close>

definition UINT_MAX :: nat where
  "UINT_MAX = 4294967295"

fun parse_device_loop :: "string \<Rightarrow> string \<Rightarrow> nat \<Rightarrow> message + nat" where
  "parse_device_loop role [] parsed = Inr parsed"
| "parse_device_loop role (c # cs) parsed =
     (if \<not> is_digit c then Inl (Msg (role @ '' must contain an unsigned integer''))
      else (let parsed' = parsed * 10 + digit_value c in
            if UINT_MAX < parsed' then Inl (Msg (role @ '' is too large''))
            else parse_device_loop role cs parsed'))"

text \<open>
  At the end of the file the loop closes the descriptor and the code after the loop closes it
  a second time, as the source does; \<open>read_device_integer_closes_twice\<close> below shows it.
\<close>

definition read_device_integer :: "string \<Rightarrow> string \<Rightarrow> world \<Rightarrow> (message + nat) \<times> world" where
  "read_device_integer path role w =
     (if \<not> is_absolute_path path then (Inl (Msg (role @ '' path must be absolute'')), w)
      else
        (case sys_open path w of
           (None, w1) \<Rightarrow> (Inl (errno_message (''cannot open '' @ role @ '' '' @ path) w1), w1)
         | (Some fd, w1) \<Rightarrow>
             (case read_loop fd 63 [] w1 of
                ((stop, buffer), w2) \<Rightarrow>
                  (let w3 = (if stop = Buffer_full then w2 else snd (sys_close fd w2));
                       w4 = snd (sys_close fd w3); s = trim_ascii_space buffer in
                   if stop = Read_error
                   then (Inl (errno_message (''cannot read '' @ role @ '' '' @ path) w2), w3)
                   else if s = [] then (Inl (Msg (role @ '' is empty'')), w4)
                   else (parse_device_loop role s 0, w4)))))"

text \<open>The truncation of a non-empty regular file; failing with \<open>EINVAL\<close> or \<open>EPERM\<close> is ignored.\<close>

definition truncate_device :: "nat \<Rightarrow> world \<Rightarrow> errno option \<times> world" where
  "truncate_device fd w =
     (case sys_fstat fd w of
        (Some (is_regular, file_size), w1) \<Rightarrow>
          if is_regular \<and> 0 < file_size then
            (case sys_ftruncate fd w1 of
               (Some _, w2) \<Rightarrow> (None, w2)
             | (None, w2) \<Rightarrow>
                 if last_errno w2 \<noteq> EINVAL \<and> last_errno w2 \<noteq> EPERM
                 then (Some (last_errno w2), w2) else (None, w2))
          else (None, w1)
      | (None, w1) \<Rightarrow> (None, w1))"

definition write_device_integer :: "string \<Rightarrow> string \<Rightarrow> nat \<Rightarrow> world \<Rightarrow> (message + unit) \<times> world" where
  "write_device_integer path role value w =
     (if \<not> is_absolute_path path then (Inl (Msg (role @ '' path must be absolute'')), w)
      else
        (case sys_open path w of
           (None, w1) \<Rightarrow> (Inl (errno_message (''cannot open '' @ role @ '' '' @ path) w1), w1)
         | (Some fd, w1) \<Rightarrow>
             (case truncate_device fd w1 of
                (Some e, w2) \<Rightarrow>
                  (Inl (Errno_msg (''cannot truncate '' @ role @ '' '' @ path) e),
                   (snd (sys_close fd w2))\<lparr>last_errno := e\<rparr>)
              | (None, w2) \<Rightarrow>
                  (let (wrote, w3) = write_all fd (decimal value @ [NL]) w2;
                       (closed, w4) = sys_close fd w3
                   in if \<not> wrote \<or> closed = None
                      then (Inl (Errno_msg (''cannot write '' @ role @ '' '' @ path) (last_errno w3)),
                            w4\<lparr>last_errno := last_errno w3\<rparr>)
                      else (Inr (), w4)))))"

definition kBrightnessStep :: nat where
  "kBrightnessStep = 10"

definition kMinimumBrightness :: nat where
  "kMinimumBrightness = 10"

definition brightness_raw_value :: "nat \<Rightarrow> nat \<Rightarrow> nat" where
  "brightness_raw_value percent maximum =
     (if maximum = 0 then 0
      else max 1 (min maximum ((percent * maximum + 50) div 100)))"

definition set_brightness_percent ::
  "string \<Rightarrow> string \<Rightarrow> nat \<Rightarrow> nat \<Rightarrow> world \<Rightarrow> (message + unit) \<times> world" where
  "set_brightness_percent brightness_path state_path maximum percent w =
     (if maximum = 0 \<or> percent < kMinimumBrightness \<or> 100 < percent \<or>
         percent mod kBrightnessStep \<noteq> 0
      then (Inl (Msg ''brightness must be a 10-point step from 10 through 100''), w)
      else
        (case write_device_integer brightness_path ''brightness''
                (brightness_raw_value percent maximum) w of
           (Inl e, w1) \<Rightarrow> (Inl e, w1)
         | (Inr _, w1) \<Rightarrow> save_state_value state_path (decimal percent) ''brightness'' w1))"

text \<open>
  The caller passes an empty \<open>*error\<close>, so the range message appears exactly when neither
  device read stored one.
\<close>

definition read_backlight :: "string \<Rightarrow> string \<Rightarrow> world \<Rightarrow> (message + (nat \<times> nat)) \<times> world" where
  "read_backlight brightness_path maximum_path w =
     (let outside = Inl (Msg ''brightness is outside the backlight range'') in
      (case read_device_integer maximum_path ''maximum brightness'' w of
         (Inl e, w1) \<Rightarrow> (Inl e, w1)
       | (Inr maximum, w1) \<Rightarrow>
           if maximum = 0 then (outside, w1)
           else (case read_device_integer brightness_path ''brightness'' w1 of
                   (Inl e, w2) \<Rightarrow> (Inl e, w2)
                 | (Inr current, w2) \<Rightarrow>
                     if maximum < current then (outside, w2) else (Inr (maximum, current), w2))))"

definition observed_percent :: "nat \<Rightarrow> nat \<Rightarrow> nat" where
  "observed_percent current maximum =
     (let observed = (current * 100 + maximum div 2) div maximum in
      max kMinimumBrightness
        (min 100 (((observed + kBrightnessStep div 2) div kBrightnessStep) * kBrightnessStep)))"

definition parse_brightness :: "string \<Rightarrow> nat option" where
  "parse_brightness bytes =
     (case Option.bind (single_line bytes) parse_volume_percent of
        None \<Rightarrow> None
      | Some percent \<Rightarrow>
          if percent < kMinimumBrightness \<or> percent mod kBrightnessStep \<noteq> 0 then None
          else Some percent)"

definition load_brightness ::
  "string \<Rightarrow> string \<Rightarrow> string \<Rightarrow> world \<Rightarrow> (message + (nat \<times> nat)) \<times> world" where
  "load_brightness brightness_path maximum_path state_path w =
     (case read_backlight brightness_path maximum_path w of
        (Inl e, w1) \<Rightarrow> (Inl e, w1)
      | (Inr (maximum, current), w1) \<Rightarrow>
          (case load_state_value state_path ''brightness'' w1 of
             (Inl e, w2) \<Rightarrow> (Inl e, w2)
           | (Inr stored, w2) \<Rightarrow>
               (case (case stored of
                        None \<Rightarrow> Some (observed_percent current maximum)
                      | Some bytes \<Rightarrow> parse_brightness bytes) of
                  None \<Rightarrow> (Inl (Msg (''brightness state must contain a 10-point step from 10 '' @
                                  ''through 100 followed by a newline'')), w2)
                | Some percent \<Rightarrow>
                    store_default (maximum, percent)
                      (set_brightness_percent brightness_path state_path maximum percent w2))))"

subsection \<open>Terminal keymap\<close>

definition valid_keymap :: "string \<Rightarrow> bool" where
  "valid_keymap keymap = (keymap = ''us'' \<or> keymap = ''cz'')"

definition save_keymap_state :: "string \<Rightarrow> string \<Rightarrow> world \<Rightarrow> (message + unit) \<times> world" where
  "save_keymap_state path keymap w =
     (if \<not> valid_keymap keymap
      then (Inl (Msg (''terminal keymap must be '' @ [CHR 0x27] @ ''us'' @ [CHR 0x27] @ '' or '' @
                      [CHR 0x27] @ ''cz'' @ [CHR 0x27])), w)
      else save_state_value path keymap ''terminal keymap'' w)"

definition load_keymap_state :: "string \<Rightarrow> world \<Rightarrow> (message + string) \<times> world" where
  "load_keymap_state path w =
     (case load_state_value path ''terminal keymap'' w of
        (Inl e, w1) \<Rightarrow> (Inl e, w1)
      | (Inr None, w1) \<Rightarrow> store_default ''us'' (save_keymap_state path ''us'' w1)
      | (Inr (Some bytes), w1) \<Rightarrow>
          if bytes = ''us'' @ [NL] then (Inr ''us'', w1)
          else if bytes = ''cz'' @ [NL] then (Inr ''cz'', w1)
          else (Inl (Msg (''terminal keymap state must contain exactly '' @ [CHR 0x27] @ ''us'' @
                   [CHR 0x5c] @ ''n'' @ [CHR 0x27] @ '' or '' @ [CHR 0x27] @ ''cz'' @ [CHR 0x5c] @
                   ''n'' @ [CHR 0x27])), w1))"

section \<open>The loops\<close>

lemma write_all_Nil [simp]: "write_all fd [] w = (True, w)"
  by (simp add: write_all.simps)

text \<open>Writing at the end of a file appends; a failed write changes only that file.\<close>

lemma write_all_appends:
  assumes "write_all fd data w = (ok, w')" "fds w fd = Some (i, length (content (inodes w i)))"
  shows "confined fd {i} w w' \<and> (ok \<longrightarrow> content (inodes w' i) = content (inodes w i) @ data)"
  using assms
proof (induction fd data w rule: write_all.induct)
  case (1 fd data w)
  show ?case
  proof (cases "data = []")
    case True
    then show ?thesis using "1.prems"(1) by simp
  next
    case False
    obtain r w1 where wr: "sys_write fd data w = (r, w1)" by fastforce
    note c = write_confined [OF wr "1.prems"(2)]
    show ?thesis
    proof (cases r)
      case None
      with c(2) have same: "fds w1 = fds w" "inodes w1 = inodes w" by auto
      show ?thesis
      proof (cases "last_errno w1 = EINTR")
        case True
        have "write_all fd data w1 = (ok, w')"
          using "1.prems"(1) False wr None True by (simp add: write_all.simps [of fd data w])
        with "1.IH"(1) [OF False wr [symmetric] None True] "1.prems"(2) same
        show ?thesis using c(1) by (auto intro: confined_trans)
      next
        case False
        then show ?thesis
          using "1.prems"(1) \<open>data \<noteq> []\<close> wr None c(1) by (simp add: write_all.simps [of fd data w])
      qed
    next
      case (Some n)
      note s = c(3) [OF Some]
      show ?thesis
      proof (cases "0 < n")
        case True
        have step: "write_all fd (drop n data) w1 = (ok, w')"
          using "1.prems"(1) False wr Some True by (simp add: write_all.simps [of fd data w])
        have at_end: "fds w1 fd = Some (i, length (content (inodes w1 i)))"
          "content (inodes w1 i) = content (inodes w i) @ take n data"
          using s by auto
        from "1.IH"(2) [OF False wr [symmetric] Some True step at_end(1)] at_end(2) c(1)
        show ?thesis by (auto intro: confined_trans)
      next
        case False
        then show ?thesis
          using "1.prems"(1) \<open>data \<noteq> []\<close> wr Some c(1) by (simp add: write_all.simps [of fd data w])
      qed
    qed
  qed
qed

lemma write_all_idle:
  assumes "schedule w = []" "fds w fd \<noteq> None"
  shows "\<exists>w'. write_all fd data w = (True, w') \<and> schedule w' = [] \<and> fds w' fd \<noteq> None"
proof (cases "data = []")
  case False
  obtain i off where "fds w fd = Some (i, off)" using assms(2) by auto
  with assms False show ?thesis
    by (subst write_all.simps) (simp add: sys_write_def write_at_def Let_def write_all.simps)
qed (use assms in auto)

text \<open>
  The read loop returns a prefix of the file: all of it at the end of the file, and exactly
  as much as fits when the buffer is full.
\<close>

lemma read_loop_prefix:
  assumes "read_loop fd limit buffer w = ((stop, bytes), w')" "fds w fd = Some (i, length buffer)"
    "buffer = take (length buffer) (content (inodes w i))" "length buffer \<le> limit"
  shows "confined fd {} w w' \<and> bytes = take (length bytes) (content (inodes w i)) \<and>
    length bytes \<le> limit \<and> (stop = End_of_file \<longrightarrow> bytes = content (inodes w i)) \<and>
    (stop = Buffer_full \<longrightarrow> length bytes = limit) \<and> fds w' fd \<noteq> None"
  using assms
proof (induction fd limit buffer w rule: read_loop.induct)
  case (1 fd limit buffer w)
  show ?case
  proof (cases "length buffer < limit")
    case False
    then show ?thesis using "1.prems" by (simp add: read_loop.simps [of fd limit buffer w])
  next
    case True
    obtain r w1 where rd: "sys_read fd (limit - length buffer) w = (r, w1)" by fastforce
    note c = read_confined [OF rd, of "{}"]
    have same: "inodes w1 = inodes w" using c by (rule confined_same_inodes)
    show ?thesis
    proof (cases r)
      case None
      note e = read_fault [OF rd [unfolded None] "1.prems"(2)]
      show ?thesis
      proof (cases "last_errno w1 = EINTR")
        case intr: True
        have "read_loop fd limit buffer w1 = ((stop, bytes), w')"
          using "1.prems"(1) True rd None intr by (simp add: read_loop.simps [of fd limit buffer w])
        with "1.IH"(1) [OF True rd [symmetric] None intr] "1.prems" e same c
        show ?thesis by (auto intro: confined_trans)
      next
        case False
        then show ?thesis
          using "1.prems" True rd None c e by (auto simp: read_loop.simps [of fd limit buffer w])
      qed
    next
      case (Some amount)
      note d = read_data [OF rd [unfolded Some] "1.prems"(2)]
      show ?thesis
      proof (cases "amount = []")
        case eof: True
        with d(4) True have "content (inodes w i) = buffer"
          using "1.prems"(3) by simp
        then show ?thesis
          using "1.prems" True rd Some eof c d(1) by (auto simp: read_loop.simps [of fd limit buffer w])
      next
        case False
        have step: "read_loop fd limit (buffer @ amount) w1 = ((stop, bytes), w')"
          using "1.prems"(1) True rd Some False by (simp add: read_loop.simps [of fd limit buffer w])
        have "length buffer \<le> length (content (inodes w i))"
          using "1.prems"(3) by (metis length_take min.cobounded1)
        then have "buffer @ amount = take (length (buffer @ amount)) (content (inodes w1 i))"
          using "1.prems"(3) d(3) same by (metis length_append take_add)
        from "1.IH"(2) [OF True rd [symmetric] Some False step _ this] d(1,2) True same c
        show ?thesis by (auto intro: confined_trans)
      qed
    qed
  qed
qed

section \<open>Saving replaces the file in one step\<close>

lemma temporary_name_longer: "temporary_name path a b \<noteq> path"
  by (auto simp: temporary_name_def)

lemma create_temporary_cases:
  assumes "create_temporary path role ks w = (r, w')"
  obtains (fault) "\<forall>fd t. r \<noteq> Inr (Some (fd, t))" "confined d {} w w'" "fds w' = fds w"
  | (created) k w1 where "k \<in> set ks"
      "r = Inr (Some (next_fd w, temporary_name path (pid w) k))"
      "names w (temporary_name path (pid w) k) = None" "confined (next_fd w) {} w w1" "fds w1 = fds w"
      "w' = w1\<lparr>names := (names w)(temporary_name path (pid w) k \<mapsto> next_inode w),
              inodes := (inodes w)(next_inode w := \<lparr>regular = True, content = []\<rparr>),
              next_inode := next_inode w + 1,
              fds := (fds w)(next_fd w \<mapsto> (next_inode w, 0)), next_fd := next_fd w + 1\<rparr>"
  using assms
proof (induction ks arbitrary: w thesis)
  case Nil
  from Nil(3) have "r = Inr None" "w' = w" by auto
  then show ?case using Nil(1) by simp
next
  case (Cons k ks)
  let ?t = "temporary_name path (pid w) k"
  obtain x w1 where cr: "sys_create ?t w = (x, w1)" by fastforce
  from cr show ?case
  proof (cases rule: create_cases [where fd = d])
    case fault
    show ?thesis
    proof (cases "last_errno w1 = EEXIST")
      case False
      with Cons.prems(3) fault(1) cr have "w' = w1" "\<exists>m. r = Inl m" by (auto simp: Let_def)
      then show ?thesis using Cons.prems(1) fault(2,3) by auto
    next
      case True
      with Cons.prems(3) fault cr have step: "create_temporary path role ks w1 = (r, w')"
        by (simp add: Let_def)
      have eqs: "pid w1 = pid w" "names w1 = names w" "next_inode w1 = next_inode w"
        "next_fd w1 = next_fd w" "inodes w1 = inodes w"
        using fault(2) by (auto simp: confined_def)
      show ?thesis
      proof (rule Cons.IH [OF _ _ step])
        assume "\<forall>fd t. r \<noteq> Inr (Some (fd, t))" "confined d {} w1 w'" "fds w' = fds w1"
        then show thesis using Cons.prems(1) fault by (auto intro: confined_trans)
      next
        fix j w2
        assume j: "j \<in> set ks" and rest: "r = Inr (Some (next_fd w1, temporary_name path (pid w1) j))"
          "names w1 (temporary_name path (pid w1) j) = None" "confined (next_fd w1) {} w1 w2"
          "fds w2 = fds w1"
          "w' = w2\<lparr>names := (names w1)(temporary_name path (pid w1) j \<mapsto> next_inode w1),
              inodes := (inodes w1)(next_inode w1 := \<lparr>regular = True, content = []\<rparr>),
              next_inode := next_inode w1 + 1,
              fds := (fds w1)(next_fd w1 \<mapsto> (next_inode w1, 0)), next_fd := next_fd w1 + 1\<rparr>"
        have "confined (next_fd w) {} w w1" using fault(2,3) by (auto simp: confined_def)
        then have "confined (next_fd w) {} w w2" using rest(3) eqs(4) by (auto intro: confined_trans)
        then show thesis
          using j rest fault(3) eqs by (intro Cons.prems(2) [of j w2]) (auto simp: fun_upd_def)
      qed
    qed
  next
    case (created w2)
    have "confined (next_fd w) {} w w2" using created(3,4) by (auto simp: confined_def)
    moreover have "r = Inr (Some (next_fd w, ?t))" "w' = w1"
      using Cons.prems(3) created(1) cr by (auto simp: Let_def)
    ultimately show ?thesis
      using created(2,4,5) by (intro Cons.prems(2) [of k w2]) (auto simp: fun_upd_def)
  qed
qed

lemma fill_temporary_writes:
  assumes "fill_temporary fd bytes role w = (e, w')" "fds w fd = Some (i, 0)" "content (inodes w i) = []"
  shows "confined fd {i} w w' \<and> fds w' fd = None \<and> (e = None \<longrightarrow> content (inodes w' i) = bytes)"
proof -
  obtain ok w1 where wr: "write_all fd bytes w = (ok, w1)" by fastforce
  from write_all_appends [OF wr, of i] assms(2,3)
  have w1: "confined fd {i} w w1" "ok \<longrightarrow> content (inodes w1 i) = bytes" by auto
  obtain x w2 where sy: "sys_fsync fd w1 = (x, w2)" by fastforce
  obtain e2 w3 where mid: "(if \<not> ok then (Some (errno_message (''cannot write '' @ role @ '' state'') w1), w1)
                      else (case sys_fsync fd w1 of
                              (Some _, w') \<Rightarrow> (None, w')
                            | (None, w') \<Rightarrow>
                                (Some (errno_message (''cannot sync '' @ role @ '' state'') w'), w')))
     = (e2, w3)" by fastforce
  have e2: "e2 = None \<longrightarrow> ok" "confined fd {} w1 w3"
    using mid sy fsync_confined(1) [OF sy, of fd "{}"] by (cases ok; cases x; auto)+
  obtain y w4 where cl: "sys_close fd w3 = (y, w4)" by fastforce
  have "w' = w4" "e = None \<longrightarrow> e2 = None"
    using assms(1) unfolding fill_temporary_def wr Let_def case_prod_conv mid cl
    by (auto split: option.splits if_splits)
  moreover have "confined fd {} w1 w4"
    using e2(2) close_confined(1) [OF cl] by (rule confined_trans)
  ultimately show ?thesis
    using w1 e2(1) close_confined(2) [OF cl] confined_same_inodes [of fd w1 w4]
    by (auto intro: confined_trans confined_mono)
qed

lemma sync_directory_frame:
  assumes "fds w (next_fd w) = None"
  shows "names (sync_directory d w) = names w \<and> inodes (sync_directory d w) = inodes w \<and>
    fds (sync_directory d w) = fds w"
proof -
  obtain r w1 where op: "sys_open d w = (r, w1)" by fastforce
  then show ?thesis
  proof (cases rule: open_cases [where fd = 0])
    case fault
    then show ?thesis using op by (auto simp: sync_directory_def confined_def)
  next
    case (opened i w2)
    obtain x w3 where sy: "sys_fsync (next_fd w) w1 = (x, w3)" by fastforce
    obtain y w4 where cl: "sys_close (next_fd w) w3 = (y, w4)" by fastforce
    have "sync_directory d w = w4" using op opened sy cl by (simp add: sync_directory_def)
    then show ?thesis
      using opened fsync_confined(1) [OF sy, of 0 "{}"] fsync_confined(2) [OF sy]
        close_confined(1) [OF cl, of "{}"] close_confined(2) [OF cl] assms
      by (auto simp: confined_def fun_eq_iff)
  qed
qed

text \<open>
  A file written under a fresh temporary name and closed: unlinking it leaves every other file and
  the descriptors as they were before it was created, renaming it gives the path the new bytes.
\<close>

lemma temporary_outcome:
  assumes wf: "wf_world w" and t: "names w t = None" "t \<noteq> path"
    and created: "confined (next_fd w) {} w w2"
      "w1 = w2\<lparr>names := (names w)(t \<mapsto> next_inode w),
              inodes := (inodes w)(next_inode w := \<lparr>regular = True, content = []\<rparr>),
              next_inode := next_inode w + 1,
              fds := (fds w)(next_fd w \<mapsto> (next_inode w, 0)), next_fd := next_fd w + 1\<rparr>"
    and filled: "confined (next_fd w) {next_inode w} w1 w3" "fds w3 (next_fd w) = None"
  shows "fds w3 = fds w"
    and "names v = names w3 \<Longrightarrow> inodes v = inodes w3 \<Longrightarrow> fds v = fds w3 \<Longrightarrow> p \<noteq> t \<Longrightarrow>
      file_content (snd (sys_unlink t v)) p = file_content w p \<and> fds (snd (sys_unlink t v)) = fds w"
    and "sys_rename t path w3 = (None, w4) \<Longrightarrow> names w4 = names w3 \<and> inodes w4 = inodes w3 \<and> fds w4 = fds w3"
    and "sys_rename t path w3 = (Some u, w4) \<Longrightarrow>
      fds w4 = fds w \<and> next_fd w4 = next_fd w + 1 \<and>
      file_content w4 path = Some (content (inodes w3 (next_inode w))) \<and>
      (\<forall>p. p \<noteq> path \<longrightarrow> file_content w4 p = file_content w p)"
proof -
  let ?i = "next_inode w" and ?fd = "next_fd w"
  have below: "\<And>p i. names w p = Some i \<Longrightarrow> i \<noteq> ?i" "fds w ?fd = None"
    using wf_worldD(1,3) [OF wf] by fastforce+
  have w3: "names w3 = (names w)(t \<mapsto> ?i)" "\<And>j. j \<noteq> ?i \<Longrightarrow> inodes w3 j = inodes w j"
    "regular (inodes w3 ?i)" "next_fd w3 = Suc ?fd"
    using filled(1) created by (auto simp: confined_def)
  show fd3: "fds w3 = fds w"
  proof
    fix g show "fds w3 g = fds w g"
      using filled created(2) below(2) by (cases "g = ?fd") (auto simp: confined_def)
  qed
  have keep: "file_content w3 p = file_content w p" if "p \<noteq> t" for p
    using that w3(1,2) below(1) by (auto simp: file_content_def split: option.splits)
  show "file_content (snd (sys_unlink t v)) p = file_content w p \<and> fds (snd (sys_unlink t v)) = fds w"
    if "names v = names w3" "inodes v = inodes w3" "fds v = fds w3" "p \<noteq> t" for v p
  proof -
    obtain y v' where u: "sys_unlink t v = (y, v')" by fastforce
    note u' = unlink_frame [OF u]
    have "file_content v' p = file_content w3 p"
      using u'(1) u'(3) [OF that(4)] that(1,2) by (simp add: file_content_def split: option.split)
    then show ?thesis using u keep [OF that(4)] u'(2) that(3) fd3 by simp
  qed
  show "names w4 = names w3 \<and> inodes w4 = inodes w3 \<and> fds w4 = fds w3" if "sys_rename t path w3 = (None, w4)"
    using that by (cases rule: rename_cases [where fd = 0]) (auto simp: confined_def)
  show "fds w4 = fds w \<and> next_fd w4 = next_fd w + 1 \<and>
      file_content w4 path = Some (content (inodes w3 ?i)) \<and>
      (\<forall>p. p \<noteq> path \<longrightarrow> file_content w4 p = file_content w p)" if "sys_rename t path w3 = (Some u, w4)"
    using that
  proof (cases rule: rename_cases [where fd = 0])
    case (renamed i v)
    have "i = ?i" using renamed(2) w3(1) by simp
    moreover have "inodes v = inodes w3" "next_fd v = next_fd w3" "names v = names w3"
      using renamed(3) by (auto simp: confined_def)
    ultimately have w4: "names w4 = (names w3)(t := None, path \<mapsto> ?i)" "inodes w4 = inodes w3"
      "fds w4 = fds w" "next_fd w4 = Suc ?fd"
      using renamed(4,5) w3(4) fd3 by auto
    have "file_content w4 p = file_content w p" if "p \<noteq> path" for p
    proof (cases "p = t")
      case True
      then show ?thesis using w4 t by (simp add: file_content_def split: option.split)
    next
      case False
      have "file_content w4 p = file_content w3 p"
        using w4 that False by (simp add: file_content_def split: option.split)
      then show ?thesis using keep [OF False] by simp
    qed
    then show ?thesis using w4 w3(3) by (auto simp: file_content_def)
  qed simp
qed

text \<open>
  The whole call: what it leaves in the file system and among the descriptors.
\<close>

lemma save_state_value_outcome:
  assumes wf: "wf_world w" and save: "save_state_value path value role w = (r, w')"
  shows "fds w' = fds w"
    "r = Inr () \<Longrightarrow> file_content w' path = Some (value @ [NL])"
    "r = Inr () \<Longrightarrow> p \<noteq> path \<Longrightarrow> file_content w' p = file_content w p"
    "r = Inl m \<Longrightarrow> (\<forall>k. p \<noteq> temporary_name path (pid w) k) \<or> names w p \<noteq> None \<Longrightarrow>
       file_content w' p = file_content w p"
proof -
  let ?goal = "fds w' = fds w \<and>
    (r = Inr () \<longrightarrow> file_content w' path = Some (value @ [NL]) \<and>
       (\<forall>p. p \<noteq> path \<longrightarrow> file_content w' p = file_content w p)) \<and>
    (\<forall>m p. r = Inl m \<longrightarrow> (\<forall>k. p \<noteq> temporary_name path (pid w) k) \<or> names w p \<noteq> None \<longrightarrow>
       file_content w' p = file_content w p)"
  have ?goal
  proof (cases "is_absolute_path path")
    case False
    then show ?thesis using save by (auto simp: save_state_value_def)
  next
    case abs: True
    obtain c w1 where cr: "create_temporary path role [0..<16] w = (c, w1)" by fastforce
    from cr show ?thesis
    proof (cases rule: create_temporary_cases [where d = 0])
      case fault
      have "w' = w1" "\<exists>m. r = Inl m"
        using save abs cr fault(1) by (auto simp: save_state_value_def split: sum.splits option.splits)
      then show ?thesis using fault by (auto intro: confined_file_content)
    next
      case (created k w2)
      let ?t = "temporary_name path (pid w) k" and ?i = "next_inode w" and ?fd = "next_fd w"
      obtain e w3 where fill: "fill_temporary ?fd (value @ [NL]) role w1 = (e, w3)" by fastforce
      from fill_temporary_writes [OF fill, of ?i] created
      have f: "confined ?fd {?i} w1 w3" "fds w3 ?fd = None"
        "e = None \<longrightarrow> content (inodes w3 ?i) = value @ [NL]" by auto
      have t: "?t \<noteq> path" by (rule temporary_name_longer)
      note out = temporary_outcome [OF wf created(3) t created(4,6) f(1,2)]
      have names_t: "p \<noteq> ?t" if "(\<forall>k. p \<noteq> temporary_name path (pid w) k) \<or> names w p \<noteq> None" for p
        using that created(3) by auto
      have body: "save_state_value path value role w =
         (let (e', w4) = (if e \<noteq> None then (e, w3)
                     else (case sys_rename ?t path w3 of
                             (Some _, w') \<Rightarrow> (None, w')
                           | (None, w') \<Rightarrow>
                               (Some (errno_message (''cannot replace '' @ role @ '' state'') w'), w')))
              in (case e' of
                    Some m \<Rightarrow> (Inl m, snd (sys_unlink ?t w4))
                  | None \<Rightarrow> (Inr (), sync_directory (parent_directory path) w4)))"
        using abs cr created(2) fill by (simp add: save_state_value_def)
      show ?thesis
      proof (cases e)
        case (Some m)
        with body save have "r = Inl m" "w' = snd (sys_unlink ?t w3)" by auto
        then show ?thesis using out(2) [OF refl refl refl] out(2) [OF refl refl refl t [symmetric]] names_t by auto
      next
        case None
        obtain y w4 where rn: "sys_rename ?t path w3 = (y, w4)" by fastforce
        show ?thesis
        proof (cases y)
          case fault: None
          have "\<exists>m. r = Inl m" "w' = snd (sys_unlink ?t w4)"
            using body save None rn fault by auto
          moreover have "names w4 = names w3" "inodes w4 = inodes w3" "fds w4 = fds w3"
            using out(3) [of w4] rn fault by auto
          ultimately show ?thesis using out(2) [of w4] out(2) [of w4, OF _ _ _ t [symmetric]] names_t by auto
        next
          case (Some u)
          have r: "r = Inr ()" "w' = sync_directory (parent_directory path) w4"
            using body save None rn Some by auto
          have o4: "fds w4 = fds w" "next_fd w4 = next_fd w + 1" "file_content w4 path = Some (value @ [NL])"
            "\<forall>p. p \<noteq> path \<longrightarrow> file_content w4 p = file_content w p"
            using out(4) [of u w4] rn Some f(3) None by auto
          have "fds w4 (next_fd w4) = None" using wf_worldD(3) [OF wf] o4(1,2) by simp
          from sync_directory_frame [OF this, of "parent_directory path"] have s: "names w' = names w4"
            "inodes w' = inodes w4" "fds w' = fds w" using r(2) o4(1) by auto
          then have "file_content w' p = file_content w4 p" for p
            by (simp add: file_content_def split: option.split)
          then show ?thesis using o4 r(1) s(3) by simp
        qed
      qed
    qed
  qed
  then show "fds w' = fds w" "r = Inr () \<Longrightarrow> file_content w' path = Some (value @ [NL])"
    "r = Inr () \<Longrightarrow> p \<noteq> path \<Longrightarrow> file_content w' p = file_content w p"
    "r = Inl m \<Longrightarrow> (\<forall>k. p \<noteq> temporary_name path (pid w) k) \<or> names w p \<noteq> None \<Longrightarrow>
       file_content w' p = file_content w p" by blast+
qed

lemma write_all_wf:
  assumes "write_all fd data w = (ok, w')" "fds w fd = Some (i, length (content (inodes w i)))"
    "wf_world w" "sys_close fd w' = (r, w'')"
  shows "wf_world w''"
proof -
  have "confined fd {i} w w''"
    using write_all_appends [OF assms(1,2)] close_confined(1) [OF assms(4)]
    by (auto intro: confined_trans)
  then show ?thesis
    using close_confined(2) [OF assms(4)] assms(3) by (auto intro: confined_wf)
qed

lemma create_temporary_wf:
  "create_temporary path role ks w = (r, w') \<Longrightarrow> wf_world w \<Longrightarrow> wf_world w'"
proof (induction ks arbitrary: w)
  case (Cons k ks)
  obtain x w1 where cr: "sys_create (temporary_name path (pid w) k) w = (x, w1)" by fastforce
  have "wf_world w1" using wf_create [OF cr Cons.prems(2)] .
  then show ?case
    using Cons cr by (cases x) (auto simp: Let_def split: if_splits)
qed simp

lemma fill_temporary_wf:
  assumes "fill_temporary fd bytes role w = (e, w')" "fds w fd = Some (i, 0)"
    "content (inodes w i) = []" "wf_world w"
  shows "wf_world w'"
  using fill_temporary_writes [OF assms(1-3)] assms(4) by (auto intro: confined_wf)

lemma sync_directory_wf: "wf_world w \<Longrightarrow> wf_world (sync_directory d w)"
  by (auto simp: sync_directory_def split: option.splits prod.splits
      dest: wf_open wf_fsync wf_close)
    (metis prod.collapse wf_open wf_fsync wf_close)

lemma save_state_value_wf:
  assumes wf: "wf_world w" and save: "save_state_value path value role w = (r, w')"
  shows "wf_world w'"
proof (cases "is_absolute_path path")
  case False
  then show ?thesis using assms by (auto simp: save_state_value_def)
next
  case abs: True
  obtain c w1 where cr: "create_temporary path role [0..<16] w = (c, w1)" by fastforce
  have w1: "wf_world w1" using create_temporary_wf [OF cr wf] .
  from cr show ?thesis
  proof (cases rule: create_temporary_cases [where d = 0])
    case fault
    then have "w' = w1"
      using save abs cr by (auto simp: save_state_value_def split: sum.splits option.splits)
    then show ?thesis using w1 by simp
  next
    case (created k w2)
    let ?t = "temporary_name path (pid w) k"
    obtain e w3 where fill: "fill_temporary (next_fd w) (value @ [NL]) role w1 = (e, w3)" by fastforce
    obtain y w4 where rn: "sys_rename ?t path w3 = (y, w4)" by fastforce
    have w3: "wf_world w3"
      using fill_temporary_wf [OF fill, of "next_inode w"] created(6) w1 by simp
    then have w4: "wf_world w4" using wf_rename [OF rn] by simp
    have un: "wf_world (snd (sys_unlink ?t v))" if "wf_world v" for v
      using wf_unlink [of ?t v] that by (cases "sys_unlink ?t v") auto
    have "w' = snd (sys_unlink ?t w3) \<or> w' = snd (sys_unlink ?t w4) \<or>
        w' = sync_directory (parent_directory path) w4"
      using save abs cr created(2) fill rn
      by (auto simp: save_state_value_def split: option.splits if_splits prod.splits)
    then show ?thesis using un [OF w3] un [OF w4] sync_directory_wf [OF w4] by auto
  qed
qed

section \<open>Loading returns the file's bytes\<close>

lemma load_state_value_outcome:
  assumes wf: "wf_world w" and load: "load_state_value path role w = (r, w')"
  shows "reads_only w w'" "r = Inr None \<Longrightarrow> names w path = None"
    "r = Inr (Some bytes) \<Longrightarrow> file_content w path = Some bytes \<and> length bytes \<le> 64"
proof -
  have "reads_only w w' \<and> (r = Inr None \<longrightarrow> names w path = None) \<and>
    (\<forall>bytes. r = Inr (Some bytes) \<longrightarrow> file_content w path = Some bytes \<and> length bytes \<le> 64)"
  proof (cases "is_absolute_path path")
    case False
    then show ?thesis using load by (auto simp: load_state_value_def)
  next
    case abs: True
    obtain x w1 where op: "sys_open path w = (x, w1)" by fastforce
    from op show ?thesis
    proof (cases rule: open_cases [where fd = 0])
      case fault
      have "reads_only w w1" using fault by (auto simp: reads_only_def confined_def)
      then show ?thesis
        using load abs op fault(1,4) wf_worldD(4) [OF wf]
        by (auto simp: load_state_value_def split: if_splits)
    next
      case (opened i v)
      let ?fd = "next_fd w"
      have w1: "fds w1 ?fd = Some (i, 0)" "inodes w1 = inodes w" "names w1 = names w"
        using opened(3,6) by (auto simp: confined_def)
      obtain s w2 where st: "sys_fstat ?fd w1 = (s, w2)" by fastforce
      note s1 = fstat_confined(1) [OF st, of ?fd "{}"]
      have w2: "fds w2 ?fd = Some (i, 0)" "inodes w2 = inodes w"
        using fstat_confined(2) [OF st] w1 confined_same_inodes [OF s1] by auto
      have closed: "reads_only w (snd (sys_close ?fd w3))" if "confined ?fd {} w1 w3" for w3
        using open_close_reads_only [OF op [unfolded opened(1)] that] wf
        by (cases "sys_close ?fd w3") auto
      show ?thesis
      proof (cases s)
        case None
        then show ?thesis
          using load abs op opened(1) st closed [OF s1] by (auto simp: load_state_value_def)
      next
        case (Some info)
        obtain reg len where info: "info = (reg, len)" by fastforce
        have reg: "reg = regular (inodes w i)" "len = length (content (inodes w i))"
          using fstat_confined(3) [OF st _ w1(1)] Some info w1(2) by auto
        show ?thesis
        proof (cases "\<not> reg \<or> 64 < len")
          case True
          then show ?thesis
            using load abs op opened(1) st Some info closed [OF s1] by (auto simp: load_state_value_def)
        next
          case False
          obtain stop bytes w3 where rd: "read_loop ?fd 65 [] w2 = ((stop, bytes), w3)"
            by (metis prod.collapse)
          from read_loop_prefix [OF rd, of i] w2
          have r: "confined ?fd {} w2 w3" "bytes = take (length bytes) (content (inodes w i))"
            "stop = End_of_file \<longrightarrow> bytes = content (inodes w i)"
            "stop = Buffer_full \<longrightarrow> length bytes = 65" by auto
          have len: "length bytes \<le> 64"
            using False reg(2) arg_cong [OF r(2), of length] by (simp add: min_def split: if_splits)
          have "file_content w path = Some (content (inodes w i))"
            using opened(2) False reg(1) by (simp add: file_content_def)
          moreover have "(r, w') = (if stop = Read_error
              then (Inl (errno_message (''cannot read '' @ role @ '' state '' @ path) w3),
                    (snd (sys_close ?fd w3))\<lparr>last_errno := last_errno w3\<rparr>)
              else (Inr (Some bytes), snd (sys_close ?fd w3)))"
            using load [symmetric] abs op opened(1) st Some info False rd len
            by (auto simp: load_state_value_def Let_def)
          moreover have "reads_only w (snd (sys_close ?fd w3))"
            by (rule closed) (rule confined_trans [OF s1 r(1)])
          ultimately show ?thesis
            using r(3,4) len by (cases stop) auto
        qed
      qed
    qed
  qed
  then show "reads_only w w'" "r = Inr None \<Longrightarrow> names w path = None"
    "r = Inr (Some bytes) \<Longrightarrow> file_content w path = Some bytes \<and> length bytes \<le> 64" by blast+
qed

section \<open>Numbers and lines\<close>

lemma parse_volume_loop_sound:
  "parse_volume_loop s v = Some r \<Longrightarrow> v \<le> 100 \<Longrightarrow>
     list_all is_digit s \<and> r = foldl (\<lambda>v c. v * 10 + digit_value c) v s \<and> r \<le> 100"
  by (induction s arbitrary: v) (auto simp: Let_def split: if_splits)

lemma parse_volume_loop_complete:
  "list_all is_digit s \<Longrightarrow> foldl (\<lambda>v c. v * 10 + digit_value c) v s \<le> 100 \<Longrightarrow>
     parse_volume_loop s v = Some (foldl (\<lambda>v c. v * 10 + digit_value c) v s)"
proof (induction s arbitrary: v)
  case (Cons c s)
  then have "v * 10 + digit_value c \<le> 100"
    using foldl_digits_mono [of "v * 10 + digit_value c" s] by simp
  then show ?case using Cons by (simp add: Let_def)
qed simp

lemma parse_volume_percent_iff: "parse_volume_percent s = Some v \<longleftrightarrow> v \<le> 100 \<and> s = decimal v"
proof
  assume "parse_volume_percent s = Some v"
  then show "v \<le> 100 \<and> s = decimal v"
    using parse_volume_loop_sound [of s 0]
    by (auto simp: parse_volume_percent_def split: if_splits option.splits)
next
  assume "v \<le> 100 \<and> s = decimal v"
  moreover have "foldl (\<lambda>v c. v * 10 + digit_value c) 0 (decimal v) = v"
    using decimal_value_decimal [of v] by (simp only: decimal_value_def)
  ultimately show "parse_volume_percent s = Some v"
    using parse_volume_loop_complete [OF decimal_digits, of 0 v] by (simp add: parse_volume_percent_def)
qed

lemma NL_not_digit: "\<not> is_digit NL"
  by (simp add: is_digit_def NL_def)

lemma NL_not_in_decimal [simp]: "NL \<notin> set (decimal n)"
  using decimal_digits [of n] NL_not_digit by (auto simp: list_all_iff)

lemma single_line_iff: "single_line bytes = Some s \<longleftrightarrow> bytes = s @ [NL] \<and> NL \<notin> set s"
proof
  assume *: "single_line bytes = Some s"
  then have b: "bytes \<noteq> []" "bytes ! (length bytes - 1) = NL"
    "find_char NL bytes 0 = Some (length bytes - 1)" "s = butlast bytes"
    by (auto simp: single_line_def substr_def butlast_conv_take split: if_splits)
  then have eq: "bytes = s @ [NL]" by (metis append_butlast_last_id last_conv_nth)
  moreover have "NL \<notin> set s"
  proof
    assume "NL \<in> set s"
    then obtain k where "k < length s" "s ! k = NL" by (auto simp: in_set_conv_nth)
    then show False
      using find_char_first [OF b(3), of k] b(4) by (simp add: nth_butlast)
  qed
  ultimately show "bytes = s @ [NL] \<and> NL \<notin> set s" by simp
next
  assume *: "bytes = s @ [NL] \<and> NL \<notin> set s"
  have "find_char NL bytes 0 = Some (length s)"
  proof (cases "find_char NL bytes 0")
    case None
    then show ?thesis using * by (auto simp: find_char_None)
  next
    case (Some i)
    have "\<not> i < length s"
    proof
      assume "i < length s"
      then have "s ! i = NL" using find_char_Some(3) [OF Some] * by (simp add: nth_append)
      then show False using * \<open>i < length s\<close> nth_mem by metis
    qed
    then show ?thesis using find_char_Some [OF Some] * Some by auto
  qed
  then show "single_line bytes = Some s" using * by (simp add: single_line_def substr_def)
qed

section \<open>Settings: what saving and loading owe each other\<close>

text \<open>
  A setting is a value kept in one state file.  The laws name what the dashboard relies on:
  a successful save leaves the canonical encoding, and a successful load of a file leaves the
  canonical encoding of the value it returns, whatever legacy form the file had before.
\<close>

locale state_setting =
  fixes save :: "string \<Rightarrow> 'v \<Rightarrow> world \<Rightarrow> (message + unit) \<times> world"
    and load :: "string \<Rightarrow> world \<Rightarrow> (message + 'v) \<times> world"
    and encode :: "'v \<Rightarrow> string"
    and valid :: "'v \<Rightarrow> bool"
  assumes encode_inject: "valid u \<Longrightarrow> valid v \<Longrightarrow> encode u = encode v \<Longrightarrow> u = v"
    and save_encodes: "wf_world w \<Longrightarrow> save p v w = (Inr (), w') \<Longrightarrow>
      valid v \<and> file_content w' p = Some (encode v) \<and> wf_world w' \<and> fds w' = fds w"
    and load_canonical: "wf_world w \<Longrightarrow> load p w = (Inr v, w') \<Longrightarrow>
      valid v \<and> file_content w' p = Some (encode v) \<and> wf_world w' \<and> fds w' = fds w"
    and load_keeps: "wf_world w \<Longrightarrow> valid v \<Longrightarrow> file_content w p = Some (encode v) \<Longrightarrow>
      load p w = (Inr u, w') \<Longrightarrow> u = v"
begin

lemma save_load: "wf_world w \<Longrightarrow> save p v w = (Inr (), w1) \<Longrightarrow> load p w1 = (Inr u, w2) \<Longrightarrow> u = v"
  using save_encodes load_keeps by blast

lemma load_load: "wf_world w \<Longrightarrow> load p w = (Inr v, w1) \<Longrightarrow> load p w1 = (Inr u, w2) \<Longrightarrow> u = v"
  using load_canonical load_keeps by blast

lemma load_valid: "wf_world w \<Longrightarrow> load p w = (Inr v, w') \<Longrightarrow> valid v"
  using load_canonical by blast

end

lemma save_state_value_canonical:
  assumes "wf_world w" "save_state_value p s role w = (Inr x, w')"
  shows "file_content w' p = Some (s @ [NL]) \<and> wf_world w' \<and> fds w' = fds w"
  using save_state_value_outcome(1,2) [OF assms] save_state_value_wf [OF assms] by auto

lemma load_state_value_wf:
  assumes "wf_world w" "load_state_value p role w = (r, w')"
  shows "wf_world w'" "fds w' = fds w" "file_content w' q = file_content w q"
  using load_state_value_outcome(1) [OF assms] assms(1) reads_only_wf reads_only_file_content
  by (auto simp: reads_only_def)

lemma save_volume_canonical:
  assumes "wf_world w" "save_volume_state p v w = (Inr x, w')"
  shows "v \<le> 100 \<and> file_content w' p = Some (decimal v @ [NL]) \<and> wf_world w' \<and> fds w' = fds w"
  using assms save_state_value_canonical [OF assms(1)] 
  by (auto simp: save_volume_state_def split: if_splits)

lemma decimal_line_not_word:
  "decimal v @ [NL] \<noteq> ''on'' @ [NL]" "decimal v @ [NL] \<noteq> ''off'' @ [NL]"
  using decimal_digits [of v] by (auto simp: is_digit_def byte_of_def dest: arg_cong [of _ _ hd])

lemma load_volume_canonical:
  assumes wf: "wf_world w" and load: "load_volume_state p d w = (Inr v, w')"
  shows "v \<le> 100 \<and> file_content w' p = Some (decimal v @ [NL]) \<and> wf_world w' \<and> fds w' = fds w"
proof -
  have d: "\<not> 100 < d" using load by (auto simp: load_volume_state_def)
  obtain r w1 where ld: "load_state_value p ''volume'' w = (r, w1)" by fastforce
  note w1 = load_state_value_wf [OF wf ld]
  have stored: "store_default u (save_volume_state p u w1) = (Inr v, w') \<Longrightarrow> ?thesis" for u
    using save_volume_canonical [OF w1(1), of p u] w1(2)
    by (auto simp: store_default_def split: prod.splits sum.splits)
  show ?thesis
  proof (cases "\<exists>bytes. r = Inr (Some bytes) \<and> bytes \<noteq> ''on'' @ [NL] \<and> bytes \<noteq> ''off'' @ [NL]")
    case True
    then obtain bytes where b: "r = Inr (Some bytes)" "bytes \<noteq> ''on'' @ [NL]" "bytes \<noteq> ''off'' @ [NL]"
      by blast
    then have "Option.bind (single_line bytes) parse_volume_percent = Some v" "w' = w1"
      using load ld d unfolding load_volume_state_def by (auto split: option.splits)
    then have "v \<le> 100" "bytes = decimal v @ [NL]"
      by (auto simp: bind_eq_Some_conv single_line_iff parse_volume_percent_iff)
    then show ?thesis
      using load_state_value_outcome(3) [OF wf ld] b(1) w1 \<open>w' = w1\<close> by auto
  next
    case False
    then show ?thesis
      using load ld d stored unfolding load_volume_state_def
      by (auto split: sum.splits option.splits if_splits)
  qed
qed

lemma load_volume_keeps:
  assumes wf: "wf_world w" and "file_content w p = Some (decimal v @ [NL])" "v \<le> 100"
    and load: "load_volume_state p d w = (Inr u, w')"
  shows "u = v"
proof -
  have d: "\<not> 100 < d" using load by (auto simp: load_volume_state_def)
  obtain r w1 where ld: "load_state_value p ''volume'' w = (r, w1)" by fastforce
  obtain bytes where r: "r = Inr (Some bytes)"
    using load ld d load_state_value_outcome(2) [OF wf ld] assms(2)
    by (auto simp: load_volume_state_def file_content_def split: sum.splits option.splits)
  then have b: "bytes = decimal v @ [NL]"
    using load_state_value_outcome(3) [OF wf ld] assms(2) by simp
  have "Option.bind (single_line bytes) parse_volume_percent = Some v"
    using assms(3) by (auto simp: bind_eq_Some_conv single_line_iff parse_volume_percent_iff b)
  then show ?thesis
    using load ld d r decimal_line_not_word [of v] b unfolding load_volume_state_def by simp
qed

interpretation volume: state_setting save_volume_state "\<lambda>p. load_volume_state p d"
  "\<lambda>v. decimal v @ [NL]" "\<lambda>v. v \<le> 100"
proof (unfold_locales, goal_cases)
  case 2 then show ?case by (rule save_volume_canonical)
next
  case 3 then show ?case by (rule load_volume_canonical)
next
  case 4 then show ?case by (metis load_volume_keeps)
qed simp

subsection \<open>The terminal keymap\<close>

lemma save_keymap_canonical:
  assumes "wf_world w" "save_keymap_state p k w = (Inr x, w')"
  shows "valid_keymap k \<and> file_content w' p = Some (k @ [NL]) \<and> wf_world w' \<and> fds w' = fds w"
  using assms save_state_value_canonical [OF assms(1)]
  by (auto simp: save_keymap_state_def split: if_splits)

lemma load_keymap_canonical:
  assumes wf: "wf_world w" and load: "load_keymap_state p w = (Inr k, w')"
  shows "valid_keymap k \<and> file_content w' p = Some (k @ [NL]) \<and> wf_world w' \<and> fds w' = fds w"
proof -
  obtain r w1 where ld: "load_state_value p ''terminal keymap'' w = (r, w1)" by fastforce
  note w1 = load_state_value_wf [OF wf ld]
  show ?thesis
  proof (cases "r = Inr None")
    case True
    then show ?thesis
      using load ld save_keymap_canonical [OF w1(1), of p "''us''"] w1(2)
      by (auto simp: load_keymap_state_def store_default_def split: prod.splits sum.splits)
  next
    case False
    then obtain bytes where b: "r = Inr (Some bytes)"
      using load ld by (auto simp: load_keymap_state_def split: sum.splits option.splits)
    then have "(bytes = ''us'' @ [NL] \<and> k = ''us'' \<or> bytes = ''cz'' @ [NL] \<and> k = ''cz'') \<and> w' = w1"
      using load ld by (auto simp: load_keymap_state_def split: if_splits)
    then show ?thesis
      using load_state_value_outcome(3) [OF wf ld] b w1 by (auto simp: valid_keymap_def)
  qed
qed

lemma load_keymap_keeps:
  assumes wf: "wf_world w" and "file_content w p = Some (k @ [NL])" "valid_keymap k"
    and load: "load_keymap_state p w = (Inr u, w')"
  shows "u = k"
proof -
  obtain r w1 where ld: "load_state_value p ''terminal keymap'' w = (r, w1)" by fastforce
  obtain bytes where r: "r = Inr (Some bytes)"
    using load ld load_state_value_outcome(2) [OF wf ld] assms(2)
    by (auto simp: load_keymap_state_def file_content_def split: sum.splits option.splits)
  then have b: "bytes = k @ [NL]"
    using load_state_value_outcome(3) [OF wf ld] assms(2) by simp
  then show ?thesis
    using load ld r assms(3) by (auto simp: load_keymap_state_def valid_keymap_def)
qed

interpretation keymap: state_setting save_keymap_state load_keymap_state "\<lambda>k. k @ [NL]" valid_keymap
proof (unfold_locales, goal_cases)
  case 2 then show ?case by (rule save_keymap_canonical)
next
  case 3 then show ?case by (rule load_keymap_canonical)
next
  case 4 then show ?case by (metis load_keymap_keeps)
qed simp

subsection \<open>Brightness\<close>

lemma brightness_raw_bounds:
  "0 < maximum \<Longrightarrow> 1 \<le> brightness_raw_value p maximum \<and> brightness_raw_value p maximum \<le> maximum"
  by (auto simp: brightness_raw_value_def)

lemma brightness_raw_mono: "p \<le> q \<Longrightarrow> brightness_raw_value p m \<le> brightness_raw_value q m"
proof -
  assume "p \<le> q"
  then have "(p * m + 50) div 100 \<le> (q * m + 50) div 100" by (intro div_le_mono) simp
  then show ?thesis by (auto simp: brightness_raw_value_def max_def min_def)
qed

lemma brightness_raw_full: "0 < m \<Longrightarrow> brightness_raw_value 100 m = m"
  by (simp add: brightness_raw_value_def)

definition brightness_step :: "nat \<Rightarrow> bool" where
  "brightness_step p = (kMinimumBrightness \<le> p \<and> p \<le> 100 \<and> p mod kBrightnessStep = 0)"

lemma observed_percent_step: "brightness_step (observed_percent c m)"
proof -
  have "(max 10 (min 100 (k * 10))) mod 10 = 0" for k :: nat
    by (auto simp: max_def min_def)
  then show ?thesis
    by (auto simp: brightness_step_def observed_percent_def kMinimumBrightness_def kBrightnessStep_def Let_def)
qed

text \<open>
  Reading a level back from the device after the state file was lost: with at least thirteen
  raw levels no ten-point step is lost in the rounding.
\<close>

lemma percent_window:
  assumes "13 \<le> (m::nat)" "10 \<le> p" "p \<le> 100"
  defines "raw \<equiv> (p * m + 50) div 100"
  shows "p - 4 \<le> (raw * 100 + m div 2) div m" "(raw * 100 + m div 2) div m \<le> p + 4" "raw \<le> m" "1 \<le> raw"
proof -
  have raw: "100 * raw \<le> p * m + 50" "p * m + 50 < 100 * raw + 100"
    unfolding raw_def using dividend_less_div_times [of 100 "p * m + 50"] by simp_all
  have "p * m \<le> 100 * m" "10 * 13 \<le> p * m"
    using mult_le_mono1 [OF assms(3), of m] mult_le_mono [OF assms(2,1)] by simp_all
  then show "raw \<le> m" "1 \<le> raw" using raw by linarith+
  have "(p - 4) * m + 4 * m = p * m" using assms by (simp add: diff_mult_distrib)
  then have "(p - 4) * m \<le> raw * 100 + m div 2" using raw assms(1) by linarith
  then show "p - 4 \<le> (raw * 100 + m div 2) div m"
    using assms(1) by (simp add: less_eq_div_iff_mult_less_eq)
  have "m div 2 \<le> m" "(p + 5) * m = p * m + 5 * m" by (simp_all add: add_mult_distrib)
  then have "raw * 100 + m div 2 < (p + 5) * m" using raw(1) assms(1) by linarith
  then have "(raw * 100 + m div 2) div m < p + 5"
    using assms(1) by (subst div_less_iff_less_mult) simp_all
  then show "(raw * 100 + m div 2) div m \<le> p + 4" by simp
qed

lemma round_to_ten:
  "p - 4 \<le> x \<Longrightarrow> x \<le> p + 4 \<Longrightarrow> 10 \<le> p \<Longrightarrow> p mod 10 = 0 \<Longrightarrow> (x + 5) div 10 * 10 = p" for x p :: nat
proof -
  assume a: "p - 4 \<le> x" "x \<le> p + 4" "10 \<le> p" and "p mod 10 = 0"
  then obtain k where k: "p = 10 * k" by blast
  have "(x + 5) div 10 = k" using a k by (intro div_nat_eqI) simp_all
  then show ?thesis using k by simp
qed

lemma observed_brightness_raw:
  assumes "13 \<le> m" "brightness_step p"
  shows "observed_percent (brightness_raw_value p m) m = p"
proof -
  let ?raw = "(p * m + 50) div 100"
  have p: "10 \<le> p" "p \<le> 100" "p mod 10 = 0"
    using assms(2) by (auto simp: brightness_step_def kMinimumBrightness_def kBrightnessStep_def)
  note w = percent_window [OF assms(1) p(1,2)]
  have "brightness_raw_value p m = ?raw"
    using w(3,4) assms(1) by (simp add: brightness_raw_value_def)
  moreover have "((?raw * 100 + m div 2) div m + 5) div 10 * 10 = p"
    using w(1,2) p(1,3) by (rule round_to_ten)
  ultimately show ?thesis
    using p by (simp add: observed_percent_def kMinimumBrightness_def kBrightnessStep_def Let_def)
qed

lemma write_all_confined:
  assumes "write_all fd data w = (ok, w')" "fds w fd = Some (i, off)"
  shows "confined fd {i} w w' \<and> (\<exists>off'. fds w' fd = Some (i, off'))"
  using assms
proof (induction fd data w arbitrary: off rule: write_all.induct)
  case (1 fd data w)
  show ?case
  proof (cases "data = []")
    case True
    then show ?thesis using "1.prems" by simp
  next
    case False
    obtain r w1 where wr: "sys_write fd data w = (r, w1)" by fastforce
    note c = write_confined [OF wr "1.prems"(2)]
    have unfold: "(ok, w') = (case r of Some n \<Rightarrow> if 0 < n then write_all fd (drop n data) w1 else (False, w1)
        | None \<Rightarrow> if last_errno w1 = EINTR then write_all fd data w1 else (False, w1))"
      using "1.prems"(1) False wr by (simp add: write_all.simps [of fd data w] split: option.splits)
    show ?thesis
    proof (cases r)
      case None
      with c(2) "1.prems"(2) have "fds w1 fd = Some (i, off)" by simp
      then show ?thesis
        using "1.IH"(1) [OF False wr [symmetric] None] unfold None c(1)
        by (cases "last_errno w1 = EINTR") (auto intro: confined_trans)
    next
      case (Some n)
      with c(3) have "fds w1 fd = Some (i, off + n)" by simp
      then show ?thesis
        using "1.IH"(2) [OF False wr [symmetric] Some] unfold Some c(1)
        by (cases "0 < n") (auto intro: confined_trans)
    qed
  qed
qed

lemma ftruncate_confined:
  assumes "sys_ftruncate fd w = (r, w')" "fds w fd = Some (i, off)"
  shows "confined fd {i} w w'" "fds w' = fds w"
proof -
  obtain x w1 where x: "next_outcome w = (x, w1)" by fastforce
  have "confined fd {i} w1 w' \<and> fds w' = fds w1"
    using assms next_outcome_frame(4) [OF x]
    by (cases x) (auto simp: sys_ftruncate_def x fail_def confined_def split: option.splits if_splits)
  with confined_next_outcome [OF x, of fd "{i}"] next_outcome_frame(4) [OF x]
  show "confined fd {i} w w'" "fds w' = fds w" by (auto intro: confined_trans)
qed

lemma truncate_device_confined:
  assumes "truncate_device fd w = (r, w')" "fds w fd = Some (i, off)"
  shows "confined fd {i} w w'" "fds w' = fds w"
proof -
  obtain s w1 where st: "sys_fstat fd w = (s, w1)" by fastforce
  obtain t w2 where tr: "sys_ftruncate fd w1 = (t, w2)" by fastforce
  note s = fstat_confined(1) [OF st, of fd "{i}"] fstat_confined(2) [OF st]
  note t = ftruncate_confined [OF tr, of i off]
  have "w' = w1 \<or> w' = w2"
    using assms(1) st tr by (auto simp: truncate_device_def split: option.splits if_splits prod.splits)
  then show "confined fd {i} w w'" "fds w' = fds w"
    using s t assms(2) by (auto intro: confined_trans)
qed

text \<open>Neither device routine leaks a descriptor or damages the name space.\<close>

lemma write_device_integer_frame:
  assumes wf: "wf_world w" and wr: "write_device_integer path role v w = (r, w')"
  shows "wf_world w' \<and> fds w' = fds w \<and> names w' = names w"
proof (cases "is_absolute_path path")
  case False
  then show ?thesis using assms by (auto simp: write_device_integer_def)
next
  case abs: True
  obtain x w1 where op: "sys_open path w = (x, w1)" by fastforce
  have w1: "wf_world w1" using wf_open [OF op wf] .
  from op show ?thesis
  proof (cases rule: open_cases [where fd = 0])
    case fault
    then show ?thesis
      using wr abs op w1 by (auto simp: write_device_integer_def confined_def)
  next
    case (opened i u)
    let ?fd = "next_fd w"
    have fd1: "fds w1 ?fd = Some (i, 0)" "names w1 = names w" "fds w1 = (fds w)(?fd \<mapsto> (i, 0))"
      using opened(3,6) by (auto simp: confined_def)
    obtain e w2 where tr: "truncate_device ?fd w1 = (e, w2)" by fastforce
    note t = truncate_device_confined [OF tr fd1(1)]
    obtain ok w3 where wa: "write_all ?fd (decimal v @ [NL]) w2 = (ok, w3)" by fastforce
    have a: "confined ?fd {i} w2 w3" using write_all_confined [OF wa, of i 0] t(2) fd1(1) by auto
    have finish: "wf_world (snd (sys_close ?fd u)) \<and> fds (snd (sys_close ?fd u)) = fds w \<and>
        names (snd (sys_close ?fd u)) = names w" if c: "confined ?fd {i} w1 u" for u
    proof -
      obtain y z where cl: "sys_close ?fd u = (y, z)" by fastforce
      have z: "confined ?fd {i} w1 z" "fds z ?fd = None"
        using c close_confined(1) [OF cl] close_confined(2) [OF cl] by (auto intro: confined_trans)
      have "fds z g = fds w g" for g
        using z fd1(3) wf_worldD(3) [OF wf, of ?fd] by (cases "g = ?fd") (auto simp: confined_def)
      then show ?thesis
        using z w1 fd1(2) cl confined_wf [OF z(1) w1] by (auto simp: confined_def)
    qed
    have "(\<exists>e'. w' = (snd (sys_close ?fd w2))\<lparr>last_errno := e'\<rparr>) \<or>
        (\<exists>e'. w' = (snd (sys_close ?fd w3))\<lparr>last_errno := e'\<rparr>) \<or> w' = snd (sys_close ?fd w3)"
      using wr abs op opened(1) tr wa
      by (auto simp: write_device_integer_def split: option.splits if_splits prod.splits)
    moreover have "confined ?fd {i} w1 w3" using t(1) a by (rule confined_trans)
    ultimately show ?thesis using finish [OF t(1)] finish [of w3] by auto
  qed
qed

lemma read_device_integer_reads_only:
  assumes wf: "wf_world w" and rd: "read_device_integer path role w = (r, w')"
  shows "reads_only w w'"
proof (cases "is_absolute_path path")
  case False
  then show ?thesis using rd by (auto simp: read_device_integer_def)
next
  case abs: True
  obtain x w1 where op: "sys_open path w = (x, w1)" by fastforce
  from op show ?thesis
  proof (cases rule: open_cases [where fd = 0])
    case fault
    then have "reads_only w w1" by (auto simp: reads_only_def confined_def)
    then show ?thesis using rd abs op fault(1) by (auto simp: read_device_integer_def)
  next
    case (opened i u)
    let ?fd = "next_fd w"
    obtain stop buffer w2 where rl: "read_loop ?fd 63 [] w1 = ((stop, buffer), w2)"
      by (metis prod.collapse)
    have c: "confined ?fd {} w1 w2" using read_loop_prefix [OF rl, of i] opened(6) by simp
    obtain y w3 where cl: "sys_close ?fd w2 = (y, w3)" by fastforce
    obtain z w4 where cl2: "sys_close ?fd w3 = (z, w4)" by fastforce
    have c3: "confined ?fd {} w1 w3" using c close_confined(1) [OF cl] by (rule confined_trans)
    have "w' = w3 \<or> w' = w4"
      using rd abs op opened(1) rl cl cl2
      by (auto simp: read_device_integer_def Let_def split: if_splits)
    then show ?thesis
      using open_close_reads_only [OF op [unfolded opened(1)] c cl wf]
        open_close_reads_only [OF op [unfolded opened(1)] c3 cl2 wf] by auto
  qed
qed

lemma read_backlight_outcome:
  assumes "wf_world w" "read_backlight b m w = (r, w')"
  shows "reads_only w w'" "r = Inr (maximum, current) \<Longrightarrow> 0 < maximum \<and> current \<le> maximum"
proof -
  obtain x w1 where x: "read_device_integer m ''maximum brightness'' w = (x, w1)" by fastforce
  obtain y w2 where y: "read_device_integer b ''brightness'' w1 = (y, w2)" by fastforce
  have 1: "reads_only w w1" by (rule read_device_integer_reads_only [OF assms(1) x])
  have 2: "reads_only w1 w2" by (rule read_device_integer_reads_only [OF reads_only_wf [OF 1 assms(1)] y])
  have "w' = w1 \<or> w' = w2"
    using assms(2) x y by (auto simp: read_backlight_def Let_def split: sum.splits if_splits)
  then show "reads_only w w'" using 1 2 by (auto intro: reads_only_trans)
  show "r = Inr (maximum, current) \<Longrightarrow> 0 < maximum \<and> current \<le> maximum"
    using assms(2) x y by (auto simp: read_backlight_def Let_def split: sum.splits if_splits)
qed

lemma parse_brightness_iff: "parse_brightness bytes = Some p \<longleftrightarrow> brightness_step p \<and> bytes = decimal p @ [NL]"
proof
  assume "parse_brightness bytes = Some p"
  then show "brightness_step p \<and> bytes = decimal p @ [NL]"
    by (auto simp: parse_brightness_def brightness_step_def single_line_iff parse_volume_percent_iff
        bind_eq_Some_conv split: option.splits if_splits)
next
  assume "brightness_step p \<and> bytes = decimal p @ [NL]"
  moreover from this have "Option.bind (single_line bytes) parse_volume_percent = Some p"
    by (auto simp: bind_eq_Some_conv single_line_iff parse_volume_percent_iff brightness_step_def)
  ultimately show "parse_brightness bytes = Some p"
    by (simp add: parse_brightness_def brightness_step_def)
qed

lemma set_brightness_canonical:
  assumes wf: "wf_world w" and set: "set_brightness_percent b s m p w = (Inr x, w')"
  shows "0 < m \<and> brightness_step p \<and> file_content w' s = Some (decimal p @ [NL]) \<and> wf_world w' \<and>
    fds w' = fds w"
proof -
  obtain r w1 where wr: "write_device_integer b ''brightness'' (brightness_raw_value p m) w = (r, w1)"
    by fastforce
  note f = write_device_integer_frame [OF wf wr]
  have "0 < m \<and> brightness_step p"
    using set by (auto simp: set_brightness_percent_def brightness_step_def split: if_splits)
  moreover have "save_state_value s (decimal p) ''brightness'' w1 = (Inr x, w')"
    using set wr by (auto simp: set_brightness_percent_def split: if_splits sum.splits)
  ultimately show ?thesis using save_state_value_canonical [of w1 s "decimal p"] f by auto
qed

lemma load_brightness_canonical:
  assumes wf: "wf_world w" and load: "load_brightness b mx s w = (Inr (m, p), w')"
  shows "0 < m \<and> brightness_step p \<and> file_content w' s = Some (decimal p @ [NL]) \<and> wf_world w' \<and>
    fds w' = fds w"
proof -
  obtain r w1 where bl: "read_backlight b mx w = (r, w1)" by fastforce
  note b = read_backlight_outcome [OF wf bl]
  have w1: "wf_world w1" "fds w1 = fds w" using reads_only_wf [OF b(1) wf] b(1) by (auto simp: reads_only_def)
  obtain l w2 where ld: "load_state_value s ''brightness'' w1 = (l, w2)" by fastforce
  note w2 = load_state_value_wf [OF w1(1) ld]
  obtain q k where "set_brightness_percent b s k q w2 = (Inr (), w')" "m = k" "p = q"
    using load bl ld unfolding load_brightness_def store_default_def
    by (auto split: sum.splits option.splits prod.splits)
  then show ?thesis using set_brightness_canonical [OF w2(1)] w1(2) w2(2) by auto
qed

lemma load_brightness_keeps:
  assumes wf: "wf_world w" and "file_content w s = Some (decimal p @ [NL])" "brightness_step p"
    and load: "load_brightness b mx s w = (Inr (m, u), w')"
  shows "u = p"
proof -
  obtain r w1 where bl: "read_backlight b mx w = (r, w1)" by fastforce
  note b = read_backlight_outcome [OF wf bl]
  have w1: "wf_world w1" "file_content w1 s = Some (decimal p @ [NL])"
    using reads_only_wf [OF b(1) wf] reads_only_file_content [OF b(1)] assms(2) by auto
  obtain l w2 where ld: "load_state_value s ''brightness'' w1 = (l, w2)" by fastforce
  obtain bytes where l: "l = Inr (Some bytes)"
    using load bl ld load_state_value_outcome(2) [OF w1(1) ld] w1(2)
    by (auto simp: load_brightness_def file_content_def split: sum.splits option.splits)
  then have "parse_brightness bytes = Some p"
    using load_state_value_outcome(3) [OF w1(1) ld] w1(2) assms(3) by (simp add: parse_brightness_iff)
  then show ?thesis
    using load bl ld l unfolding load_brightness_def store_default_def
    by (auto split: sum.splits option.splits prod.splits)
qed

definition load_brightness_percent ::
  "string \<Rightarrow> string \<Rightarrow> string \<Rightarrow> world \<Rightarrow> (message + nat) \<times> world" where
  "load_brightness_percent b mx s w =
     (case load_brightness b mx s w of (Inl e, w') \<Rightarrow> (Inl e, w') | (Inr (m, p), w') \<Rightarrow> (Inr p, w'))"

lemma load_brightness_percent_Inr:
  "load_brightness_percent b mx s w = (Inr p, w') \<Longrightarrow> \<exists>m. load_brightness b mx s w = (Inr (m, p), w')"
  by (auto simp: load_brightness_percent_def split: prod.splits sum.splits)

interpretation brightness: state_setting "\<lambda>s p. set_brightness_percent b s m p"
  "load_brightness_percent b mx" "\<lambda>p. decimal p @ [NL]" brightness_step
proof (unfold_locales, goal_cases)
  case 2 then show ?case using set_brightness_canonical by blast
next
  case 3 then show ?case using load_brightness_canonical load_brightness_percent_Inr by blast
next
  case 4 then show ?case using load_brightness_keeps load_brightness_percent_Inr by metis
qed simp

section \<open>Without faults every operation succeeds\<close>

lemma create_temporary_idle:
  assumes "schedule w = []" "names w (temporary_name path (pid w) k) = None"
  shows "\<exists>w'. create_temporary path role (k # ks) w =
      (Inr (Some (next_fd w, temporary_name path (pid w) k)), w') \<and> schedule w' = [] \<and>
      fds w' (next_fd w) = Some (next_inode w, 0) \<and>
      names w' (temporary_name path (pid w) k) = Some (next_inode w)"
  using assms by (simp add: Let_def sys_create_def open_inode_def)

lemma fill_temporary_idle:
  assumes "schedule w = []" "fds w fd = Some (i, off)"
  shows "\<exists>w'. fill_temporary fd bytes role w = (None, w') \<and> schedule w' = [] \<and> names w' = names w"
proof -
  obtain w1 where w1: "write_all fd bytes w = (True, w1)" "schedule w1 = []" "fds w1 fd \<noteq> None"
    using write_all_idle [OF assms(1), of fd bytes] assms(2) by auto
  have "names w1 = names w" "\<exists>off'. fds w1 fd = Some (i, off')"
    using write_all_confined [OF w1(1) assms(2)] by (auto simp: confined_def)
  then show ?thesis
    using w1(1,2) by (auto simp: fill_temporary_def sys_fsync_def sys_close_def)
qed

lemma save_state_value_idle:
  assumes "is_absolute_path path" "schedule w = []" "names w (temporary_name path (pid w) 0) = None"
  shows "\<exists>w'. save_state_value path value role w = (Inr (), w') \<and> schedule w' = []"
proof -
  let ?t = "temporary_name path (pid w) 0"
  have upt: "[0..<16] = 0 # [1..<16::nat]" using upt_conv_Cons [of 0 16] by simp
  obtain w1 where w1: "create_temporary path role [0..<16] w = (Inr (Some (next_fd w, ?t)), w1)"
    "schedule w1 = []" "fds w1 (next_fd w) = Some (next_inode w, 0)" "names w1 ?t = Some (next_inode w)"
    using create_temporary_idle [OF assms(2,3)] upt by metis
  obtain w2 where w2: "fill_temporary (next_fd w) (value @ [NL]) role w1 = (None, w2)"
    "schedule w2 = []" "names w2 = names w1"
    using fill_temporary_idle [OF w1(2,3)] by blast
  have "schedule (sync_directory d v) = []" if "schedule v = []" for d v
    using that by (auto simp: sync_directory_def syscall_defs split: option.splits)
  then show ?thesis
    using assms(1) w1 w2 by (simp add: save_state_value_def sys_rename_def)
qed

lemma load_state_value_idle:
  assumes "is_absolute_path path" "schedule w = []" "file_content w path = Some bytes" "length bytes \<le> 64"
  shows "\<exists>w'. load_state_value path role w = (Inr (Some bytes), w') \<and> schedule w' = []"
proof -
  obtain i where i: "names w path = Some i" "regular (inodes w i)" "content (inodes w i) = bytes"
    using assms(3) by (auto simp: file_content_def split: option.splits if_splits)
  let ?w1 = "w\<lparr>fds := (fds w)(next_fd w \<mapsto> (i, 0)), next_fd := next_fd w + 1\<rparr>"
  have op: "sys_open path w = (Some (next_fd w), ?w1)"
    using assms(2) i(1) by (simp add: sys_open_def open_inode_def)
  have st: "sys_fstat (next_fd w) ?w1 = (Some (True, length bytes), ?w1)"
    using assms(2) i by (simp add: sys_fstat_def)
  have "\<exists>w2. read_loop (next_fd w) 65 [] ?w1 = ((End_of_file, bytes), w2) \<and> schedule w2 = []"
  proof (cases "bytes = []")
    case True
    then show ?thesis using assms(2) i(3) by (subst read_loop.simps) (simp add: sys_read_def Let_def)
  next
    case False
    then show ?thesis
      using assms(2,4) i(3)
      by (subst read_loop.simps, simp add: sys_read_def Let_def)
        (subst read_loop.simps, simp add: sys_read_def Let_def)
  qed
  then obtain w2 where rl: "read_loop (next_fd w) 65 [] ?w1 = ((End_of_file, bytes), w2)" "schedule w2 = []"
    by blast
  have "schedule (snd (sys_close f w2)) = []" for f
    using rl(2) by (auto simp: sys_close_def fail_def)
  then show ?thesis
    using assms(1,4) op st rl(1) by (simp add: load_state_value_def Let_def)
qed

section \<open>The properties\<close>

text \<open>
  C24. Saving a setting is atomic whatever the kernel does (interrupted and short writes,
  failures of any call).  Success leaves exactly the value and a newline under the path and
  touches nothing else; failure leaves every file that existed before as it was, the old
  setting included.  No branch leaks a descriptor.
\<close>

theorem save_state_value_atomic:
  assumes "wf_world w"
  shows "case save_state_value path value role w of
      (Inr _, w') \<Rightarrow> wf_world w' \<and> fds w' = fds w \<and> file_content w' path = Some (value @ [NL]) \<and>
        (\<forall>p. p = path \<or> file_content w' p = file_content w p)
    | (Inl _, w') \<Rightarrow> wf_world w' \<and> fds w' = fds w \<and>
        (\<forall>p. names w p = None \<or> file_content w' p = file_content w p)"
proof -
  obtain r w' where s: "save_state_value path value role w = (r, w')" by fastforce
  note o = save_state_value_outcome [OF assms s]
  have "r = Inl m \<longrightarrow> names w p = None \<or> file_content w' p = file_content w p" for m p
    using o(4) by blast
  then show ?thesis
    using o(1-3) save_state_value_wf [OF assms s] s by (cases r) auto
qed

definition sample_world :: "outcome list \<Rightarrow> world" where
  "sample_world faults =
     \<lparr>names = [''/s'' \<mapsto> 0], inodes = (\<lambda>_. \<lparr>regular = True, content = ''7'' @ [NL]\<rparr>), next_inode = 1,
      fds = Map.empty, next_fd = 3, schedule = faults, last_errno = EIO, pid = 42\<rparr>"

lemma sample_world_wf: "honest faults \<Longrightarrow> wf_world (sample_world faults)"
  by (simp add: wf_world_def sample_world_def)

lemma save_state_value_atomic_witness:
  "case save_state_value ''/s'' ''80'' ''volume'' (sample_world [Success, Fault EINTR, Partial 1, Fault EIO]) of
      (Inr _, w') \<Rightarrow> wf_world w' \<and> fds w' = fds (sample_world [Success, Fault EINTR, Partial 1, Fault EIO]) \<and>
        file_content w' ''/s'' = Some (''80'' @ [NL]) \<and>
        (\<forall>p. p = ''/s'' \<or> file_content w' p =
          file_content (sample_world [Success, Fault EINTR, Partial 1, Fault EIO]) p)
    | (Inl _, w') \<Rightarrow> wf_world w' \<and> fds w' = fds (sample_world [Success, Fault EINTR, Partial 1, Fault EIO]) \<and>
        (\<forall>p. names (sample_world [Success, Fault EINTR, Partial 1, Fault EIO]) p = None \<or>
          file_content w' p = file_content (sample_world [Success, Fault EINTR, Partial 1, Fault EIO]) p)"
  by (rule save_state_value_atomic) (rule sample_world_wf, simp add: honest_def)

text \<open>
  Loading never changes a file or leaks a descriptor, and what it returns is what the file
  holds: the bytes of a regular file of at most 64 bytes, or nothing only when the path does
  not exist.
\<close>

theorem load_state_value_exact:
  assumes "wf_world w"
  shows "case load_state_value path role w of
      (Inr None, w') \<Rightarrow> reads_only w w' \<and> names w path = None
    | (Inr (Some bytes), w') \<Rightarrow> reads_only w w' \<and> file_content w path = Some bytes \<and> length bytes \<le> 64
    | (Inl _, w') \<Rightarrow> reads_only w w'"
proof -
  obtain r w' where s: "load_state_value path role w = (r, w')" by fastforce
  show ?thesis
    using load_state_value_outcome [OF assms s] s
    by (auto split: sum.split option.split)
qed

lemma load_state_value_exact_witness:
  "case load_state_value ''/s'' ''volume'' (sample_world [Success, Success, Fault EINTR, Partial 1]) of
      (Inr None, w') \<Rightarrow> reads_only (sample_world [Success, Success, Fault EINTR, Partial 1]) w' \<and>
        names (sample_world [Success, Success, Fault EINTR, Partial 1]) ''/s'' = None
    | (Inr (Some bytes), w') \<Rightarrow> reads_only (sample_world [Success, Success, Fault EINTR, Partial 1]) w' \<and>
        file_content (sample_world [Success, Success, Fault EINTR, Partial 1]) ''/s'' = Some bytes \<and>
        length bytes \<le> 64
    | (Inl _, w') \<Rightarrow> reads_only (sample_world [Success, Success, Fault EINTR, Partial 1]) w'"
  by (rule load_state_value_exact) (rule sample_world_wf, simp add: honest_def)

text \<open>
  The volume round trip.  With no fault pending, saving a valid volume succeeds and loading
  it returns the same number; under any schedule of faults, if both calls succeed, the number
  is still the same.
\<close>

theorem volume_round_trip:
  assumes "wf_world w" "is_absolute_path path" "v \<le> 100" "d \<le> 100"
    "names w (temporary_name path (pid w) 0) = None"
  shows "\<exists>w1 w2. save_volume_state path v (w\<lparr>schedule := []\<rparr>) = (Inr (), w1) \<and>
      load_volume_state path d w1 = (Inr v, w2) \<and> file_content w2 path = Some (decimal v @ [NL])"
proof -
  let ?w = "w\<lparr>schedule := []\<rparr>"
  have wf: "wf_world ?w" using assms(1) by (simp add: wf_world_def honest_def)
  obtain w1 where s: "save_state_value path (decimal v) ''volume'' ?w = (Inr (), w1)" "schedule w1 = []"
    using save_state_value_idle [of path ?w "decimal v" "''volume''"] assms by auto
  note c = save_state_value_canonical [OF wf s(1)]
  have "v < 10 \<or> v < 100 \<or> v = 100" using assms(3) by linarith
  then have len: "length (decimal v @ [NL]) \<le> 64"
    by (auto simp: decimal.simps [of v] decimal.simps [of "v div 10"] decimal.simps [of "v div 10 div 10"])
  obtain w2 where l: "load_state_value path ''volume'' w1 = (Inr (Some (decimal v @ [NL])), w2)"
    using load_state_value_idle [OF assms(2) s(2) _ len] c by blast
  have "Option.bind (single_line (decimal v @ [NL])) parse_volume_percent = Some v"
    using assms(3) by (auto simp: bind_eq_Some_conv single_line_iff parse_volume_percent_iff)
  then have "load_volume_state path d w1 = (Inr v, w2)"
    using l assms(4) decimal_line_not_word [of v] unfolding load_volume_state_def by simp
  moreover have "file_content w2 path = Some (decimal v @ [NL])"
    using load_state_value_wf(3) [OF _ l] c by simp
  ultimately show ?thesis
    using s(1) assms(3) by (auto simp: save_volume_state_def)
qed

lemma volume_round_trip_witness:
  "\<exists>w1 w2. save_volume_state ''/s'' 35 ((sample_world [Fault EIO])\<lparr>schedule := []\<rparr>) = (Inr (), w1) \<and>
      load_volume_state ''/s'' 50 w1 = (Inr 35, w2) \<and> file_content w2 ''/s'' = Some (decimal 35 @ [NL])"
proof (rule volume_round_trip)
  show "wf_world (sample_world [Fault EIO])" by (simp add: sample_world_wf honest_def)
  show "names (sample_world [Fault EIO]) (temporary_name ''/s'' (pid (sample_world [Fault EIO])) 0) = None"
    by (simp add: sample_world_def temporary_name_def)
qed (simp_all add: is_absolute_path_def PATH_MAX_def)

text \<open>
  C37. A successful load normalises: whatever legacy or missing state it met, and whatever the
  kernel did, afterwards the file holds exactly the canonical encoding of the value returned,
  and that value is in the setting's range.
\<close>

theorem load_settings_canonical:
  assumes "wf_world w"
  shows "(case load_volume_state path d w of (Inl _, _) \<Rightarrow> True
      | (Inr v, w') \<Rightarrow> v \<le> 100 \<and> file_content w' path = Some (decimal v @ [NL]) \<and> fds w' = fds w) \<and>
    (case load_keymap_state path w of (Inl _, _) \<Rightarrow> True
      | (Inr k, w') \<Rightarrow> valid_keymap k \<and> file_content w' path = Some (k @ [NL]) \<and> fds w' = fds w) \<and>
    (case load_brightness b mx path w of (Inl _, _) \<Rightarrow> True
      | (Inr (m, p), w') \<Rightarrow> 0 < m \<and> p \<in> {10, 20, 30, 40, 50, 60, 70, 80, 90, 100} \<and>
          file_content w' path = Some (decimal p @ [NL]) \<and> fds w' = fds w)"
proof -
  obtain rv wv where v: "load_volume_state path d w = (rv, wv)" by fastforce
  obtain rk wk where k: "load_keymap_state path w = (rk, wk)" by fastforce
  obtain rb wb where bl: "load_brightness b mx path w = (rb, wb)" by fastforce
  have step: "brightness_step p \<Longrightarrow> p \<in> {10, 20, 30, 40, 50, 60, 70, 80, 90, 100}" for p
  proof -
    assume "brightness_step p"
    then obtain q where "p = 10 * q" "1 \<le> q" "q \<le> 10"
      by (auto simp: brightness_step_def kMinimumBrightness_def kBrightnessStep_def)
    moreover from this have "q = 1 \<or> q = 2 \<or> q = 3 \<or> q = 4 \<or> q = 5 \<or> q = 6 \<or> q = 7 \<or> q = 8 \<or>
        q = 9 \<or> q = 10" by arith
    ultimately show ?thesis by auto
  qed
  have "case (rv, wv) of (Inl _, _) \<Rightarrow> True
      | (Inr v, w') \<Rightarrow> v \<le> 100 \<and> file_content w' path = Some (decimal v @ [NL]) \<and> fds w' = fds w"
    using volume.load_canonical [OF assms v [THEN trans]] by (cases rv) auto
  moreover have "case (rk, wk) of (Inl _, _) \<Rightarrow> True
      | (Inr k, w') \<Rightarrow> valid_keymap k \<and> file_content w' path = Some (k @ [NL]) \<and> fds w' = fds w"
    using keymap.load_canonical [OF assms k [THEN trans]] by (cases rk) auto
  moreover have "case (rb, wb) of (Inl _, _) \<Rightarrow> True
      | (Inr (m, p), w') \<Rightarrow> 0 < m \<and> p \<in> {10, 20, 30, 40, 50, 60, 70, 80, 90, 100} \<and>
          file_content w' path = Some (decimal p @ [NL]) \<and> fds w' = fds w"
  proof (cases rb)
    case (Inr mp)
    obtain m p where "mp = (m, p)" by fastforce
    with Inr bl have "load_brightness b mx path w = (Inr (m, p), wb)" by simp
    from load_brightness_canonical [OF assms this] show ?thesis
      unfolding Inr \<open>mp = (m, p)\<close> sum.case prod.case using step by blast
  qed simp
  ultimately show ?thesis unfolding v k bl by blast
qed

lemma load_settings_canonical_witness:
  "(case load_volume_state ''/s'' 50 (sample_world []) of (Inl _, _) \<Rightarrow> True
      | (Inr v, w') \<Rightarrow> v \<le> 100 \<and> file_content w' ''/s'' = Some (decimal v @ [NL]) \<and>
          fds w' = fds (sample_world [])) \<and>
    (case load_keymap_state ''/s'' (sample_world []) of (Inl _, _) \<Rightarrow> True
      | (Inr k, w') \<Rightarrow> valid_keymap k \<and> file_content w' ''/s'' = Some (k @ [NL]) \<and>
          fds w' = fds (sample_world [])) \<and>
    (case load_brightness ''/s'' ''/s'' ''/s'' (sample_world []) of (Inl _, _) \<Rightarrow> True
      | (Inr (m, p), w') \<Rightarrow> 0 < m \<and> p \<in> {10, 20, 30, 40, 50, 60, 70, 80, 90, 100} \<and>
          file_content w' ''/s'' = Some (decimal p @ [NL]) \<and> fds w' = fds (sample_world []))"
  by (rule load_settings_canonical) (simp add: sample_world_wf honest_def)

text \<open>
  Recovering the brightness step from the raw device level undoes the conversion to that
  level, for every ten-point step and every backlight of at least thirteen levels.
\<close>

theorem brightness_level_round_trip:
  assumes "13 \<le> m" "brightness_step p"
  shows "observed_percent (brightness_raw_value p m) m = p"
  by (rule observed_brightness_raw [OF assms])

lemma brightness_level_round_trip_witness:
  "observed_percent (brightness_raw_value 70 255) 255 = 70"
  by (rule brightness_level_round_trip)
    (simp_all add: brightness_step_def kMinimumBrightness_def kBrightnessStep_def)

text \<open>With eleven levels the step 50 is lost.\<close>

lemma brightness_level_eleven: "observed_percent (brightness_raw_value 50 11) 11 = 60"
  by (simp add: observed_percent_def brightness_raw_value_def kMinimumBrightness_def
      kBrightnessStep_def Let_def)

text \<open>
  Reading a short device file closes its descriptor twice; the second call fails with
  \<open>EBADF\<close> here, and would close another thread's file if one were opened in between.
\<close>

lemma read_device_integer_closes_twice:
  assumes "sys_close fd w2 = (r, w3)"
  shows "fst (sys_close fd w3) = None"
  using close_confined(2) [OF assms]
  by (auto simp: sys_close_def fail_def next_outcome_def split: outcome.splits list.splits)

end
