(* ===== verification/Menu_Catalog.thy ===== *)
theory Menu_Catalog
  imports Menu_State
begin

section \<open>The game catalogue (\<open>src/menu_catalog.cpp\<close>)\<close>

text \<open>
  Identifiers, colours, ROM validation and the manifest parser.  Colours are \<open>unsigned int\<close>
  channels as in the source; file bytes are characters and are compared as numbers.
\<close>

definition kMaximumCatalogGames :: nat where
  "kMaximumCatalogGames = 64"

definition kMaximumManifestBytes :: nat where
  "kMaximumManifestBytes = 65536"

record RgbColor =
  red :: u32
  green :: u32
  blue :: u32

definition rgb565 :: "u32 \<Rightarrow> u32 \<Rightarrow> u32 \<Rightarrow> u16" where
  "rgb565 r g b = ucast ((push_bit 8 (r AND 0xf8)) OR (push_bit 3 (g AND 0xfc)) OR (drop_bit 3 b))"

definition color_pixel :: "RgbColor \<Rightarrow> u16" where
  "color_pixel c = rgb565 (red c) (green c) (blue c)"

record CoverImage =
  cover_width :: int
  cover_height :: int
  pixels :: "u16 list"

definition no_cover :: CoverImage where
  "no_cover = \<lparr>cover_width = 0, cover_height = 0, pixels = []\<rparr>"

definition cover_available :: "CoverImage \<Rightarrow> bool" where
  "cover_available c = (0 < cover_width c \<and> 0 < cover_height c \<and>
     int (length (pixels c)) = cover_width c * cover_height c)"

record GameEntry =
  game_id :: string
  title :: string
  system :: string
  rom :: string
  color :: RgbColor
  cover :: CoverImage

subsection \<open>Identifiers and colours\<close>

definition valid_id_at :: "string \<Rightarrow> nat \<Rightarrow> bool" where
  "valid_id_at s i =
     (let c = s ! i in
      (is_lower c \<or> is_digit c \<or> c = CHR ''-'') \<and>
      \<not> (i = 0 \<and> \<not> is_lower c \<and> \<not> is_digit c) \<and>
      \<not> (c = CHR ''-'' \<and> (i + 1 = length s \<or> (0 < i \<and> s ! (i - 1) = CHR ''-''))))"

definition valid_id :: "string \<Rightarrow> bool" where
  "valid_id s = (s \<noteq> [] \<and> length s \<le> 48 \<and> list_all (valid_id_at s) [0..<length s])"

definition is_optional_header :: "string list \<Rightarrow> bool" where
  "is_optional_header fs =
     (length fs = 5 \<and> fs ! 0 = ''id'' \<and> fs ! 1 = ''title'' \<and>
      fs ! 2 = ''system'' \<and> fs ! 3 = ''rom'' \<and>
      (fs ! 4 = ''color'' \<or> fs ! 4 = ''#RRGGBB''))"

definition ansi_colors :: "(u32 \<times> u32 \<times> u32) list" where
  "ansi_colors =
     [(0, 0, 0),       (128, 0, 0),   (0, 128, 0),   (128, 128, 0),
      (0, 0, 128),     (128, 0, 128), (0, 128, 128), (192, 192, 192),
      (128, 128, 128), (255, 0, 0),   (0, 255, 0),   (255, 255, 0),
      (0, 0, 255),     (255, 0, 255), (0, 255, 255), (255, 255, 255)]"

definition cube_levels :: "u32 list" where
  "cube_levels = [0, 95, 135, 175, 215, 255]"

definition xterm_color :: "nat \<Rightarrow> RgbColor" where
  "xterm_color index =
     (if index < 16
      then (case ansi_colors ! index of (r, g, b) \<Rightarrow> \<lparr>red = r, green = g, blue = b\<rparr>)
      else if index < 232
      then (let cube = index - 16
            in \<lparr>red = cube_levels ! (cube div 36), green = cube_levels ! (cube div 6 mod 6),
                blue = cube_levels ! (cube mod 6)\<rparr>)
      else if index < 256
      then (let level = word_of_nat (8 + (index - 232) * 10)
            in \<lparr>red = level, green = level, blue = level\<rparr>)
      else \<lparr>red = 0, green = 0, blue = 0\<rparr>)"

definition is_xterm_color :: "RgbColor \<Rightarrow> bool" where
  "is_xterm_color c =
     list_ex (\<lambda>index. let candidate = xterm_color index in
        red candidate = red c \<and> green candidate = green c \<and> blue candidate = blue c) [0..<256]"

definition hex_nibble :: "char \<Rightarrow> u32 option" where
  "hex_nibble c =
     (let b = byte_of c in
      if 48 \<le> b \<and> b \<le> 57 then Some (word_of_nat (b - 48))
      else if 97 \<le> b \<and> b \<le> 102 then Some (word_of_nat (b - 97 + 10))
      else if 65 \<le> b \<and> b \<le> 70 then Some (word_of_nat (b - 65 + 10))
      else None)"

fun parse_color_loop :: "string \<Rightarrow> u32 \<Rightarrow> u32 option" where
  "parse_color_loop [] v = Some v"
| "parse_color_loop (c # cs) v =
     (case hex_nibble c of None \<Rightarrow> None | Some n \<Rightarrow> parse_color_loop cs (push_bit 4 v OR n))"

definition parse_color :: "string \<Rightarrow> RgbColor option" where
  "parse_color s =
     (if length s \<noteq> 7 \<or> s ! 0 \<noteq> CHR ''#'' then None
      else (case parse_color_loop (drop 1 s) 0 of
              None \<Rightarrow> None
            | Some v \<Rightarrow> Some \<lparr>red = drop_bit 16 v AND 0xff, green = drop_bit 8 v AND 0xff,
                             blue = v AND 0xff\<rparr>))"

subsection \<open>ROM validation\<close>

function read_exact_at :: "nat \<Rightarrow> nat \<Rightarrow> string \<Rightarrow> nat \<Rightarrow> world \<Rightarrow> string option \<times> world" where
  "read_exact_at fd offset used wanted w =
     (if length used < wanted then
        (case sys_pread fd (wanted - length used) (offset + length used) w of
           (Some amount, w1) \<Rightarrow>
             if amount \<noteq> [] then read_exact_at fd offset (used @ amount) wanted w1 else (None, w1)
         | (None, w1) \<Rightarrow>
             if last_errno w1 = EINTR then read_exact_at fd offset used wanted w1 else (None, w1))
      else (Some used, w))"
  by pat_completeness auto
termination
  by (relation "measures [\<lambda>(fd, offset, used, wanted, w). wanted - length used,
      \<lambda>(fd, offset, used, wanted, w). length (schedule w)]")
    (auto dest!: sym [of "(_, _)"] intro: interrupted_schedule intro!: diff_less_mono2)

declare read_exact_at.simps [simp del]

definition valid_system :: "string \<Rightarrow> bool" where
  "valid_system s = (s = ''nes'' \<or> s = ''gb'' \<or> s = ''gbc'' \<or> s = ''zx'' \<or> s = ''chip8'' \<or> s = ''deck'')"

definition char_byte :: "char \<Rightarrow> byte" where
  "char_byte c = word_of_nat (byte_of c)"

definition gb_logo :: "byte list" where
  "gb_logo =
     [0xce, 0xed, 0x66, 0x66, 0xcc, 0x0d, 0x00, 0x0b, 0x03, 0x73, 0x00, 0x83,
      0x00, 0x0c, 0x00, 0x0d, 0x00, 0x08, 0x11, 0x1f, 0x88, 0x89, 0x00, 0x0e,
      0xdc, 0xcc, 0x6e, 0xe6, 0xdd, 0xdd, 0xd9, 0x99, 0xbb, 0xbb, 0x67, 0x63,
      0x6e, 0x0e, 0xec, 0xcc, 0xdd, 0xdc, 0x99, 0x9f, 0xbb, 0xb9, 0x33, 0x3e]"

definition gb_checksum :: "byte list \<Rightarrow> byte" where
  "gb_checksum header = foldl (\<lambda>checksum b. checksum - b - 1) 0 (take 0x19 (drop 0x34 header))"

text \<open>\<open>tape_ok offset tape\<close> is the block loop; it returns whether every block checks.\<close>

function tape_ok :: "nat \<Rightarrow> byte list \<Rightarrow> bool" where
  "tape_ok offset tape =
     (if offset < length tape then
        (if length tape - offset < 2 then False
         else
           (let block_size = unat (tape ! offset) + 256 * unat (tape ! (offset + 1));
                start = offset + 2
            in if block_size < 2 \<or> length tape - start < block_size then False
               else if foldl (XOR) 0 (take block_size (drop start tape)) \<noteq> 0 then False
               else tape_ok (start + block_size) tape))
      else True)"
  by pat_completeness auto
termination
  by (relation "measure (\<lambda>(offset, tape). length tape - offset)") (auto simp: Let_def)

declare tape_ok.simps [simp del]

text \<open>The checks on the open file; \<open>None\<close> accepts it.\<close>

definition check_rom :: "string \<Rightarrow> string \<Rightarrow> nat \<Rightarrow> nat \<Rightarrow> world \<Rightarrow> message option \<times> world" where
  "check_rom sys path fd file_size w =
     (if sys = ''nes'' then
        (if file_size < 16 then (Some (Msg (''ROM has no iNES header: '' @ path)), w)
         else (case read_exact_at fd 0 [] 4 w of
                 (None, w1) \<Rightarrow> (Some (Msg (''ROM has no iNES header: '' @ path)), w1)
               | (Some header, w1) \<Rightarrow>
                   (if map char_byte header \<noteq> [0x4e, 0x45, 0x53, 0x1a]
                    then Some (Msg (''ROM has no iNES header: '' @ path)) else None, w1)))
      else if sys = ''gb'' \<or> sys = ''gbc'' then
        (let bad = Some (Msg (''ROM has no valid Game Boy header: '' @ path)) in
         if file_size < 0x150 \<or> 8 * 1024 * 1024 < file_size then (bad, w)
         else (case read_exact_at fd 0x100 [] 0x50 w of
                 (None, w1) \<Rightarrow> (bad, w1)
               | (Some bytes, w1) \<Rightarrow>
                   (let header = map char_byte bytes in
                    if take 48 (drop 4 header) \<noteq> gb_logo then (bad, w1)
                    else if gb_checksum header \<noteq> header ! 0x4d
                    then (Some (Msg (''ROM has an invalid Game Boy header checksum: '' @ path)), w1)
                    else if sys = ''gbc'' \<and> header ! 0x43 \<noteq> 0x80 \<and> header ! 0x43 \<noteq> 0xc0
                    then (Some (Msg (''GBC entry does not advertise color support: '' @ path)), w1)
                    else (None, w1))))
      else if sys = ''zx'' then
        (if file_size < 4 \<or> 8 * 1024 * 1024 < file_size
         then (Some (Msg (''ZX Spectrum TAP must contain 4 bytes through 8 MiB: '' @ path)), w)
         else (case read_exact_at fd 0 [] file_size w of
                 (None, w1) \<Rightarrow> (Some (Msg (''cannot read complete ZX Spectrum TAP: '' @ path)), w1)
               | (Some tape, w1) \<Rightarrow>
                   (if tape_ok 0 (map char_byte tape) then None
                    else Some (Msg (''ZX Spectrum TAP has invalid blocks or checksums: '' @ path)), w1)))
      else if file_size < 1 \<or> 65024 < file_size
      then (Some (Msg (''CHIP-8 ROM must contain 1 through 65024 bytes: '' @ path)), w)
      else (None, w))"

definition validate_rom :: "string \<Rightarrow> string \<Rightarrow> world \<Rightarrow> (message + unit) \<times> world" where
  "validate_rom sys path w =
     (if \<not> valid_system sys then (Inl (Msg (''unsupported system: '' @ sys)), w)
      else if \<not> is_absolute_path path
      then (Inl (Msg (''game data path must be absolute: '' @ path)), w)
      else if sys = ''deck'' then (Inr (), w)
      else
        (case sys_open path w of
           (None, w1) \<Rightarrow> (Inl (errno_message (''cannot open game data '' @ path) w1), w1)
         | (Some fd, w1) \<Rightarrow>
             (case sys_fstat fd w1 of
                (None, w2) \<Rightarrow>
                  (Inl (errno_message (''cannot stat game data '' @ path) w2), snd (sys_close fd w2))
              | (Some (is_regular, file_size), w2) \<Rightarrow>
                  if \<not> is_regular
                  then (Inl (Msg (''game data is not a regular file: '' @ path)), snd (sys_close fd w2))
                  else (case check_rom sys path fd file_size w2 of
                          (Some m, w3) \<Rightarrow> (Inl m, snd (sys_close fd w3))
                        | (None, w3) \<Rightarrow> (Inr (), snd (sys_close fd w3))))))"

subsection \<open>The manifest\<close>

definition on_line :: "string \<Rightarrow> nat \<Rightarrow> message" where
  "on_line what line_number = Msg (what @ '' on manifest line '' @ decimal line_number)"

fun prefix_message :: "string \<Rightarrow> message \<Rightarrow> message" where
  "prefix_message p (Msg s) = Msg (p @ s)"
| "prefix_message p (Errno_msg s e) = Errno_msg (p @ s) e"

definition parse_entry :: "nat \<Rightarrow> string list \<Rightarrow> message + GameEntry" where
  "parse_entry line_number fs =
     (let game_title = fs ! 1; game_rom = fs ! 3 in
      if \<not> valid_id (fs ! 0) then Inl (on_line ''invalid id'' line_number)
      else if \<not> valid_utf8_text game_title 64 False \<or> trim_ascii_space game_title \<noteq> game_title
      then Inl (on_line ''invalid title'' line_number)
      else if \<not> valid_system (fs ! 2) then Inl (on_line ''invalid system'' line_number)
      else if \<not> valid_utf8_text game_rom (PATH_MAX - 1) False \<or> trim_ascii_space game_rom \<noteq> game_rom
      then Inl (on_line ''invalid ROM path'' line_number)
      else
        (case parse_color (fs ! 4) of
           None \<Rightarrow> Inl (on_line ''invalid #RRGGBB color'' line_number)
         | Some c \<Rightarrow>
             if \<not> is_xterm_color c
             then Inl (on_line ''color is not in the xterm-256 palette'' line_number)
             else Inr \<lparr>game_id = fs ! 0, title = game_title, system = fs ! 2,
                       rom = game_rom, color = c, cover = no_cover\<rparr>))"

fun load_lines ::
  "string list \<Rightarrow> nat \<Rightarrow> bool \<Rightarrow> GameEntry list \<Rightarrow> world \<Rightarrow> (message + GameEntry list) \<times> world" where
  "load_lines [] n saw_data games w = (Inr games, w)"
| "load_lines (raw # rest) n saw_data games w =
     (let line_number = n + 1 in
      if 4096 < length raw
      then (Inl (Msg (''manifest line '' @ decimal line_number @ '' exceeds 4096 bytes'')), w)
      else
        (let line = (if raw \<noteq> [] \<and> byte_of (raw ! (length raw - 1)) = 13
                     then take (length raw - 1) raw else raw) in
         if line = [] \<or> line ! 0 = CHR ''#'' then load_lines rest line_number saw_data games w
         else
           (let fs = split_tabs line in
            if \<not> saw_data \<and> is_optional_header fs
            then load_lines rest line_number True games w
            else if length fs \<noteq> 5
            then (Inl (Msg (''manifest line '' @ decimal line_number @
                            '' must have exactly 5 TSV fields'')), w)
            else
              (case parse_entry line_number fs of
                 Inl m \<Rightarrow> (Inl m, w)
               | Inr game \<Rightarrow>
                   (case validate_rom (system game) (rom game) w of
                      (Inl m, w1) \<Rightarrow>
                        (Inl (prefix_message (''manifest line '' @ decimal line_number @ '': '') m), w1)
                    | (Inr _, w1) \<Rightarrow>
                        if game_id game \<in> set (map game_id games)
                        then (Inl (on_line ''duplicate id'' line_number), w1)
                        else if rom game \<in> set (map rom games)
                        then (Inl (on_line ''duplicate ROM'' line_number), w1)
                        else if kMaximumCatalogGames < length (games @ [game])
                        then (Inl (Msg (''manifest has more than '' @ decimal kMaximumCatalogGames @
                               '' games; use fewer entries to keep touch targets large'')), w1)
                        else load_lines rest line_number True (games @ [game]) w1)))))"

definition load_manifest :: "string \<Rightarrow> world \<Rightarrow> (message + GameEntry list) \<times> world" where
  "load_manifest path w =
     (if \<not> is_absolute_path path then (Inl (Msg ''manifest path must be absolute''), w)
      else
        (case sys_stat path w of
           (None, w1) \<Rightarrow> (Inl (errno_message (''cannot stat manifest '' @ path) w1), w1)
         | (Some (is_regular, file_size), w1) \<Rightarrow>
             if \<not> is_regular \<or> kMaximumManifestBytes < file_size
             then (Inl (Msg ''manifest must be a regular file no larger than 65536 bytes''), w1)
             else
               (case stream_read path w1 of
                  (None, w2) \<Rightarrow> (Inl (errno_message (''cannot open manifest '' @ path) w2), w2)
                | (Some input, w2) \<Rightarrow>
                    (case load_lines (stream_lines input) 0 False [] w2 of
                       (Inl m, w3) \<Rightarrow> (Inl m, w3)
                     | (Inr games, w3) \<Rightarrow>
                         if snd input then (Inl (Msg (''error while reading manifest '' @ path)), w3)
                         else if games = [] then (Inl (Msg ''manifest contains no games''), w3)
                         else (Inr games, w3)))))"

subsection \<open>Built-in applications\<close>

definition built_in_entry :: "string \<Rightarrow> string \<Rightarrow> nat \<Rightarrow> string \<Rightarrow> GameEntry" where
  "built_in_entry i t c path =
     \<lparr>game_id = i, title = t, system = ''deck'', rom = path, color = xterm_color c, cover = no_cover\<rparr>"

definition built_in_terminal_entry :: "string \<Rightarrow> GameEntry" where
  "built_in_terminal_entry = built_in_entry ''terminal'' ''TERMINAL'' 67"

definition is_built_in_terminal :: "GameEntry \<Rightarrow> bool" where
  "is_built_in_terminal g = (game_id g = ''terminal'' \<and> system g = ''deck'')"

definition built_in_lua_entry :: "string \<Rightarrow> GameEntry" where
  "built_in_lua_entry = built_in_entry ''lua-repl'' ''LUA REPL'' 69"

definition is_built_in_lua :: "GameEntry \<Rightarrow> bool" where
  "is_built_in_lua g = (game_id g = ''lua-repl'' \<and> system g = ''deck'')"

definition built_in_lisp_entry :: "string \<Rightarrow> GameEntry" where
  "built_in_lisp_entry = built_in_entry ''lisp-repl'' ''LISP REPL'' 149"

definition is_built_in_lisp :: "GameEntry \<Rightarrow> bool" where
  "is_built_in_lisp g = (game_id g = ''lisp-repl'' \<and> system g = ''deck'')"

definition built_in_python_entry :: "string \<Rightarrow> GameEntry" where
  "built_in_python_entry = built_in_entry ''python-repl'' ''PYTHON REPL'' 220"

definition is_built_in_python :: "GameEntry \<Rightarrow> bool" where
  "is_built_in_python g = (game_id g = ''python-repl'' \<and> system g = ''deck'')"

definition built_in_scheme_entry :: "string \<Rightarrow> GameEntry" where
  "built_in_scheme_entry = built_in_entry ''scheme-repl'' ''SCHEME REPL'' 114"

definition is_built_in_scheme :: "GameEntry \<Rightarrow> bool" where
  "is_built_in_scheme g = (game_id g = ''scheme-repl'' \<and> system g = ''deck'')"

definition built_in_chiptune_entry :: "string \<Rightarrow> GameEntry" where
  "built_in_chiptune_entry = built_in_entry ''chiptunes'' ''CHIPTUNES'' 208"

definition is_built_in_chiptune :: "GameEntry \<Rightarrow> bool" where
  "is_built_in_chiptune g = (game_id g = ''chiptunes'' \<and> system g = ''deck'')"

definition built_in_reboot_entry :: "string \<Rightarrow> GameEntry" where
  "built_in_reboot_entry = built_in_entry ''reboot'' ''REBOOT'' 167"

definition is_built_in_reboot :: "GameEntry \<Rightarrow> bool" where
  "is_built_in_reboot g = (game_id g = ''reboot'' \<and> system g = ''deck'')"

definition terminal_mode_for_game :: "GameEntry \<Rightarrow> string" where
  "terminal_mode_for_game g =
     (if is_built_in_terminal g then ''shell''
      else if is_built_in_lua g then ''lua''
      else if is_built_in_lisp g then ''lisp''
      else if is_built_in_python g then ''python''
      else if is_built_in_scheme g then ''scheme''
      else [])"

definition terminal_program_title :: "string \<Rightarrow> string" where
  "terminal_program_title mode =
     (if mode = ''lua'' then ''LUA REPL''
      else if mode = ''lisp'' then ''LISP REPL''
      else if mode = ''python'' then ''PYTHON REPL''
      else if mode = ''scheme'' then ''SCHEME REPL''
      else ''TERMINAL'')"

section \<open>Reading a ROM\<close>

lemma pread_data:
  assumes "sys_pread fd n off w = (Some data, w')" "fds w fd = Some (i, o')"
  shows "length data \<le> n" "data = take (length data) (drop off (content (inodes w i)))"
    "fds w' = fds w"
proof -
  obtain x w1 where x: "next_outcome w = (x, w1)" by fastforce
  note f = next_outcome_frame [OF x]
  show "length data \<le> n"
    using assms f by (cases x) (auto simp: sys_pread_def x fail_def Let_def split: option.splits)
  show "data = take (length data) (drop off (content (inodes w i)))"
    using assms f by (cases x) (auto simp: sys_pread_def x fail_def Let_def min_def split: option.splits)
  show "fds w' = fds w"
    using assms f by (cases x) (auto simp: sys_pread_def x fail_def Let_def split: option.splits)
qed

lemma pread_fault: "sys_pread fd n off w = (None, w') \<Longrightarrow> fds w fd = Some (i, o') \<Longrightarrow> fds w' = fds w"
proof -
  assume a: "sys_pread fd n off w = (None, w')" "fds w fd = Some (i, o')"
  obtain x w1 where x: "next_outcome w = (x, w1)" by fastforce
  show ?thesis using a next_outcome_frame [OF x]
    by (cases x) (auto simp: sys_pread_def x fail_def Let_def split: option.splits)
qed

lemma read_exact_at_data:
  assumes "read_exact_at fd off used n w = (r, w')" "fds w fd = Some (i, o')"
    "used = take (length used) (drop off (content (inodes w i)))" "length used \<le> n"
  shows "confined fd {} w w' \<and>
    (\<forall>bytes. r = Some bytes \<longrightarrow> length bytes = n \<and> bytes = take n (drop off (content (inodes w i))))"
  using assms
proof (induction fd off used n w rule: read_exact_at.induct)
  case (1 fd off used n w)
  show ?case
  proof (cases "length used < n")
    case False
    then show ?thesis using "1.prems" by (auto simp: read_exact_at.simps [of fd off used n w])
  next
    case True
    obtain x w1 where rd: "sys_pread fd (n - length used) (off + length used) w = (x, w1)" by fastforce
    note c = pread_confined [OF rd, of "{}"]
    have same: "inodes w1 = inodes w" using c by (rule confined_same_inodes)
    show ?thesis
    proof (cases x)
      case None
      have e: "fds w1 = fds w" using pread_fault [OF rd [unfolded None] "1.prems"(2)] .
      show ?thesis
      proof (cases "last_errno w1 = EINTR")
        case intr: True
        have "read_exact_at fd off used n w1 = (r, w')"
          using "1.prems"(1) True rd None intr by (simp add: read_exact_at.simps [of fd off used n w])
        with "1.IH"(1) [OF True rd [symmetric] None intr] "1.prems" e same c
        show ?thesis by (auto intro: confined_trans)
      next
        case False
        then show ?thesis
          using "1.prems" True rd None c by (auto simp: read_exact_at.simps [of fd off used n w])
      qed
    next
      case (Some amount)
      note d = pread_data [OF rd [unfolded Some] "1.prems"(2)]
      show ?thesis
      proof (cases "amount = []")
        case True
        then show ?thesis
          using "1.prems" \<open>length used < n\<close> rd Some c by (auto simp: read_exact_at.simps [of fd off used n w])
      next
        case False
        have step: "read_exact_at fd off (used @ amount) n w1 = (r, w')"
          using "1.prems"(1) True rd Some False by (simp add: read_exact_at.simps [of fd off used n w])
        have "used @ amount = take (length used + length amount) (drop off (content (inodes w i)))"
          using "1.prems"(3) d(2) by (metis take_add drop_drop add.commute)
        then have "used @ amount = take (length (used @ amount)) (drop off (content (inodes w1 i)))"
          unfolding length_append same .
        moreover have "fds w1 fd = Some (i, o')" using d(3) "1.prems"(2) by (rule trans [OF fun_cong])
        moreover have "length (used @ amount) \<le> n" using d(1) True unfolding length_append by linarith
        ultimately have "confined fd {} w1 w' \<and>
            (\<forall>bytes. r = Some bytes \<longrightarrow> length bytes = n \<and> bytes = take n (drop off (content (inodes w1 i))))"
          by (intro "1.IH"(2) [OF True rd [symmetric] Some False step])
        then show ?thesis using c unfolding same by (blast intro: confined_trans)
      qed
    qed
  qed
qed

lemma read_exact_at_idle:
  assumes "schedule w = []" "fds w fd = Some (i, o')" "off + n \<le> length (content (inodes w i))"
  shows "read_exact_at fd off [] n w = (Some (take n (drop off (content (inodes w i)))), w)"
proof (cases "n = 0")
  case False
  have pr: "sys_pread fd n off w = (Some (take n (drop off (content (inodes w i)))), w)"
    using assms(1,2) by (simp add: sys_pread_def Let_def)
  let ?d = "take n (drop off (content (inodes w i)))"
  have d: "length ?d = n" using assms(3) by simp
  then have "?d \<noteq> []" using False by force
  then have "read_exact_at fd off [] n w = read_exact_at fd off ?d n w"
    using False pr by (subst read_exact_at.simps) simp
  also have "\<dots> = (Some ?d, w)"
    using d by (subst read_exact_at.simps) simp
  finally show ?thesis .
qed (simp add: read_exact_at.simps)

section \<open>What an accepted ROM looks like\<close>

text \<open>
  A tape is a sequence of blocks: a little-endian length of at least two, then that many bytes,
  the last of which makes their exclusive-or zero.
\<close>

inductive tape_blocks :: "byte list \<Rightarrow> bool" where
  tape_Nil: "tape_blocks []"
| tape_block: "\<lbrakk>length block = unat lo + 256 * unat hi; 2 \<le> length block; foldl (XOR) 0 block = 0;
    tape_blocks rest\<rbrakk> \<Longrightarrow> tape_blocks (lo # hi # block @ rest)"

inductive_cases tape_blocks_ConsE: "tape_blocks (lo # bytes)"

lemma tape_ok_blocks: "tape_ok offset tape = tape_blocks (drop offset tape)"
proof (induction offset tape rule: tape_ok.induct)
  case (1 offset tape)
  show ?case
  proof (cases "offset + 2 \<le> length tape")
    case False
    have "\<not> tape_blocks [b]" for b by (auto elim: tape_blocks_ConsE)
    moreover have "offset < length tape \<Longrightarrow> drop offset tape = [tape ! offset]"
      using False drop_eq_nth_Cons [of offset tape] by simp
    ultimately show ?thesis
      using False by (subst tape_ok.simps) (auto intro: tape_Nil)
  next
    case True
    let ?lo = "tape ! offset" and ?hi = "tape ! (offset + 1)" and ?rest = "drop (offset + 2) tape"
    let ?n = "unat ?lo + 256 * unat ?hi"
    have d: "drop offset tape = ?lo # ?hi # ?rest"
      using True drop_eq_nth_Cons [of offset tape] drop_eq_nth_Cons [of "offset + 1" tape] by simp
    let ?good = "2 \<le> ?n \<and> ?n \<le> length tape - (offset + 2) \<and> foldl (XOR) 0 (take ?n ?rest) = 0"
    have step: "tape_ok offset tape = (?good \<and> tape_ok (offset + 2 + ?n) tape)"
      using True by (subst tape_ok.simps) (auto simp: Let_def)
    show ?thesis
    proof (cases ?good)
      case False
      have "\<not> tape_blocks (?lo # ?hi # ?rest)"
      proof
        assume "tape_blocks (?lo # ?hi # ?rest)"
        then obtain block rest where "length block = ?n" "2 \<le> length block" "foldl (XOR) 0 block = 0"
          "?rest = block @ rest" by (rule tape_blocks_ConsE) auto
        moreover from this have "length tape - (offset + 2) = ?n + length rest"
          by (metis length_append length_drop)
        ultimately show False using False by auto
      qed
      then show ?thesis using step False d by auto
    next
      case good: True
      have IH: "tape_ok (offset + 2 + ?n) tape = tape_blocks (drop (offset + 2 + ?n) tape)"
      proof (rule 1 [OF _ _ refl refl])
        show "offset < length tape" "\<not> length tape - offset < 2" using True by linarith+
        show "\<not> (?n < 2 \<or> length tape - (offset + 2) < ?n)" using good by linarith
        show "\<not> foldl (XOR) 0 (take ?n ?rest) \<noteq> 0" using good by blast
      qed
      have split: "?rest = take ?n ?rest @ drop (offset + 2 + ?n) tape"
      proof -
        have "drop (offset + 2 + ?n) tape = drop ?n ?rest" by (simp add: add.commute)
        then show ?thesis by (simp only: append_take_drop_id)
      qed
      have len: "length (take ?n ?rest) = ?n" using good by simp
      have "tape_blocks (?lo # ?hi # ?rest) \<longleftrightarrow> tape_blocks (drop (offset + 2 + ?n) tape)"
      proof
        assume "tape_blocks (drop (offset + 2 + ?n) tape)"
        then have "tape_blocks (?lo # ?hi # take ?n ?rest @ drop (offset + 2 + ?n) tape)"
          using good len by (intro tape_block) simp_all
        then show "tape_blocks (?lo # ?hi # ?rest)" by (simp only: split [symmetric])
      next
        assume "tape_blocks (?lo # ?hi # ?rest)"
        then obtain block rest where "length block = ?n" "?rest = block @ rest" "tape_blocks rest"
          by (rule tape_blocks_ConsE) auto
        then show "tape_blocks (drop (offset + 2 + ?n) tape)"
          using split len by (metis append_eq_append_conv)
      qed
      then show ?thesis using step good IH d by simp
    qed
  qed
qed

definition rom_format :: "string \<Rightarrow> byte list \<Rightarrow> bool" where
  "rom_format sys bytes =
     (if sys = ''nes'' then 16 \<le> length bytes \<and> take 4 bytes = [0x4e, 0x45, 0x53, 0x1a]
      else if sys = ''gb'' \<or> sys = ''gbc'' then
        0x150 \<le> length bytes \<and> length bytes \<le> 8 * 1024 * 1024 \<and>
        take 48 (drop 0x104 bytes) = gb_logo \<and>
        foldl (\<lambda>checksum b. checksum - b - 1) 0 (take 0x19 (drop 0x134 bytes)) = bytes ! 0x14d \<and>
        (sys = ''gbc'' \<longrightarrow> bytes ! 0x143 \<in> {0x80, 0xc0})
      else if sys = ''zx'' then
        4 \<le> length bytes \<and> length bytes \<le> 8 * 1024 * 1024 \<and> tape_blocks bytes
      else 1 \<le> length bytes \<and> length bytes \<le> 65024)"

text \<open>The header the Game Boy check reads is the window at \<open>0x100\<close>.\<close>

lemma gb_window:
  assumes "0x150 \<le> length bytes"
  shows "take 48 (drop 4 (take 0x50 (drop 0x100 bytes))) = take 48 (drop 0x104 bytes)"
    "gb_checksum (take 0x50 (drop 0x100 bytes)) =
       foldl (\<lambda>checksum b. checksum - b - 1) 0 (take 0x19 (drop 0x134 bytes))"
    "take 0x50 (drop 0x100 bytes) ! 0x4d = bytes ! 0x14d"
    "take 0x50 (drop 0x100 bytes) ! 0x43 = bytes ! 0x143"
  using assms by (simp_all add: gb_checksum_def drop_take)

lemma accepted_iff:
  assumes "r = None \<longleftrightarrow> A \<and> (\<exists>h. x = Some h \<and> P h)" "F \<longleftrightarrow> A \<and> P t"
    "\<And>h. x = Some h \<Longrightarrow> h = t" "S \<Longrightarrow> A \<Longrightarrow> x = Some t"
  shows "(r = None \<longrightarrow> F) \<and> (S \<and> F \<longrightarrow> r = None)"
proof (intro conjI impI)
  assume "r = None"
  then obtain h where h: "A" "x = Some h" "P h" using assms(1) by blast
  then have "P t" using assms(3) [OF h(2)] by (iprover intro: subst)
  then show F using h(1) assms(2) by blast
next
  assume sf: "S \<and> F"
  then have "x = Some t" "A" "P t" using assms(2,4) by blast+
  then show "r = None" using assms(1) by blast
qed

lemma check_rom_outcome:
  assumes "check_rom sys path fd n w = (r, w')" "fds w fd = Some (i, o')"
    "n = length (content (inodes w i))"
  shows "confined fd {} w w'" "r = None \<Longrightarrow> rom_format sys (map char_byte (content (inodes w i)))"
    "schedule w = [] \<Longrightarrow> rom_format sys (map char_byte (content (inodes w i))) \<Longrightarrow> r = None"
proof -
  let ?c = "content (inodes w i)"
  have rd: "confined fd {} w w1 \<and>
      (\<forall>bytes. x = Some bytes \<longrightarrow> length bytes = k \<and> bytes = take k (drop off ?c))"
    if "read_exact_at fd off [] k w = (x, w1)" for off k x w1
    using read_exact_at_data [OF that assms(2)] by simp
  obtain x1 v1 where r1: "read_exact_at fd 0 [] 4 w = (x1, v1)" by fastforce
  obtain x2 v2 where r2: "read_exact_at fd 0x100 [] 0x50 w = (x2, v2)" by fastforce
  obtain x3 v3 where r3: "read_exact_at fd 0 [] n w = (x3, v3)" by fastforce
  note unf = assms(1) [unfolded check_rom_def r1 r2 r3 Let_def]
  show "confined fd {} w w'"
    using unf rd [OF r1] rd [OF r2] rd [OF r3] by (auto split: if_splits option.splits)
  consider (nes) "sys = ''nes''" | (gb) "sys = ''gb'' \<or> sys = ''gbc''" | (zx) "sys = ''zx''"
    | (other) "sys \<noteq> ''nes''" "sys \<noteq> ''gb''" "sys \<noteq> ''gbc''" "sys \<noteq> ''zx''" by blast
  then have "(r = None \<longrightarrow> rom_format sys (map char_byte ?c)) \<and>
    (schedule w = [] \<and> rom_format sys (map char_byte ?c) \<longrightarrow> r = None)"
  proof cases
    case nes
    have iff: "r = None \<longleftrightarrow> 16 \<le> n \<and> (\<exists>h. x1 = Some h \<and> map char_byte h = [0x4e, 0x45, 0x53, 0x1a])"
      using unf nes by (auto split: if_splits option.splits)
    have "x1 = Some h \<Longrightarrow> h = take 4 ?c" for h using rd [OF r1] by simp
    moreover have "schedule w = [] \<Longrightarrow> 16 \<le> n \<Longrightarrow> x1 = Some (take 4 ?c)"
      using read_exact_at_idle [OF _ assms(2), of 0 4] r1 assms(3) by simp
    moreover have fmt: "rom_format sys (map char_byte ?c) \<longleftrightarrow>
        16 \<le> n \<and> map char_byte (take 4 ?c) = [0x4e, 0x45, 0x53, 0x1a]"
      using nes assms(3) by (simp add: rom_format_def take_map)
    ultimately show ?thesis by (intro accepted_iff [OF iff fmt]) simp_all
  next
    case gb
    let ?h = "take 0x50 (drop 0x100 ?c)"
    let ?ok = "\<lambda>header. take 48 (drop 4 header) = gb_logo \<and> gb_checksum header = header ! 0x4d \<and>
      (sys = ''gbc'' \<longrightarrow> header ! 0x43 \<in> {0x80, 0xc0})"
    have iff: "r = None \<longleftrightarrow> (0x150 \<le> n \<and> n \<le> 8 * 1024 * 1024) \<and> (\<exists>h. x2 = Some h \<and> ?ok (map char_byte h))"
      using unf gb by (cases x2) (auto split: if_splits)
    have x2: "x2 = Some h \<Longrightarrow> h = ?h" for h using rd [OF r2] by simp
    have idle: "schedule w = [] \<Longrightarrow> 0x150 \<le> n \<Longrightarrow> x2 = Some ?h"
      using read_exact_at_idle [OF _ assms(2), of "0x100" "0x50"] r2 assms(3) by simp
    have fmt: "rom_format sys (map char_byte ?c) \<longleftrightarrow> (0x150 \<le> n \<and> n \<le> 8 * 1024 * 1024) \<and> ?ok (map char_byte ?h)"
    proof (cases "0x150 \<le> n")
      case True
      then show ?thesis
        using gb_window [of "map char_byte ?c"] gb assms(3) unfolding take_map [symmetric] drop_map [symmetric]
        by (auto simp: rom_format_def)
    qed (use gb assms(3) in \<open>auto simp: rom_format_def\<close>)
    show ?thesis by (rule accepted_iff [OF iff fmt]) (use x2 idle in simp_all)
  next
    case zx
    have iff: "r = None \<longleftrightarrow> (4 \<le> n \<and> n \<le> 8 * 1024 * 1024) \<and> (\<exists>t. x3 = Some t \<and> tape_blocks (map char_byte t))"
      using unf zx by (cases x3) (auto simp: tape_ok_blocks split: if_splits)
    have "x3 = Some t \<Longrightarrow> t = ?c" for t using rd [OF r3] assms(3) by simp
    moreover have "schedule w = [] \<Longrightarrow> x3 = Some ?c"
      using read_exact_at_idle [OF _ assms(2), of 0 n] r3 assms(3) by auto
    moreover have fmt: "rom_format sys (map char_byte ?c) \<longleftrightarrow>
        (4 \<le> n \<and> n \<le> 8 * 1024 * 1024) \<and> tape_blocks (map char_byte ?c)"
      using zx assms(3) by (simp add: rom_format_def)
    ultimately show ?thesis by (intro accepted_iff [OF iff fmt]) simp_all
  next
    case other
    then show ?thesis
      using unf assms(3) by (auto simp: rom_format_def Suc_le_eq split: if_splits)
  qed
  then show "r = None \<Longrightarrow> rom_format sys (map char_byte ?c)"
    "schedule w = [] \<Longrightarrow> rom_format sys (map char_byte ?c) \<Longrightarrow> r = None" by blast+
qed

lemma validate_rom_outcome:
  assumes wf: "wf_world w" and val: "validate_rom sys path w = (r, w')"
  shows "reads_only w w'"
    "r = Inr () \<Longrightarrow> valid_system sys \<and> is_absolute_path path \<and> (sys = ''deck'' \<or>
       (\<exists>bytes. file_content w path = Some bytes \<and> rom_format sys (map char_byte bytes)))"
    "schedule w = [] \<Longrightarrow> valid_system sys \<Longrightarrow> is_absolute_path path \<Longrightarrow> sys = ''deck'' \<or>
       (file_content w path = Some bytes \<and> rom_format sys (map char_byte bytes)) \<Longrightarrow> r = Inr ()"
proof -
  have "reads_only w w' \<and>
    (r = Inr () \<longrightarrow> valid_system sys \<and> is_absolute_path path \<and> (sys = ''deck'' \<or>
       (\<exists>bytes. file_content w path = Some bytes \<and> rom_format sys (map char_byte bytes)))) \<and>
    (schedule w = [] \<longrightarrow> valid_system sys \<longrightarrow> is_absolute_path path \<longrightarrow> sys = ''deck'' \<or>
       (file_content w path = Some bytes \<and> rom_format sys (map char_byte bytes)) \<longrightarrow> r = Inr ())"
  proof (cases "valid_system sys \<and> is_absolute_path path \<and> sys \<noteq> ''deck''")
    case False
    then show ?thesis using val by (auto simp: validate_rom_def split: if_splits)
  next
    case True
    obtain x w1 where op: "sys_open path w = (x, w1)" by fastforce
    from op show ?thesis
    proof (cases rule: open_cases [where fd = 0])
      case fault
      have "reads_only w w1" using fault by (auto simp: reads_only_def confined_def)
      moreover have "\<not> (schedule w = [] \<and> file_content w path = Some bytes)"
        using op fault(1)
        by (auto simp: sys_open_def open_inode_def file_content_def split: option.splits)
      ultimately show ?thesis using val True op fault(1) by (auto simp: validate_rom_def)
    next
      case (opened i v)
      let ?fd = "next_fd w"
      have w1: "fds w1 ?fd = Some (i, 0)" "inodes w1 = inodes w"
        using opened(3,6) by (auto simp: confined_def)
      obtain s w2 where st: "sys_fstat ?fd w1 = (s, w2)" by fastforce
      note s1 = fstat_confined(1) [OF st, of ?fd "{}"]
      have w2: "fds w2 ?fd = Some (i, 0)" "inodes w2 = inodes w"
        using fstat_confined(2) [OF st] w1 confined_same_inodes [OF s1] by auto
      have idle2: "schedule w = [] \<Longrightarrow> schedule w2 = [] \<and> s \<noteq> None"
        using op opened(1) st w1(1)
        by (auto simp: sys_open_def open_inode_def sys_fstat_def fail_def split: option.splits)
      have closed: "reads_only w (snd (sys_close ?fd w3))" if "confined ?fd {} w1 w3" for w3
        using open_close_reads_only [OF op [unfolded opened(1)] that] wf
        by (cases "sys_close ?fd w3") auto
      show ?thesis
      proof (cases s)
        case None
        then show ?thesis
          using val True op opened(1) st closed [OF s1] idle2 by (auto simp: validate_rom_def)
      next
        case (Some info)
        obtain reg len where info: "info = (reg, len)" by fastforce
        have reg: "reg = regular (inodes w i)" "len = length (content (inodes w i))"
          using fstat_confined(3) [OF st _ w1(1)] Some info w1(2) by auto
        have content: "file_content w path = (if reg then Some (content (inodes w i)) else None)"
          using opened(2) reg(1) by (simp add: file_content_def)
        obtain e w3 where ck: "check_rom sys path ?fd len w2 = (e, w3)" by fastforce
        from check_rom_outcome [OF ck w2(1)] reg(2) w2(2)
        have c: "confined ?fd {} w2 w3" "e = None \<Longrightarrow> rom_format sys (map char_byte (content (inodes w i)))"
          "schedule w2 = [] \<Longrightarrow> rom_format sys (map char_byte (content (inodes w i))) \<Longrightarrow> e = None"
          by auto
        show ?thesis
          using val True op opened(1) st Some info ck c(2,3) content idle2
            closed [OF s1] closed [OF confined_trans [OF s1 c(1)]]
          by (cases e) (auto simp: validate_rom_def split: if_splits)
      qed
    qed
  qed
  then show "reads_only w w'"
    "r = Inr () \<Longrightarrow> valid_system sys \<and> is_absolute_path path \<and> (sys = ''deck'' \<or>
       (\<exists>bytes. file_content w path = Some bytes \<and> rom_format sys (map char_byte bytes)))"
    "schedule w = [] \<Longrightarrow> valid_system sys \<Longrightarrow> is_absolute_path path \<Longrightarrow> sys = ''deck'' \<or>
       (file_content w path = Some bytes \<and> rom_format sys (map char_byte bytes)) \<Longrightarrow> r = Inr ()"
    by blast+
qed

section \<open>Loading the manifest\<close>

definition entry_ok :: "GameEntry \<Rightarrow> bool" where
  "entry_ok g =
     (valid_id (game_id g) \<and> valid_utf8_text (title g) 64 False \<and> valid_system (system g) \<and>
      valid_utf8_text (rom g) (PATH_MAX - 1) False \<and> is_absolute_path (rom g) \<and>
      is_xterm_color (color g) \<and> trim_ascii_space (title g) = title g)"

definition catalog_ok :: "GameEntry list \<Rightarrow> bool" where
  "catalog_ok games =
     (length games \<le> kMaximumCatalogGames \<and> distinct (map game_id games) \<and>
      distinct (map rom games) \<and> list_all entry_ok games)"

lemma parse_entry_ok:
  "parse_entry n fs = Inr g \<Longrightarrow> is_absolute_path (rom g) \<Longrightarrow> entry_ok g"
  by (auto simp: parse_entry_def Let_def entry_ok_def split: if_splits option.splits)

lemma validate_rom_absolute: "validate_rom sys path w = (Inr x, w') \<Longrightarrow> is_absolute_path path"
  by (auto simp: validate_rom_def split: if_splits)

lemma load_lines_ok:
  "load_lines lines n saw games w = (Inr out, w') \<Longrightarrow> catalog_ok games \<Longrightarrow> catalog_ok out"
proof (induction lines arbitrary: n saw games w)
  case (Cons raw rest)
  define line where "line = (if raw \<noteq> [] \<and> byte_of (raw ! (length raw - 1)) = 13
     then take (length raw - 1) raw else raw)"
  note step = Cons.prems(1) [unfolded load_lines.simps Let_def, folded line_def]
  show ?case
  proof (cases "(line = [] \<or> line ! 0 = CHR ''#'') \<or> (\<not> saw \<and> is_optional_header (split_tabs line))")
    case True
    then have "\<exists>saw'. load_lines rest (n + 1) saw' games w = (Inr out, w')"
      using step by (auto split: if_splits)
    then show ?thesis using Cons.IH Cons.prems(2) by blast
  next
    case False
    then obtain g w1 where g: "parse_entry (n + 1) (split_tabs line) = Inr g"
      "validate_rom (system g) (rom g) w = (Inr (), w1)" "game_id g \<notin> set (map game_id games)"
      "rom g \<notin> set (map rom games)" "length (games @ [g]) \<le> kMaximumCatalogGames"
      "load_lines rest (n + 1) True (games @ [g]) w1 = (Inr out, w')"
      using step by (auto split: if_splits sum.splits prod.splits)
    have "entry_ok g"
      using parse_entry_ok [OF g(1)] validate_rom_absolute [OF g(2)] by blast
    then have "catalog_ok (games @ [g])"
      using Cons.prems(2) g(3-5) by (auto simp: catalog_ok_def)
    then show ?thesis using Cons.IH [OF g(6)] by blast
  qed
qed simp

section \<open>The properties\<close>

text \<open>
  C29. Every manifest the dashboard accepts is a usable catalogue: between one and 64 games with
  distinct identifiers and distinct ROM paths, each entry well-formed (identifier, title and
  path validated, absolute ROM path, known system, a colour of the xterm palette).
\<close>

theorem load_manifest_catalog:
  "case load_manifest path w of
     (Inl _, _) \<Rightarrow> True
   | (Inr games, _) \<Rightarrow> games \<noteq> [] \<and> length games \<le> 64 \<and> distinct (map game_id games) \<and>
       distinct (map rom games) \<and> list_all entry_ok games"
proof -
  obtain r w' where m: "load_manifest path w = (r, w')" by fastforce
  show ?thesis
  proof (cases r)
    case (Inr games)
    then obtain lines w2 w3 where "load_lines lines 0 False [] w2 = (Inr games, w3)" "games \<noteq> []"
      using m by (auto simp: load_manifest_def split: if_splits option.splits prod.splits sum.splits)
    moreover have "catalog_ok []" by (simp add: catalog_ok_def)
    ultimately show ?thesis
      using load_lines_ok m Inr by (auto simp: catalog_ok_def kMaximumCatalogGames_def)
  qed (simp add: m)
qed

text \<open>
  ROM validation reads only, and is exact.  Whatever faults occur, an accepted path is
  absolute and, unless it belongs to a deck application, names a regular file in the format of
  its system (iNES magic; Game Boy logo, header checksum and colour flag; a tape of checked
  blocks; CHIP-8 size); without faults every such file is accepted.
\<close>

theorem validate_rom_exact:
  assumes "wf_world w"
  shows "case validate_rom sys path w of (r, w') \<Rightarrow> reads_only w w' \<and>
      (r = Inr () \<longrightarrow> valid_system sys \<and> is_absolute_path path \<and> (sys = ''deck'' \<or>
         (\<exists>bytes. file_content w path = Some bytes \<and> rom_format sys (map char_byte bytes)))) \<and>
      (schedule w = [] \<and> valid_system sys \<and> is_absolute_path path \<and>
         file_content w path = Some bytes \<and> rom_format sys (map char_byte bytes) \<longrightarrow> r = Inr ())"
proof -
  obtain r w' where v: "validate_rom sys path w = (r, w')" by fastforce
  show ?thesis
    using validate_rom_outcome(1,2) [OF assms v] validate_rom_outcome(3) [OF assms v, of bytes]
    unfolding v prod.case by blast
qed

definition tape_world :: world where
  "tape_world =
     \<lparr>names = [''/t'' \<mapsto> 0],
      inodes = (\<lambda>_. \<lparr>regular = True, content = map char_of [2 :: nat, 0, 85, 85]\<rparr>), next_inode = 1,
      fds = Map.empty, next_fd = 3, schedule = [], last_errno = EIO, pid = 42\<rparr>"

lemma validate_rom_exact_witness: "fst (validate_rom ''zx'' ''/t'' tape_world) = Inr ()"
proof -
  have wf: "wf_world tape_world" by (simp add: wf_world_def tape_world_def honest_def)
  let ?bytes = "map char_of [2 :: nat, 0, 85, 85]"
  have bytes: "map char_byte ?bytes = [2, 0, 85, 85]" by (simp add: char_byte_def)
  have "tape_blocks [2, 0, 85, 85]"
    using tape_block [of "[85, 85]" 2 0 "[]"] tape_Nil by simp
  then have "rom_format ''zx'' (map char_byte ?bytes)"
    unfolding bytes by (simp add: rom_format_def)
  moreover have "file_content tape_world ''/t'' = Some ?bytes" "schedule tape_world = []"
    by (simp_all add: file_content_def tape_world_def)
  moreover have "valid_system ''zx''" "is_absolute_path ''/t''"
    by (simp_all add: valid_system_def is_absolute_path_def PATH_MAX_def)
  ultimately show ?thesis
    using validate_rom_exact [OF wf, of "''zx''" "''/t''" ?bytes] by (auto split: prod.splits)
qed

text \<open>
  The tape check accepts exactly the sequences of length-prefixed blocks whose bytes
  exclusive-or to zero; the loop never reads past the tape.
\<close>

theorem tape_ok_iff: "tape_ok 0 tape \<longleftrightarrow> tape_blocks tape"
  by (simp add: tape_ok_blocks)

end
