(* ===== verification/Raster.thy ===== *)
theory Raster
  imports Deck_Prelude
begin

section \<open>Canvases of 16-bit pixels\<close>

text \<open>
  The dashboard and the ten-second game draw on a vector of RGB565 pixels with the same
  clipped rectangle fill at different sizes.  The fill is modelled once with the size as a
  parameter; what the drawing routines rely on is the locale \<open>raster\<close>.  Coordinates are
  integers; the callers' values stay far below the range of \<open>int\<close>.

  \<open>std::fill\<close> on a range whose first iterator lies behind its last is undefined; the fill
  returns \<open>None\<close> exactly when it would evaluate such a call.
\<close>

datatype Rect = Rect (rect_x: int) (rect_y: int) (rect_width: int) (rect_height: int)

fun rect_contains :: "Rect \<Rightarrow> int \<Rightarrow> int \<Rightarrow> bool" where
  "rect_contains (Rect x y w h) px py = (x \<le> px \<and> y \<le> py \<and> px < x + w \<and> py < y + h)"

type_synonym Canvas = "u16 list"

definition pixel :: "int \<Rightarrow> Canvas \<Rightarrow> int \<Rightarrow> int \<Rightarrow> u16" where
  "pixel W canvas px py = canvas ! nat (py * W + px)"

fun fill_rows :: "int \<Rightarrow> int \<Rightarrow> int \<Rightarrow> u16 \<Rightarrow> int list \<Rightarrow> Canvas \<Rightarrow> Canvas option" where
  "fill_rows W left right c [] canvas = Some canvas"
| "fill_rows W left right c (y # ys) canvas =
     (if right < left then None
      else fill_rows W left right c ys
             (fill_range canvas (nat (y * W + left)) (nat (y * W + right)) c))"

definition fill_clipped :: "int \<Rightarrow> int \<Rightarrow> Canvas \<Rightarrow> Rect \<Rightarrow> u16 \<Rightarrow> Canvas option" where
  "fill_clipped W H canvas r c =
     (if length canvas \<noteq> nat (W * H) then Some canvas
      else
        (let left = max 0 (rect_x r);
             top = max 0 (rect_y r);
             right = min W (rect_x r + rect_width r);
             bottom = min H (rect_y r + rect_height r)
         in fill_rows W left right c [top..bottom - 1] canvas))"

text \<open>A run of fills in program order, stopped by undefined behaviour.\<close>

fun fill_all :: "(Canvas \<Rightarrow> Rect \<Rightarrow> u16 \<Rightarrow> Canvas option) \<Rightarrow> (Rect \<times> u16) list \<Rightarrow> Canvas \<Rightarrow> Canvas option" where
  "fill_all fill [] canvas = Some canvas"
| "fill_all fill ((r, c) # rs) canvas =
     (case fill canvas r c of None \<Rightarrow> None | Some canvas' \<Rightarrow> fill_all fill rs canvas')"

lemma fill_all_append:
  "fill_all fill (xs @ ys) canvas =
     (case fill_all fill xs canvas of None \<Rightarrow> None | Some c \<Rightarrow> fill_all fill ys c)"
  by (induction xs arbitrary: canvas) (auto split: option.splits)

text \<open>
  A routine \<open>draws\<close> when it runs on every canvas of the right size without undefined behaviour
  and keeps the size; routines run one after another draw when each of them does.
\<close>

fun draw_seq :: "(Canvas \<Rightarrow> Canvas option) list \<Rightarrow> Canvas \<Rightarrow> Canvas option" where
  "draw_seq [] canvas = Some canvas"
| "draw_seq (d # ds) canvas = (case d canvas of None \<Rightarrow> None | Some canvas' \<Rightarrow> draw_seq ds canvas')"

definition draws :: "int \<Rightarrow> int \<Rightarrow> (Canvas \<Rightarrow> Canvas option) \<Rightarrow> bool" where
  "draws W H d =
     (\<forall>canvas. length canvas = nat (W * H) \<longrightarrow>
        (\<exists>canvas'. d canvas = Some canvas' \<and> length canvas' = length canvas))"

lemma drawsI:
  "(\<And>canvas. length canvas = nat (W * H) \<Longrightarrow> \<exists>canvas'. d canvas = Some canvas' \<and> length canvas' = length canvas)
    \<Longrightarrow> draws W H d"
  by (simp add: draws_def)

lemma draws_seq: "list_all (draws W H) ds \<Longrightarrow> draws W H (draw_seq ds)"
proof (induction ds)
  case Nil
  then show ?case by (simp add: draws_def)
next
  case (Cons d ds)
  then have d: "draws W H d" and ds: "draws W H (draw_seq ds)" by auto
  show ?case
  proof (rule drawsI)
    fix canvas :: Canvas
    assume len: "length canvas = nat (W * H)"
    obtain c1 where c1: "d canvas = Some c1" "length c1 = length canvas"
      using d len by (auto simp: draws_def)
    obtain c2 where "draw_seq ds c1 = Some c2" "length c2 = length c1"
      using ds len c1(2) by (auto simp: draws_def)
    then show "\<exists>canvas'. draw_seq (d # ds) canvas = Some canvas' \<and> length canvas' = length canvas"
      using c1 by simp
  qed
qed

section \<open>Rows and pixels\<close>

lemma pixel_index_inject:
  assumes "0 \<le> px" "px < W" "0 \<le> qx" "qx < (W::int)"
  shows "py * W + px = qy * W + qx \<longleftrightarrow> px = qx \<and> py = qy"
proof
  assume eq: "py * W + px = qy * W + qx"
  have "(py * W + px) mod W = px" "(qy * W + qx) mod W = qx" using assms by simp_all
  then show "px = qx \<and> py = qy" using eq assms by auto
qed simp

lemma pixel_index_bound:
  assumes "0 \<le> px" "px < W" "0 \<le> py" "py < (H::int)"
  shows "0 \<le> py * W + px" "py * W + px < W * H"
proof -
  show "0 \<le> py * W + px" using assms by simp
  have "(py + 1) * W \<le> H * W" using assms by (intro mult_right_mono) auto
  then show "py * W + px < W * H" using assms by (simp add: algebra_simps)
qed

lemma row_membership:
  assumes "0 \<le> px" "px < W" "0 \<le> left" "right \<le> (W::int)" "left \<le> right" "0 \<le> py" "0 \<le> y"
  shows "nat (y * W + left) \<le> nat (py * W + px) \<and> nat (py * W + px) < nat (y * W + right) \<longleftrightarrow>
    py = y \<and> left \<le> px \<and> px < right"
proof -
  have nn: "0 \<le> py * W + px" "0 \<le> y * W + left" using assms by simp_all
  have "y * W + left \<le> py * W + px \<and> py * W + px < y * W + right \<longleftrightarrow> py = y \<and> left \<le> px \<and> px < right"
  proof (cases "py < y \<or> y < py")
    case True
    then show ?thesis
    proof
      assume "py < y"
      then have "(py + 1) * W \<le> y * W" using assms by (intro mult_right_mono) auto
      then show ?thesis using assms by (auto simp: algebra_simps)
    next
      assume "y < py"
      then have "(y + 1) * W \<le> py * W" using assms by (intro mult_right_mono) auto
      then show ?thesis using assms by (auto simp: algebra_simps)
    qed
  qed auto
  then show ?thesis using nn by (auto simp: nat_le_eq_zle nat_less_eq_zless)
qed

lemma fill_rows_pixels:
  assumes "length canvas = nat (W * H)" "0 \<le> left" "right \<le> W" "left \<le> right"
    "list_all (\<lambda>y. 0 \<le> y \<and> y < H) ys" "0 < W"
  shows "\<exists>canvas'. fill_rows W left right c ys canvas = Some canvas' \<and> length canvas' = length canvas \<and>
    (\<forall>px py. 0 \<le> px \<and> px < W \<and> 0 \<le> py \<and> py < H \<longrightarrow> pixel W canvas' px py =
       (if py \<in> set ys \<and> left \<le> px \<and> px < right then c else pixel W canvas px py))"
  using assms(1,5)
proof (induction ys arbitrary: canvas)
  case (Cons y ys)
  let ?canvas1 = "fill_range canvas (nat (y * W + left)) (nat (y * W + right)) c"
  have y: "0 \<le> y" "y < H" using Cons.prems(2) by auto
  have "(y + 1) * W \<le> H * W" using y assms(6) by (intro mult_right_mono) auto
  then have hi: "y * W + right \<le> W * H" using assms(3) by (simp add: algebra_simps)
  have lo: "nat (y * W + left) \<le> nat (y * W + right)" "nat (y * W + right) \<le> length canvas"
    using assms(4) hi Cons.prems(1) by (auto intro: nat_mono)
  have len: "length ?canvas1 = length canvas" using lo by simp
  have one: "pixel W ?canvas1 px py = (if py = y \<and> left \<le> px \<and> px < right then c else pixel W canvas px py)"
    if "0 \<le> px" "px < W" "0 \<le> py" "py < H" for px py
  proof -
    have "nat (py * W + px) < length canvas"
      using pixel_index_bound [OF that] Cons.prems(1) by simp
    then show ?thesis
      using nth_fill_range [OF lo, of "nat (py * W + px)" c]
        row_membership [OF that(1,2) assms(2,3,4) that(3) y(1)] by (simp add: pixel_def)
  qed
  obtain canvas' where c': "fill_rows W left right c ys ?canvas1 = Some canvas'"
    "length canvas' = length ?canvas1"
    "\<forall>px py. 0 \<le> px \<and> px < W \<and> 0 \<le> py \<and> py < H \<longrightarrow> pixel W canvas' px py =
       (if py \<in> set ys \<and> left \<le> px \<and> px < right then c else pixel W ?canvas1 px py)"
    using Cons.IH [of ?canvas1] Cons.prems len by auto
  then show ?case using one len assms(4) by auto
qed simp

text \<open>When no row is drawn the fill does nothing; otherwise the clipped range must not be inverted.\<close>

definition fill_defined :: "int \<Rightarrow> int \<Rightarrow> Rect \<Rightarrow> bool" where
  "fill_defined W H r =
     (min H (rect_y r + rect_height r) \<le> max 0 (rect_y r) \<or>
      max 0 (rect_x r) \<le> min W (rect_x r + rect_width r))"

lemma fill_clipped_pixels:
  assumes "length canvas = nat (W * H)" "0 < W" "fill_defined W H r"
  shows "\<exists>canvas'. fill_clipped W H canvas r c = Some canvas' \<and> length canvas' = length canvas \<and>
    (\<forall>px py. 0 \<le> px \<and> px < W \<and> 0 \<le> py \<and> py < H \<longrightarrow> pixel W canvas' px py =
       (if rect_contains r px py then c else pixel W canvas px py))"
proof -
  obtain x y w h where r: "r = Rect x y w h" by (cases r)
  let ?ys = "[max 0 y..min H (y + h) - 1]"
  have rows: "list_all (\<lambda>y. 0 \<le> y \<and> y < H) ?ys" by (auto simp: list_all_iff)
  show ?thesis
  proof (cases "min H (y + h) \<le> max 0 y")
    case True
    then have "fill_clipped W H canvas r c = Some canvas"
      using assms(1) r by (simp add: fill_clipped_def Let_def)
    moreover have "\<not> rect_contains r px py" if "0 \<le> py" "py < H" for px py
      using True r that by (auto simp: min_def max_def split: if_splits)
    ultimately show ?thesis by auto
  next
    case False
    then have "max 0 x \<le> min W (x + w)" using assms(3) r by (auto simp: fill_defined_def)
    from fill_rows_pixels [OF assms(1) _ _ this rows assms(2), of c]
    obtain canvas' where *: "fill_rows W (max 0 x) (min W (x + w)) c ?ys canvas = Some canvas'"
      "length canvas' = length canvas"
      "\<forall>px py. 0 \<le> px \<and> px < W \<and> 0 \<le> py \<and> py < H \<longrightarrow> pixel W canvas' px py =
         (if py \<in> set ?ys \<and> max 0 x \<le> px \<and> px < min W (x + w) then c else pixel W canvas px py)"
      by auto
    have "(py \<in> set ?ys \<and> max 0 x \<le> px \<and> px < min W (x + w)) = rect_contains r px py"
      if "0 \<le> px" "px < W" "0 \<le> py" "py < H" for px py
      using r that by auto
    then show ?thesis
      using * assms(1) r by (simp add: fill_clipped_def Let_def)
  qed
qed

lemma fill_clipped_undefined:
  assumes "length canvas = nat (W * H)"
  shows "fill_clipped W H canvas r c = None \<longleftrightarrow> \<not> fill_defined W H r"
proof -
  have some: "\<not> right < left \<Longrightarrow> fill_rows W left right c ys canvas \<noteq> None" for left right ys
    by (induction ys arbitrary: canvas) auto
  have "fill_rows W left right c ys canvas = None \<longleftrightarrow> ys \<noteq> [] \<and> right < left" for left right ys
    using some [of right left ys] by (cases ys) auto
  moreover have "[lo..hi - 1] \<noteq> [] \<longleftrightarrow> \<not> hi \<le> lo" for lo hi :: int
    by auto
  ultimately show ?thesis
    using assms by (simp only: fill_clipped_def fill_defined_def Let_def not_le simp_thms if_False de_Morgan_disj)
qed

section \<open>What drawing routines rely on\<close>

locale raster =
  fixes W H :: int
    and fill :: "Canvas \<Rightarrow> Rect \<Rightarrow> u16 \<Rightarrow> Canvas option"
  assumes fill_pixels: "length canvas = nat (W * H) \<Longrightarrow> fill_defined W H r \<Longrightarrow>
    \<exists>canvas'. fill canvas r c = Some canvas' \<and> length canvas' = length canvas \<and>
      (\<forall>px py. 0 \<le> px \<and> px < W \<and> 0 \<le> py \<and> py < H \<longrightarrow> pixel W canvas' px py =
         (if rect_contains r px py then c else pixel W canvas px py))"
begin

text \<open>Fills of one colour paint the union of their rectangles.\<close>

lemma fill_all_pixels:
  assumes "length canvas = nat (W * H)" "list_all (\<lambda>rc. fill_defined W H (fst rc) \<and> snd rc = c) rcs"
  shows "\<exists>canvas'. fill_all fill rcs canvas = Some canvas' \<and> length canvas' = length canvas \<and>
    (\<forall>px py. 0 \<le> px \<and> px < W \<and> 0 \<le> py \<and> py < H \<longrightarrow> pixel W canvas' px py =
       (if list_ex (\<lambda>rc. rect_contains (fst rc) px py) rcs then c else pixel W canvas px py))"
  using assms
proof (induction rcs arbitrary: canvas)
  case (Cons rc rcs)
  obtain r c' where rc: "rc = (r, c')" by fastforce
  obtain canvas1 where 1: "fill canvas r c = Some canvas1" "length canvas1 = length canvas"
    "\<forall>px py. 0 \<le> px \<and> px < W \<and> 0 \<le> py \<and> py < H \<longrightarrow> pixel W canvas1 px py =
         (if rect_contains r px py then c else pixel W canvas px py)"
    using fill_pixels [of canvas r c] Cons.prems rc by auto
  obtain canvas2 where 2: "fill_all fill rcs canvas1 = Some canvas2" "length canvas2 = length canvas1"
    "\<forall>px py. 0 \<le> px \<and> px < W \<and> 0 \<le> py \<and> py < H \<longrightarrow> pixel W canvas2 px py =
       (if list_ex (\<lambda>rc. rect_contains (fst rc) px py) rcs then c else pixel W canvas1 px py)"
    using Cons.IH [of canvas1] Cons.prems 1(2) by auto
  show ?case using 1 2 rc Cons.prems by auto
qed simp

text \<open>Fills of any colours keep the size of the canvas and leave other pixels alone.\<close>

lemma fill_all_frame:
  assumes "length canvas = nat (W * H)" "list_all (\<lambda>rc. fill_defined W H (fst rc)) rcs"
  shows "\<exists>canvas'. fill_all fill rcs canvas = Some canvas' \<and> length canvas' = length canvas \<and>
    (\<forall>px py. 0 \<le> px \<and> px < W \<and> 0 \<le> py \<and> py < H \<and> list_all (\<lambda>rc. \<not> rect_contains (fst rc) px py) rcs \<longrightarrow>
       pixel W canvas' px py = pixel W canvas px py)"
  using assms
proof (induction rcs arbitrary: canvas)
  case (Cons rc rcs)
  obtain r c where rc: "rc = (r, c)" by fastforce
  obtain canvas1 where 1: "fill canvas r c = Some canvas1" "length canvas1 = length canvas"
    "\<forall>px py. 0 \<le> px \<and> px < W \<and> 0 \<le> py \<and> py < H \<longrightarrow> pixel W canvas1 px py =
         (if rect_contains r px py then c else pixel W canvas px py)"
    using fill_pixels [of canvas r c] Cons.prems rc by auto
  obtain canvas2 where 2: "fill_all fill rcs canvas1 = Some canvas2" "length canvas2 = length canvas1"
    "\<forall>px py. 0 \<le> px \<and> px < W \<and> 0 \<le> py \<and> py < H \<and> list_all (\<lambda>rc. \<not> rect_contains (fst rc) px py) rcs \<longrightarrow>
       pixel W canvas2 px py = pixel W canvas1 px py"
    using Cons.IH [of canvas1] Cons.prems 1(2) by auto
  show ?case using 1 2 rc by auto
qed simp

lemma draws_fill: "fill_defined W H r \<Longrightarrow> draws W H (\<lambda>canvas. fill canvas r c)"
  using fill_pixels by (intro drawsI) blast

lemma draws_fill_all:
  "list_all (\<lambda>rc. fill_defined W H (fst rc)) rcs \<Longrightarrow> draws W H (fill_all fill rcs)"
  using fill_all_frame by (intro drawsI) blast

end

section \<open>Bitmap text\<close>

text \<open>
  Both programs draw a glyph as up to 35 squares, row by row, one per set bit of the glyph's
  rows; \<open>glyph_squares\<close> lists them in that order.
\<close>

definition glyph_bit :: "byte list \<Rightarrow> nat \<Rightarrow> nat \<Rightarrow> bool" where
  "glyph_bit rows column row = (row < length rows \<and> bit (rows ! row) (4 - column))"

definition glyph_squares :: "byte list \<Rightarrow> int \<Rightarrow> int \<Rightarrow> int \<Rightarrow> Rect list" where
  "glyph_squares rows x y scale =
     [Rect (x + int column * scale) (y + int row * scale) scale scale.
        row \<leftarrow> [0..<7], column \<leftarrow> [0..<5], glyph_bit rows column row]"

lemma glyph_squares_inside:
  assumes "r \<in> set (glyph_squares rows x y scale)" "0 < scale" "rect_contains r px py"
  shows "x \<le> px \<and> px < x + 5 * scale \<and> y \<le> py \<and> py < y + 7 * scale"
proof -
  obtain row column where rc: "row < 7" "column < 5"
    "r = Rect (x + int column * scale) (y + int row * scale) scale scale"
    using assms(1) by (auto simp: glyph_squares_def)
  have "int column * scale + scale \<le> 5 * scale" "int row * scale + scale \<le> 7 * scale"
    using mult_right_mono [of "int column + 1" 5 scale] mult_right_mono [of "int row + 1" 7 scale]
      rc(1,2) assms(2) by (simp_all add: algebra_simps)
  moreover have "0 \<le> int column * scale" "0 \<le> int row * scale" using assms(2) by simp_all
  ultimately show ?thesis using assms(3) unfolding rc(3) rect_contains.simps by linarith
qed

lemma glyph_squares_defined:
  assumes "r \<in> set (glyph_squares rows x y scale)" "0 < scale" "0 \<le> x" "x + 5 * scale \<le> W"
  shows "fill_defined W H r"
proof -
  obtain row column where rc: "row < 7" "column < 5"
    "r = Rect (x + int column * scale) (y + int row * scale) scale scale"
    using assms(1) by (auto simp: glyph_squares_def)
  have "int column * scale + scale \<le> 5 * scale"
    using mult_right_mono [of "int column + 1" 5 scale] rc(2) assms(2) by (simp add: algebra_simps)
  moreover have "0 \<le> int column * scale" using assms(2) by simp
  ultimately have "max 0 (x + int column * scale) \<le> min W (x + int column * scale + scale)"
    using assms(2-4) by linarith
  then show ?thesis unfolding rc(3) fill_defined_def Rect.sel by blast
qed

end
