(* ===== verification/Menu_UI.thy ===== *)
theory Menu_UI
  imports Raster Menu_Text
begin

section \<open>Drawing on the dashboard canvas (\<open>src/menu_ui.cpp\<close>)\<close>

text \<open>
  Rectangles, the bitmap font and text fitting on the 1280 by 480 canvas.  Every drawing
  routine returns \<open>None\<close> when it would pass an inverted range to \<open>std::fill\<close>.
\<close>

definition kLogicalWidth :: int where "kLogicalWidth = 1280"

definition kLogicalHeight :: int where "kLogicalHeight = 480"

definition kBitmapGlyphAdvance :: int where "kBitmapGlyphAdvance = 6"

definition kBitmapGlyphHeight :: int where "kBitmapGlyphHeight = 7"

subsection \<open>Rectangles\<close>

definition fill_rect :: "Canvas \<Rightarrow> Rect \<Rightarrow> u16 \<Rightarrow> Canvas option" where
  "fill_rect canvas r c = fill_clipped kLogicalWidth kLogicalHeight canvas r c"

definition stroke_rect :: "Canvas \<Rightarrow> Rect \<Rightarrow> int \<Rightarrow> u16 \<Rightarrow> Canvas option" where
  "stroke_rect canvas r thickness c =
     (let x = rect_x r; y = rect_y r; w = rect_width r; h = rect_height r in
      fill_all fill_rect
        [(Rect x y w thickness, c),
         (Rect x (y + h - thickness) w thickness, c),
         (Rect x y thickness h, c),
         (Rect (x + w - thickness) y thickness h, c)] canvas)"

definition fill_pixel_cut_rect :: "Canvas \<Rightarrow> Rect \<Rightarrow> int \<Rightarrow> u16 \<Rightarrow> Canvas option" where
  "fill_pixel_cut_rect canvas r notch c =
     (let x = rect_x r; y = rect_y r; w = rect_width r; h = rect_height r in
      if w \<le> notch * 2 \<or> h \<le> notch * 2 then Some canvas
      else fill_all fill_rect
             [(Rect (x + notch) y (w - notch * 2) h, c), (Rect x (y + notch) w (h - notch * 2), c)] canvas)"

subsection \<open>The font\<close>

definition glyph_digits :: "byte list list" where
  "glyph_digits =
     [[14, 17, 19, 21, 25, 17, 14], [4, 12, 4, 4, 4, 4, 14],
      [14, 17, 1, 2, 4, 8, 31], [30, 1, 1, 14, 1, 1, 30],
      [2, 6, 10, 18, 31, 2, 2], [31, 16, 16, 30, 1, 1, 30],
      [14, 16, 16, 30, 17, 17, 14], [31, 1, 2, 4, 8, 8, 8],
      [14, 17, 17, 14, 17, 17, 14], [14, 17, 17, 15, 1, 1, 14]]"

definition glyph_letters :: "byte list list" where
  "glyph_letters =
     [[14, 17, 17, 31, 17, 17, 17], [30, 17, 17, 30, 17, 17, 30],
      [14, 17, 16, 16, 16, 17, 14], [30, 17, 17, 17, 17, 17, 30],
      [31, 16, 16, 30, 16, 16, 31], [31, 16, 16, 30, 16, 16, 16],
      [14, 17, 16, 23, 17, 17, 15], [17, 17, 17, 31, 17, 17, 17],
      [14, 4, 4, 4, 4, 4, 14], [7, 2, 2, 2, 18, 18, 12],
      [17, 18, 20, 24, 20, 18, 17], [16, 16, 16, 16, 16, 16, 31],
      [17, 27, 21, 21, 17, 17, 17], [17, 25, 21, 19, 17, 17, 17],
      [14, 17, 17, 17, 17, 17, 14], [30, 17, 17, 30, 16, 16, 16],
      [14, 17, 17, 17, 21, 18, 13], [30, 17, 17, 30, 20, 18, 17],
      [15, 16, 16, 14, 1, 1, 30], [31, 4, 4, 4, 4, 4, 4],
      [17, 17, 17, 17, 17, 17, 14], [17, 17, 17, 17, 17, 10, 4],
      [17, 17, 17, 17, 21, 21, 10], [17, 17, 10, 4, 10, 17, 17],
      [17, 17, 10, 4, 4, 4, 4], [31, 1, 2, 4, 8, 16, 31]]"

definition glyph_lowercase :: "byte list list" where
  "glyph_lowercase =
     [[0, 0, 14, 1, 15, 17, 15], [16, 16, 30, 17, 17, 17, 30],
      [0, 0, 14, 16, 16, 17, 14], [1, 1, 15, 17, 17, 17, 15],
      [0, 0, 14, 17, 31, 16, 14], [6, 9, 8, 28, 8, 8, 8],
      [0, 0, 15, 17, 15, 1, 14], [16, 16, 30, 17, 17, 17, 17],
      [4, 0, 12, 4, 4, 4, 14], [2, 0, 6, 2, 2, 18, 12],
      [16, 16, 18, 20, 24, 20, 18], [12, 4, 4, 4, 4, 4, 14],
      [0, 0, 26, 21, 21, 17, 17], [0, 0, 30, 17, 17, 17, 17],
      [0, 0, 14, 17, 17, 17, 14], [0, 0, 30, 17, 30, 16, 16],
      [0, 0, 15, 17, 15, 1, 1], [0, 0, 22, 25, 16, 16, 16],
      [0, 0, 15, 16, 14, 1, 30], [8, 8, 28, 8, 8, 9, 6],
      [0, 0, 17, 17, 17, 19, 13], [0, 0, 17, 17, 17, 10, 4],
      [0, 0, 17, 17, 21, 21, 10], [0, 0, 17, 10, 4, 10, 17],
      [0, 0, 17, 17, 15, 1, 14], [0, 0, 31, 2, 4, 8, 31]]"

definition glyph_punctuation :: "(nat \<times> byte list) list" where
  "glyph_punctuation =
     [(32, [0, 0, 0, 0, 0, 0, 0]),
      (46, [0, 0, 0, 0, 0, 6, 6]),
      (44, [0, 0, 0, 0, 6, 6, 4]),
      (58, [0, 6, 6, 0, 6, 6, 0]),
      (45, [0, 0, 0, 31, 0, 0, 0]),
      (47, [1, 2, 2, 4, 8, 8, 16]),
      (43, [0, 4, 4, 31, 4, 4, 0]),
      (33, [4, 4, 4, 4, 4, 0, 4]),
      (63, [14, 17, 1, 2, 4, 0, 4]),
      (39, [4, 4, 8, 0, 0, 0, 0]),
      (40, [2, 4, 8, 8, 8, 4, 2]),
      (41, [8, 4, 2, 2, 2, 4, 8]),
      (38, [12, 18, 20, 8, 21, 18, 13]),
      (35, [10, 10, 31, 10, 31, 10, 10]),
      (95, [0, 0, 0, 0, 0, 0, 31]),
      (59, [0, 6, 6, 0, 6, 6, 4]),
      (61, [0, 31, 0, 31, 0, 0, 0]),
      (34, [10, 10, 20, 0, 0, 0, 0]),
      (42, [0, 21, 14, 31, 14, 21, 0]),
      (37, [25, 25, 2, 4, 8, 19, 19]),
      (94, [4, 10, 17, 0, 0, 0, 0]),
      (124, [4, 4, 4, 4, 4, 4, 4]),
      (92, [16, 8, 8, 4, 2, 2, 1]),
      (60, [2, 4, 8, 16, 8, 4, 2]),
      (62, [8, 4, 2, 1, 2, 4, 8]),
      (91, [14, 8, 8, 8, 8, 8, 14]),
      (93, [14, 2, 2, 2, 2, 2, 14]),
      (123, [6, 4, 4, 24, 4, 4, 6]),
      (125, [12, 4, 4, 3, 4, 4, 12]),
      (64, [14, 17, 23, 21, 23, 16, 14]),
      (36, [4, 15, 20, 14, 5, 30, 4]),
      (96, [8, 4, 0, 0, 0, 0, 0]),
      (126, [0, 0, 9, 22, 0, 0, 0])]"

definition glyph_unknown :: "byte list" where
  "glyph_unknown = [14, 17, 1, 2, 4, 0, 4]"


definition glyph_rows :: "char \<Rightarrow> byte list" where
  "glyph_rows c =
     (let ch = byte_of c in
      if 97 \<le> ch \<and> ch \<le> 122 then glyph_lowercase ! (ch - 97)
      else if 65 \<le> ch \<and> ch \<le> 90 then glyph_letters ! (ch - 65)
      else if 48 \<le> ch \<and> ch \<le> 57 then glyph_digits ! (ch - 48)
      else (case map_of glyph_punctuation ch of Some rows \<Rightarrow> rows | None \<Rightarrow> glyph_unknown))"

definition bitmap_glyph_pixel :: "char \<Rightarrow> int \<Rightarrow> int \<Rightarrow> bool" where
  "bitmap_glyph_pixel c column row =
     (if column < 0 \<or> 5 \<le> column \<or> row < 0 \<or> 7 \<le> row then False
      else bit (glyph_rows c ! nat row) (4 - nat column))"

definition draw_character :: "Canvas \<Rightarrow> int \<Rightarrow> int \<Rightarrow> char \<Rightarrow> int \<Rightarrow> u16 \<Rightarrow> Canvas option" where
  "draw_character canvas x y ch scale c =
     fill_all fill_rect (map (\<lambda>r. (r, c)) (glyph_squares (glyph_rows ch) x y scale)) canvas"

subsection \<open>Text\<close>

definition text_width :: "string \<Rightarrow> int \<Rightarrow> int" where
  "text_width s scale =
     (if s = [] then 0 else int (length s) * kBitmapGlyphAdvance * scale - scale)"

fun draw_characters :: "Canvas \<Rightarrow> int \<Rightarrow> int \<Rightarrow> nat \<Rightarrow> string \<Rightarrow> int \<Rightarrow> u16 \<Rightarrow> Canvas option" where
  "draw_characters canvas x y i [] scale c = Some canvas"
| "draw_characters canvas x y i (ch # cs) scale c =
     (case draw_character canvas (x + int i * kBitmapGlyphAdvance * scale) y ch scale c of
        None \<Rightarrow> None
      | Some canvas' \<Rightarrow> draw_characters canvas' x y (i + 1) cs scale c)"

definition draw_text :: "Canvas \<Rightarrow> int \<Rightarrow> int \<Rightarrow> string \<Rightarrow> int \<Rightarrow> u16 \<Rightarrow> Canvas option" where
  "draw_text canvas x y utf8_text scale c =
     draw_characters canvas x y 0 (display_ascii utf8_text) scale c"

definition draw_centered_text :: "Canvas \<Rightarrow> Rect \<Rightarrow> string \<Rightarrow> int \<Rightarrow> u16 \<Rightarrow> Canvas option" where
  "draw_centered_text canvas bounds s scale c =
     (let shown = display_ascii s;
          width = text_width shown scale;
          height = kBitmapGlyphHeight * scale
      in draw_text canvas (rect_x bounds + max 0 ((rect_width bounds - width) sdiv 2))
           (rect_y bounds + max 0 ((rect_height bounds - height) sdiv 2)) shown scale c)"

function fit_scale_from :: "string \<Rightarrow> int \<Rightarrow> int \<Rightarrow> int \<Rightarrow> int" where
  "fit_scale_from shown maximum_width scale minimum =
     (if minimum \<le> scale then
        (if text_width shown scale \<le> maximum_width then scale
         else fit_scale_from shown maximum_width (scale - 1) minimum)
      else minimum)"
  by pat_completeness auto
termination
  by (relation "measure (\<lambda>(shown, m, scale, minimum). nat (scale + 1 - minimum))") auto

declare fit_scale_from.simps [simp del]

definition fit_text_scale :: "string \<Rightarrow> int \<Rightarrow> int \<Rightarrow> int \<Rightarrow> int" where
  "fit_text_scale s maximum_width preferred minimum =
     fit_scale_from (display_ascii s) maximum_width preferred minimum"

definition fit_text_width :: "string \<Rightarrow> int \<Rightarrow> int \<Rightarrow> string" where
  "fit_text_width s maximum_width scale =
     (let shown = display_ascii s in
      if text_width shown scale \<le> maximum_width then shown
      else
        (let character_width = kBitmapGlyphAdvance * scale;
             capacity = (if 0 < maximum_width
                         then nat ((maximum_width + scale) sdiv character_width) else 0)
         in if capacity = 0 then []
            else if capacity \<le> 3 then substr shown 0 capacity
            else take (capacity - 3) shown @ replicate (capacity - 3 - length shown) (char_of (0 :: nat)) @
                 ''...''))"

section \<open>The canvas is a raster\<close>

lemma logical_size: "kLogicalWidth = 1280" "kLogicalHeight = 480"
  by (simp_all add: kLogicalWidth_def kLogicalHeight_def)

interpretation ui: raster kLogicalWidth kLogicalHeight fill_rect
  by (unfold_locales, unfold fill_rect_def, rule fill_clipped_pixels) (simp_all add: kLogicalWidth_def)

text \<open>
  \<open>fill_rect\<close> sets exactly the pixels of the canvas inside the rectangle, for every
  rectangle that overlaps the canvas horizontally or draws no row.
\<close>

theorem fill_rect_exact:
  assumes "length canvas = 1280 * 480" "fill_defined 1280 480 r"
  shows "\<exists>canvas'. fill_rect canvas r c = Some canvas' \<and> length canvas' = length canvas \<and>
    (\<forall>px py. 0 \<le> px \<and> px < 1280 \<and> 0 \<le> py \<and> py < 480 \<longrightarrow> pixel 1280 canvas' px py =
       (if rect_contains r px py then c else pixel 1280 canvas px py))"
  by (rule ui.fill_pixels [unfolded logical_size]) (use assms in simp_all)

lemma fill_rect_exact_witness:
  "\<exists>canvas'. fill_rect (replicate (1280 * 480) 0) (Rect (-4) 470 20 30) 7 = Some canvas' \<and>
    length canvas' = length (replicate (1280 * 480) (0 :: u16)) \<and>
    (\<forall>px py. 0 \<le> px \<and> px < 1280 \<and> 0 \<le> py \<and> py < 480 \<longrightarrow> pixel 1280 canvas' px py =
       (if rect_contains (Rect (-4) 470 20 30) px py then 7 else pixel 1280 (replicate (1280 * 480) 0) px py))"
  by (rule fill_rect_exact) (simp only: length_replicate, simp add: fill_defined_def)

text \<open>
  A rectangle that lies beside the canvas and crosses a row makes the fill undefined: the
  source passes \<open>std::fill\<close> a range whose end precedes its beginning.
\<close>

lemma fill_rect_undefined:
  assumes "length canvas = 1280 * 480"
  shows "fill_rect canvas (Rect 1290 10 8 8) c = None"
  using fill_clipped_undefined [of canvas 1280 480 "Rect 1290 10 8 8" c] assms
  by (simp add: fill_rect_def logical_size fill_defined_def)

section \<open>Every glyph is five by seven\<close>

lemma glyph_tables:
  "length glyph_lowercase = 26" "length glyph_letters = 26" "length glyph_digits = 10"
  "list_all (\<lambda>rows. length rows = 7 \<and> list_all (\<lambda>b. b < 32) rows)
     (glyph_unknown # glyph_lowercase @ glyph_letters @ glyph_digits @ map snd glyph_punctuation)"
  by (simp_all add: glyph_lowercase_def glyph_letters_def glyph_digits_def glyph_punctuation_def
      glyph_unknown_def)

lemma glyph_rows_in_tables:
  "glyph_rows c \<in> set (glyph_unknown # glyph_lowercase @ glyph_letters @ glyph_digits @ map snd glyph_punctuation)"
proof -
  have "map_of glyph_punctuation k = Some rows \<Longrightarrow> rows \<in> snd ` set glyph_punctuation" for k rows
    by (force dest: map_of_SomeD)
  then show ?thesis
    using glyph_tables(1-3) by (auto simp: glyph_rows_def Let_def split: option.splits)
qed

lemma length_glyph_rows [simp]: "length (glyph_rows c) = 7"
  using glyph_rows_in_tables [of c] glyph_tables(4) by (auto simp: list_all_iff)

section \<open>Text stays in its box\<close>

lemma draw_character_pixels:
  assumes "length canvas = nat (kLogicalWidth * kLogicalHeight)" "0 < scale" "0 \<le> x"
    "x + 5 * scale \<le> kLogicalWidth"
  shows "\<exists>canvas'. draw_character canvas x y ch scale c = Some canvas' \<and> length canvas' = length canvas \<and>
    (\<forall>px py. 0 \<le> px \<and> px < kLogicalWidth \<and> 0 \<le> py \<and> py < kLogicalHeight \<longrightarrow>
       pixel kLogicalWidth canvas' px py =
         (if list_ex (\<lambda>r. rect_contains r px py) (glyph_squares (glyph_rows ch) x y scale) then c
          else pixel kLogicalWidth canvas px py))"
proof -
  let ?rcs = "map (\<lambda>r. (r, c)) (glyph_squares (glyph_rows ch) x y scale)"
  have "list_all (\<lambda>rc. fill_defined kLogicalWidth kLogicalHeight (fst rc) \<and> snd rc = c) ?rcs"
    using glyph_squares_defined [OF _ assms(2-4)] by (auto simp: list_all_iff)
  from ui.fill_all_pixels [OF assms(1) this] show ?thesis
    by (simp add: draw_character_def list_ex_iff)
qed

text \<open>A glyph at \<open>(x, y)\<close> covers the pixel whose cell is a set bit of its bitmap.\<close>

definition glyph_covers :: "char \<Rightarrow> int \<Rightarrow> int \<Rightarrow> int \<Rightarrow> int \<Rightarrow> int \<Rightarrow> bool" where
  "glyph_covers ch x y scale px py = bitmap_glyph_pixel ch ((px - x) div scale) ((py - y) div scale)"

lemma cell_div:
  assumes "0 < (s::int)"
  shows "x + int k * s \<le> p \<and> p < x + int k * s + s \<longleftrightarrow> (p - x) div s = int k"
proof
  assume "x + int k * s \<le> p \<and> p < x + int k * s + s"
  then show "(p - x) div s = int k"
    using int_div_pos_eq [of "p - x" s "int k" "p - x - int k * s"] by (simp add: mult.commute)
next
  assume "(p - x) div s = int k"
  then show "x + int k * s \<le> p \<and> p < x + int k * s + s"
    using div_mult_mod_eq [of "p - x" s] pos_mod_bound [OF assms, of "p - x"]
      pos_mod_sign [OF assms, of "p - x"] by simp
qed

lemma glyph_squares_ex:
  "(\<exists>r\<in>set (glyph_squares rows x y scale). P r) \<longleftrightarrow>
    (\<exists>row<7. \<exists>column<5. glyph_bit rows column row \<and>
       P (Rect (x + int column * scale) (y + int row * scale) scale scale))"
  by (auto simp: glyph_squares_def Bex_def)

lemma glyph_squares_cover:
  assumes "0 < scale"
  shows "list_ex (\<lambda>r. rect_contains r px py) (glyph_squares (glyph_rows ch) x y scale) \<longleftrightarrow>
    glyph_covers ch x y scale px py"
proof -
  have "list_ex (\<lambda>r. rect_contains r px py) (glyph_squares (glyph_rows ch) x y scale) \<longleftrightarrow>
    (\<exists>row<7. \<exists>column<5. glyph_bit (glyph_rows ch) column row \<and>
       (x + int column * scale \<le> px \<and> px < x + int column * scale + scale) \<and>
       (y + int row * scale \<le> py \<and> py < y + int row * scale + scale))"
    unfolding list_ex_iff glyph_squares_ex rect_contains.simps by blast
  also have "\<dots> \<longleftrightarrow> (\<exists>row<7. \<exists>column<5. glyph_bit (glyph_rows ch) column row \<and>
       (px - x) div scale = int column \<and> (py - y) div scale = int row)"
    unfolding cell_div [OF assms] ..
  also have "\<dots> \<longleftrightarrow> glyph_covers ch x y scale px py"
  proof
    assume "\<exists>row<7. \<exists>column<5. glyph_bit (glyph_rows ch) column row \<and>
       (px - x) div scale = int column \<and> (py - y) div scale = int row"
    then show "glyph_covers ch x y scale px py"
      by (auto simp: glyph_covers_def bitmap_glyph_pixel_def glyph_bit_def)
  next
    assume c: "glyph_covers ch x y scale px py"
    define column where "column = nat ((px - x) div scale)"
    define row where "row = nat ((py - y) div scale)"
    from c have "column < 5" "row < 7" "(px - x) div scale = int column" "(py - y) div scale = int row"
      "glyph_bit (glyph_rows ch) column row"
      by (auto simp: glyph_covers_def bitmap_glyph_pixel_def glyph_bit_def column_def row_def split: if_splits)
    then show "\<exists>row<7. \<exists>column<5. glyph_bit (glyph_rows ch) column row \<and>
       (px - x) div scale = int column \<and> (py - y) div scale = int row" by blast
  qed
  finally show ?thesis .
qed

lemma draw_characters_pixels:
  assumes "length canvas = nat (kLogicalWidth * kLogicalHeight)" "0 < scale" "0 \<le> x"
    "cs = [] \<or> x + (int (i + length cs) * 6 - 1) * scale \<le> kLogicalWidth"
  shows "\<exists>canvas'. draw_characters canvas x y i cs scale c = Some canvas' \<and>
    length canvas' = length canvas \<and>
    (\<forall>px py. 0 \<le> px \<and> px < kLogicalWidth \<and> 0 \<le> py \<and> py < kLogicalHeight \<longrightarrow>
       pixel kLogicalWidth canvas' px py =
         (if \<exists>k<length cs. glyph_covers (cs ! k) (x + int (i + k) * 6 * scale) y scale px py then c
          else pixel kLogicalWidth canvas px py))"
  using assms(1,4)
proof (induction cs arbitrary: canvas i)
  case (Cons ch cs)
  let ?x = "x + int i * kBitmapGlyphAdvance * scale"
  have "(int i * 6 + 5) * scale \<le> (int (i + length (ch # cs)) * 6 - 1) * scale"
    using assms(2) by (intro mult_right_mono) simp_all
  moreover have "?x + 5 * scale = x + (int i * 6 + 5) * scale"
    by (simp add: kBitmapGlyphAdvance_def algebra_simps)
  ultimately have fits: "?x + 5 * scale \<le> kLogicalWidth" using Cons.prems(2) by simp
  have left: "0 \<le> ?x" using assms(2,3) by (simp add: kBitmapGlyphAdvance_def)
  obtain canvas1 where 1: "draw_character canvas ?x y ch scale c = Some canvas1"
    "length canvas1 = length canvas"
    "\<forall>px py. 0 \<le> px \<and> px < kLogicalWidth \<and> 0 \<le> py \<and> py < kLogicalHeight \<longrightarrow>
       pixel kLogicalWidth canvas1 px py =
         (if glyph_covers ch ?x y scale px py then c else pixel kLogicalWidth canvas px py)"
    using draw_character_pixels [OF Cons.prems(1) assms(2) left fits, of y ch c]
    unfolding glyph_squares_cover [OF assms(2)] by blast
  have rest: "cs = [] \<or> x + (int (i + 1 + length cs) * 6 - 1) * scale \<le> kLogicalWidth"
    using Cons.prems(2) by simp
  obtain canvas2 where 2: "draw_characters canvas1 x y (i + 1) cs scale c = Some canvas2"
    "length canvas2 = length canvas1"
    "\<forall>px py. 0 \<le> px \<and> px < kLogicalWidth \<and> 0 \<le> py \<and> py < kLogicalHeight \<longrightarrow>
       pixel kLogicalWidth canvas2 px py =
         (if \<exists>k<length cs. glyph_covers (cs ! k) (x + int (i + 1 + k) * 6 * scale) y scale px py then c
          else pixel kLogicalWidth canvas1 px py)"
    using Cons.IH [OF _ rest, of canvas1] Cons.prems(1) 1(2) by auto
  have ex: "(\<exists>k<length (ch # cs). glyph_covers ((ch # cs) ! k) (x + int (i + k) * 6 * scale) y scale px py) \<longleftrightarrow>
      glyph_covers ch ?x y scale px py \<or>
      (\<exists>k<length cs. glyph_covers (cs ! k) (x + int (i + 1 + k) * 6 * scale) y scale px py)" for px py
    by (simp add: Ex_less_Suc2 kBitmapGlyphAdvance_def add.assoc add.left_commute)
  show ?case
  proof (intro exI conjI allI impI)
    show "draw_characters canvas x y i (ch # cs) scale c = Some canvas2" using 1(1) 2(1) by simp
    show "length canvas2 = length canvas" using 1(2) 2(2) by simp
    fix px py
    assume b: "0 \<le> px \<and> px < kLogicalWidth \<and> 0 \<le> py \<and> py < kLogicalHeight"
    show "pixel kLogicalWidth canvas2 px py =
       (if \<exists>k<length (ch # cs). glyph_covers ((ch # cs) ! k) (x + int (i + k) * 6 * scale) y scale px py
        then c else pixel kLogicalWidth canvas px py)"
      unfolding ex using 1(3) [rule_format, OF b] 2(3) [rule_format, OF b] by metis
  qed
qed simp

lemma text_box: "cs = [] \<or> x + text_width cs scale \<le> W \<Longrightarrow> cs = [] \<or> x + (int (0 + length cs) * 6 - 1) * scale \<le> W"
  by (cases "cs = []") (simp_all add: text_width_def kBitmapGlyphAdvance_def algebra_simps)

lemma draws_text:
  assumes "0 < scale" "0 \<le> x" "display_ascii s = [] \<or> x + text_width (display_ascii s) scale \<le> 1280"
  shows "draws kLogicalWidth kLogicalHeight (\<lambda>canvas. draw_text canvas x y s scale c)"
proof (rule drawsI)
  fix canvas :: Canvas
  assume "length canvas = nat (kLogicalWidth * kLogicalHeight)"
  from draw_characters_pixels [OF this assms(1,2) text_box, of "display_ascii s" y c] assms(3)
  show "\<exists>canvas'. draw_text canvas x y s scale c = Some canvas' \<and> length canvas' = length canvas"
    unfolding draw_text_def by (auto simp: logical_size)
qed

lemma draws_centered_text:
  assumes "0 < scale" "0 \<le> rect_x bounds" "rect_x bounds + rect_width bounds \<le> 1280"
    "text_width (display_ascii s) scale \<le> rect_width bounds"
  shows "draws kLogicalWidth kLogicalHeight (\<lambda>canvas. draw_centered_text canvas bounds s scale c)"
proof -
  let ?w = "text_width (display_ascii s) scale"
  have "(rect_width bounds - ?w) sdiv 2 = (rect_width bounds - ?w) div 2"
    using assms(4) by (simp add: sdiv_nonneg)
  then show ?thesis
    using assms unfolding draw_centered_text_def Let_def by (intro draws_text) auto
qed

text \<open>
  Text whose bitmap fits between the left margin and the right edge is drawn without
  undefined behaviour, and paints exactly the set bits of its glyphs: character \<open>k\<close> of the
  displayed text at \<open>x + 6 k scale\<close>, each bit a \<open>scale\<close> by \<open>scale\<close> square.
\<close>

theorem draw_text_exact:
  assumes "length canvas = 1280 * 480" "0 < scale" "0 \<le> x"
    "x + text_width (display_ascii s) scale \<le> 1280"
  shows "\<exists>canvas'. draw_text canvas x y s scale c = Some canvas' \<and> length canvas' = length canvas \<and>
    (\<forall>px py. 0 \<le> px \<and> px < 1280 \<and> 0 \<le> py \<and> py < 480 \<longrightarrow> pixel 1280 canvas' px py =
       (if \<exists>k<length (display_ascii s).
             glyph_covers (display_ascii s ! k) (x + int k * 6 * scale) y scale px py
        then c else pixel 1280 canvas px py))"
proof -
  have len: "length canvas = nat (kLogicalWidth * kLogicalHeight)"
    using assms(1) by (simp add: logical_size)
  have "display_ascii s = [] \<or> x + (int (0 + length (display_ascii s)) * 6 - 1) * scale \<le> kLogicalWidth"
  proof (cases "display_ascii s = []")
    case False
    then show ?thesis
      using assms(4) by (simp add: text_width_def kBitmapGlyphAdvance_def logical_size algebra_simps)
  qed simp
  from draw_characters_pixels [OF len assms(2,3) this, of y c] show ?thesis
    unfolding draw_text_def logical_size by simp
qed

lemma draw_text_exact_witness:
  "\<exists>canvas'. draw_text (replicate (1280 * 480) 0) 1200 470 ''WIFI'' 2 9 = Some canvas' \<and>
    length canvas' = length (replicate (1280 * 480) (0 :: u16)) \<and>
    (\<forall>px py. 0 \<le> px \<and> px < 1280 \<and> 0 \<le> py \<and> py < 480 \<longrightarrow> pixel 1280 canvas' px py =
       (if \<exists>k<length (display_ascii ''WIFI'').
             glyph_covers (display_ascii ''WIFI'' ! k) (1200 + int k * 6 * 2) 470 2 px py
        then 9 else pixel 1280 (replicate (1280 * 480) 0) px py))"
proof (rule draw_text_exact)
  have "display_ascii ''WIFI'' = ''WIFI''" by code_simp
  then show "1200 + text_width (display_ascii ''WIFI'') 2 \<le> 1280"
    by (simp add: text_width_def kBitmapGlyphAdvance_def)
  show "length (replicate (1280 * 480) (0 :: u16)) = 1280 * 480" by (rule length_replicate)
qed simp_all

section \<open>Fitting text\<close>

lemma text_width_mono: "length s \<le> length t \<Longrightarrow> 0 < scale \<Longrightarrow> text_width s scale \<le> text_width t scale"
proof (cases "s = []")
  case True
  assume "0 < scale"
  then have "t \<noteq> [] \<Longrightarrow> scale * 1 \<le> scale * (int (length t) * 6)"
    by (intro mult_left_mono) (cases t, auto)
  then show ?thesis using True by (auto simp: text_width_def kBitmapGlyphAdvance_def algebra_simps)
next
  case False
  assume "length s \<le> length t" "0 < scale"
  then show ?thesis using False
    by (auto simp: text_width_def kBitmapGlyphAdvance_def intro!: mult_right_mono)
qed

lemma fit_text_width_bounds:
  assumes "0 < scale" "0 \<le> maximum"
  shows "text_width (fit_text_width s maximum scale) scale \<le> maximum \<and>
    (\<exists>n\<le>length (display_ascii s).
       fit_text_width s maximum scale = take n (display_ascii s) \<or>
       fit_text_width s maximum scale = take n (display_ascii s) @ ''...'')"
proof (cases "text_width (display_ascii s) scale \<le> maximum")
  case True
  then show ?thesis by (auto simp: fit_text_width_def Let_def)
next
  case False
  let ?s = "display_ascii s"
  define capacity where
    "capacity = (if 0 < maximum then nat ((maximum + scale) sdiv (kBitmapGlyphAdvance * scale)) else 0)"
  have result: "fit_text_width s maximum scale =
      (if capacity = 0 then [] else if capacity \<le> 3 then substr ?s 0 capacity
       else take (capacity - 3) ?s @ replicate (capacity - 3 - length ?s) (char_of (0 :: nat)) @ ''...'')"
    using False by (simp add: fit_text_width_def Let_def capacity_def)
  have cap: "int capacity * (6 * scale) \<le> maximum + scale" if "0 < maximum"
  proof -
    have "int capacity = (maximum + scale) div (6 * scale)"
      using that assms(1) by (simp add: capacity_def kBitmapGlyphAdvance_def sdiv_nonneg pos_imp_zdiv_nonneg_iff)
    moreover have "0 \<le> (maximum + scale) mod (6 * scale)" using assms(1) by simp
    moreover have "int capacity * (6 * scale) = (maximum + scale) div (6 * scale) * (6 * scale)"
      using calculation(1) by simp
    ultimately show ?thesis
      using div_mult_mod_eq [of "maximum + scale" "6 * scale"] by linarith
  qed
  have long: "capacity < length ?s" if "0 < maximum"
  proof -
    have "maximum + scale < int (length ?s) * (6 * scale)"
      using False assms by (auto simp: text_width_def kBitmapGlyphAdvance_def algebra_simps split: if_splits)
    then have "int capacity * (6 * scale) < int (length ?s) * (6 * scale)" using cap [OF that] by linarith
    then show ?thesis using assms(1) by (simp add: mult_less_cancel_right)
  qed
  have narrow: "text_width t scale \<le> maximum" if "length t \<le> capacity" "t \<noteq> []" for t
  proof -
    have "0 < maximum" using that by (cases "0 < maximum") (auto simp: capacity_def)
    moreover have "int (length t) * (6 * scale) \<le> int capacity * (6 * scale)"
      using that(1) assms(1) by (intro mult_right_mono) auto
    ultimately show ?thesis
      using cap that(2) by (auto simp: text_width_def kBitmapGlyphAdvance_def algebra_simps)
  qed
  show ?thesis
  proof (cases "capacity = 0")
    case True
    then show ?thesis using result assms(2) by (auto simp: text_width_def intro!: exI [of _ 0])
  next
    case nz: False
    then have len: "capacity < length ?s" using long by (auto simp: capacity_def split: if_splits)
    show ?thesis
    proof (cases "capacity \<le> 3")
      case True
      then have r: "fit_text_width s maximum scale = take capacity ?s"
        using result nz by (simp add: substr_def)
      have "take capacity ?s \<noteq> []" using len nz by (cases ?s) auto
      then have "text_width (take capacity ?s) scale \<le> maximum" by (intro narrow) simp_all
      then show ?thesis using r len by (auto intro!: exI [of _ capacity])
    next
      case False
      then have r: "fit_text_width s maximum scale = take (capacity - 3) ?s @ ''...''"
        using result nz len by simp
      have "length (take (capacity - 3) ?s @ ''...'') \<le> capacity" using False by simp
      note narrow [OF this]
      then show ?thesis using r len by (auto intro!: exI [of _ "capacity - 3"])
    qed
  qed
qed

text \<open>
  Fitting a text to a width never overflows it, and only shortens: the result is the
  displayed text, a prefix of it, or a prefix of it followed by an ellipsis.
\<close>

theorem fit_text_width_fits:
  assumes "0 < scale" "0 \<le> maximum"
  shows "text_width (fit_text_width s maximum scale) scale \<le> maximum \<and>
    (\<exists>n\<le>length (display_ascii s).
       fit_text_width s maximum scale = take n (display_ascii s) \<or>
       fit_text_width s maximum scale = take n (display_ascii s) @ ''...'')"
  by (rule fit_text_width_bounds [OF assms])

lemma fit_text_width_fits_witness:
  "text_width (fit_text_width ''RETRO DECK'' 100 3) 3 \<le> 100 \<and>
    (\<exists>n\<le>length (display_ascii ''RETRO DECK'').
       fit_text_width ''RETRO DECK'' 100 3 = take n (display_ascii ''RETRO DECK'') \<or>
       fit_text_width ''RETRO DECK'' 100 3 = take n (display_ascii ''RETRO DECK'') @ ''...'')"
  by (rule fit_text_width_fits) simp_all

lemma fit_scale_from_largest:
  "minimum \<le> scale \<Longrightarrow>
    (let r = fit_scale_from shown m scale minimum in
     minimum \<le> r \<and> r \<le> scale \<and> (r = minimum \<or> text_width shown r \<le> m) \<and>
     (\<forall>k. r < k \<and> k \<le> scale \<longrightarrow> m < text_width shown k))"
proof (induction shown m scale minimum rule: fit_scale_from.induct)
  case (1 shown m scale minimum)
  show ?case
  proof (cases "text_width shown scale \<le> m")
    case True
    then show ?thesis using "1.prems" by (subst fit_scale_from.simps) auto
  next
    case False
    show ?thesis
    proof (cases "minimum \<le> scale - 1")
      case True
      have step: "fit_scale_from shown m scale minimum = fit_scale_from shown m (scale - 1) minimum"
        using "1.prems" False by (subst fit_scale_from.simps) simp
      have above: "m < text_width shown k" if "scale - 1 < k" "k \<le> scale" for k
      proof -
        have "k = scale" using that by simp
        then show ?thesis using False by simp
      qed
      let ?r = "fit_scale_from shown m (scale - 1) minimum"
      have ih: "minimum \<le> ?r" "?r \<le> scale - 1" "?r = minimum \<or> text_width shown ?r \<le> m"
        "\<And>k. ?r < k \<Longrightarrow> k \<le> scale - 1 \<Longrightarrow> m < text_width shown k"
        using "1.IH" [OF "1.prems" False True] unfolding Let_def by blast+
      have "m < text_width shown k" if "?r < k" "k \<le> scale" for k
        using ih(4) [of k] above [of k] that by (cases "k \<le> scale - 1") auto
      then show ?thesis using ih(1-3) unfolding step Let_def by auto
    next
      case no: False
      then have "scale = minimum" using "1.prems" by simp
      then have "fit_scale_from shown m scale minimum = minimum"
        using False by (subst fit_scale_from.simps, subst fit_scale_from.simps) simp
      then show ?thesis using \<open>scale = minimum\<close> by simp
    qed
  qed
qed

text \<open>
  The scale search returns the largest scale from the preferred one down at which the text
  fits, and the minimum when none does.
\<close>

theorem fit_text_scale_largest:
  assumes "minimum \<le> preferred"
  shows "let r = fit_text_scale s m preferred minimum in
    minimum \<le> r \<and> r \<le> preferred \<and> (r = minimum \<or> text_width (display_ascii s) r \<le> m) \<and>
    (\<forall>k. r < k \<and> k \<le> preferred \<longrightarrow> m < text_width (display_ascii s) k)"
  unfolding fit_text_scale_def by (rule fit_scale_from_largest [OF assms])

lemma fit_text_scale_largest_witness:
  "let r = fit_text_scale ''NES'' 50 5 1 in
    1 \<le> r \<and> r \<le> 5 \<and> (r = 1 \<or> text_width (display_ascii ''NES'') r \<le> 50) \<and>
    (\<forall>k. r < k \<and> k \<le> 5 \<longrightarrow> 50 < text_width (display_ascii ''NES'') k)"
  by (rule fit_text_scale_largest) simp

end
