(* ===== verification/Menu_Credits.thy ===== *)
theory Menu_Credits
  imports Menu_UI Posix_World
begin

section \<open>The credits screen (\<open>src/menu_credits.cpp\<close>)\<close>

text \<open>
  The credits file, the wrapping of its text into crawl lines with their bitmaps, the colour
  arithmetic of the crawl and the whole reduced-motion screen.  The perspective projection of
  the moving crawl computes in \<open>double\<close> and is not modelled.
\<close>

definition kMaximumCreditsBytes :: nat where "kMaximumCreditsBytes = 32768"

definition kMaximumCredits :: nat where "kMaximumCredits = 64"

definition kCrawlMaximumLineWidth :: int where "kCrawlMaximumLineWidth = 1040"

definition kCrawlLineAdvance :: int where "kCrawlLineAdvance = 44"

definition kCrawlSectionGap :: int where "kCrawlSectionGap = 28"

definition kCrawlFadeInvisibleY :: int where "kCrawlFadeInvisibleY = 104"

definition kCrawlFadeOpaqueY :: int where "kCrawlFadeOpaqueY = 210"

definition kCreditsCrawlTextScale :: int where "kCreditsCrawlTextScale = 4"

record ProjectCredit =
  project :: string
  role :: string
  license :: string

record CreditsCrawlLine =
  line_text :: string
  source_y :: int
  source_width :: int
  source_height :: int
  line_pixels :: "nat list"

record CreditsCrawl =
  crawl_lines :: "CreditsCrawlLine list"
  static_lines :: "string list"
  content_height :: int

subsection \<open>Loading the credits file\<close>

definition valid_field :: "string \<Rightarrow> nat \<Rightarrow> bool" where
  "valid_field field maximum =
     (field \<noteq> [] \<and> length field \<le> maximum \<and>
      list_all (\<lambda>c. \<not> (byte_of c < 0x20 \<or> 0x7e < byte_of c \<or> byte_of c = 9)) field)"

fun credits_lines ::
  "string list \<Rightarrow> nat \<Rightarrow> ProjectCredit list \<Rightarrow> message + ProjectCredit list" where
  "credits_lines [] n loaded = Inr loaded"
| "credits_lines (raw # rest) n loaded =
     (let line_number = n + 1;
          line = (if raw \<noteq> [] \<and> byte_of (raw ! (length raw - 1)) = 13
                  then take (length raw - 1) raw else raw)
      in if line = [] \<or> line ! 0 = CHR ''#'' then credits_lines rest line_number loaded
         else
           (let fs = split_tabs line in
            if length fs \<noteq> 3 \<or> \<not> valid_field (fs ! 0) 48 \<or> \<not> valid_field (fs ! 1) 64 \<or>
               \<not> valid_field (fs ! 2) 64
            then Inl (Msg (''invalid credits row '' @ decimal line_number))
            else if fs ! 0 \<in> set (map project loaded)
            then Inl (Msg (''duplicate credits project '' @ fs ! 0))
            else
              (let loaded' = loaded @ [\<lparr>project = fs ! 0, role = fs ! 1, license = fs ! 2\<rparr>] in
               if kMaximumCredits < length loaded'
               then Inl (Msg ''credits contain more than 64 projects'')
               else credits_lines rest line_number loaded')))"

text \<open>The model has no symbolic links, so \<open>lstat\<close> is \<open>sys_stat\<close>.\<close>

definition load_project_credits :: "string \<Rightarrow> world \<Rightarrow> (message + ProjectCredit list) \<times> world" where
  "load_project_credits path w =
     (if path = [] \<or> path ! 0 \<noteq> CHR ''/'' then (Inl (Msg ''credits path must be absolute''), w)
      else
        (case sys_stat path w of
           (None, w1) \<Rightarrow> (Inl (errno_message (''cannot inspect credits '' @ path) w1), w1)
         | (Some (is_regular, file_size), w1) \<Rightarrow>
             if \<not> is_regular \<or> file_size = 0 \<or> kMaximumCreditsBytes < file_size
             then (Inl (Msg ''credits must be a non-empty regular file no larger than 32 KiB''), w1)
             else
               (case stream_read path w1 of
                  (None, w2) \<Rightarrow> (Inl (Msg (''cannot open credits '' @ path)), w2)
                | (Some input, w2) \<Rightarrow>
                    (case credits_lines (stream_lines input) 0 [] of
                       Inl m \<Rightarrow> (Inl m, w2)
                     | Inr loaded \<Rightarrow>
                         if snd input \<or> loaded = []
                         then (Inl (Msg (if snd input then ''cannot read credits '' @ path
                                         else ''credits contain no projects'')), w2)
                         else (Inr loaded, w2)))))"

subsection \<open>The crawl\<close>

definition crawl_maximum_characters :: nat where
  "crawl_maximum_characters =
     nat ((kCrawlMaximumLineWidth + kCreditsCrawlTextScale) div
          (kBitmapGlyphAdvance * kCreditsCrawlTextScale))"

lemma crawl_maximum_characters_43: "crawl_maximum_characters = 43"
  by (simp add: crawl_maximum_characters_def kCrawlMaximumLineWidth_def kCreditsCrawlTextScale_def
      kBitmapGlyphAdvance_def)

definition crawl_split :: "string \<Rightarrow> nat" where
  "crawl_split remaining =
     (case rfind_char CHR '' '' remaining crawl_maximum_characters of
        None \<Rightarrow> crawl_maximum_characters
      | Some split \<Rightarrow> if split = 0 then crawl_maximum_characters else split)"

lemma crawl_split_bounds: "0 < crawl_split s" "crawl_split s \<le> crawl_maximum_characters"
  using rfind_char_Some(1) [of "CHR '' ''" s crawl_maximum_characters]
  by (auto simp: crawl_split_def crawl_maximum_characters_43 split: option.split)

function wrap_remaining :: "string \<Rightarrow> string list" where
  "wrap_remaining remaining =
     (let r = dropWhile (\<lambda>c. c = CHR '' '') remaining in
      if r = [] then []
      else if text_width r kCreditsCrawlTextScale \<le> kCrawlMaximumLineWidth then [r]
      else substr r 0 (crawl_split r) # wrap_remaining (drop (crawl_split r) r))"
  by pat_completeness auto
termination
proof (relation "measure length")
  fix remaining r
  assume r: "r = dropWhile (\<lambda>c. c = CHR '' '') remaining" "r \<noteq> []"
  have "length (drop (crawl_split r) r) < length r" using crawl_split_bounds(1) [of r] r(2) by simp
  also have "length r \<le> length remaining" unfolding r(1) by (rule length_dropWhile_le)
  finally show "(drop (crawl_split r) r, remaining) \<in> measure length" by simp
qed simp

declare wrap_remaining.simps [simp del]

definition wrap_crawl_text :: "string \<Rightarrow> string list" where
  "wrap_crawl_text input = wrap_remaining (display_ascii input)"

text \<open>
  The bitmap of a line: the set bits of each character, row by row, filled as four rows of
  four pixels.  \<open>crawl_spans\<close> lists the filled ranges in program order.
\<close>

definition crawl_spans :: "string \<Rightarrow> int \<Rightarrow> (int \<times> int) list" where
  "crawl_spans s width =
     [(pixel_y * width + left, pixel_y * width + left + kCreditsCrawlTextScale).
        character \<leftarrow> [0..<length s], row \<leftarrow> [0..<7], column \<leftarrow> [0..<5],
        bitmap_glyph_pixel (s ! character) (int column) (int row),
        left \<leftarrow> [(int character * kBitmapGlyphAdvance + int column) * kCreditsCrawlTextScale],
        pixel_y \<leftarrow> [int row * kCreditsCrawlTextScale..
                    int row * kCreditsCrawlTextScale + kCreditsCrawlTextScale - 1]]"

definition crawl_bitmap :: "string \<Rightarrow> int \<Rightarrow> int \<Rightarrow> nat list" where
  "crawl_bitmap s width height =
     foldl (\<lambda>bitmap (lo, hi). fill_range bitmap (nat lo) (nat hi) 1)
       (replicate (nat (width * height)) 0) (crawl_spans s width)"

definition crawl_line :: "string \<Rightarrow> int \<Rightarrow> CreditsCrawlLine" where
  "crawl_line s y =
     (let width = text_width s kCreditsCrawlTextScale;
          height = kBitmapGlyphHeight * kCreditsCrawlTextScale
      in \<lparr>line_text = s, source_y = y, source_width = width, source_height = height,
          line_pixels = crawl_bitmap s width height\<rparr>)"

fun append_lines :: "string list \<Rightarrow> CreditsCrawlLine list \<times> int \<Rightarrow> CreditsCrawlLine list \<times> int" where
  "append_lines [] (ls, cursor) = (ls, cursor)"
| "append_lines (s # ss) (ls, cursor) =
     append_lines ss (ls @ [crawl_line s cursor], cursor + kCrawlLineAdvance)"

definition append_crawl_text :: "string \<Rightarrow> CreditsCrawlLine list \<times> int \<Rightarrow> CreditsCrawlLine list \<times> int" where
  "append_crawl_text s = append_lines (wrap_crawl_text s)"

definition section_gap :: "CreditsCrawlLine list \<times> int \<Rightarrow> CreditsCrawlLine list \<times> int" where
  "section_gap st = (fst st, snd st + kCrawlSectionGap)"

definition append_credit :: "ProjectCredit \<Rightarrow> CreditsCrawlLine list \<times> int \<Rightarrow> CreditsCrawlLine list \<times> int" where
  "append_credit c st =
     section_gap (append_crawl_text (license c) (append_crawl_text (role c)
       (append_crawl_text (project c) st)))"

definition make_project_credits_crawl :: "ProjectCredit list \<Rightarrow> CreditsCrawl" where
  "make_project_credits_crawl credits =
     (if credits = [] then \<lparr>crawl_lines = [], static_lines = [], content_height = 0\<rparr>
      else
        (let start = section_gap (append_crawl_text ''BUILT ON FREE SOFTWARE''
               (append_crawl_text ''RETRO DECK'' ([], 0)));
             body = foldl (\<lambda>st c. append_credit c st) start credits;
             archive = section_gap (append_crawl_text ''/mnt/data/nes-deck/licenses''
               (append_crawl_text ''LICENSE TEXT ARCHIVE'' body));
             (ls, cursor) = append_crawl_text ''THANK YOU'' archive
         in \<lparr>crawl_lines = ls,
             static_lines = map (\<lambda>c. display_ascii (project c @ '' / '' @ license c)) credits,
             content_height = cursor\<rparr>))"

subsection \<open>Colours of the crawl\<close>

definition crawl_alpha :: "int \<Rightarrow> int" where
  "crawl_alpha screen_y =
     (if screen_y \<le> kCrawlFadeInvisibleY then 0
      else if kCrawlFadeOpaqueY \<le> screen_y then 256
      else ((screen_y - kCrawlFadeInvisibleY) * 256) sdiv (kCrawlFadeOpaqueY - kCrawlFadeInvisibleY))"

definition red_channel :: "u16 \<Rightarrow> int" where
  "red_channel p = uint (drop_bit 11 p AND 0x1f)"

definition green_channel :: "u16 \<Rightarrow> int" where
  "green_channel p = uint (drop_bit 5 p AND 0x3f)"

definition blue_channel :: "u16 \<Rightarrow> int" where
  "blue_channel p = uint (p AND 0x1f)"

definition blend_channel :: "int \<Rightarrow> int \<Rightarrow> int \<Rightarrow> int" where
  "blend_channel foreground background alpha =
     drop_bit 8 (foreground * alpha + background * (256 - alpha) + 128)"

definition blend_rgb565 :: "u16 \<Rightarrow> u16 \<Rightarrow> int \<Rightarrow> u16" where
  "blend_rgb565 foreground background alpha =
     (let r = blend_channel (red_channel foreground) (red_channel background) alpha;
          g = blend_channel (green_channel foreground) (green_channel background) alpha;
          b = blend_channel (blue_channel foreground) (blue_channel background) alpha
      in word_of_int ((push_bit 11 r OR push_bit 5 g) OR b))"

subsection \<open>Drawing\<close>

definition starfield :: "u16 \<Rightarrow> (Rect \<times> u16) list" where
  "starfield c =
     [(Rect (int ((index * 193 + 47) mod 1280)) (int ((index * 83 + 29) mod 480)) s s, c).
        index \<leftarrow> [0..<96 :: nat], index mod 7 \<noteq> 0, s \<leftarrow> [if index mod 11 = 0 then 2 else 1]]"

definition draw_starfield :: "u16 \<Rightarrow> Canvas \<Rightarrow> Canvas option" where
  "draw_starfield c = fill_all fill_rect (starfield c)"

definition draw_static_line :: "string list \<Rightarrow> nat \<Rightarrow> int \<Rightarrow> u16 \<Rightarrow> Canvas \<Rightarrow> Canvas option" where
  "draw_static_line ls index column_width text_color canvas =
     (let column = index div 16; row = index mod 16;
          shown = fit_text_width (ls ! index) (column_width - 20) 1
      in draw_text canvas (24 + int column * column_width) (78 + int row * 22) shown 1 text_color)"

definition draw_static_credits :: "CreditsCrawl \<Rightarrow> u16 \<Rightarrow> u16 \<Rightarrow> u16 \<Rightarrow> Canvas \<Rightarrow> Canvas option" where
  "draw_static_credits crawl accent text_color muted =
     (let columns = max 1 ((length (static_lines crawl) + 16 - 1) div 16);
          column_width = (kLogicalWidth - 24 * 2) sdiv int columns
      in draw_seq
           ([\<lambda>canvas. draw_text canvas 20 20 ''FOSS CREDITS'' 2 accent,
             \<lambda>canvas. draw_text canvas 20 48 ''PROJECT / LICENSE'' 1 muted] @
            map (\<lambda>index. draw_static_line (static_lines crawl) index column_width text_color)
              [0..<length (static_lines crawl)] @
            [\<lambda>canvas. draw_text canvas 20 458 ''/mnt/data/nes-deck/licenses'' 1 muted]))"

definition close_squares :: "Rect \<Rightarrow> u16 \<Rightarrow> (Rect \<times> u16) list" where
  "close_squares bounds c =
     (let center_x = rect_x bounds + rect_width bounds sdiv 2;
          center_y = rect_y bounds + rect_height bounds sdiv 2
      in concat (map (\<lambda>offset. [(Rect (center_x + offset) (center_y + offset) 4 4, c),
                               (Rect (center_x + offset) (center_y - offset) 4 4, c)])
           [-12, -8, -4, 0, 4, 8, 12]))"

definition draw_close :: "Rect \<Rightarrow> u16 \<Rightarrow> Canvas \<Rightarrow> Canvas option" where
  "draw_close bounds c = fill_all fill_rect (close_squares bounds c)"

definition close_button :: Rect where
  "close_button = Rect 1212 12 56 56"

text \<open>\<open>render_project_credits\<close> with \<open>reduced_motion\<close> set.\<close>

definition render_project_credits_reduced ::
  "CreditsCrawl \<Rightarrow> u16 \<Rightarrow> u16 \<Rightarrow> u16 \<Rightarrow> u16 \<Rightarrow> Canvas option" where
  "render_project_credits_reduced crawl background accent text_color muted =
     draw_seq
       [\<lambda>canvas. if crawl_lines crawl = [] \<or> content_height crawl \<le> 0
                 then draw_centered_text canvas (Rect 80 180 1120 120) ''CREDITS UNAVAILABLE'' 3 text_color
                 else draw_static_credits crawl accent text_color muted canvas,
        draw_close close_button muted]
       (replicate (nat (kLogicalWidth * kLogicalHeight)) background)"

definition credits_target_at :: "int \<Rightarrow> int \<Rightarrow> int" where
  "credits_target_at x y = (if rect_contains close_button x y then 0 else -1)"

section \<open>Wrapping loses no character\<close>

lemma filter_dropWhile_space: "filter (\<lambda>c. c \<noteq> a) (dropWhile (\<lambda>c. c = a) s) = filter (\<lambda>c. c \<noteq> a) s"
  by (induction s) auto

lemma text_width_crawl: "text_width s kCreditsCrawlTextScale \<le> kCrawlMaximumLineWidth \<longleftrightarrow> length s \<le> 43"
  by (auto simp: text_width_def kCreditsCrawlTextScale_def kCrawlMaximumLineWidth_def kBitmapGlyphAdvance_def)

lemma wrap_remaining_lines:
  "list_all (\<lambda>l. l \<noteq> [] \<and> length l \<le> 43 \<and> hd l \<noteq> CHR '' '') (wrap_remaining s) \<and>
   filter (\<lambda>c. c \<noteq> CHR '' '') (concat (wrap_remaining s)) = filter (\<lambda>c. c \<noteq> CHR '' '') s"
proof (induction s rule: wrap_remaining.induct)
  case (1 s)
  define r where "r = dropWhile (\<lambda>c. c = CHR '' '') s"
  have f: "filter (\<lambda>c. c \<noteq> CHR '' '') s = filter (\<lambda>c. c \<noteq> CHR '' '') r"
    by (simp add: r_def filter_dropWhile_space)
  have h: "r \<noteq> [] \<Longrightarrow> hd r \<noteq> CHR '' ''" using hd_dropWhile [of "\<lambda>c. c = CHR '' ''" s] by (simp add: r_def)
  have step: "wrap_remaining s = (if r = [] then []
      else if length r \<le> 43 then [r]
      else take (crawl_split r) r # wrap_remaining (drop (crawl_split r) r))"
    by (subst wrap_remaining.simps) (simp add: r_def Let_def text_width_crawl substr_def)
  show ?case
  proof (cases "length r \<le> 43")
    case True
    then show ?thesis using step h f by auto
  next
    case False
    then have "r \<noteq> []" by auto
    have IH: "list_all (\<lambda>l. l \<noteq> [] \<and> length l \<le> 43 \<and> hd l \<noteq> CHR '' '') (wrap_remaining (drop (crawl_split r) r))"
      "filter (\<lambda>c. c \<noteq> CHR '' '') (concat (wrap_remaining (drop (crawl_split r) r))) =
         filter (\<lambda>c. c \<noteq> CHR '' '') (drop (crawl_split r) r)"
      using 1 [OF r_def \<open>r \<noteq> []\<close>] False by (simp_all add: text_width_crawl)
    have "filter (\<lambda>c. c \<noteq> CHR '' '') (take (crawl_split r) r) @
        filter (\<lambda>c. c \<noteq> CHR '' '') (drop (crawl_split r) r) = filter (\<lambda>c. c \<noteq> CHR '' '') r"
      by (simp only: filter_append [symmetric] append_take_drop_id)
    moreover have "take (crawl_split r) r \<noteq> []" "hd (take (crawl_split r) r) = hd r"
      using crawl_split_bounds(1) [of r] \<open>r \<noteq> []\<close> by (cases r; cases "crawl_split r"; simp)+
    ultimately show ?thesis
      using step False IH f h \<open>r \<noteq> []\<close> crawl_split_bounds(2) [of r] crawl_maximum_characters_43 by auto
  qed
qed

text \<open>
  Wrapping a text for the crawl keeps every character that is not a space, in order, and
  every line is non-empty, starts with a visible character and fits the crawl's width.
\<close>

theorem wrap_crawl_text_lossless:
  "filter (\<lambda>c. c \<noteq> CHR '' '') (concat (wrap_crawl_text s)) =
     filter (\<lambda>c. c \<noteq> CHR '' '') (display_ascii s) \<and>
   list_all (\<lambda>l. l \<noteq> [] \<and> hd l \<noteq> CHR '' '' \<and> text_width l kCreditsCrawlTextScale \<le> kCrawlMaximumLineWidth)
     (wrap_crawl_text s)"
  using wrap_remaining_lines [of "display_ascii s"]
  by (simp add: wrap_crawl_text_def text_width_crawl list_all_iff)

section \<open>Accepted credits\<close>

definition credit_ok :: "ProjectCredit \<Rightarrow> bool" where
  "credit_ok c = (valid_field (project c) 48 \<and> valid_field (role c) 64 \<and> valid_field (license c) 64)"

definition credits_ok :: "ProjectCredit list \<Rightarrow> bool" where
  "credits_ok cs = (length cs \<le> kMaximumCredits \<and> distinct (map project cs) \<and> list_all credit_ok cs)"

lemma credits_lines_ok: "credits_lines ls n loaded = Inr out \<Longrightarrow> credits_ok loaded \<Longrightarrow> credits_ok out"
proof (induction ls arbitrary: n loaded)
  case (Cons raw rest)
  define line where "line = (if raw \<noteq> [] \<and> byte_of (raw ! (length raw - 1)) = 13
     then take (length raw - 1) raw else raw)"
  let ?fs = "split_tabs line"
  let ?c = "\<lparr>project = ?fs ! 0, role = ?fs ! 1, license = ?fs ! 2\<rparr>"
  note step = Cons.prems(1) [unfolded credits_lines.simps Let_def, folded line_def]
  show ?case
  proof (cases "line = [] \<or> line ! 0 = CHR ''#''")
    case True
    then show ?thesis using step Cons by auto
  next
    case False
    then have g: "valid_field (?fs ! 0) 48" "valid_field (?fs ! 1) 64" "valid_field (?fs ! 2) 64"
      "?fs ! 0 \<notin> set (map project loaded)" "length (loaded @ [?c]) \<le> kMaximumCredits"
      "credits_lines rest (n + 1) (loaded @ [?c]) = Inr out"
      using step by (auto split: if_splits)
    then have "credits_ok (loaded @ [?c])"
      using Cons.prems(2) by (auto simp: credits_ok_def credit_ok_def)
    then show ?thesis using Cons.IH [OF g(6)] by blast
  qed
qed simp

text \<open>
  Every credits file the dashboard accepts gives one to 64 credits with distinct projects
  and printable, bounded fields.
\<close>

theorem load_project_credits_valid:
  "case load_project_credits path w of
     (Inl _, _) \<Rightarrow> True
   | (Inr credits, _) \<Rightarrow> credits \<noteq> [] \<and> length credits \<le> 64 \<and> distinct (map project credits) \<and>
       list_all credit_ok credits"
proof -
  obtain r w' where m: "load_project_credits path w = (r, w')" by fastforce
  show ?thesis
  proof (cases r)
    case (Inr credits)
    then obtain ls where "credits_lines ls 0 [] = Inr credits" "credits \<noteq> []"
      using m by (auto simp: load_project_credits_def split: if_splits option.splits prod.splits sum.splits)
    moreover have "credits_ok []" by (simp add: credits_ok_def)
    ultimately show ?thesis
      using credits_lines_ok m Inr by (auto simp: credits_ok_def kMaximumCredits_def)
  qed (simp add: m)
qed

section \<open>The layout of the crawl\<close>

definition crawl_state_ok :: "CreditsCrawlLine list \<times> int \<Rightarrow> bool" where
  "crawl_state_ok st =
     (sorted_wrt (\<lambda>a b. source_y a + source_height a \<le> source_y b) (fst st) \<and>
      list_all (\<lambda>l. 0 \<le> source_y l \<and> source_y l + source_height l \<le> snd st \<and> line_text l \<noteq> [] \<and>
        source_height l = 28 \<and> source_width l = text_width (line_text l) 4 \<and>
        source_width l \<le> kCrawlMaximumLineWidth) (fst st) \<and>
      0 \<le> snd st)"

lemma append_lines_ok:
  "crawl_state_ok st \<Longrightarrow> list_all (\<lambda>l. l \<noteq> [] \<and> length l \<le> 43) ss \<Longrightarrow> crawl_state_ok (append_lines ss st)"
proof (induction ss st rule: append_lines.induct)
  case (2 s ss ls cursor)
  have w: "text_width s kCreditsCrawlTextScale \<le> kCrawlMaximumLineWidth" "s \<noteq> []"
    using "2.prems"(2) by (auto simp: text_width_crawl)
  have l: "source_y (crawl_line s cursor) = cursor" "source_height (crawl_line s cursor) = 28"
    "source_width (crawl_line s cursor) = text_width s kCreditsCrawlTextScale"
    "line_text (crawl_line s cursor) = s"
    by (simp_all add: crawl_line_def Let_def kBitmapGlyphHeight_def kCreditsCrawlTextScale_def)
  have "crawl_state_ok (ls @ [crawl_line s cursor], cursor + kCrawlLineAdvance)"
    using "2.prems"(1) w l
    by (auto simp: crawl_state_ok_def sorted_wrt_append list_all_iff kCrawlLineAdvance_def
        kCreditsCrawlTextScale_def)
  then show ?case using "2.IH" "2.prems"(2) by simp
qed simp

lemma append_crawl_text_ok: "crawl_state_ok st \<Longrightarrow> crawl_state_ok (append_crawl_text s st)"
  using wrap_remaining_lines [of "display_ascii s"]
  by (auto simp: append_crawl_text_def wrap_crawl_text_def list_all_iff intro!: append_lines_ok)

lemma section_gap_ok: "crawl_state_ok st \<Longrightarrow> crawl_state_ok (section_gap st)"
  by (auto simp: crawl_state_ok_def section_gap_def list_all_iff kCrawlSectionGap_def)

lemma append_credits_ok: "crawl_state_ok st \<Longrightarrow> crawl_state_ok (foldl (\<lambda>st c. append_credit c st) st cs)"
  by (induction cs arbitrary: st) (simp_all add: append_credit_def append_crawl_text_ok section_gap_ok)

text \<open>
  The crawl built from any credits lays its lines out without overlap, top to bottom,
  inside the content height, and no line is wider than the crawl plane.
\<close>

theorem make_project_credits_crawl_layout:
  "let crawl = make_project_credits_crawl credits in
     sorted_wrt (\<lambda>a b. source_y a + source_height a \<le> source_y b) (crawl_lines crawl) \<and>
     list_all (\<lambda>l. 0 \<le> source_y l \<and> source_y l + source_height l \<le> content_height crawl \<and>
        source_width l = text_width (line_text l) 4 \<and> source_width l \<le> kCrawlMaximumLineWidth)
       (crawl_lines crawl) \<and>
     length (static_lines crawl) = length credits"
proof (cases "credits = []")
  case True
  then show ?thesis by (simp add: make_project_credits_crawl_def)
next
  case False
  have start: "crawl_state_ok ([], 0)" by (simp add: crawl_state_ok_def)
  define st where "st = append_crawl_text ''THANK YOU'' (section_gap
     (append_crawl_text ''/mnt/data/nes-deck/licenses'' (append_crawl_text ''LICENSE TEXT ARCHIVE''
       (foldl (\<lambda>st c. append_credit c st) (section_gap (append_crawl_text ''BUILT ON FREE SOFTWARE''
               (append_crawl_text ''RETRO DECK'' ([], 0)))) credits))))"
  have ok: "crawl_state_ok st"
    unfolding st_def by (intro append_crawl_text_ok section_gap_ok append_credits_ok start)
  have "make_project_credits_crawl credits =
    \<lparr>crawl_lines = fst st, static_lines = map (\<lambda>c. display_ascii (project c @ '' / '' @ license c)) credits,
     content_height = snd st\<rparr>"
    using False by (simp only: make_project_credits_crawl_def Let_def if_False st_def [symmetric] case_prod_unfold)
  then show ?thesis using ok by (auto simp: crawl_state_ok_def list_all_iff Let_def)
qed

section \<open>Blending\<close>

lemma crawl_alpha_range: "0 \<le> crawl_alpha y \<and> crawl_alpha y \<le> 256"
  by (auto simp: crawl_alpha_def kCrawlFadeInvisibleY_def kCrawlFadeOpaqueY_def sdiv_nonneg)

lemma crawl_alpha_mono: "y \<le> z \<Longrightarrow> crawl_alpha y \<le> crawl_alpha z"
  by (auto simp: crawl_alpha_def kCrawlFadeInvisibleY_def kCrawlFadeOpaqueY_def sdiv_nonneg
      zdiv_mono1)

lemma blend_channel_between:
  assumes "0 \<le> alpha" "alpha \<le> 256"
  shows "min f b \<le> blend_channel f b alpha \<and> blend_channel f b alpha \<le> max f b"
proof -
  have lo: "min f b * 256 \<le> f * alpha + b * (256 - alpha)"
  proof -
    have "min f b * alpha \<le> f * alpha" "min f b * (256 - alpha) \<le> b * (256 - alpha)"
      using assms by (intro mult_right_mono; simp)+
    then show ?thesis by (simp add: algebra_simps)
  qed
  have hi: "f * alpha + b * (256 - alpha) \<le> max f b * 256"
  proof -
    have "f * alpha \<le> max f b * alpha" "b * (256 - alpha) \<le> max f b * (256 - alpha)"
      using assms by (intro mult_right_mono; simp)+
    then show ?thesis by (simp add: algebra_simps)
  qed
  have "blend_channel f b alpha = (f * alpha + b * (256 - alpha) + 128) div 256"
    by (simp add: blend_channel_def drop_bit_eq_div)
  moreover have "min f b \<le> (f * alpha + b * (256 - alpha) + 128) div 256" using lo by linarith
  moreover have "(f * alpha + b * (256 - alpha) + 128) div 256 \<le> max f b" using hi by linarith
  ultimately show ?thesis by simp
qed

lemma channel_take_bit:
  "red_channel p = uint (take_bit 5 (drop_bit 11 p))" "green_channel p = uint (take_bit 6 (drop_bit 5 p))"
  "blue_channel p = uint (take_bit 5 p)"
proof -
  have "(0x1f :: u16) = mask 5" "(0x3f :: u16) = mask 6" by (simp_all add: mask_eq_exp_minus_1)
  then show "red_channel p = uint (take_bit 5 (drop_bit 11 p))"
    "green_channel p = uint (take_bit 6 (drop_bit 5 p))" "blue_channel p = uint (take_bit 5 p)"
    by (simp_all only: red_channel_def green_channel_def blue_channel_def take_bit_eq_mask)
qed

lemma channel_ranges:
  "0 \<le> red_channel p" "red_channel p < 32" "0 \<le> green_channel p" "green_channel p < 64"
  "0 \<le> blue_channel p" "blue_channel p < 32"
  using take_bit_int_less_exp [of 5 "uint (drop_bit 11 p)"] take_bit_int_less_exp [of 6 "uint (drop_bit 5 p)"]
    take_bit_int_less_exp [of 5 "uint p"]
  by (simp_all add: channel_take_bit unsigned_take_bit_eq)

lemma bit_above: "0 \<le> (x::int) \<Longrightarrow> x < 2 ^ k \<Longrightarrow> bit x n \<Longrightarrow> n < k"
proof -
  assume "0 \<le> x" "x < 2 ^ k" "bit x n"
  then have "take_bit k x = x" by (simp add: take_bit_int_eq_self)
  then show "n < k" using \<open>bit x n\<close> by (metis bit_take_bit_iff)
qed

lemma pack_channels:
  assumes "0 \<le> r" "r < 32" "0 \<le> g" "g < 64" "0 \<le> b" "b < 32"
  shows "red_channel (word_of_int ((push_bit 11 r OR push_bit 5 g) OR b)) = r"
    "green_channel (word_of_int ((push_bit 11 r OR push_bit 5 g) OR b)) = g"
    "blue_channel (word_of_int ((push_bit 11 r OR push_bit 5 g) OR b)) = b"
proof -
  have r: "bit r n \<Longrightarrow> n < 5" for n using bit_above [of r 5 n] assms by simp
  have g: "bit g n \<Longrightarrow> n < 6" for n using bit_above [of g 6 n] assms by simp
  have b: "bit b n \<Longrightarrow> n < 5" for n using bit_above [of b 5 n] assms by simp
  show "red_channel (word_of_int ((push_bit 11 r OR push_bit 5 g) OR b)) = r"
    by (rule bit_eqI) (auto simp: channel_take_bit bit_simps dest: r g b)
  show "green_channel (word_of_int ((push_bit 11 r OR push_bit 5 g) OR b)) = g"
    by (rule bit_eqI) (auto simp: channel_take_bit bit_simps dest: r g b)
  show "blue_channel (word_of_int ((push_bit 11 r OR push_bit 5 g) OR b)) = b"
    by (rule bit_eqI) (auto simp: channel_take_bit bit_simps dest: r g b)
qed

lemma blend_channels:
  assumes "0 \<le> alpha" "alpha \<le> 256"
  shows "red_channel (blend_rgb565 f b alpha) = blend_channel (red_channel f) (red_channel b) alpha"
    "green_channel (blend_rgb565 f b alpha) = blend_channel (green_channel f) (green_channel b) alpha"
    "blue_channel (blend_rgb565 f b alpha) = blend_channel (blue_channel f) (blue_channel b) alpha"
proof -
  have range: "0 \<le> x \<Longrightarrow> x < k \<Longrightarrow> 0 \<le> y \<Longrightarrow> y < k \<Longrightarrow>
      0 \<le> blend_channel x y alpha \<and> blend_channel x y alpha < k" for x y k
    using blend_channel_between [OF assms, of x y] by linarith
  note R = range [OF channel_ranges(1,2) channel_ranges(1,2), of f b]
    and G = range [OF channel_ranges(3,4) channel_ranges(3,4), of f b]
    and B = range [OF channel_ranges(5,6) channel_ranges(5,6), of f b]
  show "red_channel (blend_rgb565 f b alpha) = blend_channel (red_channel f) (red_channel b) alpha"
    "green_channel (blend_rgb565 f b alpha) = blend_channel (green_channel f) (green_channel b) alpha"
    "blue_channel (blend_rgb565 f b alpha) = blend_channel (blue_channel f) (blue_channel b) alpha"
    unfolding blend_rgb565_def Let_def using R G B by (simp_all only: pack_channels)
qed

text \<open>
  Blending is a convex combination per channel: for every alpha the fade computes, each
  channel of the result lies between the two colours' channels, so no channel spills into its
  neighbour, and a fully opaque or fully transparent blend gives back one of the colours.
\<close>

theorem blend_rgb565_convex:
  "let out = blend_rgb565 f b (crawl_alpha y) in
     min (red_channel f) (red_channel b) \<le> red_channel out \<and>
     red_channel out \<le> max (red_channel f) (red_channel b) \<and>
     min (green_channel f) (green_channel b) \<le> green_channel out \<and>
     green_channel out \<le> max (green_channel f) (green_channel b) \<and>
     min (blue_channel f) (blue_channel b) \<le> blue_channel out \<and>
     blue_channel out \<le> max (blue_channel f) (blue_channel b)"
  using crawl_alpha_range [of y] blend_channel_between [of "crawl_alpha y"]
  by (simp add: Let_def blend_channels)

section \<open>The reduced-motion screen\<close>

lemma draw_starfield_draws: "draws kLogicalWidth kLogicalHeight (draw_starfield c)"
proof -
  have "fill_defined kLogicalWidth kLogicalHeight (Rect (int (a mod 1280)) (int (b mod 480)) s s)"
    if "0 < s" for a b :: nat and s
  proof -
    have "int (a mod 1280) < 1280" by simp
    then show ?thesis using that by (auto simp: fill_defined_def logical_size)
  qed
  then show ?thesis
    unfolding draw_starfield_def
    by (intro ui.draws_fill_all) (auto simp: starfield_def list_all_iff)
qed

lemma draw_close_draws: "draws kLogicalWidth kLogicalHeight (draw_close close_button c)"
  unfolding draw_close_def
  by (intro ui.draws_fill_all)
    (simp add: close_squares_def close_button_def fill_defined_def logical_size Let_def sdiv_nonneg)

lemma display_heading:
  "display_ascii ''FOSS CREDITS'' = ''FOSS CREDITS''" "display_ascii ''PROJECT / LICENSE'' = ''PROJECT / LICENSE''"
  "display_ascii ''/mnt/data/nes-deck/licenses'' = ''/mnt/data/nes-deck/licenses''"
  "display_ascii ''CREDITS UNAVAILABLE'' = ''CREDITS UNAVAILABLE''"
  by (rule display_ascii_id, simp add: byte_of_def)+

lemma fitted_ascii: "display_ascii (fit_text_width s m scale) = fit_text_width s m scale"
proof (rule display_ascii_id)
  have "list_all (\<lambda>c. byte_of c < 128) (take n (display_ascii s))" for n
    using display_ascii_ascii [of s] by (auto simp: list_all_iff dest: in_set_takeD)
  then show "list_all (\<lambda>c. byte_of c < 128) (fit_text_width s m scale)"
    using display_ascii_ascii [of s]
    by (auto simp: fit_text_width_def Let_def substr_def list_all_iff byte_of_def)
qed

lemma draw_static_line_draws:
  assumes "0 < columns" "columns \<le> 61" "index < 16 * columns" "column_width = 1232 div int columns"
  shows "draws kLogicalWidth kLogicalHeight (draw_static_line ls index column_width c)"
proof -
  let ?column = "index div 16" and ?shown = "fit_text_width (ls ! index) (column_width - 20) 1"
  have cw: "int columns * column_width \<le> 1232"
  proof -
    have "0 \<le> 1232 mod int columns" using assms(1) by simp
    then have "1232 div int columns * int columns \<le> 1232"
      using div_mult_mod_eq [of 1232 "int columns"] by linarith
    then show ?thesis by (simp only: assms(4) mult.commute)
  qed
  have "1232 div 61 \<le> 1232 div int columns" using assms(1,2) by (intro zdiv_mono2) auto
  then have wide: "20 \<le> column_width" using assms(4) by simp
  have "?column < columns" using assms(3) by (simp add: less_mult_imp_div_less mult.commute)
  then have "(int ?column + 1) * column_width \<le> int columns * column_width"
    using wide by (intro mult_right_mono) auto
  then have box: "24 + int ?column * column_width + column_width \<le> 1280"
    using cw by (simp add: algebra_simps)
  have fit: "text_width ?shown 1 \<le> column_width - 20"
    using fit_text_width_bounds [of 1 "column_width - 20" "ls ! index"] wide by simp
  have left: "0 \<le> 24 + int ?column * column_width" using wide by simp
  show ?thesis
    unfolding draw_static_line_def Let_def
    by (rule draws_text) (use left box fit fitted_ascii in auto)
qed

lemma draw_static_credits_draws:
  assumes "length (static_lines crawl) \<le> 64"
  shows "draws kLogicalWidth kLogicalHeight (draw_static_credits crawl a t m)"
proof -
  let ?n = "length (static_lines crawl)"
  define columns where "columns = max 1 ((?n + 16 - 1) div 16)"
  have cols: "0 < columns" "columns \<le> 61" using assms by (auto simp: columns_def)
  have index: "index < 16 * columns" if "index < ?n" for index
    using that unfolding columns_def by linarith
  have cw: "(kLogicalWidth - 24 * 2) sdiv int columns = 1232 div int columns"
    using cols(1) by (simp add: logical_size sdiv_nonneg)
  show ?thesis
    unfolding draw_static_credits_def Let_def columns_def [symmetric] cw
    by (intro draws_seq)
      (auto simp: list_all_iff display_heading text_width_def kBitmapGlyphAdvance_def
        intro!: draws_text draw_static_line_draws [OF cols index refl])
qed

text \<open>
  For every credits list the loader can accept, the reduced-motion screen is drawn without
  undefined behaviour and yields a full canvas: the columns, the ellipsised rows and the close
  button all stay inside it.
\<close>

theorem render_project_credits_reduced_defined:
  assumes "length credits \<le> 64"
  shows "\<exists>canvas. render_project_credits_reduced (make_project_credits_crawl credits) b a t m = Some canvas \<and>
    length canvas = 1280 * 480"
proof -
  let ?crawl = "make_project_credits_crawl credits"
  have "length (static_lines ?crawl) \<le> 64"
    using assms by (auto simp: make_project_credits_crawl_def Let_def split: prod.split)
  then have main: "draws kLogicalWidth kLogicalHeight (\<lambda>canvas.
      if crawl_lines ?crawl = [] \<or> content_height ?crawl \<le> 0
      then draw_centered_text canvas (Rect 80 180 1120 120) ''CREDITS UNAVAILABLE'' 3 t
      else draw_static_credits ?crawl a t m canvas)"
    using draw_static_credits_draws
    by (cases "crawl_lines ?crawl = [] \<or> content_height ?crawl \<le> 0")
      (auto intro!: draws_centered_text simp: display_heading text_width_def kBitmapGlyphAdvance_def)
  have "draws kLogicalWidth kLogicalHeight (draw_seq [\<lambda>canvas.
      if crawl_lines ?crawl = [] \<or> content_height ?crawl \<le> 0
      then draw_centered_text canvas (Rect 80 180 1120 120) ''CREDITS UNAVAILABLE'' 3 t
      else draw_static_credits ?crawl a t m canvas, draw_close close_button m])"
    by (intro draws_seq) (simp add: main draw_close_draws)
  then show ?thesis
    unfolding render_project_credits_reduced_def draws_def by (auto simp: logical_size)
qed

lemma render_project_credits_reduced_defined_witness:
  "\<exists>canvas. render_project_credits_reduced
      (make_project_credits_crawl [\<lparr>project = ''SDL'', role = ''INPUT'', license = ''ZLIB''\<rparr>]) 0 1 2 3 = Some canvas \<and>
    length canvas = 1280 * 480"
  by (rule render_project_credits_reduced_defined) simp

end
