(* ===== verification/Evdev.thy ===== *)
theory Evdev
  imports Deck_Prelude
begin

section \<open>Input devices\<close>

text \<open>
  What the kernel's evdev interface hands to the input code of several programs: events, axis
  ranges and the results of a non-blocking \<open>read\<close>.  A script of results is consumed by the
  reading loops; its end stands for a device with nothing more to read.
\<close>

text \<open>\<open>struct input_absinfo\<close>: value, minimum and maximum.\<close>

record absinfo =
  abs_value :: int
  abs_minimum :: int
  abs_maximum :: int

record input_event =
  ev_type :: nat
  ev_code :: nat
  ev_value :: int

definition EV_SYN :: nat where "EV_SYN = 0"
definition EV_KEY :: nat where "EV_KEY = 1"
definition EV_ABS :: nat where "EV_ABS = 3"
definition SYN_REPORT :: nat where "SYN_REPORT = 0"
definition SYN_DROPPED :: nat where "SYN_DROPPED = 3"
definition ABS_X :: nat where "ABS_X = 0"
definition ABS_Y :: nat where "ABS_Y = 1"

datatype 'a read_result = Data "'a list" | Interrupted | Would_block | Read_failed | Partial_event

end
