(* ===== verification/Joypad_Input.thy ===== *)
theory Joypad_Input
  imports Evdev "HOL-Library.List_Lexorder" "HOL-Library.Char_ord" "HOL-Library.Product_Lexorder"
    "HOL-Library.Multiset"
begin

section \<open>Gamepads and the raw keyboard (\<open>src/joypad_input.cpp\<close>)\<close>

text \<open>
  The input thread's state: two player slots, the keyboard and the published pad words.  What
  the kernel returns is an input of the operations: the entries of \<open>/dev/input\<close> with the
  answers to the identifying \<open>ioctl\<close> calls, the results of each \<open>read\<close>, and the answers to
  the resynchronising \<open>ioctl\<close> calls, which the state carries as a list that each call
  consumes.  Only the published words and the state of the keys are shared with other threads,
  under the mutex: what can be read while it is free is recorded as a view whenever the input
  thread releases it, so that a handler that releases it several times shows every state between.
  Descriptors closed by the code are recorded too, so that leaks can be ruled out.  The build for
  the Spectrum is the flag \<open>zx\<close>.
\<close>

definition PAD_A :: u32 where "PAD_A = 0x1"
definition PAD_B :: u32 where "PAD_B = 0x2"
definition PAD_SELECT :: u32 where "PAD_SELECT = 0x4"
definition PAD_START :: u32 where "PAD_START = 0x8"
definition PAD_UP :: u32 where "PAD_UP = 0x10"
definition PAD_DOWN :: u32 where "PAD_DOWN = 0x20"
definition PAD_LEFT :: u32 where "PAD_LEFT = 0x40"
definition PAD_RIGHT :: u32 where "PAD_RIGHT = 0x80"
definition PAD_L :: u32 where "PAD_L = 0x100"
definition PAD_R :: u32 where "PAD_R = 0x200"

lemmas pad_defs = PAD_A_def PAD_B_def PAD_SELECT_def PAD_START_def PAD_UP_def PAD_DOWN_def
  PAD_LEFT_def PAD_RIGHT_def PAD_L_def PAD_R_def

definition kPlayerCount :: nat where "kPlayerCount = 2"

record GamepadDevice =
  gp_fd :: int
  gp_path :: string
  gp_physical_path :: string
  gp_x_info :: absinfo
  gp_y_info :: absinfo
  gp_raw_buttons :: u32
  gp_x_value :: int
  gp_y_value :: int
  gp_state :: u32
  gp_dropping_events :: bool

record GamepadCandidate =
  cd_fd :: int
  cd_path :: string
  cd_physical_path :: string
  cd_x_info :: absinfo
  cd_y_info :: absinfo

text \<open>The answer to the resynchronising calls: the pressed button codes and both axes.\<close>

record snapshot =
  pressed_codes :: "nat list"
  snap_x :: absinfo
  snap_y :: absinfo

text \<open>
  What other threads can read from one release of the mutex to the next, and the words of the pads
  that the input thread had at the release.
\<close>

record input_view =
  view_words :: "u32 list"
  view_keys :: "bool list"
  view_pads :: "u32 list"

record input_state =
  kb_fd :: int
  kb_fd_owned :: bool
  keyboard_state :: u32
  keyboard_key_state :: "bool list"
  gamepads :: "GamepadDevice list"
  pad_state :: "u32 list"
  last_diagnostic_state :: "u32 list"
  closed_fds :: "int list"
  ioctl_answers :: "snapshot option list"
  input_views :: "input_view list"

subsection \<open>Mappings\<close>

definition keycode_to_pad :: "bool \<Rightarrow> nat \<Rightarrow> u32" where
  "keycode_to_pad zx keycode =
     (if zx then 0
      else if keycode = 0x67 then PAD_UP else if keycode = 0x6c then PAD_DOWN
      else if keycode = 0x69 then PAD_LEFT else if keycode = 0x6a then PAD_RIGHT
      else if keycode = 0x11 then PAD_UP else if keycode = 0x1f then PAD_DOWN
      else if keycode = 0x1e then PAD_LEFT else if keycode = 0x20 then PAD_RIGHT
      else if keycode = 0x39 then PAD_A else if keycode = 0x2c then PAD_A
      else if keycode = 0x24 then PAD_A else if keycode = 0x2a then PAD_B
      else if keycode = 0x36 then PAD_B else if keycode = 0x2d then PAD_B
      else if keycode = 0x25 then PAD_B else if keycode = 0x1c then PAD_START
      else if keycode = 0x1d then PAD_SELECT else if keycode = 0x61 then PAD_SELECT
      else 0)"

definition BTN_TRIGGER :: nat where "BTN_TRIGGER = 0x120"
definition BTN_BASE2 :: nat where "BTN_BASE2 = 0x127"

definition gamepad_key_to_pad :: "nat \<Rightarrow> u32" where
  "gamepad_key_to_pad code =
     (if code = 0x122 then PAD_A else if code = 0x123 then PAD_A
      else if code = 0x121 then PAD_B else if code = 0x120 then PAD_B
      else if code = 0x126 then PAD_SELECT else if code = 0x127 then PAD_START
      else if code = 0x124 then PAD_L else if code = 0x125 then PAD_R
      else 0)"

definition axis_to_pad :: "int \<Rightarrow> int \<Rightarrow> int \<Rightarrow> u32 \<Rightarrow> u32 \<Rightarrow> u32" where
  "axis_to_pad v minimum maximum negative positive =
     (if maximum \<le> minimum then 0
      else
        (let span = maximum - minimum;
             low = minimum + span sdiv 3;
             high = maximum - span sdiv 3
         in if v \<le> low then negative else if high \<le> v then positive else 0))"

definition gamepad_state :: "GamepadDevice \<Rightarrow> u32" where
  "gamepad_state g =
     (foldl (\<lambda>st index. if gp_raw_buttons g AND push_bit index 1 \<noteq> 0
                        then st OR gamepad_key_to_pad (BTN_TRIGGER + index) else st) 0 [0..<8]
      OR axis_to_pad (gp_x_value g) (abs_minimum (gp_x_info g)) (abs_maximum (gp_x_info g)) PAD_LEFT PAD_RIGHT)
      OR axis_to_pad (gp_y_value g) (abs_minimum (gp_y_info g)) (abs_maximum (gp_y_info g)) PAD_UP PAD_DOWN"

subsection \<open>Publishing, the keyboard, closing\<close>

text \<open>The mutex is released: from now on other threads may read this view, the newest first.\<close>

definition unlock_pads :: "input_state \<Rightarrow> input_state" where
  "unlock_pads st =
     st\<lparr>input_views := \<lparr>view_words = pad_state st, view_keys = keyboard_key_state st,
                        view_pads = map gp_state (gamepads st)\<rparr> # input_views st\<rparr>"

definition publish_states :: "input_state \<Rightarrow> input_state" where
  "publish_states st =
     (let next_state = [keyboard_state st OR gp_state (gamepads st ! 0), gp_state (gamepads st ! 1)]
      in unlock_pads (st\<lparr>pad_state := next_state, last_diagnostic_state := next_state\<rparr>))"

definition update_keyboard_key :: "bool \<Rightarrow> nat \<Rightarrow> bool \<Rightarrow> input_state \<Rightarrow> input_state" where
  "update_keyboard_key zx keycode pressed st =
     (let button = keycode_to_pad zx keycode;
          st1 = st\<lparr>keyboard_key_state := (keyboard_key_state st)[keycode := pressed]\<rparr>
      in unlock_pads
           (if button \<noteq> 0
            then (if pressed then st1\<lparr>keyboard_state := keyboard_state st OR button\<rparr>
                  else st1\<lparr>keyboard_state := keyboard_state st AND NOT button\<rparr>)
            else st1))"

definition is_event_name :: "string \<Rightarrow> bool" where
  "is_event_name name =
     (take 5 name = ''event'' \<and> drop 5 name \<noteq> [] \<and> list_all is_digit (drop 5 name))"

definition path_is_open :: "string \<Rightarrow> input_state \<Rightarrow> bool" where
  "path_is_open path st = list_ex (\<lambda>g. 0 \<le> gp_fd g \<and> gp_path g = path) (gamepads st)"

definition close_gamepad :: "nat \<Rightarrow> bool \<Rightarrow> input_state \<Rightarrow> input_state" where
  "close_gamepad player remember_physical_path st =
     (if kPlayerCount \<le> player then st
      else
        (let g = gamepads st ! player;
             st1 = (if 0 \<le> gp_fd g then st\<lparr>closed_fds := gp_fd g # closed_fds st\<rparr> else st);
             g1 = g\<lparr>gp_fd := -1, gp_path := [],
                    gp_physical_path := (if remember_physical_path then gp_physical_path g else []),
                    gp_raw_buttons := 0, gp_state := 0, gp_dropping_events := False\<rparr>
         in publish_states (st1\<lparr>gamepads := (gamepads st)[player := g1]\<rparr>)))"

definition snapshot_buttons :: "nat list \<Rightarrow> u32" where
  "snapshot_buttons codes =
     foldl (\<lambda>raw index. if BTN_TRIGGER + index \<in> set codes then raw OR push_bit index 1 else raw) 0 [0..<8]"

definition apply_snapshot :: "snapshot \<Rightarrow> GamepadDevice \<Rightarrow> GamepadDevice" where
  "apply_snapshot snap g =
     (let g1 = g\<lparr>gp_x_info := snap_x snap, gp_y_info := snap_y snap,
                gp_x_value := abs_value (snap_x snap), gp_y_value := abs_value (snap_y snap),
                gp_raw_buttons := snapshot_buttons (pressed_codes snap)\<rparr>
      in g1\<lparr>gp_state := gamepad_state g1\<rparr>)"

definition resynchronize_gamepad :: "nat \<Rightarrow> input_state \<Rightarrow> bool \<times> input_state" where
  "resynchronize_gamepad player st =
     (let g = gamepads st ! player in
      if gp_fd g < 0 then (False, st)
      else
        (case ioctl_answers st of
           Some snap # answers \<Rightarrow>
             (True, publish_states (st\<lparr>gamepads := (gamepads st)[player := apply_snapshot snap g],
                                       ioctl_answers := answers\<rparr>))
         | None # answers \<Rightarrow> (False, st\<lparr>ioctl_answers := answers\<rparr>)
         | [] \<Rightarrow> (False, st)))"

subsection \<open>Discovery and slot assignment\<close>

text \<open>The candidate's descriptor becomes \<open>-1\<close> once a slot owns it.\<close>

definition attach_candidate ::
  "nat \<Rightarrow> nat \<Rightarrow> GamepadCandidate list \<times> input_state \<Rightarrow> GamepadCandidate list \<times> input_state" where
  "attach_candidate player index cs_st =
     (let (cs, st) = cs_st; c = cs ! index in
      if cd_fd c < 0 \<or> kPlayerCount \<le> player then cs_st
      else
        (let g = (gamepads st ! player)\<lparr>gp_fd := cd_fd c, gp_path := cd_path c,
               gp_physical_path := cd_physical_path c, gp_x_info := cd_x_info c, gp_y_info := cd_y_info c,
               gp_x_value := abs_value (cd_x_info c), gp_y_value := abs_value (cd_y_info c),
               gp_raw_buttons := 0, gp_state := 0, gp_dropping_events := False\<rparr>;
             st1 = st\<lparr>gamepads := (gamepads st)[player := g]\<rparr>
         in (cs[index := c\<lparr>cd_fd := -1\<rparr>], snd (resynchronize_gamepad player st1))))"

text \<open>An entry of the directory and what opening and identifying it returned.\<close>

record device_entry =
  entry_name :: string
  entry_fd :: int
  entry_id :: "(nat \<times> nat) option"
  entry_x :: "absinfo option"
  entry_y :: "absinfo option"
  entry_phys :: "string option"

definition entry_path :: "device_entry \<Rightarrow> string" where
  "entry_path e = ''/dev/input/'' @ entry_name e"

definition entry_candidate :: "device_entry \<Rightarrow> GamepadCandidate option" where
  "entry_candidate e =
     (if entry_id e \<noteq> Some (0x1c59, 0x0026) then None
      else
        (case entry_x e of
           None \<Rightarrow> None
         | Some x \<Rightarrow>
             (case entry_y e of
                None \<Rightarrow> None
              | Some y \<Rightarrow>
                  Some \<lparr>cd_fd = entry_fd e, cd_path = entry_path e,
                        cd_physical_path = (case entry_phys e of
                             Some p \<Rightarrow> if p = [] then entry_path e else p
                           | None \<Rightarrow> entry_path e),
                        cd_x_info = x, cd_y_info = y\<rparr>)))"

fun collect_candidates ::
  "device_entry list \<Rightarrow> GamepadCandidate list \<times> input_state \<Rightarrow> GamepadCandidate list \<times> input_state" where
  "collect_candidates [] cs_st = cs_st"
| "collect_candidates (e # es) (cs, st) =
     (if \<not> is_event_name (entry_name e) \<or> path_is_open (entry_path e) st \<or> entry_fd e < 0
      then collect_candidates es (cs, st)
      else (case entry_candidate e of
              None \<Rightarrow> collect_candidates es (cs, st\<lparr>closed_fds := entry_fd e # closed_fds st\<rparr>)
            | Some c \<Rightarrow> collect_candidates es (cs @ [c], st)))"

definition sort_candidates :: "GamepadCandidate list \<Rightarrow> GamepadCandidate list" where
  "sort_candidates = sort_key (\<lambda>c. (cd_physical_path c, cd_path c))"

definition attach_first ::
  "(GamepadCandidate \<Rightarrow> bool) \<Rightarrow> nat \<Rightarrow> GamepadCandidate list \<times> input_state \<Rightarrow>
     GamepadCandidate list \<times> input_state" where
  "attach_first wanted player cs_st =
     (case List.find (\<lambda>index. 0 \<le> cd_fd (fst cs_st ! index) \<and> wanted (fst cs_st ! index))
             [0..<length (fst cs_st)] of
        None \<Rightarrow> cs_st
      | Some index \<Rightarrow> attach_candidate player index cs_st)"

definition reconnect_player ::
  "nat \<Rightarrow> GamepadCandidate list \<times> input_state \<Rightarrow> GamepadCandidate list \<times> input_state" where
  "reconnect_player player cs_st =
     (let g = gamepads (snd cs_st) ! player in
      if 0 \<le> gp_fd g \<or> gp_physical_path g = [] then cs_st
      else attach_first (\<lambda>c. cd_physical_path c = gp_physical_path g) player cs_st)"

definition fill_player ::
  "nat \<Rightarrow> GamepadCandidate list \<times> input_state \<Rightarrow> GamepadCandidate list \<times> input_state" where
  "fill_player player cs_st =
     (let g = gamepads (snd cs_st) ! player in
      if 0 \<le> gp_fd g \<or> gp_physical_path g \<noteq> [] then cs_st
      else attach_first (\<lambda>c. True) player cs_st)"

definition reuse_slot ::
  "nat \<Rightarrow> GamepadCandidate list \<times> input_state \<Rightarrow> GamepadCandidate list \<times> input_state" where
  "reuse_slot index cs_st =
     (if cd_fd (fst cs_st ! index) < 0 then cs_st
      else
        (case List.find (\<lambda>player. gp_fd (gamepads (snd cs_st) ! player) < 0) [0..<kPlayerCount] of
           None \<Rightarrow> cs_st
         | Some player \<Rightarrow>
             (let st = snd cs_st;
                  g = (gamepads st ! player)\<lparr>gp_physical_path := []\<rparr>
              in attach_candidate player index
                   (fst cs_st, st\<lparr>gamepads := (gamepads st)[player := g]\<rparr>))))"

definition close_candidates :: "GamepadCandidate list \<times> input_state \<Rightarrow> input_state" where
  "close_candidates cs_st =
     (snd cs_st)\<lparr>closed_fds := rev (filter (\<lambda>fd. 0 \<le> fd) (map cd_fd (fst cs_st))) @ closed_fds (snd cs_st)\<rparr>"

definition assign_candidates :: "GamepadCandidate list \<Rightarrow> input_state \<Rightarrow> input_state" where
  "assign_candidates cs st =
     (let a = foldl (\<lambda>s player. reconnect_player player s) (cs, st) [0..<kPlayerCount];
          b = foldl (\<lambda>s player. fill_player player s) a [0..<kPlayerCount];
          c = foldl (\<lambda>s index. reuse_slot index s) b [0..<length cs]
      in close_candidates c)"

text \<open>\<open>None\<close>: the directory cannot be opened.\<close>

definition scan_gamepads :: "device_entry list option \<Rightarrow> input_state \<Rightarrow> input_state" where
  "scan_gamepads directory st =
     (case directory of
        None \<Rightarrow> st
      | Some es \<Rightarrow>
          (let (cs, st1) = collect_candidates es ([], st)
           in assign_candidates (sort_candidates cs) st1))"

subsection \<open>Events\<close>

definition apply_event :: "input_event \<Rightarrow> GamepadDevice \<Rightarrow> GamepadDevice" where
  "apply_event e g =
     (if ev_type e = EV_SYN \<and> ev_code e = SYN_DROPPED then g\<lparr>gp_dropping_events := True\<rparr>
      else if ev_type e = EV_KEY \<and> BTN_TRIGGER \<le> ev_code e \<and> ev_code e \<le> BTN_BASE2
      then (let b = push_bit (ev_code e - BTN_TRIGGER) 1 in
            if ev_value e \<noteq> 0 then g\<lparr>gp_raw_buttons := gp_raw_buttons g OR b\<rparr>
            else g\<lparr>gp_raw_buttons := gp_raw_buttons g AND NOT b\<rparr>)
      else if ev_type e = EV_ABS \<and> ev_code e = ABS_X then g\<lparr>gp_x_value := ev_value e\<rparr>
      else if ev_type e = EV_ABS \<and> ev_code e = ABS_Y then g\<lparr>gp_y_value := ev_value e\<rparr>
      else g)"

fun process_events :: "nat \<Rightarrow> input_event list \<Rightarrow> input_state \<Rightarrow> bool \<times> input_state" where
  "process_events player [] st = (True, st)"
| "process_events player (e # es) st =
     (if gp_dropping_events (gamepads st ! player) then
        (if ev_type e = EV_SYN \<and> ev_code e = SYN_REPORT then
           (case resynchronize_gamepad player st of
              (False, st1) \<Rightarrow> (False, st1)
            | (True, st1) \<Rightarrow>
                process_events player es
                  (st1\<lparr>gamepads := (gamepads st1)[player :=
                     (gamepads st1 ! player)\<lparr>gp_dropping_events := False\<rparr>]\<rparr>))
         else process_events player es st)
      else process_events player es
             (st\<lparr>gamepads := (gamepads st)[player := apply_event e (gamepads st ! player)]\<rparr>))"

fun drain_gamepad_loop :: "nat \<Rightarrow> input_event read_result list \<Rightarrow> input_state \<Rightarrow> bool \<times> input_state" where
  "drain_gamepad_loop player [] st = (True, st)"
| "drain_gamepad_loop player (Interrupted # rs) st = drain_gamepad_loop player rs st"
| "drain_gamepad_loop player (Would_block # rs) st = (True, st)"
| "drain_gamepad_loop player (Read_failed # rs) st = (False, st)"
| "drain_gamepad_loop player (Partial_event # rs) st = (False, st)"
| "drain_gamepad_loop player (Data es # rs) st =
     (if es = [] then (False, st)
      else
        (case process_events player es st of
           (False, st1) \<Rightarrow> (False, st1)
         | (True, st1) \<Rightarrow>
             (let g = gamepads st1 ! player in
              drain_gamepad_loop player rs
                (publish_states (st1\<lparr>gamepads := (gamepads st1)[player := g\<lparr>gp_state := gamepad_state g\<rparr>]\<rparr>)))))"

definition drain_gamepad :: "nat \<Rightarrow> input_event read_result list \<Rightarrow> input_state \<Rightarrow> bool \<times> input_state" where
  "drain_gamepad player rs st =
     (if kPlayerCount \<le> player \<or> gp_fd (gamepads st ! player) < 0 then (False, st)
      else drain_gamepad_loop player rs st)"

definition update_keys :: "bool \<Rightarrow> byte list \<Rightarrow> input_state \<Rightarrow> input_state" where
  "update_keys zx bytes st =
     foldl (\<lambda>s b. update_keyboard_key zx (unat (b AND 0x7f)) (b AND 0x80 = 0) s) st bytes"

fun drain_keyboard_loop :: "bool \<Rightarrow> byte read_result list \<Rightarrow> input_state \<Rightarrow> bool \<times> input_state" where
  "drain_keyboard_loop zx [] st = (True, st)"
| "drain_keyboard_loop zx (Interrupted # rs) st = drain_keyboard_loop zx rs st"
| "drain_keyboard_loop zx (Would_block # rs) st = (True, st)"
| "drain_keyboard_loop zx (Read_failed # rs) st = (False, st)"
| "drain_keyboard_loop zx (Partial_event # rs) st = (False, st)"
| "drain_keyboard_loop zx (Data bytes # rs) st =
     (if bytes = [] then (False, st)
      else drain_keyboard_loop zx rs (publish_states (update_keys zx bytes st)))"

definition drain_keyboard :: "bool \<Rightarrow> byte read_result list \<Rightarrow> input_state \<Rightarrow> bool \<times> input_state" where
  "drain_keyboard zx rs st = (if kb_fd st < 0 then (False, st) else drain_keyboard_loop zx rs st)"

definition close_keyboard :: "input_state \<Rightarrow> input_state" where
  "close_keyboard st =
     (let st1 = (if kb_fd_owned st \<and> 0 \<le> kb_fd st then st\<lparr>closed_fds := kb_fd st # closed_fds st\<rparr> else st)
      in publish_states (unlock_pads
           (st1\<lparr>kb_fd := -1, kb_fd_owned := False, keyboard_state := 0,
                keyboard_key_state := replicate 128 False\<rparr>)))"

subsection \<open>One ready descriptor of the input thread, and the queries\<close>

definition handle_keyboard_ready :: "bool \<Rightarrow> byte read_result list \<Rightarrow> input_state \<Rightarrow> input_state" where
  "handle_keyboard_ready zx rs st =
     (case drain_keyboard zx rs st of (True, st1) \<Rightarrow> st1 | (False, st1) \<Rightarrow> close_keyboard st1)"

definition handle_gamepad_ready :: "nat \<Rightarrow> input_event read_result list \<Rightarrow> input_state \<Rightarrow> input_state" where
  "handle_gamepad_ready player rs st =
     (case drain_gamepad player rs st of (True, st1) \<Rightarrow> st1 | (False, st1) \<Rightarrow> close_gamepad player True st1)"

definition input_cleanup :: "input_state \<Rightarrow> input_state" where
  "input_cleanup st =
     foldl (\<lambda>s player. close_gamepad player False s) (close_keyboard st) [0..<kPlayerCount]"

definition GetJoypadInput :: "nat \<Rightarrow> input_state \<Rightarrow> u32" where
  "GetJoypadInput player st = (if kPlayerCount \<le> player then 0 else pad_state st ! player)"

definition GetKeyboardInput :: "nat \<Rightarrow> input_state \<Rightarrow> int" where
  "GetKeyboardInput keycode st =
     (if length (keyboard_key_state st) \<le> keycode then 0
      else if keyboard_key_state st ! keycode then 1 else 0)"

section \<open>What a gamepad reports\<close>

lemma buttons_avoid_directions:
  "foldl (\<lambda>st index. if gp_raw_buttons g AND push_bit index 1 \<noteq> 0
      then st OR gamepad_key_to_pad (BTN_TRIGGER + index) else st) acc is AND 0xf0 = acc AND 0xf0"
proof (induction "is" arbitrary: acc)
  case (Cons i "is")
  have "gamepad_key_to_pad (BTN_TRIGGER + i) AND 0xf0 = 0"
    by (simp add: gamepad_key_to_pad_def pad_defs)
  then have "(acc OR gamepad_key_to_pad (BTN_TRIGGER + i)) AND 0xf0 = acc AND 0xf0"
    by (simp add: bit.conj_disj_distrib2)
  then show ?case using Cons by simp
qed simp

lemma axis_to_pad_cases: "axis_to_pad v lo hi n p \<in> {0, n, p}"
  by (simp add: axis_to_pad_def Let_def)

lemma direction_word:
  "(x :: u32) AND 0xf0 = 0 \<Longrightarrow> l \<in> {0, PAD_LEFT, PAD_RIGHT} \<Longrightarrow> u \<in> {0, PAD_UP, PAD_DOWN} \<Longrightarrow>
     ((x OR l) OR u) AND 0xf0 = l OR u"
proof -
  assume "x AND 0xf0 = 0" and l: "l \<in> {0, PAD_LEFT, PAD_RIGHT}" and u: "u \<in> {0, PAD_UP, PAD_DOWN}"
  then have "((x OR l) OR u) AND 0xf0 = (l AND 0xf0) OR (u AND 0xf0)"
    by (simp add: bit.conj_disj_distrib2)
  moreover have "l AND 0xf0 = l" "u AND 0xf0 = u" using l u by (auto simp: pad_defs)
  ultimately show ?thesis by (simp only:)
qed

lemma gamepad_state_directions:
  "gamepad_state g AND 0xf0 =
     axis_to_pad (gp_x_value g) (abs_minimum (gp_x_info g)) (abs_maximum (gp_x_info g)) PAD_LEFT PAD_RIGHT OR
     axis_to_pad (gp_y_value g) (abs_minimum (gp_y_info g)) (abs_maximum (gp_y_info g)) PAD_UP PAD_DOWN"
  unfolding gamepad_state_def
  by (rule direction_word [OF _ axis_to_pad_cases axis_to_pad_cases])
    (use buttons_avoid_directions [of g 0 "[0..<8]"] in simp)

text \<open>
  The axes' outer thirds are the directions, and a pad never reports opposite directions
  at once, whatever range and position its axes have.
\<close>

theorem gamepad_directions_exclusive:
  "gamepad_state g AND (PAD_LEFT OR PAD_RIGHT) \<noteq> PAD_LEFT OR PAD_RIGHT \<and>
   gamepad_state g AND (PAD_UP OR PAD_DOWN) \<noteq> PAD_UP OR PAD_DOWN"
proof -
  let ?l = "axis_to_pad (gp_x_value g) (abs_minimum (gp_x_info g)) (abs_maximum (gp_x_info g)) PAD_LEFT PAD_RIGHT"
  let ?u = "axis_to_pad (gp_y_value g) (abs_minimum (gp_y_info g)) (abs_maximum (gp_y_info g)) PAD_UP PAD_DOWN"
  have "gamepad_state g AND (PAD_LEFT OR PAD_RIGHT) = (gamepad_state g AND 0xf0) AND (PAD_LEFT OR PAD_RIGHT)"
    "gamepad_state g AND (PAD_UP OR PAD_DOWN) = (gamepad_state g AND 0xf0) AND (PAD_UP OR PAD_DOWN)"
    by (simp_all add: pad_defs and.assoc)
  moreover have "(?l OR ?u) AND (PAD_LEFT OR PAD_RIGHT) \<noteq> PAD_LEFT OR PAD_RIGHT"
    "(?l OR ?u) AND (PAD_UP OR PAD_DOWN) \<noteq> PAD_UP OR PAD_DOWN"
    using axis_to_pad_cases [of "gp_x_value g" "abs_minimum (gp_x_info g)" "abs_maximum (gp_x_info g)" PAD_LEFT PAD_RIGHT]
      axis_to_pad_cases [of "gp_y_value g" "abs_minimum (gp_y_info g)" "abs_maximum (gp_y_info g)" PAD_UP PAD_DOWN]
    by (auto simp: pad_defs)
  ultimately show ?thesis by (simp add: gamepad_state_directions)
qed

section \<open>The invariant of the input thread\<close>

text \<open>
  A closed slot reports nothing; the published words are the current ones; every keyboard
  button that is down is held by some key.
\<close>

definition slot_ok :: "GamepadDevice \<Rightarrow> bool" where
  "slot_ok g = (gp_fd g < 0 \<longrightarrow> gp_raw_buttons g = 0 \<and> gp_state g = 0 \<and> \<not> gp_dropping_events g)"

definition keys_justified :: "bool \<Rightarrow> input_state \<Rightarrow> bool" where
  "keys_justified zx st =
     (length (keyboard_key_state st) = 128 \<and>
      (\<forall>n. bit (keyboard_state st) n \<longrightarrow>
         (\<exists>k<128. keyboard_key_state st ! k \<and> bit (keycode_to_pad zx k) n)))"

definition published :: "input_state \<Rightarrow> bool" where
  "published st =
     (pad_state st = [keyboard_state st OR gp_state (gamepads st ! 0), gp_state (gamepads st ! 1)])"

definition slots_ok :: "input_state \<Rightarrow> bool" where
  "slots_ok st = (length (gamepads st) = 2 \<and> slot_ok (gamepads st ! 0) \<and> slot_ok (gamepads st ! 1))"

text \<open>
  What a release of the mutex does to the view: it publishes the words, each button of the first one
  reported by the first pad or held by a key that the view shows as held; or one key goes up or down;
  or all keys go up because the keyboard is gone.
\<close>

definition view_step :: "bool \<Rightarrow> input_view \<Rightarrow> input_view \<Rightarrow> bool" where
  "view_step zx new old =
     (view_keys new = view_keys old \<and> length (view_pads new) = 2 \<and>
        (\<exists>held. view_words new = [held OR view_pads new ! 0, view_pads new ! 1] \<and>
          (\<forall>n. bit held n \<longrightarrow> (\<exists>k<128. view_keys new ! k \<and> bit (keycode_to_pad zx k) n))) \<or>
      view_words new = view_words old \<and>
        ((\<exists>k<128. \<exists>pressed. view_keys new = (view_keys old)[k := pressed]) \<or> view_keys new = replicate 128 False))"

definition views_ok :: "bool \<Rightarrow> input_state \<Rightarrow> bool" where
  "views_ok zx st =
     (input_views st \<noteq> [] \<and> view_words (hd (input_views st)) = pad_state st \<and>
      view_keys (hd (input_views st)) = keyboard_key_state st \<and> successively (view_step zx) (input_views st))"

lemma unlock_views:
  assumes "views_ok zx st0" "input_views st = input_views st0"
    "view_step zx \<lparr>view_words = pad_state st, view_keys = keyboard_key_state st, view_pads = map gp_state (gamepads st)\<rparr>
       (hd (input_views st0))"
  shows "views_ok zx (unlock_pads st)"
  using assms by (cases "input_views st0") (auto simp: views_ok_def unlock_pads_def)

definition input_ok :: "bool \<Rightarrow> input_state \<Rightarrow> bool" where
  "input_ok zx st = (slots_ok st \<and> keys_justified zx st \<and> published st \<and> views_ok zx st)"

lemma less_two: "(p::nat) < 2 \<longleftrightarrow> p = 0 \<or> p = 1"
  by auto

lemma apply_snapshot_fd [simp]: "gp_fd (apply_snapshot snap g) = gp_fd g"
  by (simp add: apply_snapshot_def Let_def)

lemma unlock_frame [simp]:
  "gamepads (unlock_pads st) = gamepads st" "keyboard_state (unlock_pads st) = keyboard_state st"
  "keyboard_key_state (unlock_pads st) = keyboard_key_state st" "pad_state (unlock_pads st) = pad_state st"
  "closed_fds (unlock_pads st) = closed_fds st" "kb_fd (unlock_pads st) = kb_fd st"
  "ioctl_answers (unlock_pads st) = ioctl_answers st" "last_diagnostic_state (unlock_pads st) = last_diagnostic_state st"
  "slots_ok (unlock_pads st) = slots_ok st" "keys_justified zx (unlock_pads st) = keys_justified zx st"
  "published (unlock_pads st) = published st"
  by (simp_all add: unlock_pads_def slots_ok_def keys_justified_def published_def)

lemma publish_frame [simp]:
  "gamepads (publish_states st) = gamepads st" "keyboard_state (publish_states st) = keyboard_state st"
  "keyboard_key_state (publish_states st) = keyboard_key_state st"
  "closed_fds (publish_states st) = closed_fds st" "kb_fd (publish_states st) = kb_fd st"
  "ioctl_answers (publish_states st) = ioctl_answers st"
  by (simp_all add: publish_states_def Let_def)

lemma publish_published [simp]: "published (publish_states st)"
  by (simp add: published_def publish_states_def Let_def)

lemma publish_keeps [simp]:
  "slots_ok (publish_states st) = slots_ok st" "keys_justified zx (publish_states st) = keys_justified zx st"
  by (simp_all add: slots_ok_def keys_justified_def)

lemma publish_views:
  assumes "views_ok zx st" "keys_justified zx st" "slots_ok st"
  shows "views_ok zx (publish_states st)"
  unfolding publish_states_def Let_def
  by (rule unlock_views [OF assms(1)])
    (use assms in \<open>auto simp: view_step_def views_ok_def keys_justified_def slots_ok_def\<close>)

lemma publish_ok: "views_ok zx st \<Longrightarrow> keys_justified zx st \<Longrightarrow> slots_ok st \<Longrightarrow> input_ok zx (publish_states st)"
  by (simp add: input_ok_def publish_views)

lemma set_gamepad_frame [simp]:
  "keys_justified zx (st\<lparr>gamepads := gs\<rparr>) = keys_justified zx st"
  "keys_justified zx (st\<lparr>closed_fds := fs\<rparr>) = keys_justified zx st"
  "slots_ok (st\<lparr>closed_fds := fs\<rparr>) = slots_ok st"
  "published (st\<lparr>closed_fds := fs\<rparr>) = published st"
  "keys_justified zx (st\<lparr>ioctl_answers := a\<rparr>) = keys_justified zx st"
  "slots_ok (st\<lparr>ioctl_answers := a\<rparr>) = slots_ok st"
  "published (st\<lparr>ioctl_answers := a\<rparr>) = published st"
  "views_ok zx (st\<lparr>gamepads := gs\<rparr>) = views_ok zx st"
  "views_ok zx (st\<lparr>closed_fds := fs\<rparr>) = views_ok zx st"
  "views_ok zx (st\<lparr>ioctl_answers := a\<rparr>) = views_ok zx st"
  by (simp_all add: keys_justified_def slots_ok_def published_def views_ok_def)

lemma set_slot_ok:
  "slots_ok st \<Longrightarrow> p < 2 \<Longrightarrow> slot_ok g \<Longrightarrow> slots_ok (st\<lparr>gamepads := (gamepads st)[p := g]\<rparr>)"
  by (auto simp: slots_ok_def less_two)

lemma set_slot_published:
  "slots_ok st \<Longrightarrow> published st \<Longrightarrow> p < 2 \<Longrightarrow> gp_state g = gp_state (gamepads st ! p) \<Longrightarrow>
     published (st\<lparr>gamepads := (gamepads st)[p := g]\<rparr>)"
  by (auto simp: slots_ok_def published_def less_two)

lemma close_gamepad_ok:
  assumes "slots_ok st" "keys_justified zx st" "views_ok zx st" "p < 2"
  shows "input_ok zx (close_gamepad p r st)"
proof -
  let ?g = "(gamepads st ! p)\<lparr>gp_fd := -1, gp_path := [],
    gp_physical_path := (if r then gp_physical_path (gamepads st ! p) else []),
    gp_raw_buttons := 0, gp_state := 0, gp_dropping_events := False\<rparr>"
  let ?st1 = "if 0 \<le> gp_fd (gamepads st ! p) then st\<lparr>closed_fds := gp_fd (gamepads st ! p) # closed_fds st\<rparr> else st"
  have "slot_ok ?g" by (simp add: slot_ok_def)
  then have "slots_ok (?st1\<lparr>gamepads := (gamepads st)[p := ?g]\<rparr>)" using assms(1,4) by (auto simp: slots_ok_def less_two)
  moreover have "keys_justified zx (?st1\<lparr>gamepads := (gamepads st)[p := ?g]\<rparr>)"
    "views_ok zx (?st1\<lparr>gamepads := (gamepads st)[p := ?g]\<rparr>)" using assms(2,3) by simp_all
  ultimately show ?thesis using assms(4) by (simp add: close_gamepad_def Let_def kPlayerCount_def publish_ok)
qed

lemma resynchronize_ok:
  assumes "resynchronize_gamepad p st = (b, st')" "input_ok zx st" "p < 2"
  shows "input_ok zx st'"
proof -
  let ?g = "gamepads st ! p"
  show ?thesis
  proof (cases "0 \<le> gp_fd ?g \<and> (\<exists>snap answers. ioctl_answers st = Some snap # answers)")
    case True
    then obtain snap answers where a: "0 \<le> gp_fd ?g" "ioctl_answers st = Some snap # answers" by blast
    have "slot_ok (apply_snapshot snap ?g)" using a(1) by (simp add: slot_ok_def)
    then have "slots_ok (st\<lparr>gamepads := (gamepads st)[p := apply_snapshot snap ?g]\<rparr>)"
      using assms(2,3) by (intro set_slot_ok) (simp_all add: input_ok_def)
    moreover have "keys_justified zx st" "views_ok zx st" using assms(2) by (simp_all add: input_ok_def)
    ultimately show ?thesis
      using a assms(1) by (auto simp: resynchronize_gamepad_def intro!: publish_ok)
  next
    case False
    then have "st' = st \<or> (\<exists>answers. st' = st\<lparr>ioctl_answers := answers\<rparr>)"
      using assms(1) by (auto simp: resynchronize_gamepad_def Let_def split: if_splits list.splits option.splits)
    then show ?thesis using assms(2) by (auto simp: input_ok_def)
  qed
qed

lemma attach_candidate_ok:
  assumes "input_ok zx st" "p < 2" "gp_fd (gamepads st ! p) < 0"
  shows "input_ok zx (snd (attach_candidate p i (cs, st)))"
proof (cases "cd_fd (cs ! i) < 0")
  case True
  then show ?thesis using assms(1) by (simp add: attach_candidate_def)
next
  case False
  define g where "g = (gamepads st ! p)\<lparr>gp_fd := cd_fd (cs ! i), gp_path := cd_path (cs ! i),
       gp_physical_path := cd_physical_path (cs ! i), gp_x_info := cd_x_info (cs ! i),
       gp_y_info := cd_y_info (cs ! i), gp_x_value := abs_value (cd_x_info (cs ! i)),
       gp_y_value := abs_value (cd_y_info (cs ! i)), gp_raw_buttons := 0, gp_state := 0,
       gp_dropping_events := False\<rparr>"
  let ?st1 = "st\<lparr>gamepads := (gamepads st)[p := g]\<rparr>"
  have "slot_ok g" by (simp add: slot_ok_def g_def)
  moreover have "gp_state (gamepads st ! p) = 0"
    using assms by (auto simp: input_ok_def slots_ok_def slot_ok_def less_two)
  ultimately have "input_ok zx ?st1"
    using assms set_slot_ok [of st p g] set_slot_published [of st p g]
    by (simp add: input_ok_def g_def)
  then have "input_ok zx (snd (resynchronize_gamepad p ?st1))"
    using resynchronize_ok [of p ?st1] assms(2) by (cases "resynchronize_gamepad p ?st1") auto
  then show ?thesis
    using False assms(2) by (simp add: attach_candidate_def Let_def kPlayerCount_def g_def)
qed

lemma attach_first_ok:
  "input_ok zx (snd s) \<Longrightarrow> p < 2 \<Longrightarrow> gp_fd (gamepads (snd s) ! p) < 0 \<Longrightarrow> input_ok zx (snd (attach_first w p s))"
  using attach_candidate_ok [of zx "snd s" p _ "fst s"] by (auto simp: attach_first_def split: option.split)

lemma reconnect_ok: "input_ok zx (snd s) \<Longrightarrow> p < 2 \<Longrightarrow> input_ok zx (snd (reconnect_player p s))"
  by (auto simp: reconnect_player_def Let_def intro: attach_first_ok)

lemma fill_ok: "input_ok zx (snd s) \<Longrightarrow> p < 2 \<Longrightarrow> input_ok zx (snd (fill_player p s))"
  by (auto simp: fill_player_def Let_def intro: attach_first_ok)

lemma reuse_ok: "input_ok zx (snd s) \<Longrightarrow> input_ok zx (snd (reuse_slot i s))"
proof -
  assume ok: "input_ok zx (snd s)"
  show ?thesis
  proof (cases "List.find (\<lambda>player. gp_fd (gamepads (snd s) ! player) < 0) [0..<kPlayerCount]")
    case None
    then show ?thesis using ok by (simp add: reuse_slot_def)
  next
    case (Some p)
    then have p: "p < 2" "gp_fd (gamepads (snd s) ! p) < 0"
      by (auto simp: find_Some_iff kPlayerCount_def nth_upt)
    define g where "g = (gamepads (snd s) ! p)\<lparr>gp_physical_path := []\<rparr>"
    let ?st = "(snd s)\<lparr>gamepads := (gamepads (snd s))[p := g]\<rparr>"
    have len: "length (gamepads (snd s)) = 2" using ok by (simp add: input_ok_def slots_ok_def)
    have "slot_ok g" using ok p by (auto simp: g_def slot_ok_def input_ok_def slots_ok_def less_two)
    then have "input_ok zx ?st"
      using ok p set_slot_ok [of "snd s" p g] set_slot_published [of "snd s" p g]
      by (simp add: input_ok_def g_def)
    then have "input_ok zx (snd (attach_candidate p i (fst s, ?st)))"
      using p len by (intro attach_candidate_ok) (auto simp: g_def)
    then show ?thesis using ok Some by (simp add: reuse_slot_def Let_def g_def)
  qed
qed

lemma foldl_keeps: "(\<And>s x. P s \<Longrightarrow> x \<in> set xs \<Longrightarrow> P (f s x)) \<Longrightarrow> P s \<Longrightarrow> P (foldl f s xs)"
  by (induction xs arbitrary: s) auto

lemma assign_ok: "input_ok zx st \<Longrightarrow> input_ok zx (assign_candidates cs st)"
proof -
  assume ok: "input_ok zx st"
  have "input_ok zx (snd (foldl (\<lambda>s player. reconnect_player player s) (cs, st) [0..<kPlayerCount]))"
    by (rule foldl_keeps [where P = "\<lambda>s. input_ok zx (snd s)"]) (use ok in \<open>auto simp: kPlayerCount_def intro: reconnect_ok\<close>)
  then have "input_ok zx (snd (foldl (\<lambda>s player. fill_player player s)
      (foldl (\<lambda>s player. reconnect_player player s) (cs, st) [0..<kPlayerCount]) [0..<kPlayerCount]))"
    by (rule foldl_keeps [where P = "\<lambda>s. input_ok zx (snd s)", rotated]) (auto simp: kPlayerCount_def intro: fill_ok)
  then have "input_ok zx (snd (foldl (\<lambda>s i. reuse_slot i s) (foldl (\<lambda>s player. fill_player player s)
      (foldl (\<lambda>s player. reconnect_player player s) (cs, st) [0..<kPlayerCount]) [0..<kPlayerCount])
      [0..<length cs]))"
    by (rule foldl_keeps [where P = "\<lambda>s. input_ok zx (snd s)", rotated]) (auto intro: reuse_ok)
  then show ?thesis by (simp add: assign_candidates_def Let_def close_candidates_def input_ok_def)
qed

lemma collect_ok: "input_ok zx st \<Longrightarrow> input_ok zx (snd (collect_candidates es (cs, st)))"
  by (induction es arbitrary: cs st) (auto simp: input_ok_def split: option.split)

lemma scan_ok: "input_ok zx st \<Longrightarrow> input_ok zx (scan_gamepads d st)"
  using assign_ok collect_ok
  by (auto simp: scan_gamepads_def split: option.split prod.split) (metis snd_conv)

lemma apply_event_frame [simp]:
  "gp_fd (apply_event e g) = gp_fd g" "gp_state (apply_event e g) = gp_state g"
  by (simp_all add: apply_event_def Let_def)

lemma resynchronize_fd:
  "resynchronize_gamepad p st = (b, st') \<Longrightarrow> length (gamepads st) = 2 \<Longrightarrow> p < 2 \<Longrightarrow>
     length (gamepads st') = 2 \<and> gp_fd (gamepads st' ! p) = gp_fd (gamepads st ! p)"
  by (auto simp: resynchronize_gamepad_def Let_def split: if_splits list.splits option.splits)

lemma process_events_ok:
  "process_events p es st = (b, st') \<Longrightarrow> input_ok zx st \<Longrightarrow> p < 2 \<Longrightarrow> 0 \<le> gp_fd (gamepads st ! p) \<Longrightarrow>
     input_ok zx st' \<and> 0 \<le> gp_fd (gamepads st' ! p)"
proof (induction p es st rule: process_events.induct)
  case (2 p e es st)
  note len = "2.prems"(2) [unfolded input_ok_def slots_ok_def]
  show ?case
  proof (cases "gp_dropping_events (gamepads st ! p)")
    case False
    let ?g = "apply_event e (gamepads st ! p)"
    have "slot_ok ?g" using "2.prems"(4) by (simp add: slot_ok_def)
    then have "input_ok zx (st\<lparr>gamepads := (gamepads st)[p := ?g]\<rparr>)"
      using "2.prems"(2,3) set_slot_ok [of st p ?g] set_slot_published [of st p ?g]
      by (simp add: input_ok_def)
    then show ?thesis using "2.IH"(3) [OF False] "2.prems" False len by auto
  next
    case True
    show ?thesis
    proof (cases "ev_type e = EV_SYN \<and> ev_code e = SYN_REPORT")
      case no: False
      then show ?thesis using "2.IH"(2) [OF True no] "2.prems" True by auto
    next
      case yes: True
      obtain b1 st1 where rs: "resynchronize_gamepad p st = (b1, st1)" by fastforce
      have ok1: "input_ok zx st1" using resynchronize_ok [OF rs "2.prems"(2,3)] .
      note fd1 = resynchronize_fd [OF rs _ "2.prems"(3)]
      show ?thesis
      proof (cases b1)
        case False
        then show ?thesis using "2.prems" True yes rs ok1 fd1 len by auto
      next
        case b1: True
        let ?g = "(gamepads st1 ! p)\<lparr>gp_dropping_events := False\<rparr>"
        have "slot_ok ?g" using "2.prems"(4) fd1 len by (simp add: slot_ok_def)
        then have "input_ok zx (st1\<lparr>gamepads := (gamepads st1)[p := ?g]\<rparr>)"
          using ok1 "2.prems"(3) set_slot_ok [of st1 p ?g] set_slot_published [of st1 p ?g]
          by (simp add: input_ok_def)
        then show ?thesis
          using "2.IH"(1) [OF True yes rs [symmetric]] "2.prems" True yes rs b1 fd1 len by auto
      qed
    qed
  qed
qed simp

lemma drain_gamepad_ok:
  "drain_gamepad_loop p rs st = (b, st') \<Longrightarrow> input_ok zx st \<Longrightarrow> p < 2 \<Longrightarrow> 0 \<le> gp_fd (gamepads st ! p) \<Longrightarrow>
     input_ok zx st'"
proof (induction p rs st rule: drain_gamepad_loop.induct)
  case (6 p es rs st)
  show ?case
  proof (cases "es = []")
    case False
    obtain b1 st1 where pe: "process_events p es st = (b1, st1)" by fastforce
    note ok1 = process_events_ok [OF pe "6.prems"(2-4)]
    show ?thesis
    proof (cases "b1 = True")
      case True
      let ?g = "(gamepads st1 ! p)\<lparr>gp_state := gamepad_state (gamepads st1 ! p)\<rparr>"
      have "slot_ok ?g" using ok1 by (simp add: slot_ok_def)
      then have "slots_ok (st1\<lparr>gamepads := (gamepads st1)[p := ?g]\<rparr>)"
        using ok1 "6.prems"(3) by (intro set_slot_ok) (simp_all add: input_ok_def)
      then have "input_ok zx (publish_states (st1\<lparr>gamepads := (gamepads st1)[p := ?g]\<rparr>))"
        using ok1 by (intro publish_ok) (simp_all add: input_ok_def)
      moreover have "length (gamepads st1) = 2" using ok1 by (simp add: input_ok_def slots_ok_def)
      ultimately show ?thesis
        using "6.IH" [OF False pe [unfolded True, symmetric] refl refl] "6.prems" False pe True ok1
        by (simp add: Let_def)
    qed (use "6.prems" False pe ok1 in auto)
  qed (use "6.prems" in auto)
qed auto

lemma update_key_justified:
  assumes "keys_justified zx st" "k < 128"
  shows "keys_justified zx (update_keyboard_key zx k pressed st)"
  unfolding keys_justified_def
proof (intro conjI allI impI)
  let ?st' = "update_keyboard_key zx k pressed st"
  show "length (keyboard_key_state ?st') = 128"
    using assms(1) by (simp add: update_keyboard_key_def Let_def keys_justified_def)
  have len: "length (keyboard_key_state st) = 128" using assms(1) by (simp add: keys_justified_def)
  fix n
  assume b: "bit (keyboard_state ?st') n"
  have keys: "keyboard_key_state ?st' = (keyboard_key_state st)[k := pressed]"
    by (simp add: update_keyboard_key_def Let_def)
  show "\<exists>j<128. keyboard_key_state ?st' ! j \<and> bit (keycode_to_pad zx j) n"
  proof (cases "pressed \<and> bit (keycode_to_pad zx k) n")
    case True
    then show ?thesis using keys assms(2) len by (intro exI [of _ k]) simp
  next
    case False
    have old: "bit (keyboard_state st) n" "\<not> pressed \<Longrightarrow> \<not> bit (keycode_to_pad zx k) n"
      using b False by (auto simp: update_keyboard_key_def Let_def bit_simps split: if_splits)
    then obtain j where j: "j < 128" "keyboard_key_state st ! j" "bit (keycode_to_pad zx j) n"
      using assms(1) by (auto simp: keys_justified_def)
    then have "keyboard_key_state ?st' ! j"
      using keys old(2) len by (cases "j = k") auto
    then show ?thesis using j by blast
  qed
qed

lemma and_7f: "unat ((b :: byte) AND 0x7f) < 128"
proof -
  have "b AND 0x7f \<le> 0x7f" by (rule word_and_le1)
  then show ?thesis by (simp add: word_le_nat_alt)
qed

lemma update_keys_justified: "keys_justified zx st \<Longrightarrow> keys_justified zx (update_keys zx bytes st)"
  unfolding update_keys_def by (rule foldl_keeps) (auto intro: update_key_justified and_7f)

lemma update_key_views:
  assumes "views_ok zx st" "k < 128"
  shows "views_ok zx (update_keyboard_key zx k pressed st)"
  unfolding update_keyboard_key_def Let_def
  by (rule unlock_views [OF assms(1)]) (use assms in \<open>auto simp: view_step_def views_ok_def\<close>)

lemma update_keys_views: "views_ok zx st \<Longrightarrow> views_ok zx (update_keys zx bytes st)"
  unfolding update_keys_def by (rule foldl_keeps) (auto intro: update_key_views and_7f)

lemma update_keys_gamepads [simp]: "gamepads (update_keys zx bytes st) = gamepads st"
proof -
  have "gamepads (update_keyboard_key zx k p s) = gamepads s" for k p s
    by (simp add: update_keyboard_key_def Let_def)
  then show ?thesis
    unfolding update_keys_def by (induction bytes arbitrary: st) simp_all
qed

lemma drain_keyboard_ok: "drain_keyboard_loop zx rs st = (b, st') \<Longrightarrow> input_ok zx st \<Longrightarrow> input_ok zx st'"
proof (induction zx rs st rule: drain_keyboard_loop.induct)
  case (6 zx bytes rs st)
  show ?case
  proof (cases "bytes = []")
    case False
    have "input_ok zx (publish_states (update_keys zx bytes st))"
      using 6(3) by (intro publish_ok)
        (simp_all add: input_ok_def slots_ok_def update_keys_views update_keys_justified)
    with 6(1,2) False show ?thesis by simp
  qed (use 6(2,3) in simp)
qed auto

lemma close_keyboard_ok:
  assumes "input_ok zx st"
  shows "input_ok zx (close_keyboard st)"
proof -
  let ?st1 = "if kb_fd_owned st \<and> 0 \<le> kb_fd st then st\<lparr>closed_fds := kb_fd st # closed_fds st\<rparr> else st"
  let ?st2 = "?st1\<lparr>kb_fd := -1, kb_fd_owned := False, keyboard_state := 0, keyboard_key_state := replicate 128 False\<rparr>"
  have ok: "views_ok zx st" "slots_ok st" using assms by (simp_all add: input_ok_def)
  have "views_ok zx (unlock_pads ?st2)"
    by (rule unlock_views [OF ok(1)]) (use ok(1) in \<open>auto simp: view_step_def views_ok_def\<close>)
  moreover have "slots_ok ?st2" "keys_justified zx ?st2" using ok(2) by (simp_all add: slots_ok_def keys_justified_def)
  ultimately show ?thesis by (simp add: close_keyboard_def Let_def publish_ok)
qed

lemma input_cleanup_ok: "input_ok zx st \<Longrightarrow> input_ok zx (input_cleanup st)"
  unfolding input_cleanup_def
proof (rule foldl_keeps [where P = "input_ok zx"])
  fix s player assume ok: "input_ok zx s" "player \<in> set [0..<kPlayerCount]"
  then show "input_ok zx (close_gamepad player False s)"
    by (intro close_gamepad_ok) (simp_all add: input_ok_def kPlayerCount_def)
qed (rule close_keyboard_ok)

text \<open>The steps of the input thread and the states they reach.\<close>

inductive input_step :: "bool \<Rightarrow> input_state \<Rightarrow> input_state \<Rightarrow> bool" for zx where
  step_scan: "input_step zx st (scan_gamepads directory st)"
| step_keyboard: "input_step zx st (handle_keyboard_ready zx rs st)"
| step_gamepad: "p < kPlayerCount \<Longrightarrow> input_step zx st (handle_gamepad_ready p events st)"
| step_cleanup: "input_step zx st (input_cleanup st)"

inductive_cases input_stepE: "input_step zx st st'"

inductive reachable :: "bool \<Rightarrow> input_state \<Rightarrow> input_state \<Rightarrow> bool" for zx start where
  reachable_start: "reachable zx start start"
| reachable_step: "reachable zx start st \<Longrightarrow> input_step zx st st' \<Longrightarrow> reachable zx start st'"

lemma input_step_ok: "input_step zx st st' \<Longrightarrow> input_ok zx st \<Longrightarrow> input_ok zx st'"
proof (erule input_stepE)
  fix d assume "input_ok zx st" "st' = scan_gamepads d st"
  then show ?thesis by (simp add: scan_ok)
next
  fix rs assume ok: "input_ok zx st" and "st' = handle_keyboard_ready zx rs st"
  obtain b st1 where d: "drain_keyboard zx rs st = (b, st1)" by fastforce
  have "input_ok zx st1" using d ok drain_keyboard_ok by (auto simp: drain_keyboard_def split: if_splits)
  then show ?thesis
    using \<open>st' = _\<close> d close_keyboard_ok by (auto simp: handle_keyboard_ready_def split: bool.split)
next
  fix p es assume ok: "input_ok zx st" and p: "p < kPlayerCount" and "st' = handle_gamepad_ready p es st"
  obtain b st1 where d: "drain_gamepad p es st = (b, st1)" by fastforce
  have "input_ok zx st1"
    using d ok p drain_gamepad_ok [of p es st] by (auto simp: drain_gamepad_def kPlayerCount_def split: if_splits)
  then show ?thesis
    using \<open>st' = _\<close> d p close_gamepad_ok [of st1 zx p True]
    by (auto simp: handle_gamepad_ready_def kPlayerCount_def input_ok_def split: bool.split)
next
  assume "input_ok zx st" "st' = input_cleanup st"
  then show ?thesis by (simp add: input_cleanup_ok)
qed

definition initial_input :: "int \<Rightarrow> snapshot option list \<Rightarrow> input_state" where
  "initial_input keyboard answers =
     \<lparr>kb_fd = keyboard, kb_fd_owned = (0 \<le> keyboard), keyboard_state = 0,
      keyboard_key_state = replicate 128 False,
      gamepads = replicate 2 \<lparr>gp_fd = -1, gp_path = [], gp_physical_path = [],
        gp_x_info = \<lparr>abs_value = 0, abs_minimum = 0, abs_maximum = 0\<rparr>,
        gp_y_info = \<lparr>abs_value = 0, abs_minimum = 0, abs_maximum = 0\<rparr>, gp_raw_buttons = 0,
        gp_x_value = 0, gp_y_value = 0, gp_state = 0, gp_dropping_events = False\<rparr>,
      pad_state = [0, 0], last_diagnostic_state = [0, 0], closed_fds = [], ioctl_answers = answers,
      input_views = [\<lparr>view_words = [0, 0], view_keys = replicate 128 False, view_pads = [0, 0]\<rparr>]\<rparr>"

lemma initial_input_ok: "input_ok zx (initial_input keyboard answers)"
  by (simp add: initial_input_def input_ok_def slots_ok_def slot_ok_def keys_justified_def published_def views_ok_def)

lemma reachable_ok: "reachable zx start st \<Longrightarrow> input_ok zx start \<Longrightarrow> input_ok zx st"
  by (induction rule: reachable.induct) (auto intro: input_step_ok)

text \<open>
  C30. Whenever the input thread is between two descriptors, the words the emulators read are the
  current ones (keyboard and first pad for player one, second pad for player two), a disconnected
  pad reports no button, and each button of player one is reported by the first pad or held by a key
  that reads as pressed.  And whatever other threads read while a descriptor is being handled is one
  of a chain of views, from one to the next of which a single key changes, all keys go up, or words
  are published, of which the same holds as above.
\<close>

theorem input_invariant:
  assumes "reachable zx (initial_input keyboard answers) st"
  shows "GetJoypadInput 0 st = keyboard_state st OR gp_state (gamepads st ! 0) \<and>
    GetJoypadInput 1 st = gp_state (gamepads st ! 1) \<and>
    (\<forall>player < 2. gp_fd (gamepads st ! player) < 0 \<longrightarrow> gp_state (gamepads st ! player) = 0) \<and>
    (\<forall>n. bit (GetJoypadInput 0 st) n \<longrightarrow> bit (gp_state (gamepads st ! 0)) n \<or>
       (\<exists>k. GetKeyboardInput k st = 1 \<and> bit (keycode_to_pad zx k) n)) \<and>
    view_words (hd (input_views st)) = pad_state st \<and> view_keys (hd (input_views st)) = keyboard_key_state st \<and>
    successively (view_step zx) (input_views st)"
proof -
  have ok: "input_ok zx st" using reachable_ok [OF assms initial_input_ok] .
  then have pub: "GetJoypadInput 0 st = keyboard_state st OR gp_state (gamepads st ! 0)"
    "GetJoypadInput 1 st = gp_state (gamepads st ! 1)"
    by (simp_all add: input_ok_def published_def GetJoypadInput_def kPlayerCount_def)
  have "\<exists>k. GetKeyboardInput k st = 1 \<and> bit (keycode_to_pad zx k) n" if n: "bit (keyboard_state st) n" for n
  proof -
    obtain k where "k < 128" "keyboard_key_state st ! k" "bit (keycode_to_pad zx k) n" "length (keyboard_key_state st) = 128"
      using ok n by (auto simp: input_ok_def keys_justified_def)
    then show ?thesis by (intro exI [of _ k]) (simp add: GetKeyboardInput_def)
  qed
  moreover have "\<forall>player < 2. gp_fd (gamepads st ! player) < 0 \<longrightarrow> gp_state (gamepads st ! player) = 0"
    using ok by (auto simp: input_ok_def slots_ok_def slot_ok_def less_two)
  moreover have "views_ok zx st" using ok by (simp add: input_ok_def)
  ultimately show ?thesis unfolding pub by (simp add: views_ok_def bit_or_iff disj_commute)
qed

lemma input_invariant_witness:
  "successively (view_step False) (input_views (handle_keyboard_ready False [Data [0x39]] (initial_input 3 [])))"
  using input_invariant [of False 3 "[]" "handle_keyboard_ready False [Data [0x39]] (initial_input 3 [])"]
    reachable_step [OF reachable_start step_keyboard] by blast

text \<open>Between a key's press and the next publication the key reads as held and its button as released.\<close>

lemma key_before_button:
  "map (\<lambda>v. (view_words v ! 0, view_keys v ! 0x39)) (input_views (handle_keyboard_ready False [Data [0x39]] (initial_input 3 []))) =
     [(PAD_A, True), (0, True), (0, False)]"
  by (simp add: handle_keyboard_ready_def drain_keyboard_def update_keys_def update_keyboard_key_def Let_def initial_input_def
      keycode_to_pad_def pad_defs publish_states_def unlock_pads_def)

text \<open>
  Two keys may share a button.  Releasing one of them releases the button although the other
  is still held.
\<close>

lemma shared_button_released:
  "let st = snd (drain_keyboard False [Data [0x39, 0x2c, 0xac]] (initial_input 3 [])) in
     GetKeyboardInput 0x39 st = 1 \<and> GetJoypadInput 0 st = 0"
  by (simp add: drain_keyboard_def update_keys_def update_keyboard_key_def Let_def initial_input_def
      keycode_to_pad_def pad_defs GetKeyboardInput_def GetJoypadInput_def kPlayerCount_def
      publish_states_def unlock_pads_def)

section \<open>Slot assignment loses no descriptor\<close>

definition live :: "int list \<Rightarrow> int multiset" where
  "live fds = mset (filter (\<lambda>fd. 0 \<le> fd) fds)"

definition owned :: "input_state \<Rightarrow> int multiset" where
  "owned st = live (map gp_fd (gamepads st)) + mset (closed_fds st)"

definition pool :: "GamepadCandidate list \<times> input_state \<Rightarrow> int multiset" where
  "pool s = live (map cd_fd (fst s)) + owned (snd s)"

lemma live_append: "live (xs @ ys) = live xs + live ys"
  by (simp add: live_def)

lemma live_Nil [simp]: "live [] = {#}"
  by (simp add: live_def)

lemma live_update: "i < length xs \<Longrightarrow> live (xs[i := y]) + live [xs ! i] = live xs + live [y]"
proof -
  assume i: "i < length xs"
  have "live xs = live (take i xs) + (live [xs ! i] + live (drop (Suc i) xs))"
    by (subst id_take_nth_drop [OF i]) (simp only: live_append [symmetric] append_Cons append_Nil)
  moreover have "live (xs[i := y]) = live (take i xs) + (live [y] + live (drop (Suc i) xs))"
    by (subst upd_conv_take_nth_drop [OF i]) (simp only: live_append [symmetric] append_Cons append_Nil)
  ultimately show ?thesis by (simp add: add.commute add.left_commute add.assoc)
qed

lemma resynchronize_owned:
  "length (gamepads st) = 2 \<Longrightarrow> p < 2 \<Longrightarrow>
     map gp_fd (gamepads (snd (resynchronize_gamepad p st))) = map gp_fd (gamepads st) \<and>
     map gp_physical_path (gamepads (snd (resynchronize_gamepad p st))) = map gp_physical_path (gamepads st) \<and>
     closed_fds (snd (resynchronize_gamepad p st)) = closed_fds st \<and>
     (\<forall>q. q \<noteq> p \<longrightarrow> gamepads (snd (resynchronize_gamepad p st)) ! q = gamepads st ! q)"
  by (auto simp: resynchronize_gamepad_def Let_def map_update apply_snapshot_def list_update_same_conv
      split: list.split option.split)

text \<open>What attaching a candidate to an empty slot does to the descriptors and the slots.\<close>

lemma attach_candidate_effect:
  assumes "length (gamepads st) = 2" "p < 2" "i < length cs" "gp_fd (gamepads st ! p) < 0" "0 \<le> cd_fd (cs ! i)"
  obtains st' where "attach_candidate p i (cs, st) = (cs[i := (cs ! i)\<lparr>cd_fd := -1\<rparr>], st')"
    "map gp_fd (gamepads st') = (map gp_fd (gamepads st))[p := cd_fd (cs ! i)]"
    "map gp_physical_path (gamepads st') = (map gp_physical_path (gamepads st))[p := cd_physical_path (cs ! i)]"
    "closed_fds st' = closed_fds st" "\<forall>q. q \<noteq> p \<longrightarrow> gamepads st' ! q = gamepads st ! q"
proof -
  define g where "g = (gamepads st ! p)\<lparr>gp_fd := cd_fd (cs ! i), gp_path := cd_path (cs ! i),
       gp_physical_path := cd_physical_path (cs ! i), gp_x_info := cd_x_info (cs ! i),
       gp_y_info := cd_y_info (cs ! i), gp_x_value := abs_value (cd_x_info (cs ! i)),
       gp_y_value := abs_value (cd_y_info (cs ! i)), gp_raw_buttons := 0, gp_state := 0,
       gp_dropping_events := False\<rparr>"
  let ?st1 = "st\<lparr>gamepads := (gamepads st)[p := g]\<rparr>"
  have eq: "attach_candidate p i (cs, st) =
      (cs[i := (cs ! i)\<lparr>cd_fd := -1\<rparr>], snd (resynchronize_gamepad p ?st1))"
    using assms by (simp add: attach_candidate_def Let_def kPlayerCount_def g_def)
  have g: "gp_fd g = cd_fd (cs ! i)" "gp_physical_path g = cd_physical_path (cs ! i)"
    by (simp_all add: g_def)
  have "length (gamepads ?st1) = 2" using assms(1) by simp
  note r = resynchronize_owned [OF this assms(2)]
  show thesis
    by (rule that [OF eq]) (use r g in \<open>auto simp: map_update\<close>)
qed

lemma attach_candidate_pool:
  assumes "length (gamepads st) = 2" "p < 2" "i < length cs" "gp_fd (gamepads st ! p) < 0" "0 \<le> cd_fd (cs ! i)"
  shows "pool (attach_candidate p i (cs, st)) = pool (cs, st)"
    "length (gamepads (snd (attach_candidate p i (cs, st)))) = 2"
    "length (fst (attach_candidate p i (cs, st))) = length cs"
proof -
  from attach_candidate_effect [OF assms] obtain st' where
    st': "attach_candidate p i (cs, st) = (cs[i := (cs ! i)\<lparr>cd_fd := -1\<rparr>], st')"
    "map gp_fd (gamepads st') = (map gp_fd (gamepads st))[p := cd_fd (cs ! i)]"
    "closed_fds st' = closed_fds st" by metis
  have "live (map cd_fd (cs[i := (cs ! i)\<lparr>cd_fd := -1\<rparr>])) + live [cd_fd (cs ! i)] = live (map cd_fd cs)"
    using live_update [of i "map cd_fd cs" "-1"] assms(3) by (simp add: map_update live_def)
  moreover have "live (map gp_fd (gamepads st')) = live (map gp_fd (gamepads st)) + live [cd_fd (cs ! i)]"
    using live_update [of p "map gp_fd (gamepads st)" "cd_fd (cs ! i)"] st'(2) assms(1,2,4)
    by (simp add: live_def)
  ultimately show "pool (attach_candidate p i (cs, st)) = pool (cs, st)"
    by (simp add: pool_def owned_def st' add.assoc add.left_commute) (metis add.commute add.left_commute)
  show "length (gamepads (snd (attach_candidate p i (cs, st)))) = 2"
    using st'(1) arg_cong [OF st'(2), of length] assms(1) by simp
  show "length (fst (attach_candidate p i (cs, st))) = length cs" by (simp add: st'(1))
qed

text \<open>Connected slots are never touched while candidates are assigned.\<close>

definition assign_frame :: "GamepadCandidate list \<times> input_state \<Rightarrow> GamepadCandidate list \<times> input_state \<Rightarrow> bool" where
  "assign_frame s t =
     (length (gamepads (snd t)) = 2 \<and> length (fst t) = length (fst s) \<and> pool t = pool s \<and>
      (\<forall>q<2. 0 \<le> gp_fd (gamepads (snd s) ! q) \<longrightarrow> gamepads (snd t) ! q = gamepads (snd s) ! q))"

lemma assign_frame_refl: "length (gamepads (snd s)) = 2 \<Longrightarrow> assign_frame s s"
  by (simp add: assign_frame_def)

lemma assign_frame_trans: "assign_frame s t \<Longrightarrow> assign_frame t u \<Longrightarrow> assign_frame s u"
  by (auto simp: assign_frame_def)

lemma attach_frame:
  assumes "length (gamepads (snd s)) = 2" "p < 2" "i < length (fst s)" "gp_fd (gamepads (snd s) ! p) < 0"
    "0 \<le> cd_fd (fst s ! i)"
  shows "assign_frame s (attach_candidate p i s)"
proof -
  obtain cs st where s: "s = (cs, st)" by fastforce
  from attach_candidate_effect [of st p i cs] assms obtain st' where
    st': "attach_candidate p i (cs, st) = (cs[i := (cs ! i)\<lparr>cd_fd := -1\<rparr>], st')"
    "\<forall>q. q \<noteq> p \<longrightarrow> gamepads st' ! q = gamepads st ! q" unfolding s by auto
  have "q \<noteq> p" if "0 \<le> gp_fd (gamepads st ! q)" for q using assms(4) that s by auto
  then show ?thesis
    using attach_candidate_pool [of st p i cs] assms st' s by (simp add: assign_frame_def)
qed

lemma attach_first_frame:
  assumes "length (gamepads (snd s)) = 2" "p < 2" "gp_fd (gamepads (snd s) ! p) < 0"
  shows "assign_frame s (attach_first w p s)"
proof (cases "List.find (\<lambda>i. 0 \<le> cd_fd (fst s ! i) \<and> w (fst s ! i)) [0..<length (fst s)]")
  case None
  then show ?thesis using assms by (simp add: attach_first_def assign_frame_refl)
next
  case (Some i)
  then have "i < length (fst s)" "0 \<le> cd_fd (fst s ! i)" by (auto simp: find_Some_iff)
  then show ?thesis using Some assms attach_frame by (simp add: attach_first_def)
qed

lemma reconnect_frame: "length (gamepads (snd s)) = 2 \<Longrightarrow> p < 2 \<Longrightarrow> assign_frame s (reconnect_player p s)"
  by (auto simp: reconnect_player_def Let_def intro: attach_first_frame assign_frame_refl)

lemma fill_frame: "length (gamepads (snd s)) = 2 \<Longrightarrow> p < 2 \<Longrightarrow> assign_frame s (fill_player p s)"
  by (auto simp: fill_player_def Let_def intro: attach_first_frame assign_frame_refl)

lemma reuse_frame:
  assumes len: "length (gamepads (snd s)) = 2" and i: "i < length (fst s)"
  shows "assign_frame s (reuse_slot i s)"
proof (cases "cd_fd (fst s ! i) < 0 \<or>
    List.find (\<lambda>player. gp_fd (gamepads (snd s) ! player) < 0) [0..<kPlayerCount] = None")
  case True
  then show ?thesis using len by (auto simp: reuse_slot_def assign_frame_refl split: option.split)
next
  case False
  then obtain p where f: "List.find (\<lambda>player. gp_fd (gamepads (snd s) ! player) < 0) [0..<kPlayerCount] = Some p"
    "0 \<le> cd_fd (fst s ! i)" by auto
  then have p: "p < 2" "gp_fd (gamepads (snd s) ! p) < 0" by (auto simp: find_Some_iff kPlayerCount_def)
  define st where "st = (snd s)\<lparr>gamepads := (gamepads (snd s))[p := (gamepads (snd s) ! p)\<lparr>gp_physical_path := []\<rparr>]\<rparr>"
  have fd: "map gp_fd (gamepads st) = map gp_fd (gamepads (snd s))" "length (gamepads st) = 2"
    "gp_fd (gamepads st ! p) < 0"
    using p len by (auto simp: st_def map_update list_update_same_conv)
  have "pool (fst s, st) = pool s" by (simp add: pool_def owned_def fd(1)) (simp add: st_def)
  moreover have "\<forall>q<2. 0 \<le> gp_fd (gamepads (snd s) ! q) \<longrightarrow> gamepads st ! q = gamepads (snd s) ! q"
  proof (intro allI impI)
    fix q assume "q < 2" "0 \<le> gp_fd (gamepads (snd s) ! q)"
    then have "q \<noteq> p" using p(2) by auto
    then show "gamepads st ! q = gamepads (snd s) ! q" by (simp add: st_def)
  qed
  ultimately have "assign_frame s (fst s, st)" using fd(2) by (simp add: assign_frame_def)
  moreover have "assign_frame (fst s, st) (attach_candidate p i (fst s, st))"
    using fd p f(2) i by (intro attach_frame) auto
  ultimately show ?thesis
    using f by (auto simp: reuse_slot_def Let_def st_def intro: assign_frame_trans)
qed

lemma foldl_frame:
  assumes "\<And>s x. length (gamepads (snd s)) = 2 \<Longrightarrow> length (fst s) = n \<Longrightarrow> x \<in> set xs \<Longrightarrow> assign_frame s (f s x)"
    "length (gamepads (snd s)) = 2" "length (fst s) = n"
  shows "assign_frame s (foldl f s xs)"
  using assms
proof (induction xs arbitrary: s)
  case (Cons x xs)
  have one: "assign_frame s (f s x)" using Cons.prems by simp
  then have "length (gamepads (snd (f s x))) = 2" "length (fst (f s x)) = n"
    using Cons.prems(3) by (auto simp: assign_frame_def)
  then have "assign_frame (f s x) (foldl f (f s x) xs)" using Cons by auto
  with one show ?case by (auto intro: assign_frame_trans)
qed (simp add: assign_frame_refl)

lemma assign_candidates_frame:
  assumes "length (gamepads st) = 2"
  shows "owned (assign_candidates cs st) = live (map cd_fd cs) + owned st"
    "q < 2 \<Longrightarrow> 0 \<le> gp_fd (gamepads st ! q) \<Longrightarrow> gamepads (assign_candidates cs st) ! q = gamepads st ! q"
proof -
  let ?n = "length cs"
  define a where "a = foldl (\<lambda>s player. reconnect_player player s) (cs, st) [0..<kPlayerCount]"
  define b where "b = foldl (\<lambda>s player. fill_player player s) a [0..<kPlayerCount]"
  define c where "c = foldl (\<lambda>s i. reuse_slot i s) b [0..<?n]"
  have fa: "assign_frame (cs, st) a"
    unfolding a_def by (rule foldl_frame [where n = ?n]) (use assms in \<open>auto simp: kPlayerCount_def intro: reconnect_frame\<close>)
  then have la: "length (gamepads (snd a)) = 2" "length (fst a) = ?n" by (auto simp: assign_frame_def)
  have fb: "assign_frame a b"
    unfolding b_def by (rule foldl_frame [where n = ?n]) (use la in \<open>auto simp: kPlayerCount_def intro: fill_frame\<close>)
  then have lb: "length (gamepads (snd b)) = 2" "length (fst b) = ?n" using la by (auto simp: assign_frame_def)
  have fc: "assign_frame b c"
    unfolding c_def by (rule foldl_frame [where n = ?n]) (use lb in \<open>auto intro: reuse_frame\<close>)
  have f: "assign_frame (cs, st) c" using fa fb fc assign_frame_trans by blast
  have res: "assign_candidates cs st = close_candidates c"
    by (simp add: assign_candidates_def a_def b_def c_def Let_def)
  have "owned (close_candidates c) = pool c"
    by (simp add: close_candidates_def owned_def pool_def live_def)
  then show "owned (assign_candidates cs st) = live (map cd_fd cs) + owned st"
    using f res by (simp add: assign_frame_def pool_def)
  show "q < 2 \<Longrightarrow> 0 \<le> gp_fd (gamepads st ! q) \<Longrightarrow> gamepads (assign_candidates cs st) ! q = gamepads st ! q"
    using f res by (simp add: assign_frame_def close_candidates_def)
qed

text \<open>The descriptors a scan opens.\<close>

definition scanned_fds :: "device_entry list \<Rightarrow> input_state \<Rightarrow> int list" where
  "scanned_fds es st =
     map entry_fd (filter (\<lambda>e. is_event_name (entry_name e) \<and> \<not> path_is_open (entry_path e) st \<and> 0 \<le> entry_fd e) es)"

lemma collect_candidates_pool:
  "pool (collect_candidates es (cs, st)) = pool (cs, st) + mset (scanned_fds es st) \<and>
   gamepads (snd (collect_candidates es (cs, st))) = gamepads st"
proof (induction es arbitrary: cs st)
  case (Cons e es)
  let ?ok = "is_event_name (entry_name e) \<and> \<not> path_is_open (entry_path e) st \<and> 0 \<le> entry_fd e"
  have fds: "scanned_fds (e # es) st = (if ?ok then [entry_fd e] else []) @ scanned_fds es st"
    by (simp add: scanned_fds_def)
  show ?case
  proof (cases ?ok)
    case False
    then show ?thesis using Cons [of cs st] fds by auto
  next
    case True
    show ?thesis
    proof (cases "entry_candidate e")
      case None
      let ?st1 = "st\<lparr>closed_fds := entry_fd e # closed_fds st\<rparr>"
      have "scanned_fds es ?st1 = scanned_fds es st"
        by (simp add: scanned_fds_def path_is_open_def)
      moreover have "pool (cs, ?st1) = pool (cs, st) + {#entry_fd e#}" by (simp add: pool_def owned_def)
      ultimately show ?thesis using Cons [of cs ?st1] None True fds by auto
    next
      case (Some c)
      then have "cd_fd c = entry_fd e" by (auto simp: entry_candidate_def split: if_splits option.splits)
      then have "pool (cs @ [c], st) = pool (cs, st) + {#entry_fd e#}"
        using True by (simp add: pool_def live_def)
      then show ?thesis using Cons [of "cs @ [c]" st] Some True fds by auto
    qed
  qed
qed (simp add: scanned_fds_def)

text \<open>
  A scan neither leaks nor steals: every descriptor it opens ends up in exactly one player
  slot or closed (as multisets, together with what was there before), and a controller that is
  connected keeps its slot and its state.
\<close>

theorem scan_gamepads_accounts:
  assumes "length (gamepads st) = 2"
  shows "owned (scan_gamepads (Some es) st) = owned st + mset (scanned_fds es st) \<and>
    (\<forall>q<2. gp_fd (gamepads st ! q) < 0 \<or> gamepads (scan_gamepads (Some es) st) ! q = gamepads st ! q)"
proof -
  obtain cs st1 where c: "collect_candidates es ([], st) = (cs, st1)" by fastforce
  have p: "live (map cd_fd cs) + owned st1 = owned st + mset (scanned_fds es st)"
    "gamepads st1 = gamepads st"
    using collect_candidates_pool [of es "[]" st] c by (auto simp: pool_def live_def)
  have "mset (map cd_fd (sort_candidates cs)) = mset (map cd_fd cs)"
    by (simp add: sort_candidates_def)
  then have live: "live (map cd_fd (sort_candidates cs)) = live (map cd_fd cs)"
    by (simp add: live_def mset_filter)
  have len: "length (gamepads st1) = 2" using assms p(2) by simp
  have "owned (assign_candidates (sort_candidates cs) st1) = owned st + mset (scanned_fds es st)"
    using assign_candidates_frame(1) [OF len] p(1) live by simp
  moreover have "\<forall>q<2. gp_fd (gamepads st ! q) < 0 \<or>
      gamepads (assign_candidates (sort_candidates cs) st1) ! q = gamepads st ! q"
    using assign_candidates_frame(2) [OF len] p(2) by (metis not_less)
  ultimately show ?thesis by (simp add: scan_gamepads_def c)
qed

definition sample_entry :: device_entry where
  "sample_entry = \<lparr>entry_name = ''event3'', entry_fd = 7, entry_id = Some (0x1c59, 0x0026),
     entry_x = Some \<lparr>abs_value = 127, abs_minimum = 0, abs_maximum = 255\<rparr>,
     entry_y = Some \<lparr>abs_value = 127, abs_minimum = 0, abs_maximum = 255\<rparr>, entry_phys = Some ''usb-1/input0''\<rparr>"

lemma scan_gamepads_accounts_witness:
  "owned (scan_gamepads (Some [sample_entry]) (initial_input 3 [])) =
     owned (initial_input 3 []) + mset (scanned_fds [sample_entry] (initial_input 3 []))"
  using scan_gamepads_accounts [of "initial_input 3 []" "[sample_entry]"]
  by (simp add: initial_input_def)

section \<open>A drained batch of events\<close>

text \<open>The last event of a batch for a button code, if any.\<close>

definition last_value :: "nat \<Rightarrow> input_event list \<Rightarrow> bool option" where
  "last_value code es =
     (case filter (\<lambda>e. ev_type e = EV_KEY \<and> ev_code e = code) (rev es) of
        [] \<Rightarrow> None | e # _ \<Rightarrow> Some (ev_value e \<noteq> 0))"

lemma last_value_snoc:
  "last_value code (es @ [e]) =
     (if ev_type e = EV_KEY \<and> ev_code e = code then Some (ev_value e \<noteq> 0) else last_value code es)"
  by (simp add: last_value_def)

definition no_drop :: "input_event list \<Rightarrow> bool" where
  "no_drop es = list_all (\<lambda>e. \<not> (ev_type e = EV_SYN \<and> ev_code e = SYN_DROPPED)) es"

lemma apply_event_bit:
  assumes "i < 8"
  shows "bit (gp_raw_buttons (apply_event e g)) i =
    (if ev_type e = EV_KEY \<and> ev_code e = BTN_TRIGGER + i then ev_value e \<noteq> 0 else bit (gp_raw_buttons g) i)"
  using assms
  by (auto simp: apply_event_def Let_def EV_SYN_def EV_KEY_def EV_ABS_def BTN_TRIGGER_def BTN_BASE2_def
      bit_simps)

lemma process_events_fold:
  assumes "no_drop es" "length (gamepads st) = 2" "p < 2" "\<not> gp_dropping_events (gamepads st ! p)"
  shows "process_events p es st =
    (True, st\<lparr>gamepads := (gamepads st)[p := foldl (\<lambda>g e. apply_event e g) (gamepads st ! p) es]\<rparr>)"
  using assms
proof (induction es arbitrary: st)
  case (Cons e es)
  let ?st1 = "st\<lparr>gamepads := (gamepads st)[p := apply_event e (gamepads st ! p)]\<rparr>"
  have "\<not> gp_dropping_events (apply_event e (gamepads st ! p))"
    using Cons.prems by (auto simp: apply_event_def Let_def no_drop_def)
  then show ?case using Cons.IH [of ?st1] Cons.prems by (simp add: no_drop_def)
qed (simp add: list_update_id)

lemma foldl_apply_event_bit:
  "i < 8 \<Longrightarrow> bit (gp_raw_buttons (foldl (\<lambda>g e. apply_event e g) g es)) i =
    (case last_value (BTN_TRIGGER + i) es of None \<Rightarrow> bit (gp_raw_buttons g) i | Some v \<Rightarrow> v)"
proof (induction es rule: rev_induct)
  case Nil
  then show ?case by (simp add: last_value_def)
next
  case (snoc e es)
  then show ?case by (simp add: apply_event_bit last_value_snoc)
qed

text \<open>
  Draining a batch without a drop marker leaves every button of the pad as the batch's last
  event for it said, and publishes the pad's word for the player.
\<close>

theorem drain_gamepad_last_event:
  assumes "length (gamepads st) = 2" "p < 2" "0 \<le> gp_fd (gamepads st ! p)"
    "\<not> gp_dropping_events (gamepads st ! p)" "no_drop es" "es \<noteq> []" "i < 8"
  shows "case drain_gamepad p [Data es, Would_block] st of (ok, st') \<Rightarrow> ok \<and>
    bit (gp_raw_buttons (gamepads st' ! p)) i =
      (case last_value (BTN_TRIGGER + i) es of None \<Rightarrow> bit (gp_raw_buttons (gamepads st ! p)) i | Some v \<Rightarrow> v) \<and>
    gp_state (gamepads st' ! p) = gamepad_state (gamepads st' ! p) \<and> published st'"
proof -
  have frame: "gp_raw_buttons (g\<lparr>gp_state := v\<rparr>) = gp_raw_buttons g" for g v by simp
  have state: "gamepad_state (g\<lparr>gp_state := v\<rparr>) = gamepad_state g" for g v
    by (simp add: gamepad_state_def)
  show ?thesis
    using assms process_events_fold [OF assms(5,1,2,4)] foldl_apply_event_bit [OF assms(7), of "gamepads st ! p" es]
    by (simp add: drain_gamepad_def kPlayerCount_def Let_def state)
qed

lemma drain_gamepad_last_event_witness:
  "let g = (gamepads (initial_input 3 []) ! 1)\<lparr>gp_fd := 5\<rparr>;
       st = (initial_input 3 [])\<lparr>gamepads := (gamepads (initial_input 3 []))[1 := g]\<rparr>;
       es = [\<lparr>ev_type = 1, ev_code = 0x122, ev_value = 1\<rparr>, \<lparr>ev_type = 0, ev_code = 0, ev_value = 0\<rparr>]
   in bit (gp_raw_buttons (gamepads (snd (drain_gamepad 1 [Data es, Would_block] st)) ! 1)) 2"
proof -
  let ?g = "(gamepads (initial_input 3 []) ! 1)\<lparr>gp_fd := 5\<rparr>"
  let ?st = "(initial_input 3 [])\<lparr>gamepads := (gamepads (initial_input 3 []))[1 := ?g]\<rparr>"
  let ?es = "[\<lparr>ev_type = 1, ev_code = 0x122, ev_value = 1\<rparr>, \<lparr>ev_type = 0, ev_code = 0, ev_value = 0\<rparr>]"
  have "last_value (BTN_TRIGGER + 2) ?es = Some True"
    by (simp add: last_value_def EV_KEY_def BTN_TRIGGER_def)
  then show ?thesis
    using drain_gamepad_last_event [of ?st 1 ?es 2]
    by (simp add: initial_input_def no_drop_def EV_SYN_def SYN_DROPPED_def Let_def split: prod.splits)
qed

end
