(* ===== verification/Deck_Audio.thy ===== *)
theory Deck_Audio
  imports Deck_Prelude "HOL-Library.Sublist"
begin

section \<open>The audio output\<close>

text \<open>
  \<open>DeckAudio\<close> and \<open>DeckFrameClock\<close> of \<open>src/src/deck_runtime.cpp\<close>: the OSS device set up at
  open time, the mixer and resampler of the producing thread, the ring of 16384 frames between
  it and the writer thread, and the writer thread itself.  Samples are 16-bit words read as
  signed numbers.  Every critical section of the mutex is one operation on the record, so the two
  threads interleave by operations.  A loop over \<open>write\<close> consumes a script of results; \<open>None\<close>
  from it means that the script ended while the loop was still waiting for the device.

  Frame counts and rates are natural numbers below \<open>2 ^ 32\<close>; the 64-bit products of the
  resampler then do not wrap, as \<open>scaled_fits\<close> and \<open>position_fits\<close> state.
\<close>

type_synonym sample = u16

definition kAudioQueueFrames :: nat where "kAudioQueueFrames = 16384"
definition kAudioWriteChunkFrames :: nat where "kAudioWriteChunkFrames = 2048"

record DeckAudio =
  au_fd :: int
  source_rate :: nat
  output_rate :: nat
  volume_percent :: nat
  rate_remainder :: nat
  square_phase :: nat
  trigger_pending :: bool
  thread_started :: bool
  stopping :: bool
  worker_failed :: bool
  queue_head :: nat
  queue_size :: nat
  dropped_frames :: nat
  queue :: "sample list"

definition created_audio :: DeckAudio where
  "created_audio = \<lparr>au_fd = - 1, source_rate = 0, output_rate = 0, volume_percent = 0,
     rate_remainder = 0, square_phase = 0, trigger_pending = False, thread_started = False,
     stopping = False, worker_failed = False, queue_head = 0, queue_size = 0, dropped_frames = 0,
     queue = []\<rparr>"

text \<open>Every field is reset, so closing leaves the state of a new object.\<close>

definition audio_close_device :: "DeckAudio \<Rightarrow> DeckAudio" where
  "audio_close_device au =
     au\<lparr>thread_started := False, au_fd := - 1, source_rate := 0, output_rate := 0,
        volume_percent := 0, rate_remainder := 0, square_phase := 0, trigger_pending := False,
        stopping := False, worker_failed := False, queue_head := 0, queue_size := 0,
        dropped_frames := 0, queue := []\<rparr>"

subsection \<open>Volume\<close>

definition scale_sample :: "int \<Rightarrow> nat \<Rightarrow> int" where
  "scale_sample sample percent =
     (let scaled = (sample * int percent) sdiv 100;
          scaled = (if scaled < - 32768 then - 32768 else scaled)
      in if scaled > 32767 then 32767 else scaled)"

text \<open>\<open>RETRO_DECK_VOLUME_PERCENT\<close>: the result flag, and the volume, which is 42 unless it was set.\<close>

fun volume_digits :: "string \<Rightarrow> nat \<Rightarrow> nat option" where
  "volume_digits [] parsed = Some parsed"
| "volume_digits (c # cs) parsed =
     (if \<not> is_digit c then None
      else let parsed = parsed * 10 + digit_value c
           in if parsed > 100 then None else volume_digits cs parsed)"

definition DeckReadVolumePercent :: "string option \<Rightarrow> bool \<times> nat" where
  "DeckReadVolumePercent environment =
     (case environment of
        None \<Rightarrow> (True, 42)
      | Some value \<Rightarrow>
          (if value = [] then (False, 42)
           else case volume_digits value 0 of None \<Rightarrow> (False, 42) | Some parsed \<Rightarrow> (True, parsed)))"

definition DeckAudioOutputRate :: "nat \<Rightarrow> nat \<Rightarrow> nat" where
  "DeckAudioOutputRate requested negotiated = negotiated"

subsection \<open>Writing to the device\<close>

datatype write_result = Wrote nat | Write_interrupted | Write_failed

definition sample_bytes :: "sample list \<Rightarrow> byte list" where
  "sample_bytes samples = concat (map (\<lambda>s. [ucast s, ucast (drop_bit 8 s)]) samples)"

text \<open>The result, the bytes the device accepted, and the rest of the script.\<close>

fun write_loop :: "write_result list \<Rightarrow> byte list \<Rightarrow> byte list \<Rightarrow> (bool \<times> byte list \<times> write_result list) option" where
  "write_loop script [] accepted = Some (True, accepted, script)"
| "write_loop [] (b # bytes) accepted = None"
| "write_loop (r # script) (b # bytes) accepted =
     (case r of
        Wrote amount \<Rightarrow>
          (if amount = 0 then Some (False, accepted, script)
           else write_loop script (drop amount (b # bytes)) (accepted @ take amount (b # bytes)))
      | Write_interrupted \<Rightarrow> write_loop script (b # bytes) accepted
      | Write_failed \<Rightarrow> Some (False, accepted, script))"

definition write_all ::
  "write_result list \<Rightarrow> sample list \<Rightarrow> DeckAudio \<Rightarrow> (bool \<times> byte list \<times> DeckAudio) option" where
  "write_all script samples au =
     (case write_loop script (sample_bytes samples) [] of
        None \<Rightarrow> None
      | Some (ok, accepted, rest) \<Rightarrow> Some (ok, accepted, if ok then au else au\<lparr>au_fd := - 1\<rparr>))"

definition start_playback :: "bool \<Rightarrow> DeckAudio \<Rightarrow> bool \<times> DeckAudio" where
  "start_playback trigger_ok au =
     (if \<not> trigger_pending au then (au_fd au \<ge> 0, au)
      else if \<not> trigger_ok then (False, au\<lparr>au_fd := - 1, trigger_pending := False\<rparr>)
      else (True, au\<lparr>trigger_pending := False\<rparr>))"

subsection \<open>Opening the device\<close>

datatype audio_error = InvalidParameters | CannotOpenDsp | CannotConfigure | CannotPrefill | CannotStartWriter

text \<open>The answers of the OSS driver; the rate it grants may depend on the one requested.\<close>

record dsp_kernel =
  dsp_fd :: int
  dsp_format_ok :: bool
  dsp_channels_ok :: bool
  dsp_speed :: "int \<Rightarrow> int option"
  dsp_hold_ok :: bool
  dsp_space :: "int option"
  dsp_writes :: "write_result list"
  dsp_thread_ok :: bool

definition requested_rate :: "nat \<Rightarrow> int" where
  "requested_rate rate = (if rate = 32768 then 32000 else int rate)"

definition prefill_frames :: "dsp_kernel \<Rightarrow> nat" where
  "prefill_frames k =
     (case dsp_space k of
        None \<Rightarrow> 0
      | Some bytes \<Rightarrow> (if bytes > 0 \<and> bytes \<le> 1024 * 1024 \<and> bytes mod 2 = 0 then nat (bytes div 2) else 0))"

definition configured :: "dsp_kernel \<Rightarrow> nat \<Rightarrow> int option" where
  "configured k rate =
     (if \<not> dsp_format_ok k \<or> \<not> dsp_channels_ok k then None
      else case dsp_speed k (requested_rate rate) of
             None \<Rightarrow> None
           | Some granted \<Rightarrow> (if granted \<le> 0 then None else Some granted))"

definition audio_open_device ::
  "dsp_kernel \<Rightarrow> nat \<Rightarrow> nat \<Rightarrow> nat \<Rightarrow> DeckAudio \<Rightarrow> ((audio_error + unit) \<times> DeckAudio) option" where
  "audio_open_device k rate volume fragments au0 =
     (let au = audio_close_device au0
      in if rate = 0 \<or> volume > 100 \<or> fragments = 0 \<or> fragments > 64 then Some (Inl InvalidParameters, au)
         else if volume = 0 then Some (Inr (), au)
         else if dsp_fd k < 0 then Some (Inl CannotOpenDsp, au\<lparr>au_fd := dsp_fd k\<rparr>)
         else
           (case configured k rate of
              None \<Rightarrow> Some (Inl CannotConfigure, audio_close_device (au\<lparr>au_fd := dsp_fd k\<rparr>))
            | Some granted \<Rightarrow>
                (let au1 = au\<lparr>au_fd := dsp_fd k, source_rate := rate,
                              output_rate := DeckAudioOutputRate rate (nat granted),
                              volume_percent := volume, trigger_pending := dsp_hold_ok k\<rparr>
                 in case write_all (dsp_writes k) (replicate (prefill_frames k) 0) au1 of
                      None \<Rightarrow> None
                    | Some (False, _, au2) \<Rightarrow> Some (Inl CannotPrefill, audio_close_device au2)
                    | Some (True, _, au2) \<Rightarrow>
                        (let au3 = au2\<lparr>queue := replicate kAudioQueueFrames 0, queue_head := 0, queue_size := 0,
                                       dropped_frames := 0, stopping := False, worker_failed := False\<rparr>
                         in if \<not> dsp_thread_ok k then Some (Inl CannotStartWriter, audio_close_device au3)
                            else Some (Inr (), au3\<lparr>thread_started := True\<rparr>)))))"

definition available :: "DeckAudio \<Rightarrow> bool" where
  "available au = (thread_started au \<and> \<not> worker_failed au)"

definition queued_frames :: "DeckAudio \<Rightarrow> nat" where
  "queued_frames au = queue_size au"

subsection \<open>The ring\<close>

text \<open>The two \<open>memcpy\<close> calls of each side.\<close>

definition ring_write :: "'a list \<Rightarrow> nat \<Rightarrow> 'a list \<Rightarrow> 'a list" where
  "ring_write q tail samples =
     (let count = length samples;
          first = min count (length q - tail);
          q1 = blit q tail (take first samples)
      in if count > first then blit q1 0 (drop first samples) else q1)"

definition ring_read :: "'a list \<Rightarrow> nat \<Rightarrow> nat \<Rightarrow> 'a list" where
  "ring_read q head count =
     (let first = min count (length q - head)
      in take first (drop head q) @ (if count > first then take (count - first) q else []))"

text \<open>The oldest frames give way when the new ones would not fit.\<close>

definition make_room :: "nat \<Rightarrow> DeckAudio \<Rightarrow> DeckAudio" where
  "make_room count au =
     (if count > length (queue au) - queue_size au
      then (let discarded = count - (length (queue au) - queue_size au)
            in au\<lparr>queue_head := (queue_head au + discarded) mod length (queue au),
                  queue_size := queue_size au - discarded,
                  dropped_frames := dropped_frames au + discarded\<rparr>)
      else au)"

definition append_frames :: "sample list \<Rightarrow> DeckAudio \<Rightarrow> DeckAudio" where
  "append_frames samples au =
     (let tail = (queue_head au + queue_size au) mod length (queue au)
      in au\<lparr>queue := ring_write (queue au) tail samples,
            queue_size := queue_size au + length samples\<rparr>)"

definition enqueue :: "sample list \<Rightarrow> DeckAudio \<Rightarrow> bool \<times> DeckAudio" where
  "enqueue samples au =
     (if samples = [] then (False, au)
      else if \<not> thread_started au \<or> stopping au \<or> worker_failed au \<or> queue au = [] then (False, au)
      else
        (let skipped = (if length samples > length (queue au) then length samples - length (queue au) else 0);
             samples = drop skipped samples;
             au = au\<lparr>dropped_frames := dropped_frames au + skipped\<rparr>
         in (True, append_frames samples (make_room (length samples) au))))"

text \<open>The writer's critical section, entered when it is not stopping and frames are queued.\<close>

definition dequeue :: "DeckAudio \<Rightarrow> sample list \<times> DeckAudio" where
  "dequeue au =
     (let count = min (queue_size au) kAudioWriteChunkFrames
      in (ring_read (queue au) (queue_head au) count,
          au\<lparr>queue_head := (queue_head au + count) mod length (queue au),
             queue_size := queue_size au - count\<rparr>))"

subsection \<open>Mixing and resampling\<close>

text \<open>
  \<open>None\<close> is undefined behaviour.  The product of a difference of samples and a 16-bit fraction is
  computed in \<open>int\<close>, whose range it can leave.
\<close>

definition fits_int :: "int \<Rightarrow> bool" where
  "fits_int x = (- (2 ^ 31) \<le> x \<and> x < 2 ^ 31)"

definition interpolate :: "sample list \<Rightarrow> nat \<Rightarrow> nat \<Rightarrow> sample option" where
  "interpolate samples first fraction =
     (let here = sint (samples ! first);
          product = (sint (samples ! (first + 1)) - here) * int fraction
      in if fits_int product then Some (word_of_int (here + product div 65536)) else None)"

definition sample_at :: "sample list \<Rightarrow> nat \<Rightarrow> sample option" where
  "sample_at samples position =
     (let first = position div 2 ^ 32;
          fraction = position div 2 ^ 16 mod 2 ^ 16
      in if first \<ge> length samples - 1 then Some (samples ! (length samples - 1))
         else interpolate samples first fraction)"

fun resample_loop :: "sample list \<Rightarrow> nat \<Rightarrow> nat \<Rightarrow> nat \<Rightarrow> sample list option" where
  "resample_loop samples step 0 position = Some []"
| "resample_loop samples step (Suc n) position =
     (case sample_at samples position of
        None \<Rightarrow> None
      | Some v \<Rightarrow> map_option ((#) v) (resample_loop samples step n (position + step)))"

definition resample :: "sample list \<Rightarrow> nat \<Rightarrow> sample list option" where
  "resample samples output_frames =
     (if length samples = 1 \<or> output_frames = 1 then Some (replicate output_frames (samples ! 0))
      else resample_loop samples ((length samples - 1) * 2 ^ 32 div (output_frames - 1)) output_frames 0)"

definition write_mono :: "sample list \<Rightarrow> DeckAudio \<Rightarrow> (bool \<times> DeckAudio) option" where
  "write_mono samples au =
     (if samples = [] then Some (False, au)
      else if source_rate au = output_rate au then Some (enqueue samples au)
      else if source_rate au = 0 then None
      else
        (let scaled = length samples * output_rate au + rate_remainder au;
             output_frames = scaled div source_rate au;
             au1 = au\<lparr>rate_remainder := scaled mod source_rate au\<rparr>
         in if output_frames = 0 then Some (True, au1)
            else map_option (\<lambda>out. enqueue out au1) (resample samples output_frames)))"

definition mix_frame :: "sample \<Rightarrow> sample \<Rightarrow> nat \<Rightarrow> sample" where
  "mix_frame left right percent = word_of_int (scale_sample ((sint left + sint right) sdiv 2) percent)"

definition write_stereo :: "(sample \<times> sample) list \<Rightarrow> DeckAudio \<Rightarrow> (bool \<times> DeckAudio) option" where
  "write_stereo frames au =
     (if \<not> available au then Some (False, au)
      else write_mono (map (\<lambda>(left, right). mix_frame left right (volume_percent au)) frames) au)"

definition square_sample :: "bool \<Rightarrow> nat \<Rightarrow> nat \<Rightarrow> nat \<Rightarrow> sample" where
  "square_sample active phase period percent =
     (if active then word_of_int (scale_sample (if phase < period div 2 then 6000 else - 6000) percent) else 0)"

fun square_loop :: "bool \<Rightarrow> nat \<Rightarrow> nat \<Rightarrow> nat \<Rightarrow> nat \<Rightarrow> sample list \<times> nat" where
  "square_loop active period percent 0 phase = ([], phase)"
| "square_loop active period percent (Suc n) phase =
     (let (rest, phase') = square_loop active period percent n ((phase + 1) mod period)
      in (square_sample active phase period percent # rest, phase'))"

definition write_square_frame :: "bool \<Rightarrow> DeckAudio \<Rightarrow> (bool \<times> DeckAudio) option" where
  "write_square_frame active au =
     (if \<not> available au \<or> source_rate au = 0 then Some (False, au)
      else
        (let frames = source_rate au div 60;
             period = max 2 (source_rate au div 440);
             (buffer, phase) = square_loop active period (volume_percent au) frames (square_phase au)
         in write_mono buffer (au\<lparr>square_phase := phase\<rparr>)))"

subsection \<open>The frame clock\<close>

record DeckFrameClock =
  start_nanoseconds :: int
  frame_nanoseconds :: int
  frame_number :: int

text \<open>The deadline slept for, if any; \<open>now\<close> is the clock after the sleep.\<close>

definition wait_for_next_frame :: "int \<Rightarrow> DeckFrameClock \<Rightarrow> int option \<times> DeckFrameClock" where
  "wait_for_next_frame now clock0 =
     (if frame_nanoseconds clock0 \<le> 0 then (None, clock0)
      else
        (let clock = clock0\<lparr>frame_number := frame_number clock0 + 1\<rparr>;
             deadline = start_nanoseconds clock + frame_number clock * frame_nanoseconds clock
         in (Some deadline,
             if now - deadline > frame_nanoseconds clock * 5
             then clock\<lparr>start_nanoseconds := now, frame_number := 0\<rparr> else clock)))"

subsection \<open>The two threads\<close>

datatype worker = Waiting | Writing "sample list" | Finished

record audio_system =
  sys_audio :: DeckAudio
  sys_worker :: worker
  sys_produced :: "sample list"
  sys_delivered :: "sample list"

text \<open>
  Steps while the device is open: the producer enqueues, the writer takes a chunk, starts
  playback and writes it, or gives up.  \<open>sys_produced\<close> and \<open>sys_delivered\<close> record what the
  producer handed to an accepting \<open>enqueue\<close> and what complete writes gave to the device.
\<close>

inductive audio_step :: "audio_system \<Rightarrow> audio_system \<Rightarrow> bool" where
  produce: "enqueue samples (sys_audio s) = (ok, au) \<Longrightarrow>
     audio_step s (s\<lparr>sys_audio := au,
       sys_produced := (if ok then sys_produced s @ samples else sys_produced s)\<rparr>)"
| take_chunk: "sys_worker s = Waiting \<Longrightarrow> \<not> stopping (sys_audio s) \<Longrightarrow> queue_size (sys_audio s) > 0 \<Longrightarrow>
     dequeue (sys_audio s) = (chunk, au) \<Longrightarrow>
     audio_step s (s\<lparr>sys_audio := au, sys_worker := Writing chunk\<rparr>)"
| written: "sys_worker s = Writing chunk \<Longrightarrow> start_playback trigger_ok (sys_audio s) = (True, au1) \<Longrightarrow>
     write_all script chunk au1 = Some (True, accepted, au) \<Longrightarrow>
     audio_step s (s\<lparr>sys_audio := au, sys_worker := Waiting, sys_delivered := sys_delivered s @ chunk\<rparr>)"
| not_started: "sys_worker s = Writing chunk \<Longrightarrow> start_playback trigger_ok (sys_audio s) = (False, au) \<Longrightarrow>
     audio_step s (s\<lparr>sys_audio := au\<lparr>worker_failed := True, queue_size := 0\<rparr>, sys_worker := Finished\<rparr>)"
| not_written: "sys_worker s = Writing chunk \<Longrightarrow> start_playback trigger_ok (sys_audio s) = (True, au1) \<Longrightarrow>
     write_all script chunk au1 = Some (False, accepted, au) \<Longrightarrow>
     audio_step s (s\<lparr>sys_audio := au\<lparr>worker_failed := True, queue_size := 0\<rparr>, sys_worker := Finished\<rparr>)"
| request_stop: "audio_step s (s\<lparr>sys_audio := (sys_audio s)\<lparr>stopping := True\<rparr>\<rparr>)"
| stop: "sys_worker s = Waiting \<Longrightarrow> stopping (sys_audio s) \<Longrightarrow> audio_step s (s\<lparr>sys_worker := Finished\<rparr>)"

inductive audio_reachable :: "audio_system \<Rightarrow> bool" where
  opened: "audio_open_device k rate volume fragments au0 = Some (Inr (), au) \<Longrightarrow> thread_started au \<Longrightarrow>
     audio_reachable \<lparr>sys_audio = au, sys_worker = Waiting, sys_produced = [], sys_delivered = []\<rparr>"
| stepped: "audio_reachable s \<Longrightarrow> audio_step s s' \<Longrightarrow> audio_reachable s'"

section \<open>Volume\<close>

lemma volume_digits_value:
  "volume_digits s v = Some w \<longleftrightarrow>
     list_all is_digit s \<and> (\<forall>n\<le>length s. n > 0 \<longrightarrow> foldl (\<lambda>v c. v * 10 + digit_value c) v (take n s) \<le> 100) \<and>
     w = foldl (\<lambda>v c. v * 10 + digit_value c) v s"
proof (induction s arbitrary: v)
  case Nil
  then show ?case by auto
next
  case (Cons c s)
  let ?f = "\<lambda>v c. v * 10 + digit_value c"
  have "(\<forall>n\<le>length (c # s). n > 0 \<longrightarrow> foldl ?f v (take n (c # s)) \<le> 100) \<longleftrightarrow>
      v * 10 + digit_value c \<le> 100 \<and>
      (\<forall>n\<le>length s. n > 0 \<longrightarrow> foldl ?f (v * 10 + digit_value c) (take n s) \<le> 100)"
  proof (intro iffI conjI allI impI)
    assume *: "\<forall>n\<le>length (c # s). n > 0 \<longrightarrow> foldl ?f v (take n (c # s)) \<le> 100"
    show "v * 10 + digit_value c \<le> 100" using * [rule_format, of 1] by simp
    fix n assume "n \<le> length s" "n > 0"
    then show "foldl ?f (v * 10 + digit_value c) (take n s) \<le> 100" using * [rule_format, of "Suc n"] by simp
  next
    fix n
    assume *: "v * 10 + digit_value c \<le> 100 \<and>
      (\<forall>n\<le>length s. n > 0 \<longrightarrow> foldl ?f (v * 10 + digit_value c) (take n s) \<le> 100)"
      and n: "n \<le> length (c # s)" "n > 0"
    then obtain m where "n = Suc m" by (cases n) auto
    then show "foldl ?f v (take n (c # s)) \<le> 100" using * n by (cases "m = 0") auto
  qed
  then show ?case using Cons.IH by (auto simp: Let_def)
qed

lemma DeckReadVolumePercent_exact:
  "DeckReadVolumePercent (Some s) = (True, v) \<longleftrightarrow>
     s \<noteq> [] \<and> list_all is_digit s \<and> decimal_value s = v \<and> v \<le> 100"
proof -
  have le: "foldl (\<lambda>v c. v * 10 + digit_value c) 0 (take n s) \<le> foldl (\<lambda>v c. v * 10 + digit_value c) 0 s" for n
    using foldl_digits_mono [of "foldl (\<lambda>v c. v * 10 + digit_value c) 0 (take n s)" "drop n s"]
    by (simp flip: foldl_append)
  have "volume_digits s 0 = Some v \<longleftrightarrow> list_all is_digit s \<and> decimal_value s = v \<and> v \<le> 100" if "s \<noteq> []"
  proof
    assume "volume_digits s 0 = Some v"
    then have "list_all is_digit s" "decimal_value s = v" and
      *: "\<forall>n\<le>length s. n > 0 \<longrightarrow> foldl (\<lambda>v c. v * 10 + digit_value c) 0 (take n s) \<le> 100"
      unfolding volume_digits_value decimal_value_def by auto
    moreover have "v \<le> 100"
      using *[rule_format, of "length s"] that \<open>decimal_value s = v\<close> by (simp add: decimal_value_def)
    ultimately show "list_all is_digit s \<and> decimal_value s = v \<and> v \<le> 100" by simp
  next
    assume *: "list_all is_digit s \<and> decimal_value s = v \<and> v \<le> 100"
    have "foldl (\<lambda>v c. v * 10 + digit_value c) 0 (take n s) \<le> 100" for n
      using le [of n] * by (simp add: decimal_value_def)
    then show "volume_digits s 0 = Some v"
      unfolding volume_digits_value using * by (simp add: decimal_value_def)
  qed
  then show ?thesis by (auto simp: DeckReadVolumePercent_def split: option.split)
qed

lemma scale_sample_range:
  assumes "- 32768 \<le> s" "s \<le> 32767" "percent \<le> 100"
  shows "\<bar>scale_sample s percent\<bar> \<le> \<bar>s\<bar>" "- 32768 \<le> scale_sample s percent" "scale_sample s percent \<le> 32767"
proof -
  have "\<bar>(s * int percent) sdiv 100\<bar> = \<bar>s * int percent\<bar> div 100"
    using pos_imp_zdiv_nonneg_iff [of 100 "\<bar>s\<bar> * int percent"]
    by (cases "s = 0"; cases "percent = 0") (simp_all add: signed_divide_int_def abs_mult sgn_mult)
  also have "\<bar>s * int percent\<bar> \<le> \<bar>s\<bar> * 100" using assms(3) by (simp add: abs_mult mult_left_mono)
  then have "\<bar>s * int percent\<bar> div 100 \<le> \<bar>s\<bar>" by linarith
  finally have *: "\<bar>(s * int percent) sdiv 100\<bar> \<le> \<bar>s\<bar>" .
  then show "\<bar>scale_sample s percent\<bar> \<le> \<bar>s\<bar>" "- 32768 \<le> scale_sample s percent" "scale_sample s percent \<le> 32767"
    using assms(1,2) by (auto simp: scale_sample_def Let_def)
qed

section \<open>The ring holds a bounded queue\<close>

lemma mod_once: "a < c \<Longrightarrow> i \<le> c \<Longrightarrow> (a + i) mod c = (if a + i < c then a + i else a + i - (c :: nat))"
  by (auto simp: mod_if)

definition ring_contents :: "'a list \<Rightarrow> nat \<Rightarrow> nat \<Rightarrow> 'a list" where
  "ring_contents q head n = map (\<lambda>i. q ! ((head + i) mod length q)) [0..<n]"

lemma length_ring_contents [simp]: "length (ring_contents q head n) = n"
  by (simp add: ring_contents_def)

lemma nth_ring_contents: "i < n \<Longrightarrow> ring_contents q head n ! i = q ! ((head + i) mod length q)"
  by (simp add: ring_contents_def)

lemma ring_contents_drop:
  assumes "d \<le> n"
  shows "ring_contents q ((head + d) mod length q) (n - d) = drop d (ring_contents q head n)"
proof (rule nth_equalityI)
  fix i assume "i < length (ring_contents q ((head + d) mod length q) (n - d))"
  then show "ring_contents q ((head + d) mod length q) (n - d) ! i = drop d (ring_contents q head n) ! i"
    using assms by (simp add: nth_ring_contents mod_add_left_eq add.assoc)
qed simp

lemma ring_read_contents:
  assumes "head < length q" "count \<le> length q"
  shows "ring_read q head count = ring_contents q head count"
proof (rule nth_equalityI)
  show len: "length (ring_read q head count) = length (ring_contents q head count)"
    using assms by (simp add: ring_read_def Let_def)
  fix i assume "i < length (ring_read q head count)"
  then have i: "i < count" using len by simp
  have "(head + i) mod length q = (if head + i < length q then head + i else head + i - length q)"
    using assms i by (intro mod_once) auto
  then show "ring_read q head count ! i = ring_contents q head count ! i"
    using assms i by (auto simp: ring_read_def Let_def nth_ring_contents nth_append min_def add.commute)
qed

lemma length_ring_write [simp]:
  "tail < length q \<Longrightarrow> length xs \<le> length q \<Longrightarrow> length (ring_write q tail xs) = length q"
  by (auto simp: ring_write_def Let_def min_def)

lemma nth_ring_write:
  assumes "tail < length q" "length xs \<le> length q" "j < length q"
  shows "ring_write q tail xs ! j =
    (if tail \<le> j \<and> j < tail + length xs then xs ! (j - tail)
     else if j + length q < tail + length xs then xs ! (j + length q - tail) else q ! j)"
proof (cases "length xs \<le> length q - tail")
  case True
  then have "ring_write q tail xs = blit q tail xs" by (simp add: ring_write_def Let_def)
  then show ?thesis using assms True by (auto simp: nth_blit)
next
  case False
  then have w: "ring_write q tail xs = blit (blit q tail (take (length q - tail) xs)) 0 (drop (length q - tail) xs)"
    by (simp add: ring_write_def Let_def)
  have 1: "blit q tail (take (length q - tail) xs) ! j = (if tail \<le> j then xs ! (j - tail) else q ! j)"
    using assms False by (subst nth_blit) auto
  have "ring_write q tail xs ! j =
    (if j < length xs - (length q - tail) then drop (length q - tail) xs ! j
     else blit q tail (take (length q - tail) xs) ! j)"
    unfolding w using assms False by (subst nth_blit) auto
  then show ?thesis using assms False 1 by (auto simp: add.commute)
qed

lemma ring_write_contents:
  assumes "head < length q" "n + length xs \<le> length q"
  shows "ring_contents (ring_write q ((head + n) mod length q) xs) head (n + length xs) =
    ring_contents q head n @ xs"
proof (rule nth_equalityI)
  fix i assume "i < length (ring_contents (ring_write q ((head + n) mod length q) xs) head (n + length xs))"
  then have i: "i < n + length xs" by simp
  let ?tail = "(head + n) mod length q" and ?j = "(head + i) mod length q"
  have q: "0 < length q" using assms(1) by linarith
  have tail: "?tail = (if head + n < length q then head + n else head + n - length q)"
    using assms by (intro mod_once) auto
  have j: "?j = (if head + i < length q then head + i else head + i - length q)"
    using assms i by (intro mod_once) auto
  have "ring_write q ?tail xs ! ?j = (if i < n then q ! ?j else xs ! (i - n))"
    using nth_ring_write [of ?tail q xs ?j] assms i q unfolding tail j
    by (auto split: if_splits simp: less_diff_conv2)
  then show "ring_contents (ring_write q ?tail xs) head (n + length xs) ! i = (ring_contents q head n @ xs) ! i"
    using i assms q by (simp add: nth_ring_contents nth_append)
qed simp

section \<open>What the two threads rely on\<close>

text \<open>
  A lossy queue keeps the newest \<open>capacity\<close> frames of what was put; \<open>lost\<close> counts the frames it
  overwrote, and a taken chunk is the oldest part of the contents.
\<close>

definition newest :: "nat \<Rightarrow> 'a list \<Rightarrow> 'a list" where
  "newest n xs = drop (length xs - n) xs"

lemma newest_subseq: "subseq (newest n xs) xs"
  by (simp add: newest_def suffix_drop suffix_imp_subseq)

lemma newest_room: "newest c (xs @ ys) = drop (length xs - (c - length (newest c ys))) xs @ newest c ys"
proof (cases "length ys \<le> c")
  case True
  then have "length xs + length ys - c = length xs - (c - length ys)" "length ys - c = 0" by simp_all
  then show ?thesis by (simp add: newest_def)
qed (simp add: newest_def)

locale lossy_queue =
  fixes ok :: "'q \<Rightarrow> bool"
    and contents :: "'q \<Rightarrow> 'a list"
    and lost :: "'q \<Rightarrow> nat"
    and capacity :: nat
    and put :: "'a list \<Rightarrow> 'q \<Rightarrow> 'q"
    and take_some :: "'q \<Rightarrow> 'a list \<times> 'q"
  assumes put_ok: "ok q \<Longrightarrow> xs \<noteq> [] \<Longrightarrow> ok (put xs q)"
    and put_contents: "ok q \<Longrightarrow> xs \<noteq> [] \<Longrightarrow> contents (put xs q) = newest capacity (contents q @ xs)"
    and put_lost: "ok q \<Longrightarrow> xs \<noteq> [] \<Longrightarrow>
      lost (put xs q) = lost q + (length (contents q @ xs) - capacity)"
    and take_ok: "ok q \<Longrightarrow> ok (snd (take_some q))"
    and take_contents: "ok q \<Longrightarrow> fst (take_some q) @ contents (snd (take_some q)) = contents q"
    and take_lost: "ok q \<Longrightarrow> lost (snd (take_some q)) = lost q"
begin

text \<open>The ledger of a stream: what was taken and what is queued came from what was put, in order,
  and every missing frame is counted as lost.\<close>

definition ledger :: "'a list \<Rightarrow> 'a list \<Rightarrow> 'q \<Rightarrow> bool" where
  "ledger produced taken q =
     (subseq (taken @ contents q) produced \<and> length taken + length (contents q) + lost q = length produced)"

lemma ledger_put:
  assumes "ok q" "ledger produced taken q" "xs \<noteq> []"
  shows "ledger (produced @ xs) taken (put xs q)"
proof -
  have sub: "subseq (taken @ contents q) produced"
    and len: "length taken + length (contents q) + lost q = length produced"
    using assms(2) by (auto simp: ledger_def)
  have "subseq (taken @ newest capacity (contents q @ xs)) (taken @ contents q @ xs)"
    by (intro list_emb_append_mono subseq_order.order_refl newest_subseq)
  moreover have "subseq ((taken @ contents q) @ xs) (produced @ xs)"
    using sub by (intro list_emb_append_mono subseq_order.order_refl)
  ultimately have "subseq (taken @ newest capacity (contents q @ xs)) (produced @ xs)"
    by (simp add: subseq_order.trans)
  then show ?thesis
    using assms(1,3) len by (simp add: ledger_def put_contents put_lost newest_def)
qed

lemma ledger_take:
  assumes "ok q" "ledger produced taken q"
  shows "ledger produced (taken @ fst (take_some q)) (snd (take_some q))"
proof -
  have eq: "contents q = fst (take_some q) @ contents (snd (take_some q))"
    using take_contents [OF assms(1)] by simp
  show ?thesis
    using assms(2) unfolding ledger_def eq take_lost [OF assms(1)] append_assoc length_append by simp
qed

end

section \<open>The device's queue\<close>

definition audio_open :: "DeckAudio \<Rightarrow> bool" where
  "audio_open au = (thread_started au \<and> \<not> stopping au \<and> \<not> worker_failed au)"

definition queue_wf :: "DeckAudio \<Rightarrow> bool" where
  "queue_wf au = (length (queue au) = kAudioQueueFrames \<and> queue_head au < kAudioQueueFrames \<and>
                  queue_size au \<le> kAudioQueueFrames)"

definition audio_contents :: "DeckAudio \<Rightarrow> sample list" where
  "audio_contents au = ring_contents (queue au) (queue_head au) (queue_size au)"

lemma length_audio_contents [simp]: "length (audio_contents au) = queue_size au"
  by (simp add: audio_contents_def)

lemma make_room_wf:
  assumes "queue_wf au" "count \<le> kAudioQueueFrames"
  shows "queue_wf (make_room count au)" "queue_size (make_room count au) + count \<le> kAudioQueueFrames"
    "audio_contents (make_room count au) =
      drop (queue_size au - (kAudioQueueFrames - count)) (audio_contents au)"
    "dropped_frames (make_room count au) = dropped_frames au + (queue_size au - (kAudioQueueFrames - count))"
    "audio_open (make_room count au) = audio_open au"
proof -
  have wf: "length (queue au) = kAudioQueueFrames" "queue_head au < kAudioQueueFrames"
    "queue_size au \<le> kAudioQueueFrames" "0 < kAudioQueueFrames"
    using assms(1) by (auto simp: queue_wf_def kAudioQueueFrames_def)
  define d where "d = queue_size au - (kAudioQueueFrames - count)"
  have d: "d \<le> queue_size au" by (simp add: d_def)
  have room: "make_room count au = au\<lparr>queue_head := (queue_head au + d) mod kAudioQueueFrames,
      queue_size := queue_size au - d, dropped_frames := dropped_frames au + d\<rparr>"
  proof (cases "count > kAudioQueueFrames - queue_size au")
    case True
    then have "count - (kAudioQueueFrames - queue_size au) = d" using assms(2) wf by (auto simp: d_def)
    then show ?thesis using True by (simp add: make_room_def Let_def wf)
  next
    case False
    then have "d = 0" using assms(2) wf by (auto simp: d_def)
    then show ?thesis using False wf by (simp add: make_room_def)
  qed
  show "queue_wf (make_room count au)" using wf d by (auto simp: room queue_wf_def)
  show "queue_size (make_room count au) + count \<le> kAudioQueueFrames"
    using assms(2) wf by (simp add: room d_def)
  show "audio_contents (make_room count au) =
      drop (queue_size au - (kAudioQueueFrames - count)) (audio_contents au)"
    using ring_contents_drop [OF d, of "queue au" "queue_head au"] wf
    by (simp add: room audio_contents_def d_def)
  show "dropped_frames (make_room count au) = dropped_frames au + (queue_size au - (kAudioQueueFrames - count))"
    "audio_open (make_room count au) = audio_open au"
    by (simp_all add: room d_def audio_open_def)
qed

lemma append_frames_wf:
  assumes "queue_wf au" "queue_size au + length samples \<le> kAudioQueueFrames"
  shows "queue_wf (append_frames samples au)" "audio_contents (append_frames samples au) = audio_contents au @ samples"
    "dropped_frames (append_frames samples au) = dropped_frames au"
    "audio_open (append_frames samples au) = audio_open au"
proof -
  have wf: "length (queue au) = kAudioQueueFrames" "queue_head au < kAudioQueueFrames" "0 < kAudioQueueFrames"
    using assms(1) by (auto simp: queue_wf_def)
  define tail where "tail = (queue_head au + queue_size au) mod length (queue au)"
  have tail: "tail < length (queue au)" unfolding tail_def wf(1) using wf(3) by simp
  have out: "append_frames samples au =
      au\<lparr>queue := ring_write (queue au) tail samples, queue_size := queue_size au + length samples\<rparr>"
    by (simp add: append_frames_def tail_def)
  have "length (ring_write (queue au) tail samples) = length (queue au)"
    using tail assms(2) wf(1) by (intro length_ring_write) simp_all
  then show "queue_wf (append_frames samples au)"
    using wf assms(2) by (simp add: out queue_wf_def)
  show "audio_contents (append_frames samples au) = audio_contents au @ samples"
    using ring_write_contents [of "queue_head au" "queue au" "queue_size au" samples] wf assms(2)
    by (simp add: out audio_contents_def tail_def)
  show "dropped_frames (append_frames samples au) = dropped_frames au"
    "audio_open (append_frames samples au) = audio_open au"
    by (simp_all add: out audio_open_def)
qed

lemma enqueue_open:
  assumes "audio_open au" "queue_wf au" "samples \<noteq> []"
  shows "fst (enqueue samples au)" "audio_open (snd (enqueue samples au))" "queue_wf (snd (enqueue samples au))"
    "audio_contents (snd (enqueue samples au)) = newest kAudioQueueFrames (audio_contents au @ samples)"
    "dropped_frames (snd (enqueue samples au)) =
      dropped_frames au + (queue_size au + length samples - kAudioQueueFrames)"
proof -
  define skipped where "skipped = length samples - kAudioQueueFrames"
  define xs where "xs = drop skipped samples"
  define au1 where "au1 = au\<lparr>dropped_frames := dropped_frames au + skipped\<rparr>"
  have len: "length (queue au) = kAudioQueueFrames" "queue au \<noteq> []" "queue_size au \<le> kAudioQueueFrames"
    using assms(2) by (auto simp: queue_wf_def kAudioQueueFrames_def)
  have "(if length samples > length (queue au) then length samples - length (queue au) else 0) = skipped"
    by (simp add: skipped_def len)
  then have out: "enqueue samples au = (True, append_frames xs (make_room (length xs) au1))"
    using assms(1,3) len by (simp add: enqueue_def Let_def audio_open_def xs_def au1_def)
  have au1: "queue_wf au1" "audio_open au1" "audio_contents au1 = audio_contents au" "queue_size au1 = queue_size au"
    "dropped_frames au1 = dropped_frames au + skipped"
    using assms(1,2) by (simp_all add: au1_def queue_wf_def audio_open_def audio_contents_def)
  have xs: "length xs \<le> kAudioQueueFrames" "length xs = length samples - skipped"
    by (simp_all add: xs_def skipped_def)
  note room = make_room_wf [OF au1(1) xs(1)]
  note app = append_frames_wf [OF room(1,2)]
  show "fst (enqueue samples au)" by (simp add: out)
  show "audio_open (snd (enqueue samples au))" "queue_wf (snd (enqueue samples au))"
    using app room au1 by (simp_all add: out)
  show "audio_contents (snd (enqueue samples au)) = newest kAudioQueueFrames (audio_contents au @ samples)"
  proof -
    have "xs = newest kAudioQueueFrames samples" by (simp add: xs_def skipped_def newest_def)
    then show ?thesis unfolding out snd_conv app(2) room(3) au1(3,4) length_audio_contents [symmetric]
      by (simp only: newest_room)
  qed
  show "dropped_frames (snd (enqueue samples au)) =
      dropped_frames au + (queue_size au + length samples - kAudioQueueFrames)"
  proof -
    have "skipped + (queue_size au - (kAudioQueueFrames - (length samples - skipped))) =
        queue_size au + length samples - kAudioQueueFrames"
      unfolding skipped_def using len(3) by linarith
    then show ?thesis unfolding out snd_conv app(3) room(4) au1(4,5)
      unfolding xs(2) by simp
  qed
qed

lemma dequeue_open:
  assumes "queue_wf au"
  shows "queue_wf (snd (dequeue au))" "fst (dequeue au) @ audio_contents (snd (dequeue au)) = audio_contents au"
    "length (fst (dequeue au)) = min (queue_size au) kAudioWriteChunkFrames"
    "dropped_frames (snd (dequeue au)) = dropped_frames au"
    "audio_open (snd (dequeue au)) = audio_open au"
proof -
  let ?n = "min (queue_size au) kAudioWriteChunkFrames"
  have wf: "length (queue au) = kAudioQueueFrames" "queue_head au < kAudioQueueFrames"
    "queue_size au \<le> kAudioQueueFrames"
    using assms by (auto simp: queue_wf_def)
  have read: "ring_read (queue au) (queue_head au) ?n = ring_contents (queue au) (queue_head au) ?n"
    using wf by (intro ring_read_contents) auto
  have part: "ring_contents (queue au) (queue_head au) ?n = take ?n (audio_contents au)"
    by (simp add: audio_contents_def ring_contents_def take_map)
  have rest: "audio_contents (snd (dequeue au)) = drop ?n (audio_contents au)"
    using ring_contents_drop [of ?n "queue_size au" "queue au" "queue_head au"]
    by (simp add: dequeue_def Let_def audio_contents_def)
  show "fst (dequeue au) @ audio_contents (snd (dequeue au)) = audio_contents au"
    unfolding rest by (simp add: dequeue_def Let_def read part)
  show "length (fst (dequeue au)) = ?n" by (simp add: dequeue_def Let_def read)
  show "queue_wf (snd (dequeue au))"
    using wf by (auto simp: dequeue_def Let_def queue_wf_def)
  show "dropped_frames (snd (dequeue au)) = dropped_frames au" "audio_open (snd (dequeue au)) = audio_open au"
    by (simp_all add: dequeue_def Let_def audio_open_def)
qed

interpretation audio: lossy_queue
  "\<lambda>au. audio_open au \<and> queue_wf au" audio_contents dropped_frames kAudioQueueFrames
  "\<lambda>samples au. snd (enqueue samples au)" dequeue
  by unfold_locales (simp_all add: enqueue_open dequeue_open)

lemma enqueue_closed:
  "\<not> audio_open au \<or> queue au = [] \<or> samples = [] \<Longrightarrow> enqueue samples au = (False, au)"
  by (auto simp: enqueue_def audio_open_def)

lemma make_room_frames [frame_rules]:
  "source_rate (make_room n au) = source_rate au"
  "output_rate (make_room n au) = output_rate au"
  "rate_remainder (make_room n au) = rate_remainder au"
  "volume_percent (make_room n au) = volume_percent au"
  "thread_started (make_room n au) = thread_started au"
  "stopping (make_room n au) = stopping au"
  "worker_failed (make_room n au) = worker_failed au"
  by (simp_all add: make_room_def Let_def)

lemma append_frames_frames [frame_rules]:
  "source_rate (append_frames samples au) = source_rate au"
  "output_rate (append_frames samples au) = output_rate au"
  "rate_remainder (append_frames samples au) = rate_remainder au"
  "volume_percent (append_frames samples au) = volume_percent au"
  "thread_started (append_frames samples au) = thread_started au"
  "stopping (append_frames samples au) = stopping au"
  "worker_failed (append_frames samples au) = worker_failed au"
  by (simp_all add: append_frames_def Let_def)

lemma enqueue_frames [frame_rules]:
  "source_rate (snd (enqueue samples au)) = source_rate au"
  "output_rate (snd (enqueue samples au)) = output_rate au"
  "rate_remainder (snd (enqueue samples au)) = rate_remainder au"
  "volume_percent (snd (enqueue samples au)) = volume_percent au"
  "thread_started (snd (enqueue samples au)) = thread_started au"
  "stopping (snd (enqueue samples au)) = stopping au"
  "worker_failed (snd (enqueue samples au)) = worker_failed au"
  by (simp_all add: enqueue_def Let_def frame_rules)

text \<open>
  C39. The ring between the two threads is a bounded queue that drops its oldest frames: an accepted
  \<open>enqueue\<close> leaves exactly the newest 16384 frames of the old contents followed by the new samples,
  counts every frame it overwrote, and the writer's critical section takes a prefix of at most
  2048 frames and leaves the rest; both keep the indices in range.
\<close>
theorem audio_ring_refines_queue:
  assumes "audio_open au" "queue_wf au" "samples \<noteq> []"
  shows "\<exists>au'. enqueue samples au = (True, au') \<and> audio_open au' \<and> queue_wf au' \<and>
      audio_contents au' = newest 16384 (audio_contents au @ samples) \<and>
      dropped_frames au' = dropped_frames au + (length (audio_contents au @ samples) - 16384) \<and>
    (\<exists>chunk au''. dequeue au = (chunk, au'') \<and> queue_wf au'' \<and>
      length chunk = min (queue_size au) 2048 \<and> chunk @ audio_contents au'' = audio_contents au)"
proof -
  obtain au' where e: "enqueue samples au = (True, au')"
    using enqueue_open(1) [OF assms] by (metis (full_types) fst_conv surj_pair)
  obtain chunk au'' where d: "dequeue au = (chunk, au'')" by fastforce
  show ?thesis
    unfolding kAudioQueueFrames_def [symmetric] kAudioWriteChunkFrames_def [symmetric]
    using enqueue_open [OF assms] dequeue_open [OF assms(2)] e d by simp
qed

section \<open>The stream across the two threads\<close>

lemma write_loop_accepts:
  "write_loop script bytes accepted = Some (ok, out, rest) \<Longrightarrow>
     (ok \<longrightarrow> out = accepted @ bytes) \<and> (\<exists>n. out = accepted @ take n bytes)"
proof (induction script bytes accepted arbitrary: ok out rest rule: write_loop.induct)
  case (1 script accepted)
  then show ?case by auto
next
  case (3 r script b bytes accepted)
  show ?case
  proof (cases r)
    case (Wrote amount)
    show ?thesis
    proof (cases "amount = 0")
      case True
      then show ?thesis using 3(3) Wrote by (auto intro: exI [of _ 0])
    next
      case False
      then have "write_loop script (drop amount (b # bytes)) (accepted @ take amount (b # bytes)) = Some (ok, out, rest)"
        using 3(3) Wrote by simp
      from 3(1) [OF Wrote False this] obtain n where
        "ok \<longrightarrow> out = (accepted @ take amount (b # bytes)) @ drop amount (b # bytes)"
        "out = (accepted @ take amount (b # bytes)) @ take n (drop amount (b # bytes))" by blast
      then show ?thesis
        by (metis append.assoc append_take_drop_id take_add)
    qed
  next
    case Write_interrupted
    then show ?thesis using 3 by simp
  next
    case Write_failed
    then show ?thesis using 3(3) by (auto intro: exI [of _ 0])
  qed
qed simp

lemma write_loop_returns:
  "length bytes \<le> length (filter (\<lambda>r. r \<noteq> Write_interrupted) script) \<Longrightarrow>
     \<exists>result. write_loop script bytes accepted = Some result"
proof (induction script bytes accepted rule: write_loop.induct)
  case (3 r script b bytes accepted)
  show ?case
  proof (cases r)
    case (Wrote amount)
    show ?thesis
    proof (cases "amount = 0")
      case True
      then show ?thesis using Wrote by (auto intro: exI [of _ False])
    next
      case False
      have "length (drop amount (b # bytes)) \<le> length (filter (\<lambda>r. r \<noteq> Write_interrupted) script)"
        using 3(3) Wrote False by simp
      then show ?thesis using 3(1) [OF Wrote False] Wrote False by simp
    qed
  next
    case Write_interrupted
    then show ?thesis using 3 by simp
  qed (auto intro: exI [of _ False])
qed auto

text \<open>
  Writing terminates: whatever the device answers, once it has answered as many calls without
  an interruption as there are bytes, \<open>write_all\<close> has returned; and it returns success only after
  the device accepted every byte of the samples in order, failure only after a prefix of them,
  with the device closed.
\<close>
theorem write_all_terminates:
  assumes "2 * length samples \<le> length (filter (\<lambda>r. r \<noteq> Write_interrupted) script)"
  shows "\<exists>ok accepted au'. write_all script samples au = Some (ok, accepted, au') \<and>
    (ok \<longrightarrow> accepted = sample_bytes samples \<and> au' = au) \<and>
    (\<not> ok \<longrightarrow> (\<exists>n. accepted = take n (sample_bytes samples)) \<and> au_fd au' = - 1)"
proof -
  have "length (sample_bytes samples) = 2 * length samples"
    by (simp add: sample_bytes_def length_concat comp_def sum_list_triv)
  then obtain ok accepted rest where w: "write_loop script (sample_bytes samples) [] = Some (ok, accepted, rest)"
    using write_loop_returns [of "sample_bytes samples" script "[]"] assms by fastforce
  then show ?thesis
    using write_loop_accepts [OF w] by (auto simp: write_all_def)
qed

theorem write_all_terminates_witness:
  "\<exists>accepted au'. write_all [Write_interrupted, Wrote 1, Wrote 1, Wrote 1, Wrote 1] [7, 8] created_audio =
     Some (True, accepted, au') \<and> accepted = sample_bytes [7, 8]"
  using write_all_terminates [of "[7, 8]" "[Write_interrupted, Wrote 1, Wrote 1, Wrote 1, Wrote 1]" created_audio]
  by (auto simp: write_all_def sample_bytes_def)

lemma write_all_keeps:
  "write_all script samples au = Some (ok, accepted, au') \<Longrightarrow> au' = au\<lparr>au_fd := au_fd au'\<rparr>"
  by (auto simp: write_all_def split: option.splits if_splits)

lemma start_playback_keeps:
  "start_playback ok au = (r, au') \<Longrightarrow>
     au' = au\<lparr>au_fd := au_fd au', trigger_pending := trigger_pending au'\<rparr>"
  by (auto simp: start_playback_def split: if_splits)

lemma device_keeps:
  assumes "start_playback ok au = (r, au1)" "write_all script samples au1 = Some (done, accepted, au')"
  shows "\<exists>fd t. au' = au\<lparr>au_fd := fd, trigger_pending := t\<rparr>"
proof -
  obtain fd t where "au1 = au\<lparr>au_fd := fd, trigger_pending := t\<rparr>"
    using start_playback_keeps [OF assms(1)] by blast
  moreover obtain fd' where "au' = au1\<lparr>au_fd := fd'\<rparr>" using write_all_keeps [OF assms(2)] by blast
  ultimately have "au' = au\<lparr>au_fd := fd', trigger_pending := t\<rparr>" by simp
  then show ?thesis by blast
qed

definition in_flight :: "worker \<Rightarrow> sample list" where
  "in_flight w = (case w of Writing chunk \<Rightarrow> chunk | _ \<Rightarrow> [])"

lemma in_flight_simps [simp]:
  "in_flight Waiting = []" "in_flight (Writing chunk) = chunk" "in_flight Finished = []"
  by (simp_all add: in_flight_def)

definition stream_inv :: "audio_system \<Rightarrow> bool" where
  "stream_inv s = (thread_started (sys_audio s) \<and> queue_wf (sys_audio s) \<and>
     (worker_failed (sys_audio s) \<longrightarrow> sys_worker s = Finished \<and> queue_size (sys_audio s) = 0 \<and>
        subseq (sys_delivered s) (sys_produced s)) \<and>
     (\<not> worker_failed (sys_audio s) \<longrightarrow>
        audio.ledger (sys_produced s) (sys_delivered s @ in_flight (sys_worker s)) (sys_audio s)))"

lemma stream_inv_ledger_cong:
  "audio_contents au' = audio_contents au \<Longrightarrow> dropped_frames au' = dropped_frames au \<Longrightarrow>
     audio.ledger produced taken au' = audio.ledger produced taken au"
  by (simp add: audio.ledger_def)

lemma open_stream_inv:
  assumes "audio_open_device k rate volume fragments au0 = Some (Inr (), au)" "thread_started au"
  shows "stream_inv \<lparr>sys_audio = au, sys_worker = Waiting, sys_produced = [], sys_delivered = []\<rparr>"
proof -
  have "queue au = replicate kAudioQueueFrames 0 \<and> queue_head au = 0 \<and> queue_size au = 0 \<and>
    dropped_frames au = 0 \<and> \<not> worker_failed au"
    using assms
    by (auto simp: audio_open_device_def Let_def audio_close_device_def
        split: if_splits option.splits bool.splits prod.splits)
  then show ?thesis
    using assms(2)
    by (simp add: stream_inv_def queue_wf_def audio.ledger_def audio_contents_def ring_contents_def
        kAudioQueueFrames_def)
qed

lemma failed_stream_inv:
  assumes "stream_inv s" "sys_worker s = Writing chunk" "au = (sys_audio s)\<lparr>au_fd := fd, trigger_pending := t\<rparr>"
  shows "stream_inv (s\<lparr>sys_audio := au\<lparr>worker_failed := True, queue_size := 0\<rparr>, sys_worker := Finished\<rparr>)"
proof -
  have "\<not> worker_failed (sys_audio s)" using assms(1,2) by (auto simp: stream_inv_def)
  then have "subseq ((sys_delivered s @ chunk) @ audio_contents (sys_audio s)) (sys_produced s)"
    using assms(1,2) by (simp add: stream_inv_def audio.ledger_def)
  then have "subseq (sys_delivered s) (sys_produced s)"
    by (metis append.assoc prefixI prefix_imp_subseq subseq_order.trans)
  then show ?thesis
    using assms(1,3) by (simp add: stream_inv_def queue_wf_def)
qed

lemma step_stream_inv: "audio_step s s' \<Longrightarrow> stream_inv s \<Longrightarrow> stream_inv s'"
proof (induction rule: audio_step.induct)
  case (produce samples s ok au)
  show ?case
  proof (cases "audio_open (sys_audio s) \<and> samples \<noteq> []")
    case True
    then have o: "audio_open (sys_audio s)" "queue_wf (sys_audio s)" "samples \<noteq> []"
      using produce.prems by (auto simp: stream_inv_def)
    have "\<not> worker_failed (sys_audio s)" using o by (simp add: audio_open_def)
    then have "audio.ledger (sys_produced s @ samples) (sys_delivered s @ in_flight (sys_worker s)) au"
      using audio.ledger_put [of "sys_audio s" "sys_produced s" _ samples] produce.prems produce.hyps o
      by (simp add: stream_inv_def)
    then show ?thesis
      using enqueue_open [OF o] produce.hyps by (simp add: stream_inv_def audio_open_def)
  next
    case False
    then have "ok = False" "au = sys_audio s"
      using produce.hyps enqueue_closed [of "sys_audio s" samples] by auto
    then show ?thesis using produce.prems by (simp add: stream_inv_def)
  qed
next
  case (take_chunk s chunk au)
  have o: "audio_open (sys_audio s)" "queue_wf (sys_audio s)" "\<not> worker_failed (sys_audio s)"
    using take_chunk.hyps take_chunk.prems by (auto simp: stream_inv_def audio_open_def)
  have "audio.ledger (sys_produced s) (sys_delivered s @ chunk) au"
    using audio.ledger_take [of "sys_audio s" "sys_produced s" "sys_delivered s"] take_chunk.hyps
      take_chunk.prems o by (simp add: stream_inv_def)
  moreover have "queue_wf au" "audio_open au"
    using dequeue_open(1,5) [OF o(2)] take_chunk.hyps(4) o(1) by simp_all
  ultimately show ?case by (simp add: stream_inv_def audio_open_def)
next
  case (written s chunk trigger_ok au1 script accepted au)
  obtain fd t where au: "au = (sys_audio s)\<lparr>au_fd := fd, trigger_pending := t\<rparr>"
    using device_keeps [OF written.hyps(2,3)] by blast
  have nf: "\<not> worker_failed (sys_audio s)" using written.hyps(1) written.prems by (auto simp: stream_inv_def)
  have "audio.ledger (sys_produced s) (sys_delivered s @ chunk) au =
      audio.ledger (sys_produced s) (sys_delivered s @ chunk) (sys_audio s)"
    by (rule stream_inv_ledger_cong) (simp_all add: au audio_contents_def)
  then show ?case
    using written.hyps(1) written.prems nf by (simp add: stream_inv_def au queue_wf_def)
next
  case (not_started s chunk trigger_ok au)
  then show ?case
    using failed_stream_inv [OF not_started.prems not_started.hyps(1) start_playback_keeps [OF not_started.hyps(2)]]
    by simp
next
  case (not_written s chunk trigger_ok au1 script accepted au)
  obtain fd t where au: "au = (sys_audio s)\<lparr>au_fd := fd, trigger_pending := t\<rparr>"
    using device_keeps [OF not_written.hyps(2,3)] by blast
  show ?case by (rule failed_stream_inv [OF not_written.prems not_written.hyps(1) au])
next
  case (request_stop s)
  have "audio.ledger p t ((sys_audio s)\<lparr>stopping := True\<rparr>) = audio.ledger p t (sys_audio s)" for p t
    by (rule stream_inv_ledger_cong) (simp_all add: audio_contents_def)
  then show ?case using request_stop by (simp add: stream_inv_def queue_wf_def)
next
  case (stop s)
  then show ?case by (auto simp: stream_inv_def)
qed

lemma reachable_stream_inv: "audio_reachable s \<Longrightarrow> stream_inv s"
  by (induction rule: audio_reachable.induct) (blast intro: open_stream_inv step_stream_inv)+

text \<open>
  C31. Whatever way the producer, the writer, a stop request and device failures interleave, the
  frames the device was given, then those being written, then those queued are the produced
  frames in order with some left out; the queue never holds more than 16384 frames; and until the
  writer fails every produced frame is delivered, in flight, queued or counted as dropped.
\<close>
theorem audio_stream_in_order:
  assumes "audio_reachable s"
  shows "queue_size (sys_audio s) \<le> 16384 \<and>
    (worker_failed (sys_audio s) \<longrightarrow> queue_size (sys_audio s) = 0 \<and> subseq (sys_delivered s) (sys_produced s)) \<and>
    (\<not> worker_failed (sys_audio s) \<longrightarrow>
       subseq (sys_delivered s @ in_flight (sys_worker s) @ audio_contents (sys_audio s)) (sys_produced s) \<and>
       length (sys_delivered s) + length (in_flight (sys_worker s)) + queue_size (sys_audio s) +
         dropped_frames (sys_audio s) = length (sys_produced s))"
  unfolding kAudioQueueFrames_def [symmetric]
  using reachable_stream_inv [OF assms] by (simp add: stream_inv_def audio.ledger_def queue_wf_def)

section \<open>Resampling\<close>

text \<open>The 64-bit intermediate values do not wrap for sizes and rates of 32 bits.\<close>

lemma scaled_fits:
  assumes "frames < 2 ^ 32" "rate < 2 ^ 32" "remainder < 2 ^ 32"
  shows "frames * rate + remainder < (2 ^ 64 :: nat)"
proof -
  have "frames * rate \<le> (2 ^ 32 - 1) * (2 ^ 32 - 1)" using assms by (intro mult_le_mono) auto
  then show ?thesis using assms(3) by simp
qed

lemma step_bound:
  assumes "(i :: nat) < n"
  shows "i * (k * 2 ^ 32 div (n - 1)) \<le> k * 2 ^ 32"
proof -
  have "i * (k * 2 ^ 32 div (n - 1)) \<le> (n - 1) * (k * 2 ^ 32 div (n - 1))"
    using assms by (intro mult_right_mono) auto
  also have "\<dots> \<le> k * 2 ^ 32" by (rule times_div_less_eq_dividend)
  finally show ?thesis .
qed

lemma position_fits:
  assumes "i < n" "frames < 2 ^ 32"
  shows "i * ((frames - 1) * 2 ^ 32 div (n - 1)) < (2 ^ 64 :: nat)"
proof -
  have "(frames - 1) * 2 ^ 32 < 2 ^ 32 * (2 ^ 32 :: nat)" using assms(2) by simp
  then show ?thesis using step_bound [OF assms(1), of "frames - 1"] by simp
qed

definition between :: "int \<Rightarrow> int \<Rightarrow> int \<Rightarrow> bool" where
  "between a b x = (min a b \<le> x \<and> x \<le> max a b)"

lemma interpolation_between:
  assumes "0 \<le> f" "f < 65536"
  shows "between 0 d (d * f div (65536 :: int))"
proof (cases "0 \<le> d")
  case True
  have "0 \<le> d * f" "d * f \<le> d * 65536" using True assms by (simp_all add: mult_left_mono)
  then have "0 \<le> d * f div 65536" "d * f div 65536 \<le> d * 65536 div 65536"
    by (simp_all add: zdiv_mono1 pos_imp_zdiv_nonneg_iff)
  then show ?thesis using True by (simp add: between_def)
next
  case False
  have "d * 65536 \<le> d * f" "d * f \<le> 0" using False assms by (auto simp: mult_nonpos_nonneg)
  then have "d * 65536 div 65536 \<le> d * f div 65536" "d * f div 65536 \<le> 0 div 65536"
    by (intro zdiv_mono1; simp)+
  then show ?thesis using False by (simp add: between_def)
qed

lemma sint_sample_range: "- 32768 \<le> sint (s :: sample)" "sint (s :: sample) \<le> 32767"
  using sint_ge [of s] sint_lt [of s] by simp_all

lemma sint_word_of_int_sample:
  "- 32768 \<le> v \<Longrightarrow> v \<le> 32767 \<Longrightarrow> sint (word_of_int v :: sample) = v"
  by (simp add: signed_of_int signed_take_bit_int_eq_self)

definition gentle :: "sample list \<Rightarrow> bool" where
  "gentle samples = list_all (\<lambda>i. \<bar>sint (samples ! (i + 1)) - sint (samples ! i)\<bar> \<le> 32768) [0..<length samples - 1]"

lemma interpolate_gentle:
  assumes "gentle samples" "i < length samples - 1" "f < 65536"
  shows "\<exists>v. interpolate samples i f = Some v \<and>
    between (sint (samples ! i)) (sint (samples ! (i + 1))) (sint v)"
proof -
  let ?a = "sint (samples ! i)" and ?b = "sint (samples ! (i + 1))"
  have "\<bar>?b - ?a\<bar> \<le> 32768" using assms(1,2) by (simp add: gentle_def list_all_iff)
  then have "\<bar>(?b - ?a) * int f\<bar> \<le> 32768 * 65535"
    unfolding abs_mult using assms(3) by (intro mult_mono) auto
  then have fits: "fits_int ((?b - ?a) * int f)" by (auto simp: fits_int_def)
  have "between 0 (?b - ?a) ((?b - ?a) * int f div 65536)"
    using assms(3) by (intro interpolation_between) auto
  then have bt: "between ?a ?b (?a + (?b - ?a) * int f div 65536)"
    by (auto simp: between_def min_def max_def split: if_splits)
  then have "- 32768 \<le> ?a + (?b - ?a) * int f div 65536 \<and> ?a + (?b - ?a) * int f div 65536 \<le> 32767"
    using sint_sample_range [of "samples ! i"] sint_sample_range [of "samples ! (i + 1)"]
    by (auto simp: between_def)
  then have "sint (word_of_int (?a + (?b - ?a) * int f div 65536) :: sample) = ?a + (?b - ?a) * int f div 65536"
    by (intro sint_word_of_int_sample) auto
  moreover have "interpolate samples i f = Some (word_of_int (?a + (?b - ?a) * int f div 65536))"
    using fits by (simp only: interpolate_def Let_def if_True)
  ultimately show ?thesis using bt by (intro exI conjI) (assumption, simp only:)
qed

text \<open>The input frame a position falls into, and the one after it, saturating at the last.\<close>

definition frame_at :: "sample list \<Rightarrow> nat \<Rightarrow> nat" where
  "frame_at samples position = min (position div 2 ^ 32) (length samples - 1)"

definition frame_after :: "sample list \<Rightarrow> nat \<Rightarrow> nat" where
  "frame_after samples position = min (position div 2 ^ 32 + 1) (length samples - 1)"

lemma sample_at_gentle:
  assumes "gentle samples"
  shows "\<exists>v. sample_at samples p = Some v \<and>
    between (sint (samples ! frame_at samples p)) (sint (samples ! frame_after samples p)) (sint v)"
proof (cases "p div 2 ^ 32 \<ge> length samples - 1")
  case True
  then have "frame_at samples p = length samples - 1" "frame_after samples p = length samples - 1"
    unfolding frame_at_def frame_after_def by linarith+
  then show ?thesis using True by (simp add: sample_at_def between_def)
next
  case False
  then have "frame_at samples p = p div 2 ^ 32" "frame_after samples p = p div 2 ^ 32 + 1"
    unfolding frame_at_def frame_after_def by linarith+
  moreover have at: "sample_at samples p = interpolate samples (p div 2 ^ 32) (p div 2 ^ 16 mod 2 ^ 16)"
    unfolding sample_at_def Let_def using False by (rule if_not_P)
  moreover have "p div 2 ^ 16 mod 2 ^ 16 < (65536 :: nat)" by simp
  ultimately show ?thesis
    using interpolate_gentle [OF assms, of "p div 2 ^ 32" "p div 2 ^ 16 mod 2 ^ 16"] False
    by (simp only: at not_le)
qed

lemma resample_loop_defined:
  assumes "\<And>p. \<exists>v. sample_at samples p = Some v \<and> P p v"
  shows "\<exists>out. resample_loop samples step n p = Some out \<and> length out = n \<and>
    (\<forall>i<n. P (p + i * step) (out ! i))"
proof (induction n arbitrary: p)
  case (Suc n)
  obtain v where v: "sample_at samples p = Some v" "P p v" using assms by blast
  obtain out where out: "resample_loop samples step n (p + step) = Some out" "length out = n"
    "\<forall>i<n. P (p + step + i * step) (out ! i)" using Suc by blast
  have "P (p + i * step) ((v # out) ! i)" if "i < Suc n" for i
    using that v out(3) by (cases i) (auto simp: add.assoc)
  then show ?case using v out by (intro exI [of _ "v # out"]) simp
qed simp

text \<open>
  When neighbouring samples differ by at most half the range, the resampler runs without
  undefined behaviour for any output size: it returns exactly the requested number of frames, and
  each is between the two input frames around its position, which advances by equal steps from the
  first frame and never passes the last.
\<close>
theorem resample_interpolates:
  assumes "gentle samples" "samples \<noteq> []" "n > 1" "length samples > 1"
  shows "\<exists>out. resample samples n = Some out \<and> length out = n \<and>
    (\<forall>i<n. let position = i * ((length samples - 1) * 2 ^ 32 div (n - 1))
           in position \<le> (length samples - 1) * 2 ^ 32 \<and>
              between (sint (samples ! frame_at samples position))
                (sint (samples ! frame_after samples position)) (sint (out ! i)))"
proof -
  obtain out where out: "resample_loop samples ((length samples - 1) * 2 ^ 32 div (n - 1)) n 0 = Some out"
    "length out = n"
    "\<forall>i<n. between (sint (samples ! frame_at samples (0 + i * ((length samples - 1) * 2 ^ 32 div (n - 1)))))
      (sint (samples ! frame_after samples (0 + i * ((length samples - 1) * 2 ^ 32 div (n - 1))))) (sint (out ! i))"
    using resample_loop_defined [OF sample_at_gentle [OF assms(1)]] by blast
  have "resample samples n = Some out" using assms(3,4) out(1) by (simp add: resample_def)
  moreover have "i * ((length samples - 1) * 2 ^ 32 div (n - 1)) \<le> (length samples - 1) * 2 ^ 32" if "i < n" for i
    using that by (rule step_bound)
  ultimately show ?thesis
    using out(2,3) unfolding Let_def add_0 by blast
qed

text \<open>Full-scale steps overflow the product: undefined behaviour the code can reach.\<close>

lemma resample_overflows: "resample [32767, - 32768] 4 = None"
proof -
  let ?s = "[32767, - 32768] :: sample list"
  have "resample ?s 4 = resample_loop ?s 1431655765 (Suc (Suc (Suc (Suc 0)))) 0"
    by (simp add: resample_def flip: numeral_4_eq_4)
  moreover have "sample_at ?s 0 = Some 32767" "sample_at ?s 1431655765 = Some 10922" "sample_at ?s 2863311530 = None"
    by (simp_all add: sample_at_def interpolate_def fits_int_def Let_def)
  ultimately show ?thesis by simp
qed

subsection \<open>The rate remainder\<close>

text \<open>A run of \<open>write_mono\<close> calls.\<close>

fun write_monos :: "sample list list \<Rightarrow> DeckAudio \<Rightarrow> DeckAudio option" where
  "write_monos [] au = Some au"
| "write_monos (b # bs) au = (case write_mono b au of None \<Rightarrow> None | Some (_, au') \<Rightarrow> write_monos bs au')"

definition made :: "DeckAudio \<Rightarrow> nat" where
  "made au = queue_size au + dropped_frames au"

lemma made_enqueue:
  assumes "audio_open au" "queue_wf au" "samples \<noteq> []"
  shows "made (snd (enqueue samples au)) = made au + length samples"
proof -
  have "length (audio_contents (snd (enqueue samples au))) =
      length (newest kAudioQueueFrames (audio_contents au @ samples))"
    using enqueue_open(4) [OF assms] by simp
  then have "queue_size (snd (enqueue samples au)) = min kAudioQueueFrames (queue_size au + length samples)"
    unfolding newest_def length_drop length_append length_audio_contents by linarith
  then show ?thesis
    unfolding made_def enqueue_open(5) [OF assms] by linarith
qed

lemma length_resample:
  assumes "resample samples n = Some out"
  shows "length out = n"
proof -
  have "resample_loop samples step n p = Some out \<Longrightarrow> length out = n" for step p out
    by (induction n arbitrary: p out) (auto split: option.splits)
  then show ?thesis using assms by (auto simp: resample_def split: if_splits)
qed

lemma write_mono_rates:
  assumes "audio_open au" "queue_wf au" "write_mono samples au = Some (ok, au')" "0 < source_rate au"
    "rate_remainder au < source_rate au"
  shows "audio_open au' \<and> queue_wf au' \<and> source_rate au' = source_rate au \<and> output_rate au' = output_rate au \<and>
    rate_remainder au' < source_rate au \<and>
    made au' * source_rate au + rate_remainder au' =
      made au * source_rate au + length samples * output_rate au + rate_remainder au"
proof (cases "samples = []")
  case True
  then show ?thesis using assms by (simp add: write_mono_def)
next
  case ne: False
  show ?thesis
  proof (cases "source_rate au = output_rate au")
    case True
    then have "au' = snd (enqueue samples au)" using assms(3) ne by (simp add: write_mono_def)
    then show ?thesis
      using enqueue_open [OF assms(1,2) ne] made_enqueue [OF assms(1,2) ne] assms(5) True
      by (simp add: frame_rules add_mult_distrib)
  next
    case False
    define scaled where "scaled = length samples * output_rate au + rate_remainder au"
    define n where "n = scaled div source_rate au"
    define au1 where "au1 = au\<lparr>rate_remainder := scaled mod source_rate au\<rparr>"
    have split: "n * source_rate au + scaled mod source_rate au = scaled" by (simp add: n_def)
    have au1: "audio_open au1" "queue_wf au1" "made au1 = made au"
      using assms(1,2) by (simp_all add: au1_def audio_open_def queue_wf_def made_def)
    have less: "scaled mod source_rate au < source_rate au" using assms(4) by simp
    show ?thesis
    proof (cases "n = 0")
      case True
      then have "au' = au1" using assms(3,4) ne False by (simp add: write_mono_def Let_def scaled_def n_def au1_def)
      then show ?thesis using au1 split less True by (simp add: au1_def scaled_def)
    next
      case n: False
      then obtain out where out: "resample samples n = Some out" "au' = snd (enqueue out au1)"
        using assms(3,4) ne False by (auto simp: write_mono_def Let_def scaled_def n_def au1_def)
      have len: "length out = n" using out(1) by (rule length_resample)
      then have "out \<noteq> []" using n by auto
      note e = enqueue_open [OF au1(1,2) this] made_enqueue [OF au1(1,2) this]
      have "source_rate (snd (enqueue out au1)) = source_rate au" "output_rate (snd (enqueue out au1)) = output_rate au"
        "rate_remainder (snd (enqueue out au1)) = scaled mod source_rate au"
        by (simp_all add: frame_rules) (simp_all add: au1_def)
      then show ?thesis
        using e len split less out(2) au1(3) by (simp add: scaled_def add_mult_distrib)
    qed
  qed
qed

text \<open>
  Resampling does not drift: after any run of \<open>write_mono\<close> calls that stays defined on an open
  device, the frames handed to the queue times the source rate plus the carried remainder equal
  the frames received times the device's rate, so the output is never more than one frame behind
  the exact count, however the input is cut into calls.
\<close>
theorem resampler_no_drift:
  assumes "audio_open au" "queue_wf au" "write_monos blocks au = Some au'" "0 < source_rate au"
    "rate_remainder au < source_rate au"
  shows "rate_remainder au' < source_rate au \<and>
    made au' * source_rate au + rate_remainder au' =
      made au * source_rate au + length (concat blocks) * output_rate au + rate_remainder au"
  using assms
proof (induction blocks arbitrary: au)
  case Nil
  then show ?case by simp
next
  case (Cons b bs)
  obtain ok au1 where w: "write_mono b au = Some (ok, au1)" "write_monos bs au1 = Some au'"
    using Cons.prems(3) by (auto split: option.splits)
  note r = write_mono_rates [OF Cons.prems(1,2) w(1) Cons.prems(4,5)]
  have "rate_remainder au' < source_rate au1 \<and>
    made au' * source_rate au1 + rate_remainder au' =
      made au1 * source_rate au1 + length (concat bs) * output_rate au1 + rate_remainder au1"
    using r Cons.prems(4) by (intro Cons.IH w(2)) auto
  then show ?case using r by (simp add: add_mult_distrib)
qed

section \<open>The frame clock\<close>

text \<open>While no wait is late by more than five frames, deadlines are equally spaced from the start.\<close>

fun clock_deadlines :: "int list \<Rightarrow> DeckFrameClock \<Rightarrow> int list" where
  "clock_deadlines [] clock = []"
| "clock_deadlines (now # nows) clock =
     (case wait_for_next_frame now clock of
        (None, clock') \<Rightarrow> clock_deadlines nows clock'
      | (Some deadline, clock') \<Rightarrow> deadline # clock_deadlines nows clock')"

lemma clock_deadlines_spaced:
  assumes "0 < frame_nanoseconds clock"
    "\<forall>i<length nows. nows ! i - (start_nanoseconds clock + (frame_number clock + 1 + int i) * frame_nanoseconds clock)
       \<le> frame_nanoseconds clock * 5"
  shows "clock_deadlines nows clock =
    map (\<lambda>i. start_nanoseconds clock + (frame_number clock + 1 + int i) * frame_nanoseconds clock) [0..<length nows]"
  using assms
proof (induction nows arbitrary: clock)
  case (Cons now nows)
  let ?c = "clock\<lparr>frame_number := frame_number clock + 1\<rparr>"
  have w: "wait_for_next_frame now clock =
    (Some (start_nanoseconds clock + (frame_number clock + 1) * frame_nanoseconds clock), ?c)"
    using Cons.prems(1) Cons.prems(2) [rule_format, of 0] by (simp add: wait_for_next_frame_def Let_def)
  have "clock_deadlines nows ?c =
    map (\<lambda>i. start_nanoseconds ?c + (frame_number ?c + 1 + int i) * frame_nanoseconds ?c) [0..<length nows]"
    using Cons.prems(1) Cons.prems(2) [rule_format, of "Suc i" for i]
    by (intro Cons.IH) (auto simp: algebra_simps)
  then show ?case by (simp add: w upt_conv_Cons map_Suc_upt [symmetric] comp_def algebra_simps del: upt_Suc)
qed simp

section \<open>Witnesses\<close>

definition example_dsp :: dsp_kernel where
  "example_dsp = \<lparr>dsp_fd = 3, dsp_format_ok = True, dsp_channels_ok = True, dsp_speed = Some,
     dsp_hold_ok = True, dsp_space = None, dsp_writes = [], dsp_thread_ok = True\<rparr>"

definition example_audio :: DeckAudio where
  "example_audio = created_audio\<lparr>au_fd := 3, source_rate := 32768, output_rate := 32000,
     volume_percent := 42, trigger_pending := True, thread_started := True,
     queue := replicate kAudioQueueFrames 0\<rparr>"

lemma example_audio_opened:
  "audio_open_device example_dsp 32768 42 8 created_audio = Some (Inr (), example_audio)"
  by (simp add: audio_open_device_def Let_def example_dsp_def example_audio_def created_audio_def
      audio_close_device_def configured_def requested_rate_def prefill_frames_def write_all_def
      sample_bytes_def DeckAudioOutputRate_def)

lemma example_audio_ok:
  "audio_open example_audio" "queue_wf example_audio" "audio_contents example_audio = []"
  "source_rate example_audio = 32768" "output_rate example_audio = 32000" "rate_remainder example_audio = 0"
  "made example_audio = 0"
  by (simp_all add: example_audio_def created_audio_def audio_open_def queue_wf_def audio_contents_def
      ring_contents_def kAudioQueueFrames_def made_def)

theorem audio_ring_refines_queue_witness:
  "\<exists>au'. enqueue [1, 2, 3] example_audio = (True, au') \<and> audio_contents au' = [1, 2, 3]"
  using audio_ring_refines_queue [OF example_audio_ok(1,2), of "[1, 2, 3]"]
  by (auto simp: example_audio_ok newest_def)

theorem audio_stream_in_order_witness:
  "\<exists>s. audio_reachable s \<and> sys_produced s = [1, 2] \<and> queue_size (sys_audio s) \<le> 16384 \<and>
    (\<not> worker_failed (sys_audio s) \<longrightarrow> queue_size (sys_audio s) + dropped_frames (sys_audio s) = 2)"
proof -
  let ?s = "\<lparr>sys_audio = example_audio, sys_worker = Waiting, sys_produced = [], sys_delivered = []\<rparr>"
  obtain au' where e: "enqueue [1, 2] example_audio = (True, au')"
    using enqueue_open(1) [OF example_audio_ok(1,2), of "[1, 2]"]
    by (cases "enqueue [1, 2] example_audio") auto
  have "audio_reachable ?s"
    using audio_reachable.opened [OF example_audio_opened] example_audio_ok(1) by (simp add: audio_open_def)
  moreover have "audio_step ?s (?s\<lparr>sys_audio := au', sys_produced := [1, 2]\<rparr>)"
    using audio_step.produce [of "[1, 2]" ?s True au'] e by simp
  ultimately have r: "audio_reachable (?s\<lparr>sys_audio := au', sys_produced := [1, 2]\<rparr>)"
    by (rule audio_reachable.stepped)
  show ?thesis
    using r audio_stream_in_order [OF r] by (intro exI [of _ "?s\<lparr>sys_audio := au', sys_produced := [1, 2]\<rparr>"]) simp
qed

theorem resample_interpolates_witness:
  "\<exists>out. resample [0, 100, 50] 5 = Some out \<and> length out = 5 \<and>
    between 0 100 (sint (out ! 1))"
proof -
  have "gentle [0, 100, 50]" by (simp add: gentle_def upt_rec)
  from resample_interpolates [OF this, of 5] obtain out where
    "resample [0, 100, 50] 5 = Some out" "length out = 5" and
    all: "\<forall>i<5. let position = i * ((length [0 :: sample, 100, 50] - 1) * 2 ^ 32 div (5 - 1))
      in position \<le> (length [0 :: sample, 100, 50] - 1) * 2 ^ 32 \<and>
         between (sint ([0 :: sample, 100, 50] ! frame_at [0, 100, 50] position))
           (sint ([0 :: sample, 100, 50] ! frame_after [0, 100, 50] position)) (sint (out ! i))"
    by auto
  moreover have "between 0 100 (sint (out ! 1))"
    using all [rule_format, of 1] by (simp add: Let_def frame_at_def frame_after_def)
  ultimately show ?thesis by blast
qed

theorem resampler_no_drift_witness:
  "\<exists>au'. write_monos [[5], [6]] example_audio = Some au' \<and>
    made au' * 32768 + rate_remainder au' = 64000 \<and> rate_remainder au' < 32768"
proof -
  have "\<exists>au'. write_monos [[5], [6]] example_audio = Some au'"
    by (auto simp: write_mono_def Let_def example_audio_ok resample_def split: option.split prod.split)
  then obtain au' where w: "write_monos [[5], [6]] example_audio = Some au'" by blast
  show ?thesis
    using resampler_no_drift [OF example_audio_ok(1,2) w] w by (simp add: example_audio_ok)
qed

end
