(* ===== verification/Tone.thy ===== *)
theory Tone
  imports Deck_Prelude
begin

section \<open>Square waves with an envelope\<close>

text \<open>
  The dashboard's \<open>render_chiptune\<close> and the ten-second game's \<open>play_sound_blocking\<close> synthesise
  their notes with the same loop: a square wave whose amplitude ramps up at the start of each
  note and down at its end.  The loop is modelled once.  Samples are integers that provably fit
  \<open>int16_t\<close>; \<open>static_cast<size_t>(rate) * duration\<close> stays below \<open>2 ^ 32\<close> for the rates and
  durations in use.
\<close>

definition wave_amplitude :: "nat \<Rightarrow> int" where
  "wave_amplitude volume_percent = max 256 (int (5000 * volume_percent div 100))"

definition wave_ramp :: "nat \<Rightarrow> nat" where
  "wave_ramp rate = max 1 (rate div 200)"

definition note_sample :: "int \<Rightarrow> nat \<Rightarrow> nat \<Rightarrow> nat \<Rightarrow> nat \<Rightarrow> int" where
  "note_sample amplitude ramp period n i =
     (let sample = (if i mod period < period div 2 then amplitude else - amplitude);
          remaining = n - i;
          envelope = min ramp (min (i + 1) remaining)
      in (sample * int envelope) sdiv int ramp)"

definition note_length :: "nat \<Rightarrow> nat \<Rightarrow> nat" where
  "note_length rate duration_ms = max 1 (rate * duration_ms div 1000)"

definition note_wave :: "nat \<Rightarrow> int \<Rightarrow> nat \<Rightarrow> nat \<Rightarrow> int list" where
  "note_wave rate amplitude frequency duration_ms =
     (let n = note_length rate duration_ms;
          period = max 2 (rate div frequency)
      in map (note_sample amplitude (wave_ramp rate) period n) [0..<n])"

lemma wave_ramp_pos [simp]: "0 < wave_ramp rate"
  by (simp add: wave_ramp_def)

lemma wave_amplitude_bounds:
  assumes "volume_percent \<le> 100"
  shows "256 \<le> wave_amplitude volume_percent" "wave_amplitude volume_percent \<le> 5000"
proof -
  have "5000 * volume_percent div 100 \<le> 5000 * 100 div 100"
    using assms by (intro div_le_mono mult_le_mono2)
  then show "wave_amplitude volume_percent \<le> 5000" by (simp add: wave_amplitude_def)
qed (simp add: wave_amplitude_def)

text \<open>A sample never exceeds the enveloped amplitude.\<close>

lemma note_sample_envelope:
  assumes "0 \<le> amplitude" "0 < ramp"
  shows "\<bar>note_sample amplitude ramp period n i\<bar> = amplitude * int (min ramp (min (i + 1) (n - i))) div int ramp"
proof -
  let ?e = "int (min ramp (min (i + 1) (n - i)))"
  have nn: "0 \<le> amplitude * ?e" using assms(1) by simp
  have pos: "(amplitude * ?e) sdiv int ramp = amplitude * ?e div int ramp"
    using nn assms(2) by (intro sdiv_nonneg) auto
  have "0 \<le> amplitude * ?e div int ramp"
    using nn assms(2) by (simp add: pos_imp_zdiv_nonneg_iff)
  then show ?thesis
    using pos by (simp only: note_sample_def Let_def mult_minus_left sdiv_minus_left abs_minus_cancel
        abs_of_nonneg split: if_split) simp
qed

lemma note_sample_bound:
  assumes "0 \<le> amplitude" "0 < ramp"
  shows "\<bar>note_sample amplitude ramp period n i\<bar> \<le> amplitude"
proof -
  have "amplitude * int (min ramp (min (i + 1) (n - i))) \<le> amplitude * int ramp"
    using assms by (intro mult_left_mono) auto
  then have "amplitude * int (min ramp (min (i + 1) (n - i))) div int ramp \<le> amplitude * int ramp div int ramp"
    using assms(2) by (intro zdiv_mono1) auto
  then show ?thesis using assms by (simp add: note_sample_envelope)
qed

lemma length_note_wave: "length (note_wave rate amplitude frequency duration_ms) = note_length rate duration_ms"
  by (simp add: note_wave_def Let_def)

lemma note_wave_bound:
  assumes "0 \<le> amplitude"
  shows "list_all (\<lambda>s. \<bar>s\<bar> \<le> amplitude) (note_wave rate amplitude frequency duration_ms)"
  using assms by (simp add: note_wave_def Let_def list_all_iff note_sample_bound)

text \<open>A note starts and ends near silence: its outer samples have one ramp step of amplitude.\<close>

lemma note_wave_edges:
  assumes "0 \<le> amplitude"
  shows "\<bar>note_wave rate amplitude frequency duration_ms ! 0\<bar> \<le> amplitude div int (wave_ramp rate)"
    "\<bar>note_wave rate amplitude frequency duration_ms ! (note_length rate duration_ms - 1)\<bar>
       \<le> amplitude div int (wave_ramp rate)"
proof -
  let ?n = "note_length rate duration_ms" and ?r = "wave_ramp rate"
  have n: "0 < ?n" by (simp add: note_length_def)
  have "min ?r (min (0 + 1) (?n - 0)) = 1" "min ?r (min (?n - 1 + 1) (?n - (?n - 1))) = 1"
    using n wave_ramp_pos [of rate] by linarith+
  then show "\<bar>note_wave rate amplitude frequency duration_ms ! 0\<bar> \<le> amplitude div int ?r"
    "\<bar>note_wave rate amplitude frequency duration_ms ! (?n - 1)\<bar> \<le> amplitude div int ?r"
    using n note_sample_envelope [OF assms wave_ramp_pos, of rate _ ?n]
    by (simp_all only: note_wave_def Let_def) (simp_all add: nth_map)
qed

section \<open>Worker processes\<close>

text \<open>
  Both programs play a sound in a forked child and keep its process id; \<open>- 1\<close> is no child.  The
  answer to \<open>waitpid\<close> with \<open>WNOHANG\<close> is whether the child was reaped.
\<close>

definition reap_child :: "bool \<Rightarrow> int \<Rightarrow> int" where
  "reap_child reaped child_pid = (if child_pid \<le> 0 then child_pid else if reaped then - 1 else child_pid)"

end
