(* ===== verification/Menu_Sound.thy ===== *)
theory Menu_Sound
  imports Tone
begin

section \<open>Menu sounds (\<open>src/menu_sound.cpp\<close>)\<close>

text \<open>
  The cues as notes, their synthesis, and the player that runs them in a child process and
  keeps pointer input quarantined while the speaker may disturb the touch screen.  Opening and
  writing \<open>/dev/dsp\<close> happens in the child and is not modelled.
\<close>

record ChiptuneNote =
  frequency :: int
  duration_ms :: int

datatype MenuSoundCue =
    MenuSoundCueVolume
  | MenuSoundCuePrevious
  | MenuSoundCueNext
  | MenuSoundCueConfirm
  | MenuSoundCueBack

datatype MenuInputKind = MenuInputTouch | MenuInputController | MenuInputKeyboard

definition chip_note :: "int \<Rightarrow> int \<Rightarrow> ChiptuneNote" where
  "chip_note f d = \<lparr>frequency = f, duration_ms = d\<rparr>"

fun menu_sound_notes :: "MenuSoundCue \<Rightarrow> ChiptuneNote list" where
  "menu_sound_notes MenuSoundCueVolume = [chip_note 660 60, chip_note 880 60]"
| "menu_sound_notes MenuSoundCuePrevious = [chip_note 523 35]"
| "menu_sound_notes MenuSoundCueNext = [chip_note 659 35]"
| "menu_sound_notes MenuSoundCueConfirm = [chip_note 659 25, chip_note 880 30]"
| "menu_sound_notes MenuSoundCueBack = [chip_note 659 25, chip_note 440 30]"

definition chiptune_duration_ms :: "ChiptuneNote list \<Rightarrow> int" where
  "chiptune_duration_ms notes = foldl (\<lambda>duration n. duration + max 0 (duration_ms n)) 0 notes"

datatype sound_error = NotesRequired | VolumeOutOfRange | RateNotPositive | NoteNotPositive | CannotFork

text \<open>The notes in order; the tone so far is what the caller's buffer holds at an error.\<close>

fun render_notes :: "nat \<Rightarrow> int \<Rightarrow> ChiptuneNote list \<Rightarrow> int list \<Rightarrow> (sound_error + unit) \<times> int list" where
  "render_notes rate amplitude [] tone = (Inr (), tone)"
| "render_notes rate amplitude (n # ns) tone =
     (if frequency n \<le> 0 \<or> duration_ms n \<le> 0 then (Inl NoteNotPositive, tone)
      else render_notes rate amplitude ns
             (tone @ note_wave rate amplitude (nat (frequency n)) (nat (duration_ms n))))"

definition render_chiptune ::
  "ChiptuneNote list \<Rightarrow> int \<Rightarrow> nat \<Rightarrow> int list \<Rightarrow> (sound_error + unit) \<times> int list" where
  "render_chiptune notes rate volume_percent tone =
     (if notes = [] then (Inl NotesRequired, tone)
      else if volume_percent = 0 \<or> volume_percent > 100 then (Inl VolumeOutOfRange, tone)
      else if rate \<le> 0 then (Inl RateNotPositive, tone)
      else render_notes (nat rate) (wave_amplitude volume_percent) notes [])"

definition menu_input_quarantined :: "int \<Rightarrow> int \<Rightarrow> bool" where
  "menu_input_quarantined quarantine_until now = (quarantine_until > now)"

definition menu_sound_blocks_input :: "bool \<Rightarrow> MenuInputKind \<Rightarrow> bool" where
  "menu_sound_blocks_input sound_active input_kind = (sound_active \<and> input_kind \<noteq> MenuInputKeyboard)"

subsection \<open>The player\<close>

definition kMenuSoundInputTailMs :: int where "kMenuSoundInputTailMs = 60"

record MenuSoundPlayer =
  child_pid :: int
  input_quarantine_until :: int

definition created_player :: MenuSoundPlayer where
  "created_player = \<lparr>child_pid = - 1, input_quarantine_until = 0\<rparr>"

definition reap_finished :: "bool \<Rightarrow> MenuSoundPlayer \<Rightarrow> MenuSoundPlayer" where
  "reap_finished reaped p = p\<lparr>child_pid := reap_child reaped (child_pid p)\<rparr>"

text \<open>\<open>reaped\<close>, \<open>now\<close> and \<open>forked\<close> are the answers of \<open>waitpid\<close>, the clock and \<open>fork\<close>.\<close>

definition play ::
  "MenuSoundCue \<Rightarrow> nat \<Rightarrow> bool \<Rightarrow> int \<Rightarrow> int \<Rightarrow> MenuSoundPlayer \<Rightarrow> (sound_error + unit) \<times> MenuSoundPlayer" where
  "play cue volume_percent reaped now forked p0 =
     (if volume_percent = 0 \<or> volume_percent > 100 then (Inl VolumeOutOfRange, p0)
      else
        (let p = reap_finished reaped p0
         in if child_pid p > 0 then (Inr (), p)
            else if forked < 0 then (Inl CannotFork, p)
            else (Inr (), p\<lparr>child_pid := forked,
                    input_quarantine_until :=
                      now + chiptune_duration_ms (menu_sound_notes cue) + kMenuSoundInputTailMs\<rparr>)))"

definition quarantines_input :: "int \<Rightarrow> MenuSoundPlayer \<Rightarrow> bool" where
  "quarantines_input now p = (child_pid p > 0 \<or> menu_input_quarantined (input_quarantine_until p) now)"

text \<open>\<open>stop\<close> kills the child, \<open>finish\<close> waits for it; both end with no child and no quarantine.\<close>

definition stop :: "MenuSoundPlayer \<Rightarrow> MenuSoundPlayer" where
  "stop p = p\<lparr>child_pid := - 1, input_quarantine_until := 0\<rparr>"

definition finish :: "MenuSoundPlayer \<Rightarrow> MenuSoundPlayer" where
  "finish p = p\<lparr>child_pid := - 1, input_quarantine_until := 0\<rparr>"

section \<open>Synthesis\<close>

lemma render_notes_spec:
  "list_all (\<lambda>n. 0 < frequency n \<and> 0 < duration_ms n) ns \<Longrightarrow>
    render_notes rate amplitude ns tone =
      (Inr (), tone @ concat (map (\<lambda>n. note_wave rate amplitude (nat (frequency n)) (nat (duration_ms n))) ns))"
  by (induction ns arbitrary: tone) auto

lemma render_notes_error:
  "\<not> list_all (\<lambda>n. 0 < frequency n \<and> 0 < duration_ms n) ns \<Longrightarrow>
    fst (render_notes rate amplitude ns tone) = Inl NoteNotPositive"
  by (induction ns arbitrary: tone) auto

lemma menu_notes_positive: "list_all (\<lambda>n. 0 < frequency n \<and> 0 < duration_ms n) (menu_sound_notes cue)"
  by (cases cue) (simp_all add: chip_note_def)

text \<open>
  Synthesis of a tone: it succeeds exactly for a non-empty list of notes with positive
  frequencies and durations, a volume from 1 to 100 and a positive rate; the tone then has one
  block per note, whose length is the note's duration at the rate, every sample is within the
  amplitude for the volume (at most 5000, so it fits 16 bits), and each block begins and ends
  within one ramp step of silence.
\<close>
theorem render_chiptune_exact:
  "(fst (render_chiptune notes rate volume tone) = Inr () \<longleftrightarrow>
      notes \<noteq> [] \<and> 0 < volume \<and> volume \<le> 100 \<and> 0 < rate \<and>
      list_all (\<lambda>n. 0 < frequency n \<and> 0 < duration_ms n) notes) \<and>
   (fst (render_chiptune notes rate volume tone) = Inr () \<longrightarrow>
      (\<exists>blocks. snd (render_chiptune notes rate volume tone) = concat blocks \<and>
        map length blocks = map (\<lambda>n. max 1 (nat rate * nat (duration_ms n) div 1000)) notes \<and>
        wave_amplitude volume \<le> 5000 \<and>
        list_all (\<lambda>b. list_all (\<lambda>s. \<bar>s\<bar> \<le> wave_amplitude volume) b \<and>
          \<bar>hd b\<bar> \<le> wave_amplitude volume div int (wave_ramp (nat rate)) \<and>
          \<bar>List.last b\<bar> \<le> wave_amplitude volume div int (wave_ramp (nat rate))) blocks))"
    (is "(?ok \<longleftrightarrow> ?valid) \<and> (?ok \<longrightarrow> ?spec)")
proof -
  have iff: "?ok \<longleftrightarrow> ?valid"
    using render_notes_spec [of "notes" "nat rate" "wave_amplitude volume" "[]"]
      render_notes_error [of "notes" "nat rate" "wave_amplitude volume" "[]"]
    by (cases "list_all (\<lambda>n. 0 < frequency n \<and> 0 < duration_ms n) notes") (auto simp: render_chiptune_def)
  moreover have ?spec if ?valid
  proof -
    let ?a = "wave_amplitude volume"
    let ?wave = "\<lambda>n :: ChiptuneNote. note_wave (nat rate) ?a (nat (frequency n)) (nat (duration_ms n))"
    have a: "0 \<le> ?a" "?a \<le> 5000" using wave_amplitude_bounds [of volume] that by auto
    have tone: "snd (render_chiptune notes rate volume tone) = concat (map ?wave notes)"
      using that render_notes_spec [of "notes"] by (auto simp: render_chiptune_def)
    have lens: "map length (map ?wave notes) = map (\<lambda>n. max 1 (nat rate * nat (duration_ms n) div 1000)) notes"
      by (simp add: length_note_wave note_length_def)
    have edges: "\<bar>hd (?wave n)\<bar> \<le> ?a div int (wave_ramp (nat rate)) \<and>
        \<bar>List.last (?wave n)\<bar> \<le> ?a div int (wave_ramp (nat rate))" for n
    proof -
      have "?wave n \<noteq> []"
        using length_note_wave [of "nat rate" ?a "nat (frequency n)" "nat (duration_ms n)"]
        by (metis length_0_conv less_irrefl max.strict_coboundedI1 note_length_def zero_less_one)
      then show ?thesis
        using note_wave_edges [OF a(1), of "nat rate" "nat (frequency n)" "nat (duration_ms n)"]
        by (simp add: hd_conv_nth last_conv_nth length_note_wave)
    qed
    show ?thesis
      using tone lens a(2) note_wave_bound [OF a(1)] edges
      by (intro exI [of _ "map ?wave notes"]) (simp add: list_all_iff)
  qed
  ultimately show ?thesis by blast
qed

theorem render_chiptune_exact_witness:
  "\<exists>blocks. snd (render_chiptune (menu_sound_notes MenuSoundCueConfirm) 44100 42 []) = concat blocks \<and>
    map length blocks = [1102, 1323]"
  using render_chiptune_exact [of "menu_sound_notes MenuSoundCueConfirm" 44100 42 "[]"]
    menu_notes_positive [of MenuSoundCueConfirm]
  by (auto simp: chip_note_def)

section \<open>Quarantine\<close>

text \<open>Everything that happens to a player, with the times at which input is looked at.\<close>

datatype player_event =
    Play MenuSoundCue nat bool int int
  | Reap bool
  | Stop
  | Finish

fun player_step :: "player_event \<Rightarrow> MenuSoundPlayer \<Rightarrow> MenuSoundPlayer" where
  "player_step (Play cue volume reaped now forked) p = snd (play cue volume reaped now forked p)"
| "player_step (Reap reaped) p = reap_finished reaped p"
| "player_step Stop p = stop p"
| "player_step Finish p = finish p"

text \<open>Events after a sound was started that neither stop the player nor start another sound earlier.\<close>

fun keeps_playing :: "player_event \<Rightarrow> int \<Rightarrow> bool" where
  "keeps_playing (Play cue volume reaped now forked) since = (since \<le> now)"
| "keeps_playing (Reap reaped) since = True"
| "keeps_playing Stop since = False"
| "keeps_playing Finish since = False"

lemma menu_duration_bounds: "25 \<le> chiptune_duration_ms (menu_sound_notes cue)" "chiptune_duration_ms (menu_sound_notes cue) \<le> 120"
  by (cases cue; simp add: chiptune_duration_ms_def chip_note_def)+

lemma quarantine_step:
  assumes "keeps_playing e since"
    "child_pid p > 0 \<or> input_quarantine_until p \<ge> since + 85" "input_quarantine_until p \<ge> since + 85"
  shows "input_quarantine_until (player_step e p) \<ge> since + 85"
  using assms menu_duration_bounds(1) [of "case e of Play cue _ _ _ _ \<Rightarrow> cue | _ \<Rightarrow> MenuSoundCueBack"]
  by (cases e) (auto simp: play_def reap_finished_def Let_def kMenuSoundInputTailMs_def)

text \<open>
  Quarantine of pointer input: once \<open>play\<close> started a sound at time \<open>now\<close>, the player
  quarantines input while the child lives and, when the child ends early, until the sound's
  duration plus 60 ms have passed; whatever later plays and reaps do, it does so for at least the
  85 ms of the shortest sound; after \<open>stop\<close> or \<open>finish\<close> it quarantines nothing; keyboard
  input is never blocked.
\<close>
theorem sound_quarantine:
  assumes "play cue volume reaped now forked p = (Inr (), p')" "child_pid (reap_finished reaped p) \<le> 0"
    "0 < forked" "list_all (\<lambda>e. keeps_playing e now) events"
  shows "(\<forall>t. t < now + 85 \<longrightarrow> quarantines_input t (foldl (\<lambda>p e. player_step e p) p' events)) \<and>
    quarantines_input t p' \<and>
    (\<forall>t. t < now + chiptune_duration_ms (menu_sound_notes cue) + 60 \<longrightarrow>
       quarantines_input t (reap_finished True p')) \<and>
    (0 \<le> t \<longrightarrow> \<not> quarantines_input t (stop p') \<and> \<not> quarantines_input t (finish p')) \<and>
    \<not> menu_sound_blocks_input (quarantines_input t p') MenuInputKeyboard"
proof -
  have p': "child_pid p' = forked"
    "input_quarantine_until p' = now + chiptune_duration_ms (menu_sound_notes cue) + 60"
    using assms(1-3) by (auto simp: play_def Let_def kMenuSoundInputTailMs_def split: if_splits)
  have "input_quarantine_until (foldl (\<lambda>p e. player_step e p) q events) \<ge> now + 85"
    if "input_quarantine_until q \<ge> now + 85" for q
    using that assms(4)
  proof (induction events arbitrary: q)
    case (Cons e events)
    then have "input_quarantine_until (player_step e q) \<ge> now + 85" by (intro quarantine_step) auto
    then show ?case using Cons by simp
  qed simp
  moreover have "input_quarantine_until p' \<ge> now + 85" using p' menu_duration_bounds(1) [of cue] by simp
  ultimately have "input_quarantine_until (foldl (\<lambda>p e. player_step e p) p' events) \<ge> now + 85" by blast
  then show ?thesis
    using p' assms(3)
    by (auto simp: quarantines_input_def menu_input_quarantined_def reap_finished_def reap_child_def
        stop_def finish_def menu_sound_blocks_input_def)
qed

theorem sound_quarantine_witness:
  "quarantines_input 1050 (reap_finished True (snd (play MenuSoundCueNext 42 False 1000 77 created_player)))"
proof -
  have "play MenuSoundCueNext 42 False 1000 77 created_player =
      (Inr (), snd (play MenuSoundCueNext 42 False 1000 77 created_player))"
    by (simp add: play_def created_player_def reap_finished_def reap_child_def Let_def)
  from sound_quarantine [OF this, of "[]" 0] show ?thesis
    by (simp add: created_player_def reap_finished_def reap_child_def chiptune_duration_ms_def chip_note_def)
qed

end
