(* ===== verification/Deck_Video.thy ===== *)
theory Deck_Video
  imports Deck_Prelude
begin

section \<open>The framebuffer frontend\<close>

text \<open>
  \<open>DeckFramebuffer\<close> of \<open>src/src/deck_runtime.cpp\<close> on the fbdev path: the integer scaling
  layout, the geometry check of \<open>open_device\<close>, the rotated staging buffer and its
  publication, and the exit hint of \<open>deck_runtime.h\<close>.

  Coordinates and strides are integers that stay below \<open>2 ^ 31\<close>.  The mapping and the staging
  buffer are lists of 16-bit words; the mapping's possible odd last byte is never written after
  \<open>open_device\<close>, which \<open>begin_frame\<close> guarantees by refusing an odd size.  The Wayland branch,
  taken when a layer-shell presentation was chosen at open time, is not modelled.
\<close>

subsection \<open>Constants\<close>

definition kLogicalWidth :: int where "kLogicalWidth = 1280"
definition kLogicalHeight :: int where "kLogicalHeight = 480"
definition kPhysicalWidth :: nat where "kPhysicalWidth = 600"
definition kPhysicalHeight :: nat where "kPhysicalHeight = 1280"
definition kSafeInset :: int where "kSafeInset = 16"

lemmas video_constants [simp] =
  kLogicalWidth_def kLogicalHeight_def kPhysicalWidth_def kPhysicalHeight_def kSafeInset_def

subsection \<open>Addresses\<close>

text \<open>
  The Deck is a 32-bit machine.  \<open>static_cast<size_t>\<close> of a negative \<open>int\<close> is a huge number, and the
  index of a word wraps at \<open>2 ^ 32\<close>: a row or column that is out of range stays out of range.
\<close>

definition size_t :: "int \<Rightarrow> nat" where
  "size_t i = nat (i mod 2 ^ 32)"

definition word_index :: "nat \<Rightarrow> int \<Rightarrow> int \<Rightarrow> nat" where
  "word_index words row column = size_t (int (size_t row) * int words + column)"

subsection \<open>Layout and colour conversion\<close>

record DeckScaledLayout =
  lay_scale :: int
  lay_x :: int
  lay_y :: int
  lay_width :: int
  lay_height :: int

text \<open>\<open>None\<close> is a \<open>false\<close> result, after which no caller reads the layout.\<close>

definition DeckComputeScaledLayout :: "u32 \<Rightarrow> u32 \<Rightarrow> DeckScaledLayout option" where
  "DeckComputeScaledLayout source_width source_height =
     (if source_width = 0 \<or> source_height = 0 then None
      else
        (let usable_width = kLogicalWidth - 2 * kSafeInset;
             usable_height = kLogicalHeight - 2 * kSafeInset
         in if uint source_width > usable_width \<or> uint source_height > usable_height then None
            else
              (let horizontal = usable_width div uint source_width;
                   vertical = usable_height div uint source_height;
                   scale = min horizontal vertical
               in if scale < 1 then None
                  else
                    (let width = uint source_width * scale;
                         height = uint source_height * scale;
                         x = (kLogicalWidth - width) div 2;
                         y = (kLogicalHeight - height) div 2
                     in if x \<ge> kSafeInset \<and> y \<ge> kSafeInset \<and>
                           x + width \<le> kLogicalWidth - kSafeInset \<and>
                           y + height \<le> kLogicalHeight - kSafeInset
                        then Some \<lparr>lay_scale = scale, lay_x = x, lay_y = y,
                                   lay_width = width, lay_height = height\<rparr>
                        else None))))"

definition DeckRgb888To565 :: "u32 \<Rightarrow> u16" where
  "DeckRgb888To565 color =
     (let red = drop_bit 16 color AND 0xff;
          green = drop_bit 8 color AND 0xff;
          blue = color AND 0xff
      in ucast (push_bit 8 (red AND 0xf8) OR push_bit 3 (green AND 0xfc) OR drop_bit 3 blue))"

subsection \<open>Runs of words written to a buffer\<close>

text \<open>
  Every loop below writes runs of consecutive words; \<open>write_runs\<close> performs them in program order.
\<close>

definition write_runs :: "(nat \<times> 'a list) list \<Rightarrow> 'a list \<Rightarrow> 'a list" where
  "write_runs runs buf = foldl (\<lambda>b (off, d). blit b off d) buf runs"

subsection \<open>The exit hint\<close>

definition hint_rect_runs :: "nat \<Rightarrow> int \<Rightarrow> int \<Rightarrow> int \<Rightarrow> int \<Rightarrow> u16 \<Rightarrow> (nat \<times> u16 list) list" where
  "hint_rect_runs row_stride x y width height color =
     [(word_index row_stride (int kPhysicalHeight - 1 - logical_x) logical_y, [color]).
        logical_x \<leftarrow> [x..x + width - 1], \<not> (logical_x < 0 \<or> logical_x \<ge> int kPhysicalHeight),
        logical_y \<leftarrow> [y..y + height - 1], logical_y \<ge> 0 \<and> logical_y < 480]"

definition hint_runs :: "nat \<Rightarrow> (nat \<times> u16 list) list" where
  "hint_runs row_stride =
     concat [hint_rect_runs row_stride (20 + step * 4 - 2) (20 + step * 4 - 2) 8 8 0 @
             hint_rect_runs row_stride (20 + (8 - step) * 4 - 2) (20 + step * 4 - 2) 8 8 0.
               step \<leftarrow> [0..8]] @
     concat [hint_rect_runs row_stride (20 + step * 4) (20 + step * 4) 4 4 0xffff @
             hint_rect_runs row_stride (20 + (8 - step) * 4) (20 + step * 4) 4 4 0xffff.
               step \<leftarrow> [0..8]]"

definition DeckDrawExitHintRgb565 :: "u16 list \<Rightarrow> nat \<Rightarrow> u16 list" where
  "DeckDrawExitHintRgb565 pixels row_stride =
     (if row_stride < 600 then pixels else write_runs (hint_runs row_stride) pixels)"

subsection \<open>The device\<close>

datatype video_error =
    CannotOpen
  | CannotQueryGeometry
  | GeometryOverflow
  | UnsupportedFramebuffer
  | CannotMap
  | NotOpen
  | DoesNotFit
  | NoStagingBuffer
  | InvalidFrame

record DeckFramebuffer =
  fb_fd :: int
  fb_memory :: "u16 list option"
  fb_map_size :: nat
  fb_stride :: int
  fb_last_width :: u32
  fb_last_height :: u32
  fb_exit_hint :: bool
  fb_frame :: "u16 list"

definition fb_close_device :: "DeckFramebuffer \<Rightarrow> DeckFramebuffer" where
  "fb_close_device fb =
     fb\<lparr>fb_memory := None, fb_fd := - 1, fb_map_size := 0, fb_stride := 0,
        fb_last_width := 0, fb_last_height := 0, fb_frame := []\<rparr>"

text \<open>The kernel's answers that \<open>open_device\<close> looks at.\<close>

record fb_bitfield =
  bf_offset :: nat
  bf_length :: nat
  bf_msb_right :: nat

record fb_kernel =
  k_fd :: int
  k_query_ok :: bool
  k_xres :: nat
  k_yres :: nat
  k_yres_virtual :: nat
  k_bits_per_pixel :: nat
  k_xoffset :: nat
  k_yoffset :: nat
  k_packed_pixels :: bool
  k_truecolor :: bool
  k_line_length :: nat
  k_smem_len :: nat
  k_red :: fb_bitfield
  k_green :: fb_bitfield
  k_blue :: fb_bitfield
  k_transp_length :: nat
  k_map_ok :: bool

definition fb_rows :: "fb_kernel \<Rightarrow> nat" where
  "fb_rows k = (if k_yres_virtual k \<noteq> 0 then k_yres_virtual k else k_yres k)"

definition fb_supported :: "fb_kernel \<Rightarrow> bool" where
  "fb_supported k \<longleftrightarrow> \<not>
     (k_xres k \<noteq> kPhysicalWidth \<or> k_yres k \<noteq> kPhysicalHeight \<or> k_bits_per_pixel k \<noteq> 16 \<or>
      k_xoffset k \<noteq> 0 \<or> k_yoffset k \<noteq> 0 \<or> fb_rows k < kPhysicalHeight \<or>
      \<not> k_packed_pixels k \<or> \<not> k_truecolor k \<or> k_line_length k > 2 ^ 31 - 1 \<or>
      k_line_length k < kPhysicalWidth * 2 \<or> k_line_length k mod 2 \<noteq> 0 \<or>
      k_smem_len k < k_line_length k * fb_rows k \<or>
      k_red k \<noteq> \<lparr>bf_offset = 11, bf_length = 5, bf_msb_right = 0\<rparr> \<or>
      k_green k \<noteq> \<lparr>bf_offset = 5, bf_length = 6, bf_msb_right = 0\<rparr> \<or>
      k_blue k \<noteq> \<lparr>bf_offset = 0, bf_length = 5, bf_msb_right = 0\<rparr> \<or>
      k_transp_length k \<noteq> 0)"

definition fb_open_device :: "fb_kernel \<Rightarrow> DeckFramebuffer \<Rightarrow> (video_error + unit) \<times> DeckFramebuffer" where
  "fb_open_device k fb0 =
     (let fb = fb_close_device fb0
      in if k_fd k < 0 then (Inl CannotOpen, fb\<lparr>fb_fd := k_fd k\<rparr>)
         else if \<not> k_query_ok k then (Inl CannotQueryGeometry, fb_close_device (fb\<lparr>fb_fd := k_fd k\<rparr>))
         else if k_line_length k = 0 \<or> fb_rows k > (2 ^ 32 - 1) div k_line_length k
           then (Inl GeometryOverflow, fb_close_device (fb\<lparr>fb_fd := k_fd k\<rparr>))
         else if \<not> fb_supported k
           then (Inl UnsupportedFramebuffer, fb_close_device (fb\<lparr>fb_fd := k_fd k\<rparr>))
         else if \<not> k_map_ok k then (Inl CannotMap, fb_close_device (fb\<lparr>fb_fd := k_fd k\<rparr>))
         else (Inr (),
               fb\<lparr>fb_fd := k_fd k, fb_stride := int (k_line_length k), fb_map_size := k_smem_len k,
                  fb_memory := Some (replicate (k_smem_len k div 2) 0),
                  fb_frame := replicate (k_smem_len k div 2) 0\<rparr>))"

subsection \<open>Frames\<close>

definition row_words :: "DeckFramebuffer \<Rightarrow> nat" where
  "row_words fb = size_t (fb_stride fb) div 2"

definition begin_frame ::
  "u32 \<Rightarrow> u32 \<Rightarrow> DeckFramebuffer \<Rightarrow> (video_error + DeckScaledLayout) \<times> DeckFramebuffer" where
  "begin_frame width height fb =
     (case fb_memory fb of
        None \<Rightarrow> (Inl NotOpen, fb)
      | Some memory \<Rightarrow>
          (case DeckComputeScaledLayout width height of
             None \<Rightarrow> (Inl DoesNotFit, fb)
           | Some layout \<Rightarrow>
               (if length (fb_frame fb) * 2 \<noteq> fb_map_size fb then (Inl NoStagingBuffer, fb)
                else (Inr layout,
                  if width \<noteq> fb_last_width fb \<or> height \<noteq> fb_last_height fb
                  then fb\<lparr>fb_frame := replicate (length (fb_frame fb)) 0,
                          fb_memory := Some (replicate (length memory) 0),
                          fb_last_width := width, fb_last_height := height\<rparr>
                  else fb))))"

definition scaled_pixel_runs ::
  "nat \<Rightarrow> DeckScaledLayout \<Rightarrow> nat \<Rightarrow> nat \<Rightarrow> u16 \<Rightarrow> (nat \<times> u16 list) list" where
  "scaled_pixel_runs words layout source_x source_y color =
     (let left = lay_x layout + int source_x * lay_scale layout;
          top = lay_y layout + int source_y * lay_scale layout
      in [(word_index words (int kPhysicalHeight - 1 - (left + x)) (top + y), [color]).
            y \<leftarrow> [0..lay_scale layout - 1], x \<leftarrow> [0..lay_scale layout - 1]])"

definition draw_scaled_pixel ::
  "DeckScaledLayout \<Rightarrow> nat \<Rightarrow> nat \<Rightarrow> u16 \<Rightarrow> DeckFramebuffer \<Rightarrow> DeckFramebuffer" where
  "draw_scaled_pixel layout source_x source_y color fb =
     fb\<lparr>fb_frame := write_runs (scaled_pixel_runs (row_words fb) layout source_x source_y color)
                      (fb_frame fb)\<rparr>"

text \<open>The words a \<open>memcpy\<close> reads; a read past the end still has its full length.\<close>

definition copied_words :: "nat \<Rightarrow> nat \<Rightarrow> u16 list \<Rightarrow> u16 list" where
  "copied_words offset count buf = map (\<lambda>i. buf ! (offset + i)) [0..<count]"

definition publish_runs :: "nat \<Rightarrow> DeckScaledLayout \<Rightarrow> u16 list \<Rightarrow> (nat \<times> u16 list) list" where
  "publish_runs words layout frame =
     (let first_physical_row = int kPhysicalHeight - lay_x layout - lay_width layout
      in [let offset = word_index words (first_physical_row + row) (lay_y layout)
          in (offset, copied_words offset (size_t (lay_height layout)) frame).
            row \<leftarrow> [0..lay_width layout - 1]])"

definition publish_frame :: "DeckScaledLayout \<Rightarrow> DeckFramebuffer \<Rightarrow> DeckFramebuffer" where
  "publish_frame layout fb =
     (case fb_memory fb of
        None \<Rightarrow> fb
      | Some memory \<Rightarrow>
          (let memory' = write_runs (publish_runs (row_words fb) layout (fb_frame fb)) memory
           in fb\<lparr>fb_memory := Some (if fb_exit_hint fb
                   then DeckDrawExitHintRgb565 memory' (row_words fb) else memory')\<rparr>))"

text \<open>Pixels of the source, read little-endian at \<open>rows + y * pitch\<close>.\<close>

definition read_u16 :: "byte list \<Rightarrow> nat \<Rightarrow> u16" where
  "read_u16 bytes off = ucast (bytes ! off) OR push_bit 8 (ucast (bytes ! (off + 1)))"

definition read_u32 :: "byte list \<Rightarrow> nat \<Rightarrow> u32" where
  "read_u32 bytes off = ucast (read_u16 bytes off) OR push_bit 16 (ucast (read_u16 bytes (off + 2)))"

text \<open>The generic path draws the source pixel by pixel.\<close>

definition draw_all ::
  "DeckScaledLayout \<Rightarrow> u32 \<Rightarrow> u32 \<Rightarrow> (nat \<Rightarrow> nat \<Rightarrow> u16) \<Rightarrow> DeckFramebuffer \<Rightarrow> DeckFramebuffer" where
  "draw_all layout width height colour fb =
     foldl (\<lambda>fb y. foldl (\<lambda>fb x. draw_scaled_pixel layout x y (colour x y) fb) fb [0..<unat width])
       fb [0..<unat height]"

definition present_xrgb8888 ::
  "byte list option \<Rightarrow> u32 \<Rightarrow> u32 \<Rightarrow> nat \<Rightarrow> DeckFramebuffer \<Rightarrow> (video_error + unit) \<times> DeckFramebuffer" where
  "present_xrgb8888 pixels width height pitch fb =
     (case pixels of
        None \<Rightarrow> (Inl InvalidFrame, fb)
      | Some rows \<Rightarrow>
          (if pitch < unat width * 4 mod 2 ^ 32 then (Inl InvalidFrame, fb)
           else
             (case begin_frame width height fb of
                (Inl e, fb1) \<Rightarrow> (Inl e, fb1)
              | (Inr layout, fb1) \<Rightarrow>
                  (Inr (), publish_frame layout
                     (draw_all layout width height
                        (\<lambda>x y. DeckRgb888To565 (read_u32 rows (y * pitch + x * 4))) fb1)))))"

definition rotated_row :: "nat \<Rightarrow> nat \<Rightarrow> (nat \<Rightarrow> u16) \<Rightarrow> u16 list" where
  "rotated_row scale height colour = concat (map (\<lambda>y. replicate scale (colour y)) [0..<height])"

definition rotated_runs ::
  "nat \<Rightarrow> DeckScaledLayout \<Rightarrow> u32 \<Rightarrow> u32 \<Rightarrow> (nat \<Rightarrow> nat \<Rightarrow> u16) \<Rightarrow> (nat \<times> u16 list) list" where
  "rotated_runs words layout width height colour =
     [(word_index words (int kPhysicalHeight - 1 - lay_x layout - int source_x * lay_scale layout - duplicate_x)
         (lay_y layout),
       rotated_row (nat (lay_scale layout)) (unat height) (colour source_x)).
        source_x \<leftarrow> [0..<unat width], duplicate_x \<leftarrow> [0..lay_scale layout - 1]]"

definition present_rgb565 ::
  "byte list option \<Rightarrow> u32 \<Rightarrow> u32 \<Rightarrow> nat \<Rightarrow> DeckFramebuffer \<Rightarrow> (video_error + unit) \<times> DeckFramebuffer" where
  "present_rgb565 pixels width height pitch fb =
     (case pixels of
        None \<Rightarrow> (Inl InvalidFrame, fb)
      | Some rows \<Rightarrow>
          (if pitch < unat width * 2 mod 2 ^ 32 then (Inl InvalidFrame, fb)
           else
             (case begin_frame width height fb of
                (Inl e, fb1) \<Rightarrow> (Inl e, fb1)
              | (Inr layout, fb1) \<Rightarrow>
                  (Inr (), publish_frame layout
                     (fb1\<lparr>fb_frame := write_runs
                        (rotated_runs (row_words fb1) layout width height
                           (\<lambda>x y. read_u16 rows (y * pitch + x * 2))) (fb_frame fb1)\<rparr>)))))"

definition present_indexed ::
  "byte list option \<Rightarrow> u32 \<Rightarrow> u32 \<Rightarrow> nat \<Rightarrow> u32 list option \<Rightarrow> DeckFramebuffer \<Rightarrow>
     (video_error + unit) \<times> DeckFramebuffer" where
  "present_indexed pixels width height pitch palette fb =
     (case (pixels, palette) of
        (Some rows, Some colours) \<Rightarrow>
          (if length colours = 0 \<or> pitch < unat width then (Inl InvalidFrame, fb)
           else
             (case begin_frame width height fb of
                (Inl e, fb1) \<Rightarrow> (Inl e, fb1)
              | (Inr layout, fb1) \<Rightarrow>
                  (Inr (), publish_frame layout
                     (draw_all layout width height
                        (\<lambda>x y. let index = unat (rows ! (y * pitch + x))
                               in DeckRgb888To565 (if index < length colours then colours ! index else 0))
                        fb1))))
      | _ \<Rightarrow> (Inl InvalidFrame, fb))"

section \<open>Runs\<close>

lemma write_runs_Nil [simp]: "write_runs [] buf = buf"
  by (simp add: write_runs_def)

lemma write_runs_Cons [simp]: "write_runs ((off, d) # runs) buf = write_runs runs (blit buf off d)"
  by (simp add: write_runs_def)

lemma write_runs_append [simp]: "write_runs (xs @ ys) buf = write_runs ys (write_runs xs buf)"
  by (simp add: write_runs_def)

definition runs_within :: "nat \<Rightarrow> (nat \<times> 'a list) list \<Rightarrow> bool" where
  "runs_within n runs = list_all (\<lambda>(off, d). off + length d \<le> n) runs"

definition covered :: "(nat \<times> 'a list) list \<Rightarrow> nat \<Rightarrow> bool" where
  "covered runs i = list_ex (\<lambda>(off, d). off \<le> i \<and> i < off + length d) runs"

definition runs_agree :: "(nat \<times> 'a list) list \<Rightarrow> (nat \<Rightarrow> 'a) \<Rightarrow> bool" where
  "runs_agree runs g = list_all (\<lambda>(off, d). \<forall>k<length d. d ! k = g (off + k)) runs"

lemma length_write_runs [simp]:
  "runs_within (length buf) runs \<Longrightarrow> length (write_runs runs buf) = length buf"
  by (induction runs arbitrary: buf) (auto simp: runs_within_def)

text \<open>Runs that agree with one function paint that function over the words they cover.\<close>

lemma nth_write_runs:
  assumes "runs_within (length buf) runs" "runs_agree runs g" "i < length buf"
  shows "write_runs runs buf ! i = (if covered runs i then g i else buf ! i)"
  using assms
proof (induction runs arbitrary: buf)
  case (Cons r runs)
  obtain off d where r: "r = (off, d)" by fastforce
  have fits: "off + length d \<le> length buf" using Cons.prems(1) r by (simp add: runs_within_def)
  have "write_runs runs (blit buf off d) ! i =
      (if covered runs i then g i else blit buf off d ! i)"
    using Cons.prems r fits by (intro Cons.IH) (auto simp: runs_within_def runs_agree_def)
  moreover have "blit buf off d ! i = (if off \<le> i \<and> i < off + length d then g i else buf ! i)"
  proof -
    have "d ! (i - off) = g i" if "off \<le> i" "i < off + length d"
    proof -
      have "\<forall>k<length d. d ! k = g (off + k)" using Cons.prems(2) r by (simp add: runs_agree_def)
      then show ?thesis using that by (metis add_diff_inverse_nat add_less_cancel_left not_le)
    qed
    then show ?thesis using fits Cons.prems(3) by (simp add: nth_blit)
  qed
  ultimately show ?case using r by (auto simp: covered_def)
qed (simp add: covered_def)

lemma fold_write_runs: "foldl (\<lambda>b x. write_runs (f x) b) buf xs = write_runs (concat (map f xs)) buf"
  by (induction xs arbitrary: buf) auto

section \<open>Layout\<close>

text \<open>The definition with its intermediate values named, so that no proof unfolds the divisions.\<close>

definition layout_scale_of :: "u32 \<Rightarrow> u32 \<Rightarrow> int" where
  "layout_scale_of w h = min (1248 div uint w) (448 div uint h)"

definition centred :: "int \<Rightarrow> int \<Rightarrow> int" where
  "centred extent used = (extent - used) div 2"

lemma DeckComputeScaledLayout_alt:
  "DeckComputeScaledLayout w h =
     (if w = 0 \<or> h = 0 \<or> uint w > 1248 \<or> uint h > 448 \<or> layout_scale_of w h < 1 then None
      else if 16 \<le> centred 1280 (uint w * layout_scale_of w h) \<and>
              16 \<le> centred 480 (uint h * layout_scale_of w h) \<and>
              centred 1280 (uint w * layout_scale_of w h) + uint w * layout_scale_of w h \<le> 1264 \<and>
              centred 480 (uint h * layout_scale_of w h) + uint h * layout_scale_of w h \<le> 464
      then Some \<lparr>lay_scale = layout_scale_of w h,
                 lay_x = centred 1280 (uint w * layout_scale_of w h),
                 lay_y = centred 480 (uint h * layout_scale_of w h),
                 lay_width = uint w * layout_scale_of w h, lay_height = uint h * layout_scale_of w h\<rparr>
      else None)"
proof -
  have c: "1280 - 2 * 16 = (1248 :: int)" "480 - 2 * 16 = (448 :: int)"
    "1280 - 16 = (1264 :: int)" "480 - 16 = (464 :: int)"
    by simp_all
  have s: "DeckComputeScaledLayout w h =
    (if w = 0 \<or> h = 0 then None
     else if uint w > 1248 \<or> uint h > 448 then None
     else if layout_scale_of w h < 1 then None
     else if 16 \<le> centred 1280 (uint w * layout_scale_of w h) \<and>
              16 \<le> centred 480 (uint h * layout_scale_of w h) \<and>
              centred 1280 (uint w * layout_scale_of w h) + uint w * layout_scale_of w h \<le> 1264 \<and>
              centred 480 (uint h * layout_scale_of w h) + uint h * layout_scale_of w h \<le> 464
      then Some \<lparr>lay_scale = layout_scale_of w h,
                 lay_x = centred 1280 (uint w * layout_scale_of w h),
                 lay_y = centred 480 (uint h * layout_scale_of w h),
                 lay_width = uint w * layout_scale_of w h, lay_height = uint h * layout_scale_of w h\<rparr>
      else None)"
    unfolding DeckComputeScaledLayout_def Let_def video_constants c layout_scale_of_def centred_def by (rule refl)
  show ?thesis unfolding s by auto
qed

lemma centred_bounds:
  assumes "used \<le> extent - 32"
  shows "16 \<le> centred extent used" "centred extent used + used \<le> extent - 16"
    "extent - (centred extent used + used) - centred extent used \<in> {0, 1}"
  using assms unfolding centred_def insert_iff empty_iff by presburger+

lemma pos_uint: "w \<noteq> 0 \<longleftrightarrow> 0 < uint (w :: 'a::len word)"
  by (simp add: word_neq_0_conv word_less_def)

lemma layout_cases:
  assumes "DeckComputeScaledLayout w h = Some l"
  shows "0 < uint w" "uint w \<le> 1248" "0 < uint h" "uint h \<le> 448" "1 \<le> lay_scale l"
    "lay_scale l = layout_scale_of w h"
    "lay_width l = uint w * lay_scale l" "lay_height l = uint h * lay_scale l"
    "lay_x l = centred 1280 (lay_width l)" "lay_y l = centred 480 (lay_height l)"
    "16 \<le> lay_x l" "16 \<le> lay_y l" "lay_x l + lay_width l \<le> 1264" "lay_y l + lay_height l \<le> 464"
  using assms unfolding DeckComputeScaledLayout_alt
  by (simp_all add: pos_uint split: if_split_asm; clarsimp)+

lemma le_div_iff_mult_le:
  assumes "0 < (b::int)"
  shows "k \<le> a div b \<longleftrightarrow> b * k \<le> a"
proof
  assume "k \<le> a div b"
  then have "b * k \<le> b * (a div b)" using assms by (intro mult_left_mono) auto
  also have "\<dots> \<le> a" using minus_mod_eq_mult_div [of a b] pos_mod_sign [OF assms, of a] by linarith
  finally show "b * k \<le> a" .
next
  assume "b * k \<le> a"
  then have "b * k div b \<le> a div b" using assms by (intro zdiv_mono1) auto
  then show "k \<le> a div b" using assms by simp
qed

lemma layout_exists:
  assumes "0 < uint w" "uint w \<le> 1248" "0 < uint h" "uint h \<le> 448"
  shows "\<exists>l. DeckComputeScaledLayout w h = Some l"
proof -
  let ?s = "layout_scale_of w h"
  have nz: "w \<noteq> 0" "h \<noteq> 0" using assms(1,3) by (simp_all only: pos_uint)
  have "1 \<le> 1248 div uint w" "1 \<le> 448 div uint h"
    using assms by (simp_all add: le_div_iff_mult_le)
  then have s: "1 \<le> ?s" by (simp add: layout_scale_of_def)
  have "?s \<le> 1248 div uint w" "?s \<le> 448 div uint h"
    unfolding layout_scale_of_def by (fact min.cobounded1, fact min.cobounded2)
  then have "uint w * ?s \<le> 1248" "uint h * ?s \<le> 448"
    using assms by (simp_all add: le_div_iff_mult_le)
  then have "uint w * ?s \<le> 1280 - 32" "uint h * ?s \<le> 480 - 32" by simp_all
  note b = centred_bounds [OF this(1)] centred_bounds [OF this(2)]
  show ?thesis
    unfolding DeckComputeScaledLayout_alt using nz assms s b by (simp add: not_less)
qed

text \<open>
  The layout: a source of positive size is accepted exactly when it fits the 1248 by 448 safe
  area unscaled; the image is then the source at an integer factor, inside the safe area, centred
  to the pixel, and no larger integer factor fits.
\<close>
theorem layout_maximal:
  assumes "DeckComputeScaledLayout w h = r" "0 < uint w" "0 < uint h"
  shows "(r = None \<longleftrightarrow> uint w > 1248 \<or> uint h > 448) \<and>
    (\<forall>l. r = Some l \<longrightarrow>
       1 \<le> lay_scale l \<and>
       lay_width l = uint w * lay_scale l \<and> lay_height l = uint h * lay_scale l \<and>
       16 \<le> lay_x l \<and> lay_x l + lay_width l \<le> 1264 \<and>
       16 \<le> lay_y l \<and> lay_y l + lay_height l \<le> 464 \<and>
       (1280 - (lay_x l + lay_width l)) - lay_x l \<in> {0, 1} \<and>
       (480 - (lay_y l + lay_height l)) - lay_y l \<in> {0, 1} \<and>
       (\<forall>k. lay_scale l < k \<longrightarrow> uint w * k > 1248 \<or> uint h * k > 448))"
proof (intro conjI allI impI)
  show "r = None \<longleftrightarrow> uint w > 1248 \<or> uint h > 448"
    using layout_cases [of w h] layout_exists [of w h] assms by fastforce
next
  fix l assume "r = Some l"
  then have *: "DeckComputeScaledLayout w h = Some l" using assms(1) by simp
  note c = layout_cases [OF *]
  show "1 \<le> lay_scale l" "lay_width l = uint w * lay_scale l" "lay_height l = uint h * lay_scale l"
    "16 \<le> lay_x l" "lay_x l + lay_width l \<le> 1264" "16 \<le> lay_y l" "lay_y l + lay_height l \<le> 464"
    by (fact c)+
  show "1280 - (lay_x l + lay_width l) - lay_x l \<in> {0, 1}"
    "480 - (lay_y l + lay_height l) - lay_y l \<in> {0, 1}"
    using centred_bounds(3) [of "lay_width l" 1280] centred_bounds(3) [of "lay_height l" 480] c
    by simp_all
  fix k assume k: "lay_scale l < k"
  then have "1248 div uint w < k \<or> 448 div uint h < k" using c(6) by (simp add: layout_scale_of_def min_less_iff_disj)
  then show "uint w * k > 1248 \<or> uint h * k > 448"
    using assms(2,3) le_div_iff_mult_le [of "uint w" k 1248] le_div_iff_mult_le [of "uint h" k 448]
    by linarith
qed

theorem layout_maximal_witness:
  "DeckComputeScaledLayout 160 144 =
     Some \<lparr>lay_scale = 3, lay_x = 400, lay_y = 24, lay_width = 480, lay_height = 432\<rparr> \<and>
   uint (160 :: u32) * 4 \<le> 1248 \<and> uint (144 :: u32) * 4 > 448"
proof -
  have *: "DeckComputeScaledLayout 160 144 =
     Some \<lparr>lay_scale = 3, lay_x = 400, lay_y = 24, lay_width = 480, lay_height = 432\<rparr>"
    by code_simp
  show ?thesis using * layout_maximal [OF *] by auto
qed

section \<open>The rotated image\<close>

text \<open>
  A word index of the mapping stands for the logical position \<open>(logical_x, logical_y)\<close>: the panel
  is portrait, so a physical row is a logical column counted from the right.
\<close>

definition logical_x :: "nat \<Rightarrow> nat \<Rightarrow> int" where
  "logical_x words i = 1279 - int (i div words)"

definition logical_y :: "nat \<Rightarrow> nat \<Rightarrow> int" where
  "logical_y words i = int (i mod words)"

text \<open>What an image scaled into a layout shows at a logical position, over an old value.\<close>

definition in_layout :: "DeckScaledLayout \<Rightarrow> int \<Rightarrow> int \<Rightarrow> bool" where
  "in_layout l px py = (lay_x l \<le> px \<and> px < lay_x l + lay_width l \<and>
                        lay_y l \<le> py \<and> py < lay_y l + lay_height l)"

definition scaled_colour :: "DeckScaledLayout \<Rightarrow> (nat \<Rightarrow> nat \<Rightarrow> 'a) \<Rightarrow> int \<Rightarrow> int \<Rightarrow> 'a" where
  "scaled_colour l colour px py =
     colour (nat ((px - lay_x l) div lay_scale l)) (nat ((py - lay_y l) div lay_scale l))"

text \<open>The layout as natural numbers: scale, position and source size.\<close>

definition nat_layout :: "nat \<Rightarrow> nat \<Rightarrow> nat \<Rightarrow> nat \<Rightarrow> nat \<Rightarrow> DeckScaledLayout" where
  "nat_layout k x y w h = \<lparr>lay_scale = int k, lay_x = int x, lay_y = int y,
     lay_width = int (w * k), lay_height = int (h * k)\<rparr>"

lemma nat_layout_simps [simp]:
  "lay_scale (nat_layout k x y w h) = int k" "lay_x (nat_layout k x y w h) = int x"
  "lay_y (nat_layout k x y w h) = int y" "lay_width (nat_layout k x y w h) = int (w * k)"
  "lay_height (nat_layout k x y w h) = int (h * k)"
  by (simp_all add: nat_layout_def)

lemma layout_nat:
  assumes "DeckComputeScaledLayout w h = Some l"
  obtains k x y where "l = nat_layout k x y (unat w) (unat h)" "0 < k"
    "x + unat w * k \<le> 1264" "y + unat h * k \<le> 464" "unat w \<le> 1248" "unat h \<le> 448"
proof -
  note c = layout_cases [OF assms]
  let ?k = "nat (lay_scale l)" and ?x = "nat (lay_x l)" and ?y = "nat (lay_y l)"
  have k: "int ?k = lay_scale l" "int ?x = lay_x l" "int ?y = lay_y l"
    using c(5,11,12) by simp_all
  have wh: "int (unat w * ?k) = lay_width l" "int (unat h * ?k) = lay_height l"
    using k c(7,8) unfolding of_nat_mult uint_nat [of w] uint_nat [of h] by (simp_all only:)
  have "l = nat_layout ?k ?x ?y (unat w) (unat h)"
    using k wh by (intro DeckScaledLayout.equality) simp_all
  moreover have "0 < ?k" using c(5) by simp
  moreover have "?x + unat w * ?k \<le> 1264" "?y + unat h * ?k \<le> 464"
    using c(13,14) k wh by linarith+
  moreover have "unat w \<le> 1248" "unat h \<le> 448" using c(2,4) unfolding uint_nat by linarith+
  ultimately show ?thesis using that by blast
qed

lemma upto_nat: "[0..int n - 1] = map int [0..<n]"
proof (induction n)
  case (Suc n)
  then show ?case using upto_rec2 [of 0 "int n"] by simp
qed simp

text \<open>The index of a logical position, and its cells.\<close>

definition index_of :: "nat \<Rightarrow> nat \<Rightarrow> nat \<Rightarrow> nat" where
  "index_of words px py = (1279 - px) * words + py"

lemma index_of_split:
  assumes "py < words" "px \<le> 1279"
  shows "index_of words px py div words = 1279 - px" "index_of words px py mod words = py"
    "logical_x words (index_of words px py) = int px" "logical_y words (index_of words px py) = int py"
  using assms by (simp_all add: index_of_def logical_x_def logical_y_def of_nat_diff)

lemma index_of_bound:
  assumes "py < words" "1280 * words \<le> n"
  shows "index_of words px py < n"
proof -
  have "(1279 - px) * words \<le> 1279 * words" by (intro mult_right_mono) auto
  then have "index_of words px py < 1280 * words" 
    using assms(1) unfolding index_of_def by linarith
  then show ?thesis using assms(2) by (rule less_le_trans)
qed

lemma cell_bound: "a < (w :: nat) \<Longrightarrow> d < k \<Longrightarrow> a * k + d < w * k"
proof -
  assume "a < w" "d < k"
  then have "a * k + k \<le> w * k" using mult_le_mono1 [of "Suc a" w k] by simp
  then show ?thesis using \<open>d < k\<close> by simp
qed

lemma cell_exists: "b < (w :: nat) * k \<Longrightarrow> \<exists>a<w. \<exists>d<k. b = a * k + d"
  by (metis div_mult_mod_eq less_mult_imp_div_less mod_less_divisor mult_0_right neq0_conv not_less_zero)

text \<open>The indices inside the layout are the images of the scaled rectangle.\<close>

lemma in_layout_index:
  assumes "x + w * k \<le> 1264" "y + h * k \<le> 464" "464 \<le> words"
  shows "in_layout (nat_layout k x y w h) (logical_x words i) (logical_y words i) \<longleftrightarrow>
    (\<exists>a<w * k. \<exists>b<h * k. i = index_of words (x + a) (y + b))"
proof
  assume l: "in_layout (nat_layout k x y w h) (logical_x words i) (logical_y words i)"
  define a where "a = 1279 - i div words - x"
  define b where "b = i mod words - y"
  have "i div words + x \<le> 1279" using l by (simp add: in_layout_def logical_x_def)
  then have "x + a = 1279 - i div words" "i div words \<le> 1279" by (simp_all add: a_def)
  moreover have "y + b = i mod words" using l by (simp add: b_def in_layout_def logical_y_def)
  ultimately have "i = index_of words (x + a) (y + b)" by (simp add: index_of_def)
  moreover have "a < w * k" "b < h * k"
    using l unfolding in_layout_def logical_x_def logical_y_def a_def b_def nat_layout_simps
    by linarith+
  ultimately show "\<exists>a<w * k. \<exists>b<h * k. i = index_of words (x + a) (y + b)" by blast
next
  assume "\<exists>a<w * k. \<exists>b<h * k. i = index_of words (x + a) (y + b)"
  then obtain a b where ab: "a < w * k" "b < h * k" "i = index_of words (x + a) (y + b)" by blast
  then have "logical_x words i = int (x + a)" "logical_y words i = int (y + b)"
    using assms index_of_split [of "y + b" words "x + a"] by auto
  moreover have "int a < int (w * k)" "int b < int (h * k)" using ab by (simp_all only: of_nat_less_iff)
  ultimately show "in_layout (nat_layout k x y w h) (logical_x words i) (logical_y words i)"
    by (auto simp: in_layout_def)
qed

lemma scaled_colour_index:
  assumes "sx < w" "sy < h" "dx < k" "dy < k" "x + w * k \<le> 1264" "y + h * k \<le> 464" "464 \<le> words"
    "i = index_of words (x + (sx * k + dx)) (y + (sy * k + dy))"
  shows "scaled_colour (nat_layout k x y w h) colour (logical_x words i) (logical_y words i) = colour sx sy"
proof -
  have "sx * k + dx < w * k" "sy * k + dy < h * k" using assms by (simp_all add: cell_bound)
  then have "logical_x words i = int (x + (sx * k + dx))" "logical_y words i = int (y + (sy * k + dy))"
    using assms index_of_split [of "y + (sy * k + dy)" words "x + (sx * k + dx)"] by auto
  moreover have "nat (int (sx * k + dx) div int k) = sx" "nat (int (sy * k + dy) div int k) = sy"
    using assms(3,4) by (simp_all only: zdiv_int [symmetric] nat_int div_mult_self3 div_less)
  ultimately show ?thesis by (simp add: scaled_colour_def)
qed

subsection \<open>The three loops as sets of runs\<close>

definition paints :: "(nat \<times> 'a list) list \<Rightarrow> nat \<Rightarrow> nat \<Rightarrow> DeckScaledLayout \<Rightarrow> (nat \<Rightarrow> 'a) \<Rightarrow> bool" where
  "paints runs n words l g =
     (runs_within n runs \<and> runs_agree runs g \<and>
      (\<forall>i. covered runs i \<longleftrightarrow> in_layout l (logical_x words i) (logical_y words i)))"

lemma paints_nth:
  assumes "paints runs (length buf) words l g" "i < length buf"
  shows "write_runs runs buf ! i =
    (if in_layout l (logical_x words i) (logical_y words i) then g i else buf ! i)"
  using assms nth_write_runs [of buf runs g i] by (simp add: paints_def)

lemma paints_length: "paints runs (length buf) words l g \<Longrightarrow> length (write_runs runs buf) = length buf"
  by (simp add: paints_def)

lemma index_of_add: "index_of words px (y + b) = index_of words px y + b"
  by (simp add: index_of_def)

lemma index_of_row_end:
  assumes "py \<le> words" "1280 * words \<le> n"
  shows "index_of words px py \<le> n"
proof -
  have "(1279 - px) * words \<le> 1279 * words" by (intro mult_right_mono) auto
  then have "index_of words px py \<le> 1280 * words" using assms(1) unfolding index_of_def by linarith
  then show ?thesis using assms(2) by (rule le_trans)
qed

lemma size_t_small: "n < 2 ^ 32 \<Longrightarrow> size_t (int n) = n"
  unfolding size_t_def by (subst mod_pos_pos_trivial) simp_all

lemma word_index_of:
  assumes "px \<le> 1279" "py \<le> words" "1280 * words < 2 ^ 32"
  shows "word_index words (int kPhysicalHeight - 1 - int px) (int py) = index_of words px py"
proof -
  have "int kPhysicalHeight - 1 - int px = int (1279 - px)" using assms(1) by simp
  moreover have "1279 - px \<le> 1279" by simp
  then have "1279 - px < 2 ^ 32" by (rule le_less_trans) simp
  ultimately have row: "size_t (int kPhysicalHeight - 1 - int px) = 1279 - px" by (simp only: size_t_small)
  have "index_of words px py \<le> 1280 * words" using assms(2) by (rule index_of_row_end) simp
  then have "size_t (int (index_of words px py)) = index_of words px py" using assms(3) by (intro size_t_small) linarith
  moreover have "int (1279 - px) * int words + int py = int (index_of words px py)" by (simp add: index_of_def)
  ultimately show ?thesis unfolding word_index_def row by (simp only:)
qed

text \<open>A run list described by its members: rows that start in the layout's first line.\<close>

lemma row_runs_paint:
  assumes "x + w * k \<le> 1264" "y + h * k \<le> 464" "464 \<le> words" "1280 * words \<le> n"
    and members: "set runs = (\<lambda>a. (index_of words (x + a) y, row a)) ` {..<w * k}"
    and rows: "\<And>a. a < w * k \<Longrightarrow> length (row a) = h * k"
    and agree: "\<And>a b. a < w * k \<Longrightarrow> b < h * k \<Longrightarrow> row a ! b = g (index_of words (x + a) (y + b))"
  shows "paints runs n words (nat_layout k x y w h) g"
  unfolding paints_def
proof (intro conjI allI)
  show "runs_within n runs"
    unfolding runs_within_def list_all_iff members
    using rows assms(1-4) index_of_row_end [of "y + h * k" words n] by (auto simp: index_of_add)
  show "runs_agree runs g"
    unfolding runs_agree_def list_all_iff members using rows agree by (auto simp: index_of_add)
  fix i
  have "covered runs i \<longleftrightarrow> (\<exists>a<w * k. index_of words (x + a) y \<le> i \<and> i < index_of words (x + a) y + h * k)"
    unfolding covered_def list_ex_iff members using rows by auto
  also have "\<dots> \<longleftrightarrow> (\<exists>a<w * k. \<exists>b<h * k. i = index_of words (x + a) (y + b))"
    unfolding index_of_add by (metis add_less_cancel_left le_Suc_ex le_add1)
  also have "\<dots> \<longleftrightarrow> in_layout (nat_layout k x y w h) (logical_x words i) (logical_y words i)"
    using in_layout_index [OF assms(1-3)] by simp
  finally show "covered runs i \<longleftrightarrow> in_layout (nat_layout k x y w h) (logical_x words i) (logical_y words i)" .
qed

lemma nth_rotated_row: "b < h * k \<Longrightarrow> rotated_row k h f ! b = f (b div k)"
proof (induction h)
  case (Suc h)
  have len: "length (rotated_row k h f) = h * k"
    by (simp add: rotated_row_def length_concat comp_def sum_list_triv)
  have snoc: "rotated_row k (Suc h) f = rotated_row k h f @ replicate k (f h)"
    by (simp add: rotated_row_def)
  show ?case
  proof (cases "b < h * k")
    case True
    then show ?thesis using Suc.IH len by (simp add: snoc nth_append)
  next
    case False
    then have "b - h * k < k" using Suc.prems by simp
    moreover then have "b div k = h"
      using False by (intro div_nat_eqI) (auto simp: mult.commute)
    ultimately show ?thesis using False len by (simp add: snoc nth_append)
  qed
qed simp

lemma length_rotated_row: "length (rotated_row k h f) = h * k"
  by (simp add: rotated_row_def length_concat comp_def sum_list_triv)

text \<open>Two nested loops over cells enumerate one range.\<close>

lemma nested_upt: "concat (map (\<lambda>s. map (\<lambda>d. f (s * k + d)) [0..<k]) [0..<w]) = map f [0..<w * k]"
proof (induction w)
  case (Suc w)
  have "[0..<Suc w * k] = [0..<w * k] @ map (\<lambda>d. w * k + d) [0..<k]"
    using upt_add_eq_append [of 0 "w * k" k] by (simp add: add.commute map_add_upt)
  then show ?case using Suc by simp
qed simp

lemma rotated_runs_nat:
  assumes "x + unat w * k \<le> 1264" "y \<le> words" "1280 * words < 2 ^ 32"
  shows "rotated_runs words (nat_layout k x y (unat w) (unat h)) w h colour =
    map (\<lambda>a. (index_of words (x + a) y, rotated_row k (unat h) (colour (a div k)))) [0..<unat w * k]"
proof -
  have run: "(word_index words (int kPhysicalHeight - 1 - int x - int sx * int k - int dx) (int y),
       rotated_row k (unat h) (colour sx)) =
     (index_of words (x + (sx * k + dx)) y, rotated_row k (unat h) (colour ((sx * k + dx) div k)))"
    if "sx < unat w" "dx < k" for sx dx
  proof -
    have "sx * k + dx < unat w * k" using that by (rule cell_bound)
    then have "x + (sx * k + dx) \<le> 1279" using assms(1) by linarith
    from word_index_of [OF this assms(2,3)] that(2) show ?thesis by (simp add: algebra_simps)
  qed
  have "rotated_runs words (nat_layout k x y (unat w) (unat h)) w h colour =
    concat (map (\<lambda>sx. map (\<lambda>dx. (index_of words (x + (sx * k + dx)) y,
      rotated_row k (unat h) (colour ((sx * k + dx) div k)))) [0..<k]) [0..<unat w])"
    unfolding rotated_runs_def nat_layout_simps upto_nat map_map comp_def nat_int
    using run by (intro arg_cong [of _ _ concat] map_cong refl) (simp_all del: video_constants)
  then show ?thesis using nested_upt [of "\<lambda>a. (index_of words (x + a) y, rotated_row k (unat h) (colour (a div k)))"]
    by simp
qed

lemma rotated_runs_paint:
  assumes "x + unat w * k \<le> 1264" "y + unat h * k \<le> 464" "464 \<le> words" "1280 * words \<le> n" "1280 * words < 2 ^ 32"
  shows "paints (rotated_runs words (nat_layout k x y (unat w) (unat h)) w h colour) n words
    (nat_layout k x y (unat w) (unat h))
    (\<lambda>i. scaled_colour (nat_layout k x y (unat w) (unat h)) colour (logical_x words i) (logical_y words i))"
proof (rule row_runs_paint [where row = "\<lambda>a. rotated_row k (unat h) (colour (a div k))", OF assms(1-4)])
  show "set (rotated_runs words (nat_layout k x y (unat w) (unat h)) w h colour) =
    (\<lambda>a. (index_of words (x + a) y, rotated_row k (unat h) (colour (a div k)))) ` {..<unat w * k}"
    using assms(2,3,5) by (simp add: rotated_runs_nat [OF assms(1)] lessThan_atLeast0)
next
  fix a b assume ab: "a < unat w * k" "b < unat h * k"
  obtain sx dx where s: "sx < unat w" "dx < k" "a = sx * k + dx" using cell_exists [OF ab(1)] by blast
  obtain sy dy where t: "sy < unat h" "dy < k" "b = sy * k + dy" using cell_exists [OF ab(2)] by blast
  have "rotated_row k (unat h) (colour (a div k)) ! b = colour sx sy"
    using nth_rotated_row [OF ab(2)] s t by simp
  then show "rotated_row k (unat h) (colour (a div k)) ! b =
    scaled_colour (nat_layout k x y (unat w) (unat h)) colour
      (logical_x words (index_of words (x + a) (y + b))) (logical_y words (index_of words (x + a) (y + b)))"
    using scaled_colour_index [OF s(1) t(1) s(2) t(2) assms(1-3), of _ colour] s(3) t(3) by simp
qed (simp add: length_rotated_row)

lemma publish_runs_paint:
  assumes "x + w * k \<le> 1264" "y + h * k \<le> 464" "464 \<le> words" "1280 * words \<le> length frame" "1280 * words < 2 ^ 32"
  shows "paints (publish_runs words (nat_layout k x y w h) frame) (length frame) words
    (nat_layout k x y w h) (\<lambda>i. frame ! i)"
proof (rule row_runs_paint [where row = "\<lambda>a. copied_words (index_of words (x + a) y) (h * k) frame", OF assms(1-4)])
  have height: "size_t (int (h * k)) = h * k" using assms(2) by (intro size_t_small) simp
  have run: "(let offset = word_index words (int kPhysicalHeight - int x - int (w * k) + int row) (int y)
       in (offset, copied_words offset (size_t (int (h * k))) frame)) =
     (index_of words (x + (w * k - 1 - row)) y, copied_words (index_of words (x + (w * k - 1 - row)) y) (h * k) frame)"
    if "row < w * k" for row
  proof -
    have le: "x + (w * k - 1 - row) \<le> 1279" using assms(1) by linarith
    have "int kPhysicalHeight - int x - int (w * k) + int row = int kPhysicalHeight - 1 - int (x + (w * k - 1 - row))"
      using that by linarith
    moreover have "y \<le> words" using assms(2,3) by linarith
    ultimately show ?thesis using word_index_of [OF le _ assms(5), of y] by (simp only: Let_def height)
  qed
  have "publish_runs words (nat_layout k x y w h) frame =
     map (\<lambda>row. (index_of words (x + (w * k - 1 - row)) y,
       copied_words (index_of words (x + (w * k - 1 - row)) y) (h * k) frame)) [0..<w * k]"
    unfolding publish_runs_def nat_layout_simps upto_nat map_map comp_def Let_def
    using run by (intro map_cong refl) (simp only: Let_def atLeastLessThan_upt [symmetric] atLeastLessThan_iff)
  then have "set (publish_runs words (nat_layout k x y w h) frame) =
     (\<lambda>a. (index_of words (x + a) y, copied_words (index_of words (x + a) y) (h * k) frame)) `
       (\<lambda>row. w * k - 1 - row) ` {..<w * k}"
    by (simp add: image_image lessThan_atLeast0)
  also have "(\<lambda>row. w * k - 1 - row) ` {..<w * k} = {..<w * k}"
  proof (intro equalityI subsetI)
    fix a assume "a \<in> {..<w * k}"
    then have "a = w * k - 1 - (w * k - 1 - a)" "w * k - 1 - a \<in> {..<w * k}" by auto
    then show "a \<in> (\<lambda>row. w * k - 1 - row) ` {..<w * k}" by (rule image_eqI)
  qed auto
  finally show "set (publish_runs words (nat_layout k x y w h) frame) =
     (\<lambda>a. (index_of words (x + a) y, copied_words (index_of words (x + a) y) (h * k) frame)) ` {..<w * k}" .
next
  fix a assume "a < w * k"
  show "length (copied_words (index_of words (x + a) y) (h * k) frame) = h * k"
    by (simp add: copied_words_def)
  fix b assume "b < h * k"
  then show "copied_words (index_of words (x + a) y) (h * k) frame ! b = frame ! index_of words (x + a) (y + b)"
    by (simp add: copied_words_def index_of_add)
qed

subsection \<open>The generic path\<close>

lemma fold_draw_scaled_pixel:
  "foldl (\<lambda>fb z. draw_scaled_pixel l (sx z) (sy z) (c z) fb) fb zs =
   fb\<lparr>fb_frame := write_runs (concat (map (\<lambda>z. scaled_pixel_runs (row_words fb) l (sx z) (sy z) (c z)) zs))
                    (fb_frame fb)\<rparr>"
  by (induction zs arbitrary: fb) (auto simp: draw_scaled_pixel_def row_words_def)

definition draw_all_runs ::
  "nat \<Rightarrow> DeckScaledLayout \<Rightarrow> u32 \<Rightarrow> u32 \<Rightarrow> (nat \<Rightarrow> nat \<Rightarrow> u16) \<Rightarrow> (nat \<times> u16 list) list" where
  "draw_all_runs words l w h colour =
     concat (map (\<lambda>y. concat (map (\<lambda>x. scaled_pixel_runs words l x y (colour x y)) [0..<unat w])) [0..<unat h])"

lemma draw_all_runs:
  "draw_all l w h colour fb = fb\<lparr>fb_frame := write_runs (draw_all_runs (row_words fb) l w h colour) (fb_frame fb)\<rparr>"
proof -
  have "foldl (\<lambda>fb y. foldl (\<lambda>fb x. draw_scaled_pixel l x y (colour x y) fb) fb [0..<unat w]) fb ys =
    fb\<lparr>fb_frame := write_runs (concat (map (\<lambda>y. concat (map (\<lambda>x. scaled_pixel_runs (row_words fb) l x y (colour x y))
        [0..<unat w])) ys)) (fb_frame fb)\<rparr>" for ys
    by (induction ys arbitrary: fb) (auto simp: fold_draw_scaled_pixel row_words_def)
  then show ?thesis by (simp add: draw_all_def draw_all_runs_def)
qed

lemma scaled_pixel_runs_nat:
  assumes "sx < w" "x + w * k \<le> 1264" "sy < h" "y + h * k \<le> 464" "464 \<le> words" "1280 * words < 2 ^ 32"
  shows "set (scaled_pixel_runs words (nat_layout k x y w h) sx sy c) =
    (\<Union>dy<k. (\<lambda>dx. (index_of words (x + (sx * k + dx)) (y + (sy * k + dy)), [c])) ` {..<k})"
proof -
  have idx: "word_index words (int kPhysicalHeight - 1 - (int x + int sx * int k + int dx))
      (int y + int sy * int k + int dy) = index_of words (x + (sx * k + dx)) (y + (sy * k + dy))"
    if "dx < k" "dy < k" for dx dy
  proof -
    have "sx * k + dx < w * k" "sy * k + dy < h * k" using assms(1,3) that by (simp_all add: cell_bound)
    then have "x + (sx * k + dx) \<le> 1279" "y + (sy * k + dy) \<le> words" using assms(2,4,5) by linarith+
    from word_index_of [OF this assms(6)] show ?thesis by (simp add: algebra_simps)
  qed
  have "scaled_pixel_runs words (nat_layout k x y w h) sx sy c =
    concat (map (\<lambda>dy. map (\<lambda>dx. (index_of words (x + (sx * k + dx)) (y + (sy * k + dy)), [c])) [0..<k]) [0..<k])"
    unfolding scaled_pixel_runs_def nat_layout_simps upto_nat map_map comp_def Let_def
    using idx by (intro arg_cong [of _ _ concat] map_cong refl) (simp_all del: video_constants)
  then show ?thesis by (simp add: lessThan_atLeast0)
qed

lemma draw_all_runs_paint:
  assumes "x + unat w * k \<le> 1264" "y + unat h * k \<le> 464" "464 \<le> words" "1280 * words \<le> n" "1280 * words < 2 ^ 32"
  shows "paints (draw_all_runs words (nat_layout k x y (unat w) (unat h)) w h colour) n words
    (nat_layout k x y (unat w) (unat h))
    (\<lambda>i. scaled_colour (nat_layout k x y (unat w) (unat h)) colour (logical_x words i) (logical_y words i))"
proof -
  let ?l = "nat_layout k x y (unat w) (unat h)"
  have members: "set (draw_all_runs words ?l w h colour) =
    (\<Union>sy<unat h. \<Union>sx<unat w. \<Union>dy<k.
       (\<lambda>dx. (index_of words (x + (sx * k + dx)) (y + (sy * k + dy)), [colour sx sy])) ` {..<k})"
    unfolding draw_all_runs_def set_concat set_map image_image set_upt UN_simps lessThan_atLeast0
    using scaled_pixel_runs_nat [OF _ assms(1) _ assms(2,3,5)] by (intro SUP_cong refl) (simp add: lessThan_atLeast0)
  have y: "y + (sy * k + dy) < words" if "sy < unat h" "dy < k" for sy dy
    using cell_bound [OF that] assms(2,3) by linarith
  show ?thesis
    unfolding paints_def
  proof (intro conjI allI)
    show "runs_within n (draw_all_runs words ?l w h colour)"
      unfolding runs_within_def list_all_iff members
      using index_of_bound [OF y assms(4)] by (auto simp: Suc_le_eq)
    show "runs_agree (draw_all_runs words ?l w h colour)
      (\<lambda>i. scaled_colour ?l colour (logical_x words i) (logical_y words i))"
      unfolding runs_agree_def list_all_iff members
      using scaled_colour_index [OF _ _ _ _ assms(1-3) refl, of _ _ _ _ colour] by auto
    fix i
    have "covered (draw_all_runs words ?l w h colour) i \<longleftrightarrow>
      (\<exists>sy\<in>{..<unat h}. \<exists>sx\<in>{..<unat w}. \<exists>dy\<in>{..<k}. \<exists>dx\<in>{..<k}.
         i = index_of words (x + (sx * k + dx)) (y + (sy * k + dy)))"
    proof -
      have one: "(off \<le> i \<and> i < off + length [c]) = (i = off)" for off and c :: u16 by auto
      show ?thesis by (simp only: covered_def list_ex_iff members bex_UN bex_simps prod.case one)
    qed
    also have "\<dots> \<longleftrightarrow> (\<exists>a<unat w * k. \<exists>b<unat h * k. i = index_of words (x + a) (y + b))"
      (is "?L \<longleftrightarrow> ?R")
    proof
      assume ?L
      then obtain sy sx dy dx where "sy < unat h" "sx < unat w" "dy < k" "dx < k"
        "i = index_of words (x + (sx * k + dx)) (y + (sy * k + dy))" by auto
      then show ?R using cell_bound by blast
    next
      assume ?R
      then obtain a b where ab: "a < unat w * k" "b < unat h * k" "i = index_of words (x + a) (y + b)" by blast
      obtain sx dx where "sx < unat w" "dx < k" "a = sx * k + dx" using cell_exists [OF ab(1)] by blast
      moreover obtain sy dy where "sy < unat h" "dy < k" "b = sy * k + dy" using cell_exists [OF ab(2)] by blast
      ultimately show ?L using ab(3) by blast
    qed
    also have "\<dots> \<longleftrightarrow> in_layout ?l (logical_x words i) (logical_y words i)"
      using in_layout_index [OF assms(1-3)] by simp
    finally show "covered (draw_all_runs words ?l w h colour) i \<longleftrightarrow>
      in_layout ?l (logical_x words i) (logical_y words i)" .
  qed
qed

section \<open>The invariant of the device\<close>

definition fb_wf :: "DeckFramebuffer \<Rightarrow> bool" where
  "fb_wf fb = (case fb_memory fb of None \<Rightarrow> True
     | Some memory \<Rightarrow> length memory = fb_map_size fb div 2 \<and> length (fb_frame fb) = fb_map_size fb div 2 \<and>
         1200 \<le> fb_stride fb \<and> 1280 * nat (fb_stride fb) \<le> fb_map_size fb \<and> 1280 * fb_stride fb < 2 ^ 32)"

lemma fb_wf_words:
  assumes "fb_wf fb" "fb_memory fb = Some memory"
  shows "600 \<le> row_words fb" "1280 * row_words fb \<le> length memory"
    "length (fb_frame fb) = length memory" "1280 * row_words fb < 2 ^ 32"
proof -
  have m: "length memory = fb_map_size fb div 2" "length (fb_frame fb) = fb_map_size fb div 2"
    "1200 \<le> fb_stride fb" "1280 * nat (fb_stride fb) \<le> fb_map_size fb" "1280 * fb_stride fb < 2 ^ 32"
    using assms by (auto simp: fb_wf_def)
  have words: "row_words fb = nat (fb_stride fb) div 2"
    using size_t_small [of "nat (fb_stride fb)"] m(3,5) by (simp add: row_words_def)
  show "600 \<le> row_words fb" using m(3) by (simp add: words)
  have "int (row_words fb) \<le> fb_stride fb" using m(3) unfolding words by (simp add: zdiv_int)
  then have "int (1280 * row_words fb) < int (2 ^ 32)" using m(5) by simp
  then show "1280 * row_words fb < 2 ^ 32" by (simp only: of_nat_less_iff)
  have "1280 * (nat (fb_stride fb) div 2) * 2 \<le> fb_map_size fb"
    using m(4) by (simp add: mult.assoc)
  then show "1280 * row_words fb \<le> length memory" using m(1) by (simp add: words less_eq_div_iff_mult_less_eq)
  show "length (fb_frame fb) = length memory" using m by simp
qed

lemma fb_open_device_wf: "fb_wf (snd (fb_open_device k fb))"
proof -
  have "1280 * k_line_length k \<le> k_smem_len k" if "fb_supported k"
  proof -
    have "1280 \<le> fb_rows k" "k_line_length k * fb_rows k \<le> k_smem_len k"
      using that by (auto simp: fb_supported_def)
    then show ?thesis by (metis le_trans mult.commute mult_le_mono1)
  qed
  moreover have "1200 \<le> k_line_length k" if "fb_supported k"
    using that by (auto simp: fb_supported_def)
  moreover have "1280 * k_line_length k < 2 ^ 32"
    if "fb_supported k" "\<not> fb_rows k > (2 ^ 32 - 1) div k_line_length k"
  proof -
    have "fb_rows k * k_line_length k \<le> 2 ^ 32 - 1"
      using mult_le_mono1 [of "fb_rows k" "(2 ^ 32 - 1) div k_line_length k" "k_line_length k"] that(2)
        div_times_less_eq_dividend [of "2 ^ 32 - 1" "k_line_length k"] by linarith
    moreover have "1280 \<le> fb_rows k" using that(1) by (auto simp: fb_supported_def)
    then have "1280 * k_line_length k \<le> fb_rows k * k_line_length k" by (rule mult_le_mono1)
    ultimately have "1280 * k_line_length k \<le> 2 ^ 32 - 1" by (rule le_trans [rotated])
    then show ?thesis by simp
  qed
  ultimately show ?thesis
    by (auto simp: fb_open_device_def Let_def fb_wf_def fb_close_device_def)
qed

lemma fb_close_device_wf: "fb_wf (fb_close_device fb)"
  by (simp add: fb_wf_def fb_close_device_def)

text \<open>The exit hint stays inside the mapping and inside its square of the logical display.\<close>

lemma hint_rect_runs_members:
  assumes "(off, d) \<in> set (hint_rect_runs words x y w h c)" "480 \<le> words" "1280 * words < 2 ^ 32"
  shows "\<exists>px py. off = index_of words px py \<and> d = [c] \<and> px \<le> 1279 \<and> py < 480 \<and>
    x \<le> int px \<and> int px < x + w \<and> y \<le> int py \<and> int py < y + h"
proof -
  obtain px py where p: "\<not> px < 0" "\<not> 1280 \<le> px" "0 \<le> py" "py < 480" "x \<le> px" "px < x + w"
    "y \<le> py" "py < y + h" "d = [c]" "off = word_index words (1279 - px) py"
    using assms(1) by (auto simp: hint_rect_runs_def)
  have "off = index_of words (nat px) (nat py)"
    using word_index_of [of "nat px" "nat py" words] p assms(2,3) by simp
  then show ?thesis
    using p by (intro exI [of _ "nat px"] exI [of _ "nat py"]) auto
qed

lemma hint_runs_members:
  assumes "(off, d) \<in> set (hint_runs words)" "480 \<le> words" "1280 * words < 2 ^ 32"
  shows "\<exists>px py c. off = index_of words px py \<and> d = [c] \<and> px \<le> 1279 \<and> py < 480 \<and>
    18 \<le> px \<and> px < 58 \<and> 18 \<le> py \<and> py < 58"
proof -
  obtain x y n c where r: "(off, d) \<in> set (hint_rect_runs words x y n n c)"
    "18 \<le> x" "x + n \<le> 58" "18 \<le> y" "y + n \<le> 58"
    using assms(1) by (auto simp: hint_runs_def)
  from hint_rect_runs_members [OF r(1) assms(2,3)] r(2-5) show ?thesis by fastforce
qed

lemma hint_runs_within:
  assumes "600 \<le> words" "1280 * words \<le> n" "1280 * words < 2 ^ 32"
  shows "runs_within n (hint_runs words)"
  unfolding runs_within_def list_all_iff
proof (clarify)
  fix off d assume "(off, d) \<in> set (hint_runs words)"
  moreover have "480 \<le> words" using assms(1) by simp
  ultimately obtain px py and c :: u16 where "off = index_of words px py" "d = [c]" "py < 480"
    using hint_runs_members [OF _ _ assms(3)] by blast
  then show "off + length d \<le> n"
    using index_of_bound [of py words n px] assms by simp
qed

lemma length_exit_hint:
  assumes "600 \<le> words" "1280 * words \<le> length pixels" "1280 * words < 2 ^ 32"
  shows "length (DeckDrawExitHintRgb565 pixels words) = length pixels"
  using hint_runs_within [OF assms] by (simp add: DeckDrawExitHintRgb565_def)

section \<open>Presenting a frame\<close>

definition image_over :: "DeckScaledLayout \<Rightarrow> nat \<Rightarrow> (nat \<Rightarrow> nat \<Rightarrow> u16) \<Rightarrow> u16 list \<Rightarrow> u16 list" where
  "image_over l words colour mem =
     map (\<lambda>i. if in_layout l (logical_x words i) (logical_y words i)
              then scaled_colour l colour (logical_x words i) (logical_y words i) else mem ! i)
       [0..<length mem]"

text \<open>
  What a successful presentation leaves in the mapping: the scaled, rotated image over the old
  contents, or over black when the source size changed, with the exit hint on top.
\<close>

definition panel_contents :: "u32 \<Rightarrow> u32 \<Rightarrow> (nat \<Rightarrow> nat \<Rightarrow> u16) \<Rightarrow> DeckFramebuffer \<Rightarrow> u16 list option" where
  "panel_contents w h colour fb =
     (case (DeckComputeScaledLayout w h, fb_memory fb) of
        (Some l, Some mem) \<Rightarrow>
          (let base = (if w \<noteq> fb_last_width fb \<or> h \<noteq> fb_last_height fb then replicate (length mem) 0 else mem);
               image = image_over l (row_words fb) colour base
           in Some (if fb_exit_hint fb then DeckDrawExitHintRgb565 image (row_words fb) else image))
      | _ \<Rightarrow> None)"

text \<open>Only the colours of the source's own pixels matter.\<close>

lemma panel_contents_cong:
  assumes "\<And>x y. x < unat w \<Longrightarrow> y < unat h \<Longrightarrow> colour x y = colour' x y"
  shows "panel_contents w h colour fb = panel_contents w h colour' fb"
proof -
  have "image_over l words colour mem = image_over l words colour' mem"
    if layout: "DeckComputeScaledLayout w h = Some l" for l words mem
  proof -
    obtain k x y where l: "l = nat_layout k x y (unat w) (unat h)" "0 < k"
      using layout_nat [OF layout] by metis
    have cell: "nat ((p - int z) div int k) < n" if "int z \<le> p" "p < int z + int (n * k)" for p z n
    proof -
      define q where "q = nat (p - int z)"
      have "p - int z = int q" "q < n * k" using that by (simp_all add: q_def nat_less_iff)
      then show ?thesis using l(2) by (simp add: less_mult_imp_div_less flip: zdiv_int)
    qed
    have "scaled_colour l colour px py = scaled_colour l colour' px py" if "in_layout l px py" for px py
      using that cell [of x px "unat w"] cell [of y py "unat h"] assms
      by (simp add: l(1) in_layout_def scaled_colour_def)
    then show ?thesis by (simp add: image_over_def)
  qed
  then show ?thesis by (simp add: panel_contents_def split: option.split)
qed

lemma begin_frame_Inr:
  assumes "begin_frame w h fb = (Inr l, fb1)" "fb_wf fb"
  obtains mem base where "fb_memory fb = Some mem" "DeckComputeScaledLayout w h = Some l"
    "fb_memory fb1 = Some base"
    "base = (if w \<noteq> fb_last_width fb \<or> h \<noteq> fb_last_height fb then replicate (length mem) 0 else mem)"
    "length base = length mem" "fb_wf fb1" "row_words fb1 = row_words fb" "fb_exit_hint fb1 = fb_exit_hint fb"
  using assms
  by (auto simp: begin_frame_def fb_wf_def row_words_def split: option.splits if_splits)

lemma publish_painted:
  assumes "begin_frame w h fb = (Inr l, fb1)" "fb_wf fb"
    and runs: "paints runs (length (fb_frame fb1)) (row_words fb1) l
      (\<lambda>i. scaled_colour l colour (logical_x (row_words fb1) i) (logical_y (row_words fb1) i))"
  shows "fb_memory (publish_frame l (fb1\<lparr>fb_frame := write_runs runs (fb_frame fb1)\<rparr>)) = panel_contents w h colour fb"
    and "fb_wf (publish_frame l (fb1\<lparr>fb_frame := write_runs runs (fb_frame fb1)\<rparr>))"
proof -
  obtain mem base where b: "fb_memory fb = Some mem" "DeckComputeScaledLayout w h = Some l"
    "fb_memory fb1 = Some base"
    "base = (if w \<noteq> fb_last_width fb \<or> h \<noteq> fb_last_height fb then replicate (length mem) 0 else mem)"
    "length base = length mem" "fb_wf fb1" "row_words fb1 = row_words fb" "fb_exit_hint fb1 = fb_exit_hint fb"
    using begin_frame_Inr [OF assms(1,2)] by metis
  note words = fb_wf_words [OF b(6,3)]
  let ?frame = "write_runs runs (fb_frame fb1)" and ?words = "row_words fb1"
  have len: "length ?frame = length base" using paints_length [OF runs] words(3) by simp
  obtain k x y where l: "l = nat_layout k x y (unat w) (unat h)"
    "x + unat w * k \<le> 1264" "y + unat h * k \<le> 464"
    using layout_nat [OF b(2)] by metis
  have publish: "paints (publish_runs ?words l ?frame) (length ?frame) ?words l (\<lambda>i. ?frame ! i)"
    unfolding l(1) using l(2,3) words len by (intro publish_runs_paint) linarith+
  let ?memory = "write_runs (publish_runs ?words l ?frame) base"
  have eq: "?memory = image_over l ?words colour base"
  proof (rule nth_equalityI)
    show lens: "length ?memory = length (image_over l ?words colour base)"
      using paints_length [of _ base] publish len by (simp add: image_over_def)
    fix i assume "i < length ?memory"
    then have i: "i < length base" using lens by (simp add: image_over_def)
    show "?memory ! i = image_over l ?words colour base ! i"
      using paints_nth [of _ base, OF _ i] publish paints_nth [OF runs] i len words(3)
      by (simp add: image_over_def)
  qed
  have "row_words (fb1\<lparr>fb_frame := ?frame\<rparr>) = ?words" by (simp add: row_words_def)
  then have out: "publish_frame l (fb1\<lparr>fb_frame := ?frame\<rparr>) =
    fb1\<lparr>fb_frame := ?frame, fb_memory := Some (if fb_exit_hint fb1
      then DeckDrawExitHintRgb565 (image_over l ?words colour base) ?words
      else image_over l ?words colour base)\<rparr>"
    using b(3) eq by (simp add: publish_frame_def Let_def)
  then show "fb_memory (publish_frame l (fb1\<lparr>fb_frame := ?frame\<rparr>)) = panel_contents w h colour fb"
    using b by (simp add: panel_contents_def Let_def)
  have "length (image_over l ?words colour base) = length base" by (simp add: image_over_def)
  then show "fb_wf (publish_frame l (fb1\<lparr>fb_frame := ?frame\<rparr>))"
    unfolding out using b(3,6) len words length_exit_hint [of ?words "image_over l ?words colour base"]
    by (simp add: fb_wf_def)
qed

lemma begin_frame_cases:
  "(\<exists>l fb1. begin_frame w h fb = (Inr l, fb1)) \<longleftrightarrow>
     fb_memory fb \<noteq> None \<and> DeckComputeScaledLayout w h \<noteq> None \<and> length (fb_frame fb) * 2 = fb_map_size fb"
  "begin_frame w h fb = (Inl e, fb1) \<Longrightarrow> fb1 = fb"
  by (auto simp: begin_frame_def split: option.splits if_splits)

lemma staging_even:
  assumes "fb_wf fb" "fb_memory fb \<noteq> None"
  shows "length (fb_frame fb) * 2 = fb_map_size fb \<longleftrightarrow> even (fb_map_size fb)"
  using assms by (auto simp: fb_wf_def elim!: evenE split: option.splits) (metis dvd_triv_right)

lemma begin_frame_paints:
  assumes "begin_frame w h fb = (Inr l, fb1)" "fb_wf fb"
  shows "paints (rotated_runs (row_words fb1) l w h colour) (length (fb_frame fb1)) (row_words fb1) l
      (\<lambda>i. scaled_colour l colour (logical_x (row_words fb1) i) (logical_y (row_words fb1) i))" (is ?rotated)
    and "paints (draw_all_runs (row_words fb1) l w h colour) (length (fb_frame fb1)) (row_words fb1) l
      (\<lambda>i. scaled_colour l colour (logical_x (row_words fb1) i) (logical_y (row_words fb1) i))" (is ?generic)
proof -
  obtain base where b: "DeckComputeScaledLayout w h = Some l" "fb_memory fb1 = Some base" "fb_wf fb1"
    using begin_frame_Inr [OF assms] by metis
  note words = fb_wf_words [OF b(3,2)]
  obtain k x y where l: "l = nat_layout k x y (unat w) (unat h)"
    "x + unat w * k \<le> 1264" "y + unat h * k \<le> 464"
    using layout_nat [OF b(1)] by metis
  show ?rotated unfolding l(1) using l(2,3) words by (intro rotated_runs_paint) linarith+
  show ?generic unfolding l(1) using l(2,3) words by (intro draw_all_runs_paint) linarith+
qed

lemma pitch_no_wrap:
  assumes "DeckComputeScaledLayout w h \<noteq> None"
  shows "unat w * 2 mod 2 ^ 32 = unat w * 2"
proof -
  obtain l where "DeckComputeScaledLayout w h = Some l" using assms by blast
  then have "unat w \<le> 1248" using layout_nat by metis
  then show ?thesis by simp
qed

lemma present_painted:
  assumes "fb_wf fb"
  shows "case present_rgb565 (Some rows) w h pitch fb of
      (Inr _, fb') \<Rightarrow> DeckComputeScaledLayout w h \<noteq> None \<and> unat w * 2 \<le> pitch \<and>
        fb_memory fb \<noteq> None \<and> even (fb_map_size fb) \<and>
        fb_memory fb' = panel_contents w h (\<lambda>x y. read_u16 rows (y * pitch + x * 2)) fb \<and> fb_wf fb'
    | (Inl _, fb') \<Rightarrow> fb' = fb \<and>
        (DeckComputeScaledLayout w h = None \<or> pitch < unat w * 2 \<or> fb_memory fb = None \<or>
         odd (fb_map_size fb))"
proof (cases "\<exists>l fb1. begin_frame w h fb = (Inr l, fb1)")
  case True
  then obtain l fb1 where b: "begin_frame w h fb = (Inr l, fb1)" by blast
  have c: "fb_memory fb \<noteq> None" "DeckComputeScaledLayout w h \<noteq> None" "even (fb_map_size fb)"
    using True begin_frame_cases(1) [of w h fb] staging_even [OF assms] by auto
  then have "unat w * 2 mod 2 ^ 32 = unat w * 2" by (metis pitch_no_wrap)
  then show ?thesis
    using b c publish_painted [OF b assms begin_frame_paints(1) [OF b assms]]
    by (auto simp: present_rgb565_def not_less)
next
  case False
  then have c: "fb_memory fb = None \<or> DeckComputeScaledLayout w h = None \<or> odd (fb_map_size fb)"
    using begin_frame_cases(1) [of w h fb] staging_even [OF assms] by auto
  obtain r fb1 where b: "begin_frame w h fb = (r, fb1)" by fastforce
  then obtain e where "r = Inl e" using False by (cases r) auto
  then show ?thesis
    using b c begin_frame_cases(2) [of w h fb e fb1] by (auto simp: present_rgb565_def)
qed

text \<open>
  C28. Presenting an RGB565 frame on an open device succeeds exactly when the frame fits the layout
  and its rows are long enough; the mapping then shows the source, scaled, rotated and centred,
  over what was there (black when the source size changed), and a refused frame changes nothing.
\<close>
theorem present_rgb565_exact:
  assumes "fb_wf fb"
  shows "case present_rgb565 (Some rows) w h pitch fb of
      (Inr _, fb') \<Rightarrow> DeckComputeScaledLayout w h \<noteq> None \<and> unat w * 2 \<le> pitch \<and>
        fb_memory fb \<noteq> None \<and> even (fb_map_size fb) \<and>
        fb_memory fb' = panel_contents w h (\<lambda>x y. read_u16 rows (y * pitch + x * 2)) fb \<and> fb_wf fb'
    | (Inl _, fb') \<Rightarrow> fb' = fb \<and>
        (DeckComputeScaledLayout w h = None \<or> pitch < unat w * 2 \<or> fb_memory fb = None \<or>
         odd (fb_map_size fb))"
  by (rule present_painted [OF assms])

text \<open>
  C38. The row-by-row fast path for RGB565 leaves the device in the same state, staging buffer
  included, as the generic pixel-by-pixel path drawing the same colours.
\<close>
theorem fast_path_agrees:
  assumes "fb_wf fb" "begin_frame w h fb = (Inr l, fb1)" "unat w * 2 \<le> pitch"
  shows "present_rgb565 (Some rows) w h pitch fb =
    (Inr (), publish_frame l (draw_all l w h (\<lambda>x y. read_u16 rows (y * pitch + x * 2)) fb1))"
proof -
  let ?colour = "\<lambda>x y. read_u16 rows (y * pitch + x * 2)" and ?words = "row_words fb1"
  note p = begin_frame_paints [OF assms(2,1), of ?colour]
  have "write_runs (rotated_runs ?words l w h ?colour) (fb_frame fb1) =
      write_runs (draw_all_runs ?words l w h ?colour) (fb_frame fb1)"
    by (rule nth_equalityI) (simp_all add: paints_length [OF p(1)] paints_length [OF p(2)]
        paints_nth [OF p(1)] paints_nth [OF p(2)])
  moreover have "DeckComputeScaledLayout w h \<noteq> None"
    using assms(2) begin_frame_cases(1) [of w h fb] by auto
  then have "unat w * 2 mod 2 ^ 32 = unat w * 2" by (metis pitch_no_wrap)
  ultimately show ?thesis
    using assms(2,3) by (simp add: present_rgb565_def draw_all_runs)
qed

section \<open>The device over time\<close>

inductive fb_reachable :: "DeckFramebuffer \<Rightarrow> bool" where
  created: "fb_reachable \<lparr>fb_fd = - 1, fb_memory = None, fb_map_size = 0, fb_stride = 0,
    fb_last_width = 0, fb_last_height = 0, fb_exit_hint = hint, fb_frame = []\<rparr>"
| opened: "fb_reachable fb \<Longrightarrow> fb_reachable (snd (fb_open_device k fb))"
| closed: "fb_reachable fb \<Longrightarrow> fb_reachable (fb_close_device fb)"
| shown_rgb565: "fb_reachable fb \<Longrightarrow> fb_reachable (snd (present_rgb565 pixels w h pitch fb))"
| shown_xrgb8888: "fb_reachable fb \<Longrightarrow> fb_reachable (snd (present_xrgb8888 pixels w h pitch fb))"
| shown_indexed: "fb_reachable fb \<Longrightarrow> fb_reachable (snd (present_indexed pixels w h pitch palette fb))"

lemma generic_wf:
  assumes "begin_frame w h fb = (Inr l, fb1)" "fb_wf fb"
  shows "fb_wf (publish_frame l (draw_all l w h colour fb1))"
  unfolding draw_all_runs by (rule publish_painted(2) [OF assms begin_frame_paints(2) [OF assms]])

lemma fast_wf:
  assumes "begin_frame w h fb = (Inr l, fb1)" "fb_wf fb"
  shows "fb_wf (publish_frame l (fb1\<lparr>fb_frame :=
    write_runs (rotated_runs (row_words fb1) l w h colour) (fb_frame fb1)\<rparr>))"
  by (rule publish_painted(2) [OF assms begin_frame_paints(1) [OF assms]])

lemma fb_reachable_wf: "fb_reachable fb \<Longrightarrow> fb_wf fb"
proof (induction rule: fb_reachable.induct)
  case (created hint)
  then show ?case by (simp add: fb_wf_def)
next
  case (shown_rgb565 fb pixels w h pitch)
  then show ?case
    using fast_wf begin_frame_cases(2)
    by (fastforce simp: present_rgb565_def split: option.split sum.split prod.split)
next
  case (shown_xrgb8888 fb pixels w h pitch)
  then show ?case
    using generic_wf begin_frame_cases(2)
    by (fastforce simp: present_xrgb8888_def split: option.split sum.split prod.split)
next
  case (shown_indexed fb pixels w h pitch palette)
  then show ?case
    using generic_wf begin_frame_cases(2)
    by (fastforce simp: present_indexed_def split: option.split sum.split prod.split)
qed (simp_all add: fb_open_device_wf fb_close_device_wf)

text \<open>
  C40. Memory safety of the frontend: after any sequence of opens, closes and presentations, a frame
  that \<open>begin_frame\<close> accepts is staged (by either path), published and overlaid with the exit hint
  by writes that all lie inside the staging buffer and the mapping, which have the same size.
\<close>
theorem presentation_in_bounds:
  assumes "fb_reachable fb" "begin_frame w h fb = (Inr l, fb1)"
  shows "\<exists>memory. fb_memory fb1 = Some memory \<and> length (fb_frame fb1) = length memory \<and>
    2 * length memory = fb_map_size fb1 \<and>
    runs_within (length memory) (rotated_runs (row_words fb1) l w h colour) \<and>
    runs_within (length memory) (draw_all_runs (row_words fb1) l w h colour) \<and>
    runs_within (length memory) (publish_runs (row_words fb1) l (fb_frame fb1)) \<and>
    runs_within (length memory) (hint_runs (row_words fb1))"
proof -
  have wf: "fb_wf fb" using assms(1) by (rule fb_reachable_wf)
  obtain mem where b: "DeckComputeScaledLayout w h = Some l" "fb_memory fb1 = Some mem" "fb_wf fb1"
    using begin_frame_Inr [OF assms(2) wf] by metis
  note words = fb_wf_words [OF b(3,2)]
  obtain k x y where l: "l = nat_layout k x y (unat w) (unat h)"
    "x + unat w * k \<le> 1264" "y + unat h * k \<le> 464"
    using layout_nat [OF b(1)] by metis
  have "paints (publish_runs (row_words fb1) l (fb_frame fb1)) (length (fb_frame fb1)) (row_words fb1) l
      (\<lambda>i. fb_frame fb1 ! i)"
    unfolding l(1) using l(2,3) words by (intro publish_runs_paint) linarith+
  moreover have "length (fb_frame fb) * 2 = fb_map_size fb"
    using begin_frame_cases(1) [of w h fb] assms(2) by auto
  then have "2 * length mem = fb_map_size fb1"
    using assms(2) b(2,3) by (auto simp: begin_frame_def fb_wf_def split: option.splits if_splits)
  ultimately show ?thesis
    using b(2) words begin_frame_paints [OF assms(2) wf, of colour] hint_runs_within [OF words(1,2,4)]
    by (simp add: paints_def)
qed

section \<open>Witnesses\<close>

definition example_kernel :: fb_kernel where
  "example_kernel = \<lparr>k_fd = 3, k_query_ok = True, k_xres = 600, k_yres = 1280, k_yres_virtual = 0,
     k_bits_per_pixel = 16, k_xoffset = 0, k_yoffset = 0, k_packed_pixels = True, k_truecolor = True,
     k_line_length = 1200, k_smem_len = 1536000,
     k_red = \<lparr>bf_offset = 11, bf_length = 5, bf_msb_right = 0\<rparr>,
     k_green = \<lparr>bf_offset = 5, bf_length = 6, bf_msb_right = 0\<rparr>,
     k_blue = \<lparr>bf_offset = 0, bf_length = 5, bf_msb_right = 0\<rparr>, k_transp_length = 0, k_map_ok = True\<rparr>"

definition example_created :: DeckFramebuffer where
  "example_created = \<lparr>fb_fd = - 1, fb_memory = None, fb_map_size = 0, fb_stride = 0,
    fb_last_width = 0, fb_last_height = 0, fb_exit_hint = True, fb_frame = []\<rparr>"

definition example_open :: DeckFramebuffer where
  "example_open = snd (fb_open_device example_kernel example_created)"

lemma example_open_fields:
  "fb_memory example_open = Some (replicate 768000 0)" "fb_map_size example_open = 1536000"
  "fb_frame example_open = replicate 768000 0"
  by (simp_all add: example_open_def example_kernel_def fb_open_device_def Let_def fb_rows_def
    fb_supported_def fb_close_device_def)

lemma example_open_reachable: "fb_reachable example_open"
  unfolding example_open_def example_created_def by (intro fb_reachable.opened fb_reachable.created)

lemma example_layout: "DeckComputeScaledLayout 160 144 =
    Some \<lparr>lay_scale = 3, lay_x = 400, lay_y = 24, lay_width = 480, lay_height = 432\<rparr>"
  by code_simp

lemma example_begin: "\<exists>l fb1. begin_frame 160 144 example_open = (Inr l, fb1)"
  by (simp add: begin_frame_cases(1) example_open_fields example_layout)

theorem present_rgb565_exact_witness:
  "\<exists>fb'. present_rgb565 (Some (replicate 46080 7)) 160 144 320 example_open = (Inr (), fb') \<and>
    fb_memory fb' = panel_contents 160 144 (\<lambda>x y. read_u16 (replicate 46080 7) (y * 320 + x * 2)) example_open"
proof -
  have "fb_wf example_open" unfolding example_open_def by (rule fb_open_device_wf)
  from present_rgb565_exact [OF this, where rows = "replicate 46080 7" and w = 160 and h = 144 and pitch = 320] show ?thesis
    by (auto simp: example_layout example_open_fields split: prod.splits sum.splits)
qed

theorem fast_path_agrees_witness:
  "\<exists>l fb1. begin_frame 160 144 example_open = (Inr l, fb1) \<and>
    present_rgb565 (Some (replicate 46080 7)) 160 144 320 example_open =
      (Inr (), publish_frame l (draw_all l 160 144 (\<lambda>x y. read_u16 (replicate 46080 7) (y * 320 + x * 2)) fb1))"
proof -
  have wf: "fb_wf example_open" unfolding example_open_def by (rule fb_open_device_wf)
  obtain l fb1 where "begin_frame 160 144 example_open = (Inr l, fb1)" using example_begin by blast
  then show ?thesis using fast_path_agrees [OF wf, where rows = "replicate 46080 7" and w = 160 and h = 144 and l = l and ?fb1.0 = fb1 and pitch = 320] by auto
qed

theorem presentation_in_bounds_witness:
  "\<exists>l fb1 memory. begin_frame 160 144 example_open = (Inr l, fb1) \<and> fb_memory fb1 = Some memory \<and>
    runs_within (length memory) (rotated_runs (row_words fb1) l 160 144 (\<lambda>x y. 0xf800))"
proof -
  obtain l fb1 where b: "begin_frame 160 144 example_open = (Inr l, fb1)" using example_begin by blast
  then show ?thesis
    using presentation_in_bounds [OF example_open_reachable b, of "\<lambda>x y. 0xf800"] by blast
qed

end
