(* ===== verification/Ten_Seconds.thy ===== *)
theory Ten_Seconds
  imports Raster Deck_Video Tone Evdev "HOL-Library.List_Lexorder" "HOL-Library.Char_ord"
begin

section \<open>The ten-second game (\<open>src/ten_seconds_deck.cpp\<close>)\<close>

text \<open>
  A timer to be stopped at ten seconds: its screen, its touch and gamepad input, its sounds and
  its main loop.  One turn of the loop is a function of the state and of what the outside
  answers during that turn (clock readings, \<open>poll\<close> flags, results of \<open>read\<close> and \<open>ioctl\<close>,
  process ids).  Times are nanoseconds as integers, far inside 64 bits.  Messages on the error
  stream and the child that plays a sound have no effect on the state and are left out.
\<close>

definition kCanvasWidth :: int where "kCanvasWidth = 624"
definition kCanvasHeight :: int where "kCanvasHeight = 224"
definition kCentisecondNanoseconds :: int where "kCentisecondNanoseconds = 10000000"
definition kRedrawNanoseconds :: int where "kRedrawNanoseconds = 16000000"
definition kMaximumGamepads :: nat where "kMaximumGamepads = 2"
definition BTN_TOUCH :: nat where "BTN_TOUCH = 0x14a"
definition BTN_THUMB2 :: nat where "BTN_THUMB2 = 0x122"

subsection \<open>The screen\<close>

definition two_digits :: "nat \<Rightarrow> string" where
  "two_digits n = [digit_char (n div 10), digit_char (n mod 10)]"

definition TenSecondsFormat :: "nat \<Rightarrow> string" where
  "TenSecondsFormat centiseconds =
     (let c = (if centiseconds > 9999 then 9999 else centiseconds)
      in two_digits (c div 100) @ ''.'' @ two_digits (c mod 100))"

definition fill_rect :: "Canvas \<Rightarrow> Rect \<Rightarrow> u16 \<Rightarrow> Canvas option" where
  "fill_rect canvas r c = fill_clipped kCanvasWidth kCanvasHeight canvas r c"

definition digit_glyphs :: "byte list list" where
  "digit_glyphs =
     [[14, 17, 19, 21, 25, 17, 14], [4, 12, 4, 4, 4, 4, 14],
      [14, 17, 1, 2, 4, 8, 31], [30, 1, 1, 14, 1, 1, 30],
      [2, 6, 10, 18, 31, 2, 2], [31, 16, 16, 30, 1, 1, 30],
      [14, 16, 16, 30, 17, 17, 14], [31, 1, 2, 4, 8, 8, 8],
      [14, 17, 17, 14, 17, 17, 14], [14, 17, 17, 15, 1, 1, 14]]"

definition letter_glyphs :: "byte list list" where
  "letter_glyphs =
     [[14, 17, 17, 31, 17, 17, 17], [30, 17, 17, 30, 17, 17, 30],
      [14, 17, 16, 16, 16, 17, 14], [30, 17, 17, 17, 17, 17, 30],
      [31, 16, 16, 30, 16, 16, 31], [31, 16, 16, 30, 16, 16, 16],
      [14, 17, 16, 23, 17, 17, 15], [17, 17, 17, 31, 17, 17, 17],
      [14, 4, 4, 4, 4, 4, 14], [7, 2, 2, 2, 18, 18, 12],
      [17, 18, 20, 24, 20, 18, 17], [16, 16, 16, 16, 16, 16, 31],
      [17, 27, 21, 21, 17, 17, 17], [17, 25, 21, 19, 17, 17, 17],
      [14, 17, 17, 17, 17, 17, 14], [30, 17, 17, 30, 16, 16, 16],
      [14, 17, 17, 17, 21, 18, 13], [30, 17, 17, 30, 20, 18, 17],
      [15, 16, 16, 14, 1, 1, 30], [31, 4, 4, 4, 4, 4, 4],
      [17, 17, 17, 17, 17, 17, 14], [17, 17, 17, 17, 17, 10, 4],
      [17, 17, 17, 17, 21, 21, 10], [17, 17, 10, 4, 10, 17, 17],
      [17, 17, 10, 4, 4, 4, 4], [31, 1, 2, 4, 8, 16, 31]]"

definition glyph_rows :: "char \<Rightarrow> byte list" where
  "glyph_rows input =
     (let character = (if is_lower input then byte_of input - 97 + 65 else byte_of input)
      in if 65 \<le> character \<and> character \<le> 90 then letter_glyphs ! (character - 65)
         else if 48 \<le> character \<and> character \<le> 57 then digit_glyphs ! (character - 48)
         else if character = 32 then [0, 0, 0, 0, 0, 0, 0]
         else if character = 46 then [0, 0, 0, 0, 0, 6, 6]
         else [14, 17, 1, 2, 4, 0, 4])"

fun text_squares :: "int \<Rightarrow> int \<Rightarrow> nat \<Rightarrow> string \<Rightarrow> int \<Rightarrow> Rect list" where
  "text_squares x y index [] scale = []"
| "text_squares x y index (c # cs) scale =
     glyph_squares (glyph_rows c) (x + int index * 6 * scale) y scale @ text_squares x y (index + 1) cs scale"

definition draw_text :: "Canvas \<Rightarrow> int \<Rightarrow> int \<Rightarrow> string \<Rightarrow> int \<Rightarrow> u16 \<Rightarrow> Canvas option" where
  "draw_text canvas x y s scale c = fill_all fill_rect (map (\<lambda>r. (r, c)) (text_squares x y 0 s scale)) canvas"

definition draw_centered_text :: "Canvas \<Rightarrow> int \<Rightarrow> string \<Rightarrow> int \<Rightarrow> u16 \<Rightarrow> Canvas option" where
  "draw_centered_text canvas y s scale c =
     (let width = (if s = [] then 0 else (int (length s) * 6 - 1) * scale)
      in draw_text canvas (max 0 ((kCanvasWidth - width) sdiv 2)) y s scale c)"

definition segments :: "u32 list" where
  "segments = [0x3f, 0x06, 0x5b, 0x4f, 0x66, 0x6d, 0x7d, 0x07, 0x7f, 0x6f]"

definition segment_bounds :: "int \<Rightarrow> int \<Rightarrow> Rect list" where
  "segment_bounds x y =
     (let width = 76; height = 128; thickness = 11
      in [Rect (x + thickness) y (width - 2 * thickness) thickness,
          Rect (x + width - thickness) (y + thickness) thickness (height div 2 - thickness),
          Rect (x + width - thickness) (y + height div 2) thickness (height div 2 - thickness),
          Rect (x + thickness) (y + height - thickness) (width - 2 * thickness) thickness,
          Rect x (y + height div 2) thickness (height div 2 - thickness),
          Rect x (y + thickness) thickness (height div 2 - thickness),
          Rect (x + thickness) (y + height div 2 - thickness div 2) (width - 2 * thickness) thickness])"

definition segment_mask :: "char \<Rightarrow> u32" where
  "segment_mask character = (if is_digit character then segments ! digit_value character else 0)"

definition draw_digit :: "Canvas \<Rightarrow> int \<Rightarrow> int \<Rightarrow> char \<Rightarrow> u16 \<Rightarrow> u16 \<Rightarrow> Canvas option" where
  "draw_digit canvas x y character active inactive =
     fill_all fill_rect
       (map (\<lambda>index. (segment_bounds x y ! index,
                      if segment_mask character AND push_bit index 1 \<noteq> 0 then active else inactive)) [0..<7])
       canvas"

datatype TimerState = TimerReady | TimerRunning | TimerStopped

definition result_text :: "TimerState \<Rightarrow> nat \<Rightarrow> string" where
  "result_text state displayed =
     (if state = TimerStopped
      then (if displayed = 1000 then ''EXACT''
            else if displayed < 1000 then TenSecondsFormat (1000 - displayed) @ '' EARLY''
            else TenSecondsFormat (displayed - 1000) @ '' LATE'')
      else [])"

definition instruction_text :: "TimerState \<Rightarrow> string" where
  "instruction_text state =
     (case state of
        TimerReady \<Rightarrow> ''TAP OR A TO START''
      | TimerRunning \<Rightarrow> ''TAP OR A TO STOP''
      | TimerStopped \<Rightarrow> ''TAP OR A FOR ANOTHER TRY'')"

definition back_button :: Rect where "back_button = Rect 6 5 70 25"

definition render_timer :: "TimerState \<Rightarrow> nat \<Rightarrow> Canvas option" where
  "render_timer state displayed =
     (let background = DeckRgb888To565 0x100d0c;
          amber = DeckRgb888To565 0xff7138;
          dim_amber = DeckRgb888To565 0x1c1c1c;
          cream = DeckRgb888To565 0xffedc2;
          muted = DeckRgb888To565 0xaa8f7c;
          success = DeckRgb888To565 0x62d38c;
          button = DeckRgb888To565 0x29211e;
          shown = TenSecondsFormat displayed;
          digit_color = (if state = TimerStopped \<and> displayed = 1000 then success else amber);
          result = result_text state displayed
      in draw_seq
           [\<lambda>canvas. fill_rect canvas back_button button,
            \<lambda>canvas. draw_text canvas 15 11 ''BACK'' 2 cream,
            \<lambda>canvas. draw_centered_text canvas 9 ''STOP AT 10.00'' 2 cream,
            \<lambda>canvas. draw_digit canvas 129 43 (shown ! 0) digit_color dim_amber,
            \<lambda>canvas. draw_digit canvas 219 43 (shown ! 1) digit_color dim_amber,
            \<lambda>canvas. draw_digit canvas 329 43 (shown ! 3) digit_color dim_amber,
            \<lambda>canvas. draw_digit canvas 419 43 (shown ! 4) digit_color dim_amber,
            \<lambda>canvas. fill_rect canvas (Rect 303 149 14 14) digit_color,
            \<lambda>canvas. if result \<noteq> [] then draw_centered_text canvas 178 result 1
                        (if displayed = 1000 then success else muted) else Some canvas,
            \<lambda>canvas. draw_centered_text canvas 198 (instruction_text state) 2 cream]
           (replicate (nat (kCanvasWidth * kCanvasHeight)) background))"

subsection \<open>Finding input devices\<close>

text \<open>An entry of \<open>/dev/input\<close> and the answers of the calls that identify it.\<close>

record input_entry =
  ie_name :: string
  ie_fd :: int
  ie_device_name :: "string option"
  ie_x :: "absinfo option"
  ie_y :: "absinfo option"
  ie_id :: "(nat \<times> nat) option"
  ie_keys :: "nat list option"
  ie_grab_ok :: bool

definition is_event_entry :: "string \<Rightarrow> bool" where
  "is_event_entry name =
     (\<not> (length name \<le> 5 \<or> take 5 name \<noteq> ''event'') \<and> list_all is_digit (drop 5 name))"

definition event_entries :: "input_entry list \<Rightarrow> input_entry list" where
  "event_entries entries =
     sort_key (\<lambda>e. ''/dev/input/'' @ ie_name e) (filter (\<lambda>e. is_event_entry (ie_name e)) entries)"

definition contains_text :: "string \<Rightarrow> string \<Rightarrow> bool" where
  "contains_text hay needle = list_ex (\<lambda>i. take (length needle) (drop i hay) = needle) [0..<length hay + 1]"

record TouchPress =
  press_x :: int
  press_y :: int

record TouchDevice =
  td_fd :: int
  td_x :: int
  td_y :: int
  td_down :: bool
  td_reported_down :: bool
  td_dropping :: bool
  td_grabbed :: bool

definition created_touch :: TouchDevice where
  "created_touch = \<lparr>td_fd = - 1, td_x = 0, td_y = 0, td_down = False, td_reported_down = False,
     td_dropping = False, td_grabbed = False\<rparr>"

definition touch_close_device :: "TouchDevice \<Rightarrow> TouchDevice" where
  "touch_close_device t = t\<lparr>td_fd := - 1, td_grabbed := False\<rparr>"

definition is_touchscreen :: "input_entry \<Rightarrow> bool" where
  "is_touchscreen e =
     (case (ie_device_name e, ie_x e, ie_y e) of
        (Some name, Some x, Some y) \<Rightarrow>
          contains_text name ''Goodix Capacitive TouchScreen'' \<and>
          abs_minimum x = 0 \<and> abs_maximum x = kLogicalWidth - 1 \<and>
          abs_minimum y = 0 \<and> abs_maximum y = kLogicalHeight - 1
      | _ \<Rightarrow> False)"

definition attach_touchscreen :: "input_entry \<Rightarrow> TouchDevice \<Rightarrow> TouchDevice" where
  "attach_touchscreen e t =
     (let down = (case ie_keys e of Some keys \<Rightarrow> BTN_TOUCH \<in> set keys | None \<Rightarrow> td_down t)
      in t\<lparr>td_fd := ie_fd e, td_x := abs_value (the (ie_x e)), td_y := abs_value (the (ie_y e)),
           td_down := down, td_reported_down := down, td_grabbed := ie_grab_ok e\<rparr>)"

datatype input_error = CannotOpenDirectory | NoTouchscreen | TouchReadFailed | TouchDisconnected | NotReady

fun first_touchscreen :: "input_entry list \<Rightarrow> input_entry option" where
  "first_touchscreen [] = None"
| "first_touchscreen (e # es) =
     (if ie_fd e < 0 then first_touchscreen es
      else if \<not> is_touchscreen e then first_touchscreen es else Some e)"

definition touch_discover ::
  "input_entry list option \<Rightarrow> TouchDevice \<Rightarrow> (input_error + unit) \<times> TouchDevice" where
  "touch_discover directory t0 =
     (let t = touch_close_device t0
      in case directory of
           None \<Rightarrow> (Inl CannotOpenDirectory, t)
         | Some entries \<Rightarrow>
             (case first_touchscreen (event_entries entries) of
                None \<Rightarrow> (Inl NoTouchscreen, t)
              | Some e \<Rightarrow> (Inr (), attach_touchscreen e t)))"

subsection \<open>Touch\<close>

definition clamp_x :: "int \<Rightarrow> int" where "clamp_x v = max 0 (min (kLogicalWidth - 1) v)"
definition clamp_y :: "int \<Rightarrow> int" where "clamp_y v = max 0 (min (kLogicalHeight - 1) v)"

text \<open>The answers of the resynchronising \<open>ioctl\<close> calls; \<open>None\<close> is a failed call.\<close>

record touch_answers =
  ans_x :: "int option"
  ans_y :: "int option"
  ans_keys :: "nat list option"

definition touch_resynchronize :: "touch_answers \<Rightarrow> TouchDevice \<Rightarrow> TouchDevice" where
  "touch_resynchronize a t =
     t\<lparr>td_x := (case ans_x a of Some v \<Rightarrow> clamp_x v | None \<Rightarrow> td_x t),
       td_y := (case ans_y a of Some v \<Rightarrow> clamp_y v | None \<Rightarrow> td_y t),
       td_down := (case ans_keys a of Some keys \<Rightarrow> BTN_TOUCH \<in> set keys | None \<Rightarrow> td_down t)\<rparr>"

text \<open>A report: a press when the finger is down and the last report had it up.\<close>

definition touch_report :: "TouchDevice \<times> TouchPress list \<Rightarrow> TouchDevice \<times> TouchPress list" where
  "touch_report tp =
     (let (t, presses) = tp
      in (t\<lparr>td_reported_down := td_down t\<rparr>,
          if td_down t \<and> \<not> td_reported_down t
          then presses @ [\<lparr>press_x = td_x t, press_y = td_y t\<rparr>] else presses))"

definition touch_event ::
  "touch_answers \<Rightarrow> input_event \<Rightarrow> TouchDevice \<times> TouchPress list \<Rightarrow> TouchDevice \<times> TouchPress list" where
  "touch_event a e tp =
     (let (t, presses) = tp
      in if ev_type e = EV_SYN \<and> ev_code e = SYN_DROPPED then (t\<lparr>td_dropping := True\<rparr>, presses)
         else if td_dropping t
         then (if ev_type e = EV_SYN \<and> ev_code e = SYN_REPORT
               then (let (t', presses') = touch_report (touch_resynchronize a t, presses)
                     in (t'\<lparr>td_dropping := False\<rparr>, presses'))
               else (t, presses))
         else if ev_type e = EV_ABS \<and> ev_code e = ABS_X then (t\<lparr>td_x := clamp_x (ev_value e)\<rparr>, presses)
         else if ev_type e = EV_ABS \<and> ev_code e = ABS_Y then (t\<lparr>td_y := clamp_y (ev_value e)\<rparr>, presses)
         else if ev_type e = EV_KEY \<and> ev_code e = BTN_TOUCH then (t\<lparr>td_down := (ev_value e \<noteq> 0)\<rparr>, presses)
         else if ev_type e = EV_SYN \<and> ev_code e = SYN_REPORT then touch_report (t, presses)
         else (t, presses))"

text \<open>The events of one \<open>read\<close> come with the answers a resynchronisation at each would get.\<close>

fun touch_read_loop ::
  "(touch_answers \<times> input_event) read_result list \<Rightarrow> TouchDevice \<times> TouchPress list \<Rightarrow>
     (input_error + unit) \<times> TouchDevice \<times> TouchPress list" where
  "touch_read_loop [] tp = (Inr (), tp)"
| "touch_read_loop (Interrupted # rs) tp = touch_read_loop rs tp"
| "touch_read_loop (Would_block # rs) tp = (Inr (), tp)"
| "touch_read_loop (Read_failed # rs) tp = (Inl TouchReadFailed, tp)"
| "touch_read_loop (Partial_event # rs) tp = (Inl TouchDisconnected, tp)"
| "touch_read_loop (Data es # rs) tp =
     (if es = [] then (Inl TouchDisconnected, tp)
      else touch_read_loop rs (foldl (\<lambda>tp (a, e). touch_event a e tp) tp es))"

definition read_presses ::
  "(touch_answers \<times> input_event) read_result list \<Rightarrow> TouchDevice \<Rightarrow>
     (input_error + unit) \<times> TouchDevice \<times> TouchPress list" where
  "read_presses script t = (if td_fd t < 0 then (Inl NotReady, t, []) else touch_read_loop script (t, []))"

definition is_back_press :: "TouchPress \<Rightarrow> bool" where
  "is_back_press press = (press_x press \<ge> 16 \<and> press_x press < 168 \<and> press_y press \<ge> 16 \<and> press_y press < 80)"

subsection \<open>Gamepads\<close>

record GamepadDevice =
  gd_fd :: int
  gd_a_down :: bool
  gd_reported_a_down :: bool
  gd_dropping :: bool

definition closed_gamepad :: GamepadDevice where
  "closed_gamepad = \<lparr>gd_fd = - 1, gd_a_down = False, gd_reported_a_down = False, gd_dropping = False\<rparr>"

definition gamepad_resynchronize :: "nat list option \<Rightarrow> GamepadDevice \<Rightarrow> bool \<times> GamepadDevice" where
  "gamepad_resynchronize keys d =
     (if gd_fd d < 0 then (False, d)
      else case keys of
             None \<Rightarrow> (False, d)
           | Some codes \<Rightarrow>
               (True, d\<lparr>gd_a_down := (BTN_THUMB2 \<in> set codes),
                        gd_reported_a_down := (BTN_THUMB2 \<in> set codes), gd_dropping := False\<rparr>))"

fun discover_loop :: "input_entry list \<Rightarrow> GamepadDevice list \<Rightarrow> GamepadDevice list" where
  "discover_loop [] devices = devices"
| "discover_loop (e # es) devices =
     (if length devices \<ge> kMaximumGamepads then devices
      else if ie_fd e < 0 then discover_loop es devices
      else if ie_id e \<noteq> Some (0x1c59, 0x0026) then discover_loop es devices
      else case gamepad_resynchronize (ie_keys e) (closed_gamepad\<lparr>gd_fd := ie_fd e\<rparr>) of
             (False, d) \<Rightarrow> discover_loop es devices
           | (True, d) \<Rightarrow> discover_loop es (devices @ [d]))"

definition gamepads_discover :: "input_entry list option \<Rightarrow> bool \<times> GamepadDevice list" where
  "gamepads_discover directory =
     (case directory of
        None \<Rightarrow> (False, [])
      | Some entries \<Rightarrow> (True, discover_loop (event_entries entries) []))"

definition gamepad_count :: "GamepadDevice list \<Rightarrow> nat" where
  "gamepad_count devices = length (filter (\<lambda>d. gd_fd d \<ge> 0) devices)"

text \<open>The descriptors polled for gamepads, in the order of the devices.\<close>

definition append_poll_descriptors :: "GamepadDevice list \<Rightarrow> int list" where
  "append_poll_descriptors devices = map gd_fd (filter (\<lambda>d. gd_fd d \<ge> 0) devices)"

text \<open>One event: whether to go on, the device, and whether A was newly pressed.\<close>

definition gamepad_event ::
  "nat list option \<Rightarrow> input_event \<Rightarrow> GamepadDevice \<Rightarrow> bool \<Rightarrow> bool \<times> GamepadDevice \<times> bool" where
  "gamepad_event keys e d pressed =
     (if gd_dropping d
      then (if ev_type e = EV_SYN \<and> ev_code e = SYN_REPORT
            then (let (ok, d') = gamepad_resynchronize keys d in (ok, d', pressed))
            else (True, d, pressed))
      else if ev_type e = EV_SYN \<and> ev_code e = SYN_DROPPED then (True, d\<lparr>gd_dropping := True\<rparr>, pressed)
      else if ev_type e = EV_KEY \<and> ev_code e = BTN_THUMB2
      then (True, d\<lparr>gd_a_down := (ev_value e \<noteq> 0)\<rparr>, pressed)
      else if ev_type e = EV_SYN \<and> ev_code e = SYN_REPORT
      then (True, d\<lparr>gd_reported_a_down := gd_a_down d\<rparr>, pressed \<or> (gd_a_down d \<and> \<not> gd_reported_a_down d))
      else (True, d, pressed))"

fun gamepad_events ::
  "(nat list option \<times> input_event) list \<Rightarrow> GamepadDevice \<Rightarrow> bool \<Rightarrow> bool \<times> GamepadDevice \<times> bool" where
  "gamepad_events [] d pressed = (True, d, pressed)"
| "gamepad_events ((keys, e) # es) d pressed =
     (case gamepad_event keys e d pressed of
        (False, d', pressed') \<Rightarrow> (False, d', pressed')
      | (True, d', pressed') \<Rightarrow> gamepad_events es d' pressed')"

fun drain_loop ::
  "(nat list option \<times> input_event) read_result list \<Rightarrow> GamepadDevice \<Rightarrow> bool \<Rightarrow> bool \<times> GamepadDevice \<times> bool" where
  "drain_loop [] d pressed = (True, d, pressed)"
| "drain_loop (Interrupted # rs) d pressed = drain_loop rs d pressed"
| "drain_loop (Would_block # rs) d pressed = (True, d, pressed)"
| "drain_loop (Read_failed # rs) d pressed = (False, d, pressed)"
| "drain_loop (Partial_event # rs) d pressed = (False, d, pressed)"
| "drain_loop (Data es # rs) d pressed =
     (if es = [] then (False, d, pressed)
      else case gamepad_events es d pressed of
             (False, d', pressed') \<Rightarrow> (False, d', pressed')
           | (True, d', pressed') \<Rightarrow> drain_loop rs d' pressed')"

definition drain ::
  "(nat list option \<times> input_event) read_result list \<Rightarrow> GamepadDevice \<Rightarrow> bool \<Rightarrow> bool \<times> GamepadDevice \<times> bool" where
  "drain script d pressed = (if gd_fd d < 0 then (False, d, pressed) else drain_loop script d pressed)"

text \<open>What \<open>poll\<close> reported for one descriptor, and what reading it would return.\<close>

record ready_descriptor =
  rd_input :: bool
  rd_trouble :: bool
  rd_script :: "(nat list option \<times> input_event) read_result list"

fun read_ready :: "GamepadDevice list \<Rightarrow> ready_descriptor list \<Rightarrow> bool \<Rightarrow> bool \<times> GamepadDevice list" where
  "read_ready [] descriptors pressed = (pressed, [])"
| "read_ready (d # ds) descriptors pressed =
     (if gd_fd d < 0 then (let (p, ds') = read_ready ds descriptors pressed in (p, d # ds'))
      else case descriptors of
             [] \<Rightarrow> (pressed, d # ds)
           | r # rs \<Rightarrow>
               (if \<not> (rd_input r \<or> rd_trouble r)
                then (let (p, ds') = read_ready ds rs pressed in (p, d # ds'))
                else
                  (let (ok, d', pressed') = (if rd_input r then drain (rd_script r) d pressed
                                             else (False, d, pressed));
                       (p, ds') = read_ready ds rs pressed'
                   in (p, (if ok then d' else closed_gamepad) # ds'))))"

subsection \<open>Sounds\<close>

datatype GameSoundCue = GameSoundStart | GameSoundExact | GameSoundMiss

fun sound_notes :: "GameSoundCue \<Rightarrow> (nat \<times> nat) list" where
  "sound_notes GameSoundStart = [(523, 28), (784, 38)]"
| "sound_notes GameSoundExact = [(784, 35), (1047, 40), (1319, 55)]"
| "sound_notes GameSoundMiss = [(659, 35), (440, 55)]"

text \<open>The samples the child writes at the granted rate.\<close>

definition sound_samples :: "GameSoundCue \<Rightarrow> nat \<Rightarrow> nat \<Rightarrow> int list" where
  "sound_samples cue rate volume_percent =
     concat (map (\<lambda>(frequency, duration). note_wave rate (wave_amplitude volume_percent) frequency duration)
       (sound_notes cue))"

record GameSoundPlayer =
  gs_volume :: nat
  gs_child :: int

definition player_reap_finished :: "bool \<Rightarrow> GameSoundPlayer \<Rightarrow> GameSoundPlayer" where
  "player_reap_finished reaped p = p\<lparr>gs_child := reap_child reaped (gs_child p)\<rparr>"

text \<open>The cue is what a started child plays.\<close>

definition player_play :: "bool \<Rightarrow> int \<Rightarrow> GameSoundPlayer \<Rightarrow> GameSoundPlayer" where
  "player_play reaped forked p0 =
     (if gs_volume p0 = 0 then p0
      else
        (let p = player_reap_finished reaped p0
         in if gs_child p > 0 then p else if forked < 0 then p else p\<lparr>gs_child := forked\<rparr>))"

definition player_stop :: "GameSoundPlayer \<Rightarrow> GameSoundPlayer" where
  "player_stop p = p\<lparr>gs_child := - 1\<rparr>"

subsection \<open>The main loop\<close>

record game =
  g_framebuffer :: DeckFramebuffer
  g_touch :: TouchDevice
  g_gamepads :: "GamepadDevice list"
  g_sound :: GameSoundPlayer
  g_state :: TimerState
  g_started_at :: int
  g_next_redraw :: int
  g_displayed :: nat
  g_dirty :: bool
  g_shutdown :: bool
  g_cues :: "GameSoundCue list"

text \<open>
  \<open>g_cues\<close> records the cues handed to the player, newest first.  The elapsed time in
  centiseconds saturates at 9999.
\<close>

definition elapsed_centiseconds :: "int \<Rightarrow> int \<Rightarrow> nat" where
  "elapsed_centiseconds started_at now =
     nat (min 9999 (max 0 (now - started_at) div kCentisecondNanoseconds))"

text \<open>\<open>pressed_at\<close>, \<open>reaped\<close> and \<open>forked\<close> are the clock and the process calls of this activation.\<close>

definition activate_timer :: "int \<times> bool \<times> int \<Rightarrow> game \<Rightarrow> game" where
  "activate_timer answers g =
     (let (pressed_at, reaped, forked) = answers
      in if g_state g = TimerRunning
         then (let displayed = elapsed_centiseconds (g_started_at g) pressed_at
               in g\<lparr>g_displayed := displayed, g_state := TimerStopped,
                    g_sound := player_play reaped forked (g_sound g),
                    g_cues := (if displayed = 1000 then GameSoundExact else GameSoundMiss) # g_cues g,
                    g_dirty := True\<rparr>)
         else g\<lparr>g_started_at := pressed_at, g_next_redraw := pressed_at, g_displayed := 0,
                g_state := TimerRunning, g_sound := player_play reaped forked (g_sound g),
                g_cues := GameSoundStart # g_cues g, g_dirty := True\<rparr>)"

text \<open>The answers of one turn of the loop.\<close>

datatype poll_answer = Poll_interrupted | Poll_failed | Poll_timeout | Poll_ready

record turn =
  t_reaped :: bool
  t_now :: int
  t_poll :: poll_answer
  t_gamepads :: "ready_descriptor list"
  t_touch_ready :: bool
  t_touch :: "(touch_answers \<times> input_event) read_result list"
  t_activations :: "nat \<Rightarrow> int \<times> bool \<times> int"

definition advance_clock :: "int \<Rightarrow> game \<Rightarrow> game" where
  "advance_clock now g =
     (if g_state g = TimerRunning \<and> now \<ge> g_next_redraw g
      then g\<lparr>g_displayed := elapsed_centiseconds (g_started_at g) now,
             g_next_redraw := now + kRedrawNanoseconds, g_dirty := True\<rparr>
      else g)"

definition canvas_bytes :: "Canvas \<Rightarrow> byte list" where
  "canvas_bytes canvas = concat (map (\<lambda>p. [ucast p, ucast (drop_bit 8 p)]) canvas)"

text \<open>\<open>None\<close>: undefined behaviour while drawing; otherwise whether presenting succeeded.\<close>

definition redraw :: "game \<Rightarrow> (bool \<times> game) option" where
  "redraw g =
     (if \<not> g_dirty g then Some (True, g)
      else case render_timer (g_state g) (g_displayed g) of
             None \<Rightarrow> None
           | Some canvas \<Rightarrow>
               (case present_rgb565 (Some (canvas_bytes canvas)) 624 224 (nat kCanvasWidth * 2) (g_framebuffer g) of
                  (Inl _, fb) \<Rightarrow> Some (False, g\<lparr>g_framebuffer := fb\<rparr>)
                | (Inr _, fb) \<Rightarrow> Some (True, g\<lparr>g_framebuffer := fb, g_dirty := False\<rparr>)))"

definition handle_presses :: "turn \<Rightarrow> bool \<Rightarrow> TouchPress list \<Rightarrow> game \<Rightarrow> game" where
  "handle_presses t controller_a presses g =
     (if list_ex is_back_press presses then g\<lparr>g_shutdown := True\<rparr>
      else if controller_a then activate_timer (t_activations t 0) g
      else foldl (\<lambda>g index. activate_timer (t_activations t index) g) g [0..<length presses])"

text \<open>The exit code, if the turn ends the program.\<close>

definition game_turn :: "turn \<Rightarrow> game \<Rightarrow> (nat option \<times> game) option" where
  "game_turn t g0 =
     (let g1 = advance_clock (t_now t) (g0\<lparr>g_sound := player_reap_finished (t_reaped t) (g_sound g0)\<rparr>)
      in case redraw g1 of
           None \<Rightarrow> None
         | Some (False, g2) \<Rightarrow> Some (Some 1, g2)
         | Some (True, g2) \<Rightarrow>
             (case t_poll t of
                Poll_interrupted \<Rightarrow> Some (None, g2)
              | Poll_failed \<Rightarrow> Some (Some 1, g2)
              | Poll_timeout \<Rightarrow> Some (None, g2)
              | Poll_ready \<Rightarrow>
                  (let (controller_a, gamepads) = read_ready (g_gamepads g2) (t_gamepads t) False;
                       g3 = g2\<lparr>g_gamepads := gamepads\<rparr>
                   in if t_touch_ready t
                      then (case read_presses (t_touch t) (g_touch g3) of
                              (Inl _, touch, _) \<Rightarrow> Some (Some 1, g3\<lparr>g_touch := touch\<rparr>)
                            | (Inr _, touch, presses) \<Rightarrow>
                                Some (None, handle_presses t controller_a presses (g3\<lparr>g_touch := touch\<rparr>)))
                      else Some (None, handle_presses t controller_a [] g3))))"

text \<open>The loop over the turns the environment offers; the exit code is 0 after a shutdown request.\<close>

fun game_loop :: "turn list \<Rightarrow> game \<Rightarrow> (nat option \<times> game) option" where
  "game_loop ts g =
     (if g_shutdown g then Some (Some 0, g)
      else case ts of
             [] \<Rightarrow> Some (None, g)
           | t # ts' \<Rightarrow>
               (case game_turn t g of
                  None \<Rightarrow> None
                | Some (Some code, g') \<Rightarrow> Some (Some code, g')
                | Some (None, g') \<Rightarrow> game_loop ts' g'))"

declare game_loop.simps [simp del]

text \<open>Start-up: the framebuffer, the touch screen, the gamepads (optional) and the volume.\<close>

definition game_start ::
  "fb_kernel \<Rightarrow> bool \<Rightarrow> input_entry list option \<Rightarrow> input_entry list option \<Rightarrow> bool \<times> nat \<Rightarrow> nat option \<times> game" where
  "game_start k exit_hint touch_directory gamepad_directory volume =
     (let (opened, fb) = fb_open_device k
            \<lparr>fb_fd = - 1, fb_memory = None, fb_map_size = 0, fb_stride = 0, fb_last_width = 0,
             fb_last_height = 0, fb_exit_hint = exit_hint, fb_frame = []\<rparr>;
          (found, touch) = touch_discover touch_directory created_touch;
          (scanned, gamepads) = gamepads_discover gamepad_directory;
          percent = (if fst volume then snd volume else 0);
          g = \<lparr>g_framebuffer = fb, g_touch = touch, g_gamepads = gamepads,
               g_sound = \<lparr>gs_volume = percent, gs_child = - 1\<rparr>, g_state = TimerReady, g_started_at = 0,
               g_next_redraw = 0, g_displayed = 0, g_dirty = True, g_shutdown = False, g_cues = []\<rparr>
      in (case opened of Inl _ \<Rightarrow> Some 1 | Inr _ \<Rightarrow> (case found of Inl _ \<Rightarrow> Some 1 | Inr _ \<Rightarrow> None), g))"

section \<open>Drawing is defined\<close>

lemma canvas_size: "kCanvasWidth = 624" "kCanvasHeight = 224"
  by (simp_all add: kCanvasWidth_def kCanvasHeight_def)

interpretation screen: raster kCanvasWidth kCanvasHeight fill_rect
  by (unfold_locales, unfold fill_rect_def, rule fill_clipped_pixels) (simp_all add: kCanvasWidth_def)

lemma text_squares_defined:
  assumes "0 < scale" "0 \<le> x" "cs = [] \<or> x + (int (i + length cs) * 6 - 1) * scale \<le> W"
  shows "list_all (fill_defined W H) (text_squares x y i cs scale)"
  using assms(3)
proof (induction cs arbitrary: i)
  case (Cons c cs)
  have "x + (int (i + 1) * 6 - 1) * scale \<le> x + (int (i + length (c # cs)) * 6 - 1) * scale"
    using assms(1) by (intro add_left_mono mult_right_mono) auto
  then have "x + int i * 6 * scale + 5 * scale \<le> W" using Cons.prems by (simp add: algebra_simps)
  moreover have "0 \<le> x + int i * 6 * scale" using assms by simp
  ultimately have "list_all (fill_defined W H) (glyph_squares (glyph_rows c) (x + int i * 6 * scale) y scale)"
    using glyph_squares_defined [OF _ assms(1)] by (auto simp: list_all_iff)
  moreover have "cs = [] \<or> x + (int (i + 1 + length cs) * 6 - 1) * scale \<le> W"
    using Cons.prems by (auto simp: algebra_simps)
  then have "list_all (fill_defined W H) (text_squares x y (i + 1) cs scale)" by (rule Cons.IH)
  ultimately show ?case by simp
qed simp

lemma draws_game_text:
  assumes "0 < scale" "0 \<le> x" "s = [] \<or> x + (int (length s) * 6 - 1) * scale \<le> 624"
  shows "draws kCanvasWidth kCanvasHeight (\<lambda>canvas. draw_text canvas x y s scale c)"
  unfolding draw_text_def
  using text_squares_defined [OF assms(1,2), of s 0 624 kCanvasHeight y] assms(3)
  by (intro screen.draws_fill_all) (auto simp: list_all_iff canvas_size)

lemma draws_game_centered_text:
  assumes "0 < scale" "s = [] \<or> (int (length s) * 6 - 1) * scale \<le> 624"
  shows "draws kCanvasWidth kCanvasHeight (\<lambda>canvas. draw_centered_text canvas y s scale c)"
proof (cases "s = []")
  case True
  then show ?thesis unfolding draw_centered_text_def Let_def by (intro draws_game_text assms(1)) auto
next
  case False
  let ?w = "(int (length s) * 6 - 1) * scale"
  have w: "?w \<le> 624" using assms(2) False by simp
  have "(624 - ?w) sdiv 2 = (624 - ?w) div 2" using w by (intro sdiv_nonneg) auto
  then have "max 0 ((kCanvasWidth - ?w) sdiv 2) + ?w \<le> 624"
    using w by (simp add: canvas_size max_def)
  then show ?thesis
    unfolding draw_centered_text_def Let_def using False by (intro draws_game_text assms(1)) auto
qed

lemma draws_digit:
  assumes "x \<in> {129, 219, 329, 419}"
  shows "draws kCanvasWidth kCanvasHeight (\<lambda>canvas. draw_digit canvas x 43 ch active inactive)"
  unfolding draw_digit_def
proof (rule screen.draws_fill_all)
  have "list_all (\<lambda>index. fill_defined kCanvasWidth kCanvasHeight (segment_bounds x 43 ! index)) [0..<7]"
    using assms by (auto simp: segment_bounds_def fill_defined_def canvas_size upt_rec Let_def)
  then show "list_all (\<lambda>rc. fill_defined kCanvasWidth kCanvasHeight (fst rc))
     (map (\<lambda>index. (segment_bounds x 43 ! index,
        if segment_mask ch AND push_bit index 1 \<noteq> 0 then active else inactive)) [0..<7])"
    by (simp add: list_all_iff)
qed

lemma length_format: "length (TenSecondsFormat n) = 5"
  by (simp add: TenSecondsFormat_def two_digits_def Let_def)

lemma length_result: "length (result_text state n) \<le> 11"
  by (simp add: result_text_def length_format)

lemma length_instruction: "length (instruction_text state) \<le> 24"
  by (cases state) (simp_all add: instruction_text_def)

lemma render_defined:
  "\<exists>canvas. render_timer state n = Some canvas \<and> length canvas = nat (kCanvasWidth * kCanvasHeight)"
proof -
  have d: "draws kCanvasWidth kCanvasHeight (draw_seq ds) \<Longrightarrow>
      \<exists>canvas. draw_seq ds (replicate (nat (kCanvasWidth * kCanvasHeight)) b) = Some canvas \<and>
        length canvas = nat (kCanvasWidth * kCanvasHeight)" for ds b
    unfolding draws_def by (metis length_replicate)
  have result: "draws kCanvasWidth kCanvasHeight (\<lambda>canvas. if result_text state n \<noteq> []
      then draw_centered_text canvas 178 (result_text state n) 1 c else Some canvas)" for c
  proof (cases "result_text state n = []")
    case True
    then show ?thesis by (simp add: draws_def)
  next
    case False
    then show ?thesis using draws_game_centered_text [of 1 "result_text state n"] length_result [of state n] by simp
  qed
  have instruction: "draws kCanvasWidth kCanvasHeight (\<lambda>canvas. draw_centered_text canvas 198 (instruction_text state) 2 c)" for c
    using draws_game_centered_text [of 2 "instruction_text state"] length_instruction [of state] by simp
  have fixed: "draws kCanvasWidth kCanvasHeight (\<lambda>canvas. draw_text canvas 15 11 ''BACK'' 2 c)"
    "draws kCanvasWidth kCanvasHeight (\<lambda>canvas. draw_centered_text canvas 9 ''STOP AT 10.00'' 2 c)" for c
    by (rule draws_game_text draws_game_centered_text; simp)+
  have rects: "draws kCanvasWidth kCanvasHeight (\<lambda>canvas. fill_rect canvas back_button c)"
    "draws kCanvasWidth kCanvasHeight (\<lambda>canvas. fill_rect canvas (Rect 303 149 14 14) c)" for c
    by (rule screen.draws_fill; simp add: fill_defined_def canvas_size back_button_def)+
  show ?thesis
    unfolding render_timer_def Let_def
    by (intro d draws_seq) (simp add: result instruction fixed rects draws_digit)
qed

section \<open>From the timer to the panel\<close>

lemma length_canvas_bytes: "length (canvas_bytes canvas) = 2 * length canvas"
  by (simp add: canvas_bytes_def length_concat comp_def sum_list_triv)

lemma canvas_bytes_Cons: "canvas_bytes (p # canvas) = [ucast p, ucast (drop_bit 8 p)] @ canvas_bytes canvas"
  by (simp add: canvas_bytes_def)

lemma nth_canvas_bytes:
  "i < length canvas \<Longrightarrow> canvas_bytes canvas ! (2 * i) = ucast (canvas ! i) \<and>
     canvas_bytes canvas ! (2 * i + 1) = ucast (drop_bit 8 (canvas ! i))"
proof (induction canvas arbitrary: i)
  case (Cons p canvas)
  then show ?case by (cases i) (simp_all add: canvas_bytes_Cons)
qed simp

lemma word_of_bytes: "(ucast (ucast (p :: u16) :: byte) :: u16) OR push_bit 8 (ucast (ucast (drop_bit 8 p) :: byte)) = p"
  by (rule bit_word_eqI) (auto simp: bit_simps)

lemma read_canvas: "i < length canvas \<Longrightarrow> read_u16 (canvas_bytes canvas) (2 * i) = canvas ! i"
  using nth_canvas_bytes [of i canvas] by (simp add: read_u16_def word_of_bytes del: mult_Suc_right)

lemma game_layout: "DeckComputeScaledLayout 624 224 =
    Some \<lparr>lay_scale = 2, lay_x = 16, lay_y = 16, lay_width = 1248, lay_height = 448\<rparr>"
  by code_simp

lemma redraw_dirty:
  assumes "fb_wf (g_framebuffer g)" "fb_memory (g_framebuffer g) \<noteq> None" "even (fb_map_size (g_framebuffer g))"
    "g_dirty g" "render_timer (g_state g) (g_displayed g) = Some canvas" "length canvas = nat (kCanvasWidth * kCanvasHeight)"
  shows "\<exists>fb. redraw g = Some (True, g\<lparr>g_framebuffer := fb, g_dirty := False\<rparr>) \<and> fb_wf fb \<and>
    fb_memory fb = panel_contents 624 224 (\<lambda>x y. canvas ! (y * 624 + x)) (g_framebuffer g)"
proof -
  let ?present = "present_rgb565 (Some (canvas_bytes canvas)) 624 224 (nat kCanvasWidth * 2) (g_framebuffer g)"
  have "\<exists>fb. ?present = (Inr (), fb) \<and> fb_wf fb \<and>
    fb_memory fb = panel_contents 624 224 (\<lambda>x y. read_u16 (canvas_bytes canvas) (y * (nat kCanvasWidth * 2) + x * 2)) (g_framebuffer g)"
    using present_painted [OF assms(1), where rows = "canvas_bytes canvas" and w = 624 and h = 224 and
        pitch = "nat kCanvasWidth * 2"] assms(2,3)
    by (auto simp: game_layout canvas_size split: prod.splits sum.splits)
  then obtain fb where fb: "?present = (Inr (), fb)" "fb_wf fb"
    "fb_memory fb = panel_contents 624 224 (\<lambda>x y. read_u16 (canvas_bytes canvas) (y * (nat kCanvasWidth * 2) + x * 2)) (g_framebuffer g)"
    by blast
  have px: "read_u16 (canvas_bytes canvas) (y * (nat kCanvasWidth * 2) + x * 2) = canvas ! (y * 624 + x)"
    if "x < unat (624 :: u32)" "y < unat (224 :: u32)" for x y
  proof -
    have "x < 624" "y \<le> 223" using that by simp_all
    moreover have "length canvas = 139776" using assms(6) by (simp add: canvas_size)
    ultimately have "y * 624 + x < length canvas" by linarith
    moreover have "y * (nat kCanvasWidth * 2) + x * 2 = 2 * (y * 624 + x)" by (simp add: canvas_size)
    ultimately show ?thesis using read_canvas by metis
  qed
  have "fb_memory fb = panel_contents 624 224 (\<lambda>x y. canvas ! (y * 624 + x)) (g_framebuffer g)"
    unfolding fb(3) by (rule panel_contents_cong) (rule px)
  moreover have "redraw g = Some (True, g\<lparr>g_framebuffer := fb, g_dirty := False\<rparr>)"
    unfolding redraw_def assms(5) option.case fb(1) prod.case sum.case using assms(4) by (simp only: if_False not_True_eq_False)
  ultimately show ?thesis using fb(2) by blast
qed

text \<open>
  What the game draws reaches the panel: in every timer state and for every displayed time the
  screen is drawn without undefined behaviour, and on a usable framebuffer a due redraw succeeds and
  leaves in the mapping exactly that 624 by 224 screen, scaled by the layout.
\<close>
theorem redraw_reaches_panel:
  assumes "fb_wf (g_framebuffer g)" "fb_memory (g_framebuffer g) \<noteq> None" "even (fb_map_size (g_framebuffer g))"
    "g_dirty g"
  shows "\<exists>canvas fb. render_timer (g_state g) (g_displayed g) = Some canvas \<and> length canvas = 624 * 224 \<and>
    redraw g = Some (True, g\<lparr>g_framebuffer := fb, g_dirty := False\<rparr>) \<and>
    fb_memory fb = panel_contents 624 224 (\<lambda>x y. canvas ! (y * 624 + x)) (g_framebuffer g)"
proof -
  obtain canvas where c: "render_timer (g_state g) (g_displayed g) = Some canvas"
    "length canvas = nat (kCanvasWidth * kCanvasHeight)"
    using render_defined by blast
  show ?thesis using redraw_dirty [OF assms c] c by (auto simp: canvas_size)
qed

text \<open>The area that counts as a press of BACK contains the drawn button.\<close>

lemma back_button_pressed:
  assumes "DeckComputeScaledLayout 624 224 = Some l" "in_layout l px py"
    "rect_contains back_button ((px - lay_x l) div lay_scale l) ((py - lay_y l) div lay_scale l)"
  shows "is_back_press \<lparr>press_x = px, press_y = py\<rparr>"
  using assms by (auto simp: game_layout back_button_def is_back_press_def)

section \<open>The timer\<close>

lemma elapsed_le: "elapsed_centiseconds s t \<le> 9999"
  by (simp add: elapsed_centiseconds_def)

lemma advance_clock_running:
  "g_state (advance_clock now g) = g_state g" "g_started_at (advance_clock now g) = g_started_at g"
  "g_cues (advance_clock now g) = g_cues g"
  by (simp_all add: advance_clock_def)

lemma elapsed_exact:
  assumes "s \<le> t"
  shows "elapsed_centiseconds s t = 1000 \<longleftrightarrow> s + 10000000000 \<le> t \<and> t < s + 10010000000"
proof -
  have "elapsed_centiseconds s t = 1000 \<longleftrightarrow> (t - s) div 10000000 = 1000"
    using assms by (simp add: elapsed_centiseconds_def kCentisecondNanoseconds_def min_def pos_imp_zdiv_nonneg_iff) linarith
  also have "\<dots> \<longleftrightarrow> s + 10000000000 \<le> t \<and> t < s + 10010000000" using assms by linarith
  finally show ?thesis .
qed

text \<open>
  The game measures what it promises: a press that starts the timer at \<open>t0\<close>, any number of
  redraws, and the next press at \<open>t1\<close> stop it showing the whole centiseconds between the two
  presses, saturated at 99.99; the result is EXACT, and the winning sound is played, precisely
  when the time is at least ten seconds and less than ten seconds and one centisecond.
\<close>
theorem timer_measures:
  assumes "g_state g \<noteq> TimerRunning" "t0 \<le> t1"
    "g' = activate_timer (t1, reaped1, forked1)
       (foldl (\<lambda>g now. advance_clock now g) (activate_timer (t0, reaped0, forked0) g) nows)"
  shows "g_state g' = TimerStopped \<and> g_displayed g' = nat (min 9999 ((t1 - t0) div 10000000)) \<and>
    (result_text (g_state g') (g_displayed g') = ''EXACT'' \<longleftrightarrow> t0 + 10000000000 \<le> t1 \<and> t1 < t0 + 10010000000) \<and>
    g_cues g' = (if t0 + 10000000000 \<le> t1 \<and> t1 < t0 + 10010000000 then GameSoundExact else GameSoundMiss)
      # GameSoundStart # g_cues g"
proof -
  let ?s = "activate_timer (t0, reaped0, forked0) g"
  have s: "g_state ?s = TimerRunning" "g_started_at ?s = t0" "g_cues ?s = GameSoundStart # g_cues g"
    using assms(1) by (simp_all add: activate_timer_def)
  have "g_state (foldl (\<lambda>g now. advance_clock now g) h nows) = g_state h \<and>
      g_started_at (foldl (\<lambda>g now. advance_clock now g) h nows) = g_started_at h \<and>
      g_cues (foldl (\<lambda>g now. advance_clock now g) h nows) = g_cues h" for h
    by (induction nows arbitrary: h) (auto simp: advance_clock_running)
  then have g': "g_state g' = TimerStopped" "g_displayed g' = elapsed_centiseconds t0 t1"
    "g_cues g' = (if elapsed_centiseconds t0 t1 = 1000 then GameSoundExact else GameSoundMiss) # GameSoundStart # g_cues g"
    using s by (simp_all add: assms(3) activate_timer_def Let_def)
  have "(result_text TimerStopped n = ''EXACT'') = (n = 1000)" for n
    using length_format [of "1000 - n"] length_format [of "n - 1000"]
    by (auto simp: result_text_def dest: arg_cong [of _ _ length])
  then show ?thesis
    using g' elapsed_exact [OF assms(2)] assms(2)
    by (simp add: elapsed_centiseconds_def kCentisecondNanoseconds_def)
qed

section \<open>Touch presses are rising edges\<close>

text \<open>
  The specification: the finger's state at every report, and the number of reports at which it
  is down after having been up.
\<close>

fun finger_reports :: "bool \<Rightarrow> input_event list \<Rightarrow> bool list" where
  "finger_reports down [] = []"
| "finger_reports down (e # es) =
     (if ev_type e = EV_KEY \<and> ev_code e = BTN_TOUCH then finger_reports (ev_value e \<noteq> 0) es
      else if ev_type e = EV_SYN \<and> ev_code e = SYN_REPORT then down # finger_reports down es
      else finger_reports down es)"

fun rises :: "bool \<Rightarrow> bool list \<Rightarrow> nat" where
  "rises previous [] = 0"
| "rises previous (down # ds) = (if down \<and> \<not> previous then 1 else 0) + rises down ds"

definition on_screen :: "int \<Rightarrow> int \<Rightarrow> bool" where
  "on_screen x y = (0 \<le> x \<and> x \<le> 1279 \<and> 0 \<le> y \<and> y \<le> 479)"

definition presses_on_screen :: "TouchDevice \<times> TouchPress list \<Rightarrow> bool" where
  "presses_on_screen tp = (on_screen (td_x (fst tp)) (td_y (fst tp)) \<and>
     list_all (\<lambda>p. on_screen (press_x p) (press_y p)) (snd tp))"

lemma clamp_on_screen:
  "0 \<le> clamp_x v" "clamp_x v \<le> 1279" "0 \<le> clamp_y v" "clamp_y v \<le> 479"
  by (simp_all add: clamp_x_def clamp_y_def)

lemma touch_report_on_screen: "presses_on_screen tp \<Longrightarrow> presses_on_screen (touch_report tp)"
  by (cases tp) (simp add: presses_on_screen_def touch_report_def)

lemma touch_event_on_screen:
  assumes "presses_on_screen tp"
  shows "presses_on_screen (touch_event a e tp)"
proof -
  obtain t ps where tp: "tp = (t, ps)" by fastforce
  have "presses_on_screen (touch_resynchronize a t, ps)"
    using assms by (auto simp: tp presses_on_screen_def on_screen_def touch_resynchronize_def clamp_on_screen
        split: option.split)
  moreover obtain t1 ps1 where 1: "touch_report (touch_resynchronize a t, ps) = (t1, ps1)" by fastforce
  ultimately have "presses_on_screen (t1, ps1)" using touch_report_on_screen by metis
  then have dropped: "presses_on_screen (t1\<lparr>td_dropping := False\<rparr>, ps1)" by (simp add: presses_on_screen_def)
  have moved: "presses_on_screen (t\<lparr>td_x := clamp_x v\<rparr>, ps)" "presses_on_screen (t\<lparr>td_y := clamp_y v\<rparr>, ps)"
    "presses_on_screen (t\<lparr>td_down := d\<rparr>, ps)" "presses_on_screen (t\<lparr>td_dropping := d\<rparr>, ps)" for v d
    using assms by (simp_all add: tp presses_on_screen_def on_screen_def clamp_on_screen)
  show ?thesis
    using assms dropped moved touch_report_on_screen [OF assms]
    by (simp add: tp touch_event_def 1)
qed

lemma touch_events_on_screen:
  "presses_on_screen tp \<Longrightarrow> presses_on_screen (foldl (\<lambda>tp (a, e). touch_event a e tp) tp es)"
proof (induction es arbitrary: tp)
  case (Cons ae es)
  then show ?case using touch_event_on_screen by (cases ae) (simp only: foldl_Cons prod.case)
qed simp

definition not_dropped :: "input_event \<Rightarrow> bool" where
  "not_dropped e = (\<not> (ev_type e = EV_SYN \<and> ev_code e = SYN_DROPPED))"

lemmas event_codes = EV_SYN_def EV_KEY_def EV_ABS_def SYN_REPORT_def SYN_DROPPED_def ABS_X_def ABS_Y_def BTN_TOUCH_def

lemma touch_events_rises:
  assumes "\<not> td_dropping t" "list_all (\<lambda>(a, e). not_dropped e) es"
    "foldl (\<lambda>tp (a, e). touch_event a e tp) (t, ps) es = (t', ps')"
  shows "\<not> td_dropping t' \<and>
    length ps' = length ps + rises (td_reported_down t) (finger_reports (td_down t) (map snd es))"
  using assms
proof (induction es arbitrary: t ps)
  case (Cons ae es)
  obtain a e where ae: "ae = (a, e)" by fastforce
  obtain t1 ps1 where 1: "touch_event a e (t, ps) = (t1, ps1)" by fastforce
  have nd: "\<not> (ev_type e = EV_SYN \<and> ev_code e = SYN_DROPPED)" "list_all (\<lambda>(a, e). not_dropped e) es"
    using Cons.prems(2) by (auto simp: ae not_dropped_def)
  have step: "\<not> td_dropping t1"
    "length ps1 + rises (td_reported_down t1) (finger_reports (td_down t1) (map snd es)) =
     length ps + rises (td_reported_down t) (finger_reports (td_down t) (map snd (ae # es)))"
    using 1 Cons.prems(1) nd(1)
    by (auto simp: ae touch_event_def touch_report_def event_codes split: if_splits)
  have "foldl (\<lambda>tp (a, e). touch_event a e tp) (t1, ps1) es = (t', ps')"
    using Cons.prems(3) 1 by (simp add: ae)
  from Cons.IH [OF step(1) nd(2) this] step(2) show ?case by simp
qed simp

text \<open>
  Touch input: a batch of events without an overrun yields exactly one press per report at
  which the finger is down after the previous report had it up, and every press, also after an
  overrun's resynchronisation, lies on the 1280 by 480 display.
\<close>
theorem touch_presses_are_edges:
  assumes "0 \<le> td_fd t" "on_screen (td_x t) (td_y t)" "es \<noteq> []"
    "read_presses (Data es # Would_block # rs) t = (r, t', presses)"
  shows "r = Inr () \<and> on_screen (td_x t') (td_y t') \<and>
    list_all (\<lambda>p. on_screen (press_x p) (press_y p)) presses \<and>
    (\<not> td_dropping t \<and> list_all (\<lambda>(a, e). not_dropped e) es \<longrightarrow>
       length presses = rises (td_reported_down t) (finger_reports (td_down t) (map snd es)))"
proof -
  have f: "foldl (\<lambda>tp (a, e). touch_event a e tp) (t, []) es = (t', presses)" "r = Inr ()"
    using assms(1,3,4) by (auto simp: read_presses_def split: if_splits)
  have "presses_on_screen (t', presses)"
    using touch_events_on_screen [of "(t, [])" es] assms(2) by (simp add: f presses_on_screen_def)
  then show ?thesis
    using f touch_events_rises [of t es "[]" t' presses] by (auto simp: presses_on_screen_def)
qed

section \<open>The loop\<close>

lemma redraw_defined: "redraw g \<noteq> None"
  using render_defined [of "g_state g" "g_displayed g"]
  by (auto simp: redraw_def split: prod.split sum.split)

lemma game_turn_defined: "game_turn t g \<noteq> None"
  using redraw_defined
  by (auto simp: game_turn_def Let_def split: option.split prod.split sum.split bool.split poll_answer.split)

lemma game_loop_defined: "game_loop ts g \<noteq> None"
proof (induction ts arbitrary: g)
  case Nil
  then show ?case by (subst game_loop.simps) simp
next
  case (Cons t ts)
  then show ?case
    using game_turn_defined [of t g]
    by (subst game_loop.simps) (auto split: option.split prod.split)
qed

text \<open>
  Touching BACK ends the game: on a usable framebuffer, a turn in which the touch screen
  reports a press anywhere on the drawn button, whatever else happens in that turn, leaves the
  loop with exit code 0 before any further turn.
\<close>
theorem back_press_exits:
  assumes "\<not> g_shutdown g" "fb_wf (g_framebuffer g)" "fb_memory (g_framebuffer g) \<noteq> None"
    "even (fb_map_size (g_framebuffer g))"
    "t_poll t = Poll_ready" "t_touch_ready t"
    "read_presses (t_touch t) (g_touch g) = (Inr (), touch, presses)"
    "p \<in> set presses" "DeckComputeScaledLayout 624 224 = Some l" "in_layout l (press_x p) (press_y p)"
    "rect_contains back_button ((press_x p - lay_x l) div lay_scale l) ((press_y p - lay_y l) div lay_scale l)"
  shows "\<exists>g'. game_loop (t # ts) g = Some (Some 0, g')"
proof -
  let ?g1 = "advance_clock (t_now t) (g\<lparr>g_sound := player_reap_finished (t_reaped t) (g_sound g)\<rparr>)"
  have keep: "g_framebuffer ?g1 = g_framebuffer g" "g_touch ?g1 = g_touch g"
    by (simp_all add: advance_clock_def)
  have "\<exists>g2. redraw ?g1 = Some (True, g2) \<and> g_touch g2 = g_touch g"
  proof (cases "g_dirty ?g1")
    case True
    obtain canvas where c: "render_timer (g_state ?g1) (g_displayed ?g1) = Some canvas"
      "length canvas = nat (kCanvasWidth * kCanvasHeight)"
      using render_defined by blast
    from redraw_dirty [OF _ _ _ True c] assms(2-4) keep show ?thesis by auto
  next
    case False
    then show ?thesis using keep by (simp add: redraw_def)
  qed
  then obtain g2 where g2: "redraw ?g1 = Some (True, g2)" "g_touch g2 = g_touch g" by blast
  have "is_back_press p" using back_button_pressed [OF assms(9-11)] by (cases p) simp
  then have back_press: "list_ex is_back_press presses" using assms(8) by (auto simp: list_ex_iff)
  obtain a ds where ready: "read_ready (g_gamepads g2) (t_gamepads t) False = (a, ds)" by fastforce
  have "game_turn t g = Some (None, (g2\<lparr>g_gamepads := ds, g_touch := touch\<rparr>)\<lparr>g_shutdown := True\<rparr>)"
    using g2 ready assms(5-7) back_press by (simp add: game_turn_def Let_def handle_presses_def)
  then show ?thesis using assms(1) by (simp add: game_loop.simps)
qed

section \<open>Witnesses\<close>

definition example_game :: game where
  "example_game = \<lparr>g_framebuffer = example_open, g_touch = created_touch\<lparr>td_fd := 4\<rparr>, g_gamepads = [],
     g_sound = \<lparr>gs_volume = 42, gs_child = - 1\<rparr>, g_state = TimerReady, g_started_at = 0,
     g_next_redraw = 0, g_displayed = 0, g_dirty = True, g_shutdown = False, g_cues = []\<rparr>"

lemma example_game_usable:
  "fb_wf (g_framebuffer example_game)" "fb_memory (g_framebuffer example_game) \<noteq> None"
  "even (fb_map_size (g_framebuffer example_game))"
  by (simp_all add: example_game_def example_open_fields fb_reachable_wf [OF example_open_reachable])

theorem redraw_reaches_panel_witness:
  "\<exists>canvas fb. redraw example_game = Some (True, example_game\<lparr>g_framebuffer := fb, g_dirty := False\<rparr>) \<and>
    fb_memory fb = panel_contents 624 224 (\<lambda>x y. canvas ! (y * 624 + x)) example_open"
  using redraw_reaches_panel [OF example_game_usable] by (auto simp: example_game_def)

theorem timer_measures_witness:
  "g_cues (activate_timer (10000000005, False, 12)
     (advance_clock 500 (activate_timer (3, False, 11) example_game))) = [GameSoundExact, GameSoundStart]"
proof -
  have "g_state example_game \<noteq> TimerRunning" by (simp add: example_game_def)
  from timer_measures [OF this, of 3 10000000005 _ False 12 False 11 "[500]"] show ?thesis
    by (simp add: example_game_def)
qed

definition touch_down_events :: "(touch_answers \<times> input_event) list" where
  "touch_down_events = map (\<lambda>e. (\<lparr>ans_x = None, ans_y = None, ans_keys = None\<rparr>, e))
     [\<lparr>ev_type = 3, ev_code = 0, ev_value = 40\<rparr>, \<lparr>ev_type = 3, ev_code = 1, ev_value = 30\<rparr>,
      \<lparr>ev_type = 1, ev_code = 0x14a, ev_value = 1\<rparr>, \<lparr>ev_type = 0, ev_code = 0, ev_value = 0\<rparr>]"

lemma touch_down_press:
  "read_presses [Data touch_down_events, Would_block] (created_touch\<lparr>td_fd := 4\<rparr>) =
    (Inr (), \<lparr>td_fd = 4, td_x = 40, td_y = 30, td_down = True, td_reported_down = True,
       td_dropping = False, td_grabbed = False\<rparr>, [\<lparr>press_x = 40, press_y = 30\<rparr>])"
  by (simp add: read_presses_def touch_down_events_def created_touch_def touch_event_def touch_report_def
      event_codes clamp_x_def clamp_y_def)

theorem touch_presses_are_edges_witness:
  "length [\<lparr>press_x = 40, press_y = 30\<rparr>] = rises False (finger_reports False (map snd touch_down_events))"
proof -
  have "touch_down_events \<noteq> []" by (simp add: touch_down_events_def)
  from touch_presses_are_edges [OF _ _ this touch_down_press] show ?thesis
    by (simp add: created_touch_def on_screen_def touch_down_events_def not_dropped_def event_codes)
qed

definition back_turn :: turn where
  "back_turn = \<lparr>t_reaped = False, t_now = 0, t_poll = Poll_ready, t_gamepads = [], t_touch_ready = True,
     t_touch = [Data touch_down_events, Would_block], t_activations = (\<lambda>_. (0, False, 1))\<rparr>"

theorem back_press_exits_witness: "\<exists>g'. game_loop [back_turn] example_game = Some (Some 0, g')"
proof -
  let ?touch = "\<lparr>td_fd = 4, td_x = 40, td_y = 30, td_down = True, td_reported_down = True,
       td_dropping = False, td_grabbed = False\<rparr>"
  have "read_presses (t_touch back_turn) (g_touch example_game) = (Inr (), ?touch, [\<lparr>press_x = 40, press_y = 30\<rparr>])"
    using touch_down_press by (simp add: back_turn_def example_game_def)
  from back_press_exits [OF _ example_game_usable _ _ this _ game_layout, of "\<lparr>press_x = 40, press_y = 30\<rparr>" "[]"]
  show ?thesis
    by (simp add: back_turn_def example_game_def in_layout_def back_button_def)
qed

end
