(* ===== verification/Menu_Palette.thy ===== *)
theory Menu_Palette
  imports Menu_Catalog
begin

section \<open>The dashboard palette (\<open>src/deck_menu.cpp\<close>)\<close>

text \<open>
  The dashboard's base colours are global variables that a palette file may replace.  The
  variables are the constructors of \<open>color_role\<close> and their values a function; the token table
  names each with its default.
\<close>

datatype color_role =
    kColorBackground | kColorTextDark | kColorField | kColorSurface | kColorInactiveBorder
  | kColorControlBorder | kColorFooter | kColorInactiveText | kColorText | kColorWhite
  | kColorTitle | kColorVolumeOff | kColorVolumeOn | kColorSelected | kColorWifiActive
  | kColorWifiFocus | kColorWifiActiveBorder | kColorFieldLabel | kColorAccent | kColorActive
  | kColorControlSurface | kColorMuted

type_synonym palette = "color_role \<Rightarrow> RgbColor"

definition rgb :: "u32 \<Rightarrow> u32 \<Rightarrow> u32 \<Rightarrow> RgbColor" where
  "rgb r g b = \<lparr>red = r, green = g, blue = b\<rparr>"

record PaletteToken =
  token_name :: string
  token_role :: color_role
  default_value :: RgbColor

definition palette_token :: "string \<Rightarrow> color_role \<Rightarrow> RgbColor \<Rightarrow> PaletteToken" where
  "palette_token n role c = \<lparr>token_name = n, token_role = role, default_value = c\<rparr>"

definition kPaletteTokens :: "PaletteToken list" where
  "kPaletteTokens =
     [palette_token ''background'' kColorBackground (rgb 0x00 0x00 0x00),
      palette_token ''text-dark'' kColorTextDark (rgb 0x12 0x12 0x12),
      palette_token ''field'' kColorField (rgb 0x12 0x12 0x12),
      palette_token ''surface'' kColorSurface (rgb 0x1c 0x1c 0x1c),
      palette_token ''inactive-border'' kColorInactiveBorder (rgb 0x5f 0x5f 0x5f),
      palette_token ''control-border'' kColorControlBorder (rgb 0x6c 0x6c 0x6c),
      palette_token ''footer'' kColorFooter (rgb 0xbc 0xbc 0xbc),
      palette_token ''inactive-text'' kColorInactiveText (rgb 0xda 0xda 0xda),
      palette_token ''text'' kColorText (rgb 0xee 0xee 0xee),
      palette_token ''white'' kColorWhite (rgb 0xff 0xff 0xff),
      palette_token ''title'' kColorTitle (rgb 0xff 0xff 0xaf),
      palette_token ''volume-off'' kColorVolumeOff (rgb 0xaf 0x87 0x87),
      palette_token ''volume-on'' kColorVolumeOn (rgb 0x87 0xaf 0x87),
      palette_token ''selected'' kColorSelected (rgb 0xec 0xb6 0xe7),
      palette_token ''wifi-active'' kColorWifiActive (rgb 0x5f 0x87 0xaf),
      palette_token ''wifi-focus'' kColorWifiFocus (rgb 0x87 0xaf 0xff),
      palette_token ''wifi-active-border'' kColorWifiActiveBorder (rgb 0xaf 0xaf 0xff),
      palette_token ''field-label'' kColorFieldLabel (rgb 0xaf 0xaf 0xaf),
      palette_token ''accent'' kColorAccent (rgb 0xfe 0x6c 0x27),
      palette_token ''active'' kColorActive (rgb 0x50 0x33 0x11),
      palette_token ''control-surface'' kColorControlSurface (rgb 0x30 0x30 0x30),
      palette_token ''muted'' kColorMuted (rgb 0x94 0x94 0x94)]"

definition kMaximumPaletteBytes :: nat where "kMaximumPaletteBytes = 4096"

text \<open>The loop over the table; the settings icon, which the source clears too, is a separate value.\<close>

definition reset_dashboard_palette :: "palette \<Rightarrow> palette" where
  "reset_dashboard_palette pal = foldl (\<lambda>p t. p(token_role t := default_value t)) pal kPaletteTokens"

definition valid_legacy_settings_icon :: "string \<Rightarrow> bool" where
  "valid_legacy_settings_icon name =
     (\<not> (name = [] \<or> 64 < length name) \<and>
      list_all (\<lambda>c. is_lower c \<or> is_digit c \<or> c = CHR ''-'') name)"

text \<open>\<open>values\<close> and \<open>seen\<close> of the source are one list: the value of each token seen so far.\<close>

definition find_token :: "string \<Rightarrow> nat option" where
  "find_token name = List.find (\<lambda>i. token_name (kPaletteTokens ! i) = name) [0..<length kPaletteTokens]"

fun palette_lines ::
  "string list \<Rightarrow> nat \<Rightarrow> bool \<Rightarrow> RgbColor option list \<Rightarrow> message + RgbColor option list" where
  "palette_lines [] n legacy seen = Inr seen"
| "palette_lines (raw # rest) n legacy seen =
     (let line_number = n + 1;
          line = (if raw \<noteq> [] \<and> byte_of (raw ! (length raw - 1)) = 13
                  then take (length raw - 1) raw else raw)
      in if line = [] \<or> line ! 0 = CHR ''#'' then palette_lines rest line_number legacy seen
         else
           (let fs = split_tabs line in
            if length fs \<noteq> 2
            then Inl (Msg (''palette line '' @ decimal line_number @ '' must have exactly 2 TSV fields''))
            else if fs ! 0 = ''settings-icon''
            then (if legacy \<or> \<not> valid_legacy_settings_icon (fs ! 1)
                  then Inl (Msg (''invalid legacy settings icon on line '' @ decimal line_number))
                  else palette_lines rest line_number True seen)
            else
              (case find_token (fs ! 0) of
                 None \<Rightarrow> Inl (Msg (''unknown palette role on line '' @ decimal line_number))
               | Some token \<Rightarrow>
                   if seen ! token \<noteq> None
                   then Inl (Msg (''duplicate palette role on line '' @ decimal line_number))
                   else
                     (case parse_color (fs ! 1) of
                        None \<Rightarrow> Inl (Msg (''palette color on line '' @ decimal line_number @
                                          '' must have the form #RRGGBB''))
                      | Some c \<Rightarrow> palette_lines rest line_number legacy (seen[token := Some c])))))"

definition assign_tokens :: "RgbColor option list \<Rightarrow> palette \<Rightarrow> palette" where
  "assign_tokens seen pal =
     foldl (\<lambda>p token. p(token_role (kPaletteTokens ! token) := the (seen ! token))) pal [0..<length kPaletteTokens]"

definition load_dashboard_palette :: "string \<Rightarrow> palette \<Rightarrow> world \<Rightarrow> (message + unit) \<times> palette \<times> world" where
  "load_dashboard_palette path pal w =
     (if \<not> is_absolute_path path then (Inl (Msg ''palette path must be absolute''), pal, w)
      else
        (case sys_stat path w of
           (None, w1) \<Rightarrow> (Inl (errno_message (''cannot stat palette '' @ path) w1), pal, w1)
         | (Some (is_regular, file_size), w1) \<Rightarrow>
             if \<not> is_regular \<or> kMaximumPaletteBytes < file_size
             then (Inl (Msg ''palette must be a regular file no larger than 4096 bytes''), pal, w1)
             else
               (case stream_read path w1 of
                  (None, w2) \<Rightarrow> (Inl (errno_message (''cannot open palette '' @ path) w2), pal, w2)
                | (Some input, w2) \<Rightarrow>
                    (case palette_lines (stream_lines input) 0 False (replicate (length kPaletteTokens) None) of
                       Inl m \<Rightarrow> (Inl m, pal, w2)
                     | Inr seen \<Rightarrow>
                         if snd input then (Inl (Msg (''error while reading palette '' @ path)), pal, w2)
                         else
                           (case List.find (\<lambda>token. seen ! token = None) [0..<length kPaletteTokens] of
                              Some token \<Rightarrow>
                                (Inl (Msg (''palette is missing role '' @ token_name (kPaletteTokens ! token))), pal, w2)
                            | None \<Rightarrow> (Inr (), assign_tokens seen pal, w2))))))"

section \<open>All or nothing\<close>

lemma token_table:
  "length kPaletteTokens = 22" "distinct (map token_name kPaletteTokens)"
  "map token_role kPaletteTokens =
     [kColorBackground, kColorTextDark, kColorField, kColorSurface, kColorInactiveBorder,
      kColorControlBorder, kColorFooter, kColorInactiveText, kColorText, kColorWhite, kColorTitle,
      kColorVolumeOff, kColorVolumeOn, kColorSelected, kColorWifiActive, kColorWifiFocus,
      kColorWifiActiveBorder, kColorFieldLabel, kColorAccent, kColorActive, kColorControlSurface, kColorMuted]"
  by (simp_all add: kPaletteTokens_def palette_token_def)

lemma every_role: "\<exists>i<22. token_role (kPaletteTokens ! i) = role"
proof -
  have "role \<in> set (map token_role kPaletteTokens)" unfolding token_table(3) by (cases role) simp_all
  then show ?thesis using token_table(1) by (auto simp: in_set_conv_nth)
qed

lemma roles_distinct: "distinct (map token_role kPaletteTokens)"
  unfolding token_table(3) by simp

lemma find_token_iff: "find_token name = Some i \<longleftrightarrow> i < 22 \<and> token_name (kPaletteTokens ! i) = name"
proof
  assume "find_token name = Some i"
  then show "i < 22 \<and> token_name (kPaletteTokens ! i) = name"
    by (auto simp: find_token_def find_Some_iff token_table(1))
next
  assume i: "i < 22 \<and> token_name (kPaletteTokens ! i) = name"
  have "\<not> find_token name = None"
    using i by (auto simp: find_token_def find_None_iff token_table(1))
  then obtain j where j: "find_token name = Some j" by auto
  then have "j < 22" "token_name (kPaletteTokens ! j) = name"
    by (auto simp: find_token_def find_Some_iff token_table(1))
  then have "map token_name kPaletteTokens ! i = map token_name kPaletteTokens ! j"
    using i token_table(1) by simp
  then have "i = j" using nth_eq_iff_index_eq [OF token_table(2), of i j] i \<open>j < 22\<close> token_table(1) by simp
  then show "find_token name = Some i" using j by simp
qed

text \<open>Tables indexed by distinct roles determine the palette.\<close>

lemma assign_fold:
  assumes "distinct (map r is)"
  shows "foldl (\<lambda>p i. p(r i := v i)) pal is x = (case map_of (map (\<lambda>i. (r i, v i)) is) x of None \<Rightarrow> pal x | Some c \<Rightarrow> c)"
  using assms
proof (induction "is" arbitrary: pal)
  case (Cons i "is")
  have "map_of (map (\<lambda>i. (r i, v i)) is) (r i) = None"
    using Cons.prems by (auto simp: map_of_eq_None_iff image_iff)
  then show ?case using Cons by (auto split: option.split)
qed simp

text \<open>
  The declarative reading of a palette file: a line is ignored, the legacy icon, or a role with
  its colour; the icon appears at most once and every role exactly once.
\<close>

definition palette_fields :: "string \<Rightarrow> string list" where
  "palette_fields raw =
     (let line = (if raw \<noteq> [] \<and> byte_of (raw ! (length raw - 1)) = 13
                  then take (length raw - 1) raw else raw)
      in if line = [] \<or> line ! 0 = CHR ''#'' then [] else split_tabs line)"

definition names_role :: "string \<Rightarrow> string \<Rightarrow> bool" where
  "names_role name raw = (palette_fields raw \<noteq> [] \<and> palette_fields raw ! 0 = name)"

definition palette_line_ok :: "string \<Rightarrow> bool" where
  "palette_line_ok raw =
     (palette_fields raw = [] \<or>
      length (palette_fields raw) = 2 \<and>
      (if palette_fields raw ! 0 = ''settings-icon'' then valid_legacy_settings_icon (palette_fields raw ! 1)
       else palette_fields raw ! 0 \<in> token_name ` set kPaletteTokens \<and>
            parse_color (palette_fields raw ! 1) \<noteq> None))"

definition palette_text_ok :: "string list \<Rightarrow> bool" where
  "palette_text_ok ls =
     (list_all palette_line_ok ls \<and> length (filter (names_role ''settings-icon'') ls) \<le> 1 \<and>
      list_all (\<lambda>t. length (filter (names_role (token_name t)) ls) = 1) kPaletteTokens)"

lemma palette_lines_Cons:
  "palette_lines (raw # rest) n legacy seen =
     (let fs = palette_fields raw in
      if fs = [] then palette_lines rest (n + 1) legacy seen
      else if length fs \<noteq> 2
      then Inl (Msg (''palette line '' @ decimal (n + 1) @ '' must have exactly 2 TSV fields''))
      else if fs ! 0 = ''settings-icon''
      then (if legacy \<or> \<not> valid_legacy_settings_icon (fs ! 1)
            then Inl (Msg (''invalid legacy settings icon on line '' @ decimal (n + 1)))
            else palette_lines rest (n + 1) True seen)
      else
        (case find_token (fs ! 0) of
           None \<Rightarrow> Inl (Msg (''unknown palette role on line '' @ decimal (n + 1)))
         | Some token \<Rightarrow>
             if seen ! token \<noteq> None
             then Inl (Msg (''duplicate palette role on line '' @ decimal (n + 1)))
             else
               (case parse_color (fs ! 1) of
                  None \<Rightarrow> Inl (Msg (''palette color on line '' @ decimal (n + 1) @
                                    '' must have the form #RRGGBB''))
                | Some c \<Rightarrow> palette_lines rest (n + 1) legacy (seen[token := Some c]))))"
proof -
  define line where "line = (if raw \<noteq> [] \<and> byte_of (raw ! (length raw - 1)) = 13
                  then take (length raw - 1) raw else raw)"
  have ne: "split_tabs line \<noteq> []" by (simp add: split_tabs_def)
  show ?thesis
    unfolding palette_lines.simps palette_fields_def line_def [symmetric] Let_def using ne by simp
qed

declare palette_lines.simps(2) [simp del]

lemma find_token_None: "find_token name = None \<longleftrightarrow> name \<notin> token_name ` set kPaletteTokens"
  by (auto simp: find_token_def find_None_iff in_set_conv_nth image_iff dest!: bspec [OF _ nth_mem])

lemma icon_no_token: "find_token ''settings-icon'' = None"
  by (simp add: find_token_None kPaletteTokens_def palette_token_def)

text \<open>What the loop accepts from a state in the middle of the file, and the values it ends with.\<close>

definition token_values :: "string list \<Rightarrow> RgbColor option list \<Rightarrow> RgbColor option list" where
  "token_values ls seen =
     map (\<lambda>i. case filter (names_role (token_name (kPaletteTokens ! i))) ls of
             [] \<Rightarrow> seen ! i | raw # _ \<Rightarrow> parse_color (palette_fields raw ! 1)) [0..<22]"

definition accepts_from :: "string list \<Rightarrow> bool \<Rightarrow> RgbColor option list \<Rightarrow> bool" where
  "accepts_from ls legacy seen =
     (list_all palette_line_ok ls \<and>
      length (filter (names_role ''settings-icon'') ls) + of_bool legacy \<le> 1 \<and>
      (\<forall>i<22. length (filter (names_role (token_name (kPaletteTokens ! i))) ls) + of_bool (seen ! i \<noteq> None) \<le> 1))"

lemma token_name_inject: "i < 22 \<Longrightarrow> j < 22 \<Longrightarrow> token_name (kPaletteTokens ! i) = token_name (kPaletteTokens ! j) \<longleftrightarrow> i = j"
  using nth_eq_iff_index_eq [OF token_table(2), of i j] token_table(1) by simp

lemma palette_lines_iff:
  assumes "length seen = 22"
  shows "palette_lines ls n legacy seen = Inr seen' \<longleftrightarrow> accepts_from ls legacy seen \<and> seen' = token_values ls seen"
  using assms
proof (induction ls arbitrary: n legacy seen)
  case Nil
  have "map ((!) seen) [0..<22] = seen" using Nil by (metis map_nth)
  then show ?case by (auto simp: accepts_from_def token_values_def)
next
  case (Cons raw ls)
  let ?fs = "palette_fields raw"
  consider (blank) "?fs = []" | (bad) "?fs \<noteq> []" "length ?fs \<noteq> 2"
    | (icon) "length ?fs = 2" "?fs ! 0 = ''settings-icon''"
    | (unknown) "length ?fs = 2" "?fs ! 0 \<noteq> ''settings-icon''" "find_token (?fs ! 0) = None"
    | (token) i where "length ?fs = 2" "?fs ! 0 \<noteq> ''settings-icon''" "find_token (?fs ! 0) = Some i"
    by fastforce
  then show ?case
  proof cases
    case blank
    then show ?thesis using Cons
      by (simp add: palette_lines_Cons accepts_from_def token_values_def names_role_def palette_line_ok_def)
  next
    case bad
    then have "\<exists>m. palette_lines (raw # ls) n legacy seen = Inl m" by (simp add: palette_lines_Cons Let_def)
    moreover have "\<not> accepts_from (raw # ls) legacy seen" using bad by (simp add: accepts_from_def palette_line_ok_def)
    ultimately show ?thesis by auto
  next
    case icon
    have other: "token_name (kPaletteTokens ! i) \<noteq> ''settings-icon''" if "i < 22" for i
      using icon_no_token find_token_iff [of "''settings-icon''" i] that by auto
    then have "names_role (token_name (kPaletteTokens ! i)) raw = False" if "i < 22" for i
      using icon(2) other [OF that] unfolding names_role_def by metis
    then show ?thesis using Cons.IH [of seen "n + 1" True] Cons.prems icon
      by (auto simp: palette_lines_Cons accepts_from_def token_values_def palette_line_ok_def names_role_def Let_def)
  next
    case unknown
    then have "?fs \<noteq> []" by auto
    then have "\<exists>m. palette_lines (raw # ls) n legacy seen = Inl m" using unknown by (simp add: palette_lines_Cons Let_def)
    moreover have "\<not> accepts_from (raw # ls) legacy seen"
      using unknown \<open>?fs \<noteq> []\<close> by (simp add: accepts_from_def palette_line_ok_def find_token_None)
    ultimately show ?thesis by auto
  next
    case (token i)
    then have i: "i < 22" "token_name (kPaletteTokens ! i) = ?fs ! 0" using find_token_iff by auto
    have ne: "?fs \<noteq> []" using token(1) by auto
    have names: "names_role (token_name (kPaletteTokens ! j)) raw \<longleftrightarrow> j = i" if "j < 22" for j
      using token_name_inject [OF that i(1)] i ne by (auto simp: names_role_def)
    have icon: "\<not> names_role ''settings-icon'' raw" using token by (simp add: names_role_def)
    have known: "?fs ! 0 \<in> token_name ` set kPaletteTokens" using token(3) find_token_None [of "?fs ! 0"] by simp
    show ?thesis
    proof (cases "seen ! i = None \<and> parse_color (?fs ! 1) \<noteq> None")
      case False
      then have "\<not> accepts_from (raw # ls) legacy seen"
        using i(1) names [OF i(1)] token(1,2)
        by (cases "seen ! i = None") (auto simp: accepts_from_def palette_line_ok_def)
      moreover have "\<exists>m. palette_lines (raw # ls) n legacy seen = Inl m"
        using False token ne by (cases "seen ! i = None") (auto simp: palette_lines_Cons Let_def)
      ultimately show ?thesis by auto
    next
      case True
      then obtain c where c: "parse_color (?fs ! 1) = Some c" "seen ! i = None" by auto
      let ?seen = "seen[i := Some c]"
      have step: "palette_lines (raw # ls) n legacy seen = palette_lines ls (n + 1) legacy ?seen"
        using token c ne by (simp add: palette_lines_Cons Let_def)
      have counts: "length (filter (names_role (token_name (kPaletteTokens ! j))) (raw # ls)) + of_bool (seen ! j \<noteq> None) =
          length (filter (names_role (token_name (kPaletteTokens ! j))) ls) + of_bool (?seen ! j \<noteq> None)" if "j < 22" for j
        using names [OF that] c(2) that Cons.prems by (cases "j = i") auto
      have "accepts_from (raw # ls) legacy seen \<longleftrightarrow> accepts_from ls legacy ?seen"
        using counts icon token(1,2) known c(1) by (simp add: accepts_from_def palette_line_ok_def)
      moreover have "token_values (raw # ls) seen = token_values ls ?seen" if "accepts_from ls legacy ?seen"
      proof -
        have "length (filter (names_role (token_name (kPaletteTokens ! i))) ls) + of_bool (?seen ! i \<noteq> None) \<le> 1"
          using that i(1) unfolding accepts_from_def by blast
        then have empty: "filter (names_role (token_name (kPaletteTokens ! i))) ls = []"
          using i(1) Cons.prems by simp
        show ?thesis unfolding token_values_def
        proof (rule map_cong [OF refl])
          fix j assume "j \<in> set [0..<22]"
          then have j: "j < 22" by simp
          show "(case filter (names_role (token_name (kPaletteTokens ! j))) (raw # ls) of
                [] \<Rightarrow> seen ! j | raw # _ \<Rightarrow> parse_color (palette_fields raw ! 1)) =
              (case filter (names_role (token_name (kPaletteTokens ! j))) ls of
                [] \<Rightarrow> ?seen ! j | raw # _ \<Rightarrow> parse_color (palette_fields raw ! 1))"
            using names [OF j] empty c(1) i(1) Cons.prems by (cases "j = i") (simp_all split: list.split)
        qed
      qed
      ultimately show ?thesis
        unfolding step using Cons.IH [of ?seen "n + 1" legacy] Cons.prems by auto
    qed
  qed
qed

lemma token_names_no_icon: "t \<in> set kPaletteTokens \<Longrightarrow> token_name t \<noteq> ''settings-icon''"
  using icon_no_token find_token_None [of "''settings-icon''"] by force

lemma token_line:
  assumes "palette_line_ok raw" "names_role (token_name t) raw" "t \<in> set kPaletteTokens"
  shows "\<exists>hex. palette_fields raw = [token_name t, hex] \<and> parse_color hex \<noteq> None"
proof -
  have "length (palette_fields raw) = 2" "palette_fields raw ! 0 = token_name t"
    using assms(1,2) by (auto simp: palette_line_ok_def names_role_def)
  then have "palette_fields raw = [token_name t, palette_fields raw ! 1]"
    by (cases "palette_fields raw"; cases "tl (palette_fields raw)") auto
  moreover have "parse_color (palette_fields raw ! 1) \<noteq> None"
    using assms token_names_no_icon [OF assms(3)] by (auto simp: palette_line_ok_def names_role_def)
  ultimately show ?thesis by metis
qed

lemma list_all_tokens: "list_all P kPaletteTokens \<longleftrightarrow> (\<forall>i<22. P (kPaletteTokens ! i))"
  by (simp add: list_all_length token_table(1))

lemma palette_text_ok_accepts:
  "palette_text_ok ls \<longleftrightarrow>
     accepts_from ls False (replicate 22 None) \<and> (\<forall>i<22. token_values ls (replicate 22 None) ! i \<noteq> None)"
proof -
  have "token_values ls (replicate 22 None) ! i \<noteq> None \<longleftrightarrow> filter (names_role (token_name (kPaletteTokens ! i))) ls \<noteq> []"
    if i: "i < 22" and ok: "list_all palette_line_ok ls" for i
  proof (cases "filter (names_role (token_name (kPaletteTokens ! i))) ls")
    case (Cons raw rest)
    then have "raw \<in> set (filter (names_role (token_name (kPaletteTokens ! i))) ls)" by simp
    then have "raw \<in> set ls" "names_role (token_name (kPaletteTokens ! i)) raw" by simp_all
    moreover have "kPaletteTokens ! i \<in> set kPaletteTokens" using i token_table(1) by simp
    ultimately show ?thesis
      using token_line [of raw "kPaletteTokens ! i"] ok i Cons by (auto simp: token_values_def list_all_iff)
  qed (use i in \<open>simp add: token_values_def\<close>)
  then have seen: "list_all palette_line_ok ls \<Longrightarrow> (\<forall>i<22. token_values ls (replicate 22 None) ! i \<noteq> None) \<longleftrightarrow>
      (\<forall>i<22. filter (names_role (token_name (kPaletteTokens ! i))) ls \<noteq> [])" by blast
  have one: "length xs = 1 \<longleftrightarrow> length xs + of_bool ((replicate 22 None ! i :: RgbColor option) \<noteq> None) \<le> 1 \<and> xs \<noteq> []"
    if "i < 22" for xs :: "string list" and i using that by (cases xs) auto
  show ?thesis
  proof (cases "list_all palette_line_ok ls")
    case True
    then show ?thesis
      unfolding palette_text_ok_def accepts_from_def list_all_tokens seen [OF True] using one by (simp del: length_greater_0_conv) blast
  qed (simp add: palette_text_ok_def accepts_from_def)
qed

lemma assign_tokens_role:
  assumes "i < 22"
  shows "assign_tokens seen pal (token_role (kPaletteTokens ! i)) = the (seen ! i)"
proof -
  have idx: "map (\<lambda>i. token_role (kPaletteTokens ! i)) [0..<22] = map token_role kPaletteTokens"
    using token_table(1) map_nth [of kPaletteTokens] by (metis (no_types, lifting) list.map_comp comp_def map_eq_conv)
  have "map_of (map (\<lambda>i. (token_role (kPaletteTokens ! i), the (seen ! i))) [0..<22]) (token_role (kPaletteTokens ! i)) =
      Some (the (seen ! i))"
    using assms idx roles_distinct by (intro map_of_is_SomeI) (auto simp: comp_def)
  then show ?thesis
    using assign_fold [of "\<lambda>i. token_role (kPaletteTokens ! i)" "[0..<22]" "\<lambda>i. the (seen ! i)" pal] idx roles_distinct
    by (simp add: assign_tokens_def token_table(1))
qed

text \<open>
  A palette file is accepted exactly when it is a regular file of at most 4096 bytes in
  which every line is blank, a comment, the legacy icon (at most once) or a role with a valid
  colour, and every role occurs exactly once; then each colour variable holds the value its line
  gives.  Otherwise no colour changes.
\<close>
theorem load_dashboard_palette_exact:
  assumes "load_dashboard_palette path pal w = (r, pal', w')" "schedule w = []"
  shows "(r = Inr () \<longleftrightarrow>
      is_absolute_path path \<and>
      (\<exists>text. file_content w path = Some text \<and> length text \<le> 4096 \<and> palette_text_ok (stream_lines (text, False)))) \<and>
    (r = Inr () \<longrightarrow>
      (\<forall>t\<in>set kPaletteTokens. \<exists>raw hex. raw \<in> set (stream_lines (the (file_content w path), False)) \<and>
         palette_fields raw = [token_name t, hex] \<and> parse_color hex = Some (pal' (token_role t)))) \<and>
    (r \<noteq> Inr () \<longrightarrow> pal' = pal)"
proof -
  have sched: "next_outcome v = (Success, v)" if "schedule v = []" for v using that by (simp add: next_outcome_def)
  show ?thesis
  proof (cases "is_absolute_path path \<and> (\<exists>text. file_content w path = Some text \<and> length text \<le> 4096)")
    case False
    then have "r \<noteq> Inr () \<and> pal' = pal"
      using assms sched [OF assms(2)]
      by (auto simp: load_dashboard_palette_def sys_stat_def fail_def file_content_def kMaximumPaletteBytes_def
          split: option.splits if_splits)
    then show ?thesis using False by auto
  next
    case True
    then obtain i where i: "names w path = Some i" "regular (inodes w i)" "length (content (inodes w i)) \<le> 4096"
      by (auto simp: file_content_def split: option.splits if_splits)
    let ?text = "content (inodes w i)" and ?none = "replicate 22 None :: RgbColor option list"
    let ?ls = "stream_lines (?text, False)"
    have held: "file_content w path = Some ?text" using i by (simp add: file_content_def)
    have missing: "List.find (\<lambda>token. seen ! token = None) [0..<22] = None \<longleftrightarrow> (\<forall>i<22. seen ! i \<noteq> None)"
      for seen :: "RgbColor option list" by (auto simp: find_None_iff)
    have run: "(r, pal') =
        (case palette_lines ?ls 0 False ?none of
           Inl m \<Rightarrow> (Inl m, pal)
         | Inr seen \<Rightarrow> (case List.find (\<lambda>token. seen ! token = None) [0..<22] of
             Some token \<Rightarrow> (Inl (Msg (''palette is missing role '' @ token_name (kPaletteTokens ! token))), pal)
           | None \<Rightarrow> (Inr (), assign_tokens seen pal)))"
      using assms i True sched [OF assms(2)]
      by (auto simp: load_dashboard_palette_def sys_stat_def stream_read_def kMaximumPaletteBytes_def token_table(1)
          split: sum.splits option.splits)
    show ?thesis
    proof (cases "palette_text_ok ?ls")
      case ok: True
      then have acc: "accepts_from ?ls False ?none" "\<forall>i<22. token_values ?ls ?none ! i \<noteq> None"
        using palette_text_ok_accepts by blast+
      have lines: "palette_lines ?ls 0 False ?none = Inr (token_values ?ls ?none)"
        using palette_lines_iff [of ?none ?ls 0 False] acc(1) by simp
      have res: "r = Inr ()" "pal' = assign_tokens (token_values ?ls ?none) pal"
        using run lines acc(2) missing [of "token_values ?ls ?none"] by (simp_all split: option.splits)
      have each: "\<exists>raw hex. raw \<in> set ?ls \<and> palette_fields raw = [token_name t, hex] \<and>
          parse_color hex = Some (pal' (token_role t))" if t: "t \<in> set kPaletteTokens" for t
      proof -
        obtain j where j: "j < 22" "t = kPaletteTokens ! j" using t token_table(1) by (auto simp: in_set_conv_nth)
        have "length (filter (names_role (token_name t)) ?ls) = 1"
          using ok t by (auto simp: palette_text_ok_def list_all_iff)
        then obtain raw where raw: "filter (names_role (token_name t)) ?ls = [raw]"
          by (cases "filter (names_role (token_name t)) ?ls") auto
        then have "raw \<in> set (filter (names_role (token_name t)) ?ls)" by simp
        then have mem: "raw \<in> set ?ls" "names_role (token_name t) raw" by simp_all
        obtain hex where hex: "palette_fields raw = [token_name t, hex]" "parse_color hex \<noteq> None"
          using token_line [OF _ mem(2) t] ok mem(1) by (auto simp: palette_text_ok_def list_all_iff)
        have "pal' (token_role t) = the (token_values ?ls ?none ! j)"
          using res(2) assign_tokens_role [OF j(1)] j(2) by simp
        also have "\<dots> = the (parse_color hex)" using raw hex(1) j by (simp add: token_values_def)
        finally show ?thesis using mem(1) hex by auto
      qed
      then show ?thesis using res ok True i(3) by (simp add: held)
    next
      case bad: False
      have "r \<noteq> Inr () \<and> pal' = pal"
      proof (cases "palette_lines ?ls 0 False ?none")
        case (Inr seen)
        then have "accepts_from ?ls False ?none" "seen = token_values ?ls ?none"
          using palette_lines_iff [of ?none ?ls 0 False seen] by auto
        then show ?thesis
          using run Inr bad palette_text_ok_accepts missing [of seen] by (auto split: option.splits)
      qed (use run in auto)
      then show ?thesis using bad by (simp add: held)
    qed
  qed
qed

section \<open>A palette file\<close>

lemma getlines_line:
  "NL \<notin> set l \<Longrightarrow> getlines bad acc (l @ NL # rest) = (rev acc @ l) # getlines bad [] rest"
  by (induction l arbitrary: acc) auto

lemma stream_lines_concat:
  "list_all (\<lambda>l. NL \<notin> set l) ls \<Longrightarrow> stream_lines (concat (map (\<lambda>l. l @ [NL]) ls), False) = ls"
  by (induction ls) (simp_all add: stream_lines_def getlines_line)

definition sample_palette_lines :: "string list" where
  "sample_palette_lines = map (\<lambda>t. token_name t @ TAB # ''#010203'') kPaletteTokens"

definition palette_world :: world where
  "palette_world =
     \<lparr>names = [''/p'' \<mapsto> 0],
      inodes = (\<lambda>i. \<lparr>regular = True, content = concat (map (\<lambda>l. l @ [NL]) sample_palette_lines)\<rparr>),
      next_inode = 1, fds = Map.empty, next_fd = 3, schedule = [], last_errno = EIO, pid = 1\<rparr>"

lemma sample_fields:
  "list_all (\<lambda>t. palette_fields (token_name t @ TAB # ''#010203'') = [token_name t, ''#010203'']) kPaletteTokens"
  by code_simp

lemma sample_once:
  "list_all (\<lambda>t. length (filter (\<lambda>u. token_name u = token_name t) kPaletteTokens) = 1) kPaletteTokens"
  by code_simp

lemma sample_lines_clean: "list_all (\<lambda>l. NL \<notin> set l) sample_palette_lines"
  by code_simp

lemma sample_length: "length (concat (map (\<lambda>l. l @ [NL]) sample_palette_lines)) \<le> 4096"
  by code_simp

lemma sample_color: "parse_color ''#010203'' = Some (rgb 1 2 3)"
  by code_simp

lemma sample_text_ok: "palette_text_ok sample_palette_lines"
proof -
  have names: "names_role n (token_name t @ TAB # ''#010203'') \<longleftrightarrow> n = token_name t" if "t \<in> set kPaletteTokens" for t n
    using sample_fields that by (auto simp: names_role_def list_all_iff)
  have "filter (names_role n) sample_palette_lines =
      map (\<lambda>t. token_name t @ TAB # ''#010203'') (filter (\<lambda>u. token_name u = n) kPaletteTokens)" for n
    unfolding sample_palette_lines_def filter_map using names by (intro arg_cong [where f = "map _"] filter_cong) auto
  moreover have "filter (\<lambda>u. token_name u = ''settings-icon'') kPaletteTokens = []"
    using token_names_no_icon by (auto simp: filter_empty_conv)
  moreover have "list_all palette_line_ok sample_palette_lines"
    using sample_fields token_names_no_icon
    by (auto simp: list_all_iff sample_palette_lines_def palette_line_ok_def sample_color)
  ultimately show ?thesis using sample_once by (simp add: palette_text_ok_def list_all_iff)
qed

theorem load_dashboard_palette_exact_witness:
  "fst (load_dashboard_palette ''/p'' (\<lambda>_. rgb 9 9 9) palette_world) = Inr ()"
proof -
  obtain r pal' w' where run: "load_dashboard_palette ''/p'' (\<lambda>_. rgb 9 9 9) palette_world = (r, pal', w')"
    by (cases "load_dashboard_palette ''/p'' (\<lambda>_. rgb 9 9 9) palette_world") auto
  have "schedule palette_world = []" by (simp add: palette_world_def)
  note exact = load_dashboard_palette_exact [OF run this]
  have "is_absolute_path ''/p''" by (simp add: is_absolute_path_def PATH_MAX_def)
  moreover have "file_content palette_world ''/p'' = Some (concat (map (\<lambda>l. l @ [NL]) sample_palette_lines))"
    by (simp add: file_content_def palette_world_def)
  ultimately show ?thesis
    using exact run sample_length sample_text_ok stream_lines_concat [OF sample_lines_clean] by auto
qed

end
