(* ===== verification/Menu_Covers.thy ===== *)
theory Menu_Covers
  imports Menu_Catalog Menu_State Menu_Palette
begin

section \<open>Cover images and the settings icon (\<open>src/deck_menu.cpp\<close>)\<close>

text \<open>
  The loaders of optional artwork: binary PPM covers, PNG covers scaled and quantised to the
  terminal palette, and the settings icon.  libpng is outside the sources: what its calls
  answer for a path is an argument (\<open>png_answers\<close>).  A loader that fails without a message, as
  for a missing file, is \<open>Inl None\<close>.
\<close>

definition kMaximumCoverWidth :: int where "kMaximumCoverWidth = 600"
definition kMaximumCoverHeight :: int where "kMaximumCoverHeight = 378"
definition kMaximumCoverBytes :: int where
  "kMaximumCoverBytes = 1024 + kMaximumCoverWidth * kMaximumCoverHeight * 3"
definition kMaximumPngCoverBytes :: nat where "kMaximumPngCoverBytes = 4 * 1024 * 1024"
definition kMaximumPngDimension :: nat where "kMaximumPngDimension = 2048"
definition kSettingsIconSize :: nat where "kSettingsIconSize = 23"

subsection \<open>PPM headers\<close>

function skip_comment :: "string \<Rightarrow> nat \<Rightarrow> nat" where
  "skip_comment bytes i = (if i < length bytes \<and> bytes ! i \<noteq> NL then skip_comment bytes (i + 1) else i)"
  by pat_completeness auto
termination by (relation "measure (\<lambda>(bytes, i). length bytes - i)") auto

declare skip_comment.simps [simp del]

lemma skip_comment_ge: "i \<le> skip_comment bytes i"
proof (induction bytes i rule: skip_comment.induct)
  case (1 bytes i)
  show ?case
  proof (cases "i < length bytes \<and> bytes ! i \<noteq> NL")
    case True
    then have "skip_comment bytes i = skip_comment bytes (i + 1)" by (subst skip_comment.simps) simp
    then show ?thesis using "1.IH" True by simp
  next
    case False
    then show ?thesis by (subst skip_comment.simps) (simp only: if_False order_refl)
  qed
qed

lemma skip_comment_hash: "i < length bytes \<Longrightarrow> bytes ! i = CHR ''#'' \<Longrightarrow> i < skip_comment bytes i"
proof -
  assume "i < length bytes" "bytes ! i = CHR ''#''"
  moreover have "CHR ''#'' \<noteq> NL" by code_simp
  ultimately have "skip_comment bytes i = skip_comment bytes (i + 1)" by (subst skip_comment.simps) simp
  then show ?thesis using skip_comment_ge [of "i + 1" bytes] by simp
qed

function skip_blank :: "string \<Rightarrow> nat \<Rightarrow> nat" where
  "skip_blank bytes i =
     (if i < length bytes
      then (if is_space (bytes ! i) then skip_blank bytes (i + 1)
            else if bytes ! i = CHR ''#'' then skip_blank bytes (skip_comment bytes i)
            else i)
      else i)"
  by pat_completeness auto
termination
  by (relation "measure (\<lambda>(bytes, i). length bytes - i)") (auto intro!: diff_less_mono2 dest: skip_comment_hash)

declare skip_blank.simps [simp del]

function token_end :: "string \<Rightarrow> nat \<Rightarrow> nat" where
  "token_end bytes i =
     (if i < length bytes \<and> \<not> is_space (bytes ! i) \<and> bytes ! i \<noteq> CHR ''#'' then token_end bytes (i + 1) else i)"
  by pat_completeness auto
termination by (relation "measure (\<lambda>(bytes, i). length bytes - i)") auto

declare token_end.simps [simp del]

text \<open>The token, if any, and the offset that the call leaves behind.\<close>

definition next_ppm_token :: "string \<Rightarrow> nat \<Rightarrow> string option \<times> nat" where
  "next_ppm_token bytes offset =
     (let start = skip_blank bytes offset; offset' = token_end bytes start
      in if offset' = start \<or> 32 < offset' - start then (None, offset')
         else (Some (substr bytes start (offset' - start)), offset'))"

fun parse_dimension_loop :: "string \<Rightarrow> int \<Rightarrow> int \<Rightarrow> int option" where
  "parse_dimension_loop [] maximum parsed = Some parsed"
| "parse_dimension_loop (c # cs) maximum parsed =
     (if \<not> is_digit c then None
      else
        (let parsed' = parsed * 10 + int (digit_value c)
         in if maximum < parsed' then None else parse_dimension_loop cs maximum parsed'))"

definition parse_positive_dimension :: "string \<Rightarrow> int \<Rightarrow> int option" where
  "parse_positive_dimension s maximum =
     (if s = [] then None
      else (case parse_dimension_loop s maximum 0 of
              None \<Rightarrow> None
            | Some parsed \<Rightarrow> if parsed < 1 \<or> decimal (nat parsed) \<noteq> s then None else Some parsed))"

text \<open>The header of a cover: width, height and the offset of the maximum's end.\<close>

definition ppm_header :: "string \<Rightarrow> (int \<times> int \<times> nat) option" where
  "ppm_header bytes =
     (case next_ppm_token bytes 0 of
        (Some magic, o1) \<Rightarrow>
          if magic \<noteq> ''P6'' then None
          else
            (case next_ppm_token bytes o1 of
               (Some width_text, o2) \<Rightarrow>
                 (case parse_positive_dimension width_text kMaximumCoverWidth of
                    None \<Rightarrow> None
                  | Some width \<Rightarrow>
                      (case next_ppm_token bytes o2 of
                         (Some height_text, o3) \<Rightarrow>
                           (case parse_positive_dimension height_text kMaximumCoverHeight of
                              None \<Rightarrow> None
                            | Some height \<Rightarrow>
                                (case next_ppm_token bytes o3 of
                                   (Some maximum_text, o4) \<Rightarrow>
                                     if maximum_text \<noteq> ''255'' \<or> length bytes \<le> o4 \<or> \<not> is_space (bytes ! o4)
                                     then None else Some (width, height, o4)
                                 | (None, o4) \<Rightarrow> None))
                       | (None, o3) \<Rightarrow> None))
             | (None, o2) \<Rightarrow> None)
      | (None, o1) \<Rightarrow> None)"

definition ppm_data_offset :: "string \<Rightarrow> nat \<Rightarrow> nat" where
  "ppm_data_offset bytes offset =
     (if byte_of (bytes ! offset) = 13 \<and> offset + 1 < length bytes \<and> bytes ! (offset + 1) = NL
      then offset + 2 else offset + 1)"

definition ppm_color :: "string \<Rightarrow> nat \<Rightarrow> RgbColor" where
  "ppm_color bytes source =
     rgb (word_of_nat (byte_of (bytes ! source))) (word_of_nat (byte_of (bytes ! (source + 1))))
       (word_of_nat (byte_of (bytes ! (source + 2))))"

fun ppm_pixels :: "string \<Rightarrow> nat \<Rightarrow> nat list \<Rightarrow> u16 list \<Rightarrow> u16 list option" where
  "ppm_pixels bytes offset [] acc = Some acc"
| "ppm_pixels bytes offset (p # ps) acc =
     (let c = ppm_color bytes (offset + p * 3)
      in if \<not> is_xterm_color c then None else ppm_pixels bytes offset ps (acc @ [color_pixel c]))"

definition decode_ppm :: "string \<Rightarrow> string \<Rightarrow> message + CoverImage" where
  "decode_ppm path bytes =
     (case ppm_header bytes of
        None \<Rightarrow> Inl (Msg (''cover has an invalid P6 PPM header: '' @ path))
      | Some (width, height, o4) \<Rightarrow>
          (let offset = ppm_data_offset bytes o4; pixel_count = nat (width * height)
           in if length bytes - offset \<noteq> pixel_count * 3
              then Inl (Msg (''cover PPM pixel data has the wrong size: '' @ path))
              else
                (case ppm_pixels bytes offset [0..<pixel_count] [] of
                   None \<Rightarrow> Inl (Msg (''cover contains a color outside xterm-256: '' @ path))
                 | Some ps \<Rightarrow> Inr \<lparr>cover_width = width, cover_height = height, pixels = ps\<rparr>)))"

definition load_ppm_cover_image :: "string \<Rightarrow> world \<Rightarrow> (message option + CoverImage) \<times> world" where
  "load_ppm_cover_image path w =
     (case sys_open path w of
        (None, w1) \<Rightarrow>
          (Inl (if last_errno w1 \<noteq> ENOENT then Some (errno_message (''cannot open cover '' @ path) w1) else None), w1)
      | (Some fd, w1) \<Rightarrow>
          (case sys_fstat fd w1 of
             (None, w2) \<Rightarrow>
               (Inl (Some (Msg (''cover must be a small regular PPM file: '' @ path))),
                (snd (sys_close fd w2))\<lparr>last_errno := last_errno w2\<rparr>)
           | (Some (is_regular, file_size), w2) \<Rightarrow>
               if \<not> is_regular \<or> file_size < 12 \<or> kMaximumCoverBytes < int file_size
               then (Inl (Some (Msg (''cover must be a small regular PPM file: '' @ path))),
                     (snd (sys_close fd w2))\<lparr>last_errno := last_errno w2\<rparr>)
               else
                 (let ((stop, bytes), w3) = read_loop fd file_size [] w2;
                      (closed, w4) = sys_close fd w3
                  in if length bytes \<noteq> file_size \<or> closed = None
                     then (Inl (Some (Errno_msg (''cannot read cover '' @ path) (last_errno w3))),
                           w4\<lparr>last_errno := last_errno w3\<rparr>)
                     else (case decode_ppm path bytes of
                             Inl m \<Rightarrow> (Inl (Some m), w4)
                           | Inr c \<Rightarrow> (Inr c, w4)))))"

subsection \<open>PNG covers\<close>

text \<open>The first of the 256 terminal colours with the least distance to a five-bit colour.\<close>

definition expand5 :: "nat \<Rightarrow> int" where
  "expand5 v = int (push_bit 3 v OR drop_bit 2 v)"

definition color_distance :: "int \<Rightarrow> int \<Rightarrow> int \<Rightarrow> RgbColor \<Rightarrow> int" where
  "color_distance r g b c =
     (let red_delta = r - uint (red c); green_delta = g - uint (green c); blue_delta = b - uint (blue c)
      in red_delta * red_delta + green_delta * green_delta + blue_delta * blue_delta)"

definition nearest_pixel :: "nat \<Rightarrow> nat \<Rightarrow> nat \<Rightarrow> u16" where
  "nearest_pixel red5 green5 blue5 =
     snd (foldl (\<lambda>(best_distance, best_pixel) index.
            (let candidate = xterm_color index;
                 d = color_distance (expand5 red5) (expand5 green5) (expand5 blue5) candidate
             in if d < best_distance then (d, color_pixel candidate) else (best_distance, best_pixel)))
       (int UINT_MAX, 0) [0..<256])"

definition xterm_quantization_table :: "u16 list" where
  "xterm_quantization_table =
     [nearest_pixel red5 green5 blue5. red5 \<leftarrow> [0..<32], green5 \<leftarrow> [0..<32], blue5 \<leftarrow> [0..<32]]"

text \<open>What libpng answers for a path: size, decoded RGBA bytes, and its message.\<close>

record png_answers =
  png_size :: "(nat \<times> nat) option"
  png_rgba :: "nat list option"
  png_message :: string

definition target_size :: "nat \<Rightarrow> nat \<Rightarrow> nat \<times> nat" where
  "target_size width height =
     (let mw = nat kMaximumCoverWidth; mh = nat kMaximumCoverHeight
      in if mw < width \<or> mh < height
         then (if height * mw < width * mh then (mw, max 1 (height * mw div width))
               else (max 1 (width * mh div height), mh))
         else (width, height))"

definition composite :: "nat \<Rightarrow> u32 \<Rightarrow> nat \<Rightarrow> nat" where
  "composite source background alpha = (source * alpha + unat background * (255 - alpha) + 127) div 255"

definition source_offset :: "nat \<Rightarrow> nat \<Rightarrow> nat \<Rightarrow> nat \<Rightarrow> nat \<Rightarrow> nat \<Rightarrow> nat" where
  "source_offset width height target_width target_height x y =
     (let source_y = y * height div target_height; source_x = x * width div target_width
      in (source_y * width + source_x) * 4)"

definition scaled_png_pixel :: "nat list \<Rightarrow> RgbColor \<Rightarrow> nat \<Rightarrow> u16" where
  "scaled_png_pixel source background offset =
     (let alpha = source ! (offset + 3);
          r = composite (source ! offset) (red background) alpha;
          g = composite (source ! (offset + 1)) (green background) alpha;
          b = composite (source ! (offset + 2)) (blue background) alpha
      in xterm_quantization_table ! (push_bit 10 (drop_bit 3 r) OR push_bit 5 (drop_bit 3 g) OR drop_bit 3 b))"

definition load_png_cover_image ::
  "string \<Rightarrow> RgbColor \<Rightarrow> png_answers \<Rightarrow> world \<Rightarrow> (message option + CoverImage) \<times> world" where
  "load_png_cover_image path background png w =
     (case sys_stat path w of
        (None, w1) \<Rightarrow>
          (Inl (if last_errno w1 \<noteq> ENOENT then Some (errno_message (''cannot stat cover '' @ path) w1) else None), w1)
      | (Some (is_regular, file_size), w1) \<Rightarrow>
          if \<not> is_regular \<or> file_size < 8 \<or> kMaximumPngCoverBytes < file_size
          then (Inl (Some (Msg (''cover must be a regular PNG no larger than 4 MiB: '' @ path))), w1)
          else
            (case png_size png of
               None \<Rightarrow> (Inl (Some (Msg (''cannot decode cover PNG '' @ path @ '': '' @ png_message png))), w1)
             | Some (width, height) \<Rightarrow>
                 if width < 1 \<or> height < 1 \<or> kMaximumPngDimension < width \<or> kMaximumPngDimension < height
                 then (Inl (Some (Msg (''cover PNG dimensions are outside 1..2048: '' @ path))), w1)
                 else
                   (case png_rgba png of
                      None \<Rightarrow> (Inl (Some (Msg (''cannot read cover PNG '' @ path @ '': '' @ png_message png))), w1)
                    | Some source \<Rightarrow>
                        (let (tw, th) = target_size width height
                         in (Inr \<lparr>cover_width = int tw, cover_height = int th,
                                  pixels = [scaled_png_pixel source background (source_offset width height tw th x y).
                                              y \<leftarrow> [0..<th], x \<leftarrow> [0..<tw]]\<rparr>, w1)))))"

subsection \<open>The settings icon\<close>

record SettingsIconImage =
  icon_size :: int
  icon_pixels :: "u16 list"
  icon_alpha :: "nat list"

definition cleared_icon :: SettingsIconImage where
  "cleared_icon = \<lparr>icon_size = 0, icon_pixels = [], icon_alpha = []\<rparr>"

definition icon_loaded :: "SettingsIconImage \<Rightarrow> bool" where
  "icon_loaded icon = (0 < icon_size icon \<and> int (length (icon_pixels icon)) = icon_size icon * icon_size icon \<and>
     length (icon_alpha icon) = length (icon_pixels icon))"

definition decode_icon :: "nat list \<Rightarrow> SettingsIconImage" where
  "decode_icon source =
     \<lparr>icon_size = int kSettingsIconSize,
      icon_pixels = map (\<lambda>p. color_pixel (rgb (word_of_nat (source ! (p * 4))) (word_of_nat (source ! (p * 4 + 1)))
                                         (word_of_nat (source ! (p * 4 + 2)))))
                      [0..<kSettingsIconSize * kSettingsIconSize],
      icon_alpha = map (\<lambda>p. source ! (p * 4 + 3)) [0..<kSettingsIconSize * kSettingsIconSize]\<rparr>"

text \<open>\<open>stream_ok\<close> is whether \<open>fdopen\<close> succeeds; \<open>fclose\<close> is the close of the descriptor.\<close>

definition load_settings_icon ::
  "string \<Rightarrow> bool \<Rightarrow> png_answers \<Rightarrow> world \<Rightarrow> (message + unit) \<times> SettingsIconImage \<times> world" where
  "load_settings_icon path stream_ok png w =
     (if \<not> is_absolute_path path then (Inl (Msg ''settings icon path must be absolute''), cleared_icon, w)
      else
        (case sys_open path w of
           (None, w1) \<Rightarrow> (Inl (errno_message (''cannot open settings icon '' @ path) w1), cleared_icon, w1)
         | (Some fd, w1) \<Rightarrow>
             (case sys_fstat fd w1 of
                (None, w2) \<Rightarrow>
                  (Inl (Msg (''settings icon must be a small regular PNG: '' @ path)), cleared_icon,
                   (snd (sys_close fd w2))\<lparr>last_errno := last_errno w2\<rparr>)
              | (Some (is_regular, file_size), w2) \<Rightarrow>
                  if \<not> is_regular \<or> file_size < 8 \<or> 65536 < file_size
                  then (Inl (Msg (''settings icon must be a small regular PNG: '' @ path)), cleared_icon,
                        (snd (sys_close fd w2))\<lparr>last_errno := last_errno w2\<rparr>)
                  else if \<not> stream_ok
                  then (Inl (errno_message (''cannot read settings icon '' @ path) w2), cleared_icon,
                        (snd (sys_close fd w2))\<lparr>last_errno := last_errno w2\<rparr>)
                  else
                    (case png_size png of
                       None \<Rightarrow> (Inl (Msg (''cannot decode settings icon '' @ path @ '': '' @ png_message png)),
                                cleared_icon, snd (sys_close fd w2))
                     | Some (width, height) \<Rightarrow>
                         if width \<noteq> kSettingsIconSize \<or> height \<noteq> kSettingsIconSize
                         then (Inl (Msg (''settings icon dimensions do not match the catalog: '' @ path)),
                               cleared_icon, snd (sys_close fd w2))
                         else
                           (case png_rgba png of
                              None \<Rightarrow> (Inl (Msg (''cannot read settings icon '' @ path @ '': '' @ png_message png)),
                                       cleared_icon, snd (sys_close fd w2))
                            | Some source \<Rightarrow>
                                (case sys_close fd w2 of
                                   (None, w3) \<Rightarrow> (Inl (errno_message (''cannot close settings icon '' @ path) w3),
                                                  cleared_icon, w3)
                                 | (Some _, w3) \<Rightarrow> (Inr (), decode_icon source, w3)))))))"

subsection \<open>All covers\<close>

text \<open>One game: the PNG, or the PPM when there is no PNG at all.\<close>

definition load_cover :: "string \<Rightarrow> (string \<Rightarrow> png_answers) \<Rightarrow> GameEntry \<Rightarrow> world \<Rightarrow> CoverImage option \<times> world" where
  "load_cover directory png g w =
     (let png_path = directory @ ''/'' @ game_id g @ ''.png'';
          ppm_path = directory @ ''/'' @ game_id g @ ''.ppm''
      in case load_png_cover_image png_path (color g) (png png_path) w of
           (Inr c, w1) \<Rightarrow> (Some c, w1)
         | (Inl (Some m), w1) \<Rightarrow> (None, w1)
         | (Inl None, w1) \<Rightarrow>
             (case load_ppm_cover_image ppm_path w1 of
                (Inr c, w2) \<Rightarrow> (Some c, w2)
              | (Inl m, w2) \<Rightarrow> (None, w2)))"

fun load_covers :: "string \<Rightarrow> (string \<Rightarrow> png_answers) \<Rightarrow> GameEntry list \<Rightarrow> world \<Rightarrow> nat \<times> GameEntry list \<times> world" where
  "load_covers directory png [] w = (0, [], w)"
| "load_covers directory png (g # gs) w =
     (let (c, w1) = load_cover directory png g w;
          (n, gs', w2) = load_covers directory png gs w1
      in case c of None \<Rightarrow> (n, g # gs', w2) | Some picture \<Rightarrow> (n + 1, g\<lparr>cover := picture\<rparr> # gs', w2))"

definition load_game_covers ::
  "string \<Rightarrow> (string \<Rightarrow> png_answers) \<Rightarrow> GameEntry list \<Rightarrow> world \<Rightarrow> nat \<times> GameEntry list \<times> world" where
  "load_game_covers directory png games w =
     (if \<not> is_absolute_path directory then (0, games, w) else load_covers directory png games w)"

section \<open>PNG covers\<close>

lemma nat_or_less: "x < 2 ^ n \<Longrightarrow> y < 2 ^ n \<Longrightarrow> x OR y < (2 :: nat) ^ n"
  by (metis take_bit_or take_bit_nat_eq_self_iff)

lemma target_size_bounds:
  assumes "1 \<le> w" "1 \<le> h" "target_size w h = (tw, th)"
  shows "1 \<le> tw \<and> tw \<le> 600 \<and> 1 \<le> th \<and> th \<le> 378 \<and> (w \<le> 600 \<and> h \<le> 378 \<longrightarrow> tw = w \<and> th = h)"
proof -
  have size: "target_size w h =
      (if 600 < w \<or> 378 < h then (if h * 600 < w * 378 then (600, max 1 (h * 600 div w)) else (max 1 (w * 378 div h), 378))
       else (w, h))"
    by (simp add: target_size_def kMaximumCoverWidth_def kMaximumCoverHeight_def Let_def)
  have "h * 600 < w * 378 \<Longrightarrow> h * 600 div w \<le> w * 378 div w" by (intro div_le_mono) simp
  moreover have "\<not> h * 600 < w * 378 \<Longrightarrow> w * 378 div h \<le> h * 600 div h" by (intro div_le_mono) simp
  ultimately show ?thesis using assms size by (auto split: if_splits)
qed

lemma scaled_coordinate: "x < t \<Longrightarrow> 0 < n \<Longrightarrow> x * (n :: nat) div t < n"
  by (rule less_mult_imp_div_less) simp

lemma source_offset_bound:
  assumes "x < tw" "y < th" "1 \<le> w" "1 \<le> h"
  shows "source_offset w h tw th x y + 3 < 4 * (w * h)"
proof -
  let ?x = "x * w div tw" and ?y = "y * h div th"
  have "?x < w" "?y < h" using scaled_coordinate assms by simp_all
  then have "(?y + 1) * w \<le> h * w" by (intro mult_right_mono) simp_all
  then have "?y * w + ?x < w * h" using \<open>?x < w\<close> by (simp add: mult.commute)
  then show ?thesis by (simp add: source_offset_def Let_def)
qed

lemma composite_byte:
  assumes "s < 256" "unat b < 256" "a < 256"
  shows "composite s b a < 256"
proof -
  have "s * a + unat b * (255 - a) \<le> 255 * a + 255 * (255 - a)"
    using assms by (intro add_mono mult_right_mono) auto
  also have "\<dots> = 255 * 255" using assms(3) by (simp flip: distrib_left)
  finally have "(s * a + unat b * (255 - a) + 127) div 255 \<le> (255 * 255 + 127) div 255" by (intro div_le_mono) simp
  then show ?thesis by (simp add: composite_def)
qed

lemma nearest_pixel_terminal: "\<exists>i<256. nearest_pixel r g b = color_pixel (xterm_color i)"
proof -
  let ?step = "\<lambda>(best_distance, best_pixel) index.
            (let candidate = xterm_color index;
                 d = color_distance (expand5 r) (expand5 g) (expand5 b) candidate
             in if d < best_distance then (d, color_pixel candidate) else (best_distance, best_pixel))"
  have inv: "\<exists>i<256. snd (foldl ?step acc is) = color_pixel (xterm_color i)"
    if "\<exists>i<256. snd acc = color_pixel (xterm_color i)" "list_all (\<lambda>i. i < 256) is" for acc "is"
    using that
  proof (induction "is" arbitrary: acc)
    case (Cons i "is")
    have "\<exists>j<256. snd (?step acc i) = color_pixel (xterm_color j)"
      using Cons.prems by (cases acc) (auto simp: Let_def)
    then show ?case using Cons.IH [of "?step acc i"] Cons.prems(2) by simp
  qed simp
  have "color_pixel (xterm_color 0) = 0" by code_simp
  then show ?thesis
    unfolding nearest_pixel_def by (intro inv) (auto simp: list_all_iff intro!: exI [of _ 0])
qed

lemma quantization_table:
  "length xterm_quantization_table = 32768" "v \<in> set xterm_quantization_table \<Longrightarrow> \<exists>i<256. v = color_pixel (xterm_color i)"
  using nearest_pixel_terminal
  by (auto simp: xterm_quantization_table_def length_concat comp_def sum_list_triv)

lemma scaled_png_pixel_terminal:
  assumes "list_all (\<lambda>v. v < 256) source" "offset + 3 < length source"
    "unat (red bg) < 256" "unat (green bg) < 256" "unat (blue bg) < 256"
  shows "\<exists>i<256. scaled_png_pixel source bg offset = color_pixel (xterm_color i)"
proof -
  have byte: "source ! (offset + k) < 256" if "k \<le> 3" for k
    using assms(1,2) that by (simp add: list_all_length)
  let ?a = "source ! (offset + 3)"
  let ?r = "composite (source ! offset) (red bg) ?a" and ?g = "composite (source ! (offset + 1)) (green bg) ?a"
    and ?b = "composite (source ! (offset + 2)) (blue bg) ?a"
  have c: "?r < 256" "?g < 256" "?b < 256"
    using composite_byte byte [of 0] byte [of 1] byte [of 2] byte [of 3] assms(3-5) by auto
  have "push_bit 10 (drop_bit 3 ?r) < (2 :: nat) ^ 15" "push_bit 5 (drop_bit 3 ?g) < (2 :: nat) ^ 15"
    "drop_bit 3 ?b < (2 :: nat) ^ 15"
    using c by (auto simp: push_bit_eq_mult drop_bit_eq_div less_mult_imp_div_less)
  then have "push_bit 10 (drop_bit 3 ?r) OR push_bit 5 (drop_bit 3 ?g) OR drop_bit 3 ?b < (2 :: nat) ^ 15"
    by (intro nat_or_less)
  then have "scaled_png_pixel source bg offset \<in> set xterm_quantization_table"
    unfolding scaled_png_pixel_def Let_def by (intro nth_mem) (simp add: quantization_table(1))
  then show ?thesis by (rule quantization_table(2))
qed

text \<open>
  A PNG cover that libpng decodes to \<open>width * height\<close> RGBA pixels is accepted at most 600 by
  378 large, unscaled when it already fits, with one pixel per position; each pixel is one of the
  256 terminal colours, and every byte the scaling reads lies inside the decoded image.
\<close>
theorem load_png_cover_bounds:
  assumes "load_png_cover_image path bg png w = (Inr c, w')"
    "png_rgba png = Some source" "png_size png = Some (width, height)" "length source = 4 * (width * height)"
    "list_all (\<lambda>v. v < 256) source" "unat (red bg) < 256" "unat (green bg) < 256" "unat (blue bg) < 256"
  shows "cover_available c \<and> cover_width c \<le> 600 \<and> cover_height c \<le> 378 \<and>
    (width \<le> 600 \<and> height \<le> 378 \<longrightarrow> cover_width c = int width \<and> cover_height c = int height) \<and>
    list_all (\<lambda>p. \<exists>i<256. p = color_pixel (xterm_color i)) (pixels c) \<and>
    (\<forall>x y. int x < cover_width c \<and> int y < cover_height c \<longrightarrow>
       source_offset width height (nat (cover_width c)) (nat (cover_height c)) x y + 3 < length source)"
proof -
  obtain tw th where size: "target_size width height = (tw, th)" by fastforce
  have c: "c = \<lparr>cover_width = int tw, cover_height = int th,
      pixels = [scaled_png_pixel source bg (source_offset width height tw th x y). y \<leftarrow> [0..<th], x \<leftarrow> [0..<tw]]\<rparr>"
    "1 \<le> width" "1 \<le> height"
    using assms(1-3) size
    by (auto simp: load_png_cover_image_def split: prod.splits option.splits if_splits)
  have count: "length (pixels c) = tw * th" by (simp add: c(1) length_concat comp_def sum_list_triv mult.commute)
  have "list_all (\<lambda>p. \<exists>i<256. p = color_pixel (xterm_color i)) (pixels c)"
    using scaled_png_pixel_terminal [OF assms(5) _ assms(6-8)] source_offset_bound [OF _ _ c(2,3)] assms(4)
    by (auto simp: c(1) list_all_iff)
  then show ?thesis
    using target_size_bounds [OF c(2,3) size] count source_offset_bound [OF _ _ c(2,3), of _ tw _ th] assms(4)
    by (simp add: cover_available_def c(1))
qed

theorem load_png_cover_bounds_witness:
  "\<exists>c. fst (load_png_cover_image ''/c.png'' (rgb 0 0 0)
      \<lparr>png_size = Some (1, 1), png_rgba = Some [255, 0, 0, 255], png_message = []\<rparr>
      \<lparr>names = [''/c.png'' \<mapsto> 0], inodes = (\<lambda>i. \<lparr>regular = True, content = replicate 100 CHR ''x''\<rparr>),
       next_inode = 1, fds = Map.empty, next_fd = 3, schedule = [], last_errno = EIO, pid = 1\<rparr>) = Inr c \<and>
    cover_available c \<and> cover_width c = 1"
proof -
  let ?png = "\<lparr>png_size = Some (1, 1), png_rgba = Some [255, 0, 0, 255], png_message = []\<rparr>"
  let ?w = "\<lparr>names = [''/c.png'' \<mapsto> 0], inodes = (\<lambda>i. \<lparr>regular = True, content = replicate 100 CHR ''x''\<rparr>),
       next_inode = 1, fds = Map.empty, next_fd = 3, schedule = [], last_errno = EIO, pid = 1\<rparr>"
  have "\<exists>c w'. load_png_cover_image ''/c.png'' (rgb 0 0 0) ?png ?w = (Inr c, w')"
    by (simp add: load_png_cover_image_def sys_stat_def next_outcome_def kMaximumPngCoverBytes_def
        kMaximumPngDimension_def split: prod.split)
  then obtain c w' where run: "load_png_cover_image ''/c.png'' (rgb 0 0 0) ?png ?w = (Inr c, w')" by blast
  from load_png_cover_bounds [OF run, of "[255, 0, 0, 255]" 1 1] run show ?thesis by (simp add: rgb_def)
qed

section \<open>PPM covers\<close>

definition token_char :: "char \<Rightarrow> bool" where
  "token_char c = (\<not> is_space c \<and> c \<noteq> CHR ''#'')"

lemma drop_Cons_nth: "drop i s = c # rest \<Longrightarrow> i < length s \<and> s ! i = c \<and> drop (i + 1) s = rest"
  by (metis Cons_nth_drop_Suc Suc_eq_plus1 drop_eq_Nil leI list.discI list.inject)

lemma token_end_run:
  "drop i bytes = t @ c # rest \<Longrightarrow> list_all token_char t \<Longrightarrow> is_space c \<Longrightarrow> token_end bytes i = i + length t"
proof (induction t arbitrary: i)
  case Nil
  then show ?case using drop_Cons_nth [of i bytes c rest] by (subst token_end.simps) simp
next
  case (Cons d t)
  then have d: "i < length bytes" "bytes ! i = d" "drop (i + 1) bytes = t @ c # rest"
    using drop_Cons_nth [of i bytes d "t @ c # rest"] by auto
  then have "token_end bytes i = token_end bytes (i + 1)"
    using Cons.prems(2) by (subst token_end.simps) (simp add: token_char_def)
  then show ?case using Cons.IH [OF d(3)] Cons.prems by simp
qed

lemma skip_blank_run:
  "drop i bytes = sp @ c # rest \<Longrightarrow> list_all is_space sp \<Longrightarrow> token_char c \<Longrightarrow> skip_blank bytes i = i + length sp"
proof (induction sp arbitrary: i)
  case Nil
  then show ?case
    using drop_Cons_nth [of i bytes c rest] by (subst skip_blank.simps) (simp add: token_char_def)
next
  case (Cons d sp)
  then have d: "i < length bytes" "bytes ! i = d" "drop (i + 1) bytes = sp @ c # rest"
    using drop_Cons_nth [of i bytes d "sp @ c # rest"] by auto
  then have "skip_blank bytes i = skip_blank bytes (i + 1)"
    using Cons.prems(2) by (subst skip_blank.simps) simp
  then show ?case using Cons.IH [OF d(3)] Cons.prems by simp
qed

lemma next_ppm_token_run:
  assumes "drop i bytes = sp @ t @ c # rest" "list_all is_space sp" "list_all token_char t" "t \<noteq> []"
    "length t \<le> 32" "is_space c"
  shows "next_ppm_token bytes i = (Some t, i + length sp + length t)" "drop (i + length sp + length t) bytes = c # rest"
proof -
  obtain a t' where t: "t = a # t'" using assms(4) by (cases t) auto
  have start: "skip_blank bytes i = i + length sp"
    using skip_blank_run [of i bytes sp a "t' @ c # rest"] assms t by simp
  have after: "drop (i + length sp) bytes = t @ c # rest"
    using assms(1) by (metis add.commute append_eq_conv_conj drop_drop)
  have stop: "token_end bytes (i + length sp) = i + length sp + length t"
    by (rule token_end_run [OF after assms(3,6)])
  show "next_ppm_token bytes i = (Some t, i + length sp + length t)"
    using start stop after assms(4,5) by (simp add: next_ppm_token_def Let_def substr_def)
  show "drop (i + length sp + length t) bytes = c # rest"
    using after by (metis add.commute append_eq_conv_conj drop_drop)
qed

lemma digit_token: "list_all is_digit s \<Longrightarrow> list_all token_char s"
  by (auto simp: list_all_iff token_char_def is_digit_def is_space_def byte_of_def)

lemma parse_dimension_loop_value:
  assumes "list_all is_digit s" "int (foldl (\<lambda>v c. v * 10 + digit_value c) p s) \<le> m"
  shows "parse_dimension_loop s m (int p) = Some (int (foldl (\<lambda>v c. v * 10 + digit_value c) p s))"
  using assms
proof (induction s arbitrary: p)
  case (Cons c s)
  let ?p = "p * 10 + digit_value c"
  have "?p \<le> foldl (\<lambda>v c. v * 10 + digit_value c) ?p s" by (rule foldl_digits_mono)
  then have "\<not> m < int ?p" using Cons.prems(2) by (simp del: of_nat_add of_nat_mult)
  then show ?case using Cons.IH [of ?p] Cons.prems by simp
qed simp

lemma parse_positive_dimension_decimal:
  assumes "1 \<le> n" "int n \<le> m"
  shows "parse_positive_dimension (decimal n) m = Some (int n)"
proof -
  have "foldl (\<lambda>v c. v * 10 + digit_value c) 0 (decimal n) = n"
    using decimal_value_decimal [of n] by (simp only: decimal_value_def)
  then show ?thesis
    using parse_dimension_loop_value [OF decimal_digits, of 0 n m] assms
    by (simp add: parse_positive_dimension_def)
qed

text \<open>The file that a cover is written as.\<close>

definition color_bytes :: "RgbColor \<Rightarrow> string" where
  "color_bytes c = [char_of (unat (red c)), char_of (unat (green c)), char_of (unat (blue c))]"

definition ppm_file :: "nat \<Rightarrow> nat \<Rightarrow> RgbColor list \<Rightarrow> string" where
  "ppm_file width height colors =
     ''P6'' @ NL # decimal width @ CHR '' '' # decimal height @ NL # ''255'' @ NL # concat (map color_bytes colors)"

lemma NL_space: "is_space NL" "is_space CHR '' ''"
  by code_simp+

lemma ppm_header_file:
  assumes "1 \<le> width" "width \<le> 600" "1 \<le> height" "height \<le> 378"
  shows "\<exists>offset. ppm_header (ppm_file width height colors) = Some (int width, int height, offset) \<and>
    drop offset (ppm_file width height colors) = NL # concat (map color_bytes colors) \<and> offset \<le> 14"
proof -
  let ?data = "NL # concat (map color_bytes colors)" and ?f = "ppm_file width height colors"
  have len: "length (decimal width) \<le> 3" "length (decimal height) \<le> 3"
    using assms by (auto intro!: length_decimal)
  have words: "list_all token_char ''P6''" "list_all token_char ''255''" by code_simp+
  have 1: "next_ppm_token ?f 0 = (Some ''P6'', 2)"
    "drop 2 ?f = NL # decimal width @ CHR '' '' # decimal height @ NL # ''255'' @ ?data"
    using next_ppm_token_run [of 0 ?f "[]" "''P6''" NL "decimal width @ CHR '' '' # decimal height @ NL # ''255'' @ ?data"]
      words NL_space by (simp_all add: ppm_file_def numeral_2_eq_2)
  let ?o2 = "2 + 1 + length (decimal width)"
  have 2: "next_ppm_token ?f 2 = (Some (decimal width), ?o2)"
    "drop ?o2 ?f = CHR '' '' # decimal height @ NL # ''255'' @ ?data"
    using next_ppm_token_run [of 2 ?f "[NL]" "decimal width" "CHR '' ''" "decimal height @ NL # ''255'' @ ?data"]
      1(2) len digit_token [OF decimal_digits] by (auto simp: NL_space)
  let ?o3 = "?o2 + 1 + length (decimal height)"
  have 3: "next_ppm_token ?f ?o2 = (Some (decimal height), ?o3)" "drop ?o3 ?f = NL # ''255'' @ ?data"
    using next_ppm_token_run [of ?o2 ?f "'' ''" "decimal height" NL "''255'' @ ?data"]
      2(2) len digit_token [OF decimal_digits] by (auto simp: NL_space)
  let ?o4 = "?o3 + 1 + 3"
  have 4: "next_ppm_token ?f ?o3 = (Some ''255'', ?o4)" "drop ?o4 ?f = ?data"
    using next_ppm_token_run [of ?o3 ?f "[NL]" "''255''" NL "concat (map color_bytes colors)"] 3(2)
      words(2) NL_space by (simp_all add: add.assoc)
  have last: "\<not> length ?f \<le> ?o4" "?f ! ?o4 = NL" using drop_Cons_nth [OF 4(2)] by auto
  have dims: "parse_positive_dimension (decimal width) kMaximumCoverWidth = Some (int width)"
    "parse_positive_dimension (decimal height) kMaximumCoverHeight = Some (int height)"
    using assms by (auto intro!: parse_positive_dimension_decimal simp: kMaximumCoverWidth_def kMaximumCoverHeight_def)
  have "ppm_header ?f = Some (int width, int height, ?o4)"
    by (simp only: ppm_header_def 1(1) 2(1) 3(1) 4(1) prod.case option.case dims last NL_space simp_thms if_False)
  moreover have "?o4 \<le> 14" using len by simp
  ultimately show ?thesis using 4(2) by blast
qed

lemma terminal_components:
  "unat (red (xterm_color i)) < 256 \<and> unat (green (xterm_color i)) < 256 \<and> unat (blue (xterm_color i)) < 256"
proof -
  consider "i < 16" | "16 \<le> i" "i < 232" | "232 \<le> i" "i < 256" | "256 \<le> i" by linarith
  then show ?thesis
  proof cases
    case 1
    then have "ansi_colors ! i \<in> set ansi_colors" by (intro nth_mem) (simp add: ansi_colors_def)
    then show ?thesis using 1 by (auto simp: xterm_color_def ansi_colors_def)
  next
    case 2
    have level: "unat (cube_levels ! k) < 256" if "k < 6" for k
    proof -
      have "cube_levels ! k \<in> set cube_levels" using that by (intro nth_mem) (simp add: cube_levels_def)
      then show ?thesis by (auto simp: cube_levels_def)
    qed
    show ?thesis using 2 level by (simp add: xterm_color_def Let_def less_mult_imp_div_less)
  next
    case 3
    then have "unat (word_of_nat (8 + (i - 232) * 10) :: u32) < 256"
      unfolding unat_of_nat take_bit_eq_mod by simp
    then show ?thesis using 3 unfolding xterm_color_def Let_def by simp
  qed (simp add: xterm_color_def)
qed

lemma is_xterm_components:
  assumes "is_xterm_color c"
  shows "unat (red c) < 256" "unat (green c) < 256" "unat (blue c) < 256"
proof -
  obtain i where "i < 256" "red (xterm_color i) = red c" "green (xterm_color i) = green c" "blue (xterm_color i) = blue c"
    using assms by (auto simp: is_xterm_color_def list_ex_iff Let_def)
  moreover have "unat (red (xterm_color i)) < 256 \<and> unat (green (xterm_color i)) < 256 \<and> unat (blue (xterm_color i)) < 256"
    by (rule terminal_components)
  ultimately show "unat (red c) < 256" "unat (green c) < 256" "unat (blue c) < 256" by simp_all
qed

lemma ppm_color_bytes:
  assumes "drop offset bytes = concat (map color_bytes colors)" "p < length colors" "list_all is_xterm_color colors"
  shows "ppm_color bytes (offset + p * 3) = colors ! p"
proof -
  have split: "drop (3 * p) (concat (map color_bytes colors)) = concat (map color_bytes (drop p colors))" for p
  proof (induction p arbitrary: colors)
    case (Suc p)
    then show ?case by (cases colors) (simp_all add: color_bytes_def numeral_3_eq_3)
  qed simp
  have "drop (offset + p * 3) bytes = concat (map color_bytes (drop p colors))"
    using assms(1) split [of p] by (metis add.commute drop_drop mult.commute)
  also have "drop p colors = colors ! p # drop (p + 1) colors"
    using assms(2) by (simp add: Cons_nth_drop_Suc)
  finally have d: "drop (offset + p * 3) bytes =
      color_bytes (colors ! p) @ concat (map color_bytes (drop (p + 1) colors))" by simp
  have at: "bytes ! (offset + p * 3 + k) = color_bytes (colors ! p) ! k" if "k < 3" for k
  proof -
    have "offset + p * 3 \<le> length bytes" using d by (rule contrapos_pp) (simp add: color_bytes_def)
    then have "bytes ! (offset + p * 3 + k) = drop (offset + p * 3) bytes ! k" by (rule nth_drop [symmetric])
    moreover have "length (color_bytes (colors ! p)) = 3" by (simp add: color_bytes_def)
    ultimately show ?thesis using that by (simp add: d nth_append)
  qed
  have "is_xterm_color (colors ! p)" using assms(2,3) by (simp add: list_all_length)
  note b = is_xterm_components [OF this]
  show ?thesis
    using at [of 0] at [of 1] at [of 2] b unfolding numeral_3_eq_3
    by (simp add: ppm_color_def rgb_def color_bytes_def numeral_2_eq_2)
qed

lemma ppm_pixels_map:
  "list_all (\<lambda>p. is_xterm_color (ppm_color bytes (offset + p * 3))) ps \<Longrightarrow>
    ppm_pixels bytes offset ps acc = Some (acc @ map (\<lambda>p. color_pixel (ppm_color bytes (offset + p * 3))) ps)"
  by (induction ps arbitrary: acc) (simp_all add: Let_def)

lemma decode_ppm_file:
  assumes "1 \<le> width" "width \<le> 600" "1 \<le> height" "height \<le> 378" "length colors = width * height"
    "list_all is_xterm_color colors"
  shows "decode_ppm path (ppm_file width height colors) =
    Inr \<lparr>cover_width = int width, cover_height = int height, pixels = map color_pixel colors\<rparr>"
proof -
  let ?f = "ppm_file width height colors"
  obtain o4 where o4: "ppm_header ?f = Some (int width, int height, o4)"
    "drop o4 ?f = NL # concat (map color_bytes colors)"
    using ppm_header_file [OF assms(1-4), of colors] by auto
  note at = drop_Cons_nth [OF o4(2)]
  have "byte_of NL = 10" by code_simp
  then have offset: "ppm_data_offset ?f o4 = o4 + 1" using at by (simp add: ppm_data_offset_def)
  have data: "drop (o4 + 1) ?f = concat (map color_bytes colors)" using at by simp
  have "length (concat (map color_bytes colors)) = length colors * 3"
    by (simp add: length_concat comp_def color_bytes_def sum_list_triv)
  then have len: "length ?f - (o4 + 1) = width * height * 3"
    using arg_cong [OF data, of length] assms(5) by simp
  have color: "ppm_color ?f (o4 + 1 + p * 3) = colors ! p" if "p < width * height" for p
    using ppm_color_bytes [OF data] that assms(5,6) by simp
  have "ppm_pixels ?f (o4 + 1) [0..<width * height] [] =
      Some (map (\<lambda>p. color_pixel (ppm_color ?f (o4 + 1 + p * 3))) [0..<width * height])"
    using ppm_pixels_map [of ?f "o4 + 1" "[0..<width * height]" "[]"] color assms(5,6) by (simp add: list_all_length)
  also have "map (\<lambda>p. color_pixel (ppm_color ?f (o4 + 1 + p * 3))) [0..<width * height] =
      map (\<lambda>p. color_pixel (colors ! p)) [0..<width * height]"
    using color by simp
  also have "\<dots> = map color_pixel colors" using assms(5) by (intro nth_equalityI) simp_all
  finally have "ppm_pixels ?f (o4 + 1) [0..<width * height] [] = Some (map color_pixel colors)" .
  moreover have "nat (int width * int height) = width * height" by (simp add: nat_mult_distrib)
  ultimately show ?thesis
    by (simp only: decode_ppm_def o4(1) offset len option.case prod.case Let_def simp_thms if_False)
qed

lemma ppm_file_size:
  assumes "1 \<le> width" "width \<le> 600" "1 \<le> height" "height \<le> 378" "length colors = width * height"
  shows "12 \<le> length (ppm_file width height colors)" "int (length (ppm_file width height colors)) \<le> kMaximumCoverBytes"
proof -
  have "length (decimal width) \<le> 3" "length (decimal height) \<le> 3" using assms by (auto intro!: length_decimal)
  moreover have "1 \<le> length (decimal width)" "1 \<le> length (decimal height)"
    by (simp_all add: Suc_le_eq)
  moreover have "length (ppm_file width height colors) =
      2 + 1 + length (decimal width) + 1 + length (decimal height) + 1 + 3 + 1 + length colors * 3"
    by (simp add: ppm_file_def length_concat comp_def color_bytes_def sum_list_triv)
  moreover have "1 * 1 \<le> length colors" "length colors \<le> 600 * 378"
    unfolding assms(5) using assms(1-4) by (intro mult_mono; simp)+
  ultimately have "12 \<le> length (ppm_file width height colors)" "length (ppm_file width height colors) \<le> 681424"
    by linarith+
  then show "12 \<le> length (ppm_file width height colors)"
    "int (length (ppm_file width height colors)) \<le> kMaximumCoverBytes"
    by (simp_all add: kMaximumCoverBytes_def kMaximumCoverWidth_def kMaximumCoverHeight_def)
qed

lemma read_loop_idle:
  assumes "schedule w = []" "fds w fd = Some (i, 0)" "content (inodes w i) \<noteq> []"
  shows "\<exists>w'. read_loop fd (length (content (inodes w i))) [] w = ((Buffer_full, content (inodes w i)), w') \<and>
    schedule w' = [] \<and> fds w' fd \<noteq> None"
proof -
  let ?c = "content (inodes w i)" and ?w' = "w\<lparr>fds := (fds w)(fd \<mapsto> (i, length (content (inodes w i))))\<rparr>"
  have rd: "sys_read fd (length ?c) w = (Some ?c, ?w')"
    using assms(1,2) by (simp add: sys_read_def next_outcome_def Let_def)
  have "read_loop fd (length ?c) [] w = read_loop fd (length ?c) ?c ?w'"
    using assms(3) rd by (subst read_loop.simps) simp
  also have "\<dots> = ((Buffer_full, ?c), ?w')" by (subst read_loop.simps) simp
  finally show ?thesis using assms(1) by auto
qed

text \<open>
  A PPM cover of at most 600 by 378 pixels whose colours are all terminal colours, written
  in the canonical header form, loads to exactly its size and pixels when the file can be read.
\<close>
theorem ppm_cover_round_trip:
  assumes "1 \<le> width" "width \<le> 600" "1 \<le> height" "height \<le> 378" "length colors = width * height"
    "list_all is_xterm_color colors" "file_content w path = Some (ppm_file width height colors)" "schedule w = []"
  shows "fst (load_ppm_cover_image path w) =
    Inr \<lparr>cover_width = int width, cover_height = int height, pixels = map color_pixel colors\<rparr>"
proof -
  let ?f = "ppm_file width height colors"
  obtain i where i: "names w path = Some i" "regular (inodes w i)" "content (inodes w i) = ?f"
    using assms(7) by (auto simp: file_content_def split: option.splits if_splits)
  define fd where "fd = next_fd w"
  define w1 where "w1 = w\<lparr>fds := (fds w)(fd \<mapsto> (i, 0)), next_fd := fd + 1\<rparr>"
  have w1: "schedule w1 = []" "fds w1 fd = Some (i, 0)" "inodes w1 = inodes w"
    using assms(8) by (simp_all add: w1_def)
  have op: "sys_open path w = (Some fd, w1)"
    using assms(8) i(1) by (simp add: sys_open_def next_outcome_def open_inode_def w1_def fd_def)
  have st: "sys_fstat fd w1 = (Some (True, length ?f), w1)"
    using w1 i by (simp add: sys_fstat_def next_outcome_def)
  have ne: "content (inodes w1 i) \<noteq> []" using i(3) w1(3) by (simp add: ppm_file_def)
  obtain w2 where rd: "read_loop fd (length ?f) [] w1 = ((Buffer_full, ?f), w2)" "schedule w2 = []" "fds w2 fd \<noteq> None"
    using read_loop_idle [OF w1(1,2) ne] i(3) w1(3) by auto
  obtain w3 where cl: "sys_close fd w2 = (Some (), w3)"
    using rd(2,3) by (cases "fds w2 fd") (simp_all add: sys_close_def next_outcome_def)
  have small: "\<not> length ?f < 12" "\<not> kMaximumCoverBytes < int (length ?f)"
    using ppm_file_size [OF assms(1-5)] by simp_all
  show ?thesis
    by (simp only: load_ppm_cover_image_def op st rd(1) cl small decode_ppm_file [OF assms(1-6)]
        prod.case option.case sum.case Let_def simp_thms if_False fst_conv option.distinct)
qed

theorem ppm_cover_round_trip_witness:
  "fst (load_ppm_cover_image ''/c.ppm''
      \<lparr>names = [''/c.ppm'' \<mapsto> 0],
       inodes = (\<lambda>i. \<lparr>regular = True, content = ppm_file 2 1 [rgb 255 0 0, rgb 0 95 135]\<rparr>),
       next_inode = 1, fds = Map.empty, next_fd = 3, schedule = [], last_errno = EIO, pid = 1\<rparr>) =
    Inr \<lparr>cover_width = 2, cover_height = 1, pixels = map color_pixel [rgb 255 0 0, rgb 0 95 135]\<rparr>"
proof -
  have "list_all is_xterm_color [rgb 255 0 0, rgb 0 95 135]" by code_simp
  from ppm_cover_round_trip [OF _ _ _ _ _ this, of 2 1] show ?thesis
    by (simp add: file_content_def)
qed

end
