(* ===== verification/Menu_Network.thy ===== *)
theory Menu_Network
  imports Menu_Text Posix_World
begin

section \<open>Network status (\<open>src/menu_network.cpp\<close>)\<close>

text \<open>
  What the settings screens show about the network.  The answers of \<open>getifaddrs\<close>,
  \<open>inet_ntop\<close> and the wireless \<open>ioctl\<close> are arguments; the selector's status line is read
  from a file of the world.
\<close>

record NetworkStatus =
  ns_ssid :: string
  wlan_ipv4 :: string
  wireguard_ipv4 :: string
  selector :: string

text \<open>
  An entry of the address list: its name and address when the pointers are not null; the address
  is its family test together with the text \<open>inet_ntop\<close> gives.
\<close>

record interface_entry =
  ifa_name :: "string option"
  ifa_addr :: "(bool \<times> string option) option"

fun first_ipv4 :: "string \<Rightarrow> interface_entry list \<Rightarrow> string" where
  "first_ipv4 interface_name [] = []"
| "first_ipv4 interface_name (e # es) =
     (case (ifa_addr e, ifa_name e) of
        (Some (is_inet, printed), Some n) \<Rightarrow>
          if n \<noteq> interface_name \<or> \<not> is_inet then first_ipv4 interface_name es
          else (case printed of Some s \<Rightarrow> s | None \<Rightarrow> first_ipv4 interface_name es)
      | _ \<Rightarrow> first_ipv4 interface_name es)"

definition interface_ipv4 :: "string \<Rightarrow> interface_entry list option \<Rightarrow> string" where
  "interface_ipv4 interface_name addresses =
     (if interface_name = [] then []
      else (case addresses of None \<Rightarrow> [] | Some es \<Rightarrow> first_ipv4 interface_name es))"

definition IW_ESSID_MAX_SIZE :: nat where "IW_ESSID_MAX_SIZE = 32"

definition strip_nuls :: "string \<Rightarrow> string" where
  "strip_nuls s = rev (dropWhile (\<lambda>c. byte_of c = 0) (rev s))"

text \<open>The answer of \<open>SIOCGIWESSID\<close> is the filled buffer and the length, \<open>None\<close> when a call failed.\<close>

definition wireless_ssid :: "string \<Rightarrow> (string \<times> nat) option \<Rightarrow> string" where
  "wireless_ssid interface_name answer =
     (if interface_name = [] then []
      else
        (case answer of
           None \<Rightarrow> []
         | Some (buffer, len) \<Rightarrow>
             (let ssid = strip_nuls (take (min len IW_ESSID_MAX_SIZE) buffer)
              in if valid_utf8_text ssid 32 True then display_ascii ssid else ''?'')))"

definition read_wifi_selector_status :: "string \<Rightarrow> world \<Rightarrow> string \<times> world" where
  "read_wifi_selector_status path w =
     (if \<not> is_absolute_path path then (''STATUS UNAVAILABLE'', w)
      else
        (case sys_stat path w of
           (None, w1) \<Rightarrow> (''STATUS UNAVAILABLE'', w1)
         | (Some (is_regular, file_size), w1) \<Rightarrow>
             if \<not> is_regular \<or> file_size < 1 \<or> 128 < file_size then (''STATUS UNAVAILABLE'', w1)
             else
               (case stream_read path w1 of
                  (None, w2) \<Rightarrow> (''STATUS UNAVAILABLE'', w2)
                | (Some input, w2) \<Rightarrow>
                    (case stream_lines input of
                       [] \<Rightarrow> (''STATUS UNAVAILABLE'', w2)
                     | raw # _ \<Rightarrow>
                         (let line = (if raw \<noteq> [] \<and> byte_of (raw ! (length raw - 1)) = 13
                                      then take (length raw - 1) raw else raw)
                          in if trim_ascii_space line \<noteq> line \<or> \<not> valid_utf8_text line 64 False
                             then (''STATUS INVALID'', w2) else (display_ascii line, w2))))))"

text \<open>The kernel's answers to one reading of the status.\<close>

record network_answers =
  ssid_answer :: "(string \<times> nat) option"
  wlan_addresses :: "interface_entry list option"
  wireguard_addresses :: "interface_entry list option"

definition read_network_status :: "network_answers \<Rightarrow> string \<Rightarrow> world \<Rightarrow> NetworkStatus \<times> world" where
  "read_network_status a selector_status_path w =
     (let (line, w1) = read_wifi_selector_status selector_status_path w
      in (\<lparr>ns_ssid = wireless_ssid ''wlan0'' (ssid_answer a),
           wlan_ipv4 = interface_ipv4 ''wlan0'' (wlan_addresses a),
           wireguard_ipv4 = interface_ipv4 ''wg0'' (wireguard_addresses a),
           selector = line\<rparr>, w1))"

section \<open>What the status can contain\<close>

lemma valid_utf8_display_length:
  assumes "valid_utf8_text s n allow_empty"
  shows "length (display_ascii s) \<le> n"
proof (cases "s = []")
  case True
  then show ?thesis by (simp add: display_ascii_def display_ascii_from.simps)
next
  case False
  then obtain cps where "s = concat (map utf8_encode cps)" "length cps \<le> n" "list_all text_scalar cps"
    using assms valid_utf8_text_nonempty [of s n allow_empty] by auto
  then show ?thesis using display_ascii_concat [of 0 s cps] by (simp add: display_ascii_def)
qed

lemma wireless_ssid_length: "length (wireless_ssid n a) \<le> 32"
  using valid_utf8_display_length by (auto simp: wireless_ssid_def Let_def split: option.splits)

lemma selector_status_length: "length (fst (read_wifi_selector_status path w)) \<le> 64"
  using valid_utf8_display_length [of _ 64 False]
  by (auto simp: read_wifi_selector_status_def Let_def split: option.splits list.splits prod.splits)

lemma next_outcome_reads_only: "next_outcome w = (x, w1) \<Longrightarrow> reads_only w w1"
  using next_outcome_frame [of w x w1] by (auto simp: reads_only_def)

lemma stat_reads_only: "sys_stat path w = (r, w1) \<Longrightarrow> reads_only w w1"
  using next_outcome_reads_only [of w]
  by (cases "next_outcome w") (auto simp: sys_stat_def fail_def split: outcome.splits option.splits)

lemma stream_reads_only: "stream_read path w = (r, w1) \<Longrightarrow> reads_only w w1"
  using next_outcome_reads_only [of w]
  by (cases "next_outcome w") (auto simp: stream_read_def fail_def split: outcome.splits option.splits)

lemma selector_status_reads_only: "reads_only w (snd (read_wifi_selector_status path w))"
proof -
  obtain r w1 where 1: "sys_stat path w = (r, w1)" by fastforce
  obtain s w2 where 2: "stream_read path w1 = (s, w2)" by fastforce
  have "reads_only w w1" "reads_only w w2"
    using stat_reads_only [OF 1] stream_reads_only [OF 2] reads_only_trans by blast+
  then show ?thesis
    using 1 2 by (simp add: read_wifi_selector_status_def Let_def split: option.split list.split prod.split)
qed

lemma network_status_reads_only: "reads_only w (snd (read_network_status a path w))"
  using selector_status_reads_only [of w path]
  by (cases "read_wifi_selector_status path w") (simp add: read_network_status_def)

end
