(* ===== verification/Menu_Screens.thy ===== *)
theory Menu_Screens
  imports Menu_Credits Menu_Covers Menu_Network
begin

section \<open>The dashboard's screens (\<open>src/deck_menu.cpp\<close>)\<close>

text \<open>
  The three screens the dashboard draws itself: the game menu, the settings and the Wi-Fi
  editor.  A screen is its layout, the rectangles that later turn a touch into a target, and
  its drawing, which is \<open>None\<close> where the source would evaluate undefined behaviour.
\<close>

definition kGameTitleScale :: int where "kGameTitleScale = 2"
definition kPixelStroke :: int where "kPixelStroke = 4"
definition kTerminalLoginShell :: string where "kTerminalLoginShell = ''/BIN/ASH''"

subsection \<open>Shapes\<close>

definition draw_pixel_panel :: "Canvas \<Rightarrow> Rect \<Rightarrow> u16 \<Rightarrow> u16 \<Rightarrow> int \<Rightarrow> Canvas option" where
  "draw_pixel_panel canvas r fill border thickness =
     draw_seq
       [\<lambda>canvas. fill_pixel_cut_rect canvas r thickness border,
        \<lambda>canvas. fill_pixel_cut_rect canvas
          (Rect (rect_x r + thickness) (rect_y r + thickness) (rect_width r - thickness * 2)
            (rect_height r - thickness * 2)) thickness fill] canvas"

text \<open>An unchecked store to the canvas.\<close>

definition put_pixel :: "Canvas \<Rightarrow> int \<Rightarrow> u16 \<Rightarrow> Canvas option" where
  "put_pixel canvas i v = (if 0 \<le> i \<and> i < int (length canvas) then Some (canvas[nat i := v]) else None)"

fun put_pixels :: "(int \<times> u16) list \<Rightarrow> Canvas \<Rightarrow> Canvas option" where
  "put_pixels [] canvas = Some canvas"
| "put_pixels ((i, v) # ps) canvas =
     (case put_pixel canvas i v of None \<Rightarrow> None | Some canvas' \<Rightarrow> put_pixels ps canvas')"

text \<open>The largest centred square of the cover, sampled to the bounds.\<close>

definition cover_source :: "CoverImage \<Rightarrow> Rect \<Rightarrow> int \<Rightarrow> int \<Rightarrow> int" where
  "cover_source c bounds x y =
     (let source_size = min (cover_width c) (cover_height c);
          source_left = (cover_width c - source_size) sdiv 2;
          source_top = (cover_height c - source_size) sdiv 2;
          row_y = source_top + y * source_size sdiv rect_height bounds;
          col_x = source_left + x * source_size sdiv rect_width bounds
      in row_y * cover_width c + col_x)"

definition draw_cover_square :: "Canvas \<Rightarrow> Rect \<Rightarrow> CoverImage \<Rightarrow> Canvas option" where
  "draw_cover_square canvas bounds c =
     (if \<not> cover_available c \<or> rect_width bounds < 1 \<or> rect_height bounds < 1 then Some canvas
      else
        (let cells = [(x, y). y \<leftarrow> [0..rect_height bounds - 1], x \<leftarrow> [0..rect_width bounds - 1]]
         in if list_all (\<lambda>(x, y). 0 \<le> cover_source c bounds x y \<and>
                  cover_source c bounds x y < int (length (pixels c))) cells
            then put_pixels (map (\<lambda>(x, y). ((rect_y bounds + y) * kLogicalWidth + rect_x bounds + x,
                                           pixels c ! nat (cover_source c bounds x y))) cells) canvas
            else None))"

definition terminal_screen :: "Rect \<Rightarrow> Rect" where
  "terminal_screen button =
     Rect (rect_x button + (rect_width button - 46) sdiv 2) (rect_y button + (rect_height button - 44) sdiv 2) 46 34"

definition draw_terminal_icon :: "Canvas \<Rightarrow> Rect \<Rightarrow> u16 \<Rightarrow> Canvas option" where
  "draw_terminal_icon canvas button c =
     (let icon_top = rect_y button + (rect_height button - 44) sdiv 2; screen = terminal_screen button
      in draw_seq
           [\<lambda>canvas. stroke_rect canvas screen 3 c,
            fill_all fill_rect
              [(Rect (rect_x button + rect_width button sdiv 2 - 3) (icon_top + 34) 6 7, c),
               (Rect (rect_x button + 24) (icon_top + 41) (rect_width button - 48) 3, c)],
            \<lambda>canvas. draw_text canvas (rect_x screen + 7) (rect_y screen + 9) ''>_'' 2 c] canvas)"

datatype ArrowDirection = ArrowUp | ArrowDown | ArrowLeft | ArrowRight

definition draw_wifi_icon :: "Canvas \<Rightarrow> Rect \<Rightarrow> u16 \<Rightarrow> Canvas option" where
  "draw_wifi_icon canvas button c =
     (let center_x = rect_x button + rect_width button sdiv 2; upper = rect_y button + 5
      in fill_all fill_rect
           [(Rect (center_x - 6) upper 12 5, c), (Rect (center_x - 12) (upper + 5) 6 5, c),
            (Rect (center_x + 6) (upper + 5) 6 5, c), (Rect (center_x - 18) (upper + 10) 6 5, c),
            (Rect (center_x + 12) (upper + 10) 6 5, c), (Rect (center_x - 6) (upper + 22) 12 5, c),
            (Rect (center_x - 12) (upper + 27) 6 5, c), (Rect (center_x + 6) (upper + 27) 6 5, c),
            (Rect (center_x - 3) (upper + 36) 6 6, c)] canvas)"

definition arrow_blocks :: "(int \<times> int \<times> int \<times> int) list" where
  "arrow_blocks =
     [(28, -2, 4, 4), (24, -6, 4, 4), (20, -10, 4, 4), (16, -14, 4, 4), (12, -18, 4, 4), (8, -22, 4, 10),
      (-28, -12, 36, 4), (-28, -8, 4, 16), (-28, 8, 36, 4), (8, 12, 4, 10), (12, 14, 4, 4),
      (16, 10, 4, 4), (20, 6, 4, 4), (24, 2, 4, 4)]"

definition draw_outline_arrow :: "Canvas \<Rightarrow> Rect \<Rightarrow> ArrowDirection \<Rightarrow> u16 \<Rightarrow> Canvas option" where
  "draw_outline_arrow canvas bounds direction c =
     (let center_x = rect_x bounds + rect_width bounds sdiv 2;
          center_y = rect_y bounds + rect_height bounds sdiv 2
      in fill_all fill_rect
           (map (\<lambda>(x, y, w, h). (Rect (if direction = ArrowLeft then center_x - x - w else center_x + x) (center_y + y) w h, c))
             arrow_blocks) canvas)"

definition blend_rgb565_255 :: "u16 \<Rightarrow> u16 \<Rightarrow> nat \<Rightarrow> u16" where
  "blend_rgb565_255 foreground background alpha =
     (let channel = \<lambda>k m. (unat (drop_bit k foreground AND m) * alpha + unat (drop_bit k background AND m) * (255 - alpha) + 127) div 255
      in word_of_nat (push_bit 11 (channel 11 0x1f) OR push_bit 5 (channel 5 0x3f) OR channel 0 0x1f))"

definition kSettingsIconFallback :: "string list" where
  "kSettingsIconFallback =
     [''..........000..........'', ''.........03320.........'',
      ''...000...03220...000...'', ''..0333000222220003220..'',
      ''..0322222222222232220..'', ''..0322222222222222210..'',
      ''...03222100000222210...'', ''...0222100.1.0022220...'',
      ''...022100..1..002220...'', ''.0022200...1...0022200.'',
      ''0332220...010...0222220'', ''03222201111011110222220'',
      ''0222220...010...0222210'', ''.0022200...1...0022200.'',
      ''...022200..1..003220...'', ''...0222200.1.0032220...'',
      ''...03222200000322220...'', ''..0322222222222222220..'',
      ''..0222222222222222220..'', ''..0221000222220003110..'',
      ''...000...02220...000...'', ''.........02210.........'',
      ''..........000..........'']"

definition fallback_colors :: "u16 list" where
  "fallback_colors = map color_pixel [rgb 0 0 0, rgb 46 46 46, rgb 114 114 114, rgb 160 160 160]"

text \<open>Alpha and colour of the icon at a source position; both tables are read unchecked.\<close>

definition icon_sample :: "SettingsIconImage \<Rightarrow> int \<Rightarrow> int \<Rightarrow> nat \<times> u16" where
  "icon_sample icon col_x row_y =
     (if icon_loaded icon
      then (icon_alpha icon ! nat (row_y * int kSettingsIconSize + col_x),
            icon_pixels icon ! nat (row_y * int kSettingsIconSize + col_x))
      else (let shade = kSettingsIconFallback ! nat row_y ! nat col_x
            in if shade \<noteq> CHR ''.'' then (255, fallback_colors ! (byte_of shade - 48)) else (0, 0)))"

fun draw_icon_cells :: "SettingsIconImage \<Rightarrow> int \<Rightarrow> int \<Rightarrow> int \<Rightarrow> (int \<times> int) list \<Rightarrow> Canvas \<Rightarrow> Canvas option" where
  "draw_icon_cells icon left upper extent [] canvas = Some canvas"
| "draw_icon_cells icon left upper extent ((x, y) # cells) canvas =
     (let (alpha, foreground) = icon_sample icon (x * int kSettingsIconSize sdiv extent) (y * int kSettingsIconSize sdiv extent);
          i = (upper + y) * kLogicalWidth + left + x
      in if alpha = 0 then draw_icon_cells icon left upper extent cells canvas
         else if 0 \<le> i \<and> i < int (length canvas)
         then draw_icon_cells icon left upper extent cells
                (canvas[nat i := (if alpha = 255 then foreground
                                  else blend_rgb565_255 foreground (canvas ! nat i) alpha)])
         else None)"

definition draw_settings_icon :: "SettingsIconImage \<Rightarrow> Canvas \<Rightarrow> Rect \<Rightarrow> Canvas option" where
  "draw_settings_icon icon canvas bounds =
     (let target_size = max 1 (min 50 (min (rect_width bounds) (rect_height bounds)));
          left = rect_x bounds + (rect_width bounds - target_size) sdiv 2;
          upper = rect_y bounds + (rect_height bounds - target_size) sdiv 2
      in draw_icon_cells icon left upper target_size [(x, y). y \<leftarrow> [0..target_size - 1], x \<leftarrow> [0..target_size - 1]] canvas)"

definition draw_close_icon :: "Canvas \<Rightarrow> Rect \<Rightarrow> u16 \<Rightarrow> Canvas option" where
  "draw_close_icon canvas bounds c =
     (let center_x = rect_x bounds + rect_width bounds sdiv 2;
          center_y = rect_y bounds + rect_height bounds sdiv 2
      in fill_all fill_rect
           (concat (map (\<lambda>offset. [(Rect (center_x + offset) (center_y + offset) 4 4, c),
                                   (Rect (center_x + offset) (center_y - offset) 4 4, c)])
             [-16, -12, -8, -4, 0, 4, 8, 12, 16])) canvas)"

definition draw_speaker_icon :: "Canvas \<Rightarrow> Rect \<Rightarrow> bool \<Rightarrow> u16 \<Rightarrow> Canvas option" where
  "draw_speaker_icon canvas bounds loud c =
     (let x = rect_x bounds + 24; y = rect_y bounds + rect_height bounds sdiv 2
      in fill_all fill_rect
           ([(Rect x (y - 12) 12 24, c), (Rect (x + 12) (y - 20) 12 40, c), (Rect (x + 24) (y - 28) 8 56, c),
             (Rect (x + 40) (y - 16) 4 32, c), (Rect (x + 44) (y - 12) 4 24, c)] @
            (if loud then [(Rect (x + 56) (y - 24) 4 48, c), (Rect (x + 60) (y - 16) 4 32, c)] else [])) canvas)"

definition draw_sun_icon :: "Canvas \<Rightarrow> Rect \<Rightarrow> bool \<Rightarrow> u16 \<Rightarrow> Canvas option" where
  "draw_sun_icon canvas bounds bright c =
     (let center_x = rect_x bounds + rect_width bounds sdiv 2;
          center_y = rect_y bounds + rect_height bounds sdiv 2;
          half = (if bright then 16 else 12); reach = (if bright then 34 else 28)
      in draw_seq
           [\<lambda>canvas. fill_pixel_cut_rect canvas (Rect (center_x - half) (center_y - half) (half * 2) (half * 2)) 4 c,
            fill_all fill_rect
              ([(Rect (center_x - 3) (center_y - reach) 6 10, c), (Rect (center_x - 3) (center_y + reach - 10) 6 10, c),
                (Rect (center_x - reach) (center_y - 3) 10 6, c), (Rect (center_x + reach - 10) (center_y - 3) 10 6, c)] @
               (if bright
                then [(Rect (center_x - 25) (center_y - 25) 7 7, c), (Rect (center_x + 18) (center_y - 25) 7 7, c),
                      (Rect (center_x - 25) (center_y + 18) 7 7, c), (Rect (center_x + 18) (center_y + 18) 7 7, c)]
                else []))] canvas)"

definition draw_compact_power_icon :: "Canvas \<Rightarrow> Rect \<Rightarrow> u16 \<Rightarrow> Canvas option" where
  "draw_compact_power_icon canvas bounds c =
     (let center_x = rect_x bounds + rect_width bounds sdiv 2;
          center_y = rect_y bounds + rect_height bounds sdiv 2
      in fill_all fill_rect
           [(Rect (center_x - 5) (center_y - 58) 10 54, c), (Rect (center_x - 48) (center_y - 34) 22 8, c),
            (Rect (center_x + 26) (center_y - 34) 22 8, c), (Rect (center_x - 58) (center_y - 26) 8 54, c),
            (Rect (center_x + 50) (center_y - 26) 8 54, c), (Rect (center_x - 48) (center_y + 28) 16 8, c),
            (Rect (center_x + 32) (center_y + 28) 16 8, c), (Rect (center_x - 32) (center_y + 36) 64 8, c)] canvas)"

subsection \<open>Game cards\<close>

text \<open>The drawing of a built-in application, when the entry is one.\<close>

definition draw_compact_deck_logo :: "palette \<Rightarrow> Rect \<Rightarrow> GameEntry \<Rightarrow> (Canvas \<Rightarrow> Canvas option) option" where
  "draw_compact_deck_logo pal bounds game =
     (let accent = color_pixel (color game);
          x = rect_x bounds; y = rect_y bounds; w = rect_width bounds; h = rect_height bounds
      in if system game \<noteq> ''deck'' then None
         else if game_id game = ''ten-seconds''
         then Some (\<lambda>canvas. draw_centered_text canvas bounds ''10.00'' 5 accent)
         else if is_built_in_lua game
         then Some (draw_seq
           [\<lambda>canvas. draw_pixel_panel canvas (Rect (x + 24) (y + 46) (w - 48) (h - 92)) (color_pixel (pal kColorBackground)) accent 4,
            \<lambda>canvas. draw_centered_text canvas bounds ''LUA>'' 4 accent])
         else if is_built_in_lisp game
         then Some (\<lambda>canvas. draw_centered_text canvas bounds ''(LISP)'' 4 accent)
         else if is_built_in_python game
         then Some (draw_seq
           [\<lambda>canvas. draw_centered_text canvas bounds ''>>>'' 6 accent,
            \<lambda>canvas. fill_rect canvas (Rect (x + w sdiv 2 - 54) (y + h sdiv 2 + 34) 108 6) accent])
         else if is_built_in_scheme game
         then Some (draw_seq
           [\<lambda>canvas. draw_centered_text canvas bounds ''(SCHEME)'' 3 accent,
            \<lambda>canvas. fill_rect canvas (Rect (x + w sdiv 2 - 34) (y + h sdiv 2 + 30) 68 5) accent])
         else if is_built_in_chiptune game
         then Some (fill_all fill_rect
           (map (\<lambda>(index, height). (Rect (x + w sdiv 2 - 86 + index * 20) (y + h sdiv 2 - height sdiv 2) 10 height, accent))
             (zip [0..8] [34, 62, 92, 48, 112, 74, 42, 86, 56])))
         else if is_built_in_terminal game
         then
           (let screen = Rect (x + 30) (y + 44) (w - 60) 96
            in Some (draw_seq
                 [\<lambda>canvas. stroke_rect canvas screen 4 accent,
                  \<lambda>canvas. draw_centered_text canvas screen ''>_'' 5 (color_pixel (pal kColorText)),
                  fill_all fill_rect
                    [(Rect (x + w sdiv 2 - 6) (rect_y screen + rect_height screen) 12 18, accent),
                     (Rect (x + w sdiv 2 - 44) (rect_y screen + rect_height screen + 18) 88 4, accent)]]))
         else if is_built_in_reboot game
         then Some (\<lambda>canvas. draw_compact_power_icon canvas bounds accent)
         else None)"

definition draw_compact_cartridge :: "palette \<Rightarrow> Rect \<Rightarrow> u16 \<Rightarrow> Canvas \<Rightarrow> Canvas option" where
  "draw_compact_cartridge pal bounds c =
     (let x = rect_x bounds + 34; y = rect_y bounds + 28; w = rect_width bounds - 68; h = rect_height bounds - 56
      in draw_seq
           [\<lambda>canvas. draw_pixel_panel canvas (Rect x y w h) (color_pixel (pal kColorBackground)) c 4,
            fill_all fill_rect
              [(Rect (x + 24) (y + 26) (w - 48) 8, c), (Rect (x + 24) (y + 46) (w - 48) 4, c),
               (Rect (x + 20) (y + h - 30) (w - 40) 10, c)]])"

definition draw_game_card :: "palette \<Rightarrow> Rect \<Rightarrow> GameEntry \<Rightarrow> bool \<Rightarrow> Canvas \<Rightarrow> Canvas option" where
  "draw_game_card pal tile game selected =
     (let fill = (if selected then color_pixel (pal kColorActive) else color_pixel (pal kColorBackground));
          art = Rect (rect_x tile + 8) (rect_y tile + 8) (rect_width tile - 16) (rect_width tile - 16);
          label = Rect (rect_x tile + 8) (rect_y tile + rect_width tile) (rect_width tile - 16)
                    (rect_height tile - rect_width tile - 8)
      in draw_seq
           [\<lambda>canvas. draw_pixel_panel canvas tile fill (color_pixel (pal kColorAccent)) kPixelStroke,
            if cover_available (cover game) then (\<lambda>canvas. draw_cover_square canvas art (cover game))
            else (case draw_compact_deck_logo pal art game of
                    Some logo \<Rightarrow> logo
                  | None \<Rightarrow> draw_compact_cartridge pal art (color_pixel (color game))),
            \<lambda>canvas. draw_centered_text canvas label (fit_text_width (title game) (rect_width label - 12) kGameTitleScale)
              kGameTitleScale (color_pixel (pal kColorText))])"

subsection \<open>The menu\<close>

record MenuLayout =
  credits_button :: Rect
  settings_button :: Rect
  game_previous_button :: Rect
  game_next_button :: Rect
  systems :: "string list"
  system_buttons :: "Rect list"
  game_buttons :: "Rect list"
  game_position_indicators :: "Rect list"
  game_indices :: "nat list"
  visible_game_indices :: "nat list"
  shown_game_index :: nat

definition kSystemDefinitions :: "(string \<times> string) list" where
  "kSystemDefinitions =
     [(''nes'', ''NES''), (''gb'', ''GAME BOY''), (''gbc'', ''GBC''), (''zx'', ''ZX SPECTRUM''),
      (''chip8'', ''CHIP-8''), (''deck'', ''DECK'')]"

definition has_system :: "GameEntry list \<Rightarrow> string \<Rightarrow> bool" where
  "has_system games s = list_ex (\<lambda>g. system g = s) games"

definition initial_system :: "GameEntry list \<Rightarrow> string" where
  "initial_system games =
     (case List.find (\<lambda>d. has_system games (fst d)) kSystemDefinitions of
        Some d \<Rightarrow> fst d
      | None \<Rightarrow> if games = [] then [] else system (games ! 0))"

definition system_label :: "string \<Rightarrow> string" where
  "system_label s =
     (case map_of kSystemDefinitions s of Some label \<Rightarrow> label | None \<Rightarrow> display_ascii s)"

definition listed_systems :: "GameEntry list \<Rightarrow> string list" where
  "listed_systems games = filter (has_system games) (map fst kSystemDefinitions)"

definition tab_width :: "nat \<Rightarrow> int" where
  "tab_width n = (if n = 0 then 0 else (1168 - 8 * (int n - 1)) sdiv int n)"

definition system_tabs :: "nat \<Rightarrow> Rect list" where
  "system_tabs n = map (\<lambda>index. Rect (56 + int index * (tab_width n + 8)) 76 (tab_width n) 52) [0..<n]"

definition games_of_system :: "GameEntry list \<Rightarrow> string \<Rightarrow> nat list" where
  "games_of_system games active_system =
     filter (\<lambda>index. system (games ! index) = active_system) [0..<length games]"

text \<open>The window of at most three cards around the selected position.\<close>

definition first_position :: "nat \<Rightarrow> nat \<Rightarrow> nat" where
  "first_position count selected_position =
     (let visible_count = min 3 count
      in if visible_count < count
         then (if selected_position = 0 then 0
               else if count \<le> selected_position + 1 then count - visible_count
               else selected_position - 1)
         else 0)"

definition card_rects :: "nat \<Rightarrow> Rect list" where
  "card_rects visible_count =
     (let row_width = int visible_count * 216 + (int visible_count - 1) * 36;
          card_x = (kLogicalWidth - row_width) sdiv 2
      in map (\<lambda>visible. Rect (card_x + int visible * (216 + 36)) 154 216 264) [0..<visible_count])"

definition indicator_rects :: "nat \<Rightarrow> Rect list" where
  "indicator_rects count =
     (let indicator_row_width = int count * 16 + max 0 (int count - 1) * 8;
          indicator_x = (kLogicalWidth - indicator_row_width) sdiv 2
      in map (\<lambda>indicator. Rect (indicator_x + int indicator * (16 + 8)) 438 16 8) [0..<count])"

definition menu_layout :: "GameEntry list \<Rightarrow> string \<Rightarrow> nat \<Rightarrow> MenuLayout" where
  "menu_layout games active_system game_position =
     (let syss = listed_systems games;
          indices = games_of_system games active_system;
          count = length indices;
          selected_position = game_position mod count;
          visible_count = min 3 count;
          arrows = 1 < count \<or> count = 0
      in \<lparr>credits_button = Rect 12 412 56 56, settings_button = Rect 1212 412 56 56,
          game_previous_button = (if arrows then Rect 156 232 80 100 else Rect 0 0 0 0),
          game_next_button = (if arrows then Rect 1044 232 80 100 else Rect 0 0 0 0),
          systems = syss, system_buttons = system_tabs (length syss),
          game_buttons = card_rects visible_count,
          game_position_indicators = indicator_rects count,
          game_indices = indices,
          visible_game_indices =
            map (\<lambda>visible. indices ! (first_position count selected_position + visible)) [0..<visible_count],
          shown_game_index = (if count = 0 then length games else indices ! selected_position)\<rparr>)"

definition draw_tab :: "palette \<Rightarrow> string \<Rightarrow> string \<times> Rect \<Rightarrow> Canvas \<Rightarrow> Canvas option" where
  "draw_tab pal active_system st =
     (let (s, tab) = st; label = system_label s
      in draw_seq
           [\<lambda>canvas. draw_pixel_panel canvas tab
              (if s = active_system then color_pixel (pal kColorActive) else color_pixel (pal kColorBackground))
              (color_pixel (pal kColorAccent)) kPixelStroke,
            \<lambda>canvas. draw_centered_text canvas tab label (fit_text_scale label (rect_width tab - 16) 2 1)
              (color_pixel (pal kColorText))])"

definition draw_arrows :: "palette \<Rightarrow> MenuLayout \<Rightarrow> Canvas \<Rightarrow> Canvas option" where
  "draw_arrows pal layout =
     (if 1 < length (game_indices layout)
      then draw_seq
        [\<lambda>canvas. draw_outline_arrow canvas (game_previous_button layout) ArrowLeft (color_pixel (pal kColorFooter)),
         \<lambda>canvas. draw_outline_arrow canvas (game_next_button layout) ArrowRight (color_pixel (pal kColorFooter))]
      else Some)"

definition draw_indicator :: "palette \<Rightarrow> nat \<Rightarrow> nat \<times> Rect \<Rightarrow> Canvas \<Rightarrow> Canvas option" where
  "draw_indicator pal selected_position ir =
     (\<lambda>canvas. stroke_rect canvas (snd ir) 2
        (color_pixel (if fst ir = selected_position then pal kColorFooter else pal kColorControlBorder)))"

definition draw_status :: "palette \<Rightarrow> Rect \<Rightarrow> int \<Rightarrow> string \<Rightarrow> Canvas \<Rightarrow> Canvas option" where
  "draw_status pal bounds maximum status =
     (if status = [] then Some
      else (\<lambda>canvas. draw_centered_text canvas bounds status (fit_text_scale status maximum 2 1) (color_pixel (pal kColorFooter))))"

definition menu_steps ::
  "palette \<Rightarrow> SettingsIconImage \<Rightarrow> GameEntry list \<Rightarrow> string \<Rightarrow> nat \<Rightarrow> string \<Rightarrow> (Canvas \<Rightarrow> Canvas option) list" where
  "menu_steps pal icon games active_system game_position status =
     (let layout = menu_layout games active_system game_position
      in [\<lambda>canvas. draw_centered_text canvas (credits_button layout) ''(c)'' 2 (color_pixel (pal kColorFooter)),
          \<lambda>canvas. draw_settings_icon icon canvas (settings_button layout)] @
         map (draw_tab pal active_system) (zip (systems layout) (system_buttons layout)) @
         map (\<lambda>(game_index, tile). draw_game_card pal tile (games ! game_index) (game_index = shown_game_index layout))
           (zip (visible_game_indices layout) (game_buttons layout)) @
         [draw_arrows pal layout] @
         map (draw_indicator pal (game_position mod length (game_indices layout)))
           (enumerate 0 (game_position_indicators layout)) @
         [draw_status pal (Rect 100 452 (kLogicalWidth - 200) 24) (kLogicalWidth - 220) status])"

definition blank_canvas :: "u16 \<Rightarrow> Canvas" where
  "blank_canvas c = replicate (nat (kLogicalWidth * kLogicalHeight)) c"

definition render_menu ::
  "palette \<Rightarrow> SettingsIconImage \<Rightarrow> GameEntry list \<Rightarrow> string \<Rightarrow> nat \<Rightarrow> string \<Rightarrow> Canvas option \<times> MenuLayout" where
  "render_menu pal icon games active_system game_position status =
     (draw_seq (menu_steps pal icon games active_system game_position status)
        (blank_canvas (color_pixel (pal kColorBackground))),
      menu_layout games active_system game_position)"

subsection \<open>The settings\<close>

record SettingsLayout =
  sl_close_button :: Rect
  wifi_button :: Rect
  volume_down_button :: Rect
  volume_up_button :: Rect
  brightness_down_button :: Rect
  brightness_up_button :: Rect
  terminal_button :: Rect
  keymap_button :: Rect

definition settings_layout :: SettingsLayout where
  "settings_layout =
     \<lparr>sl_close_button = Rect 1212 12 56 56, wifi_button = Rect 926 20 262 108,
      volume_down_button = Rect 108 208 104 104, volume_up_button = Rect 228 208 104 104,
      brightness_down_button = Rect 438 208 104 104, brightness_up_button = Rect 558 208 104 104,
      terminal_button = Rect 792 208 112 104, keymap_button = Rect 1036 208 112 104\<rparr>"

datatype SettingsTarget =
    SettingsTargetClose | SettingsTargetVolumeDown | SettingsTargetVolumeUp | SettingsTargetBrightnessDown
  | SettingsTargetBrightnessUp | SettingsTargetTerminal | SettingsTargetKeymap | SettingsTargetWifi

text \<open>The enumerators' values; selections and touch targets are integers in the source.\<close>

fun settings_code :: "SettingsTarget \<Rightarrow> int" where
  "settings_code SettingsTargetClose = 0"
| "settings_code SettingsTargetVolumeDown = 1"
| "settings_code SettingsTargetVolumeUp = 2"
| "settings_code SettingsTargetBrightnessDown = 3"
| "settings_code SettingsTargetBrightnessUp = 4"
| "settings_code SettingsTargetTerminal = 5"
| "settings_code SettingsTargetKeymap = 6"
| "settings_code SettingsTargetWifi = 7"

definition draw_settings_control :: "palette \<Rightarrow> int \<Rightarrow> Rect \<times> SettingsTarget \<Rightarrow> Canvas \<Rightarrow> Canvas option" where
  "draw_settings_control pal selected bt canvas =
     (let on = (selected = settings_code (snd bt))
      in draw_pixel_panel canvas (fst bt)
           (if on then color_pixel (pal kColorActive) else color_pixel (pal kColorControlSurface))
           (if on then color_pixel (pal kColorAccent) else color_pixel (pal kColorControlBorder)) kPixelStroke)"

definition or_else :: "string \<Rightarrow> string \<Rightarrow> string" where
  "or_else s fallback = (if s = [] then fallback else s)"

definition settings_steps ::
  "palette \<Rightarrow> nat \<Rightarrow> nat \<Rightarrow> string \<Rightarrow> int \<Rightarrow> string \<Rightarrow> NetworkStatus \<Rightarrow> (Canvas \<Rightarrow> Canvas option) list" where
  "settings_steps pal volume brightness keymap selected status network =
     (let text_color = color_pixel (pal kColorText); muted = color_pixel (pal kColorMuted);
          L = settings_layout;
          control = draw_settings_control pal selected
      in [\<lambda>canvas. draw_close_icon canvas (sl_close_button L) text_color,
          \<lambda>canvas. draw_text canvas 64 22 ''ACTIVE WIFI'' 1 muted,
          \<lambda>canvas. draw_text canvas 64 44 (fit_text_width (or_else (ns_ssid network) ''NOT CONNECTED'') 300 3) 3 text_color,
          \<lambda>canvas. draw_text canvas 392 22 ''WLAN0'' 1 muted,
          \<lambda>canvas. draw_text canvas 392 44 (or_else (wlan_ipv4 network) ''NO ADDRESS'') 2 text_color,
          \<lambda>canvas. draw_text canvas 620 22 ''WIREGUARD'' 1 muted,
          \<lambda>canvas. draw_text canvas 620 44 (or_else (wireguard_ipv4 network) ''NO ADDRESS'') 2 text_color,
          \<lambda>canvas. draw_text canvas 64 88 (fit_text_width (''AUTO WIFI: '' @ selector network) 790 1) 1
            (color_pixel (pal kColorFooter)),
          control (wifi_button L, SettingsTargetWifi),
          \<lambda>canvas. draw_wifi_icon canvas (Rect (rect_x (wifi_button L) + 12) (rect_y (wifi_button L) + 24) 54 54) text_color,
          \<lambda>canvas. draw_text canvas (rect_x (wifi_button L) + 78) (rect_y (wifi_button L) + 28) ''WIFI'' 3 text_color,
          \<lambda>canvas. draw_text canvas (rect_x (wifi_button L) + 78) (rect_y (wifi_button L) + 64) ''SETTINGS'' 2 muted,
          control (volume_down_button L, SettingsTargetVolumeDown),
          control (volume_up_button L, SettingsTargetVolumeUp),
          \<lambda>canvas. draw_speaker_icon canvas (volume_down_button L) False text_color,
          \<lambda>canvas. draw_speaker_icon canvas (volume_up_button L) True text_color,
          control (brightness_down_button L, SettingsTargetBrightnessDown),
          control (brightness_up_button L, SettingsTargetBrightnessUp),
          \<lambda>canvas. draw_sun_icon canvas (brightness_down_button L) False text_color,
          \<lambda>canvas. draw_sun_icon canvas (brightness_up_button L) True text_color,
          control (terminal_button L, SettingsTargetTerminal),
          \<lambda>canvas. draw_terminal_icon canvas (terminal_button L) text_color,
          control (keymap_button L, SettingsTargetKeymap),
          \<lambda>canvas. draw_centered_text canvas (keymap_button L) (if keymap = ''cz'' then ''CZ'' else ''EN'') 4 text_color,
          \<lambda>canvas. draw_centered_text canvas (Rect 82 328 276 34) (if volume = 0 then ''OFF'' else decimal volume) 3 text_color,
          \<lambda>canvas. draw_centered_text canvas (Rect 82 366 276 28) ''VOLUME'' 2 muted,
          \<lambda>canvas. draw_centered_text canvas (Rect 412 328 276 34) (decimal brightness) 3 text_color,
          \<lambda>canvas. draw_centered_text canvas (Rect 412 366 276 28) ''BRIGHTNESS'' 2 muted,
          \<lambda>canvas. draw_centered_text canvas (Rect 750 328 196 34) ''TERMINAL'' 3 text_color,
          \<lambda>canvas. draw_centered_text canvas (Rect 750 366 196 28) kTerminalLoginShell 2 muted,
          \<lambda>canvas. draw_centered_text canvas (Rect 994 328 196 34) ''KEYS'' 3 text_color,
          \<lambda>canvas. draw_centered_text canvas (Rect 994 366 196 28) (if keymap = ''cz'' then ''CZECH'' else ''US ANSI'') 2 muted,
          draw_status pal (Rect 12 440 (kLogicalWidth - 24) 28) (kLogicalWidth - 24) status])"

definition render_settings ::
  "palette \<Rightarrow> nat \<Rightarrow> nat \<Rightarrow> string \<Rightarrow> int \<Rightarrow> string \<Rightarrow> NetworkStatus \<Rightarrow> Canvas option \<times> SettingsLayout" where
  "render_settings pal volume brightness keymap selected status network =
     (draw_seq (settings_steps pal volume brightness keymap selected status network)
        (blank_canvas (color_pixel (pal kColorBackground))), settings_layout)"

subsection \<open>The Wi-Fi editor\<close>

datatype WifiField = WifiSsid | WifiPassphrase

record WifiState =
  ws_ssid :: string
  ws_passphrase :: string
  ws_field :: WifiField
  ws_uppercase :: bool
  ws_symbols :: bool
  ws_status :: string

definition created_wifi :: WifiState where
  "created_wifi = \<lparr>ws_ssid = [], ws_passphrase = [], ws_field = WifiSsid, ws_uppercase = False,
     ws_symbols = False, ws_status = []\<rparr>"

record WifiLayout =
  back_button :: Rect
  ssid_field :: Rect
  passphrase_field :: Rect
  save_button :: Rect
  mode_button :: Rect
  shift_button :: Rect
  space_button :: Rect
  delete_button :: Rect
  wifi_keys :: "(Rect \<times> char) list"

definition tail_for_field :: "string \<Rightarrow> nat \<Rightarrow> string" where
  "tail_for_field v maximum =
     (if length v \<le> maximum then v
      else if maximum \<le> 3 then drop (length v - maximum) v
      else ''...'' @ drop (length v - (maximum - 3)) v)"

definition draw_wifi_button :: "palette \<Rightarrow> Rect \<Rightarrow> string \<Rightarrow> bool \<Rightarrow> Canvas \<Rightarrow> Canvas option" where
  "draw_wifi_button pal bounds label active =
     draw_seq
       [\<lambda>canvas. fill_rect canvas bounds (color_pixel (pal (if active then kColorWifiActive else kColorSurface))),
        \<lambda>canvas. stroke_rect canvas bounds 3 (color_pixel (pal (if active then kColorWifiActiveBorder else kColorControlBorder))),
        \<lambda>canvas. draw_centered_text canvas bounds label (fit_text_scale label (rect_width bounds - 12) 3 1)
          (color_pixel (pal kColorWhite))]"

definition to_upper :: "char \<Rightarrow> char" where
  "to_upper c = (if is_lower c then char_of (byte_of c - 97 + 65) else c)"

definition wifi_key_row :: "string \<times> int \<times> bool \<Rightarrow> (Rect \<times> char) list" where
  "wifi_key_row row =
     (let (vals, y, uppercase) = row;
          count = int (length vals);
          width = (kLogicalWidth - 2 * 16 - 6 * (count - 1)) sdiv count;
          used = count * width + 6 * (count - 1);
          left = (kLogicalWidth - used) sdiv 2
      in map (\<lambda>index. (Rect (left + int index * (width + 6)) y width 62,
                       if uppercase then to_upper (vals ! index) else vals ! index)) [0..<length vals])"

definition wifi_rows :: "WifiState \<Rightarrow> (string \<times> int \<times> bool) list" where
  "wifi_rows state =
     (if ws_symbols state
      then [(''1234567890'', 86, False), (''!@#$%^&*()'', 154, False), (''-_=+[]{}'' @ [char_of (92 :: nat)] @ ''|'', 222, False),
            (''`~;:'' @ [char_of (39 :: nat), char_of (34 :: nat)] @ '',./?<>'', 290, False)]
      else [(''qwertyuiop'', 86, ws_uppercase state), (''asdfghjkl'', 154, ws_uppercase state),
            (''zxcvbnm'', 222, ws_uppercase state), (''@._-'', 290, False)])"

definition wifi_layout :: "WifiState \<Rightarrow> WifiLayout" where
  "wifi_layout state =
     \<lparr>back_button = Rect 16 10 120 62, ssid_field = Rect 330 10 310 62, passphrase_field = Rect 650 10 330 62,
      save_button = Rect 990 10 274 62, mode_button = Rect 16 364 152 66, shift_button = Rect 176 364 168 66,
      space_button = Rect 352 364 700 66, delete_button = Rect 1060 364 204 66,
      wifi_keys = concat (map wifi_key_row (wifi_rows state))\<rparr>"

definition draw_field :: "palette \<Rightarrow> Rect \<Rightarrow> bool \<Rightarrow> string \<Rightarrow> string \<Rightarrow> (Canvas \<Rightarrow> Canvas option) list" where
  "draw_field pal bounds focused label shown =
     [\<lambda>canvas. fill_rect canvas bounds (color_pixel (pal kColorField)),
      \<lambda>canvas. stroke_rect canvas bounds 3 (color_pixel (pal (if focused then kColorWifiFocus else kColorInactiveBorder))),
      \<lambda>canvas. draw_text canvas (rect_x bounds + 10) (rect_y bounds + 7) label 1 (color_pixel (pal kColorFieldLabel)),
      \<lambda>canvas. draw_text canvas (rect_x bounds + 10) (rect_y bounds + 28) shown 2 (color_pixel (pal kColorWhite))]"

definition wifi_steps :: "palette \<Rightarrow> WifiState \<Rightarrow> NetworkStatus \<Rightarrow> (Canvas \<Rightarrow> Canvas option) list" where
  "wifi_steps pal state network =
     (let L = wifi_layout state;
          addresses = ''WIFI '' @ or_else (ns_ssid network) ''NOT CONNECTED'' @ ''  WLAN0 '' @
            or_else (wlan_ipv4 network) ''NO ADDRESS'' @ ''  WG0 '' @ or_else (wireguard_ipv4 network) ''NO ADDRESS''
      in [draw_wifi_button pal (back_button L) ''BACK'' False,
          \<lambda>canvas. draw_text canvas 158 25 ''ADD WIFI'' 3 (color_pixel (pal kColorTitle))] @
         draw_field pal (ssid_field L) (ws_field state = WifiSsid) ''SSID'' (tail_for_field (ws_ssid state) 19) @
         draw_field pal (passphrase_field L) (ws_field state = WifiPassphrase) ''PASSWORD''
           (tail_for_field (replicate (length (ws_passphrase state)) CHR ''*'') 20) @
         [draw_wifi_button pal (save_button L) ''SAVE NETWORK'' False] @
         map (\<lambda>(bounds, v). draw_wifi_button pal bounds [v] False) (wifi_keys L) @
         [draw_wifi_button pal (mode_button L) (if ws_symbols state then ''ABC'' else ''123'') (ws_symbols state),
          draw_wifi_button pal (shift_button L) (if ws_uppercase state then ''ABC'' else ''abc'')
            (\<not> ws_symbols state \<and> ws_uppercase state),
          draw_wifi_button pal (space_button L) ''SPACE'' False,
          draw_wifi_button pal (delete_button L) ''DELETE'' False,
          \<lambda>canvas. draw_centered_text canvas (Rect 12 436 (kLogicalWidth - 24) 10)
            (or_else (ws_status state) ''SAVING DOES NOT INTERRUPT CURRENT WIFI'') 1 (color_pixel (pal kColorFooter)),
          \<lambda>canvas. draw_centered_text canvas (Rect 12 450 (kLogicalWidth - 24) 10)
            (fit_text_width addresses (kLogicalWidth - 32) 1) 1 (color_pixel (pal kColorText)),
          \<lambda>canvas. draw_centered_text canvas (Rect 12 464 (kLogicalWidth - 24) 10)
            (fit_text_width (''AUTO WIFI: '' @ selector network) (kLogicalWidth - 32) 1) 1 (color_pixel (pal kColorMuted))])"

definition render_wifi :: "palette \<Rightarrow> WifiState \<Rightarrow> NetworkStatus \<Rightarrow> Canvas option \<times> WifiLayout" where
  "render_wifi pal state network =
     (draw_seq (wifi_steps pal state network) (blank_canvas (color_pixel (pal kColorBackground))), wifi_layout state)"

subsection \<open>Touch targets\<close>

definition MenuTargetNone :: int where "MenuTargetNone = - 1"
definition MenuTargetSettings :: int where "MenuTargetSettings = - 2"
definition MenuTargetGamePrevious :: int where "MenuTargetGamePrevious = - 3"
definition MenuTargetGameNext :: int where "MenuTargetGameNext = - 4"
definition MenuTargetCredits :: int where "MenuTargetCredits = - 5"
definition MenuTargetSystemBase :: int where "MenuTargetSystemBase = 1000"

lemmas menu_target_defs = MenuTargetNone_def MenuTargetSettings_def MenuTargetGamePrevious_def
  MenuTargetGameNext_def MenuTargetCredits_def MenuTargetSystemBase_def

definition INT_MAX :: nat where "INT_MAX = 2147483647"

fun system_target_from :: "Rect list \<Rightarrow> int \<Rightarrow> int \<Rightarrow> int \<Rightarrow> int option" where
  "system_target_from [] index x y = None"
| "system_target_from (r # rs) index x y =
     (if rect_contains r x y then Some (MenuTargetSystemBase + index) else system_target_from rs (index + 1) x y)"

fun game_target_from :: "Rect list \<Rightarrow> nat list \<Rightarrow> int \<Rightarrow> int \<Rightarrow> int option" where
  "game_target_from (r # rs) (i # is) x y =
     (if rect_contains r x y \<and> i < INT_MAX then Some (int i) else game_target_from rs is x y)"
| "game_target_from rs is x y = None"

definition target_at :: "MenuLayout \<Rightarrow> int \<Rightarrow> int \<Rightarrow> int" where
  "target_at layout x y =
     (if rect_contains (credits_button layout) x y then MenuTargetCredits
      else if rect_contains (settings_button layout) x y then MenuTargetSettings
      else if rect_contains (game_previous_button layout) x y then MenuTargetGamePrevious
      else if rect_contains (game_next_button layout) x y then MenuTargetGameNext
      else
        (case system_target_from (system_buttons layout) 0 x y of
           Some t \<Rightarrow> t
         | None \<Rightarrow>
             (case game_target_from (game_buttons layout) (visible_game_indices layout) x y of
                Some t \<Rightarrow> t
              | None \<Rightarrow> MenuTargetNone)))"

definition SettingsTargetNone :: int where "SettingsTargetNone = - 1"

definition settings_target_at :: "SettingsLayout \<Rightarrow> int \<Rightarrow> int \<Rightarrow> int" where
  "settings_target_at layout x y =
     (if rect_contains (sl_close_button layout) x y then settings_code SettingsTargetClose
      else if rect_contains (volume_down_button layout) x y then settings_code SettingsTargetVolumeDown
      else if rect_contains (volume_up_button layout) x y then settings_code SettingsTargetVolumeUp
      else if rect_contains (brightness_down_button layout) x y then settings_code SettingsTargetBrightnessDown
      else if rect_contains (brightness_up_button layout) x y then settings_code SettingsTargetBrightnessUp
      else if rect_contains (terminal_button layout) x y then settings_code SettingsTargetTerminal
      else if rect_contains (keymap_button layout) x y then settings_code SettingsTargetKeymap
      else if rect_contains (wifi_button layout) x y then settings_code SettingsTargetWifi
      else SettingsTargetNone)"

definition WifiTargetNone :: int where "WifiTargetNone = - 1"
definition WifiTargetBack :: int where "WifiTargetBack = 100"
definition WifiTargetSsid :: int where "WifiTargetSsid = 101"
definition WifiTargetPassphrase :: int where "WifiTargetPassphrase = 102"
definition WifiTargetSave :: int where "WifiTargetSave = 103"
definition WifiTargetMode :: int where "WifiTargetMode = 104"
definition WifiTargetShift :: int where "WifiTargetShift = 105"
definition WifiTargetSpace :: int where "WifiTargetSpace = 106"
definition WifiTargetDelete :: int where "WifiTargetDelete = 107"
definition WifiTargetKeyBase :: int where "WifiTargetKeyBase = 200"

lemmas wifi_target_defs = WifiTargetNone_def WifiTargetBack_def WifiTargetSsid_def WifiTargetPassphrase_def
  WifiTargetSave_def WifiTargetMode_def WifiTargetShift_def WifiTargetSpace_def WifiTargetDelete_def
  WifiTargetKeyBase_def

fun key_target_from :: "(Rect \<times> char) list \<Rightarrow> int \<Rightarrow> int \<Rightarrow> int \<Rightarrow> int" where
  "key_target_from [] index x y = WifiTargetNone"
| "key_target_from (k # ks) index x y =
     (if rect_contains (fst k) x y then WifiTargetKeyBase + index else key_target_from ks (index + 1) x y)"

definition wifi_target_at :: "WifiLayout \<Rightarrow> int \<Rightarrow> int \<Rightarrow> int" where
  "wifi_target_at layout x y =
     (if rect_contains (back_button layout) x y then WifiTargetBack
      else if rect_contains (ssid_field layout) x y then WifiTargetSsid
      else if rect_contains (passphrase_field layout) x y then WifiTargetPassphrase
      else if rect_contains (save_button layout) x y then WifiTargetSave
      else if rect_contains (mode_button layout) x y then WifiTargetMode
      else if rect_contains (shift_button layout) x y then WifiTargetShift
      else if rect_contains (space_button layout) x y then WifiTargetSpace
      else if rect_contains (delete_button layout) x y then WifiTargetDelete
      else key_target_from (wifi_keys layout) 0 x y)"

section \<open>What draws without undefined behaviour\<close>

named_theorems drawing \<open>drawing routines that stay on the canvas\<close>

abbreviation draws_ui :: "(Canvas \<Rightarrow> Canvas option) \<Rightarrow> bool" where
  "draws_ui \<equiv> draws kLogicalWidth kLogicalHeight"

definition inside :: "Rect \<Rightarrow> bool" where
  "inside r = (0 \<le> rect_x r \<and> 0 \<le> rect_width r \<and> rect_x r + rect_width r \<le> 1280)"

lemma inside_Rect [simp]: "inside (Rect x y w h) \<longleftrightarrow> 0 \<le> x \<and> 0 \<le> w \<and> x + w \<le> 1280"
  by (simp add: inside_def)

lemma inside_defined: "inside r \<Longrightarrow> fill_defined kLogicalWidth kLogicalHeight r"
  by (auto simp: inside_def fill_defined_def logical_size)

lemma draws_Some [drawing]: "draws_ui Some"
  by (simp add: draws_def)

lemma draws_rect [drawing]: "inside r \<Longrightarrow> draws_ui (\<lambda>canvas. fill_rect canvas r c)"
  by (rule ui.draws_fill [OF inside_defined])

lemma draws_rects [drawing]: "list_all (\<lambda>rc. inside (fst rc)) rcs \<Longrightarrow> draws_ui (fill_all fill_rect rcs)"
  by (rule ui.draws_fill_all) (auto simp: list_all_iff inside_defined)

lemma draws_rects' [drawing]: "list_all (\<lambda>rc. inside (fst rc)) rcs \<Longrightarrow> draws_ui (\<lambda>canvas. fill_all fill_rect rcs canvas)"
  by (rule draws_rects)

lemma draws_steps [drawing]: "list_all draws_ui ds \<Longrightarrow> draws_ui (\<lambda>canvas. draw_seq ds canvas)"
  by (rule draws_seq)

lemma draws_stroke [drawing]:
  "inside r \<Longrightarrow> 0 \<le> t \<Longrightarrow> t \<le> rect_width r \<Longrightarrow> draws_ui (\<lambda>canvas. stroke_rect canvas r t c)"
  unfolding stroke_rect_def Let_def by (rule draws_rects) (auto simp: inside_def)

lemma draws_cut [drawing]:
  "inside r \<Longrightarrow> 0 \<le> n \<Longrightarrow> draws_ui (\<lambda>canvas. fill_pixel_cut_rect canvas r n c)"
proof -
  assume r: "inside r" "0 \<le> n"
  let ?rcs = "[(Rect (rect_x r + n) (rect_y r) (rect_width r - n * 2) (rect_height r), c),
     (Rect (rect_x r) (rect_y r + n) (rect_width r) (rect_height r - n * 2), c)]"
  have shape: "(\<lambda>canvas. fill_pixel_cut_rect canvas r n c) =
      (if rect_width r \<le> n * 2 \<or> rect_height r \<le> n * 2 then Some else fill_all fill_rect ?rcs)"
    by (cases "rect_width r \<le> n * 2 \<or> rect_height r \<le> n * 2";
        simp only: fun_eq_iff fill_pixel_cut_rect_def Let_def if_True if_False simp_thms)
  show ?thesis
    unfolding shape using r draws_Some draws_rects [of ?rcs] by (auto simp: inside_def simp del: fill_all.simps)
qed

lemma draws_panel [drawing]:
  "inside r \<Longrightarrow> 0 \<le> t \<Longrightarrow> t * 2 \<le> rect_width r \<Longrightarrow> draws_ui (\<lambda>canvas. draw_pixel_panel canvas r f b t)"
  unfolding draw_pixel_panel_def by (intro drawing) (auto intro!: drawing simp: inside_def)

lemma text_width_display: "0 < scale \<Longrightarrow> text_width (display_ascii s) scale \<le> max 0 (int (length s) * 6 * scale - scale)"
proof -
  assume "0 < scale"
  moreover have "length (display_ascii s) \<le> length s"
    using length_display_ascii_from [of s 0] by (simp add: display_ascii_def)
  ultimately have "text_width (display_ascii s) scale \<le> text_width s scale" by (intro text_width_mono)
  also have "\<dots> \<le> max 0 (int (length s) * 6 * scale - scale)"
    by (simp add: text_width_def kBitmapGlyphAdvance_def)
  finally show ?thesis .
qed

lemma draws_short_text [drawing]:
  assumes "0 < scale" "0 \<le> x" "x + int (length s) * 6 * scale \<le> 1280"
  shows "draws_ui (\<lambda>canvas. draw_text canvas x y s scale c)"
proof (rule draws_text [OF assms(1,2)])
  have "0 \<le> int (length s) * 6 * scale" using assms(1) by simp
  then show "display_ascii s = [] \<or> x + text_width (display_ascii s) scale \<le> 1280"
    using text_width_display [OF assms(1), of s] assms by linarith
qed

lemma draws_short_centered [drawing]:
  assumes "0 < scale" "inside bounds" "int (length s) * 6 * scale \<le> rect_width bounds + scale"
  shows "draws_ui (\<lambda>canvas. draw_centered_text canvas bounds s scale c)"
  by (rule draws_centered_text) (use assms text_width_display [OF assms(1), of s] in \<open>auto simp: inside_def\<close>)

lemma draws_fit_centered:
  assumes "inside bounds" "int (length s) * 6 \<le> rect_width bounds + 1" "maximum \<le> rect_width bounds"
  shows "draws_ui (\<lambda>canvas. draw_centered_text canvas bounds s (fit_text_scale s maximum 2 1) c)"
proof -
  let ?r = "fit_text_scale s maximum 2 1"
  have r: "1 \<le> ?r" "?r = 1 \<or> text_width (display_ascii s) ?r \<le> maximum"
    using fit_scale_from_largest [of 1 2 "display_ascii s" maximum] by (simp_all add: fit_text_scale_def Let_def)
  have one: "text_width (display_ascii s) 1 \<le> rect_width bounds"
    using text_width_display [of 1 s] assms(1,2) by (auto simp: inside_def)
  show ?thesis
    by (rule draws_centered_text) (use assms(1,3) r one in \<open>auto simp: inside_def\<close>)
qed

lemma draws_fit_centered3:
  assumes "inside bounds" "int (length s) * 6 \<le> rect_width bounds + 1" "maximum \<le> rect_width bounds"
  shows "draws_ui (\<lambda>canvas. draw_centered_text canvas bounds s (fit_text_scale s maximum 3 1) c)"
proof -
  let ?r = "fit_text_scale s maximum 3 1"
  have r: "1 \<le> ?r" "?r = 1 \<or> text_width (display_ascii s) ?r \<le> maximum"
    using fit_scale_from_largest [of 1 3 "display_ascii s" maximum] by (simp_all add: fit_text_scale_def Let_def)
  have one: "text_width (display_ascii s) 1 \<le> rect_width bounds"
    using text_width_display [of 1 s] assms(1,2) by (auto simp: inside_def)
  show ?thesis
    by (rule draws_centered_text) (use assms(1,3) r one in \<open>auto simp: inside_def\<close>)
qed

lemma draws_fitted_text [drawing]:
  assumes "0 < scale" "0 \<le> x" "0 \<le> m" "x + m \<le> 1280"
  shows "draws_ui (\<lambda>canvas. draw_text canvas x y (fit_text_width s m scale) scale c)"
  by (rule draws_text) (use assms fit_text_width_bounds [OF assms(1,3), of s] in \<open>auto simp: fitted_ascii\<close>)

lemma draws_fitted_centered [drawing]:
  assumes "0 < scale" "0 \<le> m" "m \<le> rect_width bounds" "inside bounds"
  shows "draws_ui (\<lambda>canvas. draw_centered_text canvas bounds (fit_text_width s m scale) scale c)"
  by (rule draws_centered_text)
    (use assms fit_text_width_bounds [OF assms(1,2), of s] in \<open>auto simp: fitted_ascii inside_def\<close>)

text \<open>Unchecked stores at positions of the canvas.\<close>

lemma put_pixels_ok:
  "list_all (\<lambda>(i, v). 0 \<le> i \<and> i < int (length canvas)) ps \<Longrightarrow>
    \<exists>canvas'. put_pixels ps canvas = Some canvas' \<and> length canvas' = length canvas"
proof (induction ps arbitrary: canvas)
  case (Cons p ps)
  obtain i v where p: "p = (i, v)" by fastforce
  then show ?case using Cons.IH [of "canvas[nat i := v]"] Cons.prems by (simp add: put_pixel_def)
qed simp

lemma canvas_index:
  assumes "0 \<le> px" "px < 1280" "0 \<le> py" "py < 480"
  shows "0 \<le> py * kLogicalWidth + px" "py * kLogicalWidth + px < kLogicalWidth * kLogicalHeight"
  using pixel_index_bound [of px 1280 py 480] assms by (simp_all add: logical_size)

lemma sampled_position:
  assumes "0 \<le> v" "v < h" "0 < extent" "extent \<le> whole"
  shows "0 \<le> (whole - extent) sdiv 2 + v * extent sdiv h" "(whole - extent) sdiv 2 + v * extent sdiv h < (whole :: int)"
proof -
  have pos: "0 \<le> v * extent" "0 < h" using assms by auto
  have "v * extent sdiv h = v * extent div h" using pos by (simp add: sdiv_nonneg)
  moreover have "v * extent div h < extent"
  proof -
    have "v * extent < h * extent" using assms(2,3) by (rule mult_strict_right_mono)
    also have "\<dots> = extent * h" by (rule mult.commute)
    finally have "v * extent < extent * h" .
    moreover have "v * extent div h * h \<le> v * extent"
      using div_mult_mod_eq [of "v * extent" h] pos_mod_sign [OF pos(2), of "v * extent"] by linarith
    ultimately have "v * extent div h * h < extent * h" by linarith
    then show ?thesis using pos(2) by (simp add: mult_less_cancel_right)
  qed
  moreover have "0 \<le> v * extent div h" using pos by (simp add: pos_imp_zdiv_nonneg_iff)
  moreover have "(whole - extent) sdiv 2 = (whole - extent) div 2" using assms(4) by (simp add: sdiv_nonneg)
  moreover have "0 \<le> (whole - extent) div 2" "(whole - extent) div 2 + extent \<le> whole" using assms(4) by auto
  ultimately show "0 \<le> (whole - extent) sdiv 2 + v * extent sdiv h" "(whole - extent) sdiv 2 + v * extent sdiv h < whole"
    by linarith+
qed

lemma draws_cover [drawing]:
  assumes "inside bounds" "0 \<le> rect_y bounds" "rect_y bounds + rect_height bounds \<le> 480"
  shows "draws_ui (\<lambda>canvas. draw_cover_square canvas bounds c)"
proof (rule drawsI)
  fix canvas :: Canvas
  assume len: "length canvas = nat (kLogicalWidth * kLogicalHeight)"
  show "\<exists>canvas'. draw_cover_square canvas bounds c = Some canvas' \<and> length canvas' = length canvas"
  proof (cases "\<not> cover_available c \<or> rect_width bounds < 1 \<or> rect_height bounds < 1")
    case False
    define m where "m = min (cover_width c) (cover_height c)"
    have m: "0 < m" "m \<le> cover_width c" "m \<le> cover_height c" "int (length (pixels c)) = cover_width c * cover_height c"
      using False by (auto simp: m_def cover_available_def)
    let ?cells = "[(x, y). y \<leftarrow> [0..rect_height bounds - 1], x \<leftarrow> [0..rect_width bounds - 1]]"
    have src: "0 \<le> cover_source c bounds x y \<and> cover_source c bounds x y < int (length (pixels c))"
      if "0 \<le> x" "x < rect_width bounds" "0 \<le> y" "y < rect_height bounds" for x y
    proof -
      let ?sx = "(cover_width c - m) sdiv 2 + x * m sdiv rect_width bounds"
        and ?sy = "(cover_height c - m) sdiv 2 + y * m sdiv rect_height bounds"
      have eq: "cover_source c bounds x y = ?sy * cover_width c + ?sx"
        unfolding cover_source_def Let_def m_def by (rule refl)
      show ?thesis
        unfolding eq m(4)
        using pixel_index_bound [of ?sx "cover_width c" ?sy "cover_height c"]
          sampled_position [OF that(1,2) m(1,2)] sampled_position [OF that(3,4) m(1,3)] by blast
    qed
    have ok: "list_all (\<lambda>(x, y). 0 \<le> cover_source c bounds x y \<and> cover_source c bounds x y < int (length (pixels c))) ?cells"
      using src by (auto simp: list_all_iff)
    have "list_all (\<lambda>(i, v). 0 \<le> i \<and> i < int (length canvas))
        (map (\<lambda>(x, y). ((rect_y bounds + y) * kLogicalWidth + rect_x bounds + x,
                        pixels c ! nat (cover_source c bounds x y))) ?cells)"
      using canvas_index assms len by (auto simp: list_all_iff inside_def add.assoc logical_size)
    from put_pixels_ok [OF this] show ?thesis
      using False ok unfolding draw_cover_square_def Let_def by simp
  qed (simp add: draw_cover_square_def)
qed

lemma draw_icon_cells_ok:
  assumes "list_all (\<lambda>(x, y). 0 \<le> (upper + y) * kLogicalWidth + left + x \<and>
      (upper + y) * kLogicalWidth + left + x < int (length canvas)) cells"
  shows "\<exists>canvas'. draw_icon_cells icon left upper extent cells canvas = Some canvas' \<and> length canvas' = length canvas"
  using assms
proof (induction cells arbitrary: canvas)
  case (Cons cell cells)
  obtain x y where cell: "cell = (x, y)" by fastforce
  obtain alpha foreground where s: "icon_sample icon (x * int kSettingsIconSize sdiv extent)
      (y * int kSettingsIconSize sdiv extent) = (alpha, foreground)" by fastforce
  let ?i = "(upper + y) * kLogicalWidth + left + x"
  let ?canvas = "canvas[nat ?i := (if alpha = 255 then foreground else blend_rgb565_255 foreground (canvas ! nat ?i) alpha)]"
  have "0 \<le> ?i \<and> ?i < int (length canvas)" using Cons.prems cell by simp
  then have "draw_icon_cells icon left upper extent (cell # cells) canvas =
      draw_icon_cells icon left upper extent cells (if alpha = 0 then canvas else ?canvas)"
    using cell s by (simp add: Let_def)
  then show ?case
    using Cons.IH [of canvas] Cons.IH [of ?canvas] Cons.prems by (cases "alpha = 0") simp_all
qed simp

lemma draws_settings_icon [drawing]:
  assumes "inside bounds" "0 \<le> rect_y bounds" "rect_y bounds + rect_height bounds \<le> 480"
    "1 \<le> rect_width bounds" "1 \<le> rect_height bounds"
  shows "draws_ui (\<lambda>canvas. draw_settings_icon icon canvas bounds)"
proof (rule drawsI)
  fix canvas :: Canvas
  assume len: "length canvas = nat (kLogicalWidth * kLogicalHeight)"
  define t where "t = max 1 (min 50 (min (rect_width bounds) (rect_height bounds)))"
  have t: "1 \<le> t" "t \<le> rect_width bounds" "t \<le> rect_height bounds" using assms(4,5) by (auto simp: t_def)
  have mid: "0 \<le> (rect_width bounds - t) sdiv 2" "(rect_width bounds - t) sdiv 2 + t \<le> rect_width bounds"
    "0 \<le> (rect_height bounds - t) sdiv 2" "(rect_height bounds - t) sdiv 2 + t \<le> rect_height bounds"
    using t by (auto simp: sdiv_nonneg)
  have "list_all (\<lambda>(x, y). 0 \<le> (rect_y bounds + (rect_height bounds - t) sdiv 2 + y) * kLogicalWidth +
        (rect_x bounds + (rect_width bounds - t) sdiv 2) + x \<and>
      (rect_y bounds + (rect_height bounds - t) sdiv 2 + y) * kLogicalWidth +
        (rect_x bounds + (rect_width bounds - t) sdiv 2) + x < int (length canvas))
      [(x, y). y \<leftarrow> [0..t - 1], x \<leftarrow> [0..t - 1]]"
  proof -
    have "0 \<le> (rect_y bounds + (rect_height bounds - t) sdiv 2 + y) * kLogicalWidth +
        (rect_x bounds + (rect_width bounds - t) sdiv 2 + x) \<and>
      (rect_y bounds + (rect_height bounds - t) sdiv 2 + y) * kLogicalWidth +
        (rect_x bounds + (rect_width bounds - t) sdiv 2 + x) < kLogicalWidth * kLogicalHeight"
      if "0 \<le> x" "x < t" "0 \<le> y" "y < t" for x y
      using canvas_index [of "rect_x bounds + (rect_width bounds - t) sdiv 2 + x"
          "rect_y bounds + (rect_height bounds - t) sdiv 2 + y"] that mid assms(1-3) by (auto simp: inside_def)
    then show ?thesis using len by (auto simp: list_all_iff add.assoc logical_size)
  qed
  from draw_icon_cells_ok [OF this, of icon t]
  show "\<exists>canvas'. draw_settings_icon icon canvas bounds = Some canvas' \<and> length canvas' = length canvas"
    by (simp add: draw_settings_icon_def Let_def t_def)
qed

section \<open>The menu fits when a system has at most 53 games\<close>

lemma draws_logo:
  assumes "draw_compact_deck_logo pal (Rect x 162 200 200) game = Some logo" "0 \<le> x" "x + 200 \<le> 1280"
  shows "draws_ui logo"
  using assms
  by (auto simp: draw_compact_deck_logo_def draw_compact_power_icon_def Let_def sdiv_nonneg upto.simps
      split: if_splits intro!: drawing simp del: fill_all.simps)

lemma draws_cartridge:
  "0 \<le> x \<Longrightarrow> x + 200 \<le> 1280 \<Longrightarrow> draws_ui (draw_compact_cartridge pal (Rect x 162 200 200) c)"
  unfolding draw_compact_cartridge_def Let_def by (intro draws_seq) (auto intro!: drawing)

lemma draws_game_card:
  assumes "0 \<le> x" "x + 216 \<le> 1280"
  shows "draws_ui (draw_game_card pal (Rect x 154 216 264) game selected)"
proof -
  let ?art = "Rect (x + 8) 162 200 200"
  have art: "draws_ui (if cover_available (cover game) then \<lambda>canvas. draw_cover_square canvas ?art (cover game)
      else (case draw_compact_deck_logo pal ?art game of
              Some logo \<Rightarrow> logo | None \<Rightarrow> draw_compact_cartridge pal ?art (color_pixel (color game))))"
    using draws_logo [of pal "x + 8" game] draws_cartridge [of "x + 8" pal] assms
    by (auto intro!: drawing split: option.split)
  have panel: "draws_ui (\<lambda>canvas. draw_pixel_panel canvas (Rect x 154 216 264) f b kPixelStroke)" for f b
    by (rule draws_panel) (use assms in \<open>simp_all add: kPixelStroke_def\<close>)
  have label: "draws_ui (\<lambda>canvas. draw_centered_text canvas (Rect (x + 8) 370 200 40)
      (fit_text_width (title game) 188 kGameTitleScale) kGameTitleScale (color_pixel (pal kColorText)))"
    by (rule draws_fitted_centered) (use assms in \<open>simp_all add: kGameTitleScale_def\<close>)
  have "draw_game_card pal (Rect x 154 216 264) game selected =
      draw_seq
        [\<lambda>canvas. draw_pixel_panel canvas (Rect x 154 216 264)
           (if selected then color_pixel (pal kColorActive) else color_pixel (pal kColorBackground))
           (color_pixel (pal kColorAccent)) kPixelStroke,
         if cover_available (cover game) then \<lambda>canvas. draw_cover_square canvas ?art (cover game)
         else (case draw_compact_deck_logo pal ?art game of
                 Some logo \<Rightarrow> logo | None \<Rightarrow> draw_compact_cartridge pal ?art (color_pixel (color game))),
         \<lambda>canvas. draw_centered_text canvas (Rect (x + 8) 370 200 40)
           (fit_text_width (title game) 188 kGameTitleScale) kGameTitleScale (color_pixel (pal kColorText))]"
    by (simp add: draw_game_card_def Let_def cong: option.case_cong)
  then show ?thesis using draws_seq [of _ _ "[_, _, _]"] panel art label by simp
qed

lemma listed_systems_known: "set (listed_systems games) \<subseteq> set (map fst kSystemDefinitions)" "length (listed_systems games) \<le> 6"
  "distinct (listed_systems games)"
proof -
  show "set (listed_systems games) \<subseteq> set (map fst kSystemDefinitions)" by (auto simp: listed_systems_def)
  have "length (listed_systems games) \<le> length (map fst kSystemDefinitions)"
    unfolding listed_systems_def by (rule length_filter_le)
  then show "length (listed_systems games) \<le> 6" by (simp add: kSystemDefinitions_def)
  have "distinct (map fst kSystemDefinitions)" by (simp add: kSystemDefinitions_def)
  then show "distinct (listed_systems games)" unfolding listed_systems_def by (rule distinct_filter)
qed

lemma label_length: "s \<in> set (map fst kSystemDefinitions) \<Longrightarrow> length (system_label s) \<le> 11"
  by (auto simp: kSystemDefinitions_def system_label_def)

lemma tab_bounds:
  assumes "i < n" "n \<le> 6"
  shows "188 \<le> tab_width n" "56 \<le> 56 + int i * (tab_width n + 8)" "56 + int i * (tab_width n + 8) + tab_width n \<le> 1224"
proof -
  have n: "0 < int n" "int n \<le> 6" using assms by simp_all
  let ?w = "tab_width n"
  have w: "?w = (1168 - 8 * (int n - 1)) div int n" using n by (simp add: tab_width_def sdiv_nonneg)
  have "1128 div 6 \<le> (1128 :: int) div int n" using n by (intro zdiv_mono2) simp_all
  also have "\<dots> \<le> ?w" unfolding w using n by (intro zdiv_mono1) simp_all
  finally show wide: "188 \<le> ?w" by simp
  show "56 \<le> 56 + int i * (?w + 8)" using wide by simp
  have "?w * int n \<le> 1168 - 8 * (int n - 1)"
    unfolding w using div_mult_mod_eq [of "1168 - 8 * (int n - 1)" "int n"] pos_mod_sign [OF n(1)] by (smt (verit))
  moreover have "(int i + 1) * (?w + 8) \<le> int n * (?w + 8)" using assms(1) wide by (intro mult_right_mono) simp_all
  ultimately show "56 + int i * (?w + 8) + ?w \<le> 1224" by (simp add: algebra_simps)
qed

lemma system_tab:
  assumes "tab \<in> set (system_tabs n)" "n \<le> 6"
  shows "inside tab \<and> 188 \<le> rect_width tab"
proof -
  obtain i where i: "i < n" "tab = Rect (56 + int i * (tab_width n + 8)) 76 (tab_width n) 52"
    using assms(1) by (auto simp: system_tabs_def)
  show ?thesis using tab_bounds [OF i(1) assms(2)] by (simp add: i(2))
qed

lemma draws_tab:
  assumes "(s, tab) \<in> set (zip (listed_systems games) (system_tabs (length (listed_systems games))))"
  shows "draws_ui (draw_tab pal active (s, tab))"
proof -
  have "s \<in> set (listed_systems games)" "tab \<in> set (system_tabs (length (listed_systems games)))"
    using assms by (auto dest: set_zip_leftD set_zip_rightD)
  then have len: "length (system_label s) \<le> 11" and tab: "inside tab" "188 \<le> rect_width tab"
    using label_length listed_systems_known system_tab by (blast, blast, blast)
  have "draws_ui (\<lambda>canvas. draw_centered_text canvas tab (system_label s)
      (fit_text_scale (system_label s) (rect_width tab - 16) 2 1) (color_pixel (pal kColorText)))"
    by (rule draws_fit_centered) (use len tab in auto)
  then show ?thesis
    unfolding draw_tab_def Let_def prod.case
    by (intro draws_seq) (use tab in \<open>auto intro!: draws_panel simp: kPixelStroke_def\<close>)
qed

lemma card_rect:
  assumes "tile \<in> set (card_rects n)" "n \<le> 3"
  shows "\<exists>x. tile = Rect x 154 216 264 \<and> 280 \<le> x \<and> x + 216 \<le> 1000"
proof -
  obtain i where i: "i < n"
    "tile = Rect ((1280 - (int n * 216 + (int n - 1) * 36)) sdiv 2 + int i * 252) 154 216 264"
    using assms(1) by (auto simp: card_rects_def logical_size Let_def)
  then consider "n = 1" "i = 0" | "n = 2" "i = 0" | "n = 2" "i = 1" | "n = 3" "i = 0" | "n = 3" "i = 1" | "n = 3" "i = 2"
    using assms(2) by linarith
  then show ?thesis by cases (simp_all add: i(2) sdiv_nonneg)
qed

lemma draws_arrows:
  assumes "1 < length (game_indices layout) \<longrightarrow>
    game_previous_button layout = Rect 156 232 80 100 \<and> game_next_button layout = Rect 1044 232 80 100"
  shows "draws_ui (draw_arrows pal layout)"
proof (cases "1 < length (game_indices layout)")
  case True
  then show ?thesis
    using assms unfolding draw_arrows_def if_P [OF True]
    by (intro draws_seq)
      (auto simp: draw_outline_arrow_def Let_def arrow_blocks_def sdiv_nonneg intro!: draws_rects' simp del: fill_all.simps)
qed (simp add: draw_arrows_def draws_Some)

lemma draws_status:
  "inside bounds \<Longrightarrow> maximum \<le> rect_width bounds \<Longrightarrow> int (length status) * 6 \<le> rect_width bounds + 1 \<Longrightarrow>
    draws_ui (draw_status pal bounds maximum status)"
  by (cases "status = []") (auto simp: draw_status_def draws_Some intro: draws_fit_centered)

lemma indicator_inside:
  assumes "r \<in> set (indicator_rects n)" "n \<le> 53"
  shows "inside r \<and> rect_width r = 16"
proof -
  obtain i where i: "i < n" "r = Rect ((1280 - (int n * 16 + max 0 (int n - 1) * 8)) sdiv 2 + int i * 24) 438 16 8"
    using assms(1) by (auto simp: indicator_rects_def logical_size Let_def)
  have w: "int n * 16 + max 0 (int n - 1) * 8 = 24 * int n - 8" using i(1) by simp
  have "(1280 - (24 * int n - 8)) sdiv 2 = (1280 - (24 * int n - 8)) div 2" using assms(2) by (simp add: sdiv_nonneg)
  moreover have "0 \<le> (1280 - (24 * int n - 8)) div 2" "2 * ((1280 - (24 * int n - 8)) div 2) \<le> 1280 - (24 * int n - 8)"
    using assms(2) by simp_all
  moreover have "24 * int i + 24 \<le> 24 * int n" using i(1) by simp
  ultimately show ?thesis unfolding i(2) w by simp
qed

text \<open>With more games the first indicator lies left of the canvas, where a fill is undefined.\<close>

lemma draw_seq_None:
  assumes "list_all draws_ui xs" "\<And>canvas. length canvas = nat (kLogicalWidth * kLogicalHeight) \<Longrightarrow> d canvas = None"
    "length canvas = nat (kLogicalWidth * kLogicalHeight)"
  shows "draw_seq (xs @ d # ys) canvas = None"
  using assms(1,3)
proof (induction xs arbitrary: canvas)
  case (Cons x xs)
  then obtain canvas' where "x canvas = Some canvas'" "length canvas' = length canvas"
    by (auto simp: draws_def)
  then show ?case using Cons by simp
qed (simp add: assms(2))

lemma fill_all_None:
  assumes "list_ex (\<lambda>rc. \<not> fill_defined kLogicalWidth kLogicalHeight (fst rc)) rcs"
    "length canvas = nat (kLogicalWidth * kLogicalHeight)"
  shows "fill_all fill_rect rcs canvas = None"
  using assms
proof (induction rcs arbitrary: canvas)
  case (Cons rc rcs)
  obtain r c where rc: "rc = (r, c)" by fastforce
  show ?case
  proof (cases "fill_defined kLogicalWidth kLogicalHeight r")
    case True
    then obtain canvas' where "fill_rect canvas r c = Some canvas'" "length canvas' = length canvas"
      using ui.fill_pixels [OF Cons.prems(2) True, of c] by blast
    then show ?thesis using Cons True rc by simp
  next
    case False
    then have "fill_rect canvas r c = None"
      using fill_clipped_undefined [OF Cons.prems(2)] by (simp add: fill_rect_def)
    then show ?thesis using rc by simp
  qed
qed simp

lemma first_indicator_outside:
  assumes "54 \<le> n" "length canvas = nat (kLogicalWidth * kLogicalHeight)"
  shows "\<exists>r rs. indicator_rects n = r # rs \<and> draw_indicator pal k (0, r) canvas = None"
proof -
  let ?x = "(1280 - (24 * int n - 8)) sdiv 2"
  have w: "int n * 16 + max 0 (int n - 1) * 8 = 24 * int n - 8" using assms(1) by simp
  have ind: "indicator_rects n = Rect ?x 438 16 8 # tl (indicator_rects n)"
    using upt_conv_Cons [of 0 n] assms(1) unfolding indicator_rects_def Let_def w by (simp add: logical_size)
  have "?x = - ((24 * int n - 1288) div 2)"
    using sdiv_minus_left [of "24 * int n - 1288" 2] assms(1) by (simp add: sdiv_nonneg)
  then have "?x \<le> - 4" using assms(1) by simp
  then have "\<not> fill_defined kLogicalWidth kLogicalHeight (Rect ?x 438 2 8)"
    by (simp add: fill_defined_def logical_size)
  then have "draw_indicator pal k (0, Rect ?x 438 16 8) canvas = None"
    unfolding draw_indicator_def stroke_rect_def Let_def snd_conv
    by (intro fill_all_None) (use assms(2) in simp_all)
  then show ?thesis using ind by metis
qed

definition before_indicators ::
  "palette \<Rightarrow> SettingsIconImage \<Rightarrow> GameEntry list \<Rightarrow> string \<Rightarrow> nat \<Rightarrow> (Canvas \<Rightarrow> Canvas option) list" where
  "before_indicators pal icon games active_system game_position =
     (let layout = menu_layout games active_system game_position
      in [\<lambda>canvas. draw_centered_text canvas (credits_button layout) ''(c)'' 2 (color_pixel (pal kColorFooter)),
          \<lambda>canvas. draw_settings_icon icon canvas (settings_button layout)] @
         map (draw_tab pal active_system) (zip (systems layout) (system_buttons layout)) @
         map (\<lambda>(game_index, tile). draw_game_card pal tile (games ! game_index) (game_index = shown_game_index layout))
           (zip (visible_game_indices layout) (game_buttons layout)) @
         [draw_arrows pal layout])"

lemma menu_steps_split:
  "menu_steps pal icon games active pos status =
     before_indicators pal icon games active pos @
     map (draw_indicator pal (pos mod length (games_of_system games active)))
       (enumerate 0 (indicator_rects (length (games_of_system games active)))) @
     [draw_status pal (Rect 100 452 (kLogicalWidth - 200) 24) (kLogicalWidth - 220) status]"
  by (simp add: menu_steps_def before_indicators_def menu_layout_def Let_def)

lemma before_indicators_draw: "list_all draws_ui (before_indicators pal icon games active pos)"
proof -
  let ?L = "menu_layout games active pos"
  have cards: "draws_ui (draw_game_card pal tile game sel)" if "tile \<in> set (card_rects (min 3 n))" for tile game sel n
    using card_rect [OF that] draws_game_card by auto
  have "draws_ui (draw_arrows pal ?L)"
    by (rule draws_arrows) (auto simp: menu_layout_def Let_def)
  moreover have "list_all draws_ui (map (\<lambda>(game_index, tile). draw_game_card pal tile (games ! game_index)
      (game_index = shown_game_index ?L)) (zip (visible_game_indices ?L) (game_buttons ?L)))"
    using cards by (auto simp: list_all_iff menu_layout_def Let_def dest!: set_zip_rightD)
  moreover have "list_all draws_ui (map (draw_tab pal active) (zip (systems ?L) (system_buttons ?L)))"
    using draws_tab by (auto simp: list_all_iff menu_layout_def Let_def)
  moreover have "draws_ui (\<lambda>canvas. draw_centered_text canvas (credits_button ?L) ''(c)'' 2 (color_pixel (pal kColorFooter)))"
    "draws_ui (\<lambda>canvas. draw_settings_icon icon canvas (settings_button ?L))"
    by (auto simp: menu_layout_def Let_def intro!: drawing)
  ultimately show ?thesis unfolding before_indicators_def Let_def by simp
qed

text \<open>
  C36. The game menu is drawn without undefined behaviour exactly when the selected system has at
  most 53 games, whatever the games, covers, selection and (short) status are.  A catalogue may
  have 64 games: from 54 on, the first position indicator lies left of the canvas, and its fill
  passes \<open>std::fill\<close> an inverted range.
\<close>
theorem render_menu_defined_iff:
  assumes "length status \<le> 180"
  shows "(\<exists>canvas. fst (render_menu pal icon games active pos status) = Some canvas \<and> length canvas = 1280 * 480) \<longleftrightarrow>
    length (games_of_system games active) \<le> 53"
proof -
  let ?n = "length (games_of_system games active)" and ?blank = "blank_canvas (color_pixel (pal kColorBackground))"
  have blank: "length ?blank = nat (kLogicalWidth * kLogicalHeight)"
    unfolding blank_canvas_def by (rule length_replicate)
  have "draws_ui (draw_status pal (Rect 100 452 (kLogicalWidth - 200) 24) (kLogicalWidth - 220) status)"
    by (rule draws_status) (use assms in \<open>simp_all add: logical_size\<close>)
  moreover have "draws_ui (draw_indicator pal k ir)" if "snd ir \<in> set (indicator_rects ?n)" "?n \<le> 53" for k ir
    using indicator_inside [OF that] unfolding draw_indicator_def by (intro draws_stroke) auto
  ultimately have "?n \<le> 53 \<Longrightarrow> list_all draws_ui (menu_steps pal icon games active pos status)"
    using before_indicators_draw unfolding menu_steps_split
    by (auto simp: list_all_iff in_set_enumerate_eq)
  then have good: "?n \<le> 53 \<Longrightarrow> \<exists>canvas. draw_seq (menu_steps pal icon games active pos status) ?blank = Some canvas \<and>
      length canvas = 1280 * 480"
    using draws_seq [of kLogicalWidth kLogicalHeight] blank by (auto simp: draws_def logical_size)
  moreover have "draw_seq (menu_steps pal icon games active pos status) ?blank = None" if "\<not> ?n \<le> 53"
  proof -
    have n: "54 \<le> ?n" using that by simp
    let ?k = "pos mod ?n"
    obtain r rs where r: "indicator_rects ?n = r # rs"
      using first_indicator_outside [OF n blank] by blast
    have none: "draw_indicator pal ?k (0, r) canvas = None" if "length canvas = nat (kLogicalWidth * kLogicalHeight)" for canvas
      using first_indicator_outside [OF n that, of pal ?k] r by auto
    have split: "menu_steps pal icon games active pos status =
        before_indicators pal icon games active pos @ draw_indicator pal ?k (0, r) #
        (map (draw_indicator pal ?k) (enumerate (Suc 0) rs) @
         [draw_status pal (Rect 100 452 (kLogicalWidth - 200) 24) (kLogicalWidth - 220) status])"
      unfolding menu_steps_split r by simp
    show ?thesis unfolding split by (rule draw_seq_None [OF before_indicators_draw none blank])
  qed
  ultimately show ?thesis by (cases "?n \<le> 53") (auto simp: render_menu_def)
qed

theorem render_menu_defined_iff_witness:
  "fst (render_menu (\<lambda>_. rgb 0 0 0) cleared_icon (replicate 54 (built_in_reboot_entry ''/sbin/reboot'')) ''deck'' 0 []) = None \<or>
   (\<forall>canvas. fst (render_menu (\<lambda>_. rgb 0 0 0) cleared_icon (replicate 54 (built_in_reboot_entry ''/sbin/reboot'')) ''deck'' 0 []) = Some canvas \<longrightarrow>
      length canvas \<noteq> 1280 * 480)"
proof -
  have "length (games_of_system (replicate 54 (built_in_reboot_entry ''/sbin/reboot'')) ''deck'') = 54"
    by (simp add: games_of_system_def built_in_reboot_entry_def built_in_entry_def)
  with render_menu_defined_iff [of "[]" "\<lambda>_. rgb 0 0 0" cleared_icon "replicate 54 (built_in_reboot_entry ''/sbin/reboot'')" "''deck''" 0]
  show ?thesis by auto
qed

section \<open>Every touch reaches the button it is on\<close>

text \<open>The buttons of a screen with their targets, in the order in which the source tests them.\<close>

definition menu_buttons :: "MenuLayout \<Rightarrow> (Rect \<times> int) list" where
  "menu_buttons layout =
     [(credits_button layout, MenuTargetCredits), (settings_button layout, MenuTargetSettings),
      (game_previous_button layout, MenuTargetGamePrevious), (game_next_button layout, MenuTargetGameNext)] @
     map (\<lambda>(index, r). (r, MenuTargetSystemBase + int index)) (enumerate 0 (system_buttons layout)) @
     map (\<lambda>(r, i). (r, int i)) (zip (game_buttons layout) (visible_game_indices layout))"

definition apart :: "Rect \<Rightarrow> Rect \<Rightarrow> bool" where
  "apart r s = (rect_width r \<le> 0 \<or> rect_width s \<le> 0 \<or>
     rect_x r + rect_width r \<le> rect_x s \<or> rect_x s + rect_width s \<le> rect_x r \<or>
     rect_y r + rect_height r \<le> rect_y s \<or> rect_y s + rect_height s \<le> rect_y r)"

lemma apart_contains: "apart r s \<Longrightarrow> rect_contains r x y \<Longrightarrow> \<not> rect_contains s x y"
  by (cases r; cases s) (auto simp: apart_def)

fun first_hit :: "(Rect \<times> int) list \<Rightarrow> int \<Rightarrow> int \<Rightarrow> int option" where
  "first_hit [] x y = None"
| "first_hit ((r, t) # bs) x y = (if rect_contains r x y then Some t else first_hit bs x y)"

lemma first_hit_append:
  "first_hit (xs @ ys) x y = (case first_hit xs x y of Some t \<Rightarrow> Some t | None \<Rightarrow> first_hit ys x y)"
  by (induction xs) auto

lemma first_hit_None: "first_hit bs x y = None \<longleftrightarrow> list_all (\<lambda>b. \<not> rect_contains (fst b) x y) bs"
  by (induction bs) (auto split: if_splits)

lemma first_hit_unique:
  "sorted_wrt (\<lambda>a b. apart (fst a) (fst b)) bs \<Longrightarrow> (r, t) \<in> set bs \<Longrightarrow> rect_contains r x y \<Longrightarrow> first_hit bs x y = Some t"
proof (induction bs)
  case (Cons b bs)
  obtain r' t' where b: "b = (r', t')" by fastforce
  show ?case
  proof (cases "(r, t) = b")
    case False
    then have mem: "(r, t) \<in> set bs" using Cons.prems(2) by auto
    then have "apart r' r" using Cons.prems(1) b by force
    then have "\<not> rect_contains r' x y" using apart_contains Cons.prems(3) by blast
    then show ?thesis using Cons.IH [OF _ mem Cons.prems(3)] Cons.prems(1) b by simp
  qed (use Cons.prems b in auto)
qed simp

lemma system_target_hit:
  "system_target_from rs (int k) x y =
     first_hit (map (\<lambda>(index, r). (r, MenuTargetSystemBase + int index)) (enumerate k rs)) x y"
proof (induction rs arbitrary: k)
  case (Cons r rs)
  then show ?case using Cons [of "Suc k"] by (simp add: add.commute)
qed simp

lemma game_target_hit:
  "list_all (\<lambda>i. i < INT_MAX) is \<Longrightarrow>
    game_target_from rs is x y = first_hit (map (\<lambda>(r, i). (r, int i)) (zip rs is)) x y"
  by (induction rs "is" x y rule: game_target_from.induct) auto

lemma target_at_hit:
  "list_all (\<lambda>i. i < INT_MAX) (visible_game_indices L) \<Longrightarrow>
    target_at L x y = (case first_hit (menu_buttons L) x y of Some t \<Rightarrow> t | None \<Rightarrow> MenuTargetNone)"
  using system_target_hit [of "system_buttons L" 0 x y]
  by (simp add: target_at_def menu_buttons_def first_hit_append game_target_hit split: option.split)

lemma tabs_apart: "n \<le> 6 \<Longrightarrow> sorted_wrt apart (system_tabs n)"
proof -
  assume n: "n \<le> 6"
  have "apart (Rect (56 + int i * (tab_width n + 8)) 76 (tab_width n) 52)
      (Rect (56 + int j * (tab_width n + 8)) 76 (tab_width n) 52)" if "i < j" "j < n" for i j
  proof -
    have "188 \<le> tab_width n" using tab_bounds(1) [of j n] that n by simp
    moreover have "(int i + 1) * (tab_width n + 8) \<le> int j * (tab_width n + 8)"
      using that calculation by (intro mult_right_mono) simp_all
    ultimately show ?thesis by (simp add: apart_def algebra_simps)
  qed
  then show ?thesis by (simp add: system_tabs_def sorted_wrt_iff_nth_less)
qed

lemma cards_apart: "n \<le> 3 \<Longrightarrow> sorted_wrt apart (card_rects n)"
  by (auto simp: card_rects_def sorted_wrt_iff_nth_less apart_def Let_def)

lemma sorted_wrt_appendI:
  "sorted_wrt P xs \<Longrightarrow> sorted_wrt P ys \<Longrightarrow> \<forall>x\<in>set xs. \<forall>y\<in>set ys. P x y \<Longrightarrow> sorted_wrt P (xs @ ys)"
  by (simp add: sorted_wrt_append)

lemma menu_buttons_apart:
  "sorted_wrt (\<lambda>a b. apart (fst a) (fst b)) (menu_buttons (menu_layout games active pos))"
proof -
  let ?n = "length (listed_systems games)" and ?L = "menu_layout games active pos"
  have n: "?n \<le> 6" by (rule listed_systems_known)
  have tab: "\<exists>x w. r = Rect x 76 w 52 \<and> 56 \<le> x \<and> x + w \<le> 1224" if "r \<in> set (system_tabs ?n)" for r
    using that tab_bounds n by (auto simp: system_tabs_def)
  have tabs: "sorted_wrt (\<lambda>a b. apart (fst a) (fst b))
      (map (\<lambda>(index, r). (r, MenuTargetSystemBase + int index)) (enumerate 0 (system_tabs ?n)))"
  proof -
    have "sorted_wrt apart (map fst (map (\<lambda>(index, r). (r, MenuTargetSystemBase + int index)) (enumerate 0 (system_tabs ?n))))"
      using tabs_apart [OF n] by (simp add: comp_def case_prod_beta)
    then show ?thesis by (simp only: sorted_wrt_map)
  qed
  have cards: "sorted_wrt (\<lambda>a b. apart (fst a) (fst b)) (map (\<lambda>(r, i). (r, int i)) (zip (card_rects m) is))"
    if "m \<le> 3" "length is = m" for m "is"
  proof -
    have eq: "map fst (map (\<lambda>(r, i). (r, int i)) (zip (card_rects m) is)) = card_rects m"
      using that(2) by (simp add: comp_def case_prod_beta card_rects_def Let_def)
    have "sorted_wrt apart (map fst (map (\<lambda>(r, i). (r, int i)) (zip (card_rects m) is)))"
      by (simp only: eq cards_apart [OF that(1)])
    then show ?thesis by (simp only: sorted_wrt_map)
  qed
  have tab_card: "apart r s" if "r \<in> set (system_tabs ?n)" "s \<in> set (card_rects m)" "m \<le> 3" for r s m
    using tab [OF that(1)] card_rect [OF that(2,3)] by (auto simp: apart_def)
  have fixed_tab: "apart f r" if "r \<in> set (system_tabs ?n)"
    "f \<in> {Rect 12 412 56 56, Rect 1212 412 56 56, Rect 156 232 80 100, Rect 1044 232 80 100, Rect 0 0 0 0}" for f r
    using tab [OF that(1)] that(2) by (auto simp: apart_def)
  have fixed_card: "apart f s" if "s \<in> set (card_rects m)" "m \<le> 3"
    "f \<in> {Rect 12 412 56 56, Rect 1212 412 56 56, Rect 156 232 80 100, Rect 1044 232 80 100, Rect 0 0 0 0}" for f s m
    using card_rect [OF that(1,2)] that(3) by (auto simp: apart_def)
  let ?count = "length (games_of_system games active)"
  let ?A = "[(credits_button ?L, MenuTargetCredits), (settings_button ?L, MenuTargetSettings),
      (game_previous_button ?L, MenuTargetGamePrevious), (game_next_button ?L, MenuTargetGameNext)]"
    and ?B = "map (\<lambda>(index, r). (r, MenuTargetSystemBase + int index)) (enumerate 0 (system_tabs ?n))"
    and ?C = "map (\<lambda>(r, i). (r, int i)) (zip (card_rects (min 3 ?count)) (visible_game_indices ?L))"
  have L: "credits_button ?L = Rect 12 412 56 56" "settings_button ?L = Rect 1212 412 56 56"
    "game_previous_button ?L = (if 1 < ?count \<or> ?count = 0 then Rect 156 232 80 100 else Rect 0 0 0 0)"
    "game_next_button ?L = (if 1 < ?count \<or> ?count = 0 then Rect 1044 232 80 100 else Rect 0 0 0 0)"
    "system_buttons ?L = system_tabs ?n" "game_buttons ?L = card_rects (min 3 ?count)"
    "length (visible_game_indices ?L) = min 3 ?count"
    by (simp_all add: menu_layout_def Let_def)
  have A: "sorted_wrt (\<lambda>a b. apart (fst a) (fst b)) ?A" unfolding L by (simp add: apart_def)
  have Aset: "fst a \<in> {Rect 12 412 56 56, Rect 1212 412 56 56, Rect 156 232 80 100, Rect 1044 232 80 100, Rect 0 0 0 0}"
    if "a \<in> set ?A" for a using that unfolding L by (auto split: if_splits)
  have Bset: "fst b \<in> set (system_tabs ?n)" if "b \<in> set ?B" for b
    using that by (auto simp: in_set_enumerate_eq)
  have Cset: "fst c \<in> set (card_rects (min 3 ?count))" if "c \<in> set ?C" for c
    using that by (auto dest: set_zip_leftD)
  have AB: "\<forall>a\<in>set ?A. \<forall>b\<in>set ?B. apart (fst a) (fst b)"
    using fixed_tab [OF Bset Aset] by blast
  have AC: "\<forall>a\<in>set ?A. \<forall>c\<in>set ?C. apart (fst a) (fst c)"
    using fixed_card [OF Cset _ Aset] by (meson min.cobounded1)
  have BC: "\<forall>b\<in>set ?B. \<forall>c\<in>set ?C. apart (fst b) (fst c)"
    using tab_card [OF Bset Cset] by (meson min.cobounded1)
  have C: "sorted_wrt (\<lambda>a b. apart (fst a) (fst b)) ?C" by (rule cards) (simp_all add: L(7))
  have buttons: "menu_buttons ?L = ?A @ ?B @ ?C" by (simp add: menu_buttons_def L(5,6))
  have "\<forall>a\<in>set ?A. \<forall>b\<in>set (?B @ ?C). apart (fst a) (fst b)"
    using AB AC by (simp only: set_append ball_Un) blast
  then show ?thesis
    unfolding buttons by (rule sorted_wrt_appendI [OF A sorted_wrt_appendI [OF tabs C BC]])
qed

text \<open>
  C35. On the game menu every touch reaches exactly the button it is on: whatever the games,
  selected system and position are, the buttons do not overlap, a touch on a button gives its
  target, a system's tab its position in the list and a card its game's index, and a touch
  beside all buttons gives no target.
\<close>
theorem menu_target_exact:
  assumes "length games < INT_MAX" "L = menu_layout games active pos"
  shows "((r, t) \<in> set (menu_buttons L) \<and> rect_contains r x y \<longrightarrow> target_at L x y = t) \<and>
    (list_all (\<lambda>b. \<not> rect_contains (fst b) x y) (menu_buttons L) \<longrightarrow> target_at L x y = MenuTargetNone) \<and>
    list_all (\<lambda>i. i < length games \<and> system (games ! i) = active) (visible_game_indices L)"
proof -
  let ?is = "games_of_system games active"
  have mem: "i < length games \<and> system (games ! i) = active" if "i \<in> set ?is" for i
    using that by (auto simp: games_of_system_def)
  have window: "first_position n k + v < n" if "v < min 3 n" "k < n" for n k v
    using that by (auto simp: first_position_def Let_def)
  have vis: "list_all (\<lambda>i. i < length games \<and> system (games ! i) = active) (visible_game_indices L)"
    unfolding list_all_iff
  proof
    fix i assume "i \<in> set (visible_game_indices L)"
    then obtain v where v: "v < min 3 (length ?is)"
      "i = ?is ! (first_position (length ?is) (pos mod length ?is) + v)"
      by (auto simp: assms(2) menu_layout_def Let_def)
    moreover have "pos mod length ?is < length ?is" using v(1) by (intro mod_less_divisor) linarith
    ultimately show "i < length games \<and> system (games ! i) = active"
      using mem nth_mem window by metis
  qed
  then have small: "list_all (\<lambda>i. i < INT_MAX) (visible_game_indices L)"
    using assms(1) by (auto simp: list_all_iff)
  show ?thesis
    using vis target_at_hit [OF small, of x y] first_hit_None [of "menu_buttons L" x y]
      first_hit_unique [OF menu_buttons_apart, of r t games active pos x y]
    unfolding assms(2) by auto
qed

theorem menu_target_exact_witness:
  "target_at (menu_layout [built_in_reboot_entry ''/sbin/reboot''] ''deck'' 0) 640 300 = 0"
proof -
  let ?L = "menu_layout [built_in_reboot_entry ''/sbin/reboot''] ''deck'' 0"
  have "(Rect 532 154 216 264, 0) \<in> set (menu_buttons ?L)" by code_simp
  with menu_target_exact [of "[built_in_reboot_entry ''/sbin/reboot'']" ?L "''deck''" 0 "Rect 532 154 216 264" 0 640 300]
  show ?thesis by (simp add: INT_MAX_def)
qed

end
