(* ===== verification/Menu_Touch.thy ===== *)
theory Menu_Touch
  imports Menu_UI Evdev "HOL-Library.List_Lexorder" "HOL-Library.Char_ord" "HOL-Library.Multiset"
begin

section \<open>The dashboard's touchscreen (\<open>src/deck_menu.cpp\<close>)\<close>

text \<open>
  Discovery of the touchscreen among \<open>/dev/input\<close> and the reports read from it.  A directory
  entry carries the answers to the calls the discovery makes on it; the reading loop consumes a
  script of \<open>read\<close> results whose events carry the answers a resynchronisation at them would
  get.  Descriptors the code closes are returned, so that leaks can be ruled out.
\<close>

subsection \<open>Entries of \<open>/dev/input\<close>\<close>

record device_node =
  dn_name :: string
  dn_fd :: int
  dn_identity :: "(nat \<times> nat) option"
  dn_label :: "string option"
  dn_phys :: "string option"
  dn_x :: "absinfo option"
  dn_y :: "absinfo option"
  dn_key_bits :: "nat list option"
  dn_keys :: "nat list option"
  dn_grab :: bool

text \<open>The answers to the resynchronising calls: both axes and the codes of the pressed keys.\<close>

record resync_answers =
  ra_x :: "absinfo option"
  ra_y :: "absinfo option"
  ra_keys :: "nat list option"

definition event_node_name :: "string \<Rightarrow> bool" where
  "event_node_name name =
     (if length name \<le> 5 \<or> take 5 name \<noteq> ''event'' then False else list_all is_digit (drop 5 name))"

definition node_path :: "device_node \<Rightarrow> string" where
  "node_path n = ''/dev/input/'' @ dn_name n"

definition event_nodes :: "device_node list \<Rightarrow> device_node list" where
  "event_nodes = filter (\<lambda>n. event_node_name (dn_name n))"

definition bit_is_set :: "nat list \<Rightarrow> nat \<Rightarrow> bool" where
  "bit_is_set bits b = (b \<in> set bits)"

definition BTN_TOUCH :: nat where "BTN_TOUCH = 0x14a"

definition string_contains :: "string \<Rightarrow> string \<Rightarrow> bool" where
  "string_contains hay needle = list_ex (\<lambda>i. take (length needle) (drop i hay) = needle) [0..<length hay + 1]"

subsection \<open>The device\<close>

record TouchReport =
  rep_x :: int
  rep_y :: int
  rep_down :: bool
  rep_pressed :: bool
  rep_released :: bool

record TouchDevice =
  tc_fd :: int
  tc_x :: int
  tc_y :: int
  tc_current_down :: bool
  tc_reported_down :: bool
  tc_dropping :: bool
  tc_grabbed :: bool

definition created_touch :: TouchDevice where
  "created_touch = \<lparr>tc_fd = - 1, tc_x = 0, tc_y = 0, tc_current_down = False, tc_reported_down = False,
     tc_dropping = False, tc_grabbed = False\<rparr>"

datatype touch_error =
    CannotOpenInput | TouchscreenNotFound | UnexpectedCapabilities
  | TouchReadFailed | TouchDisconnected | TouchPartialEvent | TouchNotOpen

definition clamp_touch_x :: "int \<Rightarrow> int" where "clamp_touch_x v = max 0 (min (kLogicalWidth - 1) v)"
definition clamp_touch_y :: "int \<Rightarrow> int" where "clamp_touch_y v = max 0 (min (kLogicalHeight - 1) v)"

text \<open>The released descriptor and the device afterwards; its position stays.\<close>

definition touch_close_device :: "TouchDevice \<Rightarrow> TouchDevice \<times> int list" where
  "touch_close_device t =
     (t\<lparr>tc_fd := - 1, tc_grabbed := False, tc_current_down := False, tc_reported_down := False,
        tc_dropping := False\<rparr>,
      if 0 \<le> tc_fd t then [tc_fd t] else [])"

definition is_goodix :: "device_node \<Rightarrow> bool" where
  "is_goodix n =
     (case dn_label n of None \<Rightarrow> False | Some label \<Rightarrow> string_contains label ''Goodix Capacitive TouchScreen'')"

definition touch_capable :: "device_node \<Rightarrow> bool" where
  "touch_capable n =
     (case (dn_x n, dn_y n, dn_key_bits n) of
        (Some x, Some y, Some bits) \<Rightarrow>
          bit_is_set bits BTN_TOUCH \<and> abs_minimum x = 0 \<and> abs_maximum x = kLogicalWidth - 1 \<and>
          abs_minimum y = 0 \<and> abs_maximum y = kLogicalHeight - 1
      | _ \<Rightarrow> False)"

text \<open>The first usable node, whether a Goodix device was rejected, and the closed descriptors.\<close>

fun probe_touchscreens :: "device_node list \<Rightarrow> bool \<Rightarrow> int list \<Rightarrow> device_node option \<times> bool \<times> int list" where
  "probe_touchscreens [] rejected closed = (None, rejected, closed)"
| "probe_touchscreens (n # ns) rejected closed =
     (if dn_fd n < 0 then probe_touchscreens ns rejected closed
      else if \<not> is_goodix n then probe_touchscreens ns rejected (closed @ [dn_fd n])
      else if \<not> touch_capable n then probe_touchscreens ns True (closed @ [dn_fd n])
      else (Some n, rejected, closed))"

definition attach_touchscreen :: "device_node \<Rightarrow> TouchDevice \<Rightarrow> TouchDevice" where
  "attach_touchscreen n t =
     (let down = (case dn_keys n of Some keys \<Rightarrow> bit_is_set keys BTN_TOUCH | None \<Rightarrow> False)
      in t\<lparr>tc_fd := dn_fd n,
           tc_x := (case dn_x n of Some x \<Rightarrow> clamp_touch_x (abs_value x) | None \<Rightarrow> tc_x t),
           tc_y := (case dn_y n of Some y \<Rightarrow> clamp_touch_y (abs_value y) | None \<Rightarrow> tc_y t),
           tc_current_down := down, tc_reported_down := down, tc_dropping := False,
           tc_grabbed := (dn_grab n \<or> tc_grabbed t)\<rparr>)"

text \<open>\<open>None\<close>: the directory cannot be opened.\<close>

definition touch_discover ::
  "device_node list option \<Rightarrow> TouchDevice \<Rightarrow> (touch_error + unit) \<times> TouchDevice \<times> int list" where
  "touch_discover directory t =
     (let (t1, closed) = touch_close_device t
      in case directory of
           None \<Rightarrow> (Inl CannotOpenInput, t1, closed)
         | Some nodes \<Rightarrow>
             (case probe_touchscreens (sort_key node_path (event_nodes nodes)) False closed of
                (Some n, rejected, closed') \<Rightarrow> (Inr (), attach_touchscreen n t1, closed')
              | (None, rejected, closed') \<Rightarrow>
                  (Inl (if rejected then UnexpectedCapabilities else TouchscreenNotFound), t1, closed')))"

subsection \<open>Reports\<close>

definition touch_resynchronize :: "resync_answers \<Rightarrow> TouchDevice \<Rightarrow> TouchDevice" where
  "touch_resynchronize a t =
     t\<lparr>tc_x := (case ra_x a of Some x \<Rightarrow> clamp_touch_x (abs_value x) | None \<Rightarrow> tc_x t),
       tc_y := (case ra_y a of Some y \<Rightarrow> clamp_touch_y (abs_value y) | None \<Rightarrow> tc_y t),
       tc_current_down := (case ra_keys a of Some keys \<Rightarrow> bit_is_set keys BTN_TOUCH | None \<Rightarrow> tc_current_down t)\<rparr>"

definition touch_report :: "TouchDevice \<Rightarrow> TouchReport" where
  "touch_report t =
     \<lparr>rep_x = tc_x t, rep_y = tc_y t, rep_down = tc_current_down t,
      rep_pressed = (tc_current_down t \<and> \<not> tc_reported_down t),
      rep_released = (\<not> tc_current_down t \<and> tc_reported_down t)\<rparr>"

definition touch_event ::
  "resync_answers \<Rightarrow> input_event \<Rightarrow> TouchDevice \<times> TouchReport list \<Rightarrow> TouchDevice \<times> TouchReport list" where
  "touch_event a e tr =
     (let (t, reports) = tr
      in if tc_dropping t
         then (if ev_type e = EV_SYN \<and> ev_code e = SYN_REPORT
               then (let t1 = touch_resynchronize a t
                     in (t1\<lparr>tc_reported_down := tc_current_down t1, tc_dropping := False\<rparr>, reports @ [touch_report t1]))
               else (t, reports))
         else if ev_type e = EV_SYN \<and> ev_code e = SYN_DROPPED then (t\<lparr>tc_dropping := True\<rparr>, reports)
         else if ev_type e = EV_ABS \<and> ev_code e = ABS_X then (t\<lparr>tc_x := clamp_touch_x (ev_value e)\<rparr>, reports)
         else if ev_type e = EV_ABS \<and> ev_code e = ABS_Y then (t\<lparr>tc_y := clamp_touch_y (ev_value e)\<rparr>, reports)
         else if ev_type e = EV_KEY \<and> ev_code e = BTN_TOUCH then (t\<lparr>tc_current_down := (ev_value e \<noteq> 0)\<rparr>, reports)
         else if ev_type e = EV_SYN \<and> ev_code e = SYN_REPORT
         then (t\<lparr>tc_reported_down := tc_current_down t\<rparr>, reports @ [touch_report t])
         else (t, reports))"

fun touch_read_loop ::
  "(resync_answers \<times> input_event) read_result list \<Rightarrow> TouchDevice \<times> TouchReport list \<Rightarrow>
     (touch_error + unit) \<times> TouchDevice \<times> TouchReport list" where
  "touch_read_loop [] tr = (Inr (), tr)"
| "touch_read_loop (Interrupted # rs) tr = touch_read_loop rs tr"
| "touch_read_loop (Would_block # rs) tr = (Inr (), tr)"
| "touch_read_loop (Read_failed # rs) tr = (Inl TouchReadFailed, tr)"
| "touch_read_loop (Partial_event # rs) tr = (Inl TouchPartialEvent, tr)"
| "touch_read_loop (Data es # rs) tr =
     (if es = [] then (Inl TouchDisconnected, tr)
      else touch_read_loop rs (foldl (\<lambda>tr (a, e). touch_event a e tr) tr es))"

definition read_reports ::
  "(resync_answers \<times> input_event) read_result list \<Rightarrow> TouchDevice \<Rightarrow>
     (touch_error + unit) \<times> TouchDevice \<times> TouchReport list" where
  "read_reports script t = (if tc_fd t < 0 then (Inl TouchNotOpen, t, []) else touch_read_loop script (t, []))"

text \<open>\<open>reconnect_touch\<close>: whether a device is there, when the last attempt was made.\<close>

definition reconnect_touch ::
  "device_node list option \<Rightarrow> int \<Rightarrow> int \<Rightarrow> TouchDevice \<Rightarrow> bool \<times> int \<times> TouchDevice \<times> int list" where
  "reconnect_touch directory now last_attempt t =
     (if 0 \<le> tc_fd t then (True, last_attempt, t, [])
      else if now - last_attempt < 1000 then (False, last_attempt, t, [])
      else (let (r, t1, closed) = touch_discover directory t
            in (case r of Inr _ \<Rightarrow> True | Inl _ \<Rightarrow> False, now, t1, closed)))"

section \<open>Reports are consistent\<close>

text \<open>
  The contract of a list of reports after a report with the finger up or down: presses and
  releases are exactly the changes, and every position is on the display.
\<close>

fun reports_chain :: "bool \<Rightarrow> TouchReport list \<Rightarrow> bool" where
  "reports_chain previous [] = True"
| "reports_chain previous (r # rs) =
     (rep_pressed r = (rep_down r \<and> \<not> previous) \<and> rep_released r = (\<not> rep_down r \<and> previous) \<and>
      reports_chain (rep_down r) rs)"

definition last_down :: "bool \<Rightarrow> TouchReport list \<Rightarrow> bool" where
  "last_down previous rs = (if rs = [] then previous else rep_down (last rs))"

definition on_display :: "int \<Rightarrow> int \<Rightarrow> bool" where
  "on_display x y = (0 \<le> x \<and> x < kLogicalWidth \<and> 0 \<le> y \<and> y < kLogicalHeight)"

definition reports_ok :: "bool \<Rightarrow> TouchDevice \<times> TouchReport list \<Rightarrow> bool" where
  "reports_ok previous tr =
     (on_display (tc_x (fst tr)) (tc_y (fst tr)) \<and> reports_chain previous (snd tr) \<and>
      tc_reported_down (fst tr) = last_down previous (snd tr) \<and>
      list_all (\<lambda>r. on_display (rep_x r) (rep_y r)) (snd tr))"

lemma reports_chain_snoc:
  "reports_chain previous (rs @ [r]) \<longleftrightarrow> reports_chain previous rs \<and>
     rep_pressed r = (rep_down r \<and> \<not> last_down previous rs) \<and>
     rep_released r = (\<not> rep_down r \<and> last_down previous rs)"
  by (induction rs arbitrary: previous) (auto simp: last_down_def)

lemma last_down_snoc [simp]: "last_down previous (rs @ [r]) = rep_down r"
  by (simp add: last_down_def)

lemma clamp_on_display: "on_display x y \<Longrightarrow> on_display (clamp_touch_x v) y"
  "on_display x y \<Longrightarrow> on_display x (clamp_touch_y v)"
  "on_display (clamp_touch_x u) (clamp_touch_y v)"
  by (auto simp: on_display_def clamp_touch_x_def clamp_touch_y_def kLogicalWidth_def kLogicalHeight_def)

lemma resynchronize_on_display:
  "on_display (tc_x t) (tc_y t) \<Longrightarrow> on_display (tc_x (touch_resynchronize a t)) (tc_y (touch_resynchronize a t))"
  by (auto simp: touch_resynchronize_def clamp_on_display split: option.split)

lemma resynchronize_reported [simp]: "tc_reported_down (touch_resynchronize a t) = tc_reported_down t"
  by (simp add: touch_resynchronize_def)

lemma touch_report_ok:
  assumes "reports_ok previous (t, reports)"
  shows "reports_ok previous (t\<lparr>tc_reported_down := tc_current_down t\<rparr>, reports @ [touch_report t])"
  using assms by (auto simp: reports_ok_def reports_chain_snoc touch_report_def)

lemma touch_event_ok:
  assumes "reports_ok previous tr"
  shows "reports_ok previous (touch_event a e tr)"
proof -
  obtain t reports where tr: "tr = (t, reports)" by fastforce
  let ?t1 = "touch_resynchronize a t"
  have "reports_ok previous (?t1, reports)"
    using assms by (auto simp: tr reports_ok_def resynchronize_on_display)
  from touch_report_ok [OF this]
  have "reports_ok previous (?t1\<lparr>tc_reported_down := tc_current_down ?t1, tc_dropping := False\<rparr>, reports @ [touch_report ?t1])"
    by (simp add: reports_ok_def)
  then have dropped: "reports_ok previous (let t1 = ?t1
      in (t1\<lparr>tc_reported_down := tc_current_down t1, tc_dropping := False\<rparr>, reports @ [touch_report t1]))"
    by (simp only: Let_def)
  have moved: "reports_ok previous (t\<lparr>tc_x := clamp_touch_x v\<rparr>, reports)"
    "reports_ok previous (t\<lparr>tc_y := clamp_touch_y v\<rparr>, reports)"
    "reports_ok previous (t\<lparr>tc_current_down := d\<rparr>, reports)" "reports_ok previous (t\<lparr>tc_dropping := d\<rparr>, reports)" for v d
    using assms by (auto simp: tr reports_ok_def clamp_on_display)
  have "reports_ok previous (t, reports)" using assms by (simp only: tr)
  note this dropped moved touch_report_ok [OF this]
  then show ?thesis
    unfolding touch_event_def tr Let_def [of "(t, reports)"] prod.case by (simp only: if_split) simp
qed

lemma touch_events_ok: "reports_ok previous tr \<Longrightarrow> reports_ok previous (foldl (\<lambda>tr (a, e). touch_event a e tr) tr es)"
proof (induction es arbitrary: tr)
  case (Cons ae es)
  then show ?case by (cases ae) (simp only: foldl_Cons prod.case touch_event_ok)
qed simp

lemma touch_read_loop_ok: "reports_ok previous tr \<Longrightarrow> reports_ok previous (snd (touch_read_loop script tr))"
  by (induction script tr rule: touch_read_loop.induct) (auto simp: touch_events_ok)

text \<open>The finger's state at each report of a batch without an overrun.\<close>

fun finger_states :: "bool \<Rightarrow> input_event list \<Rightarrow> bool list" where
  "finger_states down [] = []"
| "finger_states down (e # es) =
     (if ev_type e = EV_KEY \<and> ev_code e = BTN_TOUCH then finger_states (ev_value e \<noteq> 0) es
      else if ev_type e = EV_SYN \<and> ev_code e = SYN_REPORT then down # finger_states down es
      else finger_states down es)"

definition no_overrun :: "input_event list \<Rightarrow> bool" where
  "no_overrun es = list_all (\<lambda>e. \<not> (ev_type e = EV_SYN \<and> ev_code e = SYN_DROPPED)) es"

lemmas touch_codes = EV_SYN_def EV_KEY_def EV_ABS_def SYN_REPORT_def SYN_DROPPED_def ABS_X_def ABS_Y_def BTN_TOUCH_def

lemma touch_events_states:
  assumes "\<not> tc_dropping t" "no_overrun (map snd es)"
    "foldl (\<lambda>tr (a, e). touch_event a e tr) (t, reports) es = (t', reports')"
  shows "map rep_down reports' = map rep_down reports @ finger_states (tc_current_down t) (map snd es)"
  using assms
proof (induction es arbitrary: t reports)
  case (Cons ae es)
  obtain a e where ae: "ae = (a, e)" by fastforce
  obtain t1 r1 where 1: "touch_event a e (t, reports) = (t1, r1)" by fastforce
  have step: "\<not> tc_dropping t1"
    "map rep_down r1 @ finger_states (tc_current_down t1) (map snd es) =
     map rep_down reports @ finger_states (tc_current_down t) (map snd (ae # es))"
    using 1 Cons.prems(1,2)
    by (auto simp: ae no_overrun_def touch_event_def touch_report_def touch_codes split: if_splits)
  have "foldl (\<lambda>tr (a, e). touch_event a e tr) (t1, r1) es = (t', reports')" "no_overrun (map snd es)"
    using Cons.prems(2,3) 1 by (simp_all add: ae no_overrun_def)
  from Cons.IH [OF step(1) this(2,1)] step(2) show ?case by simp
qed simp

text \<open>
  C34. Reports of the touchscreen: whatever is read, failures and overruns included, the reported
  presses and releases are exactly the changes of the reported finger state, starting from the
  state of the last report before, every position lies on the display, and the device remembers
  the last reported state; a batch without an overrun yields one report per SYN_REPORT, with the
  finger's state at that point.
\<close>
theorem touch_reports_consistent:
  assumes "on_display (tc_x t) (tc_y t)" "read_reports script t = (r, t', reports)"
  shows "reports_chain (tc_reported_down t) reports \<and>
    list_all (\<lambda>p. on_display (rep_x p) (rep_y p)) reports \<and> on_display (tc_x t') (tc_y t') \<and>
    tc_reported_down t' = last_down (tc_reported_down t) reports \<and>
    (0 \<le> tc_fd t \<and> \<not> tc_dropping t \<and> script = [Data es, Would_block] \<and> es \<noteq> [] \<and> no_overrun (map snd es) \<longrightarrow>
       r = Inr () \<and> map rep_down reports = finger_states (tc_current_down t) (map snd es))"
proof -
  have "reports_ok (tc_reported_down t) (t, [])" using assms(1) by (simp add: reports_ok_def last_down_def)
  from touch_read_loop_ok [OF this, of script] this
  have "reports_ok (tc_reported_down t) (t', reports)"
    using assms(2) by (auto simp: read_reports_def split: if_splits)
  moreover have "map rep_down reports = finger_states (tc_current_down t) (map snd es)" "r = Inr ()"
    if "0 \<le> tc_fd t" "\<not> tc_dropping t" "script = [Data es, Would_block]" "es \<noteq> []" "no_overrun (map snd es)"
    using assms(2) that touch_events_states [OF that(2,5), of "[]" t' reports]
    by (auto simp: read_reports_def split: if_splits)
  ultimately show ?thesis by (simp add: reports_ok_def)
qed

definition finger_batch :: "(resync_answers \<times> input_event) list" where
  "finger_batch =
     (let a = \<lparr>ra_x = None, ra_y = None, ra_keys = None\<rparr>;
          ev = \<lambda>ty c v. (a, \<lparr>ev_type = ty, ev_code = c, ev_value = v\<rparr>)
      in [ev EV_ABS ABS_X 5000, ev EV_KEY BTN_TOUCH 1, ev EV_SYN SYN_REPORT 0, ev EV_ABS ABS_Y 7,
          ev EV_SYN SYN_REPORT 0, ev EV_KEY BTN_TOUCH 0, ev EV_SYN SYN_REPORT 0])"

theorem touch_reports_consistent_witness:
  "map (\<lambda>p. (rep_x p, rep_y p, rep_pressed p, rep_released p))
     (snd (snd (read_reports [Data finger_batch, Would_block] (created_touch\<lparr>tc_fd := 3\<rparr>)))) =
     [(1279, 0, True, False), (1279, 7, False, False), (1279, 7, False, True)] \<and>
   map rep_down (snd (snd (read_reports [Data finger_batch, Would_block] (created_touch\<lparr>tc_fd := 3\<rparr>)))) =
     finger_states False (map snd finger_batch)"
proof -
  obtain r t' reports where
    1: "read_reports [Data finger_batch, Would_block] (created_touch\<lparr>tc_fd := 3\<rparr>) = (r, t', reports)"
    by (cases "read_reports [Data finger_batch, Would_block] (created_touch\<lparr>tc_fd := 3\<rparr>)")
  have "on_display 0 0" "finger_batch \<noteq> []" "no_overrun (map snd finger_batch)" by code_simp+
  with touch_reports_consistent [of "created_touch\<lparr>tc_fd := 3\<rparr>" _ r t' reports finger_batch, OF _ 1]
  have "map rep_down reports = finger_states False (map snd finger_batch)" by (simp add: created_touch_def)
  moreover have "map (\<lambda>p. (rep_x p, rep_y p, rep_pressed p, rep_released p))
     (snd (snd (read_reports [Data finger_batch, Would_block] (created_touch\<lparr>tc_fd := 3\<rparr>)))) =
     [(1279, 0, True, False), (1279, 7, False, False), (1279, 7, False, True)]" by code_simp
  ultimately show ?thesis by (simp add: 1)
qed

section \<open>Discovery\<close>

definition opened :: "device_node list \<Rightarrow> int list" where
  "opened nodes = filter (\<lambda>fd. 0 \<le> fd) (map dn_fd nodes)"

lemma probe_touchscreens_accounts:
  "probe_touchscreens nodes rejected closed = (found, rejected', closed') \<Longrightarrow>
   \<exists>rest. nodes = rest @ (case found of None \<Rightarrow> [] | Some n \<Rightarrow> n # drop (Suc (length rest)) nodes) \<and>
     closed' = closed @ opened rest \<and>
     (case found of None \<Rightarrow> True | Some n \<Rightarrow> 0 \<le> dn_fd n \<and> is_goodix n \<and> touch_capable n)"
proof (induction nodes rejected closed rule: probe_touchscreens.induct)
  case (2 n ns rejected closed)
  show ?case
  proof (cases "0 \<le> dn_fd n \<and> is_goodix n \<and> touch_capable n")
    case True
    then show ?thesis using "2.prems" by (intro exI [of _ "[]"]) (auto simp: opened_def)
  next
    case False
    then obtain rest where "ns = rest @ (case found of None \<Rightarrow> [] | Some n \<Rightarrow> n # drop (Suc (length rest)) ns)"
      "closed' = (if dn_fd n < 0 then closed else closed @ [dn_fd n]) @ opened rest"
      "case found of None \<Rightarrow> True | Some n \<Rightarrow> 0 \<le> dn_fd n \<and> is_goodix n \<and> touch_capable n"
      using 2 by (auto split: if_splits)
    then show ?thesis
      by (intro exI [of _ "n # rest"]) (auto simp: opened_def split: option.splits)
  qed
qed (auto simp: opened_def)

end
