(* ===== verification/Menu_Pads.thy ===== *)
theory Menu_Pads
  imports Menu_Touch "HOL-Library.Product_Lexorder"
begin

section \<open>Gamepads and keyboards of the dashboard (\<open>src/deck_menu.cpp\<close>)\<close>

text \<open>
  The two classes that turn gamepads and keyboards into menu buttons, the command the menu
  takes from a set of pressed buttons, and the guard against a controller that floods it.
  Answers of the kernel are arguments, as in the theory of the touchscreen.
\<close>

definition kMenuPadConfirm :: u32 where "kMenuPadConfirm = push_bit 0 1"
definition kMenuPadBack :: u32 where "kMenuPadBack = push_bit 1 1"
definition kMenuPadUp :: u32 where "kMenuPadUp = push_bit 2 1"
definition kMenuPadDown :: u32 where "kMenuPadDown = push_bit 3 1"
definition kMenuPadLeft :: u32 where "kMenuPadLeft = push_bit 4 1"
definition kMenuPadRight :: u32 where "kMenuPadRight = push_bit 5 1"
definition kMenuPadSystemPrevious :: u32 where "kMenuPadSystemPrevious = push_bit 6 1"
definition kMenuPadSystemNext :: u32 where "kMenuPadSystemNext = push_bit 7 1"
definition kMenuPadSettings :: u32 where "kMenuPadSettings = push_bit 8 1"

lemmas menu_pad_defs = kMenuPadConfirm_def kMenuPadBack_def kMenuPadUp_def kMenuPadDown_def kMenuPadLeft_def
  kMenuPadRight_def kMenuPadSystemPrevious_def kMenuPadSystemNext_def kMenuPadSettings_def

definition kTheGamepadVendor :: nat where "kTheGamepadVendor = 0x1c59"
definition kTheGamepadProduct :: nat where "kTheGamepadProduct = 0x0026"
definition kMaximumMenuGamepads :: nat where "kMaximumMenuGamepads = 2"
definition kMaximumMenuKeyboards :: nat where "kMaximumMenuKeyboards = 4"

text \<open>The key codes of \<open>linux/input-event-codes.h\<close> that the code names.\<close>

definition BTN_TRIGGER :: nat where "BTN_TRIGGER = 0x120"
definition BTN_THUMB :: nat where "BTN_THUMB = 0x121"
definition BTN_THUMB2 :: nat where "BTN_THUMB2 = 0x122"
definition BTN_TOP :: nat where "BTN_TOP = 0x123"
definition BTN_TOP2 :: nat where "BTN_TOP2 = 0x124"
definition BTN_PINKIE :: nat where "BTN_PINKIE = 0x125"
definition BTN_BASE :: nat where "BTN_BASE = 0x126"
definition BTN_BASE2 :: nat where "BTN_BASE2 = 0x127"
definition KEY_ESC :: nat where "KEY_ESC = 1"
definition KEY_TAB :: nat where "KEY_TAB = 15"
definition KEY_ENTER :: nat where "KEY_ENTER = 28"
definition KEY_LEFTSHIFT :: nat where "KEY_LEFTSHIFT = 42"
definition KEY_RIGHTSHIFT :: nat where "KEY_RIGHTSHIFT = 54"
definition KEY_KPENTER :: nat where "KEY_KPENTER = 96"
definition KEY_UP :: nat where "KEY_UP = 103"
definition KEY_LEFT :: nat where "KEY_LEFT = 105"
definition KEY_RIGHT :: nat where "KEY_RIGHT = 106"
definition KEY_DOWN :: nat where "KEY_DOWN = 108"

lemmas menu_key_defs = BTN_TRIGGER_def BTN_THUMB_def BTN_THUMB2_def BTN_TOP_def BTN_TOP2_def BTN_PINKIE_def
  BTN_BASE_def BTN_BASE2_def KEY_ESC_def KEY_TAB_def KEY_ENTER_def KEY_LEFTSHIFT_def KEY_RIGHTSHIFT_def
  KEY_KPENTER_def KEY_UP_def KEY_LEFT_def KEY_RIGHT_def KEY_DOWN_def

subsection \<open>From keys and axes to buttons\<close>

definition menu_gamepad_key_to_button :: "nat \<Rightarrow> u32" where
  "menu_gamepad_key_to_button code =
     (if code = BTN_THUMB2 \<or> code = BTN_TOP then kMenuPadConfirm
      else if code = BTN_THUMB \<or> code = BTN_TRIGGER then kMenuPadBack
      else if code = BTN_TOP2 then kMenuPadSystemPrevious
      else if code = BTN_PINKIE then kMenuPadSystemNext
      else if code = BTN_BASE then kMenuPadSettings
      else 0)"

definition menu_keyboard_key_to_button :: "nat \<Rightarrow> bool \<Rightarrow> u32" where
  "menu_keyboard_key_to_button code shift =
     (if code = KEY_ENTER \<or> code = KEY_KPENTER then kMenuPadConfirm
      else if code = KEY_ESC then kMenuPadBack
      else if code = KEY_UP then kMenuPadUp
      else if code = KEY_DOWN then kMenuPadDown
      else if code = KEY_LEFT then kMenuPadLeft
      else if code = KEY_RIGHT then kMenuPadRight
      else if code = KEY_TAB then (if shift then kMenuPadSystemPrevious else kMenuPadSystemNext)
      else 0)"

definition menu_keyboard_key_repeats :: "nat \<Rightarrow> bool" where
  "menu_keyboard_key_repeats code = (code = KEY_UP \<or> code = KEY_DOWN \<or> code = KEY_LEFT \<or> code = KEY_RIGHT)"

text \<open>The button and the two shift states.\<close>

definition menu_keyboard_event_to_button :: "nat \<Rightarrow> int \<Rightarrow> bool \<Rightarrow> bool \<Rightarrow> u32 \<times> bool \<times> bool" where
  "menu_keyboard_event_to_button code v left_shift right_shift =
     (if code = KEY_LEFTSHIFT then (0, v \<noteq> 0, right_shift)
      else if code = KEY_RIGHTSHIFT then (0, left_shift, v \<noteq> 0)
      else
        (let fresh_press = (v = 1); allowed_repeat = (v = 2 \<and> menu_keyboard_key_repeats code)
         in if \<not> fresh_press \<and> \<not> allowed_repeat then (0, left_shift, right_shift)
            else (menu_keyboard_key_to_button code (left_shift \<or> right_shift), left_shift, right_shift)))"

definition menu_keyboard_capabilities :: "nat list \<Rightarrow> bool" where
  "menu_keyboard_capabilities keys =
     (bit_is_set keys KEY_ENTER \<and> bit_is_set keys KEY_ESC \<and> bit_is_set keys KEY_TAB \<and> bit_is_set keys KEY_UP \<and>
      bit_is_set keys KEY_DOWN \<and> bit_is_set keys KEY_LEFT \<and> bit_is_set keys KEY_RIGHT \<and>
      (bit_is_set keys KEY_LEFTSHIFT \<or> bit_is_set keys KEY_RIGHTSHIFT))"

definition menu_gamepad_axis_to_button :: "int \<Rightarrow> int \<Rightarrow> int \<Rightarrow> u32 \<Rightarrow> u32 \<Rightarrow> u32" where
  "menu_gamepad_axis_to_button v minimum maximum negative positive =
     (if maximum \<le> minimum then 0
      else
        (let span = maximum - minimum; low = minimum + span sdiv 3; high = maximum - span sdiv 3
         in if v \<le> low then negative else if high \<le> v then positive else 0))"

subsection \<open>One gamepad\<close>

record MenuGamepadDevice =
  mg_fd :: int
  mg_path :: string
  mg_physical_path :: string
  mg_x_info :: absinfo
  mg_y_info :: absinfo
  mg_x_value :: int
  mg_y_value :: int
  mg_raw_buttons :: u32
  mg_state :: u32
  mg_dropping :: bool

definition menu_gamepad_state :: "MenuGamepadDevice \<Rightarrow> u32" where
  "menu_gamepad_state g =
     (foldl (\<lambda>st index. if mg_raw_buttons g AND push_bit index 1 \<noteq> 0
                        then st OR menu_gamepad_key_to_button (BTN_TRIGGER + index) else st) 0 [0..<8]
      OR menu_gamepad_axis_to_button (mg_x_value g) (abs_minimum (mg_x_info g)) (abs_maximum (mg_x_info g))
           kMenuPadLeft kMenuPadRight)
      OR menu_gamepad_axis_to_button (mg_y_value g) (abs_minimum (mg_y_info g)) (abs_maximum (mg_y_info g))
           kMenuPadUp kMenuPadDown"

definition raw_buttons_of :: "nat list \<Rightarrow> u32" where
  "raw_buttons_of keys =
     foldl (\<lambda>raw index. if bit_is_set keys (BTN_TRIGGER + index) then raw OR push_bit index 1 else raw) 0 [0..<8]"

definition gamepad_resynchronize :: "resync_answers \<Rightarrow> MenuGamepadDevice \<Rightarrow> bool \<times> MenuGamepadDevice" where
  "gamepad_resynchronize a g =
     (if mg_fd g < 0 then (False, g)
      else
        (case (ra_x a, ra_y a, ra_keys a) of
           (Some x, Some y, Some keys) \<Rightarrow>
             (let g1 = g\<lparr>mg_x_info := x, mg_y_info := y, mg_x_value := abs_value x, mg_y_value := abs_value y,
                        mg_raw_buttons := raw_buttons_of keys\<rparr>
              in (True, g1\<lparr>mg_state := menu_gamepad_state g1, mg_dropping := False\<rparr>))
         | _ \<Rightarrow> (False, g)))"

text \<open>One event; the flag is false when the drain has to give up.\<close>

definition gamepad_event ::
  "resync_answers \<Rightarrow> input_event \<Rightarrow> MenuGamepadDevice \<Rightarrow> u32 \<Rightarrow> bool \<times> MenuGamepadDevice \<times> u32" where
  "gamepad_event a e g pressed =
     (if mg_dropping g
      then (if ev_type e = EV_SYN \<and> ev_code e = SYN_REPORT
            then (let (ok, g1) = gamepad_resynchronize a g in (ok, g1, pressed))
            else (True, g, pressed))
      else if ev_type e = EV_SYN \<and> ev_code e = SYN_DROPPED then (True, g\<lparr>mg_dropping := True\<rparr>, pressed)
      else if ev_type e = EV_KEY \<and> BTN_TRIGGER \<le> ev_code e \<and> ev_code e \<le> BTN_BASE2
      then (let b = push_bit (ev_code e - BTN_TRIGGER) 1 in
            if ev_value e \<noteq> 0 then (True, g\<lparr>mg_raw_buttons := mg_raw_buttons g OR b\<rparr>, pressed)
            else (True, g\<lparr>mg_raw_buttons := mg_raw_buttons g AND NOT b\<rparr>, pressed))
      else if ev_type e = EV_ABS \<and> ev_code e = ABS_X then (True, g\<lparr>mg_x_value := ev_value e\<rparr>, pressed)
      else if ev_type e = EV_ABS \<and> ev_code e = ABS_Y then (True, g\<lparr>mg_y_value := ev_value e\<rparr>, pressed)
      else if ev_type e = EV_SYN \<and> ev_code e = SYN_REPORT
      then (let st = menu_gamepad_state g in (True, g\<lparr>mg_state := st\<rparr>, pressed OR (st AND NOT (mg_state g))))
      else (True, g, pressed))"

subsection \<open>Reading a device\<close>

text \<open>
  Both classes read a device the same way: the loop is parameterised by what one event does.
  Its flag is false when the device has to be closed.
\<close>

fun device_events ::
  "(resync_answers \<Rightarrow> input_event \<Rightarrow> 'd \<Rightarrow> u32 \<Rightarrow> bool \<times> 'd \<times> u32) \<Rightarrow> (resync_answers \<times> input_event) list \<Rightarrow>
     'd \<Rightarrow> u32 \<Rightarrow> bool \<times> 'd \<times> u32" where
  "device_events step [] d pressed = (True, d, pressed)"
| "device_events step ((a, e) # es) d pressed =
     (case step a e d pressed of
        (False, d', pressed') \<Rightarrow> (False, d', pressed')
      | (True, d', pressed') \<Rightarrow> device_events step es d' pressed')"

fun device_drain ::
  "(resync_answers \<Rightarrow> input_event \<Rightarrow> 'd \<Rightarrow> u32 \<Rightarrow> bool \<times> 'd \<times> u32) \<Rightarrow>
     (resync_answers \<times> input_event) read_result list \<Rightarrow> 'd \<Rightarrow> u32 \<Rightarrow> bool \<times> 'd \<times> u32" where
  "device_drain step [] d pressed = (True, d, pressed)"
| "device_drain step (Interrupted # rs) d pressed = device_drain step rs d pressed"
| "device_drain step (Would_block # rs) d pressed = (True, d, pressed)"
| "device_drain step (Read_failed # rs) d pressed = (False, d, pressed)"
| "device_drain step (Partial_event # rs) d pressed = (False, d, pressed)"
| "device_drain step (Data es # rs) d pressed =
     (if es = [] then (False, d, pressed)
      else case device_events step es d pressed of
             (False, d', pressed') \<Rightarrow> (False, d', pressed')
           | (True, d', pressed') \<Rightarrow> device_drain step rs d' pressed')"

definition gamepad_drain ::
  "(resync_answers \<times> input_event) read_result list \<Rightarrow> MenuGamepadDevice \<Rightarrow> u32 \<Rightarrow> bool \<times> MenuGamepadDevice \<times> u32" where
  "gamepad_drain script g pressed =
     (if mg_fd g < 0 then (False, g, pressed) else device_drain gamepad_event script g pressed)"

text \<open>What \<open>poll\<close> said of a descriptor, and what reading it would return.\<close>

record polled_device =
  pd_input :: bool
  pd_trouble :: bool
  pd_script :: "(resync_answers \<times> input_event) read_result list"

text \<open>
  The loop over the ready devices: the pressed buttons, the devices, the closed descriptors.  A
  device beyond the polled descriptors ends it.
\<close>

fun gamepads_ready ::
  "MenuGamepadDevice list \<Rightarrow> polled_device list \<Rightarrow> u32 \<Rightarrow> u32 \<times> MenuGamepadDevice list \<times> int list" where
  "gamepads_ready [] ps pressed = (pressed, [], [])"
| "gamepads_ready (g # gs) [] pressed = (pressed, g # gs, [])"
| "gamepads_ready (g # gs) (p # ps) pressed =
     (if \<not> (pd_input p \<or> pd_trouble p)
      then (let (r, gs', closed) = gamepads_ready gs ps pressed in (r, g # gs', closed))
      else
        (let (ok, g1, pressed1) = (if pd_input p then gamepad_drain (pd_script p) g pressed else (False, g, pressed));
             (r, gs', closed) = gamepads_ready gs ps pressed1
         in if ok then (r, g1 # gs', closed)
            else (r, g1\<lparr>mg_fd := - 1, mg_state := 0, mg_raw_buttons := 0\<rparr> # gs', mg_fd g1 # closed)))"

subsection \<open>All gamepads\<close>

record MenuGamepads =
  mgs_devices :: "MenuGamepadDevice list"
  mgs_last_scan_ms :: int

definition created_gamepads :: MenuGamepads where
  "created_gamepads = \<lparr>mgs_devices = [], mgs_last_scan_ms = 0\<rparr>"

definition gamepads_count :: "MenuGamepads \<Rightarrow> nat" where
  "gamepads_count m = length (filter (\<lambda>g. 0 \<le> mg_fd g) (mgs_devices m))"

definition gamepads_poll_descriptors :: "MenuGamepads \<Rightarrow> int list" where
  "gamepads_poll_descriptors m = map mg_fd (mgs_devices m)"

definition gamepads_read_ready :: "polled_device list \<Rightarrow> MenuGamepads \<Rightarrow> u32 \<times> MenuGamepads \<times> int list" where
  "gamepads_read_ready ps m =
     (let (pressed, gs, closed) = gamepads_ready (mgs_devices m) ps 0
      in (pressed, m\<lparr>mgs_devices := gs,
                     mgs_last_scan_ms := (if closed = [] then mgs_last_scan_ms m else 0)\<rparr>, closed))"

definition gamepads_close_devices :: "MenuGamepads \<Rightarrow> MenuGamepads \<times> int list" where
  "gamepads_close_devices m = (m\<lparr>mgs_devices := []\<rparr>, filter (\<lambda>fd. 0 \<le> fd) (map mg_fd (mgs_devices m)))"

definition gamepads_close_for_child :: "MenuGamepads \<Rightarrow> MenuGamepads \<times> int list" where
  "gamepads_close_for_child m =
     (let (m1, closed) = gamepads_close_devices m in (m1\<lparr>mgs_last_scan_ms := 0\<rparr>, closed))"

text \<open>A candidate, or \<open>None\<close> when the opened node is no such gamepad and is closed again.\<close>

definition gamepad_candidate :: "device_node \<Rightarrow> MenuGamepadDevice option" where
  "gamepad_candidate n =
     (case (dn_identity n, dn_x n, dn_y n) of
        (Some identity, Some x, Some y) \<Rightarrow>
          if identity \<noteq> (kTheGamepadVendor, kTheGamepadProduct) then None
          else Some \<lparr>mg_fd = dn_fd n, mg_path = node_path n,
                     mg_physical_path =
                       (case dn_phys n of None \<Rightarrow> node_path n | Some p \<Rightarrow> if p = [] then node_path n else p),
                     mg_x_info = x, mg_y_info = y, mg_x_value = 0, mg_y_value = 0, mg_raw_buttons = 0,
                     mg_state = 0, mg_dropping = False\<rparr>
      | _ \<Rightarrow> None)"

text \<open>The candidates in directory order and the descriptors closed again.\<close>

fun collect_devices :: "(device_node \<Rightarrow> 'd option) \<Rightarrow> device_node list \<Rightarrow> 'd list \<times> int list" where
  "collect_devices candidate [] = ([], [])"
| "collect_devices candidate (n # ns) =
     (let (ds, closed) = collect_devices candidate ns
      in if \<not> event_node_name (dn_name n) \<or> dn_fd n < 0 then (ds, closed)
         else case candidate n of None \<Rightarrow> (ds, dn_fd n # closed) | Some d \<Rightarrow> (d # ds, closed))"

text \<open>
  What both scans do with the sorted candidates: close those beyond the limit, and keep the
  open devices if they are the same.  \<open>None\<close> is the unchanged case; the closed descriptors are
  in the order of the calls.
\<close>

definition settle_devices ::
  "('d \<Rightarrow> int) \<Rightarrow> ('d \<Rightarrow> 'd \<Rightarrow> bool) \<Rightarrow> nat \<Rightarrow> 'd list \<Rightarrow> 'd list \<Rightarrow> 'd list option \<times> int list" where
  "settle_devices fd same limit candidates devices =
     (let kept = take limit candidates; surplus = map fd (rev (drop limit candidates));
          unchanged = (length kept = length devices \<and> list_all2 (\<lambda>c d. same c d \<and> 0 \<le> fd d) kept devices)
      in if unchanged then (None, surplus @ map fd kept)
         else (Some kept, surplus @ filter (\<lambda>fd. 0 \<le> fd) (map fd devices)))"

definition same_gamepad :: "MenuGamepadDevice \<Rightarrow> MenuGamepadDevice \<Rightarrow> bool" where
  "same_gamepad c g = (mg_path c = mg_path g \<and> mg_physical_path c = mg_physical_path g)"

text \<open>\<open>None\<close> is a directory that cannot be opened; \<open>answer\<close> answers for a descriptor.\<close>

definition gamepads_scan ::
  "device_node list option \<Rightarrow> (int \<Rightarrow> resync_answers) \<Rightarrow> MenuGamepads \<Rightarrow> bool \<times> MenuGamepads \<times> int list" where
  "gamepads_scan directory answer m =
     (case directory of
        None \<Rightarrow> (False, m, [])
      | Some nodes \<Rightarrow>
          (let (candidates, rejected) = collect_devices gamepad_candidate nodes;
               sorted_candidates = sort_key (\<lambda>c. (mg_physical_path c, mg_path c)) candidates
           in case settle_devices mg_fd same_gamepad kMaximumMenuGamepads sorted_candidates (mgs_devices m) of
                (None, closed) \<Rightarrow> (True, m, rejected @ closed)
              | (Some kept, closed) \<Rightarrow>
                  (True, m\<lparr>mgs_devices := map (\<lambda>g. snd (gamepad_resynchronize (answer (mg_fd g)) g)) kept\<rparr>,
                   rejected @ closed)))"

definition gamepads_scan_if_due ::
  "bool \<Rightarrow> int \<Rightarrow> device_node list option \<Rightarrow> (int \<Rightarrow> resync_answers) \<Rightarrow> MenuGamepads \<Rightarrow>
     bool \<times> MenuGamepads \<times> int list" where
  "gamepads_scan_if_due force now directory answer m =
     (if \<not> force \<and> 0 < mgs_last_scan_ms m \<and> now - mgs_last_scan_ms m < 1000 then (True, m, [])
      else gamepads_scan directory answer (m\<lparr>mgs_last_scan_ms := now\<rparr>))"

subsection \<open>Keyboards\<close>

record MenuKeyboardDevice =
  mk_fd :: int
  mk_path :: string
  mk_name :: string
  mk_left_shift :: bool
  mk_right_shift :: bool
  mk_dropping :: bool
  mk_grabbed :: bool

definition keyboard_resynchronize :: "resync_answers \<Rightarrow> MenuKeyboardDevice \<Rightarrow> bool \<times> MenuKeyboardDevice" where
  "keyboard_resynchronize a k =
     (if mk_fd k < 0 then (False, k)
      else
        (case ra_keys a of
           None \<Rightarrow> (False, k)
         | Some keys \<Rightarrow>
             (True, k\<lparr>mk_left_shift := bit_is_set keys KEY_LEFTSHIFT, mk_right_shift := bit_is_set keys KEY_RIGHTSHIFT,
                      mk_dropping := False\<rparr>)))"

definition keyboard_event ::
  "resync_answers \<Rightarrow> input_event \<Rightarrow> MenuKeyboardDevice \<Rightarrow> u32 \<Rightarrow> bool \<times> MenuKeyboardDevice \<times> u32" where
  "keyboard_event a e k pressed =
     (if mk_dropping k
      then (if ev_type e = EV_SYN \<and> ev_code e = SYN_REPORT
            then (let (ok, k1) = keyboard_resynchronize a k in (ok, k1, pressed))
            else (True, k, pressed))
      else if ev_type e = EV_SYN \<and> ev_code e = SYN_DROPPED then (True, k\<lparr>mk_dropping := True\<rparr>, pressed)
      else if ev_type e \<noteq> EV_KEY then (True, k, pressed)
      else
        (let (button, left_shift, right_shift) =
               menu_keyboard_event_to_button (ev_code e) (ev_value e) (mk_left_shift k) (mk_right_shift k)
         in (True, k\<lparr>mk_left_shift := left_shift, mk_right_shift := right_shift\<rparr>, pressed OR button)))"

definition keyboard_drain ::
  "(resync_answers \<times> input_event) read_result list \<Rightarrow> MenuKeyboardDevice \<Rightarrow> u32 \<Rightarrow> bool \<times> MenuKeyboardDevice \<times> u32" where
  "keyboard_drain script k pressed =
     (if mk_fd k < 0 then (False, k, pressed) else device_drain keyboard_event script k pressed)"

definition keyboard_close :: "MenuKeyboardDevice \<Rightarrow> MenuKeyboardDevice" where
  "keyboard_close k =
     (if mk_fd k < 0 then k
      else k\<lparr>mk_fd := - 1, mk_grabbed := False, mk_left_shift := False, mk_right_shift := False, mk_dropping := False\<rparr>)"

fun keyboards_ready ::
  "MenuKeyboardDevice list \<Rightarrow> polled_device list \<Rightarrow> u32 \<Rightarrow> u32 \<times> MenuKeyboardDevice list \<times> bool \<times> int list" where
  "keyboards_ready [] ps pressed = (pressed, [], False, [])"
| "keyboards_ready (k # ks) [] pressed = (pressed, k # ks, False, [])"
| "keyboards_ready (k # ks) (p # ps) pressed =
     (if \<not> (pd_input p \<or> pd_trouble p)
      then (let (r, ks', failed, closed) = keyboards_ready ks ps pressed in (r, k # ks', failed, closed))
      else
        (let (ok, k1, pressed1) = (if pd_input p then keyboard_drain (pd_script p) k pressed else (False, k, pressed));
             (r, ks', failed, closed) = keyboards_ready ks ps pressed1
         in if ok then (r, k1 # ks', failed, closed)
            else (r, keyboard_close k1 # ks', True, (if mk_fd k1 < 0 then closed else mk_fd k1 # closed))))"

record MenuKeyboards =
  mks_devices :: "MenuKeyboardDevice list"
  mks_last_scan_ms :: int

definition created_keyboards :: MenuKeyboards where
  "created_keyboards = \<lparr>mks_devices = [], mks_last_scan_ms = 0\<rparr>"

definition keyboards_count :: "MenuKeyboards \<Rightarrow> nat" where
  "keyboards_count m = length (filter (\<lambda>k. 0 \<le> mk_fd k) (mks_devices m))"

definition keyboards_poll_descriptors :: "MenuKeyboards \<Rightarrow> int list" where
  "keyboards_poll_descriptors m = map mk_fd (mks_devices m)"

definition keyboards_read_ready :: "polled_device list \<Rightarrow> MenuKeyboards \<Rightarrow> u32 \<times> MenuKeyboards \<times> int list" where
  "keyboards_read_ready ps m =
     (let (pressed, ks, failed, closed) = keyboards_ready (mks_devices m) ps 0
      in (pressed, m\<lparr>mks_devices := ks,
                     mks_last_scan_ms := (if failed then 0 else mks_last_scan_ms m)\<rparr>, closed))"

definition keyboards_close_devices :: "MenuKeyboards \<Rightarrow> MenuKeyboards \<times> int list" where
  "keyboards_close_devices m = (m\<lparr>mks_devices := []\<rparr>, filter (\<lambda>fd. 0 \<le> fd) (map mk_fd (mks_devices m)))"

definition keyboards_close_for_child :: "MenuKeyboards \<Rightarrow> MenuKeyboards \<times> int list" where
  "keyboards_close_for_child m =
     (let (m1, closed) = keyboards_close_devices m in (m1\<lparr>mks_last_scan_ms := 0\<rparr>, closed))"

definition keyboard_candidate :: "device_node \<Rightarrow> MenuKeyboardDevice option" where
  "keyboard_candidate n =
     (case dn_key_bits n of
        None \<Rightarrow> None
      | Some bits \<Rightarrow>
          if \<not> menu_keyboard_capabilities bits then None
          else Some \<lparr>mk_fd = dn_fd n, mk_path = node_path n,
                     mk_name = (case dn_label n of None \<Rightarrow> dn_name n | Some l \<Rightarrow> if l = [] then dn_name n else l),
                     mk_left_shift = False, mk_right_shift = False, mk_dropping = False, mk_grabbed = False\<rparr>)"

definition same_keyboard :: "MenuKeyboardDevice \<Rightarrow> MenuKeyboardDevice \<Rightarrow> bool" where
  "same_keyboard c k = (mk_path c = mk_path k)"

text \<open>\<open>grab\<close> says for which descriptors the exclusive grab succeeds.\<close>

definition keyboards_scan ::
  "device_node list option \<Rightarrow> (int \<Rightarrow> bool) \<Rightarrow> (int \<Rightarrow> resync_answers) \<Rightarrow> MenuKeyboards \<Rightarrow>
     bool \<times> MenuKeyboards \<times> int list" where
  "keyboards_scan directory grab answer m =
     (case directory of
        None \<Rightarrow> (False, m, [])
      | Some nodes \<Rightarrow>
          (let (candidates, rejected) = collect_devices keyboard_candidate nodes;
               sorted_candidates = sort_key mk_path candidates
           in case settle_devices mk_fd same_keyboard kMaximumMenuKeyboards sorted_candidates (mks_devices m) of
                (None, closed) \<Rightarrow> (True, m, rejected @ closed)
              | (Some kept, closed) \<Rightarrow>
                  (True, m\<lparr>mks_devices :=
                       map (\<lambda>k. snd (keyboard_resynchronize (answer (mk_fd k))
                             (if grab (mk_fd k) then k\<lparr>mk_grabbed := True\<rparr> else k))) kept\<rparr>,
                   rejected @ closed)))"

definition keyboards_scan_if_due ::
  "bool \<Rightarrow> int \<Rightarrow> device_node list option \<Rightarrow> (int \<Rightarrow> bool) \<Rightarrow> (int \<Rightarrow> resync_answers) \<Rightarrow> MenuKeyboards \<Rightarrow>
     bool \<times> MenuKeyboards \<times> int list" where
  "keyboards_scan_if_due force now directory grab answer m =
     (if \<not> force \<and> 0 < mks_last_scan_ms m \<and> now - mks_last_scan_ms m < 1000 then (True, m, [])
      else keyboards_scan directory grab answer (m\<lparr>mks_last_scan_ms := now\<rparr>))"

subsection \<open>Commands\<close>

datatype MenuGamepadCommand =
    MenuGamepadCommandNone | MenuGamepadCommandPrevious | MenuGamepadCommandNext
  | MenuGamepadCommandSystemPrevious | MenuGamepadCommandSystemNext | MenuGamepadCommandConfirm
  | MenuGamepadCommandBack | MenuGamepadCommandSettings

definition menu_gamepad_command :: "u32 \<Rightarrow> bool \<Rightarrow> bool \<Rightarrow> MenuGamepadCommand" where
  "menu_gamepad_command pressed modal_view settings_view =
     (if (modal_view \<or> settings_view) \<and> pressed AND kMenuPadBack \<noteq> 0 then MenuGamepadCommandBack
      else if modal_view then MenuGamepadCommandNone
      else if pressed AND kMenuPadSettings \<noteq> 0 then MenuGamepadCommandSettings
      else if \<not> settings_view \<and> pressed AND kMenuPadSystemPrevious \<noteq> 0 then MenuGamepadCommandSystemPrevious
      else if \<not> settings_view \<and> pressed AND kMenuPadSystemNext \<noteq> 0 then MenuGamepadCommandSystemNext
      else if pressed AND (kMenuPadLeft OR kMenuPadUp) \<noteq> 0 then MenuGamepadCommandPrevious
      else if pressed AND (kMenuPadRight OR kMenuPadDown) \<noteq> 0 then MenuGamepadCommandNext
      else if pressed AND kMenuPadConfirm \<noteq> 0 then MenuGamepadCommandConfirm
      else MenuGamepadCommandNone)"

subsection \<open>The guard against floods\<close>

definition kMenuControllerBurstLimit :: nat where "kMenuControllerBurstLimit = 12"
definition kMenuControllerBurstWindowMs :: int where "kMenuControllerBurstWindowMs = 1000"
definition kMenuControllerQuietResetMs :: int where "kMenuControllerQuietResetMs = 1000"

record MenuControllerInputGuard =
  edge_times :: "int list"
  suspended :: bool
  last_edge_at :: int

definition created_guard :: MenuControllerInputGuard where
  "created_guard = \<lparr>edge_times = [], suspended = False, last_edge_at = - 1\<rparr>"

definition accept_edge :: "int \<Rightarrow> MenuControllerInputGuard \<Rightarrow> bool \<times> MenuControllerInputGuard" where
  "accept_edge now g =
     (let g1 = g\<lparr>last_edge_at := now\<rparr>
      in if suspended g then (False, g1)
         else
           (let times = dropWhile (\<lambda>t. kMenuControllerBurstWindowMs \<le> now - t) (edge_times g) @ [now];
                g2 = g1\<lparr>edge_times := times\<rparr>
            in if length times \<le> kMenuControllerBurstLimit then (True, g2) else (False, g2\<lparr>suspended := True\<rparr>)))"

definition recover_if_quiet :: "int \<Rightarrow> MenuControllerInputGuard \<Rightarrow> bool \<times> MenuControllerInputGuard" where
  "recover_if_quiet now g =
     (if \<not> suspended g \<or> last_edge_at g < 0 \<or> now - last_edge_at g < kMenuControllerQuietResetMs then (False, g)
      else (True, \<lparr>edge_times = [], suspended = False, last_edge_at = - 1\<rparr>))"

section \<open>No descriptor is lost\<close>

definition live_fds :: "('d \<Rightarrow> int) \<Rightarrow> 'd list \<Rightarrow> int list" where
  "live_fds fd ds = filter (\<lambda>x. 0 \<le> x) (map fd ds)"

lemma account_sum:
  assumes "c + a = f + l" "f + r = (opn :: 'a multiset)"
  shows "c + (r + a) = l + opn"
proof -
  have "c + (r + a) = (c + a) + r" by (simp only: ac_simps)
  then show ?thesis unfolding assms(1) assms(2) [symmetric] by (simp only: ac_simps)
qed

text \<open>
  What a scan has to account for: the descriptors of its candidates are the opened ones, sorting
  and preparing keep them.
\<close>

locale device_scan =
  fixes fd :: "'d \<Rightarrow> int"
    and candidate :: "device_node \<Rightarrow> 'd option"
    and same :: "'d \<Rightarrow> 'd \<Rightarrow> bool"
    and order :: "'d list \<Rightarrow> 'd list"
    and prepare :: "'d \<Rightarrow> 'd"
  assumes candidate_fd: "candidate n = Some d \<Longrightarrow> fd d = dn_fd n"
    and order_mset: "mset (order ds) = mset ds"
    and prepare_fd: "fd (prepare d) = fd d"
begin

lemma collect_accounts:
  "collect_devices candidate nodes = (ds, closed) \<Longrightarrow>
   mset (map fd ds) + mset closed = mset (opened (event_nodes nodes)) \<and> (\<forall>d\<in>set ds. 0 \<le> fd d)"
proof (induction nodes arbitrary: ds closed)
  case (Cons n ns)
  obtain ds1 closed1 where 1: "collect_devices candidate ns = (ds1, closed1)" by fastforce
  from Cons.IH [OF 1] show ?case
    using Cons.prems 1 candidate_fd
    by (auto simp: opened_def event_nodes_def split: if_splits option.splits)
qed (simp add: opened_def event_nodes_def)

lemma settle_accounts:
  assumes "settle_devices fd same limit cs devices = (r, closed)" "\<forall>d\<in>set cs. 0 \<le> fd d"
  shows "mset (live_fds fd (case r of None \<Rightarrow> devices | Some kept \<Rightarrow> kept)) + mset closed =
    mset (live_fds fd devices) + mset (map fd cs)"
    "r = Some kept \<Longrightarrow> length kept \<le> limit"
    "r = None \<Longrightarrow> length devices \<le> limit"
proof -
  have parts: "mset (map fd cs) = mset (map fd (take limit cs)) + mset (map fd (drop limit cs))"
    by (metis append_take_drop_id map_append mset_append)
  have live: "live_fds fd (take limit cs) = map fd (take limit cs)"
    using assms(2) by (auto simp: live_fds_def filter_id_conv dest: in_set_takeD)
  show "mset (live_fds fd (case r of None \<Rightarrow> devices | Some kept \<Rightarrow> kept)) + mset closed =
    mset (live_fds fd devices) + mset (map fd cs)"
    using assms(1) arg_cong [OF live, of mset] unfolding parts
    by (auto simp: settle_devices_def Let_def live_fds_def rev_map [symmetric] split: if_splits)
  show "r = Some kept \<Longrightarrow> length kept \<le> limit" "r = None \<Longrightarrow> length devices \<le> limit"
    using assms(1) by (auto simp: settle_devices_def Let_def split: if_splits)
qed

lemma scan_accounts:
  assumes "collect_devices candidate nodes = (cs, rejected)"
    "settle_devices fd same limit (order cs) devices = (r, closed)"
  shows "mset (live_fds fd (case r of None \<Rightarrow> devices | Some kept \<Rightarrow> map prepare kept)) + mset (rejected @ closed) =
      mset (live_fds fd devices) + mset (opened (event_nodes nodes)) \<and>
    length (case r of None \<Rightarrow> devices | Some kept \<Rightarrow> map prepare kept) \<le> limit"
proof -
  have nonneg: "\<forall>d\<in>set (order cs). 0 \<le> fd d"
    using collect_accounts [OF assms(1)] order_mset [of cs] by (metis set_mset_mset)
  have fds: "mset (map fd (order cs)) = mset (map fd cs)" using order_mset [of cs] by (metis mset_map)
  have prepared: "live_fds fd (map prepare kept) = live_fds fd kept" for kept
    by (simp add: live_fds_def prepare_fd comp_def)
  let ?now = "case r of None \<Rightarrow> devices | Some kept \<Rightarrow> kept"
  have now: "live_fds fd (case r of None \<Rightarrow> devices | Some kept \<Rightarrow> map prepare kept) = live_fds fd ?now"
    "length (case r of None \<Rightarrow> devices | Some kept \<Rightarrow> map prepare kept) = length ?now"
    by (cases r; simp add: prepared)+
  have opn: "mset (map fd cs) + mset rejected = mset (opened (event_nodes nodes))"
    using collect_accounts [OF assms(1)] by blast
  have settled: "mset (live_fds fd ?now) + mset closed = mset (map fd cs) + mset (live_fds fd devices)"
    using settle_accounts(1) [OF assms(2) nonneg] unfolding fds by (simp only: add.commute)
  have "length ?now \<le> limit"
    using settle_accounts(2,3) [OF assms(2) nonneg] by (cases r) auto
  with account_sum [OF settled opn] show ?thesis
    unfolding now mset_append by (simp only: ac_simps)
qed

end

lemma gamepad_resynchronize_fd [simp]: "mg_fd (snd (gamepad_resynchronize a g)) = mg_fd g"
  by (simp add: gamepad_resynchronize_def Let_def split: option.split)

lemma keyboard_resynchronize_fd [simp]: "mk_fd (snd (keyboard_resynchronize a k)) = mk_fd k"
  by (simp add: keyboard_resynchronize_def split: option.split)

lemma gamepad_candidate_fd: "gamepad_candidate n = Some g \<Longrightarrow> mg_fd g = dn_fd n"
  by (auto simp: gamepad_candidate_def split: option.splits if_splits)

lemma keyboard_candidate_fd: "keyboard_candidate n = Some k \<Longrightarrow> mk_fd k = dn_fd n"
  by (auto simp: keyboard_candidate_def split: option.splits if_splits)

interpretation pads: device_scan mg_fd gamepad_candidate same_gamepad
  "sort_key (\<lambda>c. (mg_physical_path c, mg_path c))"
  "\<lambda>g. snd (gamepad_resynchronize (answer (mg_fd g)) g)" for answer
  by unfold_locales (simp_all add: gamepad_candidate_fd)

interpretation keys: device_scan mk_fd keyboard_candidate same_keyboard "sort_key mk_path"
  "\<lambda>k. snd (keyboard_resynchronize (answer (mk_fd k)) (if grab (mk_fd k) then k\<lparr>mk_grabbed := True\<rparr> else k))"
  for grab answer
  by unfold_locales (simp_all add: keyboard_candidate_fd)

text \<open>
  Scanning for gamepads and keyboards leaks no file descriptor and closes none twice: the
  descriptors held by the devices afterwards together with those the scan closed are exactly
  those held before together with those it opened, and at most two gamepads and four keyboards
  are kept.
\<close>
theorem menu_scans_account:
  assumes "gamepads_scan (Some nodes) answer m = (ok, m', closed)"
    "keyboards_scan (Some nodes) grab answer k = (ok', k', closed')"
  shows "mset (live_fds mg_fd (mgs_devices m')) + mset closed =
      mset (live_fds mg_fd (mgs_devices m)) + mset (opened (event_nodes nodes)) \<and>
    mset (live_fds mk_fd (mks_devices k')) + mset closed' =
      mset (live_fds mk_fd (mks_devices k)) + mset (opened (event_nodes nodes)) \<and>
    length (mgs_devices m') \<le> 2 \<and> length (mks_devices k') \<le> 4"
proof -
  obtain cs rejected where c: "collect_devices gamepad_candidate nodes = (cs, rejected)" by fastforce
  obtain r cl where r: "settle_devices mg_fd same_gamepad kMaximumMenuGamepads
      (sort_key (\<lambda>c. (mg_physical_path c, mg_path c)) cs) (mgs_devices m) = (r, cl)" by fastforce
  obtain cs2 rejected2 where c2: "collect_devices keyboard_candidate nodes = (cs2, rejected2)" by fastforce
  obtain r2 cl2 where r2: "settle_devices mk_fd same_keyboard kMaximumMenuKeyboards
      (sort_key mk_path cs2) (mks_devices k) = (r2, cl2)" by fastforce
  have "mgs_devices m' = (case r of None \<Rightarrow> mgs_devices m
      | Some kept \<Rightarrow> map (\<lambda>g. snd (gamepad_resynchronize (answer (mg_fd g)) g)) kept)" "closed = rejected @ cl"
    using assms(1) c r by (auto simp: gamepads_scan_def split: option.splits)
  moreover have "mks_devices k' = (case r2 of None \<Rightarrow> mks_devices k
      | Some kept \<Rightarrow> map (\<lambda>k. snd (keyboard_resynchronize (answer (mk_fd k))
          (if grab (mk_fd k) then k\<lparr>mk_grabbed := True\<rparr> else k))) kept)" "closed' = rejected2 @ cl2"
    using assms(2) c2 r2 by (auto simp: keyboards_scan_def split: option.splits)
  ultimately show ?thesis
    using pads.scan_accounts [OF c r, where answer = answer] keys.scan_accounts [OF c2 r2, where grab = grab and answer = answer]
    by (simp add: kMaximumMenuGamepads_def kMaximumMenuKeyboards_def)
qed

definition sample_nodes :: "device_node list" where
  "sample_nodes =
     (let x = \<lparr>abs_value = 0, abs_minimum = 0, abs_maximum = 255\<rparr>;
          n = \<lparr>dn_name = ''event0'', dn_fd = 5, dn_identity = Some (0x1c59, 0x0026), dn_label = None, dn_phys = None,
               dn_x = Some x, dn_y = Some x, dn_key_bits = None, dn_keys = None, dn_grab = True\<rparr>
      in [n, n\<lparr>dn_name := ''mouse0'', dn_fd := 6\<rparr>, n\<lparr>dn_name := ''event1'', dn_fd := 7, dn_identity := None\<rparr>])"

theorem menu_scans_account_witness:
  "mset (live_fds mg_fd (mgs_devices (fst (snd (gamepads_scan (Some sample_nodes)
       (\<lambda>fd. \<lparr>ra_x = None, ra_y = None, ra_keys = None\<rparr>) created_gamepads))))) +
     mset (snd (snd (gamepads_scan (Some sample_nodes)
       (\<lambda>fd. \<lparr>ra_x = None, ra_y = None, ra_keys = None\<rparr>) created_gamepads))) = {#5, 7#}"
proof -
  let ?a = "\<lambda>fd. \<lparr>ra_x = None, ra_y = None, ra_keys = None\<rparr> :: resync_answers"
  obtain ok m' closed where 1: "gamepads_scan (Some sample_nodes) ?a created_gamepads = (ok, m', closed)"
    by (cases "gamepads_scan (Some sample_nodes) ?a created_gamepads")
  obtain ok' k' closed' where 2: "keyboards_scan (Some sample_nodes) (\<lambda>fd. True) ?a created_keyboards = (ok', k', closed')"
    by (cases "keyboards_scan (Some sample_nodes) (\<lambda>fd. True) ?a created_keyboards")
  have "opened (event_nodes sample_nodes) = [5, 7]" "live_fds mg_fd (mgs_devices created_gamepads) = []" by code_simp+
  with menu_scans_account [OF 1 2] show ?thesis by (simp add: 1)
qed

section \<open>Floods are cut off\<close>

datatype guard_call = Edge int | Quiet int

fun call_time :: "guard_call \<Rightarrow> int" where
  "call_time (Edge t) = t"
| "call_time (Quiet t) = t"

text \<open>A run of the guard, and the times of the edges it accepted.\<close>

fun guard_run :: "guard_call list \<Rightarrow> MenuControllerInputGuard \<times> int list \<Rightarrow> MenuControllerInputGuard \<times> int list" where
  "guard_run [] ga = ga"
| "guard_run (Edge now # cs) (g, accepted) =
     (let (ok, g1) = accept_edge now g in guard_run cs (g1, if ok then accepted @ [now] else accepted))"
| "guard_run (Quiet now # cs) (g, accepted) = guard_run cs (snd (recover_if_quiet now g), accepted)"

definition spaced :: "int list \<Rightarrow> bool" where
  "spaced ts = (\<forall>i. i + 12 < length ts \<longrightarrow> ts ! i + 1000 \<le> ts ! (i + 12))"

definition guard_inv :: "int \<Rightarrow> MenuControllerInputGuard \<times> int list \<Rightarrow> bool" where
  "guard_inv now ga =
     (let (g, accepted) = ga
      in spaced accepted \<and> (\<forall>t\<in>set accepted. t \<le> now) \<and>
         (suspended g \<longrightarrow> 0 \<le> last_edge_at g \<and> (\<forall>t\<in>set accepted. t \<le> last_edge_at g)) \<and>
         (\<not> suspended g \<longrightarrow> length (edge_times g) \<le> 12 \<and>
            (\<exists>older. accepted = older @ edge_times g \<and> (\<forall>t\<in>set older. t + 1000 \<le> now))))"

lemmas guard_defs = kMenuControllerBurstLimit_def kMenuControllerBurstWindowMs_def kMenuControllerQuietResetMs_def

lemma guard_inv_later: "guard_inv now ga \<Longrightarrow> now \<le> now' \<Longrightarrow> guard_inv now' ga"
  unfolding guard_inv_def by (fastforce split: prod.splits)

lemma spaced_snoc:
  assumes "spaced (older @ ts)" "length ts \<le> 11" "\<forall>t\<in>set older. t + 1000 \<le> now"
  shows "spaced ((older @ ts) @ [now])"
  unfolding spaced_def
proof (intro allI impI)
  fix i assume i: "i + 12 < length ((older @ ts) @ [now])"
  show "((older @ ts) @ [now]) ! i + 1000 \<le> ((older @ ts) @ [now]) ! (i + 12)"
  proof (cases "i + 12 < length (older @ ts)")
    case True
    then have "((older @ ts) @ [now]) ! (i + 12) = (older @ ts) ! (i + 12)"
      "((older @ ts) @ [now]) ! i = (older @ ts) ! i" by (intro nth_append_left; linarith)+
    then show ?thesis using assms(1) True by (simp only: spaced_def)
  next
    case False
    then have n: "i + 12 = length (older @ ts)" "i < length older" using i assms(2) by auto
    then have "((older @ ts) @ [now]) ! (i + 12) = now" "((older @ ts) @ [now]) ! i = older ! i"
      by (simp_all add: nth_append del: append_assoc)
    then show ?thesis using assms(3) nth_mem [OF n(2)] by simp
  qed
qed

text \<open>An open guard splits its history into edges outside and inside the window.\<close>

lemma guard_window:
  assumes "guard_inv now (g, accepted)" "\<not> suspended g" "now \<le> now'"
    "ts = dropWhile (\<lambda>t. kMenuControllerBurstWindowMs \<le> now' - t) (edge_times g)"
  shows "\<exists>older. accepted = older @ ts \<and> (\<forall>t\<in>set older. t + 1000 \<le> now') \<and> length ts \<le> 12"
proof -
  obtain older where o: "accepted = older @ edge_times g" "\<forall>t\<in>set older. t + 1000 \<le> now" "length (edge_times g) \<le> 12"
    using assms(1,2) by (auto simp: guard_inv_def)
  let ?gone = "takeWhile (\<lambda>t. kMenuControllerBurstWindowMs \<le> now' - t) (edge_times g)"
  have "\<forall>t\<in>set ?gone. t + 1000 \<le> now'"
    using set_takeWhileD by (fastforce simp: guard_defs)
  moreover have "accepted = (older @ ?gone) @ ts" by (simp add: o(1) assms(4))
  moreover have "length ts \<le> 12" using o(3) assms(4) by (meson le_trans length_dropWhile_le)
  ultimately show ?thesis using o(2) assms(3) by (intro exI [of _ "older @ ?gone"]) auto
qed

lemma guard_edge_inv:
  assumes "guard_inv now (g, accepted)" "0 \<le> now'" "now \<le> now'" "accept_edge now' g = (ok, g1)"
  shows "guard_inv now' (g1, if ok then accepted @ [now'] else accepted)"
proof (cases "suspended g")
  case True
  then show ?thesis using assms by (fastforce simp: guard_inv_def accept_edge_def)
next
  case False
  let ?ts = "dropWhile (\<lambda>t. kMenuControllerBurstWindowMs \<le> now' - t) (edge_times g)"
  obtain older where o: "accepted = older @ ?ts" "\<forall>t\<in>set older. t + 1000 \<le> now'"
    using guard_window [OF assms(1) False assms(3) refl] by blast
  have acc: "spaced accepted" "\<forall>t\<in>set accepted. t \<le> now'" using assms(1,3) by (fastforce simp: guard_inv_def)+
  show ?thesis
  proof (cases "length ?ts \<le> 11")
    case True
    then have "ok" "g1 = g\<lparr>last_edge_at := now', edge_times := ?ts @ [now']\<rparr>"
      using assms(4) False by (auto simp: accept_edge_def Let_def guard_defs)
    moreover have "spaced (accepted @ [now'])"
      unfolding o(1) by (rule spaced_snoc) (use o True acc(1) in simp_all)
    ultimately show ?thesis using False o acc(2) True by (auto simp: guard_inv_def)
  next
    case long: False
    then have "\<not> ok" "suspended g1" "last_edge_at g1 = now'"
      using assms(4) False by (auto simp: accept_edge_def Let_def guard_defs)
    then show ?thesis using acc assms(2) by (simp add: guard_inv_def)
  qed
qed

lemma guard_quiet_inv:
  assumes "guard_inv now (g, accepted)" "now \<le> now'"
  shows "guard_inv now' (snd (recover_if_quiet now' g), accepted)"
  using assms guard_inv_later [OF assms] by (fastforce simp: guard_inv_def recover_if_quiet_def guard_defs)

lemma guard_run_inv:
  assumes "guard_inv t ga" "sorted (t # map call_time cs)" "0 \<le> t" "t \<le> now" "list_all (\<lambda>c. call_time c \<le> now) cs"
  shows "\<exists>now'\<le>now. guard_inv now' (guard_run cs ga)"
  using assms
proof (induction cs arbitrary: t ga)
  case (Cons c cs)
  obtain g accepted where ga: "ga = (g, accepted)" by fastforce
  have t: "t \<le> call_time c" "sorted (call_time c # map call_time cs)" "0 \<le> call_time c" "call_time c \<le> now"
    "list_all (\<lambda>c. call_time c \<le> now) cs" using Cons.prems by auto
  show ?case
  proof (cases c)
    case (Edge now')
    obtain ok g1 where "accept_edge now' g = (ok, g1)" by fastforce
    with guard_edge_inv [OF Cons.prems(1) [unfolded ga], of now' ok g1] Cons.IH [of now'] t
    show ?thesis by (simp add: Edge ga)
  next
    case (Quiet now')
    from guard_quiet_inv [OF Cons.prems(1) [unfolded ga], of now'] Cons.IH [of now'] t
    show ?thesis by (simp add: Quiet ga)
  qed
qed auto

text \<open>
  A controller cannot flood the menu: in every run of the guard, any thirteen consecutive
  accepted edges span at least a second; an edge is refused by an open guard only when twelve
  were accepted within the last second; and a suspended guard accepts edges again once a second
  has passed since the last one.
\<close>
theorem guard_limits_bursts:
  assumes "sorted (map call_time cs)" "list_all (\<lambda>c. 0 \<le> call_time c) cs"
    "guard_run cs (created_guard, []) = (g, accepted)" "list_all (\<lambda>c. call_time c \<le> now) cs" "0 \<le> now"
  shows "(i + 12 < length accepted \<longrightarrow> 1000 \<le> accepted ! (i + 12) - accepted ! i) \<and>
    (\<not> suspended g \<and> \<not> fst (accept_edge now g) \<longrightarrow>
       12 \<le> length accepted \<and> now - accepted ! (length accepted - 12) < 1000) \<and>
    (suspended g \<and> last_edge_at g + 1000 \<le> now \<longrightarrow>
       fst (recover_if_quiet now g) \<and> fst (accept_edge now (snd (recover_if_quiet now g))))"
proof -
  have start: "guard_inv 0 (created_guard, [])" by (simp add: guard_inv_def created_guard_def spaced_def)
  have "sorted (0 # map call_time cs)" using assms(1,2) by (auto simp: list_all_iff)
  from guard_run_inv [OF start this _ assms(5,4)] obtain t where t: "t \<le> now" "guard_inv t (g, accepted)"
    unfolding assms(3) by auto
  show ?thesis
  proof (intro conjI impI)
    assume "i + 12 < length accepted"
    then show "1000 \<le> accepted ! (i + 12) - accepted ! i" using t(2) by (fastforce simp: guard_inv_def spaced_def)
  next
    assume r: "\<not> suspended g \<and> \<not> fst (accept_edge now g)"
    let ?ts = "dropWhile (\<lambda>t. kMenuControllerBurstWindowMs \<le> now - t) (edge_times g)"
    obtain older where o: "accepted = older @ ?ts" "length ?ts \<le> 12"
      using guard_window [OF t(2) _ t(1) refl] r by blast
    have l: "length ?ts = 12" using r o(2) by (auto simp: accept_edge_def Let_def guard_defs split: if_splits)
    then obtain x xs where x: "?ts = x # xs" by (cases ?ts) auto
    have "\<not> 1000 \<le> now - x" using x by (simp add: dropWhile_eq_Cons_conv guard_defs)
    moreover have "length accepted - 12 = length older" "12 \<le> length accepted" using o(1) l by simp_all
    moreover have "accepted ! length older = x" using o(1) x by simp
    ultimately show "12 \<le> length accepted" "now - accepted ! (length accepted - 12) < 1000" by simp_all
  next
    assume "suspended g \<and> last_edge_at g + 1000 \<le> now"
    then show "fst (recover_if_quiet now g)" "fst (accept_edge now (snd (recover_if_quiet now g)))"
      using t(2) by (auto simp: guard_inv_def recover_if_quiet_def accept_edge_def guard_defs)
  qed
qed

theorem guard_limits_bursts_witness:
  "snd (guard_run (map Edge [0..12]) (created_guard, [])) = [0..11] \<and>
   fst (accept_edge 1012 (snd (recover_if_quiet 1012 (fst (guard_run (map Edge [0..12]) (created_guard, []))))))"
proof -
  obtain g accepted where 1: "guard_run (map Edge [0..12]) (created_guard, []) = (g, accepted)" by fastforce
  have r: "guard_run (map Edge [0..12]) (created_guard, []) =
      (\<lparr>edge_times = [0..12], suspended = True, last_edge_at = 12\<rparr>, [0..11])" by code_simp
  have "sorted (map call_time (map Edge [0..12]))" "list_all (\<lambda>c. 0 \<le> call_time c) (map Edge [0..12])"
    "list_all (\<lambda>c. call_time c \<le> 1012) (map Edge [0..12])" by code_simp+
  with guard_limits_bursts [OF this(1,2) 1 this(3), of 0] r 1 show ?thesis by simp
qed

end
