(* ===== verification/Menu_Framebuffer.thy ===== *)
theory Menu_Framebuffer
  imports Deck_Video Menu_UI
begin

section \<open>The dashboard's framebuffer (\<open>src/deck_menu.cpp\<close>)\<close>

text \<open>
  The dashboard shows its landscape canvas on the portrait panel: every logical column becomes a
  panel row.  The panel memory is a list of 16-bit words, as in the frontends' framebuffer, whose
  record of kernel answers is shared.  The Wayland presentation is outside: whether it is open is
  a flag, and what it does with a canvas is an answer.
\<close>

subsection \<open>Between canvas and scanout\<close>

definition scanout_run :: "Canvas \<Rightarrow> nat \<Rightarrow> nat \<Rightarrow> nat \<times> u16 list" where
  "scanout_run canvas words x =
     ((kPhysicalHeight - 1 - x) * words,
      map (\<lambda>y. canvas ! (y * nat kLogicalWidth + x)) [0..<nat kLogicalHeight])"

definition stage_canvas_for_scanout :: "Canvas \<Rightarrow> nat \<Rightarrow> u16 list \<Rightarrow> u16 list option" where
  "stage_canvas_for_scanout canvas words frame =
     (if length canvas \<noteq> nat (kLogicalWidth * kLogicalHeight) \<or> words < kPhysicalWidth \<or>
         length frame < words * kPhysicalHeight
      then None
      else Some (write_runs (map (scanout_run canvas words) [0..<nat kLogicalWidth]) frame))"

text \<open>Every cell of the canvas is assigned once; it is given by its index.\<close>

definition read_scanout_into_canvas :: "u16 list \<Rightarrow> nat \<Rightarrow> Canvas option" where
  "read_scanout_into_canvas frame words =
     (if words < kPhysicalWidth then None
      else Some (map (\<lambda>i. frame ! ((kPhysicalHeight - 1 - i mod nat kLogicalWidth) * words + i div nat kLogicalWidth))
             [0..<nat (kLogicalWidth * kLogicalHeight)]))"

subsection \<open>The device\<close>

record Framebuffer =
  mf_fd :: int
  mf_memory :: "u16 list option"
  mf_map_size :: nat
  mf_stride :: nat
  mf_frame :: "u16 list"
  mf_wayland :: bool

definition created_framebuffer :: Framebuffer where
  "created_framebuffer = \<lparr>mf_fd = - 1, mf_memory = None, mf_map_size = 0, mf_stride = 0, mf_frame = [], mf_wayland = False\<rparr>"

definition framebuffer_close_device :: "Framebuffer \<Rightarrow> Framebuffer" where
  "framebuffer_close_device fb =
     fb\<lparr>mf_wayland := False, mf_memory := None, mf_fd := - 1, mf_map_size := 0, mf_stride := 0, mf_frame := []\<rparr>"

definition framebuffer_close_for_child :: "Framebuffer \<Rightarrow> Framebuffer" where
  "framebuffer_close_for_child fb = (if mf_wayland fb then fb else framebuffer_close_device fb)"

definition uses_wayland :: "Framebuffer \<Rightarrow> bool" where
  "uses_wayland fb = mf_wayland fb"

text \<open>
  \<open>widget_open\<close>: the presentation that exists is still open; \<open>widget_opens\<close>: a display is named
  in the environment and the widget can be opened.  The memory the panel maps is \<open>panel\<close>.
\<close>

definition framebuffer_open_device ::
  "bool \<Rightarrow> bool \<Rightarrow> fb_kernel \<Rightarrow> u16 list \<Rightarrow> Framebuffer \<Rightarrow> (video_error + unit) \<times> Framebuffer" where
  "framebuffer_open_device widget_open widget_opens k panel fb0 =
     (if mf_wayland fb0 \<and> widget_open then (Inr (), fb0)
      else
        (let fb = framebuffer_close_device fb0
         in if widget_opens then (Inr (), fb\<lparr>mf_wayland := True\<rparr>)
            else if k_fd k < 0 then (Inl CannotOpen, fb\<lparr>mf_fd := k_fd k\<rparr>)
            else if \<not> k_query_ok k then (Inl CannotQueryGeometry, fb)
            else if k_line_length k = 0 \<or> fb_rows k > (2 ^ 32 - 1) div k_line_length k then (Inl GeometryOverflow, fb)
            else if \<not> fb_supported k then (Inl UnsupportedFramebuffer, fb)
            else if \<not> k_map_ok k then (Inl CannotMap, fb)
            else (Inr (),
                  fb\<lparr>mf_fd := k_fd k, mf_stride := k_line_length k, mf_map_size := k_smem_len k,
                     mf_memory := Some panel, mf_frame := replicate (k_smem_len k div 2) 0\<rparr>)))"

definition publish_row :: "nat \<Rightarrow> u16 list \<Rightarrow> nat \<Rightarrow> nat \<times> u16 list" where
  "publish_row words frame physical_row =
     (let offset = physical_row * words in (offset, take (nat kLogicalHeight) (drop offset frame)))"

text \<open>\<open>widget_presents\<close> answers for the Wayland presentation.\<close>

definition framebuffer_present :: "bool \<Rightarrow> Canvas \<Rightarrow> Framebuffer \<Rightarrow> (video_error + unit) \<times> Framebuffer" where
  "framebuffer_present widget_presents canvas fb =
     (if mf_wayland fb then (if widget_presents then Inr () else Inl InvalidFrame, fb)
      else
        (case mf_memory fb of
           None \<Rightarrow> (Inl NotOpen, fb)
         | Some memory \<Rightarrow>
             if length canvas \<noteq> nat (kLogicalWidth * kLogicalHeight) then (Inl NotOpen, fb)
             else
               (let words = mf_stride fb div 2
                in case stage_canvas_for_scanout canvas words (mf_frame fb) of
                     None \<Rightarrow> (Inl NoStagingBuffer, fb)
                   | Some frame \<Rightarrow>
                       (Inr (), fb\<lparr>mf_frame := frame,
                          mf_memory := Some (write_runs (map (publish_row words frame) [0..<kPhysicalHeight]) memory)\<rparr>))))"

text \<open>What the console mirror shows: the panel read back, when its geometry is usable.\<close>

definition console_supported :: "fb_kernel \<Rightarrow> bool" where
  "console_supported k \<longleftrightarrow> \<not>
     (k_xres k \<noteq> kPhysicalWidth \<or> k_yres k \<noteq> kPhysicalHeight \<or> k_bits_per_pixel k \<noteq> 16 \<or>
      k_line_length k < kPhysicalWidth * 2 \<or> k_line_length k mod 2 \<noteq> 0 \<or> fb_rows k < kPhysicalHeight \<or>
      fb_rows k > (2 ^ 32 - 1) div k_line_length k \<or> k_smem_len k < k_line_length k * fb_rows k)"

definition present_console_scanout :: "bool \<Rightarrow> fb_kernel \<Rightarrow> u16 list \<Rightarrow> Framebuffer \<Rightarrow> video_error + Canvas" where
  "present_console_scanout widget_presents k panel fb =
     (if \<not> mf_wayland fb then Inl NotOpen
      else if k_fd k < 0 then Inl CannotOpen
      else if \<not> k_query_ok k then Inl CannotQueryGeometry
      else if \<not> console_supported k then Inl UnsupportedFramebuffer
      else if \<not> k_map_ok k then Inl CannotMap
      else (case read_scanout_into_canvas panel (k_line_length k div 2) of
              None \<Rightarrow> Inl InvalidFrame
            | Some canvas \<Rightarrow> if widget_presents then Inr canvas else Inl InvalidFrame))"

subsection \<open>The built-in geometry test\<close>

text \<open>The pixels in the order of the loops, marked in \<open>seen\<close>; \<open>None\<close> is a failed check.\<close>

fun geometry_loop :: "(nat \<times> nat) list \<Rightarrow> bool list \<Rightarrow> nat \<Rightarrow> (bool list \<times> nat) option" where
  "geometry_loop [] seen count = Some (seen, count)"
| "geometry_loop ((x, y) # ps) seen count =
     (let physical_row = int kPhysicalHeight - 1 - int x; index = nat (physical_row * int kPhysicalWidth + int y)
      in if kPhysicalWidth \<le> y \<or> physical_row < 0 \<or> int kPhysicalHeight \<le> physical_row then None
         else if seen ! index then None
         else geometry_loop ps (seen[index := True]) (count + 1))"

definition geometry_pixels :: "(nat \<times> nat) list" where
  "geometry_pixels = [(x, y). y \<leftarrow> [0..<nat kLogicalHeight], x \<leftarrow> [0..<nat kLogicalWidth]]"

definition geometry_canvas :: Canvas where
  "geometry_canvas =
     (replicate (nat (kLogicalWidth * kLogicalHeight)) 0)
       [0 := 0x1234, nat (kLogicalWidth * kLogicalHeight) - 1 := 0xabcd]"

definition geometry_test :: nat where
  "geometry_test =
     (case geometry_loop geometry_pixels (replicate (kPhysicalWidth * kPhysicalHeight) False) 0 of
        None \<Rightarrow> 1
      | Some (seen, count) \<Rightarrow>
          if count \<noteq> nat (kLogicalWidth * kLogicalHeight) then 1
          else if \<not> seen ! (1279 * kPhysicalWidth) \<or> \<not> seen ! (0 * kPhysicalWidth + 479) \<or> seen ! (0 * kPhysicalWidth + 480)
          then 1
          else
            (case stage_canvas_for_scanout geometry_canvas kPhysicalWidth
                    (replicate (kPhysicalWidth * kPhysicalHeight) 0xdead) of
               None \<Rightarrow> 1
             | Some frame \<Rightarrow>
                 if frame ! ((kPhysicalHeight - 1) * kPhysicalWidth) \<noteq> 0x1234 \<or>
                    frame ! (nat kLogicalHeight - 1) \<noteq> 0xabcd \<or> frame ! nat kLogicalHeight \<noteq> 0xdead
                 then 1
                 else (case read_scanout_into_canvas frame kPhysicalWidth of
                         None \<Rightarrow> 1
                       | Some restored \<Rightarrow> if restored \<noteq> geometry_canvas then 1 else 0)))"

section \<open>The panel shows the canvas\<close>

text \<open>The word of the panel at which a pixel is shown, and the pixel a word shows.\<close>

definition scanout_index :: "nat \<Rightarrow> nat \<Rightarrow> nat \<Rightarrow> nat" where
  "scanout_index words x y = (1279 - x) * words + y"

lemma panel_canvas_size: "nat (kLogicalWidth * kLogicalHeight) = 614400" "nat kLogicalWidth = 1280" "nat kLogicalHeight = 480"
  by (simp_all add: Menu_UI.kLogicalWidth_def Menu_UI.kLogicalHeight_def)

text \<open>A row of the panel holds 480 words of the canvas.\<close>

lemma row_of_index:
  assumes "(r :: nat) * words \<le> i" "i < r * words + 480" "480 \<le> words"
  shows "i div words = r" "i mod words = i - r * words"
proof -
  have i: "i = r * words + (i - r * words)" "i - r * words < words" using assms by linarith+
  then show q: "i div words = r" by (metis add.right_neutral assms(3) div_less div_mult_self3 gr_zeroI le_zero_eq not_less zero_neq_numeral)
  then show "i mod words = i - r * words" by (simp add: minus_div_mult_eq_mod [symmetric])
qed

lemma mirrored_less: "1279 - (x :: nat) < 1280"
  by (rule le_less_trans [OF diff_le_self]) simp

lemma row_fits:
  assumes "r < (1280 :: nat)" "480 \<le> words" "1280 * words \<le> n"
  shows "r * words + 480 \<le> n"
proof -
  have "Suc r * words \<le> 1280 * words" by (rule mult_le_mono1) (use assms(1) in simp)
  then show ?thesis using assms(2,3) unfolding mult_Suc by linarith
qed

lemma covered_rows:
  assumes "\<forall>r\<in>set rs. fst (run r) = row r * words \<and> length (snd (run r)) = 480" "480 \<le> words"
  shows "covered (map run rs) i \<longleftrightarrow> i div words \<in> row ` set rs \<and> i mod words < 480"
proof
  assume "covered (map run rs) i"
  then obtain r where "r \<in> set rs" "row r * words \<le> i" "i < row r * words + 480"
    using assms(1) by (fastforce simp: covered_def list_ex_iff)
  with row_of_index [OF this(2,3) assms(2)] show "i div words \<in> row ` set rs \<and> i mod words < 480" by auto
next
  assume c: "i div words \<in> row ` set rs \<and> i mod words < 480"
  then obtain r where r: "r \<in> set rs" "i div words = row r" by auto
  have "row r * words + i mod words = i" unfolding r(2) [symmetric] by simp
  then have "row r * words \<le> i" "i < row r * words + 480" using c by linarith+
  then have "case run r of (off, d) \<Rightarrow> off \<le> i \<and> i < off + length d"
    using assms(1) r(1) by (cases "run r") force
  then show "covered (map run rs) i" unfolding covered_def list_ex_iff using r(1) by (intro bexI [of _ "run r"]) simp_all
qed

lemma write_rows:
  assumes "\<forall>r\<in>set rs. fst (run r) = row r * words \<and> length (snd (run r)) = 480 \<and> row r < 1280 \<and>
      (\<forall>k<480. snd (run r) ! k = g (row r * words + k))"
    "480 \<le> words" "1280 * words \<le> length buf" "row ` set rs = {0..<1280}"
  shows "length (write_runs (map run rs) buf) = length buf"
    "i < length buf \<Longrightarrow> write_runs (map run rs) buf ! i = (if i div words < 1280 \<and> i mod words < 480 then g i else buf ! i)"
proof -
  have within: "runs_within (length buf) (map run rs)"
    unfolding runs_within_def list_all_iff
  proof (clarify)
    fix off d assume "(off, d) \<in> set (map run rs)"
    then obtain r where r: "r \<in> set rs" "run r = (off, d)" by auto
    then have d: "off = row r * words" "length d = 480" "row r < 1280" using assms(1) by force+
    show "off + length d \<le> length buf" unfolding d(1,2) by (rule row_fits [OF d(3) assms(2,3)])
  qed
  then show "length (write_runs (map run rs) buf) = length buf" by simp
  have agree: "runs_agree (map run rs) g" using assms(1) by (fastforce simp: runs_agree_def list_all_iff)
  have "covered (map run rs) i \<longleftrightarrow> i div words < 1280 \<and> i mod words < 480"
    using covered_rows [of rs run row words i] assms(1,2,4) by auto
  then show "i < length buf \<Longrightarrow> write_runs (map run rs) buf ! i = (if i div words < 1280 \<and> i mod words < 480 then g i else buf ! i)"
    using nth_write_runs [OF within agree] by simp
qed

lemma upto_image: "(\<lambda>x. 1279 - x) ` {0..<1280} = {0..<1280 :: nat}"
proof -
  have "r \<in> (\<lambda>x. 1279 - x) ` {0..<1280}" if "r < 1280" for r :: nat
    using that by (intro image_eqI [of _ _ "1279 - r"]) simp_all
  then show ?thesis by auto
qed

lemma row_div_mod:
  assumes "k < (480 :: nat)" "480 \<le> words"
  shows "(r * words + k) div words = r" "(r * words + k) mod words = k"
  using row_of_index [of r words "r * words + k"] assms by simp_all

lemma staged:
  assumes "stage_canvas_for_scanout canvas words frame = Some frame'"
  shows "length frame' = length frame"
    "i < length frame \<Longrightarrow> frame' ! i =
      (if i div words < 1280 \<and> i mod words < 480 then canvas ! (i mod words * 1280 + (1279 - i div words)) else frame ! i)"
    "600 \<le> words" "1280 * words \<le> length frame" "length canvas = 614400"
proof -
  have a: "600 \<le> words" "1280 * words \<le> length frame" "length canvas = 614400"
    "frame' = write_runs (map (scanout_run canvas words) [0..<1280]) frame"
    using assms by (auto simp: stage_canvas_for_scanout_def panel_canvas_size split: if_splits)
  then show "600 \<le> words" "1280 * words \<le> length frame" "length canvas = 614400" by simp_all
  let ?g = "\<lambda>i. canvas ! (i mod words * 1280 + (1279 - i div words))"
  have run: "\<forall>x\<in>set [0..<1280]. fst (scanout_run canvas words x) = (1279 - x) * words \<and>
      length (snd (scanout_run canvas words x)) = 480 \<and> 1279 - x < 1280 \<and>
      (\<forall>k<480. snd (scanout_run canvas words x) ! k = ?g ((1279 - x) * words + k))"
  proof
    fix x :: nat assume x: "x \<in> set [0..<1280]"
    then have "1279 - (1279 - x) = x" by simp
    then show "fst (scanout_run canvas words x) = (1279 - x) * words \<and>
      length (snd (scanout_run canvas words x)) = 480 \<and> 1279 - x < 1280 \<and>
      (\<forall>k<480. snd (scanout_run canvas words x) ! k = ?g ((1279 - x) * words + k))"
      using a(1) mirrored_less [of x] by (simp add: scanout_run_def panel_canvas_size row_div_mod)
  qed
  have rows: "(\<lambda>x. 1279 - x) ` set [0..<1280] = {0..<1280 :: nat}" using upto_image by simp
  have w: "480 \<le> words" using a(1) by simp
  note wr = write_rows [OF run w a(2) rows]
  show "length frame' = length frame" unfolding a(4) by (rule wr(1))
  show "i < length frame \<Longrightarrow> frame' ! i =
      (if i div words < 1280 \<and> i mod words < 480 then canvas ! (i mod words * 1280 + (1279 - i div words)) else frame ! i)"
    unfolding a(4) by (rule wr(2))
qed

lemma published:
  assumes "480 \<le> words" "1280 * words \<le> length memory" "1280 * words \<le> length frame"
  shows "length (write_runs (map (publish_row words frame) [0..<kPhysicalHeight]) memory) = length memory"
    "i < length memory \<Longrightarrow> write_runs (map (publish_row words frame) [0..<kPhysicalHeight]) memory ! i =
      (if i div words < 1280 \<and> i mod words < 480 then frame ! i else memory ! i)"
proof -
  have run: "\<forall>r\<in>set [0..<kPhysicalHeight]. fst (publish_row words frame r) = r * words \<and>
      length (snd (publish_row words frame r)) = 480 \<and> r < 1280 \<and>
      (\<forall>k<480. snd (publish_row words frame r) ! k = frame ! (r * words + k))"
  proof
    fix r assume "r \<in> set [0..<kPhysicalHeight]"
    then have r: "r < 1280" by simp
    have "r * words + 480 \<le> length frame" by (rule row_fits [OF r assms(1,3)])
    then show "fst (publish_row words frame r) = r * words \<and>
      length (snd (publish_row words frame r)) = 480 \<and> r < 1280 \<and>
      (\<forall>k<480. snd (publish_row words frame r) ! k = frame ! (r * words + k))"
      using r by (simp add: publish_row_def panel_canvas_size Let_def)
  qed
  have rows: "(\<lambda>x. x) ` set [0..<kPhysicalHeight] = {0..<1280 :: nat}" by auto
  note wr = write_rows [OF run assms(1,2) rows]
  show "length (write_runs (map (publish_row words frame) [0..<kPhysicalHeight]) memory) = length memory" by (rule wr(1))
  show "i < length memory \<Longrightarrow> write_runs (map (publish_row words frame) [0..<kPhysicalHeight]) memory ! i =
      (if i div words < 1280 \<and> i mod words < 480 then frame ! i else memory ! i)" by (rule wr(2))
qed

lemma scanout_position:
  assumes "i < (614400 :: nat)" "600 \<le> words"
  shows "((1279 - i mod 1280) * words + i div 1280) div words = 1279 - i mod 1280"
    "((1279 - i mod 1280) * words + i div 1280) mod words = i div 1280"
    "(1279 - i mod 1280) * words + i div 1280 < 1280 * words"
proof -
  have y: "i div 1280 < 480" using assms(1) by (simp add: less_mult_imp_div_less)
  from row_div_mod [OF y, of words] assms(2)
  show "((1279 - i mod 1280) * words + i div 1280) div words = 1279 - i mod 1280"
    "((1279 - i mod 1280) * words + i div 1280) mod words = i div 1280" by simp_all
  have "(1279 - i mod 1280) * words + 480 \<le> 1280 * words" by (rule row_fits) (use assms(2) in simp_all)
  then show "(1279 - i mod 1280) * words + i div 1280 < 1280 * words" using y by linarith
qed

lemma read_back:
  assumes "600 \<le> words" "length canvas = 614400"
    "\<And>i. i < 614400 \<Longrightarrow> frame ! ((1279 - i mod 1280) * words + i div 1280) = canvas ! i"
  shows "read_scanout_into_canvas frame words = Some canvas"
proof -
  have "map (\<lambda>i. frame ! ((kPhysicalHeight - 1 - i mod nat kLogicalWidth) * words + i div nat kLogicalWidth)) [0..<614400] = canvas"
    using assms(2,3) by (intro nth_equalityI) (simp_all add: panel_canvas_size)
  then show ?thesis using assms(1) by (simp add: read_scanout_into_canvas_def panel_canvas_size)
qed

lemma staged_read_back:
  assumes "stage_canvas_for_scanout canvas words frame = Some frame'"
  shows "read_scanout_into_canvas frame' words = Some canvas"
proof (rule read_back)
  note st = staged [OF assms]
  show "600 \<le> words" "length canvas = 614400" by (fact st(3), fact st(5))
  fix i :: nat assume i: "i < 614400"
  note p = scanout_position [OF i st(3)]
  have m: "i mod 1280 \<le> 1279" using mod_less_divisor [of 1280 i] by linarith
  have pixel: "i div 1280 * 1280 + (1279 - (1279 - i mod 1280)) = i" using m by simp
  have y: "i div 1280 < 480" using i by (simp add: less_mult_imp_div_less)
  let ?j = "(1279 - i mod 1280) * words + i div 1280"
  have "?j < length frame" using p(3) st(4) by linarith
  from st(2) [OF this] y show "frame' ! ?j = canvas ! i"
    unfolding p(1,2) pixel by (simp add: mirrored_less)
qed

text \<open>A framebuffer that \<open>open_device\<close> left behind.\<close>

definition panel_ok :: "Framebuffer \<Rightarrow> bool" where
  "panel_ok fb = (\<not> mf_wayland fb \<and> (case mf_memory fb of None \<Rightarrow> False | Some m \<Rightarrow>
     length (mf_frame fb) = length m \<and> 600 \<le> mf_stride fb div 2 \<and> 1280 * (mf_stride fb div 2) \<le> length m))"

text \<open>
  C16. The panel shows the canvas: after a successful \<open>open_device\<close> on a panel of its announced size,
  presenting a full canvas succeeds, the panel read back is exactly that canvas, and no word of the
  panel outside the 1280 rows of 480 words is touched.
\<close>
theorem panel_shows_canvas:
  assumes "framebuffer_open_device False False k panel fb0 = (Inr (), fb)"
    "length panel = k_smem_len k div 2" "length canvas = nat (kLogicalWidth * kLogicalHeight)"
  shows "\<exists>fb' memory. framebuffer_present ok canvas fb = (Inr (), fb') \<and> mf_memory fb' = Some memory \<and>
    length memory = length panel \<and>
    read_scanout_into_canvas memory (mf_stride fb' div 2) = Some canvas \<and>
    (\<forall>i<length panel. \<not> (i div (mf_stride fb div 2) < 1280 \<and> i mod (mf_stride fb div 2) < 480) \<longrightarrow> memory ! i = panel ! i)"
proof -
  let ?words = "k_line_length k div 2"
  have open_ok: "fb_supported k" "fb = (framebuffer_close_device fb0)\<lparr>mf_fd := k_fd k, mf_stride := k_line_length k,
      mf_map_size := k_smem_len k, mf_memory := Some panel, mf_frame := replicate (k_smem_len k div 2) 0\<rparr>"
    using assms(1) by (auto simp: framebuffer_open_device_def Let_def split: if_splits)
  then have fb: "mf_memory fb = Some panel" "mf_stride fb = k_line_length k" "\<not> mf_wayland fb"
    "mf_frame fb = replicate (length panel) 0"
    by (simp_all add: framebuffer_close_device_def assms(2))
  have k: "1200 \<le> k_line_length k" "k_line_length k * fb_rows k \<le> k_smem_len k" "1280 \<le> fb_rows k" "even (k_line_length k)"
    using open_ok(1) by (auto simp: fb_supported_def)
  have words: "600 \<le> ?words" using k(1) by linarith
  have "k_line_length k * 1280 \<le> k_line_length k * fb_rows k" using k(3) by (rule mult_left_mono) simp
  then have "k_line_length k * 1280 \<le> k_smem_len k" using k(2) by linarith
  moreover have "k_line_length k = 2 * ?words" using k(4) by simp
  ultimately have "2 * (?words * 1280) \<le> k_smem_len k" by (metis mult.assoc)
  then have size: "1280 * ?words \<le> length panel" unfolding assms(2) by simp
  obtain frame' where f: "stage_canvas_for_scanout canvas ?words (mf_frame fb) = Some frame'"
    using assms(3) words size by (simp add: stage_canvas_for_scanout_def fb panel_canvas_size)
  note st = staged [OF f]
  let ?memory = "write_runs (map (publish_row ?words frame') [0..<kPhysicalHeight]) panel"
  have frame_size: "1280 * ?words \<le> length frame'" using st(1) size by (simp add: fb)
  have w: "480 \<le> ?words" using words by simp
  note pub = published [OF w size frame_size]
  have present: "framebuffer_present ok canvas fb =
      (Inr (), fb\<lparr>mf_frame := frame', mf_memory := Some ?memory\<rparr>)"
    using assms(3) f by (simp add: framebuffer_present_def fb Let_def)
  have "read_scanout_into_canvas ?memory ?words = Some canvas"
  proof (rule read_back [OF words])
    show "length canvas = 614400" using assms(3) by (simp add: panel_canvas_size)
    fix i :: nat assume i: "i < 614400"
    let ?j = "(1279 - i mod 1280) * ?words + i div 1280"
    note p = scanout_position [OF i words]
    have j: "?j < length panel" using p(3) size by linarith
    have "i div 1280 < 480" using i by (simp add: less_mult_imp_div_less)
    then have "?memory ! ?j = frame' ! ?j" using pub(2) [OF j] p(1,2) mirrored_less by presburger
    moreover have "frame' ! ?j = canvas ! i"
      using staged_read_back [OF f] i by (auto simp: read_scanout_into_canvas_def panel_canvas_size split: if_splits)
    ultimately show "?memory ! ?j = canvas ! i" by simp
  qed
  moreover have "\<forall>i<length panel. \<not> (i div ?words < 1280 \<and> i mod ?words < 480) \<longrightarrow> ?memory ! i = panel ! i"
    using pub(2) by simp
  ultimately show ?thesis using present pub(1) by (simp add: fb)
qed

definition deck_kernel :: fb_kernel where
  "deck_kernel =
     \<lparr>k_fd = 4, k_query_ok = True, k_xres = 600, k_yres = 1280, k_yres_virtual = 1280, k_bits_per_pixel = 16,
      k_xoffset = 0, k_yoffset = 0, k_packed_pixels = True, k_truecolor = True, k_line_length = 1200,
      k_smem_len = 1536000, k_red = \<lparr>bf_offset = 11, bf_length = 5, bf_msb_right = 0\<rparr>,
      k_green = \<lparr>bf_offset = 5, bf_length = 6, bf_msb_right = 0\<rparr>,
      k_blue = \<lparr>bf_offset = 0, bf_length = 5, bf_msb_right = 0\<rparr>, k_transp_length = 0, k_map_ok = True\<rparr>"

theorem panel_shows_canvas_witness:
  "\<exists>fb memory. framebuffer_present True (replicate 614400 7)
      (snd (framebuffer_open_device False False deck_kernel (replicate 768000 0) created_framebuffer)) = (Inr (), fb) \<and>
    mf_memory fb = Some memory \<and> read_scanout_into_canvas memory 600 = Some (replicate 614400 7)"
proof -
  have s: "fb_supported deck_kernel" by (simp add: fb_supported_def deck_kernel_def fb_rows_def)
  obtain fb where o: "framebuffer_open_device False False deck_kernel (replicate 768000 0) created_framebuffer = (Inr (), fb)"
    using s by (simp add: framebuffer_open_device_def created_framebuffer_def deck_kernel_def fb_rows_def Let_def)
  moreover have "mf_stride fb = 1200"
    using o s by (auto simp: framebuffer_open_device_def created_framebuffer_def deck_kernel_def fb_rows_def Let_def split: if_splits)
  moreover have "mf_stride fb' = mf_stride fb" if "framebuffer_present True (replicate 614400 7) fb = (Inr (), fb')" for fb'
    using that by (auto simp: framebuffer_present_def Let_def split: if_splits option.splits)
  ultimately show ?thesis
    using panel_shows_canvas [OF o, of "replicate 614400 7" True] by (fastforce simp: deck_kernel_def panel_canvas_size)
qed

section \<open>The geometry test passes\<close>

definition geometry_index :: "nat \<times> nat \<Rightarrow> nat" where
  "geometry_index p = (1279 - fst p) * 600 + snd p"

lemma geometry_loop_marks:
  assumes "list_all (\<lambda>(x, y). x < 1280 \<and> y < 480) ps" "distinct (map geometry_index ps)" "length seen = 768000"
    "\<forall>p\<in>set ps. \<not> seen ! geometry_index p"
  shows "\<exists>seen'. geometry_loop ps seen count = Some (seen', count + length ps) \<and> length seen' = 768000 \<and>
    (\<forall>i<768000. seen' ! i = (seen ! i \<or> i \<in> geometry_index ` set ps))"
  using assms
proof (induction ps arbitrary: seen count)
  case (Cons p ps)
  obtain x y where p: "p = (x, y)" by fastforce
  have xy: "x < 1280" "y < 480" using Cons.prems(1) by (simp_all add: p)
  then have idx: "nat ((int kPhysicalHeight - 1 - int x) * int kPhysicalWidth + int y) = geometry_index (x, y)"
    by (simp add: geometry_index_def p nat_add_distrib nat_mult_distrib nat_diff_distrib)
  have bound: "geometry_index p < 768000"
    using row_fits [OF mirrored_less, of 600 768000 x] xy(2) by (simp add: geometry_index_def p)
  let ?seen = "seen[geometry_index p := True]"
  have "\<forall>q\<in>set ps. \<not> ?seen ! geometry_index q"
  proof
    fix q assume q: "q \<in> set ps"
    then have "geometry_index p \<noteq> geometry_index q" using Cons.prems(2) by auto
    then show "\<not> ?seen ! geometry_index q" using Cons.prems(4) q by simp
  qed
  with Cons.IH [of ?seen "count + 1"] Cons.prems(1-3) obtain seen' where
    ih: "geometry_loop ps ?seen (count + 1) = Some (seen', count + 1 + length ps)" "length seen' = 768000"
    "\<forall>i<768000. seen' ! i = (?seen ! i \<or> i \<in> geometry_index ` set ps)" by auto
  have "geometry_loop (p # ps) seen count = Some (seen', count + length (p # ps))"
    using xy Cons.prems(4) ih(1) unfolding p geometry_loop.simps Let_def idx by simp
  moreover have "\<forall>i<768000. seen' ! i = (seen ! i \<or> i \<in> geometry_index ` set (p # ps))"
    using ih(3) Cons.prems(3) bound by (auto simp: nth_list_update split: if_splits)
  ultimately show ?case using ih(2) by blast
qed simp

lemma geometry_index_inj: "inj_on geometry_index {(x, y). x < 1280 \<and> y < 480}"
proof (rule inj_onI, clarify)
  fix a b x y :: nat
  assume "a < 1280" "b < 480" "x < 1280" "y < 480" "geometry_index (a, b) = geometry_index (x, y)"
  then have "(1279 - a) * 600 + b = (1279 - x) * 600 + y" by (simp add: geometry_index_def)
  moreover from this have "1279 - a = 1279 - x"
    using row_div_mod(1) [OF \<open>b < 480\<close>, of 600 "1279 - a"] row_div_mod(1) [OF \<open>y < 480\<close>, of 600 "1279 - x"] by simp
  ultimately show "a = x \<and> b = y" using \<open>a < 1280\<close> \<open>x < 1280\<close> by simp
qed

lemma geometry_pixels_set: "set geometry_pixels = {(x, y). x < 1280 \<and> y < 480}"
  by (auto simp: geometry_pixels_def panel_canvas_size)

lemma geometry_pixels_product: "geometry_pixels = map prod.swap (List.product [0..<480] [0..<1280])"
  by (simp add: geometry_pixels_def panel_canvas_size product_concat_map map_concat comp_def)

lemma geometry_pixels_distinct: "distinct geometry_pixels"
  by (simp add: geometry_pixels_product distinct_map distinct_product)

lemma geometry_pixels_length: "length geometry_pixels = 614400"
proof -
  have "card (set geometry_pixels) = card ({0..<1280} \<times> {0..<480} :: (nat \<times> nat) set)"
    unfolding geometry_pixels_set by (rule arg_cong [of _ _ card]) auto
  then show ?thesis using distinct_card [OF geometry_pixels_distinct] by simp
qed

text \<open>
  The self test that the dashboard offers as \<open>--geometry-test\<close> succeeds: the mapping of pixels
  to panel words is in bounds and one-to-one, its corners are where the panel expects them, and
  staging and reading back the test canvas restores it.
\<close>
theorem geometry_test_passes: "geometry_test = 0"
proof -
  have "list_all (\<lambda>(x, y). x < 1280 \<and> y < 480) geometry_pixels"
    by (auto simp: list_all_iff geometry_pixels_set)
  moreover have "distinct (map geometry_index geometry_pixels)"
    using geometry_pixels_distinct geometry_index_inj by (simp add: distinct_map geometry_pixels_set)
  ultimately obtain seen where s: "geometry_loop geometry_pixels (replicate 768000 False) 0 = Some (seen, 614400)"
    "\<forall>i<768000. seen ! i = (replicate 768000 False ! i \<or> i \<in> geometry_index ` set geometry_pixels)"
    using geometry_loop_marks [of geometry_pixels "replicate 768000 False" 0] geometry_index_inj
    unfolding geometry_pixels_length
    by (auto simp: geometry_pixels_set geometry_index_def)
  have mem: "i \<in> geometry_index ` set geometry_pixels" if "i = geometry_index (x, y)" "x < 1280" "y < 480" for i x y
    unfolding that(1) geometry_pixels_set using that(2,3) by (intro imageI) simp
  have top: "seen ! (1279 * 600)" using s(2) mem [of "1279 * 600" 0 0] by (simp add: geometry_index_def)
  have left: "seen ! 479" using s(2) mem [of 479 1279 479] by (simp add: geometry_index_def)
  have "\<not> seen ! 480"
  proof -
    have "480 \<noteq> geometry_index (x, y)" if "x < 1280" "y < 480" for x y
    proof
      assume "480 = geometry_index (x, y)"
      then have e: "(1279 - x) * 600 + y = 480" unfolding geometry_index_def fst_conv snd_conv by (rule sym)
      have "((1279 - x) * 600 + y) mod 600 = y" by (rule row_div_mod(2)) (use that(2) in simp_all)
      then have "480 mod 600 = y" unfolding e .
      then show False using that(2) by simp
    qed
    then have "480 \<notin> geometry_index ` set geometry_pixels" by (auto simp: geometry_pixels_set)
    then show ?thesis using s(2) by simp
  qed
  note marks = top left this
  let ?frame = "replicate 768000 0xdead :: u16 list"
  have canvas: "length geometry_canvas = 614400" by (simp add: geometry_canvas_def panel_canvas_size)
  then obtain frame where f: "stage_canvas_for_scanout geometry_canvas 600 ?frame = Some frame"
    by (simp add: stage_canvas_for_scanout_def panel_canvas_size)
  note st = staged [OF f]
  have pix: "frame ! i = (if i div 600 < 1280 \<and> i mod 600 < 480
      then geometry_canvas ! (i mod 600 * 1280 + (1279 - i div 600)) else 0xdead)" if "i < 768000" for i
    using st(2) [of i] that by simp
  have "frame ! (1279 * 600) = geometry_canvas ! 0" "frame ! 479 = geometry_canvas ! 614399" "frame ! 480 = 0xdead"
    using pix [of "1279 * 600"] pix [of 479] pix [of 480] by simp_all
  moreover have "geometry_canvas ! 0 = 0x1234" "geometry_canvas ! 614399 = 0xabcd"
    by (simp_all add: geometry_canvas_def panel_canvas_size nth_list_update)
  ultimately have corners: "frame ! (1279 * 600) = 0x1234" "frame ! 479 = 0xabcd" "frame ! 480 = 0xdead" by simp_all
  show ?thesis
    using s(1) marks f staged_read_back [OF f] corners
    by (simp add: geometry_test_def panel_canvas_size)
qed

end
