(* ===== verification/Managed_Child.thy ===== *)
theory Managed_Child
  imports Menu_Catalog Menu_Touch Menu_Framebuffer
begin

section \<open>Programs the dashboard starts (\<open>src/deck_menu.cpp\<close>)\<close>

text \<open>
  The dashboard hands the panel to one child at a time and supervises it: holding a finger on
  the screen for two seconds asks the child to terminate, four seconds later it is killed.  The
  clock is a function of the number of readings so far, so every reading may give a new value.
  The loop consumes one record of answers per turn; its end means that the loop is still running.
\<close>

type_synonym clock = "nat \<Rightarrow> int"

definition kExitHoldWidth :: int where "kExitHoldWidth = kLogicalWidth"
definition kExitHoldHeight :: int where "kExitHoldHeight = kLogicalHeight"
definition kExitHoldMs :: int where "kExitHoldMs = 2000"
definition kChildTermGraceMs :: int where "kChildTermGraceMs = 4000"

lemmas hold_constants = kExitHoldWidth_def kExitHoldHeight_def kExitHoldMs_def kChildTermGraceMs_def

datatype wait_status = Exited nat | Signaled nat | Other_status nat

record ChildResult =
  cr_started :: bool
  cr_exited_for_touch :: bool
  cr_status :: wait_status
  cr_error :: "message option"

definition fresh_result :: ChildResult where
  "fresh_result = \<lparr>cr_started = False, cr_exited_for_touch = False, cr_status = Exited 0, cr_error = None\<rparr>"

subsection \<open>Starting\<close>

text \<open>What the child executes after the fork.\<close>

record exec_request =
  er_path :: string
  er_argv :: "string list"
  er_environment :: "(string \<times> string) list"

definition child_image :: "string \<Rightarrow> string list \<Rightarrow> (string \<times> string) list \<Rightarrow> exec_request" where
  "child_image executable arguments environment =
     \<lparr>er_path = executable, er_argv = executable # arguments, er_environment = environment\<rparr>"

text \<open>What arrives on the status pipe: nothing once \<open>exec\<close> succeeded, or the child's \<open>errno\<close>.\<close>

datatype exec_status = Exec_started | Exec_error errno | Exec_read_failed errno | Exec_garbled

definition start_result :: "string \<Rightarrow> exec_status \<Rightarrow> ChildResult" where
  "start_result label exec =
     (case exec of
        Exec_started \<Rightarrow> fresh_result\<lparr>cr_started := True\<rparr>
      | Exec_error e \<Rightarrow> fresh_result\<lparr>cr_error := Some (Errno_msg (''cannot start '' @ label) e)\<rparr>
      | Exec_read_failed e \<Rightarrow> fresh_result\<lparr>cr_error := Some (Errno_msg ''cannot read exec status'' e)\<rparr>
      | Exec_garbled \<Rightarrow> fresh_result\<lparr>cr_error := Some (Msg ''invalid exec status response'')\<rparr>)"

subsection \<open>Supervising\<close>

datatype child_signal = SIGTERM | SIGKILL
datatype signal_reason = Shutdown | Hold | Grace | Wait_error

text \<open>\<open>sv_signals\<close> logs the signals with their reason and the clock reading that goes with them.\<close>

record supervisor =
  sv_touch :: "TouchDevice option"
  sv_term_sent :: bool
  sv_kill_sent :: bool
  sv_term_sent_at :: int
  sv_corner_hold :: bool
  sv_corner_hold_started :: int
  sv_reconnect_attempt :: int
  sv_console_mirror :: bool
  sv_last_console_frame :: int
  sv_exited_for_touch :: bool
  sv_signals :: "(child_signal \<times> signal_reason \<times> int) list"
  sv_ticks :: nat

definition fresh_supervisor :: "TouchDevice option \<Rightarrow> bool \<Rightarrow> nat \<Rightarrow> supervisor" where
  "fresh_supervisor touch console_mirror ticks =
     \<lparr>sv_touch = touch, sv_term_sent = False, sv_kill_sent = False, sv_term_sent_at = 0, sv_corner_hold = False,
      sv_corner_hold_started = 0, sv_reconnect_attempt = 0, sv_console_mirror = console_mirror,
      sv_last_console_frame = 0, sv_exited_for_touch = False, sv_signals = [], sv_ticks = ticks\<rparr>"

definition read_clock :: "clock \<Rightarrow> supervisor \<Rightarrow> int \<times> supervisor" where
  "read_clock clock s = (clock (sv_ticks s), s\<lparr>sv_ticks := sv_ticks s + 1\<rparr>)"

datatype wait_answer = Running | Reaped wait_status | Wait_interrupted | Wait_failed errno "wait_status option"

text \<open>
  One turn's answers: \<open>waitpid\<close>, the shutdown flag, the device directory for a reconnection,
  whether the polled descriptor is ready, what reading it gives, whether the mirror succeeds.
\<close>

record child_turn =
  ct_wait :: wait_answer
  ct_shutdown :: bool
  ct_directory :: "device_node list option"
  ct_ready :: bool
  ct_script :: "(resync_answers \<times> input_event) read_result list"
  ct_widget :: "bool \<times> TouchReport list"
  ct_mirror :: bool

definition hold_inside :: "bool \<Rightarrow> int \<Rightarrow> int \<Rightarrow> bool" where
  "hold_inside down x y = (down \<and> 0 \<le> x \<and> x < kExitHoldWidth \<and> 0 \<le> y \<and> y < kExitHoldHeight)"

definition update_corner_hold :: "clock \<Rightarrow> bool \<times> int \<times> int \<Rightarrow> supervisor \<Rightarrow> supervisor" where
  "update_corner_hold clock d s =
     (let (down, x, y) = d
      in if \<not> hold_inside down x y then s\<lparr>sv_corner_hold := False\<rparr>
         else if \<not> sv_corner_hold s
         then (let (now, s1) = read_clock clock s in s1\<lparr>sv_corner_hold := True, sv_corner_hold_started := now\<rparr>)
         else s)"

definition send_signal :: "child_signal \<Rightarrow> signal_reason \<Rightarrow> int \<Rightarrow> supervisor \<Rightarrow> supervisor" where
  "send_signal sig reason t s = s\<lparr>sv_signals := sv_signals s @ [(sig, reason, t)]\<rparr>"

definition shutdown_step :: "bool \<Rightarrow> int \<Rightarrow> supervisor \<Rightarrow> supervisor" where
  "shutdown_step requested now s =
     (if requested \<and> \<not> sv_term_sent s
      then send_signal SIGTERM Shutdown now (s\<lparr>sv_term_sent := True, sv_term_sent_at := now\<rparr>) else s)"

definition reconnect_step :: "clock \<Rightarrow> bool \<Rightarrow> device_node list option \<Rightarrow> supervisor \<Rightarrow> supervisor" where
  "reconnect_step clock wayland directory s =
     (case sv_touch s of
        None \<Rightarrow> s
      | Some t \<Rightarrow>
          if wayland \<or> 0 \<le> tc_fd t then s
          else
            (let (now, s1) = read_clock clock s;
                 (ok, attempt, t1, closed) = reconnect_touch directory now (sv_reconnect_attempt s1) t
             in s1\<lparr>sv_touch := Some t1, sv_reconnect_attempt := attempt\<rparr>))"

definition mirror_step :: "bool \<Rightarrow> int \<Rightarrow> supervisor \<Rightarrow> supervisor" where
  "mirror_step mirrored now s =
     (if sv_console_mirror s \<and> 100 \<le> now - sv_last_console_frame s
      then s\<lparr>sv_console_mirror := mirrored, sv_last_console_frame := now\<rparr> else s)"

text \<open>The reports of this turn; a failed read closes the touchscreen and ends the hold.\<close>

definition read_step :: "bool \<Rightarrow> child_turn \<Rightarrow> supervisor \<Rightarrow> TouchReport list \<times> supervisor" where
  "read_step wayland t s =
     (if wayland
      then (if ct_ready t
            then (snd (ct_widget t), if fst (ct_widget t) then s else s\<lparr>sv_corner_hold := False\<rparr>)
            else ([], s))
      else
        (case sv_touch s of
           None \<Rightarrow> ([], s)
         | Some touch \<Rightarrow>
             if tc_fd touch < 0 \<or> \<not> ct_ready t then ([], s)
             else
               (case read_reports (ct_script t) touch of
                  (Inr _, touch1, reports) \<Rightarrow> (reports, s\<lparr>sv_touch := Some touch1\<rparr>)
                | (Inl _, touch1, reports) \<Rightarrow>
                    (reports, s\<lparr>sv_touch := Some (fst (touch_close_device touch1)), sv_corner_hold := False\<rparr>))))"

definition hold_updates :: "bool \<Rightarrow> TouchReport list \<Rightarrow> supervisor \<Rightarrow> (bool \<times> int \<times> int) list" where
  "hold_updates wayland reports s =
     map (\<lambda>r. (rep_down r, rep_x r, rep_y r)) reports @
     (if reports = [] \<and> \<not> wayland
      then (case sv_touch s of
              None \<Rightarrow> []
            | Some t \<Rightarrow> if 0 \<le> tc_fd t then [(tc_reported_down t, tc_x t, tc_y t)] else [])
      else [])"

definition hold_step :: "clock \<Rightarrow> supervisor \<Rightarrow> supervisor" where
  "hold_step clock s =
     (if sv_corner_hold s \<and> \<not> sv_term_sent s
      then
        (let (t1, s1) = read_clock clock s
         in if kExitHoldMs \<le> t1 - sv_corner_hold_started s1
            then (let (t2, s2) = read_clock clock s1
                  in send_signal SIGTERM Hold t2
                       (s2\<lparr>sv_term_sent := True, sv_term_sent_at := t2, sv_exited_for_touch := True\<rparr>))
            else s1)
      else s)"

definition grace_step :: "clock \<Rightarrow> supervisor \<Rightarrow> supervisor" where
  "grace_step clock s =
     (if sv_term_sent s \<and> \<not> sv_kill_sent s
      then
        (let (t1, s1) = read_clock clock s
         in if kChildTermGraceMs \<le> t1 - sv_term_sent_at s1
            then send_signal SIGKILL Grace t1 (s1\<lparr>sv_kill_sent := True\<rparr>) else s1)
      else s)"

definition before_reports :: "clock \<Rightarrow> bool \<Rightarrow> child_turn \<Rightarrow> supervisor \<Rightarrow> TouchReport list \<times> supervisor" where
  "before_reports clock wayland t s =
     (let (now, s1) = read_clock clock s;
          s2 = shutdown_step (ct_shutdown t) now s1;
          s3 = reconnect_step clock wayland (ct_directory t) s2;
          s4 = mirror_step (ct_mirror t) now s3
      in read_step wayland t s4)"

definition supervise_turn :: "clock \<Rightarrow> bool \<Rightarrow> child_turn \<Rightarrow> supervisor \<Rightarrow> supervisor" where
  "supervise_turn clock wayland t s =
     (let (reports, s5) = before_reports clock wayland t s;
          s6 = foldl (\<lambda>s d. update_corner_hold clock d s) s5 (hold_updates wayland reports s5)
      in grace_step clock (hold_step clock s6))"

fun supervise ::
  "clock \<Rightarrow> bool \<Rightarrow> child_turn list \<Rightarrow> supervisor \<Rightarrow> (wait_status option \<times> errno option \<times> supervisor) option" where
  "supervise clock wayland [] s = None"
| "supervise clock wayland (t # ts) s =
     (case ct_wait t of
        Reaped status \<Rightarrow> Some (Some status, None, s)
      | Wait_failed e status \<Rightarrow> Some (status, Some e, send_signal SIGKILL Wait_error 0 s)
      | Running \<Rightarrow> supervise clock wayland ts (supervise_turn clock wayland t s)
      | Wait_interrupted \<Rightarrow> supervise clock wayland ts (supervise_turn clock wayland t s))"

text \<open>\<open>pipe_error\<close> and \<open>fork_error\<close> are the failures of the calls before there is a child.\<close>

record launch_answers =
  la_pipe_error :: "errno option"
  la_fork_error :: "errno option"
  la_exec :: exec_status
  la_turns :: "child_turn list"

record child_run =
  run_result :: ChildResult
  run_touch :: "TouchDevice option"
  run_framebuffer :: Framebuffer
  run_request :: "exec_request option"
  run_signals :: "(child_signal \<times> signal_reason \<times> int) list"
  run_ticks :: nat

definition run_managed_child ::
  "clock \<Rightarrow> nat \<Rightarrow> launch_answers \<Rightarrow> string \<Rightarrow> string list \<Rightarrow> (string \<times> string) list \<Rightarrow> string \<Rightarrow>
     TouchDevice option \<Rightarrow> Framebuffer \<Rightarrow> bool \<Rightarrow> child_run option" where
  "run_managed_child clock ticks a executable arguments environment label touch framebuffer mirror_console =
     (let fb = framebuffer_close_for_child framebuffer;
          none = \<lparr>run_result = fresh_result, run_touch = touch, run_framebuffer = fb, run_request = None,
                  run_signals = [], run_ticks = ticks\<rparr>
      in case la_pipe_error a of
           Some e \<Rightarrow> Some (none\<lparr>run_result := fresh_result\<lparr>cr_error := Some (Errno_msg ''cannot create exec status pipe'' e)\<rparr>\<rparr>)
         | None \<Rightarrow>
             (case la_fork_error a of
                Some e \<Rightarrow> Some (none\<lparr>run_result := fresh_result\<lparr>cr_error := Some (Errno_msg ''fork failed'' e)\<rparr>\<rparr>)
              | None \<Rightarrow>
                  (let result = start_result label (la_exec a);
                       s0 = fresh_supervisor touch (mirror_console \<and> uses_wayland fb) ticks
                   in case supervise clock (uses_wayland fb) (la_turns a) s0 of
                        None \<Rightarrow> None
                      | Some (status, failed, s) \<Rightarrow>
                          (let r1 = result\<lparr>cr_exited_for_touch := sv_exited_for_touch s,
                                 cr_status := (case status of Some st \<Rightarrow> st | None \<Rightarrow> cr_status result),
                                 cr_error := (case failed of Some e \<Rightarrow> Some (Errno_msg ''waitpid failed'' e)
                                              | None \<Rightarrow> cr_error result)\<rparr>
                           in Some \<lparr>run_result = r1, run_touch = sv_touch s, run_framebuffer = fb,
                                run_request = Some (child_image executable arguments environment),
                                run_signals = sv_signals s, run_ticks = sv_ticks s\<rparr>))))"

subsection \<open>Games, terminal, reboot\<close>

definition launch_arguments_for_game :: "GameEntry \<Rightarrow> string list" where
  "launch_arguments_for_game game =
     (if system game \<noteq> ''deck'' \<or> is_built_in_chiptune game then [rom game] else [])"

definition game_environment :: "GameEntry \<Rightarrow> nat \<Rightarrow> bool \<Rightarrow> string \<Rightarrow> (string \<times> string) list" where
  "game_environment game volume wayland volume_state =
     [(''RETRO_DECK_VOLUME_PERCENT'', decimal volume)] @
     (if system game \<noteq> ''deck'' then [(''RETRO_DECK_EXIT_HINT'', ''1'')] else []) @
     (if wayland then [(''RETRO_DECK_PRESENTATION'', ''layer-shell'')] else []) @
     (if volume_state \<noteq> [] then [(''RETRO_DECK_VOLUME_STATE'', volume_state)] else [])"

text \<open>An application of the deck reads the touchscreen itself: it is closed and not supervised.\<close>

definition run_game ::
  "clock \<Rightarrow> nat \<Rightarrow> launch_answers \<Rightarrow> string \<Rightarrow> GameEntry \<Rightarrow> nat \<Rightarrow> TouchDevice \<Rightarrow> Framebuffer \<Rightarrow> string \<Rightarrow> world \<Rightarrow>
     (child_run \<times> world) option" where
  "run_game clock ticks a emulator game volume touch framebuffer volume_state w =
     (case validate_rom (system game) (rom game) w of
        (Inl e, w1) \<Rightarrow>
          Some (\<lparr>run_result = fresh_result\<lparr>cr_error := Some e\<rparr>, run_touch = Some touch, run_framebuffer = framebuffer,
                 run_request = None, run_signals = [], run_ticks = ticks\<rparr>, w1)
      | (Inr _, w1) \<Rightarrow>
          (let deck = (system game = ''deck'');
               touch1 = (if deck then fst (touch_close_device touch) else touch)
           in case run_managed_child clock ticks a emulator (launch_arguments_for_game game)
                     (game_environment game volume (uses_wayland framebuffer) volume_state) (game_id game)
                     (if deck then None else Some touch1) framebuffer False of
                None \<Rightarrow> None
              | Some r \<Rightarrow> Some (r\<lparr>run_touch := (if deck then Some touch1 else run_touch r)\<rparr>, w1)))"

definition run_terminal ::
  "clock \<Rightarrow> nat \<Rightarrow> launch_answers \<Rightarrow> string \<Rightarrow> string \<Rightarrow> string \<Rightarrow> TouchDevice \<Rightarrow> Framebuffer \<Rightarrow> child_run option" where
  "run_terminal clock ticks a launcher keymap mode touch framebuffer =
     run_managed_child clock ticks a launcher [mode] [(''RETRO_DECK_KEYMAP'', keymap)]
       (if mode = ''shell'' then ''terminal'' else mode @ '' REPL'') (Some touch) framebuffer True"

definition run_reboot ::
  "clock \<Rightarrow> nat \<Rightarrow> launch_answers \<Rightarrow> string \<Rightarrow> TouchDevice \<Rightarrow> Framebuffer \<Rightarrow> child_run option" where
  "run_reboot clock ticks a executable touch framebuffer =
     run_managed_child clock ticks a executable [] [] ''reboot'' (Some touch) framebuffer False"

section \<open>Which signals are sent\<close>

definition run_turns :: "clock \<Rightarrow> bool \<Rightarrow> child_turn list \<Rightarrow> supervisor \<Rightarrow> supervisor" where
  "run_turns clock wayland ts s = foldl (\<lambda>s t. supervise_turn clock wayland t s) s ts"

definition still_running :: "child_turn \<Rightarrow> bool" where
  "still_running t = (ct_wait t = Running \<or> ct_wait t = Wait_interrupted)"

lemma supervise_append:
  "list_all still_running ts \<Longrightarrow> supervise clock wayland (ts @ us) s = supervise clock wayland us (run_turns clock wayland ts s)"
  by (induction ts arbitrary: s) (auto simp: still_running_def run_turns_def)

lemma supervise_runs:
  "supervise clock wayland ts s = Some (status, failed, s') \<Longrightarrow>
   \<exists>n. s' = (let r = run_turns clock wayland (take n ts) s in case failed of None \<Rightarrow> r | Some e \<Rightarrow> send_signal SIGKILL Wait_error 0 r)"
proof (induction ts arbitrary: s)
  case (Cons t ts)
  show ?case
  proof (cases "still_running t")
    case True
    then have "supervise clock wayland ts (supervise_turn clock wayland t s) = Some (status, failed, s')"
      using Cons.prems by (auto simp: still_running_def)
    from Cons.IH [OF this] obtain n where "s' = (let r = run_turns clock wayland (take n ts) (supervise_turn clock wayland t s)
        in case failed of None \<Rightarrow> r | Some e \<Rightarrow> send_signal SIGKILL Wait_error 0 r)" ..
    then show ?thesis by (intro exI [of _ "Suc n"]) (simp add: run_turns_def)
  next
    case False
    then show ?thesis using Cons.prems
      by (intro exI [of _ 0]) (auto simp: still_running_def run_turns_def split: wait_answer.splits)
  qed
qed simp

text \<open>What decides about signals; only three steps of a turn touch it.\<close>

definition signal_core :: "supervisor \<Rightarrow> bool \<times> bool \<times> int \<times> bool \<times> (child_signal \<times> signal_reason \<times> int) list" where
  "signal_core s = (sv_term_sent s, sv_kill_sent s, sv_term_sent_at s, sv_exited_for_touch s, sv_signals s)"

named_theorems core_frame \<open>steps that send no signal\<close>

lemma read_clock_core [core_frame]: "signal_core (snd (read_clock clock s)) = signal_core s"
  by (simp add: read_clock_def signal_core_def)

lemma update_corner_hold_core [core_frame]: "signal_core (update_corner_hold clock d s) = signal_core s"
  by (simp add: update_corner_hold_def read_clock_def signal_core_def Let_def split: prod.split)

lemma hold_updates_core [core_frame]:
  "signal_core (foldl (\<lambda>s d. update_corner_hold clock d s) s ds) = signal_core s"
  by (induction ds arbitrary: s) (simp_all add: core_frame)

lemma reconnect_step_core [core_frame]: "signal_core (reconnect_step clock wayland directory s) = signal_core s"
  by (simp add: reconnect_step_def read_clock_def signal_core_def Let_def split: option.split prod.split)

lemma mirror_step_core [core_frame]: "signal_core (mirror_step mirrored now s) = signal_core s"
  by (simp add: mirror_step_def signal_core_def)

lemma read_step_core [core_frame]: "signal_core (snd (read_step wayland t s)) = signal_core s"
  by (simp add: read_step_def signal_core_def split: option.split prod.split sum.split)

definition signals_ok :: "supervisor \<Rightarrow> bool" where
  "signals_ok s =
     (if \<not> sv_term_sent s then sv_signals s = [] \<and> \<not> sv_kill_sent s \<and> \<not> sv_exited_for_touch s
      else if \<not> sv_kill_sent s
      then sv_signals s = [(SIGTERM, if sv_exited_for_touch s then Hold else Shutdown, sv_term_sent_at s)]
      else (\<exists>k. sv_signals s = [(SIGTERM, if sv_exited_for_touch s then Hold else Shutdown, sv_term_sent_at s),
                               (SIGKILL, Grace, k)] \<and> sv_term_sent_at s + 4000 \<le> k))"

lemma signals_ok_both:
  "signals_ok s \<Longrightarrow> sv_term_sent s \<Longrightarrow> sv_kill_sent s \<Longrightarrow> map fst (sv_signals s) = [SIGTERM, SIGKILL]"
  by (auto simp: signals_ok_def)

lemma signals_ok_core: "signal_core s = signal_core s' \<Longrightarrow> signals_ok s = signals_ok s'"
  by (simp add: signal_core_def signals_ok_def)

lemma shutdown_step_ok: "signals_ok s \<Longrightarrow> signals_ok (shutdown_step requested now s)"
  by (cases "sv_term_sent s"; cases "sv_kill_sent s"; cases "sv_exited_for_touch s")
    (simp_all add: signals_ok_def shutdown_step_def send_signal_def)

lemma hold_step_ok: "signals_ok s \<Longrightarrow> signals_ok (hold_step clock s)"
  by (cases "sv_term_sent s"; cases "sv_kill_sent s"; cases "sv_exited_for_touch s")
    (simp_all add: signals_ok_def hold_step_def read_clock_def send_signal_def Let_def)

lemma grace_step_ok: "signals_ok s \<Longrightarrow> signals_ok (grace_step clock s)"
  by (cases "sv_term_sent s"; cases "sv_kill_sent s"; cases "sv_exited_for_touch s")
    (simp_all add: signals_ok_def grace_step_def read_clock_def send_signal_def Let_def hold_constants)

lemma before_reports_core:
  "signal_core (snd (before_reports clock wayland t s)) =
   signal_core (shutdown_step (ct_shutdown t) (clock (sv_ticks s)) (s\<lparr>sv_ticks := sv_ticks s + 1\<rparr>))"
  by (simp add: before_reports_def Let_def read_clock_def core_frame)

lemma supervise_turn_ok:
  assumes "signals_ok s"
  shows "signals_ok (supervise_turn clock wayland t s)"
proof -
  have "signal_core (s\<lparr>sv_ticks := sv_ticks s + 1\<rparr>) = signal_core s" by (simp add: signal_core_def)
  then have "signals_ok (s\<lparr>sv_ticks := sv_ticks s + 1\<rparr>)" by (rule signals_ok_core [THEN iffD2]) (rule assms)
  from shutdown_step_ok [OF this]
  have before: "signals_ok (snd (before_reports clock wayland t s))"
    by (rule signals_ok_core [OF before_reports_core, THEN iffD2])
  have "signals_ok (foldl (\<lambda>s d. update_corner_hold clock d s) (snd (before_reports clock wayland t s)) ds)" for ds
    by (rule signals_ok_core [OF hold_updates_core, THEN iffD2]) (rule before)
  then show ?thesis
    by (simp add: supervise_turn_def case_prod_beta Let_def grace_step_ok hold_step_ok)
qed

lemma run_turns_ok: "signals_ok s \<Longrightarrow> signals_ok (run_turns clock wayland ts s)"
  unfolding run_turns_def by (induction ts arbitrary: s) (simp_all add: supervise_turn_ok)

lemma fresh_ok: "signals_ok (fresh_supervisor touch console_mirror ticks)"
  by (simp add: fresh_supervisor_def signals_ok_def)

subsection \<open>A hold counts from its last interruption\<close>

text \<open>A turn interrupts a hold when one of its updates has the finger up or beside the screen.\<close>

definition interrupts :: "clock \<Rightarrow> bool \<Rightarrow> child_turn \<Rightarrow> supervisor \<Rightarrow> bool" where
  "interrupts clock wayland t s =
     (let (reports, s5) = before_reports clock wayland t s
      in list_ex (\<lambda>(down, x, y). \<not> hold_inside down x y) (hold_updates wayland reports s5))"

definition held_since :: "clock \<Rightarrow> nat \<Rightarrow> supervisor \<Rightarrow> bool" where
  "held_since clock k s = (k \<le> sv_ticks s \<and> (sv_corner_hold s \<longrightarrow> clock k \<le> sv_corner_hold_started s))"

lemma held_since_fields:
  "held_since clock k s \<Longrightarrow> sv_ticks s \<le> sv_ticks s' \<Longrightarrow> sv_corner_hold s' \<longrightarrow> sv_corner_hold s \<Longrightarrow>
   sv_corner_hold_started s' = sv_corner_hold_started s \<Longrightarrow> held_since clock k s'"
  by (auto simp: held_since_def)

lemma update_held_since:
  assumes "mono clock" "k \<le> sv_ticks s" "held_since clock k s \<or> \<not> hold_inside down x y"
  shows "held_since clock k (update_corner_hold clock (down, x, y) s)"
  using assms monoD [OF assms(1,2)]
  by (auto simp: held_since_def update_corner_hold_def read_clock_def Let_def)

lemma update_ticks: "sv_ticks s \<le> sv_ticks (update_corner_hold clock d s)"
  by (cases d) (simp add: update_corner_hold_def read_clock_def Let_def)

lemma updates_held_since:
  assumes "mono clock" "k \<le> sv_ticks s" "held_since clock k s \<or> list_ex (\<lambda>(down, x, y). \<not> hold_inside down x y) ds"
  shows "held_since clock k (foldl (\<lambda>s d. update_corner_hold clock d s) s ds)"
  using assms(2,3)
proof (induction ds arbitrary: s)
  case (Cons d ds)
  obtain down x y where d: "d = (down, x, y)" by (cases d)
  let ?s1 = "update_corner_hold clock d s"
  have "k \<le> sv_ticks ?s1" using Cons.prems(1) update_ticks [of s clock d] by linarith
  moreover have "held_since clock k ?s1 \<or> list_ex (\<lambda>(down, x, y). \<not> hold_inside down x y) ds"
    using Cons.prems update_held_since [OF assms(1) Cons.prems(1), of down x y] by (auto simp: d)
  ultimately show ?case using Cons.IH by simp
qed simp

lemma before_reports_hold:
  "sv_ticks s \<le> sv_ticks (snd (before_reports clock wayland t s))"
  "sv_corner_hold (snd (before_reports clock wayland t s)) \<longrightarrow> sv_corner_hold s"
  "sv_corner_hold_started (snd (before_reports clock wayland t s)) = sv_corner_hold_started s"
proof -
  have read: "sv_ticks (snd (read_step wayland t s)) = sv_ticks s"
    "sv_corner_hold (snd (read_step wayland t s)) \<longrightarrow> sv_corner_hold s"
    "sv_corner_hold_started (snd (read_step wayland t s)) = sv_corner_hold_started s" for s
    by (simp_all add: read_step_def split: option.split prod.split sum.split)
  have mirror: "sv_ticks (mirror_step m now s) = sv_ticks s" "sv_corner_hold (mirror_step m now s) = sv_corner_hold s"
    "sv_corner_hold_started (mirror_step m now s) = sv_corner_hold_started s" for m now s
    by (simp_all add: mirror_step_def)
  have reconnect: "sv_ticks s \<le> sv_ticks (reconnect_step clock wayland d s)"
    "sv_corner_hold (reconnect_step clock wayland d s) = sv_corner_hold s"
    "sv_corner_hold_started (reconnect_step clock wayland d s) = sv_corner_hold_started s" for d s
    by (simp_all add: reconnect_step_def read_clock_def Let_def split: option.split prod.split)
  have shutdown: "sv_ticks (shutdown_step r now s) = sv_ticks s" "sv_corner_hold (shutdown_step r now s) = sv_corner_hold s"
    "sv_corner_hold_started (shutdown_step r now s) = sv_corner_hold_started s" for r now s
    by (simp_all add: shutdown_step_def send_signal_def)
  show "sv_ticks s \<le> sv_ticks (snd (before_reports clock wayland t s))"
    using reconnect(1) [of "shutdown_step (ct_shutdown t) (clock (sv_ticks s)) (s\<lparr>sv_ticks := sv_ticks s + 1\<rparr>)" "ct_directory t"]
    by (simp add: before_reports_def Let_def read_clock_def read mirror shutdown)
  show "sv_corner_hold (snd (before_reports clock wayland t s)) \<longrightarrow> sv_corner_hold s"
    using read(2) by (auto simp: before_reports_def Let_def read_clock_def mirror reconnect shutdown dest!: read(2) [rule_format])
  show "sv_corner_hold_started (snd (before_reports clock wayland t s)) = sv_corner_hold_started s"
    by (simp add: before_reports_def Let_def read_clock_def read mirror reconnect shutdown)
qed

definition hold_late :: "clock \<Rightarrow> nat \<Rightarrow> supervisor \<Rightarrow> bool" where
  "hold_late clock k s = (sv_exited_for_touch s \<longrightarrow> clock k + kExitHoldMs \<le> sv_term_sent_at s)"

lemma hold_step_late:
  assumes "mono clock" "held_since clock k s" "hold_late clock k s"
  shows "held_since clock k (hold_step clock s) \<and> hold_late clock k (hold_step clock s)"
  using assms monoD [OF assms(1), of "sv_ticks s" "sv_ticks s + 1"]
  by (auto simp: held_since_def hold_late_def hold_step_def read_clock_def send_signal_def Let_def)

lemma grace_step_late:
  assumes "held_since clock k s" "hold_late clock k s"
  shows "held_since clock k (grace_step clock s) \<and> hold_late clock k (grace_step clock s)"
  using assms by (auto simp: held_since_def hold_late_def grace_step_def read_clock_def send_signal_def Let_def)

lemma hold_late_core: "signal_core s = signal_core s' \<Longrightarrow> hold_late clock k s \<longleftrightarrow> hold_late clock k s'"
  by (simp add: signal_core_def hold_late_def)

lemma shutdown_step_late: "signals_ok s \<Longrightarrow> hold_late clock k s \<Longrightarrow> hold_late clock k (shutdown_step r now s)"
  by (simp add: hold_late_def shutdown_step_def send_signal_def signals_ok_def)

text \<open>After a turn that interrupts the hold, or that follows one, a hold is young.\<close>

lemma supervise_turn_late:
  assumes "mono clock" "signals_ok s" "hold_late clock k s" "k \<le> sv_ticks s"
    "held_since clock k s \<or> interrupts clock wayland t s"
  shows "held_since clock k (supervise_turn clock wayland t s) \<and> hold_late clock k (supervise_turn clock wayland t s)"
proof -
  obtain reports s5 where s5: "before_reports clock wayland t s = (reports, s5)" by fastforce
  have hold: "sv_ticks s \<le> sv_ticks s5" "sv_corner_hold s5 \<longrightarrow> sv_corner_hold s"
    "sv_corner_hold_started s5 = sv_corner_hold_started s"
    using before_reports_hold [where s = s and clock = clock and wayland = wayland and t = t] by (simp_all add: s5)
  have ticks: "k \<le> sv_ticks s5" using hold(1) assms(4) by linarith
  have "held_since clock k s5 \<or> list_ex (\<lambda>(down, x, y). \<not> hold_inside down x y) (hold_updates wayland reports s5)"
    using assms(5) hold ticks by (auto simp: held_since_def interrupts_def s5)
  from updates_held_since [OF assms(1) ticks this]
  have held: "held_since clock k (foldl (\<lambda>s d. update_corner_hold clock d s) s5 (hold_updates wayland reports s5))" .
  have "signal_core (s\<lparr>sv_ticks := sv_ticks s + 1\<rparr>) = signal_core s" by (simp add: signal_core_def)
  then have "hold_late clock k (shutdown_step (ct_shutdown t) (clock (sv_ticks s)) (s\<lparr>sv_ticks := sv_ticks s + 1\<rparr>))"
    by (intro shutdown_step_late) (simp_all only: hold_late_core [of _ s] signals_ok_core [of _ s] assms(2,3))
  then have "hold_late clock k s5"
    using hold_late_core [OF before_reports_core [where s = s and clock = clock and wayland = wayland and t = t]] by (simp add: s5)
  then have "hold_late clock k (foldl (\<lambda>s d. update_corner_hold clock d s) s5 (hold_updates wayland reports s5))"
    using hold_late_core [OF hold_updates_core] by blast
  with held show ?thesis
    using hold_step_late [OF assms(1)] grace_step_late by (simp add: supervise_turn_def s5)
qed

lemma run_turns_late:
  assumes "mono clock" "signals_ok s" "hold_late clock k s" "held_since clock k s"
  shows "hold_late clock k (run_turns clock wayland ts s)"
  using assms(2-4)
proof (induction ts arbitrary: s)
  case (Cons t ts)
  have "k \<le> sv_ticks s" using Cons.prems(3) by (simp add: held_since_def)
  with supervise_turn_late [OF assms(1) Cons.prems(1,2)] Cons.prems(3)
  have "hold_late clock k (supervise_turn clock wayland t s)" "held_since clock k (supervise_turn clock wayland t s)" by blast+
  with Cons.IH [OF supervise_turn_ok [OF Cons.prems(1)]] show ?case by (simp add: run_turns_def)
qed (simp add: run_turns_def)

text \<open>
  C14. A supervised program is signalled with restraint: at most one SIGTERM, because of a shutdown
  or a completed hold, and then at most one SIGKILL, at least four seconds later (a failing
  \<open>waitpid\<close> apart); it counts as left by touch exactly when a hold ended it; and a hold counts
  only from its last interruption: after a turn in which the finger was up or beside the screen,
  it takes two more seconds.
\<close>
theorem supervision_discipline:
  assumes "mono clock" "s0 = fresh_supervisor touch console_mirror ticks"
    "supervise clock wayland ts s0 = Some (status, failed, s)"
  shows "(\<exists>s'. signals_ok s' \<and> s = (case failed of None \<Rightarrow> s' | Some e \<Rightarrow> send_signal SIGKILL Wait_error 0 s')) \<and>
    (ts = ts1 @ t # ts2 \<and> list_all still_running (ts1 @ [t]) \<and>
     interrupts clock wayland t (run_turns clock wayland ts1 s0) \<and>
     \<not> sv_term_sent (run_turns clock wayland ts1 s0) \<and> sv_exited_for_touch s \<longrightarrow>
       clock (sv_ticks (run_turns clock wayland ts1 s0)) + kExitHoldMs \<le> sv_term_sent_at s)"
proof (intro conjI impI)
  obtain n where n: "s = (let r = run_turns clock wayland (take n ts) s0
      in case failed of None \<Rightarrow> r | Some e \<Rightarrow> send_signal SIGKILL Wait_error 0 r)"
    using supervise_runs [OF assms(3)] by blast
  have ok0: "signals_ok s0" unfolding assms(2) by (rule fresh_ok)
  show "\<exists>s'. signals_ok s' \<and> s = (case failed of None \<Rightarrow> s' | Some e \<Rightarrow> send_signal SIGKILL Wait_error 0 s')"
    using run_turns_ok [OF ok0] n by (auto simp: Let_def)
  assume h: "ts = ts1 @ t # ts2 \<and> list_all still_running (ts1 @ [t]) \<and>
     interrupts clock wayland t (run_turns clock wayland ts1 s0) \<and>
     \<not> sv_term_sent (run_turns clock wayland ts1 s0) \<and> sv_exited_for_touch s"
  let ?s1 = "run_turns clock wayland ts1 s0"
  let ?k = "sv_ticks ?s1" and ?s2 = "supervise_turn clock wayland t ?s1"
  have ok1: "signals_ok ?s1" by (rule run_turns_ok [OF ok0])
  then have "hold_late clock ?k ?s1" using h by (simp add: hold_late_def signals_ok_def)
  with supervise_turn_late [OF assms(1) ok1, of ?k wayland t] h
  have s2: "held_since clock ?k ?s2" "hold_late clock ?k ?s2" by auto
  have "run_turns clock wayland (ts1 @ [t]) s0 = ?s2" by (simp add: run_turns_def)
  then have "supervise clock wayland ts2 ?s2 = Some (status, failed, s)"
    using assms(3) h supervise_append [of "ts1 @ [t]" clock wayland ts2 s0] by simp
  from supervise_runs [OF this] obtain m where
    "s = (let r = run_turns clock wayland (take m ts2) ?s2
      in case failed of None \<Rightarrow> r | Some e \<Rightarrow> send_signal SIGKILL Wait_error 0 r)" by blast
  moreover have "hold_late clock ?k (run_turns clock wayland (take m ts2) ?s2)"
    by (rule run_turns_late [OF assms(1) supervise_turn_ok [OF ok1] s2(2,1)])
  ultimately have "hold_late clock ?k s" by (auto simp: hold_late_def send_signal_def Let_def split: option.splits)
  then show "clock ?k + kExitHoldMs \<le> sv_term_sent_at s" using h by (simp add: hold_late_def)
qed

text \<open>A finger lifted in the first turn, put down in the second and held: SIGTERM in the third.\<close>

definition sample_turn :: "bool \<Rightarrow> child_turn" where
  "sample_turn down = \<lparr>ct_wait = Running, ct_shutdown = False, ct_directory = None, ct_ready = True, ct_script = [],
     ct_widget = (True, [\<lparr>rep_x = 10, rep_y = 10, rep_down = down, rep_pressed = False, rep_released = False\<rparr>]), ct_mirror = False\<rparr>"

definition sample_clock :: clock where "sample_clock n = 1000 * int n"

lemma sample_clock_mono: "mono sample_clock"
  by (simp add: mono_def sample_clock_def)

lemma sample_run:
  "\<exists>s. supervise sample_clock True [sample_turn False, sample_turn True, sample_turn True, (sample_turn True)\<lparr>ct_wait := Reaped (Exited 0)\<rparr>]
         (fresh_supervisor None False 0) = Some (Some (Exited 0), None, s) \<and> sv_exited_for_touch s \<and>
       sv_signals s = [(SIGTERM, Hold, 6000)]"
  by (simp add: sample_turn_def sample_clock_def fresh_supervisor_def supervise_turn_def before_reports_def read_clock_def
      shutdown_step_def reconnect_step_def mirror_step_def read_step_def hold_updates_def update_corner_hold_def
      hold_inside_def hold_constants kLogicalWidth_def kLogicalHeight_def hold_step_def grace_step_def send_signal_def Let_def)

lemma sample_first_turn:
  "interrupts sample_clock True (sample_turn False) (fresh_supervisor None False 0)"
  by (simp add: interrupts_def sample_turn_def fresh_supervisor_def before_reports_def read_clock_def
      shutdown_step_def reconnect_step_def mirror_step_def read_step_def hold_updates_def hold_inside_def Let_def)

theorem supervision_discipline_witness:
  "\<exists>s. supervise sample_clock True [sample_turn False, sample_turn True, sample_turn True, (sample_turn True)\<lparr>ct_wait := Reaped (Exited 0)\<rparr>]
         (fresh_supervisor None False 0) = Some (Some (Exited 0), None, s) \<and> signals_ok s \<and> 2000 \<le> sv_term_sent_at s"
proof -
  obtain s where s: "supervise sample_clock True
      [sample_turn False, sample_turn True, sample_turn True, (sample_turn True)\<lparr>ct_wait := Reaped (Exited 0)\<rparr>]
      (fresh_supervisor None False 0) = Some (Some (Exited 0), None, s)" "sv_exited_for_touch s"
    using sample_run by blast
  have "still_running (sample_turn False)" by (simp add: sample_turn_def still_running_def)
  with supervision_discipline [OF sample_clock_mono refl s(1), where ?ts1.0 = "[]" and t = "sample_turn False"
      and ?ts2.0 = "[sample_turn True, sample_turn True, (sample_turn True)\<lparr>ct_wait := Reaped (Exited 0)\<rparr>]"] s sample_first_turn
  show ?thesis by (simp add: run_turns_def hold_constants) (simp add: sample_clock_def fresh_supervisor_def)
qed

subsection \<open>A held finger stops a supervised program\<close>

text \<open>A turn that sees the finger on the screen, and one in which it stays there.\<close>

definition finger_seen :: "clock \<Rightarrow> bool \<Rightarrow> child_turn \<Rightarrow> supervisor \<Rightarrow> bool" where
  "finger_seen clock wayland t s =
     (let (reports, s5) = before_reports clock wayland t s; updates = hold_updates wayland reports s5
      in still_running t \<and> updates \<noteq> [] \<and> (case last updates of (down, x, y) \<Rightarrow> hold_inside down x y))"

definition finger_stays :: "clock \<Rightarrow> bool \<Rightarrow> child_turn \<Rightarrow> supervisor \<Rightarrow> bool" where
  "finger_stays clock wayland t s =
     (let (reports, s5) = before_reports clock wayland t s
      in still_running t \<and> sv_corner_hold s5 \<and>
         list_all (\<lambda>(down, x, y). hold_inside down x y) (hold_updates wayland reports s5))"

fun stays_down :: "clock \<Rightarrow> bool \<Rightarrow> child_turn list \<Rightarrow> supervisor \<Rightarrow> bool" where
  "stays_down clock wayland [] s = True"
| "stays_down clock wayland (t # ts) s =
     (finger_stays clock wayland t s \<and> stays_down clock wayland ts (supervise_turn clock wayland t s))"

lemma stays_down_append:
  "stays_down clock wayland (ts @ us) s \<longleftrightarrow>
     stays_down clock wayland ts s \<and> stays_down clock wayland us (run_turns clock wayland ts s)"
  by (induction ts arbitrary: s) (simp_all add: run_turns_def)

lemma run_turns_append: "run_turns clock wayland (ts @ us) s = run_turns clock wayland us (run_turns clock wayland ts s)"
  by (simp add: run_turns_def)

lemma seen_starts_hold:
  assumes "finger_seen clock wayland t s"
  shows "sv_corner_hold (supervise_turn clock wayland t s)"
proof -
  obtain reports s5 where s5: "before_reports clock wayland t s = (reports, s5)" by fastforce
  let ?us = "hold_updates wayland reports s5"
  obtain us u where us: "?us = us @ [u]" using assms by (cases ?us rule: rev_cases) (auto simp: finger_seen_def s5)
  then have "hold_inside (fst u) (fst (snd u)) (snd (snd u))"
    using assms by (auto simp: finger_seen_def s5 split: prod.splits)
  then have "sv_corner_hold (update_corner_hold clock u s')" for s'
    by (cases u) (simp add: update_corner_hold_def read_clock_def Let_def)
  then have "sv_corner_hold (foldl (\<lambda>s d. update_corner_hold clock d s) s5 ?us)" by (simp add: us)
  moreover have "sv_corner_hold (grace_step clock (hold_step clock s')) = sv_corner_hold s'" for s'
    by (simp add: grace_step_def hold_step_def read_clock_def send_signal_def Let_def)
  ultimately show ?thesis by (simp add: supervise_turn_def s5)
qed

text \<open>While the finger stays, the updates leave the hold as it is.\<close>

lemma staying_turn:
  assumes "finger_stays clock wayland t s"
  shows "supervise_turn clock wayland t s = grace_step clock (hold_step clock (snd (before_reports clock wayland t s)))"
    "sv_corner_hold (snd (before_reports clock wayland t s))"
proof -
  obtain reports s5 where s5: "before_reports clock wayland t s = (reports, s5)" by fastforce
  have on: "sv_corner_hold s5" "list_all (\<lambda>(down, x, y). hold_inside down x y) (hold_updates wayland reports s5)"
    using assms by (simp_all add: finger_stays_def s5)
  have "foldl (\<lambda>s d. update_corner_hold clock d s) s5 ds = s5" if "list_all (\<lambda>(down, x, y). hold_inside down x y) ds" for ds
    using that on(1) by (induction ds) (auto simp: update_corner_hold_def)
  with on show "supervise_turn clock wayland t s = grace_step clock (hold_step clock (snd (before_reports clock wayland t s)))"
    "sv_corner_hold (snd (before_reports clock wayland t s))"
    by (simp_all add: supervise_turn_def s5)
qed

lemma before_reports_ticks:
  "sv_ticks s < sv_ticks (snd (before_reports clock wayland t s))"
  "sv_ticks (snd (before_reports clock wayland t s)) \<le> sv_ticks s + 2"
proof -
  have frame: "sv_ticks (snd (read_step wayland t s)) = sv_ticks s" "sv_ticks (mirror_step m now s) = sv_ticks s"
    "sv_ticks (shutdown_step r now s) = sv_ticks s" for s m now r
    by (simp_all add: read_step_def mirror_step_def shutdown_step_def send_signal_def split: option.split prod.split sum.split)
  have reconnect: "sv_ticks s \<le> sv_ticks (reconnect_step clock wayland d s)" "sv_ticks (reconnect_step clock wayland d s) \<le> sv_ticks s + 1" for d s
    by (simp_all add: reconnect_step_def read_clock_def Let_def split: option.split prod.split)
  let ?s = "shutdown_step (ct_shutdown t) (clock (sv_ticks s)) (s\<lparr>sv_ticks := sv_ticks s + 1\<rparr>)"
  have "sv_ticks (snd (before_reports clock wayland t s)) = sv_ticks (reconnect_step clock wayland (ct_directory t) ?s)"
    by (simp add: before_reports_def Let_def read_clock_def frame)
  with reconnect [where d = "ct_directory t" and s = ?s] show "sv_ticks s < sv_ticks (snd (before_reports clock wayland t s))"
    "sv_ticks (snd (before_reports clock wayland t s)) \<le> sv_ticks s + 2" by (simp_all add: frame)
qed

text \<open>The two steps that may signal, on a state in which the finger holds.\<close>

lemma hold_step_effect:
  assumes "mono clock" "sv_corner_hold s"
  shows "sv_ticks s \<le> sv_ticks (hold_step clock s) \<and> sv_ticks (hold_step clock s) \<le> sv_ticks s + 2"
    "sv_corner_hold (hold_step clock s) \<and> sv_corner_hold_started (hold_step clock s) = sv_corner_hold_started s"
    "sv_kill_sent (hold_step clock s) = sv_kill_sent s"
    "sv_term_sent s \<Longrightarrow> hold_step clock s = s"
    "\<not> sv_term_sent s \<Longrightarrow> sv_corner_hold_started s + kExitHoldMs \<le> clock (sv_ticks s) \<Longrightarrow> sv_term_sent (hold_step clock s)"
    "\<not> sv_term_sent s \<Longrightarrow> sv_term_sent (hold_step clock s) \<Longrightarrow>
       sv_exited_for_touch (hold_step clock s) \<and> sv_term_sent_at (hold_step clock s) \<le> clock (sv_ticks s + 2)"
  using assms(2) monoD [OF assms(1), of "sv_ticks s + 1" "sv_ticks s + 2"]
  by (auto simp: hold_step_def read_clock_def send_signal_def Let_def)

lemma grace_step_effect:
  "sv_ticks s \<le> sv_ticks (grace_step clock s) \<and> sv_ticks (grace_step clock s) \<le> sv_ticks s + 1"
  "sv_corner_hold (grace_step clock s) = sv_corner_hold s \<and> sv_corner_hold_started (grace_step clock s) = sv_corner_hold_started s"
  "sv_term_sent (grace_step clock s) = sv_term_sent s \<and> sv_term_sent_at (grace_step clock s) = sv_term_sent_at s \<and>
     sv_exited_for_touch (grace_step clock s) = sv_exited_for_touch s"
  "sv_kill_sent s \<Longrightarrow> sv_kill_sent (grace_step clock s)"
  "sv_term_sent s \<Longrightarrow> sv_term_sent_at s + kChildTermGraceMs \<le> clock (sv_ticks s) \<Longrightarrow> sv_kill_sent (grace_step clock s)"
  by (simp_all add: grace_step_def read_clock_def send_signal_def Let_def)

lemma before_reports_signals:
  "sv_kill_sent (snd (before_reports clock wayland t s)) = sv_kill_sent s"
  "sv_term_sent s \<Longrightarrow> sv_term_sent (snd (before_reports clock wayland t s)) \<and>
     sv_term_sent_at (snd (before_reports clock wayland t s)) = sv_term_sent_at s \<and>
     sv_exited_for_touch (snd (before_reports clock wayland t s)) = sv_exited_for_touch s"
  "\<not> sv_term_sent s \<Longrightarrow> sv_term_sent (snd (before_reports clock wayland t s)) \<Longrightarrow>
     ct_shutdown t \<and> sv_term_sent_at (snd (before_reports clock wayland t s)) = clock (sv_ticks s)"
  using before_reports_core [of clock wayland t s]
  by (auto simp: signal_core_def shutdown_step_def send_signal_def split: if_splits)

lemma staying_effect:
  assumes "mono clock" "finger_stays clock wayland t s"
  defines "s' \<equiv> supervise_turn clock wayland t s"
  shows "sv_ticks s < sv_ticks s' \<and> sv_ticks s' \<le> sv_ticks s + 5"
    "sv_corner_hold s' \<and> sv_corner_hold_started s' = sv_corner_hold_started s"
    "sv_kill_sent s \<Longrightarrow> sv_kill_sent s'"
    "sv_term_sent s \<Longrightarrow> sv_term_sent s' \<and> sv_term_sent_at s' = sv_term_sent_at s \<and> sv_exited_for_touch s' = sv_exited_for_touch s"
    "sv_corner_hold_started s + kExitHoldMs \<le> clock (sv_ticks s) \<Longrightarrow> sv_term_sent s'"
    "\<not> sv_term_sent s \<Longrightarrow> sv_term_sent s' \<Longrightarrow>
       sv_term_sent_at s' \<le> clock (sv_ticks s + 5) \<and> (\<not> ct_shutdown t \<longrightarrow> sv_exited_for_touch s')"
    "sv_term_sent s \<Longrightarrow> sv_term_sent_at s + kChildTermGraceMs \<le> clock (sv_ticks s) \<Longrightarrow> sv_kill_sent s'"
proof -
  define b where "b = snd (before_reports clock wayland t s)"
  define h where "h = hold_step clock b"
  have s': "s' = grace_step clock h" and on: "sv_corner_hold b"
    using staying_turn [OF assms(2)] by (simp_all add: s'_def h_def b_def)
  note before = before_reports_ticks [where clock = clock and wayland = wayland and t = t and s = s, folded b_def] before_reports_signals [where s = s and clock = clock and wayland = wayland and t = t, folded b_def]
    before_reports_hold(3) [where clock = clock and wayland = wayland and t = t and s = s, folded b_def]
  note hold = hold_step_effect [OF assms(1) on, folded h_def]
  note grace = grace_step_effect [where s = h and clock = clock, folded s']
  show "sv_ticks s < sv_ticks s' \<and> sv_ticks s' \<le> sv_ticks s + 5" using before(1,2) hold(1) grace(1) by linarith
  show "sv_corner_hold s' \<and> sv_corner_hold_started s' = sv_corner_hold_started s" using before(6) hold(2) grace(2) by simp
  show "sv_kill_sent s \<Longrightarrow> sv_kill_sent s'" using before(3) hold(3) grace(4) by simp
  show kept: "sv_term_sent s' \<and> sv_term_sent_at s' = sv_term_sent_at s \<and> sv_exited_for_touch s' = sv_exited_for_touch s"
    if "sv_term_sent s" using before(4) [OF that] hold(4) grace(3) by simp
  have later: "clock (sv_ticks s) \<le> clock (sv_ticks b)" using before(1) by (intro monoD [OF assms(1)]) simp
  show "sv_term_sent s'" if "sv_corner_hold_started s + kExitHoldMs \<le> clock (sv_ticks s)"
    using that hold(4,5) later before(6) grace(3) by (cases "sv_term_sent b") auto
  show "sv_term_sent_at s' \<le> clock (sv_ticks s + 5) \<and> (\<not> ct_shutdown t \<longrightarrow> sv_exited_for_touch s')"
    if "\<not> sv_term_sent s" "sv_term_sent s'"
  proof (cases "sv_term_sent b")
    case True
    then show ?thesis
      using before(5) [OF that(1) True] hold(4) grace(3) monoD [OF assms(1), of "sv_ticks s" "sv_ticks s + 5"] by simp
  next
    case False
    then have "sv_exited_for_touch h" "sv_term_sent_at h \<le> clock (sv_ticks b + 2)" using hold(6) that(2) grace(3) by simp_all
    moreover have "clock (sv_ticks b + 2) \<le> clock (sv_ticks s + 5)" using before(2) by (intro monoD [OF assms(1)]) linarith
    ultimately show ?thesis using grace(3) by simp
  qed
  show "sv_kill_sent s'" if "sv_term_sent s" "sv_term_sent_at s + kChildTermGraceMs \<le> clock (sv_ticks s)"
  proof -
    have "h = b" using before(4) [OF that(1)] hold(4) by simp
    then show ?thesis using grace(5) before(4) [OF that(1)] later that(2) by simp
  qed
qed

lemma staying_run:
  assumes "mono clock" "stays_down clock wayland ts s" "sv_corner_hold s"
  defines "s' \<equiv> run_turns clock wayland ts s"
  shows "sv_ticks s + length ts \<le> sv_ticks s' \<and> sv_ticks s' \<le> sv_ticks s + 5 * length ts \<and>
    sv_corner_hold s' \<and> sv_corner_hold_started s' = sv_corner_hold_started s \<and> (sv_kill_sent s \<longrightarrow> sv_kill_sent s') \<and>
    (sv_term_sent s \<longrightarrow> sv_term_sent s' \<and> sv_term_sent_at s' = sv_term_sent_at s \<and> sv_exited_for_touch s' = sv_exited_for_touch s) \<and>
    (\<not> sv_term_sent s \<longrightarrow> sv_term_sent s' \<longrightarrow> sv_term_sent_at s' \<le> clock (sv_ticks s + 5 * length ts) \<and>
       (list_all (\<lambda>t. \<not> ct_shutdown t) ts \<longrightarrow> sv_exited_for_touch s'))"
  using assms(2,3) unfolding s'_def
proof (induction ts arbitrary: s)
  case (Cons t ts)
  let ?u = "supervise_turn clock wayland t s"
  have t: "finger_stays clock wayland t s" "stays_down clock wayland ts ?u" using Cons.prems(1) by simp_all
  note step = staying_effect [OF assms(1) t(1)]
  note rest = Cons.IH [OF t(2) conjunct1 [OF step(2)]]
  have run: "run_turns clock wayland (t # ts) s = run_turns clock wayland ts ?u" by (simp add: run_turns_def)
  have bounds: "clock (sv_ticks s + 5) \<le> clock (sv_ticks s + 5 * length (t # ts))"
    "clock (sv_ticks ?u + 5 * length ts) \<le> clock (sv_ticks s + 5 * length (t # ts))"
    using step(1) by (auto intro!: monoD [OF assms(1)])
  show ?case
    using step rest bounds unfolding run by (cases "sv_term_sent s"; cases "sv_term_sent ?u") auto
qed (simp add: run_turns_def)

text \<open>
  C15. No supervised program can keep the panel.  Whatever happened before, once a turn sees a
  finger on the screen and the finger stays there, by the reports or because there are none, some
  number of turns that does not depend on what else they bring is enough: by then the child was
  sent SIGTERM and, because it has not ended, SIGKILL.  The run counts as left by touch unless a
  shutdown was requested.  Supervised are all programs under Wayland, and on the framebuffer all but
  the applications of the deck, which read the touchscreen themselves.
\<close>
theorem held_child_is_stopped:
  assumes "mono clock" "\<forall>v. \<exists>n. v \<le> clock n"
    and s: "s = run_turns clock wayland earlier (fresh_supervisor touch console_mirror ticks)"
    and seen: "finger_seen clock wayland t s"
  shows "\<exists>n. \<forall>ts. stays_down clock wayland ts (supervise_turn clock wayland t s) \<and> n \<le> length ts \<longrightarrow>
    (let s' = run_turns clock wayland (t # ts) s
     in sv_kill_sent s' \<and> map fst (sv_signals s') = [SIGTERM, SIGKILL] \<and>
        (\<not> sv_term_sent (supervise_turn clock wayland t s) \<and> list_all (\<lambda>t. \<not> ct_shutdown t) ts \<longrightarrow> sv_exited_for_touch s'))"
proof -
  define u where "u = supervise_turn clock wayland t s"
  have hold: "sv_corner_hold u" unfolding u_def by (rule seen_starts_hold [OF seen])
  obtain n1 where n1: "sv_corner_hold_started u + kExitHoldMs \<le> clock n1" using assms(2) by blast
  define latest where "latest = max (sv_term_sent_at u) (clock (sv_ticks u + 5 * Suc n1))"
  obtain n2 where n2: "latest + kChildTermGraceMs \<le> clock n2" using assms(2) by blast
  show ?thesis
  proof (intro exI allI impI)
    fix ts assume ts: "stays_down clock wayland ts (supervise_turn clock wayland t s) \<and> Suc n1 + Suc n2 \<le> length ts"
    define ts1 rest where "ts1 = take (Suc n1) ts" and "rest = drop (Suc n1) ts"
    define ts2 ts3 where "ts2 = take (Suc n2) rest" and "ts3 = drop (Suc n2) rest"
    have "ts = ts1 @ rest" "rest = ts2 @ ts3" by (simp_all only: ts1_def rest_def ts2_def ts3_def append_take_drop_id)
    then have split: "ts = ts1 @ ts2 @ ts3" by simp
    have "Suc n1 + Suc n2 \<le> length ts" using ts by blast
    then have len: "length ts1 = Suc n1" "length ts2 = Suc n2"
      unfolding ts1_def ts2_def rest_def length_take length_drop by linarith+
    define v where "v = run_turns clock wayland ts1 u"
    define w where "w = run_turns clock wayland ts2 v"
    define x where "x = run_turns clock wayland ts3 w"
    have down: "stays_down clock wayland ts1 u" "stays_down clock wayland ts2 v" "stays_down clock wayland ts3 w"
      using ts unfolding u_def [symmetric] split stays_down_append by (simp_all add: v_def w_def)
    note run1 = staying_run [OF assms(1) down(1) hold, folded v_def]
    have "sv_corner_hold v" using run1 by blast
    note run2 = staying_run [OF assms(1) down(2) this, folded w_def]
    have "sv_corner_hold w" using run2 by blast
    note run3 = staying_run [OF assms(1) down(3) this, folded x_def]
    have "sv_term_sent v"
    proof -
      obtain ts0 t1 where ts1: "ts1 = ts0 @ [t1]" using len(1) by (cases ts1 rule: rev_cases) auto
      have "stays_down clock wayland ts0 u" "finger_stays clock wayland t1 (run_turns clock wayland ts0 u)"
        using down(1) by (simp_all add: ts1 stays_down_append)
      note before = staying_run [OF assms(1) this(1) hold] and now = staying_effect(5) [OF assms(1) this(2)]
      have "clock n1 \<le> clock (sv_ticks (run_turns clock wayland ts0 u))"
        using before len(1) by (intro monoD [OF assms(1)]) (auto simp: ts1)
      then show ?thesis using now before n1 by (simp add: v_def ts1 run_turns_def)
    qed
    moreover have "sv_term_sent_at v \<le> latest"
      using run1 len(1) \<open>sv_term_sent v\<close> by (cases "sv_term_sent u") (auto simp: latest_def)
    ultimately have "sv_kill_sent w"
    proof -
      obtain ts0 t1 where ts2: "ts2 = ts0 @ [t1]" using len(2) by (cases ts2 rule: rev_cases) auto
      have "stays_down clock wayland ts0 v" "finger_stays clock wayland t1 (run_turns clock wayland ts0 v)"
        using down(2) by (simp_all add: ts2 stays_down_append)
      note before = staying_run [OF assms(1) this(1) \<open>sv_corner_hold v\<close>] and now = staying_effect(7) [OF assms(1) this(2)]
      have "clock n2 \<le> clock (sv_ticks (run_turns clock wayland ts0 v))"
        using before len(2) by (intro monoD [OF assms(1)]) (auto simp: ts2)
      then show ?thesis using now before n2 \<open>sv_term_sent v\<close> \<open>sv_term_sent_at v \<le> latest\<close> by (simp add: w_def ts2 run_turns_def)
    qed
    then have killed: "sv_kill_sent x" "sv_term_sent x" using run2 run3 \<open>sv_term_sent v\<close> by blast+
    have x: "run_turns clock wayland (t # ts) s = x"
      by (simp add: x_def w_def v_def u_def split run_turns_def)
    have "signals_ok x"
      unfolding x [symmetric] s run_turns_append [symmetric] by (rule run_turns_ok [OF fresh_ok])
    moreover have "sv_exited_for_touch x" if "\<not> sv_term_sent u" "list_all (\<lambda>t. \<not> ct_shutdown t) ts"
    proof -
      have "sv_exited_for_touch v" using run1 that \<open>sv_term_sent v\<close> by (auto simp: split)
      then show ?thesis using run2 run3 \<open>sv_term_sent v\<close> by auto
    qed
    ultimately show "let s' = run_turns clock wayland (t # ts) s
     in sv_kill_sent s' \<and> map fst (sv_signals s') = [SIGTERM, SIGKILL] \<and>
        (\<not> sv_term_sent (supervise_turn clock wayland t s) \<and> list_all (\<lambda>t. \<not> ct_shutdown t) ts \<longrightarrow> sv_exited_for_touch s')"
      using killed signals_ok_both [of x] unfolding x Let_def u_def [symmetric] by blast
  qed
qed

text \<open>On the framebuffer the deck's applications run without supervision: no turn sees a finger.\<close>

lemma deck_applications_unsupervised:
  assumes "sv_touch s = None"
  shows "sv_touch (supervise_turn clock False t s) = None" "\<not> finger_seen clock False t s"
proof -
  obtain reports s5 where s5: "before_reports clock False t s = (reports, s5)" by fastforce
  have none: "reports = [] \<and> sv_touch s5 = None"
    using s5 assms by (auto simp: before_reports_def Let_def read_clock_def shutdown_step_def send_signal_def reconnect_step_def
        mirror_step_def read_step_def split: if_splits)
  then show "\<not> finger_seen clock False t s" by (simp add: finger_seen_def s5 hold_updates_def)
  show "sv_touch (supervise_turn clock False t s) = None"
    using none by (simp add: supervise_turn_def s5 hold_updates_def hold_step_def grace_step_def read_clock_def send_signal_def Let_def)
qed

text \<open>A finger on the framebuffer's touchscreen, held without another event; and one Wayland reports again and again.\<close>

lemma fb_finger_stays:
  assumes "sv_touch s = Some touch" "0 \<le> tc_fd touch" "hold_inside (tc_reported_down touch) (tc_x touch) (tc_y touch)"
    "ct_wait t = Running" "\<not> ct_ready t"
  shows "finger_seen clock False t s" "sv_corner_hold s \<Longrightarrow> finger_stays clock False t s"
    "sv_touch (supervise_turn clock False t s) = Some touch"
proof -
  have b: "fst (before_reports clock False t s) = []" "sv_touch (snd (before_reports clock False t s)) = Some touch"
    "sv_corner_hold (snd (before_reports clock False t s)) = sv_corner_hold s"
    using assms by (simp_all add: before_reports_def Let_def read_clock_def shutdown_step_def send_signal_def reconnect_step_def
        mirror_step_def read_step_def)
  have updates: "hold_updates False [] s' = [(tc_reported_down touch, tc_x touch, tc_y touch)]" if "sv_touch s' = Some touch" for s'
    using that assms(2) by (simp add: hold_updates_def)
  show "finger_seen clock False t s" "sv_corner_hold s \<Longrightarrow> finger_stays clock False t s"
    using b updates assms(3,4) by (simp_all add: finger_seen_def finger_stays_def still_running_def case_prod_beta Let_def)
  show "sv_touch (supervise_turn clock False t s) = Some touch"
    using b updates by (simp add: supervise_turn_def case_prod_beta update_corner_hold_def hold_step_def grace_step_def
        read_clock_def send_signal_def Let_def)
qed

theorem held_child_is_stopped_witness:
  "\<exists>n. let s = run_turns int False (replicate n ((sample_turn True)\<lparr>ct_ready := False\<rparr>))
        (fresh_supervisor (Some (created_touch\<lparr>tc_fd := 3, tc_reported_down := True\<rparr>)) False 0)
     in sv_kill_sent s \<and> map fst (sv_signals s) = [SIGTERM, SIGKILL]"
proof -
  let ?touch = "created_touch\<lparr>tc_fd := 3, tc_reported_down := True\<rparr>"
  let ?s = "fresh_supervisor (Some ?touch) False 0" and ?t = "(sample_turn True)\<lparr>ct_ready := False\<rparr>"
  have m: "mono int" by (simp add: mono_def)
  have u: "\<forall>v. \<exists>n. v \<le> int n"
  proof
    fix v show "\<exists>n. v \<le> int n" by (rule exI [of _ "nat v"]) simp
  qed
  have f: "0 \<le> tc_fd ?touch" "hold_inside (tc_reported_down ?touch) (tc_x ?touch) (tc_y ?touch)" "ct_wait ?t = Running" "\<not> ct_ready ?t"
    by (simp_all add: created_touch_def hold_inside_def hold_constants kLogicalWidth_def kLogicalHeight_def sample_turn_def)
  have stays: "stays_down int False (replicate n ?t) s" if "sv_corner_hold s" "sv_touch s = Some ?touch" for n s
    using that
  proof (induction n arbitrary: s)
    case (Suc n)
    have "sv_corner_hold (supervise_turn int False ?t s)"
      by (rule seen_starts_hold [OF fb_finger_stays(1) [OF Suc.prems(2) f]])
    then show ?case
      using Suc.IH fb_finger_stays(2,3) [OF Suc.prems(2) f] Suc.prems(1) by (simp del: int_eq_iff_numeral)
  qed simp
  have s: "sv_touch ?s = Some ?touch" by (simp add: fresh_supervisor_def)
  note seen = fb_finger_stays(1) [OF s f, where clock = int] and next_touch = fb_finger_stays(3) [OF s f, where clock = int]
  have "?s = run_turns int False [] ?s" by (simp add: run_turns_def)
  from held_child_is_stopped [OF m u this seen] obtain n where n: "\<forall>ts. stays_down int False ts (supervise_turn int False ?t ?s) \<and> n \<le> length ts \<longrightarrow>
    (let s' = run_turns int False (?t # ts) ?s
     in sv_kill_sent s' \<and> map fst (sv_signals s') = [SIGTERM, SIGKILL] \<and>
        (\<not> sv_term_sent (supervise_turn int False ?t ?s) \<and> list_all (\<lambda>t. \<not> ct_shutdown t) ts \<longrightarrow> sv_exited_for_touch s'))"
    by blast
  have "stays_down int False (replicate n ?t) (supervise_turn int False ?t ?s)"
    by (rule stays [OF seen_starts_hold [OF seen] next_touch])
  then have "let s' = run_turns int False (?t # replicate n ?t) ?s in sv_kill_sent s' \<and> map fst (sv_signals s') = [SIGTERM, SIGKILL]"
    using spec [OF n, of "replicate n ?t"] unfolding Let_def length_replicate by blast
  then show ?thesis by (intro exI [of _ "Suc n"]) (simp only: replicate_Suc)
qed

end
