(* ===== verification/Menu_Options.thy ===== *)
theory Menu_Options
  imports Managed_Child Menu_Screens Deck_Audio
begin

section \<open>Command line, environment and the Wi-Fi editor (\<open>src/deck_menu.cpp\<close>)\<close>

text \<open>
  The dashboard's options, the checks it makes on what they name, and the editor behind the
  Wi-Fi screen.  The string members of \<open>Options\<close> are a function of their names, because the code
  selects the member to set through a pointer.
\<close>

datatype option_name =
    Nes_emulator | Gb_emulator | Zx_emulator | Chip8_emulator | Deck_game | Chiptune_player
  | Chiptune_directory | Manifest | Credits_file | Palette_file | Settings_icon | Cover_directory
  | Volume_state | Brightness | Brightness_max | Brightness_state | Keymap_state | Terminal_launcher
  | Wifi_helper | Wifi_status | Validate_manifest | Validate_palette

record Options =
  opt :: "option_name \<Rightarrow> string"
  opt_geometry_test :: bool
  opt_help :: bool

definition created_options :: Options where
  "created_options = \<lparr>opt = (\<lambda>_. []), opt_geometry_test = False, opt_help = False\<rparr>"

definition required_options :: "(string \<times> option_name) list" where
  "required_options =
     [(''--nes-emulator'', Nes_emulator), (''--gb-emulator'', Gb_emulator), (''--zx-emulator'', Zx_emulator),
      (''--chip8-emulator'', Chip8_emulator), (''--deck-game'', Deck_game), (''--chiptune-player'', Chiptune_player),
      (''--chiptune-directory'', Chiptune_directory), (''--manifest'', Manifest), (''--credits'', Credits_file),
      (''--palette'', Palette_file), (''--settings-icon'', Settings_icon), (''--cover-directory'', Cover_directory),
      (''--volume-state'', Volume_state), (''--brightness'', Brightness), (''--brightness-max'', Brightness_max),
      (''--brightness-state'', Brightness_state), (''--keymap-state'', Keymap_state), (''--terminal'', Terminal_launcher),
      (''--wifi-helper'', Wifi_helper), (''--wifi-status'', Wifi_status)]"

definition option_named :: "string \<Rightarrow> option_name option" where
  "option_named argument =
     (if argument = ''--validate-manifest'' then Some Validate_manifest
      else if argument = ''--validate-palette'' then Some Validate_palette
      else map_of required_options argument)"

fun parse_arguments :: "string list \<Rightarrow> Options \<Rightarrow> message + Options" where
  "parse_arguments [] options = Inr options"
| "parse_arguments (argument # arguments) options =
     (if argument = ''--geometry-test'' then parse_arguments arguments (options\<lparr>opt_geometry_test := True\<rparr>)
      else if argument = ''--help'' \<or> argument = ''-h'' then parse_arguments arguments (options\<lparr>opt_help := True\<rparr>)
      else
        (case option_named argument of
           None \<Rightarrow> Inl (Msg (''unknown option '' @ argument))
         | Some destination \<Rightarrow>
             (case arguments of
                [] \<Rightarrow> Inl (Msg (''missing value for '' @ argument))
              | v # rest \<Rightarrow>
                  if opt options destination \<noteq> [] then Inl (Msg (''duplicate option '' @ argument))
                  else parse_arguments rest (options\<lparr>opt := (opt options)(destination := v)\<rparr>))))"

text \<open>\<open>arguments\<close> are \<open>argv[1]\<close> onwards, so \<open>argc\<close> is one more than their number.\<close>

definition parse_options :: "string list \<Rightarrow> message + Options" where
  "parse_options arguments =
     (case parse_arguments arguments created_options of
        Inl e \<Rightarrow> Inl e
      | Inr options \<Rightarrow>
          if opt_help options then Inr options
          else if opt_geometry_test options
          then (if length arguments + 1 \<noteq> 2 then Inl (Msg ''--geometry-test must be used alone'') else Inr options)
          else if opt options Validate_manifest \<noteq> []
          then (if length arguments + 1 \<noteq> 3 then Inl (Msg ''--validate-manifest must be used alone'') else Inr options)
          else if opt options Validate_palette \<noteq> []
          then (if length arguments + 1 \<noteq> 3 then Inl (Msg ''--validate-palette must be used alone'') else Inr options)
          else if list_ex (\<lambda>(_, name). opt options name = []) required_options
          then Inl (Msg (''--nes-emulator, --gb-emulator, --zx-emulator, --chip8-emulator, --deck-game, '' @
                  ''--chiptune-player, --chiptune-directory, --manifest, --credits, --palette, --settings-icon, '' @
                  ''--cover-directory, --volume-state, --brightness, --brightness-max, --brightness-state, '' @
                  ''--keymap-state, --terminal, --wifi-helper, and --wifi-status are required''))
          else Inr options)"

definition emulator_for_game :: "Options \<Rightarrow> GameEntry \<Rightarrow> string" where
  "emulator_for_game options game =
     opt options
       (if system game = ''nes'' then Nes_emulator
        else if system game = ''gb'' \<or> system game = ''gbc'' then Gb_emulator
        else if system game = ''zx'' then Zx_emulator
        else if system game = ''deck'' then (if is_built_in_chiptune game then Chiptune_player else Deck_game)
        else Chip8_emulator)"

text \<open>\<open>executable\<close> is what \<open>access\<close> with \<open>X_OK\<close> answers for a path.\<close>

definition validate_executable :: "(string \<Rightarrow> bool) \<Rightarrow> string \<Rightarrow> string \<Rightarrow> world \<Rightarrow> (message + unit) \<times> world" where
  "validate_executable executable path what w =
     (if \<not> is_absolute_path path then (Inl (Msg (what @ '' path must be absolute'')), w)
      else
        (case sys_stat path w of
           (None, w1) \<Rightarrow> (Inl (errno_message (''cannot stat '' @ what @ '' '' @ path) w1), w1)
         | (Some (is_regular, _), w1) \<Rightarrow>
             if \<not> is_regular \<or> \<not> executable path
             then (Inl (Msg (what @ '' is not an executable regular file: '' @ path)), w1)
             else (Inr (), w1)))"

fun inherited_digits :: "string \<Rightarrow> nat \<Rightarrow> nat option" where
  "inherited_digits [] v = Some v"
| "inherited_digits (c # cs) v =
     (if \<not> is_digit c then None
      else if 100 < v * 10 + digit_value c then None
      else inherited_digits cs (v * 10 + digit_value c))"

text \<open>\<open>inherited_volume\<close> gets the value of \<open>RETRO_DECK_VOLUME_PERCENT\<close>.\<close>

definition inherited_volume :: "string option \<Rightarrow> message + nat" where
  "inherited_volume environment =
     (case environment of
        None \<Rightarrow> Inr 42
      | Some s \<Rightarrow>
          if s = [] then Inl (Msg ''RETRO_DECK_VOLUME_PERCENT is empty; expected 0 through 100'')
          else
            (case inherited_digits s 0 of
               None \<Rightarrow> Inl (Msg ''RETRO_DECK_VOLUME_PERCENT must be an integer from 0 through 100'')
             | Some v \<Rightarrow> Inr v))"

subsection \<open>The Wi-Fi editor\<close>

definition valid_wifi_text :: "string \<Rightarrow> nat \<Rightarrow> nat \<Rightarrow> bool" where
  "valid_wifi_text v minimum maximum =
     (minimum \<le> length v \<and> length v \<le> maximum \<and> list_all (\<lambda>c. 32 \<le> byte_of c \<and> byte_of c \<le> 126) v)"

definition wifi_field_text :: "WifiState \<Rightarrow> string" where
  "wifi_field_text s = (if ws_field s = WifiSsid then ws_ssid s else ws_passphrase s)"

definition set_wifi_field :: "string \<Rightarrow> WifiState \<Rightarrow> WifiState" where
  "set_wifi_field v s = (if ws_field s = WifiSsid then s\<lparr>ws_ssid := v\<rparr> else s\<lparr>ws_passphrase := v\<rparr>)"

definition apply_wifi_target :: "int \<Rightarrow> WifiLayout \<Rightarrow> WifiState \<Rightarrow> bool \<times> WifiState" where
  "apply_wifi_target target layout state =
     (let limit = (if ws_field state = WifiSsid then 32 else 63);
          v = wifi_field_text state;
          cleared = (\<lambda>s. (True, s\<lparr>ws_status := []\<rparr>))
      in if target = WifiTargetSsid then cleared (state\<lparr>ws_field := WifiSsid\<rparr>)
         else if target = WifiTargetPassphrase then cleared (state\<lparr>ws_field := WifiPassphrase\<rparr>)
         else if target = WifiTargetMode then cleared (state\<lparr>ws_symbols := \<not> ws_symbols state\<rparr>)
         else if target = WifiTargetShift \<and> \<not> ws_symbols state
         then cleared (state\<lparr>ws_uppercase := \<not> ws_uppercase state\<rparr>)
         else if target = WifiTargetDelete then cleared (if v = [] then state else set_wifi_field (butlast v) state)
         else if target = WifiTargetSpace
         then cleared (if length v < limit then set_wifi_field (v @ '' '') state else state)
         else if WifiTargetKeyBase \<le> target \<and> target - WifiTargetKeyBase < int (length (wifi_keys layout))
         then cleared (if length v < limit
                       then set_wifi_field (v @ [snd (wifi_keys layout ! nat (target - WifiTargetKeyBase))]) state
                       else state)
         else (False, state))"

text \<open>What the kernel and the helper answer while a profile is saved.\<close>

record wifi_answers =
  wa_pipe_error :: "errno option"
  wa_fork_error :: "errno option"
  wa_wrote :: bool
  wa_closed :: bool
  wa_waited :: "wait_status option"

definition wifi_request :: "string \<Rightarrow> string \<Rightarrow> string" where
  "wifi_request ssid passphrase = ssid @ [NL] @ passphrase @ [NL]"

text \<open>The result, and the text written to the helper when it was started.\<close>

definition save_wifi_profile :: "wifi_answers \<Rightarrow> string \<Rightarrow> string \<Rightarrow> (message + unit) \<times> string option" where
  "save_wifi_profile a ssid passphrase =
     (if \<not> valid_wifi_text ssid 1 32 then (Inl (Msg ''SSID MUST BE 1 TO 32 CHARACTERS''), None)
      else if \<not> valid_wifi_text passphrase 8 63 then (Inl (Msg ''PASSWORD MUST BE 8 TO 63 CHARACTERS''), None)
      else
        (case wa_pipe_error a of
           Some e \<Rightarrow> (Inl (Errno_msg ''cannot create wifi helper pipe'' e), None)
         | None \<Rightarrow>
             (case wa_fork_error a of
                Some e \<Rightarrow> (Inl (Errno_msg ''cannot start wifi helper'' e), None)
              | None \<Rightarrow>
                  (if \<not> wa_wrote a \<or> \<not> wa_closed a then Inl (Msg ''WIFI PROFILE WRITE FAILED'')
                   else if wa_waited a \<noteq> Some (Exited 0) then Inl (Msg ''WIFI PROFILE WAS NOT SAVED'')
                   else Inr (), Some (wifi_request ssid passphrase)))))"

section \<open>What the command line may say\<close>

text \<open>
  An accepted command line is a sequence of flags and of options with their values.  How each
  option is written is stated here on its own, apart from the tables of the parser.
\<close>

fun spelling :: "option_name \<Rightarrow> string" where
  "spelling Nes_emulator = ''--nes-emulator''"
| "spelling Gb_emulator = ''--gb-emulator''"
| "spelling Zx_emulator = ''--zx-emulator''"
| "spelling Chip8_emulator = ''--chip8-emulator''"
| "spelling Deck_game = ''--deck-game''"
| "spelling Chiptune_player = ''--chiptune-player''"
| "spelling Chiptune_directory = ''--chiptune-directory''"
| "spelling Manifest = ''--manifest''"
| "spelling Credits_file = ''--credits''"
| "spelling Palette_file = ''--palette''"
| "spelling Settings_icon = ''--settings-icon''"
| "spelling Cover_directory = ''--cover-directory''"
| "spelling Volume_state = ''--volume-state''"
| "spelling Brightness = ''--brightness''"
| "spelling Brightness_max = ''--brightness-max''"
| "spelling Brightness_state = ''--brightness-state''"
| "spelling Keymap_state = ''--keymap-state''"
| "spelling Terminal_launcher = ''--terminal''"
| "spelling Wifi_helper = ''--wifi-helper''"
| "spelling Wifi_status = ''--wifi-status''"
| "spelling Validate_manifest = ''--validate-manifest''"
| "spelling Validate_palette = ''--validate-palette''"

datatype option_word = Geometry_flag | Help_flag | Short_help_flag | Option_value option_name string

fun spell :: "option_word \<Rightarrow> string list" where
  "spell Geometry_flag = [''--geometry-test'']"
| "spell Help_flag = [''--help'']"
| "spell Short_help_flag = [''-h'']"
| "spell (Option_value n v) = [spelling n, v]"

fun values_given :: "option_name \<Rightarrow> option_word list \<Rightarrow> string list" where
  "values_given n [] = []"
| "values_given n (Option_value m v # ws) = (if m = n then v # values_given n ws else values_given n ws)"
| "values_given n (w # ws) = values_given n ws"

lemma option_named_spelling: "option_named s = Some n \<longleftrightarrow> s = spelling n"
proof
  assume "option_named s = Some n"
  then show "s = spelling n"
    by (simp add: option_named_def required_options_def split: if_splits)
qed (cases n; simp add: option_named_def required_options_def)

text \<open>The value of an option counts from the first time it is not empty, and then may not be repeated.\<close>

fun given_once :: "string list \<Rightarrow> bool" where
  "given_once [] = True"
| "given_once (v # vs) = (if v = [] then given_once vs else vs = [])"

definition value_of :: "string list \<Rightarrow> string" where
  "value_of vs = (if vs = [] then [] else last vs)"

definition words_meaning :: "option_word list \<Rightarrow> Options" where
  "words_meaning ws =
     \<lparr>opt = (\<lambda>n. value_of (values_given n ws)), opt_geometry_test = (Geometry_flag \<in> set ws),
      opt_help = (Help_flag \<in> set ws \<or> Short_help_flag \<in> set ws)\<rparr>"

lemma flags_are_not_options:
  "spelling n \<noteq> ''--geometry-test''" "spelling n \<noteq> ''--help''" "spelling n \<noteq> ''-h''"
  by (cases n; simp)+

definition given_after :: "string \<Rightarrow> string list \<Rightarrow> bool" where
  "given_after v vs = (if v = [] then given_once vs else vs = [])"

definition with_words :: "Options \<Rightarrow> option_word list \<Rightarrow> Options" where
  "with_words o0 ws =
     \<lparr>opt = (\<lambda>n. if values_given n ws = [] then opt o0 n else last (values_given n ws)),
      opt_geometry_test = (opt_geometry_test o0 \<or> Geometry_flag \<in> set ws),
      opt_help = (opt_help o0 \<or> Help_flag \<in> set ws \<or> Short_help_flag \<in> set ws)\<rparr>"

lemma with_words_Nil [simp]: "with_words o0 [] = o0"
  by (cases o0) (simp add: with_words_def)

lemma with_words_Cons:
  "with_words o0 (Geometry_flag # ws) = with_words (o0\<lparr>opt_geometry_test := True\<rparr>) ws"
  "with_words o0 (Help_flag # ws) = with_words (o0\<lparr>opt_help := True\<rparr>) ws"
  "with_words o0 (Short_help_flag # ws) = with_words (o0\<lparr>opt_help := True\<rparr>) ws"
  "with_words o0 (Option_value n v # ws) = with_words (o0\<lparr>opt := (opt o0)(n := v)\<rparr>) ws"
  by (auto simp: with_words_def fun_eq_iff)

lemma given_after_Cons: "given_after x (v # vs) \<longleftrightarrow> x = [] \<and> given_after v vs"
  by (simp add: given_after_def)

lemma given_after_step:
  "(\<forall>m. given_after (opt o0 m) (values_given m (Option_value n v # ws))) \<longleftrightarrow>
   opt o0 n = [] \<and> (\<forall>m. given_after (((opt o0)(n := v)) m) (values_given m ws))"
  by (auto simp: given_after_Cons)

lemma parse_spelled:
  assumes "\<forall>n. given_after (opt o0 n) (values_given n ws)"
  shows "parse_arguments (concat (map spell ws)) o0 = Inr (with_words o0 ws)"
  using assms
proof (induction ws arbitrary: o0)
  case (Cons w ws)
  show ?case
  proof (cases w)
    case (Option_value n v)
    have "opt o0 n = []" "\<forall>m. given_after (((opt o0)(n := v)) m) (values_given m ws)"
      using given_after_step [of o0 n v ws, THEN iffD1] Cons.prems unfolding Option_value by blast+
    moreover have "option_named (spelling n) = Some n" by (simp add: option_named_spelling)
    ultimately show ?thesis
      using Cons.IH [of "o0\<lparr>opt := (opt o0)(n := v)\<rparr>"] by (simp add: Option_value with_words_Cons flags_are_not_options)
  qed (use Cons in \<open>auto simp: with_words_Cons\<close>)
qed simp

lemma parse_only_spelled:
  "parse_arguments arguments o0 = Inr o1 \<Longrightarrow>
   \<exists>ws. arguments = concat (map spell ws) \<and> (\<forall>n. given_after (opt o0 n) (values_given n ws)) \<and> o1 = with_words o0 ws"
proof (induction arguments o0 rule: parse_arguments.induct)
  case (1 o0)
  then show ?case by (intro exI [of _ "[]"]) (simp add: given_after_def)
next
  case (2 argument arguments o0)
  consider "argument = ''--geometry-test''" | "argument = ''--help'' \<or> argument = ''-h''" "argument \<noteq> ''--geometry-test''"
    | "argument \<noteq> ''--geometry-test''" "\<not> (argument = ''--help'' \<or> argument = ''-h'')" by blast
  then show ?case
  proof cases
    case 1
    then obtain ws where "arguments = concat (map spell ws)"
      "\<forall>n. given_after (opt o0 n) (values_given n ws)" "o1 = with_words (o0\<lparr>opt_geometry_test := True\<rparr>) ws"
      using 2 by auto
    then show ?thesis using 1 by (intro exI [of _ "Geometry_flag # ws"]) (simp add: with_words_Cons)
  next
    case 2
    then obtain ws where "arguments = concat (map spell ws)"
      "\<forall>n. given_after (opt o0 n) (values_given n ws)" "o1 = with_words (o0\<lparr>opt_help := True\<rparr>) ws"
      using "2.IH" "2.prems" by auto
    then show ?thesis using 2
      by (intro exI [of _ "(if argument = ''-h'' then Short_help_flag else Help_flag) # ws"]) (auto simp: with_words_Cons)
  next
    case 3
    then obtain n v rest where n: "option_named argument = Some n" "arguments = v # rest" "opt o0 n = []"
      "parse_arguments rest (o0\<lparr>opt := (opt o0)(n := v)\<rparr>) = Inr o1"
      using "2.prems" by (simp split: option.splits list.splits if_splits)
    then obtain ws where "rest = concat (map spell ws)"
      "\<forall>m. given_after (((opt o0)(n := v)) m) (values_given m ws)" "o1 = with_words (o0\<lparr>opt := (opt o0)(n := v)\<rparr>) ws"
      using "2.IH"(3) [OF 3 n(1,2)] by auto
    moreover from this(2) have "\<forall>m. given_after (opt o0 m) (values_given m (Option_value n v # ws))"
      by (intro given_after_step [THEN iffD2] conjI n(3))
    ultimately show ?thesis using n(1,2)
      by (intro exI [of _ "Option_value n v # ws"]) (simp add: with_words_Cons option_named_spelling)
  qed
qed

lemma words_meaning_fresh: "with_words created_options ws = words_meaning ws"
  by (simp add: with_words_def words_meaning_def created_options_def value_of_def fun_eq_iff)

definition runnable :: "string list \<Rightarrow> Options \<Rightarrow> bool" where
  "runnable arguments options =
     (if opt_help options then True
      else if opt_geometry_test options then length arguments = 1
      else if opt options Validate_manifest \<noteq> [] \<or> opt options Validate_palette \<noteq> [] then length arguments = 2
      else \<forall>n. n = Validate_manifest \<or> n = Validate_palette \<or> opt options n \<noteq> [])"

lemma all_required:
  "list_all (\<lambda>(_, name). opt options name \<noteq> []) required_options \<longleftrightarrow>
     (\<forall>n. n = Validate_manifest \<or> n = Validate_palette \<or> opt options n \<noteq> [])" (is "?listed = ?all")
proof
  assume ?listed
  then have "n = Validate_manifest \<or> n = Validate_palette \<or> opt options n \<noteq> []" for n
    by (cases n) (simp_all add: required_options_def)
  then show ?all by blast
next
  assume ?all
  then have "opt options n \<noteq> []" if "n \<noteq> Validate_manifest" "n \<noteq> Validate_palette" for n using that by blast
  then show ?listed by (simp add: required_options_def)
qed

text \<open>
  C32. The dashboard accepts exactly the command lines that write known options, each with the word
  \<open>spelling\<close> lists, in any order, set no option again once it has a value, and either ask for help, or
  are one self test or validation used alone, or give every option but the two validations.  What
  the dashboard runs with is what they say: each option has the value given with its word.
\<close>
theorem parse_options_exact:
  "parse_options arguments = Inr options \<longleftrightarrow>
   (\<exists>ws. arguments = concat (map spell ws) \<and> (\<forall>n. given_once (values_given n ws)) \<and>
     options = words_meaning ws \<and> runnable arguments options)"
proof -
  have fresh: "given_after (opt created_options n) vs = given_once vs" for n vs
    by (simp add: given_after_def created_options_def)
  have words: "parse_arguments arguments created_options = Inr options \<longleftrightarrow>
      (\<exists>ws. arguments = concat (map spell ws) \<and> (\<forall>n. given_once (values_given n ws)) \<and>
        options = words_meaning ws)"
    using parse_spelled [where ?o0.0 = created_options] parse_only_spelled [of arguments created_options options]
    unfolding words_meaning_fresh fresh by metis
  have "parse_options arguments = Inr options \<longleftrightarrow>
      parse_arguments arguments created_options = Inr options \<and> runnable arguments options"
    unfolding runnable_def all_required [symmetric]
    by (auto simp: parse_options_def list_all_iff list_ex_iff split: sum.splits if_splits)
  then show ?thesis unfolding words by blast
qed

section \<open>The volume on its way to a program\<close>

lemma inherited_digits_eq: "inherited_digits s v = volume_digits s v"
  by (induction s arbitrary: v) (simp_all add: Let_def)

text \<open>
  The dashboard reads an inherited volume exactly as its frontends do: absent means 42, and a
  number of at most 100 in decimal digits is that number.  What the dashboard puts into the
  environment of a program is read there as the volume it had.
\<close>
theorem volume_handed_over:
  "(inherited_volume environment = Inr v \<longleftrightarrow> DeckReadVolumePercent environment = (True, v)) \<and>
   (inherited_volume environment = Inr v \<longleftrightarrow> environment = None \<and> v = 42 \<or>
      (\<exists>s. environment = Some s \<and> s \<noteq> [] \<and> list_all is_digit s \<and> decimal_value s = v \<and> v \<le> 100)) \<and>
   (DeckReadVolumePercent (map_of (game_environment game volume wayland volume_state) ''RETRO_DECK_VOLUME_PERCENT'') =
      (True, volume) \<longleftrightarrow> volume \<le> 100)"
proof (intro conjI)
  show alike: "inherited_volume environment = Inr v \<longleftrightarrow> DeckReadVolumePercent environment = (True, v)"
    by (auto simp: inherited_volume_def DeckReadVolumePercent_def inherited_digits_eq split: option.splits if_splits)
  show "inherited_volume environment = Inr v \<longleftrightarrow> environment = None \<and> v = 42 \<or>
      (\<exists>s. environment = Some s \<and> s \<noteq> [] \<and> list_all is_digit s \<and> decimal_value s = v \<and> v \<le> 100)"
  proof (cases environment)
    case None
    then show ?thesis by (auto simp: inherited_volume_def)
  next
    case (Some s)
    then show ?thesis unfolding alike using DeckReadVolumePercent_exact [of s v] by simp
  qed
  have "map_of (game_environment game volume wayland volume_state) ''RETRO_DECK_VOLUME_PERCENT'' = Some (decimal volume)"
    by (simp add: game_environment_def)
  then show "DeckReadVolumePercent (map_of (game_environment game volume wayland volume_state) ''RETRO_DECK_VOLUME_PERCENT'') =
      (True, volume) \<longleftrightarrow> volume \<le> 100"
    using DeckReadVolumePercent_exact [of "decimal volume" volume] by (simp add: decimal_digits)
qed

section \<open>The Wi-Fi editor keeps its fields well formed\<close>

definition printable :: "string \<Rightarrow> bool" where
  "printable = list_all (\<lambda>c. 32 \<le> byte_of c \<and> byte_of c \<le> 126)"

definition wifi_ok :: "WifiState \<Rightarrow> bool" where
  "wifi_ok s = (length (ws_ssid s) \<le> 32 \<and> length (ws_passphrase s) \<le> 63 \<and> printable (ws_ssid s) \<and> printable (ws_passphrase s))"

lemma printable_simps [simp]:
  "printable []" "printable (v @ w) \<longleftrightarrow> printable v \<and> printable w"
  "printable [c] \<longleftrightarrow> 32 \<le> byte_of c \<and> byte_of c \<le> 126"
  by (simp_all add: printable_def)

lemma printable_butlast: "printable v \<Longrightarrow> printable (butlast v)"
  by (auto simp: printable_def list_all_iff dest: in_set_butlastD)

lemma set_field_ok:
  "wifi_ok s \<Longrightarrow> printable v \<Longrightarrow> length v \<le> (if ws_field s = WifiSsid then 32 else 63) \<Longrightarrow> wifi_ok (set_wifi_field v s)"
  by (simp add: wifi_ok_def set_wifi_field_def split: if_splits)

lemma wifi_ok_field:
  "wifi_ok s \<Longrightarrow> printable (wifi_field_text s) \<and> length (wifi_field_text s) \<le> (if ws_field s = WifiSsid then 32 else 63)"
  by (simp add: wifi_ok_def wifi_field_text_def)

lemma byte_of_lower: "is_lower c \<Longrightarrow> 97 \<le> byte_of c \<and> byte_of c \<le> 122"
  by (simp add: is_lower_def)

lemma wifi_key_values:
  "map snd (wifi_key_row (vals, y, uppercase)) = (if uppercase then map to_upper vals else vals)"
  by (auto simp: wifi_key_row_def Let_def map_nth intro!: nth_equalityI)

lemma to_upper_printable: "printable v \<Longrightarrow> printable (map to_upper v)"
  by (auto simp: printable_def list_all_iff to_upper_def is_lower_def byte_of_char_of)

lemma key_texts_printable:
  "list_all (\<lambda>row. printable (fst row)) (wifi_rows s)"
proof -
  have "list_all printable [''1234567890'', ''!@#$%^&*()'', ''-_=+[]{}'' @ [char_of (92 :: nat)] @ ''|'',
      ''`~;:'' @ [char_of (39 :: nat), char_of (34 :: nat)] @ '',./?<>'', ''qwertyuiop'', ''asdfghjkl'', ''zxcvbnm'', ''@._-'']"
    by code_simp
  then show ?thesis by (cases "ws_symbols s") (simp_all only: wifi_rows_def list.pred_inject fst_conv if_True if_False simp_thms)
qed

lemma wifi_rows_printable: "row \<in> set (wifi_rows s) \<Longrightarrow> printable (map snd (wifi_key_row row))"
  using key_texts_printable [of s] by (cases row) (auto simp: list_all_iff wifi_key_values to_upper_printable)

lemma wifi_keys_printable: "i < length (wifi_keys (wifi_layout s)) \<Longrightarrow> printable [snd (wifi_keys (wifi_layout s) ! i)]"
proof -
  assume "i < length (wifi_keys (wifi_layout s))"
  then have "wifi_keys (wifi_layout s) ! i \<in> set (concat (map wifi_key_row (wifi_rows s)))"
    using nth_mem by (fastforce simp: wifi_layout_def)
  then obtain row where "row \<in> set (wifi_rows s)" "wifi_keys (wifi_layout s) ! i \<in> set (wifi_key_row row)" by auto
  with wifi_rows_printable [of row s] show ?thesis by (auto simp: printable_def list_all_iff)
qed

lemma byte_of_space: "byte_of CHR '' '' = 32"
  by code_simp

lemma apply_wifi_target_ok:
  assumes "wifi_ok s"
  shows "wifi_ok (snd (apply_wifi_target t (wifi_layout drawn) s))"
proof -
  let ?limit = "if ws_field s = WifiSsid then 32 else 63 :: nat" and ?v = "wifi_field_text s"
  have v: "printable ?v" "length ?v \<le> ?limit" using wifi_ok_field [OF assms] by blast+
  have status: "wifi_ok (s'\<lparr>ws_status := m\<rparr>) = wifi_ok s'" for s' m by (simp add: wifi_ok_def)
  have fields: "wifi_ok (s\<lparr>ws_field := f\<rparr>)" "wifi_ok (s\<lparr>ws_symbols := b\<rparr>)" "wifi_ok (s\<lparr>ws_uppercase := b\<rparr>)" for f b
    using assms by (simp_all add: wifi_ok_def)
  have deleted: "wifi_ok (set_wifi_field (butlast ?v) s)"
    by (rule set_field_ok [OF assms printable_butlast [OF v(1)]]) (use v(2) in simp)
  have space: "wifi_ok (set_wifi_field (?v @ '' '') s)" if "length ?v < ?limit"
    by (rule set_field_ok [OF assms]) (use v that in \<open>simp_all add: byte_of_space\<close>)
  have key: "wifi_ok (set_wifi_field (?v @ [snd (wifi_keys (wifi_layout drawn) ! nat (t - WifiTargetKeyBase))]) s)"
    if "length ?v < ?limit" "WifiTargetKeyBase \<le> t" "t - WifiTargetKeyBase < int (length (wifi_keys (wifi_layout drawn)))"
  proof (rule set_field_ok [OF assms])
    have "nat (t - WifiTargetKeyBase) < length (wifi_keys (wifi_layout drawn))" using that(2,3) by simp
    from wifi_keys_printable [OF this] v(1)
    show "printable (?v @ [snd (wifi_keys (wifi_layout drawn) ! nat (t - WifiTargetKeyBase))])" by (simp add: printable_def)
  qed (use that in simp)
  show ?thesis
    unfolding apply_wifi_target_def Let_def
    using assms space key by (simp add: status fields deleted)
qed

text \<open>Each touch comes with the state whose layout was last drawn.\<close>

definition wifi_edits :: "(int \<times> WifiState) list \<Rightarrow> WifiState \<Rightarrow> WifiState" where
  "wifi_edits ts s = foldl (\<lambda>s (t, drawn). snd (apply_wifi_target t (wifi_layout drawn) s)) s ts"

lemma wifi_edits_ok: "wifi_ok s \<Longrightarrow> wifi_ok (wifi_edits ts s)"
  unfolding wifi_edits_def by (induction ts arbitrary: s) (auto simp: apply_wifi_target_ok)

lemma printable_no_newline: "printable v \<Longrightarrow> NL \<notin> set v"
  by (auto simp: printable_def list_all_iff NL_def)

lemma getlines_two:
  "NL \<notin> set v \<Longrightarrow> NL \<notin> set w \<Longrightarrow> stream_lines (v @ [NL] @ w @ [NL], bad) = [v, w]"
  by (simp add: stream_lines_def getlines_line)

lemma valid_wifi_printable: "valid_wifi_text v a b \<longleftrightarrow> a \<le> length v \<and> length v \<le> b \<and> printable v"
  by (simp add: valid_wifi_text_def printable_def)

text \<open>
  C33. Whatever is touched in the Wi-Fi editor, the name keeps at most 32 and the password at most 63
  characters, all of them printable; so saving is refused only for a name or password that is too
  short, and what the helper reads are two lines, exactly the name and the password; it is reported
  as saved exactly when the text was written in full and the helper exited with status 0.
\<close>
theorem wifi_editor_sound:
  "let s = wifi_edits ts created_wifi; (result, request) = save_wifi_profile a (ws_ssid s) (ws_passphrase s)
   in wifi_ok s \<and>
      (request \<noteq> None \<longleftrightarrow> ws_ssid s \<noteq> [] \<and> 8 \<le> length (ws_passphrase s) \<and> wa_pipe_error a = None \<and> wa_fork_error a = None) \<and>
      (case request of
         None \<Rightarrow> result \<noteq> Inr ()
       | Some r \<Rightarrow> stream_lines (r, False) = [ws_ssid s, ws_passphrase s] \<and>
           (result = Inr () \<longleftrightarrow> wa_wrote a \<and> wa_closed a \<and> wa_waited a = Some (Exited 0)))"
proof -
  let ?s = "wifi_edits ts created_wifi"
  have ok: "wifi_ok ?s" by (rule wifi_edits_ok) (simp add: wifi_ok_def created_wifi_def)
  then have valid: "valid_wifi_text (ws_ssid ?s) 1 32 \<longleftrightarrow> ws_ssid ?s \<noteq> []"
    "valid_wifi_text (ws_passphrase ?s) 8 63 \<longleftrightarrow> 8 \<le> length (ws_passphrase ?s)"
    by (auto simp: wifi_ok_def valid_wifi_printable Suc_le_eq)
  have lines: "stream_lines (wifi_request (ws_ssid ?s) (ws_passphrase ?s), False) = [ws_ssid ?s, ws_passphrase ?s]"
    unfolding wifi_request_def using ok by (intro getlines_two printable_no_newline) (simp_all add: wifi_ok_def)
  show ?thesis
    unfolding Let_def save_wifi_profile_def valid
    using ok lines by (auto split: option.splits)
qed

end
