(* ===== verification/Dashboard.thy ===== *)
theory Dashboard
  imports Menu_Options Menu_Pads Menu_Sound Menu_Credits Menu_Covers Menu_State
begin

section \<open>The dashboard's state (\<open>src/deck_menu.cpp\<close>, \<open>application_main\<close>)\<close>

text \<open>
  The event loop of the dashboard.  What \<open>application_main\<close> reads once is the configuration,
  its other local variables are the record \<open>dashboard\<close>.  Everything the kernel, the clock or a
  child process answers is a function of the number of questions asked so far, which \<open>d_ticks\<close>
  counts; a theorem about all such functions is a theorem about every behaviour of the outside.
  Files are the explicit world.  \<open>d_screen\<close> holds what the canvas was last rendered from.
  \<open>d_log\<close> is a ghost: it records what is shown, the input that is acted on, and what is launched.
\<close>

definition kRebootConfirmMs :: int where "kRebootConfirmMs = 4000"
definition kVolumeStep :: nat where "kVolumeStep = 5"
definition kRebootExecutable :: string where "kRebootExecutable = ''/sbin/reboot''"
definition kRebootConfirmationText :: string where "kRebootConfirmationText = ''PRESS A OR TAP AGAIN TO REBOOT''"
definition CreditsTargetClose :: int where "CreditsTargetClose = 0"

record config =
  c_options :: Options
  c_games :: "GameEntry list"
  c_palette :: palette
  c_icon :: SettingsIconImage
  c_crawl :: CreditsCrawl
  c_reduced_motion :: bool
  c_brightness_maximum :: nat
  c_default_volume :: nat

text \<open>What \<open>poll\<close> reports and what the ready devices then deliver.\<close>

record poll_events =
  pe_touch_ready :: bool
  pe_touch_script :: "(resync_answers \<times> input_event) read_result list"
  pe_widget :: "bool \<times> TouchReport list"
  pe_gamepads :: "polled_device list"
  pe_keyboards :: "polled_device list"

datatype poll_answer = Poll_interrupted | Poll_failed | Poll_timeout | Poll_events poll_events

text \<open>
  \<open>ker_moving_credits\<close> is the moving credits screen, which the source computes in floating point.
\<close>

record kernel =
  ker_clock :: clock
  ker_shutdown :: "nat \<Rightarrow> bool"
  ker_directory :: "nat \<Rightarrow> device_node list option"
  ker_grab :: "nat \<Rightarrow> int \<Rightarrow> bool"
  ker_resync :: "nat \<Rightarrow> int \<Rightarrow> resync_answers"
  ker_poll :: "nat \<Rightarrow> poll_answer"
  ker_presents :: "nat \<Rightarrow> bool"
  ker_reaped :: "nat \<Rightarrow> bool"
  ker_forked :: "nat \<Rightarrow> int"
  ker_network :: "nat \<Rightarrow> network_answers"
  ker_wifi :: "nat \<Rightarrow> wifi_answers"
  ker_launch :: "nat \<Rightarrow> launch_answers"
  ker_panel :: "nat \<Rightarrow> bool \<times> bool \<times> fb_kernel \<times> u16 list"
  ker_executable :: "string \<Rightarrow> bool"
  ker_strerror :: "errno \<Rightarrow> string"
  ker_moving_credits :: "CreditsCrawl \<Rightarrow> int \<Rightarrow> Canvas option"

datatype screen =
    Credits_screen int
  | Wifi_screen WifiState NetworkStatus
  | Settings_screen nat nat string int string NetworkStatus
  | Menu_screen string nat string

datatype launch = Launch_terminal string | Launch_reboot string | Launch_game string GameEntry nat

text \<open>
  Each effect carries the time at which it happened.  A screen is presented, or refused by the
  framebuffer, or drawing it indexes out of bounds; after that the program has no defined behaviour.
\<close>

datatype effect =
    Presented screen nat
  | Refused screen nat
  | Undrawable screen nat
  | Commanded MenuGamepadCommand nat
  | Touched TouchReport nat
  | Launched launch nat

fun is_undrawable :: "effect \<Rightarrow> bool" where
  "is_undrawable (Undrawable s t) = True"
| "is_undrawable e = False"

record dashboard =
  d_ticks :: nat
  d_world :: world
  d_log :: "effect list"
  d_volume :: nat
  d_last_audible :: nat
  d_brightness :: nat
  d_keymap :: string
  d_framebuffer :: Framebuffer
  d_touch :: TouchDevice
  d_gamepads :: MenuGamepads
  d_keyboards :: MenuKeyboards
  d_player :: MenuSoundPlayer
  d_guard :: MenuControllerInputGuard
  d_screen :: screen
  d_layout :: MenuLayout
  d_wifi_layout :: WifiLayout
  d_wifi :: WifiState
  d_network :: NetworkStatus
  d_wifi_view :: bool
  d_settings_view :: bool
  d_credits_view :: bool
  d_credits_started_at :: int
  d_selection :: int
  d_position :: nat
  d_active :: string
  d_status :: string
  d_pressed :: int
  d_reconnect_attempt :: int
  d_network_at :: int
  d_armed_until :: int
  d_game :: int
  d_mode :: string
  d_reboot :: bool

definition undrawn :: "dashboard \<Rightarrow> bool" where
  "undrawn d = list_ex is_undrawable (d_log d)"

definition message_text :: "kernel \<Rightarrow> message \<Rightarrow> string" where
  "message_text ker m = (case m of Msg s \<Rightarrow> s | Errno_msg s e \<Rightarrow> s @ '': '' @ ker_strerror ker e)"

definition read_time :: "kernel \<Rightarrow> dashboard \<Rightarrow> int \<times> dashboard" where
  "read_time ker d = (ker_clock ker (d_ticks d), d\<lparr>d_ticks := d_ticks d + 1\<rparr>)"

subsection \<open>Small decisions\<close>

definition reboot_confirmation_active :: "int \<Rightarrow> int \<Rightarrow> bool" where
  "reboot_confirmation_active deadline now = (0 < deadline \<and> now < deadline)"

definition system_position :: "string list \<Rightarrow> string \<Rightarrow> nat" where
  "system_position syss active_system =
     (let position = length (takeWhile (\<lambda>s. s \<noteq> active_system) syss)
      in if position = length syss then 0 else position)"

definition adjacent_system :: "string list \<Rightarrow> string \<Rightarrow> int \<Rightarrow> string" where
  "adjacent_system syss active_system direction =
     (if syss = [] then active_system
      else
        (let position = system_position syss active_system
         in syss ! (if direction < 0 then (if position = 0 then length syss - 1 else position - 1)
                    else (position + 1) mod length syss)))"

definition volume_after_menu_target :: "int \<Rightarrow> nat \<Rightarrow> nat \<Rightarrow> nat" where
  "volume_after_menu_target target volume last_audible =
     (let restored = (if last_audible = 0 then kVolumeStep else min 100 last_audible)
      in if target = settings_code SettingsTargetVolumeUp
         then (if volume = 0 then restored else min 100 (volume + kVolumeStep))
         else if target = settings_code SettingsTargetVolumeDown
         then (if kVolumeStep < volume then volume - kVolumeStep else 0)
         else volume)"

definition brightness_after_settings_target :: "int \<Rightarrow> nat \<Rightarrow> nat" where
  "brightness_after_settings_target target brightness =
     (if target = settings_code SettingsTargetBrightnessUp then min 100 (brightness + kBrightnessStep)
      else if target = settings_code SettingsTargetBrightnessDown
      then (if kMinimumBrightness < brightness then max kMinimumBrightness (brightness - kBrightnessStep)
            else kMinimumBrightness)
      else brightness)"

subsection \<open>Showing\<close>

definition paint :: "kernel \<Rightarrow> config \<Rightarrow> screen \<Rightarrow> Canvas option" where
  "paint ker cfg s =
     (let pal = c_palette cfg
      in case s of
           Credits_screen elapsed \<Rightarrow>
             (if c_reduced_motion cfg
              then render_project_credits_reduced (c_crawl cfg) (color_pixel (pal kColorBackground))
                     (color_pixel (pal kColorTitle)) (color_pixel (pal kColorText)) (color_pixel (pal kColorMuted))
              else ker_moving_credits ker (c_crawl cfg) elapsed)
         | Wifi_screen wifi network \<Rightarrow> fst (render_wifi pal wifi network)
         | Settings_screen volume brightness keymap selected status network \<Rightarrow>
             fst (render_settings pal volume brightness keymap selected status network)
         | Menu_screen active position status \<Rightarrow>
             fst (render_menu pal (c_icon cfg) (c_games cfg) active position status))"

definition render_current_screen :: "kernel \<Rightarrow> config \<Rightarrow> dashboard \<Rightarrow> dashboard" where
  "render_current_screen ker cfg d =
     (if d_credits_view d
      then (let (now, d1) = read_time ker d in d1\<lparr>d_screen := Credits_screen (now - d_credits_started_at d1)\<rparr>)
      else if d_wifi_view d
      then d\<lparr>d_screen := Wifi_screen (d_wifi d) (d_network d),
             d_wifi_layout := snd (render_wifi (c_palette cfg) (d_wifi d) (d_network d))\<rparr>
      else if d_settings_view d
      then d\<lparr>d_screen := Settings_screen (d_volume d) (d_brightness d) (d_keymap d) (d_selection d) (d_status d) (d_network d)\<rparr>
      else d\<lparr>d_screen := Menu_screen (d_active d) (d_position d) (d_status d),
             d_layout := snd (render_menu (c_palette cfg) (c_icon cfg) (c_games cfg) (d_active d) (d_position d) (d_status d))\<rparr>)"

definition present :: "kernel \<Rightarrow> config \<Rightarrow> dashboard \<Rightarrow> bool \<times> dashboard" where
  "present ker cfg d =
     (let (outcome, shown, fb) =
            (case paint ker cfg (d_screen d) of
               None \<Rightarrow> (Undrawable, False, d_framebuffer d)
             | Some canvas \<Rightarrow>
                 (let (r, fb) = framebuffer_present (ker_presents ker (d_ticks d)) canvas (d_framebuffer d)
                  in if r = Inr () then (Presented, True, fb) else (Refused, False, fb)))
      in (shown, d\<lparr>d_ticks := d_ticks d + 1, d_log := d_log d @ [outcome (d_screen d) (d_ticks d)], d_framebuffer := fb\<rparr>))"

definition redraw :: "kernel \<Rightarrow> config \<Rightarrow> dashboard \<Rightarrow> dashboard" where
  "redraw ker cfg d = snd (present ker cfg (render_current_screen ker cfg d))"

definition play_menu_sound :: "kernel \<Rightarrow> MenuSoundCue \<Rightarrow> dashboard \<Rightarrow> bool \<times> dashboard" where
  "play_menu_sound ker cue d =
     (let (r, p) = play cue (d_volume d) (ker_reaped ker (d_ticks d)) (ker_clock ker (d_ticks d)) (ker_forked ker (d_ticks d)) (d_player d)
      in (r = Inr (), d\<lparr>d_ticks := d_ticks d + 1, d_player := p\<rparr>))"

definition sound :: "kernel \<Rightarrow> MenuSoundCue \<Rightarrow> dashboard \<Rightarrow> dashboard" where
  "sound ker cue d = (if d_volume d = 0 then d else snd (play_menu_sound ker cue d))"

section \<open>Actions\<close>

definition cancel_reboot_confirmation :: "dashboard \<Rightarrow> dashboard" where
  "cancel_reboot_confirmation d =
     d\<lparr>d_armed_until := 0, d_status := (if d_status d = kRebootConfirmationText then [] else d_status d)\<rparr>"

definition request_game :: "kernel \<Rightarrow> config \<Rightarrow> int \<Rightarrow> dashboard \<Rightarrow> dashboard" where
  "request_game ker cfg index d =
     (if index < 0 \<or> int (length (c_games cfg)) \<le> index then d
      else
        (let game = c_games cfg ! nat index
         in if terminal_mode_for_game game \<noteq> [] then d\<lparr>d_mode := terminal_mode_for_game game\<rparr>
            else if is_built_in_reboot game
            then (let (now, d1) = read_time ker d
                  in if reboot_confirmation_active (d_armed_until d1) now
                     then d1\<lparr>d_armed_until := 0, d_reboot := True, d_game := index\<rparr>
                     else redraw ker cfg (d1\<lparr>d_armed_until := now + kRebootConfirmMs, d_status := kRebootConfirmationText\<rparr>))
            else d\<lparr>d_game := index\<rparr>))"

definition apply_volume_target :: "kernel \<Rightarrow> config \<Rightarrow> int \<Rightarrow> dashboard \<Rightarrow> dashboard" where
  "apply_volume_target ker cfg target d =
     (let requested = volume_after_menu_target target (d_volume d) (d_last_audible d)
      in case save_volume_state (opt (c_options cfg) Volume_state) requested (d_world d) of
           (Inl e, w) \<Rightarrow> redraw ker cfg (d\<lparr>d_world := w, d_status := ''VOLUME STATE ERROR''\<rparr>)
         | (Inr _, w) \<Rightarrow>
             (let d1 = redraw ker cfg
                    (d\<lparr>d_world := w, d_volume := requested,
                       d_last_audible := (if requested \<noteq> 0 then requested else d_last_audible d),
                       d_status := (if requested = 0 then ''GAME VOLUME MUTED'' else ''GAME VOLUME '' @ decimal requested @ ''%'')\<rparr>)
              in if requested = 0 then d1\<lparr>d_player := stop (d_player d1)\<rparr>
                 else
                   (let (ok, d2) = play_menu_sound ker MenuSoundCueVolume d1
                    in if ok then d2
                       else redraw ker cfg (d2\<lparr>d_status := ''VOLUME SAVED; CONFIRMATION TONE FAILED''\<rparr>))))"

definition apply_brightness_target :: "kernel \<Rightarrow> config \<Rightarrow> int \<Rightarrow> dashboard \<Rightarrow> dashboard" where
  "apply_brightness_target ker cfg target d =
     (let requested = brightness_after_settings_target target (d_brightness d)
      in case set_brightness_percent (opt (c_options cfg) Brightness) (opt (c_options cfg) Brightness_state)
                (c_brightness_maximum cfg) requested (d_world d) of
           (Inl e, w) \<Rightarrow> redraw ker cfg (d\<lparr>d_world := w, d_status := ''BRIGHTNESS ERROR - CHECK LOG''\<rparr>)
         | (Inr _, w) \<Rightarrow>
             redraw ker cfg (d\<lparr>d_world := w, d_brightness := requested,
               d_status := ''BRIGHTNESS '' @ decimal requested @ ''%''\<rparr>))"

definition toggle_keymap :: "kernel \<Rightarrow> config \<Rightarrow> dashboard \<Rightarrow> dashboard" where
  "toggle_keymap ker cfg d =
     (let requested = (if d_keymap d = ''cz'' then ''us'' else ''cz'')
      in case save_keymap_state (opt (c_options cfg) Keymap_state) requested (d_world d) of
           (Inl e, w) \<Rightarrow> redraw ker cfg (d\<lparr>d_world := w, d_status := ''KEYMAP STATE ERROR''\<rparr>)
         | (Inr _, w) \<Rightarrow>
             redraw ker cfg (d\<lparr>d_world := w, d_keymap := requested,
               d_status := (if requested = ''cz'' then ''TERMINAL KEYS: CZECH'' else ''TERMINAL KEYS: US ANSI'')\<rparr>))"

definition activate_settings_target :: "kernel \<Rightarrow> config \<Rightarrow> int \<Rightarrow> dashboard \<Rightarrow> dashboard" where
  "activate_settings_target ker cfg target d0 =
     (let d = d0\<lparr>d_selection := target\<rparr>
      in if target = settings_code SettingsTargetClose
         then sound ker MenuSoundCueBack (redraw ker cfg (d\<lparr>d_settings_view := False, d_status := []\<rparr>))
         else if target = settings_code SettingsTargetVolumeDown \<or> target = settings_code SettingsTargetVolumeUp
         then apply_volume_target ker cfg target d
         else if target = settings_code SettingsTargetBrightnessDown \<or> target = settings_code SettingsTargetBrightnessUp
         then sound ker (if target = settings_code SettingsTargetBrightnessDown then MenuSoundCuePrevious else MenuSoundCueNext)
                (apply_brightness_target ker cfg target d)
         else if target = settings_code SettingsTargetTerminal
         then sound ker MenuSoundCueConfirm (d\<lparr>d_mode := ''shell''\<rparr>)
         else if target = settings_code SettingsTargetKeymap
         then sound ker MenuSoundCueConfirm (toggle_keymap ker cfg d)
         else if target = settings_code SettingsTargetWifi
         then sound ker MenuSoundCueConfirm
                (redraw ker cfg (d\<lparr>d_wifi_view := True, d_wifi := (d_wifi d)\<lparr>ws_status := []\<rparr>\<rparr>))
         else d)"

subsection \<open>Controllers and keyboards\<close>

definition close_view :: "dashboard \<Rightarrow> dashboard" where
  "close_view d =
     (if d_credits_view d then d\<lparr>d_credits_view := False, d_status := []\<rparr>
      else if d_wifi_view d then d\<lparr>d_wifi_view := False, d_status := ''WIFI EDITOR CLOSED''\<rparr>
      else if d_settings_view d then d\<lparr>d_settings_view := False, d_status := []\<rparr>
      else d)"

definition move_selection :: "bool \<Rightarrow> dashboard \<Rightarrow> dashboard" where
  "move_selection back d =
     (let first = settings_code SettingsTargetVolumeDown; final = settings_code SettingsTargetWifi
      in d\<lparr>d_selection :=
             (if back then (if d_selection d \<le> first then final else d_selection d - 1)
              else (if final \<le> d_selection d then first else d_selection d + 1))\<rparr>)"

definition move_game :: "bool \<Rightarrow> dashboard \<Rightarrow> dashboard" where
  "move_game back d =
     (let count = length (game_indices (d_layout d))
      in d\<lparr>d_position :=
             (if back then (if d_position d = 0 then count - 1 else d_position d - 1) else (d_position d + 1) mod count)\<rparr>)"

definition step_command :: "kernel \<Rightarrow> config \<Rightarrow> bool \<Rightarrow> dashboard \<Rightarrow> dashboard" where
  "step_command ker cfg back d0 =
     (let d = cancel_reboot_confirmation d0;
          moved = d_settings_view d \<or> game_indices (d_layout d) \<noteq> [];
          d1 = (if d_settings_view d then move_selection back d else if moved then move_game back d else d);
          d2 = redraw ker cfg (d1\<lparr>d_status := []\<rparr>)
      in if moved then sound ker (if back then MenuSoundCuePrevious else MenuSoundCueNext) d2 else d2)"

definition system_command :: "kernel \<Rightarrow> config \<Rightarrow> bool \<Rightarrow> dashboard \<Rightarrow> dashboard" where
  "system_command ker cfg back d0 =
     (let d = cancel_reboot_confirmation d0;
          d1 = d\<lparr>d_active := adjacent_system (systems (d_layout d)) (d_active d) (if back then - 1 else 1),
                 d_position := 0, d_status := []\<rparr>
      in sound ker (if back then MenuSoundCuePrevious else MenuSoundCueNext) (redraw ker cfg d1))"

definition settings_command :: "kernel \<Rightarrow> config \<Rightarrow> dashboard \<Rightarrow> dashboard" where
  "settings_command ker cfg d0 =
     (let d = cancel_reboot_confirmation d0;
          opens = (\<not> d_settings_view d);
          d1 = d\<lparr>d_settings_view := opens,
                 d_selection := (if opens then settings_code SettingsTargetVolumeDown else d_selection d), d_status := []\<rparr>
      in sound ker (if opens then MenuSoundCueConfirm else MenuSoundCueBack) (redraw ker cfg d1))"

definition confirm_command :: "kernel \<Rightarrow> config \<Rightarrow> dashboard \<Rightarrow> dashboard" where
  "confirm_command ker cfg d =
     (let shown = shown_game_index (d_layout d)
      in if d_settings_view d then activate_settings_target ker cfg (d_selection d) d
         else if shown < length (c_games cfg)
         then sound ker MenuSoundCueConfirm
                (request_game ker cfg (int shown)
                  (if is_built_in_reboot (c_games cfg ! shown) then d else cancel_reboot_confirmation d))
         else d)"

definition controller_step :: "kernel \<Rightarrow> config \<Rightarrow> MenuGamepadCommand \<Rightarrow> dashboard \<Rightarrow> dashboard" where
  "controller_step ker cfg command d0 =
     (let d = (if command \<noteq> MenuGamepadCommandNone
               then d0\<lparr>d_pressed := MenuTargetNone, d_log := d_log d0 @ [Commanded command (d_ticks d0)]\<rparr> else d0)
      in case command of
           MenuGamepadCommandNone \<Rightarrow> d
         | MenuGamepadCommandBack \<Rightarrow>
             sound ker MenuSoundCueBack (redraw ker cfg (close_view (cancel_reboot_confirmation d)))
         | MenuGamepadCommandSettings \<Rightarrow> settings_command ker cfg d
         | MenuGamepadCommandSystemPrevious \<Rightarrow> system_command ker cfg True d
         | MenuGamepadCommandSystemNext \<Rightarrow> system_command ker cfg False d
         | MenuGamepadCommandPrevious \<Rightarrow> step_command ker cfg True d
         | MenuGamepadCommandNext \<Rightarrow> step_command ker cfg False d
         | MenuGamepadCommandConfirm \<Rightarrow> confirm_command ker cfg d)"

subsection \<open>Touch\<close>

definition touched_target :: "dashboard \<Rightarrow> int \<Rightarrow> int \<Rightarrow> int" where
  "touched_target d x y =
     (if d_credits_view d then credits_target_at x y
      else if d_wifi_view d then wifi_target_at (d_wifi_layout d) x y
      else if d_settings_view d then settings_target_at settings_layout x y
      else target_at (d_layout d) x y)"

definition wifi_released :: "kernel \<Rightarrow> config \<Rightarrow> int \<Rightarrow> dashboard \<Rightarrow> dashboard" where
  "wifi_released ker cfg target d =
     snd (present ker cfg
       (if target = WifiTargetBack
        then sound ker MenuSoundCueBack
               (render_current_screen ker cfg (d\<lparr>d_wifi_view := False, d_status := ''WIFI EDITOR CLOSED''\<rparr>))
        else if target = WifiTargetSave
        then
          (let (r, request) = save_wifi_profile (ker_wifi ker (d_ticks d)) (ws_ssid (d_wifi d)) (ws_passphrase (d_wifi d));
               wifi = (case r of
                         Inr _ \<Rightarrow> (d_wifi d)\<lparr>ws_passphrase := [], ws_status := ''WIFI SAVED - USED AFTER CURRENT WIFI DISCONNECTS''\<rparr>
                       | Inl m \<Rightarrow> (d_wifi d)\<lparr>ws_status := message_text ker m\<rparr>)
           in sound ker MenuSoundCueConfirm
                (render_current_screen ker cfg (d\<lparr>d_ticks := d_ticks d + 1, d_wifi := wifi\<rparr>)))
        else
          (case apply_wifi_target target (d_wifi_layout d) (d_wifi d) of
             (True, wifi) \<Rightarrow> sound ker MenuSoundCueNext (render_current_screen ker cfg (d\<lparr>d_wifi := wifi\<rparr>))
           | (False, _) \<Rightarrow> d)))"

definition open_settings :: "kernel \<Rightarrow> config \<Rightarrow> dashboard \<Rightarrow> dashboard" where
  "open_settings ker cfg d =
     sound ker MenuSoundCueConfirm
       (redraw ker cfg (d\<lparr>d_settings_view := True, d_selection := settings_code SettingsTargetVolumeDown, d_status := []\<rparr>))"

definition open_credits :: "kernel \<Rightarrow> config \<Rightarrow> dashboard \<Rightarrow> dashboard" where
  "open_credits ker cfg d =
     (let (now, d1) = read_time ker d
      in sound ker MenuSoundCueConfirm
           (redraw ker cfg (d1\<lparr>d_credits_view := True, d_credits_started_at := now, d_status := []\<rparr>)))"

definition tab_released :: "kernel \<Rightarrow> config \<Rightarrow> int \<Rightarrow> dashboard \<Rightarrow> dashboard" where
  "tab_released ker cfg target d =
     (let requested = systems (d_layout d) ! nat (target - MenuTargetSystemBase);
          d1 = redraw ker cfg (d\<lparr>d_active := requested, d_position := 0, d_status := []\<rparr>)
      in if requested \<noteq> d_active d then sound ker MenuSoundCueNext d1 else d1)"

definition arrow_released :: "kernel \<Rightarrow> config \<Rightarrow> bool \<Rightarrow> dashboard \<Rightarrow> dashboard" where
  "arrow_released ker cfg back d =
     sound ker (if back then MenuSoundCuePrevious else MenuSoundCueNext)
       (redraw ker cfg ((move_game back d)\<lparr>d_status := []\<rparr>))"

definition menu_released :: "kernel \<Rightarrow> config \<Rightarrow> int \<Rightarrow> dashboard \<Rightarrow> dashboard" where
  "menu_released ker cfg target d =
     (if target = MenuTargetCredits then open_credits ker cfg d
      else if target = MenuTargetSettings then open_settings ker cfg d
      else if MenuTargetSystemBase \<le> target \<and> target - MenuTargetSystemBase < int (length (systems (d_layout d)))
      then tab_released ker cfg target d
      else if (target = MenuTargetGamePrevious \<or> target = MenuTargetGameNext) \<and> game_indices (d_layout d) \<noteq> []
      then arrow_released ker cfg (target = MenuTargetGamePrevious) d
      else if 0 \<le> target \<and> target < int (length (c_games cfg))
      then sound ker MenuSoundCueConfirm (request_game ker cfg target d)
      else d)"

definition release_step :: "kernel \<Rightarrow> config \<Rightarrow> int \<Rightarrow> dashboard \<Rightarrow> dashboard" where
  "release_step ker cfg released d0 =
     (let dashboard_view = (\<not> d_credits_view d0 \<and> \<not> d_wifi_view d0 \<and> \<not> d_settings_view d0);
          released_reboot = (dashboard_view \<and> 0 \<le> released \<and> released < int (length (c_games cfg)) \<and>
            is_built_in_reboot (c_games cfg ! nat released));
          d = (if 0 < d_armed_until d0 \<and> \<not> released_reboot then cancel_reboot_confirmation d0 else d0)
      in if d_credits_view d \<and> d_pressed d = CreditsTargetClose \<and> released = CreditsTargetClose
         then sound ker MenuSoundCueBack (redraw ker cfg (d\<lparr>d_credits_view := False, d_status := []\<rparr>))
         else if d_wifi_view d \<and> d_pressed d = released then wifi_released ker cfg released d
         else if d_settings_view d \<and> d_pressed d = released \<and> d_pressed d \<noteq> SettingsTargetNone
         then activate_settings_target ker cfg released d
         else if dashboard_view \<and> d_pressed d = released then menu_released ker cfg released d
         else d)"

definition report_step :: "kernel \<Rightarrow> config \<Rightarrow> TouchReport \<Rightarrow> dashboard \<Rightarrow> dashboard" where
  "report_step ker cfg r d0 =
     (let d = d0\<lparr>d_log := d_log d0 @ [Touched r (d_ticks d0)]\<rparr>;
          target = touched_target d (rep_x r) (rep_y r);
          d1 = (if rep_pressed r then d\<lparr>d_pressed := target\<rparr> else d)
      in if \<not> rep_released r then d1 else (release_step ker cfg target d1)\<lparr>d_pressed := MenuTargetNone\<rparr>)"

section \<open>One turn of the event loop\<close>

text \<open>\<open>Child_runs\<close>: a child was started and has not ended.  \<open>Undefined\<close>: a drawing was undefined.\<close>

datatype turn_result = Continue dashboard | Leave nat dashboard | Child_runs dashboard | Undefined

subsection \<open>Before and around \<open>poll\<close>\<close>

definition set_message :: "string \<Rightarrow> dashboard \<Rightarrow> dashboard" where
  "set_message s d = (if d_wifi_view d then d\<lparr>d_wifi := (d_wifi d)\<lparr>ws_status := s\<rparr>\<rparr> else d\<lparr>d_status := s\<rparr>)"

definition reconnect_turn :: "kernel \<Rightarrow> config \<Rightarrow> dashboard \<Rightarrow> dashboard" where
  "reconnect_turn ker cfg d =
     (if uses_wayland (d_framebuffer d) \<or> 0 \<le> tc_fd (d_touch d) then d
      else
        (let directory = ker_directory ker (d_ticks d);
             (now, d1) = read_time ker d;
             (ok, attempt, touch, closed) = reconnect_touch directory now (d_reconnect_attempt d1) (d_touch d1);
             d2 = d1\<lparr>d_reconnect_attempt := attempt, d_touch := touch\<rparr>
         in if ok then redraw ker cfg (set_message ''TOUCHSCREEN RECONNECTED'' d2) else d2))"

definition scan_gamepads :: "kernel \<Rightarrow> bool \<Rightarrow> dashboard \<Rightarrow> dashboard" where
  "scan_gamepads ker force d =
     (let t = d_ticks d;
          (ok, m, closed) = gamepads_scan_if_due force (ker_clock ker t) (ker_directory ker t) (ker_resync ker t) (d_gamepads d)
      in d\<lparr>d_ticks := t + 1, d_gamepads := m\<rparr>)"

definition scan_keyboards :: "kernel \<Rightarrow> bool \<Rightarrow> dashboard \<Rightarrow> dashboard" where
  "scan_keyboards ker force d =
     (let t = d_ticks d;
          (ok, m, closed) = keyboards_scan_if_due force (ker_clock ker t) (ker_directory ker t) (ker_grab ker t)
            (ker_resync ker t) (d_keyboards d)
      in d\<lparr>d_ticks := t + 1, d_keyboards := m\<rparr>)"

definition begin_turn :: "kernel \<Rightarrow> config \<Rightarrow> dashboard \<Rightarrow> dashboard" where
  "begin_turn ker cfg d =
     (let (now, d1) = read_time ker (d\<lparr>d_player := reap_finished (ker_reaped ker (d_ticks d)) (d_player d)\<rparr>);
          d2 = d1\<lparr>d_guard := snd (recover_if_quiet now (d_guard d1))\<rparr>
      in scan_keyboards ker False (scan_gamepads ker False (reconnect_turn ker cfg d2)))"

definition expire_reboot :: "kernel \<Rightarrow> config \<Rightarrow> dashboard \<Rightarrow> dashboard" where
  "expire_reboot ker cfg d =
     (if d_armed_until d \<le> 0 then d
      else
        (let (now, d1) = read_time ker d
         in if reboot_confirmation_active (d_armed_until d1) now then d1
            else
              (let d2 = d1\<lparr>d_armed_until := 0\<rparr>
               in if d_status d2 = kRebootConfirmationText then redraw ker cfg (d2\<lparr>d_status := []\<rparr>) else d2)))"

definition refresh_network :: "kernel \<Rightarrow> config \<Rightarrow> dashboard \<Rightarrow> dashboard" where
  "refresh_network ker cfg d0 =
     (let (now, d) = read_time ker d0
      in if (d_wifi_view d \<or> d_settings_view d) \<and> 2000 \<le> now - d_network_at d
         then
           (let (refreshed, w) = read_network_status (ker_network ker (d_ticks d)) (opt (c_options cfg) Wifi_status) (d_world d);
                d1 = d\<lparr>d_ticks := d_ticks d + 1, d_world := w, d_network_at := now\<rparr>
            in if refreshed \<noteq> d_network d then redraw ker cfg (d1\<lparr>d_network := refreshed\<rparr>) else d1)
         else d)"

definition animate_credits :: "kernel \<Rightarrow> config \<Rightarrow> dashboard \<Rightarrow> dashboard" where
  "animate_credits ker cfg d = (if d_credits_view d \<and> \<not> c_reduced_motion cfg then redraw ker cfg d else d)"

definition after_poll :: "kernel \<Rightarrow> config \<Rightarrow> dashboard \<Rightarrow> dashboard" where
  "after_poll ker cfg d = animate_credits ker cfg (refresh_network ker cfg (expire_reboot ker cfg d))"

subsection \<open>Input\<close>

definition read_touch :: "kernel \<Rightarrow> config \<Rightarrow> poll_events \<Rightarrow> dashboard \<Rightarrow> TouchReport list \<times> dashboard" where
  "read_touch ker cfg e d =
     (if \<not> pe_touch_ready e then ([], d)
      else
        (let (ok, reports, touch) =
               (if uses_wayland (d_framebuffer d) then (fst (pe_widget e), snd (pe_widget e), d_touch d)
                else case read_reports (pe_touch_script e) (d_touch d) of (r, t, reports) \<Rightarrow> (r = Inr (), reports, t));
             d1 = d\<lparr>d_touch := touch\<rparr>
         in if ok then (reports, d1)
            else
              (let d2 = (if uses_wayland (d_framebuffer d1) then d1 else d1\<lparr>d_touch := fst (touch_close_device touch)\<rparr>)
               in (reports, redraw ker cfg (set_message ''WAITING FOR TOUCHSCREEN'' (d2\<lparr>d_pressed := MenuTargetNone\<rparr>))))))"

text \<open>The guard against floods and the quarantine while a menu sound plays.\<close>

definition admit_input ::
  "kernel \<Rightarrow> u32 \<Rightarrow> u32 \<Rightarrow> TouchReport list \<Rightarrow> dashboard \<Rightarrow> u32 \<times> u32 \<times> TouchReport list \<times> dashboard" where
  "admit_input ker controller keyboard reports d0 =
     (let (input_time, d) = read_time ker d0;
          (accepted, guard) = (if controller \<noteq> 0 then accept_edge input_time (d_guard d) else (True, d_guard d));
          active = quarantines_input input_time (d_player d);
          d1 = d\<lparr>d_guard := guard\<rparr>
      in (if \<not> accepted \<or> menu_sound_blocks_input active MenuInputController then 0 else controller,
          if menu_sound_blocks_input active MenuInputKeyboard then 0 else keyboard,
          if menu_sound_blocks_input active MenuInputTouch then [] else reports,
          if menu_sound_blocks_input active MenuInputTouch then d1\<lparr>d_pressed := MenuTargetNone\<rparr> else d1))"

definition act :: "kernel \<Rightarrow> config \<Rightarrow> u32 \<Rightarrow> TouchReport list \<Rightarrow> dashboard \<Rightarrow> dashboard" where
  "act ker cfg pressed reports d0 =
     (let d = d0\<lparr>d_game := - 1, d_mode := [], d_reboot := False\<rparr>;
          command = menu_gamepad_command pressed (d_wifi_view d \<or> d_credits_view d) (d_settings_view d)
      in foldl (\<lambda>d r. report_step ker cfg r d) (controller_step ker cfg command d)
           (if command \<noteq> MenuGamepadCommandNone then [] else reports))"

subsection \<open>Launching\<close>

definition child_status :: "string \<Rightarrow> bool \<Rightarrow> string \<Rightarrow> ChildResult \<Rightarrow> string" where
  "child_status mode reboot game_title result =
     (let name = (if mode \<noteq> [] then terminal_program_title mode else game_title);
          plain = (mode \<noteq> [] \<or> \<not> reboot);
          subject = (if mode \<noteq> [] then name else if reboot then ''REBOOT'' else ''GAME'')
      in if cr_error result \<noteq> None then subject @ '' ERROR - CHECK LOG''
         else if \<not> cr_started result then subject @ '' DID NOT START''
         else if cr_exited_for_touch result then (if plain then ''RETURNED FROM '' @ name else ''REBOOT CANCELLED'')
         else
           (case cr_status result of
              Exited n \<Rightarrow>
                if n = 0 then (if plain then name @ '' EXITED'' else ''REBOOT COMMAND EXITED'')
                else if plain then name @ '' EXITED (STATUS '' @ decimal n @ '')''
                else ''REBOOT FAILED (STATUS '' @ decimal n @ '')''
            | Signaled n \<Rightarrow> (if plain then name else ''REBOOT'') @ '' STOPPED (SIGNAL '' @ decimal n @ '')''
            | Other_status n \<Rightarrow> (if plain then name else ''REBOOT'') @ '' STOPPED''))"

definition chosen_launch :: "config \<Rightarrow> dashboard \<Rightarrow> launch" where
  "chosen_launch cfg d =
     (let game = c_games cfg ! nat (d_game d)
      in if d_mode d \<noteq> [] then Launch_terminal (d_mode d)
         else if d_reboot d then Launch_reboot (rom game)
         else Launch_game (emulator_for_game (c_options cfg) game) game (d_volume d))"

definition start_child :: "kernel \<Rightarrow> config \<Rightarrow> launch \<Rightarrow> dashboard \<Rightarrow> (child_run \<times> world) option" where
  "start_child ker cfg l d =
     (let a = ker_launch ker (d_ticks d); t = d_ticks d + 1
      in case l of
           Launch_terminal mode \<Rightarrow>
             (case run_terminal (ker_clock ker) t a (opt (c_options cfg) Terminal_launcher) (d_keymap d) mode
                     (d_touch d) (d_framebuffer d) of
                None \<Rightarrow> None | Some r \<Rightarrow> Some (r, d_world d))
         | Launch_reboot path \<Rightarrow>
             (case run_reboot (ker_clock ker) t a path (d_touch d) (d_framebuffer d) of
                None \<Rightarrow> None | Some r \<Rightarrow> Some (r, d_world d))
         | Launch_game emulator game volume \<Rightarrow>
             run_game (ker_clock ker) t a emulator game volume (d_touch d) (d_framebuffer d)
               (opt (c_options cfg) Volume_state) (d_world d))"

definition reload_volume :: "config \<Rightarrow> dashboard \<Rightarrow> dashboard" where
  "reload_volume cfg d =
     (case load_volume_state (opt (c_options cfg) Volume_state) (c_default_volume cfg) (d_world d) of
        (Inl e, w) \<Rightarrow> d\<lparr>d_world := w\<rparr>
      | (Inr v, w) \<Rightarrow> d\<lparr>d_world := w, d_volume := v,
                         d_last_audible := (if v \<noteq> d_volume d \<and> v \<noteq> 0 then v else d_last_audible d)\<rparr>)"

definition before_launch :: "kernel \<Rightarrow> config \<Rightarrow> dashboard \<Rightarrow> dashboard" where
  "before_launch ker cfg d0 =
     (let starting = (if d_mode d0 \<noteq> [] then ''STARTING '' @ terminal_program_title (d_mode d0)
                      else if d_reboot d0 then ''REBOOTING''
                      else ''STARTING '' @ title (c_games cfg ! nat (d_game d0)));
          d = redraw ker cfg (d0\<lparr>d_status := starting\<rparr>)
      in d\<lparr>d_player := finish (d_player d), d_gamepads := fst (gamepads_close_for_child (d_gamepads d)),
           d_keyboards := fst (keyboards_close_for_child (d_keyboards d)),
           d_log := d_log d @ [Launched (chosen_launch cfg d) (d_ticks d)]\<rparr>)"

definition after_child :: "kernel \<Rightarrow> config \<Rightarrow> child_run \<Rightarrow> world \<Rightarrow> dashboard \<Rightarrow> turn_result" where
  "after_child ker cfg r w d0 =
     (let d = d0\<lparr>d_ticks := run_ticks r, d_world := w, d_framebuffer := run_framebuffer r,
                 d_touch := (case run_touch r of Some t \<Rightarrow> t | None \<Rightarrow> d_touch d0), d_pressed := MenuTargetNone\<rparr>
      in if ker_shutdown ker (d_ticks d)
         then Leave 0 (d\<lparr>d_framebuffer := framebuffer_close_device (d_framebuffer d)\<rparr>)
         else
           (let d1 = scan_keyboards ker True (scan_gamepads ker True d);
                (widget_open, widget_opens, k, panel) = ker_panel ker (d_ticks d1)
            in case framebuffer_open_device widget_open widget_opens k panel (d_framebuffer d1) of
                 (Inl e, fb) \<Rightarrow> Leave 1 (d1\<lparr>d_framebuffer := fb\<rparr>)
               | (Inr _, fb) \<Rightarrow>
                   (let d2 = reload_volume cfg (d1\<lparr>d_ticks := d_ticks d1 + 1, d_framebuffer := fb\<rparr>);
                        d3 = d2\<lparr>d_status := child_status (d_mode d2) (d_reboot d2) (title (c_games cfg ! nat (d_game d2))) (run_result r)\<rparr>
                    in case present ker cfg (render_current_screen ker cfg d3) of
                         (True, d4) \<Rightarrow> Continue d4 | (False, d4) \<Rightarrow> Leave 1 d4)))"

definition launch_step :: "kernel \<Rightarrow> config \<Rightarrow> dashboard \<Rightarrow> turn_result" where
  "launch_step ker cfg d =
     (if d_game d < 0 \<and> d_mode d = [] \<and> \<not> d_reboot d then Continue d
      else
        (let d1 = before_launch ker cfg d
         in if undrawn d1 then Undefined
            else (case start_child ker cfg (chosen_launch cfg d1) d1 of
                    None \<Rightarrow> Child_runs d1
                  | Some (r, w) \<Rightarrow> after_child ker cfg r w d1)))"

definition handle_events :: "kernel \<Rightarrow> config \<Rightarrow> poll_events \<Rightarrow> dashboard \<Rightarrow> turn_result" where
  "handle_events ker cfg e d =
     (let (controller, pads, _) = gamepads_read_ready (pe_gamepads e) (d_gamepads d);
          (keyboard, keys, _) = keyboards_read_ready (pe_keyboards e) (d_keyboards d);
          d1 = d\<lparr>d_gamepads := pads, d_keyboards := keys\<rparr>
      in if \<not> pe_touch_ready e \<and> controller = 0 \<and> keyboard = 0 then Continue d1
         else
           (let (reports, d2) = read_touch ker cfg e d1;
                (controller1, keyboard1, reports1, d3) = admit_input ker controller keyboard reports d2
            in launch_step ker cfg (act ker cfg (controller1 OR keyboard1) reports1 d3)))"

definition turn :: "kernel \<Rightarrow> config \<Rightarrow> dashboard \<Rightarrow> turn_result" where
  "turn ker cfg d0 =
     (if ker_shutdown ker (d_ticks d0)
      then Leave 0 (d0\<lparr>d_framebuffer := framebuffer_close_device (d_framebuffer d0)\<rparr>)
      else
        (let d = begin_turn ker cfg d0; d1 = d\<lparr>d_ticks := d_ticks d + 1\<rparr>
         in case ker_poll ker (d_ticks d) of
              Poll_interrupted \<Rightarrow> Continue d1
            | Poll_failed \<Rightarrow> Leave 1 d1
            | Poll_timeout \<Rightarrow> Continue (after_poll ker cfg d1)
            | Poll_events e \<Rightarrow> handle_events ker cfg e (after_poll ker cfg d1)))"

section \<open>Starting, and the whole program\<close>

text \<open>What the environment and the libraries answer while the dashboard starts.\<close>

record start_answers =
  sa_volume :: "string option"
  sa_reduced_motion :: bool
  sa_icon_stream :: bool
  sa_icon_png :: png_answers
  sa_cover_png :: "string \<Rightarrow> png_answers"

definition start_executables :: "Options \<Rightarrow> (string \<times> string) list" where
  "start_executables options =
     [(opt options Nes_emulator, ''NES emulator''), (opt options Gb_emulator, ''GB/GBC emulator''),
      (opt options Zx_emulator, ''ZX Spectrum emulator''), (opt options Chip8_emulator, ''CHIP-8 emulator''),
      (opt options Deck_game, ''Deck game''), (opt options Chiptune_player, ''chiptune player''),
      (opt options Terminal_launcher, ''terminal launcher''), (kRebootExecutable, ''reboot command''),
      (opt options Wifi_helper, ''wifi helper'')]"

fun validate_executables :: "(string \<Rightarrow> bool) \<Rightarrow> (string \<times> string) list \<Rightarrow> world \<Rightarrow> (message + unit) \<times> world" where
  "validate_executables executable [] w = (Inr (), w)"
| "validate_executables executable ((path, what) # xs) w =
     (case validate_executable executable path what w of
        (Inl e, w1) \<Rightarrow> (Inl e, w1)
      | (Inr _, w1) \<Rightarrow> validate_executables executable xs w1)"

definition built_in_entries :: "Options \<Rightarrow> GameEntry list" where
  "built_in_entries options =
     (let terminal = opt options Terminal_launcher
      in [built_in_lua_entry terminal, built_in_lisp_entry terminal, built_in_python_entry terminal,
          built_in_scheme_entry terminal, built_in_chiptune_entry (opt options Chiptune_directory),
          built_in_terminal_entry terminal, built_in_reboot_entry kRebootExecutable])"

text \<open>Palette, credits and icon; each has a fallback, so only a relative icon path stops the program.\<close>

definition load_appearance ::
  "start_answers \<Rightarrow> Options \<Rightarrow> world \<Rightarrow> (palette \<times> CreditsCrawl \<times> SettingsIconImage \<times> world) option" where
  "load_appearance sa options w =
     (let base = reset_dashboard_palette (\<lambda>_. rgb 0 0 0);
          (loaded, pal, w1) = load_dashboard_palette (opt options Palette_file) base w;
          palette = (case loaded of Inl _ \<Rightarrow> base | Inr _ \<Rightarrow> pal);
          (credits, w2) = load_project_credits (opt options Credits_file) w1;
          crawl = make_project_credits_crawl (case credits of Inl _ \<Rightarrow> [] | Inr cs \<Rightarrow> cs)
      in if \<not> is_absolute_path (opt options Settings_icon) then None
         else
           (let (r, icon, w3) = load_settings_icon (opt options Settings_icon) (sa_icon_stream sa) (sa_icon_png sa) w2
            in Some (palette, crawl, (case r of Inl _ \<Rightarrow> cleared_icon | Inr _ \<Rightarrow> icon), w3)))"

definition load_catalogue :: "start_answers \<Rightarrow> Options \<Rightarrow> world \<Rightarrow> (GameEntry list \<times> world) option" where
  "load_catalogue sa options w =
     (case load_manifest (opt options Manifest) w of
        (Inl e, w1) \<Rightarrow> None
      | (Inr games, w1) \<Rightarrow>
          if \<not> is_absolute_path (opt options Chiptune_directory) \<or> \<not> is_absolute_path (opt options Cover_directory) then None
          else (case load_game_covers (opt options Cover_directory) (sa_cover_png sa) (games @ built_in_entries options) w1 of
                  (n, all_games, w2) \<Rightarrow> Some (all_games, w2)))"

text \<open>Volume, the last audible volume, brightness with its maximum, keymap.\<close>

definition load_settings :: "Options \<Rightarrow> nat \<Rightarrow> world \<Rightarrow> (nat \<times> nat \<times> nat \<times> nat \<times> string \<times> world) option" where
  "load_settings options default_volume w =
     (case load_volume_state (opt options Volume_state) default_volume w of
        (Inl e, w1) \<Rightarrow> None
      | (Inr volume, w1) \<Rightarrow>
          (let audible = (if volume \<noteq> 0 then volume else if default_volume \<noteq> 0 then default_volume else kVolumeStep)
           in case load_brightness (opt options Brightness) (opt options Brightness_max) (opt options Brightness_state) w1 of
                (Inl e, w2) \<Rightarrow> None
              | (Inr (maximum, brightness), w2) \<Rightarrow>
                  (case load_keymap_state (opt options Keymap_state) w2 of
                     (Inl e, w3) \<Rightarrow> None
                   | (Inr keymap, w3) \<Rightarrow> Some (volume, audible, maximum, brightness, keymap, w3))))"

definition load_configuration ::
  "kernel \<Rightarrow> start_answers \<Rightarrow> Options \<Rightarrow> world \<Rightarrow> (config \<times> (nat \<times> nat \<times> nat \<times> string) \<times> world) option" where
  "load_configuration ker sa options w =
     (case load_appearance sa options w of
        None \<Rightarrow> None
      | Some (palette, crawl, icon, w1) \<Rightarrow>
          (case validate_executables (ker_executable ker) (start_executables options) w1 of
             (Inl e, w2) \<Rightarrow> None
           | (Inr _, w2) \<Rightarrow>
               (case inherited_volume (sa_volume sa) of
                  Inl e \<Rightarrow> None
                | Inr default_volume \<Rightarrow>
                    (case load_catalogue sa options w2 of
                       None \<Rightarrow> None
                     | Some (games, w3) \<Rightarrow>
                         (case load_settings options default_volume w3 of
                            None \<Rightarrow> None
                          | Some (volume, audible, maximum, brightness, keymap, w4) \<Rightarrow>
                              Some (\<lparr>c_options = options, c_games = games, c_palette = palette, c_icon = icon, c_crawl = crawl,
                                     c_reduced_motion = sa_reduced_motion sa, c_brightness_maximum = maximum,
                                     c_default_volume = default_volume\<rparr>, (volume, audible, brightness, keymap), w4))))))"

text \<open>The local variables of \<open>application_main\<close> before the first rendering.\<close>

definition fresh_dashboard ::
  "config \<Rightarrow> nat \<times> nat \<times> nat \<times> string \<Rightarrow> Framebuffer \<Rightarrow> TouchDevice \<Rightarrow> world \<Rightarrow> dashboard" where
  "fresh_dashboard cfg settings fb touch w =
     (let (volume, audible, brightness, keymap) = settings; active = initial_system (c_games cfg)
      in \<lparr>d_ticks = 1, d_world = w, d_log = [], d_volume = volume, d_last_audible = audible, d_brightness = brightness,
          d_keymap = keymap, d_framebuffer = fb, d_touch = touch, d_gamepads = created_gamepads,
          d_keyboards = created_keyboards, d_player = created_player, d_guard = created_guard,
          d_screen = Menu_screen active 0 [], d_layout = menu_layout (c_games cfg) active 0,
          d_wifi_layout = wifi_layout created_wifi, d_wifi = created_wifi,
          d_network = \<lparr>ns_ssid = [], wlan_ipv4 = [], wireguard_ipv4 = [], selector = []\<rparr>,
          d_wifi_view = False, d_settings_view = False, d_credits_view = False, d_credits_started_at = 0,
          d_selection = settings_code SettingsTargetVolumeDown, d_position = 0, d_active = active, d_status = [],
          d_pressed = MenuTargetNone, d_reconnect_attempt = 0, d_network_at = 0, d_armed_until = 0,
          d_game = - 1, d_mode = [], d_reboot = False\<rparr>)"

text \<open>A failed presentation ends the start; an undefined drawing is left to the caller.\<close>

definition first_screen :: "kernel \<Rightarrow> config \<Rightarrow> dashboard \<Rightarrow> dashboard option" where
  "first_screen ker cfg d0 =
     (let d1 = scan_keyboards ker True (scan_gamepads ker True d0);
          (network, w) = read_network_status (ker_network ker (d_ticks d1)) (opt (c_options cfg) Wifi_status) (d_world d1);
          d2 = d1\<lparr>d_ticks := d_ticks d1 + 1, d_world := w, d_network := network\<rparr>;
          (shown, d3) = present ker cfg (render_current_screen ker cfg d2)
      in if \<not> shown \<and> \<not> undrawn d3 then None
         else (let (now, d4) = read_time ker d3 in Some (d4\<lparr>d_network_at := now\<rparr>)))"

definition application_start :: "kernel \<Rightarrow> start_answers \<Rightarrow> Options \<Rightarrow> world \<Rightarrow> (config \<times> dashboard) option" where
  "application_start ker sa options w =
     (case load_configuration ker sa options w of
        None \<Rightarrow> None
      | Some (cfg, settings, w1) \<Rightarrow>
          (let (widget_open, widget_opens, k, panel) = ker_panel ker 0
           in case framebuffer_open_device widget_open widget_opens k panel created_framebuffer of
                (Inl e, fb) \<Rightarrow> None
              | (Inr _, fb) \<Rightarrow>
                  (let (found, touch, closed) =
                         (if uses_wayland fb then (Inr (), created_touch, []) else touch_discover (ker_directory ker 0) created_touch)
                   in if found \<noteq> Inr () then None
                      else map_option (Pair cfg) (first_screen ker cfg (fresh_dashboard cfg settings fb touch w1)))))"

text \<open>\<open>n\<close> turns of the loop, fewer when it is left; none after an undefined drawing.\<close>

definition defined_result :: "turn_result \<Rightarrow> turn_result" where
  "defined_result r =
     (case r of
        Continue d \<Rightarrow> if undrawn d then Undefined else r
      | Leave code d \<Rightarrow> if undrawn d then Undefined else r
      | Child_runs d \<Rightarrow> r
      | Undefined \<Rightarrow> Undefined)"

fun run_dashboard :: "kernel \<Rightarrow> config \<Rightarrow> nat \<Rightarrow> dashboard \<Rightarrow> turn_result" where
  "run_dashboard ker cfg 0 d = defined_result (Continue d)"
| "run_dashboard ker cfg (Suc n) d =
     (if undrawn d then Undefined
      else
        (case turn ker cfg d of
           Continue d1 \<Rightarrow> run_dashboard ker cfg n d1
         | r \<Rightarrow> defined_result r))"

datatype main_result = Exit nat | Runs config dashboard | No_behaviour

definition deck_menu_main :: "kernel \<Rightarrow> start_answers \<Rightarrow> string list \<Rightarrow> world \<Rightarrow> main_result" where
  "deck_menu_main ker sa arguments w =
     (case parse_options arguments of
        Inl e \<Rightarrow> Exit 2
      | Inr options \<Rightarrow>
          if opt_help options then Exit 0
          else if opt_geometry_test options then Exit geometry_test
          else if opt options Validate_manifest \<noteq> []
          then (case load_manifest (opt options Validate_manifest) w of (Inl e, _) \<Rightarrow> Exit 1 | (Inr games, _) \<Rightarrow> Exit 0)
          else if opt options Validate_palette \<noteq> []
          then (case load_dashboard_palette (opt options Validate_palette) (reset_dashboard_palette (\<lambda>_. rgb 0 0 0)) w of
                  (Inl e, _) \<Rightarrow> Exit 1 | (Inr _, _) \<Rightarrow> Exit 0)
          else (case application_start ker sa options w of
                  None \<Rightarrow> Exit 1 | Some (cfg, d) \<Rightarrow> if undrawn d then No_behaviour else Runs cfg d))"

end
