(* ===== verification/Dashboard_Safety.thy ===== *)
theory Dashboard_Safety
  imports Dashboard
begin

section \<open>What the dashboard can and cannot do\<close>

text \<open>
  Invariants of the event loop of \<open>Dashboard\<close>, for every behaviour of the kernel, the clock,
  the devices and the children, from the start of the program through any number of turns.
\<close>

subsection \<open>What showing and sounding change\<close>

definition menu_view :: "dashboard \<Rightarrow> bool" where
  "menu_view d = (\<not> d_credits_view d \<and> \<not> d_wifi_view d \<and> \<not> d_settings_view d)"

definition state_screen :: "kernel \<Rightarrow> dashboard \<Rightarrow> screen" where
  "state_screen ker d =
     (if d_credits_view d then Credits_screen (ker_clock ker (d_ticks d) - d_credits_started_at d)
      else if d_wifi_view d then Wifi_screen (d_wifi d) (d_network d)
      else if d_settings_view d
      then Settings_screen (d_volume d) (d_brightness d) (d_keymap d) (d_selection d) (d_status d) (d_network d)
      else Menu_screen (d_active d) (d_position d) (d_status d))"

definition drawn_ticks :: "dashboard \<Rightarrow> nat" where
  "drawn_ticks d = (if d_credits_view d then d_ticks d + 1 else d_ticks d)"

definition drawn_layout :: "config \<Rightarrow> dashboard \<Rightarrow> MenuLayout" where
  "drawn_layout cfg d = (if menu_view d then menu_layout (c_games cfg) (d_active d) (d_position d) else d_layout d)"

definition drawn_wifi_layout :: "dashboard \<Rightarrow> WifiLayout" where
  "drawn_wifi_layout d = (if \<not> d_credits_view d \<and> d_wifi_view d then wifi_layout (d_wifi d) else d_wifi_layout d)"

lemma render_shape:
  "render_current_screen ker cfg d =
     d\<lparr>d_ticks := drawn_ticks d, d_screen := state_screen ker d, d_layout := drawn_layout cfg d,
       d_wifi_layout := drawn_wifi_layout d\<rparr>"
  by (simp add: render_current_screen_def drawn_ticks_def state_screen_def drawn_layout_def drawn_wifi_layout_def
      read_time_def render_wifi_def render_menu_def menu_view_def)

definition presented_framebuffer :: "kernel \<Rightarrow> config \<Rightarrow> dashboard \<Rightarrow> Framebuffer" where
  "presented_framebuffer ker cfg d = d_framebuffer (snd (present ker cfg d))"

text \<open>The screen an effect shows, or would show, and when.\<close>

fun shown_as :: "effect \<Rightarrow> (screen \<times> nat) option" where
  "shown_as (Presented s t) = Some (s, t)"
| "shown_as (Refused s t) = Some (s, t)"
| "shown_as (Undrawable s t) = Some (s, t)"
| "shown_as e = None"

definition presentation :: "kernel \<Rightarrow> config \<Rightarrow> dashboard \<Rightarrow> effect" where
  "presentation ker cfg d = last (d_log (snd (present ker cfg d)))"

lemma shown_presentation [simp]: "shown_as (presentation ker cfg d) = Some (d_screen d, d_ticks d)"
  by (simp add: presentation_def present_def case_prod_beta Let_def split: option.split)

lemma present_shape:
  "snd (present ker cfg d) =
     d\<lparr>d_ticks := d_ticks d + 1, d_log := d_log d @ [presentation ker cfg d],
       d_framebuffer := presented_framebuffer ker cfg d\<rparr>"
  by (simp add: presented_framebuffer_def presentation_def present_def case_prod_beta Let_def split: option.split)

text \<open>\<open>Presented\<close> is recorded for a drawing that is defined and that the framebuffer took.\<close>

lemma presentation_outcome:
  "presentation ker cfg d =
     (case paint ker cfg (d_screen d) of
        None \<Rightarrow> Undrawable (d_screen d) (d_ticks d)
      | Some canvas \<Rightarrow>
          if fst (framebuffer_present (ker_presents ker (d_ticks d)) canvas (d_framebuffer d)) = Inr ()
          then Presented (d_screen d) (d_ticks d) else Refused (d_screen d) (d_ticks d))"
  by (simp add: presentation_def present_def case_prod_beta Let_def split: option.split)

definition redrawn_framebuffer :: "kernel \<Rightarrow> config \<Rightarrow> dashboard \<Rightarrow> Framebuffer" where
  "redrawn_framebuffer ker cfg d = presented_framebuffer ker cfg (render_current_screen ker cfg d)"

definition redrawn :: "kernel \<Rightarrow> config \<Rightarrow> dashboard \<Rightarrow> effect" where
  "redrawn ker cfg d = presentation ker cfg (render_current_screen ker cfg d)"

lemma shown_redrawn [simp]: "shown_as (redrawn ker cfg d) = Some (state_screen ker d, drawn_ticks d)"
  by (simp add: redrawn_def render_shape)

lemma redraw_shape:
  "redraw ker cfg d =
     d\<lparr>d_ticks := drawn_ticks d + 1, d_log := d_log d @ [redrawn ker cfg d],
       d_framebuffer := redrawn_framebuffer ker cfg d, d_screen := state_screen ker d, d_layout := drawn_layout cfg d,
       d_wifi_layout := drawn_wifi_layout d\<rparr>"
  by (simp add: redraw_def redrawn_framebuffer_def redrawn_def present_shape) (simp add: render_shape)

definition sounding_player :: "kernel \<Rightarrow> MenuSoundCue \<Rightarrow> dashboard \<Rightarrow> MenuSoundPlayer" where
  "sounding_player ker cue d = d_player (sound ker cue d)"

lemma sound_shape:
  "sound ker cue d =
     d\<lparr>d_ticks := (if d_volume d = 0 then d_ticks d else d_ticks d + 1), d_player := sounding_player ker cue d\<rparr>"
  by (simp add: sounding_player_def sound_def play_menu_sound_def split: prod.split)

lemma play_shape:
  "snd (play_menu_sound ker cue d) =
     d\<lparr>d_ticks := d_ticks d + 1, d_player := d_player (snd (play_menu_sound ker cue d))\<rparr>"
  by (simp add: play_menu_sound_def split: prod.split)

lemmas shapes = redraw_shape sound_shape

subsection \<open>A consistent state\<close>

definition settings_ok :: "nat \<times> nat \<times> nat \<times> string \<Rightarrow> bool" where
  "settings_ok s =
     (case s of (volume, audible, brightness, keymap) \<Rightarrow>
        volume \<le> 100 \<and> 0 < audible \<and> audible \<le> 100 \<and> brightness_step brightness \<and> valid_keymap keymap)"

text \<open>Everything but that the menu's layout is the one of the state.\<close>

definition dash_base :: "config \<Rightarrow> dashboard \<Rightarrow> bool" where
  "dash_base cfg d \<longleftrightarrow>
     settings_ok (d_volume d, d_last_audible d, d_brightness d, d_keymap d) \<and>
     wifi_ok (d_wifi d) \<and> (\<exists>drawn. d_wifi_layout d = wifi_layout drawn) \<and>
     (d_wifi_view d \<longrightarrow> d_settings_view d) \<and> (d_credits_view d \<longrightarrow> \<not> d_settings_view d) \<and>
     0 \<le> d_selection d \<and> d_selection d \<le> 7 \<and>
     d_active d \<in> set (listed_systems (c_games cfg)) \<and>
     d_position d < length (games_of_system (c_games cfg) (d_active d)) \<and>
     (0 < d_armed_until d \<longrightarrow> menu_view d) \<and>
     (0 \<le> d_game d \<longrightarrow> d_game d < int (length (c_games cfg))) \<and> (d_reboot d \<longrightarrow> 0 \<le> d_game d)"

definition dash_ok :: "config \<Rightarrow> dashboard \<Rightarrow> bool" where
  "dash_ok cfg d \<longleftrightarrow> dash_base cfg d \<and> d_layout d = menu_layout (c_games cfg) (d_active d) (d_position d)"

lemma dash_base_cong:
  assumes "dash_base cfg d" "d_volume d' = d_volume d" "d_last_audible d' = d_last_audible d" "d_brightness d' = d_brightness d"
    "d_keymap d' = d_keymap d" "d_wifi d' = d_wifi d" "d_wifi_layout d' = d_wifi_layout d \<or> (\<exists>s. d_wifi_layout d' = wifi_layout s)"
    "d_wifi_view d' = d_wifi_view d" "d_settings_view d' = d_settings_view d" "d_credits_view d' = d_credits_view d"
    "d_selection d' = d_selection d" "d_active d' = d_active d" "d_position d' = d_position d"
    "d_armed_until d' \<le> 0 \<or> d_armed_until d' = d_armed_until d" "d_game d' = d_game d" "d_reboot d' = d_reboot d"
  shows "dash_base cfg d'"
proof -
  have "\<exists>s. d_wifi_layout d' = wifi_layout s" using assms(1,7) by (auto simp: dash_base_def)
  moreover have "0 < d_armed_until d' \<longrightarrow> menu_view d'"
    using assms(1,8-10,14) by (auto simp: dash_base_def menu_view_def)
  ultimately show ?thesis using assms(1) by (simp add: dash_base_def assms(2-6,8-13,15,16))
qed

lemma drawn_wifi_layout_of: "(\<exists>s. d_wifi_layout d = wifi_layout s) \<Longrightarrow> \<exists>s. drawn_wifi_layout d = wifi_layout s"
  by (auto simp: drawn_wifi_layout_def)

text \<open>Only on the menu may the layout be behind the state when it is drawn.\<close>

lemma render_ok:
  assumes "dash_base cfg d" "menu_view d \<or> d_layout d = menu_layout (c_games cfg) (d_active d) (d_position d)"
  shows "dash_ok cfg (render_current_screen ker cfg d)"
proof -
  have "\<exists>s. drawn_wifi_layout d = wifi_layout s" using assms(1) by (intro drawn_wifi_layout_of) (simp add: dash_base_def)
  then have "dash_base cfg (render_current_screen ker cfg d)"
    by (intro dash_base_cong [OF assms(1)]) (simp_all add: render_shape)
  then show ?thesis using assms(2) by (auto simp: dash_ok_def render_shape drawn_layout_def)
qed

lemma present_ok: "dash_ok cfg d \<Longrightarrow> dash_ok cfg (snd (present ker cfg d))"
  by (auto simp: dash_ok_def present_shape intro: dash_base_cong)

lemma redraw_ok:
  "dash_base cfg d \<Longrightarrow> menu_view d \<or> d_layout d = menu_layout (c_games cfg) (d_active d) (d_position d) \<Longrightarrow>
   dash_ok cfg (redraw ker cfg d)"
  unfolding redraw_def by (intro present_ok render_ok)

lemma sound_ok: "dash_ok cfg d \<Longrightarrow> dash_ok cfg (sound ker cue d)"
  unfolding sound_shape by (auto simp: dash_ok_def intro: dash_base_cong)

lemma play_ok: "dash_ok cfg d \<Longrightarrow> dash_ok cfg (snd (play_menu_sound ker cue d))"
  by (subst play_shape) (auto simp: dash_ok_def intro: dash_base_cong)

lemma dash_base_fields [simp]:
  "dash_base cfg (d\<lparr>d_status := a1\<rparr>) = dash_base cfg d" "dash_base cfg (d\<lparr>d_ticks := a2\<rparr>) = dash_base cfg d"
  "dash_base cfg (d\<lparr>d_log := a3\<rparr>) = dash_base cfg d" "dash_base cfg (d\<lparr>d_world := a4\<rparr>) = dash_base cfg d"
  "dash_base cfg (d\<lparr>d_framebuffer := a5\<rparr>) = dash_base cfg d" "dash_base cfg (d\<lparr>d_touch := a6\<rparr>) = dash_base cfg d"
  "dash_base cfg (d\<lparr>d_gamepads := a7\<rparr>) = dash_base cfg d" "dash_base cfg (d\<lparr>d_keyboards := a8\<rparr>) = dash_base cfg d"
  "dash_base cfg (d\<lparr>d_player := a9\<rparr>) = dash_base cfg d" "dash_base cfg (d\<lparr>d_guard := b1\<rparr>) = dash_base cfg d"
  "dash_base cfg (d\<lparr>d_screen := b2\<rparr>) = dash_base cfg d" "dash_base cfg (d\<lparr>d_credits_started_at := b3\<rparr>) = dash_base cfg d"
  "dash_base cfg (d\<lparr>d_pressed := b4\<rparr>) = dash_base cfg d" "dash_base cfg (d\<lparr>d_reconnect_attempt := b5\<rparr>) = dash_base cfg d"
  "dash_base cfg (d\<lparr>d_network_at := b6\<rparr>) = dash_base cfg d" "dash_base cfg (d\<lparr>d_network := b7\<rparr>) = dash_base cfg d"
  "dash_base cfg (d\<lparr>d_mode := b8\<rparr>) = dash_base cfg d" "dash_base cfg (d\<lparr>d_layout := b9\<rparr>) = dash_base cfg d"
  by (simp_all add: dash_base_def menu_view_def)

lemma menu_view_fields [simp]:
  "menu_view (d\<lparr>d_status := a1\<rparr>) = menu_view d" "menu_view (d\<lparr>d_ticks := a2\<rparr>) = menu_view d"
  "menu_view (d\<lparr>d_armed_until := a3\<rparr>) = menu_view d" "menu_view (d\<lparr>d_position := a4\<rparr>) = menu_view d"
  "menu_view (d\<lparr>d_active := a5\<rparr>) = menu_view d" "menu_view (d\<lparr>d_pressed := a6\<rparr>) = menu_view d"
  by (simp_all add: menu_view_def)

lemma dash_ok_update:
  "dash_ok cfg d \<Longrightarrow> dash_base cfg d' \<Longrightarrow> d_layout d' = d_layout d \<Longrightarrow> d_active d' = d_active d \<Longrightarrow>
   d_position d' = d_position d \<Longrightarrow> dash_ok cfg d'"
  by (simp add: dash_ok_def)

lemma if_ok: "(c \<Longrightarrow> dash_ok cfg a) \<Longrightarrow> (\<not> c \<Longrightarrow> dash_ok cfg b) \<Longrightarrow> dash_ok cfg (if c then a else b)"
  by simp

lemma dash_ok_fields [simp]:
  "dash_ok cfg (d\<lparr>d_status := a0\<rparr>) = dash_ok cfg d" "dash_ok cfg (d\<lparr>d_ticks := a1\<rparr>) = dash_ok cfg d"
  "dash_ok cfg (d\<lparr>d_log := a2\<rparr>) = dash_ok cfg d" "dash_ok cfg (d\<lparr>d_world := a3\<rparr>) = dash_ok cfg d"
  "dash_ok cfg (d\<lparr>d_framebuffer := a4\<rparr>) = dash_ok cfg d" "dash_ok cfg (d\<lparr>d_touch := a5\<rparr>) = dash_ok cfg d"
  "dash_ok cfg (d\<lparr>d_gamepads := a6\<rparr>) = dash_ok cfg d" "dash_ok cfg (d\<lparr>d_keyboards := a7\<rparr>) = dash_ok cfg d"
  "dash_ok cfg (d\<lparr>d_player := a8\<rparr>) = dash_ok cfg d" "dash_ok cfg (d\<lparr>d_guard := a9\<rparr>) = dash_ok cfg d"
  "dash_ok cfg (d\<lparr>d_screen := a10\<rparr>) = dash_ok cfg d" "dash_ok cfg (d\<lparr>d_credits_started_at := a11\<rparr>) = dash_ok cfg d"
  "dash_ok cfg (d\<lparr>d_pressed := a12\<rparr>) = dash_ok cfg d" "dash_ok cfg (d\<lparr>d_reconnect_attempt := a13\<rparr>) = dash_ok cfg d"
  "dash_ok cfg (d\<lparr>d_network_at := a14\<rparr>) = dash_ok cfg d" "dash_ok cfg (d\<lparr>d_network := a15\<rparr>) = dash_ok cfg d"
  "dash_ok cfg (d\<lparr>d_mode := a16\<rparr>) = dash_ok cfg d"
  by (simp_all add: dash_ok_def)

lemma dash_okD: "dash_ok cfg d \<Longrightarrow> dash_base cfg d"
  by (simp add: dash_ok_def)

lemma layoutD: "dash_ok cfg d \<Longrightarrow> d_layout d = menu_layout (c_games cfg) (d_active d) (d_position d)"
  by (simp add: dash_ok_def)

text \<open>Redrawing a state that is consistent but for its text fields and its network status.\<close>

lemma redraw_update_ok:
  "dash_ok cfg d \<Longrightarrow> dash_base cfg d' \<Longrightarrow> d_layout d' = d_layout d \<Longrightarrow> d_active d' = d_active d \<Longrightarrow>
   d_position d' = d_position d \<Longrightarrow> dash_ok cfg (redraw ker cfg d')"
  by (rule redraw_ok) (auto simp: dash_ok_def)

subsection \<open>Every action keeps it\<close>

lemma cancel_ok: "dash_ok cfg d \<Longrightarrow> dash_ok cfg (cancel_reboot_confirmation d)"
  by (simp add: dash_ok_def dash_base_def cancel_reboot_confirmation_def menu_view_def)

lemma cancel_view [simp]: "menu_view (cancel_reboot_confirmation d) = menu_view d"
  by (simp add: cancel_reboot_confirmation_def)

lemma request_game_ok:
  assumes "dash_ok cfg d" "menu_view d"
  shows "dash_ok cfg (request_game ker cfg index d)"
proof (cases "index < 0 \<or> int (length (c_games cfg)) \<le> index")
  case False
  let ?game = "c_games cfg ! nat index"
  have chosen: "dash_ok cfg (d\<lparr>d_game := index\<rparr>)" "dash_ok cfg (d\<lparr>d_mode := m\<rparr>)"
    "dash_ok cfg (d\<lparr>d_ticks := t, d_armed_until := 0, d_reboot := True, d_game := index\<rparr>)" for m t
    using assms False by (auto simp: dash_ok_def dash_base_def menu_view_def)
  have armed: "dash_ok cfg (redraw ker cfg (d\<lparr>d_ticks := t, d_armed_until := a, d_status := kRebootConfirmationText\<rparr>))" for t a
    using assms by (intro redraw_update_ok [OF assms(1)]) (auto simp: dash_ok_def dash_base_def menu_view_def)
  show ?thesis
    using False chosen armed assms(1) by (simp add: request_game_def read_time_def Let_def)
qed (use assms in \<open>simp add: request_game_def\<close>)

lemma saved_volume_bound: "save_volume_state path v w = (Inr (), w') \<Longrightarrow> v \<le> 100"
  by (simp add: save_volume_state_def split: if_splits)

lemma apply_volume_ok:
  assumes "dash_ok cfg d"
  shows "dash_ok cfg (apply_volume_target ker cfg target d)"
proof -
  let ?v = "volume_after_menu_target target (d_volume d) (d_last_audible d)"
  have status: "dash_ok cfg (redraw ker cfg (d'\<lparr>d_status := m\<rparr>))" if "dash_ok cfg d'" for d' m
    by (rule redraw_update_ok [OF that]) (simp_all add: dash_okD [OF that])
  obtain r w where r: "save_volume_state (opt (c_options cfg) Volume_state) ?v (d_world d) = (r, w)" by fastforce
  show ?thesis
  proof (cases r)
    case (Inl e)
    have "dash_ok cfg (d\<lparr>d_world := w\<rparr>)" by (rule dash_ok_update [OF assms]) (simp_all add: dash_okD [OF assms])
    from status [OF this] show ?thesis using Inl r by (simp add: apply_volume_target_def)
  next
    case (Inr u)
    then have bound: "?v \<le> 100" using saved_volume_bound r by simp
    define d1 where "d1 = redraw ker cfg
      (d\<lparr>d_world := w, d_volume := ?v, d_last_audible := (if ?v \<noteq> 0 then ?v else d_last_audible d),
         d_status := (if ?v = 0 then ''GAME VOLUME MUTED'' else ''GAME VOLUME '' @ decimal ?v @ ''%'')\<rparr>)"
    have "dash_ok cfg d1"
      unfolding d1_def using bound dash_okD [OF assms]
      by (intro redraw_update_ok [OF assms]) (auto simp: dash_base_def settings_ok_def menu_view_def)
    moreover from this have "dash_ok cfg (d1\<lparr>d_player := p\<rparr>)" for p
      by (intro dash_ok_update [OF \<open>dash_ok cfg d1\<close>]) (simp_all add: dash_okD)
    moreover have "apply_volume_target ker cfg target d =
        (if ?v = 0 then d1\<lparr>d_player := stop (d_player d1)\<rparr>
         else if fst (play_menu_sound ker MenuSoundCueVolume d1) then snd (play_menu_sound ker MenuSoundCueVolume d1)
         else redraw ker cfg ((snd (play_menu_sound ker MenuSoundCueVolume d1))\<lparr>d_status := ''VOLUME SAVED; CONFIRMATION TONE FAILED''\<rparr>))"
      unfolding apply_volume_target_def Let_def r Inr prod.case sum.case d1_def by (simp only: case_prod_beta)
    ultimately show ?thesis
      using status [OF play_ok] play_ok [of cfg d1 ker MenuSoundCueVolume] by simp
  qed
qed

lemma brightness_step_after:
  "brightness_step b \<Longrightarrow> brightness_step (brightness_after_settings_target target b)"
  unfolding brightness_step_def brightness_after_settings_target_def kMinimumBrightness_def kBrightnessStep_def
  by (auto simp: min_def max_def)

lemma apply_brightness_ok:
  assumes "dash_ok cfg d"
  shows "dash_ok cfg (apply_brightness_target ker cfg target d)"
proof -
  let ?b = "brightness_after_settings_target target (d_brightness d)"
  have "brightness_step ?b" using dash_okD [OF assms] by (intro brightness_step_after) (simp add: dash_base_def settings_ok_def)
  then have "dash_base cfg (d\<lparr>d_world := w, d_brightness := ?b, d_status := m\<rparr>)" for w m
    using dash_okD [OF assms] by (auto simp: dash_base_def settings_ok_def menu_view_def)
  then show ?thesis
    using dash_okD [OF assms]
    by (auto simp: apply_brightness_target_def Let_def intro!: redraw_update_ok [OF assms] split: prod.split sum.split)
qed

lemma toggle_keymap_ok:
  assumes "dash_ok cfg d"
  shows "dash_ok cfg (toggle_keymap ker cfg d)"
proof -
  have "dash_base cfg (d\<lparr>d_world := w, d_keymap := if d_keymap d = ''cz'' then ''us'' else ''cz'', d_status := m\<rparr>)" for w m
    using dash_okD [OF assms] by (auto simp: dash_base_def settings_ok_def menu_view_def valid_keymap_def)
  then show ?thesis
    using dash_okD [OF assms]
    by (auto simp: toggle_keymap_def Let_def intro!: redraw_update_ok [OF assms] split: prod.split sum.split)
qed

lemma wifi_status_ok [simp]: "wifi_ok (s\<lparr>ws_status := m\<rparr>) = wifi_ok s"
  by (simp add: wifi_ok_def)

lemma activate_settings_ok:
  assumes "dash_ok cfg d" "d_settings_view d" "\<not> d_wifi_view d" "0 \<le> target" "target \<le> 7"
  shows "dash_ok cfg (activate_settings_target ker cfg target d)"
proof -
  have credits: "\<not> d_credits_view d" "d_armed_until d \<le> 0"
    using dash_okD [OF assms(1)] assms(2) by (auto simp: dash_base_def menu_view_def)
  have sel: "dash_ok cfg (d\<lparr>d_selection := target\<rparr>)"
    using assms by (simp add: dash_ok_def dash_base_def menu_view_def)
  have mode: "dash_ok cfg (d\<lparr>d_selection := target, d_mode := m\<rparr>)" for m
    by (rule dash_ok_update [OF sel]) (simp_all add: dash_okD [OF sel])
  have closed: "dash_ok cfg (redraw ker cfg (d\<lparr>d_selection := target, d_settings_view := False, d_status := []\<rparr>))"
    using dash_okD [OF sel] credits assms(3)
    by (intro redraw_update_ok [OF sel]) (auto simp: dash_base_def menu_view_def)
  have wifi: "dash_ok cfg (redraw ker cfg (d\<lparr>d_selection := target, d_wifi_view := True,
      d_wifi := (d_wifi (d\<lparr>d_selection := target\<rparr>))\<lparr>ws_status := []\<rparr>\<rparr>))"
    using dash_okD [OF sel] credits assms(2)
    by (intro redraw_update_ok [OF sel]) (auto simp: dash_base_def menu_view_def)
  show ?thesis
    unfolding activate_settings_target_def Let_def
    by (intro if_ok sound_ok apply_volume_ok apply_brightness_ok toggle_keymap_ok sel mode closed wifi)
qed

subsection \<open>Commands and touches\<close>

lemma systems_of_layout [simp]:
  "systems (menu_layout games active position) = listed_systems games"
  "game_indices (menu_layout games active position) = games_of_system games active"
  by (simp_all add: menu_layout_def Let_def)

lemma games_of_system_members: "i \<in> set (games_of_system games active) \<longleftrightarrow> i < length games \<and> system (games ! i) = active"
  by (auto simp: games_of_system_def)

lemma listed_system_games: "s \<in> set (listed_systems games) \<Longrightarrow> 0 < length (games_of_system games s)"
proof -
  assume "s \<in> set (listed_systems games)"
  then obtain g where "g \<in> set games" "system g = s" by (auto simp: listed_systems_def has_system_def list_ex_iff)
  then obtain i where "i < length games" "system (games ! i) = s" by (auto simp: in_set_conv_nth)
  then have "i \<in> set (games_of_system games s)" by (simp add: games_of_system_members)
  then show ?thesis by (cases "games_of_system games s") auto
qed

lemma adjacent_system_listed: "syss \<noteq> [] \<Longrightarrow> adjacent_system syss active direction \<in> set syss"
proof -
  assume ne: "syss \<noteq> []"
  have "system_position syss active < length syss"
    using ne length_takeWhile_le [of "\<lambda>s. s \<noteq> active" syss] by (auto simp: system_position_def Let_def)
  then show ?thesis using ne by (auto simp: adjacent_system_def Let_def intro!: nth_mem)
qed

text \<open>Changing the system or the game on the menu.\<close>

lemma menu_move_ok:
  assumes "dash_ok cfg d" "menu_view d" "active \<in> set (listed_systems (c_games cfg))"
    "position < length (games_of_system (c_games cfg) active)"
  shows "dash_ok cfg (redraw ker cfg (d\<lparr>d_active := active, d_position := position, d_status := m\<rparr>))"
  using dash_okD [OF assms(1)] assms(2-4)
  by (intro redraw_ok) (auto simp: dash_base_def menu_view_def)

lemma system_command_ok:
  assumes "dash_ok cfg d" "menu_view d"
  shows "dash_ok cfg (system_command ker cfg back d)"
proof -
  let ?d = "cancel_reboot_confirmation d"
  have d: "dash_ok cfg ?d" "menu_view ?d" using cancel_ok [OF assms(1)] assms(2) by (simp_all add: cancel_view)
  let ?a = "adjacent_system (systems (d_layout ?d)) (d_active ?d) (if back then - 1 else 1)"
  have "listed_systems (c_games cfg) \<noteq> []" using dash_okD [OF d(1)] by (auto simp: dash_base_def)
  then have a: "?a \<in> set (listed_systems (c_games cfg))" using layoutD [OF d(1)] by (simp add: adjacent_system_listed)
  show ?thesis
    unfolding system_command_def Let_def
    by (intro sound_ok menu_move_ok [OF d a] listed_system_games [OF a])
qed

lemma wrap_less: "p < n \<Longrightarrow> (if b then (if p = 0 then n - 1 else p - 1) else (p + 1) mod n) < (n :: nat)"
  by auto

lemma move_game_shape: "move_game bk d = d\<lparr>d_position := d_position (move_game bk d)\<rparr>"
  by (simp add: move_game_def Let_def)

lemma move_game_position:
  assumes "dash_ok cfg d"
  shows "d_position (move_game bk d) < length (games_of_system (c_games cfg) (d_active d))"
proof -
  let ?n = "length (games_of_system (c_games cfg) (d_active d))"
  have n: "d_position d < ?n" using dash_okD [OF assms] by (simp add: dash_base_def)
  from wrap_less [OF this, of bk] show ?thesis using layoutD [OF assms] by (simp add: move_game_def Let_def)
qed

lemma move_game_ok:
  assumes "dash_ok cfg d" "menu_view d"
  shows "dash_ok cfg (redraw ker cfg ((move_game bk d)\<lparr>d_status := m\<rparr>))"
proof -
  have "dash_base cfg (d\<lparr>d_position := d_position (move_game bk d)\<rparr>)"
    using dash_okD [OF assms(1)] move_game_position [OF assms(1), of bk] assms(2) by (simp add: dash_base_def menu_view_def)
  then have "dash_base cfg (move_game bk d)" by (subst move_game_shape)
  moreover have "menu_view (move_game bk d)" using assms(2) by (subst move_game_shape) simp
  ultimately show ?thesis by (intro redraw_ok) simp_all
qed

lemma controller_views:
  "menu_gamepad_command pressed modal settings = MenuGamepadCommandSystemPrevious \<Longrightarrow> \<not> modal \<and> \<not> settings"
  "menu_gamepad_command pressed modal settings = MenuGamepadCommandSystemNext \<Longrightarrow> \<not> modal \<and> \<not> settings"
  "menu_gamepad_command pressed modal settings = MenuGamepadCommandSettings \<Longrightarrow> \<not> modal"
  "menu_gamepad_command pressed modal settings = MenuGamepadCommandPrevious \<Longrightarrow> \<not> modal"
  "menu_gamepad_command pressed modal settings = MenuGamepadCommandNext \<Longrightarrow> \<not> modal"
  "menu_gamepad_command pressed modal settings = MenuGamepadCommandConfirm \<Longrightarrow> \<not> modal"
  "menu_gamepad_command pressed modal settings = MenuGamepadCommandBack \<Longrightarrow> modal \<or> settings"
  by (auto simp: menu_gamepad_command_def split: if_splits)

lemma move_selection_range: "0 \<le> d_selection d \<Longrightarrow> d_selection d \<le> 7 \<Longrightarrow>
  0 \<le> d_selection (move_selection bk d) \<and> d_selection (move_selection bk d) \<le> 7"
  by (simp add: move_selection_def Let_def)

lemma step_command_ok:
  assumes "dash_ok cfg d" "\<not> d_wifi_view d" "\<not> d_credits_view d"
  shows "dash_ok cfg (step_command ker cfg bk d)"
proof -
  let ?d = "cancel_reboot_confirmation d"
  have d: "dash_ok cfg ?d" by (rule cancel_ok [OF assms(1)])
  have views: "d_wifi_view ?d = d_wifi_view d" "d_credits_view ?d = d_credits_view d"
    by (simp_all add: cancel_reboot_confirmation_def)
  have selected: "dash_ok cfg (redraw ker cfg ((move_selection bk ?d)\<lparr>d_status := []\<rparr>))"
    using dash_okD [OF d] move_selection_range [of ?d bk]
    by (intro redraw_update_ok [OF d]) (auto simp: dash_base_def menu_view_def move_selection_def Let_def)
  have moved: "dash_ok cfg (redraw ker cfg ((move_game bk ?d)\<lparr>d_status := []\<rparr>))" if "\<not> d_settings_view ?d"
    using that assms(2,3) views by (intro move_game_ok [OF d]) (simp add: menu_view_def)
  have still: "dash_ok cfg (redraw ker cfg (?d\<lparr>d_status := []\<rparr>))"
    by (intro redraw_update_ok [OF d]) (simp_all add: dash_okD [OF d])
  show ?thesis
    unfolding step_command_def Let_def using selected moved still
    by (cases "d_settings_view ?d"; cases "game_indices (d_layout ?d) = []") (simp_all add: sound_ok)
qed

lemma settings_command_ok:
  assumes "dash_ok cfg d" "\<not> d_wifi_view d" "\<not> d_credits_view d"
  shows "dash_ok cfg (settings_command ker cfg d)"
proof -
  let ?d = "cancel_reboot_confirmation d"
  have d: "dash_ok cfg ?d" by (rule cancel_ok [OF assms(1)])
  have "d_wifi_view ?d = d_wifi_view d" "d_credits_view ?d = d_credits_view d" "d_armed_until ?d = 0"
    by (simp_all add: cancel_reboot_confirmation_def)
  then have "dash_base cfg (?d\<lparr>d_settings_view := v, d_selection := sel, d_status := []\<rparr>)"
    if "0 \<le> sel" "sel \<le> 7" for v sel
    using dash_okD [OF d] assms(2,3) that by (simp add: dash_base_def menu_view_def)
  then have drawn: "dash_ok cfg (redraw ker cfg (?d\<lparr>d_settings_view := v, d_selection := sel, d_status := []\<rparr>))"
    if "0 \<le> sel" "sel \<le> 7" for v sel
    using that by (intro redraw_update_ok [OF d]) simp_all
  have "0 \<le> d_selection ?d \<and> d_selection ?d \<le> 7" using dash_okD [OF d] by (simp add: dash_base_def)
  then show ?thesis
    unfolding settings_command_def Let_def using drawn [of 1 True] drawn [of "d_selection ?d" False]
    by (intro sound_ok) simp
qed

lemma close_view_ok:
  assumes "dash_ok cfg d"
  shows "dash_ok cfg (redraw ker cfg (close_view (cancel_reboot_confirmation d)))"
proof -
  let ?d = "cancel_reboot_confirmation d"
  have d: "dash_ok cfg ?d" by (rule cancel_ok [OF assms])
  have "d_armed_until ?d = 0" by (simp add: cancel_reboot_confirmation_def)
  then have "dash_base cfg (close_view ?d)"
    using dash_okD [OF d] unfolding close_view_def dash_base_def menu_view_def by auto
  then show ?thesis by (intro redraw_update_ok [OF d]) (simp_all add: close_view_def)
qed

lemma confirm_command_ok:
  assumes "dash_ok cfg d" "\<not> d_wifi_view d" "\<not> d_credits_view d"
  shows "dash_ok cfg (confirm_command ker cfg d)"
proof (cases "d_settings_view d")
  case True
  then show ?thesis
    using activate_settings_ok [OF assms(1) True assms(2), of "d_selection d"] dash_okD [OF assms(1)]
    by (simp add: confirm_command_def dash_base_def)
next
  case False
  then have "menu_view d" using assms by (simp add: menu_view_def)
  then show ?thesis
    using False request_game_ok [OF assms(1)] request_game_ok [OF cancel_ok [OF assms(1)]] assms(1)
    by (simp add: confirm_command_def Let_def sound_ok)
qed

lemma controller_step_ok:
  assumes "dash_ok cfg d" "command = menu_gamepad_command pressed (d_wifi_view d \<or> d_credits_view d) (d_settings_view d)"
  shows "dash_ok cfg (controller_step ker cfg command d)"
proof -
  let ?d = "d\<lparr>d_pressed := MenuTargetNone, d_log := d_log d @ [Commanded command (d_ticks d)]\<rparr>"
  have d: "dash_ok cfg ?d" by (rule dash_ok_update [OF assms(1)]) (simp_all add: dash_okD [OF assms(1)])
  show ?thesis
    using d assms controller_views [of pressed "d_wifi_view d \<or> d_credits_view d" "d_settings_view d"]
    by (cases command)
      (simp_all add: controller_step_def sound_ok close_view_ok settings_command_ok system_command_ok step_command_ok
        confirm_command_ok menu_view_def)
qed

text \<open>Where a touch lands.\<close>

lemma settings_target_range: "settings_target_at L x y = - 1 \<or> 0 \<le> settings_target_at L x y \<and> settings_target_at L x y \<le> 7"
  by (simp add: settings_target_at_def SettingsTargetNone_def)

lemma arrow_released_ok:
  "dash_ok cfg d \<Longrightarrow> menu_view d \<Longrightarrow> dash_ok cfg (arrow_released ker cfg bk d)"
  unfolding arrow_released_def by (intro sound_ok move_game_ok)

lemma tab_released_ok:
  assumes "dash_ok cfg d" "menu_view d" "MenuTargetSystemBase \<le> target" "target - MenuTargetSystemBase < int (length (systems (d_layout d)))"
  shows "dash_ok cfg (tab_released ker cfg target d)"
proof -
  let ?s = "systems (d_layout d) ! nat (target - MenuTargetSystemBase)"
  have "nat (target - MenuTargetSystemBase) < length (systems (d_layout d))" using assms(3,4) by linarith
  then have s: "?s \<in> set (listed_systems (c_games cfg))" using nth_mem layoutD [OF assms(1)] by fastforce
  show ?thesis
    unfolding tab_released_def Let_def
    by (intro if_ok sound_ok menu_move_ok [OF assms(1,2) s] listed_system_games [OF s])
qed

lemma open_settings_ok: "dash_ok cfg d \<Longrightarrow> menu_view d \<Longrightarrow> d_armed_until d \<le> 0 \<Longrightarrow> dash_ok cfg (open_settings ker cfg d)"
  unfolding open_settings_def
  by (intro sound_ok redraw_update_ok [of cfg d]) (simp_all add: dash_ok_def dash_base_def menu_view_def)

lemma open_credits_ok: "dash_ok cfg d \<Longrightarrow> menu_view d \<Longrightarrow> d_armed_until d \<le> 0 \<Longrightarrow> dash_ok cfg (open_credits ker cfg d)"
  unfolding open_credits_def read_time_def Let_def prod.case
  by (intro sound_ok redraw_update_ok [of cfg d]) (simp_all add: dash_ok_def dash_base_def menu_view_def)

lemma menu_targets_negative:
  "MenuTargetCredits < 0" "MenuTargetSettings < 0" "MenuTargetGamePrevious < 0" "MenuTargetGameNext < 0" "MenuTargetNone < 0"
  by (simp_all add: menu_target_defs)

text \<open>A release on a game is the only one that may find the confirmation still armed.\<close>

lemma menu_released_ok:
  assumes "dash_ok cfg d" "menu_view d" "0 < d_armed_until d \<longrightarrow> 0 \<le> target \<and> target < int (length (c_games cfg))"
  shows "dash_ok cfg (menu_released ker cfg target d)"
proof -
  have "d_armed_until d \<le> 0" if "target = MenuTargetCredits \<or> target = MenuTargetSettings"
    using that assms(3) menu_targets_negative by (cases "0 < d_armed_until d") auto
  then show ?thesis
    unfolding menu_released_def
    by (intro if_ok sound_ok open_credits_ok open_settings_ok tab_released_ok arrow_released_ok request_game_ok assms(1,2)) auto
qed

lemma wifi_released_ok:
  assumes "dash_ok cfg d" "d_wifi_view d"
  shows "dash_ok cfg (wifi_released ker cfg target d)"
proof -
  note base = dash_okD [OF assms(1)]
  have views: "d_settings_view d" "\<not> d_credits_view d" "d_armed_until d \<le> 0"
    using base assms(2) by (auto simp: dash_base_def menu_view_def)
  have closed: "dash_ok cfg (render_current_screen ker cfg (d\<lparr>d_wifi_view := False, d_status := m\<rparr>))" for m
    using base views layoutD [OF assms(1)] by (intro render_ok) (auto simp: dash_base_def menu_view_def)
  have edited: "dash_ok cfg (render_current_screen ker cfg (d\<lparr>d_wifi := wifi\<rparr>))" if "wifi_ok wifi" for wifi
    using base views that layoutD [OF assms(1)] by (intro render_ok) (auto simp: dash_base_def menu_view_def)
  have saved: "dash_ok cfg (render_current_screen ker cfg (d\<lparr>d_ticks := t, d_wifi := wifi\<rparr>))" if "wifi_ok wifi" for t wifi
    using base views that layoutD [OF assms(1)] by (intro render_ok) (auto simp: dash_base_def menu_view_def)
  have ok: "wifi_ok (d_wifi d)" using base by (simp add: dash_base_def)
  have after: "wifi_ok (case r of Inr u \<Rightarrow> (d_wifi d)\<lparr>ws_passphrase := [], ws_status := m\<rparr> | Inl e \<Rightarrow> (d_wifi d)\<lparr>ws_status := f e\<rparr>)"
    for r :: "message + unit" and m f
    using ok by (cases r) (simp_all add: wifi_ok_def)
  obtain drawn where drawn: "d_wifi_layout d = wifi_layout drawn" using base by (auto simp: dash_base_def)
  obtain changed wifi where applied: "apply_wifi_target target (d_wifi_layout d) (d_wifi d) = (changed, wifi)" by fastforce
  then have "wifi_ok wifi" using apply_wifi_target_ok [OF ok, of target drawn] by (simp add: drawn)
  then show ?thesis
    unfolding wifi_released_def Let_def case_prod_beta
    using assms(1) by (intro present_ok if_ok sound_ok closed saved after) (cases changed; simp add: applied sound_ok edited)
qed

lemma touch_target_settings: "d_settings_view d \<Longrightarrow> \<not> d_wifi_view d \<Longrightarrow> \<not> d_credits_view d \<Longrightarrow>
  touched_target d x y = - 1 \<or> 0 \<le> touched_target d x y \<and> touched_target d x y \<le> 7"
  using settings_target_range by (simp add: touched_target_def)

lemma release_step_ok:
  assumes "dash_ok cfg d0" "released = touched_target d0 x y"
  shows "dash_ok cfg (release_step ker cfg released d0)"
proof -
  let ?reboot = "menu_view d0 \<and> 0 \<le> released \<and> released < int (length (c_games cfg)) \<and> is_built_in_reboot (c_games cfg ! nat released)"
  define d where "d = (if 0 < d_armed_until d0 \<and> \<not> ?reboot then cancel_reboot_confirmation d0 else d0)"
  have d: "dash_ok cfg d" unfolding d_def by (intro if_ok cancel_ok assms(1))
  have views: "d_wifi_view d = d_wifi_view d0" "d_settings_view d = d_settings_view d0" "d_credits_view d = d_credits_view d0"
    "menu_view d = menu_view d0" "d_pressed d = d_pressed d0"
    by (simp_all add: d_def cancel_reboot_confirmation_def)
  have armed: "0 < d_armed_until d \<longrightarrow> 0 \<le> released \<and> released < int (length (c_games cfg))"
    by (simp add: d_def cancel_reboot_confirmation_def)
  have mv: "(\<not> d_credits_view d0 \<and> \<not> d_wifi_view d0 \<and> \<not> d_settings_view d0) = menu_view d0" by (simp add: menu_view_def)
  have shape: "release_step ker cfg released d0 =
     (if d_credits_view d \<and> d_pressed d = CreditsTargetClose \<and> released = CreditsTargetClose
         then sound ker MenuSoundCueBack (redraw ker cfg (d\<lparr>d_credits_view := False, d_status := []\<rparr>))
      else if d_wifi_view d \<and> d_pressed d = released then wifi_released ker cfg released d
      else if d_settings_view d \<and> d_pressed d = released \<and> d_pressed d \<noteq> SettingsTargetNone
         then activate_settings_target ker cfg released d
      else if menu_view d \<and> d_pressed d = released then menu_released ker cfg released d
      else d)"
    unfolding release_step_def Let_def mv d_def [symmetric] views(4) by (rule refl)
  have credits: "dash_ok cfg (redraw ker cfg (d\<lparr>d_credits_view := False, d_status := []\<rparr>))" if "d_credits_view d"
    by (intro redraw_update_ok [OF d]) (use dash_okD [OF d] that in \<open>auto simp: dash_base_def menu_view_def\<close>)
  show ?thesis unfolding shape
  proof (intro if_ok sound_ok credits)
    assume "d_wifi_view d \<and> d_pressed d = released"
    then show "dash_ok cfg (wifi_released ker cfg released d)" by (intro wifi_released_ok [OF d]) simp
  next
    assume w: "\<not> (d_wifi_view d \<and> d_pressed d = released)"
      and s: "d_settings_view d \<and> d_pressed d = released \<and> d_pressed d \<noteq> SettingsTargetNone"
    then have v: "\<not> d_wifi_view d" "\<not> d_credits_view d" using dash_okD [OF d] by (auto simp: dash_base_def)
    then have "0 \<le> released \<and> released \<le> 7"
      using touch_target_settings [of d0 x y] s views assms(2) by (auto simp: SettingsTargetNone_def)
    then show "dash_ok cfg (activate_settings_target ker cfg released d)"
      using s v by (intro activate_settings_ok [OF d]) auto
  next
    assume "menu_view d \<and> d_pressed d = released"
    then show "dash_ok cfg (menu_released ker cfg released d)" by (intro menu_released_ok [OF d _ armed]) simp
  qed (use d in simp_all)
qed

lemma report_step_ok:
  assumes "dash_ok cfg d0"
  shows "dash_ok cfg (report_step ker cfg r d0)"
proof -
  have pressed: "dash_ok cfg (d'\<lparr>d_pressed := p\<rparr>)" if "dash_ok cfg d'" for d' p
    by (rule dash_ok_update [OF that]) (simp_all add: dash_okD [OF that])
  define d where "d = d0\<lparr>d_log := d_log d0 @ [Touched r (d_ticks d0)]\<rparr>"
  have ok: "dash_ok cfg d" using assms by (simp add: d_def)
  let ?d = "if rep_pressed r then d\<lparr>d_pressed := touched_target d (rep_x r) (rep_y r)\<rparr> else d"
  have "touched_target d (rep_x r) (rep_y r) = touched_target ?d (rep_x r) (rep_y r)" by (simp add: touched_target_def)
  then have "dash_ok cfg (release_step ker cfg (touched_target d (rep_x r) (rep_y r)) ?d)"
    using ok pressed by (intro release_step_ok if_ok)
  then show ?thesis
    unfolding report_step_def Let_def d_def [symmetric] using ok pressed by (intro if_ok) auto
qed

subsection \<open>A turn of the loop\<close>

lemma message_ok:
  assumes "dash_ok cfg d"
  shows "dash_ok cfg (redraw ker cfg (set_message m d))"
  using dash_okD [OF assms] unfolding set_message_def
  by (cases "d_wifi_view d"; intro redraw_update_ok [OF assms]) (simp_all add: dash_base_def menu_view_def)

lemma reconnect_turn_ok:
  assumes "dash_ok cfg d"
  shows "dash_ok cfg (reconnect_turn ker cfg d)"
  using assms by (simp add: reconnect_turn_def read_time_def Let_def message_ok split: prod.split)

lemma scans_ok:
  assumes "dash_ok cfg d"
  shows "dash_ok cfg (scan_gamepads ker force d)" "dash_ok cfg (scan_keyboards ker force d)"
  using assms by (simp_all add: scan_gamepads_def scan_keyboards_def Let_def split: prod.split)

lemma begin_turn_ok:
  assumes "dash_ok cfg d"
  shows "dash_ok cfg (begin_turn ker cfg d)"
  using assms unfolding begin_turn_def read_time_def Let_def prod.case by (intro scans_ok reconnect_turn_ok) simp

lemma expire_reboot_ok:
  assumes "dash_ok cfg d"
  shows "dash_ok cfg (expire_reboot ker cfg d)"
proof -
  have ticked: "dash_ok cfg (d\<lparr>d_ticks := t\<rparr>)" for t
    by (rule dash_ok_update [OF assms]) (simp_all add: dash_okD [OF assms])
  have off: "dash_ok cfg (d\<lparr>d_ticks := t, d_armed_until := 0\<rparr>)" for t
    using dash_okD [OF assms] by (intro dash_ok_update [OF assms]) (simp_all add: dash_base_def)
  have "dash_ok cfg (redraw ker cfg (d\<lparr>d_ticks := t, d_armed_until := 0, d_status := []\<rparr>))" for t
    using dash_okD [OF off [of t]] by (intro redraw_update_ok [OF assms]) simp_all
  then show ?thesis
    using assms ticked off by (simp add: expire_reboot_def read_time_def Let_def)
qed

lemma refresh_network_ok:
  assumes "dash_ok cfg d"
  shows "dash_ok cfg (refresh_network ker cfg d)"
proof -
  have "dash_ok cfg (d\<lparr>d_ticks := t, d_world := w, d_network_at := n\<rparr>)" "dash_ok cfg (d\<lparr>d_ticks := t\<rparr>)" for t w n
    by (rule dash_ok_update [OF assms]; simp add: dash_okD [OF assms])+
  moreover have "dash_ok cfg (redraw ker cfg (d\<lparr>d_ticks := t, d_world := w, d_network_at := n, d_network := s\<rparr>))" for t w n s
    by (rule redraw_update_ok [OF assms]) (simp_all add: dash_okD [OF assms])
  ultimately show ?thesis
    by (simp add: refresh_network_def read_time_def Let_def split: prod.split)
qed

lemma after_poll_ok: "dash_ok cfg d \<Longrightarrow> dash_ok cfg (after_poll ker cfg d)"
  unfolding after_poll_def animate_credits_def
  by (intro if_ok redraw_update_ok [of cfg "refresh_network ker cfg (expire_reboot ker cfg d)"] refresh_network_ok expire_reboot_ok)
    (auto intro: dash_okD refresh_network_ok expire_reboot_ok)

lemma read_touch_ok:
  assumes "dash_ok cfg d"
  shows "dash_ok cfg (snd (read_touch ker cfg e d))"
  using assms by (simp add: read_touch_def Let_def message_ok split: prod.split)

lemma admit_input_ok:
  assumes "dash_ok cfg d" "admit_input ker controller keyboard reports d = (c, k, rs, d')"
  shows "dash_ok cfg d'"
proof -
  have "d' = snd (snd (snd (admit_input ker controller keyboard reports d)))" by (simp add: assms(2))
  then show ?thesis using assms(1) by (simp add: admit_input_def read_time_def Let_def case_prod_beta)
qed

lemma reports_ok: "dash_ok cfg d \<Longrightarrow> dash_ok cfg (foldl (\<lambda>d r. report_step ker cfg r d) d rs)"
  by (induction rs arbitrary: d) (simp_all add: report_step_ok)

lemma act_ok:
  assumes "dash_ok cfg d"
  shows "dash_ok cfg (act ker cfg pressed reports d)"
proof -
  let ?d = "d\<lparr>d_game := - 1, d_mode := [], d_reboot := False\<rparr>"
  have "dash_ok cfg ?d"
    using dash_okD [OF assms] by (intro dash_ok_update [OF assms]) (simp_all add: dash_base_def menu_view_def)
  then have "dash_ok cfg (controller_step ker cfg
      (menu_gamepad_command pressed (d_wifi_view ?d \<or> d_credits_view ?d) (d_settings_view ?d)) ?d)"
    by (rule controller_step_ok) (rule refl)
  then show ?thesis unfolding act_def Let_def by (rule reports_ok)
qed

lemma loaded_volume_bound:
  "load_volume_state path default_volume w = (Inr v, w') \<Longrightarrow> v \<le> 100"
  by (auto simp: load_volume_state_def store_default_def parse_volume_percent_iff saved_volume_bound bind_eq_Some_conv
      split: if_splits prod.splits sum.splits option.splits dest!: saved_volume_bound)

lemma reload_volume_ok:
  assumes "dash_ok cfg d"
  shows "dash_ok cfg (reload_volume cfg d)"
proof -
  obtain r w where r: "load_volume_state (opt (c_options cfg) Volume_state) (c_default_volume cfg) (d_world d) = (r, w)" by fastforce
  then show ?thesis
    using dash_okD [OF assms] loaded_volume_bound [of _ _ _ _ w]
    by (cases r) (auto simp: reload_volume_def dash_base_def settings_ok_def menu_view_def intro!: dash_ok_update [OF assms])
qed

lemma before_launch_ok:
  assumes "dash_ok cfg d"
  shows "dash_ok cfg (before_launch ker cfg d)"
proof -
  have "dash_ok cfg (redraw ker cfg (d\<lparr>d_status := m\<rparr>))" for m
    by (rule redraw_update_ok [OF assms]) (simp_all add: dash_okD [OF assms])
  then show ?thesis by (simp add: before_launch_def Let_def)
qed

fun turn_state :: "turn_result \<Rightarrow> dashboard option" where
  "turn_state (Continue d) = Some d"
| "turn_state (Leave code d) = Some d"
| "turn_state (Child_runs d) = Some d"
| "turn_state Undefined = None"

definition result_ok :: "(dashboard \<Rightarrow> bool) \<Rightarrow> turn_result \<Rightarrow> bool" where
  "result_ok P r = (case turn_state r of Some d \<Rightarrow> P d | None \<Rightarrow> True)"

lemma result_ok_simps [simp]:
  "result_ok P (Continue d) = P d" "result_ok P (Leave code d) = P d" "result_ok P (Child_runs d) = P d" "result_ok P Undefined"
  by (simp_all add: result_ok_def)

lemma after_child_ok:
  assumes "dash_ok cfg d"
  shows "result_ok (dash_ok cfg) (after_child ker cfg r w d)"
proof -
  have shown: "dash_ok cfg (snd (present ker cfg (render_current_screen ker cfg (reload_volume cfg d'\<lparr>d_status := m\<rparr>))))"
    if "dash_ok cfg d'" for d' m
  proof (intro present_ok render_ok)
    have "dash_ok cfg (reload_volume cfg d'\<lparr>d_status := m\<rparr>)" using reload_volume_ok [OF that] by simp
    then show "dash_base cfg (reload_volume cfg d'\<lparr>d_status := m\<rparr>)"
      "menu_view (reload_volume cfg d'\<lparr>d_status := m\<rparr>) \<or> d_layout (reload_volume cfg d'\<lparr>d_status := m\<rparr>) =
        menu_layout (c_games cfg) (d_active (reload_volume cfg d'\<lparr>d_status := m\<rparr>)) (d_position (reload_volume cfg d'\<lparr>d_status := m\<rparr>))"
      by (auto dest: dash_okD layoutD)
  qed
  then show ?thesis
    using assms scans_ok
    by (simp add: after_child_def Let_def case_prod_beta split: sum.split prod.split bool.split)
qed

lemma launch_step_ok:
  assumes "dash_ok cfg d"
  shows "result_ok (dash_ok cfg) (launch_step ker cfg d)"
  using assms before_launch_ok [OF assms] after_child_ok [OF before_launch_ok [OF assms]]
  by (simp add: launch_step_def Let_def split: option.split prod.split)

lemma handle_events_ok:
  assumes "dash_ok cfg d"
  shows "result_ok (dash_ok cfg) (handle_events ker cfg e d)"
proof -
  obtain c pads x where pads: "gamepads_read_ready (pe_gamepads e) (d_gamepads d) = (c, pads, x)" by (metis prod_cases3)
  obtain k keys y where keys: "keyboards_read_ready (pe_keyboards e) (d_keyboards d) = (k, keys, y)" by (metis prod_cases3)
  let ?d1 = "d\<lparr>d_gamepads := pads, d_keyboards := keys\<rparr>"
  have d1: "dash_ok cfg ?d1" using assms by simp
  obtain reports d2 where touch: "read_touch ker cfg e ?d1 = (reports, d2)" by fastforce
  have d2: "dash_ok cfg d2" using read_touch_ok [OF d1, of ker e] by (simp add: touch)
  obtain c1 k1 r1 d3 where admit: "admit_input ker c k reports d2 = (c1, k1, r1, d3)" by (metis prod_cases4)
  show ?thesis
    using d1 launch_step_ok [OF act_ok [OF admit_input_ok [OF d2 admit]]]
    by (simp add: handle_events_def pads keys touch admit Let_def)
qed

lemma turn_ok:
  assumes "dash_ok cfg d"
  shows "result_ok (dash_ok cfg) (turn ker cfg d)"
proof -
  have "dash_ok cfg (begin_turn ker cfg d\<lparr>d_ticks := t\<rparr>)" for t using begin_turn_ok [OF assms] by simp
  then show ?thesis
    using assms by (simp add: turn_def Let_def after_poll_ok handle_events_ok split: poll_answer.split)
qed

lemma defined_result_ok: "result_ok P r \<Longrightarrow> result_ok P (defined_result r)"
  by (cases r) (simp_all add: defined_result_def)

lemma run_dashboard_keeps:
  assumes "P d" "\<And>d. P d \<Longrightarrow> result_ok P (turn ker cfg d)"
  shows "result_ok P (run_dashboard ker cfg n d)"
  using assms(1)
proof (induction n arbitrary: d)
  case (Suc n)
  from assms(2) [OF Suc.prems] show ?case using Suc.IH by (cases "turn ker cfg d") (simp_all add: defined_result_ok)
qed (simp add: defined_result_ok)

subsection \<open>The start\<close>

lemma loaded_brightness_step:
  "load_brightness path maximum_path state_path w = (Inr (m, b), w') \<Longrightarrow> brightness_step b"
  by (auto simp: load_brightness_def store_default_def set_brightness_percent_def brightness_step_def
      split: if_splits prod.splits sum.splits option.splits)

lemma loaded_keymap_valid: "load_keymap_state path w = (Inr k, w') \<Longrightarrow> valid_keymap k"
  by (auto simp: load_keymap_state_def store_default_def valid_keymap_def split: if_splits prod.splits sum.splits option.splits)

lemma load_settings_ok:
  assumes "load_settings options default_volume w = Some (volume, audible, maximum, brightness, keymap, w')" "default_volume \<le> 100"
  shows "settings_ok (volume, audible, brightness, keymap)"
proof -
  obtain w1 where v: "load_volume_state (opt options Volume_state) default_volume w = (Inr volume, w1)"
    and a: "audible = (if volume \<noteq> 0 then volume else if default_volume \<noteq> 0 then default_volume else kVolumeStep)"
    and b: "\<exists>w2. load_brightness (opt options Brightness) (opt options Brightness_max) (opt options Brightness_state) w1 =
        (Inr (maximum, brightness), w2) \<and> load_keymap_state (opt options Keymap_state) w2 = (Inr keymap, w')"
    using assms(1) by (auto simp: load_settings_def Let_def split: prod.splits sum.splits)
  then show ?thesis
    using loaded_volume_bound [OF v] loaded_brightness_step loaded_keymap_valid assms(2)
    by (auto simp: settings_ok_def kVolumeStep_def)
qed

lemma inherited_volume_bound: "inherited_volume e = Inr v \<Longrightarrow> v \<le> 100"
proof -
  have "inherited_digits s a = Some v \<Longrightarrow> a \<le> 100 \<Longrightarrow> v \<le> 100" for s a
    by (induction s arbitrary: a) (auto split: if_splits)
  from this [of _ 0] show "inherited_volume e = Inr v \<Longrightarrow> v \<le> 100"
    by (auto simp: inherited_volume_def split: option.splits if_splits)
qed

lemma load_cover_systems: "load_covers directory png games w = (n, all_games, w') \<Longrightarrow> map system all_games = map system games"
  by (induction games arbitrary: n all_games w w') (auto split: prod.splits option.splits)

lemma load_catalogue_deck:
  assumes "load_catalogue sa options w = Some (games, w')"
  shows "has_system games ''deck''"
proof -
  obtain loaded n w1 where "load_game_covers (opt options Cover_directory) (sa_cover_png sa) (loaded @ built_in_entries options) w1 = (n, games, w')"
    using assms by (auto simp: load_catalogue_def split: prod.splits sum.splits if_splits)
  then have "map system games = map system (loaded @ built_in_entries options)"
    using load_cover_systems by (auto simp: load_game_covers_def split: if_splits)
  then have "''deck'' \<in> set (map system games)" by (simp add: built_in_entries_def built_in_lua_entry_def built_in_entry_def Let_def)
  then show ?thesis by (auto simp: has_system_def list_ex_iff)
qed

lemma initial_system_listed:
  assumes "has_system games ''deck''"
  shows "initial_system games \<in> set (listed_systems games)"
proof -
  have "List.find (\<lambda>d. has_system games (fst d)) kSystemDefinitions \<noteq> None"
    using assms by (auto simp: find_None_iff kSystemDefinitions_def)
  then obtain d where "List.find (\<lambda>d. has_system games (fst d)) kSystemDefinitions = Some d" by blast
  moreover from this have "has_system games (fst d)" "d \<in> set kSystemDefinitions"
    by (auto simp: find_Some_iff)
  ultimately show ?thesis by (auto simp: initial_system_def listed_systems_def)
qed

lemma fresh_dashboard_ok:
  assumes "settings_ok settings" "has_system (c_games cfg) ''deck''"
  shows "dash_ok cfg (fresh_dashboard cfg settings fb touch w)"
proof -
  have "0 < length (games_of_system (c_games cfg) (initial_system (c_games cfg)))"
    by (rule listed_system_games [OF initial_system_listed [OF assms(2)]])
  moreover have "wifi_ok created_wifi" by (simp add: wifi_ok_def created_wifi_def)
  ultimately show ?thesis
    using assms(1) initial_system_listed [OF assms(2)]
    by (cases settings) (auto simp: fresh_dashboard_def dash_ok_def dash_base_def Let_def)
qed

lemma first_screen_shape:
  assumes "first_screen ker cfg d0 = Some d"
  shows "\<exists>t n w net pads keys tk. d =
    (redraw ker cfg (d0\<lparr>d_gamepads := pads, d_keyboards := keys, d_ticks := t, d_world := w, d_network := net\<rparr>))
      \<lparr>d_ticks := tk, d_network_at := n\<rparr>"
proof -
  let ?d1 = "scan_keyboards ker True (scan_gamepads ker True d0)"
  obtain net w where net: "read_network_status (ker_network ker (d_ticks ?d1)) (opt (c_options cfg) Wifi_status) (d_world ?d1) = (net, w)"
    by fastforce
  let ?d2 = "?d1\<lparr>d_ticks := d_ticks ?d1 + 1, d_world := w, d_network := net\<rparr>"
  obtain pads keys where "?d2 = d0\<lparr>d_gamepads := pads, d_keyboards := keys, d_ticks := d_ticks ?d1 + 1, d_world := w, d_network := net\<rparr>"
    by (simp add: scan_gamepads_def scan_keyboards_def Let_def case_prod_beta)
  moreover have "d = (redraw ker cfg ?d2)\<lparr>d_ticks := d_ticks (redraw ker cfg ?d2) + 1,
      d_network_at := ker_clock ker (d_ticks (redraw ker cfg ?d2))\<rparr>"
    using assms by (auto simp: first_screen_def Let_def net redraw_def read_time_def split: prod.splits if_splits)
  ultimately show ?thesis by metis
qed

lemma first_screen_ok:
  assumes "dash_ok cfg d0" "first_screen ker cfg d0 = Some d"
  shows "dash_ok cfg d"
  using first_screen_shape [OF assms(2)] redraw_update_ok [OF assms(1)] dash_okD [OF assms(1)] by fastforce

lemma application_start_fresh:
  assumes "application_start ker sa options w = Some (cfg, d0)"
  shows "\<exists>settings fb touch w'. settings_ok settings \<and> has_system (c_games cfg) ''deck'' \<and> c_default_volume cfg \<le> 100 \<and>
    c_options cfg = options \<and> first_screen ker cfg (fresh_dashboard cfg settings fb touch w') = Some d0"
proof -
  obtain settings w1 where conf: "load_configuration ker sa options w = Some (cfg, settings, w1)"
    and start: "\<exists>fb touch. first_screen ker cfg (fresh_dashboard cfg settings fb touch w1) = Some d0"
    using assms by (auto simp: application_start_def Let_def split: option.splits prod.splits sum.splits if_splits)
  obtain w2 w3 games audible volume maximum brightness keymap dv where
    "inherited_volume (sa_volume sa) = Inr dv" "load_catalogue sa options w2 = Some (games, w3)"
    "load_settings options dv w3 = Some (volume, audible, maximum, brightness, keymap, w1)"
    "settings = (volume, audible, brightness, keymap)" "c_games cfg = games" "c_default_volume cfg = dv" "c_options cfg = options"
    using conf by (auto simp: load_configuration_def split: option.splits prod.splits sum.splits)
  with start load_settings_ok inherited_volume_bound load_catalogue_deck show ?thesis by metis
qed

text \<open>
  C5. From its start on, whatever the kernel, the devices, the children and the user do, the
  dashboard is in a consistent state: volume, brightness and keymap are legal settings, the Wi-Fi
  fields are well formed, at most one view is open and the Wi-Fi editor only over the settings, the
  selection exists, the active system is listed and the position names one of its games, the menu's
  touch layout is the one of the state, a reboot is armed only on the menu, and what is about to be
  launched is in the catalogue.
\<close>
theorem dashboard_consistent:
  "case application_start ker sa options w of
     None \<Rightarrow> True
   | Some (cfg, d0) \<Rightarrow> result_ok (dash_ok cfg) (run_dashboard ker cfg n d0)"
proof (cases "application_start ker sa options w")
  case (Some p)
  obtain cfg d0 where p: "p = (cfg, d0)" by (cases p)
  from application_start_fresh [OF Some [unfolded p]] obtain settings fb touch w' where
    "settings_ok settings" "has_system (c_games cfg) ''deck''"
    "first_screen ker cfg (fresh_dashboard cfg settings fb touch w') = Some d0" by blast
  then have "dash_ok cfg d0" using first_screen_ok fresh_dashboard_ok by blast
  then show ?thesis using run_dashboard_keeps [OF _ turn_ok] by (simp add: Some p)
qed simp

end
