(* ===== verification/Dashboard_Screens.thy ===== *)
theory Dashboard_Screens
  imports Dashboard_Safety
begin

section \<open>The screen follows the state\<close>

text \<open>
  What was last rendered and handed to the framebuffer is the screen of the current state.  This is
  an invariant of \<open>Dashboard\<close>'s loop.
\<close>

definition same_screen :: "dashboard \<Rightarrow> bool" where
  "same_screen d =
     (if d_credits_view d then (\<exists>elapsed. d_screen d = Credits_screen elapsed)
      else if d_wifi_view d then d_screen d = Wifi_screen (d_wifi d) (d_network d)
      else if d_settings_view d
      then d_screen d = Settings_screen (d_volume d) (d_brightness d) (d_keymap d) (d_selection d) (d_status d) (d_network d)
      else d_screen d = Menu_screen (d_active d) (d_position d) (d_status d))"

text \<open>The one exception: a status line was cleared while the screen still shows the reboot prompt.\<close>

definition screen_matches :: "dashboard \<Rightarrow> bool" where
  "screen_matches d \<longleftrightarrow> same_screen d \<or> d_status d = [] \<and> same_screen (d\<lparr>d_status := kRebootConfirmationText\<rparr>)"

definition is_shown :: "effect \<Rightarrow> bool" where
  "is_shown e = (shown_as e \<noteq> None)"

lemma is_shown_simps [simp]:
  "is_shown (Presented s t)" "is_shown (Refused s t)" "is_shown (Undrawable s t)" "\<not> is_shown (Commanded c t)"
  "\<not> is_shown (Touched r t)" "\<not> is_shown (Launched l t)" "is_shown (presentation ker cfg d)" "is_shown (redrawn ker cfg d)"
  by (simp_all add: is_shown_def)

definition last_shown :: "dashboard \<Rightarrow> bool" where
  "last_shown d \<longleftrightarrow> (\<exists>earlier e t. filter is_shown (d_log d) = earlier @ [e] \<and> shown_as e = Some (d_screen d, t))"

lemma last_shown_input [simp]:
  "\<not> is_shown e \<Longrightarrow> last_shown (d\<lparr>d_log := d_log d @ [e]\<rparr>) = last_shown d"
  by (simp add: last_shown_def)

text \<open>What holds also while a launch is pending: the menu on the screen is the one of the state.\<close>

definition menu_drawn :: "dashboard \<Rightarrow> bool" where
  "menu_drawn d \<longleftrightarrow> last_shown d \<and> (menu_view d \<longrightarrow> (\<exists>status. d_screen d = Menu_screen (d_active d) (d_position d) status))"

definition launching :: "dashboard \<Rightarrow> bool" where
  "launching d \<longleftrightarrow> \<not> (d_game d < 0 \<and> d_mode d = [] \<and> \<not> d_reboot d)"

definition screen_ok :: "dashboard \<Rightarrow> bool" where
  "screen_ok d \<longleftrightarrow> screen_matches d \<and> last_shown d"

definition acting_ok :: "dashboard \<Rightarrow> bool" where
  "acting_ok d \<longleftrightarrow> menu_drawn d \<and> (launching d \<or> screen_ok d)"

lemma menu_drawn_screen: "screen_ok d \<Longrightarrow> menu_drawn d"
  by (auto simp: screen_ok_def menu_drawn_def screen_matches_def same_screen_def menu_view_def)

lemma state_screen_same: "d_screen d = state_screen ker d \<Longrightarrow> same_screen d"
  by (auto simp: same_screen_def state_screen_def)

lemma screen_ok_redraw: "screen_ok (redraw ker cfg d)"
proof -
  have "last_shown (redraw ker cfg d)" by (simp add: redraw_shape last_shown_def)
  moreover have "same_screen (redraw ker cfg d)"
    by (auto simp: redraw_shape same_screen_def state_screen_def)
  ultimately show ?thesis by (simp add: screen_ok_def screen_matches_def)
qed

lemma screen_ok_input [simp]: "\<not> is_shown e \<Longrightarrow> screen_ok (d\<lparr>d_log := d_log d @ [e]\<rparr>) = screen_ok d"
  by (simp add: screen_ok_def) (simp add: screen_matches_def same_screen_def)

lemma screen_ok_sound [simp]: "screen_ok (sound ker cue d) = screen_ok d"
  by (simp add: sound_shape screen_ok_def screen_matches_def same_screen_def last_shown_def)

lemma screen_ok_play [simp]: "screen_ok (snd (play_menu_sound ker cue d)) = screen_ok d"
  by (subst play_shape) (simp add: screen_ok_def screen_matches_def same_screen_def last_shown_def)

lemma screen_ok_fields [simp]:
  "screen_ok (d\<lparr>d_ticks := a1\<rparr>) = screen_ok d" "screen_ok (d\<lparr>d_world := a2\<rparr>) = screen_ok d"
  "screen_ok (d\<lparr>d_framebuffer := a3\<rparr>) = screen_ok d" "screen_ok (d\<lparr>d_touch := a4\<rparr>) = screen_ok d"
  "screen_ok (d\<lparr>d_gamepads := a5\<rparr>) = screen_ok d" "screen_ok (d\<lparr>d_keyboards := a6\<rparr>) = screen_ok d"
  "screen_ok (d\<lparr>d_player := a7\<rparr>) = screen_ok d" "screen_ok (d\<lparr>d_guard := a8\<rparr>) = screen_ok d"
  "screen_ok (d\<lparr>d_pressed := a9\<rparr>) = screen_ok d" "screen_ok (d\<lparr>d_reconnect_attempt := b1\<rparr>) = screen_ok d"
  "screen_ok (d\<lparr>d_network_at := b2\<rparr>) = screen_ok d" "screen_ok (d\<lparr>d_armed_until := b3\<rparr>) = screen_ok d"
  "screen_ok (d\<lparr>d_game := b4\<rparr>) = screen_ok d" "screen_ok (d\<lparr>d_mode := b5\<rparr>) = screen_ok d"
  "screen_ok (d\<lparr>d_reboot := b6\<rparr>) = screen_ok d" "screen_ok (d\<lparr>d_credits_started_at := b7\<rparr>) = screen_ok d"
  by (simp_all add: screen_ok_def screen_matches_def same_screen_def last_shown_def)

lemma launching_shapes [simp]:
  "launching (redraw ker cfg d) = launching d" "launching (sound ker cue d) = launching d"
  "launching (snd (present ker cfg d)) = launching d" "launching (render_current_screen ker cfg d) = launching d"
  "launching (cancel_reboot_confirmation d) = launching d"
  by (simp_all add: shapes present_shape render_shape launching_def cancel_reboot_confirmation_def)

lemma screen_ok_cancel: "screen_ok d \<Longrightarrow> screen_ok (cancel_reboot_confirmation d)"
  by (auto simp: cancel_reboot_confirmation_def screen_ok_def screen_matches_def same_screen_def last_shown_def kRebootConfirmationText_def)

text \<open>Every action redraws last, or has chosen something to launch, or leaves the screen alone.\<close>

lemma menu_drawn_fields [simp]:
  "menu_drawn (d\<lparr>d_ticks := a1\<rparr>) = menu_drawn d" "menu_drawn (d\<lparr>d_pressed := a2\<rparr>) = menu_drawn d"
  "menu_drawn (d\<lparr>d_player := a3\<rparr>) = menu_drawn d" "menu_drawn (d\<lparr>d_mode := a4\<rparr>) = menu_drawn d"
  "menu_drawn (d\<lparr>d_game := a5\<rparr>) = menu_drawn d" "menu_drawn (d\<lparr>d_reboot := a6\<rparr>) = menu_drawn d"
  "menu_drawn (d\<lparr>d_armed_until := a7\<rparr>) = menu_drawn d" "menu_drawn (d\<lparr>d_status := a8\<rparr>) = menu_drawn d"
  "menu_drawn (d\<lparr>d_selection := a9\<rparr>) = menu_drawn d"
  by (simp_all add: menu_drawn_def last_shown_def menu_view_def)

lemma menu_drawn_input [simp]: "\<not> is_shown e \<Longrightarrow> menu_drawn (d\<lparr>d_log := d_log d @ [e]\<rparr>) = menu_drawn d"
  by (simp add: menu_drawn_def) (simp add: menu_view_def)

lemma menu_drawn_sound [simp]: "menu_drawn (sound ker cue d) = menu_drawn d"
  by (simp add: sound_shape)

lemma menu_drawn_cancel [simp]: "menu_drawn (cancel_reboot_confirmation d) = menu_drawn d"
  by (simp add: cancel_reboot_confirmation_def)

lemma acting_redraw [simp]: "acting_ok (redraw ker cfg d)"
  by (simp add: acting_ok_def screen_ok_redraw menu_drawn_screen)

lemma acting_sound [simp]: "acting_ok (sound ker cue d) = acting_ok d"
  by (simp add: acting_ok_def)

lemma acting_cancel: "acting_ok d \<Longrightarrow> acting_ok (cancel_reboot_confirmation d)"
  by (auto simp: acting_ok_def screen_ok_cancel)

lemma acting_if: "(c \<Longrightarrow> acting_ok a) \<Longrightarrow> (\<not> c \<Longrightarrow> acting_ok b) \<Longrightarrow> acting_ok (if c then a else b)"
  by simp

lemma acting_fields [simp]:
  "acting_ok (d\<lparr>d_ticks := a1\<rparr>) = acting_ok d" "acting_ok (d\<lparr>d_pressed := a2\<rparr>) = acting_ok d"
  "acting_ok (d\<lparr>d_player := a3\<rparr>) = acting_ok d"
  "\<not> is_shown e \<Longrightarrow> acting_ok (d\<lparr>d_log := d_log d @ [e]\<rparr>) = acting_ok d"
  by (simp_all add: acting_ok_def launching_def)

lemma acting_chosen:
  "acting_ok d \<Longrightarrow> m \<noteq> [] \<Longrightarrow> acting_ok (d\<lparr>d_selection := s, d_mode := m\<rparr>)"
  "acting_ok d \<Longrightarrow> 0 \<le> g \<Longrightarrow> acting_ok (d\<lparr>d_game := g\<rparr>)"
  by (simp_all add: acting_ok_def launching_def)

lemma request_game_acting: "acting_ok d \<Longrightarrow> acting_ok (request_game ker cfg index d)"
  unfolding request_game_def read_time_def Let_def prod.case
  by (intro acting_if acting_redraw) (auto simp: acting_ok_def launching_def)

lemma play_acting: "acting_ok d \<Longrightarrow> acting_ok (snd (play_menu_sound ker cue d))"
  by (subst play_shape) simp

lemma settings_actions_acting [simp]:
  "acting_ok (apply_volume_target ker cfg target d)" "acting_ok (apply_brightness_target ker cfg target d)"
  "acting_ok (toggle_keymap ker cfg d)"
  by (simp_all add: apply_volume_target_def apply_brightness_target_def toggle_keymap_def Let_def case_prod_beta play_acting
      split: sum.split)

lemma activate_settings_acting:
  assumes "acting_ok d" "0 \<le> target" "target \<le> 7"
  shows "acting_ok (activate_settings_target ker cfg target d)"
proof -
  consider "target = 0" | "target = 1" | "target = 2" | "target = 3" | "target = 4" | "target = 5" | "target = 6" | "target = 7"
    using assms by linarith
  then show ?thesis
    using assms(1) by cases (simp_all add: activate_settings_target_def Let_def acting_chosen)
qed

lemma commands_acting [simp]:
  "acting_ok (settings_command ker cfg d)" "acting_ok (system_command ker cfg bk d)" "acting_ok (step_command ker cfg bk d)"
  by (simp_all add: settings_command_def system_command_def step_command_def Let_def)

lemma confirm_command_acting:
  assumes "acting_ok d" "dash_ok cfg d"
  shows "acting_ok (confirm_command ker cfg d)"
  using assms dash_okD [OF assms(2)] unfolding confirm_command_def Let_def
  by (intro acting_if activate_settings_acting) (simp_all add: dash_base_def request_game_acting acting_cancel)

lemma controller_step_acting:
  assumes "acting_ok d" "dash_ok cfg d"
  shows "acting_ok (controller_step ker cfg command d)"
proof -
  let ?d = "d\<lparr>d_pressed := MenuTargetNone, d_log := d_log d @ [Commanded command (d_ticks d)]\<rparr>"
  have "acting_ok ?d" using assms(1) acting_fields(4) [of "Commanded command (d_ticks d)" "d\<lparr>d_pressed := MenuTargetNone\<rparr>"] by simp
  moreover have "dash_ok cfg ?d" using assms(2) by simp
  ultimately show ?thesis
    using assms(1) by (cases command) (simp_all add: controller_step_def confirm_command_acting)
qed

lemma touched_actions_acting [simp]:
  "acting_ok (open_settings ker cfg d)" "acting_ok (open_credits ker cfg d)" "acting_ok (tab_released ker cfg target d)"
  "acting_ok (arrow_released ker cfg bk d)"
  by (simp_all add: open_settings_def open_credits_def read_time_def tab_released_def arrow_released_def Let_def)

lemma menu_released_acting: "acting_ok d \<Longrightarrow> acting_ok (menu_released ker cfg target d)"
  by (simp add: menu_released_def request_game_acting)

lemma matches_presented: "screen_matches (d\<lparr>d_ticks := t, d_log := l, d_framebuffer := fb\<rparr>) = screen_matches d"
  by (simp add: screen_matches_def same_screen_def)

lemma present_matches: "screen_matches d \<Longrightarrow> screen_ok (snd (present ker cfg d))"
  by (simp add: present_shape screen_ok_def matches_presented last_shown_def)

lemma render_matches: "screen_matches (render_current_screen ker cfg d)"
  by (auto simp: render_shape screen_matches_def same_screen_def state_screen_def)

lemma sound_matches [simp]: "screen_matches (sound ker cue d) = screen_matches d"
  by (simp add: sound_shape screen_matches_def same_screen_def)

lemma wifi_released_acting:
  assumes "acting_ok d"
  shows "acting_ok (wifi_released ker cfg target d)"
proof -
  have matched: "acting_ok (snd (present ker cfg d'))" if "screen_matches d'" for d'
    using present_matches [OF that] menu_drawn_screen by (simp add: acting_ok_def)
  have "acting_ok (snd (present ker cfg d))"
  proof (cases "screen_ok d")
    case True
    then show ?thesis using present_matches [of d ker cfg] menu_drawn_screen by (simp add: acting_ok_def screen_ok_def)
  next
    case False
    then have "launching (snd (present ker cfg d))" using assms by (simp add: acting_ok_def)
    moreover have "menu_drawn (snd (present ker cfg d))"
      using assms by (auto simp: acting_ok_def menu_drawn_def present_shape last_shown_def menu_view_def)
    ultimately show ?thesis by (simp add: acting_ok_def)
  qed
  with assms show ?thesis
    by (simp add: matched wifi_released_def Let_def case_prod_beta render_matches split: bool.split)
qed

lemma release_step_acting:
  assumes "acting_ok d" "dash_ok cfg d" "released = touched_target d x y"
  shows "acting_ok (release_step ker cfg released d)"
proof -
  have armed: "acting_ok (if b then cancel_reboot_confirmation d else d)" for b using assms(1) by (simp add: acting_cancel)
  have settings: "0 \<le> released \<and> released \<le> 7" if "d_settings_view d" "\<not> d_wifi_view d" "released \<noteq> SettingsTargetNone"
  proof -
    have "\<not> d_credits_view d" using dash_okD [OF assms(2)] that(1) by (auto simp: dash_base_def)
    then show ?thesis using touch_target_settings [OF that(1,2), of x y] that(3) by (auto simp: assms(3) SettingsTargetNone_def)
  qed
  have views: "d_wifi_view (if b then cancel_reboot_confirmation d else d) = d_wifi_view d"
    "d_settings_view (if b then cancel_reboot_confirmation d else d) = d_settings_view d"
    "d_pressed (if b then cancel_reboot_confirmation d else d) = d_pressed d" for b
    by (simp_all add: cancel_reboot_confirmation_def)
  show ?thesis
    unfolding release_step_def Let_def views
  proof (intro acting_if wifi_released_acting menu_released_acting armed activate_settings_acting)
    assume "\<not> (d_wifi_view d \<and> d_pressed d = released)"
      "d_settings_view d \<and> d_pressed d = released \<and> d_pressed d \<noteq> SettingsTargetNone"
    then show "0 \<le> released" "released \<le> 7" using settings by auto
  qed (simp_all add: acting_cancel assms(1))
qed

lemma report_step_acting:
  assumes "acting_ok d0" "dash_ok cfg d0"
  shows "acting_ok (report_step ker cfg r d0)"
proof -
  define d where "d = d0\<lparr>d_log := d_log d0 @ [Touched r (d_ticks d0)]\<rparr>"
  have ok: "acting_ok d" "dash_ok cfg d" using assms by (simp_all add: d_def)
  let ?d = "if rep_pressed r then d\<lparr>d_pressed := touched_target d (rep_x r) (rep_y r)\<rparr> else d"
  have t: "touched_target d (rep_x r) (rep_y r) = touched_target ?d (rep_x r) (rep_y r)" by (simp add: touched_target_def)
  have d: "dash_ok cfg ?d" "acting_ok ?d" using ok by simp_all
  show ?thesis
    unfolding report_step_def Let_def d_def [symmetric]
    using d(2) release_step_acting [OF d(2,1) t] by (intro acting_if) auto
qed

lemma reports_acting:
  "acting_ok d \<Longrightarrow> dash_ok cfg d \<Longrightarrow> acting_ok (foldl (\<lambda>d r. report_step ker cfg r d) d rs)"
  by (induction rs arbitrary: d) (simp_all add: report_step_acting report_step_ok)

lemma act_acting:
  assumes "screen_ok d" "dash_ok cfg d"
  shows "acting_ok (act ker cfg pressed reports d)"
proof -
  let ?d = "d\<lparr>d_game := - 1, d_mode := [], d_reboot := False\<rparr>"
  let ?command = "menu_gamepad_command pressed (d_wifi_view ?d \<or> d_credits_view ?d) (d_settings_view ?d)"
  have d: "dash_ok cfg ?d"
    using dash_okD [OF assms(2)] by (intro dash_ok_update [OF assms(2)]) (simp_all add: dash_base_def menu_view_def)
  have "acting_ok ?d" using assms(1) menu_drawn_screen by (simp add: acting_ok_def)
  from controller_step_acting [OF this d] controller_step_ok [OF d refl]
  show ?thesis unfolding act_def Let_def by (intro reports_acting)
qed

subsection \<open>A whole turn\<close>

lemma begin_turn_screen: "screen_ok d \<Longrightarrow> screen_ok (begin_turn ker cfg d)"
  by (simp add: begin_turn_def read_time_def reconnect_turn_def scan_gamepads_def scan_keyboards_def screen_ok_redraw Let_def case_prod_beta)

lemma after_poll_screen: "screen_ok d \<Longrightarrow> screen_ok (after_poll ker cfg d)"
proof -
  assume d: "screen_ok d"
  then have "screen_ok (expire_reboot ker cfg d)"
    by (simp add: expire_reboot_def read_time_def screen_ok_redraw Let_def)
  then have "screen_ok (refresh_network ker cfg (expire_reboot ker cfg d))"
    by (simp add: refresh_network_def read_time_def screen_ok_redraw Let_def case_prod_beta)
  then show ?thesis by (simp add: after_poll_def animate_credits_def screen_ok_redraw)
qed

lemma read_touch_screen: "screen_ok d \<Longrightarrow> screen_ok (snd (read_touch ker cfg e d))"
  by (simp add: read_touch_def screen_ok_redraw Let_def case_prod_beta)

lemma admit_input_screen: "screen_ok d \<Longrightarrow> screen_ok (snd (snd (snd (admit_input ker c k rs d))))"
  by (simp add: admit_input_def read_time_def Let_def case_prod_beta)

fun continued_ok :: "turn_result \<Rightarrow> bool" where
  "continued_ok (Continue d) = screen_ok d"
| "continued_ok (Leave code d) = True"
| "continued_ok (Child_runs d) = True"
| "continued_ok Undefined = True"

lemma after_child_screen: "continued_ok (after_child ker cfg r w d)"
proof -
  have "screen_ok d'" if "present ker cfg (render_current_screen ker cfg d3) = (True, d')" for d3 d'
    using present_matches [OF render_matches, of ker cfg ker cfg d3] that by simp
  then show ?thesis
    by (auto simp: after_child_def Let_def split: prod.split sum.split bool.split)
qed

lemma launch_step_screen: "acting_ok d \<Longrightarrow> continued_ok (launch_step ker cfg d)"
  using after_child_screen by (auto simp: launch_step_def acting_ok_def launching_def Let_def split: option.split prod.split)

lemma handle_events_screen:
  assumes "screen_ok d" "dash_ok cfg d"
  shows "continued_ok (handle_events ker cfg e d)"
proof -
  obtain c pads x where pads: "gamepads_read_ready (pe_gamepads e) (d_gamepads d) = (c, pads, x)" by (metis prod_cases3)
  obtain k keys y where keys: "keyboards_read_ready (pe_keyboards e) (d_keyboards d) = (k, keys, y)" by (metis prod_cases3)
  let ?d1 = "d\<lparr>d_gamepads := pads, d_keyboards := keys\<rparr>"
  obtain reports d2 where touch: "read_touch ker cfg e ?d1 = (reports, d2)" by fastforce
  have d2: "dash_ok cfg d2" "screen_ok d2"
    using read_touch_ok [of cfg ?d1 ker e] read_touch_screen [of ?d1 ker cfg e] assms by (simp_all add: touch)
  obtain c1 k1 r1 d3 where admit: "admit_input ker c k reports d2 = (c1, k1, r1, d3)" by (metis prod_cases4)
  have "screen_ok d3" using admit_input_screen [OF d2(2), of ker c k reports] by (simp add: admit)
  from launch_step_screen [OF act_acting [OF this admit_input_ok [OF d2(1) admit]]]
  show ?thesis using assms by (simp add: handle_events_def pads keys touch admit Let_def)
qed

lemma turn_screen:
  assumes "screen_ok d" "dash_ok cfg d"
  shows "continued_ok (turn ker cfg d)"
proof -
  have "screen_ok (begin_turn ker cfg d\<lparr>d_ticks := t\<rparr>)" "dash_ok cfg (begin_turn ker cfg d\<lparr>d_ticks := t\<rparr>)" for t
    using begin_turn_screen [OF assms(1)] begin_turn_ok [OF assms(2)] by simp_all
  then show ?thesis
    using assms by (simp add: turn_def Let_def after_poll_screen after_poll_ok handle_events_screen split: poll_answer.split)
qed

lemma defined_continued: "continued_ok r \<Longrightarrow> continued_ok (defined_result r)"
  by (cases r) (simp_all add: defined_result_def)

lemma run_screen:
  assumes "screen_ok d" "dash_ok cfg d"
  shows "continued_ok (run_dashboard ker cfg n d)"
  using assms
proof (induction n arbitrary: d)
  case (Suc n)
  from turn_screen [OF Suc.prems, of ker] turn_ok [OF Suc.prems(2), of ker] show ?case
    using Suc.IH by (cases "turn ker cfg d") (simp_all add: defined_continued)
qed (simp add: defined_continued)

lemma run_defined: "run_dashboard ker cfg n d = Continue d' \<Longrightarrow> \<not> undrawn d'"
  by (induction n arbitrary: d) (auto simp: defined_result_def split: if_splits turn_result.splits)

text \<open>
  C13. After every turn of the loop the screen that was drawn and handed to the framebuffer last is
  the one of the current state: view, settings, network status, Wi-Fi fields, game position and
  status line.  It was presented, unless the framebuffer refused it.  The only exception is that a
  cleared status line may leave the reboot prompt on the screen.
\<close>
theorem screen_follows_state:
  "case application_start ker sa options w of
     None \<Rightarrow> True
   | Some (cfg, d0) \<Rightarrow>
       (case run_dashboard ker cfg n d0 of
          Continue d \<Rightarrow> screen_matches d \<and>
            (\<exists>earlier e t. filter is_shown (d_log d) = earlier @ [e] \<and> e \<in> {Presented (d_screen d) t, Refused (d_screen d) t})
        | Leave code d \<Rightarrow> True
        | Child_runs d \<Rightarrow> True
        | Undefined \<Rightarrow> True)"
proof (cases "application_start ker sa options w")
  case (Some p)
  obtain cfg d0 where p: "p = (cfg, d0)" by (cases p)
  from application_start_fresh [OF Some [unfolded p]] obtain settings fb touch w' where
    start: "settings_ok settings" "has_system (c_games cfg) ''deck''"
    "first_screen ker cfg (fresh_dashboard cfg settings fb touch w') = Some d0" by blast
  then have "dash_ok cfg d0" using first_screen_ok fresh_dashboard_ok by blast
  moreover have "screen_ok d0" using first_screen_shape [OF start(3)] by (auto simp: screen_ok_redraw)
  ultimately have ok: "continued_ok (run_dashboard ker cfg n d0)" by (intro run_screen)
  have "\<exists>earlier e t. filter is_shown (d_log d) = earlier @ [e] \<and> e \<in> {Presented (d_screen d) t, Refused (d_screen d) t}"
    if run: "run_dashboard ker cfg n d0 = Continue d" for d
  proof -
    obtain earlier e t where e: "filter is_shown (d_log d) = earlier @ [e]" "shown_as e = Some (d_screen d, t)"
      using ok run by (auto simp: screen_ok_def last_shown_def)
    then have "e \<in> set (d_log d)" by (metis filter_is_subset in_set_conv_decomp subsetD)
    then have "\<not> is_undrawable e" using run_defined [OF run] by (auto simp: undrawn_def list_ex_iff)
    then show ?thesis using e by (cases e) auto
  qed
  then show ?thesis using ok by (cases "run_dashboard ker cfg n d0") (simp_all add: Some p screen_ok_def)
qed simp

end
