(* ===== verification/Dashboard_Launch.thy ===== *)
theory Dashboard_Launch
  imports Dashboard_Screens
begin

section \<open>What the dashboard launches\<close>

text \<open>
  Launches are the entries \<open>Launched\<close> of the log, and the log's \<open>Commanded\<close> and \<open>Touched\<close> entries
  are the input that was acted on.  Most steps of the loop are quiet: they launch nothing, take no
  command, never arm a reboot and choose no game.
\<close>

fun is_launched :: "effect \<Rightarrow> bool" where
  "is_launched (Launched l t) = True"
| "is_launched e = False"

fun is_commanded :: "effect \<Rightarrow> bool" where
  "is_commanded (Commanded c t) = True"
| "is_commanded e = False"

definition silent :: "effect \<Rightarrow> bool" where
  "silent e = (\<not> is_launched e \<and> \<not> is_commanded e)"

lemma silent_touched [simp]: "silent (Touched r t)"
  by (simp add: silent_def)

lemma silent_shown [simp]: "silent (presentation ker cfg d)" "silent (redrawn ker cfg d)"
  by (simp_all add: silent_def redrawn_def presentation_outcome split: option.split)

definition quiet :: "dashboard \<Rightarrow> dashboard \<Rightarrow> bool" where
  "quiet d d' \<longleftrightarrow>
     (\<exists>new. d_log d' = d_log d @ new \<and> list_all silent new) \<and>
     (d_armed_until d' = d_armed_until d \<or> d_armed_until d' \<le> 0) \<and> d_reboot d' = d_reboot d \<and> d_game d' = d_game d \<and>
     (d_mode d' = d_mode d \<or> d_mode d' = ''shell'')"

lemma quiet_refl [simp]: "quiet d d"
  by (simp add: quiet_def)

lemma quiet_trans:
  assumes "quiet a b" "quiet b c"
  shows "quiet a c"
proof -
  from assms obtain m n where "d_log b = d_log a @ m" "list_all silent m" "d_log c = d_log b @ n" "list_all silent n"
    by (auto simp: quiet_def)
  then have "\<exists>new. d_log c = d_log a @ new \<and> list_all silent new" by (intro exI [of _ "m @ n"]) simp
  then show ?thesis using assms by (auto simp: quiet_def)
qed

lemma quiet_fields [simp]:
  "quiet d (d'\<lparr>d_world := a1\<rparr>) = quiet d d'" "quiet d (d'\<lparr>d_volume := a2\<rparr>) = quiet d d'"
  "quiet d (d'\<lparr>d_last_audible := a3\<rparr>) = quiet d d'" "quiet d (d'\<lparr>d_brightness := a4\<rparr>) = quiet d d'"
  "quiet d (d'\<lparr>d_keymap := a5\<rparr>) = quiet d d'" "quiet d (d'\<lparr>d_framebuffer := a6\<rparr>) = quiet d d'"
  "quiet d (d'\<lparr>d_touch := a7\<rparr>) = quiet d d'" "quiet d (d'\<lparr>d_gamepads := a8\<rparr>) = quiet d d'"
  "quiet d (d'\<lparr>d_keyboards := a9\<rparr>) = quiet d d'" "quiet d (d'\<lparr>d_player := b1\<rparr>) = quiet d d'"
  "quiet d (d'\<lparr>d_guard := b2\<rparr>) = quiet d d'" "quiet d (d'\<lparr>d_screen := b3\<rparr>) = quiet d d'"
  "quiet d (d'\<lparr>d_layout := b4\<rparr>) = quiet d d'" "quiet d (d'\<lparr>d_wifi_layout := b5\<rparr>) = quiet d d'"
  "quiet d (d'\<lparr>d_wifi := b6\<rparr>) = quiet d d'" "quiet d (d'\<lparr>d_network := b7\<rparr>) = quiet d d'"
  "quiet d (d'\<lparr>d_wifi_view := b8\<rparr>) = quiet d d'" "quiet d (d'\<lparr>d_settings_view := b9\<rparr>) = quiet d d'"
  "quiet d (d'\<lparr>d_credits_view := c1\<rparr>) = quiet d d'" "quiet d (d'\<lparr>d_credits_started_at := c2\<rparr>) = quiet d d'"
  "quiet d (d'\<lparr>d_selection := c3\<rparr>) = quiet d d'" "quiet d (d'\<lparr>d_position := c4\<rparr>) = quiet d d'"
  "quiet d (d'\<lparr>d_active := c5\<rparr>) = quiet d d'" "quiet d (d'\<lparr>d_status := c6\<rparr>) = quiet d d'"
  "quiet d (d'\<lparr>d_pressed := c7\<rparr>) = quiet d d'" "quiet d (d'\<lparr>d_reconnect_attempt := c8\<rparr>) = quiet d d'"
  "quiet d (d'\<lparr>d_network_at := c9\<rparr>) = quiet d d'"
  "quiet d (d'\<lparr>d_ticks := e1\<rparr>) = quiet d d'"
  by (simp_all add: quiet_def)

lemma quiet_render: "quiet d d' \<Longrightarrow> quiet d (render_current_screen ker cfg d')"
  by (simp add: render_shape)

lemma quiet_present: "quiet d d' \<Longrightarrow> quiet d (snd (present ker cfg d'))"
  by (auto simp: present_shape quiet_def)

lemma quiet_redraw: "quiet d d' \<Longrightarrow> quiet d (redraw ker cfg d')"
  unfolding redraw_def by (intro quiet_present quiet_render)

lemma quiet_sound: "quiet d d' \<Longrightarrow> quiet d (sound ker cue d')"
  by (simp add: sound_shape)

lemma quiet_play: "quiet d d' \<Longrightarrow> quiet d (snd (play_menu_sound ker cue d'))"
  by (subst play_shape) simp

lemma quiet_cancel: "quiet d d' \<Longrightarrow> quiet d (cancel_reboot_confirmation d')"
  by (auto simp: cancel_reboot_confirmation_def quiet_def)

lemma quiet_shell: "quiet d d' \<Longrightarrow> quiet d (d'\<lparr>d_mode := ''shell''\<rparr>)"
  by (simp add: quiet_def)

lemma quiet_touched: "quiet d d' \<Longrightarrow> quiet d (d'\<lparr>d_log := d_log d' @ [Touched r t]\<rparr>)"
  by (auto simp: quiet_def)

lemma quiet_if: "(c \<Longrightarrow> quiet d a) \<Longrightarrow> (\<not> c \<Longrightarrow> quiet d b) \<Longrightarrow> quiet d (if c then a else b)"
  by simp

lemmas quiet_intros = quiet_if quiet_redraw quiet_sound quiet_play quiet_present quiet_render quiet_cancel quiet_shell

lemma quiet_settings_actions:
  "quiet d d' \<Longrightarrow> quiet d (apply_volume_target ker cfg target d')"
  "quiet d d' \<Longrightarrow> quiet d (apply_brightness_target ker cfg target d')"
  "quiet d d' \<Longrightarrow> quiet d (toggle_keymap ker cfg d')"
  by (auto simp: apply_volume_target_def apply_brightness_target_def toggle_keymap_def Let_def case_prod_beta
      intro!: quiet_intros split: sum.split)

lemma quiet_activate: "quiet d d' \<Longrightarrow> quiet d (activate_settings_target ker cfg target d')"
  unfolding activate_settings_target_def Let_def
  by (intro quiet_intros quiet_settings_actions) simp_all

lemma quiet_commands:
  "quiet d d' \<Longrightarrow> quiet d (settings_command ker cfg d')" "quiet d d' \<Longrightarrow> quiet d (system_command ker cfg bk d')"
  "quiet d d' \<Longrightarrow> quiet d (step_command ker cfg bk d')" "quiet d d' \<Longrightarrow> quiet d (close_view d')"
  "quiet d d' \<Longrightarrow> quiet d (open_settings ker cfg d')" "quiet d d' \<Longrightarrow> quiet d (open_credits ker cfg d')"
  "quiet d d' \<Longrightarrow> quiet d (tab_released ker cfg target d')" "quiet d d' \<Longrightarrow> quiet d (arrow_released ker cfg bk d')"
  by (auto simp: settings_command_def system_command_def step_command_def close_view_def open_settings_def open_credits_def
      tab_released_def arrow_released_def move_selection_def move_game_def read_time_def Let_def
      intro!: quiet_sound quiet_redraw quiet_cancel)

lemma quiet_wifi: "quiet d d' \<Longrightarrow> quiet d (wifi_released ker cfg target d')"
  by (auto simp: wifi_released_def Let_def case_prod_beta intro!: quiet_present quiet_sound quiet_render split: bool.split)

subsection \<open>Presses\<close>

definition on_screen :: "effect list \<Rightarrow> screen option" where
  "on_screen es = (case rev (filter is_shown es) of [] \<Rightarrow> None | e # earlier \<Rightarrow> map_option fst (shown_as e))"

text \<open>
  The game of the menu that an input chooses, and when: the shown game for the confirming button, or
  the game on whose place a finger was lifted.
\<close>

fun press_on :: "config \<Rightarrow> screen option \<Rightarrow> effect \<Rightarrow> (nat \<times> nat) option" where
  "press_on cfg (Some (Menu_screen active position status)) (Commanded c t) =
     (let shown = shown_game_index (menu_layout (c_games cfg) active position)
      in if c = MenuGamepadCommandConfirm \<and> shown < length (c_games cfg) then Some (shown, t) else None)"
| "press_on cfg (Some (Menu_screen active position status)) (Touched r t) =
     (let target = target_at (menu_layout (c_games cfg) active position) (rep_x r) (rep_y r)
      in if rep_released r \<and> 0 \<le> target \<and> target < int (length (c_games cfg)) then Some (nat target, t) else None)"
| "press_on cfg screen e = None"

definition presses :: "config \<Rightarrow> effect list \<Rightarrow> effect \<Rightarrow> (nat \<times> nat) option" where
  "presses cfg es e = press_on cfg (on_screen es) e"

lemma presses_range: "presses cfg es e = Some (i, t) \<Longrightarrow> i < length (c_games cfg)"
  by (auto simp: presses_def Let_def elim!: press_on.elims split: if_splits)

lemma presses_input: "presses cfg es e = Some (i, t) \<Longrightarrow> \<not> is_launched e"
  by (auto simp: presses_def elim!: press_on.elims)

lemma on_screen_shown: "last_shown d \<Longrightarrow> on_screen (d_log d) = Some (d_screen d)"
  by (auto simp: last_shown_def on_screen_def)

lemma press_commanded:
  assumes "menu_drawn d" "menu_view d" "dash_ok cfg d" "shown_game_index (d_layout d) < length (c_games cfg)"
  shows "presses cfg (d_log d) (Commanded MenuGamepadCommandConfirm t) = Some (shown_game_index (d_layout d), t)"
  using assms layoutD [OF assms(3)] by (auto simp: menu_drawn_def presses_def on_screen_shown)

lemma press_touched:
  assumes "menu_drawn d" "menu_view d" "dash_ok cfg d" "rep_released r" "target = target_at (d_layout d) (rep_x r) (rep_y r)"
    "0 \<le> target" "target < int (length (c_games cfg))"
  shows "presses cfg (d_log d) (Touched r t) = Some (nat target, t)"
  using assms layoutD [OF assms(3)] by (auto simp: menu_drawn_def presses_def on_screen_shown)

subsection \<open>What may be launched\<close>

text \<open>A game was chosen since the last launch.\<close>

definition chosen_in :: "config \<Rightarrow> effect list \<Rightarrow> nat \<Rightarrow> bool" where
  "chosen_in cfg es i \<longleftrightarrow>
     (\<exists>pre e post t. es = pre @ e # post \<and> presses cfg pre e = Some (i, t) \<and> \<not> list_ex is_launched post)"

text \<open>
  A reboot was asked for: the first press on the reboot entry, then the prompt, and no command of a
  controller or keyboard since.
\<close>

definition asked :: "config \<Rightarrow> effect list \<Rightarrow> effect \<Rightarrow> effect list \<Rightarrow> nat \<Rightarrow> bool" where
  "asked cfg before e since t \<longleftrightarrow>
     (\<exists>i. presses cfg before e = Some (i, t) \<and> is_built_in_reboot (c_games cfg ! i)) \<and>
     (\<exists>p active position. p \<in> set since \<and> shown_as p = Some (Menu_screen active position kRebootConfirmationText, Suc t)) \<and>
     \<not> list_ex is_commanded since"

text \<open>
  It was confirmed: a second press on the reboot entry, within four seconds of the first and not
  followed by a launch.  The index is the entry of that press, or of a later one.
\<close>

definition confirmed :: "kernel \<Rightarrow> config \<Rightarrow> effect list \<Rightarrow> nat \<Rightarrow> bool" where
  "confirmed ker cfg es index \<longleftrightarrow>
     (\<exists>before e1 since e2 post t1 t2 i. es = before @ e1 # since @ e2 # post \<and> asked cfg before e1 since t1 \<and>
        presses cfg (before @ e1 # since) e2 = Some (i, t2) \<and> is_built_in_reboot (c_games cfg ! i) \<and>
        ker_clock ker t2 < ker_clock ker t1 + kRebootConfirmMs \<and> \<not> list_ex is_launched post \<and>
        (index = i \<or> (\<exists>post1 e3 post2 t3. post = post1 @ e3 # post2 \<and>
           presses cfg (before @ e1 # since @ e2 # post1) e3 = Some (index, t3))))"

definition terminal_modes :: "string list" where
  "terminal_modes = [''shell'', ''lua'', ''lisp'', ''python'', ''scheme'']"

fun launch_ok :: "kernel \<Rightarrow> config \<Rightarrow> effect list \<Rightarrow> launch \<Rightarrow> bool" where
  "launch_ok ker cfg es (Launch_terminal mode) = (mode \<in> set terminal_modes)"
| "launch_ok ker cfg es (Launch_reboot path) =
     (\<exists>i < length (c_games cfg). confirmed ker cfg es i \<and> path = rom (c_games cfg ! i))"
| "launch_ok ker cfg es (Launch_game emulator game volume) =
     (\<exists>i < length (c_games cfg). chosen_in cfg es i \<and> game = c_games cfg ! i \<and>
        emulator = emulator_for_game (c_options cfg) game \<and> volume \<le> 100)"

definition authorised :: "kernel \<Rightarrow> config \<Rightarrow> effect list \<Rightarrow> bool" where
  "authorised ker cfg es \<longleftrightarrow> (\<forall>pre l t post. es = pre @ Launched l t # post \<longrightarrow> launch_ok ker cfg pre l)"

lemma authorised_Nil [simp]: "authorised ker cfg []"
  by (simp add: authorised_def)

lemma authorised_snoc:
  assumes "authorised ker cfg es" "\<And>l t. e = Launched l t \<Longrightarrow> launch_ok ker cfg es l"
  shows "authorised ker cfg (es @ [e])"
  unfolding authorised_def
proof (intro allI impI)
  fix pre l t post
  assume split: "es @ [e] = pre @ Launched l t # post"
  show "launch_ok ker cfg pre l"
  proof (cases post rule: rev_cases)
    case Nil
    then show ?thesis using split assms(2) [of l t] by simp
  next
    case (snoc post' x)
    then have "es = pre @ Launched l t # post'" using split by simp
    then show ?thesis using assms(1) unfolding authorised_def by blast
  qed
qed

lemma authorised_more: "authorised ker cfg es \<Longrightarrow> \<not> list_ex is_launched new \<Longrightarrow> authorised ker cfg (es @ new)"
proof (induction new rule: rev_induct)
  case (snoc e new)
  then have "authorised ker cfg (es @ new)" by simp
  then have "authorised ker cfg ((es @ new) @ [e])" by (rule authorised_snoc) (use snoc.prems in auto)
  then show ?case by simp
qed simp

lemma chosen_more:
  assumes "chosen_in cfg es i" "\<not> list_ex is_launched new"
  shows "chosen_in cfg (es @ new) i"
proof -
  obtain pre e post t where "es = pre @ e # post" "presses cfg pre e = Some (i, t)" "\<not> list_ex is_launched post"
    using assms(1) unfolding chosen_in_def by blast
  then show ?thesis
    unfolding chosen_in_def using assms(2) by (intro exI [of _ pre] exI [of _ e] exI [of _ "post @ new"] exI [of _ t]) simp
qed

lemma chosen_now: "presses cfg es e = Some (i, t) \<Longrightarrow> chosen_in cfg (es @ [e]) i"
  unfolding chosen_in_def by (intro exI [of _ es] exI [of _ e] exI [of _ "[]"] exI [of _ t]) simp

lemma asked_more:
  "asked cfg before e since t \<Longrightarrow> \<not> list_ex is_commanded new \<Longrightarrow> asked cfg before e (since @ new) t"
  unfolding asked_def by auto

lemma confirmed_more:
  assumes "confirmed ker cfg es i" "\<not> list_ex is_launched new"
    "j = i \<or> (\<exists>e more t. new = e # more \<and> presses cfg es e = Some (j, t))"
  shows "confirmed ker cfg (es @ new) j"
proof -
  obtain before e1 since e2 post t1 t2 k where es: "es = before @ e1 # since @ e2 # post" and
    a: "asked cfg before e1 since t1" and p: "presses cfg (before @ e1 # since) e2 = Some (k, t2)" "is_built_in_reboot (c_games cfg ! k)" and
    c: "ker_clock ker t2 < ker_clock ker t1 + kRebootConfirmMs" "\<not> list_ex is_launched post" and
    i: "i = k \<or> (\<exists>post1 e3 post2 t3. post = post1 @ e3 # post2 \<and> presses cfg (before @ e1 # since @ e2 # post1) e3 = Some (i, t3))"
    using assms(1) unfolding confirmed_def by blast
  have "j = k \<or> (\<exists>post1 e3 post2 t3. post @ new = post1 @ e3 # post2 \<and>
      presses cfg (before @ e1 # since @ e2 # post1) e3 = Some (j, t3))"
    using assms(3)
  proof
    assume same: "j = i"
    from i show ?thesis
    proof
      assume "\<exists>post1 e3 post2 t3. post = post1 @ e3 # post2 \<and> presses cfg (before @ e1 # since @ e2 # post1) e3 = Some (i, t3)"
      then obtain post1 e3 post2 t3 where "post = post1 @ e3 # post2" "presses cfg (before @ e1 # since @ e2 # post1) e3 = Some (i, t3)"
        by blast
      then show ?thesis
        using same by (intro disjI2 exI [of _ post1] exI [of _ e3] exI [of _ "post2 @ new"] exI [of _ t3]) simp
    qed (simp add: same)
  next
    assume "\<exists>e more t. new = e # more \<and> presses cfg es e = Some (j, t)"
    then show ?thesis by (auto simp: es)
  qed
  then show ?thesis
    unfolding confirmed_def using a p c assms(2) es
    by (intro exI [of _ before] exI [of _ e1] exI [of _ since] exI [of _ e2] exI [of _ "post @ new"] exI [of _ t1] exI [of _ t2]
        exI [of _ k]) simp
qed

lemma confirmed_kept: "confirmed ker cfg es i \<Longrightarrow> \<not> list_ex is_launched new \<Longrightarrow> confirmed ker cfg (es @ new) i"
  by (rule confirmed_more [OF _ _ disjI1 [OF refl]])

subsection \<open>The invariants of launches\<close>

definition armed :: "kernel \<Rightarrow> config \<Rightarrow> effect list \<Rightarrow> int \<Rightarrow> bool" where
  "armed ker cfg es until \<longleftrightarrow>
     (0 < until \<longrightarrow> (\<exists>before e since t. es = before @ e # since \<and> asked cfg before e since t \<and> until = ker_clock ker t + kRebootConfirmMs))"

definition pending :: "kernel \<Rightarrow> config \<Rightarrow> effect list \<Rightarrow> dashboard \<Rightarrow> bool" where
  "pending ker cfg es d \<longleftrightarrow>
     (d_reboot d \<longrightarrow> confirmed ker cfg es (nat (d_game d))) \<and> (0 \<le> d_game d \<longrightarrow> chosen_in cfg es (nat (d_game d)))"

definition safe :: "kernel \<Rightarrow> config \<Rightarrow> dashboard \<Rightarrow> bool" where
  "safe ker cfg d \<longleftrightarrow> authorised ker cfg (d_log d) \<and> (d_mode d = [] \<or> d_mode d \<in> set terminal_modes)"

text \<open>Between two turns, and while the input of a turn is acted on.\<close>

definition launches_ok :: "kernel \<Rightarrow> config \<Rightarrow> dashboard \<Rightarrow> bool" where
  "launches_ok ker cfg d \<longleftrightarrow> safe ker cfg d \<and> armed ker cfg (d_log d) (d_armed_until d)"

definition choosing_ok :: "kernel \<Rightarrow> config \<Rightarrow> dashboard \<Rightarrow> bool" where
  "choosing_ok ker cfg d \<longleftrightarrow> launches_ok ker cfg d \<and> pending ker cfg (d_log d) d"

lemma armed_off [simp]: "a \<le> 0 \<Longrightarrow> armed ker cfg es a"
  by (simp add: armed_def)

lemma armed_more:
  assumes "armed ker cfg es a" "\<not> list_ex is_commanded new" "b = a \<or> b \<le> 0"
  shows "armed ker cfg (es @ new) b"
proof (cases "0 < b")
  case True
  then obtain before e since t where "es = before @ e # since" "asked cfg before e since t" "a = ker_clock ker t + kRebootConfirmMs"
    using assms by (auto simp: armed_def)
  then show ?thesis
    unfolding armed_def using assms(3) True asked_more [OF _ assms(2)]
    by (intro impI exI [of _ before] exI [of _ e] exI [of _ "since @ new"] exI [of _ t]) auto
qed simp

lemma pending_more: "pending ker cfg es d \<Longrightarrow> \<not> list_ex is_launched new \<Longrightarrow> pending ker cfg (es @ new) d"
  by (simp add: pending_def chosen_more confirmed_kept)

lemma quiet_new:
  assumes "quiet d d'"
  obtains new where "d_log d' = d_log d @ new" "\<not> list_ex is_launched new" "\<not> list_ex is_commanded new"
    "d_armed_until d' = d_armed_until d \<or> d_armed_until d' \<le> 0" "d_reboot d' = d_reboot d" "d_game d' = d_game d"
    "d_mode d' = d_mode d \<or> d_mode d' = ''shell''"
proof -
  obtain new where "d_log d' = d_log d @ new" "list_all silent new" using assms by (auto simp: quiet_def)
  moreover from this(2) have "\<not> list_ex is_launched new" "\<not> list_ex is_commanded new"
    by (auto simp: list_all_iff list_ex_iff silent_def)
  ultimately show thesis using assms that by (simp add: quiet_def)
qed

lemma safe_quiet: "safe ker cfg d \<Longrightarrow> quiet d d' \<Longrightarrow> safe ker cfg d'"
  by (erule quiet_new) (auto simp: safe_def authorised_more terminal_modes_def)

lemma pending_quiet: "pending ker cfg (d_log d) d \<Longrightarrow> quiet d d' \<Longrightarrow> pending ker cfg (d_log d') d'"
  by (erule quiet_new) (simp add: pending_def chosen_more confirmed_kept)

lemma armed_quiet: "armed ker cfg (d_log d) (d_armed_until d) \<Longrightarrow> quiet d d' \<Longrightarrow> armed ker cfg (d_log d') (d_armed_until d')"
  by (erule quiet_new) (simp add: armed_more)

lemma launches_quiet: "launches_ok ker cfg d \<Longrightarrow> quiet d d' \<Longrightarrow> launches_ok ker cfg d'"
  unfolding launches_ok_def by (blast intro: safe_quiet armed_quiet)

lemma choosing_quiet: "choosing_ok ker cfg d \<Longrightarrow> quiet d d' \<Longrightarrow> choosing_ok ker cfg d'"
  unfolding choosing_ok_def using launches_quiet pending_quiet by blast

text \<open>A state in which no reboot is armed.\<close>

lemma unarmed_quiet:
  assumes "safe ker cfg d" "pending ker cfg (d_log d) d" "quiet d d'" "d_armed_until d' \<le> 0"
  shows "choosing_ok ker cfg d'"
  using assms safe_quiet pending_quiet by (auto simp: choosing_ok_def launches_ok_def)

lemma choosing_fields [simp]:
  "choosing_ok ker cfg (d\<lparr>d_pressed := q\<rparr>) = choosing_ok ker cfg d"
  by (simp add: choosing_ok_def launches_ok_def safe_def pending_def)

lemma choosing_if:
  "(c \<Longrightarrow> choosing_ok ker cfg a) \<Longrightarrow> (\<not> c \<Longrightarrow> choosing_ok ker cfg b) \<Longrightarrow> choosing_ok ker cfg (if c then a else b)"
  by simp

lemma reboot_is_no_terminal: "is_built_in_reboot g \<Longrightarrow> terminal_mode_for_game g = []"
  by (simp add: is_built_in_reboot_def terminal_mode_for_game_def is_built_in_terminal_def is_built_in_lua_def
      is_built_in_lisp_def is_built_in_python_def is_built_in_scheme_def)

text \<open>The input \<open>e\<close> that is acted on presses the game.\<close>

lemma request_game_choosing:
  assumes "d_log d = es @ [e]" "presses cfg es e = Some (nat index, d_ticks d)" "0 \<le> index" "menu_view d"
    and ok: "safe ker cfg d" "armed ker cfg es (d_armed_until d)" "pending ker cfg es d"
    and off: "is_built_in_reboot (c_games cfg ! nat index) \<or> d_armed_until d \<le> 0"
  shows "choosing_ok ker cfg (request_game ker cfg index d)"
proof -
  let ?game = "c_games cfg ! nat index" and ?t = "d_ticks d"
  have range: "\<not> (index < 0 \<or> int (length (c_games cfg)) \<le> index)" using presses_range [OF assms(2)] assms(3) by linarith
  have e: "\<not> list_ex is_launched [e]" using presses_input [OF assms(2)] by simp
  have later: "pending ker cfg (es @ [e]) d" by (rule pending_more [OF ok(3) e])
  consider (terminal) "terminal_mode_for_game ?game \<noteq> []" | (game) "terminal_mode_for_game ?game = []" "\<not> is_built_in_reboot ?game"
    | (reboot) "is_built_in_reboot ?game" by blast
  then show ?thesis
  proof cases
    case terminal
    then have "terminal_mode_for_game ?game \<in> set terminal_modes"
      by (simp add: terminal_mode_for_game_def terminal_modes_def split: if_splits)
    moreover have "d_armed_until d \<le> 0" using off reboot_is_no_terminal [of ?game] terminal by auto
    ultimately show ?thesis
      using terminal range ok(1) later assms(1)
      by (simp add: request_game_def choosing_ok_def launches_ok_def safe_def pending_def)
  next
    case game
    have "confirmed ker cfg (es @ [e]) (nat index)" if "d_reboot d"
      using confirmed_more [of ker cfg es _ "[e]" "nat index"] ok(3) e assms(2) that by (auto simp: pending_def)
    then show ?thesis
      using game range ok(1) off assms(1) chosen_now [OF assms(2)]
      by (simp add: request_game_def choosing_ok_def launches_ok_def safe_def pending_def)
  next
    case reboot
    note none = reboot_is_no_terminal [OF reboot]
    show ?thesis
    proof (cases "reboot_confirmation_active (d_armed_until d) (ker_clock ker ?t)")
      case True
      then obtain before e1 since t1 where es: "es = before @ e1 # since" "asked cfg before e1 since t1"
        and "ker_clock ker ?t < ker_clock ker t1 + kRebootConfirmMs"
        using ok(2) by (auto simp: armed_def reboot_confirmation_active_def)
      then have "confirmed ker cfg (es @ [e]) (nat index)"
        unfolding confirmed_def using assms(2) reboot
        by (intro exI [of _ before] exI [of _ e1] exI [of _ since] exI [of _ e] exI [of _ "[]"] exI [of _ t1] exI [of _ ?t]
            exI [of _ "nat index"]) simp
      then show ?thesis
        using True range none reboot ok(1) assms(1) chosen_now [OF assms(2)]
        by (simp add: request_game_def read_time_def choosing_ok_def launches_ok_def safe_def pending_def)
    next
      case False
      let ?q = "d\<lparr>d_ticks := Suc ?t, d_armed_until := ker_clock ker ?t + kRebootConfirmMs, d_status := kRebootConfirmationText\<rparr>"
      let ?d = "redraw ker cfg ?q"
      have log: "d_log ?d = es @ [e] @ [redrawn ker cfg ?q]" "d_armed_until ?d = ker_clock ker ?t + kRebootConfirmMs"
        by (simp_all add: redraw_shape assms(1))
      have quiet: "quiet ?q ?d" by (intro quiet_redraw) simp
      have "safe ker cfg ?q" "pending ker cfg (d_log ?q) ?q"
        using ok(1) later assms(1) by (simp_all add: safe_def pending_def)
      from safe_quiet [OF this(1) quiet] pending_quiet [OF this(2) quiet]
      have "safe ker cfg ?d" "pending ker cfg (d_log ?d) ?d" .
      moreover have "armed ker cfg (d_log ?d) (d_armed_until ?d)"
      proof -
        have "shown_as (redrawn ker cfg ?q) = Some (Menu_screen (d_active d) (d_position d) kRebootConfirmationText, Suc ?t)"
          using assms(4) by (simp add: state_screen_def drawn_ticks_def menu_view_def)
        moreover have "\<not> is_commanded (redrawn ker cfg ?q)" using silent_shown(2) by (simp add: silent_def)
        ultimately have "asked cfg es e [redrawn ker cfg ?q] ?t" unfolding asked_def using assms(2) reboot by auto
        then show ?thesis
          unfolding log armed_def
          by (intro impI, rule_tac x = es in exI, rule_tac x = e in exI, rule_tac x = "[redrawn ker cfg ?q]" in exI,
              rule_tac x = ?t in exI) simp
      qed
      ultimately show ?thesis
        using False range none reboot by (simp add: request_game_def read_time_def Let_def choosing_ok_def launches_ok_def)
    qed
  qed
qed

subsection \<open>Every step keeps them\<close>

lemma shown_is_game:
  "position < length (games_of_system games active) \<Longrightarrow>
     shown_game_index (menu_layout games active position) < length games"
  using nth_mem [of position "games_of_system games active"] games_of_system_members
  by (auto simp: menu_layout_def Let_def)

lemma confirm_command_choosing:
  assumes "dash_ok cfg d0" "menu_drawn d0" "choosing_ok ker cfg d0" "\<not> d_wifi_view d0" "\<not> d_credits_view d0"
    and d: "d = d0\<lparr>d_pressed := p, d_log := d_log d0 @ [Commanded MenuGamepadCommandConfirm (d_ticks d0)]\<rparr>"
  shows "choosing_ok ker cfg (confirm_command ker cfg d)"
proof -
  let ?e = "Commanded MenuGamepadCommandConfirm (d_ticks d0)"
  have safe: "safe ker cfg d" "pending ker cfg (d_log d) d"
    using assms(3) authorised_more [of ker cfg "d_log d0" "[?e]"] pending_more [of ker cfg "d_log d0" d0 "[?e]"]
    by (simp_all add: d choosing_ok_def launches_ok_def safe_def pending_def)
  show ?thesis
  proof (cases "d_settings_view d0")
    case True
    then have "d_armed_until d \<le> 0" using dash_okD [OF assms(1)] by (auto simp: d dash_base_def menu_view_def)
    then have "choosing_ok ker cfg d" by (rule unarmed_quiet [OF safe quiet_refl])
    then have "choosing_ok ker cfg (activate_settings_target ker cfg (d_selection d) d)"
      by (rule choosing_quiet) (simp add: quiet_activate)
    then show ?thesis using True by (simp add: confirm_command_def d)
  next
    case False
    then have menu: "menu_view d0" using assms(4,5) by (simp add: menu_view_def)
    let ?shown = "shown_game_index (d_layout d0)"
    have shown: "?shown < length (c_games cfg)"
      using dash_okD [OF assms(1)] layoutD [OF assms(1)] by (simp add: shown_is_game dash_base_def)
      let ?d = "if is_built_in_reboot (c_games cfg ! ?shown) then d else cancel_reboot_confirmation d"
      have same: "d_log ?d = d_log d0 @ [?e]" "d_ticks ?d = d_ticks d0" "menu_view ?d" "d_reboot ?d = d_reboot d0"
        "d_game ?d = d_game d0" "d_mode ?d = d_mode d0"
        using menu by (simp_all add: d cancel_reboot_confirmation_def menu_view_def)
      have "choosing_ok ker cfg (request_game ker cfg (int ?shown) ?d)"
      proof (rule request_game_choosing)
        show "presses cfg (d_log d0) ?e = Some (nat (int ?shown), d_ticks ?d)"
          using press_commanded [OF assms(2) menu assms(1) shown] by (simp add: same)
        show "safe ker cfg ?d" using safe(1) by (simp add: safe_def d cancel_reboot_confirmation_def)
        show "armed ker cfg (d_log d0) (d_armed_until ?d)"
          using assms(3) by (simp add: choosing_ok_def launches_ok_def d cancel_reboot_confirmation_def)
        show "pending ker cfg (d_log d0) ?d" using assms(3) same(4,5) by (simp add: choosing_ok_def pending_def)
        show "is_built_in_reboot (c_games cfg ! nat (int ?shown)) \<or> d_armed_until ?d \<le> 0"
          by (simp add: cancel_reboot_confirmation_def)
      qed (use same in simp_all)
      from choosing_quiet [OF this quiet_sound [OF quiet_refl]]
      have "choosing_ok ker cfg (sound ker MenuSoundCueConfirm (request_game ker cfg (int ?shown) ?d))" .
      moreover have "d_layout d = d_layout d0" "\<not> d_settings_view d" using False by (simp_all add: d)
      ultimately show ?thesis using shown by (simp only: confirm_command_def Let_def if_False if_True)
  qed
qed

lemma controller_step_choosing:
  assumes "dash_ok cfg d0" "menu_drawn d0" "choosing_ok ker cfg d0"
    "command = menu_gamepad_command pressed (d_wifi_view d0 \<or> d_credits_view d0) (d_settings_view d0)"
  shows "choosing_ok ker cfg (controller_step ker cfg command d0)"
proof (cases "command = MenuGamepadCommandNone \<or> command = MenuGamepadCommandConfirm")
  case True
  have "\<not> (d_wifi_view d0 \<or> d_credits_view d0)" if "command = MenuGamepadCommandConfirm"
    using controller_views(6) assms(4) that by metis
  then show ?thesis
    using True assms(3) confirm_command_choosing [OF assms(1,2,3) _ _ refl] by (auto simp: controller_step_def)
next
  case False
  let ?e = "Commanded command (d_ticks d0)"
  let ?d = "d0\<lparr>d_pressed := MenuTargetNone, d_log := d_log d0 @ [?e]\<rparr>"
  have safe: "safe ker cfg ?d" "pending ker cfg (d_log ?d) ?d"
    using assms(3) authorised_more [of ker cfg "d_log d0" "[?e]"] pending_more [of ker cfg "d_log d0" d0 "[?e]"]
    by (simp_all add: choosing_ok_def launches_ok_def safe_def pending_def)
  have "quiet ?d (controller_step ker cfg command d0)"
    using False by (cases command) (simp_all add: controller_step_def quiet_commands quiet_sound quiet_redraw quiet_cancel)
  moreover have "d_armed_until (controller_step ker cfg command d0) \<le> 0"
    using False
    by (cases command) (simp_all add: controller_step_def shapes settings_command_def system_command_def step_command_def
        close_view_def move_selection_def move_game_def cancel_reboot_confirmation_def Let_def)
  ultimately show ?thesis by (rule unarmed_quiet [OF safe])
qed

lemma release_step_choosing:
  assumes "dash_ok cfg d0" "menu_drawn d0" "choosing_ok ker cfg d0" "rep_released r"
    and d: "d = d0\<lparr>d_log := d_log d0 @ [Touched r (d_ticks d0)], d_pressed := p\<rparr>"
    and released: "released = touched_target d0 (rep_x r) (rep_y r)"
  shows "choosing_ok ker cfg (release_step ker cfg released d)"
proof -
  have quiet: "quiet d0 d" unfolding d using quiet_touched [OF quiet_refl] by simp
  have quieter: "choosing_ok ker cfg d'" if "quiet d d'" for d'
    by (rule choosing_quiet [OF assms(3) quiet_trans [OF quiet that]])
  have on_menu: "choosing_ok ker cfg (menu_released ker cfg released (if b then cancel_reboot_confirmation d else d))"
    if "menu_view d" and b: "b \<longleftrightarrow> 0 < d_armed_until d \<and> \<not> (0 \<le> released \<and> released < int (length (c_games cfg)) \<and>
        is_built_in_reboot (c_games cfg ! nat released))" for b
  proof -
    define q where "q = (if b then cancel_reboot_confirmation d else d)"
    have same: "d_log q = d_log d0 @ [Touched r (d_ticks d0)]" "d_ticks q = d_ticks d0" "menu_view q" "d_reboot q = d_reboot d0"
      "d_game q = d_game d0" "d_mode q = d_mode d0"
      using that(1) by (simp_all add: q_def d cancel_reboot_confirmation_def menu_view_def)
    have on_tile: "choosing_ok ker cfg (sound ker MenuSoundCueConfirm (request_game ker cfg released q))"
      if range: "0 \<le> released" "released < int (length (c_games cfg))"
    proof (rule choosing_quiet [OF request_game_choosing quiet_sound [OF quiet_refl]])
      have menu: "menu_view d0" using \<open>menu_view d\<close> by (simp add: d menu_view_def)
      then have "released = target_at (d_layout d0) (rep_x r) (rep_y r)" by (simp add: released touched_target_def menu_view_def)
      from press_touched [OF assms(2) menu assms(1,4) this range]
      show "presses cfg (d_log d0) (Touched r (d_ticks d0)) = Some (nat released, d_ticks q)" by (simp add: same)
      show "safe ker cfg q"
        using safe_quiet [OF _ quiet, of ker cfg] assms(3)
        unfolding choosing_ok_def launches_ok_def safe_def by (simp add: q_def cancel_reboot_confirmation_def)
      show "armed ker cfg (d_log d0) (d_armed_until q)"
        using assms(3) by (simp add: q_def choosing_ok_def launches_ok_def d cancel_reboot_confirmation_def)
      show "pending ker cfg (d_log d0) q" using assms(3) same(4,5) by (simp add: choosing_ok_def pending_def)
      show "is_built_in_reboot (c_games cfg ! nat released) \<or> d_armed_until q \<le> 0"
        using b range by (cases b) (auto simp: q_def cancel_reboot_confirmation_def)
    qed (use same range in simp_all)
    have "quiet d q" by (simp add: q_def quiet_cancel)
    then have "choosing_ok ker cfg q" "choosing_ok ker cfg (open_credits ker cfg q)" "choosing_ok ker cfg (open_settings ker cfg q)"
      "choosing_ok ker cfg (tab_released ker cfg released q)"
      "choosing_ok ker cfg (arrow_released ker cfg (released = MenuTargetGamePrevious) q)"
      by (rule quieter, rule_tac [1-4] quieter, auto intro: quiet_commands)
    then show ?thesis
      unfolding q_def [symmetric] menu_released_def by (intro choosing_if on_tile) (assumption | (erule conjE, assumption))+
  qed
  have armed: "quiet d (if b then cancel_reboot_confirmation d else d)" for b by (simp add: quiet_cancel)
  have stays: "choosing_ok ker cfg d" "choosing_ok ker cfg (cancel_reboot_confirmation d)"
    by (simp_all add: quieter quiet_cancel)
  show ?thesis
    unfolding release_step_def Let_def
    by (intro choosing_if quieter [OF quiet_sound] quieter [OF quiet_wifi] quieter [OF quiet_activate] quiet_redraw armed on_menu)
      (simp_all add: menu_view_def armed quiet_cancel stays)
qed

lemma report_step_choosing:
  assumes "dash_ok cfg d" "menu_drawn d" "choosing_ok ker cfg d"
  shows "choosing_ok ker cfg (report_step ker cfg r d)"
proof -
  let ?d = "d\<lparr>d_log := d_log d @ [Touched r (d_ticks d)]\<rparr>"
  have target: "touched_target ?d (rep_x r) (rep_y r) = touched_target d (rep_x r) (rep_y r)" by (simp add: touched_target_def)
  have touched: "choosing_ok ker cfg ?d" by (rule choosing_quiet [OF assms(3) quiet_touched [OF quiet_refl]])
  have "choosing_ok ker cfg (release_step ker cfg (touched_target d (rep_x r) (rep_y r)) (?d\<lparr>d_pressed := p\<rparr>))"
    if "rep_released r" for p
    by (rule release_step_choosing [OF assms that refl refl])
  from this [of "d_pressed d"] this show ?thesis
    using touched by (simp add: report_step_def Let_def target)
qed

lemma act_choosing:
  assumes "dash_ok cfg d" "launches_ok ker cfg d" "screen_ok d"
  shows "choosing_ok ker cfg (act ker cfg pressed reports d)"
proof -
  define e where "e = d\<lparr>d_game := - 1, d_mode := [], d_reboot := False\<rparr>"
  let ?command = "menu_gamepad_command pressed (d_wifi_view e \<or> d_credits_view e) (d_settings_view e)"
  have e: "dash_ok cfg e" "choosing_ok ker cfg e" "acting_ok e"
    using assms dash_okD [OF assms(1)] menu_drawn_screen [OF assms(3)]
    by (simp_all add: e_def dash_ok_def dash_base_def menu_view_def choosing_ok_def launches_ok_def safe_def pending_def acting_ok_def)
  then have "menu_drawn e" by (simp add: acting_ok_def)
  have start: "dash_ok cfg (controller_step ker cfg ?command e)" "choosing_ok ker cfg (controller_step ker cfg ?command e)"
    "acting_ok (controller_step ker cfg ?command e)"
    using controller_step_ok [OF e(1) refl] controller_step_choosing [OF e(1) \<open>menu_drawn e\<close> e(2) refl]
      controller_step_acting [OF e(3,1)] by simp_all
  have "choosing_ok ker cfg (foldl (\<lambda>d r. report_step ker cfg r d) d' rs)"
    if "dash_ok cfg d'" "choosing_ok ker cfg d'" "acting_ok d'" for d' rs
    using that
  proof (induction rs arbitrary: d')
    case (Cons r rs)
    then have "menu_drawn d'" by (simp add: acting_ok_def)
    from Cons.IH [OF report_step_ok [OF Cons.prems(1)] report_step_choosing [OF Cons.prems(1) this Cons.prems(2)]
        report_step_acting [OF Cons.prems(3,1)]]
    show ?case by simp
  qed simp
  then show ?thesis unfolding act_def Let_def e_def [symmetric] using start by blast
qed

lemma quiet_scans:
  "quiet d d' \<Longrightarrow> quiet d (scan_gamepads ker force d')" "quiet d d' \<Longrightarrow> quiet d (scan_keyboards ker force d')"
  by (auto simp: scan_gamepads_def scan_keyboards_def Let_def case_prod_beta)

lemma quiet_message: "quiet d d' \<Longrightarrow> quiet d (set_message m d')"
  by (simp add: set_message_def)

lemma quiet_begin: "quiet d (begin_turn ker cfg d)"
  unfolding begin_turn_def read_time_def Let_def prod.case reconnect_turn_def
  by (intro quiet_scans quiet_if) (auto simp: case_prod_beta intro!: quiet_redraw quiet_message)

lemma quiet_after_poll: "quiet d (after_poll ker cfg d)"
proof -
  have "quiet d' (d'\<lparr>d_armed_until := 0\<rparr>)" for d' by (simp add: quiet_def)
  then have off: "quiet d (d'\<lparr>d_armed_until := 0\<rparr>)" if "quiet d d'" for d d' using that quiet_trans by blast
  have expire: "quiet d (expire_reboot ker cfg d)" for d
    by (simp add: expire_reboot_def read_time_def Let_def quiet_redraw off)
  have refresh: "quiet d (refresh_network ker cfg d)" for d
    by (auto simp: refresh_network_def read_time_def Let_def case_prod_beta intro!: quiet_redraw)
  have animate: "quiet d (animate_credits ker cfg d)" for d by (simp add: animate_credits_def quiet_redraw)
  show ?thesis unfolding after_poll_def by (rule quiet_trans [OF quiet_trans [OF expire refresh] animate])
qed

lemma quiet_read_touch: "quiet d (snd (read_touch ker cfg e d))"
  by (simp add: read_touch_def Let_def case_prod_beta quiet_redraw quiet_message)

lemma quiet_admit: "quiet d (snd (snd (snd (admit_input ker c k rs d))))"
  by (simp add: admit_input_def read_time_def Let_def case_prod_beta)

subsection \<open>Launching\<close>

lemma chosen_launch_ok:
  assumes "dash_ok cfg d" "choosing_ok ker cfg d" "\<not> (d_game d < 0 \<and> d_mode d = [] \<and> \<not> d_reboot d)"
  shows "launch_ok ker cfg (d_log d) (chosen_launch cfg d)"
proof (cases "d_mode d = []")
  case True
  with assms(1,3) have game: "0 \<le> d_game d" "nat (d_game d) < length (c_games cfg)"
    using dash_okD [OF assms(1)] by (auto simp: dash_base_def)
  have "d_volume d \<le> 100" using dash_okD [OF assms(1)] by (simp add: dash_base_def settings_ok_def)
  then show ?thesis
    using True game assms(2) by (auto simp: chosen_launch_def Let_def choosing_ok_def pending_def)
next
  case False
  then show ?thesis using assms(2) by (auto simp: chosen_launch_def choosing_ok_def launches_ok_def safe_def Let_def)
qed

lemma before_launch_launches:
  assumes "dash_ok cfg d" "choosing_ok ker cfg d" "\<not> (d_game d < 0 \<and> d_mode d = [] \<and> \<not> d_reboot d)"
  shows "launches_ok ker cfg (before_launch ker cfg d)"
proof -
  define d1 where "d1 = redraw ker cfg (d\<lparr>d_status := if d_mode d \<noteq> [] then ''STARTING '' @ terminal_program_title (d_mode d)
    else if d_reboot d then ''REBOOTING'' else ''STARTING '' @ title (c_games cfg ! nat (d_game d))\<rparr>)"
  have ok: "dash_ok cfg d1" unfolding d1_def by (rule redraw_update_ok [OF assms(1)]) (simp_all add: dash_okD [OF assms(1)])
  have "quiet d d1" unfolding d1_def by (intro quiet_redraw) simp
  from choosing_quiet [OF assms(2) this] have choosing: "choosing_ok ker cfg d1" .
  have "\<not> (d_game d1 < 0 \<and> d_mode d1 = [] \<and> \<not> d_reboot d1)" using assms(3) by (simp add: d1_def redraw_shape)
  note chosen = chosen_launch_ok [OF ok choosing this]
  let ?l = "Launched (chosen_launch cfg d1) (d_ticks d1)"
  have "authorised ker cfg (d_log d1 @ [?l])"
    using choosing chosen by (intro authorised_snoc) (simp_all add: choosing_ok_def launches_ok_def safe_def)
  moreover have "armed ker cfg (d_log d1 @ [?l]) (d_armed_until d1)"
    using choosing by (intro armed_more [of ker cfg "d_log d1" "d_armed_until d1"]) (simp_all add: choosing_ok_def launches_ok_def)
  ultimately show ?thesis
    using choosing unfolding before_launch_def Let_def d1_def [symmetric]
    by (simp add: choosing_ok_def launches_ok_def safe_def)
qed

lemma after_child_launches:
  assumes "launches_ok ker cfg d"
  shows "result_ok (launches_ok ker cfg) (after_child ker cfg r w d)"
proof -
  let ?d = "d\<lparr>d_ticks := run_ticks r, d_world := w, d_framebuffer := run_framebuffer r,
                 d_touch := (case run_touch r of Some t \<Rightarrow> t | None \<Rightarrow> d_touch d), d_pressed := MenuTargetNone\<rparr>"
  let ?s = "scan_keyboards ker True (scan_gamepads ker True ?d)"
  have d: "quiet d ?d" by simp
  then have s: "quiet d ?s" by (intro quiet_scans)
  have reload: "quiet d (reload_volume cfg d')" if "quiet d d'" for d'
    using that by (simp add: reload_volume_def split: prod.split sum.split)
  have quieter: "launches_ok ker cfg d'" if "quiet d d'" for d' by (rule launches_quiet [OF assms that])
  have "launches_ok ker cfg d'" if "present ker cfg (render_current_screen ker cfg (reload_volume cfg (?s\<lparr>d_ticks := d_ticks ?s + 1, d_framebuffer := fb\<rparr>)
      \<lparr>d_status := m\<rparr>)) = (b, d')" for d' fb m b
  proof -
    have "quiet d (?s\<lparr>d_ticks := d_ticks ?s + 1, d_framebuffer := fb\<rparr>)" using s by simp
    then have "quiet d (snd (present ker cfg (render_current_screen ker cfg (reload_volume cfg (?s\<lparr>d_ticks := d_ticks ?s + 1, d_framebuffer := fb\<rparr>)
      \<lparr>d_status := m\<rparr>))))" by (intro quiet_present quiet_render) (simp add: reload)
    then show ?thesis using quieter that by simp
  qed
  then show ?thesis
    unfolding after_child_def Let_def
    using quieter d s by (auto split: prod.split sum.split bool.split)
qed

lemma launch_step_launches:
  assumes "dash_ok cfg d" "choosing_ok ker cfg d"
  shows "result_ok (launches_ok ker cfg) (launch_step ker cfg d)"
  using assms before_launch_launches [OF assms] after_child_launches [OF before_launch_launches [OF assms]]
  by (auto simp: launch_step_def choosing_ok_def Let_def split: option.split prod.split)

lemma handle_events_launches:
  assumes "dash_ok cfg d" "launches_ok ker cfg d" "screen_ok d"
  shows "result_ok (launches_ok ker cfg) (handle_events ker cfg e d)"
proof -
  obtain c pads x where pads: "gamepads_read_ready (pe_gamepads e) (d_gamepads d) = (c, pads, x)" by (metis prod_cases3)
  obtain k keys y where keys: "keyboards_read_ready (pe_keyboards e) (d_keyboards d) = (k, keys, y)" by (metis prod_cases3)
  let ?d1 = "d\<lparr>d_gamepads := pads, d_keyboards := keys\<rparr>"
  have l1: "launches_ok ker cfg ?d1" by (rule launches_quiet [OF assms(2)]) simp
  obtain reports d2 where touch: "read_touch ker cfg e ?d1 = (reports, d2)" by fastforce
  have d2: "dash_ok cfg d2" "launches_ok ker cfg d2" "screen_ok d2"
    using read_touch_ok [of cfg ?d1 ker e] assms(1,3) launches_quiet [OF l1 quiet_read_touch [of _ ker cfg e]]
      read_touch_screen [of ?d1 ker cfg e] by (simp_all add: touch)
  obtain c1 k1 r1 d3 where admit: "admit_input ker c k reports d2 = (c1, k1, r1, d3)" by (metis prod_cases4)
  have d3: "dash_ok cfg d3" "launches_ok ker cfg d3" "screen_ok d3"
    using admit_input_ok [OF d2(1) admit] launches_quiet [OF d2(2) quiet_admit [of _ ker c k reports]]
      admit_input_screen [OF d2(3), of ker c k reports] by (simp_all add: admit)
  from launch_step_launches [OF act_ok [OF d3(1)] act_choosing [OF d3]]
  show ?thesis using l1 by (simp add: handle_events_def pads keys touch admit Let_def)
qed

lemma turn_launches:
  assumes "dash_ok cfg d" "launches_ok ker cfg d" "screen_ok d"
  shows "result_ok (launches_ok ker cfg) (turn ker cfg d)"
proof -
  let ?b = "begin_turn ker cfg d"
  let ?t = "?b\<lparr>d_ticks := Suc (d_ticks ?b)\<rparr>"
  have quiet_b: "quiet d ?t" using quiet_begin by simp
  have b: "dash_ok cfg ?t" "screen_ok ?t" using begin_turn_ok [OF assms(1)] begin_turn_screen [OF assms(3)] by simp_all
  have closed: "launches_ok ker cfg (d\<lparr>d_framebuffer := fb\<rparr>)" for fb by (rule launches_quiet [OF assms(2)]) simp
  have polled: "launches_ok ker cfg (after_poll ker cfg ?t)"
    by (rule launches_quiet [OF assms(2) quiet_trans [OF quiet_b quiet_after_poll]])
  show ?thesis
    using closed polled launches_quiet [OF assms(2) quiet_b]
      handle_events_launches [OF after_poll_ok [OF b(1)] polled after_poll_screen [OF b(2)]]
    by (simp add: turn_def Let_def split: poll_answer.split)
qed

lemma run_launches:
  assumes "dash_ok cfg d" "launches_ok ker cfg d" "screen_ok d"
  shows "result_ok (launches_ok ker cfg) (run_dashboard ker cfg n d)"
  using assms
proof (induction n arbitrary: d)
  case (Suc n)
  from turn_launches [OF Suc.prems] turn_ok [OF Suc.prems(1), of ker] turn_screen [OF Suc.prems(3,1), of ker]
  show ?case using Suc.IH by (cases "turn ker cfg d") (simp_all add: defined_result_ok)
qed (simp add: defined_result_ok)

text \<open>
  C6. Whatever happens, the dashboard launches only what was chosen: a terminal in one of its five
  modes; a game of its catalogue, with the emulator of its system and a legal volume, whose place on
  the menu was pressed, or that was shown when the confirming button was, since the last launch; and
  a reboot only when the reboot entry was pressed, the prompt was drawn, and, before any other
  command and less than four seconds after the first press, the reboot entry was pressed again.  The
  program that is run for the reboot is the reboot entry's own, unless another game was pressed
  between this confirmation and the launch.
\<close>
theorem launches_are_authorised:
  "case application_start ker sa options w of
     None \<Rightarrow> True
   | Some (cfg, d0) \<Rightarrow> result_ok (\<lambda>d. authorised ker cfg (d_log d)) (run_dashboard ker cfg n d0)"
proof (cases "application_start ker sa options w")
  case (Some p)
  obtain cfg d0 where p: "p = (cfg, d0)" by (cases p)
  from application_start_fresh [OF Some [unfolded p]] obtain settings fb touch w' where
    start: "settings_ok settings" "has_system (c_games cfg) ''deck''"
    "first_screen ker cfg (fresh_dashboard cfg settings fb touch w') = Some d0" by blast
  have ok: "dash_ok cfg d0" using first_screen_ok [OF fresh_dashboard_ok [OF start(1,2)] start(3)] .
  let ?f = "fresh_dashboard cfg settings fb touch w'"
  have "d_log ?f = []" "d_armed_until ?f = 0" "d_reboot ?f = False" "d_mode ?f = []"
    by (simp_all add: fresh_dashboard_def Let_def case_prod_beta)
  then have fresh: "launches_ok ker cfg ?f" by (simp add: launches_ok_def safe_def)
  from first_screen_shape [OF start(3)] obtain t m u net pads keys tk where d0: "d0 =
      (redraw ker cfg (?f\<lparr>d_gamepads := pads, d_keyboards := keys, d_ticks := t, d_world := u, d_network := net\<rparr>))
        \<lparr>d_ticks := tk, d_network_at := m\<rparr>" by blast
  have "quiet ?f d0" "screen_ok d0" by (simp_all add: d0 quiet_redraw screen_ok_redraw)
  then have "result_ok (launches_ok ker cfg) (run_dashboard ker cfg n d0)"
    using run_launches [OF ok] launches_quiet [OF fresh] by blast
  then show ?thesis
    by (cases "run_dashboard ker cfg n d0") (simp_all add: Some p launches_ok_def safe_def)
qed simp

text \<open>The last clause is needed: a tap on another game right after the confirming one decides.\<close>

lemma reboot_runs_last_choice:
  assumes "d_reboot d" "d_mode d = []" "0 \<le> index" "index < int (length (c_games cfg))"
    "terminal_mode_for_game (c_games cfg ! nat index) = []" "\<not> is_built_in_reboot (c_games cfg ! nat index)"
  shows "chosen_launch cfg (request_game ker cfg index d) = Launch_reboot (rom (c_games cfg ! nat index))"
  using assms by (simp add: request_game_def chosen_launch_def)

end
