(* ===== verification/Deck_Frontend.thy ===== *)
theory Deck_Frontend
  imports Deck_Audio Deck_Video
begin

section \<open>What the emulator frontends share\<close>

text \<open>
  The CHIP-8, Libretro and chiptune programs drive the same framebuffer and audio objects of
  \<open>deck_runtime\<close>.  Here are the framebuffer as its constructor leaves it, the writer thread as
  seen by the program's own thread, and the lemmas that presenting on a usable framebuffer succeeds,
  that the square wave is always defined, and how the programs read a number.
\<close>

definition created_framebuffer :: "bool \<Rightarrow> DeckFramebuffer" where
  "created_framebuffer hint = \<lparr>fb_fd = - 1, fb_memory = None, fb_map_size = 0, fb_stride = 0,
     fb_last_width = 0, fb_last_height = 0, fb_exit_hint = hint, fb_frame = []\<rparr>"

text \<open>
  Between two calls of the program's thread the writer thread may take a chunk, start playback or
  give up.
\<close>

datatype writer_action = Take_chunk | Start_playback | Give_up

definition writer_acts :: "DeckAudio \<Rightarrow> writer_action \<Rightarrow> DeckAudio" where
  "writer_acts au action =
     (if \<not> thread_started au \<or> stopping au \<or> worker_failed au then au
      else
        (case action of
           Take_chunk \<Rightarrow> (if queue_size au > 0 then snd (dequeue au) else au)
         | Start_playback \<Rightarrow> snd (start_playback True au)
         | Give_up \<Rightarrow> au\<lparr>au_fd := - 1, worker_failed := True, queue_size := 0\<rparr>))"

section \<open>Numbers in text\<close>

text \<open>
  \<open>strtol\<close> in base ten on a C string: optional space, optional sign, digits; the value and the
  unread rest.  Without a digit nothing is read.  The value is not cut to the range of \<open>long\<close>: a
  caller that accepts only a part of that range rejects the values beyond it all the same.
\<close>

definition c_str :: "string \<Rightarrow> string" where
  "c_str s = takeWhile (\<lambda>c. byte_of c \<noteq> 0) s"

definition strtol :: "string \<Rightarrow> int \<times> string" where
  "strtol s =
     (let t = dropWhile is_space s;
          negative = (t \<noteq> [] \<and> t ! 0 = CHR ''-'');
          u = (if t \<noteq> [] \<and> (t ! 0 = CHR ''-'' \<or> t ! 0 = CHR ''+'') then drop 1 t else t);
          ds = takeWhile is_digit u;
          v = int (decimal_value ds)
      in if ds = [] then (0, s) else (if negative then - v else v, dropWhile is_digit u))"

section \<open>Presenting on a usable framebuffer\<close>

definition fb_usable :: "DeckFramebuffer \<Rightarrow> bool" where
  "fb_usable fb = (fb_wf fb \<and> fb_memory fb \<noteq> None \<and> even (fb_map_size fb))"

lemma created_framebuffer_wf [simp]: "fb_wf (created_framebuffer hint)"
  by (simp add: created_framebuffer_def fb_wf_def)

lemma fb_open_usable:
  assumes "fb_open_device k fb0 = (Inr u, fb)" "even (k_smem_len k)"
  shows "fb_usable fb"
proof -
  have "fb_wf fb" using fb_open_device_wf [of k fb0] assms by simp
  moreover have "fb_memory fb \<noteq> None" "even (fb_map_size fb)"
    using assms by (auto simp: fb_open_device_def Let_def fb_supported_def split: if_splits)
  ultimately show ?thesis by (simp add: fb_usable_def)
qed

lemma begin_frame_map_size: "begin_frame w h fb = (r, fb1) \<Longrightarrow> fb_map_size fb1 = fb_map_size fb"
  by (auto simp: begin_frame_def Let_def split: option.splits if_splits)

lemma publish_frame_map_size [simp]: "fb_map_size (publish_frame l fb) = fb_map_size fb"
  by (simp add: publish_frame_def Let_def split: option.split)

lemma usable_begin:
  assumes "fb_usable fb" "DeckComputeScaledLayout w h = Some l"
  obtains fb1 where "begin_frame w h fb = (Inr l, fb1)" "fb_map_size fb1 = fb_map_size fb"
proof -
  have "length (fb_frame fb) * 2 = fb_map_size fb"
    using assms(1) staging_even by (auto simp: fb_usable_def)
  then obtain l' fb1 where b: "begin_frame w h fb = (Inr l', fb1)"
    using begin_frame_cases(1) [of w h fb] assms by (auto simp: fb_usable_def)
  moreover have "l' = l"
    using b assms(2) by (auto simp: begin_frame_def Let_def split: option.splits if_splits)
  ultimately show thesis using begin_frame_map_size that by blast
qed

lemma painted_usable:
  assumes "fb_usable fb" "begin_frame w h fb = (Inr l, fb1)" "fb_map_size fb1 = fb_map_size fb"
    and layout: "DeckComputeScaledLayout w h = Some l"
  shows "fb_memory (publish_frame l (draw_all l w h colour fb1)) = panel_contents w h colour fb"
    "fb_usable (publish_frame l (draw_all l w h colour fb1))"
proof -
  have wf: "fb_wf fb" using assms(1) by (simp add: fb_usable_def)
  note p = publish_painted [OF assms(2) wf begin_frame_paints(2) [OF assms(2) wf, of colour], folded draw_all_runs]
  show shown: "fb_memory (publish_frame l (draw_all l w h colour fb1)) = panel_contents w h colour fb"
    by (rule p(1))
  have "panel_contents w h colour fb \<noteq> None"
    using assms(1) layout by (auto simp: panel_contents_def fb_usable_def Let_def)
  moreover have "even (fb_map_size (publish_frame l (draw_all l w h colour fb1)))"
    using assms(1,3) by (simp add: fb_usable_def draw_all_runs)
  ultimately show "fb_usable (publish_frame l (draw_all l w h colour fb1))"
    using p(2) shown by (simp add: fb_usable_def)
qed

text \<open>The colour an indexed pixel shows.\<close>

definition indexed_colour :: "byte list \<Rightarrow> nat \<Rightarrow> u32 list \<Rightarrow> nat \<Rightarrow> nat \<Rightarrow> u16" where
  "indexed_colour rows pitch palette x y =
     (let index = unat (rows ! (y * pitch + x))
      in DeckRgb888To565 (if index < length palette then palette ! index else 0))"

lemma present_indexed_shows:
  assumes "fb_usable fb" "DeckComputeScaledLayout w h \<noteq> None" "palette \<noteq> []" "unat w \<le> pitch"
  obtains fb' where "present_indexed (Some rows) w h pitch (Some palette) fb = (Inr (), fb')"
    "fb_usable fb'" "fb_memory fb' = panel_contents w h (indexed_colour rows pitch palette) fb"
proof -
  obtain l where l: "DeckComputeScaledLayout w h = Some l" using assms(2) by auto
  obtain fb1 where b: "begin_frame w h fb = (Inr l, fb1)" "fb_map_size fb1 = fb_map_size fb"
    using usable_begin [OF assms(1) l] by metis
  have "present_indexed (Some rows) w h pitch (Some palette) fb =
      (Inr (), publish_frame l (draw_all l w h (indexed_colour rows pitch palette) fb1))"
    using assms(3,4) b(1) by (simp add: present_indexed_def indexed_colour_def [abs_def])
  then show thesis using painted_usable [OF assms(1) b l] that by blast
qed

lemma present_xrgb8888_shows:
  assumes "fb_usable fb" "DeckComputeScaledLayout w h \<noteq> None" "unat w * 4 \<le> pitch"
  obtains fb' where "present_xrgb8888 (Some rows) w h pitch fb = (Inr (), fb')" "fb_usable fb'"
    "fb_memory fb' = panel_contents w h (\<lambda>x y. DeckRgb888To565 (read_u32 rows (y * pitch + x * 4))) fb"
proof -
  obtain l where l: "DeckComputeScaledLayout w h = Some l" using assms(2) by auto
  obtain fb1 where b: "begin_frame w h fb = (Inr l, fb1)" "fb_map_size fb1 = fb_map_size fb"
    using usable_begin [OF assms(1) l] by metis
  have "\<not> pitch < unat w * 4 mod 2 ^ 32"
    using assms(3) mod_less_eq_dividend [of "unat w * 4" "2 ^ 32"] by linarith
  then have "present_xrgb8888 (Some rows) w h pitch fb = (Inr (), publish_frame l
      (draw_all l w h (\<lambda>x y. DeckRgb888To565 (read_u32 rows (y * pitch + x * 4))) fb1))"
    using b(1) by (simp add: present_xrgb8888_def)
  then show thesis using painted_usable [OF assms(1) b l] that by blast
qed

lemma present_rgb565_shows:
  assumes "fb_usable fb" "DeckComputeScaledLayout w h \<noteq> None" "unat w * 2 \<le> pitch"
  obtains fb' where "present_rgb565 (Some rows) w h pitch fb = (Inr (), fb')" "fb_usable fb'"
    "fb_memory fb' = panel_contents w h (\<lambda>x y. read_u16 rows (y * pitch + x * 2)) fb"
proof -
  obtain l where l: "DeckComputeScaledLayout w h = Some l" using assms(2) by auto
  obtain fb1 where b: "begin_frame w h fb = (Inr l, fb1)" "fb_map_size fb1 = fb_map_size fb"
    using usable_begin [OF assms(1) l] by metis
  define fb' where "fb' = publish_frame l (fb1\<lparr>fb_frame := write_runs (rotated_runs (row_words fb1) l w h
      (\<lambda>x y. read_u16 rows (y * pitch + x * 2))) (fb_frame fb1)\<rparr>)"
  have "\<not> pitch < unat w * 2 mod 2 ^ 32"
    using assms(3) mod_less_eq_dividend [of "unat w * 2" "2 ^ 32"] by linarith
  then have shown: "present_rgb565 (Some rows) w h pitch fb = (Inr (), fb')"
    using b(1) by (simp add: present_rgb565_def fb'_def)
  have wf: "fb_wf fb" using assms(1) by (simp add: fb_usable_def)
  have memory: "fb_memory fb' = panel_contents w h (\<lambda>x y. read_u16 rows (y * pitch + x * 2)) fb" "fb_wf fb'"
    using present_painted [OF wf, where rows = rows and w = w and h = h and pitch = pitch] shown by simp_all
  moreover have "panel_contents w h colour fb \<noteq> None" for colour
    using assms(1) l by (auto simp: panel_contents_def fb_usable_def Let_def)
  moreover have "even (fb_map_size fb')" using assms(1) b(2) by (simp add: fb_usable_def fb'_def)
  ultimately have "fb_usable fb'" by (simp add: fb_usable_def)
  then show thesis using that shown memory(1) by blast
qed

section \<open>The square wave\<close>

lemma square_samples:
  assumes "square_loop active period percent n phase = (buffer, phase')" "s \<in> set buffer" "percent \<le> 100"
  shows "\<bar>sint s\<bar> \<le> 6000"
  using assms
proof (induction n arbitrary: phase buffer)
  case (Suc n)
  obtain rest where rest: "square_loop active period percent n ((phase + 1) mod period) = (rest, phase')"
    "buffer = square_sample active phase period percent # rest"
    using Suc.prems(1) by (auto simp: Let_def split: prod.splits)
  have scale: "\<bar>scale_sample v percent\<bar> \<le> 6000" if "\<bar>v\<bar> \<le> 6000" for v
    using scale_sample_range(1) [of v percent] that Suc.prems(3) by linarith
  have "\<bar>sint (word_of_int (scale_sample v percent) :: sample)\<bar> \<le> 6000" if "\<bar>v\<bar> \<le> 6000" for v
    using sint_word_of_int_sample [of "scale_sample v percent"] scale [OF that] by simp
  from this [of 6000] this [of "- 6000"] have "\<bar>sint (square_sample active phase period percent)\<bar> \<le> 6000"
    by (simp add: square_sample_def)
  then show ?case using Suc.IH [OF rest(1)] Suc.prems(2,3) rest(2) by auto
qed simp

lemma gentle_small:
  assumes "\<And>s. s \<in> set samples \<Longrightarrow> \<bar>sint s\<bar> \<le> 16384"
  shows "gentle samples"
  unfolding gentle_def list_all_iff
proof
  fix i assume "i \<in> set [0..<length samples - 1]"
  then have "\<bar>sint (samples ! i)\<bar> \<le> 16384" "\<bar>sint (samples ! (i + 1))\<bar> \<le> 16384"
    by (auto intro!: assms)
  then show "\<bar>sint (samples ! (i + 1)) - sint (samples ! i)\<bar> \<le> 32768" by linarith
qed

lemma write_mono_gentle:
  assumes "gentle samples" "source_rate au \<noteq> 0"
  shows "write_mono samples au \<noteq> None"
proof -
  have "resample_loop samples step n p \<noteq> None" for step n p
    using resample_loop_defined [OF sample_at_gentle [OF assms(1)], of step n p] by auto
  then have "resample samples n \<noteq> None" for n by (simp add: resample_def)
  then show ?thesis using assms(2) by (auto simp: write_mono_def Let_def simp del: not_None_eq)
qed

lemma write_square_frame_defined:
  assumes "volume_percent au \<le> 100"
  shows "write_square_frame active au \<noteq> None"
proof (cases "\<not> available au \<or> source_rate au = 0")
  case False
  let ?period = "max 2 (source_rate au div 440)"
  obtain buffer phase where b: "square_loop active ?period (volume_percent au) (source_rate au div 60) (square_phase au) =
      (buffer, phase)" by fastforce
  have "gentle buffer" using square_samples [OF b _ assms] by (intro gentle_small) fastforce
  then have "write_mono buffer (au\<lparr>square_phase := phase\<rparr>) \<noteq> None"
    using False by (intro write_mono_gentle) simp_all
  then show ?thesis using False b by (simp add: write_square_frame_def Let_def)
qed (simp add: write_square_frame_def)

text \<open>The volume of the device is the one it was opened with, at most 100.\<close>

lemma audio_open_device_volume:
  "audio_open_device k rate percent fragments au0 = Some (r, au) \<Longrightarrow> volume_percent au \<le> 100"
  by (auto simp: audio_open_device_def Let_def audio_close_device_def write_all_def
      split: option.splits bool.splits prod.splits if_splits)

lemma writer_acts_volume [simp]: "volume_percent (writer_acts au a) = volume_percent au"
  by (cases a) (simp_all add: writer_acts_def dequeue_def start_playback_def Let_def)

lemma enqueue_volume: "enqueue samples au = (ok, au') \<Longrightarrow> volume_percent au' = volume_percent au"
  using enqueue_frames(4) [of samples au] by simp

lemma write_mono_volume: "write_mono samples au = Some (ok, au') \<Longrightarrow> volume_percent au' = volume_percent au"
  by (auto simp: write_mono_def Let_def dest: enqueue_volume split: if_splits option.splits)

lemma write_square_volume: "write_square_frame active au = Some (ok, au') \<Longrightarrow> volume_percent au' = volume_percent au"
  by (auto simp: write_square_frame_def Let_def dest: write_mono_volume split: if_splits prod.splits)

end
