(* ===== verification/Chip8_Deck.thy ===== *)
theory Chip8_Deck
  imports Menu_Catalog Joypad_Input Deck_Frontend
begin

section \<open>The CHIP-8 frontend (\<open>src/chip8_core.c\<close>, \<open>src/chip8_deck.cpp\<close>)\<close>

text \<open>
  The glue around the c-octo emulator and the program that runs it: configuration file, ROM, keypad,
  frames.  The emulator itself is not in the repository: its initialisation and its instruction
  are arguments (\<open>octo_init\<close>, \<open>octo_step\<close>) of the definitions that call them.  The record below has
  the fields the glue reads or writes, and the rest of the emulator as \<open>em_rest\<close>; its arrays are
  functions of the index, since their sizes are the emulator's.
\<close>

record Chip8CoreOptions =
  tickrate :: int
  shift_quirk :: int
  load_store_quirk :: int
  jump_quirk :: int
  logic_quirk :: int
  clip_quirk :: int
  vblank_quirk :: int
  colors :: "u32 list"

record octo_options =
  opt_tickrate :: int
  opt_max_rom :: nat
  opt_q_shift :: bool
  opt_q_loadstore :: bool
  opt_q_jump0 :: bool
  opt_q_logic :: bool
  opt_q_clip :: bool
  opt_q_vblank :: bool
  opt_colors :: "int list"

record 'e octo_emulator =
  em_options :: octo_options
  em_keys :: "nat \<Rightarrow> bool"
  em_wait :: bool
  em_wait_reg :: int
  em_v :: "int \<Rightarrow> byte"
  em_ram :: "nat \<Rightarrow> byte"
  em_pc :: nat
  em_dt :: nat
  em_st :: nat
  em_halt :: bool
  em_halt_message :: string
  em_hires :: bool
  em_px :: "byte list"
  em_rest :: 'e

record 'e Chip8Core =
  emulator :: "'e octo_emulator"
  core_palette :: "u32 list"

section \<open>The core (\<open>chip8_core.c\<close>)\<close>

definition Chip8CoreDefaultOptions :: Chip8CoreOptions where
  "Chip8CoreDefaultOptions = \<lparr>tickrate = 20, shift_quirk = 0, load_store_quirk = 0, jump_quirk = 0,
     logic_quirk = 0, clip_quirk = 0, vblank_quirk = 0, colors = [0x000000, 0xffcc00, 0xff6600, 0x662200]\<rparr>"

definition selected_palette :: "Chip8CoreOptions \<Rightarrow> u32 list" where
  "selected_palette selected = map (\<lambda>i. colors selected ! i AND 0xffffff) [0..<4]"

definition octo_settings :: "nat \<Rightarrow> Chip8CoreOptions \<Rightarrow> octo_options" where
  "octo_settings bytes selected =
     \<lparr>opt_tickrate = tickrate selected,
      opt_max_rom = (if bytes \<le> 3584 then 3584 else 65024),
      opt_q_shift = (shift_quirk selected \<noteq> 0),
      opt_q_loadstore = (load_store_quirk selected \<noteq> 0),
      opt_q_jump0 = (jump_quirk selected \<noteq> 0),
      opt_q_logic = (logic_quirk selected \<noteq> 0),
      opt_q_clip = (clip_quirk selected \<noteq> 0),
      opt_q_vblank = (vblank_quirk selected \<noteq> 0),
      opt_colors = map (\<lambda>c. sint (0xff000000 OR c)) (selected_palette selected)\<rparr>"

text \<open>\<open>None\<close> is the null pointer; \<open>allocated\<close> is whether \<open>calloc\<close> succeeds.\<close>

definition Chip8CoreCreate ::
  "(byte list \<Rightarrow> octo_options \<Rightarrow> 'e octo_emulator) \<Rightarrow> bool \<Rightarrow> byte list \<Rightarrow> Chip8CoreOptions option \<Rightarrow>
     'e Chip8Core option" where
  "Chip8CoreCreate octo_init allocated rom_bytes options =
     (if rom_bytes = [] \<or> length rom_bytes > 65024 then None
      else
        (let selected = (case options of Some given \<Rightarrow> given | None \<Rightarrow> Chip8CoreDefaultOptions)
         in if tickrate selected < 1 \<or> tickrate selected > 50000 then None
            else if \<not> allocated then None
            else Some \<lparr>emulator = octo_init rom_bytes (octo_settings (length rom_bytes) selected),
                       core_palette = selected_palette selected\<rparr>))"

definition Chip8CoreSetKey :: "nat \<Rightarrow> bool \<Rightarrow> 'e Chip8Core \<Rightarrow> 'e Chip8Core" where
  "Chip8CoreSetKey key pressed core =
     (if key \<ge> 16 then core
      else
        (let e = emulator core;
             was_pressed = em_keys e key;
             e1 = e\<lparr>em_keys := (em_keys e)(key := pressed)\<rparr>
         in core\<lparr>emulator :=
              (if was_pressed \<and> \<not> pressed \<and> em_wait e1
               then e1\<lparr>em_v := (em_v e1)(em_wait_reg e1 := word_of_nat key), em_wait := False\<rparr>
               else e1)\<rparr>))"

text \<open>
  The instruction loop of a frame.  The bound is read anew before every instruction, so the loop
  ends only if the emulator leaves its options alone; \<open>None\<close> is a loop that does not end.
\<close>

definition draws_next :: "'e octo_emulator \<Rightarrow> bool" where
  "draws_next e = (em_ram e (em_pc e) AND 0xf0 = 0xd0)"

partial_function (option) run_instructions ::
  "('e octo_emulator \<Rightarrow> 'e octo_emulator) \<Rightarrow> int \<Rightarrow> 'e octo_emulator \<Rightarrow> 'e octo_emulator option" where
  "run_instructions octo_step i e =
     (if i < opt_tickrate (em_options e) \<and> \<not> em_halt e
      then run_instructions octo_step
             ((if opt_q_vblank (em_options e) \<and> draws_next e then opt_tickrate (em_options e) else i) + 1)
             (octo_step e)
      else Some e)"

definition Chip8CoreRunFrame ::
  "('e octo_emulator \<Rightarrow> 'e octo_emulator) \<Rightarrow> 'e Chip8Core \<Rightarrow> (bool \<times> 'e Chip8Core) option" where
  "Chip8CoreRunFrame octo_step core =
     (if em_halt (emulator core) then Some (False, core)
      else
        (case run_instructions octo_step 0 (emulator core) of
           None \<Rightarrow> None
         | Some e \<Rightarrow>
             (let e1 = (if em_dt e > 0 then e\<lparr>em_dt := em_dt e - 1\<rparr> else e);
                  sound = (em_st e1 > 0);
                  e2 = (if em_st e1 > 0 then e1\<lparr>em_st := em_st e1 - 1\<rparr> else e1)
              in Some (sound, core\<lparr>emulator := e2\<rparr>))))"

text \<open>Pixels, width, height and pitch.\<close>

definition Chip8CorePixels :: "'e Chip8Core \<Rightarrow> byte list \<times> u32 \<times> u32 \<times> nat" where
  "Chip8CorePixels core =
     (let hires = em_hires (emulator core)
      in (em_px (emulator core), if hires then 128 else 64, if hires then 64 else 32, if hires then 128 else 64))"

definition Chip8CoreHalted :: "'e Chip8Core \<Rightarrow> bool" where
  "Chip8CoreHalted core = em_halt (emulator core)"

section \<open>The program (\<open>chip8_deck.cpp\<close>)\<close>

definition kMaximumConfigBytes :: nat where "kMaximumConfigBytes = 4096"
definition kMaximumRomBytes :: nat where "kMaximumRomBytes = 65024"

subsection \<open>The configuration file\<close>

datatype InputProfile = InputOcto | InputSpaceRacer

record Configuration =
  cfg_core :: Chip8CoreOptions
  cfg_input :: InputProfile

definition default_configuration :: Configuration where
  "default_configuration = \<lparr>cfg_core = Chip8CoreDefaultOptions, cfg_input = InputOcto\<rparr>"

definition parse_boolean :: "string \<Rightarrow> int option" where
  "parse_boolean s = (if s \<noteq> ''0'' \<and> s \<noteq> ''1'' then None else Some (if s = ''1'' then 1 else 0))"

text \<open>The digits are read by the same loop as the colours of the catalogue.\<close>

definition parse_color :: "string \<Rightarrow> u32 option" where
  "parse_color s = (if length s \<noteq> 7 \<or> s ! 0 \<noteq> CHR ''#'' then None else parse_color_loop (drop 1 s) 0)"

text \<open>
  A value beyond \<open>long\<close> sets \<open>errno\<close>; the accepted range lies inside every \<open>long\<close>, so the test
  for \<open>errno\<close> follows from the range test.
\<close>

definition parse_tickrate :: "string \<Rightarrow> int option" where
  "parse_tickrate s =
     (case strtol (c_str s) of
        (parsed, rest) \<Rightarrow> if rest = [] \<and> parsed \<ge> 1 \<and> parsed \<le> 50000 then Some parsed else None)"

definition parse_profile :: "string \<Rightarrow> InputProfile option" where
  "parse_profile s =
     (if s = ''octo'' then Some InputOcto else if s = ''space-racer'' then Some InputSpaceRacer else None)"

text \<open>One setting; \<open>None\<close> is an unknown key or an invalid value.\<close>

definition apply_setting :: "string \<Rightarrow> string \<Rightarrow> Configuration \<Rightarrow> Configuration option" where
  "apply_setting key s c =
     (let core = cfg_core c
      in if key = ''tickrate'' then map_option (\<lambda>v. c\<lparr>cfg_core := core\<lparr>tickrate := v\<rparr>\<rparr>) (parse_tickrate s)
         else if key = ''shift_quirk'' then map_option (\<lambda>v. c\<lparr>cfg_core := core\<lparr>shift_quirk := v\<rparr>\<rparr>) (parse_boolean s)
         else if key = ''load_store_quirk''
           then map_option (\<lambda>v. c\<lparr>cfg_core := core\<lparr>load_store_quirk := v\<rparr>\<rparr>) (parse_boolean s)
         else if key = ''jump_quirk'' then map_option (\<lambda>v. c\<lparr>cfg_core := core\<lparr>jump_quirk := v\<rparr>\<rparr>) (parse_boolean s)
         else if key = ''logic_quirk'' then map_option (\<lambda>v. c\<lparr>cfg_core := core\<lparr>logic_quirk := v\<rparr>\<rparr>) (parse_boolean s)
         else if key = ''clip_quirk'' then map_option (\<lambda>v. c\<lparr>cfg_core := core\<lparr>clip_quirk := v\<rparr>\<rparr>) (parse_boolean s)
         else if key = ''vblank_quirk''
           then map_option (\<lambda>v. c\<lparr>cfg_core := core\<lparr>vblank_quirk := v\<rparr>\<rparr>) (parse_boolean s)
         else if length key = 6 \<and> take 5 key = ''color'' \<and> 48 \<le> byte_of (key ! 5) \<and> byte_of (key ! 5) \<le> 51
           then map_option (\<lambda>v. c\<lparr>cfg_core := core\<lparr>colors := (colors core)[byte_of (key ! 5) - 48 := v]\<rparr>\<rparr>)
                  (parse_color s)
         else if key = ''input'' then map_option (\<lambda>v. c\<lparr>cfg_input := v\<rparr>) (parse_profile s)
         else None)"

definition strip_cr :: "string \<Rightarrow> string" where
  "strip_cr raw =
     (if raw \<noteq> [] \<and> byte_of (raw ! (length raw - 1)) = 13 then take (length raw - 1) raw else raw)"

fun config_lines :: "string list \<Rightarrow> nat \<Rightarrow> Configuration \<Rightarrow> message + Configuration" where
  "config_lines [] n c = Inr c"
| "config_lines (raw # rest) n c =
     (let line_number = n + 1;
          line = strip_cr raw
      in if line = [] \<or> line ! 0 = CHR ''#'' then config_lines rest line_number c
         else
           (case find_char (CHR ''='') line 0 of
              None \<Rightarrow> Inl (Msg (''invalid CHIP-8 config line '' @ decimal line_number))
            | Some separator \<Rightarrow>
                if separator = 0 \<or> separator + 1 \<ge> length line
                then Inl (Msg (''invalid CHIP-8 config line '' @ decimal line_number))
                else
                  (case apply_setting (substr line 0 separator) (drop (separator + 1) line) c of
                     None \<Rightarrow> Inl (Msg (''invalid CHIP-8 config value on line '' @ decimal line_number))
                   | Some c' \<Rightarrow> config_lines rest line_number c')))"

text \<open>
  A stream that cannot be opened delivers no line and is not \<open>bad\<close>, so it counts as an empty file.
\<close>

definition parse_config :: "string \<Rightarrow> Configuration \<Rightarrow> world \<Rightarrow> (message + Configuration) \<times> world" where
  "parse_config path c w =
     (case sys_stat path w of
        (None, w1) \<Rightarrow>
          if last_errno w1 = ENOENT then (Inr c, w1) else (Inl (errno_message (''cannot stat '' @ path) w1), w1)
      | (Some (is_regular, file_size), w1) \<Rightarrow>
          if \<not> is_regular \<or> file_size > kMaximumConfigBytes
          then (Inl (Msg ''CHIP-8 config must be a regular file no larger than 4096 bytes''), w1)
          else
            (let (opened, w2) = stream_read path w1;
                 input = (case opened of None \<Rightarrow> ([], False) | Some delivered \<Rightarrow> delivered)
             in case config_lines (stream_lines input) 0 c of
                  Inl m \<Rightarrow> (Inl m, w2)
                | Inr c' \<Rightarrow> if snd input then (Inl (Msg (''cannot read CHIP-8 config '' @ path)), w2) else (Inr c', w2)))"

subsection \<open>The ROM\<close>

definition read_rom :: "string \<Rightarrow> world \<Rightarrow> (message + byte list) \<times> world" where
  "read_rom path w =
     (case sys_stat path w of
        (None, w1) \<Rightarrow> (Inl (errno_message (''cannot stat ROM '' @ path) w1), w1)
      | (Some (is_regular, file_size), w1) \<Rightarrow>
          if \<not> is_regular \<or> file_size = 0 \<or> file_size > kMaximumRomBytes
          then (Inl (Msg ''CHIP-8 ROM must contain 1 through 65024 bytes''), w1)
          else
            (let (opened, w2) = stream_read path w1;
                 delivered = (case opened of None \<Rightarrow> [] | Some (text, _) \<Rightarrow> take file_size text)
             in if length delivered \<noteq> file_size
                then (Inl (Msg (''cannot read complete CHIP-8 ROM '' @ path)), w2)
                else (Inr (map (\<lambda>c. word_of_nat (byte_of c)) delivered), w2)))"

subsection \<open>Input\<close>

text \<open>The array \<open>keys\<close>, given the state of both controllers.\<close>

definition profile_keys :: "InputProfile \<Rightarrow> u32 \<Rightarrow> u32 \<Rightarrow> bool list" where
  "profile_keys profile first second =
     (if profile = InputSpaceRacer
      then (replicate 16 False)
        [0x4 := first AND PAD_UP \<noteq> 0, 0x7 := first AND PAD_DOWN \<noteq> 0, 0xd := second AND PAD_UP \<noteq> 0,
         0xe := second AND PAD_DOWN \<noteq> 0, 0xf := first AND (PAD_A OR PAD_START) \<noteq> 0]
      else (replicate 16 False)
        [0x5 := first AND PAD_UP \<noteq> 0, 0x8 := first AND PAD_DOWN \<noteq> 0, 0x7 := first AND PAD_LEFT \<noteq> 0,
         0x9 := first AND PAD_RIGHT \<noteq> 0, 0x6 := first AND PAD_A \<noteq> 0, 0x4 := first AND PAD_B \<noteq> 0,
         0xa := first AND PAD_SELECT \<noteq> 0, 0xf := first AND PAD_START \<noteq> 0])"

definition update_input :: "InputProfile \<Rightarrow> u32 \<Rightarrow> u32 \<Rightarrow> 'e Chip8Core \<Rightarrow> 'e Chip8Core" where
  "update_input profile first second core =
     foldl (\<lambda>core key. Chip8CoreSetKey key (profile_keys profile first second ! key) core) core [0..<16]"

subsection \<open>The main program\<close>

text \<open>
  What the outside answers during one turn of the loop: whether a signal has arrived, the input
  states that the two calls of \<open>GetJoypadInput\<close> see, the clock after the wait, and what the
  thread that writes the sound has done since the last frame.
\<close>

record turn_answers =
  ta_shutdown :: bool
  ta_first :: input_state
  ta_second :: input_state
  ta_now :: int
  ta_writer :: "writer_action list"

record 'e chip8 =
  ch_core :: "'e Chip8Core"
  ch_input :: InputProfile
  ch_framebuffer :: DeckFramebuffer
  ch_audio :: DeckAudio
  ch_clock :: DeckFrameClock
  ch_frames :: nat

text \<open>One frame: whether presenting succeeded.  \<open>None\<close> is a call that never returns or is undefined.\<close>

definition chip8_frame ::
  "('e octo_emulator \<Rightarrow> 'e octo_emulator) \<Rightarrow> turn_answers \<Rightarrow> 'e chip8 \<Rightarrow> (bool \<times> 'e chip8) option" where
  "chip8_frame octo_step t s =
     (let core = update_input (ch_input s) (GetJoypadInput 0 (ta_first t)) (GetJoypadInput 1 (ta_second t)) (ch_core s)
      in case Chip8CoreRunFrame octo_step core of
           None \<Rightarrow> None
         | Some (sound, core') \<Rightarrow>
             (let (pixels, width, height, pitch) = Chip8CorePixels core';
                  s1 = s\<lparr>ch_core := core', ch_audio := foldl writer_acts (ch_audio s) (ta_writer t)\<rparr>
              in case present_indexed (Some pixels) width height pitch (Some (core_palette core')) (ch_framebuffer s1) of
                   (Inl _, fb) \<Rightarrow> Some (False, s1\<lparr>ch_framebuffer := fb\<rparr>)
                 | (Inr _, fb) \<Rightarrow>
                     (case (if available (ch_audio s1) then write_square_frame sound (ch_audio s1)
                            else Some (False, ch_audio s1)) of
                        None \<Rightarrow> None
                      | Some (_, au) \<Rightarrow>
                          Some (True, s1\<lparr>ch_framebuffer := fb, ch_audio := au,
                                         ch_clock := snd (wait_for_next_frame (ta_now t) (ch_clock s1)),
                                         ch_frames := ch_frames s1 + 1\<rparr>))))"

text \<open>The loop over the turns the outside offers; the exit status, if the program has ended.\<close>

fun chip8_loop ::
  "('e octo_emulator \<Rightarrow> 'e octo_emulator) \<Rightarrow> turn_answers list \<Rightarrow> 'e chip8 \<Rightarrow> (nat option \<times> 'e chip8) option" where
  "chip8_loop octo_step [] s = (if Chip8CoreHalted (ch_core s) then Some (Some 0, s) else Some (None, s))"
| "chip8_loop octo_step (t # ts) s =
     (if ta_shutdown t \<or> Chip8CoreHalted (ch_core s) then Some (Some 0, s)
      else
        (case chip8_frame octo_step t s of
           None \<Rightarrow> None
         | Some (False, s') \<Rightarrow> Some (Some 1, s')
         | Some (True, s') \<Rightarrow> chip8_loop octo_step ts s'))"

text \<open>What start-up meets: allocation, devices, environment, the clock and the exit hint.\<close>

record start_answers =
  sa_allocated :: bool
  sa_framebuffer :: fb_kernel
  sa_exit_hint :: bool
  sa_volume :: "string option"
  sa_audio :: dsp_kernel
  sa_now :: int

text \<open>The exit status, or the state the loop starts from; \<open>None\<close> if opening the sound never returns.\<close>

definition chip8_start ::
  "(byte list \<Rightarrow> octo_options \<Rightarrow> 'e octo_emulator) \<Rightarrow> start_answers \<Rightarrow> string list \<Rightarrow> world \<Rightarrow>
     ((nat + 'e chip8) \<times> world) option" where
  "chip8_start octo_init a argv w =
     (if length argv \<noteq> 2 then Some (Inl 2, w)
      else
        (case read_rom (argv ! 1) w of
           (Inl _, w1) \<Rightarrow> Some (Inl 1, w1)
         | (Inr rom_bytes, w1) \<Rightarrow>
             (case parse_config (argv ! 1 @ ''.cfg'') default_configuration w1 of
                (Inl _, w2) \<Rightarrow> Some (Inl 1, w2)
              | (Inr configuration, w2) \<Rightarrow>
                  (case Chip8CoreCreate octo_init (sa_allocated a) rom_bytes (Some (cfg_core configuration)) of
                     None \<Rightarrow> Some (Inl 1, w2)
                   | Some core \<Rightarrow>
                       (case fb_open_device (sa_framebuffer a) (created_framebuffer (sa_exit_hint a)) of
                          (Inl _, _) \<Rightarrow> Some (Inl 1, w2)
                        | (Inr _, fb) \<Rightarrow>
                            (case DeckReadVolumePercent (sa_volume a) of
                               (False, _) \<Rightarrow> Some (Inl 1, w2)
                             | (True, volume) \<Rightarrow>
                                 (case audio_open_device (sa_audio a) 44100 volume 8 created_audio of
                                    None \<Rightarrow> None
                                  | Some (_, au) \<Rightarrow>
                                      Some (Inr \<lparr>ch_core = core, ch_input = cfg_input configuration,
                                                 ch_framebuffer = fb, ch_audio = au,
                                                 ch_clock = \<lparr>start_nanoseconds = sa_now a,
                                                             frame_nanoseconds = 16666666, frame_number = 0\<rparr>,
                                                 ch_frames = 0\<rparr>, w2))))))))"

definition chip8_main ::
  "(byte list \<Rightarrow> octo_options \<Rightarrow> 'e octo_emulator) \<Rightarrow> ('e octo_emulator \<Rightarrow> 'e octo_emulator) \<Rightarrow> start_answers \<Rightarrow>
     turn_answers list \<Rightarrow> string list \<Rightarrow> world \<Rightarrow> nat option option" where
  "chip8_main octo_init octo_step a ts argv w =
     (case chip8_start octo_init a argv w of
        None \<Rightarrow> None
      | Some (Inl status, _) \<Rightarrow> Some (Some status)
      | Some (Inr s, _) \<Rightarrow> map_option fst (chip8_loop octo_step ts s))"

section \<open>A frame runs a bounded number of instructions\<close>

lemma run_instructions_stop:
  "\<not> (i < opt_tickrate (em_options e) \<and> \<not> em_halt e) \<Longrightarrow> run_instructions octo_step i e = Some e"
  by (subst run_instructions.simps) (simp only: if_False)

lemma run_instructions_step:
  assumes "i < opt_tickrate (em_options e)" "\<not> em_halt e"
  shows "run_instructions octo_step i e = run_instructions octo_step
     ((if opt_q_vblank (em_options e) \<and> draws_next e then opt_tickrate (em_options e) else i) + 1) (octo_step e)"
  by (subst run_instructions.simps) (simp add: assms)

text \<open>
  Where a frame ends: after the whole rate, at a halt, or after a drawing instruction when drawing
  waits for the vertical blank.
\<close>

definition frame_ends ::
  "('e octo_emulator \<Rightarrow> 'e octo_emulator) \<Rightarrow> nat \<Rightarrow> 'e octo_emulator \<Rightarrow> nat \<Rightarrow> bool" where
  "frame_ends octo_step rate e n =
     (let state = (\<lambda>k. (octo_step ^^ k) e);
          waits = (\<lambda>k. opt_q_vblank (em_options e) \<and> draws_next (state k))
      in n \<le> rate \<and> (\<forall>k<n. \<not> em_halt (state k)) \<and> (\<forall>k. k + 1 < n \<longrightarrow> \<not> waits k) \<and>
         (n = rate \<or> em_halt (state n) \<or> (0 < n \<and> waits (n - 1))))"

lemma run_instructions_ends:
  assumes keeps: "\<And>e. em_options (octo_step e) = em_options e"
    and "0 \<le> i" "i \<le> opt_tickrate (em_options e)"
  shows "\<exists>n. run_instructions octo_step i e = Some ((octo_step ^^ n) e) \<and>
    frame_ends octo_step (nat (opt_tickrate (em_options e) - i)) e n"
  using assms(2,3)
proof (induction "nat (opt_tickrate (em_options e) - i)" arbitrary: i e)
  case 0
  then have "run_instructions octo_step i e = Some e" by (intro run_instructions_stop) auto
  then show ?case using 0 by (intro exI [of _ 0]) (simp add: frame_ends_def)
next
  case (Suc m)
  let ?rate = "opt_tickrate (em_options e)" and ?waits = "opt_q_vblank (em_options e) \<and> draws_next e"
  show ?case
  proof (cases "em_halt e")
    case True
    then show ?thesis by (intro exI [of _ 0]) (simp add: frame_ends_def run_instructions_stop)
  next
    case live: False
    have i: "i < ?rate" using Suc.hyps(2) by simp
    note step = run_instructions_step [OF i live, of octo_step]
    show ?thesis
    proof (cases ?waits)
      case True
      then have "run_instructions octo_step i e = Some (octo_step e)"
        using step keeps [of e] by (simp add: run_instructions_stop)
      then show ?thesis using True live i by (intro exI [of _ 1]) (simp add: frame_ends_def)
    next
      case False
      obtain n where n: "run_instructions octo_step (i + 1) (octo_step e) = Some ((octo_step ^^ n) (octo_step e))"
        "frame_ends octo_step (nat (opt_tickrate (em_options (octo_step e)) - (i + 1))) (octo_step e) n"
        using Suc.hyps(1) [of "octo_step e" "i + 1"] Suc.hyps(2) Suc.prems i keeps [of e] by fastforce
      have shift: "(octo_step ^^ k) (octo_step e) = (octo_step ^^ Suc k) e" for k
        by (simp add: funpow_swap1)
      have ends: "frame_ends octo_step (nat (?rate - i)) e (Suc n)"
      proof -
        have r: "nat (?rate - i) = Suc (nat (?rate - (i + 1)))" using i by simp
        note f = n(2) [unfolded frame_ends_def Let_def keeps shift]
        have "\<not> em_halt ((octo_step ^^ k) e)" if "k < Suc n" for k
          using f live that by (cases k) auto
        moreover have "\<not> (opt_q_vblank (em_options e) \<and> draws_next ((octo_step ^^ k) e))" if "k + 1 < Suc n" for k
          using f False that by (cases k) auto
        moreover have "Suc n = nat (?rate - i) \<or> em_halt ((octo_step ^^ Suc n) e) \<or>
            (0 < Suc n \<and> opt_q_vblank (em_options e) \<and> draws_next ((octo_step ^^ (Suc n - 1)) e))"
          using f r by (cases n) auto
        ultimately show ?thesis using f r by (simp add: frame_ends_def)
      qed
      show ?thesis using step False n(1) ends by (intro exI [of _ "Suc n"]) (simp add: funpow_swap1)
    qed
  qed
qed

lemma run_frame_eq:
  assumes "\<not> em_halt (emulator core)" "run_instructions octo_step 0 (emulator core) = Some e"
  shows "Chip8CoreRunFrame octo_step core =
    Some (em_st e > 0, core\<lparr>emulator := e\<lparr>em_dt := em_dt e - 1, em_st := em_st e - 1\<rparr>\<rparr>)"
  using assms by (auto simp: Chip8CoreRunFrame_def Let_def)

text \<open>
  C19. If instructions leave the emulator's options alone, a frame returns: it runs exactly the
  instructions up to the tick rate, stopping before the rate only at a halt or, with the vblank
  quirk, right after the first instruction that draws; then both timers count down once, not below
  zero, and the buzzer sounds exactly when its timer was still running.  A halted core does nothing.
\<close>
theorem run_frame_exact:
  assumes "\<And>e. em_options (octo_step e) = em_options e" "0 \<le> opt_tickrate (em_options (emulator core))"
  shows "if em_halt (emulator core) then Chip8CoreRunFrame octo_step core = Some (False, core)
    else \<exists>n. frame_ends octo_step (nat (opt_tickrate (em_options (emulator core)))) (emulator core) n \<and>
      (let e = (octo_step ^^ n) (emulator core)
       in Chip8CoreRunFrame octo_step core =
            Some (em_st e > 0, core\<lparr>emulator := e\<lparr>em_dt := em_dt e - 1, em_st := em_st e - 1\<rparr>\<rparr>))"
proof (cases "em_halt (emulator core)")
  case False
  obtain n where n: "run_instructions octo_step 0 (emulator core) = Some ((octo_step ^^ n) (emulator core))"
    "frame_ends octo_step (nat (opt_tickrate (em_options (emulator core)) - 0)) (emulator core) n"
    using run_instructions_ends [OF assms(1) order_refl assms(2)] by blast
  then show ?thesis using False run_frame_eq [OF False n(1)] by (auto simp: Let_def)
qed (simp add: Chip8CoreRunFrame_def)

section \<open>The keypad\<close>

lemma set_key_keys: "key < 16 \<Longrightarrow>
  em_keys (emulator (Chip8CoreSetKey key pressed core)) = (em_keys (emulator core))(key := pressed)"
  by (simp add: Chip8CoreSetKey_def Let_def)

lemma find_append:
  "List.find P (xs @ ys) = (case List.find P xs of Some x \<Rightarrow> Some x | None \<Rightarrow> List.find P ys)"
  by (induction xs) auto

text \<open>The keys released by a scan of the keypad up to a key.\<close>

definition released_below :: "(nat \<Rightarrow> bool) \<Rightarrow> (nat \<Rightarrow> bool) \<Rightarrow> nat \<Rightarrow> nat option" where
  "released_below before after n = List.find (\<lambda>k. before k \<and> \<not> after k) [0..<n]"

definition answer_wait :: "nat option \<Rightarrow> 'e octo_emulator \<Rightarrow> 'e octo_emulator" where
  "answer_wait released e =
     (case released of
        None \<Rightarrow> e
      | Some key \<Rightarrow> if em_wait e then e\<lparr>em_v := (em_v e)(em_wait_reg e := word_of_nat key), em_wait := False\<rparr> else e)"

lemma scan_keys:
  assumes "n \<le> 16"
  shows "foldl (\<lambda>core key. Chip8CoreSetKey key (keys ! key) core) core [0..<n] =
    core\<lparr>emulator := (answer_wait (released_below (em_keys (emulator core)) ((!) keys) n) (emulator core))
      \<lparr>em_keys := (\<lambda>k. if k < n then keys ! k else em_keys (emulator core) k)\<rparr>\<rparr>"
  using assms
proof (induction n)
  case 0
  then show ?case by (simp add: released_below_def answer_wait_def)
next
  case (Suc n)
  let ?before = "em_keys (emulator core)"
  have found: "released_below ?before ((!) keys) (Suc n) =
      (case released_below ?before ((!) keys) n of Some k \<Rightarrow> Some k
       | None \<Rightarrow> if ?before n \<and> \<not> keys ! n then Some n else None)"
    by (simp add: released_below_def find_append split: option.split)
  have keys: "(\<lambda>k. if k < n then keys ! k else ?before k)(n := keys ! n) =
      (\<lambda>k. if k < Suc n then keys ! k else ?before k)" by (auto simp: fun_eq_iff less_Suc_eq)
  show ?case
    using Suc by (cases "released_below ?before ((!) keys) n")
      (auto simp: Chip8CoreSetKey_def Let_def answer_wait_def found keys [symmetric])
qed

text \<open>
  C23. Updating the keypad sets the sixteen keys to what the profile reads from the controllers and
  nothing else, except that an emulator waiting for a key gets the least key just released.
\<close>
theorem update_input_exact:
  fixes core :: "'e Chip8Core" and first second :: u32 and profile :: InputProfile
  defines "e \<equiv> emulator core" and "keys \<equiv> profile_keys profile first second"
  shows "\<exists>released. update_input profile first second core =
      core\<lparr>emulator := (answer_wait released e)\<lparr>em_keys := (\<lambda>k. if k < 16 then keys ! k else em_keys e k)\<rparr>\<rparr> \<and>
    (\<forall>k. released = Some k \<longleftrightarrow>
       k < 16 \<and> em_keys e k \<and> \<not> keys ! k \<and> (\<forall>j<k. \<not> (em_keys e j \<and> \<not> keys ! j)))"
proof (intro exI conjI allI)
  let ?released = "released_below (em_keys e) ((!) keys) 16"
  show "update_input profile first second core =
      core\<lparr>emulator := (answer_wait ?released e)\<lparr>em_keys := (\<lambda>k. if k < 16 then keys ! k else em_keys e k)\<rparr>\<rparr>"
    using scan_keys [of 16 keys core] by (simp add: update_input_def e_def keys_def)
  show "?released = Some k \<longleftrightarrow>
      k < 16 \<and> em_keys e k \<and> \<not> keys ! k \<and> (\<forall>j<k. \<not> (em_keys e j \<and> \<not> keys ! j))" for k
    by (auto simp: released_below_def find_Some_iff)
qed

section \<open>What a configuration file means\<close>

text \<open>The key and value of a line, \<open>None\<close> for blank lines and comments.\<close>

definition setting_of :: "string \<Rightarrow> (string \<times> string) option" where
  "setting_of raw =
     (let line = strip_cr raw
      in if line = [] \<or> hd line = CHR ''#'' then None
         else Some (takeWhile (\<lambda>c. c \<noteq> CHR ''='') line, drop 1 (dropWhile (\<lambda>c. c \<noteq> CHR ''='') line)))"

definition quirk_keys :: "string list" where
  "quirk_keys = [''shift_quirk'', ''load_store_quirk'', ''jump_quirk'', ''logic_quirk'', ''clip_quirk'', ''vblank_quirk'']"

definition color_keys :: "string list" where
  "color_keys = [''color0'', ''color1'', ''color2'', ''color3'']"

definition setting_ok :: "string \<Rightarrow> string \<Rightarrow> bool" where
  "setting_ok key s =
     (s \<noteq> [] \<and>
      ((key = ''tickrate'' \<and> parse_tickrate s \<noteq> None) \<or>
       (key \<in> set quirk_keys \<and> s \<in> set [''0'', ''1'']) \<or>
       (key \<in> set color_keys \<and> parse_color s \<noteq> None) \<or>
       (key = ''input'' \<and> s \<in> set [''octo'', ''space-racer''])))"

definition config_line_ok :: "string \<Rightarrow> bool" where
  "config_line_ok raw = (case setting_of raw of None \<Rightarrow> True | Some (key, s) \<Rightarrow> setting_ok key s)"

text \<open>The last value given to a key, read, or the default.\<close>

definition values_of :: "string \<Rightarrow> string list \<Rightarrow> string list" where
  "values_of key lines = map snd (filter (\<lambda>(k, s). k = key) (List.map_filter setting_of lines))"

definition last_setting :: "string \<Rightarrow> (string \<Rightarrow> 'a option) \<Rightarrow> 'a \<Rightarrow> string list \<Rightarrow> 'a" where
  "last_setting key read given lines =
     (if values_of key lines = [] then given else the (read (last (values_of key lines))))"

definition configured_by :: "string list \<Rightarrow> Configuration \<Rightarrow> Configuration" where
  "configured_by lines c =
     (let o1 = cfg_core c
      in \<lparr>cfg_core = \<lparr>tickrate = last_setting ''tickrate'' parse_tickrate (tickrate o1) lines,
            shift_quirk = last_setting ''shift_quirk'' parse_boolean (shift_quirk o1) lines,
            load_store_quirk = last_setting ''load_store_quirk'' parse_boolean (load_store_quirk o1) lines,
            jump_quirk = last_setting ''jump_quirk'' parse_boolean (jump_quirk o1) lines,
            logic_quirk = last_setting ''logic_quirk'' parse_boolean (logic_quirk o1) lines,
            clip_quirk = last_setting ''clip_quirk'' parse_boolean (clip_quirk o1) lines,
            vblank_quirk = last_setting ''vblank_quirk'' parse_boolean (vblank_quirk o1) lines,
            colors = map (\<lambda>i. last_setting (color_keys ! i) parse_color (colors o1 ! i) lines) [0..<4]\<rparr>,
          cfg_input = last_setting ''input'' parse_profile (cfg_input c) lines\<rparr>)"

lemma last_setting_Nil [simp]: "last_setting key read given [] = given"
  by (simp add: last_setting_def values_of_def List.map_filter_simps)

lemma last_setting_Cons:
  "last_setting key read given (raw # lines) =
     last_setting key read
       (case setting_of raw of Some (k, s) \<Rightarrow> if k = key then the (read s) else given | None \<Rightarrow> given) lines"
  by (auto simp: last_setting_def values_of_def List.map_filter_simps split: option.split)

lemma configured_Nil: "length (colors (cfg_core c)) = 4 \<Longrightarrow> configured_by [] c = c"
  by (cases c, cases "cfg_core c") (auto simp: configured_by_def Let_def intro: nth_equalityI)

lemma configured_colors [simp]: "length (colors (cfg_core (configured_by lines c))) = 4"
  by (simp add: configured_by_def Let_def)

lemma configured_Cons: "configured_by (raw # lines) c = configured_by lines (configured_by [raw] c)"
  by (auto simp: configured_by_def Let_def last_setting_Cons nth_upt split: option.split)

lemma color_key: "length key = 6 \<and> take 5 key = ''color'' \<and> 48 \<le> byte_of (key ! 5) \<and> byte_of (key ! 5) \<le> 51 \<longleftrightarrow>
    key \<in> set color_keys" (is "?form \<longleftrightarrow> _")
proof
  assume f: ?form
  define d where "d = key ! 5"
  have "drop 5 key = [d]" using f Cons_nth_drop_Suc [of 5 key] by (simp add: d_def)
  then have key: "key = ''color'' @ [d]" using f append_take_drop_id [of 5 key] by simp
  have "byte_of d \<in> set [48, 49, 50, 51]" using f by (auto simp: d_def)
  moreover have "byte_of (CHR ''0'') = 48" "byte_of (CHR ''1'') = 49" "byte_of (CHR ''2'') = 50" "byte_of (CHR ''3'') = 51"
    by (simp_all add: byte_of_def)
  ultimately have "d \<in> set ''0123''" using byte_of_inject [of d] by (metis list.set_intros set_ConsD empty_iff list.set(1))
  then show "key \<in> set color_keys" unfolding key by (auto simp: color_keys_def)
qed (auto simp: color_keys_def byte_of_def)

lemma apply_setting_exact:
  assumes "setting_of raw = Some (key, s)" "length (colors (cfg_core c)) = 4" "s \<noteq> []"
  shows "apply_setting key s c = (if setting_ok key s then Some (configured_by [raw] c) else None)"
proof -
  obtain t q1 q2 q3 q4 q5 q6 cs p where c: "c = \<lparr>cfg_core = \<lparr>tickrate = t, shift_quirk = q1, load_store_quirk = q2,
      jump_quirk = q3, logic_quirk = q4, clip_quirk = q5, vblank_quirk = q6, colors = cs\<rparr>, cfg_input = p\<rparr>"
    by (cases c, cases "cfg_core c") auto
  then obtain c0 c1 c2 c3 where cs: "cs = [c0, c1, c2, c3]"
    using assms(2) by (auto simp: length_Suc_conv numeral_eq_Suc)
  have four: "[0..<4] = [0, 1, 2, 3 :: nat]" by (simp add: upt_rec)
  note one = configured_by_def Let_def last_setting_Cons assms(1) last_setting_Nil four c cs color_keys_def quirk_keys_def
  have nocolor: "\<not> (length key = 6 \<and> take 5 key = ''color'' \<and> 48 \<le> byte_of (key ! 5) \<and> byte_of (key ! 5) \<le> 51)"
    if "key \<notin> set color_keys" using that color_key by blast
  consider "key \<in> set color_keys" | "key \<notin> set color_keys" by blast
  then show ?thesis
  proof cases
    case 1
    then have "apply_setting key s c =
        map_option (\<lambda>v. c\<lparr>cfg_core := (cfg_core c)\<lparr>colors := cs[byte_of (key ! 5) - 48 := v]\<rparr>\<rparr>) (parse_color s)"
      using color_key [of key] by (auto simp: apply_setting_def Let_def c color_keys_def)
    then show ?thesis
      using 1 assms(3) by (cases "parse_color s") (auto simp: setting_ok_def one byte_of_def)
  next
    case 2
    have bool: "parse_boolean s = Some v \<Longrightarrow> s \<in> set [''0'', ''1'']" "parse_boolean s = None \<Longrightarrow> s \<notin> set [''0'', ''1'']"
      "parse_profile s = Some m \<Longrightarrow> s \<in> set [''octo'', ''space-racer'']" 
      "parse_profile s = None \<Longrightarrow> s \<notin> set [''octo'', ''space-racer'']" for v m
      by (auto simp: parse_boolean_def parse_profile_def split: if_splits)
    note step = apply_setting_def nocolor [OF 2] setting_ok_def one
    consider "key = ''tickrate''" | "key \<in> set quirk_keys" | "key = ''input''"
      | "key \<notin> set (''tickrate'' # ''input'' # quirk_keys)" by auto
    then show ?thesis
    proof cases
      case 1
      then show ?thesis using 2 assms(3) by (cases "parse_tickrate s") (simp_all add: step)
    next
      case 2
      then show ?thesis
        using assms(3) bool(1,2) nocolor \<open>key \<notin> set color_keys\<close>
        by (cases "parse_boolean s") (auto simp: step)
    next
      case 3
      then show ?thesis using 2 assms(3) bool(3,4) by (cases "parse_profile s") (auto simp: step)
    next
      case 4
      then show ?thesis using 2 by (auto simp: step)
    qed
  qed
qed

lemma find_char_split:
  assumes "d \<notin> set key"
  shows "find_char d (key @ d # rest) 0 = Some (length key)"
proof -
  have "(key @ d # rest) ! j \<noteq> d" if "j < length key" for j
    using assms nth_mem [OF that] that by (auto simp: nth_append)
  then show ?thesis unfolding find_char_def find_Some_iff
    by (intro exI [of _ "length key"]) (auto simp: nth_append nth_upt simp del: upt_Suc)
qed

lemma split_at_equals:
  assumes "key = takeWhile (\<lambda>c. c \<noteq> CHR ''='') line" "s = drop 1 (dropWhile (\<lambda>c. c \<noteq> CHR ''='') line)"
  obtains (none) "find_char (CHR ''='') line 0 = None" "s = []"
  | (found) "find_char (CHR ''='') line 0 = Some (length key)" "line = key @ CHR ''='' # s"
proof (cases "dropWhile (\<lambda>c. c \<noteq> CHR ''='') line")
  case Nil
  then have "CHR ''='' \<notin> set line" by auto
  then have "find_char (CHR ''='') line 0 = None" by (auto simp: find_char_None in_set_conv_nth)
  then show thesis using none Nil assms(2) by simp
next
  case (Cons d rest)
  then have "d = CHR ''=''" using hd_dropWhile [of "\<lambda>c. c \<noteq> CHR ''=''" line] by simp
  then have line: "line = key @ CHR ''='' # s"
    using takeWhile_dropWhile_id [of "\<lambda>c. c \<noteq> CHR ''=''" line] Cons assms by simp
  moreover have "CHR ''='' \<notin> set key" using assms(1) by (auto dest: set_takeWhileD)
  ultimately show thesis using found find_char_split by blast
qed

lemma config_lines_exact:
  assumes "length (colors (cfg_core c)) = 4"
  shows "config_lines lines n c = Inr c' \<longleftrightarrow> list_all config_line_ok lines \<and> c' = configured_by lines c"
  using assms
proof (induction lines arbitrary: n c)
  case Nil
  then show ?case by (auto simp: configured_Nil)
next
  case (Cons raw lines)
  let ?line = "strip_cr raw"
  have rec: "config_lines lines m d = Inr c' \<longleftrightarrow> list_all config_line_ok lines \<and> c' = configured_by lines d"
    if "length (colors (cfg_core d)) = 4" for m d using Cons.IH [OF that] .
  show ?case
  proof (cases "setting_of raw")
    case None
    then have "?line = [] \<or> ?line ! 0 = CHR ''#''"
      by (cases ?line) (auto simp: setting_of_def Let_def split: if_splits)
    moreover have "configured_by (raw # lines) c = configured_by lines c"
      using None by (simp add: configured_by_def Let_def last_setting_Cons)
    ultimately show ?thesis using rec [OF Cons.prems] None by (simp add: config_line_ok_def [of raw] Let_def)
  next
    case (Some ks)
    then obtain key s where ks: "setting_of raw = Some (key, s)" by (cases ks) auto
    then have line: "?line \<noteq> []" "?line ! 0 \<noteq> CHR ''#''" "key = takeWhile (\<lambda>c. c \<noteq> CHR ''='') ?line"
      "s = drop 1 (dropWhile (\<lambda>c. c \<noteq> CHR ''='') ?line)"
      by (cases ?line; auto simp: setting_of_def Let_def split: if_splits)+
    show ?thesis
      using line(3,4)
    proof (cases rule: split_at_equals)
      case none
      then show ?thesis
        using ks line(1,2) by (auto simp: config_line_ok_def [of raw] setting_ok_def Let_def)
    next
      case found
      have lengths: "length key + 1 \<ge> length ?line \<longleftrightarrow> s = []" "substr ?line 0 (length key) = key"
        "drop (length key + 1) ?line = s"
        unfolding found(2) by (simp_all add: substr_def)
      show ?thesis
      proof (cases "s = [] \<or> key = []")
        case True
        then have "\<not> config_line_ok raw"
          using ks by (auto simp: config_line_ok_def setting_ok_def quirk_keys_def color_keys_def)
        then show ?thesis using True line(1,2) found(1) lengths(1) by (auto simp: Let_def)
      next
        case False
        then have "config_lines (raw # lines) n c = (case apply_setting key s c of
            None \<Rightarrow> Inl (Msg (''invalid CHIP-8 config value on line '' @ decimal (n + 1)))
          | Some d \<Rightarrow> config_lines lines (n + 1) d)"
          using line(1,2) found(1) lengths by (simp add: Let_def split: option.split)
        then show ?thesis
          using apply_setting_exact [OF ks Cons.prems] False rec [of "configured_by [raw] c"] ks
          by (simp add: config_line_ok_def [of raw] configured_Cons [of raw lines c])
      qed
    qed
  qed
qed

text \<open>
  A configuration is accepted exactly when the file is missing, or is a regular file of at most
  4096 bytes whose every line is blank, a comment or a known key with a valid value; each setting
  then has the last value given to it, or else its default.
\<close>
theorem parse_config_exact:
  assumes "schedule w = []"
  shows "(\<exists>w'. parse_config path default_configuration w = (Inr c, w')) \<longleftrightarrow>
    (names w path = None \<and> c = default_configuration) \<or>
    (\<exists>text. file_content w path = Some text \<and> length text \<le> 4096 \<and>
       list_all config_line_ok (stream_lines (text, False)) \<and>
       c = configured_by (stream_lines (text, False)) default_configuration)"
proof -
  have sched: "next_outcome v = (Success, v)" if "schedule v = []" for v using that by (simp add: next_outcome_def)
  have colors: "length (colors (cfg_core default_configuration)) = 4"
    by (simp add: default_configuration_def Chip8CoreDefaultOptions_def)
  note lines = config_lines_exact [OF colors, where n = 0]
  show ?thesis
  proof (cases "names w path")
    case None
    then show ?thesis
      by (auto simp: parse_config_def sys_stat_def sched [OF assms] fail_def file_content_def)
  next
    case (Some i)
    let ?text = "content (inodes w i)"
    have "fst (parse_config path default_configuration w) =
        (if \<not> regular (inodes w i) \<or> length ?text > 4096
         then Inl (Msg ''CHIP-8 config must be a regular file no larger than 4096 bytes'')
         else config_lines (stream_lines (?text, False)) 0 default_configuration)"
      using Some by (simp add: parse_config_def sys_stat_def stream_read_def sched [OF assms] kMaximumConfigBytes_def
          Let_def split: sum.split)
    moreover have "(\<exists>w'. parse_config path default_configuration w = (Inr c, w')) \<longleftrightarrow>
        fst (parse_config path default_configuration w) = Inr c" by (metis fst_conv prod.collapse)
    ultimately show ?thesis
      using Some lines [of "stream_lines (?text, False)" c]
      by (cases "regular (inodes w i)"; cases "length ?text \<le> 4096") (auto simp: file_content_def)
  qed
qed

text \<open>A configuration that exists but cannot be opened counts as empty, without an error.\<close>

lemma unreadable_config_ignored:
  assumes "schedule w = [Success, Fault err]" "names w path = Some i" "regular (inodes w i)"
    "length (content (inodes w i)) \<le> 4096"
  shows "fst (parse_config path c w) = Inr c"
  using assms by (simp add: parse_config_def sys_stat_def stream_read_def next_outcome_def fail_def
      kMaximumConfigBytes_def Let_def stream_lines_def)

section \<open>Every frame reaches the panel\<close>

lemma core_layouts: "DeckComputeScaledLayout 64 32 \<noteq> None" "DeckComputeScaledLayout 128 64 \<noteq> None"
  by code_simp+

lemma set_key_frame [simp]:
  "em_options (emulator (Chip8CoreSetKey key pressed core)) = em_options (emulator core)"
  "core_palette (Chip8CoreSetKey key pressed core) = core_palette core"
  by (simp_all add: Chip8CoreSetKey_def Let_def)

lemma update_input_frame [simp]:
  "em_options (emulator (update_input profile first second core)) = em_options (emulator core)"
  "core_palette (update_input profile first second core) = core_palette core"
proof -
  have "em_options (emulator (foldl (\<lambda>core key. Chip8CoreSetKey key (keys ! key) core) core ks)) = em_options (emulator core) \<and>
      core_palette (foldl (\<lambda>core key. Chip8CoreSetKey key (keys ! key) core) core ks) = core_palette core" for keys ks
    by (induction ks arbitrary: core) auto
  then show "em_options (emulator (update_input profile first second core)) = em_options (emulator core)"
    "core_palette (update_input profile first second core) = core_palette core"
    by (simp_all add: update_input_def)
qed

lemma run_frame_returns:
  assumes keeps: "\<And>e. em_options (octo_step e) = em_options e" and "0 \<le> opt_tickrate (em_options (emulator core))"
  obtains sound core' where "Chip8CoreRunFrame octo_step core = Some (sound, core')"
    "em_options (emulator core') = em_options (emulator core)" "core_palette core' = core_palette core"
proof (cases "em_halt (emulator core)")
  case True
  then show thesis using that [of False core] by (simp add: Chip8CoreRunFrame_def)
next
  case False
  obtain n where n: "run_instructions octo_step 0 (emulator core) = Some ((octo_step ^^ n) (emulator core))"
    using run_instructions_ends [OF keeps order_refl assms(2)] by blast
  have "em_options ((octo_step ^^ n) e) = em_options e" for n e by (induction n) (simp_all add: keeps)
  then show thesis using that [OF run_frame_eq [OF False n]] by simp
qed

text \<open>What the loop relies on: a usable framebuffer, a volume, a palette and a tick rate.\<close>

definition chip8_ready :: "'e chip8 \<Rightarrow> bool" where
  "chip8_ready s =
     (fb_usable (ch_framebuffer s) \<and> volume_percent (ch_audio s) \<le> 100 \<and> core_palette (ch_core s) \<noteq> [] \<and>
      0 \<le> opt_tickrate (em_options (emulator (ch_core s))))"

lemma writer_acts_volumes: "volume_percent (foldl writer_acts au actions) = volume_percent au"
  by (induction actions arbitrary: au) auto

text \<open>The colours of the picture a core shows.\<close>

definition core_picture :: "'e Chip8Core \<Rightarrow> DeckFramebuffer \<Rightarrow> u16 list option" where
  "core_picture core fb =
     (let (shown, width, height, pitch) = Chip8CorePixels core
      in panel_contents width height (indexed_colour shown pitch (core_palette core)) fb)"

lemma present_core:
  assumes "fb_usable fb" "core_palette core \<noteq> []" "Chip8CorePixels core = (shown, width, height, pitch)"
  obtains fb' where "present_indexed (Some shown) width height pitch (Some (core_palette core)) fb = (Inr (), fb')"
    "fb_usable fb'" "fb_memory fb' = core_picture core fb"
proof -
  have "DeckComputeScaledLayout width height \<noteq> None" "unat width \<le> pitch"
    using assms(3) core_layouts by (auto simp: Chip8CorePixels_def Let_def split: if_splits)
  from present_indexed_shows [OF assms(1) this(1) assms(2) this(2), of shown] show thesis
    using that assms(3) by (auto simp: core_picture_def)
qed

lemma chip8_frame_ready:
  assumes keeps: "\<And>e. em_options (octo_step e) = em_options e" and ready: "chip8_ready s"
  shows "\<exists>core sound au fb.
    Chip8CoreRunFrame octo_step (update_input (ch_input s) (GetJoypadInput 0 (ta_first t))
      (GetJoypadInput 1 (ta_second t)) (ch_core s)) = Some (sound, core) \<and>
    fb_memory fb = core_picture core (ch_framebuffer s) \<and>
    chip8_frame octo_step t s = Some (True, s\<lparr>ch_core := core, ch_framebuffer := fb, ch_audio := au,
      ch_clock := snd (wait_for_next_frame (ta_now t) (ch_clock s)), ch_frames := ch_frames s + 1\<rparr>) \<and>
    chip8_ready (s\<lparr>ch_core := core, ch_framebuffer := fb, ch_audio := au,
      ch_clock := snd (wait_for_next_frame (ta_now t) (ch_clock s)), ch_frames := ch_frames s + 1\<rparr>)"
proof -
  let ?core = "update_input (ch_input s) (GetJoypadInput 0 (ta_first t)) (GetJoypadInput 1 (ta_second t)) (ch_core s)"
  let ?au = "foldl writer_acts (ch_audio s) (ta_writer t)"
  note r = ready [unfolded chip8_ready_def]
  obtain sound core where run: "Chip8CoreRunFrame octo_step ?core = Some (sound, core)"
    "em_options (emulator core) = em_options (emulator (ch_core s))" "core_palette core = core_palette (ch_core s)"
    using run_frame_returns [OF keeps, where core = ?core] r by auto
  obtain shown width height pitch where px: "Chip8CorePixels core = (shown, width, height, pitch)"
    by (cases "Chip8CorePixels core") auto
  obtain fb where fb: "present_indexed (Some shown) width height pitch (Some (core_palette core)) (ch_framebuffer s) = (Inr (), fb)"
    "fb_usable fb" "fb_memory fb = core_picture core (ch_framebuffer s)"
    using present_core [OF _ _ px, of "ch_framebuffer s"] r run(3) by metis
  have volume: "volume_percent ?au \<le> 100" using r by (simp add: writer_acts_volumes)
  obtain ok au where au: "(if available ?au then write_square_frame sound ?au else Some (False, ?au)) = Some (ok, au)"
    "volume_percent au \<le> 100"
    using write_square_frame_defined [OF volume, of sound] write_square_volume [of sound ?au] volume
    by (cases "available ?au") fastforce+
  let ?s = "s\<lparr>ch_core := core, ch_framebuffer := fb, ch_audio := au,
      ch_clock := snd (wait_for_next_frame (ta_now t) (ch_clock s)), ch_frames := ch_frames s + 1\<rparr>"
  have "chip8_frame octo_step t s = Some (True, ?s)"
    using run(1) px fb(1) au(1) by (cases "available ?au") (simp_all add: chip8_frame_def Let_def)
  moreover have "chip8_ready ?s" using r run fb(2) au(2) by (simp add: chip8_ready_def)
  ultimately show ?thesis using run(1) fb(3) by blast
qed

lemma chip8_start_ready:
  assumes "chip8_start octo_init a argv w = Some (Inr s, w')" "even (k_smem_len (sa_framebuffer a))"
    and init: "\<And>rom_bytes options. em_options (octo_init rom_bytes options) = options"
  shows "chip8_ready s" "ch_frames s = 0"
proof -
  obtain rom_bytes and configuration :: Configuration and v r where parts:
    "Chip8CoreCreate octo_init (sa_allocated a) rom_bytes (Some (cfg_core configuration)) = Some (ch_core s)"
    "fb_open_device (sa_framebuffer a) (created_framebuffer (sa_exit_hint a)) = (Inr (), ch_framebuffer s)"
    "audio_open_device (sa_audio a) 44100 v 8 created_audio = Some (r, ch_audio s)" "ch_frames s = 0"
    using assms(1) by (auto simp: chip8_start_def split: if_splits prod.splits sum.splits option.splits bool.splits)
  let ?o = "cfg_core configuration"
  have "ch_core s = \<lparr>emulator = octo_init rom_bytes (octo_settings (length rom_bytes) ?o),
      core_palette = selected_palette ?o\<rparr> \<and> 1 \<le> tickrate ?o"
    using parts(1) unfolding Chip8CoreCreate_def Let_def by (simp split: if_splits)
  then have "core_palette (ch_core s) \<noteq> []" "0 \<le> opt_tickrate (em_options (emulator (ch_core s)))"
    using init by (simp_all add: octo_settings_def selected_palette_def)
  then show "chip8_ready s" "ch_frames s = 0"
    using fb_open_usable [OF parts(2) assms(2)] parts(3,4) audio_open_device_volume by (auto simp: chip8_ready_def)
qed

text \<open>
  How a run over the turns may end: every turn has had its frame and nothing asked to stop, or
  status 0 after the frames of the turns before a signal or a halt.
\<close>

definition session_outcome :: "turn_answers list \<Rightarrow> nat \<Rightarrow> nat option \<Rightarrow> 'e chip8 \<Rightarrow> bool" where
  "session_outcome ts shown status s =
     (case status of
        None \<Rightarrow> ch_frames s = shown + length ts \<and> list_all (\<lambda>t. \<not> ta_shutdown t) ts \<and> \<not> Chip8CoreHalted (ch_core s)
      | Some code \<Rightarrow> code = 0 \<and> (\<exists>n \<le> length ts. ch_frames s = shown + n \<and> list_all (\<lambda>t. \<not> ta_shutdown t) (take n ts) \<and>
          ((n < length ts \<and> ta_shutdown (ts ! n)) \<or> Chip8CoreHalted (ch_core s))))"

lemma session_outcome_Cons:
  assumes "session_outcome ts (shown + 1) status s" "\<not> ta_shutdown t"
  shows "session_outcome (t # ts) shown status s"
proof (cases status)
  case None
  then show ?thesis using assms by (simp add: session_outcome_def)
next
  case (Some code)
  then obtain n where "code = 0" "n \<le> length ts" "ch_frames s = shown + 1 + n" "list_all (\<lambda>t. \<not> ta_shutdown t) (take n ts)"
    "(n < length ts \<and> ta_shutdown (ts ! n)) \<or> Chip8CoreHalted (ch_core s)"
    using assms(1) by (auto simp: session_outcome_def)
  then show ?thesis using assms(2) Some by (auto simp: session_outcome_def intro!: exI [of _ "Suc n"])
qed

lemma chip8_loop_runs:
  assumes keeps: "\<And>e. em_options (octo_step e) = em_options e" and "chip8_ready s"
  shows "\<exists>status s'. chip8_loop octo_step ts s = Some (status, s') \<and> session_outcome ts (ch_frames s) status s'"
  using assms(2)
proof (induction ts arbitrary: s)
  case Nil
  then show ?case by (auto simp: session_outcome_def)
next
  case (Cons t ts)
  show ?case
  proof (cases "ta_shutdown t \<or> Chip8CoreHalted (ch_core s)")
    case True
    then show ?thesis by (auto simp: session_outcome_def intro!: exI [of _ 0])
  next
    case False
    obtain s1 where f: "chip8_frame octo_step t s = Some (True, s1)" "chip8_ready s1" "ch_frames s1 = ch_frames s + 1"
      using chip8_frame_ready [OF keeps Cons.prems, of t] by fastforce
    obtain status s' where "chip8_loop octo_step ts s1 = Some (status, s')" "session_outcome ts (ch_frames s1) status s'"
      using Cons.IH [OF f(2)] by auto
    then show ?thesis using False f session_outcome_Cons by auto
  qed
qed

text \<open>
  C12. Once started on a framebuffer whose memory has an even size, with an emulator that keeps its
  options, the program neither fails nor hangs in a frame, whatever the input, the sound thread and
  the clock do: it goes on through all the turns, one frame each, or ends with status 0 at the
  first turn after a signal or a halt.
\<close>
theorem chip8_session_runs:
  assumes "chip8_start octo_init a argv w = Some (Inr s, w')" "even (k_smem_len (sa_framebuffer a))"
    and "\<And>rom_bytes options. em_options (octo_init rom_bytes options) = options"
    and "\<And>e. em_options (octo_step e) = em_options e"
  shows "\<exists>status s'. chip8_loop octo_step ts s = Some (status, s') \<and> session_outcome ts 0 status s'"
  using chip8_loop_runs [OF assms(4) chip8_start_ready(1) [OF assms(1-3)], of ts]
  unfolding chip8_start_ready(2) [OF assms(1-3)] .

text \<open>
  C17. A frame gives the keypad the controllers' state, runs the core, shows on the panel exactly the
  core's picture in the core's colours, and leaves the program ready for the next frame.
\<close>
theorem chip8_frame_shows:
  assumes "\<And>e. em_options (octo_step e) = em_options e" "chip8_ready s"
  shows "\<exists>core sound s'. Chip8CoreRunFrame octo_step (update_input (ch_input s) (GetJoypadInput 0 (ta_first t))
      (GetJoypadInput 1 (ta_second t)) (ch_core s)) = Some (sound, core) \<and>
    chip8_frame octo_step t s = Some (True, s') \<and> ch_core s' = core \<and> chip8_ready s' \<and>
    fb_memory (ch_framebuffer s') = core_picture core (ch_framebuffer s)"
  using chip8_frame_ready [OF assms, of t] by (elim exE conjE) (intro exI conjI, assumption+, simp_all)

section \<open>Witnesses\<close>

text \<open>A small emulator: it counts instructions in the program counter and never halts.\<close>

definition example_init :: "byte list \<Rightarrow> octo_options \<Rightarrow> unit octo_emulator" where
  "example_init rom_bytes options = \<lparr>em_options = options, em_keys = (\<lambda>_. False), em_wait = False, em_wait_reg = 0,
     em_v = (\<lambda>_. 0), em_ram = (\<lambda>_. 0), em_pc = 0, em_dt = 2, em_st = 1, em_halt = False, em_halt_message = [],
     em_hires = False, em_px = replicate 2048 0, em_rest = ()\<rparr>"

definition example_step :: "unit octo_emulator \<Rightarrow> unit octo_emulator" where
  "example_step e = e\<lparr>em_pc := em_pc e + 1\<rparr>"

lemma example_laws: "em_options (example_init rom_bytes options) = options" "em_options (example_step e) = em_options e"
  by (simp_all add: example_init_def example_step_def)

definition example_core :: "unit Chip8Core" where
  "example_core = \<lparr>emulator = example_init [0] (octo_settings 1 Chip8CoreDefaultOptions),
     core_palette = selected_palette Chip8CoreDefaultOptions\<rparr>"

theorem run_frame_exact_witness:
  "\<exists>core. Chip8CoreRunFrame example_step example_core = Some (True, core) \<and> em_st (emulator core) = 0"
proof -
  have "\<not> em_halt (emulator example_core)" "0 \<le> opt_tickrate (em_options (emulator example_core))"
    "em_st ((example_step ^^ n) e) = em_st e" for n e
    by (simp_all add: example_core_def example_init_def octo_settings_def Chip8CoreDefaultOptions_def)
      (induction n, simp_all add: example_step_def)
  with run_frame_exact [OF example_laws(2), of example_core] show ?thesis
    by (auto simp: Let_def example_core_def example_init_def)
qed

theorem update_input_exact_witness:
  "em_keys (emulator (update_input InputOcto 0x10 0 example_core)) 5"
  using update_input_exact [where profile = InputOcto and first = "0x10" and second = 0 and core = example_core]
  by (auto simp: profile_keys_def PAD_UP_def answer_wait_def)

definition chip8_world :: world where
  "chip8_world = \<lparr>names = [''r'' \<mapsto> 0], inodes = (\<lambda>_. \<lparr>regular = True, content = ''x''\<rparr>), next_inode = 1,
     fds = Map.empty, next_fd = 3, schedule = [], last_errno = ENOENT, pid = 1\<rparr>"

theorem parse_config_exact_witness:
  "\<exists>w'. parse_config ''r.cfg'' default_configuration chip8_world = (Inr default_configuration, w')"
proof -
  have "schedule chip8_world = []" "names chip8_world ''r.cfg'' = None" by (simp_all add: chip8_world_def)
  then show ?thesis using parse_config_exact [of chip8_world "''r.cfg''" default_configuration] by simp
qed

definition example_answers :: start_answers where
  "example_answers = \<lparr>sa_allocated = True, sa_framebuffer = example_kernel, sa_exit_hint = True, sa_volume = Some ''0'',
     sa_audio = example_dsp, sa_now = 0\<rparr>"

lemma example_start:
  "\<exists>s w'. chip8_start example_init example_answers [''chip8'', ''r''] chip8_world = Some (Inr s, w')"
proof -
  have outcome: "next_outcome v = (Success, v)" if "schedule v = []" for v using that by (simp add: next_outcome_def)
  have rom: "\<exists>bytes. read_rom ''r'' chip8_world = (Inr bytes, chip8_world) \<and> length bytes = 1"
    by (simp add: read_rom_def sys_stat_def stream_read_def outcome chip8_world_def kMaximumRomBytes_def)
  have config: "\<exists>w'. parse_config ''r.cfg'' default_configuration chip8_world = (Inr default_configuration, w')"
    by (simp add: parse_config_def sys_stat_def outcome chip8_world_def fail_def)
  have fb: "\<exists>fb. fb_open_device example_kernel (created_framebuffer True) = (Inr (), fb)"
    by (simp add: fb_open_device_def Let_def example_kernel_def fb_rows_def fb_supported_def)
  have audio: "\<exists>au. audio_open_device example_dsp 44100 0 8 created_audio = Some (Inr (), au)"
    by (simp add: audio_open_device_def Let_def)
  have volume: "DeckReadVolumePercent (Some ''0'') = (True, 0)"
    by (simp add: DeckReadVolumePercent_def is_digit_def digit_value_def byte_of_def)
  show ?thesis
    using rom config fb audio volume
    by (auto simp: chip8_start_def example_answers_def Chip8CoreCreate_def default_configuration_def
        Chip8CoreDefaultOptions_def Let_def)
qed

theorem chip8_session_runs_witness:
  "\<exists>s w' status s'. chip8_start example_init example_answers [''chip8'', ''r''] chip8_world = Some (Inr s, w') \<and>
     chip8_loop example_step [] s = Some (status, s') \<and> session_outcome [] 0 status s'"
proof -
  obtain s w' where start: "chip8_start example_init example_answers [''chip8'', ''r''] chip8_world = Some (Inr s, w')"
    using example_start by blast
  have "even (k_smem_len (sa_framebuffer example_answers))" by (simp add: example_answers_def example_kernel_def)
  from chip8_session_runs [OF start this example_laws(1) example_laws(2), of "[]"] start show ?thesis by blast
qed

theorem chip8_frame_shows_witness:
  "\<exists>s s'. chip8_ready s \<and> chip8_frame example_step
     \<lparr>ta_shutdown = False, ta_first = initial_input 0 [], ta_second = initial_input 0 [], ta_now = 0, ta_writer = []\<rparr> s =
       Some (True, s')"
proof -
  obtain s w' where start: "chip8_start example_init example_answers [''chip8'', ''r''] chip8_world = Some (Inr s, w')"
    using example_start by blast
  have "even (k_smem_len (sa_framebuffer example_answers))" by (simp add: example_answers_def example_kernel_def)
  from chip8_start_ready(1) [OF start this example_laws(1)] have "chip8_ready s" .
  with chip8_frame_shows [OF example_laws(2) this] show ?thesis by blast
qed

end
