(* ===== verification/Libretro_Save.thy ===== *)
theory Libretro_Save
  imports Menu_State Nes_Sram Menu_Network
begin

section \<open>Battery saves of the Libretro frontends (\<open>src/libretro_deck.cpp\<close>)\<close>

text \<open>
  One source compiles to three programs; the preprocessor switch is the argument \<open>deck\<close>.  A save
  memory of the core is \<open>None\<close> for a null pointer.  The calls on files are those of \<open>Posix_World\<close>,
  whose bytes are characters; the loops of \<open>write_all\<close> and of the reader are the ones of
  \<open>menu_state.cpp\<close>.
\<close>

datatype frontend = NesDeck | GbDeck | ZxDeck

definition kSaveExtension :: "frontend \<Rightarrow> string" where
  "kSaveExtension deck = (case deck of NesDeck \<Rightarrow> ''.srm'' | GbDeck \<Rightarrow> ''.sav'' | ZxDeck \<Rightarrow> ''.sav'')"

definition kMinimumRomBytes :: "frontend \<Rightarrow> nat" where
  "kMinimumRomBytes deck = (case deck of NesDeck \<Rightarrow> 16 | GbDeck \<Rightarrow> 0x150 | ZxDeck \<Rightarrow> 4)"

definition kPlayerCount :: "frontend \<Rightarrow> nat" where
  "kPlayerCount deck = (case deck of NesDeck \<Rightarrow> 2 | GbDeck \<Rightarrow> 1 | ZxDeck \<Rightarrow> 2)"

definition kHasRtc :: "frontend \<Rightarrow> bool" where
  "kHasRtc deck = (deck = GbDeck)"

definition kMaximumRomBytes :: nat where "kMaximumRomBytes = 8 * 1024 * 1024"

text \<open>File bytes and memory bytes.\<close>

definition octets :: "string \<Rightarrow> byte list" where
  "octets = map (\<lambda>c. word_of_nat (byte_of c))"

definition chars :: "byte list \<Rightarrow> string" where
  "chars = map (\<lambda>b. char_of (unat b))"

section \<open>Paths\<close>

definition save_base :: "string \<Rightarrow> string" where
  "save_base path =
     (let separator = rfind_char CHR ''/'' path (length path);
          dot = rfind_char CHR ''.'' path (length path)
      in case dot of
           None \<Rightarrow> path
         | Some d \<Rightarrow> (case separator of
                        Some s \<Rightarrow> if d < s then path else substr path 0 d
                      | None \<Rightarrow> substr path 0 d))"

section \<open>Saving\<close>

definition save_temporary :: "string \<Rightarrow> nat \<Rightarrow> string" where
  "save_temporary path process = path @ ''.tmp.'' @ decimal process"

definition save_memory_file :: "string \<Rightarrow> byte list option \<Rightarrow> world \<Rightarrow> bool \<times> world" where
  "save_memory_file path memory w =
     (if memory = None \<or> memory = Some [] then (True, w)
      else
        (let temporary = save_temporary path (pid w)
         in case sys_create temporary w of
              (None, w1) \<Rightarrow> (False, w1)
            | (Some fd, w1) \<Rightarrow>
                (let (ok1, w2) = write_all fd (chars (the memory)) w1;
                     (ok2, w3) = (if ok1 then (let (r, w') = sys_fsync fd w2 in (r \<noteq> None, w')) else (False, w2));
                     (closed, w4) = sys_close fd w3;
                     ok3 = (ok2 \<and> closed \<noteq> None);
                     (ok4, w5) = (if ok3 then (let (r, w') = sys_rename temporary path w4 in (r \<noteq> None, w'))
                                  else (False, w4))
                 in if \<not> ok4 then (False, snd (sys_unlink temporary w5)) else (True, w5))))"

section \<open>Loading\<close>

text \<open>
  The memory afterwards, whatever went wrong: a decoder that fails and a read that stops early have
  already overwritten part of it.
\<close>

definition migrate_save :: "string \<Rightarrow> nat \<Rightarrow> byte list \<Rightarrow> world \<Rightarrow> (bool \<times> byte list) \<times> world" where
  "migrate_save path file_size memory w =
     (if file_size > 0 \<and> file_size \<le> NesSramMaximumEncodedSize (length memory)
      then
        (let (opened, w1) = stream_read path w;
             delivered = (case opened of None \<Rightarrow> [] | Some (text, _) \<Rightarrow> take file_size text)
         in if length delivered = file_size
            then (let (ok, out) = NesSramDecode (Some (octets delivered)) (Some memory) in ((ok, the out), w1))
            else ((False, memory), w1))
      else ((False, memory), w))"

definition read_save :: "string \<Rightarrow> byte list \<Rightarrow> world \<Rightarrow> byte list \<times> world" where
  "read_save path memory w =
     (case sys_open path w of
        (None, w1) \<Rightarrow> (memory, w1)
      | (Some fd, w1) \<Rightarrow>
          (let ((stop, bytes), w2) = read_loop fd (length memory) [] w1
           in (blit memory 0 (octets bytes), snd (sys_close fd w2))))"

definition load_memory_file :: "frontend \<Rightarrow> string \<Rightarrow> byte list option \<Rightarrow> world \<Rightarrow> byte list option \<times> world" where
  "load_memory_file deck path memory w =
     (if memory = None \<or> memory = Some [] then (memory, w)
      else
        (case sys_stat path w of
           (None, w1) \<Rightarrow> (memory, w1)
         | (Some (is_regular, file_size), w1) \<Rightarrow>
             if \<not> is_regular then (memory, w1)
             else if file_size \<noteq> length (the memory)
             then (if deck = NesDeck
                   then (let ((_, out), w2) = migrate_save path file_size (the memory) w1 in (Some out, w2))
                   else (memory, w1))
             else (let (out, w2) = read_save path (the memory) w1 in (Some out, w2))))"

section \<open>Both memories of a core\<close>

record save_memories =
  save_ram :: "byte list option"
  rtc :: "byte list option"

definition load_persistent_memory :: "frontend \<Rightarrow> string \<Rightarrow> save_memories \<Rightarrow> world \<Rightarrow> save_memories \<times> world" where
  "load_persistent_memory deck base m w =
     (let (ram, w1) = load_memory_file deck (base @ kSaveExtension deck) (save_ram m) w
      in if kHasRtc deck
         then (let (clock, w2) = load_memory_file deck (base @ ''.rtc'') (rtc m) w1
               in (m\<lparr>save_ram := ram, rtc := clock\<rparr>, w2))
         else (m\<lparr>save_ram := ram\<rparr>, w1))"

definition save_persistent_memory :: "frontend \<Rightarrow> string \<Rightarrow> save_memories \<Rightarrow> world \<Rightarrow> bool \<times> world" where
  "save_persistent_memory deck base m w =
     (let (ram_ok, w1) = save_memory_file (base @ kSaveExtension deck) (save_ram m) w
      in if kHasRtc deck
         then (let (rtc_ok, w2) = save_memory_file (base @ ''.rtc'') (rtc m) w1 in (ram_ok \<and> rtc_ok, w2))
         else (ram_ok, w1))"

section \<open>Bytes of files and memories\<close>

lemma octets_chars [simp]: "octets (chars bytes) = bytes"
proof -
  have "word_of_nat (byte_of (char_of (unat b))) = b" for b :: byte
  proof -
    have "unat b < 2 ^ LENGTH(8)" by (rule unsigned_less)
    then show ?thesis by simp
  qed
  then show ?thesis by (simp add: octets_def chars_def comp_def)
qed

lemma length_octets [simp]: "length (octets s) = length s"
  by (simp add: octets_def)

lemma length_chars [simp]: "length (chars b) = length b"
  by (simp add: chars_def)

lemma chars_Nil_iff [simp]: "chars b = [] \<longleftrightarrow> b = []"
  by (simp add: chars_def)

section \<open>Saving is atomic\<close>

lemma save_temporary_longer: "save_temporary path process \<noteq> path"
  by (simp add: save_temporary_def)

text \<open>The whole call with a memory to save: what it leaves in the file system.\<close>

lemma save_memory_file_outcome:
  assumes wf: "wf_world w" and save: "save_memory_file path (Some bytes) w = (ok, w')" and ne: "bytes \<noteq> []"
  shows "fds w' = fds w \<and> wf_world w' \<and>
    (if ok then file_content w' path = Some (chars bytes) \<and> (\<forall>p. p \<noteq> path \<longrightarrow> file_content w' p = file_content w p)
     else \<forall>p. p \<noteq> save_temporary path (pid w) \<or> names w p \<noteq> None \<longrightarrow> file_content w' p = file_content w p)"
proof -
  let ?t = "save_temporary path (pid w)" and ?i = "next_inode w" and ?fd = "next_fd w"
  obtain x w1 where cr: "sys_create ?t w = (x, w1)" by fastforce
  have wf1: "wf_world w1" using wf_create [OF cr wf] .
  from cr show ?thesis
  proof (cases rule: create_cases [where fd = ?fd])
    case fault
    then have "ok = False" "w' = w1" using save ne cr by (auto simp: save_memory_file_def Let_def)
    then show ?thesis using fault wf1 by (auto intro: confined_file_content)
  next
    case (created v)
    obtain ok1 w2 where wr: "write_all ?fd (chars bytes) w1 = (ok1, w2)" by fastforce
    obtain ok2 w3 where sy: "(if ok1 then (let (r, w') = sys_fsync ?fd w2 in (r \<noteq> None, w')) else (False, w2)) = (ok2, w3)"
      by fastforce
    obtain closed w4 where cl: "sys_close ?fd w3 = (closed, w4)" by fastforce
    have new: "fds w1 ?fd = Some (?i, length (content (inodes w1 ?i)))" "content (inodes w1 ?i) = []"
      using created(5) by simp_all
    have c2: "confined ?fd {?i} w1 w2" "ok1 \<longrightarrow> content (inodes w2 ?i) = chars bytes"
      using write_all_appends [OF wr new(1)] new(2) by auto
    have c3: "confined ?fd {} w2 w3" "ok2 \<longrightarrow> ok1"
      using sy fsync_confined(1) [of ?fd w2 _ _ ?fd "{}"] by (auto split: if_splits prod.splits)
    note c4 = close_confined(1) [OF cl, of "{}"] close_confined(2) [OF cl]
    have "confined ?fd {} w2 w4" using c3(1) c4(1) by (rule confined_trans)
    then have "confined ?fd {?i} w2 w4" by (rule confined_mono) simp
    with c2(1) have filled: "confined ?fd {?i} w1 w4" by (rule confined_trans)
    have gone: "fds w4 ?fd = None" and written: "ok2 \<longrightarrow> content (inodes w4 ?i) = chars bytes"
      using c2(2) c3 c4 confined_same_inodes [OF c3(1)] confined_same_inodes [OF c4(1)] by auto
    have wf4: "wf_world w4" using confined_wf [OF filled wf1] gone by simp
    note out = temporary_outcome [OF wf created(2) save_temporary_longer created(3,5) filled gone]
    have unlinked: "wf_world (snd (sys_unlink ?t v))" if "wf_world v" for v
      using that wf_unlink by (cases "sys_unlink ?t v") auto
    note run = save_memory_file_def Let_def
    show ?thesis
    proof (cases "ok2 \<and> closed \<noteq> None")
      case False
      then have "\<not> ok" "w' = snd (sys_unlink ?t w4)" using save ne cr created(1) wr sy cl by (auto simp: run)
      then show ?thesis
        using out(2) [of w4, OF refl refl refl] unlinked [OF wf4] created(2) by auto
    next
      case True
      obtain y w5 where rn: "sys_rename ?t path w4 = (y, w5)" by fastforce
      have wf5: "wf_world w5" using wf_rename [OF rn wf4] .
      show ?thesis
      proof (cases y)
        case None
        then have "\<not> ok" "w' = snd (sys_unlink ?t w5)" using save ne cr created(1) wr sy cl True rn by (auto simp: run)
        moreover have "names w5 = names w4 \<and> inodes w5 = inodes w4 \<and> fds w5 = fds w4"
          using out(3) [of w5] rn None by simp
        ultimately show ?thesis using out(2) [of w5] unlinked [OF wf5] created(2) by auto
      next
        case (Some u)
        then have "ok" "w' = w5" using save ne cr created(1) wr sy cl True rn by (auto simp: run)
        then show ?thesis using out(4) [of u w5] rn Some written True wf5 by auto
      qed
    qed
  qed
qed

text \<open>
  Saving a memory is atomic whatever the kernel does: success leaves exactly the memory under
  the path and touches nothing else; failure leaves every file that existed as it was, the old
  save included.  No branch leaks a descriptor, and without a memory nothing happens.
\<close>
theorem save_memory_file_atomic:
  assumes "wf_world w"
  shows "case save_memory_file path memory w of
      (True, w') \<Rightarrow> fds w' = fds w \<and> wf_world w' \<and>
        (if memory = None \<or> memory = Some [] then w' = w
         else file_content w' path = Some (chars (the memory)) \<and>
              (\<forall>p. p = path \<or> file_content w' p = file_content w p))
    | (False, w') \<Rightarrow> fds w' = fds w \<and> wf_world w' \<and>
        (\<forall>p. names w p = None \<or> file_content w' p = file_content w p)"
proof (cases "memory = None \<or> memory = Some []")
  case True
  then show ?thesis using assms by (auto simp: save_memory_file_def)
next
  case False
  then obtain bytes where m: "memory = Some bytes" "bytes \<noteq> []" by auto
  obtain ok w' where s: "save_memory_file path (Some bytes) w = (ok, w')" by fastforce
  note o = save_memory_file_outcome [OF assms s m(2)]
  have "names w p = None \<or> file_content w' p = file_content w p" if "\<not> ok" for p
  proof (cases "names w p")
    case (Some i)
    moreover have "\<forall>p. p \<noteq> save_temporary path (pid w) \<or> names w p \<noteq> None \<longrightarrow> file_content w' p = file_content w p"
      using o that by (simp only: if_False simp_thms) blast
    ultimately show ?thesis by blast
  qed simp
  then show ?thesis using o s m by (cases ok) auto
qed

text \<open>
  A file left under the temporary name, by a crash of a process with the same id, makes every save
  of this process fail, and none of them removes it.
\<close>

lemma stale_temporary_blocks_saves:
  assumes "names w (save_temporary path (pid w)) \<noteq> None" "bytes \<noteq> []"
    "save_memory_file path (Some bytes) w = (ok, w')"
  shows "\<not> ok \<and> names w' = names w"
proof -
  obtain x w1 where cr: "sys_create (save_temporary path (pid w)) w = (x, w1)" by fastforce
  from cr show ?thesis
  proof (cases rule: create_cases [where fd = 0])
    case fault
    then show ?thesis using assms(2,3) cr by (auto simp: save_memory_file_def Let_def confined_def)
  next
    case created
    then show ?thesis using assms(1) by simp
  qed
qed

section \<open>What loading does to the memory\<close>

lemma reads_only_read_save:
  assumes "wf_world w" "read_save path memory w = (out, w')" "file_content w path = Some text"
  shows "reads_only w w' \<and> (\<exists>n \<le> length memory. n \<le> length text \<and> out = take n (octets text) @ drop n memory)"
proof -
  obtain x w1 where op: "sys_open path w = (x, w1)" by fastforce
  from op show ?thesis
  proof (cases rule: open_cases [where fd = 0])
    case fault
    then show ?thesis
      using assms(2) op by (auto simp: read_save_def reads_only_def confined_def intro!: exI [of _ 0])
  next
    case (opened i v)
    let ?fd = "next_fd w"
    obtain stop bytes w2 where rd: "read_loop ?fd (length memory) [] w1 = ((stop, bytes), w2)"
      by (metis prod.collapse)
    have w1: "fds w1 ?fd = Some (i, 0)" "inodes w1 = inodes w"
      using opened(3,6) by (auto simp: confined_def)
    have held: "content (inodes w1 i) = text"
      using assms(3) opened(2) w1(2) by (auto simp: file_content_def split: if_splits)
    from read_loop_prefix [OF rd, of i] w1(1) held
    have r: "confined ?fd {} w1 w2" "bytes = take (length bytes) text" "length bytes \<le> length memory" by auto
    obtain y w3 where cl: "sys_close ?fd w2 = (y, w3)" by fastforce
    have out: "out = blit memory 0 (octets bytes)" "w' = w3"
      using assms(2) op opened(1) rd cl by (auto simp: read_save_def)
    have "length bytes \<le> length text" using arg_cong [OF r(2), of length] by simp
    moreover have "octets bytes = take (length bytes) (octets text)"
      using r(2) by (metis octets_def take_map)
    moreover have "reads_only w w3"
      using open_close_reads_only [OF op [unfolded opened(1)] r(1) cl assms(1)] .
    ultimately show ?thesis using out r(3) by (auto simp: blit_def intro!: exI [of _ "length bytes"])
  qed
qed

lemma read_save_idle:
  assumes "schedule w = []" "names w path = Some i" "length (content (inodes w i)) = length memory" "memory \<noteq> []"
  shows "fst (read_save path memory w) = octets (content (inodes w i))"
proof -
  let ?text = "content (inodes w i)" and ?w1 = "w\<lparr>fds := (fds w)(next_fd w \<mapsto> (i, 0)), next_fd := next_fd w + 1\<rparr>"
  have op: "sys_open path w = (Some (next_fd w), ?w1)"
    using assms(1,2) by (simp add: sys_open_def open_inode_def)
  have "\<exists>w2. read_loop (next_fd w) (length memory) [] ?w1 = ((Buffer_full, ?text), w2)"
    using assms
    by (subst read_loop.simps, simp add: sys_read_def Let_def) (subst read_loop.simps, auto)
  then show ?thesis using op assms(3) by (auto simp: read_save_def blit_def split: prod.split)
qed

text \<open>The memory after the decoder of the older emulator's format has run over it.\<close>

definition decoded_over :: "byte list \<Rightarrow> string \<Rightarrow> byte list" where
  "decoded_over memory held = the (snd (NesSramDecode (Some (octets held)) (Some memory)))"

lemma migrate_save_exact:
  assumes "migrate_save path (length held) memory w = ((ok, out), w')" "file_content w path = Some held"
  shows "reads_only w w' \<and>
    (if held \<noteq> [] \<and> length held \<le> NesSramMaximumEncodedSize (length memory)
     then (out = memory \<or> out = decoded_over memory held) \<and> (schedule w = [] \<longrightarrow> out = decoded_over memory held)
     else out = memory)"
proof (cases "held \<noteq> [] \<and> length held \<le> NesSramMaximumEncodedSize (length memory)")
  case False
  then show ?thesis using assms(1) by (auto simp: migrate_save_def reads_only_def)
next
  case True
  obtain i where i: "names w path = Some i" "content (inodes w i) = held"
    using assms(2) by (auto simp: file_content_def split: option.splits if_splits)
  obtain opened w1 where st: "stream_read path w = (opened, w1)" by fastforce
  have part: "got = held \<or> length got < length held" if "opened = Some (got, bad)" for got bad
    using st i that by (auto simp: stream_read_def next_outcome_def fail_def
        split: list.splits outcome.splits option.splits)
  let ?delivered = "case opened of None \<Rightarrow> [] | Some (text, _) \<Rightarrow> take (length held) text"
  have whole: "?delivered = held" if "length ?delivered = length held"
    using that part True by (cases opened) (auto split: prod.splits)
  have run: "((ok, out), w') = (if length ?delivered = length held
      then (let (ok, out) = NesSramDecode (Some (octets ?delivered)) (Some memory) in ((ok, the out), w1))
      else ((False, memory), w1))"
    unfolding assms(1) [symmetric] migrate_save_def using True st by (simp add: Let_def)
  have "out = memory \<or> out = decoded_over memory held"
    using run whole by (cases "length ?delivered = length held") (auto simp: decoded_over_def split: prod.splits)
  moreover have "out = decoded_over memory held" if "schedule w = []"
  proof -
    have "opened = Some (held, False)" using st i that by (simp add: stream_read_def next_outcome_def)
    then show ?thesis using run by (auto simp: decoded_over_def split: prod.splits)
  qed
  moreover have "w' = w1" using run by (auto split: if_splits prod.splits)
  ultimately show ?thesis using True stream_reads_only [OF st] by simp
qed

text \<open>
  C26. Loading a save never changes a file, whatever the kernel does, and says exactly what becomes
  of the memory.  A save of the memory's size overwrites a prefix of the memory with its own, all of
  it when no call fails.  A NES save of any other size that an encoded one can have is left alone or
  decoded over the memory as far as the decoder gets, even where it then reports a failure.  Any
  other file, and none at all, leaves the memory as it was.
\<close>
theorem load_memory_file_exact:
  assumes "wf_world w" "memory \<noteq> []"
  shows "case load_memory_file deck path (Some memory) w of
      (out, w') \<Rightarrow> reads_only w w' \<and>
        (case file_content w path of
           None \<Rightarrow> out = Some memory
         | Some held \<Rightarrow>
             if length held = length memory
             then (\<exists>n \<le> length memory. out = Some (take n (octets held) @ drop n memory)) \<and>
               (schedule w = [] \<longrightarrow> out = Some (octets held))
             else if deck = NesDeck \<and> held \<noteq> [] \<and> length held \<le> NesSramMaximumEncodedSize (length memory)
             then (out = Some memory \<or> out = Some (decoded_over memory held)) \<and>
               (schedule w = [] \<longrightarrow> out = Some (decoded_over memory held))
             else out = Some memory)"
proof -
  obtain s w1 where st: "sys_stat path w = (s, w1)" by fastforce
  have ro: "reads_only w w1" using stat_reads_only [OF st] .
  have wf1: "wf_world w1" using ro assms(1) by (rule reads_only_wf)
  have same: "file_content w1 path = file_content w path" using reads_only_file_content [OF ro] .
  show ?thesis
  proof (cases "file_content w path")
    case None
    then have "s = None \<or> (\<exists>n. s = Some (False, n))"
      using st by (auto simp: file_content_def sys_stat_def next_outcome_def fail_def
          split: list.splits outcome.splits option.splits if_splits)
    then have "load_memory_file deck path (Some memory) w = (Some memory, w1)"
      using st assms(2) by (auto simp: load_memory_file_def)
    then show ?thesis using ro None by simp
  next
    case (Some held)
    then obtain i where i: "names w path = Some i" "regular (inodes w i)" "content (inodes w i) = held"
      by (auto simp: file_content_def split: option.splits if_splits)
    show ?thesis
    proof (cases s)
      case None
      moreover have "schedule w \<noteq> []"
        using st i None by (auto simp: sys_stat_def next_outcome_def)
      ultimately show ?thesis using st ro assms(2) Some
        by (auto simp: load_memory_file_def intro!: exI [of _ 0])
    next
      case answer: (Some info)
      have info: "info = (True, length held)" "schedule w = [] \<Longrightarrow> w1 = w"
        using st i answer by (auto simp: sys_stat_def next_outcome_def fail_def split: list.splits outcome.splits option.splits)
      show ?thesis
      proof (cases "length held = length memory")
        case True
        obtain out w2 where rd: "read_save path memory w1 = (out, w2)" by fastforce
        have "load_memory_file deck path (Some memory) w = (Some out, w2)"
          using st answer info(1) True assms(2) rd by (simp add: load_memory_file_def)
        moreover have "schedule w = [] \<Longrightarrow> out = octets held"
          using read_save_idle [of w path i memory] i True assms(2) rd info(2) by simp
        ultimately show ?thesis
          using reads_only_read_save [OF wf1 rd same [unfolded Some]] ro Some True by (auto intro: reads_only_trans)
      next
        case False
        show ?thesis
        proof (cases "deck = NesDeck")
          case True
          obtain ok out w2 where mg: "migrate_save path (length held) memory w1 = ((ok, out), w2)" by (metis prod.collapse)
          have "load_memory_file deck path (Some memory) w = (Some out, w2)"
            using st answer info(1) False True assms(2) mg by (simp add: load_memory_file_def)
          then show ?thesis
            using migrate_save_exact [OF mg same [unfolded Some]] ro Some False True info(2)
            by (auto intro: reads_only_trans split: if_splits)
        next
          case other: False
          then have "load_memory_file deck path (Some memory) w = (Some memory, w1)"
            using st answer info(1) False assms(2) by (simp add: load_memory_file_def)
          then show ?thesis using ro Some False other by simp
        qed
      qed
    qed
  qed
qed

text \<open>
  C25. A memory that was saved is the memory the next start loads, if the core still has a memory of
  that size, whatever went wrong while saving as long as it was reported as done.
\<close>
theorem save_memory_round_trip:
  assumes "wf_world w" "save_memory_file path (Some bytes) w = (True, w1)" "bytes \<noteq> []"
    "file_content w2 path = file_content w1 path" "schedule w2 = []" "length memory = length bytes"
  shows "fst (load_memory_file deck path (Some memory) w2) = Some bytes"
proof -
  have "file_content w2 path = Some (chars bytes)"
    using save_memory_file_outcome [OF assms(1,2,3)] assms(4) by simp
  then obtain i where i: "names w2 path = Some i" "regular (inodes w2 i)" "content (inodes w2 i) = chars bytes"
    by (auto simp: file_content_def split: option.splits if_splits)
  then show ?thesis
    using read_save_idle [of w2 path i memory] assms(3,5,6)
    by (auto simp: load_memory_file_def sys_stat_def next_outcome_def split: prod.split)
qed

text \<open>
  C27. The NES frontend takes over saves of the older emulator: a file that the codec wrote for a
  memory of the same size is decoded to that memory, unless the code happens to be as long as the
  memory, in which case it is taken for a raw save.
\<close>
theorem encoded_save_migrates:
  assumes "NesSramEncode (Some xs) (Some buf) = (Some n, Some out)" "length memory = length xs"
    "file_content w path = Some (chars (take n out))" "schedule w = []"
  shows "fst (load_memory_file NesDeck path (Some memory) w) = Some (if n = length xs then take n out else xs)"
proof -
  have ne: "xs \<noteq> []" "buf \<noteq> []" using assms(1) by (auto simp: NesSramEncode_def split: if_splits)
  define tag e where "tag = least_frequent (byte_frequency xs)" and "e = encode_from xs tag 0"
  have fits: "1 + length e \<le> length buf" and n: "n = 1 + length e"
    using NesSramEncode_eq(1) [OF ne tag_def] assms(1) by (auto simp: e_def split: if_splits)
  have "out = blit buf 0 (tag # e)"
    using NesSramEncode_eq(2) [OF ne tag_def] fits assms(1) by (simp add: e_def)
  then have code: "take n out = tag # e" using n fits take_blit_prefix [of 0 buf "tag # e"] by simp
  have decode: "NesSramDecode (Some (tag # e)) (Some memory) = (True, Some xs)"
    using decode_encode_from [of 1 "tag # e" xs tag 0 "[]" memory] assms(2) ne(1)
    by (auto simp: NesSramDecode_def e_def)
  have small: "n \<le> NesSramMaximumEncodedSize (length memory)"
    using length_encode_from [of xs tag 0] n assms(2) by (simp add: NesSramMaximumEncodedSize_def e_def)
  obtain i where i: "names w path = Some i" "regular (inodes w i)" "content (inodes w i) = chars (tag # e)"
    using assms(3) code by (auto simp: file_content_def split: option.splits if_splits)
  have stat: "sys_stat path w = (Some (True, n), w)"
    using i assms(4) n by (simp add: sys_stat_def next_outcome_def)
  show ?thesis
  proof (cases "n = length xs")
    case True
    then show ?thesis
      using stat read_save_idle [of w path i memory] i assms(2,4) n ne(1) code
      by (auto simp: load_memory_file_def split: prod.split)
  next
    case False
    have "migrate_save path n memory w = ((True, xs), w)"
      using small n decode i assms(4)
      by (simp add: migrate_save_def stream_read_def next_outcome_def)
    then show ?thesis using stat False assms(2) ne(1) by (auto simp: load_memory_file_def)
  qed
qed

section \<open>The process id stays\<close>

lemma call_pid:
  "sys_create path w = (x, w') \<Longrightarrow> pid w' = pid w" "sys_write fd data w = (y, w') \<Longrightarrow> pid w' = pid w"
  "sys_fsync fd w = (z, w') \<Longrightarrow> pid w' = pid w" "sys_close fd w = (z, w') \<Longrightarrow> pid w' = pid w"
  "sys_rename path new w = (z, w') \<Longrightarrow> pid w' = pid w" "sys_unlink path w = (z, w') \<Longrightarrow> pid w' = pid w"
  by (auto simp: syscall_defs next_outcome_def Let_def split: list.splits outcome.splits option.splits if_splits)

lemma write_all_pid: "write_all fd data w = (ok, w') \<Longrightarrow> pid w' = pid w"
proof (induction fd data w rule: write_all.induct)
  case (1 fd data w)
  obtain r w1 where wr: "sys_write fd data w = (r, w1)" by fastforce
  note step = "1.prems" [unfolded write_all.simps [of fd data w] wr prod.case]
  show ?case
  proof (cases "data = []")
    case False
    note one = call_pid(2) [OF wr]
    show ?thesis
    proof (cases r)
      case None
      then show ?thesis using step "1.IH"(1) [OF False wr [symmetric] None] one False by (auto split: if_splits)
    next
      case (Some n)
      then show ?thesis using step "1.IH"(2) [OF False wr [symmetric] Some] one False by (auto split: if_splits)
    qed
  qed (use "1.prems" in simp)
qed

lemma save_memory_file_pid:
  assumes "save_memory_file path memory w = (ok, w')"
  shows "pid w' = pid w"
proof (cases "memory = None \<or> memory = Some []")
  case True
  then show ?thesis using assms by (auto simp: save_memory_file_def)
next
  case False
  let ?t = "save_temporary path (pid w)"
  obtain x w1 where cr: "sys_create ?t w = (x, w1)" by fastforce
  show ?thesis
  proof (cases x)
    case None
    then show ?thesis using assms False cr call_pid(1) [OF cr] by (simp add: save_memory_file_def)
  next
    case (Some fd)
    obtain ok1 w2 where wr: "write_all fd (chars (the memory)) w1 = (ok1, w2)" by fastforce
    obtain y w3 where sy: "sys_fsync fd w2 = (y, w3)" by fastforce
    let ?w3 = "if ok1 then w3 else w2"
    obtain closed w4 where cl: "sys_close fd ?w3 = (closed, w4)" by fastforce
    obtain z w5 where rn: "sys_rename ?t path w4 = (z, w5)" by fastforce
    note pids = call_pid(1) [OF cr] write_all_pid [OF wr] call_pid(3) [OF sy] call_pid(4) [OF cl] call_pid(5) [OF rn]
    have unlinked: "pid (snd (sys_unlink ?t v)) = pid v" for v
      using call_pid(6) by (metis prod.collapse)
    have "w' \<in> {snd (sys_unlink ?t w4), snd (sys_unlink ?t w5), w5}"
      using assms False cr Some wr sy cl rn
      by (cases ok1; cases "y = None"; cases "closed = None"; cases "z = None")
        (auto simp: save_memory_file_def Let_def split: if_splits)
    moreover have "pid w4 = pid w" using pids by (simp split: if_splits)
    ultimately show ?thesis using unlinked pids(5) by auto
  qed
qed

section \<open>Both memories\<close>

lemma save_extensions_differ: "base @ kSaveExtension deck \<noteq> base @ ''.rtc''"
  by (simp add: kSaveExtension_def split: frontend.split)

lemma save_memory_file_keeps:
  assumes wf: "wf_world w" and save: "save_memory_file path memory w = (ok, w')"
  shows "fds w' = fds w" "wf_world w'"
    "ok \<Longrightarrow> memory = Some bytes \<Longrightarrow> bytes \<noteq> [] \<Longrightarrow> file_content w' path = Some (chars bytes)"
    "p \<noteq> path \<Longrightarrow> file_content w p = Some text \<Longrightarrow> file_content w' p = Some text"
proof -
  have "fds w' = fds w \<and> wf_world w' \<and>
    (ok \<longrightarrow> memory = Some bytes \<longrightarrow> bytes \<noteq> [] \<longrightarrow> file_content w' path = Some (chars bytes)) \<and>
    (p \<noteq> path \<longrightarrow> file_content w p = Some text \<longrightarrow> file_content w' p = Some text)"
  proof (cases "memory = None \<or> memory = Some []")
    case True
    then show ?thesis using save wf by (auto simp: save_memory_file_def)
  next
    case False
    then obtain bs where m: "memory = Some bs" "bs \<noteq> []" by auto
    note o = save_memory_file_outcome [OF wf save [unfolded m(1)] m(2)]
    have there: "file_content w p = Some text \<Longrightarrow> names w p \<noteq> None"
      by (auto simp: file_content_def split: option.splits)
    show ?thesis
    proof (cases ok)
      case True
      then have "file_content w' path = Some (chars bs)" "p \<noteq> path \<Longrightarrow> file_content w' p = file_content w p"
        using o by simp_all
      then show ?thesis using o m(1) by simp
    next
      case False
      then have "\<forall>q. q \<noteq> save_temporary path (pid w) \<or> names w q \<noteq> None \<longrightarrow>
          file_content w' q = file_content w q"
        using o by (simp only: if_False) blast
      then have "file_content w p = Some text \<Longrightarrow> file_content w' p = file_content w p" using there by blast
      moreover have "fds w' = fds w" "wf_world w'" using o by simp_all
      ultimately show ?thesis using False by simp
    qed
  qed
  then show "fds w' = fds w" "wf_world w'"
    "ok \<Longrightarrow> memory = Some bytes \<Longrightarrow> bytes \<noteq> [] \<Longrightarrow> file_content w' path = Some (chars bytes)"
    "p \<noteq> path \<Longrightarrow> file_content w p = Some text \<Longrightarrow> file_content w' p = Some text"
    by blast+
qed

text \<open>When saving reports success, both files hold the memories.\<close>

lemma save_persistent_memory_holds:
  assumes wf: "wf_world w" and save: "save_persistent_memory deck base m w = (ok, w')"
  shows "wf_world w'" "fds w' = fds w"
    "ok \<Longrightarrow> save_ram m = Some bytes \<Longrightarrow> bytes \<noteq> [] \<Longrightarrow> file_content w' (base @ kSaveExtension deck) = Some (chars bytes)"
    "ok \<Longrightarrow> kHasRtc deck \<Longrightarrow> rtc m = Some bytes \<Longrightarrow> bytes \<noteq> [] \<Longrightarrow> file_content w' (base @ ''.rtc'') = Some (chars bytes)"
proof -
  obtain ok1 w1 where 1: "save_memory_file (base @ kSaveExtension deck) (save_ram m) w = (ok1, w1)" by fastforce
  obtain ok2 w2 where 2: "save_memory_file (base @ ''.rtc'') (rtc m) w1 = (ok2, w2)" by fastforce
  note k1 = save_memory_file_keeps [OF wf 1]
  note k2 = save_memory_file_keeps [OF k1(2) 2]
  have r: "(ok, w') = (if kHasRtc deck then (ok1 \<and> ok2, w2) else (ok1, w1))"
    using save 1 2 by (simp add: save_persistent_memory_def split: if_splits)
  show "wf_world w'" "fds w' = fds w" using r k1(1,2) k2(1,2) by (auto split: if_splits)
  show "file_content w' (base @ kSaveExtension deck) = Some (chars bytes)"
    if "ok" "save_ram m = Some bytes" "bytes \<noteq> []"
    using r k1(3) [OF _ that(2,3)] k2(4) [OF save_extensions_differ] that(1) by (auto split: if_splits)
  show "file_content w' (base @ ''.rtc'') = Some (chars bytes)"
    if "ok" "kHasRtc deck" "rtc m = Some bytes" "bytes \<noteq> []"
    using r k2(3) [OF _ that(3,4)] that(1,2) by (auto split: if_splits)
qed

section \<open>Without faults saving succeeds\<close>

lemma save_memory_file_idle:
  assumes "schedule w = []" "names w (save_temporary path (pid w)) = None"
  shows "\<exists>w'. save_memory_file path memory w = (True, w') \<and> schedule w' = [] \<and> pid w' = pid w \<and>
    (\<forall>p. p \<noteq> path \<longrightarrow> names w p = None \<longrightarrow> names w' p = None)"
proof (cases "memory = None \<or> memory = Some []")
  case True
  then show ?thesis using assms by (auto simp: save_memory_file_def)
next
  case False
  then obtain bytes where m: "memory = Some bytes" "bytes \<noteq> []" by auto
  let ?t = "save_temporary path (pid w)"
  obtain w1 where w1: "sys_create ?t w = (Some (next_fd w), w1)" "schedule w1 = []" "pid w1 = pid w"
    "fds w1 (next_fd w) = Some (next_inode w, 0)" "names w1 = (names w)(?t \<mapsto> next_inode w)"
    using assms by (simp add: sys_create_def open_inode_def)
  obtain w2 where w2: "write_all (next_fd w) (chars bytes) w1 = (True, w2)" "schedule w2 = []" "fds w2 (next_fd w) \<noteq> None"
    using write_all_idle [OF w1(2), of "next_fd w" "chars bytes"] w1(4) by auto
  have "names w2 = names w1" "pid w2 = pid w1"
    using write_all_confined [OF w2(1) w1(4)] by (auto simp: confined_def)
  then show ?thesis
    using m w1 w2 by (auto simp: save_memory_file_def Let_def sys_fsync_def sys_close_def sys_rename_def)
qed

lemma save_persistent_memory_idle:
  assumes "schedule w = []" "\<forall>suffix. names w (save_temporary (base @ suffix) (pid w)) = None"
  shows "fst (save_persistent_memory deck base m w)"
proof -
  obtain w1 where w1: "save_memory_file (base @ kSaveExtension deck) (save_ram m) w = (True, w1)" "schedule w1 = []"
    "pid w1 = pid w" "\<forall>p. p \<noteq> base @ kSaveExtension deck \<longrightarrow> names w p = None \<longrightarrow> names w1 p = None"
    using save_memory_file_idle assms by blast
  have "save_temporary (base @ ''.rtc'') (pid w) \<noteq> base @ kSaveExtension deck"
    by (auto simp: save_temporary_def kSaveExtension_def split: frontend.splits)
  then have "names w1 (save_temporary (base @ ''.rtc'') (pid w1)) = None" using w1(3,4) assms(2) by simp
  then obtain w2 where "save_memory_file (base @ ''.rtc'') (rtc m) w1 = (True, w2)"
    using save_memory_file_idle [OF w1(2)] by blast
  then show ?thesis using w1(1) by (simp add: save_persistent_memory_def)
qed

section \<open>Witnesses\<close>

theorem save_memory_file_atomic_witness:
  "fds (snd (save_memory_file ''/s'' (Some [7, 9]) (sample_world [Success, Fault EINTR, Partial 1, Fault EIO]))) = Map.empty"
proof -
  have "wf_world (sample_world [Success, Fault EINTR, Partial 1, Fault EIO])"
    by (rule sample_world_wf) (simp add: honest_def)
  from save_memory_file_atomic [OF this, where path = "''/s''" and memory = "Some [7, 9]"] show ?thesis
    by (cases "save_memory_file ''/s'' (Some [7, 9]) (sample_world [Success, Fault EINTR, Partial 1, Fault EIO])")
      (auto simp: sample_world_def split: bool.splits)
qed

definition save_world :: "string \<Rightarrow> world" where
  "save_world text = \<lparr>names = [''g.srm'' \<mapsto> 0], inodes = (\<lambda>_. \<lparr>regular = True, content = text\<rparr>), next_inode = 1,
     fds = Map.empty, next_fd = 3, schedule = [], last_errno = EIO, pid = 42\<rparr>"

lemma save_world_wf: "wf_world (save_world text)"
  by (simp add: wf_world_def save_world_def honest_def)

lemma save_world_fields: "schedule (save_world text) = []" "file_content (save_world text) ''g.srm'' = Some text"
  "names (save_world text) (save_temporary ''g.srm'' (pid (save_world text))) = None"
  by (simp_all add: save_world_def file_content_def save_temporary_def)

theorem load_memory_file_exact_witness:
  "fst (load_memory_file GbDeck ''g.srm'' (Some [0, 0, 0]) (save_world (chars [1, 2, 3]))) = Some [1, 2, 3] \<and>
   fst (load_memory_file NesDeck ''g.srm'' (Some [0, 0, 0, 0]) (save_world (chars [0, 7, 0]))) = Some [7, 0, 0, 0]"
proof -
  have decoded: "decoded_over [0, 0, 0, 0] (chars [0, 7, 0]) = [7, 0, 0, 0]"
    unfolding decoded_over_def octets_chars by code_simp
  show ?thesis
    using load_memory_file_exact [OF save_world_wf, where memory = "[0, 0, 0]" and deck = GbDeck and path = "''g.srm''"
        and text1 = "chars [1, 2, 3]"]
      load_memory_file_exact [OF save_world_wf, where memory = "[0, 0, 0, 0]" and deck = NesDeck and path = "''g.srm''"
        and text1 = "chars [0, 7, 0]"] decoded
    by (simp add: save_world_fields NesSramMaximumEncodedSize_def split: prod.splits)
qed

theorem save_memory_round_trip_witness:
  "\<exists>w1. save_memory_file ''g.srm'' (Some [4, 5, 6]) (save_world ''old'') = (True, w1) \<and>
     fst (load_memory_file NesDeck ''g.srm'' (Some [0, 0, 0]) w1) = Some [4, 5, 6]"
proof -
  obtain w1 where w1: "save_memory_file ''g.srm'' (Some [4, 5, 6]) (save_world ''old'') = (True, w1)" "schedule w1 = []"
    using save_memory_file_idle [OF save_world_fields(1,3)] by blast
  from save_memory_round_trip [OF save_world_wf w1(1) _ refl w1(2), of "[0, 0, 0]" NesDeck] w1(1) show ?thesis by auto
qed

theorem encoded_save_migrates_witness:
  "fst (load_memory_file NesDeck ''g.srm'' (Some [0, 0, 0, 0, 0, 0]) (save_world (chars [0, 0, 5, 4, 9]))) =
     Some [5, 5, 5, 5, 5, 9]"
proof -
  have encoded: "NesSramEncode (Some [5, 5, 5, 5, 5, 9]) (Some (replicate 6 0)) = (Some 5, Some [0, 0, 5, 4, 9, 0])"
    by code_simp
  have "file_content (save_world (chars [0, 0, 5, 4, 9])) ''g.srm'' = Some (chars (take 5 [0, 0, 5, 4, 9, 0]))"
    by (simp add: save_world_fields)
  from encoded_save_migrates [OF encoded _ this save_world_fields(1), of "[0, 0, 0, 0, 0, 0]"] show ?thesis by simp
qed

end
