(* ===== verification/Libretro_Deck.thy ===== *)
theory Libretro_Deck
  imports Joypad_Input Deck_Frontend Libretro_Save
begin

section \<open>The Libretro frontends (\<open>src/libretro_deck.cpp\<close>, \<open>src/zx_keyboard.h\<close>)\<close>

text \<open>
  The callbacks the program gives to a core and the main program around it.  Neither the cores nor
  \<open>libretro.h\<close> are in the repository: the commands of the environment are a datatype with the names
  the source uses and the data their pointers point to (\<open>None\<close> is a null pointer), the numbers of
  devices, buttons and keys are the fields of a record, and a core is what it does to the program,
  any sequence of callbacks in every call.
\<close>

record retro_api =
  RETRO_DEVICE_JOYPAD :: nat
  RETRO_DEVICE_KEYBOARD :: nat
  RETRO_DEVICE_ID_JOYPAD_A :: nat
  RETRO_DEVICE_ID_JOYPAD_B :: nat
  RETRO_DEVICE_ID_JOYPAD_SELECT :: nat
  RETRO_DEVICE_ID_JOYPAD_START :: nat
  RETRO_DEVICE_ID_JOYPAD_UP :: nat
  RETRO_DEVICE_ID_JOYPAD_DOWN :: nat
  RETRO_DEVICE_ID_JOYPAD_LEFT :: nat
  RETRO_DEVICE_ID_JOYPAD_RIGHT :: nat
  RETRO_DEVICE_ID_JOYPAD_L :: nat
  RETRO_DEVICE_ID_JOYPAD_R :: nat
  RETRO_DEVICE_ID_JOYPAD_R3 :: nat
  RETRO_DEVICE_ID_JOYPAD_MASK :: nat
  RETROK_0 :: nat
  RETROK_9 :: nat
  RETROK_a :: nat
  RETROK_z :: nat
  RETROK_RETURN :: nat
  RETROK_SPACE :: nat
  RETROK_BACKSPACE :: nat
  RETROK_LSHIFT :: nat
  RETROK_RSHIFT :: nat
  RETROK_LCTRL :: nat
  RETROK_RCTRL :: nat
  RETROK_LALT :: nat
  RETROK_RALT :: nat
  RETROK_LSUPER :: nat
  RETROK_RSUPER :: nat
  RETROK_UP :: nat
  RETROK_DOWN :: nat
  RETROK_LEFT :: nat
  RETROK_RIGHT :: nat

section \<open>The keys of the Spectrum (\<open>zx_keyboard.h\<close>)\<close>

text \<open>Key codes of \<open>linux/input.h\<close>: \<open>KEY_0\<close> to \<open>KEY_9\<close>, \<open>KEY_A\<close> to \<open>KEY_Z\<close>, and the named keys.\<close>

definition KEY_RESERVED :: nat where "KEY_RESERVED = 0"

definition digit_keys :: "nat list" where
  "digit_keys = [11, 2, 3, 4, 5, 6, 7, 8, 9, 10]"

definition letter_keys :: "nat list" where
  "letter_keys = [30, 48, 46, 32, 18, 33, 34, 35, 23, 36, 37, 38, 50, 49, 24, 25, 16, 19, 31, 20, 22, 47, 17, 45, 21, 44]"

definition named_keys :: "retro_api \<Rightarrow> (nat \<times> nat) list" where
  "named_keys api =
     [(RETROK_RETURN api, 28), (RETROK_SPACE api, 57), (RETROK_BACKSPACE api, 14), (RETROK_LSHIFT api, 42),
      (RETROK_RSHIFT api, 54), (RETROK_LCTRL api, 29), (RETROK_RCTRL api, 97), (RETROK_LALT api, 56),
      (RETROK_RALT api, 100), (RETROK_LSUPER api, 125), (RETROK_RSUPER api, 126), (RETROK_UP api, 103),
      (RETROK_DOWN api, 108), (RETROK_LEFT api, 105), (RETROK_RIGHT api, 106)]"

definition zx_linux_keycode :: "retro_api \<Rightarrow> nat \<Rightarrow> nat" where
  "zx_linux_keycode api retro_key =
     (if RETROK_0 api \<le> retro_key \<and> retro_key \<le> RETROK_9 api then digit_keys ! (retro_key - RETROK_0 api)
      else if RETROK_a api \<le> retro_key \<and> retro_key \<le> RETROK_z api then letter_keys ! (retro_key - RETROK_a api)
      else (case map_of (named_keys api) retro_key of Some keycode \<Rightarrow> keycode | None \<Rightarrow> KEY_RESERVED))"

section \<open>The state of the program\<close>

datatype retro_pixel_format =
  RETRO_PIXEL_FORMAT_0RGB1555 | RETRO_PIXEL_FORMAT_XRGB8888 | RETRO_PIXEL_FORMAT_RGB565 | Other_pixel_format

datatype retro_language = RETRO_LANGUAGE_ENGLISH | Other_language

record retro_variable =
  var_key :: "string option"
  var_value :: "string option"

datatype environment_call =
    GET_CORE_OPTIONS_VERSION "u32 option"
  | GET_LANGUAGE "retro_language option"
  | GET_SYSTEM_DIRECTORY "string option"
  | GET_SAVE_DIRECTORY "string option"
  | GET_CONTENT_DIRECTORY "string option"
  | GET_LOG_INTERFACE "bool option"
  | GET_INPUT_BITMASKS
  | GET_CAN_DUPE "bool option"
  | GET_VARIABLE_UPDATE "bool option"
  | GET_VARIABLE "retro_variable option"
  | GET_RUMBLE_INTERFACE
  | SET_PIXEL_FORMAT "retro_pixel_format option"
  | SET_CORE_OPTIONS
  | SET_CORE_OPTIONS_INTL
  | SET_CORE_OPTIONS_V2
  | SET_CORE_OPTIONS_V2_INTL
  | SET_VARIABLES
  | SET_CORE_OPTIONS_DISPLAY
  | SET_CONTROLLER_INFO
  | SET_INPUT_DESCRIPTORS
  | SET_MEMORY_MAPS
  | SET_SUBSYSTEM_INFO
  | SET_SUPPORT_ACHIEVEMENTS
  | SET_GEOMETRY
  | SET_PERFORMANCE_LEVEL
  | Other_command

text \<open>The globals of the source, and of \<open>main\<close> the core's memories, the clock and the frame counter.\<close>

record libretro =
  lr_framebuffer :: "DeckFramebuffer option"
  lr_audio :: "DeckAudio option"
  system_directory :: string
  video_failed :: bool
  audio_frames_received :: "64 word"
  audio_callbacks_received :: "64 word"
  video_divisor :: nat
  video_callbacks_received :: "64 word"
  video_pixel_format :: retro_pixel_format
  lr_memories :: save_memories
  lr_clock :: DeckFrameClock
  lr_frames :: "64 word"

section \<open>The callbacks\<close>

text \<open>The answers to \<open>RETRO_ENVIRONMENT_GET_VARIABLE\<close>; \<open>None\<close> for an option the program leaves open.\<close>

definition nes_variable :: "string \<Rightarrow> string option" where
  "nes_variable key =
     (if key = ''fceumm_region'' then Some ''Auto''
      else if key = ''fceumm_overscan_h_left'' \<or> key = ''fceumm_overscan_h_right'' then Some ''0''
      else if key = ''fceumm_overscan_v_top'' \<or> key = ''fceumm_overscan_v_bottom'' then Some ''8''
      else None)"

definition zx_variable :: "string \<Rightarrow> string option" where
  "zx_variable key =
     (if key = ''fuse_machine'' then Some ''Spectrum 48K''
      else if key = ''fuse_emulation_speed'' then Some ''100''
      else if key = ''fuse_size_border'' then Some ''medium''
      else if key = ''fuse_palette'' then Some ''Fuse Standard''
      else if key = ''fuse_auto_load'' \<or> key = ''fuse_fast_load'' then Some ''enabled''
      else if key = ''fuse_load_sound'' \<or> key = ''fuse_display_joystick_type'' then Some ''disabled''
      else if key = ''fuse_speaker_type'' then Some ''tv speaker''
      else if key = ''fuse_ay_stereo_separation'' then Some ''none''
      else if key = ''fuse_key_ovrlay_transp'' then Some ''enabled''
      else if key = ''fuse_key_hold_time'' then Some ''500''
      else if key = ''fuse_joypad_start'' then Some ''Enter''
      else if take 12 key = ''fuse_joypad_'' then Some ''<none>''
      else None)"

definition get_variable :: "frontend \<Rightarrow> retro_variable option \<Rightarrow> bool \<times> retro_variable option" where
  "get_variable deck data =
     (case data of
        None \<Rightarrow> (False, None)
      | Some variable \<Rightarrow>
          if deck = GbDeck then (False, data)
          else
            (case var_key variable of
               None \<Rightarrow> (False, data)
             | Some key \<Rightarrow>
                 (let answer = (if deck = NesDeck then nes_variable key else zx_variable key)
                  in (answer \<noteq> None, Some (variable\<lparr>var_value := answer\<rparr>)))))"

text \<open>The result, the data as the callback leaves it, and the state.\<close>

definition environment_callback ::
  "frontend \<Rightarrow> environment_call \<Rightarrow> libretro \<Rightarrow> bool \<times> environment_call \<times> libretro" where
  "environment_callback deck command s =
     (case command of
        GET_CORE_OPTIONS_VERSION data \<Rightarrow> (data \<noteq> None, GET_CORE_OPTIONS_VERSION (map_option (\<lambda>_. 2) data), s)
      | GET_LANGUAGE data \<Rightarrow> (data \<noteq> None, GET_LANGUAGE (map_option (\<lambda>_. RETRO_LANGUAGE_ENGLISH) data), s)
      | GET_SYSTEM_DIRECTORY data \<Rightarrow> (data \<noteq> None, GET_SYSTEM_DIRECTORY (map_option (\<lambda>_. system_directory s) data), s)
      | GET_SAVE_DIRECTORY data \<Rightarrow> (data \<noteq> None, GET_SAVE_DIRECTORY (map_option (\<lambda>_. system_directory s) data), s)
      | GET_CONTENT_DIRECTORY data \<Rightarrow> (data \<noteq> None, GET_CONTENT_DIRECTORY (map_option (\<lambda>_. system_directory s) data), s)
      | GET_LOG_INTERFACE data \<Rightarrow> (data \<noteq> None, GET_LOG_INTERFACE (map_option (\<lambda>_. True) data), s)
      | GET_INPUT_BITMASKS \<Rightarrow> (True, command, s)
      | GET_CAN_DUPE data \<Rightarrow> (data \<noteq> None, GET_CAN_DUPE (map_option (\<lambda>_. True) data), s)
      | GET_VARIABLE_UPDATE data \<Rightarrow> (data \<noteq> None, GET_VARIABLE_UPDATE (map_option (\<lambda>_. False) data), s)
      | GET_VARIABLE data \<Rightarrow> (let (answered, data') = get_variable deck data in (answered, GET_VARIABLE data', s))
      | GET_RUMBLE_INTERFACE \<Rightarrow> (False, command, s)
      | SET_PIXEL_FORMAT data \<Rightarrow>
          (case data of
             None \<Rightarrow> (False, command, s)
           | Some given \<Rightarrow>
               (given = RETRO_PIXEL_FORMAT_XRGB8888 \<or> given = RETRO_PIXEL_FORMAT_RGB565, command,
                s\<lparr>video_pixel_format := given\<rparr>))
      | Other_command \<Rightarrow> (False, command, s)
      | _ \<Rightarrow> (True, command, s))"

definition video_callback :: "byte list option \<Rightarrow> u32 \<Rightarrow> u32 \<Rightarrow> nat \<Rightarrow> libretro \<Rightarrow> libretro" where
  "video_callback data width height pitch s =
     (case lr_framebuffer s of
        None \<Rightarrow> s
      | Some framebuffer \<Rightarrow>
          (if data = None \<or> video_failed s then s
           else
             (let s1 = s\<lparr>video_callbacks_received := video_callbacks_received s + 1\<rparr>
              in if video_divisor s1 > 1 \<and> unat (video_callbacks_received s1) mod video_divisor s1 \<noteq> 0 then s1
                 else
                   (case (if video_pixel_format s1 = RETRO_PIXEL_FORMAT_RGB565
                          then present_rgb565 data width height pitch framebuffer
                          else present_xrgb8888 data width height pitch framebuffer) of
                      (Inl _, framebuffer') \<Rightarrow> s1\<lparr>lr_framebuffer := Some framebuffer', video_failed := True\<rparr>
                    | (Inr _, framebuffer') \<Rightarrow> s1\<lparr>lr_framebuffer := Some framebuffer'\<rparr>))))"

text \<open>\<open>None\<close> is a call whose arithmetic is undefined in C++.\<close>

definition audio_callback :: "(sample \<times> sample) list \<Rightarrow> libretro \<Rightarrow> (nat \<times> libretro) option" where
  "audio_callback frames s =
     (let s1 = s\<lparr>audio_frames_received := audio_frames_received s + word_of_nat (length frames),
                audio_callbacks_received := audio_callbacks_received s + 1\<rparr>
      in case lr_audio s1 of
           None \<Rightarrow> Some (length frames, s1)
         | Some au \<Rightarrow>
             (if available au
              then (case write_stereo frames au of
                      None \<Rightarrow> None
                    | Some (_, au') \<Rightarrow> Some (length frames, s1\<lparr>lr_audio := Some au'\<rparr>))
              else Some (length frames, s1)))"

definition joypad_buttons :: "frontend \<Rightarrow> retro_api \<Rightarrow> (u32 \<times> nat) list" where
  "joypad_buttons deck api =
     [(PAD_A, RETRO_DEVICE_ID_JOYPAD_A api), (PAD_B, RETRO_DEVICE_ID_JOYPAD_B api),
      (PAD_SELECT, RETRO_DEVICE_ID_JOYPAD_SELECT api), (PAD_START, RETRO_DEVICE_ID_JOYPAD_START api),
      (PAD_UP, RETRO_DEVICE_ID_JOYPAD_UP api), (PAD_DOWN, RETRO_DEVICE_ID_JOYPAD_DOWN api),
      (PAD_LEFT, RETRO_DEVICE_ID_JOYPAD_LEFT api), (PAD_RIGHT, RETRO_DEVICE_ID_JOYPAD_RIGHT api)] @
     (if deck = ZxDeck then [(PAD_L, RETRO_DEVICE_ID_JOYPAD_L api), (PAD_R, RETRO_DEVICE_ID_JOYPAD_R api)] else [])"

definition joypad_mask :: "(u32 \<times> nat) list \<Rightarrow> u32 \<Rightarrow> u16" where
  "joypad_mask buttons state =
     foldl (\<lambda>mask (pad, button). if state AND pad \<noteq> 0 then mask OR ucast (push_bit button 1 :: u32) else mask) 0 buttons"

definition input_state_callback ::
  "frontend \<Rightarrow> retro_api \<Rightarrow> input_state \<Rightarrow> nat \<Rightarrow> nat \<Rightarrow> nat \<Rightarrow> nat \<Rightarrow> int" where
  "input_state_callback deck api input port device index button =
     (if deck = ZxDeck \<and> device = RETRO_DEVICE_KEYBOARD api \<and> index = 0
      then (let keycode = zx_linux_keycode api button
            in if keycode \<noteq> KEY_RESERVED \<and> GetKeyboardInput keycode input \<noteq> 0 then 1 else 0)
      else if port \<ge> Libretro_Save.kPlayerCount deck \<or> device \<noteq> RETRO_DEVICE_JOYPAD api \<or> index \<noteq> 0 then 0
      else
        (let result = joypad_mask (joypad_buttons deck api) (GetJoypadInput port input)
         in if button = RETRO_DEVICE_ID_JOYPAD_MASK api then sint result
            else if button > RETRO_DEVICE_ID_JOYPAD_R3 api then 0
            else of_bool ((ucast result :: u32) AND push_bit button 1 \<noteq> 0)))"

section \<open>The main program\<close>

definition kRomDescription :: "frontend \<Rightarrow> string" where
  "kRomDescription deck = (case deck of NesDeck \<Rightarrow> ''NES'' | GbDeck \<Rightarrow> ''Game Boy'' | ZxDeck \<Rightarrow> ''ZX Spectrum'')"

definition read_rom :: "frontend \<Rightarrow> string \<Rightarrow> world \<Rightarrow> (message + byte list) \<times> world" where
  "read_rom deck path w =
     (case sys_stat path w of
        (None, w1) \<Rightarrow> (Inl (errno_message (''cannot stat ROM '' @ path) w1), w1)
      | (Some (is_regular, file_size), w1) \<Rightarrow>
          if \<not> is_regular \<or> file_size < kMinimumRomBytes deck \<or> file_size > kMaximumRomBytes
          then (Inl (Msg (kRomDescription deck @ '' ROM has an invalid size'')), w1)
          else
            (let (opened, w2) = stream_read path w1;
                 delivered = (case opened of None \<Rightarrow> [] | Some (text, _) \<Rightarrow> take file_size text);
                 rom_bytes = octets delivered
             in if length delivered \<noteq> file_size
                then (Inl (Msg (''cannot read complete '' @ kRomDescription deck @ '' ROM '' @ path)), w2)
                else if deck = NesDeck \<and>
                        (length rom_bytes < 4 \<or> rom_bytes ! 0 \<noteq> 0x4e \<or> rom_bytes ! 1 \<noteq> 0x45 \<or> rom_bytes ! 2 \<noteq> 0x53 \<or>
                         rom_bytes ! 3 \<noteq> 0x1a)
                then (Inl (Msg ''NES ROM is missing its iNES header''), w2)
                else (Inr rom_bytes, w2)))"

text \<open>
  What a core does to the program during one of its calls: callbacks, with the sound thread acting
  between them.  Polling and asking for the input do not change the program.
\<close>

datatype core_call =
    Environment environment_call
  | Video_refresh "byte list option" u32 u32 nat
  | Audio_batch "(sample \<times> sample) list"
  | Sound_thread writer_action

definition core_acts :: "frontend \<Rightarrow> core_call \<Rightarrow> libretro \<Rightarrow> libretro option" where
  "core_acts deck call s =
     (case call of
        Environment command \<Rightarrow> Some (snd (snd (environment_callback deck command s)))
      | Video_refresh data width height pitch \<Rightarrow> Some (video_callback data width height pitch s)
      | Audio_batch frames \<Rightarrow> map_option snd (audio_callback frames s)
      | Sound_thread action \<Rightarrow> Some (s\<lparr>lr_audio := map_option (\<lambda>au. writer_acts au action) (lr_audio s)\<rparr>))"

fun core_runs :: "frontend \<Rightarrow> core_call list \<Rightarrow> libretro \<Rightarrow> libretro option" where
  "core_runs deck [] s = Some s"
| "core_runs deck (call # calls) s =
     (case core_acts deck call s of None \<Rightarrow> None | Some s1 \<Rightarrow> core_runs deck calls s1)"

text \<open>
  A turn of the loop: whether a signal has arrived, what the core does in \<open>retro_run\<close>, the memories
  it then has, and the clock after the wait.
\<close>

record libretro_turn =
  lt_shutdown :: bool
  lt_calls :: "core_call list"
  lt_memories :: save_memories
  lt_now :: int

definition libretro_frame ::
  "frontend \<Rightarrow> string \<Rightarrow> libretro_turn \<Rightarrow> libretro \<Rightarrow> world \<Rightarrow> (libretro \<times> world) option" where
  "libretro_frame deck base t s w =
     (case core_runs deck (lt_calls t) s of
        None \<Rightarrow> None
      | Some s1 \<Rightarrow>
          (let s2 = s1\<lparr>lr_memories := lt_memories t, lr_frames := lr_frames s1 + 1\<rparr>;
               w1 = (if unat (lr_frames s2) mod 600 = 0
                     then snd (save_persistent_memory deck base (lr_memories s2) w) else w)
           in Some (s2\<lparr>lr_clock := snd (wait_for_next_frame (lt_now t) (lr_clock s2))\<rparr>, w1)))"

definition libretro_end :: "frontend \<Rightarrow> string \<Rightarrow> libretro \<Rightarrow> world \<Rightarrow> nat \<times> libretro \<times> world" where
  "libretro_end deck base s w =
     (let (_, w1) = save_persistent_memory deck base (lr_memories s) w
      in (if video_failed s then 1 else 0, s\<lparr>lr_audio := None, lr_framebuffer := None\<rparr>, w1))"

text \<open>The exit status once the loop has ended; without one the core goes on after the turns.\<close>

fun libretro_loop ::
  "frontend \<Rightarrow> string \<Rightarrow> libretro_turn list \<Rightarrow> libretro \<Rightarrow> world \<Rightarrow> (nat option \<times> libretro \<times> world) option" where
  "libretro_loop deck base [] s w =
     (if video_failed s then (let (status, s', w') = libretro_end deck base s w in Some (Some status, s', w'))
      else Some (None, s, w))"
| "libretro_loop deck base (t # ts) s w =
     (if lt_shutdown t \<or> video_failed s
      then (let (status, s', w') = libretro_end deck base s w in Some (Some status, s', w'))
      else
        (case libretro_frame deck base t s w of
           None \<Rightarrow> None
         | Some (s', w') \<Rightarrow> libretro_loop deck base ts s' w'))"

text \<open>\<open>strtoul\<close> on a \<open>long\<close> of the given width; a minus sign negates modulo that width.\<close>

definition parse_divisor :: "nat \<Rightarrow> string \<Rightarrow> nat option" where
  "parse_divisor bits s =
     (case strtol (c_str s) of
        (value, rest) \<Rightarrow>
          (let parsed = nat (value mod 2 ^ bits)
           in if \<bar>value\<bar> < 2 ^ bits \<and> rest = [] \<and> parsed \<ge> 1 \<and> parsed \<le> 60 then Some parsed else None))"

text \<open>
  What start-up meets: the core's calls while it is initialised, loaded and described, its rates
  (the rounded sample rate and \<open>10 ^ 9 / fps\<close>, rounded down) and memories, the devices, the
  environment and the clock.
\<close>

record libretro_answers =
  la_init_calls :: "core_call list"
  la_api_ok :: bool
  la_load_calls :: "core_call list"
  la_loaded :: bool
  la_framebuffer :: fb_kernel
  la_exit_hint :: bool
  la_describe_calls :: "core_call list"
  la_sample_rate :: nat
  la_frame_nanoseconds :: int
  la_volume :: "string option"
  la_audio :: dsp_kernel
  la_memories :: save_memories
  la_diagnostics :: bool
  la_divisor :: "string option"
  la_long_bits :: nat
  la_now :: int

definition libretro_initial :: "string \<Rightarrow> libretro_answers \<Rightarrow> libretro" where
  "libretro_initial directory a =
     \<lparr>lr_framebuffer = None, lr_audio = None, system_directory = directory, video_failed = False,
      audio_frames_received = 0, audio_callbacks_received = 0, video_divisor = 1, video_callbacks_received = 0,
      video_pixel_format = RETRO_PIXEL_FORMAT_XRGB8888, lr_memories = la_memories a,
      lr_clock = \<lparr>start_nanoseconds = la_now a, frame_nanoseconds = la_frame_nanoseconds a, frame_number = 0\<rparr>,
      lr_frames = 0\<rparr>"

definition chosen_divisor :: "libretro_answers \<Rightarrow> nat" where
  "chosen_divisor a =
     (if la_diagnostics a
      then (case la_divisor a of
              None \<Rightarrow> 1
            | Some s \<Rightarrow> if s = [] then 1 else (case parse_divisor (la_long_bits a) s of None \<Rightarrow> 1 | Some d \<Rightarrow> d))
      else 1)"

definition libretro_start ::
  "frontend \<Rightarrow> libretro_answers \<Rightarrow> string list \<Rightarrow> world \<Rightarrow> ((nat + libretro) \<times> world) option" where
  "libretro_start deck a argv w =
     (if length argv \<noteq> 2 then Some (Inl 2, w)
      else
        (case read_rom deck (argv ! 1) w of
           (Inl _, w1) \<Rightarrow> Some (Inl 1, w1)
         | (Inr _, w1) \<Rightarrow>
             (case core_runs deck (la_init_calls a) (libretro_initial (parent_directory (argv ! 1)) a) of
                None \<Rightarrow> None
              | Some s1 \<Rightarrow>
                  if \<not> la_api_ok a then Some (Inl 1, w1)
                  else
                    (case core_runs deck (la_load_calls a) s1 of
                       None \<Rightarrow> None
                     | Some s2 \<Rightarrow>
                         if \<not> la_loaded a then Some (Inl 1, w1)
                         else
                           (case fb_open_device (la_framebuffer a) (created_framebuffer (la_exit_hint a)) of
                              (Inl _, _) \<Rightarrow> Some (Inl 1, w1)
                            | (Inr _, fb) \<Rightarrow>
                                (case core_runs deck (la_describe_calls a) (s2\<lparr>lr_framebuffer := Some fb\<rparr>) of
                                   None \<Rightarrow> None
                                 | Some s3 \<Rightarrow>
                                     (case DeckReadVolumePercent (la_volume a) of
                                        (False, _) \<Rightarrow> Some (Inl 1, w1)
                                      | (True, volume) \<Rightarrow>
                                          (case audio_open_device (la_audio a) (la_sample_rate a) volume 8 created_audio of
                                             None \<Rightarrow> None
                                           | Some (_, au) \<Rightarrow>
                                               (let (memories, w2) = load_persistent_memory deck (save_base (argv ! 1))
                                                      (lr_memories s3) w1
                                                in Some (Inr (s3\<lparr>lr_audio := Some au, lr_memories := memories,
                                                                 video_divisor := chosen_divisor a\<rparr>), w2))))))))))"

definition libretro_main ::
  "frontend \<Rightarrow> libretro_answers \<Rightarrow> libretro_turn list \<Rightarrow> string list \<Rightarrow> world \<Rightarrow> (nat option \<times> world) option" where
  "libretro_main deck a ts argv w =
     (case libretro_start deck a argv w of
        None \<Rightarrow> None
      | Some (Inl status, w1) \<Rightarrow> Some (Some status, w1)
      | Some (Inr s, w1) \<Rightarrow>
          (case libretro_loop deck (save_base (argv ! 1)) ts s w1 of
             None \<Rightarrow> None
           | Some (status, _, w2) \<Rightarrow> Some (status, w2)))"


section \<open>Every key of the Spectrum has a key of its own\<close>

text \<open>
  What \<open>libretro.h\<close> promises of its key codes: the digits and the letters are consecutive, and no
  two of the keys used here have one code.
\<close>

definition keyboard_laws :: "retro_api \<Rightarrow> bool" where
  "keyboard_laws api =
     (RETROK_9 api = RETROK_0 api + 9 \<and> RETROK_z api = RETROK_a api + 25 \<and>
      distinct ([RETROK_0 api..<RETROK_0 api + 10] @ [RETROK_a api..<RETROK_a api + 26] @ map fst (named_keys api)))"

definition keymap :: "retro_api \<Rightarrow> (nat \<times> nat) list" where
  "keymap api = zip [RETROK_0 api..<RETROK_0 api + 10] digit_keys @
     zip [RETROK_a api..<RETROK_a api + 26] letter_keys @ named_keys api"

definition zx_keycodes :: "nat list" where
  "zx_keycodes = digit_keys @ letter_keys @ [28, 57, 14, 42, 54, 29, 97, 56, 100, 125, 126, 103, 108, 105, 106]"

lemma map_of_zip_upt:
  "length xs = n \<Longrightarrow> map_of (zip [a..<a + n] xs) k = (if a \<le> k \<and> k < a + n then Some (xs ! (k - a)) else None)"
proof (induction xs arbitrary: a n)
  case (Cons x xs)
  then have n: "n = Suc (length xs)" by simp
  have "[a..<a + n] = a # [Suc a..<Suc a + length xs]" using n by (simp add: upt_conv_Cons del: upt_Suc)
  then have "map_of (zip [a..<a + n] (x # xs)) k = (if k = a then Some x else map_of (zip [Suc a..<Suc a + length xs] xs) k)"
    by simp
  also have "\<dots> = (if a \<le> k \<and> k < a + n then Some ((x # xs) ! (k - a)) else None)"
    using Cons.IH [OF refl, of "Suc a"] n by (auto simp: nth_Cons' split: if_splits)
  finally show ?case .
qed simp

lemma key_tables: "length digit_keys = 10" "length letter_keys = 26" "distinct zx_keycodes"
  "0 \<notin> set zx_keycodes" "\<forall>c \<in> set zx_keycodes. c < 128"
  by (simp_all add: digit_keys_def letter_keys_def zx_keycodes_def)

lemma keymap_tables:
  "map fst (keymap api) = [RETROK_0 api..<RETROK_0 api + 10] @ [RETROK_a api..<RETROK_a api + 26] @ map fst (named_keys api)"
  "map snd (keymap api) = zx_keycodes"
proof -
  have "map fst (zip [a..<a + n] xs) = [a..<a + n]" "map snd (zip [a..<a + n] xs) = xs"
    if "length xs = n" for a n and xs :: "nat list" using that by simp_all
  note zipped = this [OF key_tables(1)] this [OF key_tables(2)]
  show "map fst (keymap api) = [RETROK_0 api..<RETROK_0 api + 10] @ [RETROK_a api..<RETROK_a api + 26] @ map fst (named_keys api)"
    by (simp only: keymap_def map_append zipped)
  show "map snd (keymap api) = zx_keycodes"
    by (simp only: keymap_def map_append zipped zx_keycodes_def) (simp add: named_keys_def)
qed

lemma zx_linux_keycode_keymap:
  assumes "keyboard_laws api"
  shows "zx_linux_keycode api k = (case map_of (keymap api) k of Some c \<Rightarrow> c | None \<Rightarrow> KEY_RESERVED)"
proof -
  have bounds: "RETROK_9 api = RETROK_0 api + 9" "RETROK_z api = RETROK_a api + 25"
    using assms by (simp_all add: keyboard_laws_def)
  have "map_of (keymap api) k =
      (if RETROK_0 api \<le> k \<and> k < RETROK_0 api + 10 then Some (digit_keys ! (k - RETROK_0 api))
       else if RETROK_a api \<le> k \<and> k < RETROK_a api + 26 then Some (letter_keys ! (k - RETROK_a api))
       else map_of (named_keys api) k)"
    by (simp only: keymap_def map_of_append map_add_def map_of_zip_upt [OF key_tables(1)]
        map_of_zip_upt [OF key_tables(2)] split: if_split option.split) auto
  then show ?thesis
    unfolding zx_linux_keycode_def bounds by (simp only: less_Suc_eq_le [symmetric]) (simp split: if_splits)
qed

text \<open>
  The map from Libretro keys to the keyboard's is one to one: each of the fifty-one keys has a
  code of its own, which the keyboard's 128 flags hold, and every other key has none.
\<close>
theorem zx_keymap_injective:
  assumes "keyboard_laws api"
  shows "bij_betw (zx_linux_keycode api) {k. zx_linux_keycode api k \<noteq> KEY_RESERVED} (set zx_keycodes) \<and>
    card (set zx_keycodes) = 51 \<and> (\<forall>c \<in> set zx_keycodes. c < 128)"
proof -
  have d: "distinct (map fst (keymap api))" using assms by (simp only: keyboard_laws_def keymap_tables(1))
  have some: "zx_linux_keycode api k = c \<and> c \<noteq> KEY_RESERVED \<longleftrightarrow> (k, c) \<in> set (keymap api)" for k c
  proof -
    have "(k, c) \<in> set (keymap api) \<Longrightarrow> c \<noteq> KEY_RESERVED"
      using key_tables(4) keymap_tables(2) [of api] by (metis KEY_RESERVED_def image_eqI list.set_map snd_conv)
    then show ?thesis
      using zx_linux_keycode_keymap [OF assms, of k] map_of_eq_Some_iff [OF d, of k c] by (auto split: option.splits)
  qed
  have inj_snd: "inj_on snd (set (keymap api))"
    using key_tables(3) keymap_tables(2) [of api] by (metis distinct_map)
  have "k = k'" if "(k, c) \<in> set (keymap api)" "(k', c) \<in> set (keymap api)" for k k' c
    using inj_onD [OF inj_snd, of "(k, c)" "(k', c)"] that by simp
  then have inj: "inj_on (zx_linux_keycode api) {k. zx_linux_keycode api k \<noteq> KEY_RESERVED}"
    using some by (intro inj_onI) blast
  have "c \<in> set zx_keycodes \<longleftrightarrow> (\<exists>k. (k, c) \<in> set (keymap api))" for c
    unfolding keymap_tables(2) [of api, symmetric] by force
  moreover have "c \<in> zx_linux_keycode api ` {k. zx_linux_keycode api k \<noteq> KEY_RESERVED} \<longleftrightarrow>
      (\<exists>k. zx_linux_keycode api k = c \<and> c \<noteq> KEY_RESERVED)" for c by auto
  ultimately have "zx_linux_keycode api ` {k. zx_linux_keycode api k \<noteq> KEY_RESERVED} = set zx_keycodes"
    by (intro set_eqI) (simp only: some)
  moreover have "card (set zx_keycodes) = 51"
    unfolding distinct_card [OF key_tables(3)] by (simp add: zx_keycodes_def key_tables)
  ultimately show ?thesis using inj key_tables(5) by (simp add: bij_betw_def)
qed

section \<open>Controllers\<close>

text \<open>What \<open>libretro.h\<close> promises of the buttons: different numbers from 0 to \<open>R3\<close>, which is 15.\<close>

definition joypad_laws :: "retro_api \<Rightarrow> bool" where
  "joypad_laws api =
     (distinct (map snd (joypad_buttons ZxDeck api)) \<and> list_all (\<lambda>b. b \<le> RETRO_DEVICE_ID_JOYPAD_R3 api)
        (map snd (joypad_buttons ZxDeck api)) \<and>
      RETRO_DEVICE_ID_JOYPAD_R3 api = 15 \<and> RETRO_DEVICE_ID_JOYPAD_MASK api > 15 \<and>
      RETRO_DEVICE_JOYPAD api \<noteq> RETRO_DEVICE_KEYBOARD api)"

lemma joypad_mask_bit:
  assumes "\<forall>(pad, button) \<in> set buttons. button < 16" "n < 16"
  shows "bit (joypad_mask buttons state) n \<longleftrightarrow> (\<exists>(pad, button) \<in> set buttons. button = n \<and> state AND pad \<noteq> 0)"
proof -
  have step: "bit (foldl (\<lambda>mask (pad, button). if state AND pad \<noteq> 0 then mask OR ucast (push_bit button 1 :: u32) else mask)
      mask buttons) n \<longleftrightarrow> bit (mask :: u16) n \<or> (\<exists>(pad, button) \<in> set buttons. button = n \<and> state AND pad \<noteq> 0)" for mask
    using assms
  proof (induction buttons arbitrary: mask)
    case (Cons b buttons)
    obtain pad button where b: "b = (pad, button)" by fastforce
    then have "button < 16" using Cons.prems(1) by simp
    then have "bit (ucast (push_bit button 1 :: u32) :: u16) n \<longleftrightarrow> button = n"
      using assms(2) by (auto simp: bit_simps)
    then show ?case using Cons.IH [of "if state AND pad \<noteq> 0 then mask OR ucast (push_bit button 1 :: u32) else mask"]
        Cons.prems b by (auto simp: bit_or_iff)
  qed simp
  show ?thesis unfolding joypad_mask_def using step [of 0] by simp
qed

text \<open>
  The core sees each button of a controller exactly while that button is pressed, nothing for
  the buttons the pads do not have, and the combined mask agrees with the single answers.
\<close>
theorem input_state_exact:
  assumes "joypad_laws api" "port < Libretro_Save.kPlayerCount deck"
    and "answer = input_state_callback deck api input port (RETRO_DEVICE_JOYPAD api) 0"
  shows "(\<forall>(pad, button) \<in> set (joypad_buttons deck api). answer button = of_bool (GetJoypadInput port input AND pad \<noteq> 0)) \<and>
    (\<forall>button. button \<in> set (map snd (joypad_buttons deck api)) \<or> button = RETRO_DEVICE_ID_JOYPAD_MASK api \<or> answer button = 0) \<and>
    (\<forall>n < 16. bit (answer (RETRO_DEVICE_ID_JOYPAD_MASK api)) n \<longleftrightarrow> answer n = 1)"
proof -
  let ?buttons = "joypad_buttons deck api" and ?state = "GetJoypadInput port input"
  let ?mask = "joypad_mask ?buttons ?state"
  note laws = assms(1) [unfolded joypad_laws_def]
  have sub: "set ?buttons \<subseteq> set (joypad_buttons ZxDeck api)" and d: "distinct (map snd ?buttons)"
    using laws by (auto simp: joypad_buttons_def)
  have small: "\<forall>(pad, button) \<in> set ?buttons. button < 16"
  proof safe
    fix pad button assume "(pad, button) \<in> set ?buttons"
    then have "button \<in> set (map snd (joypad_buttons ZxDeck api))" using sub by force
    then show "button < 16" using laws by (auto simp: list_all_iff)
  qed
  note bits = joypad_mask_bit [OF small, of _ ?state]
  have answer: "answer button = (if button = RETRO_DEVICE_ID_JOYPAD_MASK api then sint ?mask
      else if button < 16 then of_bool (bit ?mask button) else 0)" for button
    using assms(2,3) laws
    by (auto simp: input_state_callback_def and_exp_eq_0_iff_not_bit push_bit_of_1 bit_simps)
  have single: "answer n = of_bool (bit ?mask n)" if "n < 16" for n using answer laws that by auto
  have "answer button = of_bool (?state AND pad \<noteq> 0)" if "(pad, button) \<in> set ?buttons" for pad button
  proof -
    have lt: "button < 16" using small that by auto
    have "pad' = pad" if "(pad', button) \<in> set ?buttons" for pad'
      using inj_onD [of snd "set ?buttons" "(pad', button)" "(pad, button)"] d that \<open>(pad, button) \<in> set ?buttons\<close>
      by (simp add: distinct_map)
    then have "(\<exists>(pad', b) \<in> set ?buttons. b = button \<and> ?state AND pad' \<noteq> 0) \<longleftrightarrow> ?state AND pad \<noteq> 0"
      using that by blast
    then show ?thesis by (simp only: single [OF lt] bits [OF lt])
  qed
  moreover have "button \<in> set (map snd ?buttons) \<or> button = RETRO_DEVICE_ID_JOYPAD_MASK api \<or> answer button = 0" for button
  proof (cases "button < 16 \<and> button \<notin> set (map snd ?buttons)")
    case True
    then have "\<not> bit ?mask button" using bits [of button] by (auto simp: rev_image_eqI)
    then show ?thesis using single [of button] True by simp
  next
    case False
    then show ?thesis using answer [of button] by auto
  qed
  moreover have "bit (answer (RETRO_DEVICE_ID_JOYPAD_MASK api)) n \<longleftrightarrow> answer n = 1" if "n < 16" for n
    using answer [of "RETRO_DEVICE_ID_JOYPAD_MASK api"] single [OF that] that by (simp add: bit_sint_iff)
  ultimately show ?thesis by blast
qed

section \<open>Showing frames\<close>

definition pixel_bytes :: "retro_pixel_format \<Rightarrow> nat" where
  "pixel_bytes format = (if format = RETRO_PIXEL_FORMAT_RGB565 then 2 else 4)"

definition pixel_colour :: "retro_pixel_format \<Rightarrow> byte list \<Rightarrow> nat \<Rightarrow> nat \<Rightarrow> nat \<Rightarrow> u16" where
  "pixel_colour format rows pitch x y =
     (if format = RETRO_PIXEL_FORMAT_RGB565 then read_u16 rows (y * pitch + x * 2)
      else DeckRgb888To565 (read_u32 rows (y * pitch + x * 4)))"

definition frame_fits :: "retro_pixel_format \<Rightarrow> u32 \<Rightarrow> u32 \<Rightarrow> nat \<Rightarrow> bool" where
  "frame_fits format w h pitch = (DeckComputeScaledLayout w h \<noteq> None \<and> unat w * pixel_bytes format \<le> pitch)"

definition present_frame ::
  "retro_pixel_format \<Rightarrow> byte list option \<Rightarrow> u32 \<Rightarrow> u32 \<Rightarrow> nat \<Rightarrow> DeckFramebuffer \<Rightarrow>
     (video_error + unit) \<times> DeckFramebuffer" where
  "present_frame format data w h pitch fb =
     (if format = RETRO_PIXEL_FORMAT_RGB565 then present_rgb565 data w h pitch fb
      else present_xrgb8888 data w h pitch fb)"

lemma present_frame_fits:
  assumes "fb_usable fb" "frame_fits format w h pitch"
  obtains fb' where "present_frame format (Some rows) w h pitch fb = (Inr (), fb')" "fb_usable fb'"
    "fb_memory fb' = panel_contents w h (pixel_colour format rows pitch) fb"
proof (cases "format = RETRO_PIXEL_FORMAT_RGB565")
  case True
  then show thesis
    using present_rgb565_shows [OF assms(1), of w h pitch rows] assms(2) that
    by (auto simp: frame_fits_def pixel_bytes_def present_frame_def pixel_colour_def [abs_def])
next
  case False
  then show thesis
    using present_xrgb8888_shows [OF assms(1), of w h pitch rows] assms(2) that
    by (auto simp: frame_fits_def pixel_bytes_def present_frame_def pixel_colour_def [abs_def])
qed

lemma present_frame_refuses:
  assumes "\<not> frame_fits format w h pitch"
  shows "\<exists>e. present_frame format (Some rows) w h pitch fb = (Inl e, fb)"
proof (cases "DeckComputeScaledLayout w h")
  case None
  then have "\<nexists>l fb1. begin_frame w h fb = (Inr l, fb1)" using begin_frame_cases(1) by auto
  then obtain e where "begin_frame w h fb = (Inl e, fb)"
    using begin_frame_cases(2) by (cases "begin_frame w h fb"; cases "fst (begin_frame w h fb)") auto
  then show ?thesis by (simp add: present_frame_def present_rgb565_def present_xrgb8888_def)
next
  case (Some l)
  then have "unat w \<le> 1248" using layout_nat by metis
  then have "unat w * 4 mod 2 ^ 32 = unat w * 4" "unat w * 2 mod 2 ^ 32 = unat w * 2" by simp_all
  then show ?thesis
    using assms Some
    by (simp add: present_frame_def present_rgb565_def present_xrgb8888_def frame_fits_def pixel_bytes_def split: if_splits)
qed

lemma video_callback_present:
  "video_callback data w h pitch s =
     (case lr_framebuffer s of
        None \<Rightarrow> s
      | Some fb \<Rightarrow>
          (if data = None \<or> video_failed s then s
           else
             (let s1 = s\<lparr>video_callbacks_received := video_callbacks_received s + 1\<rparr>
              in if video_divisor s1 > 1 \<and> unat (video_callbacks_received s1) mod video_divisor s1 \<noteq> 0 then s1
                 else
                   (case present_frame (video_pixel_format s) data w h pitch fb of
                      (Inl _, fb') \<Rightarrow> s1\<lparr>lr_framebuffer := Some fb', video_failed := True\<rparr>
                    | (Inr _, fb') \<Rightarrow> s1\<lparr>lr_framebuffer := Some fb'\<rparr>))))"
  by (cases "lr_framebuffer s") (simp_all add: video_callback_def present_frame_def Let_def)

text \<open>
  A frame of the core is shown in the core's pixel format when it fits the panel and its rows
  are long enough; otherwise the panel stays as it is and the program is going to end with an
  error.  With a divisor only every so manieth frame is considered.
\<close>
theorem video_callback_shows:
  assumes "lr_framebuffer s = Some fb" "fb_usable fb" "\<not> video_failed s"
  shows "\<exists>fb'. lr_framebuffer (video_callback (Some rows) w h pitch s) = Some fb' \<and> fb_usable fb' \<and>
    (if 1 < video_divisor s \<and> unat (video_callbacks_received s + 1) mod video_divisor s \<noteq> 0
     then fb' = fb \<and> \<not> video_failed (video_callback (Some rows) w h pitch s)
     else if frame_fits (video_pixel_format s) w h pitch
     then fb_memory fb' = panel_contents w h (pixel_colour (video_pixel_format s) rows pitch) fb \<and>
       \<not> video_failed (video_callback (Some rows) w h pitch s)
     else fb' = fb \<and> video_failed (video_callback (Some rows) w h pitch s))"
proof (cases "frame_fits (video_pixel_format s) w h pitch")
  case True
  obtain fb' where "present_frame (video_pixel_format s) (Some rows) w h pitch fb = (Inr (), fb')" "fb_usable fb'"
    "fb_memory fb' = panel_contents w h (pixel_colour (video_pixel_format s) rows pitch) fb"
    using present_frame_fits [OF assms(2) True] by blast
  then show ?thesis using assms True by (simp add: video_callback_present Let_def)
next
  case False
  then obtain e where "present_frame (video_pixel_format s) (Some rows) w h pitch fb = (Inl e, fb)"
    using present_frame_refuses by blast
  then show ?thesis using assms False by (simp add: video_callback_present Let_def)
qed

text \<open>
  A format the program refuses is stored all the same: a core that tries one after a format that
  was accepted, and goes on with the accepted one, ends the program with its next frame.
\<close>

lemma refused_format_ends_program:
  assumes "lr_framebuffer s = Some fb" "\<not> video_failed s" "video_divisor s = 1" "unat w > 0"
    "environment_callback deck (SET_PIXEL_FORMAT (Some RETRO_PIXEL_FORMAT_RGB565)) s = (True, c1, s1)"
    "environment_callback deck (SET_PIXEL_FORMAT (Some RETRO_PIXEL_FORMAT_0RGB1555)) s1 = (False, c2, s2)"
  shows "video_failed (video_callback (Some rows) w h (unat w * 2) s2)"
proof -
  have "\<not> frame_fits (video_pixel_format s2) w h (unat w * 2)"
    using assms(4,6) by (auto simp: environment_callback_def frame_fits_def pixel_bytes_def)
  then obtain e where "present_frame (video_pixel_format s2) (Some rows) w h (unat w * 2) fb = (Inl e, fb)"
    using present_frame_refuses by blast
  then show ?thesis
    using assms by (auto simp: environment_callback_def video_callback_present Let_def)
qed

section \<open>The saves over a session\<close>

text \<open>A file that was left alone or holds one of the memories in full.\<close>

definition held_from :: "string option \<Rightarrow> string option \<Rightarrow> byte list option set \<Rightarrow> bool" where
  "held_from before after memories =
     (after = before \<or> (\<exists>bytes. Some bytes \<in> memories \<and> bytes \<noteq> [] \<and> after = Some (chars bytes)))"

lemma held_from_trans: "held_from a b A \<Longrightarrow> held_from b c B \<Longrightarrow> held_from a c (A \<union> B)"
  unfolding held_from_def by blast

lemma held_from_mono: "held_from a b A \<Longrightarrow> A \<subseteq> B \<Longrightarrow> held_from a b B"
  unfolding held_from_def by blast

text \<open>A file that is as before, but for a temporary that was not there and is left behind.\<close>

definition kept_file :: "string set \<Rightarrow> world \<Rightarrow> world \<Rightarrow> string \<Rightarrow> bool" where
  "kept_file temporaries w w' p = (file_content w' p = file_content w p \<or> p \<in> temporaries \<and> file_content w p = None)"

lemma kept_file_trans: "kept_file A u v p \<Longrightarrow> kept_file A v w p \<Longrightarrow> kept_file A u w p"
  by (auto simp: kept_file_def)

lemma save_memory_file_held:
  assumes "wf_world w" "save_memory_file path memory w = (ok, w')"
  shows "held_from (file_content w path) (file_content w' path) {memory}"
    "p \<noteq> path \<Longrightarrow> kept_file {save_temporary path (pid w)} w w' p"
proof -
  have "held_from (file_content w path) (file_content w' path) {memory} \<and>
    (p \<noteq> path \<longrightarrow> kept_file {save_temporary path (pid w)} w w' p)"
  proof (cases "memory = None \<or> memory = Some []")
    case True
    then show ?thesis using assms(2) by (auto simp: save_memory_file_def held_from_def kept_file_def)
  next
    case False
    then obtain bytes where m: "memory = Some bytes" "bytes \<noteq> []" by auto
    note o = save_memory_file_outcome [OF assms(1) assms(2) [unfolded m(1)] m(2)]
    show ?thesis
    proof (cases ok)
      case True
      then show ?thesis using o m by (simp add: held_from_def kept_file_def)
    next
      case False
      then have same: "\<forall>q. q \<noteq> save_temporary path (pid w) \<or> names w q \<noteq> None \<longrightarrow> file_content w' q = file_content w q"
        using o by (simp only: if_False) blast
      have "names w p = None \<Longrightarrow> file_content w p = None" by (simp add: file_content_def)
      then show ?thesis using same save_temporary_longer [of path "pid w"] by (metis held_from_def kept_file_def singletonI)
    qed
  qed
  then show "held_from (file_content w path) (file_content w' path) {memory}"
    "p \<noteq> path \<Longrightarrow> kept_file {save_temporary path (pid w)} w w' p" by blast+
qed

lemma extension_short: "length (kSaveExtension deck) = 4"
  by (simp add: kSaveExtension_def split: frontend.split)

lemma temporary_not_save:
  assumes "length extension = 4"
  shows "save_temporary (base @ other) process \<noteq> base @ extension"
proof
  assume "save_temporary (base @ other) process = base @ extension"
  from arg_cong [OF this, of length] show False using assms by (simp add: save_temporary_def)
qed

text \<open>The files a frontend saves to, and their temporaries.\<close>

definition save_files :: "frontend \<Rightarrow> string \<Rightarrow> string set" where
  "save_files deck base = insert (base @ kSaveExtension deck) (if kHasRtc deck then {base @ ''.rtc''} else {})"

definition save_temporaries :: "frontend \<Rightarrow> string \<Rightarrow> nat \<Rightarrow> string set" where
  "save_temporaries deck base process = (\<lambda>path. save_temporary path process) ` save_files deck base"

text \<open>The world after some saves, compared with the one before them.\<close>

definition saves_follow :: "frontend \<Rightarrow> string \<Rightarrow> save_memories set \<Rightarrow> world \<Rightarrow> world \<Rightarrow> bool" where
  "saves_follow deck base ms w w' =
     (wf_world w' \<and> fds w' = fds w \<and> pid w' = pid w \<and>
      held_from (file_content w (base @ kSaveExtension deck)) (file_content w' (base @ kSaveExtension deck)) (save_ram ` ms) \<and>
      (kHasRtc deck \<longrightarrow> held_from (file_content w (base @ ''.rtc'')) (file_content w' (base @ ''.rtc'')) (rtc ` ms)) \<and>
      (\<forall>p. p \<in> save_files deck base \<or> kept_file (save_temporaries deck base (pid w)) w w' p))"

lemma saving_follows:
  assumes wf: "wf_world w" and save: "save_persistent_memory deck base m w = (ok, w')"
  shows "saves_follow deck base {m} w w'"
proof -
  let ?ram = "base @ kSaveExtension deck" and ?rtc = "base @ ''.rtc''"
  obtain ok1 w1 where 1: "save_memory_file ?ram (save_ram m) w = (ok1, w1)" by fastforce
  obtain ok2 w2 where 2: "save_memory_file ?rtc (rtc m) w1 = (ok2, w2)" by fastforce
  note k1 = save_memory_file_keeps(1,2) [OF wf 1] save_memory_file_held [OF wf 1] save_memory_file_pid [OF 1]
  note k2 = save_memory_file_keeps(1,2) [OF k1(2) 2] save_memory_file_held [OF k1(2) 2] save_memory_file_pid [OF 2]
  let ?T = "save_temporaries deck base (pid w)"
  have temporary: "?rtc \<noteq> save_temporary ?ram process" "?ram \<noteq> save_temporary ?rtc process" "?ram \<noteq> ?rtc" for process
    using temporary_not_save [of _ base] extension_short [of deck] save_extensions_differ [of base deck]
    by (metis length_Cons list.size(3) numeral_4_eq_4)+
  have first: "file_content w1 ?rtc = file_content w ?rtc"
    using k1(4) [of ?rtc] temporary by (auto simp: kept_file_def)
  have second: "file_content w2 ?ram = file_content w1 ?ram"
    using k2(4) [of ?ram] temporary by (auto simp: kept_file_def)
  have kept1: "kept_file ?T w w1 p" if "p \<noteq> ?ram" for p
    using k1(4) [OF that] by (auto simp: kept_file_def save_temporaries_def save_files_def)
  show ?thesis
  proof (cases "kHasRtc deck")
    case True
    then have "w' = w2" using save 1 2 by (simp add: save_persistent_memory_def)
    moreover have "kept_file ?T w1 w2 p" if "p \<noteq> ?rtc" for p
      using k2(4) [OF that] k1(5) True by (auto simp: kept_file_def save_temporaries_def save_files_def)
    then have "p \<noteq> ?ram \<Longrightarrow> p \<noteq> ?rtc \<Longrightarrow> kept_file ?T w w2 p" for p
      using kept_file_trans [OF kept1] by blast
    then have "p \<in> save_files deck base \<or> kept_file ?T w w2 p" for p
      using True by (auto simp: save_files_def)
    ultimately show ?thesis using k1 k2 first second by (simp add: saves_follow_def)
  next
    case False
    then have "w' = w1" using save 1 by (simp add: save_persistent_memory_def)
    then show ?thesis using k1(1-3,5) kept1 False by (auto simp: saves_follow_def save_files_def)
  qed
qed

lemma core_acts_frame:
  "core_acts deck call s = Some s' \<Longrightarrow> lr_memories s' = lr_memories s \<and> lr_frames s' = lr_frames s \<and>
     lr_clock s' = lr_clock s"
  by (auto simp: core_acts_def environment_callback_def video_callback_def audio_callback_def Let_def
      split: core_call.splits environment_call.splits option.splits if_splits prod.splits sum.splits)

lemma core_runs_frame:
  "core_runs deck calls s = Some s' \<Longrightarrow> lr_memories s' = lr_memories s \<and> lr_frames s' = lr_frames s \<and>
     lr_clock s' = lr_clock s"
proof (induction calls arbitrary: s)
  case (Cons call calls)
  then show ?case using core_acts_frame by (fastforce split: option.splits)
qed simp

lemma saves_follow_refl: "wf_world w \<Longrightarrow> saves_follow deck base ms w w"
  by (simp add: saves_follow_def held_from_def kept_file_def)

lemma saves_follow_mono:
  assumes "saves_follow deck base A w w'" "A \<subseteq> C"
  shows "saves_follow deck base C w w'"
proof -
  note a = assms(1) [unfolded saves_follow_def]
  have "held_from (file_content w (base @ kSaveExtension deck)) (file_content w' (base @ kSaveExtension deck)) (save_ram ` C)"
    "kHasRtc deck \<Longrightarrow> held_from (file_content w (base @ ''.rtc'')) (file_content w' (base @ ''.rtc'')) (rtc ` C)"
    using a by (auto intro: held_from_mono [OF _ image_mono [OF assms(2)]])
  then show ?thesis using a by (simp add: saves_follow_def)
qed

lemma saves_follow_trans:
  assumes "saves_follow deck base A u v" "saves_follow deck base B v w"
  shows "saves_follow deck base (A \<union> B) u w"
proof -
  note a = assms(1) [unfolded saves_follow_def] and b = assms(2) [unfolded saves_follow_def]
  have "held_from (file_content u (base @ kSaveExtension deck)) (file_content w (base @ kSaveExtension deck))
      (save_ram ` (A \<union> B))"
    "kHasRtc deck \<Longrightarrow> held_from (file_content u (base @ ''.rtc'')) (file_content w (base @ ''.rtc'')) (rtc ` (A \<union> B))"
    using a b unfolding image_Un by (blast intro: held_from_trans)+
  moreover have "p \<in> save_files deck base \<or> kept_file (save_temporaries deck base (pid u)) u w p" for p
    using a b kept_file_trans by metis
  ultimately show ?thesis using a b by (simp add: saves_follow_def)
qed

text \<open>
  C2. Whatever faults the saves of a session meet, and wherever it ends, each save file is at the
  end what it was before or a memory the core had, complete, and no descriptor is left open.  Every
  other file, the clock's on a deck without one included, is as it was, and of the temporaries only
  those can appear that did not exist: the ones whose removal failed.
\<close>
theorem libretro_saves_complete:
  assumes "wf_world w" "libretro_loop deck base ts s w = Some (status, s', w')"
  shows "saves_follow deck base (insert (lr_memories s) (lt_memories ` set ts)) w w'"
  using assms
proof (induction ts arbitrary: s w)
  case Nil
  obtain ok w1 where "save_persistent_memory deck base (lr_memories s) w = (ok, w1)" by fastforce
  then show ?case using Nil saving_follows [OF Nil.prems(1)] saves_follow_refl [OF Nil.prems(1)]
    by (auto simp: libretro_end_def split: if_splits)
next
  case (Cons t ts)
  obtain ok w1 where save: "save_persistent_memory deck base (lr_memories s) w = (ok, w1)" by fastforce
  show ?case
  proof (cases "lt_shutdown t \<or> video_failed s")
    case True
    then have "w' = w1" using Cons.prems(2) save by (simp add: libretro_end_def)
    then show ?thesis using saves_follow_mono [OF saving_follows [OF Cons.prems(1) save]] by simp
  next
    case False
    then obtain s1 w2 where f: "libretro_frame deck base t s w = Some (s1, w2)"
      "libretro_loop deck base ts s1 w2 = Some (status, s', w')"
      using Cons.prems(2) by (auto split: option.splits)
    obtain ok' w3 where save': "save_persistent_memory deck base (lt_memories t) w = (ok', w3)" by fastforce
    have "lr_memories s1 = lt_memories t" "w2 = w \<or> w2 = w3"
      using f(1) save' by (auto simp: libretro_frame_def Let_def split: option.splits)
    moreover from this(2) have follow: "saves_follow deck base {lt_memories t} w w2"
      using saves_follow_refl [OF Cons.prems(1)] saving_follows [OF Cons.prems(1) save'] by auto
    moreover have "wf_world w2" using follow by (simp add: saves_follow_def)
    ultimately have "saves_follow deck base ({lt_memories t} \<union> insert (lt_memories t) (lt_memories ` set ts)) w w'"
      using saves_follow_trans [OF follow] Cons.IH [OF _ f(2)] by metis
    then show ?thesis by (rule saves_follow_mono) auto
  qed
qed

section \<open>Witnesses\<close>

text \<open>The numbers of the released \<open>libretro.h\<close>.\<close>

definition example_api :: retro_api where
  "example_api =
     \<lparr>RETRO_DEVICE_JOYPAD = 1, RETRO_DEVICE_KEYBOARD = 3, RETRO_DEVICE_ID_JOYPAD_A = 8, RETRO_DEVICE_ID_JOYPAD_B = 0,
      RETRO_DEVICE_ID_JOYPAD_SELECT = 2, RETRO_DEVICE_ID_JOYPAD_START = 3, RETRO_DEVICE_ID_JOYPAD_UP = 4,
      RETRO_DEVICE_ID_JOYPAD_DOWN = 5, RETRO_DEVICE_ID_JOYPAD_LEFT = 6, RETRO_DEVICE_ID_JOYPAD_RIGHT = 7,
      RETRO_DEVICE_ID_JOYPAD_L = 10, RETRO_DEVICE_ID_JOYPAD_R = 11, RETRO_DEVICE_ID_JOYPAD_R3 = 15,
      RETRO_DEVICE_ID_JOYPAD_MASK = 256, RETROK_0 = 48, RETROK_9 = 57, RETROK_a = 97, RETROK_z = 122,
      RETROK_RETURN = 13, RETROK_SPACE = 32, RETROK_BACKSPACE = 8, RETROK_LSHIFT = 304, RETROK_RSHIFT = 303,
      RETROK_LCTRL = 306, RETROK_RCTRL = 305, RETROK_LALT = 308, RETROK_RALT = 307, RETROK_LSUPER = 311,
      RETROK_RSUPER = 312, RETROK_UP = 273, RETROK_DOWN = 274, RETROK_LEFT = 276, RETROK_RIGHT = 275\<rparr>"

lemma example_keyboard_laws: "keyboard_laws example_api"
  by (simp add: keyboard_laws_def example_api_def named_keys_def)

theorem zx_keymap_injective_witness:
  "bij_betw (zx_linux_keycode example_api) {k. zx_linux_keycode example_api k \<noteq> KEY_RESERVED} (set zx_keycodes)"
  using zx_keymap_injective [OF example_keyboard_laws] by blast

theorem input_state_exact_witness:
  "input_state_callback GbDeck example_api ((initial_input 0 [])\<lparr>pad_state := [1, 0]\<rparr>) 0 (RETRO_DEVICE_JOYPAD example_api) 0 8 = 1"
proof -
  let ?input = "(initial_input 0 [])\<lparr>pad_state := [1, 0]\<rparr>"
  have laws: "joypad_laws example_api" by (simp add: joypad_laws_def example_api_def joypad_buttons_def)
  have "(PAD_A, 8) \<in> set (joypad_buttons GbDeck example_api)" by (simp add: joypad_buttons_def example_api_def)
  moreover have "GetJoypadInput 0 ?input AND PAD_A \<noteq> 0"
    by (simp add: GetJoypadInput_def PAD_A_def Joypad_Input.kPlayerCount_def)
  moreover have "0 < Libretro_Save.kPlayerCount GbDeck" by (simp add: Libretro_Save.kPlayerCount_def)
  ultimately show ?thesis using input_state_exact [OF laws _ refl, of 0 GbDeck ?input] by (auto split: prod.splits)
qed

definition example_state :: libretro where
  "example_state =
     \<lparr>lr_framebuffer = Some example_open, lr_audio = None, system_directory = ''.'', video_failed = False,
      audio_frames_received = 0, audio_callbacks_received = 0, video_divisor = 1, video_callbacks_received = 0,
      video_pixel_format = RETRO_PIXEL_FORMAT_RGB565, lr_memories = \<lparr>save_ram = Some [1, 2], rtc = None\<rparr>,
      lr_clock = \<lparr>start_nanoseconds = 0, frame_nanoseconds = 0, frame_number = 0\<rparr>, lr_frames = 0\<rparr>"

theorem video_callback_shows_witness:
  "\<exists>fb'. lr_framebuffer (video_callback (Some (replicate 46080 7)) 160 144 320 example_state) = Some fb' \<and>
    fb_memory fb' = panel_contents 160 144 (pixel_colour RETRO_PIXEL_FORMAT_RGB565 (replicate 46080 7) 320) example_open"
proof -
  have state: "lr_framebuffer example_state = Some example_open" "\<not> video_failed example_state" "video_divisor example_state = 1"
    "video_pixel_format example_state = RETRO_PIXEL_FORMAT_RGB565"
    by (simp_all add: example_state_def)
  have "fb_usable example_open"
    using fb_reachable_wf [OF example_open_reachable] by (simp add: fb_usable_def example_open_fields)
  moreover have "frame_fits RETRO_PIXEL_FORMAT_RGB565 160 144 320"
    by (simp add: frame_fits_def example_layout pixel_bytes_def)
  ultimately show ?thesis
    using video_callback_shows [OF state(1) _ state(2), where rows = "replicate 46080 7" and w = 160 and h = 144 and pitch = 320] state
    by auto
qed

definition last_turn :: libretro_turn where
  "last_turn = \<lparr>lt_shutdown = True, lt_calls = [], lt_memories = \<lparr>save_ram = None, rtc = None\<rparr>, lt_now = 0\<rparr>"

lemma last_turn_ends:
  "\<exists>s' w'. libretro_loop deck base [last_turn] example_state w = Some (Some 0, s', w') \<and> lr_memories s' = lr_memories example_state"
proof -
  obtain ok w1 where "save_persistent_memory deck base (lr_memories example_state) w = (ok, w1)" by fastforce
  then show ?thesis by (simp add: libretro_end_def last_turn_def) (simp add: example_state_def)
qed

theorem libretro_saves_complete_witness:
  "\<exists>s' w'. libretro_loop GbDeck ''g'' [last_turn] example_state (sample_world [Success, Fault EIO]) = Some (Some 0, s', w') \<and>
    saves_follow GbDeck ''g'' {lr_memories example_state, lt_memories last_turn} (sample_world [Success, Fault EIO]) w'"
proof -
  have wf: "wf_world (sample_world [Success, Fault EIO])" by (rule sample_world_wf) (simp add: honest_def)
  obtain s' w' where run: "libretro_loop GbDeck ''g'' [last_turn] example_state (sample_world [Success, Fault EIO]) = Some (Some 0, s', w')"
    using last_turn_ends by blast
  from libretro_saves_complete [OF wf run] run show ?thesis by auto
qed

end
