(* ===== verification/Libretro_Session.thy ===== *)
theory Libretro_Session
  imports Libretro_Deck
begin

section \<open>Sessions of the Libretro frontends\<close>

text \<open>
  Whole runs of the main loop: without faults nothing a player has saved is lost at the end, and
  with a core that keeps to the interface the program runs until it is told to stop.
\<close>

section \<open>Ending without faults\<close>

definition quiet :: "string \<Rightarrow> world \<Rightarrow> bool" where
  "quiet base w = (schedule w = [] \<and> (\<forall>other. names w (save_temporary (base @ other) (pid w)) = None))"

lemma save_persistent_memory_quiet:
  assumes "quiet base w"
  shows "\<exists>w'. save_persistent_memory deck base m w = (True, w') \<and> quiet base w'"
proof -
  have step: "\<exists>w'. save_memory_file (base @ extension) memory v = (True, w') \<and> quiet base w'"
    if v: "quiet base v" and "length extension = 4" for memory extension v
  proof -
    obtain w' where w': "save_memory_file (base @ extension) memory v = (True, w')" "schedule w' = []" "pid w' = pid v"
      "\<forall>p. p \<noteq> base @ extension \<longrightarrow> names v p = None \<longrightarrow> names w' p = None"
      using save_memory_file_idle [of v "base @ extension" memory] v by (auto simp: quiet_def)
    then have "quiet base w'" using v temporary_not_save [OF that(2), of base] by (simp add: quiet_def)
    then show ?thesis using w'(1) by blast
  qed
  obtain w1 where 1: "save_memory_file (base @ kSaveExtension deck) (save_ram m) w = (True, w1)" "quiet base w1"
    using step [OF assms extension_short] by blast
  obtain w2 where 2: "save_memory_file (base @ ''.rtc'') (rtc m) w1 = (True, w2)" "quiet base w2"
    using step [OF 1(2), of "''.rtc''"] by auto
  show ?thesis using 1 2 by (cases "kHasRtc deck") (simp_all add: save_persistent_memory_def)
qed

lemma libretro_loop_quiet:
  assumes "libretro_loop deck base ts s w = Some (Some status, s', w')" "wf_world w" "quiet base w"
  shows "\<exists>v. wf_world v \<and> save_persistent_memory deck base (lr_memories s') v = (True, w') \<and>
    status = (if video_failed s' then 1 else 0) \<and> lr_audio s' = None \<and> lr_framebuffer s' = None"
  using assms
proof (induction ts arbitrary: s w)
  case Nil
  obtain w1 where "save_persistent_memory deck base (lr_memories s) w = (True, w1)"
    using save_persistent_memory_quiet [OF Nil.prems(3)] by blast
  then show ?case using Nil.prems by (auto simp: libretro_end_def split: if_splits)
next
  case (Cons t ts)
  show ?case
  proof (cases "lt_shutdown t \<or> video_failed s")
    case True
    obtain w1 where "save_persistent_memory deck base (lr_memories s) w = (True, w1)"
      using save_persistent_memory_quiet [OF Cons.prems(3)] by blast
    then show ?thesis using Cons.prems True by (auto simp: libretro_end_def)
  next
    case False
    then obtain s1 w2 where f: "libretro_frame deck base t s w = Some (s1, w2)"
      "libretro_loop deck base ts s1 w2 = Some (Some status, s', w')"
      using Cons.prems(1) by (auto split: option.splits)
    obtain w3 where save: "save_persistent_memory deck base (lt_memories t) w = (True, w3)" "quiet base w3"
      using save_persistent_memory_quiet [OF Cons.prems(3)] by blast
    have "w2 = w \<or> w2 = w3" using f(1) save(1) by (auto simp: libretro_frame_def Let_def split: option.splits)
    moreover have "wf_world w3" using save_persistent_memory_holds(1) [OF Cons.prems(2) save(1)] .
    ultimately show ?thesis using Cons.IH [OF f(2)] Cons.prems(2,3) save(2) by auto
  qed
qed

text \<open>
  C3. When a session ends and no call on files has failed, the save files hold exactly the memories
  the core had last, and the exit status is 1 exactly if a frame could not be shown.
\<close>
theorem libretro_exit_saves:
  assumes "libretro_loop deck base ts s w = Some (Some status, s', w')" "wf_world w" "quiet base w"
  shows "status = (if video_failed s' then 1 else 0) \<and> wf_world w' \<and>
    (case save_ram (lr_memories s') of Some (b # bytes) \<Rightarrow> file_content w' (base @ kSaveExtension deck) = Some (chars (b # bytes)) | _ \<Rightarrow> True) \<and>
    (case rtc (lr_memories s') of Some (b # bytes) \<Rightarrow> \<not> kHasRtc deck \<or> file_content w' (base @ ''.rtc'') = Some (chars (b # bytes)) | _ \<Rightarrow> True)"
proof -
  obtain v where v: "wf_world v" "save_persistent_memory deck base (lr_memories s') v = (True, w')"
    "status = (if video_failed s' then 1 else 0)"
    using libretro_loop_quiet [OF assms] by blast
  note holds = save_persistent_memory_holds [OF v(1,2)]
  show ?thesis
    using v(3) holds(1) holds(3) [OF TrueI] holds(4) [OF TrueI] by (auto split: option.split list.split)
qed

section \<open>A core that keeps to the interface\<close>

text \<open>
  The calls a core makes: it asks for one of the two supported pixel formats whenever it likes,
  its frames fit the format it asked for last, and its samples are not so loud that the resampler's
  arithmetic overflows.
\<close>

definition requested_format :: "retro_pixel_format \<Rightarrow> core_call \<Rightarrow> retro_pixel_format" where
  "requested_format format call = (case call of Environment (SET_PIXEL_FORMAT (Some given)) \<Rightarrow> given | _ \<Rightarrow> format)"

definition proper_call :: "retro_pixel_format \<Rightarrow> core_call \<Rightarrow> bool" where
  "proper_call format call =
     (case call of
        Environment (SET_PIXEL_FORMAT (Some given)) \<Rightarrow> given \<in> {RETRO_PIXEL_FORMAT_XRGB8888, RETRO_PIXEL_FORMAT_RGB565}
      | Video_refresh (Some rows) w h pitch \<Rightarrow> frame_fits format w h pitch
      | Audio_batch frames \<Rightarrow> list_all (\<lambda>(left, right). \<bar>sint left + sint right\<bar> \<le> 32768) frames
      | _ \<Rightarrow> True)"

fun proper_calls :: "retro_pixel_format \<Rightarrow> core_call list \<Rightarrow> bool" where
  "proper_calls format [] = True"
| "proper_calls format (call # calls) = (proper_call format call \<and> proper_calls (requested_format format call) calls)"

lemma proper_calls_append:
  "proper_calls format (xs @ ys) = (proper_calls format xs \<and> proper_calls (foldl requested_format format xs) ys)"
  by (induction xs arbitrary: format) auto

lemma core_acts_format:
  "core_acts deck call s = Some s' \<Longrightarrow> video_pixel_format s' = requested_format (video_pixel_format s) call"
  by (auto simp: core_acts_def requested_format_def environment_callback_def video_callback_def audio_callback_def Let_def
      split: core_call.splits environment_call.splits option.splits if_splits prod.splits sum.splits)

lemma core_runs_format:
  "core_runs deck calls s = Some s' \<Longrightarrow> video_pixel_format s' = foldl requested_format (video_pixel_format s) calls"
  by (induction calls arbitrary: s) (auto simp: core_acts_format split: option.splits)

definition audio_sound :: "DeckAudio \<Rightarrow> bool" where
  "audio_sound au = (volume_percent au \<le> 100 \<and> (thread_started au \<longrightarrow> source_rate au \<noteq> 0))"

definition libretro_ready :: "libretro \<Rightarrow> bool" where
  "libretro_ready s =
     ((\<exists>fb. lr_framebuffer s = Some fb \<and> fb_usable fb) \<and> (\<forall>au. lr_audio s = Some au \<longrightarrow> audio_sound au) \<and> \<not> video_failed s)"

lemma audio_open_sound:
  "audio_open_device k rate percent fragments created_audio = Some (r, au) \<Longrightarrow> audio_sound au"
  using audio_open_device_volume [of k rate percent fragments created_audio r au]
  by (auto simp: audio_sound_def audio_open_device_def Let_def audio_close_device_def created_audio_def write_all_def
      split: option.splits bool.splits prod.splits if_splits)

lemma writer_acts_sound [simp]: "audio_sound (writer_acts au a) = audio_sound au"
  by (cases a) (simp_all add: audio_sound_def writer_acts_def dequeue_def start_playback_def Let_def)

lemma mix_frame_small:
  assumes "\<bar>sint left + sint right\<bar> \<le> 32768" "percent \<le> 100"
  shows "\<bar>sint (mix_frame left right percent)\<bar> \<le> 16384"
proof -
  let ?m = "(sint left + sint right) sdiv 2"
  have "\<bar>?m\<bar> \<le> 16384" using assms(1) by (simp add: signed_divide_int_def abs_mult) linarith
  moreover from this have "\<bar>scale_sample ?m percent\<bar> \<le> 16384"
    using scale_sample_range(1) [of ?m percent] assms(2) by linarith
  ultimately show ?thesis
    using sint_word_of_int_sample [of "scale_sample ?m percent"] by (simp add: mix_frame_def)
qed

lemma write_mono_sound:
  assumes "write_mono samples au = Some (ok, au')" "audio_sound au"
  shows "audio_sound au'"
proof -
  have "audio_sound (snd (enqueue out au1)) = audio_sound au1" for out au1
    by (simp add: audio_sound_def enqueue_frames)
  moreover have "audio_sound (au\<lparr>rate_remainder := n\<rparr>) = audio_sound au" for n by (simp add: audio_sound_def)
  ultimately show ?thesis using assms
    by (auto simp: write_mono_def Let_def split: if_splits option.splits) (metis snd_conv)+
qed

lemma audio_callback_proper:
  assumes "\<forall>au. lr_audio s = Some au \<longrightarrow> audio_sound au"
    "list_all (\<lambda>(left, right). \<bar>sint left + sint right\<bar> \<le> 32768) frames"
  shows "\<exists>s'. audio_callback frames s = Some (length frames, s') \<and> (\<forall>au. lr_audio s' = Some au \<longrightarrow> audio_sound au) \<and>
    lr_framebuffer s' = lr_framebuffer s \<and> video_failed s' = video_failed s \<and> video_pixel_format s' = video_pixel_format s"
proof (cases "lr_audio s")
  case None
  then show ?thesis by (simp add: audio_callback_def Let_def)
next
  case (Some au)
  then have sound: "audio_sound au" using assms(1) by simp
  show ?thesis
  proof (cases "available au")
    case False
    then show ?thesis using Some sound by (simp add: audio_callback_def Let_def)
  next
    case True
    let ?mono = "map (\<lambda>(left, right). mix_frame left right (volume_percent au)) frames"
    have "gentle ?mono"
      using mix_frame_small assms(2) sound by (intro gentle_small) (auto simp: list_all_iff audio_sound_def)
    moreover have "source_rate au \<noteq> 0" using True sound by (simp add: available_def audio_sound_def)
    ultimately obtain ok au' where "write_stereo frames au = Some (ok, au')"
      using write_mono_gentle [of ?mono au] True by (auto simp: write_stereo_def)
    moreover from this have "audio_sound au'"
      using write_mono_sound [OF _ sound] True by (auto simp: write_stereo_def)
    ultimately show ?thesis using Some True by (simp add: audio_callback_def Let_def)
  qed
qed

lemma environment_callback_keeps:
  "snd (snd (environment_callback deck command s)) = s \<or>
   (\<exists>format. snd (snd (environment_callback deck command s)) = s\<lparr>video_pixel_format := format\<rparr>)"
  by (cases command) (auto simp: environment_callback_def split: option.splits prod.splits)

lemma core_acts_proper:
  assumes "libretro_ready s" "proper_call (video_pixel_format s) call"
  shows "\<exists>s'. core_acts deck call s = Some s' \<and> libretro_ready s'"
proof (cases call)
  case (Environment command)
  then show ?thesis using environment_callback_keeps [of deck command s] assms(1)
    by (auto simp: core_acts_def libretro_ready_def)
next
  case (Video_refresh data w h pitch)
  obtain fb where fb: "lr_framebuffer s = Some fb" "fb_usable fb" and r: "\<not> video_failed s"
    "\<forall>au. lr_audio s = Some au \<longrightarrow> audio_sound au"
    using assms(1) by (auto simp: libretro_ready_def)
  show ?thesis
  proof (cases data)
    case None
    then show ?thesis using Video_refresh assms(1) fb(1) by (simp add: core_acts_def video_callback_def)
  next
    case (Some rows)
    then have "frame_fits (video_pixel_format s) w h pitch" using assms(2) Video_refresh by (simp add: proper_call_def)
    then obtain fb' where "present_frame (video_pixel_format s) (Some rows) w h pitch fb = (Inr (), fb')" "fb_usable fb'"
      using present_frame_fits [OF fb(2)] by blast
    then show ?thesis using Some Video_refresh fb r
      by (simp add: core_acts_def video_callback_present Let_def libretro_ready_def)
  qed
next
  case (Audio_batch frames)
  then obtain s' where "audio_callback frames s = Some (length frames, s')" "\<forall>au. lr_audio s' = Some au \<longrightarrow> audio_sound au"
    "lr_framebuffer s' = lr_framebuffer s" "video_failed s' = video_failed s"
    using audio_callback_proper [of s frames] assms by (auto simp: proper_call_def libretro_ready_def)
  then show ?thesis using assms(1) Audio_batch by (simp add: core_acts_def libretro_ready_def)
next
  case (Sound_thread action)
  then show ?thesis using assms(1) by (auto simp: core_acts_def libretro_ready_def)
qed

lemma core_runs_proper:
  assumes "libretro_ready s" "proper_calls (video_pixel_format s) calls"
  shows "\<exists>s'. core_runs deck calls s = Some s' \<and> libretro_ready s'"
  using assms
proof (induction calls arbitrary: s)
  case (Cons call calls)
  obtain s1 where s1: "core_acts deck call s = Some s1" "libretro_ready s1"
    using core_acts_proper [OF Cons.prems(1), of call deck] Cons.prems(2) by auto
  then show ?case using Cons.IH [OF s1(2)] Cons.prems(2) core_acts_format [OF s1(1)] by simp
qed simp

text \<open>Before the framebuffer and the sound are open, callbacks only touch counters and the format.\<close>

definition libretro_closed :: "libretro \<Rightarrow> bool" where
  "libretro_closed s = (lr_framebuffer s = None \<and> lr_audio s = None \<and> \<not> video_failed s)"

lemma core_runs_closed:
  assumes "libretro_closed s" "core_runs deck calls s = Some s'"
  shows "libretro_closed s'"
  using assms
proof (induction calls arbitrary: s)
  case (Cons call calls)
  then obtain s1 where s1: "core_acts deck call s = Some s1" "core_runs deck calls s1 = Some s'"
    by (auto split: option.splits)
  have "libretro_closed s1"
    using s1(1) Cons.prems(1)
    by (auto simp: libretro_closed_def core_acts_def environment_callback_def video_callback_def audio_callback_def Let_def
        split: core_call.splits environment_call.splits option.splits prod.splits)
  then show ?case using Cons.IH s1(2) by blast
qed simp

text \<open>The format a core has asked for when it is loaded.\<close>

definition loaded_format :: "libretro_answers \<Rightarrow> retro_pixel_format" where
  "loaded_format a = foldl requested_format RETRO_PIXEL_FORMAT_XRGB8888 (la_init_calls a @ la_load_calls a)"

lemma libretro_start_ready:
  assumes "libretro_start deck a argv w = Some (Inr s, w')" "even (k_smem_len (la_framebuffer a))"
    "proper_calls (loaded_format a) (la_describe_calls a)"
  shows "libretro_ready s \<and> lr_frames s = 0 \<and>
    video_pixel_format s = foldl requested_format (loaded_format a) (la_describe_calls a)"
proof -
  let ?s0 = "libretro_initial (parent_directory (argv ! 1)) a"
  obtain s1 s2 s3 fb v r au memories where parts: "core_runs deck (la_init_calls a) ?s0 = Some s1"
    "core_runs deck (la_load_calls a) s1 = Some s2"
    "fb_open_device (la_framebuffer a) (created_framebuffer (la_exit_hint a)) = (Inr (), fb)"
    "core_runs deck (la_describe_calls a) (s2\<lparr>lr_framebuffer := Some fb\<rparr>) = Some s3"
    "audio_open_device (la_audio a) (la_sample_rate a) v 8 created_audio = Some (r, au)"
    "s = s3\<lparr>lr_audio := Some au, lr_memories := memories, video_divisor := chosen_divisor a\<rparr>"
    using assms(1) by (auto simp: libretro_start_def split: if_splits prod.splits sum.splits option.splits bool.splits)
  have "libretro_closed ?s0" by (simp add: libretro_closed_def libretro_initial_def)
  then have closed: "libretro_closed s2" using core_runs_closed parts(1,2) by blast
  have loaded: "video_pixel_format s2 = loaded_format a"
    using core_runs_format [OF parts(1)] core_runs_format [OF parts(2)]
    by (simp add: loaded_format_def libretro_initial_def)
  have ready: "libretro_ready (s2\<lparr>lr_framebuffer := Some fb\<rparr>)"
    using closed fb_open_usable [OF parts(3) assms(2)] by (simp add: libretro_ready_def libretro_closed_def)
  obtain s' where "core_runs deck (la_describe_calls a) (s2\<lparr>lr_framebuffer := Some fb\<rparr>) = Some s'" "libretro_ready s'"
    using core_runs_proper [OF ready, of "la_describe_calls a" deck] assms(3) loaded by auto
  then have "libretro_ready s3" using parts(4) by simp
  moreover have "lr_frames s3 = 0"
    using core_runs_frame [OF parts(1)] core_runs_frame [OF parts(2)] core_runs_frame [OF parts(4)]
    by (simp add: libretro_initial_def)
  moreover have "video_pixel_format s3 = foldl requested_format (loaded_format a) (la_describe_calls a)"
    using core_runs_format [OF parts(4)] loaded by simp
  ultimately show ?thesis
    using parts(6) audio_open_sound [OF parts(5)] by (simp add: libretro_ready_def)
qed

definition libretro_outcome :: "libretro_turn list \<Rightarrow> 64 word \<Rightarrow> nat option \<Rightarrow> libretro \<Rightarrow> bool" where
  "libretro_outcome ts shown status s =
     (case status of
        None \<Rightarrow> lr_frames s = shown + word_of_nat (length ts) \<and> list_all (\<lambda>t. \<not> lt_shutdown t) ts
      | Some code \<Rightarrow> code = 0 \<and> (\<exists>n < length ts. lr_frames s = shown + word_of_nat n \<and> lt_shutdown (ts ! n) \<and>
          list_all (\<lambda>t. \<not> lt_shutdown t) (take n ts)))"

lemma libretro_outcome_Cons:
  assumes "libretro_outcome ts (shown + 1) status s" "\<not> lt_shutdown t"
  shows "libretro_outcome (t # ts) shown status s"
proof (cases status)
  case None
  then show ?thesis using assms by (simp add: libretro_outcome_def add.assoc)
next
  case (Some code)
  then obtain n where "code = 0" "n < length ts" "lr_frames s = shown + 1 + word_of_nat n" "lt_shutdown (ts ! n)"
    "list_all (\<lambda>t. \<not> lt_shutdown t) (take n ts)"
    using assms(1) by (auto simp: libretro_outcome_def)
  then show ?thesis using assms(2) Some by (auto simp: libretro_outcome_def add.assoc intro!: exI [of _ "Suc n"])
qed

lemma libretro_loop_runs:
  assumes "libretro_ready s" "proper_calls (video_pixel_format s) (concat (map lt_calls ts))"
  shows "\<exists>status s' w'. libretro_loop deck base ts s w = Some (status, s', w') \<and> libretro_outcome ts (lr_frames s) status s'"
  using assms
proof (induction ts arbitrary: s w)
  case Nil
  then show ?case by (auto simp: libretro_outcome_def libretro_ready_def)
next
  case (Cons t ts)
  show ?case
  proof (cases "lt_shutdown t")
    case True
    obtain status s' w' where e: "libretro_end deck base s w = (status, s', w')" by (metis prod_cases3)
    then have "status = 0 \<and> lr_frames s' = lr_frames s"
      using Cons.prems(1) by (auto simp: libretro_end_def libretro_ready_def split: prod.splits)
    then show ?thesis using True e by (auto simp: libretro_outcome_def intro!: exI [of _ "0 :: nat"])
  next
    case False
    have alive: "\<not> video_failed s" using Cons.prems(1) by (simp add: libretro_ready_def)
    have calls: "proper_calls (video_pixel_format s) (lt_calls t)"
      "proper_calls (foldl requested_format (video_pixel_format s) (lt_calls t)) (concat (map lt_calls ts))"
      using Cons.prems(2) by (simp_all add: proper_calls_append)
    obtain s1 where s1: "core_runs deck (lt_calls t) s = Some s1" "libretro_ready s1"
      using core_runs_proper [OF Cons.prems(1) calls(1)] by auto
    obtain s2 w2 where f: "libretro_frame deck base t s w = Some (s2, w2)" by (simp add: libretro_frame_def s1(1) Let_def)
    then have s2: "libretro_ready s2" "video_pixel_format s2 = foldl requested_format (video_pixel_format s) (lt_calls t)"
      "lr_frames s2 = lr_frames s + 1"
      using s1 core_runs_frame [OF s1(1)] core_runs_format [OF s1(1)]
      by (auto simp: libretro_frame_def Let_def libretro_ready_def)
    obtain status s' w' where "libretro_loop deck base ts s2 w2 = Some (status, s', w')"
      "libretro_outcome ts (lr_frames s2) status s'"
      using Cons.IH [OF s2(1), of w2] calls(2) s2(2) by auto
    then show ?thesis using False alive f s2(3) libretro_outcome_Cons by auto
  qed
qed

text \<open>
  C4. Once started on a panel whose memory has an even number of bytes, and with a core that asks, in
  whatever call, only for the two supported pixel formats, whose frames fit the format it asked for
  last and the two channels of whose samples add up to at most the full scale, the program never
  fails: it goes on through all the turns, one frame each, or ends with status 0 at the first turn
  that finds a signal, whatever files, clock and sound thread do.
\<close>
theorem libretro_session_runs:
  assumes "libretro_start deck a argv w = Some (Inr s, w1)" "even (k_smem_len (la_framebuffer a))"
    and "proper_calls (loaded_format a) (la_describe_calls a @ concat (map lt_calls ts))"
  shows "\<exists>status s' w'. libretro_loop deck (save_base (argv ! 1)) ts s w1 = Some (status, s', w') \<and> libretro_outcome ts 0 status s'"
proof -
  note calls = assms(3) [unfolded proper_calls_append]
  have "libretro_ready s" "lr_frames s = 0" "proper_calls (video_pixel_format s) (concat (map lt_calls ts))"
    using libretro_start_ready [OF assms(1,2)] calls by simp_all
  then show ?thesis using libretro_loop_runs by metis
qed

section \<open>Witnesses\<close>

theorem libretro_exit_saves_witness:
  "\<exists>s' w'. libretro_loop GbDeck ''g'' [last_turn] example_state (sample_world []) = Some (Some 0, s', w') \<and>
    file_content w' ''g.sav'' = Some (chars [1, 2])"
proof -
  have wf: "wf_world (sample_world [])" by (rule sample_world_wf) (simp add: honest_def)
  have quiet: "quiet ''g'' (sample_world [])" by (simp add: quiet_def sample_world_def save_temporary_def)
  obtain s' w' where run: "libretro_loop GbDeck ''g'' [last_turn] example_state (sample_world []) = Some (Some 0, s', w')"
    "lr_memories s' = \<lparr>save_ram = Some [1, 2], rtc = None\<rparr>"
    using last_turn_ends [of GbDeck "''g''" "sample_world []"] by (auto simp: example_state_def)
  from libretro_exit_saves [OF run(1) wf quiet] run show ?thesis by (auto simp: kSaveExtension_def)
qed

text \<open>A core that asks for its format late, shows a frame and plays two samples before the signal comes.\<close>

definition libretro_example :: libretro_answers where
  "libretro_example =
     \<lparr>la_init_calls = [Environment (GET_CAN_DUPE (Some False))], la_api_ok = True, la_load_calls = [],
      la_loaded = True, la_framebuffer = example_kernel, la_exit_hint = True,
      la_describe_calls = [Environment (SET_PIXEL_FORMAT (Some RETRO_PIXEL_FORMAT_RGB565))], la_sample_rate = 44100,
      la_frame_nanoseconds = 16666666, la_volume = Some ''42'', la_audio = example_dsp,
      la_memories = \<lparr>save_ram = None, rtc = None\<rparr>, la_diagnostics = False, la_divisor = None, la_long_bits = 32, la_now = 0\<rparr>"

definition busy_turn :: libretro_turn where
  "busy_turn =
     \<lparr>lt_shutdown = False,
      lt_calls = [Video_refresh (Some (replicate 46080 7)) 160 144 320, Audio_batch [(5, 7), (16000, - 3)], Sound_thread Take_chunk],
      lt_memories = \<lparr>save_ram = Some [1, 2], rtc = None\<rparr>, lt_now = 0\<rparr>"

definition tape_world :: world where
  "tape_world = \<lparr>names = [''t.tap'' \<mapsto> 0], inodes = (\<lambda>_. \<lparr>regular = True, content = ''tape''\<rparr>), next_inode = 1,
     fds = Map.empty, next_fd = 3, schedule = [], last_errno = ENOENT, pid = 1\<rparr>"

theorem libretro_session_runs_witness:
  "\<exists>s w1 status s' w'. libretro_start ZxDeck libretro_example [''zx-deck'', ''t.tap''] tape_world = Some (Inr s, w1) \<and>
    libretro_loop ZxDeck (save_base ''t.tap'') [busy_turn, last_turn] s w1 = Some (status, s', w') \<and>
    libretro_outcome [busy_turn, last_turn] 0 status s'"
proof -
  have tape: "\<exists>bytes. read_rom ZxDeck ''t.tap'' tape_world = (Inr bytes, tape_world)"
    by (simp add: read_rom_def sys_stat_def stream_read_def next_outcome_def tape_world_def kMinimumRomBytes_def kMaximumRomBytes_def)
  have fb: "\<exists>fb. fb_open_device example_kernel (created_framebuffer True) = (Inr (), fb)"
    by (simp add: fb_open_device_def Let_def example_kernel_def fb_rows_def fb_supported_def)
  have audio: "\<exists>au. audio_open_device example_dsp 44100 42 8 created_audio = Some (Inr (), au)"
    by (simp add: audio_open_device_def Let_def example_dsp_def configured_def requested_rate_def prefill_frames_def
        write_all_def sample_bytes_def)
  have volume: "DeckReadVolumePercent (Some ''42'') = (True, 42)"
    by (simp add: DeckReadVolumePercent_def is_digit_def digit_value_def byte_of_def)
  have "\<exists>s w1. libretro_start ZxDeck libretro_example [''zx-deck'', ''t.tap''] tape_world = Some (Inr s, w1)"
    using tape fb audio volume
    by (auto simp: libretro_start_def libretro_example_def core_acts_def environment_callback_def split_beta)
  then obtain s w1 where start: "libretro_start ZxDeck libretro_example [''zx-deck'', ''t.tap''] tape_world = Some (Inr s, w1)"
    by blast
  have "even (k_smem_len (la_framebuffer libretro_example))" by (simp add: libretro_example_def example_kernel_def)
  moreover have "proper_calls (loaded_format libretro_example)
      (la_describe_calls libretro_example @ concat (map lt_calls [busy_turn, last_turn]))"
    by (simp add: loaded_format_def libretro_example_def busy_turn_def last_turn_def requested_format_def proper_call_def
        frame_fits_def pixel_bytes_def example_layout)
  ultimately show ?thesis using libretro_session_runs [OF start, of "[busy_turn, last_turn]"] start by auto
qed

end
