(* ===== verification/Chiptune_Files.thy ===== *)
theory Chiptune_Files
  imports Menu_State "HOL-Library.List_Lexorder" "HOL-Library.Char_ord"
begin

section \<open>Files of the chiptune player (\<open>src/chiptune_deck.cpp\<close>)\<close>

text \<open>
  Names, the search for music below a directory, reading a file, and the volume the player leaves
  for the dashboard.
\<close>

definition kMaximumFiles :: nat where "kMaximumFiles = 1024"
definition kMaximumFileSize :: nat where "kMaximumFileSize = 16 * 1024 * 1024"

section \<open>Names\<close>

definition upper_ascii :: "char \<Rightarrow> char" where
  "upper_ascii c = (if is_lower c then char_of (byte_of c - 32) else c)"

definition lower_ascii :: "char \<Rightarrow> char" where
  "lower_ascii c = (if is_upper c then char_of (byte_of c + 32) else c)"

text \<open>The character the source appends for an input character, if any.\<close>

definition screen_char :: "char \<Rightarrow> string" where
  "screen_char input =
     (let c = upper_ascii input
      in if is_upper c \<or> is_digit c \<or> c \<in> set '' .:-+/'' then [c]
         else if c = CHR ''_'' \<or> byte_of c = 9 then '' '' else [])"

definition uppercase_ascii :: "string \<Rightarrow> string" where
  "uppercase_ascii input = concat (map screen_char input)"

definition clipped :: "string \<Rightarrow> nat \<Rightarrow> string" where
  "clipped input limit =
     (let clean = uppercase_ascii input
      in if length clean \<le> limit then clean
         else if limit \<le> 3 then substr clean 0 limit
         else substr clean 0 (limit - 3) @ ''...'')"

definition base_name :: "string \<Rightarrow> string" where
  "base_name path =
     (let name = (case rfind_char CHR ''/'' path (length path) of None \<Rightarrow> path | Some slash \<Rightarrow> drop (slash + 1) path);
          stem = (case rfind_char CHR ''.'' name (length name) of None \<Rightarrow> name | Some dot \<Rightarrow> take dot name)
      in map (\<lambda>c. if c = CHR ''-'' \<or> c = CHR ''_'' then CHR '' '' else c) stem)"

definition lower_extension :: "string \<Rightarrow> string" where
  "lower_extension path =
     (case rfind_char CHR ''.'' path (length path) of None \<Rightarrow> [] | Some dot \<Rightarrow> map lower_ascii (drop dot path))"

definition supported_extensions :: "string list" where
  "supported_extensions =
     [''.ay'', ''.gbs'', ''.gym'', ''.hes'', ''.kss'', ''.nsf'', ''.nsfe'', ''.sap'', ''.spc'', ''.vgm'', ''.vgz'', ''.ogg'']"

definition supported_extension :: "string \<Rightarrow> bool" where
  "supported_extension path = (lower_extension path \<in> set supported_extensions)"

section \<open>Searching a directory\<close>

text \<open>
  A directory is what \<open>readdir\<close> delivers, with what \<open>lstat\<close> finds under each name (\<open>None\<close> is a
  directory that cannot be opened).  The recursion stops below depth four; \<open>levels\<close> is five minus
  the depth.
\<close>

datatype node = Directory "(string \<times> node) list option" | File nat | Other_node | Vanished

definition visible :: "(string \<times> node) list \<Rightarrow> (string \<times> node) list" where
  "visible entries = sort_key fst (filter (\<lambda>(name, _). name \<noteq> [] \<and> name ! 0 \<noteq> CHR ''.'') entries)"

fun scan_chiptunes :: "string \<Rightarrow> nat \<Rightarrow> (string \<times> node) list option \<Rightarrow> string list \<Rightarrow> string list" where
  "scan_chiptunes directory 0 listing files = files"
| "scan_chiptunes directory (Suc levels) listing files =
     (if length files \<ge> kMaximumFiles then files
      else
        (case listing of
           None \<Rightarrow> files
         | Some entries \<Rightarrow>
             foldl (\<lambda>files (name, node).
                 if length files \<ge> kMaximumFiles then files
                 else
                   (let path = directory @ ''/'' @ name
                    in case node of
                         Directory inner \<Rightarrow> scan_chiptunes path levels inner files
                       | File file_size \<Rightarrow>
                           if file_size > 0 \<and> file_size \<le> kMaximumFileSize \<and> supported_extension path
                           then files @ [path] else files
                       | Other_node \<Rightarrow> files
                       | Vanished \<Rightarrow> files))
               files (visible entries)))"

section \<open>Reading a file\<close>

definition read_chiptune :: "string \<Rightarrow> world \<Rightarrow> (message + string) \<times> world" where
  "read_chiptune path w =
     (case sys_open path w of
        (None, w1) \<Rightarrow> (Inl (errno_message ''cannot open file: '' w1), w1)
      | (Some fd, w1) \<Rightarrow>
          (case sys_fstat fd w1 of
             (info, w2) \<Rightarrow>
               (if info = None \<or> \<not> fst (the info) \<or> snd (the info) = 0 \<or> snd (the info) > kMaximumFileSize
                then (Inl (Msg ''file is empty, oversized, or not regular''), snd (sys_close fd w2))
                else
                  (case read_loop fd (snd (the info)) [] w2 of
                     ((stop, bytes), w3) \<Rightarrow>
                       (case stop of
                          End_of_file \<Rightarrow> (Inl (Msg ''file ended during read''), snd (sys_close fd w3))
                        | Read_error \<Rightarrow> (Inl (errno_message ''cannot read file: '' w3), snd (sys_close fd w3))
                        | Buffer_full \<Rightarrow>
                            (case sys_close fd w3 of
                               (None, w4) \<Rightarrow> (Inl (errno_message ''cannot close file: '' w4), w4)
                             | (Some _, w4) \<Rightarrow> (Inr bytes, w4)))))))"

section \<open>Saving the volume\<close>

text \<open>\<open>PATH_MAX\<close> and \<open>NAME_MAX\<close> of Linux are 4096 and 255.\<close>

definition volume_suffix :: "nat \<Rightarrow> nat \<Rightarrow> string" where
  "volume_suffix process attempt = ''.chiptune.'' @ decimal process @ ''.'' @ decimal attempt"

text \<open>
  The attempts at a fresh temporary name beside the file; names relative to the directory's
  descriptor are the path with the suffix.  \<open>None\<close> is no descriptor.
\<close>

fun create_volume :: "string \<Rightarrow> string \<Rightarrow> nat list \<Rightarrow> world \<Rightarrow> (nat \<times> string) option \<times> world" where
  "create_volume path filename [] w = (None, w)"
| "create_volume path filename (attempt # attempts) w =
     (if length (filename @ volume_suffix (pid w) attempt) > 255 then (None, w)
      else
        (let temporary = path @ volume_suffix (pid w) attempt
         in case sys_create temporary w of
              (Some fd, w1) \<Rightarrow> (Some (fd, temporary), w1)
            | (None, w1) \<Rightarrow> if last_errno w1 \<noteq> EEXIST then (None, w1) else create_volume path filename attempts w1))"

text \<open>Writing, syncing, closing and renaming; whether all of it succeeded, the directory's sync included.\<close>

definition fill_volume :: "nat \<Rightarrow> nat \<Rightarrow> string \<Rightarrow> string \<Rightarrow> string \<Rightarrow> world \<Rightarrow> bool \<times> world" where
  "fill_volume directory_fd fd temporary path bytes w =
     (let (written, w1) = write_all fd bytes w;
          (valid1, w2) = (if written then (let (r, w') = sys_fsync fd w1 in (r \<noteq> None, w')) else (False, w1));
          (closed, w3) = sys_close fd w2
      in if valid1 \<and> closed \<noteq> None
         then (case sys_rename temporary path w3 of
                 (None, w4) \<Rightarrow> (False, w4)
               | (Some _, w4) \<Rightarrow> (let (r, w5) = sys_fsync directory_fd w4 in (r \<noteq> None, w5)))
         else (False, w3))"

definition save_player_volume :: "string \<Rightarrow> nat \<Rightarrow> world \<Rightarrow> (message + unit) \<times> world" where
  "save_player_volume path volume w =
     (if path = [] then (Inr (), w)
      else if path ! 0 \<noteq> CHR ''/'' \<or> length path > 4096 \<or> volume > 100
      then (Inl (Msg ''volume state path or value is invalid''), w)
      else
        (case rfind_char CHR ''/'' path (length path) of
           None \<Rightarrow> (Inl (Msg ''volume state path has no filename''), w)
         | Some slash \<Rightarrow>
             if slash + 1 \<ge> length path then (Inl (Msg ''volume state path has no filename''), w)
             else
               (case sys_open (if slash = 0 then ''/'' else substr path 0 slash) w of
                  (None, w1) \<Rightarrow> (Inl (errno_message ''cannot open volume state directory: '' w1), w1)
                | (Some directory_fd, w1) \<Rightarrow>
                    (case create_volume path (drop (slash + 1) path) [0..<8] w1 of
                       (None, w2) \<Rightarrow>
                         (Inl (errno_message ''cannot create volume state: '' w2), snd (sys_close directory_fd w2))
                     | (Some (fd, temporary), w2) \<Rightarrow>
                         (let (valid, w3) = fill_volume directory_fd fd temporary path (decimal volume @ [NL]) w2;
                              w4 = (if valid then w3 else snd (sys_unlink temporary w3));
                              w5 = snd (sys_close directory_fd w4)
                          in (if valid then Inr () else Inl (errno_message ''cannot save volume state: '' w3), w5))))))"

section \<open>What the search finds\<close>

text \<open>All the music of the first five levels, in the order of the search.\<close>

fun eligible :: "string \<Rightarrow> nat \<Rightarrow> (string \<times> node) list option \<Rightarrow> string list" where
  "eligible directory 0 listing = []"
| "eligible directory (Suc levels) listing =
     (case listing of
        None \<Rightarrow> []
      | Some entries \<Rightarrow>
          concat (map (\<lambda>(name, node).
              case node of
                Directory inner \<Rightarrow> eligible (directory @ ''/'' @ name) levels inner
              | File file_size \<Rightarrow>
                  if file_size > 0 \<and> file_size \<le> kMaximumFileSize \<and> supported_extension (directory @ ''/'' @ name)
                  then [directory @ ''/'' @ name] else []
              | _ \<Rightarrow> [])
            (visible entries)))"

text \<open>
  The search, which stops in the middle of directories as soon as it has 1024 files, returns
  exactly the first 1024 of all the music files of the first five levels.
\<close>
theorem scan_chiptunes_exact:
  assumes "length files \<le> kMaximumFiles"
  shows "scan_chiptunes directory levels listing files = take kMaximumFiles (files @ eligible directory levels listing)"
  using assms
proof (induction levels arbitrary: directory listing files)
  case (Suc levels)
  let ?scan = "\<lambda>files (name, node).
      if length files \<ge> kMaximumFiles then files
      else (let path = directory @ ''/'' @ name
            in case node of
                 Directory inner \<Rightarrow> scan_chiptunes path levels inner files
               | File file_size \<Rightarrow>
                   if file_size > 0 \<and> file_size \<le> kMaximumFileSize \<and> supported_extension path
                   then files @ [path] else files
               | Other_node \<Rightarrow> files
               | Vanished \<Rightarrow> files)"
  let ?one = "\<lambda>(name, node).
      case node of
        Directory inner \<Rightarrow> eligible (directory @ ''/'' @ name) levels inner
      | File file_size \<Rightarrow>
          if file_size > 0 \<and> file_size \<le> kMaximumFileSize \<and> supported_extension (directory @ ''/'' @ name)
          then [directory @ ''/'' @ name] else []
      | _ \<Rightarrow> []"
  have step: "?scan files entry = take kMaximumFiles (files @ ?one entry)" if "length files \<le> kMaximumFiles" for files entry
    using that Suc.IH [of files] by (cases entry; cases "snd entry") (auto simp: Let_def)
  have "foldl ?scan files entries = take kMaximumFiles (files @ concat (map ?one entries))"
    if "length files \<le> kMaximumFiles" for files entries
    using that
  proof (induction entries arbitrary: files)
    case (Cons entry entries)
    have "foldl ?scan files (entry # entries) = foldl ?scan (take kMaximumFiles (files @ ?one entry)) entries"
      by (simp only: foldl.simps step [OF Cons.prems])
    also have "\<dots> = take kMaximumFiles (take kMaximumFiles (files @ ?one entry) @ concat (map ?one entries))"
      by (rule Cons.IH) simp
    also have "\<dots> = take kMaximumFiles (files @ concat (map ?one (entry # entries)))"
      by (simp add: min_def)
    finally show ?case .
  qed simp
  then show ?case using Suc.prems by (auto split: option.split)
qed simp

section \<open>Reading only reads\<close>

definition music_bytes :: "string \<Rightarrow> bool" where
  "music_bytes bytes = (bytes \<noteq> [] \<and> length bytes \<le> kMaximumFileSize)"

lemma read_chiptune_outcome:
  assumes wf: "wf_world w" and read: "read_chiptune path w = (r, w')"
  shows "reads_only w w'"
    "r = Inr bytes \<Longrightarrow> file_content w path = Some bytes \<and> music_bytes bytes"
    "schedule w = [] \<Longrightarrow> schedule w' = [] \<and>
      (file_content w path = Some bytes \<longrightarrow> music_bytes bytes \<longrightarrow> r = Inr bytes)"
proof -
  have "reads_only w w' \<and> (\<forall>bytes. r = Inr bytes \<longrightarrow> file_content w path = Some bytes \<and> music_bytes bytes)"
  proof -
    obtain x w1 where op: "sys_open path w = (x, w1)" by fastforce
    from op show ?thesis
    proof (cases rule: open_cases [where fd = 0])
      case fault
      then show ?thesis using read op by (auto simp: read_chiptune_def reads_only_def confined_def)
    next
      case (opened i v)
      let ?fd = "next_fd w"
      have w1: "fds w1 ?fd = Some (i, 0)" "inodes w1 = inodes w"
        using opened(3,6) by (auto simp: confined_def)
      obtain info w2 where st: "sys_fstat ?fd w1 = (info, w2)" by fastforce
      note s1 = fstat_confined(1) [OF st, of ?fd "{}"]
      have w2: "fds w2 ?fd = Some (i, 0)" "inodes w2 = inodes w"
        using fstat_confined(2) [OF st] w1 confined_same_inodes [OF s1] by auto
      have closed: "reads_only w w4" if "confined ?fd {} w1 w3" "sys_close ?fd w3 = (y, w4)" for w3 y w4
        using open_close_reads_only [OF op [unfolded opened(1)] that] wf by auto
      show ?thesis
      proof (cases "info = None \<or> \<not> fst (the info) \<or> snd (the info) = 0 \<or> snd (the info) > kMaximumFileSize")
        case True
        obtain y w3 where "sys_close ?fd w2 = (y, w3)" by fastforce
        then show ?thesis using read op opened(1) st True closed [OF s1] by (auto simp: read_chiptune_def)
      next
        case False
        then obtain len where info: "info = Some (True, len)" "len \<noteq> 0" "len \<le> kMaximumFileSize" by auto
        have len: "regular (inodes w i)" "len = length (content (inodes w i))"
          using fstat_confined(3) [OF st info(1) w1(1)] w1(2) by auto
        obtain stop bytes w3 where rd: "read_loop ?fd len [] w2 = ((stop, bytes), w3)" by (metis prod.collapse)
        from read_loop_prefix [OF rd, of i] w2
        have r: "confined ?fd {} w2 w3" "bytes = take (length bytes) (content (inodes w i))"
          "stop = Buffer_full \<longrightarrow> length bytes = len" by auto
        obtain y w4 where cl: "sys_close ?fd w3 = (y, w4)" by fastforce
        have "reads_only w w4" using closed [OF confined_trans [OF s1 r(1)] cl] .
        moreover have "stop = Buffer_full \<Longrightarrow> bytes = content (inodes w i)" using r(2,3) len(2) by simp
        moreover have "w' = w4" "r = Inr b \<Longrightarrow> stop = Buffer_full \<and> b = bytes" for b
          using read op opened(1) st info rd cl
          by (auto simp: read_chiptune_def split: read_stop.splits option.splits)
        ultimately show ?thesis
          using opened(2) len info(2,3) by (auto simp: file_content_def music_bytes_def)
      qed
    qed
  qed
  then show "reads_only w w'" "r = Inr bytes \<Longrightarrow> file_content w path = Some bytes \<and> music_bytes bytes" by blast+
  show "schedule w' = [] \<and> (file_content w path = Some bytes \<longrightarrow> music_bytes bytes \<longrightarrow> r = Inr bytes)"
    if idle: "schedule w = []"
  proof (cases "names w path")
    case None
    then show ?thesis
      using idle read by (auto simp: read_chiptune_def sys_open_def fail_def file_content_def)
  next
    case (Some i)
    let ?fd = "next_fd w" and ?w1 = "w\<lparr>fds := (fds w)(next_fd w \<mapsto> (i, 0)), next_fd := next_fd w + 1\<rparr>"
    let ?text = "content (inodes w i)"
    have op: "sys_open path w = (Some ?fd, ?w1)" using idle Some by (simp add: sys_open_def open_inode_def)
    have st: "sys_fstat ?fd ?w1 = (Some (regular (inodes w i), length ?text), ?w1)"
      using idle by (simp add: sys_fstat_def)
    have cl: "schedule v = [] \<Longrightarrow> fds v ?fd \<noteq> None \<Longrightarrow> \<exists>v'. sys_close ?fd v = (Some (), v') \<and> schedule v' = []" for v
      by (auto simp: sys_close_def)
    show ?thesis
    proof (cases "regular (inodes w i) \<and> music_bytes ?text")
      case False
      then have "w' = snd (sys_close ?fd ?w1)" "\<not> (file_content w path = Some bytes \<and> music_bytes bytes)"
        using read op st Some by (auto simp: read_chiptune_def file_content_def music_bytes_def)
      then show ?thesis using cl [of ?w1] idle by auto
    next
      case True
      then have "?text \<noteq> []" by (simp add: music_bytes_def)
      then have "\<exists>v. read_loop ?fd (length ?text) [] ?w1 = ((Buffer_full, ?text), v) \<and> schedule v = [] \<and> fds v ?fd \<noteq> None"
        using idle by (subst read_loop.simps, simp add: sys_read_def Let_def) (subst read_loop.simps, auto)
      then obtain v where v: "read_loop ?fd (length ?text) [] ?w1 = ((Buffer_full, ?text), v)" "schedule v = []" "fds v ?fd \<noteq> None"
        by blast
      obtain v' where "sys_close ?fd v = (Some (), v')" "schedule v' = []" using cl [OF v(2,3)] by blast
      then have "r = Inr ?text \<and> schedule w' = []"
        using read op st True v(1) by (auto simp: read_chiptune_def music_bytes_def)
      then show ?thesis using Some by (auto simp: file_content_def split: if_splits)
    qed
  qed
qed

section \<open>Saving the volume is atomic\<close>

lemma volume_suffix_longer: "path @ volume_suffix a b \<noteq> path"
  by (simp add: volume_suffix_def)

lemma create_volume_cases:
  assumes "create_volume path filename ks w = (r, w')"
  obtains (fault) "r = None" "confined d {} w w'" "fds w' = fds w"
  | (created) k w1 where "k \<in> set ks" "r = Some (next_fd w, path @ volume_suffix (pid w) k)"
      "names w (path @ volume_suffix (pid w) k) = None" "confined (next_fd w) {} w w1" "fds w1 = fds w"
      "w' = w1\<lparr>names := (names w)(path @ volume_suffix (pid w) k \<mapsto> next_inode w),
              inodes := (inodes w)(next_inode w := \<lparr>regular = True, content = []\<rparr>),
              next_inode := next_inode w + 1,
              fds := (fds w)(next_fd w \<mapsto> (next_inode w, 0)), next_fd := next_fd w + 1\<rparr>"
  using assms
proof (induction ks arbitrary: w thesis)
  case Nil
  from Nil(3) have "r = None" "w' = w" by auto
  then show ?case using Nil(1) by simp
next
  case (Cons k ks)
  let ?t = "path @ volume_suffix (pid w) k"
  show ?case
  proof (cases "length (filename @ volume_suffix (pid w) k) > 255")
    case True
    with Cons.prems(3) have "r = None" "w' = w" by auto
    then show ?thesis using Cons.prems(1) by simp
  next
    case short: False
    obtain x w1 where cr: "sys_create ?t w = (x, w1)" by fastforce
    from cr show ?thesis
    proof (cases rule: create_cases [where fd = d])
      case fault
      show ?thesis
      proof (cases "last_errno w1 = EEXIST")
        case False
        with Cons.prems(3) short fault(1) cr have "w' = w1" "r = None" by (auto simp: Let_def)
        then show ?thesis using Cons.prems(1) fault(2,3) by auto
      next
        case True
        with Cons.prems(3) short fault cr have step: "create_volume path filename ks w1 = (r, w')" by (simp add: Let_def)
        have eqs: "pid w1 = pid w" "names w1 = names w" "next_inode w1 = next_inode w"
          "next_fd w1 = next_fd w" "inodes w1 = inodes w"
          using fault(2) by (auto simp: confined_def)
        show ?thesis
        proof (rule Cons.IH [OF _ _ step])
          assume "r = None" "confined d {} w1 w'" "fds w' = fds w1"
          then show thesis using Cons.prems(1) fault by (auto intro: confined_trans)
        next
          fix j w2
          assume j: "j \<in> set ks" and rest: "r = Some (next_fd w1, path @ volume_suffix (pid w1) j)"
            "names w1 (path @ volume_suffix (pid w1) j) = None" "confined (next_fd w1) {} w1 w2" "fds w2 = fds w1"
            "w' = w2\<lparr>names := (names w1)(path @ volume_suffix (pid w1) j \<mapsto> next_inode w1),
                inodes := (inodes w1)(next_inode w1 := \<lparr>regular = True, content = []\<rparr>),
                next_inode := next_inode w1 + 1,
                fds := (fds w1)(next_fd w1 \<mapsto> (next_inode w1, 0)), next_fd := next_fd w1 + 1\<rparr>"
          have "confined (next_fd w) {} w w1" using fault(2,3) by (auto simp: confined_def)
          then have "confined (next_fd w) {} w w2" using rest(3) eqs(4) by (auto intro: confined_trans)
          then show thesis
            using j rest fault(3) eqs by (intro Cons.prems(2) [of j w2]) (auto simp: fun_upd_def)
        qed
      qed
    next
      case (created w2)
      have "confined (next_fd w) {} w w2" using created(3,4) by (auto simp: confined_def)
      moreover have "r = Some (next_fd w, ?t)" "w' = w1"
        using Cons.prems(3) short created(1) cr by (auto simp: Let_def)
      ultimately show ?thesis
        using created(2,4,5) by (intro Cons.prems(2) [of k w2]) (auto simp: fun_upd_def)
    qed
  qed
qed

lemma fill_volume_outcome:
  assumes wf: "wf_world w" and t: "names w t = None" "t \<noteq> path"
    and created: "confined (next_fd w) {} w w2"
      "w1 = w2\<lparr>names := (names w)(t \<mapsto> next_inode w),
              inodes := (inodes w)(next_inode w := \<lparr>regular = True, content = []\<rparr>),
              next_inode := next_inode w + 1,
              fds := (fds w)(next_fd w \<mapsto> (next_inode w, 0)), next_fd := next_fd w + 1\<rparr>"
    and fill: "fill_volume d (next_fd w) t path bytes w1 = (valid, w3)"
  defines "w4 \<equiv> if valid then w3 else snd (sys_unlink t w3)"
  shows "fds w4 = fds w \<and> wf_world w4 \<and>
    (if valid then file_content w4 path = Some bytes
     else file_content w4 path \<in> {file_content w path, Some bytes}) \<and>
    (\<forall>p. p \<noteq> path \<longrightarrow> p \<noteq> t \<longrightarrow> file_content w4 p = file_content w p)"
proof -
  let ?i = "next_inode w" and ?fd = "next_fd w"
  have wf1: "wf_world w1"
  proof -
    note b = wf_worldD [OF wf]
    show ?thesis
    proof (rule wf_worldI)
      show "names w1 p = Some i \<Longrightarrow> i < next_inode w1" for p i
        using created(2) b(1) [of p i] by (auto split: if_splits)
      show "fds w1 f = Some (i, off) \<Longrightarrow> i < next_inode w1" for f i off
        using created(2) b(2) [of f i off] by (auto split: if_splits)
      show "fds w1 f = None" if "next_fd w1 \<le> f" for f
        using that created(2) b(3) [of f] by auto
      show "honest (schedule w1)" using created b(4) by (simp add: confined_def)
    qed
  qed
  obtain written v1 where wr: "write_all ?fd bytes w1 = (written, v1)" by fastforce
  obtain valid1 v2 where sy: "(if written then (let (r, w') = sys_fsync ?fd v1 in (r \<noteq> None, w')) else (False, v1)) = (valid1, v2)"
    by fastforce
  obtain closed v3 where cl: "sys_close ?fd v2 = (closed, v3)" by fastforce
  have new: "fds w1 ?fd = Some (?i, length (content (inodes w1 ?i)))" "content (inodes w1 ?i) = []"
    using created(2) by simp_all
  have c1: "confined ?fd {?i} w1 v1" "written \<longrightarrow> content (inodes v1 ?i) = bytes"
    using write_all_appends [OF wr new(1)] new(2) by auto
  have c2: "confined ?fd {} v1 v2" "valid1 \<longrightarrow> written"
    using sy fsync_confined(1) [of ?fd v1 _ _ ?fd "{}"] by (auto split: if_splits prod.splits)
  note c3 = close_confined(1) [OF cl, of "{}"] close_confined(2) [OF cl]
  have "confined ?fd {} v1 v3" using c2(1) c3(1) by (rule confined_trans)
  then have filled: "confined ?fd {?i} w1 v3" using c1(1) confined_mono confined_trans by blast
  have gone: "fds v3 ?fd = None" and held: "valid1 \<longrightarrow> content (inodes v3 ?i) = bytes"
    using c1(2) c2 c3 confined_same_inodes [OF c2(1)] confined_same_inodes [OF c3(1)] by auto
  have wf3: "wf_world v3" using confined_wf [OF filled wf1] gone by simp
  note out = temporary_outcome [OF wf t created filled gone]
  have unlinked: "wf_world (snd (sys_unlink t v))" if "wf_world v" for v
    using that wf_unlink by (cases "sys_unlink t v") auto
  show ?thesis
  proof (cases "valid1 \<and> closed \<noteq> None")
    case False
    then have "\<not> valid" "w3 = v3" using fill wr sy cl by (auto simp: fill_volume_def Let_def)
    then show ?thesis
      using out(2) [of v3, OF refl refl refl] unlinked [OF wf3] t(2) by (auto simp: w4_def)
  next
    case True
    obtain y v4 where rn: "sys_rename t path v3 = (y, v4)" by fastforce
    have wf4: "wf_world v4" using wf_rename [OF rn wf3] .
    show ?thesis
    proof (cases y)
      case None
      then have "\<not> valid" "w3 = v4" using fill wr sy cl True rn by (auto simp: fill_volume_def Let_def)
      moreover have "names v4 = names v3 \<and> inodes v4 = inodes v3 \<and> fds v4 = fds v3" using out(3) rn None by simp
      ultimately show ?thesis using out(2) [of v4] unlinked [OF wf4] t(2) by (auto simp: w4_def)
    next
      case (Some u)
      obtain z v5 where fs: "sys_fsync d v4 = (z, v5)" by fastforce
      have r: "valid = (z \<noteq> None)" "w3 = v5" using fill wr sy cl True rn Some fs by (auto simp: fill_volume_def Let_def)
      note o4 = out(4) [OF rn [unfolded Some]]
      have v5: "names v5 = names v4" "inodes v5 = inodes v4" "fds v5 = fds v4" "wf_world v5"
        using fsync_confined(1) [OF fs, of 0 "{}"] confined_same_inodes [OF fsync_confined(1) [OF fs, of 0]]
          fsync_confined(2) [OF fs] wf_fsync [OF fs wf4] by (simp_all add: confined_def)
      have fc5: "file_content v5 p = file_content v4 p" for p using v5 by (simp add: file_content_def split: option.split)
      show ?thesis
      proof (cases valid)
        case True
        then show ?thesis using r v5 fc5 o4 held \<open>valid1 \<and> closed \<noteq> None\<close> by (simp add: w4_def)
      next
        case False
        obtain x v6 where un: "sys_unlink t v5 = (x, v6)" by fastforce
        note u = unlink_frame [OF un]
        have "file_content v6 p = file_content v5 p" if "p \<noteq> t" for p
          using u(1) u(3) [OF that] by (simp add: file_content_def split: option.split)
        moreover have "w4 = v6" using False r(2) un by (simp add: w4_def)
        moreover have "file_content v5 path = Some bytes"
          using fc5 o4 held \<open>valid1 \<and> closed \<noteq> None\<close> by simp
        moreover have "file_content v5 p = file_content w p" if "p \<noteq> path" for p using fc5 o4 that by simp
        moreover have "fds v6 = fds w" "wf_world v6" using u(2) v5(3) o4 unlinked [OF v5(4)] un by simp_all
        ultimately show ?thesis using False t(2) by simp
      qed
    qed
  qed
qed

lemma volume_saved_world:
  assumes wf: "wf_world w" and save: "save_player_volume path volume w = (r, w')"
  shows "fds w' = fds w \<and> wf_world w'"
    "r = Inr () \<Longrightarrow> path \<noteq> [] \<Longrightarrow> file_content w' path = Some (decimal volume @ [NL]) \<and> volume \<le> 100 \<and> path ! 0 = CHR ''/''"
    "file_content w' path \<in> {file_content w path, Some (decimal volume @ [NL])}"
    "p \<noteq> path \<Longrightarrow> names w p \<noteq> None \<Longrightarrow> file_content w' p = file_content w p"
proof -
  let ?new = "Some (decimal volume @ [NL])"
  have goal: "fds w' = fds w \<and> wf_world w' \<and>
    (r = Inr () \<longrightarrow> path \<noteq> [] \<longrightarrow> file_content w' path = ?new \<and> volume \<le> 100 \<and> path ! 0 = CHR ''/'') \<and>
    file_content w' path \<in> {file_content w path, ?new} \<and>
    (\<forall>p. p \<noteq> path \<longrightarrow> names w p \<noteq> None \<longrightarrow> file_content w' p = file_content w p)"
  proof (cases "path = [] \<or> path ! 0 \<noteq> CHR ''/'' \<or> length path > 4096 \<or> volume > 100 \<or>
      (\<forall>slash. rfind_char CHR ''/'' path (length path) = Some slash \<longrightarrow> slash + 1 \<ge> length path)")
    case True
    then have "w' = w" "r = Inr () \<longrightarrow> path = []"
      using save by (auto simp: save_player_volume_def split: if_splits option.splits)
    then show ?thesis using wf by simp
  next
    case False
    then obtain slash where slash: "rfind_char CHR ''/'' path (length path) = Some slash" "\<not> slash + 1 \<ge> length path" by auto
    define directory where "directory = (if slash = 0 then ''/'' else substr path 0 slash)"
    obtain x w1 where op: "sys_open directory w = (x, w1)" by fastforce
    have wf1: "wf_world w1" using wf_open [OF op wf] .
    from op show ?thesis
    proof (cases rule: open_cases [where fd = 0])
      case fault
      then have "w' = w1" "\<exists>m. r = Inl m" using save False slash op by (auto simp: save_player_volume_def directory_def)
      moreover have "file_content w1 p = file_content w p" for p using confined_file_content [OF fault(2)] by simp
      ultimately show ?thesis using fault(3) wf1 by auto
    next
      case (opened i v)
      let ?d = "next_fd w"
      have same: "names w1 = names w" "inodes w1 = inodes w" "fds w1 = (fds w)(?d \<mapsto> (i, 0))" "next_fd w1 = ?d + 1"
        using opened(3,6) by (auto simp: confined_def)
      have fc1: "file_content w1 p = file_content w p" for p using same by (simp add: file_content_def split: option.split)
      have closed: "fds w4 = fds w1 \<Longrightarrow> wf_world w4 \<Longrightarrow> sys_close ?d w4 = (y, w5) \<Longrightarrow> fds w5 = fds w \<and> wf_world w5 \<and>
          (\<forall>p. file_content w5 p = file_content w4 p)" for w4 y w5
        using close_confined(2) [of ?d w4 y w5] close_confined(1) [of ?d w4 y w5 "{}"] wf_close [of ?d w4 y w5]
          confined_file_content [of ?d "{}" w4 w5] same(3) wf_worldD(3) [OF wf, of ?d]
        by (auto simp: fun_eq_iff)
      obtain c w2 where cr: "create_volume path (drop (slash + 1) path) [0..<8] w1 = (c, w2)" by fastforce
      from cr show ?thesis
      proof (cases rule: create_volume_cases [where d = 0])
        case fault
        obtain y w3 where cl: "sys_close ?d w2 = (y, w3)" by fastforce
        have "w' = w3" "\<exists>m. r = Inl m"
          using save False slash op opened(1) cr fault(1) cl by (auto simp: save_player_volume_def directory_def)
        moreover have "wf_world w2" using fault(2,3) wf1 by (rule confined_wf_same)
        moreover have "file_content w2 p = file_content w1 p" for p using confined_file_content [OF fault(2)] by simp
        ultimately show ?thesis using closed [OF fault(3) _ cl] fc1 by auto
      next
        case (created k v2)
        let ?t = "path @ volume_suffix (pid w1) k"
        obtain valid w3 where fill: "fill_volume ?d (next_fd w1) ?t path (decimal volume @ [NL]) w2 = (valid, w3)" by fastforce
        let ?w4 = "if valid then w3 else snd (sys_unlink ?t w3)"
        note o = fill_volume_outcome [OF wf1 created(3) volume_suffix_longer created(4,6) fill]
        obtain y w5 where cl: "sys_close ?d ?w4 = (y, w5)" by fastforce
        have out: "w' = w5" "r = Inr () \<longleftrightarrow> valid"
          using save False slash op opened(1) cr created(2) fill cl
          by (auto simp: save_player_volume_def directory_def Let_def split: if_splits)
        have w5: "fds w5 = fds w" "wf_world w5" "\<And>p. file_content w5 p = file_content ?w4 p"
          using closed [OF _ _ cl] o by simp_all
        have "file_content ?w4 p = file_content w p" if "p \<noteq> path" "names w p \<noteq> None" for p
          using o that created(3) same(1) fc1 by (metis (no_types, lifting))
        moreover have "file_content ?w4 path \<in> {file_content w path, ?new}" "valid \<Longrightarrow> file_content ?w4 path = ?new"
          using o fc1 [of path] by (auto split: if_splits)
        ultimately show ?thesis using out w5 False by auto
      qed
    qed
  qed
  then show "fds w' = fds w \<and> wf_world w'"
    "r = Inr () \<Longrightarrow> path \<noteq> [] \<Longrightarrow> file_content w' path = ?new \<and> volume \<le> 100 \<and> path ! 0 = CHR ''/''"
    "file_content w' path \<in> {file_content w path, ?new}"
    "p \<noteq> path \<Longrightarrow> names w p \<noteq> None \<Longrightarrow> file_content w' p = file_content w p" by blast+
qed

text \<open>
  Whatever fails while the volume is saved, its file then holds the old volume or the new one in
  full, no other file changes and no descriptor is left; and once the call has reported success,
  the dashboard loads the same number.
\<close>
theorem save_player_volume_handed_over:
  assumes "wf_world w" "save_player_volume path volume w = (r, w')"
  shows "fds w' = fds w \<and> wf_world w' \<and> file_content w' path \<in> {file_content w path, Some (decimal volume @ [NL])} \<and>
    (\<forall>p. p = path \<or> names w p = None \<or> file_content w' p = file_content w p) \<and>
    (case r of Inl m \<Rightarrow> True
     | Inr _ \<Rightarrow> path = [] \<or> (case load_volume_state path d w' of (Inr loaded, _) \<Rightarrow> loaded = volume | (Inl _, _) \<Rightarrow> True))"
proof -
  note o = volume_saved_world [OF assms]
  have "loaded = volume" if "r = Inr ()" "path \<noteq> []" "load_volume_state path d w' = (Inr loaded, w2)" for loaded w2
    using load_volume_keeps [OF _ _ _ that(3)] o(1) o(2) [OF that(1,2)] by blast
  moreover have "p = path \<or> names w p = None \<or> file_content w' p = file_content w p" for p using o(4) by blast
  ultimately show ?thesis using o(1,3) by (auto split: sum.split prod.split)
qed

text \<open>
  Reading a file changes nothing and leaves no descriptor open, whatever fails; what it returns
  is the whole file, of one byte up to 16 MB, and without faults it returns every such file.
\<close>
theorem read_chiptune_exact:
  assumes "wf_world w"
  shows "case read_chiptune path w of
      (Inr bytes, w') \<Rightarrow> reads_only w w' \<and> file_content w path = Some bytes \<and> music_bytes bytes
    | (Inl _, w') \<Rightarrow> reads_only w w' \<and>
        (schedule w \<noteq> [] \<or> (case file_content w path of Some bytes \<Rightarrow> \<not> music_bytes bytes | None \<Rightarrow> True))"
proof -
  obtain r w' where read: "read_chiptune path w = (r, w')" by fastforce
  note o = read_chiptune_outcome [OF assms read]
  show ?thesis
  proof (cases r)
    case (Inl m)
    then show ?thesis using read o(1) o(3) by (auto split: option.split)
  next
    case (Inr bytes)
    then show ?thesis using read o(1,2) by simp
  qed
qed

section \<open>Witnesses\<close>

theorem scan_chiptunes_exact_witness:
  "scan_chiptunes ''/m'' 5 (Some [(''b.NSF'', File 10), (''.hidden.nsf'', File 10), (''a'', Directory (Some [(''x.ogg'', File 3)])),
     (''empty.nsf'', File 0)]) [] = [''/m/a/x.ogg'', ''/m/b.NSF'']"
proof -
  have levels: "(5::nat) = Suc (Suc (Suc (Suc (Suc 0))))" by simp
  have "visible [(''b.NSF'', File 10), (''.hidden.nsf'', File 10), (''a'', Directory (Some [(''x.ogg'', File 3)])), (''empty.nsf'', File 0)] =
      [(''a'', Directory (Some [(''x.ogg'', File 3)])), (''b.NSF'', File 10), (''empty.nsf'', File 0)]"
    "visible [(''x.ogg'', File 3)] = [(''x.ogg'', File 3)]"
    by code_simp+
  moreover have "supported_extension ''/m/a/x.ogg''" "supported_extension ''/m/b.NSF''" by code_simp+
  ultimately have "eligible ''/m'' 5 (Some [(''b.NSF'', File 10), (''.hidden.nsf'', File 10), (''a'', Directory (Some [(''x.ogg'', File 3)])),
     (''empty.nsf'', File 0)]) = [''/m/a/x.ogg'', ''/m/b.NSF'']"
    unfolding levels by (simp add: kMaximumFileSize_def)
  then show ?thesis
    using scan_chiptunes_exact [of "[]" "''/m''" 5] by (simp add: kMaximumFiles_def)
qed

definition music_world :: world where
  "music_world = \<lparr>names = [''/m/a'' \<mapsto> 0, ''/'' \<mapsto> 1], inodes = (\<lambda>i. \<lparr>regular = (i = 0), content = ''tune''\<rparr>), next_inode = 2,
     fds = Map.empty, next_fd = 3, schedule = [], last_errno = EIO, pid = 7\<rparr>"

lemma music_world_wf: "wf_world music_world"
  by (simp add: wf_world_def music_world_def honest_def)

theorem read_chiptune_exact_witness: "\<exists>w'. read_chiptune ''/m/a'' music_world = (Inr ''tune'', w')"
proof -
  have "file_content music_world ''/m/a'' = Some ''tune''" "schedule music_world = []"
    by (simp_all add: file_content_def music_world_def)
  then show ?thesis
    using read_chiptune_exact [OF music_world_wf, of "''/m/a''"]
    by (auto simp: music_bytes_def kMaximumFileSize_def split: prod.splits sum.splits)
qed

theorem save_player_volume_handed_over_witness:
  "\<exists>r w'. save_player_volume ''/volume'' 35 music_world = (r, w') \<and> fds w' = Map.empty"
proof -
  obtain r w' where save: "save_player_volume ''/volume'' 35 music_world = (r, w')" by fastforce
  from save_player_volume_handed_over [OF music_world_wf save] show ?thesis
    using save by (auto simp: music_world_def)
qed

end
