(* ===== verification/Chiptune_Player.thy ===== *)
theory Chiptune_Player
  imports Chiptune_Files Deck_Audio
begin

section \<open>The player (\<open>ChiptunePlayer\<close> of \<open>src/chiptune_deck.cpp\<close>)\<close>

text \<open>
  Playlist, transport and sample generation.  The two music libraries are not in the repository:
  the functions the player calls are the fields of a record, over a type of emulators and one of
  Vorbis streams.  A null string is \<open>None\<close>; a result with an error message is \<open>Some\<close> message.  The
  times of the Vorbis library are floating point; the fields are the milliseconds the player makes
  of them.
\<close>

definition kFramesPerTick :: nat where "kFramesPerTick = 735"
definition kSampleRate :: int where "kSampleRate = 44100"

record track_info =
  ti_system :: "string option"
  ti_game :: "string option"
  ti_song :: "string option"
  ti_author :: "string option"
  ti_play_length :: int

datatype pcm = Decoded (decoded: "sample list") | Stream_end | Stream_damaged

record ('e, 'v) codecs =
  gme_open_data :: "string \<Rightarrow> string option \<times> 'e option"
  gme_track_count :: "'e \<Rightarrow> int"
  gme_start_track :: "'e \<Rightarrow> int \<Rightarrow> string option \<times> 'e"
  gme_track_info :: "'e \<Rightarrow> int \<Rightarrow> track_info option"
  gme_play :: "'e \<Rightarrow> nat \<Rightarrow> string option \<times> sample list \<times> 'e"
  gme_track_ended :: "'e \<Rightarrow> bool"
  gme_tell :: "'e \<Rightarrow> int"
  ov_open :: "string \<Rightarrow> 'v option"
  ov_info :: "'v \<Rightarrow> (int \<times> int) option"
  ov_total_ms :: "'v \<Rightarrow> int"
  ov_comment :: "'v \<Rightarrow> string \<Rightarrow> string option"
  ov_read :: "'v \<Rightarrow> nat \<Rightarrow> pcm \<times> 'v"
  ov_rewind :: "'v \<Rightarrow> bool \<times> 'v"
  ov_tell_ms :: "'v \<Rightarrow> int"

datatype PlayerBackend = BackendNone | BackendGme | BackendVorbis
datatype PlaybackMode = PlaybackLoopAll | PlaybackLoopOne | PlaybackShuffle

text \<open>
  The fields of the class; the buffers that are filled anew in every call are locals here.  The last
  field is the string the callers pass for errors.
\<close>

record ('e, 'v) player =
  pl_files :: "string list"
  file_index :: nat
  backend :: PlayerBackend
  pl_emulator :: "'e option"
  pl_info :: "track_info option"
  pl_vorbis :: "'v option"
  vorbis_channels :: nat
  file_bytes :: string
  vorbis_title :: string
  vorbis_artist :: string
  track_index :: int
  track_count :: int
  paused :: bool
  length_ms :: int
  playback_mode :: PlaybackMode
  random_state :: u32
  visual :: "sample list"
  error_text :: message

definition created_player :: "string list \<Rightarrow> nat \<Rightarrow> ('e, 'v) player" where
  "created_player files process =
     \<lparr>pl_files = files, file_index = 0, backend = BackendNone, pl_emulator = None, pl_info = None, pl_vorbis = None,
      vorbis_channels = 0, file_bytes = [], vorbis_title = [], vorbis_artist = [], track_index = 0, track_count = 0,
      paused = False, length_ms = - 1, playback_mode = PlaybackLoopAll,
      random_state = 0x9e3779b9 XOR word_of_nat process XOR word_of_nat (length files), visual = [], error_text = Msg []\<rparr>"

section \<open>Tracks and files\<close>

definition close_track :: "('e, 'v) player \<Rightarrow> ('e, 'v) player" where
  "close_track p =
     p\<lparr>pl_info := None, pl_emulator := None, pl_vorbis := None, vorbis_channels := 0, file_bytes := [], vorbis_title := [],
       vorbis_artist := [], backend := BackendNone, track_count := 0, track_index := 0, length_ms := - 1, visual := []\<rparr>"

definition start_track :: "('e, 'v) codecs \<Rightarrow> int \<Rightarrow> ('e, 'v) player \<Rightarrow> bool \<times> ('e, 'v) player" where
  "start_track libs track p =
     (case pl_emulator p of
        None \<Rightarrow> (False, p)
      | Some e \<Rightarrow>
          if track < 0 \<or> track \<ge> track_count p then (False, p)
          else
            (case gme_start_track libs e track of
               (Some m, e') \<Rightarrow> (False, p\<lparr>pl_emulator := Some e', error_text := Msg m\<rparr>)
             | (None, e') \<Rightarrow>
                 (let info = gme_track_info libs e' track
                  in (True, p\<lparr>pl_emulator := Some e', pl_info := info, track_index := track,
                              length_ms := (case info of Some i \<Rightarrow> ti_play_length i | None \<Rightarrow> - 1),
                              paused := False, visual := []\<rparr>))))"

definition or_empty :: "string option \<Rightarrow> string" where
  "or_empty s = (case s of None \<Rightarrow> [] | Some t \<Rightarrow> t)"

text \<open>The player after a file was read into \<open>file_bytes_\<close>; the tracks have been closed before.\<close>

definition open_vorbis_bytes ::
  "('e, 'v) codecs \<Rightarrow> nat \<Rightarrow> string \<Rightarrow> ('e, 'v) player \<Rightarrow> bool \<times> ('e, 'v) player" where
  "open_vorbis_bytes libs index bytes p =
     (case ov_open libs bytes of
        None \<Rightarrow> (False, p\<lparr>error_text := Msg ''cannot decode Ogg Vorbis file''\<rparr>)
      | Some v \<Rightarrow>
          (case ov_info libs v of
             None \<Rightarrow> (False, p\<lparr>error_text := Msg ''Ogg Vorbis file must be 44.1 kHz mono or stereo''\<rparr>)
           | Some (rate, channels) \<Rightarrow>
               if rate \<noteq> kSampleRate \<or> (channels \<noteq> 1 \<and> channels \<noteq> 2)
               then (False, p\<lparr>error_text := Msg ''Ogg Vorbis file must be 44.1 kHz mono or stereo''\<rparr>)
               else (True, p\<lparr>pl_vorbis := Some v, vorbis_title := or_empty (ov_comment libs v ''TITLE''),
                             vorbis_artist := or_empty (ov_comment libs v ''ARTIST''), backend := BackendVorbis,
                             vorbis_channels := nat channels, file_bytes := bytes, file_index := index, track_index := 0,
                             track_count := 1, length_ms := ov_total_ms libs v, paused := False, visual := []\<rparr>)))"

definition open_gme_bytes ::
  "('e, 'v) codecs \<Rightarrow> nat \<Rightarrow> int \<Rightarrow> string \<Rightarrow> ('e, 'v) player \<Rightarrow> bool \<times> ('e, 'v) player" where
  "open_gme_bytes libs index track bytes p =
     (case gme_open_data libs bytes of
        (None, Some e) \<Rightarrow>
          (let p1 = p\<lparr>pl_emulator := Some e, backend := BackendGme, file_index := index,
                      track_count := max 1 (gme_track_count libs e)\<rparr>
           in start_track libs (max 0 (min (track_count p1 - 1) track)) p1)
      | (m, _) \<Rightarrow> (False, p\<lparr>error_text := Msg (case m of Some t \<Rightarrow> t | None \<Rightarrow> ''cannot create emulator'')\<rparr>))"

definition open_file ::
  "('e, 'v) codecs \<Rightarrow> nat \<Rightarrow> int \<Rightarrow> ('e, 'v) player \<Rightarrow> world \<Rightarrow> bool \<times> ('e, 'v) player \<times> world" where
  "open_file libs index track p0 w =
     (let p = close_track p0
      in if index \<ge> length (pl_files p) then (False, p, w)
         else
           (case read_chiptune (pl_files p ! index) w of
              (Inl m, w1) \<Rightarrow> (False, p\<lparr>error_text := m\<rparr>, w1)
            | (Inr bytes, w1) \<Rightarrow>
                (let (ok, p1) = (if lower_extension (pl_files p ! index) = ''.ogg''
                                 then open_vorbis_bytes libs index bytes p
                                 else open_gme_bytes libs index track bytes p)
                 in (ok, p1, w1))))"

fun open_first_loop ::
  "('e, 'v) codecs \<Rightarrow> nat \<Rightarrow> ('e, 'v) player \<Rightarrow> world \<Rightarrow> bool \<times> ('e, 'v) player \<times> world" where
  "open_first_loop libs 0 p w = (False, p, w)"
| "open_first_loop libs (Suc attempts) p w =
     (case open_file libs (file_index p) 0 p w of
        (True, p1, w1) \<Rightarrow> (True, p1, w1)
      | (False, p1, w1) \<Rightarrow>
          open_first_loop libs attempts (p1\<lparr>file_index := (file_index p1 + 1) mod length (pl_files p1)\<rparr>) w1)"

definition open_first :: "('e, 'v) codecs \<Rightarrow> ('e, 'v) player \<Rightarrow> world \<Rightarrow> bool \<times> ('e, 'v) player \<times> world" where
  "open_first libs p w =
     (if pl_files p = [] then (False, p, w) else open_first_loop libs (length (pl_files p)) p w)"

text \<open>The first of the candidates that opens.\<close>

fun try_files :: "('e, 'v) codecs \<Rightarrow> nat list \<Rightarrow> ('e, 'v) player \<Rightarrow> world \<Rightarrow> bool \<times> ('e, 'v) player \<times> world" where
  "try_files libs [] p w = (False, p, w)"
| "try_files libs (candidate # candidates) p w =
     (case open_file libs candidate 0 p w of
        (True, p1, w1) \<Rightarrow> (True, p1, w1)
      | (False, p1, w1) \<Rightarrow> try_files libs candidates p1 w1)"

definition file_candidates :: "int \<Rightarrow> nat \<Rightarrow> nat \<Rightarrow> nat list" where
  "file_candidates direction current count =
     map (\<lambda>attempt. if direction < 0 then (current + count - attempt mod count) mod count
                    else (current + attempt) mod count) [1..<count + 1]"

definition change_file ::
  "('e, 'v) codecs \<Rightarrow> int \<Rightarrow> ('e, 'v) player \<Rightarrow> world \<Rightarrow> bool \<times> ('e, 'v) player \<times> world" where
  "change_file libs direction p w =
     (if pl_files p = [] then (False, p, w)
      else try_files libs (file_candidates direction (file_index p) (length (pl_files p))) p w)"

definition change_track :: "('e, 'v) codecs \<Rightarrow> int \<Rightarrow> ('e, 'v) player \<Rightarrow> bool \<times> ('e, 'v) player" where
  "change_track libs direction p =
     (if backend p \<noteq> BackendGme \<or> pl_emulator p = None \<or> track_count p \<le> 0 then (False, p)
      else start_track libs
             (if direction < 0 then (track_index p + track_count p - 1) mod track_count p
              else (track_index p + 1) mod track_count p) p)"

section \<open>Shuffle\<close>

definition xorshift :: "u32 \<Rightarrow> u32" where
  "xorshift s0 =
     (let s1 = s0 XOR push_bit 13 s0;
          s2 = s1 XOR drop_bit 17 s1
      in s2 XOR push_bit 5 s2)"

definition next_random :: "('e, 'v) player \<Rightarrow> u32 \<times> ('e, 'v) player" where
  "next_random p =
     (let state = xorshift (if random_state p = 0 then 0x6d2b79f5 else random_state p)
      in (state, p\<lparr>random_state := state\<rparr>))"

text \<open>After a file was opened: a random track of it.\<close>

definition start_random_track :: "('e, 'v) codecs \<Rightarrow> ('e, 'v) player \<Rightarrow> bool \<times> ('e, 'v) player" where
  "start_random_track libs p =
     (if backend p = BackendGme \<and> track_count p > 1
      then (let (r, p1) = next_random p in start_track libs (int (unat r) mod track_count p1) p1)
      else (True, p))"

definition shuffle_candidates :: "nat \<Rightarrow> nat \<Rightarrow> nat \<Rightarrow> nat list" where
  "shuffle_candidates offset current count =
     filter (\<lambda>candidate. \<not> (count > 1 \<and> candidate = current))
       (map (\<lambda>attempt. (current + offset + attempt) mod count) [0..<count])"

definition change_random_file ::
  "('e, 'v) codecs \<Rightarrow> ('e, 'v) player \<Rightarrow> world \<Rightarrow> bool \<times> ('e, 'v) player \<times> world" where
  "change_random_file libs p w =
     (if pl_files p = [] then (False, p, w)
      else
        (let count = length (pl_files p);
             current = file_index p;
             (offset, p1) = (if count > 1 then (let (r, p') = next_random p in (1 + unat r mod (count - 1), p')) else (0, p))
         in case try_files libs (shuffle_candidates offset current count) p1 w of
              (True, p2, w2) \<Rightarrow> (let (ok, p3) = start_random_track libs p2 in (ok, p3, w2))
            | (False, p2, w2) \<Rightarrow>
                (case open_file libs current 0 p2 w2 of
                   (False, p3, w3) \<Rightarrow> (False, p3, w3)
                 | (True, p3, w3) \<Rightarrow> (let (ok, p4) = start_random_track libs p3 in (ok, p4, w3)))))"

definition advance_after_end ::
  "('e, 'v) codecs \<Rightarrow> ('e, 'v) player \<Rightarrow> world \<Rightarrow> bool \<times> ('e, 'v) player \<times> world" where
  "advance_after_end libs p w =
     (if playback_mode p = PlaybackLoopOne
      then
        (if backend p = BackendGme
         then (let (ok, p1) = start_track libs (track_index p) p in (ok, p1, w))
         else
           (case (if backend p = BackendVorbis then map_option (ov_rewind libs) (pl_vorbis p) else None) of
              Some (True, v) \<Rightarrow> (True, p\<lparr>pl_vorbis := Some v\<rparr>, w)
            | Some (False, v) \<Rightarrow> (False, p\<lparr>pl_vorbis := Some v, error_text := Msg ''cannot restart track''\<rparr>, w)
            | None \<Rightarrow> (False, p\<lparr>error_text := Msg ''cannot restart track''\<rparr>, w)))
      else if playback_mode p = PlaybackShuffle then change_random_file libs p w
      else if backend p = BackendGme \<and> track_index p + 1 < track_count p
      then (let (ok, p1) = start_track libs (track_index p + 1) p in (ok, p1, w))
      else change_file libs 1 p w)"

section \<open>Generating samples\<close>

fun stereo_frames :: "sample list \<Rightarrow> (sample \<times> sample) list" where
  "stereo_frames (left # right # rest) = (left, right) # stereo_frames rest"
| "stereo_frames _ = []"

text \<open>\<open>None\<close> is a write whose arithmetic is undefined; without a device nothing is written.\<close>

definition write_out :: "sample list \<Rightarrow> DeckAudio option \<Rightarrow> DeckAudio option option" where
  "write_out samples audio =
     (case audio of
        None \<Rightarrow> Some None
      | Some au \<Rightarrow>
          if available au
          then (case write_stereo (stereo_frames samples) au of None \<Rightarrow> None | Some (_, au') \<Rightarrow> Some (Some au'))
          else Some (Some au))"

datatype fill = Filled | Ended | Failed string

text \<open>
  The loop that fills a tick.  A stream that delivers more than it was asked for writes behind the
  buffer, which is \<open>None\<close>, as is a loop that does not end.
\<close>

definition store_pcm :: "nat \<Rightarrow> nat \<Rightarrow> sample list \<Rightarrow> sample list \<Rightarrow> sample list" where
  "store_pcm channels frames out samples =
     blit samples (frames * 2) (if channels = 1 then concat (map (\<lambda>s. [s, s]) out) else out)"

partial_function (option) vorbis_fill ::
  "('e, 'v) codecs \<Rightarrow> bool \<Rightarrow> nat \<Rightarrow> 'v \<Rightarrow> sample list \<Rightarrow> nat \<Rightarrow> bool \<Rightarrow> (fill \<times> sample list \<times> 'v) option" where
  "vorbis_fill libs loop_one channels v samples frames rewound =
     (if frames \<ge> kFramesPerTick then Some (Filled, samples, v)
      else
        (let amount = fst (ov_read libs v (kFramesPerTick - frames));
             v1 = snd (ov_read libs v (kFramesPerTick - frames))
         in if amount = Stream_damaged then Some (Failed ''Ogg Vorbis stream is damaged'', samples, v1)
            else if amount = Stream_end
            then
              (if \<not> loop_one then Some (Ended, samples, v1)
               else if rewound then Some (Failed ''Ogg Vorbis stream contains no audio'', samples, v1)
               else if \<not> fst (ov_rewind libs v1)
               then Some (Failed ''Ogg Vorbis stream contains no audio'', samples, snd (ov_rewind libs v1))
               else vorbis_fill libs loop_one channels (snd (ov_rewind libs v1)) samples frames True)
            else if length (decoded amount) > (kFramesPerTick - frames) * channels then None
            else vorbis_fill libs loop_one channels v1 (store_pcm channels frames (decoded amount) samples)
                   (frames + length (decoded amount) div channels) rewound))"

definition generate_vorbis ::
  "('e, 'v) codecs \<Rightarrow> ('e, 'v) player \<Rightarrow> DeckAudio option \<Rightarrow> world \<Rightarrow>
     (bool \<times> ('e, 'v) player \<times> DeckAudio option \<times> world) option" where
  "generate_vorbis libs p audio w =
     (case pl_vorbis p of
        None \<Rightarrow> None
      | Some v \<Rightarrow>
          (case vorbis_fill libs (playback_mode p = PlaybackLoopOne) (vorbis_channels p) v
                  (replicate (kFramesPerTick * 2) 0) 0 False of
             None \<Rightarrow> None
           | Some (Failed m, _, v') \<Rightarrow> Some (False, p\<lparr>pl_vorbis := Some v', error_text := Msg m\<rparr>, audio, w)
           | Some (stop, samples, v') \<Rightarrow>
               (let p1 = p\<lparr>pl_vorbis := Some v', visual := samples\<rparr>
                in case write_out samples audio of
                     None \<Rightarrow> None
                   | Some audio' \<Rightarrow>
                       (if stop = Ended
                        then (let (ok, p2, w2) = advance_after_end libs p1 w in Some (ok, p2, audio', w2))
                        else Some (True, p1, audio', w)))))"

text \<open>A library that fills less than the buffer leaves zeros in the rest of it.\<close>

definition generate ::
  "('e, 'v) codecs \<Rightarrow> ('e, 'v) player \<Rightarrow> DeckAudio option \<Rightarrow> world \<Rightarrow>
     (bool \<times> ('e, 'v) player \<times> DeckAudio option \<times> world) option" where
  "generate libs p audio w =
     (if backend p = BackendNone \<or> paused p then Some (True, p, audio, w)
      else if backend p = BackendVorbis then generate_vorbis libs p audio w
      else
        (case pl_emulator p of
           None \<Rightarrow> None
         | Some e \<Rightarrow>
             (case gme_play libs e (kFramesPerTick * 2) of
                (Some m, _, e') \<Rightarrow> Some (False, p\<lparr>pl_emulator := Some e', error_text := Msg m\<rparr>, audio, w)
              | (None, out, e') \<Rightarrow>
                  (let samples = take (kFramesPerTick * 2) (out @ drop (length out) (replicate (kFramesPerTick * 2) 0));
                       p1 = p\<lparr>pl_emulator := Some e', visual := samples\<rparr>
                   in case write_out samples audio of
                        None \<Rightarrow> None
                      | Some audio' \<Rightarrow>
                          (if gme_track_ended libs e'
                           then (let (ok, p2, w2) = advance_after_end libs p1 w in Some (ok, p2, audio', w2))
                           else Some (True, p1, audio', w))))))"

section \<open>Transport and what the screen shows\<close>

definition toggle_pause :: "('e, 'v) player \<Rightarrow> ('e, 'v) player" where
  "toggle_pause p = p\<lparr>paused := \<not> paused p\<rparr>"

definition cycle_playback_mode :: "('e, 'v) player \<Rightarrow> ('e, 'v) player" where
  "cycle_playback_mode p =
     p\<lparr>playback_mode := (case playback_mode p of PlaybackLoopAll \<Rightarrow> PlaybackLoopOne | PlaybackLoopOne \<Rightarrow> PlaybackShuffle
                         | PlaybackShuffle \<Rightarrow> PlaybackLoopAll)\<rparr>"

definition ready :: "('e, 'v) player \<Rightarrow> bool" where
  "ready p = (backend p \<noteq> BackendNone)"

definition position_ms :: "('e, 'v) codecs \<Rightarrow> ('e, 'v) player \<Rightarrow> int" where
  "position_ms libs p =
     (case (backend p, pl_emulator p, pl_vorbis p) of
        (BackendGme, Some e, _) \<Rightarrow> gme_tell libs e
      | (BackendVorbis, _, Some v) \<Rightarrow> ov_tell_ms libs v
      | _ \<Rightarrow> 0)"

definition info_text :: "(track_info \<Rightarrow> string option) \<Rightarrow> ('e, 'v) player \<Rightarrow> string" where
  "info_text field p = (case pl_info p of None \<Rightarrow> [] | Some info \<Rightarrow> or_empty (field info))"

definition title :: "('e, 'v) player \<Rightarrow> string" where
  "title p =
     (if backend p = BackendVorbis \<and> vorbis_title p \<noteq> [] then vorbis_title p
      else if backend p = BackendGme \<and> info_text ti_song p \<noteq> [] then info_text ti_song p
      else if pl_files p = [] then [] else base_name (pl_files p ! file_index p))"

definition subtitle :: "('e, 'v) player \<Rightarrow> string" where
  "subtitle p =
     (if backend p = BackendVorbis then vorbis_artist p
      else
        (let game = (if backend p = BackendGme then info_text ti_game p else []);
             author = (if backend p = BackendGme then info_text ti_author p else [])
         in if author = [] then game else (if game = [] then [] else game @ '' - '') @ author))"

definition system_text :: "('e, 'v) player \<Rightarrow> string" where
  "system_text p = (if backend p = BackendVorbis then ''OGG VORBIS'' else info_text ti_system p)"

end
