(* ===== verification/Chiptune_Playing.thy ===== *)
theory Chiptune_Playing
  imports Chiptune_Player
begin

section \<open>What the player keeps and plays\<close>

text \<open>
  The invariant of the player, which file the transport and shuffle choose, and that a tick is
  filled without gaps.  What is documented of the Vorbis library is a predicate: a read delivers at
  least one whole frame and no more than asked for.
\<close>

section \<open>The invariant\<close>

definition stream_laws :: "('e, 'v) codecs \<Rightarrow> bool" where
  "stream_laws libs =
     (\<forall>v rate channels. ov_info libs v = Some (rate, channels) \<longrightarrow>
        ov_info libs (snd (ov_rewind libs v)) = ov_info libs v \<and>
        (\<forall>n > 0. ov_info libs (snd (ov_read libs v n)) = ov_info libs v \<and>
          (\<forall>out. fst (ov_read libs v n) = Decoded out \<longrightarrow>
             out \<noteq> [] \<and> length out \<le> n * nat channels \<and> nat channels dvd length out)))"

lemma stream_lawsD:
  assumes "stream_laws libs" "ov_info libs v = Some (rate, channels)"
  shows "ov_info libs (snd (ov_rewind libs v)) = ov_info libs v"
    and "0 < n \<Longrightarrow> ov_info libs (snd (ov_read libs v n)) = ov_info libs v"
    and "0 < n \<Longrightarrow> fst (ov_read libs v n) = Decoded out \<Longrightarrow>
      out \<noteq> [] \<and> length out \<le> n * nat channels \<and> nat channels dvd length out"
  using assms unfolding stream_laws_def by blast+

fun backend_ok ::
  "('e, 'v) codecs \<Rightarrow> PlayerBackend \<Rightarrow> 'e option \<Rightarrow> 'v option \<Rightarrow> int \<Rightarrow> int \<Rightarrow> nat \<Rightarrow> bool" where
  "backend_ok libs BackendNone e v track count channels = (e = None \<and> v = None)"
| "backend_ok libs BackendGme e v track count channels = (e \<noteq> None \<and> v = None \<and> 0 \<le> track \<and> track < count)"
| "backend_ok libs BackendVorbis e v track count channels =
     (e = None \<and> track = 0 \<and> count = 1 \<and> channels \<in> {1, 2} \<and>
      (case v of None \<Rightarrow> False | Some stream \<Rightarrow> map_option snd (ov_info libs stream) = Some (int channels)))"

text \<open>
  Lengths that fit into an \<open>int\<close>, and positions whose product with the width of the progress bar
  does: tracks of at most 82 minutes.
\<close>

definition short_tracks :: "('e, 'v) codecs \<Rightarrow> bool" where
  "short_tracks libs =
     ((\<forall>e track info. gme_track_info libs e track = Some info \<longrightarrow> ti_play_length info < 2 ^ 31) \<and>
      (\<forall>v. ov_total_ms libs v < 2 ^ 31) \<and>
      (\<forall>e. \<bar>gme_tell libs e\<bar> * 432 < 2 ^ 31) \<and> (\<forall>v. \<bar>ov_tell_ms libs v\<bar> * 432 < 2 ^ 31))"

lemma short_tracks_simps [simp]:
  "short_tracks libs \<Longrightarrow> gme_track_info libs e track = Some info \<Longrightarrow> ti_play_length info < 2147483648"
  "short_tracks libs \<Longrightarrow> ov_total_ms libs v < 2147483648"
  by (simp_all add: short_tracks_def)

definition player_ok :: "('e, 'v) codecs \<Rightarrow> ('e, 'v) player \<Rightarrow> bool" where
  "player_ok libs p =
     (backend_ok libs (backend p) (pl_emulator p) (pl_vorbis p) (track_index p) (track_count p) (vorbis_channels p) \<and>
      (pl_files p = [] \<or> file_index p < length (pl_files p)) \<and>
      (visual p = [] \<or> length (visual p) = 2 * kFramesPerTick) \<and>
      (short_tracks libs \<longrightarrow> length_ms p < 2 ^ 31))"

lemma created_player_ok: "player_ok libs (created_player files process)"
  by (simp add: player_ok_def created_player_def)

lemma close_track_ok: "player_ok libs p \<Longrightarrow> player_ok libs (close_track p)"
  by (auto simp: player_ok_def close_track_def)

lemma close_track_fields [simp]: "pl_files (close_track p) = pl_files p" "file_index (close_track p) = file_index p"
  "playback_mode (close_track p) = playback_mode p" "random_state (close_track p) = random_state p"
  by (simp_all add: close_track_def)

lemma error_text_ok [simp]: "player_ok libs (p\<lparr>error_text := m\<rparr>) = player_ok libs p"
  by (simp add: player_ok_def)

lemma start_track_frame:
  "start_track libs track p = (ok, p') \<Longrightarrow> pl_files p' = pl_files p \<and> file_index p' = file_index p \<and>
     backend p' = backend p \<and> track_count p' = track_count p \<and> playback_mode p' = playback_mode p \<and>
     random_state p' = random_state p \<and> (ok \<longrightarrow> track_index p' = track)"
  by (auto simp: start_track_def Let_def split: option.splits prod.splits if_splits)

lemma start_track_ok:
  assumes "player_ok libs p" "start_track libs track p = (ok, p')"
  shows "player_ok libs p'"
  using assms
  by (cases "backend p") (auto simp: player_ok_def start_track_def Let_def split: option.splits prod.splits if_splits)

lemma open_vorbis_ok:
  assumes "player_ok libs p" "backend p = BackendNone" "index < length (pl_files p)"
    "open_vorbis_bytes libs index bytes p = (ok, p')"
  shows "player_ok libs p' \<and> pl_files p' = pl_files p \<and> file_index p' \<in> {file_index p, index} \<and>
    playback_mode p' = playback_mode p \<and> random_state p' = random_state p"
proof (cases ok)
  case False
  then show ?thesis using assms(1,4)
    by (auto simp: open_vorbis_bytes_def split: option.splits prod.splits if_splits)
next
  case True
  then obtain v channels where v: "ov_open libs bytes = Some v" "ov_info libs v = Some (kSampleRate, channels)"
    "channels = 1 \<or> channels = 2" and p': "p' = p\<lparr>pl_vorbis := Some v, vorbis_title := or_empty (ov_comment libs v ''TITLE''),
        vorbis_artist := or_empty (ov_comment libs v ''ARTIST''), backend := BackendVorbis, vorbis_channels := nat channels,
        file_bytes := bytes, file_index := index, track_index := 0, track_count := 1, length_ms := ov_total_ms libs v,
        paused := False, visual := []\<rparr>"
    using assms(4) by (auto simp: open_vorbis_bytes_def split: option.splits if_splits)
  have "backend_ok libs BackendNone (pl_emulator p) (pl_vorbis p) (track_index p) (track_count p) (vorbis_channels p)"
    using assms(1,2) by (simp add: player_ok_def)
  then show ?thesis using assms(3) v unfolding p' player_ok_def by auto
qed

lemma open_gme_ok:
  assumes "player_ok libs p" "backend p = BackendNone" "index < length (pl_files p)" "visual p = []"
    "open_gme_bytes libs index track bytes p = (ok, p')" "track_index p = 0"
  shows "player_ok libs p' \<and> pl_files p' = pl_files p \<and> file_index p' \<in> {file_index p, index} \<and>
    playback_mode p' = playback_mode p \<and> random_state p' = random_state p"
proof (cases "\<exists>e. gme_open_data libs bytes = (None, Some e)")
  case True
  then obtain e where e: "gme_open_data libs bytes = (None, Some e)" by blast
  let ?p1 = "p\<lparr>pl_emulator := Some e, backend := BackendGme, file_index := index, track_count := max 1 (gme_track_count libs e)\<rparr>"
  have ok1: "player_ok libs ?p1" using assms(1-4,6) by (auto simp: player_ok_def)
  have "start_track libs (max 0 (min (track_count ?p1 - 1) track)) ?p1 = (ok, p')"
    using assms(5) e by (simp add: open_gme_bytes_def)
  from start_track_ok [OF ok1 this] start_track_frame [OF this] show ?thesis by simp
next
  case False
  then show ?thesis using assms(1,5)
    by (cases "gme_open_data libs bytes") (auto simp: open_gme_bytes_def split: option.splits)
qed

lemma open_file_ok:
  assumes "player_ok libs p" "open_file libs index track p w = (ok, p', w')"
  shows "player_ok libs p' \<and> pl_files p' = pl_files p \<and> file_index p' \<in> {file_index p, index} \<and>
    playback_mode p' = playback_mode p \<and> random_state p' = random_state p"
proof -
  let ?p = "close_track p"
  have closed: "player_ok libs ?p" "backend ?p = BackendNone" "visual ?p = []" "track_index ?p = 0"
    using close_track_ok [OF assms(1)] by (simp_all add: close_track_def)
  show ?thesis
  proof (cases "index < length (pl_files p)")
    case False
    then show ?thesis using assms(2) closed by (auto simp: open_file_def Let_def)
  next
    case True
    obtain r w1 where rd: "read_chiptune (pl_files p ! index) w = (r, w1)" by fastforce
    show ?thesis
    proof (cases r)
      case (Inl m)
      then show ?thesis using assms(2) True rd closed by (auto simp: open_file_def Let_def)
    next
      case (Inr bytes)
      obtain o1 p1 where op: "(if lower_extension (pl_files p ! index) = ''.ogg'' then open_vorbis_bytes libs index bytes ?p
          else open_gme_bytes libs index track bytes ?p) = (o1, p1)" by fastforce
      then have "p' = p1" using assms(2) True rd Inr by (auto simp: open_file_def Let_def)
      moreover have "player_ok libs p1 \<and> pl_files p1 = pl_files ?p \<and> file_index p1 \<in> {file_index ?p, index} \<and>
          playback_mode p1 = playback_mode ?p \<and> random_state p1 = random_state ?p"
      proof (cases "lower_extension (pl_files p ! index) = ''.ogg''")
        case ogg: True
        then show ?thesis using op open_vorbis_ok [OF closed(1,2), of index bytes o1 p1] True by simp
      next
        case False
        then show ?thesis using op open_gme_ok [OF closed(1,2) _ closed(3), of index track bytes o1 p1] closed(4) True by simp
      qed
      ultimately show ?thesis by simp
    qed
  qed
qed

lemma open_first_loop_ok:
  assumes "player_ok libs p" "open_first_loop libs n p w = (ok, p', w')" "pl_files p \<noteq> []"
  shows "player_ok libs p'"
  using assms
proof (induction n arbitrary: p w)
  case (Suc n)
  obtain o1 p1 w1 where op: "open_file libs (file_index p) 0 p w = (o1, p1, w1)" by (metis prod_cases3)
  note ok1 = open_file_ok [OF Suc.prems(1) op]
  let ?p2 = "p1\<lparr>file_index := (file_index p1 + 1) mod length (pl_files p1)\<rparr>"
  have "player_ok libs ?p2" using ok1 Suc.prems(3) by (simp add: player_ok_def)
  then show ?case using Suc.IH [of ?p2 w1] Suc.prems(2,3) op ok1 by (cases o1) simp_all
qed simp

lemma try_files_ok:
  assumes "player_ok libs p" "try_files libs candidates p w = (ok, p', w')"
  shows "player_ok libs p' \<and> pl_files p' = pl_files p \<and> playback_mode p' = playback_mode p"
  using assms
proof (induction candidates arbitrary: p w)
  case (Cons c cs)
  obtain o1 p1 w1 where op: "open_file libs c 0 p w = (o1, p1, w1)" by (metis prod_cases3)
  then show ?case using Cons.IH [of p1 w1] Cons.prems open_file_ok [OF Cons.prems(1) op] by (cases o1) auto
qed simp

lemma change_file_ok:
  "player_ok libs p \<Longrightarrow> change_file libs direction p w = (ok, p', w') \<Longrightarrow> player_ok libs p'"
  using try_files_ok by (fastforce simp: change_file_def split: if_splits)

lemma change_track_ok:
  "player_ok libs p \<Longrightarrow> change_track libs direction p = (ok, p') \<Longrightarrow> player_ok libs p'"
  using start_track_ok by (fastforce simp: change_track_def split: if_splits)

lemma next_random_ok: "next_random p = (r, p') \<Longrightarrow> player_ok libs p' = player_ok libs p"
  by (auto simp: next_random_def player_ok_def Let_def)

lemma next_random_frame:
  "next_random p = (r, p') \<Longrightarrow> pl_files p' = pl_files p \<and> file_index p' = file_index p \<and> track_count p' = track_count p \<and>
     backend p' = backend p \<and> playback_mode p' = playback_mode p"
  by (auto simp: next_random_def Let_def)

lemma start_random_track_ok:
  assumes "player_ok libs p" "start_random_track libs p = (ok, p')"
  shows "player_ok libs p' \<and> pl_files p' = pl_files p \<and> file_index p' = file_index p"
proof -
  obtain r p1 where r: "next_random p = (r, p1)" by fastforce
  have "player_ok libs p1" using next_random_ok [OF r] assms(1) by blast
  then show ?thesis
    using assms r start_track_ok start_track_frame next_random_frame [OF r]
    by (fastforce simp: start_random_track_def Let_def split: if_splits)
qed

lemma change_random_file_ok:
  assumes "player_ok libs p" "change_random_file libs p w = (ok, p', w')"
  shows "player_ok libs p'"
proof (cases "pl_files p = []")
  case False
  let ?count = "length (pl_files p)"
  obtain offset p1 where r: "(if ?count > 1 then (let (r, p') = next_random p in (1 + unat r mod (?count - 1), p')) else (0, p)) = (offset, p1)"
    by fastforce
  have ok1: "player_ok libs p1" using r assms(1) next_random_ok by (fastforce split: if_splits prod.splits)
  obtain o2 p2 w2 where t: "try_files libs (shuffle_candidates offset (file_index p) ?count) p1 w = (o2, p2, w2)"
    by (metis prod_cases3)
  have ok2: "player_ok libs p2" using try_files_ok [OF ok1 t] by blast
  obtain o3 p3 w3 where o: "open_file libs (file_index p) 0 p2 w2 = (o3, p3, w3)" by (metis prod_cases3)
  have ok3: "player_ok libs p3" using open_file_ok [OF ok2 o] by blast
  show ?thesis
    using assms(2) False r t o ok2 ok3 start_random_track_ok
    by (auto simp: change_random_file_def Let_def split: bool.splits prod.splits)
qed (use assms in \<open>simp add: change_random_file_def\<close>)

lemma advance_after_end_ok:
  assumes laws: "stream_laws libs" and "player_ok libs p" "advance_after_end libs p w = (ok, p', w')"
  shows "player_ok libs p'"
proof -
  obtain o1 p1 where st: "start_track libs (track_index p) p = (o1, p1)" by fastforce
  obtain o2 p2 where nx: "start_track libs (track_index p + 1) p = (o2, p2)" by fastforce
  show ?thesis
  proof (cases "playback_mode p = PlaybackLoopOne")
    case one: True
    show ?thesis
    proof (cases "backend p")
      case BackendGme
      then show ?thesis using assms(3) one st start_track_ok [OF assms(2) st] by (simp add: advance_after_end_def)
    next
      case BackendVorbis
      then obtain v rate channels where v: "pl_vorbis p = Some v" "ov_info libs v = Some (rate, channels)"
        using assms(2) by (auto simp: player_ok_def split: option.splits)
      obtain r v' where rw: "ov_rewind libs v = (r, v')" by fastforce
      have same: "ov_info libs v' = ov_info libs v" using laws v(2) rw by (fastforce simp: stream_laws_def)
      have "p' = p\<lparr>pl_vorbis := Some v'\<rparr> \<or> p' = p\<lparr>pl_vorbis := Some v', error_text := Msg ''cannot restart track''\<rparr>"
        using assms(3) one BackendVorbis v(1) rw by (cases r) (simp_all add: advance_after_end_def)
      then show ?thesis using assms(2) BackendVorbis v same by (auto simp: player_ok_def)
    next
      case BackendNone
      then show ?thesis using assms(2,3) one by (auto simp: advance_after_end_def)
    qed
  next
    case False
    show ?thesis
    proof (cases "playback_mode p = PlaybackShuffle")
      case True
      then show ?thesis using assms(3) change_random_file_ok [OF assms(2)] by (simp add: advance_after_end_def)
    next
      case loop: False
      show ?thesis
      proof (cases "backend p = BackendGme \<and> track_index p + 1 < track_count p")
        case True
        then have "p' = p2" using assms(3) False loop nx by (simp add: advance_after_end_def)
        then show ?thesis using start_track_ok [OF assms(2) nx] by simp
      next
        case last: False
        then have "change_file libs 1 p w = (ok, p', w')"
          using assms(3) False loop by (auto simp: advance_after_end_def split: if_splits)
        then show ?thesis by (rule change_file_ok [OF assms(2)])
      qed
    qed
  qed
qed

section \<open>A tick of a stream\<close>

lemma vorbis_fill_step:
  assumes "frames < kFramesPerTick" "ov_read libs v (kFramesPerTick - frames) = (amount, v1)"
  shows "vorbis_fill libs loop_one channels v samples frames rewound =
    (case amount of
       Stream_damaged \<Rightarrow> Some (Failed ''Ogg Vorbis stream is damaged'', samples, v1)
     | Stream_end \<Rightarrow>
         if \<not> loop_one then Some (Ended, samples, v1)
         else if rewound then Some (Failed ''Ogg Vorbis stream contains no audio'', samples, v1)
         else if \<not> fst (ov_rewind libs v1)
         then Some (Failed ''Ogg Vorbis stream contains no audio'', samples, snd (ov_rewind libs v1))
         else vorbis_fill libs loop_one channels (snd (ov_rewind libs v1)) samples frames True
     | Decoded out \<Rightarrow>
         if length out > (kFramesPerTick - frames) * channels then None
         else vorbis_fill libs loop_one channels v1 (store_pcm channels frames out samples)
                (frames + length out div channels) rewound)"
  by (subst vorbis_fill.simps) (use assms in \<open>simp add: Let_def split: pcm.split\<close>)

lemma vorbis_fill_full: "kFramesPerTick \<le> frames \<Longrightarrow>
    vorbis_fill libs loop_one channels v samples frames rewound = Some (Filled, samples, v)"
  by (subst vorbis_fill.simps) simp

lemma length_store_pcm:
  assumes "channels \<in> {1, 2}" "channels dvd length out" "2 * (frames + length out div channels) \<le> length samples"
  shows "length (store_pcm channels frames out samples) = length samples"
proof -
  have "length (concat (map (\<lambda>s. [s, s]) out)) = 2 * length out" by (induction out) auto
  then show ?thesis using assms by (auto simp: store_pcm_def)
qed

lemma vorbis_fill_returns:
  assumes laws: "stream_laws libs" and "channels \<in> {1, 2}" "map_option snd (ov_info libs v) = Some (int channels)"
    "length samples = 2 * kFramesPerTick" "frames \<le> kFramesPerTick"
  shows "\<exists>stop samples' v'. vorbis_fill libs loop_one channels v samples frames rewound = Some (stop, samples', v') \<and>
    length samples' = 2 * kFramesPerTick \<and> map_option snd (ov_info libs v') = Some (int channels)"
  using assms(3-)
proof (induction "2 * (kFramesPerTick - frames) + (if rewound then 0 else 1)" arbitrary: v samples frames rewound rule: less_induct)
  case less
  show ?case
  proof (cases "frames < kFramesPerTick")
    case False
    then show ?thesis using less.prems by (simp add: vorbis_fill_full)
  next
    case True
    obtain rate where info: "ov_info libs v = Some (rate, int channels)" using less.prems(1) by auto
    obtain amount v1 where rd: "ov_read libs v (kFramesPerTick - frames) = (amount, v1)" by fastforce
    have law: "ov_info libs v1 = ov_info libs v"
      "amount = Decoded out \<Longrightarrow> out \<noteq> [] \<and> length out \<le> (kFramesPerTick - frames) * channels \<and> channels dvd length out" for out
      using stream_lawsD(2,3) [OF laws info, of "kFramesPerTick - frames"] rd True by simp_all
    note step = vorbis_fill_step [OF True rd, of loop_one channels samples rewound]
    show ?thesis
    proof (cases amount)
      case (Decoded out)
      note out = law(2) [OF Decoded]
      let ?n = "length out div channels"
      obtain k where k: "length out = channels * k" using out by (auto elim: dvdE)
      have "length out \<noteq> 0" using out by simp
      with k have "k > 0" by (cases k) simp_all
      then have pos: "0 < ?n" using k assms(2) by auto
      have "?n * channels \<le> (kFramesPerTick - frames) * channels" using out by simp
      then have fits: "?n \<le> kFramesPerTick - frames" using assms(2) by auto
      have len: "length (store_pcm channels frames out samples) = 2 * kFramesPerTick"
        using length_store_pcm [OF assms(2), of out frames samples] out fits less.prems(2) True by simp
      have "\<exists>stop samples' v'. vorbis_fill libs loop_one channels v1 (store_pcm channels frames out samples) (frames + ?n) rewound =
          Some (stop, samples', v') \<and> length samples' = 2 * kFramesPerTick \<and> map_option snd (ov_info libs v') = Some (int channels)"
      proof (rule less.hyps)
        show "2 * (kFramesPerTick - (frames + ?n)) + (if rewound then 0 else 1) < 2 * (kFramesPerTick - frames) + (if rewound then 0 else 1)"
          using pos True by auto
      qed (use law(1) less.prems(1) len fits True in auto)
      then show ?thesis using step Decoded out by simp
    next
      case Stream_end
      obtain r v2 where rw: "ov_rewind libs v1 = (r, v2)" by fastforce
      have same: "ov_info libs v2 = ov_info libs v1"
        using stream_lawsD(1) [OF laws, of v1 rate "int channels"] law(1) info rw by simp
      show ?thesis
      proof (cases "loop_one \<and> \<not> rewound \<and> r")
        case again: True
        have "\<exists>stop samples' v'. vorbis_fill libs loop_one channels v2 samples frames True = Some (stop, samples', v') \<and>
            length samples' = 2 * kFramesPerTick \<and> map_option snd (ov_info libs v') = Some (int channels)"
          by (rule less.hyps) (use again law(1) same less.prems in auto)
        then show ?thesis using step Stream_end again rw by simp
      next
        case stops: False
        then show ?thesis using step Stream_end rw law(1) same less.prems(1,2) by (cases loop_one; cases rewound; cases r) simp_all
      qed
    next
      case Stream_damaged
      then show ?thesis using step law(1) less.prems(1,2) by simp
    qed
  qed
qed

text \<open>A device whose rate is the player's needs no resampling, so every write is defined.\<close>

definition plain_audio :: "DeckAudio option \<Rightarrow> bool" where
  "plain_audio audio = (\<forall>au. audio = Some au \<longrightarrow> available au \<longrightarrow> source_rate au = output_rate au)"

lemma write_out_defined:
  assumes "plain_audio audio"
  shows "\<exists>audio'. write_out samples audio = Some audio' \<and> plain_audio audio'"
proof (cases audio)
  case None
  then show ?thesis by (simp add: write_out_def plain_audio_def)
next
  case (Some au)
  show ?thesis
  proof (cases "available au")
    case False
    then show ?thesis using Some by (simp add: write_out_def plain_audio_def)
  next
    case True
    then have rates: "source_rate au = output_rate au" using assms Some by (simp add: plain_audio_def)
    let ?mono = "map (\<lambda>(left, right). mix_frame left right (volume_percent au)) (stereo_frames samples)"
    have "\<exists>ok au'. write_mono ?mono au = Some (ok, au') \<and> source_rate au' = output_rate au'"
    proof (cases "?mono = []")
      case False
      obtain ok au' where "enqueue ?mono au = (ok, au')" by fastforce
      moreover from this have "source_rate au' = output_rate au'"
        using rates enqueue_frames(1,2) [of ?mono au] by simp
      ultimately show ?thesis using False rates by (simp add: write_mono_def)
    qed (use rates in \<open>auto simp: write_mono_def\<close>)
    then show ?thesis using Some True by (auto simp: write_out_def write_stereo_def plain_audio_def)
  qed
qed

lemma generate_ok:
  assumes laws: "stream_laws libs" and ok: "player_ok libs p" and plain: "plain_audio audio"
  shows "\<exists>done p' audio' w'. generate libs p audio w = Some (done, p', audio', w') \<and> player_ok libs p' \<and> plain_audio audio'"
proof -
  consider (idle) "backend p = BackendNone \<or> paused p" | (vorbis) "backend p = BackendVorbis" "\<not> paused p"
    | (gme) "backend p = BackendGme" "\<not> paused p" by (cases "backend p") auto
  then show ?thesis
  proof cases
    case idle
    then show ?thesis using ok plain by (auto simp: generate_def)
  next
    case vorbis
    then obtain v where v: "pl_vorbis p = Some v" "map_option snd (ov_info libs v) = Some (int (vorbis_channels p))"
      "vorbis_channels p \<in> {1, 2}"
      using ok by (auto simp: player_ok_def split: option.splits)
    obtain stop samples v' where fill: "vorbis_fill libs (playback_mode p = PlaybackLoopOne) (vorbis_channels p) v
        (replicate (kFramesPerTick * 2) 0) 0 False = Some (stop, samples, v')" "length samples = 2 * kFramesPerTick"
      "map_option snd (ov_info libs v') = Some (int (vorbis_channels p))"
      using vorbis_fill_returns [OF laws v(3,2), where samples = "replicate (kFramesPerTick * 2) 0" and frames = 0
          and loop_one = "playback_mode p = PlaybackLoopOne" and rewound = False]
      by (simp only: length_replicate mult.commute) blast
    let ?p1 = "p\<lparr>pl_vorbis := Some v', visual := samples\<rparr>"
    have ok1: "player_ok libs ?p1" using ok vorbis fill(2,3) by (simp add: player_ok_def)
    have okf: "player_ok libs (p\<lparr>pl_vorbis := Some v', error_text := m\<rparr>)" for m
      using ok vorbis fill(3) by (simp add: player_ok_def)
    obtain audio' where audio': "write_out samples audio = Some audio'" "plain_audio audio'"
      using write_out_defined [OF plain] by blast
    obtain ok2 p2 w2 where adv: "advance_after_end libs ?p1 w = (ok2, p2, w2)" by (metis prod_cases3)
    have "player_ok libs p2" using advance_after_end_ok [OF laws ok1 adv] .
    then show ?thesis
      using vorbis v(1) fill(1) audio' adv ok1 okf plain
      by (cases stop) (simp_all add: generate_def generate_vorbis_def Let_def ex_bool_eq)
  next
    case gme
    then obtain e where e: "pl_emulator p = Some e" using ok by (auto simp: player_ok_def)
    obtain m out e' where play: "gme_play libs e (kFramesPerTick * 2) = (m, out, e')" by (metis prod_cases3)
    let ?samples = "take (kFramesPerTick * 2) (out @ drop (length out) (replicate (kFramesPerTick * 2) 0))"
    let ?p1 = "p\<lparr>pl_emulator := Some e', visual := ?samples\<rparr>"
    have ok1: "player_ok libs ?p1" using ok gme by (simp add: player_ok_def min_def)
    have okf: "player_ok libs (p\<lparr>pl_emulator := Some e', error_text := t\<rparr>)" for t
      using ok gme by (simp add: player_ok_def)
    obtain audio' where audio': "write_out ?samples audio = Some audio'" "plain_audio audio'"
      using write_out_defined [OF plain] by blast
    obtain ok2 p2 w2 where adv: "advance_after_end libs ?p1 w = (ok2, p2, w2)" by (metis prod_cases3)
    have "player_ok libs p2" using advance_after_end_ok [OF laws ok1 adv] .
    then show ?thesis
      using gme e play audio' adv ok1 okf plain
      by (cases m; cases "gme_track_ended libs e'") (simp_all add: generate_def Let_def ex_bool_eq)
  qed
qed

section \<open>Every player the program can reach\<close>

inductive player_reachable :: "('e, 'v) codecs \<Rightarrow> ('e, 'v) player \<Rightarrow> bool" for libs where
  created: "player_reachable libs (created_player files process)"
| opened: "player_reachable libs p \<Longrightarrow> open_first libs p w = (ok, p', w') \<Longrightarrow> player_reachable libs p'"
| next_file: "player_reachable libs p \<Longrightarrow> change_file libs direction p w = (ok, p', w') \<Longrightarrow> player_reachable libs p'"
| next_track: "player_reachable libs p \<Longrightarrow> change_track libs direction p = (ok, p') \<Longrightarrow> player_reachable libs p'"
| pause: "player_reachable libs p \<Longrightarrow> player_reachable libs (toggle_pause p)"
| mode: "player_reachable libs p \<Longrightarrow> player_reachable libs (cycle_playback_mode p)"
| tick: "player_reachable libs p \<Longrightarrow> plain_audio audio \<Longrightarrow>
    generate libs p audio w = Some (ok, p', audio', w') \<Longrightarrow> player_reachable libs p'"

lemma player_reachable_ok:
  assumes laws: "stream_laws libs"
  shows "player_reachable libs p \<Longrightarrow> player_ok libs p"
proof (induction rule: player_reachable.induct)
  case (opened p w ok p' w')
  then show ?case using open_first_loop_ok by (fastforce simp: open_first_def split: if_splits)
next
  case (next_file p direction w ok p' w')
  then show ?case using change_file_ok by blast
next
  case (next_track p direction ok p')
  then show ?case using change_track_ok by blast
next
  case (tick p audio w ok p' audio' w')
  then show ?case using generate_ok [OF laws tick.IH tick.hyps(2), of w] by auto
qed (auto simp: created_player_def player_ok_def toggle_pause_def cycle_playback_mode_def)

text \<open>
  C9. In every player the program can reach, the handles fit the kind of file that is open, the
  file and track numbers are in range and the waveform is empty or a whole tick.
\<close>
theorem player_invariant: "stream_laws libs \<Longrightarrow> player_reachable libs p \<Longrightarrow> player_ok libs p"
  by (rule player_reachable_ok)


section \<open>Which file is opened\<close>

definition opens :: "('e, 'v) codecs \<Rightarrow> string \<Rightarrow> string \<Rightarrow> bool" where
  "opens libs path bytes =
     (if lower_extension path = ''.ogg''
      then (case ov_open libs bytes of
              None \<Rightarrow> False
            | Some v \<Rightarrow> ov_info libs v \<in> {Some (kSampleRate, 1), Some (kSampleRate, 2)})
      else (case gme_open_data libs bytes of
              (None, Some e) \<Rightarrow> fst (gme_start_track libs e 0) = None
            | _ \<Rightarrow> False))"

definition playable :: "('e, 'v) codecs \<Rightarrow> world \<Rightarrow> string \<Rightarrow> bool" where
  "playable libs w path = (\<exists>bytes. file_content w path = Some bytes \<and> music_bytes bytes \<and> opens libs path bytes)"

lemma open_vorbis_bytes_fst:
  "open_vorbis_bytes libs index bytes p = (ok, p') \<Longrightarrow>
     ok = (case ov_open libs bytes of None \<Rightarrow> False | Some v \<Rightarrow> ov_info libs v \<in> {Some (kSampleRate, 1), Some (kSampleRate, 2)}) \<and>
     (ok \<longrightarrow> file_index p' = index)"
  by (auto simp: open_vorbis_bytes_def split: option.splits prod.splits if_splits)

lemma open_gme_bytes_fst:
  "open_gme_bytes libs index 0 bytes p = (ok, p') \<Longrightarrow>
     ok = (case gme_open_data libs bytes of (None, Some e) \<Rightarrow> fst (gme_start_track libs e 0) = None | _ \<Rightarrow> False) \<and>
     (ok \<longrightarrow> file_index p' = index)"
  by (auto simp: open_gme_bytes_def start_track_def Let_def split: option.splits prod.splits if_splits)

lemma open_file_idle:
  assumes wf: "wf_world w" and idle: "schedule w = []" and index: "index < length (pl_files p)"
    and op: "open_file libs index 0 p w = (ok, p', w')"
  shows "ok = playable libs w (pl_files p ! index)" "ok \<Longrightarrow> file_index p' = index"
    "wf_world w'" "schedule w' = []" "playable libs w' = playable libs w"
proof -
  let ?path = "pl_files p ! index" and ?p = "close_track p"
  obtain r w1 where rd: "read_chiptune ?path w = (r, w1)" by fastforce
  have w1: "w' = w1" using op rd index by (auto simp: open_file_def Let_def split: sum.splits prod.splits)
  note out = read_chiptune_outcome [OF wf rd]
  show "wf_world w'" "schedule w' = []" "playable libs w' = playable libs w"
    using reads_only_wf [OF out(1) wf] out(3) idle reads_only_file_content [OF out(1)]
    unfolding w1 by (auto simp: playable_def fun_eq_iff)
  have "ok = playable libs w ?path \<and> (ok \<longrightarrow> file_index p' = index)"
  proof (cases r)
    case (Inl m)
    have "\<not> (file_content w ?path = Some bytes \<and> music_bytes bytes)" for bytes
      using out(3) [OF idle, of bytes] Inl by auto
    then show ?thesis using op rd index Inl by (auto simp: open_file_def Let_def playable_def)
  next
    case (Inr bytes)
    then have "file_content w ?path = Some bytes" "music_bytes bytes" using out(2) by auto
    then have "playable libs w ?path = opens libs ?path bytes" by (auto simp: playable_def)
    moreover have "(if lower_extension ?path = ''.ogg'' then open_vorbis_bytes libs index bytes ?p
        else open_gme_bytes libs index 0 bytes ?p) = (ok, p')"
      using op rd index Inr by (auto simp: open_file_def Let_def split: prod.splits)
    ultimately show ?thesis
      using open_vorbis_bytes_fst [of libs index bytes ?p ok p'] open_gme_bytes_fst [of libs index bytes ?p ok p']
      by (auto simp: opens_def split: if_splits)
  qed
  then show "ok = playable libs w ?path" "ok \<Longrightarrow> file_index p' = index" by blast+
qed

lemma open_file_files: "open_file libs index track p w = (ok, p', w') \<Longrightarrow> pl_files p' = pl_files p"
  by (auto simp: open_file_def open_vorbis_bytes_def open_gme_bytes_def start_track_def Let_def
      split: sum.splits prod.splits option.splits if_splits)

lemma try_files_idle:
  assumes "wf_world w" "schedule w = []" "\<forall>c \<in> set candidates. c < length (pl_files p)"
    "try_files libs candidates p w = (ok, p', w')"
  shows "(if ok then Some (file_index p') else None) = find (\<lambda>c. playable libs w (pl_files p ! c)) candidates \<and>
    wf_world w' \<and> schedule w' = [] \<and> playable libs w' = playable libs w \<and> pl_files p' = pl_files p"
  using assms
proof (induction candidates arbitrary: p w)
  case (Cons c cs)
  obtain o1 p1 w1 where op: "open_file libs c 0 p w = (o1, p1, w1)" by (metis prod_cases3)
  have c: "c < length (pl_files p)" using Cons.prems(3) by simp
  note one = open_file_idle [OF Cons.prems(1,2) c op] open_file_files [OF op]
  show ?case
  proof (cases o1)
    case True
    then show ?thesis using Cons.prems(4) op one by auto
  next
    case False
    then have rest: "try_files libs cs p1 w1 = (ok, p', w')" using Cons.prems(4) op by simp
    show ?thesis using Cons.IH [OF one(3,4) _ rest] Cons.prems(3) one False by simp
  qed
qed simp

lemma file_candidates_rotation:
  assumes "current < count"
  shows "file_candidates direction current count =
    (if direction < 0 then rev [0..<current] @ rev [current..<count] else [current + 1..<count] @ [0..<current + 1])"
proof (rule nth_equalityI)
  fix i assume "i < length (file_candidates direction current count)"
  then have i: "i < count" by (auto simp: file_candidates_def split: if_splits)
  have before: "(current + count - Suc i mod count) mod count = (if i < current then current - Suc i else current + count - Suc i)"
  proof (cases "i < current")
    case True
    have "((current - Suc i) + count) mod count = (current - Suc i) mod count" by (rule mod_add_self2)
    moreover have "Suc i mod count = Suc i" "current + count - Suc i = (current - Suc i) + count"
      "(current - Suc i) mod count = current - Suc i" using assms True by simp_all
    ultimately show ?thesis using True by (simp only: if_True)
  next
    case False
    then show ?thesis using i assms by (cases "Suc i = count") simp_all
  qed
  have after: "(current + Suc i) mod count = (if i < count - Suc current then Suc current + i else Suc current + i - count)"
  proof (cases "i < count - Suc current")
    case False
    have "((Suc current + i - count) + count) mod count = (Suc current + i - count) mod count" by (rule mod_add_self2)
    moreover have "current + Suc i = (Suc current + i - count) + count"
      "(Suc current + i - count) mod count = Suc current + i - count" using False i assms by simp_all
    ultimately show ?thesis using False by (simp only: if_False)
  qed (use assms in simp)
  have order: "(if direction < 0 then rev [0..<current] @ rev [current..<count] else [current + 1..<count] @ [0..<current + 1]) ! i =
      (if direction < 0 then (if i < current then current - Suc i else current + count - Suc i)
       else (if i < count - Suc current then Suc current + i else Suc current + i - count))"
  proof (cases "direction < 0")
    case True
    then show ?thesis using i assms by (cases "i < current") (simp_all add: nth_append rev_nth)
  next
    case False
    have "([current + 1..<count] @ [0..<current + 1]) ! i =
        (if i < count - Suc current then Suc current + i else Suc current + i - count)"
      using i assms by (simp add: nth_append add.commute del: upt_Suc)
    then show ?thesis using False by (simp only: if_False)
  qed
  have "file_candidates direction current count ! i =
      (if direction < 0 then (current + count - Suc i mod count) mod count else (current + Suc i) mod count)"
    using i unfolding file_candidates_def by (simp del: upt_Suc)
  then show "file_candidates direction current count ! i =
      (if direction < 0 then rev [0..<current] @ rev [current..<count] else [current + 1..<count] @ [0..<current + 1]) ! i"
    by (simp only: before after order)
qed (use assms in \<open>simp add: file_candidates_def\<close>)

text \<open>
  C18. The buttons for the next and the previous file open the first playable file in cyclic order
  after or before the current one, and fail exactly if no file at all is playable.
\<close>
theorem change_file_exact:
  assumes "wf_world w" "schedule w = []" "player_ok libs p" "change_file libs direction p w = (ok, p', w')"
    "pl_files p \<noteq> []"
  shows "(if ok then Some (file_index p') else None) =
    find (\<lambda>c. playable libs w (pl_files p ! c))
      (if direction < 0 then rev [0..<file_index p] @ rev [file_index p..<length (pl_files p)]
       else [file_index p + 1..<length (pl_files p)] @ [0..<file_index p + 1])"
proof -
  have index: "file_index p < length (pl_files p)" using assms(3,5) by (simp add: player_ok_def)
  note candidates = file_candidates_rotation [OF index, of direction]
  have inside: "\<forall>c \<in> set (file_candidates direction (file_index p) (length (pl_files p))). c < length (pl_files p)"
    using index unfolding candidates by auto
  have "try_files libs (file_candidates direction (file_index p) (length (pl_files p))) p w = (ok, p', w')"
    using assms(4,5) by (simp add: change_file_def)
  from try_files_idle [OF assms(1,2) inside this] show ?thesis unfolding candidates by blast
qed

section \<open>Shuffle\<close>

lemma find_None_iff': "find P xs = None \<longleftrightarrow> (\<forall>x \<in> set xs. \<not> P x)"
  by (auto simp: find_None_iff)

lemma shuffle_candidates_set:
  assumes "current < count" "1 < count"
  shows "set (shuffle_candidates offset current count) = {..<count} - {current}"
proof -
  have "\<exists>i < count. (current + offset + i) mod count = c" if "c < count" for c
  proof (intro exI conjI)
    let ?b = "current + offset"
    have "(?b + (c + (count - ?b mod count)) mod count) mod count = (?b mod count + (c + (count - ?b mod count))) mod count"
      by (simp add: mod_add_left_eq mod_add_right_eq)
    also have "?b mod count + (c + (count - ?b mod count)) = c + count"
      using mod_less_divisor [of count ?b] assms(2) by linarith
    finally show "(?b + (c + (count - ?b mod count)) mod count) mod count = c" using that by simp
    show "(c + (count - ?b mod count)) mod count < count" using assms(2) by simp
  qed
  then have "(\<lambda>i. (current + offset + i) mod count) ` {..<count} = {..<count}" using assms(2) by fastforce
  then have "set (map (\<lambda>i. (current + offset + i) mod count) [0..<count]) = {..<count}"
    by (simp add: lessThan_atLeast0)
  then show ?thesis using assms by (auto simp: shuffle_candidates_def)
qed

text \<open>
  C20. Shuffle never repeats the file that just ended as long as any other file can be played.
\<close>
theorem shuffle_never_repeats:
  assumes "wf_world w" "schedule w = []" "player_ok libs p" "change_random_file libs p w = (ok, p', w')"
    "c < length (pl_files p)" "c \<noteq> file_index p" "playable libs w (pl_files p ! c)"
  shows "file_index p' \<noteq> file_index p \<and> playable libs w (pl_files p ! file_index p')"
proof -
  let ?count = "length (pl_files p)"
  have files: "pl_files p \<noteq> []" "file_index p < ?count" using assms(3,5) by (auto simp: player_ok_def)
  then have many: "1 < ?count" using assms(5,6) by linarith
  obtain r p1 where r: "next_random p = (r, p1)" by fastforce
  let ?cs = "shuffle_candidates (1 + unat r mod (?count - 1)) (file_index p) ?count"
  have cs: "set ?cs = {..<?count} - {file_index p}" by (rule shuffle_candidates_set [OF files(2) many])
  have p1: "pl_files p1 = pl_files p" using next_random_frame [OF r] by simp
  obtain o2 p2 w2 where t: "try_files libs ?cs p1 w = (o2, p2, w2)" by (metis prod_cases3)
  have tried: "(if o2 then Some (file_index p2) else None) = find (\<lambda>c. playable libs w (pl_files p ! c)) ?cs"
    using try_files_idle [OF assms(1,2) _ t] cs p1 by simp
  moreover have "find (\<lambda>c. playable libs w (pl_files p ! c)) ?cs \<noteq> None"
    using assms(5-7) cs by (auto simp: find_None_iff')
  ultimately have o2: "o2" "find (\<lambda>c. playable libs w (pl_files p ! c)) ?cs = Some (file_index p2)"
    by (auto split: if_splits)
  then have found: "file_index p2 \<in> set ?cs" "playable libs w (pl_files p ! file_index p2)"
    by (auto simp: find_Some_iff)
  have "player_ok libs p1" using next_random_ok [OF r] assms(3) by blast
  then have ok2: "player_ok libs p2" using try_files_ok [OF _ t] by blast
  obtain o3 p3 where st: "start_random_track libs p2 = (o3, p3)" by fastforce
  have "p' = p3" using assms(4) files many r t o2(1) st by (simp add: change_random_file_def Let_def)
  moreover have "file_index p3 = file_index p2" using start_random_track_ok [OF ok2 st] by blast
  ultimately show ?thesis using found cs by auto
qed

subsection \<open>The generator\<close>

lemma push_bit_fixed:
  fixes x :: "'a::len word"
  assumes "0 < k" "push_bit k x = x"
  shows "x = 0"
proof (rule bit_word_eqI)
  fix n assume "n < LENGTH('a)"
  have "\<not> bit x n" for n
  proof (induction n rule: less_induct)
    case (less n)
    have "bit x n = bit (push_bit k x) n" by (simp add: assms(2))
    then show ?case using less.IH [of "n - k"] assms(1) by (auto simp: bit_push_bit_iff)
  qed
  then show "bit x n = bit 0 n" by simp
qed

lemma drop_bit_fixed:
  fixes x :: "'a::len word"
  assumes "0 < k" "drop_bit k x = x"
  shows "x = 0"
proof (rule bit_word_eqI)
  fix n assume n: "n < LENGTH('a)"
  have "d \<le> LENGTH('a) \<Longrightarrow> \<not> bit x (LENGTH('a) - d)" for d
  proof (induction d rule: less_induct)
    case (less d)
    have "bit x (LENGTH('a) - d) = bit (drop_bit k x) (LENGTH('a) - d)" by (simp add: assms(2))
    also have "\<dots> = bit x (LENGTH('a) - d + k)" by (simp add: bit_drop_bit_eq add.commute)
    also have "\<not> \<dots>"
    proof (cases "k < d")
      case True
      then have "LENGTH('a) - d + k = LENGTH('a) - (d - k)" using less.prems by simp
      then show ?thesis using less.IH [of "d - k"] less.prems assms(1) True by simp
    next
      case False
      then show ?thesis using bit_imp_le_length [of x "LENGTH('a) - d + k"] less.prems by auto
    qed
    finally show ?case .
  qed
  from this [of "LENGTH('a) - n"] show "bit x n = bit 0 n" using n by simp
qed

lemma xor_cancel:
  fixes x :: "'a::len word"
  shows "x XOR f x = y XOR f y \<Longrightarrow> (\<And>a b. f (a XOR b) = f a XOR f b) \<Longrightarrow> f (x XOR y) = x XOR y"
  by (metis xor.assoc xor.commute xor.left_commute xor_self_eq xor.right_neutral)

lemma xor_zero: "(x :: 'a::len word) XOR y = 0 \<Longrightarrow> x = y"
  by (metis xor.assoc xor_self_eq xor.right_neutral xor.left_neutral)

lemma push_step_inj: "0 < k \<Longrightarrow> (x :: 'a::len word) XOR push_bit k x = y XOR push_bit k y \<Longrightarrow> x = y"
  using xor_cancel [of x "push_bit k" y] push_bit_fixed [of k "x XOR y"] xor_zero [of x y] by (simp add: push_bit_xor)

lemma drop_step_inj: "0 < k \<Longrightarrow> (x :: 'a::len word) XOR drop_bit k x = y XOR drop_bit k y \<Longrightarrow> x = y"
  using xor_cancel [of x "drop_bit k" y] drop_bit_fixed [of k "x XOR y"] xor_zero [of x y] by (simp add: drop_bit_xor)

lemma xorshift_inj: "inj xorshift"
proof (rule injI)
  fix x y assume "xorshift x = xorshift y"
  then have "(x XOR push_bit 13 x) XOR drop_bit 17 (x XOR push_bit 13 x) =
      (y XOR push_bit 13 y) XOR drop_bit 17 (y XOR push_bit 13 y)"
    unfolding xorshift_def Let_def by (rule push_step_inj [rotated]) simp
  then have "x XOR push_bit 13 x = y XOR push_bit 13 y" by (rule drop_step_inj [rotated]) simp
  then show "x = y" by (rule push_step_inj [rotated]) simp
qed

text \<open>
  The generator permutes the nonzero states, so it never gets stuck at zero and every state it
  started from comes back.
\<close>
theorem xorshift_permutes: "bij_betw xorshift (UNIV - {0}) (UNIV - {0})"
proof -
  have zero: "xorshift 0 = 0" by (simp add: xorshift_def)
  have inj: "inj_on xorshift (UNIV - {0})" using xorshift_inj by (rule inj_on_subset) simp
  moreover have sub: "xorshift ` (UNIV - {0}) \<subseteq> UNIV - {0}"
  proof (rule image_subsetI)
    fix x :: u32 assume "x \<in> UNIV - {0}"
    then have "xorshift x \<noteq> xorshift 0" using injD [OF xorshift_inj, of x 0] by blast
    then show "xorshift x \<in> UNIV - {0}" by (simp add: zero)
  qed
  moreover have "xorshift ` (UNIV - {0}) = UNIV - {0}" by (rule endo_inj_surj [OF finite sub inj])
  ultimately show ?thesis by (simp only: bij_betw_def)
qed

section \<open>Witnesses\<close>

text \<open>Emulators without a state, and mono streams of a thousand samples.\<close>

definition simple_codecs :: "(unit, nat) codecs" where
  "simple_codecs =
     \<lparr>gme_open_data = (\<lambda>_. (None, Some ())), gme_track_count = (\<lambda>_. 1), gme_start_track = (\<lambda>e _. (None, e)),
      gme_track_info = (\<lambda>_ _. None), gme_play = (\<lambda>e n. (None, replicate n 5, e)), gme_track_ended = (\<lambda>_. False),
      gme_tell = (\<lambda>_. 0), ov_open = (\<lambda>_. Some 1000), ov_info = (\<lambda>_. Some (44100, 1)), ov_total_ms = (\<lambda>_. 22),
      ov_comment = (\<lambda>_ _. None),
      ov_read = (\<lambda>v n. if v = 0 then (Stream_end, 0) else (Decoded (replicate (min v n) 3), v - min v n)),
      ov_rewind = (\<lambda>_. (True, 1000)), ov_tell_ms = (\<lambda>_. 0)\<rparr>"

lemma simple_codecs_laws: "stream_laws simple_codecs"
  by (auto simp: stream_laws_def simple_codecs_def)

lemma simple_codecs_short: "short_tracks simple_codecs"
  unfolding short_tracks_def simple_codecs_def by (intro conjI allI impI) simp_all

definition two_files :: "(unit, nat) player" where
  "two_files = created_player [''/m/b'', ''/m/a''] 7"

lemma two_files_ok: "player_ok simple_codecs two_files"
  by (simp add: two_files_def created_player_def player_ok_def)

lemma two_files_fields [simp]: "pl_files two_files = [''/m/b'', ''/m/a'']" "file_index two_files = 0"
  by (simp_all add: two_files_def created_player_def)

lemma two_files_playable:
  "\<not> playable simple_codecs music_world ''/m/b''" "playable simple_codecs music_world ''/m/a''"
  by (simp_all add: playable_def file_content_def music_world_def music_bytes_def kMaximumFileSize_def opens_def
      simple_codecs_def lower_extension_def rfind_char_def)

theorem player_invariant_witness: "player_ok simple_codecs (toggle_pause two_files)"
  unfolding two_files_def
  by (rule player_invariant [OF simple_codecs_laws]) (intro player_reachable.pause player_reachable.created)


theorem change_file_exact_witness:
  "\<exists>p' w'. change_file simple_codecs 1 two_files music_world = (True, p', w') \<and> file_index p' = 1"
proof -
  obtain ok p' w' where step: "change_file simple_codecs 1 two_files music_world = (ok, p', w')" by (metis prod_cases3)
  have "schedule music_world = []" by (simp add: music_world_def)
  from change_file_exact [OF music_world_wf this two_files_ok step] show ?thesis
    using step two_files_playable by (cases ok) auto
qed

theorem shuffle_never_repeats_witness:
  "\<exists>ok p' w'. change_random_file simple_codecs two_files music_world = (ok, p', w') \<and> file_index p' \<noteq> 0"
proof -
  obtain ok p' w' where step: "change_random_file simple_codecs two_files music_world = (ok, p', w')" by (metis prod_cases3)
  have "schedule music_world = []" by (simp add: music_world_def)
  from shuffle_never_repeats [OF music_world_wf this two_files_ok step, of 1] show ?thesis
    using step two_files_playable by auto
qed

end
