(* ===== verification/Chiptune_Tick.thy ===== *)
theory Chiptune_Tick
  imports Chiptune_Playing
begin

section \<open>A tick of a stream carries its samples without a gap\<close>

text \<open>
  What a stream still delivers and all it delivers are lists of frames, with the laws the decoder
  documents: a read delivers a nonempty piece of the rest, the end of the stream is an empty rest,
  rewinding makes the whole the rest.
\<close>

definition widened :: "nat \<Rightarrow> sample list \<Rightarrow> sample list" where
  "widened channels out = (if channels = 1 then concat (map (\<lambda>s. [s, s]) out) else out)"

definition pcm_laws ::
  "('e, 'v) codecs \<Rightarrow> nat \<Rightarrow> ('v \<Rightarrow> (sample \<times> sample) list) \<Rightarrow> ('v \<Rightarrow> (sample \<times> sample) list) \<Rightarrow> bool" where
  "pcm_laws libs channels rest whole =
     (\<forall>v. (\<exists>v'. ov_rewind libs v = (True, v') \<and> rest v' = whole v \<and> whole v' = whole v) \<and>
       (\<forall>n > 0.
         if rest v = [] then (\<exists>v'. ov_read libs v n = (Stream_end, v') \<and> rest v' = [] \<and> whole v' = whole v)
         else (\<exists>out m v'. ov_read libs v n = (Decoded out, v') \<and> 0 < m \<and> m \<le> n \<and> m \<le> length (rest v) \<and>
                 length out = m * channels \<and> stereo_frames (widened channels out) = take m (rest v) \<and>
                 rest v' = drop m (rest v) \<and> whole v' = whole v)))"

lemma pcm_read:
  "pcm_laws libs channels rest whole \<Longrightarrow> 0 < n \<Longrightarrow> rest v \<noteq> [] \<Longrightarrow>
     \<exists>out m v'. ov_read libs v n = (Decoded out, v') \<and> 0 < m \<and> m \<le> n \<and> m \<le> length (rest v) \<and>
       length out = m * channels \<and> stereo_frames (widened channels out) = take m (rest v) \<and>
       rest v' = drop m (rest v) \<and> whole v' = whole v"
  by (simp add: pcm_laws_def)

lemma pcm_end:
  "pcm_laws libs channels rest whole \<Longrightarrow> 0 < n \<Longrightarrow> rest v = [] \<Longrightarrow>
     \<exists>v'. ov_read libs v n = (Stream_end, v') \<and> rest v' = [] \<and> whole v' = whole v"
  by (simp add: pcm_laws_def)

lemma pcm_rewind:
  "pcm_laws libs channels rest whole \<Longrightarrow> \<exists>v'. ov_rewind libs v = (True, v') \<and> rest v' = whole v \<and> whole v' = whole v"
  by (simp add: pcm_laws_def)

lemma stereo_frames_append: "even (length xs) \<Longrightarrow> stereo_frames (xs @ ys) = stereo_frames xs @ stereo_frames ys"
  by (induction xs rule: stereo_frames.induct) auto

lemma length_stereo_frames: "length (stereo_frames xs) = length xs div 2"
  by (induction xs rule: stereo_frames.induct) auto

lemma stereo_frames_take: "stereo_frames (take (2 * n) xs) = take n (stereo_frames xs)"
proof (induction xs arbitrary: n rule: stereo_frames.induct)
  case (1 left right rest)
  then show ?case by (cases n) simp_all
qed (simp_all split: nat.split add: take_Cons')

lemma stereo_frames_drop: "stereo_frames (drop (2 * n) xs) = drop n (stereo_frames xs)"
proof (induction xs arbitrary: n rule: stereo_frames.induct)
  case (1 left right rest)
  then show ?case by (cases n) simp_all
qed (simp_all split: nat.split add: drop_Cons')

lemma stereo_frames_silence: "stereo_frames (replicate (n * 2) s) = replicate n (s, s)"
  by (induction n) simp_all

lemma length_widened: "channels \<in> {1, 2} \<Longrightarrow> length out = m * channels \<Longrightarrow> length (widened channels out) = 2 * m"
proof -
  have "length (concat (map (\<lambda>s. [s, s]) out)) = 2 * length out" by (induction out) auto
  then show "channels \<in> {1, 2} \<Longrightarrow> length out = m * channels \<Longrightarrow> length (widened channels out) = 2 * m"
    by (auto simp: widened_def)
qed

lemma stereo_frames_store_pcm:
  assumes "channels \<in> {1, 2}" "length out = m * channels" "2 * (frames + m) \<le> length samples"
  shows "stereo_frames (store_pcm channels frames out samples) =
    take frames (stereo_frames samples) @ stereo_frames (widened channels out) @ drop (frames + m) (stereo_frames samples)"
proof -
  note len = length_widened [OF assms(1,2)]
  have "store_pcm channels frames out samples =
      take (2 * frames) samples @ widened channels out @ drop (2 * (frames + m)) samples"
    using len by (simp add: store_pcm_def widened_def blit_def mult.commute distrib_left)
  moreover have "even (length (take (2 * frames) samples))" "even (length (widened channels out))"
    using assms(3) len by simp_all
  ultimately show ?thesis
    by (simp only: stereo_frames_append stereo_frames_take stereo_frames_drop)
qed

text \<open>
  The loop: with \<open>sofar\<close> in the buffer it goes on with the rest of the stream, and in Loop One, if
  it has not been rewound yet, with the whole of it.
\<close>

lemma vorbis_fill_exact:
  assumes laws: "pcm_laws libs channels rest whole" and channels: "channels \<in> {1, 2}"
    and "stereo_frames samples = sofar @ replicate (kFramesPerTick - length sofar) (0, 0)"
    "length samples = 2 * kFramesPerTick" "length sofar \<le> kFramesPerTick"
    "avail = rest v @ (if loop_one \<and> \<not> rewound then whole v else [])"
  shows "\<exists>stop samples' v'. vorbis_fill libs loop_one channels v samples (length sofar) rewound = Some (stop, samples', v') \<and>
    whole v' = whole v \<and>
    (if kFramesPerTick \<le> length sofar + length avail
     then stop = Filled \<and> stereo_frames samples' = take kFramesPerTick (sofar @ avail) \<and>
       rest v' = (if kFramesPerTick \<le> length sofar + length (rest v) then drop (kFramesPerTick - length sofar) (rest v)
                  else drop (kFramesPerTick - length sofar - length (rest v)) (whole v))
     else if loop_one then stop = Failed ''Ogg Vorbis stream contains no audio''
     else stop = Ended \<and> rest v' = [] \<and>
       stereo_frames samples' = (sofar @ avail) @ replicate (kFramesPerTick - length (sofar @ avail)) (0, 0))"
  using assms(3-)
proof (induction "2 * (kFramesPerTick - length sofar) + (if rewound then 0 else 1)"
    arbitrary: v samples sofar rewound avail rule: less_induct)
  case less
  show ?case
  proof (cases "length sofar < kFramesPerTick")
    case False
    then show ?thesis using less.prems by (simp add: vorbis_fill_full)
  next
    case True
    then have n: "0 < kFramesPerTick - length sofar" by simp
    show ?thesis
    proof (cases "rest v = []")
      case False
      obtain out m v1 where rd: "ov_read libs v (kFramesPerTick - length sofar) = (Decoded out, v1)" "0 < m"
        "m \<le> kFramesPerTick - length sofar" "m \<le> length (rest v)" "length out = m * channels"
        "stereo_frames (widened channels out) = take m (rest v)" "rest v1 = drop m (rest v)" "whole v1 = whole v"
        using pcm_read [OF laws n False] by blast
      let ?samples = "store_pcm channels (length sofar) out samples" and ?sofar = "sofar @ take m (rest v)"
      have div: "length out div channels = m" using rd(5) channels by auto
      have space: "2 * (length sofar + m) \<le> length samples" using rd(3) less.prems(2) True by simp
      have len: "length ?sofar = length sofar + m" using rd(4) by simp
      have parts: "kFramesPerTick - (length sofar + m) + m = kFramesPerTick - length sofar" using rd(3) by linarith
      have "stereo_frames ?samples = ?sofar @ replicate (kFramesPerTick - length ?sofar) (0, 0)"
        using stereo_frames_store_pcm [OF channels rd(5) space] rd(4,6) less.prems(1) by simp
      moreover have "length ?samples = 2 * kFramesPerTick"
        using length_store_pcm [OF channels, of out "length sofar" samples] rd(5) div space less.prems(2) by simp
      moreover have "2 * (kFramesPerTick - length ?sofar) + (if rewound then 0 else 1) <
          2 * (kFramesPerTick - length sofar) + (if rewound then 0 else 1)" using rd(2,3) len True by auto
      ultimately have "\<exists>stop samples' v'. vorbis_fill libs loop_one channels v1 ?samples (length ?sofar) rewound =
          Some (stop, samples', v') \<and> whole v' = whole v1 \<and>
        (if kFramesPerTick \<le> length ?sofar + length (rest v1 @ (if loop_one \<and> \<not> rewound then whole v1 else []))
         then stop = Filled \<and>
           stereo_frames samples' = take kFramesPerTick (?sofar @ rest v1 @ (if loop_one \<and> \<not> rewound then whole v1 else [])) \<and>
           rest v' = (if kFramesPerTick \<le> length ?sofar + length (rest v1) then drop (kFramesPerTick - length ?sofar) (rest v1)
                      else drop (kFramesPerTick - length ?sofar - length (rest v1)) (whole v1))
         else if loop_one then stop = Failed ''Ogg Vorbis stream contains no audio''
         else stop = Ended \<and> rest v' = [] \<and>
           stereo_frames samples' = (?sofar @ rest v1 @ (if loop_one \<and> \<not> rewound then whole v1 else [])) @
             replicate (kFramesPerTick - length (?sofar @ rest v1 @ (if loop_one \<and> \<not> rewound then whole v1 else []))) (0, 0))"
        by (intro less.hyps [OF _ _ _ _ refl]) (use rd(3) len in auto)
      moreover have "vorbis_fill libs loop_one channels v samples (length sofar) rewound =
          vorbis_fill libs loop_one channels v1 ?samples (length ?sofar) rewound"
        using vorbis_fill_step [OF True rd(1), of loop_one channels samples rewound] rd(3,5) div len by simp
      moreover have "length ?sofar + length (rest v1) = length sofar + length (rest v)" using rd(4,7) by simp
      moreover have "?sofar @ rest v1 @ (if loop_one \<and> \<not> rewound then whole v1 else []) = sofar @ avail"
        using rd(7,8) less.prems(4) by simp
      moreover have "length ?sofar + length (rest v1 @ (if loop_one \<and> \<not> rewound then whole v1 else [])) = length sofar + length avail"
        using rd(4,7,8) less.prems(4) by simp
      moreover have "drop (kFramesPerTick - length ?sofar) (rest v1) = drop (kFramesPerTick - length sofar) (rest v)"
        "kFramesPerTick - length ?sofar - length (rest v1) = kFramesPerTick - length sofar - length (rest v)"
        using rd(3,4,7) len parts by simp_all
      ultimately show ?thesis using rd(8) by (simp only:)
    next
      case ended: True
      obtain v1 where rd: "ov_read libs v (kFramesPerTick - length sofar) = (Stream_end, v1)" "rest v1 = []" "whole v1 = whole v"
        using pcm_end [OF laws n ended] by blast
      obtain v2 where rw: "ov_rewind libs v1 = (True, v2)" "rest v2 = whole v" "whole v2 = whole v"
        using pcm_rewind [OF laws, of v1] rd(3) by auto
      note step = vorbis_fill_step [OF True rd(1), of loop_one channels samples rewound]
      show ?thesis
      proof (cases "loop_one \<and> \<not> rewound")
        case again: True
        have "\<exists>stop samples' v'. vorbis_fill libs loop_one channels v2 samples (length sofar) True =
          Some (stop, samples', v') \<and> whole v' = whole v2 \<and>
        (if kFramesPerTick \<le> length sofar + length (whole v)
         then stop = Filled \<and>
           stereo_frames samples' = take kFramesPerTick (sofar @ whole v) \<and>
           rest v' = (if kFramesPerTick \<le> length sofar + length (rest v2) then drop (kFramesPerTick - length sofar) (rest v2)
                      else drop (kFramesPerTick - length sofar - length (rest v2)) (whole v2))
         else if loop_one then stop = Failed ''Ogg Vorbis stream contains no audio''
         else stop = Ended \<and> rest v' = [] \<and>
           stereo_frames samples' = (sofar @ whole v) @ replicate (kFramesPerTick - length (sofar @ whole v)) (0, 0))"
          by (rule less.hyps) (use again less.prems rw(2,3) in auto)
        then show ?thesis using step again rw ended True less.prems(4)
          by (cases "kFramesPerTick \<le> length sofar + length (whole v)") simp_all
      next
        case False
        then show ?thesis using step rd ended True less.prems by (cases loop_one) auto
      qed
    qed
  qed
qed

section \<open>Loop One\<close>

fun looping :: "('e, 'v) codecs \<Rightarrow> nat \<Rightarrow> ('e, 'v) player \<Rightarrow> bool" where
  "looping libs channels p =
     (backend p = BackendVorbis \<and> \<not> paused p \<and> playback_mode p = PlaybackLoopOne \<and> vorbis_channels p = channels)"





text \<open>A file shorter than what the tick needs is reported as one without audio.\<close>

lemma loop_one_short_file:
  assumes laws: "pcm_laws libs channels rest whole" and channels: "channels \<in> {1, 2}"
    and p: "looping libs channels p" "pl_vorbis p = Some v"
    and short: "length (rest v) + length (whole v) < kFramesPerTick"
  shows "\<exists>p'. generate libs p audio w = Some (False, p', audio, w) \<and>
    error_text p' = Msg ''Ogg Vorbis stream contains no audio''"
proof -
  have "stereo_frames (replicate (kFramesPerTick * 2) 0) = [] @ replicate (kFramesPerTick - length []) (0, 0 :: sample)"
    by (simp add: stereo_frames_silence)
  from vorbis_fill_exact [where loop_one = True and rewound = False and v = v, OF laws channels this _ _ refl] short
  obtain samples v' where "vorbis_fill libs True channels v (replicate (kFramesPerTick * 2) 0) 0 False =
      Some (Failed ''Ogg Vorbis stream contains no audio'', samples, v')"
    by (auto simp: mult.commute)
  then show ?thesis using p by (simp add: generate_def generate_vorbis_def)
qed

text \<open>
  In the other modes the last tick of a file carries exactly the rest of its samples and then
  silence, and nothing of it is lost before the next file starts.
\<close>
theorem last_tick_exact:
  assumes "pcm_laws libs channels rest whole" "channels \<in> {1, 2}" "backend p = BackendVorbis" "\<not> paused p"
    "vorbis_channels p = channels" "playback_mode p \<noteq> PlaybackLoopOne" "pl_vorbis p = Some v"
    "length (rest v) < kFramesPerTick" "plain_audio audio"
  shows "\<exists>p1 audio'. write_out (visual p1) audio = Some audio' \<and>
    stereo_frames (visual p1) = rest v @ replicate (kFramesPerTick - length (rest v)) (0, 0) \<and>
    generate libs p audio w = (case advance_after_end libs p1 w of (ok, p2, w2) \<Rightarrow> Some (ok, p2, audio', w2))"
proof -
  have "stereo_frames (replicate (kFramesPerTick * 2) 0) = [] @ replicate (kFramesPerTick - length []) (0, 0 :: sample)"
    by (simp add: stereo_frames_silence)
  from vorbis_fill_exact [where loop_one = False and rewound = False and v = v, OF assms(1,2) this _ _ refl] assms(8)
  obtain samples v' where fill: "vorbis_fill libs False channels v (replicate (kFramesPerTick * 2) 0) 0 False = Some (Ended, samples, v')"
    "stereo_frames samples = rest v @ replicate (kFramesPerTick - length (rest v)) (0, 0)"
    by (auto simp: mult.commute)
  obtain audio' where audio': "write_out samples audio = Some audio'" using write_out_defined [OF assms(9)] by blast
  let ?p = "p\<lparr>pl_vorbis := Some v', visual := samples\<rparr>"
  have "generate libs p audio w = (case advance_after_end libs ?p w of (ok, p2, w2) \<Rightarrow> Some (ok, p2, audio', w2))"
    using assms(3-7) fill(1) audio' by (simp add: generate_def generate_vorbis_def Let_def split: prod.split)
  then show ?thesis using fill(2) audio' by (intro exI [of _ ?p] exI [of _ audio']) simp
qed

section \<open>Witnesses\<close>

lemma widened_mono: "stereo_frames (widened (Suc 0) (replicate m s)) = replicate m (s, s)"
  by (simp add: widened_def) (induction m, simp_all)

lemma simple_codecs_pcm:
  "pcm_laws simple_codecs 1 (\<lambda>v. replicate v (3, 3)) (\<lambda>_. replicate 1000 (3, 3))"
  unfolding pcm_laws_def
proof (intro allI conjI impI)
  fix v n :: nat assume n: "0 < n"
  show "if replicate v (3, 3) = ([] :: (sample \<times> sample) list)
    then \<exists>v'. ov_read simple_codecs v n = (Stream_end, v') \<and> replicate v' (3, 3) = ([] :: (sample \<times> sample) list) \<and>
      replicate 1000 (3, 3) = (replicate 1000 (3, 3) :: (sample \<times> sample) list)
    else \<exists>out m v'. ov_read simple_codecs v n = (Decoded out, v') \<and> 0 < m \<and> m \<le> n \<and>
      m \<le> length (replicate v (3, 3) :: (sample \<times> sample) list) \<and> length out = m * 1 \<and>
      stereo_frames (widened 1 out) = take m (replicate v (3, 3)) \<and>
      replicate v' (3, 3) = (drop m (replicate v (3, 3)) :: (sample \<times> sample) list) \<and>
      replicate 1000 (3, 3) = (replicate 1000 (3, 3) :: (sample \<times> sample) list)"
    using n by (cases "v = 0") (auto simp: simple_codecs_def widened_mono)
qed (simp add: simple_codecs_def)

definition song_player :: "PlaybackMode \<Rightarrow> (unit, nat) player" where
  "song_player mode =
     (created_player [''/m/a''] 7)\<lparr>backend := BackendVorbis, pl_vorbis := Some 400, vorbis_channels := 1, track_count := 1,
       playback_mode := mode\<rparr>"


theorem last_tick_exact_witness:
  "\<exists>p1 audio'. stereo_frames (visual p1) = replicate 400 (3, 3) @ replicate 335 (0, 0) \<and>
     generate simple_codecs (song_player PlaybackLoopAll) None music_world =
       (case advance_after_end simple_codecs p1 music_world of (ok, p2, w2) \<Rightarrow> Some (ok, p2, audio', w2))"
proof -
  let ?p = "song_player PlaybackLoopAll"
  have "backend ?p = BackendVorbis" "\<not> paused ?p" "vorbis_channels ?p = 1" "playback_mode ?p \<noteq> PlaybackLoopOne"
    "pl_vorbis ?p = Some 400" "length (replicate 400 (3 :: sample, 3 :: sample)) < kFramesPerTick" "plain_audio None"
    by (simp_all add: song_player_def created_player_def kFramesPerTick_def plain_audio_def)
  from last_tick_exact [OF simple_codecs_pcm _ this, of music_world] show ?thesis
    by (auto simp: kFramesPerTick_def)
qed

end
