(* ===== verification/Chiptune_Input.thy ===== *)
theory Chiptune_Input
  imports Ten_Seconds Deck_Audio "HOL-Library.Multiset"
begin

section \<open>Input of the chiptune player (\<open>src/chiptune_deck.cpp\<close>)\<close>

text \<open>
  Gamepads and the touchscreen, read without blocking into a set of commands.  The events of one
  \<open>read\<close> come with the answers a resynchronisation at each of them would get; keys that are held
  are a list of codes.  Every descriptor that is closed is recorded.
\<close>

subsection \<open>Commands and buttons\<close>

definition ControlBack :: u32 where "ControlBack = push_bit 0 1"
definition ControlPreviousFile :: u32 where "ControlPreviousFile = push_bit 1 1"
definition ControlNextFile :: u32 where "ControlNextFile = push_bit 2 1"
definition ControlTogglePause :: u32 where "ControlTogglePause = push_bit 3 1"
definition ControlPreviousTrack :: u32 where "ControlPreviousTrack = push_bit 4 1"
definition ControlNextTrack :: u32 where "ControlNextTrack = push_bit 5 1"
definition ControlVolumeDown :: u32 where "ControlVolumeDown = push_bit 6 1"
definition ControlVolumeUp :: u32 where "ControlVolumeUp = push_bit 7 1"
definition ControlCyclePlaybackMode :: u32 where "ControlCyclePlaybackMode = push_bit 8 1"

lemmas control_defs = ControlBack_def ControlPreviousFile_def ControlNextFile_def ControlTogglePause_def
  ControlPreviousTrack_def ControlNextTrack_def ControlVolumeDown_def ControlVolumeUp_def ControlCyclePlaybackMode_def

definition kCloseButton :: Rect where "kCloseButton = Rect 554 3 62 34"
definition kPlaybackModeButton :: Rect where "kPlaybackModeButton = Rect 113 177 92 34"
definition kPreviousFileButton :: Rect where "kPreviousFileButton = Rect 215 177 92 34"
definition kPauseButton :: Rect where "kPauseButton = Rect 317 177 92 34"
definition kNextFileButton :: Rect where "kNextFileButton = Rect 419 177 92 34"

definition kCanvasOffset :: int where "kCanvasOffset = 16"
definition kCanvasScale :: int where "kCanvasScale = 2"

definition BTN_TRIGGER :: nat where "BTN_TRIGGER = 0x120"
definition BTN_BASE2 :: nat where "BTN_BASE2 = 0x127"

definition axis_buttons :: "int \<Rightarrow> absinfo \<Rightarrow> u32 \<Rightarrow> u32 \<Rightarrow> u32" where
  "axis_buttons value info negative positive =
     (if abs_maximum info \<le> abs_minimum info then 0
      else
        (let span = abs_maximum info - abs_minimum info
         in if value \<le> abs_minimum info + span div 3 then negative
            else if value \<ge> abs_maximum info - span div 3 then positive
            else 0))"

definition gamepad_key :: "nat \<Rightarrow> u32" where
  "gamepad_key code =
     (if code = BTN_THUMB2 \<or> code = 0x123 then ControlTogglePause
      else if code = 0x121 \<or> code = BTN_TRIGGER then ControlBack
      else if code = 0x124 then ControlPreviousTrack
      else if code = 0x125 then ControlNextTrack
      else if code = BTN_BASE2 then ControlCyclePlaybackMode
      else 0)"

subsection \<open>Gamepads\<close>

record player_pad =
  pp_fd :: int
  pp_x_info :: absinfo
  pp_y_info :: absinfo
  pp_x :: int
  pp_y :: int
  pp_raw_buttons :: u32
  pp_state :: u32
  pp_dropping :: bool

definition no_absinfo :: absinfo where
  "no_absinfo = \<lparr>abs_value = 0, abs_minimum = 0, abs_maximum = 0\<rparr>"

definition created_pad :: player_pad where
  "created_pad = \<lparr>pp_fd = - 1, pp_x_info = no_absinfo, pp_y_info = no_absinfo, pp_x = 0, pp_y = 0, pp_raw_buttons = 0,
     pp_state = 0, pp_dropping = False\<rparr>"

definition gamepad_state :: "player_pad \<Rightarrow> u32" where
  "gamepad_state d =
     foldl (\<lambda>state index. if pp_raw_buttons d AND push_bit index 1 \<noteq> 0 then state OR gamepad_key (BTN_TRIGGER + index) else state)
       0 [0..<8]
     OR axis_buttons (pp_x d) (pp_x_info d) ControlPreviousFile ControlNextFile
     OR axis_buttons (pp_y d) (pp_y_info d) ControlVolumeUp ControlVolumeDown"

record pad_answers =
  pa_x :: "absinfo option"
  pa_y :: "absinfo option"
  pa_keys :: "nat list option"

definition pad_buttons :: "nat list \<Rightarrow> u32" where
  "pad_buttons codes =
     foldl (\<lambda>raw index. if BTN_TRIGGER + index \<in> set codes then raw OR push_bit index 1 else raw) 0 [0..<8]"

definition resynchronize :: "pad_answers \<Rightarrow> player_pad \<Rightarrow> bool \<times> player_pad" where
  "resynchronize a d =
     (if pp_fd d < 0 then (False, d)
      else case pa_x a of
        None \<Rightarrow> (False, d)
      | Some x \<Rightarrow>
          (case pa_y a of
             None \<Rightarrow> (False, d\<lparr>pp_x_info := x\<rparr>)
           | Some y \<Rightarrow>
               (case pa_keys a of
                  None \<Rightarrow> (False, d\<lparr>pp_x_info := x, pp_y_info := y\<rparr>)
                | Some codes \<Rightarrow>
                    (let d1 = d\<lparr>pp_x_info := x, pp_y_info := y, pp_x := abs_value x, pp_y := abs_value y,
                                pp_raw_buttons := pad_buttons codes\<rparr>
                     in (True, d1\<lparr>pp_state := gamepad_state d1, pp_dropping := False\<rparr>)))))"

text \<open>The device after an event, and the commands the event adds.\<close>

definition pad_event :: "pad_answers \<Rightarrow> input_event \<Rightarrow> player_pad \<Rightarrow> player_pad \<times> u32" where
  "pad_event a e d =
     (if pp_dropping d
      then (if ev_type e = EV_SYN \<and> ev_code e = SYN_REPORT then snd (resynchronize a d) else d, 0)
      else if ev_type e = EV_SYN \<and> ev_code e = SYN_DROPPED then (d\<lparr>pp_dropping := True\<rparr>, 0)
      else if ev_type e = EV_KEY \<and> ev_code e \<ge> BTN_TRIGGER \<and> ev_code e \<le> BTN_BASE2
      then (let bit = push_bit (ev_code e - BTN_TRIGGER) 1
            in (d\<lparr>pp_raw_buttons := (if ev_value e \<noteq> 0 then pp_raw_buttons d OR bit else pp_raw_buttons d AND NOT bit)\<rparr>, 0))
      else if ev_type e = EV_ABS \<and> ev_code e = ABS_X then (d\<lparr>pp_x := ev_value e\<rparr>, 0)
      else if ev_type e = EV_ABS \<and> ev_code e = ABS_Y then (d\<lparr>pp_y := ev_value e\<rparr>, 0)
      else if ev_type e = EV_SYN \<and> ev_code e = SYN_REPORT
      then (d\<lparr>pp_state := gamepad_state d\<rparr>, gamepad_state d AND NOT (pp_state d))
      else (d, 0))"

fun pad_events :: "(pad_answers \<times> input_event) list \<Rightarrow> player_pad \<times> u32 \<Rightarrow> player_pad \<times> u32" where
  "pad_events [] dc = dc"
| "pad_events ((a, e) # es) (d, commands) = (let (d', added) = pad_event a e d in pad_events es (d', commands OR added))"

fun drain_gamepad :: "(pad_answers \<times> input_event) read_result list \<Rightarrow> player_pad \<times> u32 \<Rightarrow> player_pad \<times> u32" where
  "drain_gamepad [] dc = dc"
| "drain_gamepad (Interrupted # rs) dc = (if pp_fd (fst dc) < 0 then dc else drain_gamepad rs dc)"
| "drain_gamepad (Data es # rs) dc =
     (if pp_fd (fst dc) < 0 \<or> es = [] then dc else drain_gamepad rs (pad_events es dc))"
| "drain_gamepad (Would_block # rs) dc = dc"
| "drain_gamepad (Read_failed # rs) dc = dc"
| "drain_gamepad (Partial_event # rs) dc = dc"

subsection \<open>Touch\<close>

record PlayerInput =
  in_touch_fd :: int
  in_touch_x :: int
  in_touch_y :: int
  in_touch_down :: bool
  in_touch_reported :: bool
  in_touch_dropping :: bool
  in_touch_grabbed :: bool
  in_gamepads :: "player_pad list"

definition created_input :: PlayerInput where
  "created_input = \<lparr>in_touch_fd = - 1, in_touch_x = 0, in_touch_y = 0, in_touch_down = False, in_touch_reported = False,
     in_touch_dropping = False, in_touch_grabbed = False, in_gamepads = []\<rparr>"

definition touch_command :: "int \<Rightarrow> int \<Rightarrow> u32" where
  "touch_command touched_x touched_y =
     (let x = (touched_x - kCanvasOffset) sdiv kCanvasScale;
          y = (touched_y - kCanvasOffset) sdiv kCanvasScale
      in if rect_contains kCloseButton x y then ControlBack
         else if rect_contains kPreviousFileButton x y then ControlPreviousFile
         else if rect_contains kPauseButton x y then ControlTogglePause
         else if rect_contains kNextFileButton x y then ControlNextFile
         else if rect_contains kPlaybackModeButton x y then ControlCyclePlaybackMode
         else 0)"

definition player_touch_event :: "input_event \<Rightarrow> PlayerInput \<times> u32 \<Rightarrow> PlayerInput \<times> u32" where
  "player_touch_event e ic =
     (let (i, commands) = ic
      in if ev_type e = EV_SYN \<and> ev_code e = SYN_DROPPED then (i\<lparr>in_touch_dropping := True\<rparr>, commands)
         else if in_touch_dropping i
         then (if ev_type e = EV_SYN \<and> ev_code e = SYN_REPORT
               then (i\<lparr>in_touch_dropping := False, in_touch_reported := in_touch_down i\<rparr>, commands) else (i, commands))
         else if ev_type e = EV_ABS \<and> ev_code e = ABS_X then (i\<lparr>in_touch_x := clamp_x (ev_value e)\<rparr>, commands)
         else if ev_type e = EV_ABS \<and> ev_code e = ABS_Y then (i\<lparr>in_touch_y := clamp_y (ev_value e)\<rparr>, commands)
         else if ev_type e = EV_KEY \<and> ev_code e = BTN_TOUCH then (i\<lparr>in_touch_down := (ev_value e \<noteq> 0)\<rparr>, commands)
         else if ev_type e = EV_SYN \<and> ev_code e = SYN_REPORT
         then (i\<lparr>in_touch_reported := in_touch_down i\<rparr>,
               if in_touch_down i \<and> \<not> in_touch_reported i
               then commands OR touch_command (in_touch_x i) (in_touch_y i) else commands)
         else (i, commands))"

fun drain_touch :: "input_event read_result list \<Rightarrow> PlayerInput \<times> u32 \<Rightarrow> PlayerInput \<times> u32" where
  "drain_touch [] ic = ic"
| "drain_touch (Interrupted # rs) ic = drain_touch rs ic"
| "drain_touch (Data es # rs) ic = (if es = [] then ic else drain_touch rs (foldl (\<lambda>ic e. player_touch_event e ic) ic es))"
| "drain_touch (Would_block # rs) ic = ic"
| "drain_touch (Read_failed # rs) ic = ic"
| "drain_touch (Partial_event # rs) ic = ic"

subsection \<open>Finding and closing the devices\<close>

definition close_devices :: "PlayerInput \<Rightarrow> PlayerInput \<times> int list" where
  "close_devices i =
     (i\<lparr>in_touch_fd := - 1, in_touch_grabbed := False, in_gamepads := []\<rparr>,
      (if in_touch_fd i \<ge> 0 then [in_touch_fd i] else []) @ filter (\<lambda>fd. fd \<ge> 0) (map pp_fd (in_gamepads i)))"

text \<open>Any name that goes on after \<open>event\<close>, in the order of the paths.\<close>

definition player_event_entries :: "input_entry list \<Rightarrow> input_entry list" where
  "player_event_entries entries =
     sort_key (\<lambda>e. ''/dev/input/'' @ ie_name e)
       (filter (\<lambda>e. length (ie_name e) > 5 \<and> take 5 (ie_name e) = ''event'') entries)"

definition new_pad :: "input_entry \<Rightarrow> player_pad option" where
  "new_pad e =
     (case resynchronize \<lparr>pa_x = ie_x e, pa_y = ie_y e, pa_keys = ie_keys e\<rparr> (created_pad\<lparr>pp_fd := ie_fd e\<rparr>) of
        (True, d) \<Rightarrow> Some d
      | (False, _) \<Rightarrow> None)"

definition discover_entry :: "input_entry \<Rightarrow> PlayerInput \<times> int list \<Rightarrow> PlayerInput \<times> int list" where
  "discover_entry e ic =
     (let (i, closed) = ic
      in if ie_fd e < 0 then (i, closed)
         else if in_touch_fd i < 0 \<and> contains_text (case ie_device_name e of Some s \<Rightarrow> s | None \<Rightarrow> []) ''Goodix Capacitive TouchScreen'' \<and>
                 ie_x e \<noteq> None \<and> ie_y e \<noteq> None
         then (i\<lparr>in_touch_fd := ie_fd e, in_touch_x := abs_value (the (ie_x e)), in_touch_y := abs_value (the (ie_y e)),
                 in_touch_grabbed := ie_grab_ok e\<rparr>, closed)
         else
           (case (if ie_id e = Some (0x1c59, 0x0026) \<and> length (in_gamepads i) < 2 then new_pad e else None) of
              Some d \<Rightarrow> (i\<lparr>in_gamepads := in_gamepads i @ [d]\<rparr>, closed)
            | None \<Rightarrow> (i, closed @ [ie_fd e])))"

definition discover :: "input_entry list option \<Rightarrow> PlayerInput \<Rightarrow> PlayerInput \<times> int list" where
  "discover directory i0 =
     (let (i, closed) = close_devices i0
      in case directory of
           None \<Rightarrow> (i, closed)
         | Some entries \<Rightarrow> foldl (\<lambda>ic e. discover_entry e ic) (i, closed) (player_event_entries entries))"

text \<open>What the reads of one turn deliver: for the touchscreen and for each gamepad.\<close>

record turn_input =
  ti_touch :: "input_event read_result list"
  ti_pads :: "(pad_answers \<times> input_event) read_result list list"

fun drain_gamepads ::
  "(pad_answers \<times> input_event) read_result list list \<Rightarrow> player_pad list \<Rightarrow> u32 \<Rightarrow> player_pad list \<times> u32" where
  "drain_gamepads scripts [] commands = ([], commands)"
| "drain_gamepads scripts (d # ds) commands =
     (let (d', commands') = drain_gamepad (case scripts of [] \<Rightarrow> [] | script # _ \<Rightarrow> script) (d, commands);
          (ds', commands'') = drain_gamepads (tl scripts) ds commands'
      in (d' # ds', commands''))"

definition read_commands :: "turn_input \<Rightarrow> PlayerInput \<Rightarrow> u32 \<times> PlayerInput" where
  "read_commands t i =
     (let (i1, commands) = (if in_touch_fd i \<ge> 0 then drain_touch (ti_touch t) (i, 0) else (i, 0));
          (pads, commands') = drain_gamepads (ti_pads t) (in_gamepads i1) commands
      in (commands', i1\<lparr>in_gamepads := pads\<rparr>))"

section \<open>A command is a control that was not held before\<close>

text \<open>The state after each report of the events, in their order.\<close>

fun report_states :: "(pad_answers \<times> input_event) list \<Rightarrow> player_pad \<Rightarrow> u32 list" where
  "report_states [] d = []"
| "report_states ((a, e) # es) d =
     (let d' = fst (pad_event a e d)
      in (if ev_type e = EV_SYN \<and> ev_code e = SYN_REPORT then [pp_state d'] else []) @ report_states es d')"

fun newly_held :: "nat \<Rightarrow> u32 list \<Rightarrow> bool" where
  "newly_held b (s # t # ss) = ((\<not> bit s b \<and> bit t b) \<or> newly_held b (t # ss))"
| "newly_held b _ = False"

text \<open>Events of a device that loses none.\<close>

definition complete_events :: "(pad_answers \<times> input_event) list \<Rightarrow> bool" where
  "complete_events es = list_all (\<lambda>(a, e). \<not> (ev_type e = EV_SYN \<and> ev_code e = SYN_DROPPED)) es"

lemmas event_codes = SYN_REPORT_def SYN_DROPPED_def EV_SYN_def EV_KEY_def EV_ABS_def

lemma pad_event_complete:
  assumes "\<not> pp_dropping d" "\<not> (ev_type e = EV_SYN \<and> ev_code e = SYN_DROPPED)" "pad_event a e d = (d', added)"
  shows "\<not> pp_dropping d' \<and>
    (if ev_type e = EV_SYN \<and> ev_code e = SYN_REPORT then added = pp_state d' AND NOT (pp_state d)
     else added = 0 \<and> pp_state d' = pp_state d)"
proof (cases "ev_type e = EV_SYN")
  case True
  then show ?thesis using assms by (auto simp: pad_event_def event_codes split: if_splits)
next
  case False
  then show ?thesis using assms unfolding pad_event_def Let_def by (auto split: if_splits)
qed

lemma pad_events_commands:
  assumes "complete_events es" "\<not> pp_dropping d" "b < 32"
  shows "bit (snd (pad_events es (d, commands))) b = (bit commands b \<or> newly_held b (pp_state d # report_states es d))"
  using assms(1,2)
proof (induction es arbitrary: d commands)
  case (Cons ae es)
  obtain a e where ae: "ae = (a, e)" by fastforce
  obtain d' added where d': "pad_event a e d = (d', added)" by fastforce
  have "\<not> (ev_type e = EV_SYN \<and> ev_code e = SYN_DROPPED)" using Cons.prems(1) ae by (simp add: complete_events_def)
  from pad_event_complete [OF Cons.prems(2) this d']
  have step: "\<not> pp_dropping d'" "if ev_type e = EV_SYN \<and> ev_code e = SYN_REPORT then added = pp_state d' AND NOT (pp_state d)
     else added = 0 \<and> pp_state d' = pp_state d" by blast+
  have "bit (snd (pad_events es (d', commands OR added))) b =
      (bit commands b \<or> bit added b \<or> newly_held b (pp_state d' # report_states es d'))"
    using Cons.IH [of d' "commands OR added"] Cons.prems(1) step(1) ae by (simp add: complete_events_def bit_or_iff)
  then show ?case using step(2) d' ae assms(3) by (auto simp: bit_and_iff bit_not_iff split: if_splits)
qed simp

section \<open>What a gamepad's state means\<close>

lemma bit_one_at: "bit (push_bit k (1 :: u32)) n = (n = k \<and> k < 32)"
  unfolding bit_push_bit_iff bit_1_iff by auto

lemma bit_control:
  "bit ControlBack n = (n = 0)" "bit ControlPreviousFile n = (n = 1)" "bit ControlNextFile n = (n = 2)"
  "bit ControlTogglePause n = (n = 3)" "bit ControlPreviousTrack n = (n = 4)" "bit ControlNextTrack n = (n = 5)"
  "bit ControlVolumeDown n = (n = 6)" "bit ControlVolumeUp n = (n = 7)" "bit ControlCyclePlaybackMode n = (n = 8)"
  unfolding control_defs by (simp_all only: bit_one_at) simp_all

lemma bit_foldl_or: "bit (foldl (\<lambda>s i. if P i then s OR k i else s) (z :: u32) xs) b = (bit z b \<or> (\<exists>i \<in> set xs. P i \<and> bit (k i) b))"
  by (induction xs arbitrary: z) (auto simp: bit_or_iff)

lemma bit_gamepad_key: "bit (gamepad_key (BTN_TRIGGER + i)) b =
    ((b = 0 \<and> i \<in> {0, 1}) \<or> (b = 3 \<and> i \<in> {2, 3}) \<or> (b = 4 \<and> i = 4) \<or> (b = 5 \<and> i = 5) \<or> (b = 8 \<and> i = 7))"
  by (auto simp: gamepad_key_def BTN_TRIGGER_def BTN_THUMB2_def BTN_BASE2_def bit_control)

lemma pad_keys: "bit (foldl (\<lambda>state index. if raw AND push_bit index 1 \<noteq> 0 then state OR gamepad_key (BTN_TRIGGER + index) else state)
      0 [0..<8]) b =
    ((b = 0 \<and> (bit raw 0 \<or> bit raw 1)) \<or> (b = 3 \<and> (bit raw 2 \<or> bit raw 3)) \<or> (b = 4 \<and> bit raw 4) \<or>
     (b = 5 \<and> bit raw 5) \<or> (b = 8 \<and> bit raw 7))"
  unfolding bit_foldl_or bit_gamepad_key bit_iff_and_push_bit_not_eq_0 [symmetric] by auto

lemma bit_axis_buttons: "bit (axis_buttons v info n p) b =
    ((axis_buttons v info 1 2 = 1 \<and> bit n b) \<or> (axis_buttons v info 1 2 = 2 \<and> bit p b))"
  by (auto simp: axis_buttons_def Let_def)

lemma gamepad_state_bit:
  "bit (gamepad_state d) b =
    ((b = 0 \<and> (bit (pp_raw_buttons d) 0 \<or> bit (pp_raw_buttons d) 1)) \<or>
     (b = 3 \<and> (bit (pp_raw_buttons d) 2 \<or> bit (pp_raw_buttons d) 3)) \<or>
     (b = 4 \<and> bit (pp_raw_buttons d) 4) \<or> (b = 5 \<and> bit (pp_raw_buttons d) 5) \<or> (b = 8 \<and> bit (pp_raw_buttons d) 7) \<or>
     (b = 1 \<and> axis_buttons (pp_x d) (pp_x_info d) 1 2 = 1) \<or> (b = 2 \<and> axis_buttons (pp_x d) (pp_x_info d) 1 2 = 2) \<or>
     (b = 7 \<and> axis_buttons (pp_y d) (pp_y_info d) 1 2 = 1) \<or> (b = 6 \<and> axis_buttons (pp_y d) (pp_y_info d) 1 2 = 2))"
  unfolding gamepad_state_def bit_or_iff pad_keys bit_axis_buttons bit_control by blast

subsection \<open>What the events say is held\<close>

text \<open>
  A button is as its last event left it, an axis where its last event put it; without such an event
  they are as before.
\<close>

definition key_held :: "nat \<Rightarrow> bool \<Rightarrow> input_event list \<Rightarrow> bool" where
  "key_held code before es =
     (case rev (filter (\<lambda>e. ev_type e = EV_KEY \<and> ev_code e = code) es) of [] \<Rightarrow> before | e # _ \<Rightarrow> ev_value e \<noteq> 0)"

definition axis_at :: "nat \<Rightarrow> int \<Rightarrow> input_event list \<Rightarrow> int" where
  "axis_at code before es =
     (case rev (filter (\<lambda>e. ev_type e = EV_ABS \<and> ev_code e = code) es) of [] \<Rightarrow> before | e # _ \<Rightarrow> ev_value e)"

text \<open>An axis is in the lowest or in the highest third of its range.\<close>

definition axis_low :: "int \<Rightarrow> absinfo \<Rightarrow> bool" where
  "axis_low v info \<longleftrightarrow> abs_minimum info < abs_maximum info \<and> v \<le> abs_minimum info + (abs_maximum info - abs_minimum info) div 3"

definition axis_high :: "int \<Rightarrow> absinfo \<Rightarrow> bool" where
  "axis_high v info \<longleftrightarrow> abs_minimum info < abs_maximum info \<and> \<not> axis_low v info \<and>
     abs_maximum info - (abs_maximum info - abs_minimum info) div 3 \<le> v"

text \<open>The control of command bit \<open>b\<close> is held after the events \<open>es\<close> of the gamepad \<open>d\<close>.\<close>

definition control_held :: "player_pad \<Rightarrow> input_event list \<Rightarrow> nat \<Rightarrow> bool" where
  "control_held d es b \<longleftrightarrow>
     (let button = (\<lambda>code. key_held code (bit (pp_raw_buttons d) (code - 0x120)) es);
          x = axis_at ABS_X (pp_x d) es; y = axis_at ABS_Y (pp_y d) es
      in b = 0 \<and> (button 0x120 \<or> button 0x121) \<or> b = 1 \<and> axis_low x (pp_x_info d) \<or> b = 2 \<and> axis_high x (pp_x_info d) \<or>
         b = 3 \<and> (button 0x122 \<or> button 0x123) \<or> b = 4 \<and> button 0x124 \<or> b = 5 \<and> button 0x125 \<or>
         b = 6 \<and> axis_high y (pp_y_info d) \<or> b = 7 \<and> axis_low y (pp_y_info d) \<or> b = 8 \<and> button 0x127)"

text \<open>At each report of the later events \<open>es\<close>.\<close>

fun held_at_reports :: "player_pad \<Rightarrow> nat \<Rightarrow> input_event list \<Rightarrow> input_event list \<Rightarrow> bool list" where
  "held_at_reports d b before [] = []"
| "held_at_reports d b before (e # es) =
     (if ev_type e = EV_SYN \<and> ev_code e = SYN_REPORT then [control_held d before b] else []) @
     held_at_reports d b (before @ [e]) es"

fun rises :: "bool list \<Rightarrow> bool" where
  "rises (x # y # zs) = (\<not> x \<and> y \<or> rises (y # zs))"
| "rises _ = False"

definition pad_after :: "player_pad \<Rightarrow> input_event list \<Rightarrow> player_pad \<Rightarrow> bool" where
  "pad_after d0 es d \<longleftrightarrow>
     (\<forall>i < 8. bit (pp_raw_buttons d) i = key_held (0x120 + i) (bit (pp_raw_buttons d0) i) es) \<and>
     pp_x d = axis_at ABS_X (pp_x d0) es \<and> pp_y d = axis_at ABS_Y (pp_y d0) es \<and>
     pp_x_info d = pp_x_info d0 \<and> pp_y_info d = pp_y_info d0 \<and> \<not> pp_dropping d"

lemma held_Nil [simp]: "key_held code v [] = v" "axis_at code x [] = x"
  by (simp_all add: key_held_def axis_at_def)

lemma held_snoc:
  "key_held code v (es @ [e]) = (if ev_type e = EV_KEY \<and> ev_code e = code then ev_value e \<noteq> 0 else key_held code v es)"
  "axis_at code x (es @ [e]) = (if ev_type e = EV_ABS \<and> ev_code e = code then ev_value e else axis_at code x es)"
  by (simp_all add: key_held_def axis_at_def)

lemma axis_third: "axis_buttons v info 1 2 = 1 \<longleftrightarrow> axis_low v info" "axis_buttons v info 1 2 = 2 \<longleftrightarrow> axis_high v info"
  by (auto simp: axis_buttons_def axis_low_def axis_high_def Let_def)

lemma control_of_state: "pad_after d0 es d \<Longrightarrow> bit (gamepad_state d) b = control_held d0 es b"
  unfolding gamepad_state_bit control_held_def Let_def pad_after_def axis_third by auto

lemma pad_after_event:
  assumes "pad_after d0 es d" "\<not> (ev_type e = EV_SYN \<and> ev_code e = SYN_DROPPED)"
  shows "pad_after d0 (es @ [e]) (fst (pad_event a e d))"
proof -
  have raw: "bit (raw OR push_bit (code - BTN_TRIGGER) 1) i = (i = code - BTN_TRIGGER \<or> bit raw i)"
    "bit (raw AND NOT (push_bit (code - BTN_TRIGGER) 1)) i = (i \<noteq> code - BTN_TRIGGER \<and> bit raw i)"
    if "i < 8" for raw :: u32 and code i
    using that by (auto simp only: bit_or_iff bit_and_iff bit_not_iff bit_one_at possible_bit_word) simp_all
  consider (key) "ev_type e = EV_KEY" | (abs) "ev_type e = EV_ABS" | (other) "ev_type e \<noteq> EV_KEY" "ev_type e \<noteq> EV_ABS" by blast
  then show ?thesis
  proof cases
    case key
    then show ?thesis
      using assms raw
      by (auto simp: pad_after_def pad_event_def held_snoc event_codes BTN_TRIGGER_def BTN_BASE2_def Let_def)
  next
    case abs
    then show ?thesis
      using assms by (auto simp: pad_after_def pad_event_def held_snoc event_codes ABS_X_def ABS_Y_def)
  next
    case other
    then show ?thesis
      using assms by (auto simp: pad_after_def pad_event_def held_snoc event_codes)
  qed
qed

lemma reports_are_held:
  assumes "complete_events es" "pad_after d0 before d"
  shows "map (\<lambda>s. bit s b) (report_states es d) = held_at_reports d0 b before (map snd es)"
  using assms
proof (induction es arbitrary: before d)
  case (Cons ae es)
  obtain a e where ae: "ae = (a, e)" by fastforce
  have complete: "\<not> (ev_type e = EV_SYN \<and> ev_code e = SYN_DROPPED)" "complete_events es"
    using Cons.prems(1) by (simp_all add: complete_events_def ae)
  have "\<not> pp_dropping d" using Cons.prems(2) by (simp add: pad_after_def)
  then have "ev_type e = EV_SYN \<and> ev_code e = SYN_REPORT \<Longrightarrow> bit (pp_state (fst (pad_event a e d))) b = control_held d0 before b"
    using control_of_state [OF Cons.prems(2)] by (simp add: pad_event_def event_codes)
  then show ?case
    using Cons.IH [OF complete(2) pad_after_event [OF Cons.prems(2) complete(1)]] by (simp add: ae Let_def)
qed simp

lemma newly_held_rises: "newly_held b ss = rises (map (\<lambda>s. bit s b) ss)"
  by (induction b ss rule: newly_held.induct) simp_all

text \<open>
  C21. Reading a gamepad that lost no events yields a command exactly if its control was released
  at one report and held at the next, starting from the state the last read ended in: no press is
  missed and none that goes on is repeated.  What is held at a report is what the events before it
  say: the last event of each of the two buttons of a control, or the last position of its axis.
\<close>
theorem pad_commands_exact:
  assumes "complete_events es" "\<not> pp_dropping d" "0 \<le> pp_fd d" "es \<noteq> []" "b < 32"
  shows "bit (snd (drain_gamepad [Data es, Would_block] (d, 0))) b =
    rises (bit (pp_state d) b # held_at_reports d b [] (map snd es))"
proof -
  have "pad_after d [] d" using assms(2) by (simp add: pad_after_def)
  from reports_are_held [OF assms(1) this] show ?thesis
    using pad_events_commands [OF assms(1,2,5), of 0] assms(3,4) by (simp add: newly_held_rises)
qed

text \<open>
  The two directions of an axis are never held at once, however its range is calibrated and
  whatever value it reports: no turn asks for the next and the previous file or for more and less
  volume because of one gamepad's state.
\<close>
theorem pad_directions_exclusive:
  "\<not> (bit (gamepad_state d) 1 \<and> bit (gamepad_state d) 2) \<and> \<not> (bit (gamepad_state d) 6 \<and> bit (gamepad_state d) 7)"
  unfolding gamepad_state_bit by auto

section \<open>Touching what is shown\<close>

text \<open>Where a rectangle of the canvas lies on the panel.\<close>

fun on_panel :: "Rect \<Rightarrow> Rect" where
  "on_panel (Rect x y w h) = Rect (kCanvasOffset + kCanvasScale * x) (kCanvasOffset + kCanvasScale * y) (kCanvasScale * w) (kCanvasScale * h)"

lemma sdiv_two: "(a :: int) sdiv 2 = (if a < 0 then - (- a div 2) else a div 2)"
  by (auto simp: signed_divide_int_def sgn_if)

lemma contains_on_panel:
  assumes "0 < rect_x r" "0 < rect_y r"
  shows "rect_contains r ((tx - kCanvasOffset) sdiv kCanvasScale) ((ty - kCanvasOffset) sdiv kCanvasScale) =
    rect_contains (on_panel r) tx ty"
proof (cases r)
  case (Rect x y w h)
  then show ?thesis
    using assms unfolding Rect on_panel.simps rect_contains.simps kCanvasOffset_def kCanvasScale_def sdiv_two by auto
qed

definition buttons :: "(Rect \<times> u32) list" where
  "buttons = [(kCloseButton, ControlBack), (kPreviousFileButton, ControlPreviousFile), (kPauseButton, ControlTogglePause),
     (kNextFileButton, ControlNextFile), (kPlaybackModeButton, ControlCyclePlaybackMode)]"

text \<open>
  A touch gives the command of a button exactly on the part of the panel the button's rectangle
  is shown on.
\<close>
theorem touch_command_exact:
  "touch_command tx ty = c \<and> c \<noteq> 0 \<longleftrightarrow> (\<exists>r. (r, c) \<in> set buttons \<and> rect_contains (on_panel r) tx ty)"
proof -
  have nonzero: "ControlBack \<noteq> 0" "ControlPreviousFile \<noteq> 0" "ControlTogglePause \<noteq> 0" "ControlNextFile \<noteq> 0"
    "ControlCyclePlaybackMode \<noteq> 0"
    by (simp_all add: control_defs)
  have here: "rect_contains r ((tx - kCanvasOffset) sdiv kCanvasScale) ((ty - kCanvasOffset) sdiv kCanvasScale) =
      rect_contains (on_panel r) tx ty" if "r \<in> fst ` set buttons" for r
    using that
    by (intro contains_on_panel) (auto simp: buttons_def kCloseButton_def kPreviousFileButton_def kPauseButton_def kNextFileButton_def kPlaybackModeButton_def)
  have "touch_command tx ty =
      (if rect_contains (on_panel kCloseButton) tx ty then ControlBack
       else if rect_contains (on_panel kPreviousFileButton) tx ty then ControlPreviousFile
       else if rect_contains (on_panel kPauseButton) tx ty then ControlTogglePause
       else if rect_contains (on_panel kNextFileButton) tx ty then ControlNextFile
       else if rect_contains (on_panel kPlaybackModeButton) tx ty then ControlCyclePlaybackMode else 0)"
    unfolding touch_command_def Let_def using here by (simp add: buttons_def)
  note chain = this
  show ?thesis
  proof
    assume "touch_command tx ty = c \<and> c \<noteq> 0"
    then show "\<exists>r. (r, c) \<in> set buttons \<and> rect_contains (on_panel r) tx ty"
      unfolding chain by (auto simp: buttons_def split: if_splits)
  next
    assume "\<exists>r. (r, c) \<in> set buttons \<and> rect_contains (on_panel r) tx ty"
    then obtain r where r: "(r, c) \<in> set buttons" "rect_contains (on_panel r) tx ty" by blast
    then consider "r = kCloseButton \<and> c = ControlBack" | "r = kPreviousFileButton \<and> c = ControlPreviousFile"
      | "r = kPauseButton \<and> c = ControlTogglePause" | "r = kNextFileButton \<and> c = ControlNextFile"
      | "r = kPlaybackModeButton \<and> c = ControlCyclePlaybackMode" by (auto simp: buttons_def)
    then have "touch_command tx ty = c"
      unfolding chain using r(2)
      by cases (simp_all add: kCloseButton_def kPreviousFileButton_def kPauseButton_def kNextFileButton_def
          kPlaybackModeButton_def kCanvasOffset_def kCanvasScale_def)
    then show "touch_command tx ty = c \<and> c \<noteq> 0" using r(1) nonzero by (auto simp: buttons_def)
  qed
qed

text \<open>After a loss of events the finger's state is not read again: a lost release swallows the next press.\<close>

lemma lost_release_swallows_press:
  assumes "in_touch_down i" "in_touch_reported i" "\<not> in_touch_dropping i"
  shows "snd (drain_touch
      [Data [\<lparr>ev_type = EV_SYN, ev_code = SYN_DROPPED, ev_value = 0\<rparr>, \<lparr>ev_type = EV_KEY, ev_code = BTN_TOUCH, ev_value = 0\<rparr>,
             \<lparr>ev_type = EV_SYN, ev_code = SYN_REPORT, ev_value = 0\<rparr>],
       Data [\<lparr>ev_type = EV_ABS, ev_code = ABS_X, ev_value = 1200\<rparr>, \<lparr>ev_type = EV_ABS, ev_code = ABS_Y, ev_value = 50\<rparr>,
             \<lparr>ev_type = EV_KEY, ev_code = BTN_TOUCH, ev_value = 1\<rparr>, \<lparr>ev_type = EV_SYN, ev_code = SYN_REPORT, ev_value = 0\<rparr>]]
      (i, 0)) = 0"
  using assms by (simp add: player_touch_event_def event_codes ABS_X_def ABS_Y_def BTN_TOUCH_def)

section \<open>Descriptors\<close>

definition held_descriptors :: "PlayerInput \<Rightarrow> int list" where
  "held_descriptors i = snd (close_devices i)"

lemma new_pad_fd: "new_pad e = Some d \<Longrightarrow> pp_fd d = ie_fd e"
  by (auto simp: new_pad_def resynchronize_def Let_def split: option.splits bool.splits prod.splits if_splits)

lemma discover_entry_held:
  assumes "discover_entry e (i, closed) = (i', closed')"
  shows "mset (closed' @ held_descriptors i') =
    mset (closed @ held_descriptors i) + mset (if ie_fd e < 0 then [] else [ie_fd e])"
proof (cases "ie_fd e < 0")
  case False
  define pad where "pad = (if ie_id e = Some (0x1c59, 0x0026) \<and> length (in_gamepads i) < 2 then new_pad e else None)"
  have fd: "pad = Some d \<Longrightarrow> pp_fd d = ie_fd e" for d unfolding pad_def using new_pad_fd by (auto split: if_splits)
  show ?thesis
  proof (cases "in_touch_fd i < 0 \<and> contains_text (case ie_device_name e of Some s \<Rightarrow> s | None \<Rightarrow> []) ''Goodix Capacitive TouchScreen'' \<and>
      ie_x e \<noteq> None \<and> ie_y e \<noteq> None")
    case True
    then have "closed' = closed" "i' = i\<lparr>in_touch_fd := ie_fd e, in_touch_x := abs_value (the (ie_x e)),
        in_touch_y := abs_value (the (ie_y e)), in_touch_grabbed := ie_grab_ok e\<rparr>"
      using assms False by (simp_all add: discover_entry_def)
    then show ?thesis using True False by (simp add: held_descriptors_def close_devices_def)
  next
    case other: False
    then have "(i', closed') = (case pad of Some d \<Rightarrow> (i\<lparr>in_gamepads := in_gamepads i @ [d]\<rparr>, closed) | None \<Rightarrow> (i, closed @ [ie_fd e]))"
      using assms False unfolding discover_entry_def pad_def Let_def prod.case by (simp only: if_False)
    then show ?thesis using False fd by (cases pad) (simp_all add: held_descriptors_def close_devices_def)
  qed
qed (use assms in \<open>simp add: discover_entry_def\<close>)

lemma discover_entries_held:
  "foldl (\<lambda>ic e. discover_entry e ic) (i, closed) entries = (i', closed') \<Longrightarrow>
   mset (closed' @ held_descriptors i') =
     mset (closed @ held_descriptors i) + mset (filter (\<lambda>fd. 0 \<le> fd) (map ie_fd entries))"
proof (induction entries arbitrary: i closed)
  case (Cons e es)
  obtain i1 closed1 where e: "discover_entry e (i, closed) = (i1, closed1)" by fastforce
  then have "foldl (\<lambda>ic e. discover_entry e ic) (i1, closed1) es = (i', closed')" using Cons.prems by simp
  then show ?case using Cons.IH discover_entry_held [OF e] by (auto simp: add.commute)
qed simp

text \<open>
  Every descriptor the search for devices opens is closed exactly once: either the search
  closes it, or the player keeps it and closes it at the end.
\<close>
theorem devices_closed_once:
  "discover (Some entries) created_input = (i, closed) \<Longrightarrow>
   mset (closed @ snd (close_devices i)) = filter_mset (\<lambda>fd. 0 \<le> fd) (mset (map ie_fd (player_event_entries entries)))"
  using discover_entries_held [of "fst (close_devices created_input)" "[]" "player_event_entries entries" i closed]
  by (simp add: discover_def close_devices_def created_input_def held_descriptors_def mset_filter)

section \<open>Witnesses\<close>

text \<open>A button that was held is released and pressed again: its command is given once more.\<close>

theorem pad_commands_exact_witness:
  "let a = \<lparr>pa_x = None, pa_y = None, pa_keys = None\<rparr>;
       key = (\<lambda>v. (a, \<lparr>ev_type = EV_KEY, ev_code = 0x122, ev_value = v\<rparr>));
       report = (a, \<lparr>ev_type = EV_SYN, ev_code = SYN_REPORT, ev_value = 0\<rparr>);
       d = created_pad\<lparr>pp_fd := 5, pp_raw_buttons := 4, pp_state := 8\<rparr>
   in bit (snd (drain_gamepad [Data [key 0, report, key 1, report], Would_block] (d, 0))) 3 \<and>
      \<not> bit (snd (drain_gamepad [Data [key 0, report], Would_block] (d, 0))) 3"
proof -
  let ?a = "\<lparr>pa_x = None, pa_y = None, pa_keys = None\<rparr>"
  let ?key = "\<lambda>v. (?a, \<lparr>ev_type = EV_KEY, ev_code = 0x122, ev_value = v\<rparr>)"
  let ?report = "(?a, \<lparr>ev_type = EV_SYN, ev_code = SYN_REPORT, ev_value = 0\<rparr>)"
  let ?d = "created_pad\<lparr>pp_fd := 5, pp_raw_buttons := 4, pp_state := 8\<rparr>"
  have "complete_events [?key 0, ?report, ?key 1, ?report]" "complete_events [?key 0, ?report]"
    by (simp_all add: complete_events_def event_codes)
  moreover have d: "\<not> pp_dropping ?d" "0 \<le> pp_fd ?d" by (simp_all add: created_pad_def)
  ultimately have drained:
    "bit (snd (drain_gamepad [Data [?key 0, ?report, ?key 1, ?report], Would_block] (?d, 0))) 3 =
       rises (bit (pp_state ?d) 3 # held_at_reports ?d 3 [] (map snd [?key 0, ?report, ?key 1, ?report]))"
    "bit (snd (drain_gamepad [Data [?key 0, ?report], Would_block] (?d, 0))) 3 =
       rises (bit (pp_state ?d) 3 # held_at_reports ?d 3 [] (map snd [?key 0, ?report]))"
    by (intro pad_commands_exact; simp)+
  have "bit (4 :: u32) 2" "\<not> bit (4 :: u32) 3" "bit (8 :: u32) 3" by code_simp+
  then have "rises (bit (pp_state ?d) 3 # held_at_reports ?d 3 [] (map snd [?key 0, ?report, ?key 1, ?report]))"
    "\<not> rises (bit (pp_state ?d) 3 # held_at_reports ?d 3 [] (map snd [?key 0, ?report]))"
    by (simp_all add: created_pad_def control_held_def key_held_def event_codes)
  then show ?thesis unfolding Let_def drained by blast
qed

theorem devices_closed_once_witness:
  "\<exists>i closed. discover (Some [\<lparr>ie_name = ''event0'', ie_fd = 4, ie_device_name = None, ie_x = None, ie_y = None, ie_id = None,
      ie_keys = None, ie_grab_ok = False\<rparr>]) created_input = (i, closed) \<and> mset (closed @ snd (close_devices i)) = {#4#}"
proof -
  let ?entries = "[\<lparr>ie_name = ''event0'', ie_fd = 4, ie_device_name = None, ie_x = None, ie_y = None, ie_id = None,
      ie_keys = None, ie_grab_ok = False\<rparr>]"
  obtain i closed where d: "discover (Some ?entries) created_input = (i, closed)" by fastforce
  from devices_closed_once [OF d] show ?thesis using d by (simp add: player_event_entries_def)
qed

end
