(* ===== verification/Chiptune_Screen.thy ===== *)
theory Chiptune_Screen
  imports Chiptune_Tick Chiptune_Input
begin

section \<open>The screen of the chiptune player (\<open>src/chiptune_deck.cpp\<close>)\<close>

text \<open>
  Every drawing routine is the list of fills it makes on the canvas, in order; a routine of one
  colour is the list of its rectangles.  Arithmetic on \<open>int\<close> that overflows is undefined, and so
  is a fill whose range is inverted: both are \<open>None\<close>.
\<close>

definition fill_rect :: "Canvas \<Rightarrow> Rect \<Rightarrow> u16 \<Rightarrow> Canvas option" where
  "fill_rect canvas r c = fill_clipped kCanvasWidth kCanvasHeight canvas r c"

definition painted :: "u16 \<Rightarrow> Rect list \<Rightarrow> (Rect \<times> u16) list" where
  "painted c rs = map (\<lambda>r. (r, c)) rs"

subsection \<open>Text\<close>

definition glyph_rows :: "char \<Rightarrow> byte list" where
  "glyph_rows input =
     (let character = (if is_lower input then byte_of input - 97 + 65 else byte_of input)
      in if 65 \<le> character \<and> character \<le> 90 then letter_glyphs ! (character - 65)
         else if 48 \<le> character \<and> character \<le> 57 then digit_glyphs ! (character - 48)
         else if character = 32 then [0, 0, 0, 0, 0, 0, 0]
         else if character = 46 then [0, 0, 0, 0, 0, 6, 6]
         else if character = 58 then [0, 6, 6, 0, 6, 6, 0]
         else if character = 45 then [0, 0, 0, 31, 0, 0, 0]
         else if character = 43 then [0, 4, 4, 31, 4, 4, 0]
         else if character = 47 then [1, 2, 2, 4, 8, 8, 16]
         else [14, 17, 1, 2, 4, 0, 4])"

definition draw_text :: "int \<Rightarrow> int \<Rightarrow> string \<Rightarrow> int \<Rightarrow> Rect list" where
  "draw_text x y s scale =
     concat (map (\<lambda>index. glyph_squares (glyph_rows (s ! index)) (x + int index * 6 * scale) y scale) [0..<length s])"

definition draw_centered_text :: "int \<Rightarrow> string \<Rightarrow> int \<Rightarrow> Rect list" where
  "draw_centered_text y s scale =
     (let width = (if s = [] then 0 else (int (length s) * 6 - 1) * scale)
      in draw_text (max 0 ((kCanvasWidth - width) sdiv 2)) y s scale)"

definition signed_decimal :: "int \<Rightarrow> string" where
  "signed_decimal n = (if n < 0 then CHR ''-'' # decimal (nat (- n)) else decimal (nat n))"

definition format_time :: "int \<Rightarrow> string" where
  "format_time milliseconds =
     (let seconds = max 0 (milliseconds sdiv 1000)
      in decimal (nat (seconds div 60)) @ '':'' @ two_digits (nat (seconds mod 60)))"

subsection \<open>Panels, lines and icons\<close>

definition stroke_rect :: "Rect \<Rightarrow> int \<Rightarrow> Rect list" where
  "stroke_rect r thickness =
     [Rect (rect_x r) (rect_y r) (rect_width r) thickness,
      Rect (rect_x r) (rect_y r + rect_height r - thickness) (rect_width r) thickness,
      Rect (rect_x r) (rect_y r) thickness (rect_height r),
      Rect (rect_x r + rect_width r - thickness) (rect_y r) thickness (rect_height r)]"

definition fill_pixel_cut_rect :: "Rect \<Rightarrow> int \<Rightarrow> Rect list" where
  "fill_pixel_cut_rect r corner =
     (if rect_width r \<le> corner * 2 \<or> rect_height r \<le> corner * 2 then []
      else [Rect (rect_x r + corner) (rect_y r) (rect_width r - corner * 2) (rect_height r),
            Rect (rect_x r) (rect_y r + corner) (rect_width r) (rect_height r - corner * 2)])"

definition draw_pixel_panel :: "Rect \<Rightarrow> u16 \<Rightarrow> u16 \<Rightarrow> int \<Rightarrow> (Rect \<times> u16) list" where
  "draw_pixel_panel r fill border thickness =
     painted border (fill_pixel_cut_rect r thickness) @
     painted fill (fill_pixel_cut_rect (Rect (rect_x r + thickness) (rect_y r + thickness)
         (rect_width r - thickness * 2) (rect_height r - thickness * 2)) thickness)"

definition center_x :: "Rect \<Rightarrow> int" where "center_x r = rect_x r + rect_width r sdiv 2"
definition center_y :: "Rect \<Rightarrow> int" where "center_y r = rect_y r + rect_height r sdiv 2"

definition draw_close_icon :: "Rect \<Rightarrow> Rect list" where
  "draw_close_icon bounds =
     concat (map (\<lambda>offset. [Rect (center_x bounds + offset) (center_y bounds + offset) 2 2,
                            Rect (center_x bounds + offset) (center_y bounds - offset) 2 2])
       (map (\<lambda>n. 2 * int n - 8) [0..<9]))"

text \<open>
  The loop of the line; the first argument bounds its turns.  No line takes more turns than the sum
  of the two distances and one (\<open>pixel_line_ends\<close>).
\<close>

fun line_squares :: "nat \<Rightarrow> int \<Rightarrow> int \<Rightarrow> int \<Rightarrow> int \<Rightarrow> int \<Rightarrow> int \<Rightarrow> int \<Rightarrow> int \<Rightarrow> int \<Rightarrow> int \<Rightarrow> Rect list" where
  "line_squares 0 x y to_x to_y delta_x delta_y step_x step_y err thickness = []"
| "line_squares (Suc turns) x y to_x to_y delta_x delta_y step_x step_y err thickness =
     Rect x y thickness thickness #
     (if x = to_x \<and> y = to_y then []
      else
        (let doubled_error = err * 2;
             (err1, x1) = (if doubled_error \<ge> delta_y then (err + delta_y, x + step_x) else (err, x));
             (err2, y1) = (if doubled_error \<le> delta_x then (err1 + delta_x, y + step_y) else (err1, y))
         in line_squares turns x1 y1 to_x to_y delta_x delta_y step_x step_y err2 thickness))"

definition draw_pixel_line :: "int \<Rightarrow> int \<Rightarrow> int \<Rightarrow> int \<Rightarrow> int \<Rightarrow> Rect list" where
  "draw_pixel_line from_x from_y to_x to_y thickness =
     (let delta_x = \<bar>to_x - from_x\<bar>;
          step_x = (if from_x < to_x then 1 else - 1);
          delta_y = - \<bar>to_y - from_y\<bar>;
          step_y = (if from_y < to_y then 1 else - 1)
      in line_squares (nat (delta_x - delta_y) + 1) from_x from_y to_x to_y delta_x delta_y step_x step_y
           (delta_x + delta_y) thickness)"

definition draw_arrow_head :: "int \<Rightarrow> int \<Rightarrow> bool \<Rightarrow> Rect list" where
  "draw_arrow_head point_x point_y points_right =
     (let direction = (if points_right then - 1 else 1)
      in draw_pixel_line point_x point_y (point_x + direction * 4) (point_y - 4) 1 @
         draw_pixel_line point_x point_y (point_x + direction * 4) (point_y + 4) 1)"

definition draw_transport_triangle :: "int \<Rightarrow> int \<Rightarrow> bool \<Rightarrow> Rect list" where
  "draw_transport_triangle x y points_right =
     map (\<lambda>row. (let width = 14 - \<bar>row\<bar> * 2 in Rect (if points_right then x - 6 else x + 6 - width) (y + row) width 2))
       (map (\<lambda>n. 2 * int n - 6) [0..<7])"

definition draw_previous_icon :: "Rect \<Rightarrow> Rect list" where
  "draw_previous_icon r =
     Rect (center_x r - 10) (center_y r - 7) 2 14 # draw_transport_triangle (center_x r + 1) (center_y r) False"

definition draw_next_icon :: "Rect \<Rightarrow> Rect list" where
  "draw_next_icon r =
     draw_transport_triangle (center_x r - 1) (center_y r) True @ [Rect (center_x r + 8) (center_y r - 7) 2 14]"

definition draw_pause_icon :: "Rect \<Rightarrow> bool \<Rightarrow> Rect list" where
  "draw_pause_icon r is_paused =
     (if is_paused then draw_transport_triangle (center_x r - 1) (center_y r) True
      else [Rect (center_x r - 5) (center_y r - 7) 3 14, Rect (center_x r + 2) (center_y r - 7) 3 14])"

definition draw_loop_icon :: "Rect \<Rightarrow> bool \<Rightarrow> Rect list" where
  "draw_loop_icon r one =
     (let x = center_x r; y = center_y r
      in draw_pixel_line (x - 11) (y - 5) (x + 9) (y - 5) 1 @ draw_arrow_head (x + 11) (y - 5) True @
         draw_pixel_line (x + 11) (y + 5) (x - 9) (y + 5) 1 @ draw_arrow_head (x - 11) (y + 5) False @
         (if one then draw_text (x - 2) (y - 3) ''1'' 1 else []))"

definition draw_shuffle_icon :: "Rect \<Rightarrow> Rect list" where
  "draw_shuffle_icon r =
     (let x = center_x r; y = center_y r
      in draw_pixel_line (x - 12) (y - 5) (x - 7) (y - 5) 1 @ draw_pixel_line (x - 7) (y - 5) (x + 6) (y + 5) 1 @
         draw_pixel_line (x - 12) (y + 5) (x - 7) (y + 5) 1 @ draw_pixel_line (x - 7) (y + 5) (x + 6) (y - 5) 1 @
         draw_pixel_line (x + 6) (y - 5) (x + 10) (y - 5) 1 @ draw_pixel_line (x + 6) (y + 5) (x + 10) (y + 5) 1 @
         draw_arrow_head (x + 12) (y - 5) True @ draw_arrow_head (x + 12) (y + 5) True)"

definition draw_playback_mode_icon :: "Rect \<Rightarrow> PlaybackMode \<Rightarrow> Rect list" where
  "draw_playback_mode_icon r mode =
     (if mode = PlaybackShuffle then draw_shuffle_icon r else draw_loop_icon r (mode = PlaybackLoopOne))"

text \<open>The window of at most forty files around the current one.\<close>

definition indicator_window :: "nat \<Rightarrow> nat \<Rightarrow> nat \<times> nat" where
  "indicator_window index files =
     (let shown = min files 40
      in (if files > shown then min (if index > shown div 2 then index - shown div 2 else 0) (files - shown) else 0, shown))"

definition draw_file_indicators :: "nat \<Rightarrow> nat \<Rightarrow> u16 \<Rightarrow> u16 \<Rightarrow> (Rect \<times> u16) list" where
  "draw_file_indicators index files orange inactive =
     (if files = 0 then []
      else
        (let (first, shown) = indicator_window index files;
             row_width = int shown * 6 + int (shown - 1) * 4;
             left = (kCanvasWidth - row_width) sdiv 2
         in concat (map (\<lambda>n. painted (if first + n = index then orange else inactive)
                               (stroke_rect (Rect (left + int n * 10) 166 6 4) 1)) [0..<shown])))"

subsection \<open>The whole screen\<close>

definition background_color :: u16 where "background_color = DeckRgb888To565 0x000000"
definition orange_color :: u16 where "orange_color = DeckRgb888To565 0xfe6c27"
definition active_color :: u16 where "active_color = DeckRgb888To565 0x4d372d"
definition text_color :: u16 where "text_color = DeckRgb888To565 0xffffff"
definition green_color :: u16 where "green_color = DeckRgb888To565 0x87af87"
definition red_color :: u16 where "red_color = DeckRgb888To565 0xaf8787"
definition muted_color :: u16 where "muted_color = DeckRgb888To565 0x969696"
definition indicator_color :: u16 where "indicator_color = DeckRgb888To565 0x6c6c6c"

definition waveform :: "sample list \<Rightarrow> Rect list" where
  "waveform samples =
     map (\<lambda>x. (let frame = x * kFramesPerTick div 432;
                   mixed = (sint (samples ! (frame * 2)) + sint (samples ! (frame * 2 + 1))) sdiv 2;
                   height = min 20 (\<bar>mixed\<bar> sdiv 1050)
               in Rect (96 + int x) (if mixed < 0 then 106 else 105 - height) 1 (max 1 height))) [0..<432]"

text \<open>\<open>position * 432\<close> is computed before the division.\<close>

definition progress_width :: "int \<Rightarrow> int \<Rightarrow> int option" where
  "progress_width position len =
     (if len > 0
      then (if - (2 ^ 31) \<le> position * 432 \<and> position * 432 < 2 ^ 31
            then Some (max 0 (min 432 ((position * 432) sdiv len))) else None)
      else Some 0)"

definition details_text :: "('e, 'v) player \<Rightarrow> string" where
  "details_text p =
     take 127 (clipped (system_text p) 18 @ ''  FILE '' @ decimal (file_index p + 1) @ ''/'' @ decimal (length (pl_files p)) @
       ''  TRACK '' @ signed_decimal (track_index p + 1) @ ''/'' @ signed_decimal (track_count p))"

definition playing_fills :: "('e, 'v) codecs \<Rightarrow> ('e, 'v) player \<Rightarrow> (Rect \<times> u16) list option" where
  "playing_fills libs p =
     (if visual p \<noteq> [] \<and> length (visual p) < 2 * kFramesPerTick then None
      else
        (let position = position_ms libs p;
             len = length_ms p;
             end_time = (if len > 0 then format_time len else ''--:--'')
         in case progress_width position len of
              None \<Rightarrow> None
            | Some progress \<Rightarrow>
                Some (draw_pixel_panel (Rect 78 42 468 120) active_color orange_color 2 @
                      painted text_color (draw_centered_text 50 (clipped (title p) 45) 2) @
                      painted muted_color (draw_centered_text 70 (clipped (subtitle p) 72) 1) @
                      [(Rect 96 84 432 44, background_color), (Rect 96 105 432 1, muted_color)] @
                      painted orange_color (if visual p = [] then [] else waveform (visual p)) @
                      [(Rect 96 134 432 3, background_color)] @
                      painted green_color (if progress > 0 then [Rect 96 134 progress 3] else []) @
                      painted text_color (draw_text 96 143 (format_time position) 1) @
                      painted text_color (draw_text (528 - (int (length end_time) * 6 - 1)) 143 end_time 1) @
                      painted muted_color (draw_centered_text 143 (clipped (details_text p) 56) 1) @
                      draw_file_indicators (file_index p) (length (pl_files p)) orange_color indicator_color)))"

definition idle_fills :: "string \<Rightarrow> (Rect \<times> u16) list" where
  "idle_fills status =
     draw_pixel_panel (Rect 78 42 468 120) active_color orange_color 2 @
     painted text_color (draw_centered_text 72 ''NO CHIPTUNES FOUND'' 2) @
     painted muted_color (draw_centered_text 103 (clipped status 72) 1) @
     painted text_color (draw_centered_text 126 ''AY GBS GYM HES KSS NSF NSFE OGG SAP SPC VGM VGZ'' 1)"

definition volume_text :: "nat \<Rightarrow> string" where
  "volume_text percent = (if percent \<noteq> 0 then take 23 (''VOL '' @ decimal percent) else ''VOL OFF'')"

definition render_player :: "('e, 'v) codecs \<Rightarrow> ('e, 'v) player \<Rightarrow> string \<Rightarrow> nat \<Rightarrow> Canvas option" where
  "render_player libs p status percent =
     (case (if ready p then playing_fills libs p else Some (idle_fills status)) of
        None \<Rightarrow> None
      | Some middle \<Rightarrow>
          fill_all fill_rect
            (draw_pixel_panel (Rect 236 4 152 29) active_color orange_color 2 @
             painted text_color (draw_centered_text 12 ''CHIPTUNES'' 1) @
             painted text_color (draw_close_icon kCloseButton) @
             painted (if percent \<noteq> 0 then green_color else red_color) (draw_text 8 14 (volume_text percent) 1) @
             middle @
             painted text_color (draw_playback_mode_icon kPlaybackModeButton (playback_mode p)) @
             painted text_color (draw_previous_icon kPreviousFileButton) @
             painted text_color (draw_pause_icon kPauseButton (paused p)) @
             painted text_color (draw_next_icon kNextFileButton))
            (replicate (nat (kCanvasWidth * kCanvasHeight)) background_color))"

interpretation player_screen: raster kCanvasWidth kCanvasHeight fill_rect
  by (unfold_locales, unfold fill_rect_def, rule fill_clipped_pixels) (simp_all add: kCanvasWidth_def)

section \<open>Every frame is drawn without undefined behaviour\<close>

definition fills_ok :: "(Rect \<times> u16) list \<Rightarrow> bool" where
  "fills_ok fs = list_all (\<lambda>f. fill_defined kCanvasWidth kCanvasHeight (fst f)) fs"

definition rects_ok :: "Rect list \<Rightarrow> bool" where
  "rects_ok rs = list_all (fill_defined kCanvasWidth kCanvasHeight) rs"

lemma fills_ok_simps [simp]:
  "fills_ok []" "fills_ok (f # fs) = (fill_defined kCanvasWidth kCanvasHeight (fst f) \<and> fills_ok fs)"
  "fills_ok (fs @ gs) = (fills_ok fs \<and> fills_ok gs)" "fills_ok (painted c rs) = rects_ok rs"
  "rects_ok []" "rects_ok (r # rs) = (fill_defined kCanvasWidth kCanvasHeight r \<and> rects_ok rs)"
  "rects_ok (rs @ qs) = (rects_ok rs \<and> rects_ok qs)"
  by (auto simp: fills_ok_def rects_ok_def painted_def list_all_iff)

lemma text_ok:
  assumes "0 < scale" "0 \<le> x" "s = [] \<or> x + (int (length s) * 6 - 1) * scale \<le> 624"
  shows "rects_ok (draw_text x y s scale)"
proof -
  have "fill_defined kCanvasWidth kCanvasHeight r"
    if "i < length s" "r \<in> set (glyph_squares (glyph_rows (s ! i)) (x + int i * 6 * scale) y scale)" for i r
  proof (rule glyph_squares_defined [OF that(2) assms(1)])
    have "(int (i + 1) * 6 - 1) * scale \<le> (int (length s) * 6 - 1) * scale"
      using assms(1) that(1) by (intro mult_right_mono) auto
    moreover have "s \<noteq> []" using that(1) by auto
    ultimately show "x + int i * 6 * scale + 5 * scale \<le> kCanvasWidth"
      using assms(3) by (simp add: canvas_size algebra_simps)
  qed (use assms in simp)
  then show ?thesis by (auto simp: rects_ok_def draw_text_def list_all_iff)
qed

lemma centered_text_ok:
  assumes "0 < scale" "(int (length s) * 6 - 1) * scale \<le> 624"
  shows "rects_ok (draw_centered_text y s scale)"
proof (cases "s = []")
  case True
  then show ?thesis by (simp add: draw_centered_text_def draw_text_def)
next
  case False
  let ?w = "(int (length s) * 6 - 1) * scale"
  have "(624 - ?w) sdiv 2 = (624 - ?w) div 2" using assms(2) by (intro sdiv_nonneg) auto
  then have "max 0 ((kCanvasWidth - ?w) sdiv 2) + ?w \<le> 624" using assms(2) by (simp add: canvas_size max_def)
  then show ?thesis unfolding draw_centered_text_def Let_def using False by (intro text_ok assms(1)) auto
qed

lemma length_clipped: "length (clipped s limit) \<le> limit"
  by (auto simp: clipped_def Let_def substr_def)

lemma clipped_text_ok:
  assumes "0 < scale" "(int limit * 6 - 1) * scale \<le> 624"
  shows "rects_ok (draw_centered_text y (clipped s limit) scale)"
proof (rule centered_text_ok [OF assms(1)])
  have "(int (length (clipped s limit)) * 6 - 1) * scale \<le> (int limit * 6 - 1) * scale"
    using assms(1) length_clipped [of s limit] by (intro mult_right_mono) auto
  then show "(int (length (clipped s limit)) * 6 - 1) * scale \<le> 624" using assms(2) by simp
qed

lemma length_format_time:
  assumes "ms < 2 ^ 31"
  shows "length (format_time ms) \<le> 8"
proof -
  have "ms sdiv 1000 \<le> 2147483"
  proof (cases "0 \<le> ms")
    case True
    then have "ms sdiv 1000 = ms div 1000" by (rule sdiv_nonneg) simp
    then show ?thesis using assms True by simp
  next
    case False
    have "ms sdiv 1000 = - ((- ms) sdiv 1000)" using sdiv_minus_left [of "- ms" 1000] by (simp only: minus_minus)
    moreover have "(- ms) sdiv 1000 = (- ms) div 1000" using False by (intro sdiv_nonneg) auto
    ultimately show ?thesis using False by simp
  qed
  then have "nat (max 0 (ms sdiv 1000) div 60) < 10 ^ 5" by simp
  then have "length (decimal (nat (max 0 (ms sdiv 1000) div 60))) \<le> 5" by (rule length_decimal) simp
  then show ?thesis by (simp add: format_time_def Let_def two_digits_def)
qed

lemma waveform_ok: "rects_ok (waveform samples)"
  by (auto simp: rects_ok_def waveform_def list_all_iff Let_def fill_defined_def canvas_size)

lemma indicators_ok: "fills_ok (draw_file_indicators index files orange inactive)"
proof (cases "files = 0")
  case False
  obtain first shown where win: "indicator_window index files = (first, shown)" by fastforce
  then have shown: "0 < shown" "shown \<le> 40" using False by (auto simp: indicator_window_def Let_def)
  let ?left = "(kCanvasWidth - (int shown * 6 + int (shown - 1) * 4)) sdiv 2"
  have "?left = (624 - (int shown * 6 + int (shown - 1) * 4)) div 2"
    unfolding canvas_size using shown by (intro sdiv_nonneg) auto
  then have left: "0 \<le> ?left" "?left + 10 * int n + 6 \<le> 624" if "n < shown" for n using shown that by auto
  have "rects_ok (stroke_rect (Rect (?left + int n * 10) 166 6 4) 1)" if "n < shown" for n
    using left [OF that] by (simp add: stroke_rect_def fill_defined_def canvas_size)
  then show ?thesis
    using win False
    by (auto simp: draw_file_indicators_def Let_def fills_ok_def rects_ok_def painted_def list_all_iff)
qed (simp add: draw_file_indicators_def)

lemma fixed_parts_ok:
  "rects_ok (draw_close_icon kCloseButton)" "rects_ok (draw_previous_icon kPreviousFileButton)"
  "rects_ok (draw_pause_icon kPauseButton is_paused)" "rects_ok (draw_next_icon kNextFileButton)"
  "fills_ok (draw_pixel_panel (Rect 78 42 468 120) c d 2)" "fills_ok (draw_pixel_panel (Rect 236 4 152 29) c d 2)"
  by (simp_all add: draw_close_icon_def draw_previous_icon_def draw_pause_icon_def draw_next_icon_def draw_pixel_panel_def
      fill_pixel_cut_rect_def draw_transport_triangle_def center_x_def center_y_def kCloseButton_def kPreviousFileButton_def
      kPauseButton_def kNextFileButton_def fill_defined_def canvas_size upt_rec Let_def)

lemma mode_icon_ok: "rects_ok (draw_playback_mode_icon kPlaybackModeButton mode)"
proof (cases mode)
  case PlaybackLoopAll
  show ?thesis unfolding PlaybackLoopAll by code_simp
next
  case PlaybackLoopOne
  show ?thesis unfolding PlaybackLoopOne by code_simp
next
  case PlaybackShuffle
  show ?thesis unfolding PlaybackShuffle by code_simp
qed

lemma fills_ok_draw:
  assumes "fills_ok fs"
  shows "\<exists>canvas. fill_all fill_rect fs (replicate (nat (kCanvasWidth * kCanvasHeight)) c) = Some canvas \<and>
    length canvas = nat (kCanvasWidth * kCanvasHeight)"
  using player_screen.fill_all_frame [of "replicate (nat (kCanvasWidth * kCanvasHeight)) c" fs] assms
  by (auto simp: fills_ok_def)

lemma playing_fills_ok:
  assumes "visual p = [] \<or> length (visual p) = 2 * kFramesPerTick" "\<bar>position_ms libs p\<bar> * 432 < 2 ^ 31" "length_ms p < 2 ^ 31"
  shows "\<exists>fs. playing_fills libs p = Some fs \<and> fills_ok fs"
proof -
  let ?until = "if length_ms p > 0 then format_time (length_ms p) else ''--:--''"
  obtain progress where progress: "progress_width (position_ms libs p) (length_ms p) = Some progress" "progress \<le> 432"
  proof
    have "- (2 ^ 31) \<le> position_ms libs p * 432" "position_ms libs p * 432 < 2 ^ 31"
      using assms(2) abs_le_D1 [of "position_ms libs p" "\<bar>position_ms libs p\<bar>"]
        abs_le_D2 [of "position_ms libs p" "\<bar>position_ms libs p\<bar>"] by linarith+
    then show "progress_width (position_ms libs p) (length_ms p) =
        Some (if length_ms p > 0 then max 0 (min 432 ((position_ms libs p * 432) sdiv length_ms p)) else 0)"
      by (simp only: progress_width_def simp_thms if_True split: if_split) simp
    show "(if length_ms p > 0 then max 0 (min 432 ((position_ms libs p * 432) sdiv length_ms p)) else 0) \<le> 432" by simp
  qed
  have "rects_ok (draw_text 96 143 (format_time (position_ms libs p)) 1)"
  proof (intro text_ok)
    have "position_ms libs p < 2 ^ 31" using assms(2) abs_ge_self [of "position_ms libs p"] by linarith
    from length_format_time [OF this]
    show "format_time (position_ms libs p) = [] \<or> 96 + (int (length (format_time (position_ms libs p))) * 6 - 1) * 1 \<le> 624" by simp
  qed simp_all
  moreover have len: "length ?until \<le> 8" using length_format_time [of "length_ms p"] assms(3) by simp
  have "rects_ok (draw_text (528 - (int (length ?until) * 6 - 1)) 143 ?until 1)"
    using len by (intro text_ok) auto
  moreover have "rects_ok (if progress > 0 then [Rect 96 134 progress 3] else [])"
    using progress(2) by (simp add: fill_defined_def canvas_size)
  moreover have "rects_ok (draw_centered_text 50 (clipped (title p) 45) 2)"
    "rects_ok (draw_centered_text 70 (clipped (subtitle p) 72) 1)"
    "rects_ok (draw_centered_text 143 (clipped (details_text p) 56) 1)"
    by (rule clipped_text_ok; simp)+
  moreover have "fill_defined kCanvasWidth kCanvasHeight (Rect 96 84 432 44)" "fill_defined kCanvasWidth kCanvasHeight (Rect 96 105 432 1)"
    "fill_defined kCanvasWidth kCanvasHeight (Rect 96 134 432 3)"
    by (simp_all add: fill_defined_def canvas_size)
  ultimately show ?thesis
    using assms(1) progress(1) waveform_ok [of "visual p"]
    by (cases "visual p = []") (simp_all add: playing_fills_def Let_def fixed_parts_ok indicators_ok)
qed

lemma idle_fills_ok: "fills_ok (idle_fills status)"
  unfolding idle_fills_def fills_ok_simps
  by (intro conjI fixed_parts_ok clipped_text_ok centered_text_ok) simp_all

lemma position_short:
  assumes "short_tracks libs"
  shows "\<bar>position_ms libs p\<bar> * 432 < 2 ^ 31"
proof -
  have "\<bar>gme_tell libs e\<bar> * 432 < 2 ^ 31" "\<bar>ov_tell_ms libs v\<bar> * 432 < 2 ^ 31" "\<bar>0 :: int\<bar> * 432 < 2 ^ 31" for e v
    using assms unfolding short_tracks_def by (blast, blast, simp)
  then show ?thesis
    unfolding position_ms_def by (cases "backend p"; cases "pl_emulator p"; cases "pl_vorbis p"; simp only: prod.case PlayerBackend.case option.case)
qed

lemma render_player_ok:
  assumes "short_tracks libs" "player_ok libs p"
  shows "\<exists>canvas. render_player libs p status percent = Some canvas \<and> length canvas = nat (kCanvasWidth * kCanvasHeight)"
proof -
  have vis: "visual p = [] \<or> length (visual p) = 2 * kFramesPerTick" "length_ms p < 2 ^ 31"
    using assms by (simp_all add: player_ok_def)
  obtain middle where middle: "(if ready p then playing_fills libs p else Some (idle_fills status)) = Some middle" "fills_ok middle"
    using playing_fills_ok [OF vis(1) position_short [OF assms(1)] vis(2)] idle_fills_ok by (cases "ready p") auto
  have "rects_ok (draw_centered_text 12 ''CHIPTUNES'' 1)" by (rule centered_text_ok) simp_all
  moreover have "length (volume_text percent) \<le> 23" by (simp add: volume_text_def)
  then have "rects_ok (draw_text 8 14 (volume_text percent) 1)" by (intro text_ok) auto
  ultimately show ?thesis
    unfolding render_player_def middle(1) option.case using middle(2)
    by (intro fills_ok_draw) (simp add: fixed_parts_ok mode_icon_ok)
qed

text \<open>
  Every player in its invariant is drawn: with tracks of at most 82 minutes the arithmetic is
  defined, every sample that is read exists, and no fill leaves the canvas.
\<close>
theorem render_player_defined:
  assumes "short_tracks libs" "player_ok libs p"
  shows "\<exists>canvas. render_player libs p status percent = Some canvas \<and> length canvas = nat (kCanvasWidth * kCanvasHeight)"
  using assms by (rule render_player_ok)

text \<open>After 83 minutes of a track whose length is known the progress bar overflows.\<close>

lemma long_track_overflows:
  "ready p \<Longrightarrow> 0 < length_ms p \<Longrightarrow> 4971027 \<le> position_ms libs p \<Longrightarrow> render_player libs p status percent = None"
  by (simp add: render_player_def playing_fills_def progress_width_def Let_def)

section \<open>Lines end where they should\<close>

text \<open>
  After \<open>i\<close> steps to the side and \<open>j\<close> steps up or down the error of the loop is
  \<open>dx * (1 + j) - dy * (1 + i)\<close>, so no direction takes a step too many.
\<close>

lemma line_squares_end:
  assumes "0 \<le> i" "i \<le> dx" "0 \<le> j" "j \<le> dy" "nat ((dx - i) + (dy - j)) < turns"
    "x = from_x + i * step_x" "to_x = from_x + dx * step_x" "y = from_y + j * step_y" "to_y = from_y + dy * step_y"
    "\<bar>step_x\<bar> = 1" "\<bar>step_y\<bar> = (1 :: int)" "err = dx * (1 + j) - dy * (1 + i)"
  shows "last (line_squares turns x y to_x to_y dx (- dy) step_x step_y err t) = Rect to_x to_y t t \<and>
    length (line_squares turns x y to_x to_y dx (- dy) step_x step_y err t) \<le> nat ((dx - i) + (dy - j)) + 1"
  using assms
proof (induction turns arbitrary: i j x y err)
  case (Suc turns)
  have at_x: "x = to_x \<longleftrightarrow> i = dx" and at_y: "y = to_y \<longleftrightarrow> j = dy"
    using Suc.prems by (auto simp: abs_if split: if_splits)
  show ?case
  proof (cases "x = to_x \<and> y = to_y")
    case False
    let ?sx = "2 * err \<ge> - dy" and ?sy = "2 * err \<le> dx"
    have stay_x: "i < dx" if ?sx
    proof (rule ccontr)
      assume "\<not> i < dx"
      then have "i = dx" "j < dy" using Suc.prems(2,4) False at_x at_y by auto
      then have "err = dx * (1 + j - dy) - dy" using Suc.prems(12) by (simp add: algebra_simps)
      moreover have "dx * (1 + j - dy) \<le> 0"
        using \<open>j < dy\<close> Suc.prems(1,2) by (intro mult_nonneg_nonpos) auto
      ultimately show False using that \<open>j < dy\<close> Suc.prems(3) by linarith
    qed
    have stay_y: "j < dy" if ?sy
    proof (rule ccontr)
      assume "\<not> j < dy"
      then have "j = dy" "i < dx" using Suc.prems(2,4) False at_x at_y by auto
      then have "err = dx + dy * (dx - 1 - i)" using Suc.prems(12) by (simp add: algebra_simps)
      moreover have "0 \<le> dy * (dx - 1 - i)" using \<open>i < dx\<close> Suc.prems(3,4) by (intro mult_nonneg_nonneg) auto
      ultimately show False using that \<open>i < dx\<close> Suc.prems(1) by linarith
    qed
    have moves: "?sx \<or> ?sy" using Suc.prems(1-4) by linarith
    let ?i = "if ?sx then i + 1 else i" and ?j = "if ?sy then j + 1 else j"
    let ?x = "if ?sx then x + step_x else x" and ?y = "if ?sy then y + step_y else y"
    let ?err = "(if ?sx then err - dy else err) + (if ?sy then dx else 0)"
    have step: "line_squares (Suc turns) x y to_x to_y dx (- dy) step_x step_y err t =
        Rect x y t t # line_squares turns ?x ?y to_x to_y dx (- dy) step_x step_y ?err t"
      using False by (auto simp: Let_def mult.commute)
    have fewer: "nat ((dx - ?i) + (dy - ?j)) < nat ((dx - i) + (dy - j))"
      using moves stay_x stay_y Suc.prems(2,4) by (auto split: if_splits)
    have ih: "last (line_squares turns ?x ?y to_x to_y dx (- dy) step_x step_y ?err t) = Rect to_x to_y t t \<and>
        length (line_squares turns ?x ?y to_x to_y dx (- dy) step_x step_y ?err t) \<le> nat ((dx - ?i) + (dy - ?j)) + 1"
    proof (rule Suc.IH)
      show "0 \<le> ?i" "?i \<le> dx" "0 \<le> ?j" "?j \<le> dy" using Suc.prems(1-4) stay_x stay_y by auto
      show "nat ((dx - ?i) + (dy - ?j)) < turns" using fewer Suc.prems(5) by linarith
      show "?x = from_x + ?i * step_x" "?y = from_y + ?j * step_y" using Suc.prems(6,8) by (simp_all add: algebra_simps)
      show "?err = dx * (1 + ?j) - dy * (1 + ?i)" using Suc.prems(12) by (simp add: algebra_simps)
    qed (use Suc.prems in auto)
    have some: "line_squares turns ?x ?y to_x to_y dx (- dy) step_x step_y ?err t \<noteq> []"
      using fewer Suc.prems(5) by (cases turns) auto
    show ?thesis
      unfolding step last.simps list.size if_not_P [OF some]
    proof
      show "last (line_squares turns ?x ?y to_x to_y dx (- dy) step_x step_y ?err t) = Rect to_x to_y t t" using ih by (rule conjunct1)
      show "length (line_squares turns ?x ?y to_x to_y dx (- dy) step_x step_y ?err t) + Suc 0 \<le> nat (dx - i + (dy - j)) + 1"
        using conjunct2 [OF ih] fewer by linarith
    qed
  qed simp
qed simp

text \<open>
  C22. The loop that draws a line ends: it stops at the end point after at most as many squares as
  the two distances add up to and one, from any start, in any direction.
\<close>
theorem pixel_line_ends:
  "last (draw_pixel_line from_x from_y to_x to_y t) = Rect to_x to_y t t \<and>
   length (draw_pixel_line from_x from_y to_x to_y t) \<le> nat (\<bar>to_x - from_x\<bar> + \<bar>to_y - from_y\<bar>) + 1"
proof -
  let ?sx = "if from_x < to_x then 1 else - 1" and ?sy = "if from_y < to_y then 1 else - 1"
  have "to_x = from_x + \<bar>to_x - from_x\<bar> * ?sx" "to_y = from_y + \<bar>to_y - from_y\<bar> * ?sy" by auto
  note target = this
  have "last (line_squares (nat (\<bar>to_x - from_x\<bar> + \<bar>to_y - from_y\<bar>) + 1) from_x from_y to_x to_y \<bar>to_x - from_x\<bar>
        (- \<bar>to_y - from_y\<bar>) ?sx ?sy (\<bar>to_x - from_x\<bar> - \<bar>to_y - from_y\<bar>) t) = Rect to_x to_y t t \<and>
      length (line_squares (nat (\<bar>to_x - from_x\<bar> + \<bar>to_y - from_y\<bar>) + 1) from_x from_y to_x to_y \<bar>to_x - from_x\<bar>
        (- \<bar>to_y - from_y\<bar>) ?sx ?sy (\<bar>to_x - from_x\<bar> - \<bar>to_y - from_y\<bar>) t)
      \<le> nat ((\<bar>to_x - from_x\<bar> - 0) + (\<bar>to_y - from_y\<bar> - 0)) + 1"
    by (rule line_squares_end [OF _ _ _ _ _ _ target(1) _ target(2)]) simp_all
  then show ?thesis
    unfolding draw_pixel_line_def Let_def by (simp only: diff_minus_eq_add add_uminus_conv_diff diff_zero)
qed

section \<open>The file indicators\<close>

text \<open>
  Whatever the number of files, the indicators show a window of the list that contains the
  current file, so exactly one of them is highlighted.
\<close>
theorem current_file_indicated:
  assumes "index < files" "indicator_window index files = (first, shown)"
  shows "shown = min files 40 \<and> first + shown \<le> files \<and> (\<exists>!n. n < shown \<and> first + n = index)"
proof -
  have shown: "shown = min files 40" and first: "first \<le> index" "index < first + shown" "first + shown \<le> files"
    using assms by (cases "files > 40"; cases "index > 20"; simp add: indicator_window_def min_def split: if_splits; linarith)+
  moreover have "\<exists>!n. n < shown \<and> first + n = index"
    using first by (intro ex1I [of _ "index - first"]) auto
  ultimately show ?thesis by blast
qed

theorem current_file_indicated_witness: "\<exists>!n. n < 40 \<and> 80 + n = (100 :: nat)"
proof -
  have "indicator_window 100 200 = (80, 40)" by (simp add: indicator_window_def)
  from current_file_indicated [OF _ this] show ?thesis by simp
qed

theorem render_player_defined_witness:
  "\<exists>canvas. render_player simple_codecs two_files ''ADD MUSIC TO /m'' 35 = Some canvas \<and> length canvas = 139776"
  using render_player_defined [OF simple_codecs_short two_files_ok, of "''ADD MUSIC TO /m''" 35] by (simp add: canvas_size)

end
