(* ===== verification/Chiptune_Deck.thy ===== *)
theory Chiptune_Deck
  imports Chiptune_Screen Deck_Frontend
begin

section \<open>The chiptune player's threads and main loop (\<open>src/chiptune_deck.cpp\<close>)\<close>

text \<open>
  The main thread and the thread that generates the sound share the player and the audio device
  under one mutex.  Every section the main thread runs under the mutex is a step; before it come any
  number of turns of the playback thread and actions of the device's writer thread.  What the
  outside answers during a turn is an argument, \<open>None\<close> is undefined behaviour.  The file search
  gets the listing of its directory, error codes are shown by the parameter \<open>strerror\<close>.
\<close>

definition kAudioFragments :: nat where "kAudioFragments = 4"

subsection \<open>The playback thread\<close>

record audio_loop =
  al_started :: bool
  al_stopping :: bool
  al_failed :: bool
  al_error :: message

definition created_loop :: audio_loop where
  "created_loop = \<lparr>al_started = False, al_stopping = False, al_failed = False, al_error = Msg []\<rparr>"

definition loop_start :: "bool \<Rightarrow> audio_loop \<Rightarrow> bool \<times> audio_loop" where
  "loop_start thread_ok l =
     (if al_started l then (True, l)
      else if \<not> thread_ok then (False, l)
      else (True, l\<lparr>al_started := True\<rparr>))"

definition loop_stop :: "audio_loop \<Rightarrow> audio_loop" where
  "loop_stop l = (if \<not> al_started l then l else l\<lparr>al_stopping := True, al_started := False\<rparr>)"

definition take_error :: "audio_loop \<Rightarrow> message option \<times> audio_loop" where
  "take_error l = (if al_error l = Msg [] then (None, l) else (Some (al_error l), l\<lparr>al_error := Msg []\<rparr>))"

record ('e, 'v) deck =
  cd_player :: "('e, 'v) player"
  cd_audio :: DeckAudio
  cd_loop :: audio_loop
  cd_world :: world
  cd_input :: PlayerInput
  cd_framebuffer :: DeckFramebuffer
  cd_volume :: nat
  cd_status :: string
  cd_dirty :: bool
  cd_frame :: u32

text \<open>One turn of \<open>run\<close> under the mutex, with an error string of its own.\<close>

definition playback_turn :: "('e, 'v) codecs \<Rightarrow> ('e, 'v) deck \<Rightarrow> ('e, 'v) deck option" where
  "playback_turn libs d =
     (if \<not> al_started (cd_loop d) \<or> al_stopping (cd_loop d) \<or> al_failed (cd_loop d) then Some d
      else
        (case generate libs ((cd_player d)\<lparr>error_text := Msg []\<rparr>) (Some (cd_audio d)) (cd_world d) of
           None \<Rightarrow> None
         | Some (ok, p, audio, w) \<Rightarrow>
             Some (d\<lparr>cd_player := p, cd_audio := (case audio of Some au \<Rightarrow> au | None \<Rightarrow> cd_audio d), cd_world := w,
                     cd_loop := (if ok then cd_loop d else (cd_loop d)\<lparr>al_failed := True, al_error := error_text p\<rparr>)\<rparr>)))"

datatype background = Playback | Writer writer_action

fun run_background :: "('e, 'v) codecs \<Rightarrow> background list \<Rightarrow> ('e, 'v) deck \<Rightarrow> ('e, 'v) deck option" where
  "run_background libs [] d = Some d"
| "run_background libs (b # bs) d =
     (case (case b of Playback \<Rightarrow> playback_turn libs d | Writer action \<Rightarrow> Some (d\<lparr>cd_audio := writer_acts (cd_audio d) action\<rparr>)) of
        None \<Rightarrow> None
      | Some d' \<Rightarrow> run_background libs bs d')"

subsection \<open>One turn of the main loop\<close>

record player_turn =
  pt_shutdown :: bool
  pt_input :: turn_input
  pt_background :: "nat \<Rightarrow> background list"
  pt_dsp :: dsp_kernel

definition show_message :: "(errno \<Rightarrow> string) \<Rightarrow> message \<Rightarrow> string" where
  "show_message strerror m = (case m of Msg s \<Rightarrow> s | Errno_msg s e \<Rightarrow> s @ strerror e)"

definition press_file :: "('e, 'v) codecs \<Rightarrow> int \<Rightarrow> ('e, 'v) deck \<Rightarrow> ('e, 'v) deck" where
  "press_file libs direction d =
     (let (ok, p, w) = change_file libs direction (cd_player d) (cd_world d)
      in d\<lparr>cd_player := p, cd_world := w, cd_dirty := (cd_dirty d \<or> ok)\<rparr>)"

definition press_track :: "('e, 'v) codecs \<Rightarrow> int \<Rightarrow> ('e, 'v) deck \<Rightarrow> ('e, 'v) deck" where
  "press_track libs direction d =
     (let (ok, p) = change_track libs direction (cd_player d)
      in d\<lparr>cd_player := p, cd_dirty := (cd_dirty d \<or> ok)\<rparr>)"

definition press_pause :: "('e, 'v) deck \<Rightarrow> ('e, 'v) deck" where
  "press_pause d = d\<lparr>cd_player := toggle_pause (cd_player d), cd_dirty := True\<rparr>"

definition press_mode :: "('e, 'v) deck \<Rightarrow> ('e, 'v) deck" where
  "press_mode d = d\<lparr>cd_player := cycle_playback_mode (cd_player d), cd_dirty := True\<rparr>"

text \<open>A command's section, the \<open>n\<close>th of the turn.\<close>

definition on_command ::
  "('e, 'v) codecs \<Rightarrow> player_turn \<Rightarrow> u32 \<Rightarrow> u32 \<Rightarrow> nat \<Rightarrow> (('e, 'v) deck \<Rightarrow> ('e, 'v) deck) \<Rightarrow> ('e, 'v) deck \<Rightarrow> ('e, 'v) deck option" where
  "on_command libs t commands control n act d =
     (if commands AND control \<noteq> 0 then map_option act (run_background libs (pt_background t n) d) else Some d)"

definition requested_volume :: "u32 \<Rightarrow> nat \<Rightarrow> nat" where
  "requested_volume commands v =
     (if commands AND ControlVolumeUp \<noteq> 0 then min 100 (v + 5) else if v \<ge> 5 then v - 5 else 0)"

definition on_volume ::
  "('e, 'v) codecs \<Rightarrow> string \<Rightarrow> player_turn \<Rightarrow> u32 \<Rightarrow> ('e, 'v) deck \<Rightarrow> ('e, 'v) deck option" where
  "on_volume libs volume_state t commands d =
     (let requested = requested_volume commands (cd_volume d)
      in if commands AND (ControlVolumeDown OR ControlVolumeUp) = 0 \<or> requested = cd_volume d then Some d
         else
           (case run_background libs (pt_background t 6) d of
              None \<Rightarrow> None
            | Some d1 \<Rightarrow>
                (case audio_open_device (pt_dsp t) (nat kSampleRate) requested kAudioFragments (cd_audio d1) of
                   None \<Rightarrow> None
                 | Some (Inl _, au) \<Rightarrow> Some (d1\<lparr>cd_audio := au\<rparr>)
                 | Some (Inr _, au) \<Rightarrow>
                     Some (d1\<lparr>cd_audio := au, cd_volume := requested, cd_dirty := True,
                              cd_world := snd (save_player_volume volume_state requested (cd_world d1))\<rparr>))))"

definition on_error ::
  "('e, 'v) codecs \<Rightarrow> (errno \<Rightarrow> string) \<Rightarrow> player_turn \<Rightarrow> ('e, 'v) deck \<Rightarrow> ('e, 'v) deck option" where
  "on_error libs strerror t d =
     (case run_background libs (pt_background t 7) d of
        None \<Rightarrow> None
      | Some d1 \<Rightarrow>
          (case take_error (cd_loop d1) of
             (None, l) \<Rightarrow> Some (d1\<lparr>cd_loop := l\<rparr>)
           | (Some m, l) \<Rightarrow>
               Some (d1\<lparr>cd_loop := l, cd_status := ''PLAYBACK ERROR: '' @ show_message strerror m, cd_dirty := True\<rparr>)))"

fun run_steps :: "('a \<Rightarrow> 'a option) list \<Rightarrow> 'a \<Rightarrow> 'a option" where
  "run_steps [] d = Some d"
| "run_steps (f # fs) d = (case f d of None \<Rightarrow> None | Some d' \<Rightarrow> run_steps fs d')"

definition command_steps ::
  "('e, 'v) codecs \<Rightarrow> (errno \<Rightarrow> string) \<Rightarrow> string \<Rightarrow> player_turn \<Rightarrow> u32 \<Rightarrow> (('e, 'v) deck \<Rightarrow> ('e, 'v) deck option) list" where
  "command_steps libs strerror volume_state t commands =
     [on_command libs t commands ControlPreviousFile 0 (press_file libs (- 1)),
      on_command libs t commands ControlNextFile 1 (press_file libs 1),
      on_command libs t commands ControlPreviousTrack 2 (press_track libs (- 1)),
      on_command libs t commands ControlNextTrack 3 (press_track libs 1),
      on_command libs t commands ControlTogglePause 4 press_pause,
      on_command libs t commands ControlCyclePlaybackMode 5 press_mode,
      on_volume libs volume_state t commands,
      on_error libs strerror t]"

text \<open>Drawing and presenting; the flag tells whether the frame could be presented.\<close>

definition draw_frame :: "('e, 'v) codecs \<Rightarrow> player_turn \<Rightarrow> ('e, 'v) deck \<Rightarrow> (bool \<times> ('e, 'v) deck) option" where
  "draw_frame libs t d =
     (if \<not> (cd_dirty d \<or> cd_frame d mod 2 = 0) then Some (True, d)
      else
        (case run_background libs (pt_background t 8) d of
           None \<Rightarrow> None
         | Some d1 \<Rightarrow>
             (case render_player libs (cd_player d1) (cd_status d1) (cd_volume d1) of
                None \<Rightarrow> None
              | Some canvas \<Rightarrow>
                  (case present_rgb565 (Some (canvas_bytes canvas)) 624 224 (nat kCanvasWidth * 2) (cd_framebuffer d1) of
                     (Inl _, fb) \<Rightarrow> Some (False, d1\<lparr>cd_framebuffer := fb\<rparr>)
                   | (Inr _, fb) \<Rightarrow> Some (True, d1\<lparr>cd_framebuffer := fb, cd_dirty := False\<rparr>)))))"

text \<open>A turn ends with the status of the program or without one.\<close>

definition chiptune_frame ::
  "('e, 'v) codecs \<Rightarrow> (errno \<Rightarrow> string) \<Rightarrow> string \<Rightarrow> player_turn \<Rightarrow> ('e, 'v) deck \<Rightarrow> (nat option \<times> ('e, 'v) deck) option" where
  "chiptune_frame libs strerror volume_state t d0 =
     (if pt_shutdown t then Some (Some 0, d0)
      else
        (let (commands, input) = read_commands (pt_input t) (cd_input d0);
             d = d0\<lparr>cd_input := input\<rparr>
         in if commands AND ControlBack \<noteq> 0 then Some (Some 0, d)
            else
              (case run_steps (command_steps libs strerror volume_state t commands) d of
                 None \<Rightarrow> None
               | Some d1 \<Rightarrow>
                   (case draw_frame libs t d1 of
                      None \<Rightarrow> None
                    | Some (False, d2) \<Rightarrow> Some (Some 1, d2)
                    | Some (True, d2) \<Rightarrow> Some (None, d2\<lparr>cd_frame := cd_frame d2 + 1\<rparr>)))))"

fun chiptune_loop ::
  "('e, 'v) codecs \<Rightarrow> (errno \<Rightarrow> string) \<Rightarrow> string \<Rightarrow> player_turn list \<Rightarrow> ('e, 'v) deck \<Rightarrow> (nat option \<times> ('e, 'v) deck) option" where
  "chiptune_loop libs strerror volume_state [] d = Some (None, d)"
| "chiptune_loop libs strerror volume_state (t # ts) d =
     (case chiptune_frame libs strerror volume_state t d of
        None \<Rightarrow> None
      | Some (Some status, d') \<Rightarrow> Some (Some status, d'\<lparr>cd_loop := loop_stop (cd_loop d')\<rparr>)
      | Some (None, d') \<Rightarrow> chiptune_loop libs strerror volume_state ts d')"

subsection \<open>The start\<close>

record player_start =
  ps_directory :: string
  ps_listing :: "(string \<times> node) list option"
  ps_hint :: bool
  ps_framebuffer :: fb_kernel
  ps_entries :: "input_entry list option"
  ps_volume :: "string option"
  ps_dsp :: dsp_kernel
  ps_process :: nat
  ps_thread_ok :: bool

text \<open>The program's status, or the state its loop starts in.\<close>

definition chiptune_start ::
  "('e, 'v) codecs \<Rightarrow> (errno \<Rightarrow> string) \<Rightarrow> player_start \<Rightarrow> world \<Rightarrow> (nat + ('e, 'v) deck) option" where
  "chiptune_start libs strerror a w =
     (let files = sort (scan_chiptunes (ps_directory a) 5 (ps_listing a) [])
      in case fb_open_device (ps_framebuffer a) (created_framebuffer (ps_hint a)) of
           (Inl _, _) \<Rightarrow> Some (Inl 1)
         | (Inr _, fb) \<Rightarrow>
             (let input = fst (discover (ps_entries a) created_input);
                  volume = (case DeckReadVolumePercent (ps_volume a) of (True, v) \<Rightarrow> v | (False, _) \<Rightarrow> 0)
              in case audio_open_device (ps_dsp a) (nat kSampleRate) volume kAudioFragments created_audio of
                   None \<Rightarrow> None
                 | Some (_, au) \<Rightarrow>
                     (let (ok, p, w1) = (if files = [] then (True, created_player files (ps_process a), w)
                                         else open_first libs (created_player files (ps_process a)) w);
                          status = (if ok then ''ADD MUSIC TO '' @ ps_directory a
                                    else ''CANNOT PLAY FILES: '' @ show_message strerror (error_text p));
                          (started, l) = loop_start (ps_thread_ok a) created_loop
                      in if \<not> started then Some (Inl 1)
                         else Some (Inr \<lparr>cd_player = p, cd_audio = au, cd_loop = l, cd_world = w1, cd_input = input,
                                         cd_framebuffer = fb, cd_volume = volume, cd_status = status, cd_dirty = True,
                                         cd_frame = 0\<rparr>))))"

section \<open>The command line tools\<close>

datatype main_mode = Probe string | Render_preview string string | Play string | Usage

definition parse_mode :: "string list \<Rightarrow> main_mode" where
  "parse_mode argv =
     (if length argv = 3 \<and> argv ! 1 = ''--probe'' then Probe (argv ! 2)
      else if length argv = 4 \<and> argv ! 1 = ''--render-preview'' then Render_preview (argv ! 2) (argv ! 3)
      else if length argv \<noteq> 2 then Usage
      else Play (argv ! 1))"

fun generate_blocks ::
  "('e, 'v) codecs \<Rightarrow> nat \<Rightarrow> int \<Rightarrow> ('e, 'v) player \<Rightarrow> world \<Rightarrow> (int \<times> ('e, 'v) player \<times> world) option option" where
  "generate_blocks libs 0 peak p w = Some (Some (peak, p, w))"
| "generate_blocks libs (Suc n) peak p w =
     (case generate libs p None w of
        None \<Rightarrow> None
      | Some (False, _, _, _) \<Rightarrow> Some None
      | Some (True, p', _, w') \<Rightarrow> generate_blocks libs n (foldl (\<lambda>m s. max m \<bar>sint s\<bar>) peak (visual p')) p' w')"

definition probe_line :: "int \<Rightarrow> nat \<Rightarrow> int \<Rightarrow> string" where
  "probe_line tracks samples peak =
     ''tracks='' @ signed_decimal tracks @ '' samples='' @ decimal samples @ '' peak='' @ signed_decimal peak @ [NL]"

text \<open>The status and the line on the standard output, if any.\<close>

definition probe_file ::
  "('e, 'v) codecs \<Rightarrow> nat \<Rightarrow> string \<Rightarrow> world \<Rightarrow> (nat \<times> string option) option" where
  "probe_file libs process path w =
     (if lower_extension path = ''.ogg''
      then
        (case open_first libs (created_player [path] process) w of
           (False, _, _) \<Rightarrow> Some (1, None)
         | (True, p, w1) \<Rightarrow>
             (case generate_blocks libs 60 0 p w1 of
                None \<Rightarrow> None
              | Some None \<Rightarrow> Some (1, None)
              | Some (Some (peak, _, _)) \<Rightarrow>
                  Some (if peak > 0 then 0 else 1, Some (probe_line 1 (60 * kFramesPerTick * 2) peak))))
      else
        (case read_chiptune path w of
           (Inl _, _) \<Rightarrow> Some (1, None)
         | (Inr bytes, _) \<Rightarrow>
             (case gme_open_data libs bytes of
                (None, Some e) \<Rightarrow>
                  (let tracks = gme_track_count libs e;
                       (track_error, e1) = gme_start_track libs e 0;
                       total = nat kSampleRate * 2;
                       (play_error, out, _) = (if track_error \<noteq> None then (track_error, [], e1) else gme_play libs e1 total);
                       samples = take total (out @ drop (length out) (replicate total 0));
                       peak = foldl (\<lambda>m s. max m \<bar>sint s\<bar>) 0 samples
                   in if play_error \<noteq> None then Some (1, None)
                      else Some (if tracks > 0 then 0 else 1, Some (probe_line tracks total peak)))
              | _ \<Rightarrow> Some (1, None))))"

text \<open>The picture as a portable pixmap.\<close>

definition preview_pixel :: "u16 \<Rightarrow> string" where
  "preview_pixel colour =
     [char_of (unat (drop_bit 11 colour AND 0x1f) * 255 div 31), char_of (unat (drop_bit 5 colour AND 0x3f) * 255 div 63),
      char_of (unat (colour AND 0x1f) * 255 div 31)]"

definition preview_bytes :: "Canvas \<Rightarrow> string" where
  "preview_bytes canvas = ''P6'' @ [NL] @ ''624 224'' @ [NL] @ ''255'' @ [NL] @ concat (map preview_pixel canvas)"

text \<open>
  The answers are whether opening, writing and closing the output succeed; the result is the status and,
  where all did, the file.  A failed run may leave a part of it behind.
\<close>

definition render_preview ::
  "('e, 'v) codecs \<Rightarrow> nat \<Rightarrow> string \<Rightarrow> bool \<times> bool \<times> bool \<Rightarrow> world \<Rightarrow> (nat \<times> string option) option" where
  "render_preview libs process track_path answers w =
     (case open_first libs (created_player [track_path] process) w of
        (False, _, _) \<Rightarrow> Some (1, None)
      | (True, p, w1) \<Rightarrow>
          (case generate_blocks libs 4 0 p w1 of
             None \<Rightarrow> None
           | Some None \<Rightarrow> Some (1, None)
           | Some (Some (_, p2, _)) \<Rightarrow>
               (case render_player libs p2 [] 42 of
                  None \<Rightarrow> None
                | Some canvas \<Rightarrow>
                    (case answers of (opened, written, closed) \<Rightarrow>
                       if \<not> opened \<or> \<not> written \<or> \<not> closed then Some (1, None)
                       else Some (0, Some (preview_bytes canvas))))))"

section \<open>The session\<close>

definition deck_ok :: "('e, 'v) codecs \<Rightarrow> ('e, 'v) deck \<Rightarrow> bool" where
  "deck_ok libs d =
     (player_ok libs (cd_player d) \<and> plain_audio (Some (cd_audio d)) \<and> cd_volume d \<le> 100 \<and> fb_usable (cd_framebuffer d))"

text \<open>A driver that grants the player's rate, and whose script of writes suffices for the prefill.\<close>

definition dsp_plain :: "dsp_kernel \<Rightarrow> bool" where
  "dsp_plain k =
     ((\<forall>granted. configured k (nat kSampleRate) = Some granted \<longrightarrow> granted = kSampleRate) \<and>
      (\<forall>volume au. audio_open_device k (nat kSampleRate) volume kAudioFragments au \<noteq> None))"

lemma audio_open_plain:
  assumes "dsp_plain k"
  shows "\<exists>r au. audio_open_device k (nat kSampleRate) volume kAudioFragments au0 = Some (r, au) \<and> plain_audio (Some au)"
proof -
  obtain r au where op: "audio_open_device k (nat kSampleRate) volume kAudioFragments au0 = Some (r, au)"
    using assms unfolding dsp_plain_def by (metis not_None_eq prod.exhaust)
  have "source_rate au = output_rate au" if "available au"
    using op that assms
    by (auto simp: audio_open_device_def Let_def audio_close_device_def write_all_def available_def DeckAudioOutputRate_def
        dsp_plain_def split: if_splits option.splits bool.splits prod.splits)
  then show ?thesis using op by (simp add: plain_audio_def)
qed

lemma writer_acts_plain: "plain_audio (Some au) \<Longrightarrow> plain_audio (Some (writer_acts au action))"
  by (cases action) (auto simp: plain_audio_def writer_acts_def dequeue_def start_playback_def available_def Let_def)

text \<open>What the background leaves alone.\<close>

definition main_thread :: "('e, 'v) deck \<Rightarrow> PlayerInput \<times> DeckFramebuffer \<times> nat \<times> string \<times> bool \<times> u32" where
  "main_thread d = (cd_input d, cd_framebuffer d, cd_volume d, cd_status d, cd_dirty d, cd_frame d)"

lemma playback_turn_ok:
  assumes laws: "stream_laws libs" and ok: "deck_ok libs d"
  shows "\<exists>d'. playback_turn libs d = Some d' \<and> deck_ok libs d' \<and> main_thread d' = main_thread d"
proof (cases "\<not> al_started (cd_loop d) \<or> al_stopping (cd_loop d) \<or> al_failed (cd_loop d)")
  case True
  then show ?thesis using ok by (simp add: playback_turn_def)
next
  case False
  have "player_ok libs ((cd_player d)\<lparr>error_text := Msg []\<rparr>)" "plain_audio (Some (cd_audio d))"
    using ok by (simp_all add: deck_ok_def)
  from generate_ok [OF laws this, of "cd_world d"] obtain fin p audio w where
    "generate libs ((cd_player d)\<lparr>error_text := Msg []\<rparr>) (Some (cd_audio d)) (cd_world d) = Some (fin, p, audio, w)"
    "player_ok libs p" "plain_audio audio" by blast
  then show ?thesis
    using ok False by (auto simp: playback_turn_def deck_ok_def main_thread_def split: option.split)
qed

lemma run_background_ok:
  assumes laws: "stream_laws libs" and ok: "deck_ok libs d"
  shows "\<exists>d'. run_background libs bs d = Some d' \<and> deck_ok libs d' \<and> main_thread d' = main_thread d"
  using ok
proof (induction bs arbitrary: d)
  case (Cons b bs)
  have "\<exists>d1. (case b of Playback \<Rightarrow> playback_turn libs d | Writer action \<Rightarrow> Some (d\<lparr>cd_audio := writer_acts (cd_audio d) action\<rparr>)) =
      Some d1 \<and> deck_ok libs d1 \<and> main_thread d1 = main_thread d"
  proof (cases b)
    case Playback
    then show ?thesis using playback_turn_ok [OF laws Cons.prems] by simp
  next
    case (Writer action)
    then show ?thesis using Cons.prems writer_acts_plain by (simp add: deck_ok_def main_thread_def)
  qed
  then obtain d1 where d1: "(case b of Playback \<Rightarrow> playback_turn libs d
      | Writer action \<Rightarrow> Some (d\<lparr>cd_audio := writer_acts (cd_audio d) action\<rparr>)) = Some d1"
    "deck_ok libs d1" "main_thread d1 = main_thread d" by blast
  obtain d' where "run_background libs bs d1 = Some d'" "deck_ok libs d'" "main_thread d' = main_thread d1"
    using Cons.IH [OF d1(2)] by blast
  then show ?case using d1(1,3) by simp
qed simp

definition good_step :: "('e, 'v) codecs \<Rightarrow> (('e, 'v) deck \<Rightarrow> ('e, 'v) deck option) \<Rightarrow> bool" where
  "good_step libs f = (\<forall>d. deck_ok libs d \<longrightarrow> (\<exists>d'. f d = Some d' \<and> deck_ok libs d'))"

lemma run_good_steps:
  "list_all (good_step libs) fs \<Longrightarrow> deck_ok libs d \<Longrightarrow> \<exists>d'. run_steps fs d = Some d' \<and> deck_ok libs d'"
proof (induction fs arbitrary: d)
  case (Cons f fs)
  then obtain d1 where "f d = Some d1" "deck_ok libs d1" by (auto simp: good_step_def)
  then show ?case using Cons.IH [of d1] Cons.prems by simp
qed simp

lemma press_ok:
  assumes "deck_ok libs d"
  shows "deck_ok libs (press_file libs direction d)" "deck_ok libs (press_track libs direction d)"
    "deck_ok libs (press_pause d)" "deck_ok libs (press_mode d)"
proof -
  have ok: "player_ok libs (cd_player d)" using assms by (simp add: deck_ok_def)
  obtain b p w where "change_file libs direction (cd_player d) (cd_world d) = (b, p, w)" by (metis prod_cases3)
  then show "deck_ok libs (press_file libs direction d)"
    using change_file_ok [OF ok] assms by (simp add: press_file_def deck_ok_def)
  obtain b p where "change_track libs direction (cd_player d) = (b, p)" by fastforce
  then show "deck_ok libs (press_track libs direction d)"
    using change_track_ok [OF ok] assms by (simp add: press_track_def deck_ok_def)
qed (use assms in \<open>simp_all add: deck_ok_def press_pause_def press_mode_def toggle_pause_def cycle_playback_mode_def player_ok_def\<close>)

lemma on_command_good:
  assumes "stream_laws libs" "\<And>d. deck_ok libs d \<Longrightarrow> deck_ok libs (act d)"
  shows "good_step libs (on_command libs t commands control n act)"
  unfolding good_step_def on_command_def using run_background_ok [OF assms(1)] assms(2) by fastforce

lemma on_volume_good:
  assumes "stream_laws libs" "dsp_plain (pt_dsp t)"
  shows "good_step libs (on_volume libs volume_state t commands)"
  unfolding good_step_def
proof (intro allI impI)
  fix d :: "('a, 'b) deck" assume ok: "deck_ok libs d"
  let ?requested = "requested_volume commands (cd_volume d)"
  have volume: "?requested \<le> 100" using ok by (auto simp: requested_volume_def deck_ok_def)
  obtain d1 where d1: "run_background libs (pt_background t 6) d = Some d1" "deck_ok libs d1"
    using run_background_ok [OF assms(1) ok] by blast
  obtain r au where au: "audio_open_device (pt_dsp t) (nat kSampleRate) ?requested kAudioFragments (cd_audio d1) = Some (r, au)"
    "plain_audio (Some au)" using audio_open_plain [OF assms(2)] by blast
  show "\<exists>d'. on_volume libs volume_state t commands d = Some d' \<and> deck_ok libs d'"
    using ok d1 au volume by (cases r) (auto simp: on_volume_def Let_def deck_ok_def)
qed

lemma on_error_good:
  assumes "stream_laws libs"
  shows "good_step libs (on_error libs strerror t)"
  unfolding good_step_def
proof (intro allI impI)
  fix d :: "('a, 'b) deck" assume "deck_ok libs d"
  then obtain d1 where "run_background libs (pt_background t 7) d = Some d1" "deck_ok libs d1"
    using run_background_ok [OF assms] by blast
  then show "\<exists>d'. on_error libs strerror t d = Some d' \<and> deck_ok libs d'"
    by (auto simp: on_error_def take_error_def deck_ok_def)
qed

lemma command_steps_good:
  assumes "stream_laws libs" "dsp_plain (pt_dsp t)"
  shows "list_all (good_step libs) (command_steps libs strerror volume_state t commands)"
  using assms by (simp add: command_steps_def on_command_good on_volume_good on_error_good press_ok)

text \<open>A drawn frame is on the panel.\<close>

lemma read_canvas_pixel:
  assumes "length canvas = nat (kCanvasWidth * kCanvasHeight)" "x < unat (624 :: u32)" "y < unat (224 :: u32)"
  shows "read_u16 (canvas_bytes canvas) (y * (nat kCanvasWidth * 2) + x * 2) = canvas ! (y * 624 + x)"
proof -
  have "x < 624" "y \<le> 223" using assms(2,3) by simp_all
  moreover have "length canvas = 139776" using assms(1) by (simp add: canvas_size)
  ultimately have "y * 624 + x < length canvas" by linarith
  moreover have "y * (nat kCanvasWidth * 2) + x * 2 = 2 * (y * 624 + x)" by (simp add: canvas_size)
  ultimately show ?thesis using read_canvas by metis
qed

lemma draw_frame_shows:
  assumes laws: "stream_laws libs" "short_tracks libs" and ok: "deck_ok libs d"
    and due: "cd_dirty d \<or> cd_frame d mod 2 = 0"
  shows "\<exists>d' canvas. draw_frame libs t d = Some (True, d') \<and> deck_ok libs d' \<and>
    render_player libs (cd_player d') (cd_status d') (cd_volume d') = Some canvas \<and>
    fb_memory (cd_framebuffer d') = panel_contents 624 224 (\<lambda>x y. canvas ! (y * 624 + x)) (cd_framebuffer d)"
proof -
  obtain d1 where d1: "run_background libs (pt_background t 8) d = Some d1" "deck_ok libs d1" "main_thread d1 = main_thread d"
    using run_background_ok [OF laws(1) ok] by blast
  have same: "cd_framebuffer d1 = cd_framebuffer d" using d1(3) by (simp add: main_thread_def)
  obtain canvas where canvas: "render_player libs (cd_player d1) (cd_status d1) (cd_volume d1) = Some canvas"
    "length canvas = nat (kCanvasWidth * kCanvasHeight)"
    using render_player_ok [OF laws(2), of "cd_player d1"] d1(2) unfolding deck_ok_def by blast
  have "fb_usable (cd_framebuffer d1)" using d1(2) by (simp add: deck_ok_def)
  moreover have "DeckComputeScaledLayout 624 224 \<noteq> None" by (simp add: game_layout)
  moreover have "unat (624 :: u32) * 2 \<le> nat kCanvasWidth * 2" by (simp add: canvas_size)
  ultimately obtain fb where fb:
    "present_rgb565 (Some (canvas_bytes canvas)) 624 224 (nat kCanvasWidth * 2) (cd_framebuffer d1) = (Inr (), fb)"
    "fb_usable fb" "fb_memory fb = panel_contents 624 224
      (\<lambda>x y. read_u16 (canvas_bytes canvas) (y * (nat kCanvasWidth * 2) + x * 2)) (cd_framebuffer d1)"
    by (rule present_rgb565_shows)
  have "fb_memory fb = panel_contents 624 224 (\<lambda>x y. canvas ! (y * 624 + x)) (cd_framebuffer d)"
    unfolding fb(3) same by (rule panel_contents_cong) (rule read_canvas_pixel [OF canvas(2)])
  then show ?thesis
    using due d1(1,2) canvas(1) fb(1,2) by (auto simp: draw_frame_def deck_ok_def)
qed

lemma draw_frame_ok:
  assumes "stream_laws libs" "short_tracks libs" "deck_ok libs d"
  shows "\<exists>d'. draw_frame libs t d = Some (True, d') \<and> deck_ok libs d'"
proof (cases "cd_dirty d \<or> cd_frame d mod 2 = 0")
  case True
  then show ?thesis using draw_frame_shows [OF assms True] by blast
qed (use assms in \<open>simp add: draw_frame_def\<close>)

lemma chiptune_frame_ok:
  assumes laws: "stream_laws libs" "short_tracks libs" and ok: "deck_ok libs d" and dsp: "dsp_plain (pt_dsp t)"
  shows "\<exists>r d'. chiptune_frame libs strerror volume_state t d = Some (r, d') \<and> deck_ok libs d' \<and> r \<in> {None, Some 0}"
proof -
  obtain commands input where rd: "read_commands (pt_input t) (cd_input d) = (commands, input)" by fastforce
  let ?d = "d\<lparr>cd_input := input\<rparr>"
  have ok0: "deck_ok libs ?d" using ok by (simp add: deck_ok_def)
  obtain d1 where d1: "run_steps (command_steps libs strerror volume_state t commands) ?d = Some d1" "deck_ok libs d1"
    using run_good_steps [OF command_steps_good [OF laws(1) dsp] ok0] by blast
  obtain d2 where d2: "draw_frame libs t d1 = Some (True, d2)" "deck_ok libs d2"
    using draw_frame_ok [OF laws d1(2)] by blast
  then have "deck_ok libs (d2\<lparr>cd_frame := cd_frame d2 + 1\<rparr>)" by (simp add: deck_ok_def)
  then show ?thesis using ok ok0 rd d1(1) d2(1)
    by (cases "pt_shutdown t"; cases "commands AND ControlBack \<noteq> 0") (simp_all add: chiptune_frame_def Let_def)
qed

lemma chiptune_loop_ok:
  assumes "stream_laws libs" "short_tracks libs" "deck_ok libs d" "\<forall>t \<in> set ts. dsp_plain (pt_dsp t)"
  shows "\<exists>r d'. chiptune_loop libs strerror volume_state ts d = Some (r, d') \<and> deck_ok libs d' \<and> r \<in> {None, Some 0}"
  using assms(3,4)
proof (induction ts arbitrary: d)
  case (Cons t ts)
  obtain r d1 where d1: "chiptune_frame libs strerror volume_state t d = Some (r, d1)" "deck_ok libs d1" "r \<in> {None, Some 0}"
    using chiptune_frame_ok [OF assms(1,2) Cons.prems(1)] Cons.prems(2) by fastforce
  show ?case
  proof (cases r)
    case None
    then show ?thesis using Cons.IH [OF d1(2)] Cons.prems(2) d1(1) by simp
  next
    case (Some status)
    moreover have "deck_ok libs (d1\<lparr>cd_loop := loop_stop (cd_loop d1)\<rparr>)" using d1(2) by (simp add: deck_ok_def)
    ultimately show ?thesis using d1(1,3) by simp
  qed
qed simp

lemma open_first_ok: "player_ok libs p \<Longrightarrow> open_first libs p w = (ok, p', w') \<Longrightarrow> player_ok libs p'"
  using open_first_loop_ok by (fastforce simp: open_first_def split: if_splits)

lemma chiptune_start_ok:
  assumes "dsp_plain (ps_dsp a)" "even (k_smem_len (ps_framebuffer a))" "chiptune_start libs strerror a w = Some (Inr d)"
  shows "deck_ok libs d"
proof -
  let ?files = "sort (scan_chiptunes (ps_directory a) 5 (ps_listing a) [])" and ?p = "created_player (sort (scan_chiptunes (ps_directory a) 5 (ps_listing a) [])) (ps_process a)"
  let ?volume = "case DeckReadVolumePercent (ps_volume a) of (True, v) \<Rightarrow> v | (False, _) \<Rightarrow> 0"
  obtain fb where fb: "fb_open_device (ps_framebuffer a) (created_framebuffer (ps_hint a)) = (Inr (), fb)"
    using assms(3) by (auto simp: chiptune_start_def Let_def split: sum.splits prod.splits)
  obtain r au where au: "audio_open_device (ps_dsp a) (nat kSampleRate) ?volume kAudioFragments created_audio = Some (r, au)"
    "plain_audio (Some au)" using audio_open_plain [OF assms(1)] by blast
  obtain ok p w1 where p: "(if ?files = [] then (True, ?p, w) else open_first libs ?p w) = (ok, p, w1)" by (metis prod_cases3)
  have "player_ok libs p" using p open_first_ok [OF created_player_ok] created_player_ok by (auto split: if_splits)
  moreover have "?volume \<le> 100"
  proof (cases "DeckReadVolumePercent (ps_volume a)")
    case (Pair good v)
    then show ?thesis
      using DeckReadVolumePercent_exact [of "the (ps_volume a)" v]
      by (cases good; cases "ps_volume a") (auto simp: DeckReadVolumePercent_def)
  qed
  moreover have "cd_player d = p \<and> cd_audio d = au \<and> cd_volume d = ?volume \<and> cd_framebuffer d = fb"
    using assms(3) fb au(1) p
    by (auto simp: chiptune_start_def Let_def loop_start_def created_loop_def split: if_splits)
  ultimately show ?thesis using au(2) fb_open_usable [OF fb assms(2)] by (simp add: deck_ok_def)
qed


text \<open>
  C11. What the player knows is what the panel shows: after any turns of a session a due frame is
  drawn and presented, and the mapping then holds exactly the screen of the player, the status and
  the volume of that moment.
\<close>
theorem player_screen_shown:
  assumes "stream_laws libs" "short_tracks libs" "dsp_plain (ps_dsp a)" "even (k_smem_len (ps_framebuffer a))"
    "chiptune_start libs strerror a w = Some (Inr d0)" "\<forall>t \<in> set ts. dsp_plain (pt_dsp t)"
    "chiptune_loop libs strerror volume_state ts d0 = Some (r, d)" "cd_dirty d \<or> cd_frame d mod 2 = 0"
  shows "\<exists>d' canvas. draw_frame libs t d = Some (True, d') \<and>
    render_player libs (cd_player d') (cd_status d') (cd_volume d') = Some canvas \<and>
    fb_memory (cd_framebuffer d') = panel_contents 624 224 (\<lambda>x y. canvas ! (y * 624 + x)) (cd_framebuffer d)"
proof -
  have "deck_ok libs d"
    using chiptune_loop_ok [OF assms(1,2) chiptune_start_ok [OF assms(3-5)] assms(6), of strerror volume_state] assms(7) by auto
  from draw_frame_shows [OF assms(1,2) this assms(8)] show ?thesis by blast
qed

section \<open>What a failure leaves behind\<close>

text \<open>Once a tick has failed no turn of the playback thread plays anything again.\<close>

lemma failed_background:
  "al_failed (cd_loop d) \<Longrightarrow> run_background libs bs d = Some d' \<Longrightarrow> cd_loop d' = cd_loop d \<and> cd_player d' = cd_player d"
proof (induction bs arbitrary: d)
  case (Cons b bs)
  show ?case
  proof (cases b)
    case Playback
    then show ?thesis using Cons.IH [of d] Cons.prems by (simp add: playback_turn_def)
  next
    case (Writer action)
    then show ?thesis using Cons.IH [of "d\<lparr>cd_audio := writer_acts (cd_audio d) action\<rparr>"] Cons.prems by simp
  qed
qed simp

lemma on_volume_loop:
  assumes "on_volume libs volume_state t commands d = Some d'"
  shows "d' = d \<or> (\<exists>d1. run_background libs (pt_background t 6) d = Some d1 \<and> cd_loop d' = cd_loop d1)"
proof (cases "commands AND (ControlVolumeDown OR ControlVolumeUp) = 0 \<or> requested_volume commands (cd_volume d) = cd_volume d")
  case True
  then show ?thesis using assms unfolding on_volume_def Let_def by simp
next
  case False
  then obtain d1 where d1: "run_background libs (pt_background t 6) d = Some d1"
    using assms unfolding on_volume_def Let_def by (cases "run_background libs (pt_background t 6) d") simp_all
  show ?thesis
  proof (cases "audio_open_device (pt_dsp t) (nat kSampleRate) (requested_volume commands (cd_volume d)) kAudioFragments (cd_audio d1)")
    case None
    then show ?thesis using assms False d1 unfolding on_volume_def Let_def by simp
  next
    case (Some result)
    obtain r au where "result = (r, au)" by fastforce
    then show ?thesis using assms False d1 Some unfolding on_volume_def Let_def by (cases r) auto
  qed
qed

lemma on_error_loop:
  assumes "on_error libs strerror t d = Some d'"
  shows "\<exists>d1. run_background libs (pt_background t 7) d = Some d1 \<and> al_failed (cd_loop d') = al_failed (cd_loop d1)"
proof (cases "run_background libs (pt_background t 7) d")
  case None
  then show ?thesis using assms unfolding on_error_def by simp
next
  case (Some d1)
  then show ?thesis using assms unfolding on_error_def take_error_def by (cases "al_error (cd_loop d1) = Msg []") auto
qed

lemma failed_step:
  assumes "al_failed (cd_loop d)" "f \<in> set (command_steps libs strerror volume_state t commands)" "f d = Some d'"
  shows "al_failed (cd_loop d')"
proof -
  have acts: "al_failed (cd_loop (press_file libs direction d)) = al_failed (cd_loop d)"
    "al_failed (cd_loop (press_track libs direction d)) = al_failed (cd_loop d)"
    "al_failed (cd_loop (press_pause d)) = al_failed (cd_loop d)" "al_failed (cd_loop (press_mode d)) = al_failed (cd_loop d)"
    for direction and d :: "('a, 'b) deck"
    by (simp_all add: press_file_def press_track_def press_pause_def press_mode_def split: prod.split)
  have command: "al_failed (cd_loop d')" if act: "on_command libs t commands control n act d = Some d'"
    "\<And>d. al_failed (cd_loop (act d)) = al_failed (cd_loop d)" for control n act
  proof (cases "commands AND control = 0")
    case True
    then show ?thesis using act(1) assms(1) by (simp add: on_command_def)
  next
    case False
    then obtain d1 where "run_background libs (pt_background t n) d = Some d1" "d' = act d1"
      using act(1) by (auto simp: on_command_def)
    then show ?thesis using failed_background [OF assms(1)] act(2) [of d1] assms(1) by simp
  qed
  have "al_failed (cd_loop d')" if "on_volume libs volume_state t commands d = Some d'"
    using on_volume_loop [OF that] failed_background [OF assms(1)] assms(1) by metis
  moreover have "al_failed (cd_loop d')" if "on_error libs strerror t d = Some d'"
    using on_error_loop [OF that] failed_background [OF assms(1)] assms(1) by metis
  ultimately have last: "al_failed (cd_loop d')"
    if "f = on_volume libs volume_state t commands \<or> f = on_error libs strerror t" using that assms(3) by blast
  from assms(2) consider "f = on_command libs t commands ControlPreviousFile 0 (press_file libs (- 1))"
    | "f = on_command libs t commands ControlNextFile 1 (press_file libs 1)"
    | "f = on_command libs t commands ControlPreviousTrack 2 (press_track libs (- 1))"
    | "f = on_command libs t commands ControlNextTrack 3 (press_track libs 1)"
    | "f = on_command libs t commands ControlTogglePause 4 press_pause"
    | "f = on_command libs t commands ControlCyclePlaybackMode 5 press_mode"
    | "f = on_volume libs volume_state t commands \<or> f = on_error libs strerror t"
    unfolding command_steps_def by (simp only: list.set insert_iff empty_iff) blast
  then show ?thesis
  proof cases
    case 1
    show ?thesis by (rule command [where act = "press_file libs (- 1)", OF assms(3) [unfolded 1] acts(1)])
  next
    case 2
    show ?thesis by (rule command [where act = "press_file libs 1", OF assms(3) [unfolded 2] acts(1)])
  next
    case 3
    show ?thesis by (rule command [where act = "press_track libs (- 1)", OF assms(3) [unfolded 3] acts(2)])
  next
    case 4
    show ?thesis by (rule command [where act = "press_track libs 1", OF assms(3) [unfolded 4] acts(2)])
  next
    case 5
    show ?thesis by (rule command [where act = "press_pause", OF assms(3) [unfolded 5] acts(3)])
  next
    case 6
    show ?thesis by (rule command [where act = "press_mode", OF assms(3) [unfolded 6] acts(4)])
  next
    case 7
    then show ?thesis by (rule last)
  qed
qed

lemma failed_steps:
  "set fs \<subseteq> set (command_steps libs strerror volume_state t commands) \<Longrightarrow> al_failed (cd_loop d) \<Longrightarrow>
   run_steps fs d = Some d' \<Longrightarrow> al_failed (cd_loop d')"
proof (induction fs arbitrary: d)
  case (Cons f fs)
  then obtain d1 where d1: "f d = Some d1" "run_steps fs d1 = Some d'" by (auto split: option.splits)
  have "f \<in> set (command_steps libs strerror volume_state t commands)" using Cons.prems(1) by simp
  from failed_step [where d = d, OF Cons.prems(2) this d1(1)] have "al_failed (cd_loop d1)" .
  then show ?case using Cons.IH [of d1] Cons.prems(1) d1(2) by auto
qed simp

lemma draw_frame_loop:
  assumes "draw_frame libs t d = Some (ok, d')"
  shows "d' = d \<or> (\<exists>d1. run_background libs (pt_background t 8) d = Some d1 \<and> cd_loop d' = cd_loop d1)"
proof (cases "cd_dirty d \<or> cd_frame d mod 2 = 0")
  case True
  then obtain d1 canvas where d1: "run_background libs (pt_background t 8) d = Some d1"
    "render_player libs (cd_player d1) (cd_status d1) (cd_volume d1) = Some canvas"
    using assms unfolding draw_frame_def by (auto split: option.splits)
  obtain r fb where "present_rgb565 (Some (canvas_bytes canvas)) 624 224 (nat kCanvasWidth * 2) (cd_framebuffer d1) = (r, fb)"
    by fastforce
  then show ?thesis using assms True d1 unfolding draw_frame_def by (cases r) auto
next
  case False
  then have "d' = d" using assms unfolding draw_frame_def by simp
  then show ?thesis ..
qed

lemma failed_playback_is_final:
  "al_failed (cd_loop d) \<Longrightarrow> chiptune_loop libs strerror volume_state ts d = Some (r, d') \<Longrightarrow> al_failed (cd_loop d')"
proof (induction ts arbitrary: d)
  case (Cons t ts)
  obtain r1 d1 where d1: "chiptune_frame libs strerror volume_state t d = Some (r1, d1)"
    using Cons.prems(2) by (auto split: option.splits)
  obtain commands input where rd: "read_commands (pt_input t) (cd_input d) = (commands, input)" by fastforce
  have "al_failed (cd_loop d1)"
  proof (cases "pt_shutdown t \<or> commands AND ControlBack \<noteq> 0")
    case True
    then show ?thesis using d1 Cons.prems(1) unfolding chiptune_frame_def rd prod.case Let_def
      by (cases "pt_shutdown t") auto
  next
    case False
    then obtain d2 ok d3 where d2: "run_steps (command_steps libs strerror volume_state t commands) (d\<lparr>cd_input := input\<rparr>) = Some d2"
      and d3: "draw_frame libs t d2 = Some (ok, d3)" "cd_loop d1 = cd_loop d3"
    proof (cases "run_steps (command_steps libs strerror volume_state t commands) (d\<lparr>cd_input := input\<rparr>)")
      case None
      then show ?thesis using d1 False unfolding chiptune_frame_def rd prod.case Let_def by simp
    next
      case (Some d2)
      show ?thesis
      proof (cases "draw_frame libs t d2")
        case None
        then show ?thesis using d1 False Some unfolding chiptune_frame_def rd prod.case Let_def by simp
      next
        case drawn: (Some result)
        obtain ok d3 where result: "result = (ok, d3)" by fastforce
        have "cd_loop d1 = cd_loop d3"
          using d1 False Some drawn unfolding result chiptune_frame_def rd prod.case Let_def by (cases ok) auto
        then show ?thesis using that [OF Some, of ok d3] drawn result by simp
      qed
    qed
    have "al_failed (cd_loop d2)" using failed_steps [OF subset_refl _ d2] Cons.prems(1) by simp
    then have "al_failed (cd_loop d3)"
      using draw_frame_loop [OF d3(1)] failed_background [OF \<open>al_failed (cd_loop d2)\<close>] by metis
    then show ?thesis by (simp only: d3(2))
  qed
  then show ?case using Cons.IH [of d1] Cons.prems(2) d1 by (cases r1) (auto simp: loop_stop_def)
qed simp

text \<open>A volume that cannot be set silences the player although the old one stays on the screen.\<close>

lemma failed_volume_change_silences:
  assumes "commands AND (ControlVolumeDown OR ControlVolumeUp) \<noteq> 0" "requested_volume commands (cd_volume d) \<noteq> cd_volume d"
    "run_background libs (pt_background t 6) d = Some d1"
    "audio_open_device (pt_dsp t) (nat kSampleRate) (requested_volume commands (cd_volume d)) kAudioFragments (cd_audio d1) = Some (Inl e, au)"
    "on_volume libs volume_state t commands d = Some d'"
  shows "\<not> available (cd_audio d') \<and> cd_volume d' = cd_volume d1"
proof -
  have "\<not> available au"
    using assms(4) by (auto simp: audio_open_device_def Let_def audio_close_device_def available_def write_all_def
        split: if_splits option.splits bool.splits prod.splits)
  moreover have "d' = d1\<lparr>cd_audio := au\<rparr>" using assms by (simp add: on_volume_def Let_def)
  ultimately show ?thesis by simp
qed

section \<open>The preview\<close>

lemma channel_inject:
  assumes "(a * 255) div m = (b * 255) div m" "0 < m" "m \<le> (255 :: nat)"
  shows "a = b"
proof -
  have less: "(x * 255) div m < (y * 255) div m" if "x < y" for x y
  proof -
    have "x * 255 + m \<le> y * 255" using that assms(3) by linarith
    then have "(x * 255 + m) div m \<le> (y * 255) div m" by (rule div_le_mono)
    moreover have "(x * 255 + m) div m = x * 255 div m + 1" using assms(2) by (simp add: div_add_self2)
    ultimately show ?thesis by linarith
  qed
  show ?thesis using less [of a b] less [of b a] assms(1) by (cases a b rule: linorder_cases) auto
qed

lemma channel_small:
  assumes "v \<le> m" "0 < m"
  shows "v * 255 div m < (256 :: nat)"
proof -
  have "v * 255 div m \<le> (m * 255) div m" using assms(1) by (intro div_le_mono mult_le_mono1)
  then show ?thesis using assms(2) by simp
qed

lemma char_of_inject: "char_of m = char_of n \<Longrightarrow> m < 256 \<Longrightarrow> n < 256 \<Longrightarrow> m = (n :: nat)"
  using byte_of_char_of [of m] byte_of_char_of [of n] by simp

lemma masked_unat: "unat (x AND mask n) = take_bit n (unat (x :: u16))"
  by (simp flip: take_bit_eq_mask add: unsigned_take_bit_eq)

lemma shown_channel_inject:
  assumes "char_of (unat (x AND mask n) * 255 div (2 ^ n - 1)) = (char_of (unat (y AND mask n) * 255 div (2 ^ n - 1)) :: char)"
    "0 < n" "n \<le> 8"
  shows "take_bit n (x :: u16) = take_bit n y"
proof -
  have small: "unat (z AND mask n) \<le> 2 ^ n - 1" for z :: u16
    using take_bit_nat_less_exp [of n "unat z"] unfolding masked_unat by linarith
  have "(2 :: nat) ^ n \<le> 2 ^ 8" using assms(3) by (intro power_increasing) auto
  then have "2 ^ n - 1 \<le> (255 :: nat)" by simp
  moreover have pos: "0 < (2 :: nat) ^ n - 1" using assms(2) one_less_power [of "2 :: nat" n] by simp
  ultimately have "unat (x AND mask n) = unat (y AND mask n)"
    using channel_inject [OF char_of_inject [OF assms(1) channel_small [OF small pos] channel_small [OF small pos]] pos] by simp
  then have "x AND mask n = y AND mask n" by (rule unsigned_word_eqI)
  then show ?thesis by (simp only: take_bit_eq_mask)
qed

lemma preview_pixel_inject: "preview_pixel p = preview_pixel q \<longleftrightarrow> p = q"
proof
  assume eq: "preview_pixel p = preview_pixel q"
  have masks: "0x1f = (mask 5 :: u16)" "0x3f = (mask 6 :: u16)" by (simp_all add: mask_eq_exp_minus_1)
  have "take_bit 5 (drop_bit 11 p) = take_bit 5 (drop_bit 11 q)" "take_bit 6 (drop_bit 5 p) = take_bit 6 (drop_bit 5 q)"
    "take_bit 5 p = take_bit 5 q"
    by (rule shown_channel_inject; use eq in \<open>simp add: preview_pixel_def masks\<close>)+
  then have bits: "bit (take_bit 5 (drop_bit 11 p)) n = bit (take_bit 5 (drop_bit 11 q)) n"
    "bit (take_bit 6 (drop_bit 5 p)) n = bit (take_bit 6 (drop_bit 5 q)) n" "bit (take_bit 5 p) n = bit (take_bit 5 q) n" for n
    by simp_all
  show "p = q"
  proof (rule bit_word_eqI)
    fix n assume "n < LENGTH(16)"
    then consider "n < 5" | "5 \<le> n" "n < 11" | "11 \<le> n" "n < 16" by force
    then show "bit p n = bit q n"
      by cases (use bits(1) [of "n - 11"] bits(2) [of "n - 5"] bits(3) [of n] in \<open>auto simp: bit_take_bit_iff bit_drop_bit_eq\<close>)
  qed
qed simp

lemma length_preview_pixel: "length (preview_pixel p) = 3"
  by (simp add: preview_pixel_def)

text \<open>
  The preview written to a file shows exactly the screen: the widening of the channels loses
  nothing, so two screens with the same preview are the same.
\<close>
theorem preview_faithful: "preview_bytes c1 = preview_bytes c2 \<longleftrightarrow> c1 = c2"
proof -
  have "concat (map preview_pixel c1) = concat (map preview_pixel c2) \<Longrightarrow> c1 = c2"
  proof (induction c1 arbitrary: c2)
    case Nil
    then show ?case using length_preview_pixel by (cases c2) (auto simp flip: length_0_conv)
  next
    case (Cons p c1)
    then obtain q c2' where c2: "c2 = q # c2'" using length_preview_pixel [of p] by (cases c2) auto
    then have "preview_pixel p = preview_pixel q \<and> concat (map preview_pixel c1) = concat (map preview_pixel c2')"
      using Cons.prems length_preview_pixel append_eq_append_conv [of "preview_pixel p" "preview_pixel q"] by simp
    then show ?case using Cons.IH c2 preview_pixel_inject by simp
  qed
  then show ?thesis by (auto simp: preview_bytes_def)
qed

section \<open>Witnesses\<close>

definition example_player_start :: player_start where
  "example_player_start = \<lparr>ps_directory = ''/m'', ps_listing = None, ps_hint = True, ps_framebuffer = example_kernel,
     ps_entries = None, ps_volume = Some ''0'', ps_dsp = example_dsp, ps_process = 7, ps_thread_ok = True\<rparr>"

text \<open>Between the sections of its turns the playback thread and the writer run.\<close>

definition example_turn :: player_turn where
  "example_turn = \<lparr>pt_shutdown = False, pt_input = \<lparr>ti_touch = [], ti_pads = []\<rparr>,
     pt_background = (\<lambda>n. [Playback, Writer Take_chunk]), pt_dsp = example_dsp\<rparr>"

lemma example_dsp_plain: "dsp_plain example_dsp"
  unfolding dsp_plain_def
  by (intro conjI allI impI)
    (simp_all add: example_dsp_def configured_def requested_rate_def kSampleRate_def audio_open_device_def Let_def
      prefill_frames_def write_all_def sample_bytes_def)

lemma example_player_starts:
  "\<exists>d. chiptune_start simple_codecs (\<lambda>e. ''EIO'') example_player_start music_world = Some (Inr d) \<and> cd_dirty d"
proof -
  have files: "scan_chiptunes ''/m'' 5 None [] = []" by (simp add: eval_nat_numeral)
  have fb: "\<exists>fb. fb_open_device example_kernel (created_framebuffer True) = (Inr (), fb)"
    by (simp add: fb_open_device_def Let_def example_kernel_def fb_rows_def fb_supported_def)
  have audio: "\<exists>r au. audio_open_device example_dsp (nat kSampleRate) v kAudioFragments created_audio = Some (r, au)" for v
    using audio_open_plain [OF example_dsp_plain] by blast
  have volume: "DeckReadVolumePercent (Some ''0'') = (True, 0)"
    by (simp add: DeckReadVolumePercent_def is_digit_def digit_value_def byte_of_def)
  show ?thesis
    using files fb audio [of 0] volume
    by (auto simp: chiptune_start_def example_player_start_def Let_def loop_start_def created_loop_def)
qed


theorem player_screen_shown_witness:
  "\<exists>d d' canvas. draw_frame simple_codecs example_turn d = Some (True, d') \<and>
     render_player simple_codecs (cd_player d') (cd_status d') (cd_volume d') = Some canvas \<and>
     fb_memory (cd_framebuffer d') = panel_contents 624 224 (\<lambda>x y. canvas ! (y * 624 + x)) (cd_framebuffer d)"
proof -
  obtain d where start: "chiptune_start simple_codecs (\<lambda>e. ''EIO'') example_player_start music_world = Some (Inr d)"
    and dirty: "cd_dirty d" using example_player_starts by blast
  have "dsp_plain (ps_dsp example_player_start)" "even (k_smem_len (ps_framebuffer example_player_start))"
    "\<forall>t \<in> set []. dsp_plain (pt_dsp t)"
    using example_dsp_plain by (simp_all add: example_player_start_def example_kernel_def)
  from player_screen_shown [OF simple_codecs_laws simple_codecs_short this(1,2) start this(3), where volume_state = "''/v''" and r = None and d = d and t = example_turn]
    dirty show ?thesis by simp blast
qed

end
