(* ===== verification/Spec2Isabelle.thy ===== *)
theory Spec2Isabelle
  imports Nes_Sram Menu_Text Menu_Catalog Menu_Credits Joypad_Input Deck_Audio Menu_Sound Ten_Seconds
    Menu_Screens Menu_Pads Managed_Child Menu_Options Dashboard_Launch Dashboard_Screens
    Chip8_Deck Libretro_Session Chiptune_Deck
begin

text \<open>
  Verification of Retro Deck, a console dashboard and its emulator frontends for a 32-bit Linux
  board with a 600 by 1280 portrait panel that is used as a 1280 by 480 landscape display.

  The program.  \<open>src/src/deck_menu.cpp\<close> is the dashboard: it loads a game catalogue
  (\<open>menu_catalog.cpp\<close>) and credits (\<open>menu_credits.cpp\<close>), keeps the user's volume, brightness and
  keymap in small state files (\<open>menu_state.cpp\<close>), draws with \<open>menu_ui.cpp\<close>, plays cues with
  \<open>menu_sound.cpp\<close> and starts one frontend process per game.  A frontend
  (\<open>libretro_deck.cpp\<close>, \<open>chip8_deck.cpp\<close>, \<open>chiptune_deck.cpp\<close>, \<open>ten_seconds_deck.cpp\<close>) presents
  frames and sound through \<open>deck_runtime.cpp\<close>, reads controllers through \<open>joypad_input.cpp\<close> and
  stores battery saves with the codec of \<open>nes_sram.h\<close>.

  The theories, in the order in which they build on each other:

    \<^item> \<open>Deck_Prelude\<close>: bytes, characters, decimal numerals, buffer copies, truncating division.
    \<^item> \<open>Nes_Sram\<close>: the run-length codec of battery saves; round trip, capacity bound.
    \<^item> \<open>Menu_Text\<close>: \<open>menu_text.cpp\<close>; UTF-8 validation against a reference definition, the ASCII
      rendering of validated text, tab splitting.
    \<^item> \<open>Posix_World\<close>: a file system of inodes and names, with the outcomes of the calls the
      dashboard makes as oracles; what each call changes and leaves alone.
    \<^item> \<open>Menu_State\<close>: \<open>menu_state.cpp\<close> and \<open>menu_io.cpp\<close>; atomic replacement of a state file,
      canonical loading, round trips of the three settings.  The locale \<open>state_setting\<close> states what
      a setting's text form must satisfy and is interpreted for volume, keymap and brightness.
    \<^item> \<open>Menu_Catalog\<close>: \<open>menu_catalog.cpp\<close>; the manifest parser, ROM validation, tape images.
    \<^item> \<open>Raster\<close>: canvases of RGB565 pixels with a clipped rectangle fill whose undefined case
      (an inverted \<open>std::fill\<close> range) is \<open>None\<close>; the locale \<open>raster\<close> is what drawing code relies on,
      interpreted for the dashboard's and the game's canvas.
    \<^item> \<open>Menu_UI\<close>, \<open>Menu_Credits\<close>: drawing, text fitting, the credits file and its crawl.
    \<^item> \<open>Evdev\<close>, \<open>Joypad_Input\<close>: input events; the input thread of the frontends, with device scans,
      event draining and pad words as a step relation and its invariant.
    \<^item> \<open>Deck_Video\<close>: the framebuffer half of \<open>deck_runtime.cpp\<close>; the integer scaling layout, the
      rotated staging buffer, publication, the exit hint.  A presented frame is characterised
      pixel by pixel, the row-wise RGB565 path equals the generic one, all writes are in bounds.
    \<^item> \<open>Deck_Audio\<close>: the audio half; device set-up, mixer, resampler, the ring between the emulator
      and the writer thread (the locale \<open>lossy_queue\<close> and its interpretation), the two threads as
      a step relation, frame pacing.
    \<^item> \<open>Menu_Palette\<close>, \<open>Menu_Covers\<close>, \<open>Menu_Network\<close>: what the dashboard's screens show: the palette file,
      cover images (PPM decoded here, PNG decoded by a library that is a parameter), the network
      status.
    \<^item> \<open>Menu_Screens\<close>: the game menu, the settings and the Wi-Fi editor of \<open>deck_menu.cpp\<close>: layout,
      drawing and touch targets; when drawing is defined, and that touches reach the right button.
    \<^item> \<open>Menu_Touch\<close>, \<open>Menu_Pads\<close>: the dashboard's touchscreen, gamepads and keyboards.  The locale
      \<open>device_scan\<close> states what a scan for devices has to account for and is interpreted for both
      device classes; the guard bounds how fast a controller can drive the menu.
    \<^item> \<open>Menu_Framebuffer\<close>: the dashboard's own panel: opening, presenting, the mirror of the console
      and the geometry self test, which is proved to succeed.
    \<^item> \<open>Managed_Child\<close>: the programs the dashboard starts and supervises; which signals they get and
      that a finger held on the screen ends every one of them.
    \<^item> \<open>Menu_Options\<close>: the dashboard's command line, characterised exactly, the volume on its way from
      the environment into a program's environment, and the Wi-Fi editor.
    \<^item> \<open>Dashboard\<close>: \<open>application_main\<close> and \<open>main\<close>: the start, one turn of the event loop, launching;
      \<open>Dashboard_Safety\<close>, \<open>Dashboard_Launch\<close>, \<open>Dashboard_Screens\<close>: invariants over all turns, namely a
      consistent state, authorised launches, and a screen that follows the state.
    \<^item> \<open>Tone\<close>, \<open>Menu_Sound\<close>: note synthesis shared by two programs, cues, input quarantine.
    \<^item> \<open>Ten_Seconds\<close>: the ten-second game: screen, devices, touch, gamepads and the main loop,
      composed with \<open>Deck_Video\<close>.
    \<^item> \<open>Deck_Frontend\<close>: what the emulator frontends share of \<open>Deck_Video\<close> and \<open>Deck_Audio\<close>.
    \<^item> \<open>Chip8_Deck\<close>: the CHIP-8 frontend: configuration file, ROM, keypad, frames, the main loop.  The
      emulator is a parameter whose instruction is assumed to leave its options alone.
    \<^item> \<open>Libretro_Save\<close>, \<open>Libretro_Deck\<close>, \<open>Libretro_Session\<close>: the libretro frontend and
      \<open>zx_keyboard.h\<close>: battery saves and their migration, the callbacks a core makes, the start and
      the main loop.  A core is any sequence of callbacks per call; whatever fails, its saves are
      complete, and without faults a session ends with the core's last memories on the disk.
    \<^item> \<open>Chiptune_Files\<close>, \<open>Chiptune_Player\<close>, \<open>Chiptune_Playing\<close>, \<open>Chiptune_Tick\<close>, \<open>Chiptune_Input\<close>,
      \<open>Chiptune_Screen\<close>, \<open>Chiptune_Deck\<close>: the chiptune player: the search for music, the playlist
      and the transport, the samples of a tick, the input, the screen, the playback thread, the main
      loop and the command line tools.  The music libraries are the fields of a record; the
      predicates \<open>stream_laws\<close> and \<open>pcm_laws\<close> state what the Vorbis library documents of its reads,
      \<open>short_tracks\<close> bounds the lengths for which the progress bar is defined.  The mutex makes
      every locked section a step; any number of turns of the other threads run before each.

  Conventions.  A C++ function is a definition of the same name; a definition that stands for a
  loop or a block inside a function is named after what the block does.  Mutable objects are
  records returned updated, errors are values (\<open>None\<close>, \<open>Inl\<close> or a flag together with the state
  left behind), and undefined behaviour of the source is \<open>None\<close> where a definition can reach it.
  What the kernel answers (results of \<open>open\<close>, \<open>read\<close>, \<open>write\<close>, \<open>ioctl\<close>, \<open>poll\<close>, \<open>waitpid\<close>, the
  clock) is an argument: a record of answers, or a script of results that a loop consumes.  A loop
  over a script needs no fuel; where the end of the script is not an answer of the device it is
  \<open>None\<close>, and \<open>write_all_terminates\<close> says how long a script is long enough.  Integers that
  provably stay far from the ends of their type are \<open>int\<close> or \<open>nat\<close>; words are used where bits or
  wrap-around matter, and the lemmas \<open>scaled_fits\<close> and \<open>position_fits\<close> justify the resampler's
  64-bit values.  In \<open>Dashboard\<close> the kernel's answers are functions of a counter instead of scripts.

  Findings.  The modelling showed defects of the code: an inverted fill range beside the canvas
  (\<open>Menu_UI.fill_rect_undefined\<close>) which the menu reaches with 54 games of one system
  (\<open>Menu_Screens.render_menu_defined_iff\<close>), overflow of the resampler's product
  (\<open>Deck_Audio.resample_overflows\<close>), a button that two keys share (\<open>Joypad_Input\<close>), a
  reboot prompt that stays on the screen after its cancellation (\<open>Dashboard_Screens\<close>), a tap that
  redirects a confirmed reboot (\<open>Dashboard_Launch.reboot_runs_last_choice\<close>), saves that a stale temporary
  file blocks for good (\<open>Libretro_Save.stale_temporary_blocks_saves\<close>), a progress bar that overflows
  (\<open>Chiptune_Screen.long_track_overflows\<close>), a short file that cannot be looped
  (\<open>Chiptune_Tick.loop_one_short_file\<close>), a player that one playback error silences for good
  (\<open>Chiptune_Deck.failed_playback_is_final\<close>), and others that the manifest lists.

  Not modelled: the emulator cores and music libraries (outside the sources), the Wayland client,
  the vendored terminal emulator, the moving credits (floating point), signal handlers, the waiting
  for the next frame in the players' loops and messages on the error stream.
\<close>

end
